(* ===== verification/Prelude.thy ===== *)
theory Prelude
  imports Main "HOL-Library.Word"
begin

text \<open>
  Shared vocabulary of the development: the machine integers of the C++ sources, byte strings,
  little-endian loads and stores, association lists for the sources' maps, and the named
  collections that carry the component proofs.

  Conventions. \<open>uint8_t\<close> .. \<open>uint64_t\<close> are words of that width. \<open>size_t\<close> is \<open>nat\<close> and a 64-bit
  time or byte counter is \<open>int\<close>: none of them comes near its range in the code modelled here
  (microsecond clocks, byte counts bounded by the program's own caps). \<open>std::string\<close> is a list of
  bytes. A map is an association list with distinct keys: the sources iterate over
  \<open>unordered_map\<close>s, whose order is unspecified, and every theorem holds for every list order.
\<close>

unbundle bit_operations_syntax

type_synonym u8 = "8 word"
type_synonym u16 = "16 word"
type_synonym u32 = "32 word"
type_synonym u64 = "64 word"
type_synonym bytes = "u8 list"

named_theorems wire_simps "evaluation of the wire format readers and writers"
named_theorems inv_intros "invariant preservation, one rule per operation"

section \<open>Strings\<close>

definition str :: "string \<Rightarrow> bytes" where
  "str s = map of_char s"

lemma length_str [simp]: "length (str s) = length s"
  by (simp add: str_def)

section \<open>Little-endian stores and loads\<close>

text \<open>The sources shift and mask by hand in \<open>BinaryWriter\<close> and use \<open>memcpy\<close> elsewhere; both give
  the little-endian image on every platform the program is built for.\<close>

definition le16 :: "u16 \<Rightarrow> bytes" where
  "le16 v = [ucast (v AND 0xFF), ucast (drop_bit 8 v AND 0xFF)]"

definition le32 :: "u32 \<Rightarrow> bytes" where
  "le32 v = [ucast (v AND 0xFF), ucast (drop_bit 8 v AND 0xFF),
             ucast (drop_bit 16 v AND 0xFF), ucast (drop_bit 24 v AND 0xFF)]"

definition le64 :: "u64 \<Rightarrow> bytes" where
  "le64 v = map (\<lambda>i. ucast (drop_bit (i * 8) v AND 0xFF)) [0..<8]"

definition of_le16 :: "bytes \<Rightarrow> u16" where
  "of_le16 bs = ucast (bs ! 0) OR push_bit 8 (ucast (bs ! 1))"

definition of_le32 :: "bytes \<Rightarrow> u32" where
  "of_le32 bs = ucast (bs ! 0) OR push_bit 8 (ucast (bs ! 1))
                OR push_bit 16 (ucast (bs ! 2)) OR push_bit 24 (ucast (bs ! 3))"

definition of_le64 :: "bytes \<Rightarrow> u64" where
  "of_le64 bs = foldl (\<lambda>acc i. acc OR push_bit (i * 8) (ucast (bs ! i))) 0 [0..<8]"

lemma length_le16 [simp]: "length (le16 v) = 2"
  by (simp add: le16_def)

lemma length_le32 [simp]: "length (le32 v) = 4"
  by (simp add: le32_def)

lemma length_le64 [simp]: "length (le64 v) = 8"
  by (simp add: le64_def)

lemma mask8: "(0xFF :: 'a::len word) = mask 8"
  by (simp add: mask_eq_exp_minus_1)

lemma bit_byte:
  fixes v :: "'a::len word"
  shows "bit (push_bit m (ucast (ucast (drop_bit m v AND mask 8) :: u8) :: 'a word)) k
           \<longleftrightarrow> m \<le> k \<and> k < m + 8 \<and> bit v k"
  by (auto simp: bit_simps dest: bit_imp_le_length)

lemma bit_byte0:
  fixes v :: "'a::len word"
  shows "bit (ucast (ucast (v AND mask 8) :: u8) :: 'a word) k \<longleftrightarrow> k < 8 \<and> bit v k"
  using bit_byte [of 0 v k] by simp

lemma upt_8: "[0..<8] = [0, 1, 2, 3, 4, 5, 6, 7::nat]"
  by (simp add: upt_rec)

lemma of_le16_le16 [simp]: "of_le16 (le16 v @ xs) = v"
proof (rule bit_word_eqI)
  fix k :: nat
  assume "k < LENGTH(16)"
  then show "bit (of_le16 (le16 v @ xs)) k \<longleftrightarrow> bit v k"
    unfolding of_le16_def le16_def mask8
    by (simp only: append_Cons nth_Cons_0 nth_Cons_Suc One_nat_def bit_or_iff bit_byte bit_byte0)
       (simp, linarith)
qed

lemma of_le32_le32 [simp]: "of_le32 (le32 v @ xs) = v"
proof (rule bit_word_eqI)
  fix k :: nat
  assume "k < LENGTH(32)"
  then show "bit (of_le32 (le32 v @ xs)) k \<longleftrightarrow> bit v k"
    unfolding of_le32_def le32_def mask8
    by (simp only: append_Cons nth_Cons_0 nth_Cons_numeral nth_Cons_Suc One_nat_def diff_Suc_1
          numeral_2_eq_2 numeral_3_eq_3 bit_or_iff bit_byte bit_byte0)
       (simp, linarith)
qed

lemma of_le64_unfold:
  "of_le64 bs = ucast (bs ! 0) OR push_bit 8 (ucast (bs ! 1))
                OR push_bit 16 (ucast (bs ! 2)) OR push_bit 24 (ucast (bs ! 3))
                OR push_bit 32 (ucast (bs ! 4)) OR push_bit 40 (ucast (bs ! 5))
                OR push_bit 48 (ucast (bs ! 6)) OR push_bit 56 (ucast (bs ! 7))"
  unfolding of_le64_def upt_8 by (simp add: or.assoc)

lemma le64_nth: "i < 8 \<Longrightarrow> (le64 v @ xs) ! i = ucast (drop_bit (i * 8) v AND mask 8)"
  by (simp add: le64_def nth_append mask8)

lemma of_le64_le64 [simp]: "of_le64 (le64 v @ xs) = v"
proof (rule bit_word_eqI)
  fix k :: nat
  assume "k < LENGTH(64)"
  then show "bit (of_le64 (le64 v @ xs)) k \<longleftrightarrow> bit v k"
    unfolding of_le64_unfold
    by (simp add: le64_nth bit_or_iff bit_byte bit_byte0 del: bit_push_bit_iff) linarith
qed

end
