(* ===== verification/Serialization.thy ===== *)
theory Serialization
  imports Prelude
begin

text \<open>
  \<open>common/include/parties/serialization.h\<close> and \<open>common/src/serialization.cpp\<close>: the binary
  writer and reader every control message goes through. The writer is the byte string it has
  accumulated; a write appends. The reader keeps the buffer, the position and the sticky error
  flag; a short read sets the flag, yields the zero value and leaves the position.
\<close>

section \<open>BinaryWriter\<close>

definition write_u8 :: "u8 \<Rightarrow> bytes \<Rightarrow> bytes" where
  "write_u8 val buf = buf @ [val]"

definition write_u16 :: "u16 \<Rightarrow> bytes \<Rightarrow> bytes" where
  "write_u16 val buf = buf @ le16 val"

definition write_u32 :: "u32 \<Rightarrow> bytes \<Rightarrow> bytes" where
  "write_u32 val buf = buf @ le32 val"

definition write_u64 :: "u64 \<Rightarrow> bytes \<Rightarrow> bytes" where
  "write_u64 val buf = buf @ le64 val"

definition write_bytes :: "bytes \<Rightarrow> bytes \<Rightarrow> bytes" where
  "write_bytes d buf = buf @ d"

text \<open>The length goes out as a \<open>uint16_t\<close>, the bytes go out whole.\<close>

definition write_string :: "bytes \<Rightarrow> bytes \<Rightarrow> bytes" where
  "write_string s buf = write_bytes s (write_u16 (of_nat (length s)) buf)"

section \<open>BinaryReader\<close>

record reader =
  rdata :: bytes
  rpos :: nat
  rerr :: bool

definition new_reader :: "bytes \<Rightarrow> reader" where
  "new_reader d = \<lparr>rdata = d, rpos = 0, rerr = False\<rparr>"

definition has_remaining :: "nat \<Rightarrow> reader \<Rightarrow> bool" where
  "has_remaining n r \<longleftrightarrow> rpos r + n \<le> length (rdata r)"

definition remaining :: "reader \<Rightarrow> nat" where
  "remaining r = length (rdata r) - rpos r"

definition rrest :: "reader \<Rightarrow> bytes" where
  "rrest r = drop (rpos r) (rdata r)"

definition read_u8 :: "reader \<Rightarrow> u8 \<times> reader" where
  "read_u8 r = (if \<not> has_remaining 1 r then (0, r\<lparr>rerr := True\<rparr>)
                else (rdata r ! rpos r, r\<lparr>rpos := rpos r + 1\<rparr>))"

definition read_u16 :: "reader \<Rightarrow> u16 \<times> reader" where
  "read_u16 r = (if \<not> has_remaining 2 r then (0, r\<lparr>rerr := True\<rparr>)
                 else (of_le16 (drop (rpos r) (rdata r)), r\<lparr>rpos := rpos r + 2\<rparr>))"

definition read_u32 :: "reader \<Rightarrow> u32 \<times> reader" where
  "read_u32 r = (if \<not> has_remaining 4 r then (0, r\<lparr>rerr := True\<rparr>)
                 else (of_le32 (drop (rpos r) (rdata r)), r\<lparr>rpos := rpos r + 4\<rparr>))"

definition read_u64 :: "reader \<Rightarrow> u64 \<times> reader" where
  "read_u64 r = (if \<not> has_remaining 8 r then (0, r\<lparr>rerr := True\<rparr>)
                 else (of_le64 (drop (rpos r) (rdata r)), r\<lparr>rpos := rpos r + 8\<rparr>))"

definition read_string :: "reader \<Rightarrow> bytes \<times> reader" where
  "read_string r =
     (let (len, r1) = read_u16 r
      in if rerr r1 \<or> \<not> has_remaining (unat len) r1 then ([], r1\<lparr>rerr := True\<rparr>)
         else (take (unat len) (drop (rpos r1) (rdata r1)), r1\<lparr>rpos := rpos r1 + unat len\<rparr>))"

text \<open>\<open>read_bytes\<close> fills the caller's array \<open>out\<close>; on a short read the array keeps its content.\<close>

definition read_bytes :: "bytes \<Rightarrow> nat \<Rightarrow> reader \<Rightarrow> bytes \<times> reader" where
  "read_bytes out len r =
     (if \<not> has_remaining len r then (out, r\<lparr>rerr := True\<rparr>)
      else (take len (drop (rpos r) (rdata r)) @ drop len out, r\<lparr>rpos := rpos r + len\<rparr>))"

lemmas writer_defs = write_u8_def write_u16_def write_u32_def write_u64_def write_bytes_def
  write_string_def

lemmas reader_defs = read_u8_def read_u16_def read_u32_def read_u64_def read_string_def
  read_bytes_def

section \<open>The reader's own invariant\<close>

definition reader_ok :: "reader \<Rightarrow> bool" where
  "reader_ok r \<longleftrightarrow> rpos r \<le> length (rdata r)"

definition reader_step :: "reader \<Rightarrow> reader \<Rightarrow> bool" where
  "reader_step r r' \<longleftrightarrow> rdata r' = rdata r \<and> rpos r \<le> rpos r' \<and> (rerr r \<longrightarrow> rerr r')
     \<and> (reader_ok r \<longrightarrow> reader_ok r')"

lemma reader_step_trans: "reader_step a b \<Longrightarrow> reader_step b c \<Longrightarrow> reader_step a c"
  by (auto simp: reader_step_def)

lemma new_reader_ok [simp]: "reader_ok (new_reader d)"
  by (simp add: reader_ok_def new_reader_def)

lemma step_read_u8: "reader_step r (snd (read_u8 r))"
  and step_read_u16: "reader_step r (snd (read_u16 r))"
  and step_read_u32: "reader_step r (snd (read_u32 r))"
  and step_read_u64: "reader_step r (snd (read_u64 r))"
  and step_read_bytes: "reader_step r (snd (read_bytes out n r))"
  by (auto simp: reader_step_def reader_ok_def has_remaining_def reader_defs)

lemma step_read_string: "reader_step r (snd (read_string r))"
proof -
  obtain v r1 where r1: "read_u16 r = (v, r1)"
    by (cases "read_u16 r")
  with step_read_u16 [of r] have "reader_step r r1"
    by simp
  then show ?thesis
    by (auto simp: read_string_def r1 reader_step_def reader_ok_def has_remaining_def)
qed

lemmas reader_steps = step_read_u8 step_read_u16 step_read_u32 step_read_u64 step_read_bytes
  step_read_string

section \<open>What is left to read\<close>

lemma rrest_advance: "rrest r = ys @ xs \<Longrightarrow> rrest (r\<lparr>rpos := rpos r + length ys\<rparr>) = xs"
proof -
  assume "rrest r = ys @ xs"
  moreover have "drop (rpos r + length ys) (rdata r) = drop (length ys) (drop (rpos r) (rdata r))"
    by (simp add: add.commute)
  ultimately show ?thesis by (simp add: rrest_def)
qed

lemma length_rrest: "length (rrest r) = remaining r"
  by (simp add: rrest_def remaining_def)

lemma rrest_has_ok: "rrest r = ys @ xs \<Longrightarrow> reader_ok r \<Longrightarrow> has_remaining (length ys) r"
  by (drule arg_cong [where f = length])
     (simp add: length_rrest remaining_def has_remaining_def reader_ok_def)

lemma rrest_has: "rrest r = ys @ xs \<Longrightarrow> length ys = n \<Longrightarrow> 0 < n \<Longrightarrow> has_remaining n r"
  by (drule arg_cong [where f = length])
     (simp add: length_rrest remaining_def has_remaining_def)

section \<open>The codec interface\<close>

text \<open>
  What a field of a message promises: reading the bytes its writer appended gives the value back
  and leaves exactly what followed, without touching the error flag; a reader that lacks the
  bytes ends in error. \<open>adm\<close> says which values the encoding can carry.
\<close>

locale wire_codec =
  fixes write_f :: "'a \<Rightarrow> bytes \<Rightarrow> bytes"
    and read_f :: "reader \<Rightarrow> 'a \<times> reader"
    and enc :: "'a \<Rightarrow> bytes"
    and adm :: "'a \<Rightarrow> bool"
  assumes write_enc: "write_f v buf = buf @ enc v"
    and read_enc: "adm v \<Longrightarrow> rrest r = enc v @ xs \<Longrightarrow>
          read_f r = (v, r\<lparr>rpos := rpos r + length (enc v)\<rparr>)"
    and read_step: "reader_step r (snd (read_f r))"
begin

lemma read_new: "adm v \<Longrightarrow> fst (read_f (new_reader (write_f v []))) = v"
  using read_enc [of v "new_reader (enc v)" "[]"] by (simp add: write_enc rrest_def new_reader_def)

lemma error_sticky: "rerr r \<Longrightarrow> rerr (snd (read_f r))"
  using read_step [of r] by (simp add: reader_step_def)

primrec write_list :: "'a list \<Rightarrow> bytes \<Rightarrow> bytes" where
  "write_list [] buf = buf"
| "write_list (v # vs) buf = write_list vs (write_f v buf)"

primrec read_list :: "nat \<Rightarrow> reader \<Rightarrow> 'a list \<times> reader" where
  "read_list 0 r = ([], r)"
| "read_list (Suc n) r = (let (v, r1) = read_f r; (vs, r2) = read_list n r1 in (v # vs, r2))"

lemma write_list_enc: "write_list vs buf = buf @ concat (map enc vs)"
  by (induction vs arbitrary: buf) (simp_all add: write_enc)

lemma read_list_enc:
  "list_all adm vs \<Longrightarrow> rrest r = concat (map enc vs) @ xs \<Longrightarrow>
     read_list (length vs) r = (vs, r\<lparr>rpos := rpos r + length (concat (map enc vs))\<rparr>)"
proof (induction vs arbitrary: r)
  case Nil
  then show ?case by simp
next
  case (Cons v vs)
  let ?r1 = "r\<lparr>rpos := rpos r + length (enc v)\<rparr>"
  from Cons.prems have eq: "rrest r = enc v @ (concat (map enc vs) @ xs)" by simp
  with Cons.prems have "read_f r = (v, ?r1)" by (simp add: read_enc)
  moreover from Cons.prems eq have
    "read_list (length vs) ?r1 = (vs, ?r1\<lparr>rpos := rpos ?r1 + length (concat (map enc vs))\<rparr>)"
    by (intro Cons.IH) (simp_all add: rrest_advance)
  ultimately show ?case by (simp add: add.assoc)
qed

end

section \<open>Every field type is a codec\<close>

definition enc_string :: "bytes \<Rightarrow> bytes" where
  "enc_string s = le16 (of_nat (length s)) @ s"

definition string_fits :: "bytes \<Rightarrow> bool" where
  "string_fits s \<longleftrightarrow> length s < 65536"

interpretation c8: wire_codec write_u8 read_u8 "\<lambda>v. [v]" "\<lambda>_. True"
proof
  fix v :: u8 and r xs
  assume a: "rrest r = [v] @ xs"
  then have "has_remaining 1 r" by (rule rrest_has) simp_all
  moreover from this have "rdata r ! rpos r = hd (rrest r)"
    by (simp add: rrest_def has_remaining_def hd_drop_conv_nth)
  ultimately show "read_u8 r = (v, r\<lparr>rpos := rpos r + length [v]\<rparr>)"
    using a by (simp add: read_u8_def)
qed (simp_all add: write_u8_def step_read_u8)

interpretation c16: wire_codec write_u16 read_u16 le16 "\<lambda>_. True"
proof
  fix v r xs
  assume a: "rrest r = le16 v @ xs"
  then have "has_remaining 2 r" by (rule rrest_has) simp_all
  then show "read_u16 r = (v, r\<lparr>rpos := rpos r + length (le16 v)\<rparr>)"
    using a by (simp add: read_u16_def rrest_def)
qed (simp_all add: write_u16_def step_read_u16)

interpretation c32: wire_codec write_u32 read_u32 le32 "\<lambda>_. True"
proof
  fix v r xs
  assume a: "rrest r = le32 v @ xs"
  then have "has_remaining 4 r" by (rule rrest_has) simp_all
  then show "read_u32 r = (v, r\<lparr>rpos := rpos r + length (le32 v)\<rparr>)"
    using a by (simp add: read_u32_def rrest_def)
qed (simp_all add: write_u32_def step_read_u32)

interpretation c64: wire_codec write_u64 read_u64 le64 "\<lambda>_. True"
proof
  fix v r xs
  assume a: "rrest r = le64 v @ xs"
  then have "has_remaining 8 r" by (rule rrest_has) simp_all
  then show "read_u64 r = (v, r\<lparr>rpos := rpos r + length (le64 v)\<rparr>)"
    using a by (simp add: read_u64_def rrest_def)
qed (simp_all add: write_u64_def step_read_u64)

lemma read_string_enc:
  assumes "rrest r = le16 n @ s @ xs" and "unat n = length s" and "\<not> rerr r"
  shows "read_string r = (s, r\<lparr>rpos := rpos r + 2 + length s\<rparr>)"
proof -
  let ?r1 = "r\<lparr>rpos := rpos r + 2\<rparr>"
  from assms(1) have "read_u16 r = (n, ?r1)"
    using c16.read_enc by simp
  moreover from assms(1) have rest: "rrest ?r1 = s @ xs"
    using rrest_advance [of r "le16 n"] by simp
  moreover have "has_remaining (length s) ?r1"
  proof (cases s)
    case Nil
    from assms(1) have "has_remaining 2 r" by (rule rrest_has) simp_all
    with Nil show ?thesis by (simp add: has_remaining_def)
  next
    case Cons
    with rest show ?thesis by (intro rrest_has [of _ s xs]) simp_all
  qed
  ultimately show ?thesis
    using assms(2,3) by (simp add: read_string_def rrest_def)
qed

text \<open>A string read starts by consulting the error flag, so its law is stated for readers
  without an earlier error; every handler checks the flag before it uses the value.\<close>

lemma write_string_enc: "write_string s buf = buf @ enc_string s"
  by (simp add: write_string_def write_u16_def write_bytes_def enc_string_def)

lemma unat_of_nat_u16: "unat (of_nat n :: u16) = n mod 65536"
  by (simp add: unat_of_nat)

section \<open>Messages as sequences of fields\<close>

datatype field = U8 u8 | U16 u16 | U32 u32 | U64 u64 | Str bytes | Raw bytes

datatype kind = K8 | K16 | K32 | K64 | KStr | KRaw nat

primrec kind_of :: "field \<Rightarrow> kind" where
  "kind_of (U8 v) = K8"
| "kind_of (U16 v) = K16"
| "kind_of (U32 v) = K32"
| "kind_of (U64 v) = K64"
| "kind_of (Str v) = KStr"
| "kind_of (Raw v) = KRaw (length v)"

primrec field_fits :: "field \<Rightarrow> bool" where
  "field_fits (U8 v) = True"
| "field_fits (U16 v) = True"
| "field_fits (U32 v) = True"
| "field_fits (U64 v) = True"
| "field_fits (Str v) = string_fits v"
| "field_fits (Raw v) = True"

primrec write_field :: "field \<Rightarrow> bytes \<Rightarrow> bytes" where
  "write_field (U8 v) buf = write_u8 v buf"
| "write_field (U16 v) buf = write_u16 v buf"
| "write_field (U32 v) buf = write_u32 v buf"
| "write_field (U64 v) buf = write_u64 v buf"
| "write_field (Str v) buf = write_string v buf"
| "write_field (Raw v) buf = write_bytes v buf"

primrec read_field :: "kind \<Rightarrow> reader \<Rightarrow> field \<times> reader" where
  "read_field K8 r = map_prod U8 id (read_u8 r)"
| "read_field K16 r = map_prod U16 id (read_u16 r)"
| "read_field K32 r = map_prod U32 id (read_u32 r)"
| "read_field K64 r = map_prod U64 id (read_u64 r)"
| "read_field KStr r = map_prod Str id (read_string r)"
| "read_field (KRaw n) r = map_prod Raw id (read_bytes (replicate n 0) n r)"

definition write_fields :: "field list \<Rightarrow> bytes \<Rightarrow> bytes" where
  "write_fields fs buf = fold write_field fs buf"

primrec read_fields :: "kind list \<Rightarrow> reader \<Rightarrow> field list \<times> reader" where
  "read_fields [] r = ([], r)"
| "read_fields (k # ks) r =
     (let (f, r1) = read_field k r; (fs, r2) = read_fields ks r1 in (f # fs, r2))"

primrec enc_field :: "field \<Rightarrow> bytes" where
  "enc_field (U8 v) = [v]"
| "enc_field (U16 v) = le16 v"
| "enc_field (U32 v) = le32 v"
| "enc_field (U64 v) = le64 v"
| "enc_field (Str v) = enc_string v"
| "enc_field (Raw v) = v"

lemma write_field_enc: "write_field f buf = buf @ enc_field f"
  by (cases f) (simp_all add: writer_defs enc_string_def)

lemma write_fields_enc: "write_fields fs buf = buf @ concat (map enc_field fs)"
  unfolding write_fields_def by (induction fs arbitrary: buf) (simp_all add: write_field_enc)

lemma read_field_step: "reader_step r (snd (read_field k r))"
  by (cases k) (simp_all add: reader_steps)

lemma read_field_enc:
  assumes "field_fits f" and "rrest r = enc_field f @ xs" and "\<not> rerr r" and "reader_ok r"
  shows "read_field (kind_of f) r = (f, r\<lparr>rpos := rpos r + length (enc_field f)\<rparr>)"
proof (cases f)
  case (Str v)
  with assms show ?thesis
    using read_string_enc [of r "of_nat (length v)" v xs]
    by (simp add: enc_string_def string_fits_def unat_of_nat_u16)
next
  case (Raw v)
  with assms have "has_remaining (length v) r"
    by (intro rrest_has_ok [of r v xs]) simp_all
  with Raw assms show ?thesis by (simp add: read_bytes_def rrest_def)
qed (use assms c8.read_enc c16.read_enc c32.read_enc c64.read_enc in \<open>simp_all\<close>)

lemma read_fields_enc:
  "list_all field_fits fs \<Longrightarrow> rrest r = concat (map enc_field fs) @ xs \<Longrightarrow> \<not> rerr r \<Longrightarrow> reader_ok r
   \<Longrightarrow> read_fields (map kind_of fs) r
       = (fs, r\<lparr>rpos := rpos r + length (concat (map enc_field fs))\<rparr>)"
proof (induction fs arbitrary: r)
  case Nil
  then show ?case by simp
next
  case (Cons f fs)
  let ?r1 = "r\<lparr>rpos := rpos r + length (enc_field f)\<rparr>"
  from Cons.prems have eq: "rrest r = enc_field f @ (concat (map enc_field fs) @ xs)" by simp
  with Cons.prems have rf: "read_field (kind_of f) r = (f, ?r1)"
    by (intro read_field_enc) simp_all
  have "reader_ok ?r1"
    using read_field_step [of r "kind_of f"] Cons.prems(4) by (simp add: rf reader_step_def)
  with Cons.prems eq have "read_fields (map kind_of fs) ?r1
      = (fs, ?r1\<lparr>rpos := rpos ?r1 + length (concat (map enc_field fs))\<rparr>)"
    by (intro Cons.IH) (simp_all add: rrest_advance)
  with rf show ?case by (simp add: add.assoc)
qed

lemma read_fields_step: "reader_step r (snd (read_fields ks r))"
proof (induction ks arbitrary: r)
  case Nil
  then show ?case by (simp add: reader_step_def)
next
  case (Cons k ks)
  have "reader_step r (snd (read_field k r))" by (rule read_field_step)
  moreover have "reader_step (snd (read_field k r)) (snd (read_fields ks (snd (read_field k r))))"
    by (rule Cons.IH)
  ultimately show ?case by (auto simp: split_beta Let_def intro: reader_step_trans)
qed

section \<open>Properties\<close>

text \<open>Any message written field by field with the \<open>BinaryWriter\<close>, followed by anything, is read
  back by the same sequence of \<open>BinaryReader\<close> calls: every value is recovered, no error is raised
  and the reader stops exactly behind the message. Strings must be shorter than 65536 bytes.\<close>

theorem fields_roundtrip:
  assumes "list_all field_fits fs"
  shows "fst (read_fields (map kind_of fs) (new_reader (write_fields fs [] @ rest))) = fs
     \<and> \<not> rerr (snd (read_fields (map kind_of fs) (new_reader (write_fields fs [] @ rest))))
     \<and> rrest (snd (read_fields (map kind_of fs) (new_reader (write_fields fs [] @ rest)))) = rest"
  using read_fields_enc [OF assms, of "new_reader (write_fields fs [] @ rest)" rest]
  by (simp add: write_fields_enc rrest_def new_reader_def reader_ok_def)

theorem fields_roundtrip_witness:
  "fst (read_fields (map kind_of [U32 7, Str [104, 105], U8 1])
     (new_reader (write_fields [U32 7, Str [104, 105], U8 1] [] @ [9]))) = [U32 7, Str [104, 105], U8 1]"
  using fields_roundtrip [of "[U32 7, Str [104, 105], U8 1]" "[9]"]
  by (simp add: string_fits_def del: read_fields.simps)

text \<open>No sequence of reads leaves the buffer: from a fresh reader on any bytes, the position never
  passes the end, never moves back, the buffer is never changed, and an error once raised stays.\<close>

theorem reads_stay_in_bounds:
  "reader_ok (snd (read_fields ks (new_reader d)))
   \<and> rdata (snd (read_fields ks (new_reader d))) = d
   \<and> (rerr (snd (read_fields ks (new_reader d))) \<longrightarrow>
        rerr (snd (read_fields ks' (snd (read_fields ks (new_reader d))))))
   \<and> rpos (snd (read_fields ks (new_reader d)))
        \<le> rpos (snd (read_fields ks' (snd (read_fields ks (new_reader d)))))"
  using read_fields_step [of "new_reader d" ks]
    read_fields_step [of "snd (read_fields ks (new_reader d))" ks']
  by (auto simp: reader_step_def new_reader_def reader_ok_def)

theorem reads_stay_in_bounds_witness:
  "rerr (snd (read_fields [K32] (new_reader [1]))) \<and>
   rerr (snd (read_fields [K8] (snd (read_fields [K32] (new_reader [1])))))"
  using reads_stay_in_bounds [of "[K32]" "[1]" "[K8]"]
  by (simp add: read_u32_def has_remaining_def new_reader_def del: split_paired_Ex)

text \<open>What a string of any length comes back as: the length field is a \<open>uint16_t\<close>, so a string of
  65536 bytes or more is cut to its length modulo 65536 (and the rest of its bytes is left in the
  stream in front of the next field).\<close>

theorem string_roundtrip_exact:
  "read_string (new_reader (write_string s [])) =
     (take (length s mod 65536) s,
      \<lparr>rdata = write_string s [], rpos = 2 + length s mod 65536, rerr = False\<rparr>)"
proof -
  let ?m = "length s mod 65536"
  let ?r = "new_reader (write_string s [])"
  have "rrest ?r = le16 (of_nat (length s)) @ take ?m s @ drop ?m s"
    by (simp add: rrest_def new_reader_def write_string_enc enc_string_def)
  moreover have "unat (of_nat (length s) :: u16) = length (take ?m s)"
    by (simp add: unat_of_nat_u16)
  moreover have "\<not> rerr ?r" by (simp add: new_reader_def)
  ultimately have "read_string ?r = (take ?m s, ?r\<lparr>rpos := rpos ?r + 2 + length (take ?m s)\<rparr>)"
    by (rule read_string_enc)
  then show ?thesis by (simp add: new_reader_def)
qed

end
