(* ===== verification/Protocol.thy ===== *)
theory Protocol
  imports Serialization
begin

text \<open>
  \<open>common/include/parties/protocol.h\<close>: protocol versions, video stream ids, control message types,
  error codes and packet type bytes. An \<open>enum class\<close> over a fixed width is a number of that width
  in C++ and a cast brings in any value, so roles, sources and error codes stay words; message
  types are a datatype whose last constructor holds the codes the enum does not name.
\<close>

section \<open>Versions\<close>

definition PROTOCOL_VERSION_MAJOR :: u8 where "PROTOCOL_VERSION_MAJOR = 1"
definition PROTOCOL_VERSION_MINOR :: u8 where "PROTOCOL_VERSION_MINOR = 4"

definition PROTOCOL_VERSION :: u16 where
  "PROTOCOL_VERSION = push_bit 8 (ucast PROTOCOL_VERSION_MAJOR) OR ucast PROTOCOL_VERSION_MINOR"

definition protocol_major :: "u16 \<Rightarrow> u8" where "protocol_major version = ucast (drop_bit 8 version)"
definition protocol_minor :: "u16 \<Rightarrow> u8" where "protocol_minor version = ucast (version AND 0xFF)"

definition PROTOCOL_VERSION_ASSUMED_LEGACY :: u16 where "PROTOCOL_VERSION_ASSUMED_LEGACY = 0x101"
definition PROTOCOL_VERSION_FRAME_STREAMS :: u16 where "PROTOCOL_VERSION_FRAME_STREAMS = 0x102"
definition PROTOCOL_VERSION_JOIN_VOICE_STATE :: u16 where "PROTOCOL_VERSION_JOIN_VOICE_STATE = 0x103"
definition PROTOCOL_VERSION_CAMERA :: u16 where "PROTOCOL_VERSION_CAMERA = 0x104"

definition protocol_supports_frame_streams :: "u16 \<Rightarrow> bool" where
  "protocol_supports_frame_streams version \<longleftrightarrow>
     protocol_major version = 1 \<and> version \<ge> PROTOCOL_VERSION_FRAME_STREAMS"

definition protocol_supports_join_voice_state :: "u16 \<Rightarrow> bool" where
  "protocol_supports_join_voice_state version \<longleftrightarrow>
     protocol_major version = 1 \<and> version \<ge> PROTOCOL_VERSION_JOIN_VOICE_STATE"

definition protocol_supports_camera :: "u16 \<Rightarrow> bool" where
  "protocol_supports_camera version \<longleftrightarrow>
     protocol_major version = 1 \<and> version \<ge> PROTOCOL_VERSION_CAMERA"

lemmas version_defs = PROTOCOL_VERSION_MAJOR_def PROTOCOL_VERSION_MINOR_def PROTOCOL_VERSION_def
  PROTOCOL_VERSION_ASSUMED_LEGACY_def PROTOCOL_VERSION_FRAME_STREAMS_def
  PROTOCOL_VERSION_JOIN_VOICE_STATE_def PROTOCOL_VERSION_CAMERA_def

section \<open>Video sources and stream ids\<close>

type_synonym video_source = u8

abbreviation Screen :: video_source where "Screen \<equiv> 0"
abbreviation Camera :: video_source where "Camera \<equiv> 1"

definition VIDEO_SOURCE_COUNT :: u8 where "VIDEO_SOURCE_COUNT = 2"
definition VIDEO_STREAM_USER_MASK :: u32 where "VIDEO_STREAM_USER_MASK = push_bit 30 1 - 1"

definition video_source_valid :: "u8 \<Rightarrow> bool" where
  "video_source_valid source \<longleftrightarrow> source < VIDEO_SOURCE_COUNT"

definition video_stream_id :: "u32 \<Rightarrow> video_source \<Rightarrow> u32" where
  "video_stream_id user_id source =
     (user_id AND VIDEO_STREAM_USER_MASK) OR push_bit 30 (ucast source)"

definition video_stream_owner :: "u32 \<Rightarrow> u32" where
  "video_stream_owner stream_id = stream_id AND VIDEO_STREAM_USER_MASK"

definition video_stream_source :: "u32 \<Rightarrow> video_source" where
  "video_stream_source stream_id = ucast (drop_bit 30 stream_id)"

definition video_stream_valid :: "u32 \<Rightarrow> bool" where
  "video_stream_valid stream_id \<longleftrightarrow>
     video_stream_owner stream_id \<noteq> 0 \<and> drop_bit 30 stream_id < ucast VIDEO_SOURCE_COUNT"

lemmas stream_id_defs = video_stream_id_def video_stream_owner_def video_stream_source_def
  VIDEO_STREAM_USER_MASK_def

lemma user_mask: "VIDEO_STREAM_USER_MASK = mask 30"
  by (simp add: VIDEO_STREAM_USER_MASK_def mask_eq_exp_minus_1 push_bit_eq_mult)

lemma valid_source_cases: "video_source_valid s \<longleftrightarrow> s = Screen \<or> s = Camera"
  by (simp add: video_source_valid_def VIDEO_SOURCE_COUNT_def) unat_arith

lemma bit_small_source: "video_source_valid s \<Longrightarrow> bit s n \<longleftrightarrow> n = 0 \<and> s = 1"
  by (auto simp: valid_source_cases bit_1_iff)

lemma owner_stream_id: "video_stream_owner (video_stream_id u s) = u AND mask 30"
  unfolding stream_id_defs(1,2) user_mask
  by (rule bit_word_eqI) (auto simp: bit_simps)

lemma source_stream_id: "video_source_valid s \<Longrightarrow> video_stream_source (video_stream_id u s) = s"
  unfolding stream_id_defs(1,3) user_mask
  by (rule bit_word_eqI) (auto simp: bit_simps bit_small_source)

lemma user_mask_id: "u < 2 ^ 30 \<Longrightarrow> u AND mask 30 = (u :: u32)"
  by (rule less_mask_eq)

lemma stream_id_screen: "u < 2 ^ 30 \<Longrightarrow> video_stream_id u Screen = u"
  by (simp add: video_stream_id_def user_mask user_mask_id)

section \<open>Control messages\<close>

datatype ctype =
    AUTH_IDENTITY | CHANNEL_JOIN | CHANNEL_LEAVE | KEEPALIVE_PING | VOICE_STATE_UPDATE
  | SCREEN_SHARE_START | SCREEN_SHARE_STOP | SCREEN_SHARE_VIEW | SCREEN_SHARE_UPDATE
  | AUTH_RESPONSE | CHANNEL_LIST | CHANNEL_USER_LIST | USER_JOINED_CHANNEL | USER_LEFT_CHANNEL
  | USER_VOICE_STATE | USER_ROLE_CHANGED | KEEPALIVE_PONG
  | SCREEN_SHARE_STARTED | SCREEN_SHARE_STOPPED | SCREEN_SHARE_DENIED | SCREEN_SHARE_VIEWER
  | SERVER_ERROR
  | ADMIN_CREATE_CHANNEL | ADMIN_DELETE_CHANNEL | ADMIN_SET_ROLE | ADMIN_KICK_USER
  | ADMIN_RENAME_CHANNEL | ADMIN_RESULT
  | CHAT_SEND | CHAT_HISTORY_REQ | CHAT_PIN | CHAT_UNPIN | CHAT_DELETE | CHAT_FILE_UPLOAD_REQ
  | CHAT_FILE_DOWNLOAD_REQ | CHAT_SEARCH | CHAT_PINNED_REQ
  | CHAT_MESSAGE | CHAT_HISTORY_RESP | CHAT_MESSAGE_DELETED | CHAT_FILE_UPLOAD_RESP
  | CHAT_FILE_READY | CHAT_SEARCH_RESP | CHAT_PINNED_RESP | CHAT_CHANNEL_LIST
  | ADMIN_CREATE_TEXT_CHANNEL | ADMIN_DELETE_TEXT_CHANNEL
  | UNNAMED u16

text \<open>The named codes, in the order of the header.\<close>

definition ctype_codes :: "(ctype \<times> u16) list" where
  "ctype_codes =
    [(AUTH_IDENTITY, 0x0001), (CHANNEL_JOIN, 0x0002), (CHANNEL_LEAVE, 0x0003),
     (KEEPALIVE_PING, 0x0004), (VOICE_STATE_UPDATE, 0x0005), (SCREEN_SHARE_START, 0x0007),
     (SCREEN_SHARE_STOP, 0x0008), (SCREEN_SHARE_VIEW, 0x0009), (SCREEN_SHARE_UPDATE, 0x000A),
     (AUTH_RESPONSE, 0x0101), (CHANNEL_LIST, 0x0102), (CHANNEL_USER_LIST, 0x0103),
     (USER_JOINED_CHANNEL, 0x0104), (USER_LEFT_CHANNEL, 0x0105), (USER_VOICE_STATE, 0x0106),
     (USER_ROLE_CHANGED, 0x0108), (KEEPALIVE_PONG, 0x0107), (SCREEN_SHARE_STARTED, 0x010A),
     (SCREEN_SHARE_STOPPED, 0x010B), (SCREEN_SHARE_DENIED, 0x010C), (SCREEN_SHARE_VIEWER, 0x010D),
     (SERVER_ERROR, 0x01FF),
     (ADMIN_CREATE_CHANNEL, 0x0201), (ADMIN_DELETE_CHANNEL, 0x0202), (ADMIN_SET_ROLE, 0x0203),
     (ADMIN_KICK_USER, 0x0204), (ADMIN_RENAME_CHANNEL, 0x0205), (ADMIN_RESULT, 0x0301),
     (CHAT_SEND, 0x0401), (CHAT_HISTORY_REQ, 0x0402), (CHAT_PIN, 0x0403), (CHAT_UNPIN, 0x0404),
     (CHAT_DELETE, 0x0405), (CHAT_FILE_UPLOAD_REQ, 0x0406), (CHAT_FILE_DOWNLOAD_REQ, 0x0407),
     (CHAT_SEARCH, 0x0408), (CHAT_PINNED_REQ, 0x0409),
     (CHAT_MESSAGE, 0x0501), (CHAT_HISTORY_RESP, 0x0502), (CHAT_MESSAGE_DELETED, 0x0503),
     (CHAT_FILE_UPLOAD_RESP, 0x0504), (CHAT_FILE_READY, 0x0505), (CHAT_SEARCH_RESP, 0x0506),
     (CHAT_PINNED_RESP, 0x0507), (CHAT_CHANNEL_LIST, 0x0508),
     (ADMIN_CREATE_TEXT_CHANNEL, 0x040A), (ADMIN_DELETE_TEXT_CHANNEL, 0x040B)]"

definition code_of_ctype :: "ctype \<Rightarrow> u16" where
  "code_of_ctype t = (case map_of ctype_codes t of Some c \<Rightarrow> c
                      | None \<Rightarrow> (case t of UNNAMED c \<Rightarrow> c | _ \<Rightarrow> 0))"

definition ctype_of_code :: "u16 \<Rightarrow> ctype" where
  "ctype_of_code c = (case map_of (map prod.swap ctype_codes) c of Some t \<Rightarrow> t | None \<Rightarrow> UNNAMED c)"

lemma code_of_UNNAMED [simp]: "code_of_ctype (UNNAMED c) = c"
  by (simp add: code_of_ctype_def ctype_codes_def)

lemma distinct_codes: "distinct (map snd ctype_codes)"
  by (simp add: ctype_codes_def)

lemma distinct_ctypes: "distinct (map fst ctype_codes)"
  by (simp add: ctype_codes_def)

lemma code_of_ctype_of_code: "code_of_ctype (ctype_of_code c) = c"
proof (cases "map_of (map prod.swap ctype_codes) c")
  case None
  then show ?thesis by (simp add: ctype_of_code_def)
next
  case (Some t)
  then have "(t, c) \<in> set ctype_codes"
    by (auto dest!: map_of_SomeD)
  then have "map_of ctype_codes t = Some c"
    using distinct_ctypes by (simp add: map_of_eq_Some_iff)
  with Some show ?thesis by (simp add: ctype_of_code_def code_of_ctype_def)
qed

lemma ctype_of_code_of_ctype:
  "(t, c) \<in> set ctype_codes \<Longrightarrow> code_of_ctype t = c \<and> ctype_of_code (code_of_ctype t) = t"
proof -
  assume a: "(t, c) \<in> set ctype_codes"
  then have "code_of_ctype t = c"
    using distinct_ctypes by (simp add: code_of_ctype_def map_of_eq_Some_iff)
  moreover have "map_of (map prod.swap ctype_codes) c = Some t"
    using a distinct_codes by (simp add: map_of_eq_Some_iff comp_def)
  ultimately show ?thesis by (simp add: ctype_of_code_def)
qed

section \<open>Error codes, packet and stream type bytes\<close>

type_synonym server_error_code = u16

abbreviation Generic :: server_error_code where "Generic \<equiv> 0"
abbreviation BadVersion :: server_error_code where "BadVersion \<equiv> 1"
abbreviation BadAuth :: server_error_code where "BadAuth \<equiv> 2"
abbreviation BadPassword :: server_error_code where "BadPassword \<equiv> 3"
abbreviation Kicked :: server_error_code where "Kicked \<equiv> 4"
abbreviation Replaced :: server_error_code where "Replaced \<equiv> 5"
abbreviation PermissionDenied :: server_error_code where "PermissionDenied \<equiv> 9"

definition KEEPALIVE_WANT_LINK_REPORT :: u8 where "KEEPALIVE_WANT_LINK_REPORT = 0x01"
definition KEEPALIVE_LINK_REPORT_VERSION :: u8 where "KEEPALIVE_LINK_REPORT_VERSION = 1"

definition VOICE_PACKET_TYPE :: u8 where "VOICE_PACKET_TYPE = 0x01"
definition VIDEO_FRAME_PACKET_TYPE :: u8 where "VIDEO_FRAME_PACKET_TYPE = 0x02"
definition VIDEO_CONTROL_TYPE :: u8 where "VIDEO_CONTROL_TYPE = 0x03"
definition STREAM_AUDIO_PACKET_TYPE :: u8 where "STREAM_AUDIO_PACKET_TYPE = 0x04"
definition VOICE2_PACKET_TYPE :: u8 where "VOICE2_PACKET_TYPE = 0x05"
definition STREAM_TYPE_FILE_UPLOAD :: u8 where "STREAM_TYPE_FILE_UPLOAD = 0x10"
definition STREAM_TYPE_FILE_DOWNLOAD :: u8 where "STREAM_TYPE_FILE_DOWNLOAD = 0x11"
definition STREAM_TYPE_VIDEO_FRAME :: u8 where "STREAM_TYPE_VIDEO_FRAME = 0x12"
definition STREAM_TYPE_VIDEO_SOURCE_FRAME :: u8 where "STREAM_TYPE_VIDEO_SOURCE_FRAME = 0x13"
definition VIDEO_CTL_PLI :: u8 where "VIDEO_CTL_PLI = 0x01"

lemmas packet_type_defs = VOICE_PACKET_TYPE_def VIDEO_FRAME_PACKET_TYPE_def VIDEO_CONTROL_TYPE_def
  STREAM_AUDIO_PACKET_TYPE_def VOICE2_PACKET_TYPE_def STREAM_TYPE_FILE_UPLOAD_def
  STREAM_TYPE_FILE_DOWNLOAD_def STREAM_TYPE_VIDEO_FRAME_def STREAM_TYPE_VIDEO_SOURCE_FRAME_def
  VIDEO_CTL_PLI_def

section \<open>Properties\<close>

text \<open>A stream id names its owner and its source: for a user id below \<open>2^30\<close> and a valid source both
  are recovered, a screen share's id is the user id itself, ids of different (user, source) pairs
  differ, and the id is valid for every user but 0.\<close>

theorem stream_id_roundtrip:
  assumes "u < 2 ^ 30" and "video_source_valid s"
  shows "video_stream_owner (video_stream_id u s) = u
       \<and> video_stream_source (video_stream_id u s) = s
       \<and> video_stream_id u Screen = u
       \<and> (u \<noteq> 0 \<longrightarrow> video_stream_valid (video_stream_id u s))
       \<and> (\<forall>u' s'. u' < 2 ^ 30 \<longrightarrow> video_source_valid s' \<longrightarrow>
            video_stream_id u' s' = video_stream_id u s \<longrightarrow> u' = u \<and> s' = s)"
proof -
  have "drop_bit 30 (video_stream_id u s) = ucast (video_stream_source (video_stream_id u s))"
    unfolding stream_id_defs(3) by (rule bit_word_eqI) (auto simp: bit_simps dest: bit_imp_le_length)
  moreover have "(ucast s :: u32) < ucast VIDEO_SOURCE_COUNT"
    using assms(2) by (auto simp: valid_source_cases VIDEO_SOURCE_COUNT_def)
  ultimately have "u \<noteq> 0 \<longrightarrow> video_stream_valid (video_stream_id u s)"
    using assms by (simp add: video_stream_valid_def owner_stream_id source_stream_id user_mask_id)
  moreover have "u' = u \<and> s' = s"
    if "u' < 2 ^ 30" "video_source_valid s'" "video_stream_id u' s' = video_stream_id u s" for u' s'
    using that assms owner_stream_id source_stream_id user_mask_id by metis
  ultimately show ?thesis
    using assms by (auto simp: owner_stream_id source_stream_id user_mask_id stream_id_screen)
qed

theorem stream_id_roundtrip_witness:
  "video_stream_owner (video_stream_id 42 Camera) = 42 \<and> video_stream_id 42 Screen = 42"
  using stream_id_roundtrip [of 42 Camera]
  by (simp add: video_source_valid_def VIDEO_SOURCE_COUNT_def)

end
