(* ===== verification/Permissions.thy ===== *)
theory Permissions
  imports Prelude
begin

text \<open>
  \<open>common/include/parties/permissions.h\<close> and \<open>common/src/permissions.cpp\<close>: the role hierarchy and
  the permission masks. \<open>Role\<close> is an enum over \<open>uint8_t\<close>; the server casts wire bytes and database
  integers to it unchecked, so a role is any byte.
\<close>

type_synonym role = u8
type_synonym permission = u32

abbreviation Owner :: role where "Owner \<equiv> 0"
abbreviation Admin :: role where "Admin \<equiv> 1"
abbreviation Moderator :: role where "Moderator \<equiv> 2"
abbreviation User :: role where "User \<equiv> 3"

definition JoinChannel :: permission where "JoinChannel = push_bit 0 1"
definition Speak :: permission where "Speak = push_bit 1 1"
definition MuteOthers :: permission where "MuteOthers = push_bit 2 1"
definition DeafenOthers :: permission where "DeafenOthers = push_bit 3 1"
definition KickFromChannel :: permission where "KickFromChannel = push_bit 4 1"
definition KickFromServer :: permission where "KickFromServer = push_bit 5 1"
definition CreateChannel :: permission where "CreateChannel = push_bit 6 1"
definition DeleteChannel :: permission where "DeleteChannel = push_bit 7 1"
definition ManagePermissions :: permission where "ManagePermissions = push_bit 8 1"
definition ManageRoles :: permission where "ManageRoles = push_bit 9 1"
definition ManageServer :: permission where "ManageServer = push_bit 10 1"
definition SendText :: permission where "SendText = push_bit 11 1"
definition UploadFiles :: permission where "UploadFiles = push_bit 12 1"
definition ShareScreen :: permission where "ShareScreen = push_bit 13 1"
definition ShareWebcam :: permission where "ShareWebcam = push_bit 14 1"

lemmas permission_bits = JoinChannel_def Speak_def MuteOthers_def DeafenOthers_def
  KickFromChannel_def KickFromServer_def CreateChannel_def DeleteChannel_def ManagePermissions_def
  ManageRoles_def ManageServer_def SendText_def UploadFiles_def ShareScreen_def ShareWebcam_def

definition DEFAULT_OWNER_PERMS :: u32 where "DEFAULT_OWNER_PERMS = 0xFFFFFFFF"
definition DEFAULT_ADMIN_PERMS :: u32 where "DEFAULT_ADMIN_PERMS = 0x000007FF"
definition DEFAULT_MODERATOR_PERMS :: u32 where "DEFAULT_MODERATOR_PERMS = 0x0000001F"
definition DEFAULT_USER_PERMS :: u32 where "DEFAULT_USER_PERMS = 0x00000003"

definition default_permissions :: "role \<Rightarrow> u32" where
  "default_permissions r =
     (if r = Owner then DEFAULT_OWNER_PERMS
      else if r = Admin then DEFAULT_ADMIN_PERMS
      else if r = Moderator then DEFAULT_MODERATOR_PERMS
      else if r = User then DEFAULT_USER_PERMS
      else 0)"

definition has_permission :: "role \<Rightarrow> permission \<Rightarrow> u32 option \<Rightarrow> bool" where
  "has_permission r perm channel_override =
     (if r = Owner then True
      else (case channel_override of Some p \<Rightarrow> p | None \<Rightarrow> default_permissions r) AND perm \<noteq> 0)"

definition can_moderate :: "role \<Rightarrow> role \<Rightarrow> bool" where
  "can_moderate actor target \<longleftrightarrow> actor < target"

lemmas default_perm_defs = default_permissions_def DEFAULT_OWNER_PERMS_def DEFAULT_ADMIN_PERMS_def
  DEFAULT_MODERATOR_PERMS_def DEFAULT_USER_PERMS_def

lemma can_moderate_irrefl [simp]: "\<not> can_moderate r r"
  by (simp add: can_moderate_def)

lemma can_moderate_trans: "can_moderate a b \<Longrightarrow> can_moderate b c \<Longrightarrow> can_moderate a c"
  by (simp add: can_moderate_def)

lemma no_one_moderates_owner: "\<not> can_moderate r Owner"
  by (simp add: can_moderate_def)

lemma has_permission_owner [simp]: "has_permission Owner p ov"
  by (simp add: has_permission_def)

lemma unknown_role_no_default: "r > User \<Longrightarrow> \<not> has_permission r p None"
proof -
  assume "r > User"
  then have "default_permissions r = 0" by (auto simp: default_perm_defs)
  moreover from \<open>r > User\<close> have "r \<noteq> Owner" by auto
  ultimately show ?thesis by (simp add: has_permission_def)
qed

lemma subset_mask: "(db :: u32) AND da = db \<Longrightarrow> db AND p \<noteq> 0 \<Longrightarrow> da AND p \<noteq> 0"
  by (metis and.assoc and_zero_eq)

lemma default_subset:
  "can_moderate a b \<Longrightarrow> default_permissions b AND default_permissions a = default_permissions b"
proof -
  assume m: "can_moderate a b"
  show ?thesis
  proof (cases "b > User")
    case True
    then have "default_permissions b = 0" by (auto simp: default_perm_defs)
    then show ?thesis by simp
  next
    case False
    then have "b = 0 \<or> b = 1 \<or> b = 2 \<or> b = 3" by unat_arith
    moreover from this m have "a = 0 \<or> (a = 1 \<and> b \<noteq> 1) \<or> (a = 2 \<and> b = 3)"
      unfolding can_moderate_def by unat_arith
    ultimately show ?thesis
      using m no_one_moderates_owner by (elim disjE) (simp_all add: default_perm_defs can_moderate_def)
  qed
qed

section \<open>Properties\<close>

text \<open>The default rights respect the hierarchy: whoever can moderate a role holds every permission of
  that role, an owner holds every permission under every channel override, and a role byte outside
  the enum has no default permission at all.\<close>

theorem default_rights_monotone:
  "(can_moderate a b \<longrightarrow> has_permission b p None \<longrightarrow> has_permission a p None)
   \<and> has_permission Owner p ov
   \<and> (b > User \<longrightarrow> \<not> has_permission b p None)"
proof -
  have "has_permission a p None" if "can_moderate a b" "has_permission b p None"
    using that subset_mask [OF default_subset [OF that(1)]] no_one_moderates_owner [of a]
    by (auto simp: has_permission_def split: if_splits)
  then show ?thesis using unknown_role_no_default by auto
qed

theorem default_rights_monotone_witness:
  "can_moderate Admin Moderator \<and> has_permission Admin MuteOthers None"
  using default_rights_monotone [of Admin Moderator MuteOthers None]
  by (simp add: can_moderate_def has_permission_def default_perm_defs permission_bits)

end
