(* ===== verification/Float64.thy ===== *)
theory Float64
  imports Prelude "HOL-Library.Log_Nat"
begin

text \<open>
  The C++ type \<open>double\<close> as the policy code uses it: a finite number, here a rational, and after every
  arithmetic operation a rounding \<open>fl\<close> to 53 significant bits, ties to even. The values of the
  policies (rates, seconds, token counts) stay far from the exponent limits, so overflow,
  subnormal numbers, infinities and NaN do not occur and are not represented.
  The lemmas are what the components use: \<open>fl\<close> is monotone, keeps signs, and is the identity on
  integers up to \<open>2^53\<close>.
\<close>

type_synonym double = rat

definition round_even :: "rat \<Rightarrow> int" where
  "round_even x = (let f = \<lfloor>x\<rfloor>; d = x - of_int f
     in if d < 1 / 2 then f else if d > 1 / 2 then f + 1 else if even f then f else f + 1)"

text \<open>The binary exponent of a positive number: \<open>2 ^ e \<le> x < 2 ^ (e + 1)\<close>.\<close>

definition exponent :: "rat \<Rightarrow> int" where
  "exponent x = (let (a, b) = quotient_of x;
       e = int (floorlog 2 (nat a)) - int (floorlog 2 (nat b))
     in if 2 powi e \<le> x then e else e - 1)"

lemma exponent_code [code]:
  "exponent x = (let (a, b) = quotient_of x; e = bitlen a - bitlen b in if 2 powi e \<le> x then e else e - 1)"
  by (simp add: exponent_def bitlen_def)

definition fl_pos :: "rat \<Rightarrow> rat" where
  "fl_pos x = of_int (round_even (x * 2 powi (52 - exponent x))) * 2 powi (exponent x - 52)"

definition fl :: "rat \<Rightarrow> double" where
  "fl x = (if x = 0 then 0 else if x > 0 then fl_pos x else - fl_pos (- x))"

definition double_of_int :: "int \<Rightarrow> double" where
  "double_of_int n = fl (of_int n)"

text \<open>\<open>static_cast<int64_t>\<close> of a double: truncation towards zero.\<close>

definition int_of_double :: "double \<Rightarrow> int" where
  "int_of_double x = (if x < 0 then \<lceil>x\<rceil> else \<lfloor>x\<rfloor>)"

section \<open>Rounding to an integer\<close>

lemma round_even_ge: "of_int n \<le> x \<Longrightarrow> n \<le> round_even x"
proof -
  assume "of_int n \<le> x"
  then have "n \<le> \<lfloor>x\<rfloor>" by (simp add: le_floor_iff)
  moreover have "\<lfloor>x\<rfloor> \<le> round_even x" by (simp add: round_even_def Let_def)
  ultimately show ?thesis by simp
qed

lemma round_even_le: "x \<le> of_int n \<Longrightarrow> round_even x \<le> n"
proof -
  assume x: "x \<le> of_int n"
  show ?thesis
  proof (cases "x = of_int n")
    case True
    then show ?thesis by (simp add: round_even_def)
  next
    case False
    with x have "\<lfloor>x\<rfloor> < n" by (simp add: floor_less_iff)
    then show ?thesis by (simp add: round_even_def Let_def)
  qed
qed

lemma round_even_int [simp]: "round_even (of_int n) = n"
  by (simp add: round_even_def)

lemma round_even_mono: "x \<le> y \<Longrightarrow> round_even x \<le> round_even y"
proof (cases "\<lfloor>x\<rfloor> = \<lfloor>y\<rfloor>")
  case True
  assume "x \<le> y"
  with True show ?thesis by (simp add: round_even_def Let_def)
next
  case False
  assume "x \<le> y"
  then have "\<lfloor>x\<rfloor> \<le> \<lfloor>y\<rfloor>" by (rule floor_mono)
  with False have "\<lfloor>x\<rfloor> + 1 \<le> \<lfloor>y\<rfloor>" by simp
  moreover have "round_even x \<le> \<lfloor>x\<rfloor> + 1" "\<lfloor>y\<rfloor> \<le> round_even y"
    by (simp_all add: round_even_def Let_def)
  ultimately show ?thesis by linarith
qed

section \<open>The exponent\<close>

lemma floorlog_powi_bounds:
  assumes "0 < n" shows "(2::rat) powi (int (floorlog 2 n) - 1) \<le> of_nat n" "of_nat n < (2::rat) powi int (floorlog 2 n)"
proof -
  have b: "2 ^ (floorlog 2 n - 1) \<le> n" "n < 2 ^ floorlog 2 n" and p: "0 < floorlog 2 n"
    using assms floorlog_bounds [of n 2] by (auto simp: floorlog_def)
  from b(1) have "(2::rat) ^ (floorlog 2 n - 1) \<le> of_nat n" by (metis of_nat_le_iff of_nat_numeral of_nat_power)
  moreover have "int (floorlog 2 n) - 1 = int (floorlog 2 n - 1)" using p by simp
  ultimately show "(2::rat) powi (int (floorlog 2 n) - 1) \<le> of_nat n" by (simp only: power_int_of_nat)
  from b(2) have "of_nat n < (2::rat) ^ floorlog 2 n" by (metis of_nat_less_iff of_nat_numeral of_nat_power)
  then show "of_nat n < (2::rat) powi int (floorlog 2 n)" by simp
qed

lemma exponent_bounds:
  assumes "0 < x" shows "2 powi exponent x \<le> x" "x < 2 powi (exponent x + 1)"
proof -
  obtain a b where q: "quotient_of x = (a, b)" by (cases "quotient_of x")
  have x: "x = of_int a / of_int b" by (rule quotient_of_div [OF q])
  have b: "0 < b" by (rule quotient_of_denom_pos [OF q])
  have a: "0 < a" using assms b by (simp add: x zero_less_divide_iff)
  define fa fb where "fa = int (floorlog 2 (nat a))" and "fb = int (floorlog 2 (nat b))"
  have A: "2 powi (fa - 1) \<le> (of_int a :: rat)" "(of_int a :: rat) < 2 powi fa"
    using floorlog_powi_bounds [of "nat a"] a by (simp_all add: fa_def)
  have B: "2 powi (fb - 1) \<le> (of_int b :: rat)" "(of_int b :: rat) < 2 powi fb"
    using floorlog_powi_bounds [of "nat b"] b by (simp_all add: fb_def)
  have p: "0 < (2::rat) powi k" for k by simp
  have "x < 2 powi fa / 2 powi (fb - 1)"
    unfolding x using A(2) B(1) b p by (intro frac_less) (simp_all add: a less_imp_le)
  then have up: "x < 2 powi (fa - fb + 1)"
    using power_int_diff [of "2::rat" fa "fb - 1"] by (simp add: algebra_simps)
  have "2 powi (fa - 1) / 2 powi fb \<le> x"
    unfolding x using A(1) B(2) b p by (intro frac_le) (simp_all add: a less_imp_le)
  then have lo: "2 powi (fa - fb - 1) \<le> x"
    using power_int_diff [of "2::rat" "fa - 1" fb] by (simp add: algebra_simps)
  have e: "exponent x = (if 2 powi (fa - fb) \<le> x then fa - fb else fa - fb - 1)"
    by (simp add: exponent_def q fa_def fb_def Let_def)
  show "2 powi exponent x \<le> x" "x < 2 powi (exponent x + 1)"
    using up lo by (simp_all add: e not_le)
qed

lemma powi_less_cancel: "(2::rat) powi a < 2 powi b \<Longrightarrow> a < b"
  using power_int_increasing [of b a "2::rat"] by (cases "b \<le> a") auto

lemma exponent_unique:
  assumes "2 powi e \<le> x" "x < (2::rat) powi (e + 1)" shows "exponent x = e"
proof -
  have x: "0 < x" using assms(1) by (meson less_le_trans zero_less_power_int zero_less_numeral)
  have "(2::rat) powi e < 2 powi (exponent x + 1)" using exponent_bounds(2) [OF x] assms(1) by linarith
  moreover have "(2::rat) powi exponent x < 2 powi (e + 1)" using exponent_bounds(1) [OF x] assms(2) by linarith
  ultimately have "e < exponent x + 1" "exponent x < e + 1" using powi_less_cancel by blast+
  then show ?thesis by simp
qed

lemma exponent_mono: "0 < x \<Longrightarrow> x \<le> y \<Longrightarrow> exponent x \<le> exponent y"
  using exponent_bounds(1) [of x] exponent_bounds(2) [of y] powi_less_cancel [of "exponent x" "exponent y + 1"]
  by simp

section \<open>Rounding to 53 bits\<close>

lemma scaled_bounds:
  assumes "0 < x"
  shows "of_int (2 ^ 52) \<le> x * 2 powi (52 - exponent x)" "x * 2 powi (52 - exponent x) \<le> of_int (2 ^ 53)"
proof -
  have "2 powi exponent x * 2 powi (52 - exponent x) \<le> x * 2 powi (52 - exponent x)"
    using exponent_bounds(1) [OF assms] by (intro mult_right_mono) simp_all
  then show "of_int (2 ^ 52) \<le> x * 2 powi (52 - exponent x)"
    by (simp add: power_int_add [symmetric])
  have "x * 2 powi (52 - exponent x) \<le> 2 powi (exponent x + 1) * 2 powi (52 - exponent x)"
    using exponent_bounds(2) [OF assms] by (intro mult_right_mono) simp_all
  then show "x * 2 powi (52 - exponent x) \<le> of_int (2 ^ 53)"
    by (simp add: power_int_add [symmetric])
qed

lemma fl_pos_bounds:
  assumes "0 < x" shows "2 powi exponent x \<le> fl_pos x" "fl_pos x \<le> 2 powi (exponent x + 1)"
proof -
  have "(of_int (2 ^ 52) :: rat) \<le> of_int (round_even (x * 2 powi (52 - exponent x)))"
    using round_even_ge [OF scaled_bounds(1) [OF assms]] by (simp only: of_int_le_iff)
  then have "of_int (2 ^ 52) * 2 powi (exponent x - 52) \<le> fl_pos x"
    unfolding fl_pos_def by (intro mult_right_mono) simp_all
  moreover have "of_int (2 ^ 52) * 2 powi (exponent x - 52) = (2 :: rat) powi exponent x"
    using power_int_add [of "2::rat" 52 "exponent x - 52"] by simp
  ultimately show "2 powi exponent x \<le> fl_pos x" by simp
  have "(of_int (round_even (x * 2 powi (52 - exponent x))) :: rat) \<le> of_int (2 ^ 53)"
    using round_even_le [OF scaled_bounds(2) [OF assms]] by (simp only: of_int_le_iff)
  then have "fl_pos x \<le> of_int (2 ^ 53) * 2 powi (exponent x - 52)"
    unfolding fl_pos_def by (intro mult_right_mono) simp_all
  moreover have "of_int (2 ^ 53) * 2 powi (exponent x - 52) = (2 :: rat) powi (exponent x + 1)"
    using power_int_add [of "2::rat" 53 "exponent x - 52"] by (simp add: algebra_simps)
  ultimately show "fl_pos x \<le> 2 powi (exponent x + 1)" by simp
qed

lemma fl_pos_mono:
  assumes "0 < x" "x \<le> y" shows "fl_pos x \<le> fl_pos y"
proof (cases "exponent x = exponent y")
  case True
  have "x * 2 powi (52 - exponent x) \<le> y * 2 powi (52 - exponent x)"
    using assms(2) by (intro mult_right_mono) simp_all
  then have "round_even (x * 2 powi (52 - exponent x)) \<le> round_even (y * 2 powi (52 - exponent x))"
    by (rule round_even_mono)
  then show ?thesis unfolding fl_pos_def True [symmetric] by (intro mult_right_mono) simp_all
next
  case False
  with exponent_mono [OF assms] have "exponent x + 1 \<le> exponent y" by simp
  then have "(2::rat) powi (exponent x + 1) \<le> 2 powi exponent y" by (intro power_int_increasing) simp_all
  with fl_pos_bounds(2) [OF assms(1)] fl_pos_bounds(1) [of y] assms show ?thesis by linarith
qed

lemma fl_pos_gt_0: "0 < x \<Longrightarrow> 0 < fl_pos x"
  using fl_pos_bounds(1) [of x] by (meson less_le_trans zero_less_power_int zero_less_numeral)

lemma fl_0 [simp]: "fl 0 = 0"
  by (simp add: fl_def)

lemma fl_mono: "x \<le> y \<Longrightarrow> fl x \<le> fl y"
  using fl_pos_mono [of x y] fl_pos_mono [of "- y" "- x"] fl_pos_gt_0 [of y] fl_pos_gt_0 [of "- x"]
  by (auto simp: fl_def)

lemma fl_nonneg: "0 \<le> x \<Longrightarrow> 0 \<le> fl x"
  using fl_mono [of 0 x] by simp

lemma fl_pos_int:
  assumes "0 < m" "m < 2 ^ 53" shows "fl_pos (of_int m) = of_int m"
proof -
  let ?e = "exponent (of_int m)"
  have x: "(0::rat) < of_int m" using assms(1) by simp
  have "(of_int m :: rat) < of_int (2 ^ 53)" using assms(2) by (simp only: of_int_less_iff)
  then have "(2::rat) powi ?e < 2 powi 53"
    using exponent_bounds(1) [OF x] by (simp add: power_int_def)
  then have e: "?e \<le> 52" using powi_less_cancel by fastforce
  have "(2::rat) powi (52 - ?e) = of_int (2 ^ nat (52 - ?e))" using e by (simp add: power_int_def)
  then have "of_int m * 2 powi (52 - ?e) = (of_int (m * 2 ^ nat (52 - ?e)) :: rat)" by simp
  then have "fl_pos (of_int m) = (of_int m * 2 powi (52 - ?e)) * 2 powi (?e - 52)"
    unfolding fl_pos_def by (simp only: round_even_int)
  then show ?thesis by (simp add: mult.assoc power_int_add [symmetric])
qed

lemma fl_int: "\<bar>n\<bar> < 2 ^ 53 \<Longrightarrow> fl (of_int n) = of_int n"
  using fl_pos_int [of n] fl_pos_int [of "- n"] by (auto simp: fl_def)

lemma fl_nat: "n < 2 ^ 53 \<Longrightarrow> fl (of_nat n) = of_nat n"
  using fl_int [of "int n"] by simp

text \<open>Rounding a rounded value changes nothing.\<close>

lemma fl_pos_representable:
  assumes "0 < m" "m < 2 ^ 53" shows "fl_pos (of_int m * 2 powi k) = of_int m * 2 powi k"
proof -
  have m: "(0::rat) < of_int m" using assms(1) by simp
  let ?e = "exponent (of_int m)"
  have "exponent (of_int m * 2 powi k) = ?e + k"
  proof (rule exponent_unique)
    show "2 powi (?e + k) \<le> (of_int m * 2 powi k :: rat)"
      using exponent_bounds(1) [OF m] by (simp add: power_int_add)
    show "of_int m * 2 powi k < (2::rat) powi (?e + k + 1)"
      using exponent_bounds(2) [OF m] by (simp add: power_int_add algebra_simps)
  qed
  then have "fl_pos (of_int m * 2 powi k)
      = of_int (round_even (of_int m * 2 powi k * 2 powi (52 - (?e + k)))) * 2 powi (?e + k - 52)"
    by (simp add: fl_pos_def)
  also have "of_int m * 2 powi k * 2 powi (52 - (?e + k)) = (of_int m * 2 powi (52 - ?e) :: rat)"
    by (simp add: mult.assoc power_int_add [symmetric])
  also have "(2::rat) powi (?e + k - 52) = 2 powi (?e - 52) * 2 powi k"
    by (simp add: power_int_add [symmetric] algebra_simps)
  finally have "fl_pos (of_int m * 2 powi k) = fl_pos (of_int m) * 2 powi k"
    by (simp add: fl_pos_def mult.assoc)
  then show ?thesis by (simp add: fl_pos_int [OF assms])
qed

lemma fl_pos_idem: assumes "0 < x" shows "fl_pos (fl_pos x) = fl_pos x"
proof -
  define m where "m = round_even (x * 2 powi (52 - exponent x))"
  have m: "2 ^ 52 \<le> m" "m \<le> 2 ^ 53"
    using round_even_ge [OF scaled_bounds(1) [OF assms]] round_even_le [OF scaled_bounds(2) [OF assms]]
    by (simp_all add: m_def)
  have x: "fl_pos x = of_int m * 2 powi (exponent x - 52)" by (simp add: fl_pos_def m_def)
  show ?thesis
  proof (cases "m = 2 ^ 53")
    case False
    then show ?thesis unfolding x using m by (intro fl_pos_representable) simp_all
  next
    case True
    have "of_int m * 2 powi (exponent x - 52) = (of_int (2 ^ 52) * 2 powi (exponent x - 51) :: rat)"
      using power_int_add [of "2::rat" 1 "exponent x - 52"] by (simp add: True)
    then show ?thesis unfolding x using fl_pos_representable [of "2 ^ 52" "exponent x - 51"] by simp
  qed
qed

lemma fl_idem [simp]: "fl (fl x) = fl x"
  using fl_pos_idem [of x] fl_pos_idem [of "- x"] fl_pos_gt_0 [of x] fl_pos_gt_0 [of "- x"]
  by (auto simp: fl_def)

lemma double_of_int_mono: "m \<le> n \<Longrightarrow> double_of_int m \<le> double_of_int n"
  by (simp add: double_of_int_def fl_mono)

lemma int_of_double_mono: "x \<le> y \<Longrightarrow> int_of_double x \<le> int_of_double y"
  by (auto simp: int_of_double_def ceiling_mono floor_mono intro: order_trans [of _ 0])

lemma int_of_double_nonneg: "0 \<le> x \<Longrightarrow> 0 \<le> int_of_double x"
  by (simp add: int_of_double_def)

end
