(* ===== verification/Video_Backlog.thy ===== *)
theory Video_Backlog
  imports Float64
begin

text \<open>
  \<open>common/include/parties/video_backlog.h\<close>: the policy helpers of the server's video forwarding. The
  three overloads of \<open>video_backlog_threshold_bytes\<close> are \<open>threshold_rate\<close>, \<open>threshold_rtt\<close> and
  \<open>threshold_loss\<close>; doubles are rounded after every operation (\<open>Float64\<close>).
\<close>

section \<open>Backlog thresholds\<close>

definition VIDEO_BACKLOG_MIN_THRESHOLD_BYTES :: int where
  "VIDEO_BACKLOG_MIN_THRESHOLD_BYTES = 64 * 1024"
definition VIDEO_BACKLOG_MAX_THRESHOLD_BYTES :: int where
  "VIDEO_BACKLOG_MAX_THRESHOLD_BYTES = 2 * 1024 * 1024"
definition VIDEO_BACKLOG_QUEUE_SECONDS :: double where "VIDEO_BACKLOG_QUEUE_SECONDS = fl (1 / 4)"
definition VIDEO_BACKLOG_BURST_QUEUE_SECONDS :: double where
  "VIDEO_BACKLOG_BURST_QUEUE_SECONDS = fl (2 / 5)"
definition VIDEO_BACKLOG_DEFAULT_RTT_US :: u32 where "VIDEO_BACKLOG_DEFAULT_RTT_US = 50000"
definition VIDEO_BACKLOG_MAX_RTT_US :: u32 where "VIDEO_BACKLOG_MAX_RTT_US = 1000000"
definition VIDEO_BACKLOG_RTT_FACTOR :: double where "VIDEO_BACKLOG_RTT_FACTOR = fl (5 / 2)"

definition clamp_threshold :: "int \<Rightarrow> int" where
  "clamp_threshold v = (if v < VIDEO_BACKLOG_MIN_THRESHOLD_BYTES then VIDEO_BACKLOG_MIN_THRESHOLD_BYTES
     else if VIDEO_BACKLOG_MAX_THRESHOLD_BYTES < v then VIDEO_BACKLOG_MAX_THRESHOLD_BYTES else v)"

definition threshold_rate :: "double \<Rightarrow> int" where
  "threshold_rate rate =
     (let raw = fl (rate * VIDEO_BACKLOG_QUEUE_SECONDS)
      in clamp_threshold (if raw \<le> 0 then 0 else int_of_double raw))"

definition threshold_rtt :: "double \<Rightarrow> u32 \<Rightarrow> int \<Rightarrow> int" where
  "threshold_rtt rate min_rtt headroom =
     (let rtt = (if min_rtt > VIDEO_BACKLOG_MAX_RTT_US then VIDEO_BACKLOG_MAX_RTT_US else min_rtt);
          window_s = fl (VIDEO_BACKLOG_QUEUE_SECONDS + fl (double_of_int (uint rtt) / 1000000));
          raw = fl (rate * window_s);
          v = (if raw \<le> 0 then 0 else int_of_double raw)
      in clamp_threshold (if headroom > 0 then v + headroom else v))"

definition threshold_loss :: "double \<Rightarrow> u32 \<Rightarrow> int \<Rightarrow> u32 \<Rightarrow> u32 \<Rightarrow> int" where
  "threshold_loss rate min_rtt headroom smoothed_rtt loss_permille =
     (let rtt0 = (if min_rtt > smoothed_rtt div 2 then min_rtt else smoothed_rtt div 2);
          rtt = (if rtt0 > VIDEO_BACKLOG_MAX_RTT_US then VIDEO_BACKLOG_MAX_RTT_US else rtt0);
          loss0 = fl (double_of_int (uint loss_permille) / 30);
          loss_rtts = (if loss0 > 2 then 2 else loss0);
          window_s = fl (VIDEO_BACKLOG_BURST_QUEUE_SECONDS
                         + fl (fl (fl (VIDEO_BACKLOG_RTT_FACTOR + loss_rtts) * double_of_int (uint rtt))
                               / 1000000));
          raw = fl (rate * window_s);
          v = (if raw \<le> 0 then 0 else int_of_double raw)
      in clamp_threshold (if headroom > 0 then v + headroom else v))"

section \<open>ViewerVideoGate\<close>

record viewer_gate =
  gate_awaiting :: bool
  request_next_us :: int
  request_backoff_us :: int
  healthy_frames :: u32

definition HEALTHY_FRAMES :: u32 where "HEALTHY_FRAMES = 60"

definition new_gate :: viewer_gate where
  "new_gate = \<lparr>gate_awaiting = False, request_next_us = 0, request_backoff_us = 0, healthy_frames = 0\<rparr>"

definition allow_keyframe_request :: "int \<Rightarrow> viewer_gate \<Rightarrow> bool \<times> viewer_gate" where
  "allow_keyframe_request now g =
     (if now < request_next_us g then (False, g)
      else let b = (if request_backoff_us g = 0 then 1000000 else request_backoff_us g)
           in (True, g\<lparr>request_next_us := now + b, request_backoff_us := min (b * 2) 4000000\<rparr>))"

text \<open>The result is (forward, needs\_keyframe, gate).\<close>

definition gate_admit :: "int \<Rightarrow> int \<Rightarrow> bool \<Rightarrow> viewer_gate \<Rightarrow> bool \<times> bool \<times> viewer_gate" where
  "gate_admit outstanding threshold kf g =
     (if outstanding > threshold then (False, False, g\<lparr>gate_awaiting := True, healthy_frames := 0\<rparr>)
      else if gate_awaiting g \<and> \<not> kf then (False, True, g)
      else let g1 = (if gate_awaiting g then g\<lparr>gate_awaiting := False\<rparr> else g);
               g2 = g1\<lparr>healthy_frames := healthy_frames g1 + 1\<rparr>
           in (True, False, if healthy_frames g2 \<ge> HEALTHY_FRAMES
                            then g2\<lparr>request_backoff_us := 0, request_next_us := 0\<rparr> else g2))"

section \<open>TokenBucket, RateEstimator, Coalescer\<close>

record token_bucket =
  tb_rate :: double
  tb_burst :: double
  tb_tokens :: double
  tb_last_us :: int

definition new_bucket :: "double \<Rightarrow> double \<Rightarrow> token_bucket" where
  "new_bucket rate burst = \<lparr>tb_rate = rate, tb_burst = burst, tb_tokens = burst, tb_last_us = 0\<rparr>"

definition refill :: "int \<Rightarrow> token_bucket \<Rightarrow> token_bucket" where
  "refill now t =
     (if tb_last_us t = 0 then t\<lparr>tb_last_us := now\<rparr>
      else let dt = fl (double_of_int (now - tb_last_us t) / 1000000)
           in if dt > 0
              then t\<lparr>tb_tokens := min (tb_burst t) (fl (tb_tokens t + fl (dt * tb_rate t))),
                     tb_last_us := now\<rparr>
              else t)"

definition try_take :: "int \<Rightarrow> double \<Rightarrow> token_bucket \<Rightarrow> bool \<times> token_bucket" where
  "try_take now cost t =
     (let t1 = refill now t
      in if tb_tokens t1 < cost then (False, t1)
         else (True, t1\<lparr>tb_tokens := fl (tb_tokens t1 - cost)\<rparr>))"

record rate_est =
  window_s :: double
  re_rate :: double
  re_acc :: double
  re_last_us :: int
  re_have :: bool

definition new_rate_est :: "double \<Rightarrow> rate_est" where
  "new_rate_est w = \<lparr>window_s = w, re_rate = 0, re_acc = 0, re_last_us = 0, re_have = False\<rparr>"

definition rate_add :: "int \<Rightarrow> nat \<Rightarrow> rate_est \<Rightarrow> rate_est" where
  "rate_add now bs e =
     (let e1 = (if re_last_us e = 0 then e\<lparr>re_last_us := now, re_acc := 0\<rparr> else e);
          e2 = e1\<lparr>re_acc := fl (re_acc e1 + double_of_int (int bs))\<rparr>;
          dt = fl (double_of_int (now - re_last_us e2) / 1000000)
      in if dt \<ge> window_s e2
         then let inst = fl (re_acc e2 / dt)
              in e2\<lparr>re_rate := (if re_have e2 then fl (fl (1 / 2 * re_rate e2) + fl (1 / 2 * inst)) else inst),
                    re_have := True, re_acc := 0, re_last_us := now\<rparr>
         else e2)"

definition bytes_per_second :: "double \<Rightarrow> rate_est \<Rightarrow> double" where
  "bytes_per_second fallback e = (if re_have e then re_rate e else fallback)"

record coalescer =
  interval_us :: int
  co_last_us :: int

definition new_coalescer :: "int \<Rightarrow> coalescer" where
  "new_coalescer i = \<lparr>interval_us = i, co_last_us = 0\<rparr>"

definition coalescer_allow :: "int \<Rightarrow> coalescer \<Rightarrow> bool \<times> coalescer" where
  "coalescer_allow now c =
     (if co_last_us c \<noteq> 0 \<and> now - co_last_us c < interval_us c then (False, c)
      else (True, c\<lparr>co_last_us := now\<rparr>))"

section \<open>The threshold is bounded and monotone\<close>

lemma clamp_bounds:
  "VIDEO_BACKLOG_MIN_THRESHOLD_BYTES \<le> clamp_threshold v"
  "clamp_threshold v \<le> VIDEO_BACKLOG_MAX_THRESHOLD_BYTES"
  by (simp_all add: clamp_threshold_def VIDEO_BACKLOG_MIN_THRESHOLD_BYTES_def
      VIDEO_BACKLOG_MAX_THRESHOLD_BYTES_def)

lemma clamp_mono: "v \<le> w \<Longrightarrow> clamp_threshold v \<le> clamp_threshold w"
  by (simp add: clamp_threshold_def VIDEO_BACKLOG_MIN_THRESHOLD_BYTES_def
      VIDEO_BACKLOG_MAX_THRESHOLD_BYTES_def)

definition bytes_of_raw :: "double \<Rightarrow> int \<Rightarrow> int" where
  "bytes_of_raw raw headroom =
     (let v = (if raw \<le> 0 then 0 else int_of_double raw) in if headroom > 0 then v + headroom else v)"

lemma bytes_of_raw_mono: "r \<le> r' \<Longrightarrow> h \<le> h' \<Longrightarrow> bytes_of_raw r h \<le> bytes_of_raw r' h'"
  using int_of_double_mono [of r r'] int_of_double_nonneg [of r] int_of_double_nonneg [of r']
  by (auto simp: bytes_of_raw_def Let_def)

definition loss_window :: "u32 \<Rightarrow> u32 \<Rightarrow> u32 \<Rightarrow> double" where
  "loss_window min_rtt smoothed_rtt loss_permille =
     fl (VIDEO_BACKLOG_BURST_QUEUE_SECONDS
         + fl (fl (fl (VIDEO_BACKLOG_RTT_FACTOR + min 2 (fl (double_of_int (uint loss_permille) / 30)))
                   * double_of_int (uint (min (max min_rtt (smoothed_rtt div 2)) VIDEO_BACKLOG_MAX_RTT_US)))
               / 1000000))"

lemma threshold_loss_alt:
  "threshold_loss rate m h s l = clamp_threshold (bytes_of_raw (fl (rate * loss_window m s l)) h)"
proof -
  have a: "(if m > s div 2 then m else s div 2) = max m (s div 2)" by (auto simp: max_def)
  have b: "(if x > y then y else x) = min x y" for x y :: "'z::linorder" by (auto simp: min_def)
  show ?thesis
    by (simp only: threshold_loss_def Let_def loss_window_def bytes_of_raw_def a b min.commute)
qed

lemma uint_mono: "(a::u32) \<le> b \<Longrightarrow> uint a \<le> uint b"
  by (simp add: word_le_def)

lemma double_of_uint_nonneg: "0 \<le> double_of_int (uint (a::u32))"
  using double_of_int_mono [of 0 "uint a"] by (simp add: double_of_int_def)

lemma loss_window_nonneg: "0 \<le> loss_window m s l"
  unfolding loss_window_def VIDEO_BACKLOG_BURST_QUEUE_SECONDS_def VIDEO_BACKLOG_RTT_FACTOR_def
  by (intro fl_nonneg add_nonneg_nonneg mult_nonneg_nonneg divide_nonneg_nonneg)
     (auto intro!: fl_nonneg divide_nonneg_nonneg double_of_uint_nonneg)

lemma udiv2_mono: "(a::u32) \<le> b \<Longrightarrow> a div 2 \<le> b div 2"
  by (simp add: word_le_nat_alt unat_div div_le_mono)

lemma loss_window_mono:
  assumes "m \<le> m'" "s \<le> s'" "l \<le> l'" shows "loss_window m s l \<le> loss_window m' s' l'"
proof -
  have "min (max m (s div 2)) VIDEO_BACKLOG_MAX_RTT_US \<le> min (max m' (s' div 2)) VIDEO_BACKLOG_MAX_RTT_US"
    using assms(1) udiv2_mono [OF assms(2)] by (intro min.mono max.mono) simp_all
  then have rtt: "double_of_int (uint (min (max m (s div 2)) VIDEO_BACKLOG_MAX_RTT_US))
      \<le> double_of_int (uint (min (max m' (s' div 2)) VIDEO_BACKLOG_MAX_RTT_US))"
    by (intro double_of_int_mono uint_mono)
  have "fl (double_of_int (uint l) / 30) \<le> fl (double_of_int (uint l') / 30)"
    using double_of_int_mono [OF uint_mono [OF assms(3)]] by (intro fl_mono divide_right_mono) simp_all
  then have f: "fl (VIDEO_BACKLOG_RTT_FACTOR + min 2 (fl (double_of_int (uint l) / 30)))
      \<le> fl (VIDEO_BACKLOG_RTT_FACTOR + min 2 (fl (double_of_int (uint l') / 30)))"
    by (rule fl_mono [OF add_left_mono [OF min.mono [OF order_refl]]])
  have f0: "0 \<le> fl (VIDEO_BACKLOG_RTT_FACTOR + min 2 (fl (double_of_int (uint l') / 30)))"
    unfolding VIDEO_BACKLOG_RTT_FACTOR_def
    by (intro fl_nonneg add_nonneg_nonneg) (auto intro!: fl_nonneg divide_nonneg_nonneg double_of_uint_nonneg)
  note p = fl_mono [OF mult_mono [OF f rtt f0 double_of_uint_nonneg]]
  show ?thesis unfolding loss_window_def
    by (rule fl_mono [OF add_left_mono [OF fl_mono [OF divide_right_mono [OF p]]]]) simp
qed

text \<open>The per-viewer backlog budget always lies between 64 KiB and 2 MiB, and never shrinks when the
  watched rate, the keyframe headroom, either round trip or the loss grows: rounding in the double
  arithmetic cannot make a better link cause an earlier drop.\<close>

theorem threshold_bounded_monotone:
  assumes "0 \<le> r" "r \<le> r'" "m \<le> m'" "h \<le> h'" "s \<le> s'" "l \<le> l'"
  shows "65536 \<le> threshold_loss r m h s l \<and> threshold_loss r m h s l \<le> threshold_loss r' m' h' s' l'
    \<and> threshold_loss r' m' h' s' l' \<le> 2097152"
proof -
  have "r * loss_window m s l \<le> r' * loss_window m' s' l'"
    using assms loss_window_mono [OF assms(3,5,6)] loss_window_nonneg by (intro mult_mono) simp_all
  then have "threshold_loss r m h s l \<le> threshold_loss r' m' h' s' l'"
    unfolding threshold_loss_alt using assms(4) by (intro clamp_mono bytes_of_raw_mono fl_mono)
  moreover have "65536 \<le> threshold_loss r m h s l" "threshold_loss r' m' h' s' l' \<le> 2097152"
    unfolding threshold_loss_alt
    using clamp_bounds by (simp_all add: VIDEO_BACKLOG_MIN_THRESHOLD_BYTES_def VIDEO_BACKLOG_MAX_THRESHOLD_BYTES_def)
  ultimately show ?thesis by blast
qed

theorem threshold_bounded_monotone_witness:
  "threshold_loss 250000 20000 0 50000 0 \<le> threshold_loss 250000 300000 10000 300000 50"
  using threshold_bounded_monotone [of 250000 250000 20000 300000 0 10000 50000 300000 0 50] by simp

section \<open>The gate never forwards a delta over a hole\<close>

text \<open>One viewer's view of one sharer: per frame the bytes outstanding, the threshold and whether it is
  a keyframe; the result says which frames went out.\<close>

fun gate_run :: "(int \<times> int \<times> bool) list \<Rightarrow> viewer_gate \<Rightarrow> bool list" where
  "gate_run [] g = []"
| "gate_run ((out, thr, kf) # fs) g = (let (fwd, need, g1) = gate_admit out thr kf g in fwd # gate_run fs g1)"

lemma gate_awaiting_iff: "gate_admit out thr kf g = (fwd, need, g1) \<Longrightarrow> gate_awaiting g1 \<longleftrightarrow> \<not> fwd"
  by (auto simp: gate_admit_def Let_def split: if_splits)

lemma gate_run_length [simp]: "length (gate_run fs g) = length fs"
  by (induction fs g rule: gate_run.induct) (simp_all split: prod.split)

lemma gate_run_nth:
  "Suc i < length fs \<Longrightarrow> gate_run fs g ! Suc i \<Longrightarrow> \<not> snd (snd (fs ! Suc i)) \<Longrightarrow> gate_run fs g ! i"
proof (induction fs g arbitrary: i rule: gate_run.induct)
  case (2 out thr kf fs g)
  obtain fwd need g1 where a: "gate_admit out thr kf g = (fwd, need, g1)" by (cases "gate_admit out thr kf g")
  show ?case
  proof (cases i)
    case 0
    obtain out' thr' kf' fs' where fs: "fs = (out', thr', kf') # fs'" using 2 by (cases fs) auto
    have "\<not> kf'" using "2.prems"(3) by (simp add: 0 fs)
    moreover have "fst (gate_admit out' thr' kf' g1)"
      using "2.prems"(2) by (simp add: 0 a fs split: prod.splits)
    ultimately have "\<not> gate_awaiting g1" by (auto simp: gate_admit_def Let_def split: if_splits)
    then show ?thesis using gate_awaiting_iff [OF a] by (simp add: 0 a)
  next
    case (Suc j)
    then show ?thesis using "2.IH" [OF a [symmetric] refl refl, of j] "2.prems" by (simp add: a)
  qed
qed simp

text \<open>(C38) What a viewer is sent is always decodable: a delta is forwarded only if the frame before it was
  forwarded too, a frame goes out only within the viewer's budget, and a keyframe within the budget
  always goes out.\<close>

theorem gate_forwards_no_hole:
  assumes "i < length fs" and "fs ! i = (out, thr, kf)"
  shows "(gate_run fs g ! i \<longrightarrow> out \<le> thr \<and> (kf \<or> i = 0 \<or> gate_run fs g ! (i - 1))) \<and>
    (kf \<and> out \<le> thr \<longrightarrow> gate_run fs g ! i)"
proof -
  have "(gate_run fs g ! i \<longrightarrow> out \<le> thr) \<and> (kf \<and> out \<le> thr \<longrightarrow> gate_run fs g ! i)"
    using assms
  proof (induction fs g arbitrary: i rule: gate_run.induct)
    case (2 o2 t2 k2 fs g)
    obtain fwd need g1 where a: "gate_admit o2 t2 k2 g = (fwd, need, g1)" by (cases "gate_admit o2 t2 k2 g")
    show ?case
    proof (cases i)
      case 0
      then show ?thesis using 2 a by (auto simp: gate_admit_def Let_def split: if_splits)
    next
      case (Suc j)
      then show ?thesis using "2.IH" [OF a [symmetric] refl refl, of j] "2.prems" by (simp add: a)
    qed
  qed simp
  moreover have "gate_run fs g ! i \<Longrightarrow> \<not> kf \<Longrightarrow> i \<noteq> 0 \<Longrightarrow> gate_run fs g ! (i - 1)"
    using gate_run_nth [of "i - 1" fs g] assms by simp
  ultimately show ?thesis by blast
qed

theorem gate_forwards_no_hole_witness:
  "gate_run [(0, 10, True), (11, 10, False), (5, 10, False), (5, 10, True), (6, 10, False)] new_gate ! 3"
  by (rule gate_forwards_no_hole [of 3 _ 5 10 True, THEN conjunct2, THEN mp]) simp_all

section \<open>Keyframe requests back off\<close>

fun granted :: "int list \<Rightarrow> viewer_gate \<Rightarrow> int list" where
  "granted [] g = []"
| "granted (now # ts) g =
     (let (ok, g1) = allow_keyframe_request now g in if ok then now # granted ts g1 else granted ts g1)"

text \<open>\<open>spaced b ts\<close>: the first gap is at least \<open>b\<close>, and the required gap doubles up to four seconds.\<close>

fun spaced :: "int \<Rightarrow> int list \<Rightarrow> bool" where
  "spaced b (t # u # ts) \<longleftrightarrow> t + b \<le> u \<and> spaced (min (b * 2) 4000000) (u # ts)"
| "spaced b ts = True"

lemma request_refused: "now < request_next_us g \<Longrightarrow> allow_keyframe_request now g = (False, g)"
  by (simp add: allow_keyframe_request_def)

lemma granted_first: "granted ts g = t # us \<Longrightarrow> request_next_us g \<le> t"
proof (induction ts)
  case (Cons now ts)
  then show ?case
    by (cases "now < request_next_us g")
       (auto simp: request_refused allow_keyframe_request_def Let_def split: if_splits)
qed simp

lemma granted_spaced: "0 < request_backoff_us g \<Longrightarrow> spaced (request_backoff_us g) (granted ts g)"
proof (induction ts arbitrary: g)
  case (Cons now ts)
  show ?case
  proof (cases "now < request_next_us g")
    case True
    with Cons show ?thesis by (simp add: request_refused)
  next
    case False
    define g1 where "g1 = g\<lparr>request_next_us := now + request_backoff_us g,
      request_backoff_us := min (request_backoff_us g * 2) 4000000\<rparr>"
    have us: "granted (now # ts) g = now # granted ts g1"
      using False Cons.prems by (simp add: allow_keyframe_request_def g1_def Let_def)
    have "spaced (request_backoff_us g1) (granted ts g1)"
      using Cons.IH [of g1] Cons.prems by (simp add: g1_def)
    then show ?thesis
      unfolding us using granted_first [of ts g1]
      by (cases "granted ts g1") (auto simp: g1_def)
  qed
qed simp

text \<open>Keyframe requests on behalf of one viewer back off: however often it asks, the requests granted
  from a fresh gate are at least one second apart, then two, then four, as long as the viewer has
  not taken 60 frames in a row.\<close>

theorem keyframe_requests_back_off: "spaced 1000000 (granted ts new_gate)"
proof -
  let ?g = "new_gate\<lparr>request_backoff_us := 1000000\<rparr>"
  have "granted (t # us) new_gate = granted (t # us) ?g" if "0 \<le> t" for t us
    using that by (simp add: allow_keyframe_request_def new_gate_def)
  moreover have "granted (t # us) new_gate = granted us new_gate" if "t < 0" for t us
    using that by (simp add: allow_keyframe_request_def new_gate_def)
  moreover have "granted (t # us) ?g = granted us ?g" if "t < 0" for t us
    using that by (simp add: allow_keyframe_request_def new_gate_def)
  ultimately have "granted ts new_gate = granted ts ?g"
  proof (induction ts)
    case (Cons t ts)
    then show ?case by (cases "0 \<le> t") (metis, metis not_less)
  qed simp
  then show ?thesis using granted_spaced [of ?g ts] by simp
qed


section \<open>The token bucket stays within its burst\<close>

definition bucket_inv :: "token_bucket \<Rightarrow> bool" where
  "bucket_inv t \<longleftrightarrow> fl (tb_burst t) = tb_burst t \<and> fl (tb_tokens t) = tb_tokens t \<and> 0 \<le> tb_rate t \<and>
     0 \<le> tb_tokens t \<and> tb_tokens t \<le> tb_burst t"

lemma refill_inv: "bucket_inv t \<Longrightarrow> bucket_inv (refill now t)"
proof -
  assume i: "bucket_inv t"
  let ?dt = "fl (double_of_int (now - tb_last_us t) / 1000000)"
  let ?new = "fl (tb_tokens t + fl (?dt * tb_rate t))"
  show ?thesis
  proof (cases "tb_last_us t = 0 \<or> \<not> 0 < ?dt")
    case True
    then show ?thesis using i by (auto simp: refill_def bucket_inv_def Let_def)
  next
    case False
    then have "0 \<le> ?dt * tb_rate t" using i by (simp add: bucket_inv_def)
    then have "0 \<le> ?new" using i fl_nonneg by (simp add: bucket_inv_def)
    moreover have "0 \<le> tb_burst t" using i by (simp add: bucket_inv_def)
    moreover have "fl (min (tb_burst t) ?new) = min (tb_burst t) ?new"
      using i by (simp add: bucket_inv_def min_def)
    ultimately show ?thesis using i False by (simp add: refill_def bucket_inv_def)
  qed
qed

lemma try_take_inv:
  assumes "bucket_inv t" "0 \<le> cost" shows "bucket_inv (snd (try_take now cost t))"
proof -
  let ?t = "refill now t"
  have i: "bucket_inv ?t" by (rule refill_inv [OF assms(1)])
  have "fl (tb_tokens ?t - cost) \<le> fl (tb_tokens ?t)" using assms(2) by (intro fl_mono) simp
  then have "\<not> tb_tokens ?t < cost \<Longrightarrow> bucket_inv (?t\<lparr>tb_tokens := fl (tb_tokens ?t - cost)\<rparr>)"
    using i fl_nonneg [of "tb_tokens ?t - cost"] by (simp add: bucket_inv_def)
  with i show ?thesis by (simp add: try_take_def Let_def)
qed

end
