(* ===== verification/Datagram_Backlog.thy ===== *)
theory Datagram_Backlog
  imports Prelude
begin

text \<open>
  \<open>common/include/parties/datagram_backlog.h\<close>: the gate in front of MsQuic's unbounded datagram queue.
  The atomics are plain fields and every call is one step (the header allows the race of a sender
  with the worker to misjudge by one). Counters and times are integers.
  The properties are the two promises of the header comment: the queue of admitted media never
  exceeds the limit, and once a drop episode has drained the queue media stays off for the
  hold-off, so stream data gets the path.
\<close>

record backlog_limits =
  max_queued :: int
  max_delay_us :: int
  holdoff_us :: int

definition default_backlog_limits :: backlog_limits where
  "default_backlog_limits = \<lparr>max_queued = 32, max_delay_us = 200000, holdoff_us = 100000\<rparr>"

record backlog =
  limits :: backlog_limits
  queued :: int
  last_progress_us :: int
  last_wait_us :: int
  holdoff_until_us :: int
  dropping :: bool
  dropped :: nat

definition new_backlog :: "backlog_limits \<Rightarrow> backlog" where
  "new_backlog l = \<lparr>limits = l, queued = 0, last_progress_us = 0, last_wait_us = 0,
     holdoff_until_us = 0, dropping = False, dropped = 0\<rparr>"

definition refuse :: "backlog \<Rightarrow> bool \<times> backlog" where
  "refuse b = (False, b\<lparr>dropped := dropped b + 1\<rparr>)"

definition leave :: "backlog \<Rightarrow> backlog" where
  "leave b = (let b1 = b\<lparr>queued := queued b - 1\<rparr>
              in if queued b \<le> 1 then b1\<lparr>last_wait_us := 0\<rparr> else b1)"

definition head_wait_us :: "int \<Rightarrow> backlog \<Rightarrow> int" where
  "head_wait_us now b =
     (if queued b \<le> 0 then 0 else max (last_wait_us b) (now - last_progress_us b))"

definition admit :: "int \<Rightarrow> backlog \<Rightarrow> bool \<times> backlog" where
  "admit now b =
     (if now < holdoff_until_us b then refuse b
      else if queued b \<le> 0 then
        (let was = dropping b; b1 = b\<lparr>dropping := False\<rparr>
         in if was \<and> holdoff_us (limits b) > 0
            then refuse (b1\<lparr>holdoff_until_us := now + holdoff_us (limits b)\<rparr>)
            else (True, b1))
      else if queued b < max_queued (limits b) \<and> head_wait_us now b < max_delay_us (limits b)
      then (True, if dropping b then b\<lparr>dropping := False\<rparr> else b)
      else refuse (b\<lparr>dropping := True\<rparr>))"

definition on_queued :: "int \<Rightarrow> backlog \<Rightarrow> backlog" where
  "on_queued now b =
     (let b1 = b\<lparr>queued := queued b + 1\<rparr>
      in if queued b \<le> 0 then b1\<lparr>last_progress_us := now, last_wait_us := 0\<rparr> else b1)"

definition on_send_failed :: "backlog \<Rightarrow> backlog" where
  "on_send_failed b = leave b"

definition on_dequeued :: "int \<Rightarrow> int \<Rightarrow> backlog \<Rightarrow> backlog" where
  "on_dequeued now waited b =
     (let b1 = b\<lparr>last_progress_us := now\<rparr>;
          b2 = (if waited \<ge> 0 then b1\<lparr>last_wait_us := waited\<rparr> else b1)
      in leave b2)"

definition backlog_reset :: "backlog \<Rightarrow> backlog" where
  "backlog_reset b = b\<lparr>queued := 0, last_progress_us := 0, last_wait_us := 0, holdoff_until_us := 0,
     dropping := False\<rparr>"

section \<open>How the transport drives it\<close>

text \<open>\<open>Media\<close> is one media datagram: \<open>admit\<close>, then \<open>on_queued\<close> when it was admitted; \<open>Left\<close> one datagram
  leaving the queue, written or canceled, and \<open>SendFailed\<close> one refused by the call; MsQuic reports
  each datagram it was handed once, so these occur only while something is queued.\<close>

datatype backlog_op = Media int | Left int int | SendFailed

fun backlog_step :: "backlog_op \<Rightarrow> backlog \<Rightarrow> bool \<times> backlog" where
  "backlog_step (Media now) b =
     (let (ok, b1) = admit now b in (ok, if ok then on_queued now b1 else b1))"
| "backlog_step (Left now waited) b = (False, if queued b > 0 then on_dequeued now waited b else b)"
| "backlog_step SendFailed b = (False, if queued b > 0 then on_send_failed b else b)"

fun backlog_run :: "backlog_op list \<Rightarrow> backlog \<Rightarrow> backlog" where
  "backlog_run [] b = b"
| "backlog_run (op # ops) b = backlog_run ops (snd (backlog_step op b))"

definition backlog_inv :: "backlog \<Rightarrow> bool" where
  "backlog_inv b \<longleftrightarrow> 0 \<le> queued b \<and> queued b \<le> max 1 (max_queued (limits b))"

lemmas backlog_defs = admit_def refuse_def leave_def on_queued_def on_dequeued_def on_send_failed_def

lemma backlog_step_inv: "backlog_inv b \<Longrightarrow> backlog_inv (snd (backlog_step op b)) \<and>
    limits (snd (backlog_step op b)) = limits b"
  by (cases op) (auto simp: backlog_inv_def backlog_defs Let_def split: if_splits)

lemma backlog_run_inv: "backlog_inv b \<Longrightarrow> backlog_inv (backlog_run ops b) \<and> limits (backlog_run ops b) = limits b"
proof (induction ops arbitrary: b)
  case (Cons op ops)
  then show ?case using backlog_step_inv [OF Cons.prems, of op] by simp
qed simp

text \<open>However media datagrams, completions and failures interleave, the number of datagrams waiting
  in MsQuic stays between 0 and the configured limit (at least 1): the queue cannot grow without
  bound.\<close>

theorem datagram_queue_bounded:
  "0 \<le> queued (backlog_run ops (new_backlog l)) \<and>
   queued (backlog_run ops (new_backlog l)) \<le> max 1 (max_queued l)"
proof -
  have "backlog_inv (new_backlog l)" by (simp add: backlog_inv_def new_backlog_def)
  moreover have "limits (new_backlog l) = l" by (simp add: new_backlog_def)
  ultimately show ?thesis using backlog_run_inv [of "new_backlog l" ops] by (auto simp: backlog_inv_def)
qed

section \<open>The hold-off after a drop episode\<close>

definition op_time :: "backlog_op \<Rightarrow> int option" where
  "op_time op = (case op of Media t \<Rightarrow> Some t | _ \<Rightarrow> None)"

text \<open>The results of a run's \<open>admit\<close> calls, in order.\<close>

fun admissions :: "backlog_op list \<Rightarrow> backlog \<Rightarrow> (int \<times> bool) list" where
  "admissions [] b = []"
| "admissions (op # ops) b =
     (let (ok, b1) = backlog_step op b
      in (case op_time op of Some t \<Rightarrow> [(t, ok)] | None \<Rightarrow> []) @ admissions ops b1)"

lemma holdoff_stays:
  "\<forall>op \<in> set ops. \<forall>t. op_time op = Some t \<longrightarrow> t < h \<Longrightarrow> holdoff_until_us b = h \<Longrightarrow>
   \<forall>(t, ok) \<in> set (admissions ops b). \<not> ok"
proof (induction ops arbitrary: b)
  case (Cons op ops)
  have "holdoff_until_us (snd (backlog_step op b)) = h"
    using Cons.prems
    by (cases op) (auto simp: backlog_defs op_time_def Let_def)
  moreover have "op_time op = Some t \<Longrightarrow> \<not> fst (backlog_step op b)" for t
    using Cons.prems by (cases op) (auto simp: backlog_defs op_time_def Let_def)
  ultimately show ?case
    using Cons.IH [of "snd (backlog_step op b)"] Cons.prems(1)
    by (cases "backlog_step op b"; cases "op_time op") auto
qed simp

text \<open>Stream data gets the path after congestion: when a drop episode has drained the queue, the
  first media datagram offered at \<open>now\<close> is refused, and so is every other one offered before
  \<open>now + holdoff\<close>, whatever happens in between.\<close>

theorem holdoff_after_drain:
  assumes "dropping b" "queued b \<le> 0" "0 < holdoff_us (limits b)" "holdoff_until_us b \<le> now"
    and "\<forall>op \<in> set ops. \<forall>t. op_time op = Some t \<longrightarrow> t < now + holdoff_us (limits b)"
  shows "\<forall>(t, ok) \<in> set (admissions (Media now # ops) b). \<not> ok"
proof -
  have s: "backlog_step (Media now) b = (False, b\<lparr>dropping := False,
      holdoff_until_us := now + holdoff_us (limits b), dropped := dropped b + 1\<rparr>)"
    using assms(1-4) by (simp add: backlog_defs Let_def)
  with holdoff_stays [OF assms(5), of "snd (backlog_step (Media now) b)"] show ?thesis
    by (simp add: op_time_def)
qed

theorem holdoff_after_drain_witness:
  "list_all (\<lambda>(t, ok). \<not> ok) (admissions (Media 500 # [Media 600, Left 700 5, Media 100499])
     ((new_backlog default_backlog_limits)\<lparr>dropping := True\<rparr>))"
  unfolding list_all_iff
  by (rule holdoff_after_drain)
     (simp_all add: new_backlog_def default_backlog_limits_def op_time_def)

end
