(* ===== verification/Video_Common.thy ===== *)
theory Video_Common
  imports Prelude
begin

text \<open>
  \<open>common/include/parties/video_common.h\<close>: frame flags, size limits, the 14-byte frame header and
  the wrap-safe comparison of frame sequence numbers.
\<close>

definition VIDEO_FLAG_KEYFRAME :: u8 where "VIDEO_FLAG_KEYFRAME = 0x01"
definition VIDEO_FLAG_CAPTURE_TIME :: u8 where "VIDEO_FLAG_CAPTURE_TIME = 0x02"

definition VIDEO_KEYFRAME_REQUEST_COOLDOWN_MS :: int where
  "VIDEO_KEYFRAME_REQUEST_COOLDOWN_MS = 1000"

definition VIDEO_FRAME_MAX_BYTES :: nat where "VIDEO_FRAME_MAX_BYTES = 4 * 1024 * 1024"
definition VIDEO_FRAME_MAX_PAYLOAD_BYTES :: nat where
  "VIDEO_FRAME_MAX_PAYLOAD_BYTES = VIDEO_FRAME_MAX_BYTES - 1 - 4"
definition VIDEO_FRAME_HEADER_SIZE :: nat where "VIDEO_FRAME_HEADER_SIZE = 14"

record frame_header =
  frame_seq :: u32
  timestamp :: u32
  flags :: u8
  width :: u16
  height :: u16
  codec :: u8

definition keyframe :: "frame_header \<Rightarrow> bool" where
  "keyframe h \<longleftrightarrow> flags h AND VIDEO_FLAG_KEYFRAME \<noteq> 0"

definition header_write :: "frame_header \<Rightarrow> bytes" where
  "header_write h = le32 (frame_seq h) @ le32 (timestamp h) @ [flags h] @ le16 (width h)
                    @ le16 (height h) @ [codec h]"

definition header_parse :: "bytes \<Rightarrow> frame_header option" where
  "header_parse d =
     (if length d < VIDEO_FRAME_HEADER_SIZE then None
      else Some \<lparr>frame_seq = of_le32 d, timestamp = of_le32 (drop 4 d), flags = d ! 8,
                 width = of_le16 (drop 9 d), height = of_le16 (drop 11 d), codec = d ! 13\<rparr>)"

section \<open>Sequence numbers\<close>

text \<open>\<open>static_cast<int32_t>(a - b)\<close>: the 32-bit difference read as two's complement.\<close>

definition video_seq_distance :: "u32 \<Rightarrow> u32 \<Rightarrow> int" where
  "video_seq_distance a b = sint (a - b)"

definition video_seq_newer :: "u32 \<Rightarrow> u32 \<Rightarrow> bool" where
  "video_seq_newer a b \<longleftrightarrow> sint (a - b) > 0"

lemma newer_distance: "video_seq_newer a b \<longleftrightarrow> video_seq_distance a b > 0"
  by (simp add: video_seq_newer_def video_seq_distance_def)

lemma newer_irrefl [simp]: "\<not> video_seq_newer a a"
  by (simp add: video_seq_newer_def)

lemma distance_self [simp]: "video_seq_distance a a = 0"
  by (simp add: video_seq_distance_def)

lemma sint_range32: "- 2147483648 \<le> sint (x :: u32)" "sint (x :: u32) < 2147483648"
  using sint_ge [of x] sint_lt [of x] by simp_all

lemma distance_range:
  "- 2147483648 \<le> video_seq_distance a b" "video_seq_distance a b < 2147483648"
  by (simp_all add: video_seq_distance_def sint_range32)

lemma sint_eqI32:
  "(word_of_int n :: u32) = x \<Longrightarrow> - 2147483648 \<le> n \<Longrightarrow> n < 2147483648 \<Longrightarrow> sint x = n"
  by (auto simp: signed_of_int signed_take_bit_int_eq_self)

text \<open>Moving the base of a distance: exact while the result stays within 32 bits.\<close>

lemma distance_rebase:
  assumes "- 2147483648 \<le> video_seq_distance a b - video_seq_distance c b"
    and "video_seq_distance a b - video_seq_distance c b < 2147483648"
  shows "video_seq_distance a c = video_seq_distance a b - video_seq_distance c b"
  unfolding video_seq_distance_def
  using assms by (intro sint_eqI32) (simp_all add: video_seq_distance_def)

lemma distance_inj: "video_seq_distance a b = video_seq_distance c b \<longleftrightarrow> a = c"
  unfolding video_seq_distance_def by (metis diff_add_cancel signed_word_eqI)

lemma distance_succ: "video_seq_distance (b + 1) b = 1"
  by (simp add: video_seq_distance_def)

lemma distance_eq_1: "video_seq_distance a b = 1 \<longleftrightarrow> a = b + 1"
  using distance_inj [of a b "b + 1"] by (simp add: distance_succ)

lemma newer_trans_base:
  "video_seq_newer c b \<Longrightarrow> video_seq_distance c b < video_seq_distance a b \<Longrightarrow> video_seq_newer a c"
  using distance_rebase [of a b c] distance_range [of a b] by (simp add: newer_distance)

lemma newer_asym: "video_seq_newer a b \<Longrightarrow> \<not> video_seq_newer b a"
proof -
  assume "video_seq_newer a b"
  then have "sint (a - b) > 0" by (simp add: video_seq_newer_def)
  moreover have "sint (b - a) = - sint (a - b)" if "sint (a - b) > 0"
    using that sint_range32 [of "a - b"] by (intro sint_eqI32) simp_all
  ultimately show ?thesis by (simp add: video_seq_newer_def)
qed

section \<open>Properties\<close>

text \<open>The frame header is written in exactly 14 bytes and parsing a frame that starts with them gives
  the header back; fewer than 14 bytes are always refused.\<close>

theorem header_roundtrip:
  "length (header_write h) = VIDEO_FRAME_HEADER_SIZE
   \<and> header_parse (header_write h @ payload) = Some h
   \<and> (length d < VIDEO_FRAME_HEADER_SIZE \<longleftrightarrow> header_parse d = None)"
  by (simp add: header_write_def header_parse_def VIDEO_FRAME_HEADER_SIZE_def nth_append)

end
