(* ===== verification/Ordered_Map.thy ===== *)
theory Ordered_Map
  imports Prelude
begin

text \<open>
  \<open>std::map\<close> as the sources use it: an association list kept sorted by key. \<open>om_emplace\<close> keeps an
  existing entry, as \<open>emplace\<close> does; iteration is the list order, \<open>begin()\<close> its head and
  \<open>prev(end())\<close> its last entry. The interface locale states what a client of a map relies on.
\<close>

definition om_keys :: "('k \<times> 'v) list \<Rightarrow> 'k list" where
  "om_keys m = map fst m"

definition om_wf :: "('k::linorder \<times> 'v) list \<Rightarrow> bool" where
  "om_wf m \<longleftrightarrow> sorted_wrt (<) (om_keys m)"

fun om_emplace :: "'k::linorder \<Rightarrow> 'v \<Rightarrow> ('k \<times> 'v) list \<Rightarrow> ('k \<times> 'v) list" where
  "om_emplace k v [] = [(k, v)]"
| "om_emplace k v ((k', v') # m) =
     (if k < k' then (k, v) # (k', v') # m
      else if k = k' then (k', v') # m
      else (k', v') # om_emplace k v m)"

definition om_find :: "'k \<Rightarrow> ('k \<times> 'v) list \<Rightarrow> 'v option" where
  "om_find k m = map_of m k"

definition om_contains :: "'k \<Rightarrow> ('k \<times> 'v) list \<Rightarrow> bool" where
  "om_contains k m \<longleftrightarrow> om_find k m \<noteq> None"

definition om_erase :: "'k \<Rightarrow> ('k \<times> 'v) list \<Rightarrow> ('k \<times> 'v) list" where
  "om_erase k m = filter (\<lambda>e. fst e \<noteq> k) m"

locale ordered_map =
  fixes empty :: 'm
    and emplace :: "'k::linorder \<Rightarrow> 'v \<Rightarrow> 'm \<Rightarrow> 'm"
    and erase :: "'k \<Rightarrow> 'm \<Rightarrow> 'm"
    and find :: "'k \<Rightarrow> 'm \<Rightarrow> 'v option"
    and entries :: "'m \<Rightarrow> ('k \<times> 'v) list"
    and wf :: "'m \<Rightarrow> bool"
  assumes wf_empty: "wf empty"
    and wf_emplace: "wf m \<Longrightarrow> wf (emplace k v m)"
    and wf_erase: "wf m \<Longrightarrow> wf (erase k m)"
    and entries_empty: "entries empty = []"
    and sorted_entries: "wf m \<Longrightarrow> sorted_wrt (<) (map fst (entries m))"
    and find_entries: "wf m \<Longrightarrow> find k m = map_of (entries m) k"
    and set_emplace: "wf m \<Longrightarrow> set (entries (emplace k v m))
          = (if find k m = None then insert (k, v) (set (entries m)) else set (entries m))"
    and set_erase: "wf m \<Longrightarrow> set (entries (erase k m)) = {e \<in> set (entries m). fst e \<noteq> k}"
begin

lemma distinct_keys: "wf m \<Longrightarrow> distinct (map fst (entries m))"
  using sorted_entries strict_sorted_iff by blast

lemma find_in: "wf m \<Longrightarrow> find k m = Some v \<longleftrightarrow> (k, v) \<in> set (entries m)"
  using distinct_keys by (simp add: find_entries)

lemma find_none: "wf m \<Longrightarrow> find k m = None \<longleftrightarrow> k \<notin> fst ` set (entries m)"
  by (simp add: find_entries map_of_eq_None_iff)

lemma find_emplace:
  "wf m \<Longrightarrow> find k' (emplace k v m) = (if k' = k \<and> find k m = None then Some v else find k' m)"
proof -
  assume m: "wf m"
  have "find k' (emplace k v m) = Some w \<longleftrightarrow>
      (if k' = k \<and> find k m = None then Some v else find k' m) = Some w" for w
  proof -
    have "find k' (emplace k v m) = Some w \<longleftrightarrow> (k', w) \<in> set (entries (emplace k v m))"
      using m by (simp add: find_in wf_emplace)
    also have "\<dots> \<longleftrightarrow> (if k' = k \<and> find k m = None then Some v else find k' m) = Some w"
      using m find_in [OF m, of k' w] find_none [OF m, of k]
      by (auto simp: set_emplace image_iff)
    finally show ?thesis .
  qed
  then show ?thesis by (metis option.exhaust)
qed

lemma find_erase: "wf m \<Longrightarrow> find k' (erase k m) = (if k' = k then None else find k' m)"
proof -
  assume m: "wf m"
  have "find k' (erase k m) = Some w \<longleftrightarrow> (if k' = k then None else find k' m) = Some w" for w
    using m by (auto simp: find_in wf_erase set_erase)
  then show ?thesis by (metis option.exhaust)
qed

end

section \<open>The sorted association list implements the interface\<close>

lemma om_emplace_keys: "set (om_keys (om_emplace k v m)) = insert k (set (om_keys m))"
  by (induction k v m rule: om_emplace.induct) (auto simp: om_keys_def)

lemma om_wf_Cons: "om_wf (e # m) \<longleftrightarrow> (\<forall>k \<in> set (om_keys m). fst e < k) \<and> om_wf m"
  by (simp add: om_wf_def om_keys_def)

lemma om_wf_Nil [simp]: "om_wf []"
  by (simp add: om_wf_def om_keys_def)

lemma om_wf_emplace: "om_wf m \<Longrightarrow> om_wf (om_emplace k v m)"
  by (induction k v m rule: om_emplace.induct)
     (auto simp: om_wf_Cons om_emplace_keys, auto simp: om_keys_def)

lemma om_wf_filter: "om_wf m \<Longrightarrow> om_wf (filter P m)"
  by (induction m) (auto simp: om_wf_Cons om_keys_def)

lemma om_wf_appendD: "om_wf (a @ b) \<Longrightarrow> om_wf a \<and> om_wf b"
  by (simp add: om_wf_def om_keys_def sorted_wrt_append)

lemma om_emplace_new: "k \<notin> fst ` set m \<Longrightarrow> set (om_emplace k v m) = insert (k, v) (set m)"
  by (induction k v m rule: om_emplace.induct) auto

lemma om_emplace_old: "om_wf m \<Longrightarrow> k \<in> fst ` set m \<Longrightarrow> om_emplace k v m = m"
  by (induction k v m rule: om_emplace.induct) (auto simp: om_wf_Cons om_keys_def)

lemma om_emplace_length: "k \<notin> fst ` set m \<Longrightarrow> length (om_emplace k v m) = Suc (length m)"
  by (induction k v m rule: om_emplace.induct) auto

interpretation om: ordered_map "[]" om_emplace om_erase om_find "\<lambda>m. m" om_wf
proof
  fix m :: "('k::linorder \<times> 'v) list" and k v
  assume m: "om_wf m"
  show "set (om_emplace k v m) = (if om_find k m = None then insert (k, v) (set m) else set m)"
    using m by (simp add: om_find_def map_of_eq_None_iff om_emplace_new om_emplace_old)
qed (auto simp: om_wf_emplace om_wf_filter om_erase_def om_find_def,
     simp_all add: om_wf_def om_keys_def)

lemma om_wf_distinct: "om_wf m \<Longrightarrow> distinct (map fst m)"
  by (rule om.distinct_keys)

end
