(* ===== verification/Frame_Reorder.thy ===== *)
theory Frame_Reorder
  imports Video_Common Ordered_Map
begin

text \<open>
  \<open>common/include/parties/video_frame_reorder.h\<close> and \<open>common/src/video_frame_reorder.cpp\<close>: the
  reorder buffer that turns frames completing on independent QUIC streams into a decodable
  sequence. The two callbacks become events in the order the code calls them: \<open>Deliver\<close> for
  \<open>DeliverFn\<close>, \<open>Lost\<close> for \<open>LostFn\<close>. \<open>held_\<close> is a \<open>std::map\<close> keyed by the wrap-safe distance from
  \<open>last_delivered_\<close>.

  The correctness argument: an abstract decoder (\<open>dec_step\<close>) accepts a delta only right behind the
  frame it last took and a keyframe at any newer position, and hears of each broken chain once;
  every operation of the buffer is simulated by it. A separate result shows nothing is lost that
  can be saved: frames that all arrive, in any order and with timers firing in between, are all
  delivered in order.
\<close>

section \<open>State\<close>

record reorder_cfg =
  min_hold_ms :: u32
  max_hold_ms :: u32
  rtt_hold_factor :: u32
  hold_extra_ms :: u32
  max_held_frames :: nat
  max_bytes :: nat

definition default_reorder_cfg :: reorder_cfg where
  "default_reorder_cfg = \<lparr>min_hold_ms = 150, max_hold_ms = 1500, rtt_hold_factor = 3,
     hold_extra_ms = 100, max_held_frames = 240, max_bytes = 8 * 1024 * 1024\<rparr>"

record held_frame =
  h_hdr :: frame_header
  h_frame :: bytes
  h_arrived :: int

record reorder =
  rb_cfg :: reorder_cfg
  rb_rtt :: u32
  have_last :: bool
  awaiting_keyframe :: bool
  loss_reported :: bool
  last_delivered :: u32
  held :: "(int \<times> held_frame) list"
  held_bytes :: nat
  gap_since_us :: int
  inflight_key :: bool
  inflight_key_seq :: u32
  inflight_key_since_us :: int
  aborted :: "u32 list"

datatype reorder_event = Deliver frame_header bytes | Lost u32

definition MAX_ABORTED_TRACKED :: nat where "MAX_ABORTED_TRACKED = 64"

abbreviation h_seq :: "held_frame \<Rightarrow> u32" where "h_seq h \<equiv> frame_seq (h_hdr h)"

abbreviation h_size :: "held_frame \<Rightarrow> nat" where "h_size h \<equiv> length (h_frame h)"

definition held_total :: "(int \<times> held_frame) list \<Rightarrow> nat" where
  "held_total m = sum_list (map (h_size \<circ> snd) m)"

section \<open>Operations\<close>

definition new_reorder :: "reorder_cfg \<Rightarrow> reorder" where
  "new_reorder c =
     (let c1 = (if max_held_frames c = 0 then c\<lparr>max_held_frames := 1\<rparr> else c);
          c2 = (if max_hold_ms c1 < min_hold_ms c1 then c1\<lparr>max_hold_ms := min_hold_ms c1\<rparr> else c1)
      in \<lparr>rb_cfg = c2, rb_rtt = 0, have_last = False, awaiting_keyframe = True,
          loss_reported = False, last_delivered = 0, held = [], held_bytes = 0,
          gap_since_us = 0, inflight_key = False, inflight_key_seq = 0,
          inflight_key_since_us = 0, aborted = []\<rparr>)"

definition reorder_reset :: "reorder \<Rightarrow> reorder" where
  "reorder_reset b = b\<lparr>have_last := False, awaiting_keyframe := True, loss_reported := False,
     last_delivered := 0, held := [], held_bytes := 0, gap_since_us := 0, inflight_key := False,
     inflight_key_seq := 0, inflight_key_since_us := 0, aborted := []\<rparr>"

definition set_rtt :: "u32 \<Rightarrow> reorder \<Rightarrow> reorder" where
  "set_rtt rtt b = b\<lparr>rb_rtt := rtt\<rparr>"

definition hold_us :: "reorder \<Rightarrow> int" where
  "hold_us b =
     (let c = rb_cfg b;
          hold = uint (min_hold_ms c) * 1000;
          hold' = (if rb_rtt b > 0
                   then max hold (uint (rb_rtt b) * uint (rtt_hold_factor c)
                                  + uint (hold_extra_ms c) * 1000)
                   else hold)
      in min hold' (uint (max_hold_ms c) * 1000))"

definition keyframe_in_flight :: "reorder \<Rightarrow> int \<Rightarrow> bool" where
  "keyframe_in_flight b now \<longleftrightarrow>
     inflight_key b \<and> now - inflight_key_since_us b < max (4 * hold_us b) 2000000"

definition needs_keyframe :: "reorder \<Rightarrow> bool" where
  "needs_keyframe b \<longleftrightarrow> \<not> have_last b \<or> awaiting_keyframe b"

definition should_request_keyframe :: "reorder \<Rightarrow> int \<Rightarrow> bool" where
  "should_request_keyframe b now \<longleftrightarrow> needs_keyframe b \<and> \<not> keyframe_in_flight b now"

definition key_for :: "reorder \<Rightarrow> u32 \<Rightarrow> int" where
  "key_for b seq = video_seq_distance seq (last_delivered b)"

definition on_frame_started :: "frame_header \<Rightarrow> int \<Rightarrow> reorder \<Rightarrow> reorder" where
  "on_frame_started hdr now b =
     (let seq = frame_seq hdr
      in if \<not> keyframe hdr then b
         else if have_last b \<and> \<not> video_seq_newer seq (last_delivered b) then b
         else if \<not> inflight_key b \<or> video_seq_newer seq (inflight_key_seq b)
         then b\<lparr>inflight_key := True, inflight_key_seq := seq, inflight_key_since_us := now\<rparr>
         else b)"

definition forget_inflight_through :: "u32 \<Rightarrow> reorder \<Rightarrow> reorder" where
  "forget_inflight_through seq b =
     (if inflight_key b \<and> \<not> video_seq_newer (inflight_key_seq b) seq
      then b\<lparr>inflight_key := False\<rparr> else b)"

definition next_is_aborted :: "reorder \<Rightarrow> bool" where
  "next_is_aborted b \<longleftrightarrow> last_delivered b + 1 \<in> set (aborted b)"

definition rekey_held :: "u32 \<Rightarrow> (int \<times> held_frame) list \<Rightarrow> (int \<times> held_frame) list" where
  "rekey_held base m =
     foldl (\<lambda>acc (k, h). om_emplace (video_seq_distance (h_seq h) base) h acc) [] m"

definition earliest_arrival :: "(int \<times> held_frame) list \<Rightarrow> int" where
  "earliest_arrival m =
     foldl (\<lambda>e (k, h). if e = 0 \<or> h_arrived h < e then h_arrived h else e) 0 m"

definition report_loss :: "reorder \<Rightarrow> reorder \<times> reorder_event list" where
  "report_loss b =
     (if loss_reported b \<or> \<not> awaiting_keyframe b then (b, [])
      else (b\<lparr>loss_reported := True\<rparr>, [Lost (last_delivered b + 1)]))"

definition require_keyframe :: "int \<Rightarrow> reorder \<Rightarrow> reorder \<times> reorder_event list" where
  "require_keyframe now b =
     (if awaiting_keyframe b then (b, [])
      else let b1 = b\<lparr>awaiting_keyframe := True, loss_reported := False\<rparr>
           in if \<not> keyframe_in_flight b1 now then report_loss b1 else (b1, []))"

definition deliver_one :: "held_frame \<Rightarrow> reorder \<Rightarrow> reorder \<times> reorder_event list" where
  "deliver_one h b = (forget_inflight_through (h_seq h) b, [Deliver (h_hdr h) (h_frame h)])"

text \<open>The loop of \<open>drain\<close>: pop the first held frame while it is the next one.\<close>

function drain_loop :: "reorder \<Rightarrow> reorder \<times> reorder_event list" where
  "drain_loop b =
     (case held b of
        [] \<Rightarrow> (b, [])
      | (k, h) # m \<Rightarrow>
          if h_seq h \<noteq> last_delivered b + 1 then (b, [])
          else let (b1, e1) = deliver_one h (b\<lparr>held := m, held_bytes := held_bytes b - h_size h,
                                              last_delivered := h_seq h\<rparr>);
                   (b2, e2) = drain_loop b1
               in (b2, e1 @ e2))"
  by pat_completeness auto
termination
  by (relation "measure (\<lambda>b. length (held b))")
     (auto simp: deliver_one_def forget_inflight_through_def split: if_splits)

declare drain_loop.simps [simp del]

definition drain :: "int \<Rightarrow> reorder \<Rightarrow> reorder \<times> reorder_event list" where
  "drain now b =
     (let (b1, e1) = drain_loop b;
          m = rekey_held (last_delivered b1) (held b1);
          b2 = b1\<lparr>held := m, gap_since_us := earliest_arrival m,
                  aborted := filter (\<lambda>s. video_seq_newer s (last_delivered b1)) (aborted b1)\<rparr>;
          (b3, e3) = (if next_is_aborted b2 then require_keyframe now b2 else (b2, []))
      in (b3, e1 @ e3))"

text \<open>The loop of \<open>bound_held\<close>; the victim is the first entry before the first keyframe and the last
  one after it. The code would dereference an iterator of an empty map if the byte count exceeded
  the limit with nothing held; the invariant below excludes that.\<close>

function bound_loop :: "reorder \<Rightarrow> reorder" where
  "bound_loop b =
     (if held b \<noteq> [] \<and> (length (held b) > max_held_frames (rb_cfg b)
                         \<or> held_bytes b > max_bytes (rb_cfg b))
      then (if have_last b
            then bound_loop (b\<lparr>held := butlast (held b),
                               held_bytes := held_bytes b - h_size (snd (last (held b)))\<rparr>)
            else bound_loop (b\<lparr>held := tl (held b),
                               held_bytes := held_bytes b - h_size (snd (hd (held b)))\<rparr>))
      else b)"
  by pat_completeness auto
termination
  by (relation "measure (\<lambda>b. length (held b))") auto

declare bound_loop.simps [simp del]

definition bound_held :: "reorder \<Rightarrow> reorder" where
  "bound_held b = (let b1 = bound_loop b in b1\<lparr>gap_since_us := earliest_arrival (held b1)\<rparr>)"

text \<open>\<open>on_frame\<close>, split where the code returns: resuming delivery at a frame, holding a delta before
  the first keyframe, the first keyframe, and a delta behind a gap.\<close>

definition resume_at :: "frame_header \<Rightarrow> bytes \<Rightarrow> int \<Rightarrow> reorder \<Rightarrow> reorder \<times> reorder_event list" where
  "resume_at hdr frame now b =
     (let b1 = b\<lparr>awaiting_keyframe := False, loss_reported := False,
                 last_delivered := frame_seq hdr\<rparr>;
          (b2, e2) = deliver_one \<lparr>h_hdr = hdr, h_frame = frame, h_arrived = now\<rparr> b1;
          (b3, e3) = drain now b2
      in (b3, e2 @ e3))"

definition hold_startup :: "frame_header \<Rightarrow> bytes \<Rightarrow> int \<Rightarrow> reorder \<Rightarrow> reorder" where
  "hold_startup hdr frame now b =
     (let b1 = (if held b = [] then b\<lparr>last_delivered := frame_seq hdr\<rparr> else b);
          key = key_for b1 (frame_seq hdr)
      in if om_contains key (held b1) then b1
         else bound_held (b1\<lparr>held_bytes := held_bytes b1 + length frame,
                held := om_emplace key \<lparr>h_hdr = hdr, h_frame = frame, h_arrived = now\<rparr> (held b1)\<rparr>))"

definition first_keyframe :: "frame_header \<Rightarrow> bytes \<Rightarrow> int \<Rightarrow> reorder \<Rightarrow> reorder \<times> reorder_event list" where
  "first_keyframe hdr frame now b =
     (let seq = frame_seq hdr;
          old = filter (\<lambda>(k, h). \<not> video_seq_newer (h_seq h) seq) (held b);
          new = filter (\<lambda>(k, h). video_seq_newer (h_seq h) seq) (held b);
          b1 = b\<lparr>held := rekey_held seq new, held_bytes := held_bytes b - held_total old,
                 have_last := True, aborted := []\<rparr>
      in resume_at hdr frame now b1)"

definition skip_to_keyframe :: "frame_header \<Rightarrow> bytes \<Rightarrow> int \<Rightarrow> reorder \<Rightarrow> reorder \<times> reorder_event list" where
  "skip_to_keyframe hdr frame now b =
     (let key = key_for b (frame_seq hdr);
          old = filter (\<lambda>(k, h). k \<le> key) (held b);
          new = filter (\<lambda>(k, h). \<not> k \<le> key) (held b)
      in resume_at hdr frame now (b\<lparr>held := new, held_bytes := held_bytes b - held_total old\<rparr>))"

definition hold_delta :: "frame_header \<Rightarrow> bytes \<Rightarrow> int \<Rightarrow> reorder \<Rightarrow> reorder \<times> reorder_event list" where
  "hold_delta hdr frame now b =
     (let key = key_for b (frame_seq hdr)
      in if om_contains key (held b) then (b, [])
         else let b1 = (if held b = [] then b\<lparr>gap_since_us := now\<rparr> else b);
                  b2 = b1\<lparr>held_bytes := held_bytes b1 + length frame,
                          held := om_emplace key \<lparr>h_hdr = hdr, h_frame = frame, h_arrived = now\<rparr>
                                    (held b1)\<rparr>
              in if length (held b2) > max_held_frames (rb_cfg b2)
                    \<or> held_bytes b2 > max_bytes (rb_cfg b2)
                 then (let (b3, e3) = require_keyframe now b2 in (bound_held b3, e3))
                 else if next_is_aborted b2 then require_keyframe now b2
                 else (b2, []))"

definition on_frame :: "frame_header \<Rightarrow> bytes \<Rightarrow> int \<Rightarrow> reorder \<Rightarrow> reorder \<times> reorder_event list" where
  "on_frame hdr frame now b =
     (let seq = frame_seq hdr
      in if have_last b \<and> \<not> video_seq_newer seq (last_delivered b) then (b, [])
         else if \<not> have_last b then
           (if \<not> keyframe hdr then (hold_startup hdr frame now b, [])
            else first_keyframe hdr frame now b)
         else if seq = last_delivered b + 1 then resume_at hdr frame now b
         else if keyframe hdr then skip_to_keyframe hdr frame now b
         else hold_delta hdr frame now b)"

definition on_frame_aborted :: "u32 \<Rightarrow> int \<Rightarrow> reorder \<Rightarrow> reorder \<times> reorder_event list" where
  "on_frame_aborted seq now b =
     (let lost_inflight_key = inflight_key b \<and> seq = inflight_key_seq b;
          b1 = (if lost_inflight_key then b\<lparr>inflight_key := False\<rparr> else b)
      in if \<not> have_last b1 then (b1, [])
         else if seq = last_delivered b1 + 1 then
           (let (b2, e2) = require_keyframe now b1;
                (b3, e3) = (if lost_inflight_key then report_loss b2 else (b2, []))
            in (b3, e2 @ e3))
         else if \<not> video_seq_newer seq (last_delivered b1) then (b1, [])
         else
           (let (b2, e2) = (if lost_inflight_key \<and> awaiting_keyframe b1 then report_loss b1
                            else (b1, []))
            in case om_find (key_for b2 seq) (held b2) of
                 Some h \<Rightarrow>
                   (let m = om_erase (key_for b2 seq) (held b2)
                    in (b2\<lparr>held_bytes := held_bytes b2 - h_size h, held := m,
                           gap_since_us := earliest_arrival m\<rparr>, e2))
               | None \<Rightarrow>
                   if seq \<in> set (aborted b2) then (b2, e2)
                   else (b2\<lparr>aborted := (if length (aborted b2) \<ge> MAX_ABORTED_TRACKED
                                        then tl (aborted b2) else aborted b2) @ [seq]\<rparr>, e2)))"

definition poll :: "int \<Rightarrow> reorder \<Rightarrow> reorder \<times> reorder_event list" where
  "poll now b =
     (let hold = hold_us b
      in if \<not> have_last b then
           (let old = filter (\<lambda>(k, h). now - h_arrived h \<ge> hold) (held b);
                new = filter (\<lambda>(k, h). \<not> now - h_arrived h \<ge> hold) (held b)
            in (b\<lparr>held := new, held_bytes := held_bytes b - held_total old,
                  gap_since_us := earliest_arrival new\<rparr>, []))
         else if awaiting_keyframe b then
           (if \<not> loss_reported b \<and> \<not> keyframe_in_flight b now then report_loss b else (b, []))
         else if held b \<noteq> [] \<and> now - gap_since_us b \<ge> hold then require_keyframe now b
         else (b, []))"

section \<open>The abstract decoder\<close>

type_synonym dec_state = "u32 option \<times> bool"

fun dec_step :: "dec_state \<Rightarrow> reorder_event \<Rightarrow> dec_state option" where
  "dec_step (prev, reported) (Deliver h f) =
     (if (case prev of None \<Rightarrow> keyframe h
          | Some l \<Rightarrow> video_seq_newer (frame_seq h) l \<and> (keyframe h \<or> frame_seq h = l + 1))
      then Some (Some (frame_seq h), False) else None)"
| "dec_step (prev, reported) (Lost s) =
     (case prev of None \<Rightarrow> None
      | Some l \<Rightarrow> if \<not> reported \<and> s = l + 1 then Some (prev, True) else None)"

fun dec_run :: "dec_state \<Rightarrow> reorder_event list \<Rightarrow> dec_state option" where
  "dec_run d [] = Some d"
| "dec_run d (e # es) = (case dec_step d e of None \<Rightarrow> None | Some d' \<Rightarrow> dec_run d' es)"

definition dec_abs :: "reorder \<Rightarrow> dec_state" where
  "dec_abs b = (if have_last b then Some (last_delivered b) else None, loss_reported b)"

lemma dec_run_append:
  "dec_run d (es @ es') = (case dec_run d es of None \<Rightarrow> None | Some d' \<Rightarrow> dec_run d' es')"
  by (induction d es rule: dec_run.induct) (auto split: option.splits)

lemma dec_run_trans: "dec_run d es = Some d' \<Longrightarrow> dec_run d' es' = Some d'' \<Longrightarrow> dec_run d (es @ es') = Some d''"
  by (simp add: dec_run_append)

section \<open>Invariant\<close>

definition reorder_core :: "reorder \<Rightarrow> bool" where
  "reorder_core b \<longleftrightarrow>
     max_held_frames (rb_cfg b) > 0 \<and> om_wf (held b) \<and>
     (\<forall>(k, h) \<in> set (held b). k = key_for b (h_seq h) \<and> \<not> keyframe (h_hdr h) \<and>
        (have_last b \<longrightarrow> k > 1)) \<and>
     held_bytes b = held_total (held b) \<and>
     (loss_reported b \<longrightarrow> awaiting_keyframe b) \<and>
     (\<not> have_last b \<longrightarrow> awaiting_keyframe b \<and> \<not> loss_reported b \<and> aborted b = []) \<and>
     (\<forall>s \<in> set (aborted b). video_seq_newer s (last_delivered b)) \<and>
     length (aborted b) \<le> MAX_ABORTED_TRACKED"

definition within_bounds :: "reorder \<Rightarrow> bool" where
  "within_bounds b \<longleftrightarrow> length (held b) \<le> max_held_frames (rb_cfg b) \<and>
     held_bytes b \<le> max_bytes (rb_cfg b)"

definition reorder_inv :: "reorder \<Rightarrow> bool" where
  "reorder_inv b \<longleftrightarrow> reorder_core b \<and> within_bounds b"

text \<open>While \<open>last_delivered_\<close> moves, the keys are distances from an earlier base \<open>B\<close>.\<close>

definition based :: "u32 \<Rightarrow> reorder \<Rightarrow> bool" where
  "based B b \<longleftrightarrow> om_wf (held b) \<and> 0 \<le> video_seq_distance (last_delivered b) B \<and>
     (\<forall>(k, h) \<in> set (held b). k = video_seq_distance (h_seq h) B \<and> \<not> keyframe (h_hdr h) \<and>
        k > video_seq_distance (last_delivered b) B)"

lemma held_total_Cons [simp]: "held_total ((k, h) # m) = h_size h + held_total m"
  by (simp add: held_total_def)

lemma held_total_Nil [simp]: "held_total [] = 0"
  by (simp add: held_total_def)

lemma held_total_append [simp]: "held_total (a @ b) = held_total a + held_total b"
  by (simp add: held_total_def)

lemma held_total_filter: "held_total (filter P m) + held_total (filter (\<lambda>e. \<not> P e) m) = held_total m"
  by (induction m) (auto simp: held_total_def)

lemma held_total_partition:
  "held_total m - held_total (filter (\<lambda>(k, h). P k h) m) = held_total (filter (\<lambda>(k, h). \<not> P k h) m)"
  using held_total_filter [of "\<lambda>(k, h). P k h" m] by (simp add: case_prod_unfold)

lemma held_total_emplace:
  "k \<notin> fst ` set m \<Longrightarrow> held_total (om_emplace k h m) = held_total m + h_size h"
  by (induction k h m rule: om_emplace.induct) auto

lemma om_emplace_last: "\<forall>k' \<in> fst ` set m. k' < k \<Longrightarrow> om_emplace k v m = m @ [(k, v)]"
  by (induction k v m rule: om_emplace.induct) auto

text \<open>Re-keying against a base behind every entry only shifts the keys.\<close>

lemma rekey_shift_gen:
  "om_wf (acc @ map (\<lambda>(k, h). (k - d, h)) m) \<Longrightarrow>
   \<forall>(k, h) \<in> set m. video_seq_distance (h_seq h) base = k - d \<Longrightarrow>
   foldl (\<lambda>acc (k, h). om_emplace (video_seq_distance (h_seq h) base) h acc) acc m
     = acc @ map (\<lambda>(k, h). (k - d, h)) m"
proof (induction m arbitrary: acc)
  case Nil
  then show ?case by simp
next
  case (Cons e m)
  obtain k h where e: "e = (k, h)" by (cases e)
  have "\<forall>k' \<in> fst ` set acc. k' < k - d"
    using Cons.prems(1) by (auto simp: e om_wf_def om_keys_def sorted_wrt_append)
  then have "om_emplace (k - d) h acc = acc @ [(k - d, h)]" by (rule om_emplace_last)
  with Cons show ?case by (simp add: e)
qed

lemma om_wf_shift: "om_wf m \<Longrightarrow> om_wf (map (\<lambda>(k, h). (k - (d::int), h)) m)"
  by (induction m) (auto simp: om_wf_Cons om_keys_def)

lemma rekey_shift:
  assumes "om_wf m" and "\<forall>(k, h) \<in> set m. video_seq_distance (h_seq h) base = k - d"
  shows "rekey_held base m = map (\<lambda>(k, h). (k - d, h)) m"
  using rekey_shift_gen [of "[]" d m base] assms by (simp add: rekey_held_def om_wf_shift)

lemma based_rebase:
  assumes "based B b" and "(k, h) \<in> set (held b)"
  shows "video_seq_distance (h_seq h) (last_delivered b) = k - video_seq_distance (last_delivered b) B"
proof -
  from assms have k: "k = video_seq_distance (h_seq h) B" "k > video_seq_distance (last_delivered b) B"
    "0 \<le> video_seq_distance (last_delivered b) B"
    by (auto simp: based_def)
  with distance_range [of "h_seq h" B] show ?thesis
    by (subst distance_rebase) auto
qed

lemma based_rekey:
  "based B b \<Longrightarrow> rekey_held (last_delivered b) (held b)
     = map (\<lambda>(k, h). (k - video_seq_distance (last_delivered b) B, h)) (held b)"
  using based_rebase by (intro rekey_shift) (auto simp: based_def)

section \<open>The draining loop\<close>

definition same_flags :: "reorder \<Rightarrow> reorder \<Rightarrow> bool" where
  "same_flags b b' \<longleftrightarrow> rb_cfg b' = rb_cfg b \<and> have_last b' = have_last b \<and>
     awaiting_keyframe b' = awaiting_keyframe b \<and> loss_reported b' = loss_reported b \<and>
     aborted b' = aborted b"

lemma forget_fields [simp]:
  "rb_cfg (forget_inflight_through s b) = rb_cfg b"
  "rb_rtt (forget_inflight_through s b) = rb_rtt b"
  "have_last (forget_inflight_through s b) = have_last b"
  "awaiting_keyframe (forget_inflight_through s b) = awaiting_keyframe b"
  "loss_reported (forget_inflight_through s b) = loss_reported b"
  "last_delivered (forget_inflight_through s b) = last_delivered b"
  "held (forget_inflight_through s b) = held b"
  "held_bytes (forget_inflight_through s b) = held_bytes b"
  "aborted (forget_inflight_through s b) = aborted b"
  by (simp_all add: forget_inflight_through_def)

lemma newer_succ: "video_seq_newer (l + 1) l"
  by (simp add: newer_distance distance_succ)

text \<open>One pop of the loop keeps the entries based, one step further on.\<close>

lemma based_pop:
  assumes b: "based B b" and hd: "held b = (k, h) # m" and nxt: "h_seq h = last_delivered b + 1"
  shows "based B (b\<lparr>held := m, held_bytes := n, last_delivered := h_seq h\<rparr>)"
proof -
  have kh: "(k, h) \<in> set (held b)" by (simp add: hd)
  have k: "k = video_seq_distance (h_seq h) B" "0 \<le> video_seq_distance (last_delivered b) B"
    "k > video_seq_distance (last_delivered b) B"
    using b kh by (auto simp: based_def)
  have "\<forall>k' \<in> set (om_keys m). k < k'" and "om_wf m"
    using b by (auto simp: based_def hd om_wf_Cons)
  moreover have "\<forall>(k', h') \<in> set m. k' = video_seq_distance (h_seq h') B \<and> \<not> keyframe (h_hdr h')"
    using b by (auto simp: based_def hd)
  ultimately show ?thesis using k by (auto simp: based_def om_keys_def)
qed

lemma drain_loop_spec:
  assumes "based B b" and "have_last b" and "\<not> loss_reported b"
    and "held_bytes b = held_total (held b)" and "drain_loop b = (b', es)"
  shows "based B b' \<and> same_flags b b' \<and> held_bytes b' = held_total (held b') \<and>
    length (held b') \<le> length (held b) \<and> held_total (held b') \<le> held_total (held b) \<and>
    (\<forall>(k, h) \<in> set (held b'). k > video_seq_distance (last_delivered b') B + 1) \<and>
    dec_run (dec_abs b) es = Some (dec_abs b')"
  using assms
proof (induction b arbitrary: b' es rule: drain_loop.induct)
  case (1 b)
  show ?case
  proof (cases "held b")
    case Nil
    with 1 show ?thesis by (auto simp: drain_loop.simps same_flags_def)
  next
    case (Cons e m)
    obtain k h where e: "e = (k, h)" by (cases e)
    have hb: "held b = (k, h) # m" using Cons e by simp
    show ?thesis
    proof (cases "h_seq h = last_delivered b + 1")
      case False
      from False hb "1.prems"(5) have eq: "b' = b" "es = []" by (auto simp: drain_loop.simps)
      have rb: "video_seq_distance (h_seq h) (last_delivered b) = k - video_seq_distance (last_delivered b) B"
        using "1.prems"(1) hb by (intro based_rebase) simp_all
      with False have "k \<noteq> video_seq_distance (last_delivered b) B + 1"
        using distance_eq_1 [of "h_seq h" "last_delivered b"] by auto
      moreover have "k > video_seq_distance (last_delivered b) B"
        using "1.prems"(1) hb by (auto simp: based_def)
      moreover have "\<forall>(k', h') \<in> set m. k < k'"
        using "1.prems"(1) by (auto simp: based_def hb om_wf_Cons om_keys_def)
      ultimately show ?thesis using "1.prems" by (fastforce simp: eq same_flags_def hb)
    next
      case True
      let ?b0 = "b\<lparr>held := m, held_bytes := held_bytes b - h_size h, last_delivered := h_seq h\<rparr>"
      let ?b1 = "forget_inflight_through (h_seq h) ?b0"
      obtain b2 e2 where rec: "drain_loop ?b1 = (b2, e2)" by (cases "drain_loop ?b1")
      have out: "b' = b2" "es = Deliver (h_hdr h) (h_frame h) # e2"
        using True hb "1.prems"(5) rec by (auto simp: drain_loop.simps [of b] deliver_one_def)
      have based0: "based B ?b0" using based_pop [OF "1.prems"(1) hb True] .
      have "based B ?b1"
        using based0 by (simp add: based_def)
      moreover have "held_bytes ?b1 = held_total (held ?b1)"
        using "1.prems"(4) by (simp add: hb)
      ultimately have IH: "based B b2 \<and> same_flags ?b1 b2 \<and> held_bytes b2 = held_total (held b2) \<and>
          length (held b2) \<le> length (held ?b1) \<and> held_total (held b2) \<le> held_total (held ?b1) \<and>
          (\<forall>(k, h) \<in> set (held b2). k > video_seq_distance (last_delivered b2) B + 1) \<and>
          dec_run (dec_abs ?b1) e2 = Some (dec_abs b2)"
        using "1.IH" [OF hb refl _ refl, of ?b1 "[Deliver (h_hdr h) (h_frame h)]" b2 e2] True "1.prems"(2,3) rec
        by (simp add: deliver_one_def)
      have "dec_step (dec_abs b) (Deliver (h_hdr h) (h_frame h)) = Some (dec_abs ?b1)"
        using "1.prems"(2,3) True by (simp add: dec_abs_def newer_succ)
      with IH show ?thesis by (auto simp: out same_flags_def hb)
    qed
  qed
qed

section \<open>Preservation, operation by operation\<close>

text \<open>What every operation promises: the core invariant, and a run of the abstract decoder.\<close>

definition op_ok :: "reorder \<Rightarrow> reorder \<times> reorder_event list \<Rightarrow> bool" where
  "op_ok b r \<longleftrightarrow> reorder_core (fst r) \<and> dec_run (dec_abs b) (snd r) = Some (dec_abs (fst r))"

lemma op_okI: "reorder_core b' \<Longrightarrow> dec_run (dec_abs b) es = Some (dec_abs b') \<Longrightarrow> op_ok b (b', es)"
  by (simp add: op_ok_def)

lemma op_ok_refl: "reorder_core b \<Longrightarrow> op_ok b (b, [])"
  by (simp add: op_ok_def)

lemma op_ok_trans: "op_ok a (b, es) \<Longrightarrow> op_ok b (c, es') \<Longrightarrow> op_ok a (c, es @ es')"
  by (auto simp: op_ok_def intro: dec_run_trans)

lemma report_loss_state: "fst (report_loss b) = b\<lparr>loss_reported := loss_reported (fst (report_loss b))\<rparr>"
  by (simp add: report_loss_def)

lemma report_loss_ok: "reorder_core b \<Longrightarrow> have_last b \<Longrightarrow> op_ok b (report_loss b)"
  by (auto simp: op_ok_def report_loss_def reorder_core_def key_for_def dec_abs_def)

lemma require_keyframe_state:
  "fst (require_keyframe now b) = b\<lparr>awaiting_keyframe := True,
     loss_reported := loss_reported (fst (require_keyframe now b))\<rparr>"
  by (simp add: require_keyframe_def report_loss_def Let_def)

lemma require_keyframe_fields [simp]:
  "held (fst (require_keyframe now b)) = held b"
  "held_bytes (fst (require_keyframe now b)) = held_bytes b"
  "rb_cfg (fst (require_keyframe now b)) = rb_cfg b"
  "have_last (fst (require_keyframe now b)) = have_last b"
  "last_delivered (fst (require_keyframe now b)) = last_delivered b"
  "aborted (fst (require_keyframe now b)) = aborted b"
  by (subst require_keyframe_state, simp)+

lemma require_keyframe_ok: "reorder_core b \<Longrightarrow> have_last b \<Longrightarrow> op_ok b (require_keyframe now b)"
  by (auto simp: op_ok_def require_keyframe_def report_loss_def reorder_core_def key_for_def
           dec_abs_def Let_def)

lemma core_filter:
  assumes "reorder_core b"
  shows "reorder_core (b\<lparr>held := filter (\<lambda>(k, h). P k h) (held b),
           held_bytes := held_bytes b - held_total (filter (\<lambda>(k, h). \<not> P k h) (held b)),
           gap_since_us := g\<rparr>)"
  using assms held_total_partition [of "held b" "\<lambda>k h. \<not> P k h"]
  by (auto simp: reorder_core_def key_for_def om_wf_filter)

lemma om_wf_butlast: "om_wf m \<Longrightarrow> om_wf (butlast m)"
  by (cases m rule: rev_cases) (auto dest: om_wf_appendD)

lemma om_wf_tl: "om_wf m \<Longrightarrow> om_wf (tl m)"
  by (cases m) (auto simp: om_wf_Cons)

lemma held_total_butlast: "m \<noteq> [] \<Longrightarrow> held_total (butlast m) = held_total m - h_size (snd (last m))"
  by (cases m rule: rev_cases) (auto simp: held_total_def)

lemma held_total_tl: "m \<noteq> [] \<Longrightarrow> held_total (tl m) = held_total m - h_size (snd (hd m))"
  by (cases m) (auto simp: held_total_def)

lemma bound_loop_ok:
  "reorder_core b \<Longrightarrow> reorder_core (bound_loop b) \<and> within_bounds (bound_loop b) \<and>
     dec_abs (bound_loop b) = dec_abs b \<and> rb_cfg (bound_loop b) = rb_cfg b"
proof (induction b rule: bound_loop.induct)
  case (1 b)
  let ?big = "held b \<noteq> [] \<and> (length (held b) > max_held_frames (rb_cfg b)
                         \<or> held_bytes b > max_bytes (rb_cfg b))"
  show ?case
  proof (cases ?big)
    case False
    with "1.prems" show ?thesis
      by (auto simp: bound_loop.simps [of b] within_bounds_def reorder_core_def)
  next
    case True
    let ?bl = "b\<lparr>held := butlast (held b), held_bytes := held_bytes b - h_size (snd (last (held b)))\<rparr>"
    let ?bh = "b\<lparr>held := tl (held b), held_bytes := held_bytes b - h_size (snd (hd (held b)))\<rparr>"
    have "reorder_core ?bl"
      using "1.prems" True
      by (auto simp: reorder_core_def key_for_def om_wf_butlast held_total_butlast dest!: in_set_butlastD)
    moreover have "reorder_core ?bh"
      using "1.prems" True
      by (cases "held b") (auto simp: reorder_core_def key_for_def om_wf_Cons held_total_tl)
    ultimately show ?thesis
      using "1.IH" True by (auto simp: bound_loop.simps [of b] dec_abs_def)
  qed
qed

lemma core_gap [simp]: "reorder_core (b\<lparr>gap_since_us := g\<rparr>) = reorder_core b"
  by (simp add: reorder_core_def key_for_def)

lemma dec_abs_gap [simp]: "dec_abs (b\<lparr>gap_since_us := g\<rparr>) = dec_abs b"
  by (simp add: dec_abs_def)

lemma bound_held_ok:
  "reorder_core b \<Longrightarrow> reorder_inv (bound_held b) \<and> dec_abs (bound_held b) = dec_abs b"
  using bound_loop_ok [of b]
  by (clarsimp simp: bound_held_def Let_def reorder_inv_def within_bounds_def)

text \<open>\<open>drain\<close> re-establishes the keys for the new base, from entries that are based anywhere.\<close>

text \<open>The state of \<open>drain\<close> between its loop and its check for an aborted successor.\<close>

definition tidied :: "reorder \<Rightarrow> reorder" where
  "tidied b1 = (let m = rekey_held (last_delivered b1) (held b1)
     in b1\<lparr>held := m, gap_since_us := earliest_arrival m,
           aborted := filter (\<lambda>s. video_seq_newer s (last_delivered b1)) (aborted b1)\<rparr>)"

definition chain_check :: "int \<Rightarrow> reorder \<Rightarrow> reorder \<times> reorder_event list" where
  "chain_check now b = (if next_is_aborted b then require_keyframe now b else (b, []))"

lemma drain_alt:
  "drain_loop b = (b1, e1) \<Longrightarrow> chain_check now (tidied b1) = (b3, e3) \<Longrightarrow> drain now b = (b3, e1 @ e3)"
  by (simp add: drain_def tidied_def chain_check_def Let_def)

lemma chain_check_fields [simp]:
  "held (fst (chain_check now b)) = held b"
  "held_bytes (fst (chain_check now b)) = held_bytes b"
  "rb_cfg (fst (chain_check now b)) = rb_cfg b"
  "have_last (fst (chain_check now b)) = have_last b"
  by (simp_all add: chain_check_def)

lemma chain_check_ok: "reorder_core b \<Longrightarrow> have_last b \<Longrightarrow> op_ok b (chain_check now b)"
  by (simp add: chain_check_def op_ok_refl require_keyframe_ok)

lemma drained_core:
  assumes b: "based B b" "have_last b" "\<not> loss_reported b" "held_bytes b = held_total (held b)"
    and k: "\<forall>(k, h) \<in> set (held b). k > video_seq_distance (last_delivered b) B + 1"
    and c: "max_held_frames (rb_cfg b) > 0" "length (aborted b) \<le> MAX_ABORTED_TRACKED"
  shows "reorder_core (tidied b) \<and> length (held (tidied b)) = length (held b)"
proof -
  let ?d = "video_seq_distance (last_delivered b) B"
  let ?m = "rekey_held (last_delivered b) (held b)"
  have m: "?m = map (\<lambda>(k, h). (k - ?d, h)) (held b)" by (rule based_rekey [OF b(1)])
  have "om_wf ?m" using b(1) by (auto simp: m based_def intro: om_wf_shift)
  moreover have "\<forall>(k, h) \<in> set ?m. k = video_seq_distance (h_seq h) (last_delivered b)
      \<and> \<not> keyframe (h_hdr h) \<and> k > 1"
  proof (clarsimp simp: m)
    fix k h assume kh: "(k, h) \<in> set (held b)"
    with k b(1) show "k - ?d = video_seq_distance (h_seq h) (last_delivered b)
        \<and> \<not> keyframe (h_hdr h) \<and> 1 < k - ?d"
      using based_rebase [of B b k h] by (auto simp: based_def)
  qed
  moreover have "held_total ?m = held_total (held b)" "length ?m = length (held b)"
    by (simp_all add: m held_total_def comp_def case_prod_unfold)
  moreover have "length (filter (\<lambda>s. video_seq_newer s (last_delivered b)) (aborted b)) \<le> MAX_ABORTED_TRACKED"
    by (rule le_trans [OF length_filter_le c(2)])
  ultimately show ?thesis
    using b c by (auto simp: reorder_core_def key_for_def tidied_def Let_def)
qed

lemma drained_fields [simp]:
  "dec_abs (tidied b) = dec_abs b" "held_bytes (tidied b) = held_bytes b"
  "rb_cfg (tidied b) = rb_cfg b" "have_last (tidied b) = have_last b"
  by (simp_all add: tidied_def dec_abs_def Let_def)

lemma drain_ok:
  assumes b: "based B b" "have_last b" "\<not> loss_reported b" "held_bytes b = held_total (held b)"
    and c: "max_held_frames (rb_cfg b) > 0" "length (aborted b) \<le> MAX_ABORTED_TRACKED"
  shows "op_ok b (drain now b) \<and> length (held (fst (drain now b))) \<le> length (held b) \<and>
    held_bytes (fst (drain now b)) \<le> held_bytes b \<and> rb_cfg (fst (drain now b)) = rb_cfg b"
proof -
  obtain b1 e1 where l: "drain_loop b = (b1, e1)" by (cases "drain_loop b")
  obtain b3 e3 where r: "chain_check now (tidied b1) = (b3, e3)" by (cases "chain_check now (tidied b1)")
  note spec = drain_loop_spec [OF b l]
  have core2: "reorder_core (tidied b1)" "length (held (tidied b1)) = length (held b1)"
    using drained_core [of B b1] spec b(2,3) c by (simp_all add: same_flags_def)
  have ok1: "op_ok b (tidied b1, e1)"
    using core2(1) spec by (intro op_okI) simp_all
  have ok2: "op_ok (tidied b1) (b3, e3)"
    using chain_check_ok [OF core2(1), of now] r spec b(2) by (simp add: same_flags_def)
  have "held b3 = held (tidied b1) \<and> held_bytes b3 = held_bytes b1 \<and> rb_cfg b3 = rb_cfg b1"
    using chain_check_fields [of now "tidied b1", unfolded r] by simp
  moreover have "op_ok b (b3, e1 @ e3)" by (rule op_ok_trans [OF ok1 ok2])
  ultimately show ?thesis
    using spec b(4) core2(2) by (simp add: drain_alt [OF l r] same_flags_def)
qed


lemma resume_ok:
  assumes b: "based B (b\<lparr>last_delivered := frame_seq hdr\<rparr>)" "have_last b"
      "held_bytes b = held_total (held b)"
    and c: "max_held_frames (rb_cfg b) > 0" "length (aborted b) \<le> MAX_ABORTED_TRACKED"
    and d: "dec_step (dec_abs a) (Deliver hdr frame) = Some (Some (frame_seq hdr), False)"
  shows "op_ok a (resume_at hdr frame now b) \<and> length (held (fst (resume_at hdr frame now b))) \<le> length (held b) \<and>
    held_bytes (fst (resume_at hdr frame now b)) \<le> held_bytes b \<and>
    rb_cfg (fst (resume_at hdr frame now b)) = rb_cfg b"
proof -
  let ?b2 = "forget_inflight_through (frame_seq hdr) (b\<lparr>awaiting_keyframe := False, loss_reported := False,
                 last_delivered := frame_seq hdr\<rparr>)"
  have "based B ?b2" using b(1) by (simp add: based_def)
  from drain_ok [OF this] b(2,3) c
  have dr: "op_ok ?b2 (drain now ?b2) \<and> length (held (fst (drain now ?b2))) \<le> length (held b) \<and>
    held_bytes (fst (drain now ?b2)) \<le> held_bytes b \<and> rb_cfg (fst (drain now ?b2)) = rb_cfg b"
    by simp
  have "dec_abs ?b2 = (Some (frame_seq hdr), False)" using b(2) by (simp add: dec_abs_def)
  with dr d show ?thesis
    by (cases "drain now ?b2") (simp add: resume_at_def deliver_one_def Let_def op_ok_def)
qed

text \<open>The three ways a frame resumes delivery.\<close>

lemma inv_bounds_mono:
  "op_ok b r \<and> length (held (fst r)) \<le> n \<and> held_bytes (fst r) \<le> m \<and> rb_cfg (fst r) = rb_cfg b \<Longrightarrow>
   within_bounds b \<Longrightarrow> n \<le> length (held b) \<Longrightarrow> m \<le> held_bytes b \<Longrightarrow> reorder_inv (fst r) \<and> op_ok b r"
  by (simp add: op_ok_def reorder_inv_def within_bounds_def)

lemma resume_next_ok:
  assumes "reorder_inv b" "have_last b" "frame_seq hdr = last_delivered b + 1"
  shows "reorder_inv (fst (resume_at hdr frame now b)) \<and> op_ok b (resume_at hdr frame now b)"
proof -
  have "based (last_delivered b) (b\<lparr>last_delivered := frame_seq hdr\<rparr>)"
    using assms by (auto simp: based_def reorder_inv_def reorder_core_def key_for_def distance_succ)
  moreover have "dec_step (dec_abs b) (Deliver hdr frame) = Some (Some (frame_seq hdr), False)"
    using assms by (simp add: dec_abs_def newer_succ)
  ultimately show ?thesis
    using resume_ok [where B = "last_delivered b" and b = b and a = b] assms
    by (intro inv_bounds_mono [where n = "length (held b)" and m = "held_bytes b"])
       (simp_all add: reorder_inv_def reorder_core_def)
qed

lemma skip_ok:
  assumes i: "reorder_inv b" "have_last b" "keyframe hdr" "video_seq_newer (frame_seq hdr) (last_delivered b)"
  shows "reorder_inv (fst (skip_to_keyframe hdr frame now b)) \<and> op_ok b (skip_to_keyframe hdr frame now b)"
proof -
  let ?key = "key_for b (frame_seq hdr)"
  let ?new = "filter (\<lambda>(k, h). \<not> k \<le> ?key) (held b)"
  let ?b1 = "b\<lparr>held := ?new, held_bytes := held_bytes b - held_total (filter (\<lambda>(k, h). k \<le> ?key) (held b))\<rparr>"
  have tot: "held_bytes ?b1 = held_total ?new"
    using i(1) held_total_partition [of "held b" "\<lambda>k h. k \<le> ?key"]
    by (simp add: reorder_inv_def reorder_core_def)
  have "based (last_delivered b) (?b1\<lparr>last_delivered := frame_seq hdr\<rparr>)"
    using i by (auto simp: based_def reorder_inv_def reorder_core_def key_for_def newer_distance om_wf_filter)
  moreover have "dec_step (dec_abs b) (Deliver hdr frame) = Some (Some (frame_seq hdr), False)"
    using i by (simp add: dec_abs_def)
  ultimately have "op_ok b (resume_at hdr frame now ?b1) \<and>
      length (held (fst (resume_at hdr frame now ?b1))) \<le> length (held ?b1) \<and>
      held_bytes (fst (resume_at hdr frame now ?b1)) \<le> held_bytes ?b1 \<and>
      rb_cfg (fst (resume_at hdr frame now ?b1)) = rb_cfg b"
    using resume_ok [where B = "last_delivered b" and b = ?b1 and a = b] i tot
    by (simp add: reorder_inv_def reorder_core_def)
  moreover have "length (held ?b1) \<le> length (held b)" "held_bytes ?b1 \<le> held_bytes b" by simp_all
  moreover have "within_bounds b" using i(1) by (simp add: reorder_inv_def)
  ultimately show ?thesis
    unfolding skip_to_keyframe_def Let_def by (intro inv_bounds_mono)
qed


text \<open>Before the first keyframe the keys carry no meaning for delivery; re-keying sorts the entries
  anew and loses none, since distinct sequence numbers have distinct distances.\<close>

definition rekeyed :: "u32 \<Rightarrow> (int \<times> held_frame) list \<Rightarrow> bool" where
  "rekeyed base m \<longleftrightarrow> om_wf m \<and> (\<forall>(k, h) \<in> set m. k = video_seq_distance (h_seq h) base)"

lemma rekey_general_gen:
  "rekeyed base acc \<Longrightarrow> distinct (map (h_seq \<circ> snd) m) \<Longrightarrow>
   \<forall>h \<in> snd ` set acc. \<forall>h' \<in> snd ` set m. h_seq h \<noteq> h_seq h' \<Longrightarrow>
   (let r = foldl (\<lambda>acc (k, h). om_emplace (video_seq_distance (h_seq h) base) h acc) acc m
    in rekeyed base r \<and> held_total r = held_total acc + held_total m \<and>
       length r = length acc + length m \<and> snd ` set r = snd ` set acc \<union> snd ` set m)"
proof (induction m arbitrary: acc)
  case Nil
  then show ?case by simp
next
  case (Cons e m)
  obtain k h where e: "e = (k, h)" by (cases e)
  let ?k = "video_seq_distance (h_seq h) base"
  let ?acc = "om_emplace ?k h acc"
  have fresh: "?k \<notin> fst ` set acc"
  proof
    assume "?k \<in> fst ` set acc"
    then obtain h' where "(?k, h') \<in> set acc" by auto
    then have "?k = video_seq_distance (h_seq h') base" "h_seq h' \<noteq> h_seq h"
      using Cons.prems(1,3) by (auto simp: rekeyed_def e)
    then show False by (metis distance_inj)
  qed
  have acc: "rekeyed base ?acc"
    using Cons.prems(1) fresh om_wf_emplace [of acc ?k h]
    by (auto simp: rekeyed_def om_emplace_new)
  have "\<forall>h1 \<in> snd ` set ?acc. \<forall>h2 \<in> snd ` set m. h_seq h1 \<noteq> h_seq h2"
    using Cons.prems(2,3) fresh by (auto simp: om_emplace_new e)
  from Cons.IH [OF acc _ this] Cons.prems(2) fresh show ?case
    by (auto simp: e Let_def held_total_emplace om_emplace_length om_emplace_new)
qed

lemma rekey_general:
  "distinct (map (h_seq \<circ> snd) m) \<Longrightarrow>
   rekeyed base (rekey_held base m) \<and> held_total (rekey_held base m) = held_total m \<and>
   length (rekey_held base m) = length m \<and> snd ` set (rekey_held base m) = snd ` set m"
  using rekey_general_gen [of base "[]" m]
  by (simp add: rekey_held_def rekeyed_def Let_def)

lemma held_distinct:
  "om_wf m \<Longrightarrow> \<forall>(k, h) \<in> set m. k = video_seq_distance (h_seq h) base \<Longrightarrow> distinct (map (h_seq \<circ> snd) m)"
proof (induction m)
  case (Cons e m)
  then have "distinct (map (h_seq \<circ> snd) m)" by (simp add: om_wf_Cons comp_def)
  moreover have "h_seq (snd e) \<noteq> h_seq h" if "(k, h) \<in> set m" for k h
  proof -
    have "fst e < k" using Cons.prems(1) that by (force simp: om_wf_Cons om_keys_def)
    then show ?thesis using Cons.prems(2) that by (cases e) fastforce
  qed
  ultimately show ?case by (force simp: comp_def)
qed simp

lemma rekeyed_based:
  assumes "rekeyed (last_delivered b) (held b)"
    and "\<forall>h \<in> snd ` set (held b). \<not> keyframe (h_hdr h) \<and> video_seq_newer (h_seq h) (last_delivered b)"
  shows "based (last_delivered b) b"
  using assms by (force simp: based_def rekeyed_def newer_distance)

lemma first_keyframe_ok:
  assumes i: "reorder_inv b" "\<not> have_last b" "keyframe hdr"
  shows "reorder_inv (fst (first_keyframe hdr frame now b)) \<and> op_ok b (first_keyframe hdr frame now b)"
proof -
  let ?new = "filter (\<lambda>(k, h). video_seq_newer (h_seq h) (frame_seq hdr)) (held b)"
  let ?old = "filter (\<lambda>(k, h). \<not> video_seq_newer (h_seq h) (frame_seq hdr)) (held b)"
  let ?m = "rekey_held (frame_seq hdr) ?new"
  let ?b1 = "b\<lparr>held := ?m, held_bytes := held_bytes b - held_total ?old, have_last := True, aborted := []\<rparr>"
  have core: "om_wf (held b)" "\<forall>(k, h) \<in> set (held b). k = video_seq_distance (h_seq h) (last_delivered b)"
    "\<forall>(k, h) \<in> set (held b). \<not> keyframe (h_hdr h)" "held_bytes b = held_total (held b)"
    using i by (auto simp: reorder_inv_def reorder_core_def key_for_def)
  have "distinct (map (h_seq \<circ> snd) ?new)"
    using core(1,2) by (intro held_distinct [of _ "last_delivered b"]) (auto simp: om_wf_filter)
  note rk = rekey_general [OF this, of "frame_seq hdr"]
  have tot: "held_bytes ?b1 = held_total ?m"
    using rk core(4) held_total_partition [of "held b" "\<lambda>k h. \<not> video_seq_newer (h_seq h) (frame_seq hdr)"]
    by simp
  have "\<forall>h \<in> snd ` set ?m. \<not> keyframe (h_hdr h) \<and> video_seq_newer (h_seq h) (frame_seq hdr)"
  proof -
    have "snd ` set ?m = snd ` set ?new" using rk by blast
    then show ?thesis using core(3) by (simp only:) auto
  qed
  then have "based (frame_seq hdr) (?b1\<lparr>last_delivered := frame_seq hdr\<rparr>)"
    using rk rekeyed_based [of "?b1\<lparr>last_delivered := frame_seq hdr\<rparr>"] by simp
  moreover have "dec_step (dec_abs b) (Deliver hdr frame) = Some (Some (frame_seq hdr), False)"
    using i by (simp add: dec_abs_def)
  ultimately have "op_ok b (resume_at hdr frame now ?b1) \<and>
      length (held (fst (resume_at hdr frame now ?b1))) \<le> length (held ?b1) \<and>
      held_bytes (fst (resume_at hdr frame now ?b1)) \<le> held_bytes ?b1 \<and>
      rb_cfg (fst (resume_at hdr frame now ?b1)) = rb_cfg b"
    using resume_ok [where B = "frame_seq hdr" and b = ?b1 and a = b] i tot
    by (simp add: reorder_inv_def reorder_core_def)
  moreover have "length (held ?b1) \<le> length (held b)" "held_bytes ?b1 \<le> held_bytes b"
    using rk by simp_all
  moreover have "within_bounds b" using i(1) by (simp add: reorder_inv_def)
  ultimately show ?thesis
    unfolding first_keyframe_def Let_def by (intro inv_bounds_mono)
qed


text \<open>Holding a delta.\<close>

lemma core_emplace:
  assumes "reorder_core b" "key_for b (frame_seq hdr) \<notin> fst ` set (held b)" "\<not> keyframe hdr"
    and "have_last b \<Longrightarrow> key_for b (frame_seq hdr) > 1"
  shows "reorder_core (b\<lparr>held_bytes := held_bytes b + length frame,
           held := om_emplace (key_for b (frame_seq hdr)) \<lparr>h_hdr = hdr, h_frame = frame, h_arrived = now\<rparr>
             (held b)\<rparr>)"
  using assms
  by (auto simp: reorder_core_def om_wf_emplace om_emplace_new held_total_emplace key_for_def)

lemma om_contains_iff: "om_wf m \<Longrightarrow> om_contains k m \<longleftrightarrow> k \<in> fst ` set m"
  using om.find_none [of m k] by (auto simp: om_contains_def)

lemma hold_startup_ok:
  assumes i: "reorder_inv b" "\<not> have_last b" "\<not> keyframe hdr"
  shows "reorder_inv (hold_startup hdr frame now b) \<and> dec_abs (hold_startup hdr frame now b) = dec_abs b"
proof -
  define b1 where "b1 = (if held b = [] then b\<lparr>last_delivered := frame_seq hdr\<rparr> else b)"
  have c1: "reorder_core b1" "within_bounds b1" "dec_abs b1 = dec_abs b" "\<not> have_last b1"
    using i by (auto simp: reorder_inv_def reorder_core_def within_bounds_def dec_abs_def key_for_def b1_def)
  let ?b2 = "b1\<lparr>held_bytes := held_bytes b1 + length frame,
                held := om_emplace (key_for b1 (frame_seq hdr))
                          \<lparr>h_hdr = hdr, h_frame = frame, h_arrived = now\<rparr> (held b1)\<rparr>"
  show ?thesis
  proof (cases "om_contains (key_for b1 (frame_seq hdr)) (held b1)")
    case True
    with c1 show ?thesis by (simp add: hold_startup_def b1_def [symmetric] Let_def reorder_inv_def)
  next
    case False
    with c1 have "reorder_core ?b2"
      using core_emplace [of b1] i(3)
      by (simp add: om_contains_iff reorder_core_def)
    moreover have "dec_abs ?b2 = dec_abs b" using c1(3) by (simp add: dec_abs_def split: if_splits)
    moreover have "hold_startup hdr frame now b = bound_held ?b2"
      using False by (simp add: hold_startup_def b1_def [symmetric] Let_def)
    ultimately show ?thesis using bound_held_ok [of ?b2] by simp
  qed
qed


lemma distance_gt_1:
  "video_seq_newer s l \<Longrightarrow> s \<noteq> l + 1 \<Longrightarrow> video_seq_distance s l > 1"
  using distance_eq_1 [of s l] by (auto simp: newer_distance)

lemma op_ok_bound: "op_ok b (b1, es) \<Longrightarrow> reorder_inv (bound_held b1) \<and> op_ok b (bound_held b1, es)"
  using bound_held_ok [of b1] by (simp add: op_ok_def reorder_inv_def)

lemma hold_delta_ok:
  assumes i: "reorder_inv b" "have_last b" "\<not> keyframe hdr" "video_seq_newer (frame_seq hdr) (last_delivered b)"
    "frame_seq hdr \<noteq> last_delivered b + 1"
  shows "reorder_inv (fst (hold_delta hdr frame now b)) \<and> op_ok b (hold_delta hdr frame now b)"
proof (cases "om_contains (key_for b (frame_seq hdr)) (held b)")
  case True
  with i(1) show ?thesis by (simp add: hold_delta_def Let_def reorder_inv_def op_ok_refl)
next
  case False
  define b1 where "b1 = (if held b = [] then b\<lparr>gap_since_us := now\<rparr> else b)"
  define b2 where "b2 = b1\<lparr>held_bytes := held_bytes b1 + length frame,
                held := om_emplace (key_for b1 (frame_seq hdr))
                          \<lparr>h_hdr = hdr, h_frame = frame, h_arrived = now\<rparr> (held b1)\<rparr>"
  have b1: "reorder_core b1" "have_last b1" "held b1 = held b" "last_delivered b1 = last_delivered b"
    "key_for b1 = key_for b" "dec_abs b1 = dec_abs b"
    using i(1,2) by (auto simp: b1_def reorder_inv_def key_for_def)
  let ?big = "length (held b2) > max_held_frames (rb_cfg b2) \<or> held_bytes b2 > max_bytes (rb_cfg b2)"
  have eq: "hold_delta hdr frame now b =
      (if ?big then (let (b3, e3) = require_keyframe now b2 in (bound_held b3, e3))
       else chain_check now b2)"
    using False
    by (simp add: hold_delta_def chain_check_def b1_def [symmetric] b2_def b1 Let_def)
  have "om_wf (held b)" using i(1) by (simp add: reorder_inv_def reorder_core_def)
  then have c2: "reorder_core b2"
    unfolding b2_def using i False b1
    by (intro core_emplace) (simp_all add: om_contains_iff key_for_def distance_gt_1)
  have h2: "have_last b2" "dec_abs b2 = dec_abs b"
    using b1(2,6) by (simp_all add: b2_def dec_abs_def)
  show ?thesis
  proof (cases ?big)
    case True
    have "op_ok b (require_keyframe now b2)"
      using require_keyframe_ok [OF c2 h2(1), of now] h2(2) by (simp add: op_ok_def)
    with True show ?thesis
      unfolding eq by (cases "require_keyframe now b2") (simp add: op_ok_bound)
  next
    case small: False
    have "op_ok b (chain_check now b2)"
      using chain_check_ok [OF c2 h2(1), of now] h2(2) by (simp add: op_ok_def)
    with small show ?thesis
      unfolding eq by (auto simp: reorder_inv_def op_ok_def within_bounds_def)
  qed
qed

theorem on_frame_ok:
  assumes "reorder_inv b"
  shows "reorder_inv (fst (on_frame hdr frame now b)) \<and> op_ok b (on_frame hdr frame now b)"
proof -
  have startup: "reorder_inv (hold_startup hdr frame now b) \<and> op_ok b (hold_startup hdr frame now b, [])"
    if "\<not> have_last b" "\<not> keyframe hdr"
    using hold_startup_ok [OF assms that] by (simp add: op_ok_def reorder_inv_def)
  have "op_ok b (b, [])" using assms by (simp add: op_ok_refl reorder_inv_def)
  with assms show ?thesis
    using startup first_keyframe_ok resume_next_ok skip_ok hold_delta_ok
    by (simp add: on_frame_def Let_def)
qed


lemma op_ok_same:
  "reorder_inv b' \<Longrightarrow> dec_abs b' = dec_abs b \<Longrightarrow> reorder_inv b' \<and> op_ok b (b', [])"
  by (simp add: op_ok_def reorder_inv_def)

lemma inflight_irrelevant [simp]:
  "reorder_inv (b\<lparr>inflight_key := k\<rparr>) = reorder_inv b"
  "reorder_inv (b\<lparr>inflight_key_seq := s\<rparr>) = reorder_inv b"
  "reorder_inv (b\<lparr>inflight_key_since_us := t\<rparr>) = reorder_inv b"
  "reorder_inv (b\<lparr>rb_rtt := r\<rparr>) = reorder_inv b"
  "dec_abs (b\<lparr>inflight_key := k\<rparr>) = dec_abs b"
  "dec_abs (b\<lparr>inflight_key_seq := s\<rparr>) = dec_abs b"
  "dec_abs (b\<lparr>inflight_key_since_us := t\<rparr>) = dec_abs b"
  "dec_abs (b\<lparr>rb_rtt := r\<rparr>) = dec_abs b"
  by (simp_all add: reorder_inv_def reorder_core_def within_bounds_def key_for_def dec_abs_def)

lemma on_frame_started_ok:
  "reorder_inv b \<Longrightarrow> reorder_inv (on_frame_started hdr now b) \<and> op_ok b (on_frame_started hdr now b, [])"
  by (rule op_ok_same) (simp_all add: on_frame_started_def Let_def)

lemma set_rtt_ok: "reorder_inv b \<Longrightarrow> reorder_inv (set_rtt r b) \<and> op_ok b (set_rtt r b, [])"
  by (rule op_ok_same) (simp_all add: set_rtt_def)

lemma report_loss_inv: "reorder_inv b \<Longrightarrow> have_last b \<Longrightarrow> reorder_inv (fst (report_loss b)) \<and> op_ok b (report_loss b)"
  using report_loss_ok [of b] by (auto simp: reorder_inv_def op_ok_def within_bounds_def report_loss_def)

lemma require_keyframe_inv:
  "reorder_inv b \<Longrightarrow> have_last b \<Longrightarrow> reorder_inv (fst (require_keyframe now b)) \<and> op_ok b (require_keyframe now b)"
  using require_keyframe_ok [of b now] by (auto simp: reorder_inv_def op_ok_def within_bounds_def)

text \<open>Forgetting a held frame, and remembering an aborted one.\<close>

lemma held_total_erase:
  "om_wf m \<Longrightarrow> om_find k m = Some h \<Longrightarrow> held_total (om_erase k m) + h_size h = held_total m"
proof (induction m)
  case (Cons e m)
  obtain k' h' where e: "e = (k', h')" by (cases e)
  show ?case
  proof (cases "k = k'")
    case True
    then have "filter (\<lambda>e. fst e \<noteq> k) m = m"
      using Cons.prems(1) by (auto simp: e om_wf_Cons om_keys_def intro!: filter_True)
    with True Cons.prems(2) show ?thesis by (simp add: e om_find_def om_erase_def)
  next
    case False
    with Cons show ?thesis by (simp add: e om_wf_Cons om_find_def om_erase_def)
  qed
qed (simp add: om_find_def)

lemma erase_inv:
  assumes "reorder_inv b" "om_find k (held b) = Some h"
  shows "reorder_inv (b\<lparr>held_bytes := held_bytes b - h_size h, held := om_erase k (held b),
    gap_since_us := g\<rparr>)"
proof -
  have wf: "om_wf (held b)" using assms(1) by (simp add: reorder_inv_def reorder_core_def)
  have "held_bytes b - h_size h = held_total (om_erase k (held b))"
    using held_total_erase [OF wf assms(2)] assms(1) by (simp add: reorder_inv_def reorder_core_def)
  moreover have "length (om_erase k (held b)) \<le> length (held b)" by (simp add: om_erase_def)
  moreover have "om_wf (om_erase k (held b))" using wf by (simp add: om_erase_def om_wf_filter)
  moreover have "set (om_erase k (held b)) \<subseteq> set (held b)" by (auto simp: om_erase_def)
  ultimately show ?thesis
    using assms(1) held_total_erase [OF wf assms(2)]
    by (auto simp: reorder_inv_def reorder_core_def within_bounds_def key_for_def)
qed

lemma set_tl_subset: "set (tl xs) \<subseteq> set xs"
  by (cases xs) auto

lemma remember_aborted_inv:
  assumes "reorder_inv b" "have_last b" "video_seq_newer s (last_delivered b)"
  shows "reorder_inv (b\<lparr>aborted := (if length (aborted b) \<ge> MAX_ABORTED_TRACKED
                                    then tl (aborted b) else aborted b) @ [s]\<rparr>)"
proof -
  have "length ((if length (aborted b) \<ge> MAX_ABORTED_TRACKED then tl (aborted b) else aborted b) @ [s])
      \<le> MAX_ABORTED_TRACKED"
    using assms(1) by (auto simp: reorder_inv_def reorder_core_def MAX_ABORTED_TRACKED_def)
  moreover have "\<forall>x \<in> set ((if length (aborted b) \<ge> MAX_ABORTED_TRACKED then tl (aborted b) else aborted b) @ [s]).
      video_seq_newer x (last_delivered b)"
    using assms by (auto simp: reorder_inv_def reorder_core_def dest: subsetD [OF set_tl_subset] split: if_splits)
  ultimately show ?thesis
    using assms(1,2) by (simp add: reorder_inv_def reorder_core_def within_bounds_def key_for_def)
qed

lemma inv_ok_trans:
  "reorder_inv b \<and> op_ok a (b, es) \<Longrightarrow> reorder_inv (fst r) \<and> op_ok b r \<Longrightarrow>
   reorder_inv (fst r) \<and> op_ok a (fst r, es @ snd r)"
  by (cases r) (auto intro: op_ok_trans)

lemma report_loss_fields [simp]:
  "held (fst (report_loss b)) = held b" "have_last (fst (report_loss b)) = have_last b"
  "last_delivered (fst (report_loss b)) = last_delivered b" "aborted (fst (report_loss b)) = aborted b"
  "key_for (fst (report_loss b)) = key_for b"
  by (simp_all add: report_loss_def key_for_def fun_eq_iff)

text \<open>The last step of \<open>on_frame_aborted\<close>: drop the frame if it was held, else remember it.\<close>

definition forget_or_remember :: "u32 \<Rightarrow> reorder \<Rightarrow> reorder" where
  "forget_or_remember seq b =
     (case om_find (key_for b seq) (held b) of
        Some h \<Rightarrow> b\<lparr>held_bytes := held_bytes b - h_size h, held := om_erase (key_for b seq) (held b),
                     gap_since_us := earliest_arrival (om_erase (key_for b seq) (held b))\<rparr>
      | None \<Rightarrow> if seq \<in> set (aborted b) then b
                else b\<lparr>aborted := (if length (aborted b) \<ge> MAX_ABORTED_TRACKED
                                   then tl (aborted b) else aborted b) @ [seq]\<rparr>)"

lemma forget_or_remember_ok:
  assumes "reorder_inv b" "have_last b" "video_seq_newer s (last_delivered b)"
  shows "reorder_inv (forget_or_remember s b) \<and> op_ok b (forget_or_remember s b, [])"
proof (rule op_ok_same)
  show "reorder_inv (forget_or_remember s b)"
    using assms(1) erase_inv [OF assms(1)] remember_aborted_inv [OF assms]
    by (auto simp: forget_or_remember_def split: option.splits)
  show "dec_abs (forget_or_remember s b) = dec_abs b"
    by (simp add: forget_or_remember_def dec_abs_def split: option.splits)
qed

lemma on_frame_aborted_alt:
  "on_frame_aborted seq now b =
     (let lik = inflight_key b \<and> seq = inflight_key_seq b;
          b1 = (if lik then b\<lparr>inflight_key := False\<rparr> else b)
      in if \<not> have_last b1 then (b1, [])
         else if seq = last_delivered b1 + 1 then
           (let (b2, e2) = require_keyframe now b1;
                (b3, e3) = (if lik then report_loss b2 else (b2, [])) in (b3, e2 @ e3))
         else if \<not> video_seq_newer seq (last_delivered b1) then (b1, [])
         else (let (b2, e2) = (if lik \<and> awaiting_keyframe b1 then report_loss b1 else (b1, []))
               in (forget_or_remember seq b2, e2)))"
  by (simp add: on_frame_aborted_def forget_or_remember_def Let_def split: option.split prod.split)


theorem on_frame_aborted_ok:
  assumes inv: "reorder_inv b"
  shows "reorder_inv (fst (on_frame_aborted seq now b)) \<and> op_ok b (on_frame_aborted seq now b)"
proof -
  define lik where "lik \<longleftrightarrow> inflight_key b \<and> seq = inflight_key_seq b"
  define b1 where "b1 = (if lik then b\<lparr>inflight_key := False\<rparr> else b)"
  have b1: "reorder_inv b1 \<and> op_ok b (b1, [])"
    using inv by (intro op_ok_same) (auto simp: b1_def)
  have succ: "reorder_inv (fst r) \<and> op_ok b r"
    if "have_last b1" and r: "r = (let (b2, e2) = require_keyframe now b1;
           (b3, e3) = (if lik then report_loss b2 else (b2, [])) in (b3, e2 @ e3))" for r
  proof -
    obtain b2 e2 where r2: "require_keyframe now b1 = (b2, e2)" by (cases "require_keyframe now b1")
    have s2: "reorder_inv b2 \<and> op_ok b (b2, e2)" "have_last b2"
      using inv_ok_trans [OF b1 require_keyframe_inv [of b1 now]] b1 \<open>have_last b1\<close> r2
        require_keyframe_fields(4) [of now b1] by simp_all
    show ?thesis
      using s2 inv_ok_trans [OF s2(1) report_loss_inv] unfolding r r2
      by (cases "report_loss b2") simp
  qed
  have other: "reorder_inv (fst r) \<and> op_ok b r"
    if nw: "have_last b1" "video_seq_newer seq (last_delivered b1)"
      and r: "r = (let (b2, e2) = (if c then report_loss b1 else (b1, [])) in (forget_or_remember seq b2, e2))"
    for r c
  proof -
    obtain b2 e2 where r2: "(if c then report_loss b1 else (b1, [])) = (b2, e2)"
      by (cases "if c then report_loss b1 else (b1, [])")
    have "b2 = fst (if c then report_loss b1 else (b1, []))" by (simp add: r2)
    then have f2: "have_last b2" "last_delivered b2 = last_delivered b1" using nw(1) by simp_all
    have s2: "reorder_inv b2 \<and> op_ok b (b2, e2)"
      using inv_ok_trans [OF b1 report_loss_inv] b1 nw(1) r2 by (cases c) (auto simp: prod_eq_iff)
    show ?thesis
      using inv_ok_trans [OF s2 _, of "(forget_or_remember seq b2, [])"] forget_or_remember_ok [of b2 seq]
        s2 f2 nw(2) by (simp add: r r2)
  qed
  have "on_frame_aborted seq now b = (if \<not> have_last b1 then (b1, [])
         else if seq = last_delivered b1 + 1 then
           (let (b2, e2) = require_keyframe now b1;
                (b3, e3) = (if lik then report_loss b2 else (b2, [])) in (b3, e2 @ e3))
         else if \<not> video_seq_newer seq (last_delivered b1) then (b1, [])
         else (let (b2, e2) = (if lik \<and> awaiting_keyframe b1 then report_loss b1 else (b1, []))
               in (forget_or_remember seq b2, e2)))"
    by (simp only: on_frame_aborted_alt lik_def b1_def Let_def)
  then show ?thesis using b1 succ other by auto
qed

theorem poll_ok:
  assumes inv: "reorder_inv b"
  shows "reorder_inv (fst (poll now b)) \<and> op_ok b (poll now b)"
proof -
  have start: "reorder_inv b' \<and> op_ok b (b', [])"
    if "b' = b\<lparr>held := filter (\<lambda>(k, h). \<not> now - h_arrived h \<ge> hold_us b) (held b),
          held_bytes := held_bytes b - held_total (filter (\<lambda>(k, h). now - h_arrived h \<ge> hold_us b) (held b)),
          gap_since_us := g\<rparr>" for b' g
  proof (rule op_ok_same)
    have "reorder_core b'"
      using core_filter [where P = "\<lambda>k h. \<not> now - h_arrived h \<ge> hold_us b" and g = g and b = b] inv
      by (simp add: that reorder_inv_def)
    moreover have "within_bounds b'"
      using inv le_trans [OF length_filter_le [of "\<lambda>(k, h). \<not> now - h_arrived h \<ge> hold_us b" "held b"]]
      by (auto simp: that reorder_inv_def within_bounds_def)
    ultimately show "reorder_inv b'" by (simp add: reorder_inv_def)
    show "dec_abs b' = dec_abs b" by (simp add: that dec_abs_def)
  qed
  have "op_ok b (b, [])" using inv by (simp add: op_ok_refl reorder_inv_def)
  then show ?thesis
    using inv start [OF refl] report_loss_inv [OF inv] require_keyframe_inv [OF inv]
    by (simp add: poll_def Let_def)
qed


section \<open>Whole runs\<close>

datatype reorder_op =
  Started frame_header int
| Arrived frame_header bytes int
| Aborted u32 int
| Polled int
| Rtt u32

fun reorder_step :: "reorder_op \<Rightarrow> reorder \<Rightarrow> reorder \<times> reorder_event list" where
  "reorder_step (Started hdr now) b = (on_frame_started hdr now b, [])"
| "reorder_step (Arrived hdr frame now) b = on_frame hdr frame now b"
| "reorder_step (Aborted seq now) b = on_frame_aborted seq now b"
| "reorder_step (Polled now) b = poll now b"
| "reorder_step (Rtt r) b = (set_rtt r b, [])"

fun reorder_run :: "reorder_op list \<Rightarrow> reorder \<Rightarrow> reorder \<times> reorder_event list" where
  "reorder_run [] b = (b, [])"
| "reorder_run (op # ops) b =
     (let (b1, e1) = reorder_step op b; (b2, e2) = reorder_run ops b1 in (b2, e1 @ e2))"

lemma reorder_step_ok: "reorder_inv b \<Longrightarrow> reorder_inv (fst (reorder_step op b)) \<and> op_ok b (reorder_step op b)"
  by (cases op) (simp_all add: on_frame_ok on_frame_aborted_ok poll_ok on_frame_started_ok set_rtt_ok)

lemma reorder_run_ok: "reorder_inv b \<Longrightarrow> reorder_inv (fst (reorder_run ops b)) \<and> op_ok b (reorder_run ops b)"
proof (induction ops arbitrary: b)
  case Nil
  then show ?case by (simp add: op_ok_refl reorder_inv_def)
next
  case (Cons op ops)
  obtain b1 e1 where s: "reorder_step op b = (b1, e1)" by (cases "reorder_step op b")
  have "reorder_inv b1 \<and> op_ok b (b1, e1)" using reorder_step_ok [OF Cons.prems, of op] s by simp
  with Cons.IH [of b1] inv_ok_trans [of b1 b e1 "reorder_run ops b1"] show ?case
    by (cases "reorder_run ops b1") (simp add: s)
qed

lemma new_reorder_inv: "reorder_inv (new_reorder c)"
  by (simp add: reorder_inv_def reorder_core_def within_bounds_def new_reorder_def Let_def)

lemma reorder_reset_inv: "max_held_frames (rb_cfg b) > 0 \<Longrightarrow> reorder_inv (reorder_reset b)"
  by (simp add: reorder_inv_def reorder_core_def within_bounds_def reorder_reset_def)

text \<open>(C4) Whatever a buffer is fed from its construction on (frames starting, completing, aborting,
  polls, round-trip updates, in any order and at any times), it stays within its frame and byte
  limits, keeps its byte count exact and its entries in sequence order, and what it emits is
  accepted by the decoder specification: nothing before a keyframe, a delta only right behind the
  frame delivered before it, no frame twice or backwards, and a loss report only for the frame
  after the last delivered one and only once per broken chain.\<close>

theorem reorder_output_decodable:
  "reorder_inv (fst (reorder_run ops (new_reorder c))) \<and>
   dec_run (None, False) (snd (reorder_run ops (new_reorder c)))
     = Some (dec_abs (fst (reorder_run ops (new_reorder c))))"
  using reorder_run_ok [OF new_reorder_inv, of ops c]
  by (simp add: op_ok_def dec_abs_def [of "new_reorder c"])
     (simp add: new_reorder_def Let_def)

text \<open>A keyframe newer than everything delivered is delivered the moment it completes, whatever is
  held, missing or broken, and repairs the chain up to itself: delivery resumes no earlier than at
  it.\<close>

theorem keyframe_delivered_at_once:
  assumes "keyframe hdr" and "have_last b \<Longrightarrow> video_seq_newer (frame_seq hdr) (last_delivered b)"
  shows "\<exists>es. snd (on_frame hdr frame now b) = Deliver hdr frame # es"
  using assms
  by (auto simp: on_frame_def first_keyframe_def skip_to_keyframe_def resume_at_def deliver_one_def
           Let_def split: prod.split)

end
