(* ===== verification/Database.thy ===== *)
theory Database
  imports Permissions "HOL-Library.Multiset"
begin

text \<open>
  \<open>server/include/server/database.h\<close> and \<open>server/src/database.cpp\<close>: the server's SQLite store, one list of
  rows per table and one function per member, with the meaning of the SQL it runs: \<open>UNIQUE\<close> and
  foreign-key constraints (enabled in \<open>open\<close>) make a statement fail, \<open>ON DELETE CASCADE\<close> deletes
  dependent rows, \<open>AUTOINCREMENT\<close> never reuses a row id, and a text is bound up to its first NUL byte
  (\<open>sqlite3_bind_text\<close> with length -1). Row ids are 64-bit in SQLite and are integers here; ids cross
  the interface as \<open>static_cast<int>\<close> / \<open>sqlite3_int64\<close>, i.e. as the signed value of the word. Failures
  of the engine itself (I/O, out of memory) are not modelled. The clock is a parameter. The
  matching of the full-text index is a parameter of \<open>search_messages\<close>.
\<close>

definition cstr :: "bytes \<Rightarrow> bytes" where
  "cstr s = takeWhile (\<lambda>c. c \<noteq> 0) s"

record user_row =
  u_id :: int
  u_public_key :: bytes
  u_display_name :: bytes
  u_fingerprint :: bytes
  u_role :: int
  u_created_at :: int
  u_last_login :: "int option"

record channel_row =
  ch_id :: int
  ch_name :: bytes
  ch_max_users :: int
  ch_sort_order :: int

record text_channel_row =
  tc_id :: int
  tc_name :: bytes
  tc_sort_order :: int

record message_row =
  m_id :: int
  m_channel_id :: int
  m_sender_id :: int
  m_sender_name :: bytes
  m_text :: bytes
  m_pinned :: bool
  m_created_at :: int
  m_deleted :: bool

record attachment_row =
  a_id :: int
  a_message_id :: int
  a_file_name :: bytes
  a_file_size :: int
  a_mime_type :: bytes
  a_disk_path :: bytes
  a_uploaded :: bool
  a_created_at :: int

text \<open>The tables, and per table with \<open>AUTOINCREMENT\<close> the largest id ever given.\<close>

record database =
  users :: "user_row list"
  channels :: "channel_row list"
  channel_perms :: "((int \<times> int) \<times> int) list"
  server_meta :: "(bytes \<times> bytes) list"
  text_channels :: "text_channel_row list"
  messages :: "message_row list"
  attachments :: "attachment_row list"
  user_seq :: int
  channel_seq :: int
  text_channel_seq :: int
  message_seq :: int
  attachment_seq :: int

definition create_schema :: database where
  "create_schema = \<lparr>users = [],
     channels = [\<lparr>ch_id = 1, ch_name = str ''General'', ch_max_users = 0, ch_sort_order = 0\<rparr>],
     channel_perms = [], server_meta = [],
     text_channels = [\<lparr>tc_id = 1, tc_name = str ''general'', tc_sort_order = 0\<rparr>],
     messages = [], attachments = [],
     user_seq = 0, channel_seq = 1, text_channel_seq = 1, message_seq = 0, attachment_seq = 0\<rparr>"

section \<open>Users\<close>

definition create_user :: "bytes \<Rightarrow> bytes \<Rightarrow> bytes \<Rightarrow> role \<Rightarrow> int \<Rightarrow> database \<Rightarrow> bool \<times> database" where
  "create_user pubkey name fp r now db =
     (if \<exists>u \<in> set (users db). u_public_key u = pubkey then (False, db)
      else (True, db\<lparr>user_seq := user_seq db + 1,
              users := users db @ [\<lparr>u_id = user_seq db + 1, u_public_key = pubkey,
                u_display_name = cstr name, u_fingerprint = cstr fp, u_role = uint r,
                u_created_at = now, u_last_login = None\<rparr>]\<rparr>))"

definition get_user_by_pubkey :: "bytes \<Rightarrow> database \<Rightarrow> user_row option" where
  "get_user_by_pubkey pubkey db = find (\<lambda>u. u_public_key u = pubkey) (users db)"

definition get_user_by_id :: "u32 \<Rightarrow> database \<Rightarrow> user_row option" where
  "get_user_by_id i db = find (\<lambda>u. u_id u = sint i) (users db)"

definition update_user :: "u32 \<Rightarrow> (user_row \<Rightarrow> user_row) \<Rightarrow> database \<Rightarrow> database" where
  "update_user i f db = db\<lparr>users := map (\<lambda>u. if u_id u = sint i then f u else u) (users db)\<rparr>"

definition update_last_login :: "u32 \<Rightarrow> int \<Rightarrow> database \<Rightarrow> database" where
  "update_last_login i now db = update_user i (\<lambda>u. u\<lparr>u_last_login := Some now\<rparr>) db"

definition update_display_name :: "u32 \<Rightarrow> bytes \<Rightarrow> database \<Rightarrow> database" where
  "update_display_name i name db = update_user i (\<lambda>u. u\<lparr>u_display_name := cstr name\<rparr>) db"

definition set_user_role :: "u32 \<Rightarrow> role \<Rightarrow> database \<Rightarrow> database" where
  "set_user_role i r db = update_user i (\<lambda>u. u\<lparr>u_role := uint r\<rparr>) db"

definition get_all_users :: "database \<Rightarrow> user_row list" where
  "get_all_users db = sort_key u_id (users db)"

text \<open>Messages reference their sender without a cascade, so a user who wrote one cannot be deleted.\<close>

definition delete_user :: "u32 \<Rightarrow> database \<Rightarrow> bool \<times> database" where
  "delete_user i db =
     (if \<exists>m \<in> set (messages db). m_sender_id m = sint i then (False, db)
      else (True, db\<lparr>users := filter (\<lambda>u. u_id u \<noteq> sint i) (users db)\<rparr>))"

definition has_any_users :: "database \<Rightarrow> bool" where
  "has_any_users db \<longleftrightarrow> users db \<noteq> []"

section \<open>Voice channels\<close>

definition create_channel :: "bytes \<Rightarrow> int \<Rightarrow> int \<Rightarrow> database \<Rightarrow> bool \<times> database" where
  "create_channel name mx so db =
     (if \<exists>c \<in> set (channels db). ch_name c = cstr name then (False, db)
      else (True, db\<lparr>channel_seq := channel_seq db + 1,
              channels := channels db @ [\<lparr>ch_id = channel_seq db + 1, ch_name = cstr name,
                ch_max_users = mx, ch_sort_order = so\<rparr>]\<rparr>))"

definition get_channel :: "u32 \<Rightarrow> database \<Rightarrow> channel_row option" where
  "get_channel i db = find (\<lambda>c. ch_id c = sint i) (channels db)"

definition get_all_channels :: "database \<Rightarrow> channel_row list" where
  "get_all_channels db = sort_key ch_sort_order (sort_key ch_id (channels db))"

definition delete_channel :: "u32 \<Rightarrow> database \<Rightarrow> database" where
  "delete_channel i db =
     db\<lparr>channels := filter (\<lambda>c. ch_id c \<noteq> sint i) (channels db),
        channel_perms := filter (\<lambda>((c, r), p). c \<noteq> sint i) (channel_perms db)\<rparr>"

definition rename_channel :: "u32 \<Rightarrow> bytes \<Rightarrow> database \<Rightarrow> bool \<times> database" where
  "rename_channel i name db =
     (if (\<exists>c \<in> set (channels db). ch_id c = sint i)
         \<and> (\<exists>c \<in> set (channels db). ch_id c \<noteq> sint i \<and> ch_name c = cstr name) then (False, db)
      else (True, db\<lparr>channels := map (\<lambda>c. if ch_id c = sint i then c\<lparr>ch_name := cstr name\<rparr> else c)
                                   (channels db)\<rparr>))"

definition set_channel_permission :: "u32 \<Rightarrow> role \<Rightarrow> u32 \<Rightarrow> database \<Rightarrow> bool \<times> database" where
  "set_channel_permission c r p db =
     (if \<not> (\<exists>ch \<in> set (channels db). ch_id ch = sint c) then (False, db)
      else (True, db\<lparr>channel_perms :=
              filter (\<lambda>e. fst e \<noteq> (sint c, uint r)) (channel_perms db) @ [((sint c, uint r), sint p)]\<rparr>))"

definition get_channel_permission :: "u32 \<Rightarrow> role \<Rightarrow> database \<Rightarrow> u32 option" where
  "get_channel_permission c r db = map_option word_of_int (map_of (channel_perms db) (sint c, uint r))"

section \<open>Metadata\<close>

definition set_meta :: "bytes \<Rightarrow> bytes \<Rightarrow> database \<Rightarrow> database" where
  "set_meta k v db =
     db\<lparr>server_meta := filter (\<lambda>e. fst e \<noteq> cstr k) (server_meta db) @ [(cstr k, cstr v)]\<rparr>"

definition get_meta :: "bytes \<Rightarrow> database \<Rightarrow> bytes option" where
  "get_meta k db = map_of (server_meta db) (cstr k)"

section \<open>Text channels\<close>

definition create_text_channel :: "bytes \<Rightarrow> int \<Rightarrow> database \<Rightarrow> bool \<times> database" where
  "create_text_channel name so db =
     (if \<exists>c \<in> set (text_channels db). tc_name c = cstr name then (False, db)
      else (True, db\<lparr>text_channel_seq := text_channel_seq db + 1,
              text_channels := text_channels db @ [\<lparr>tc_id = text_channel_seq db + 1,
                tc_name = cstr name, tc_sort_order = so\<rparr>]\<rparr>))"

definition get_text_channel :: "u32 \<Rightarrow> database \<Rightarrow> text_channel_row option" where
  "get_text_channel i db = find (\<lambda>c. tc_id c = sint i) (text_channels db)"

definition get_all_text_channels :: "database \<Rightarrow> text_channel_row list" where
  "get_all_text_channels db = sort_key tc_sort_order (sort_key tc_id (text_channels db))"

text \<open>Deleting a text channel deletes its messages, and those their attachments.\<close>

definition delete_text_channel :: "u32 \<Rightarrow> database \<Rightarrow> database" where
  "delete_text_channel i db =
     (let gone = map m_id (filter (\<lambda>m. m_channel_id m = sint i) (messages db))
      in db\<lparr>text_channels := filter (\<lambda>c. tc_id c \<noteq> sint i) (text_channels db),
            messages := filter (\<lambda>m. m_channel_id m \<noteq> sint i) (messages db),
            attachments := filter (\<lambda>a. a_message_id a \<notin> set gone) (attachments db)\<rparr>)"

section \<open>Messages\<close>

definition insert_message :: "u32 \<Rightarrow> u32 \<Rightarrow> bytes \<Rightarrow> bytes \<Rightarrow> u64 \<Rightarrow> database \<Rightarrow> u64 \<times> database" where
  "insert_message c s name txt t db =
     (if \<not> (\<exists>ch \<in> set (text_channels db). tc_id ch = sint c)
         \<or> \<not> (\<exists>u \<in> set (users db). u_id u = sint s) then (0, db)
      else (word_of_int (message_seq db + 1),
            db\<lparr>message_seq := message_seq db + 1,
               messages := messages db @ [\<lparr>m_id = message_seq db + 1, m_channel_id = sint c,
                 m_sender_id = sint s, m_sender_name = cstr name, m_text = cstr txt,
                 m_pinned = False, m_created_at = sint t, m_deleted = False\<rparr>]\<rparr>))"

definition newest_first :: "message_row list \<Rightarrow> message_row list" where
  "newest_first ms = rev (sort_key m_id ms)"

text \<open>A negative \<open>LIMIT\<close> means no limit in SQLite; the callers pass at most 100.\<close>

definition get_messages :: "u32 \<Rightarrow> u64 \<Rightarrow> nat \<Rightarrow> database \<Rightarrow> message_row list" where
  "get_messages c before lim db =
     rev (take lim (newest_first (filter (\<lambda>m. m_channel_id m = sint c \<and> \<not> m_deleted m
                                              \<and> (before = 0 \<or> m_id m < sint before)) (messages db))))"

definition get_message :: "u64 \<Rightarrow> database \<Rightarrow> message_row option" where
  "get_message i db = find (\<lambda>m. m_id m = sint i \<and> \<not> m_deleted m) (messages db)"

definition soft_delete_message :: "u64 \<Rightarrow> database \<Rightarrow> database" where
  "soft_delete_message i db =
     db\<lparr>messages := map (\<lambda>m. if m_id m = sint i then m\<lparr>m_deleted := True\<rparr> else m) (messages db)\<rparr>"

definition pin_message :: "u64 \<Rightarrow> database \<Rightarrow> database" where
  "pin_message i db =
     db\<lparr>messages := map (\<lambda>m. if m_id m = sint i \<and> \<not> m_deleted m then m\<lparr>m_pinned := True\<rparr> else m)
                      (messages db)\<rparr>"

definition unpin_message :: "u64 \<Rightarrow> database \<Rightarrow> database" where
  "unpin_message i db =
     db\<lparr>messages := map (\<lambda>m. if m_id m = sint i then m\<lparr>m_pinned := False\<rparr> else m) (messages db)\<rparr>"

definition get_pinned_messages :: "u32 \<Rightarrow> database \<Rightarrow> message_row list" where
  "get_pinned_messages c db =
     newest_first (filter (\<lambda>m. m_channel_id m = sint c \<and> m_pinned m \<and> \<not> m_deleted m) (messages db))"

definition search_messages ::
  "(bytes \<Rightarrow> bytes \<Rightarrow> bool) \<Rightarrow> u32 \<Rightarrow> bytes \<Rightarrow> u64 \<Rightarrow> nat \<Rightarrow> database \<Rightarrow> message_row list" where
  "search_messages fts c q before lim db =
     take lim (newest_first (filter (\<lambda>m. m_channel_id m = sint c \<and> \<not> m_deleted m
        \<and> (before = 0 \<or> m_id m < sint before) \<and> fts (cstr q) (m_text m)) (messages db)))"

section \<open>Attachments\<close>

definition insert_attachment ::
  "u64 \<Rightarrow> bytes \<Rightarrow> int \<Rightarrow> bytes \<Rightarrow> bytes \<Rightarrow> int \<Rightarrow> database \<Rightarrow> u64 \<times> database" where
  "insert_attachment mid name sz mime path now db =
     (if \<not> (\<exists>m \<in> set (messages db). m_id m = sint mid) then (0, db)
      else (word_of_int (attachment_seq db + 1),
            db\<lparr>attachment_seq := attachment_seq db + 1,
               attachments := attachments db @ [\<lparr>a_id = attachment_seq db + 1, a_message_id = sint mid,
                 a_file_name = cstr name, a_file_size = sz, a_mime_type = cstr mime,
                 a_disk_path = cstr path, a_uploaded = False, a_created_at = now\<rparr>]\<rparr>))"

definition mark_attachment_uploaded :: "u64 \<Rightarrow> database \<Rightarrow> database" where
  "mark_attachment_uploaded i db =
     db\<lparr>attachments := map (\<lambda>a. if a_id a = sint i then a\<lparr>a_uploaded := True\<rparr> else a) (attachments db)\<rparr>"

definition get_attachment :: "u64 \<Rightarrow> database \<Rightarrow> attachment_row option" where
  "get_attachment i db = find (\<lambda>a. a_id a = sint i) (attachments db)"

definition get_attachments_for_message :: "u64 \<Rightarrow> database \<Rightarrow> attachment_row list" where
  "get_attachments_for_message i db =
     sort_key a_id (filter (\<lambda>a. a_message_id a = sint i) (attachments db))"

section \<open>Retention\<close>

text \<open>The result lists the disk paths whose files are removed, in order, next to the count.\<close>

definition purge_old_messages :: "int \<Rightarrow> int \<Rightarrow> database \<Rightarrow> nat \<times> database" where
  "purge_old_messages days now db =
     (let old = (\<lambda>m. \<not> m_deleted m \<and> m_created_at m < now - days * 86400)
      in (length (filter old (messages db)),
          db\<lparr>messages := map (\<lambda>m. if old m then m\<lparr>m_deleted := True\<rparr> else m) (messages db)\<rparr>))"

definition purge_old_files :: "int \<Rightarrow> int \<Rightarrow> database \<Rightarrow> bytes list \<times> database" where
  "purge_old_files days now db =
     (let old = (\<lambda>a. a_created_at a < now - days * 86400)
      in (map a_disk_path (filter old (attachments db)),
          db\<lparr>attachments := filter (\<lambda>a. \<not> old a) (attachments db)\<rparr>))"

definition get_total_file_size :: "database \<Rightarrow> int" where
  "get_total_file_size db = sum_list (map a_file_size (filter a_uploaded (attachments db)))"

fun ring_victims :: "int \<Rightarrow> int \<Rightarrow> attachment_row list \<Rightarrow> attachment_row list" where
  "ring_victims sz max_size [] = []"
| "ring_victims sz max_size (a # as) =
     (if sz > max_size then a # ring_victims (sz - a_file_size a) max_size as else [])"

definition purge_oldest_files :: "int \<Rightarrow> database \<Rightarrow> bytes list \<times> database" where
  "purge_oldest_files max_size db =
     (let sz = get_total_file_size db
      in if sz \<le> max_size then ([], db)
         else let victims = ring_victims sz max_size (sort_key a_id (filter a_uploaded (attachments db)))
              in (map a_disk_path victims,
                  db\<lparr>attachments := filter (\<lambda>a. a_id a \<notin> a_id ` set victims) (attachments db)\<rparr>))"

section \<open>Referential integrity\<close>

text \<open>What the schema declares: row ids are unique and were given by the sequence, public keys and
  channel names are unique, and every reference points at an existing row.\<close>

definition ids_ok :: "('r \<Rightarrow> int) \<Rightarrow> 'r list \<Rightarrow> int \<Rightarrow> bool" where
  "ids_ok rid rows seq \<longleftrightarrow> distinct (map rid rows) \<and> (\<forall>r \<in> set rows. 1 \<le> rid r \<and> rid r \<le> seq) \<and> 0 \<le> seq"

definition db_inv :: "database \<Rightarrow> bool" where
  "db_inv db \<longleftrightarrow>
     ids_ok u_id (users db) (user_seq db) \<and> ids_ok ch_id (channels db) (channel_seq db) \<and>
     ids_ok tc_id (text_channels db) (text_channel_seq db) \<and>
     ids_ok m_id (messages db) (message_seq db) \<and> ids_ok a_id (attachments db) (attachment_seq db) \<and>
     distinct (map u_public_key (users db)) \<and> distinct (map ch_name (channels db)) \<and>
     distinct (map tc_name (text_channels db)) \<and>
     fst ` fst ` set (channel_perms db) \<subseteq> ch_id ` set (channels db) \<and>
     m_channel_id ` set (messages db) \<subseteq> tc_id ` set (text_channels db) \<and>
     m_sender_id ` set (messages db) \<subseteq> u_id ` set (users db) \<and>
     a_message_id ` set (attachments db) \<subseteq> m_id ` set (messages db)"

lemma ids_ok_insert: "ids_ok rid rows seq \<Longrightarrow> rid r = seq + 1 \<Longrightarrow> ids_ok rid (rows @ [r]) (seq + 1)"
  by (force simp: ids_ok_def)

lemma ids_ok_filter: "ids_ok rid rows seq \<Longrightarrow> ids_ok rid (filter P rows) seq"
  by (auto simp: ids_ok_def distinct_map_filter)

lemma ids_ok_map: "ids_ok rid rows seq \<Longrightarrow> (\<And>r. rid (f r) = rid r) \<Longrightarrow> ids_ok rid (map f rows) seq"
  by (simp add: ids_ok_def comp_def)

lemma ids_ok_find:
  "ids_ok rid rows seq \<Longrightarrow> r \<in> set rows \<Longrightarrow> find (\<lambda>x. rid x = rid r) rows = Some r"
  by (induction rows) (auto simp: ids_ok_def)

text \<open>A field no row update touches keeps its image.\<close>

lemma map_field: "(\<And>r. fld (f r) = fld r) \<Longrightarrow> map fld (map f rows) = map fld rows"
  by simp

lemma image_field: "(\<And>r. fld (f r) = fld r) \<Longrightarrow> fld ` set (map f rows) = fld ` set rows"
  by (simp add: image_image)

lemma image_avoid: "A \<subseteq> f ` B \<Longrightarrow> k \<notin> A \<Longrightarrow> A \<subseteq> f ` {y \<in> B. f y \<noteq> k}"
  by auto

lemmas ids_intros = ids_ok_insert ids_ok_filter ids_ok_map

lemma create_schema_inv: "db_inv create_schema"
  by (simp add: db_inv_def create_schema_def ids_ok_def)

lemma create_user_inv: "db_inv db \<Longrightarrow> db_inv (snd (create_user pk n fp r now db))"
  by (auto simp: db_inv_def create_user_def intro!: ids_intros)

lemma update_user_inv:
  assumes "db_inv db" "\<And>u. u_id (f u) = u_id u" "\<And>u. u_public_key (f u) = u_public_key u"
  shows "db_inv (update_user i f db)"
proof -
  let ?f = "\<lambda>u :: user_row. if u_id u = sint i then f u else u"
  have "u_id (?f u) = u_id u" "u_public_key (?f u) = u_public_key u" for u using assms by auto
  note fields = map_field [of u_public_key ?f, OF this(2)] image_field [of u_id ?f, OF this(1)]
    ids_ok_map [of u_id _ _ ?f, OF _ this(1)]
  show ?thesis using assms(1) fields by (simp add: db_inv_def update_user_def del: map_map list.map_comp set_map)
qed


lemma delete_user_inv:
  assumes "db_inv db" shows "db_inv (snd (delete_user i db))"
proof (cases "\<exists>m \<in> set (messages db). m_sender_id m = sint i")
  case False
  then have "m_sender_id ` set (messages db) \<subseteq> u_id ` {u \<in> set (users db). u_id u \<noteq> sint i}"
    using assms by (intro image_avoid) (auto simp: db_inv_def)
  with assms False show ?thesis
    by (simp add: db_inv_def delete_user_def distinct_map_filter ids_ok_filter)
qed (simp add: assms delete_user_def)

lemma create_channel_inv: "db_inv db \<Longrightarrow> db_inv (snd (create_channel n mx so db))"
  by (auto simp: db_inv_def create_channel_def intro!: ids_intros)

lemma delete_channel_inv:
  assumes "db_inv db" shows "db_inv (delete_channel i db)"
proof -
  let ?P = "filter (\<lambda>((c, r), p). c \<noteq> sint i) (channel_perms db)"
  have "fst ` fst ` set ?P \<subseteq> ch_id ` {c \<in> set (channels db). ch_id c \<noteq> sint i}"
    using assms by (intro image_avoid) (auto simp: db_inv_def)
  with assms show ?thesis
    by (simp add: db_inv_def delete_channel_def distinct_map_filter ids_ok_filter)
qed

lemma rename_distinct:
  assumes "distinct (map ch_id cs)" "distinct (map ch_name cs)"
    "\<not> (\<exists>c \<in> set cs. ch_id c \<noteq> i \<and> ch_name c = n) \<or> \<not> (\<exists>c \<in> set cs. ch_id c = i)"
  shows "distinct (map ch_name (map (\<lambda>c. if ch_id c = i then c\<lparr>ch_name := n\<rparr> else c) cs))"
  using assms
proof (induction cs)
  case (Cons c cs)
  show ?case
  proof (cases "ch_id c = i")
    case True
    then have "map (\<lambda>c. if ch_id c = i then c\<lparr>ch_name := n\<rparr> else c) cs = cs"
      using Cons.prems(1) by (intro map_idI) (force simp: image_iff)
    moreover have "n \<notin> ch_name ` set cs"
    proof
      assume "n \<in> ch_name ` set cs"
      then obtain d where d: "d \<in> set cs" "ch_name d = n" by auto
      then have "ch_id d \<noteq> i" using Cons.prems(1) True by (metis distinct.simps(2) imageI list.set_map list.simps(9))
      with d Cons.prems(3) True show False by auto
    qed
    ultimately show ?thesis using Cons.prems True by simp
  next
    case False
    with Cons show ?thesis by (auto simp: image_iff)
  qed
qed simp

lemma rename_channel_inv:
  assumes "db_inv db" shows "db_inv (snd (rename_channel i n db))"
proof (cases "(\<exists>c \<in> set (channels db). ch_id c = sint i)
         \<and> (\<exists>c \<in> set (channels db). ch_id c \<noteq> sint i \<and> ch_name c = cstr n)")
  case True
  with assms show ?thesis by (simp add: rename_channel_def)
next
  case False
  let ?f = "\<lambda>c :: channel_row. if ch_id c = sint i then c\<lparr>ch_name := cstr n\<rparr> else c"
  have "ch_id (?f c) = ch_id c" for c by simp
  note fields = image_field [of ch_id ?f, OF this] ids_ok_map [of ch_id _ _ ?f, OF _ this]
  have "distinct (map ch_name (map ?f (channels db)))"
    using assms False by (intro rename_distinct) (auto simp: db_inv_def ids_ok_def)
  then show ?thesis
    using assms fields False by (simp add: db_inv_def rename_channel_def del: map_map list.map_comp set_map)
qed

lemma set_channel_permission_inv: "db_inv db \<Longrightarrow> db_inv (snd (set_channel_permission c r p db))"
  by (auto simp: db_inv_def set_channel_permission_def intro: rev_image_eqI)

lemma create_text_channel_inv: "db_inv db \<Longrightarrow> db_inv (snd (create_text_channel n so db))"
  by (auto simp: db_inv_def create_text_channel_def intro!: ids_intros)

lemma delete_text_channel_inv:
  assumes "db_inv db" shows "db_inv (delete_text_channel i db)"
proof -
  have "m_channel_id ` set (filter (\<lambda>m. m_channel_id m \<noteq> sint i) (messages db))
      \<subseteq> tc_id ` set (filter (\<lambda>c. tc_id c \<noteq> sint i) (text_channels db))"
    using assms by (auto simp: db_inv_def)
  moreover have "a_message_id ` set (filter (\<lambda>a. a_message_id a
        \<notin> set (map m_id (filter (\<lambda>m. m_channel_id m = sint i) (messages db)))) (attachments db))
      \<subseteq> m_id ` set (filter (\<lambda>m. m_channel_id m \<noteq> sint i) (messages db))"
  proof clarify
    fix a assume a: "a \<in> set (filter (\<lambda>a. a_message_id a
        \<notin> set (map m_id (filter (\<lambda>m. m_channel_id m = sint i) (messages db)))) (attachments db))"
    then obtain m where m: "m \<in> set (messages db)" "a_message_id a = m_id m"
      using assms by (auto simp: db_inv_def)
    with a have "m_channel_id m \<noteq> sint i" by auto
    with m show "a_message_id a \<in> m_id ` set (filter (\<lambda>m. m_channel_id m \<noteq> sint i) (messages db))" by simp
  qed
  moreover have "m_sender_id ` set (filter (\<lambda>m. m_channel_id m \<noteq> sint i) (messages db)) \<subseteq> u_id ` set (users db)"
    using assms by (auto simp: db_inv_def)
  ultimately show ?thesis
    using assms
    by (simp add: db_inv_def delete_text_channel_def Let_def ids_ok_filter distinct_map_filter del: set_filter)
qed

lemma insert_message_inv: "db_inv db \<Longrightarrow> db_inv (snd (insert_message c s n t ts db))"
  by (auto simp: db_inv_def insert_message_def intro!: ids_intros intro: rev_image_eqI)

text \<open>Flag updates on messages and attachments.\<close>

lemma update_messages_inv:
  assumes "db_inv db"
    and f: "\<And>m. m_id (f m) = m_id m" "\<And>m. m_channel_id (f m) = m_channel_id m" "\<And>m. m_sender_id (f m) = m_sender_id m"
  shows "db_inv (db\<lparr>messages := map f (messages db)\<rparr>)"
  using assms(1) image_field [of m_id f, OF f(1)] image_field [of m_channel_id f, OF f(2)]
    image_field [of m_sender_id f, OF f(3)] ids_ok_map [of m_id _ _ f, OF _ f(1)]
  by (simp add: db_inv_def del: map_map list.map_comp set_map)

lemma update_attachments_inv:
  assumes "db_inv db" and f: "\<And>a. a_id (f a) = a_id a" "\<And>a. a_message_id (f a) = a_message_id a"
  shows "db_inv (db\<lparr>attachments := map f (attachments db)\<rparr>)"
  using assms(1) image_field [of a_message_id f, OF f(2)] ids_ok_map [of a_id _ _ f, OF _ f(1)]
  by (simp add: db_inv_def del: map_map list.map_comp set_map)

lemma filter_attachments_inv: "db_inv db \<Longrightarrow> db_inv (db\<lparr>attachments := filter P (attachments db)\<rparr>)"
  by (auto simp: db_inv_def intro!: ids_intros)

lemma insert_attachment_inv: "db_inv db \<Longrightarrow> db_inv (snd (insert_attachment mid n sz mi p now db))"
  by (auto simp: db_inv_def insert_attachment_def intro!: ids_intros intro: rev_image_eqI)

lemma set_meta_inv: "db_inv db \<Longrightarrow> db_inv (set_meta k v db)"
  by (simp add: db_inv_def set_meta_def)

lemma message_flags_inv:
  "db_inv db \<Longrightarrow> db_inv (soft_delete_message i db)" "db_inv db \<Longrightarrow> db_inv (pin_message i db)"
  "db_inv db \<Longrightarrow> db_inv (unpin_message i db)" "db_inv db \<Longrightarrow> db_inv (snd (purge_old_messages d now db))"
  by (auto simp: soft_delete_message_def pin_message_def unpin_message_def purge_old_messages_def Let_def
      intro!: update_messages_inv)

lemma attachment_ops_inv:
  "db_inv db \<Longrightarrow> db_inv (mark_attachment_uploaded j db)"
  "db_inv db \<Longrightarrow> db_inv (snd (purge_old_files d now db))"
  "db_inv db \<Longrightarrow> db_inv (snd (purge_oldest_files mx db))"
  by (auto simp: mark_attachment_uploaded_def purge_old_files_def purge_oldest_files_def Let_def
      intro!: update_attachments_inv filter_attachments_inv)

lemma user_ops_inv:
  "db_inv db \<Longrightarrow> db_inv (update_last_login i now db)" "db_inv db \<Longrightarrow> db_inv (update_display_name i n db)"
  "db_inv db \<Longrightarrow> db_inv (set_user_role i r db)"
  by (auto simp: update_last_login_def update_display_name_def set_user_role_def intro!: update_user_inv)

lemmas db_invs = create_user_inv delete_user_inv user_ops_inv create_channel_inv delete_channel_inv
  rename_channel_inv set_channel_permission_inv set_meta_inv create_text_channel_inv
  delete_text_channel_inv insert_message_inv message_flags_inv insert_attachment_inv
  attachment_ops_inv


text \<open>(C37) Every member function keeps the store consistent: row ids stay unique and are never reused,
  public keys and channel names stay unique, and no permission, message or attachment ever refers
  to a row that does not exist.\<close>

theorem database_integrity:
  assumes "db_inv db"
  shows "db_inv (snd (create_user pk n fp r t db)) \<and> db_inv (snd (delete_user i db)) \<and>
    db_inv (set_user_role i r db) \<and> db_inv (update_display_name i n db) \<and> db_inv (update_last_login i t db) \<and>
    db_inv (snd (create_channel n mx so db)) \<and> db_inv (delete_channel i db) \<and>
    db_inv (snd (rename_channel i n db)) \<and> db_inv (snd (set_channel_permission i r p db)) \<and>
    db_inv (set_meta n fp db) \<and> db_inv (snd (create_text_channel n so db)) \<and>
    db_inv (delete_text_channel i db) \<and> db_inv (snd (insert_message i j n fp ts db)) \<and>
    db_inv (soft_delete_message mid db) \<and> db_inv (pin_message mid db) \<and> db_inv (unpin_message mid db) \<and>
    db_inv (snd (insert_attachment mid n sz fp pk t db)) \<and> db_inv (mark_attachment_uploaded mid db) \<and>
    db_inv (snd (purge_old_messages d t db)) \<and> db_inv (snd (purge_old_files d t db)) \<and>
    db_inv (snd (purge_oldest_files sz db))"
  by (intro conjI db_invs assms)

theorem database_integrity_witness:
  "db_inv create_schema \<and> db_inv (snd (insert_message 1 1 [104] [105] 7 create_schema))"
  using database_integrity [OF create_schema_inv, of "[]" "[104]" "[105]" 3 0 1 0 0 0 1 7 0 0 0] create_schema_inv
  by blast

section \<open>Reading the history page by page\<close>

text \<open>The undeleted messages of a channel, oldest first, and the client's way through them: ask for the
  newest page, then for the page before its oldest message, until a page comes back empty. \<open>fuel\<close>
  bounds the number of pages asked for.\<close>

definition visible :: "u32 \<Rightarrow> database \<Rightarrow> message_row list" where
  "visible c db = sort_key m_id (filter (\<lambda>m. m_channel_id m = sint c \<and> \<not> m_deleted m) (messages db))"

fun history :: "nat \<Rightarrow> u32 \<Rightarrow> u64 \<Rightarrow> nat \<Rightarrow> database \<Rightarrow> message_row list" where
  "history 0 c before lim db = []"
| "history (Suc fuel) c before lim db =
     (case get_messages c before lim db of
        [] \<Rightarrow> []
      | m # ms \<Rightarrow> history fuel c (word_of_int (m_id m)) lim db @ m # ms)"

definition small_ids :: "database \<Rightarrow> bool" where
  "small_ids db \<longleftrightarrow> message_seq db < 2 ^ 63"

lemma sint_message_id:
  "db_inv db \<Longrightarrow> small_ids db \<Longrightarrow> m \<in> set (messages db) \<Longrightarrow>
   sint (word_of_int (m_id m) :: u64) = m_id m \<and> (word_of_int (m_id m) :: u64) \<noteq> 0"
proof -
  assume a: "db_inv db" "small_ids db" "m \<in> set (messages db)"
  then have "1 \<le> m_id m" "m_id m < 2 ^ 63" by (force simp: db_inv_def ids_ok_def small_ids_def)+
  then have "sint (word_of_int (m_id m) :: u64) = m_id m"
    by (simp add: signed_of_int signed_take_bit_int_eq_self)
  moreover have "(word_of_int (m_id m) :: u64) \<noteq> 0" using calculation \<open>1 \<le> m_id m\<close> by (metis not_one_le_zero sint_0)
  ultimately show ?thesis by simp
qed

lemma filter_sort_key: "filter P (sort_key k xs) = sort_key k (filter P xs)"
  by (rule filter_sort)

lemma get_messages_visible:
  "get_messages c before lim db =
     (let vs = filter (\<lambda>m. before = 0 \<or> m_id m < sint before) (visible c db) in drop (length vs - lim) vs)"
proof -
  have "filter (\<lambda>m. m_channel_id m = sint c \<and> \<not> m_deleted m \<and> (before = 0 \<or> m_id m < sint before)) (messages db)
    = filter (\<lambda>m. before = 0 \<or> m_id m < sint before) (filter (\<lambda>m. m_channel_id m = sint c \<and> \<not> m_deleted m) (messages db))"
    by (auto intro: filter_cong)
  then show ?thesis
    by (simp add: get_messages_def newest_first_def visible_def filter_sort take_rev Let_def)
qed


lemma visible_sorted: "db_inv db \<Longrightarrow> sorted_wrt (\<lambda>a b. m_id a < m_id b) (visible c db)"
proof -
  assume "db_inv db"
  then have "distinct (map m_id (filter (\<lambda>m. m_channel_id m = sint c \<and> \<not> m_deleted m) (messages db)))"
    by (simp add: db_inv_def ids_ok_def distinct_map_filter)
  then have "distinct (map m_id (visible c db))" by (simp add: visible_def distinct_map)
  moreover have "sorted (map m_id (visible c db))" by (simp add: visible_def)
  ultimately have "sorted_wrt (<) (map m_id (visible c db))" by (simp only: strict_sorted_iff)
  then show ?thesis by (simp only: sorted_wrt_map)
qed

lemma filter_below:
  "sorted_wrt (\<lambda>a b. key a < (key b :: int)) (xs @ y # ys) \<Longrightarrow> filter (\<lambda>x. key x < key y) (xs @ y # ys) = xs"
  by (auto simp: sorted_wrt_append filter_empty_conv)

lemma history_from:
  assumes db: "db_inv db" "small_ids db" and lim: "0 < lim"
  shows "length (filter (\<lambda>m. b = 0 \<or> m_id m < sint b) (visible c db)) < fuel \<Longrightarrow>
    history fuel c b lim db = filter (\<lambda>m. b = 0 \<or> m_id m < sint b) (visible c db)"
proof (induction fuel arbitrary: b)
  case (Suc fuel)
  define vs where "vs = filter (\<lambda>m. b = 0 \<or> m_id m < sint b) (visible c db)"
  define k where "k = length vs - lim"
  have page: "get_messages c b lim db = drop k vs"
    by (simp add: get_messages_visible vs_def k_def Let_def)
  show ?case
  proof (cases "vs = []")
    case True
    then show ?thesis using page by (simp add: vs_def)
  next
    case False
    then have "k < length vs" using lim by (auto simp: k_def)
    then obtain m ms where d: "drop k vs = m # ms" by (cases "drop k vs") auto
    then have split: "vs = take k vs @ m # ms" by (metis append_take_drop_id)
    have m: "m \<in> set vs" by (subst split) simp
    then have mdb: "m \<in> set (messages db)" by (auto simp: vs_def visible_def)
    note idm = sint_message_id [OF db mdb]
    have "sorted_wrt (\<lambda>a b. m_id a < m_id b) vs"
      unfolding vs_def by (rule sorted_wrt_filter [OF visible_sorted [OF db(1)]])
    then have below: "filter (\<lambda>x. m_id x < m_id m) vs = take k vs"
      using filter_below [of m_id "take k vs" m ms] split by simp
    have "filter (\<lambda>x. (word_of_int (m_id m) :: u64) = 0 \<or> m_id x < sint (word_of_int (m_id m) :: u64)) (visible c db)
        = filter (\<lambda>x. m_id x < m_id m) (visible c db)" using idm by simp
    also have "\<dots> = filter (\<lambda>x. m_id x < m_id m) vs"
      using m by (auto simp: vs_def intro!: filter_cong)
    finally have eq: "filter (\<lambda>x. (word_of_int (m_id m) :: u64) = 0 \<or> m_id x < sint (word_of_int (m_id m) :: u64))
        (visible c db) = take k vs" using below by simp
    have "length (take k vs) < fuel" using Suc.prems \<open>k < length vs\<close> by (simp add: vs_def)
    with Suc.IH [of "word_of_int (m_id m)"] eq
    have "history fuel c (word_of_int (m_id m)) lim db = take k vs" by simp
    then show ?thesis using page d split by (simp add: vs_def [symmetric])
  qed
qed simp

text \<open>Paging through a channel's history loses and repeats nothing: asking for pages of any size
  from the newest backwards, each time before the oldest message received, collects exactly the
  undeleted messages of the channel in order, and the walk ends.\<close>

theorem history_complete:
  assumes "db_inv db" "small_ids db" "0 < lim" "length (visible c db) < fuel"
  shows "history fuel c 0 lim db = visible c db"
  using history_from [OF assms(1-3), of 0 c fuel] assms(4) by simp

definition demo_db :: database where
  "demo_db = snd (insert_message 1 1 [97] [51] 30 (snd (insert_message 1 1 [97] [50] 20
     (snd (insert_message 1 1 [97] [49] 10 (snd (create_user [1] [97] [98] 3 5 create_schema)))))))"

theorem history_complete_witness: "map m_id (history 4 1 0 2 demo_db) = [1, 2, 3]"
proof -
  have "db_inv demo_db" unfolding demo_db_def by (intro db_invs create_schema_inv)
  moreover have v: "map m_id (visible 1 demo_db) = [1, 2, 3]" and "small_ids demo_db"
    by (simp_all add: demo_db_def visible_def small_ids_def create_schema_def create_user_def
        insert_message_def sort_key_def)
  moreover have "length (visible 1 demo_db) < 4" using arg_cong [OF v, of length] by simp
  ultimately show ?thesis using history_complete [of demo_db 2 1 4] by simp
qed

section \<open>The storage ring\<close>

lemma ring_victims_prefix: "\<exists>rest. as = ring_victims sz mx as @ rest"
  by (induction sz mx as rule: ring_victims.induct) auto

lemma ring_victims_enough:
  "sz = sum_list (map a_file_size as) + extra \<Longrightarrow> as = ring_victims sz mx as @ rest \<Longrightarrow> extra \<le> mx \<Longrightarrow>
   sum_list (map a_file_size rest) + extra \<le> mx"
proof (induction sz mx as arbitrary: extra rule: ring_victims.induct)
  case (2 sz mx a as)
  show ?case
  proof (cases "sz > mx")
    case True
    with 2 show ?thesis by simp
  next
    case False
    with "2.prems" show ?thesis by auto
  qed
qed simp

lemma ring_victims_minimal:
  "\<exists>k. ring_victims sz mx as = take k as \<and> (\<forall>j < k. sz - sum_list (map a_file_size (take j as)) > mx)"
proof (induction sz mx as rule: ring_victims.induct)
  case (2 sz mx a as)
  show ?case
  proof (cases "sz > mx")
    case True
    with 2 obtain k where k: "ring_victims (sz - a_file_size a) mx as = take k as"
      "\<forall>j < k. sz - a_file_size a - sum_list (map a_file_size (take j as)) > mx" by auto
    have "sz - sum_list (map a_file_size (take j (a # as))) > mx" if "j < Suc k" for j
      using k(2) True that by (cases j) (auto simp: algebra_simps)
    with k(1) True show ?thesis by (intro exI [of _ "Suc k"]) simp
  next
    case False
    then show ?thesis by (intro exI [of _ 0]) simp
  qed
qed (intro exI [of _ 0], simp)

lemma sum_list_sort: "sum_list (map f (sort_key k xs)) = sum_list (map (f :: _ \<Rightarrow> int) xs)"
  by (metis mset_map mset_sort sum_mset_sum_list)

lemma ring_purge_total:
  assumes "db_inv db" "0 \<le> mx"
  shows "get_total_file_size (snd (purge_oldest_files mx db)) \<le> mx"
proof (cases "get_total_file_size db \<le> mx")
  case True
  then show ?thesis by (simp add: purge_oldest_files_def Let_def)
next
  case False
  define sz where "sz = get_total_file_size db"
  define as where "as = sort_key a_id (filter a_uploaded (attachments db))"
  define vs where "vs = ring_victims sz mx as"
  obtain rest where rest: "as = vs @ rest" using ring_victims_prefix [of as sz mx] by (auto simp: vs_def)
  have "distinct (map a_id (attachments db))" using assms(1) by (simp add: db_inv_def ids_ok_def)
  then have "distinct (map a_id (filter a_uploaded (attachments db)))" by (rule distinct_map_filter)
  then have dist: "distinct (map a_id as)" by (simp add: as_def distinct_map)
  have sz: "sz = sum_list (map a_file_size as) + 0"
    by (simp add: sz_def get_total_file_size_def as_def sum_list_sort)
  have le: "sum_list (map a_file_size rest) \<le> mx"
    using ring_victims_enough [OF sz rest [unfolded vs_def] assms(2)] by (simp only: add_0_right)
  have "filter (\<lambda>a. a_id a \<notin> a_id ` set vs) rest = rest"
    using dist unfolding rest by (intro filter_True) auto
  moreover have "filter (\<lambda>a. a_id a \<notin> a_id ` set vs) vs = []" by (simp add: filter_empty_conv)
  ultimately have "filter (\<lambda>a. a_id a \<notin> a_id ` set vs) as = rest" by (simp add: rest)
  then have "sort_key a_id (filter (\<lambda>a. a_uploaded a \<and> a_id a \<notin> a_id ` set vs) (attachments db)) = rest"
    by (simp add: as_def filter_sort filter_filter conj_commute)
  then have "sum_list (map a_file_size (filter (\<lambda>a. a_uploaded a \<and> a_id a \<notin> a_id ` set vs) (attachments db))) \<le> mx"
    using le sum_list_sort [of a_file_size a_id] by metis
  moreover have "get_total_file_size (snd (purge_oldest_files mx db))
      = sum_list (map a_file_size (filter (\<lambda>a. a_uploaded a \<and> a_id a \<notin> a_id ` set vs) (attachments db)))"
    using False by (simp add: purge_oldest_files_def Let_def get_total_file_size_def vs_def as_def sz_def
        conj_commute)
  ultimately show ?thesis by simp
qed

text \<open>The ring purge does its job: afterwards the uploaded files fit the configured total; the files
  removed are the oldest uploads and nothing else; and it stops as soon as they fit, removing any
  fewer would have left too much.\<close>

theorem ring_purge_fits:
  assumes "db_inv db" "0 \<le> mx"
  shows "get_total_file_size (snd (purge_oldest_files mx db)) \<le> mx \<and>
    (\<exists>k. fst (purge_oldest_files mx db)
          = map a_disk_path (take k (sort_key a_id (filter a_uploaded (attachments db)))) \<and>
       (\<forall>j < k. get_total_file_size db
          - sum_list (map a_file_size (take j (sort_key a_id (filter a_uploaded (attachments db))))) > mx))"
proof (cases "get_total_file_size db \<le> mx")
  case True
  then show ?thesis by (simp add: purge_oldest_files_def Let_def exI [of _ 0])
next
  case False
  then show ?thesis
    using ring_purge_total [OF assms] ring_victims_minimal
      [of "get_total_file_size db" mx "sort_key a_id (filter a_uploaded (attachments db))"]
    by (auto simp: purge_oldest_files_def Let_def)
qed

theorem ring_purge_fits_witness:
  "get_total_file_size (snd (purge_oldest_files 5 (mark_attachment_uploaded 1
     (snd (insert_attachment 1 [120] 9 [109] [112] 40 demo_db))))) \<le> 5"
proof -
  have "db_inv (mark_attachment_uploaded 1 (snd (insert_attachment 1 [120] 9 [109] [112] 40 demo_db)))"
    unfolding demo_db_def by (intro db_invs create_schema_inv)
  then show ?thesis using ring_purge_fits by simp
qed

end
