(* ===== verification/Server_State.thy ===== *)
theory Server_State
  imports Protocol Permissions Video_Backlog Datagram_Backlog Frame_Reorder Database
begin

text \<open>
  The state of the server: \<open>server/include/server/session.h\<close>, the members of \<open>Server\<close>
  (\<open>server/include/server/server.h\<close>) and of \<open>QuicServer\<close> that the main loop uses, and the configuration
  (\<open>server/include/server/config.h\<close>), with the transport calls of \<open>server/src/quic_server.cpp\<close> the loop
  makes.

  A \<open>shared_ptr<Session>\<close> is the session's id: ids are never reused (\<open>next_session_id_\<close> only grows), so
  an object is found in \<open>objs\<close> for as long as anything may still point at it, and \<open>sessions\<close> lists
  the ids of \<open>QuicServer::sessions_\<close> in the order its iteration yields. An \<open>unordered_map\<close> is an
  association list or a partial function; the channel table \<open>channel_video_streams_\<close> is a function
  whose missing entries are empty sets, kept as sorted lists like the \<open>std::set\<close> iterates.

  What the server does to the world (bytes handed to a QUIC stream, datagrams, shutdowns, files) is
  an \<open>effect\<close> appended to \<open>out\<close>. The clock, randomness and the status codes of MsQuic for one step are
  inputs (\<open>env\<close>); OpenSSL's Ed25519 and SHA-256 and SQLite's full-text match are parameters (\<open>libs\<close>).
\<close>

section \<open>Configuration and environment\<close>

record chat_config =
  max_message_length :: int
  max_file_size :: int
  max_total_file_storage :: int
  file_retention :: bytes
  file_retention_days :: int
  message_retention_days :: int

record config =
  cfg_server_name :: bytes
  cfg_max_clients :: int
  server_password :: bytes
  root_fingerprints :: "bytes list"
  max_users_per_channel :: int
  chat :: chat_config

record libs =
  lib_verify :: "bytes \<Rightarrow> bytes \<Rightarrow> bytes \<Rightarrow> bool"
  lib_sha256 :: "bytes \<Rightarrow> bytes"
  lib_fts_match :: "bytes \<Rightarrow> bytes \<Rightarrow> bool"

record env =
  now_us :: int
  unix_time :: u64
  random_token :: bytes
  dgram_send_ok :: "u32 \<Rightarrow> bool"
  stream_open_ok :: "u32 \<Rightarrow> bool"
  stream_send_ok :: "u32 \<Rightarrow> bool"
  file_open_ok :: "bytes \<Rightarrow> bool"

section \<open>Sessions\<close>

record video_source_state =
  ingress_allowed :: bool
  generation :: u64
  vs_codec :: u8
  vs_width :: u16
  vs_height :: u16

record video_out_stream =
  vo_stream :: nat
  vo_stream_id :: u32
  vo_frame_seq :: u32
  vo_keyframe :: bool

record session =
  s_id :: u32
  s_connection :: bool
  s_control_stream :: "nat option"
  s_video_stream :: "nat option"
  s_authenticated :: bool
  s_user_id :: u32
  s_username :: bytes
  s_role :: int
  s_token :: bytes
  s_public_key :: bytes
  s_version :: u16
  s_outstanding :: int
  s_gates :: "u32 \<rightharpoonup> viewer_gate"
  s_min_rtt_us :: u32
  s_srtt_us :: u32
  s_loss_permille :: u32
  s_last_threshold :: int
  s_gate_dropped :: u32
  s_streams_aborted :: u32
  s_rtt_sample_us :: int
  s_loss_sent :: u64
  s_loss_lost :: u64
  s_out_streams :: "video_out_stream list"
  s_backlog :: backlog
  s_sources :: "u8 \<Rightarrow> video_source_state"
  s_pending_bytes :: int
  s_channel :: u32
  s_muted :: bool
  s_deafened :: bool
  s_subs :: "u32 list"
  s_alive :: bool

definition VIDEO_INGRESS_MAX_BUFFERED_BYTES :: int where
  "VIDEO_INGRESS_MAX_BUFFERED_BYTES = 4 * 4 * 1024 * 1024"

definition new_session :: "u32 \<Rightarrow> session" where
  "new_session i = \<lparr>s_id = i, s_connection = True, s_control_stream = None, s_video_stream = None,
     s_authenticated = False, s_user_id = 0, s_username = [], s_role = 3, s_token = replicate 32 0,
     s_public_key = replicate 32 0, s_version = PROTOCOL_VERSION_ASSUMED_LEGACY, s_outstanding = 0,
     s_gates = Map.empty, s_min_rtt_us = VIDEO_BACKLOG_DEFAULT_RTT_US, s_srtt_us = 0,
     s_loss_permille = 0, s_last_threshold = 0, s_gate_dropped = 0, s_streams_aborted = 0,
     s_rtt_sample_us = 0, s_loss_sent = 0, s_loss_lost = 0, s_out_streams = [],
     s_backlog = new_backlog \<lparr>max_queued = 64, max_delay_us = 200000, holdoff_us = 100000\<rparr>,
     s_sources = (\<lambda>_. \<lparr>ingress_allowed = False, generation = 0, vs_codec = 0, vs_width = 0,
                        vs_height = 0\<rparr>),
     s_pending_bytes = 0, s_channel = 0, s_muted = False, s_deafened = False,
     s_subs = [], s_alive = True\<rparr>"

definition supports_frame_streams :: "session \<Rightarrow> bool" where
  "supports_frame_streams s \<longleftrightarrow> protocol_supports_frame_streams (s_version s)"

definition supports_camera :: "session \<Rightarrow> bool" where
  "supports_camera s \<longleftrightarrow> protocol_supports_camera (s_version s)"

definition video_ingress_allowed :: "session \<Rightarrow> u8 \<Rightarrow> bool" where
  "video_ingress_allowed s source \<longleftrightarrow> ingress_allowed (s_sources s source)"

definition any_video_ingress_allowed :: "session \<Rightarrow> bool" where
  "any_video_ingress_allowed s \<longleftrightarrow> video_ingress_allowed s Screen \<or> video_ingress_allowed s Camera"

abbreviation the_role :: "session \<Rightarrow> role" where "the_role s \<equiv> word_of_int (s_role s)"

section \<open>Server state\<close>

record sharer_state =
  ss_rate :: rate_est
  ss_pli :: coalescer
  ss_pli_deferred :: bool
  ss_pli_deferred_requester :: u32
  ss_pli_deferred_at_us :: int
  ss_last_keyframe_us :: int
  ss_last_frame_seq :: u32
  ss_have_frame :: bool
  ss_drop_log :: coalescer
  ss_drops_since_log :: u32
  ss_max_keyframe_bytes :: int
  ss_max_keyframe_at_us :: int

definition new_sharer_state :: sharer_state where
  "new_sharer_state = \<lparr>ss_rate = new_rate_est 1,
     ss_pli = new_coalescer (VIDEO_KEYFRAME_REQUEST_COOLDOWN_MS * 1000), ss_pli_deferred = False,
     ss_pli_deferred_requester = 0, ss_pli_deferred_at_us = 0, ss_last_keyframe_us = 0,
     ss_last_frame_seq = 0, ss_have_frame = False, ss_drop_log = new_coalescer 1000000,
     ss_drops_since_log = 0, ss_max_keyframe_bytes = 0, ss_max_keyframe_at_us = 0\<rparr>"

datatype pending_kind = Frame bytes | StreamStarted frame_header | StreamAborted u32 bool

record pending_frame =
  pf_session :: u32
  pf_source :: u8
  pf_generation :: u64
  pf_kind :: pending_kind

record video_ingress =
  vi_session :: u32
  vi_source :: u8
  vi_reorder :: reorder

datatype effect =
  Control u32 ctype bytes
| Datagram u32 bytes bool
| FrameStream u32 nat bytes
| LegacyVideo u32 bytes
| AbortSend u32 nat
| AbortStream u32 nat
| ConnectionShutdown u32
| WriteFile bytes bytes
| RemoveFile bytes
| SendFile nat bytes

text \<open>A session that dropped, queued by \<open>SHUTDOWN_COMPLETE\<close> for the main loop.\<close>

record disconnect_event =
  de_session :: u32
  de_user :: u32
  de_channel :: u32

record srv =
  objs :: "u32 \<Rightarrow> session"
  sessions :: "u32 list"
  next_session_id :: u32
  disconnects :: "disconnect_event list"
  db :: database
  channel_streams :: "u32 \<Rightarrow> u32 list"
  sharer_states :: "(u32 \<times> sharer_state) list"
  control_buckets :: "u32 \<rightharpoonup> token_bucket"
  user_sessions :: "u32 \<rightharpoonup> u32"
  authed_sessions :: "u32 list"
  recent_auth :: "(bytes \<times> u64) list"
  video_ingress :: "(u32 \<times> video_ingress) list"
  video_incoming :: "pending_frame list"
  files :: "bytes \<rightharpoonup> bytes"
  media_drops :: nat
  next_stream :: nat
  out :: "effect list"

definition get_session :: "u32 \<Rightarrow> srv \<Rightarrow> session option" where
  "get_session i st = (if i \<in> set (sessions st) then Some (objs st i) else None)"

definition upd :: "u32 \<Rightarrow> (session \<Rightarrow> session) \<Rightarrow> srv \<Rightarrow> srv" where
  "upd i f st = st\<lparr>objs := (objs st)(i := f (objs st i))\<rparr>"

definition emit :: "effect \<Rightarrow> srv \<Rightarrow> srv" where
  "emit e st = st\<lparr>out := out st @ [e]\<rparr>"

definition empty_srv :: "database \<Rightarrow> srv" where
  "empty_srv d = \<lparr>objs = new_session, sessions = [], next_session_id = 1, disconnects = [], db = d,
     channel_streams = (\<lambda>_. []), sharer_states = [], control_buckets = Map.empty,
     user_sessions = Map.empty, authed_sessions = [], recent_auth = [], video_ingress = [],
     video_incoming = [], files = Map.empty, media_drops = 0, next_stream = 0, out = []\<rparr>"

text \<open>An association list standing for an \<open>unordered_map\<close>: \<open>m[k]\<close> creates a missing entry.\<close>

definition al_get :: "'k \<Rightarrow> 'v \<Rightarrow> ('k \<times> 'v) list \<Rightarrow> 'v" where
  "al_get k d m = (case map_of m k of Some v \<Rightarrow> v | None \<Rightarrow> d)"

definition al_put :: "'k \<Rightarrow> 'v \<Rightarrow> ('k \<times> 'v) list \<Rightarrow> ('k \<times> 'v) list" where
  "al_put k v m = (if k \<in> fst ` set m then map (\<lambda>e. if fst e = k then (k, v) else e) m else m @ [(k, v)])"

definition al_erase :: "'k \<Rightarrow> ('k \<times> 'v) list \<Rightarrow> ('k \<times> 'v) list" where
  "al_erase k m = filter (\<lambda>e. fst e \<noteq> k) m"

section \<open>Transport\<close>

definition send_to :: "u32 \<Rightarrow> ctype \<Rightarrow> bytes \<Rightarrow> srv \<Rightarrow> srv" where
  "send_to i ty payload st =
     (if i \<in> set (sessions st) \<and> s_alive (objs st i) \<and> s_control_stream (objs st i) \<noteq> None
      then emit (Control i ty payload) st else st)"

definition disconnect :: "u32 \<Rightarrow> srv \<Rightarrow> srv" where
  "disconnect i st =
     (if i \<notin> set (sessions st) then st
      else let st1 = upd i (\<lambda>s. s\<lparr>s_alive := False\<rparr>) st
           in if s_connection (objs st i) then emit (ConnectionShutdown i) st1 else st1)"

definition send_datagram :: "env \<Rightarrow> u32 \<Rightarrow> bytes \<Rightarrow> bool \<Rightarrow> bool \<Rightarrow> srv \<Rightarrow> srv" where
  "send_datagram e i d priority media st =
     (case get_session i st of
        None \<Rightarrow> st
      | Some s \<Rightarrow>
          let (ok, b) = (if media then admit (now_us e) (s_backlog s) else (True, s_backlog s));
              st1 = upd i (\<lambda>s. s\<lparr>s_backlog := b\<rparr>) st
          in if \<not> ok then st1\<lparr>media_drops := media_drops st1 + 1\<rparr>
             else if \<not> s_alive s \<or> \<not> s_connection s then st1
             else let b1 = on_queued (now_us e) b
                  in if dgram_send_ok e i
                     then emit (Datagram i d priority) (upd i (\<lambda>s. s\<lparr>s_backlog := b1\<rparr>) st1)
                     else upd i (\<lambda>s. s\<lparr>s_backlog := on_send_failed b1\<rparr>) st1)"

definition send_to_many :: "env \<Rightarrow> u32 list \<Rightarrow> bytes \<Rightarrow> bool \<Rightarrow> srv \<Rightarrow> srv" where
  "send_to_many e is d priority st = fold (\<lambda>i. send_datagram e i d priority True) is st"

text \<open>\<open>abort_video_frames\<close> walks the viewer's open frame streams and asks MsQuic to abort the useless
  ones; their entries leave the list later, on \<open>SHUTDOWN_COMPLETE\<close>.\<close>

definition useless_streams :: "session \<Rightarrow> u32 \<Rightarrow> bool \<Rightarrow> u32 \<Rightarrow> video_out_stream list" where
  "useless_streams s stream_id all before_seq =
     filter (\<lambda>v. vo_stream_id v = stream_id \<and> (all \<or> video_seq_newer before_seq (vo_frame_seq v)))
       (s_out_streams s)"

definition abort_video_frames :: "u32 \<Rightarrow> u32 \<Rightarrow> bool \<Rightarrow> u32 \<Rightarrow> srv \<Rightarrow> srv" where
  "abort_video_frames i stream_id all before_seq st =
     (let vs = useless_streams (objs st i) stream_id all before_seq
      in upd i (\<lambda>s. s\<lparr>s_streams_aborted := s_streams_aborted s + of_nat (length vs)\<rparr>)
           (fold (\<lambda>v. emit (AbortSend i (vo_stream v))) vs st))"

definition send_video_frame_to :: "env \<Rightarrow> u32 \<Rightarrow> bytes \<Rightarrow> srv \<Rightarrow> bool \<times> srv" where
  "send_video_frame_to e i frame st =
     (let s = objs st i
      in if \<not> s_alive s \<or> \<not> s_connection s then (False, st)
         else if 1 + length frame > VIDEO_FRAME_MAX_BYTES then (False, st)
         else if supports_frame_streams s then
           (if \<not> stream_open_ok e i then (False, st)
            else
              let h = next_stream st;
                  st1 = st\<lparr>next_stream := h + 1\<rparr>;
                  st2 = (case (if length frame \<ge> 4 + VIDEO_FRAME_HEADER_SIZE
                               then header_parse (drop 4 frame) else None) of
                           Some hdr \<Rightarrow> upd i (\<lambda>s. s\<lparr>s_out_streams := s_out_streams s @
                             [\<lparr>vo_stream = h, vo_stream_id = of_le32 frame, vo_frame_seq = frame_seq hdr,
                               vo_keyframe = keyframe hdr\<rparr>]\<rparr>) st1
                         | None \<Rightarrow> st1)
              in if \<not> stream_send_ok e i then (False, emit (AbortStream i h) st2)
                 else (True, emit (FrameStream i h (STREAM_TYPE_VIDEO_FRAME # frame))
                        (upd i (\<lambda>s. s\<lparr>s_outstanding := s_outstanding s + 1 + int (length frame)\<rparr>) st2)))
         else if s_video_stream s = None then (False, st)
         else if \<not> stream_send_ok e i then (False, st)
         else (True, emit (LegacyVideo i (le32 (of_nat (1 + length frame)) @ VIDEO_FRAME_PACKET_TYPE # frame))
                (upd i (\<lambda>s. s\<lparr>s_outstanding := s_outstanding s + 5 + int (length frame)\<rparr>) st)))"


section \<open>Operations that only talk\<close>

text \<open>
  The interface between the handlers and the transport: an \<open>emitter\<close> appends effects and leaves the
  rest of the state alone. Handlers are compositions of emitters and a few updates, so what a
  handler does to the state is read off its updates.
\<close>

locale emitter =
  fixes f :: "srv \<Rightarrow> srv"
  assumes only_out: "\<exists>es. f st = st\<lparr>out := out st @ es\<rparr>"
begin

lemma fields:
  "objs (f st) = objs st" "sessions (f st) = sessions st" "db (f st) = db st"
  "channel_streams (f st) = channel_streams st" "sharer_states (f st) = sharer_states st"
  "control_buckets (f st) = control_buckets st" "user_sessions (f st) = user_sessions st"
  "authed_sessions (f st) = authed_sessions st" "recent_auth (f st) = recent_auth st"
  "video_ingress (f st) = video_ingress st" "video_incoming (f st) = video_incoming st"
  "next_session_id (f st) = next_session_id st" "disconnects (f st) = disconnects st"
  "files (f st) = files st" "media_drops (f st) = media_drops st" "next_stream (f st) = next_stream st"
  using only_out [of st] by auto

lemma same_session: "get_session i (f st) = get_session i st"
  by (simp add: get_session_def fields)

lemma grows: "\<exists>es. out (f st) = out st @ es"
  using only_out [of st] by auto

end

lemma emitter_fields: "emitter f \<Longrightarrow> st' = f st \<Longrightarrow> objs st' = objs st \<and> sessions st' = sessions st \<and>
   db st' = db st \<and> channel_streams st' = channel_streams st \<and> sharer_states st' = sharer_states st \<and>
   control_buckets st' = control_buckets st \<and> user_sessions st' = user_sessions st \<and>
   authed_sessions st' = authed_sessions st \<and> recent_auth st' = recent_auth st \<and>
   video_ingress st' = video_ingress st"
  by (simp add: emitter.fields)

lemma emitter_id: "emitter (\<lambda>st. st)"
  by unfold_locales (rule exI [of _ "[]"], simp)

lemma emitter_emit: "emitter (emit x)"
  by unfold_locales (auto simp: emit_def)

lemma emitter_comp:
  assumes "emitter f" "emitter g" shows "emitter (\<lambda>st. g (f st))"
proof
  fix st
  obtain es where "f st = st\<lparr>out := out st @ es\<rparr>" using emitter.only_out [OF assms(1), of st] by blast
  moreover obtain es' where "g (f st) = (f st)\<lparr>out := out (f st) @ es'\<rparr>"
    using emitter.only_out [OF assms(2), of "f st"] by blast
  ultimately show "\<exists>es. g (f st) = st\<lparr>out := out st @ es\<rparr>" by (intro exI [of _ "es @ es'"]) simp
qed

text \<open>An operation that picks, from the state, which emitter to run.\<close>

lemma emitter_pick: "(\<And>st. \<exists>g. emitter g \<and> f st = g st) \<Longrightarrow> emitter f"
  by unfold_locales (metis emitter.only_out)

lemma emitter_if: "emitter f \<Longrightarrow> emitter g \<Longrightarrow> emitter (\<lambda>st. if b st then f st else g st)"
  by (rule emitter_pick) auto

lemma emitter_fold: "(\<And>x. emitter (f x)) \<Longrightarrow> emitter (fold f xs)"
proof (induction xs)
  case Nil
  then show ?case using emitter_id by (simp add: id_def)
next
  case (Cons x xs)
  then show ?case using emitter_comp [of "f x" "fold f xs"] by (simp add: comp_def)
qed

lemma emitter_send_to: "emitter (send_to i ty p)"
  by (rule emitter_pick) (auto simp: send_to_def intro: emitter_emit emitter_id)

interpretation send_to: emitter "send_to i ty p" for i ty p
  by (rule emitter_send_to)

declare send_to.fields [simp] send_to.same_session [simp]

lemmas emitters = emitter_id emitter_emit emitter_comp emitter_if emitter_fold emitter_send_to

end
