(* ===== verification/Server_Video.thy ===== *)
theory Server_Video
  imports Server_State
begin

text \<open>
  The video half of \<open>server/src/server.cpp\<close>: publishing state, subscriptions, keyframe requests, the
  forwarding of frames through the per-viewer gates, and the ingress reordering, each member
  function one definition on the server state. \<open>e\<close> carries the clock, which stands still within one
  call.
\<close>

definition send_error :: "u32 \<Rightarrow> bytes \<Rightarrow> u16 \<Rightarrow> srv \<Rightarrow> srv" where
  "send_error i message code st = send_to i SERVER_ERROR (write_string message (write_u16 code [])) st"

definition session_for_user :: "u32 \<Rightarrow> srv \<Rightarrow> session option" where
  "session_for_user u st = (case user_sessions st u of None \<Rightarrow> None | Some i \<Rightarrow> get_session i st)"

definition announce_video_stream :: "u32 \<Rightarrow> u32 \<Rightarrow> session \<Rightarrow> bool \<Rightarrow> srv \<Rightarrow> srv" where
  "announce_video_stream to_id stream_id publisher replay st =
     (let source = video_stream_source stream_id
      in if source \<noteq> Screen \<and> \<not> supports_camera (objs st to_id) then st
         else let state = s_sources publisher source
              in send_to to_id SCREEN_SHARE_STARTED
                   (write_u8 (if replay then 1 else 0) (write_u16 (vs_height state)
                     (write_u16 (vs_width state) (write_u8 (vs_codec state) (write_u32 stream_id []))))) st)"

definition notify_viewer_change :: "u32 \<Rightarrow> u32 \<Rightarrow> bool \<Rightarrow> srv \<Rightarrow> srv" where
  "notify_viewer_change stream_id viewer watching st =
     (if video_stream_source stream_id \<noteq> Screen then st
      else if video_stream_owner stream_id = viewer then st
      else case session_for_user (video_stream_owner stream_id) st of
             None \<Rightarrow> st
           | Some sharer \<Rightarrow>
               if \<not> s_authenticated sharer \<or> \<not> supports_frame_streams sharer then st
               else send_to (s_id sharer) SCREEN_SHARE_VIEWER
                      (write_u8 (if watching then 1 else 0) (write_u32 viewer [])) st)"

definition clear_viewer_subscriptions :: "u32 \<Rightarrow> bool \<Rightarrow> srv \<Rightarrow> srv" where
  "clear_viewer_subscriptions i notify st =
     (let sharers = s_subs (objs st i);
          st1 = upd i (\<lambda>s. s\<lparr>s_subs := [], s_gates := Map.empty\<rparr>) st
      in if \<not> notify then st1
         else fold (\<lambda>sharer. notify_viewer_change sharer (s_user_id (objs st i)) False) sharers st1)"

definition stop_video_stream :: "u32 \<Rightarrow> u32 \<Rightarrow> u8 \<Rightarrow> srv \<Rightarrow> srv" where
  "stop_video_stream ch u source st =
     (let stream_id = video_stream_id u source;
          st1 = st\<lparr>video_ingress := al_erase stream_id (video_ingress st)\<rparr>
      in if stream_id \<notin> set (channel_streams st1 ch) then st1
         else
           let st2 = st1\<lparr>channel_streams := (channel_streams st1)
                          (ch := filter (\<lambda>x. x \<noteq> stream_id) (channel_streams st1 ch))\<rparr>;
               st3 = (case session_for_user u st2 of
                        None \<Rightarrow> st2
                      | Some sharer \<Rightarrow> upd (s_id sharer) (\<lambda>s. s\<lparr>s_sources := (s_sources s)
                          (source := (s_sources s source)\<lparr>ingress_allowed := False,
                             generation := generation (s_sources s source) + 1\<rparr>)\<rparr>) st2);
               st4 = fold (\<lambda>i. upd i (\<lambda>s. s\<lparr>s_subs := filter (\<lambda>x. x \<noteq> stream_id) (s_subs s),
                                          s_gates := (s_gates s)(stream_id := None)\<rparr>)) (sessions st3) st3;
               st5 = st4\<lparr>sharer_states := al_erase stream_id (sharer_states st4)\<rparr>
           in fold (\<lambda>i st. let s = objs st i
                      in if \<not> s_authenticated s \<or> s_channel s \<noteq> ch then st
                         else if source \<noteq> Screen \<and> \<not> supports_camera s then st
                         else send_to i SCREEN_SHARE_STOPPED (write_u32 stream_id []) st)
                (sessions st5) st5)"

definition stop_all_video_streams :: "u32 \<Rightarrow> u32 \<Rightarrow> srv \<Rightarrow> srv" where
  "stop_all_video_streams ch u st = stop_video_stream ch u Camera (stop_video_stream ch u Screen st)"

section \<open>Keyframe requests\<close>

definition send_keyframe_request :: "env \<Rightarrow> u32 \<Rightarrow> u32 \<Rightarrow> srv \<Rightarrow> srv" where
  "send_keyframe_request e stream_id requester st =
     (case session_for_user (video_stream_owner stream_id) st of
        None \<Rightarrow> st
      | Some sharer \<Rightarrow>
          if \<not> s_authenticated sharer then st
          else send_datagram e (s_id sharer)
                 ([VIDEO_CONTROL_TYPE, VIDEO_CTL_PLI] @ le32 requester @ le32 stream_id) True False st)"

definition request_keyframe_from_sharer :: "env \<Rightarrow> u32 \<Rightarrow> u32 \<Rightarrow> srv \<Rightarrow> srv" where
  "request_keyframe_from_sharer e stream_id requester st =
     (if \<not> video_stream_valid stream_id then st
      else
        let ss = al_get stream_id new_sharer_state (sharer_states st);
            (ok, pli) = coalescer_allow (now_us e) (ss_pli ss);
            ss1 = ss\<lparr>ss_pli := pli\<rparr>
        in if \<not> ok then
             (let ss2 = (if ss_pli_deferred ss1 then ss1
                         else ss1\<lparr>ss_pli_deferred := True, ss_pli_deferred_requester := requester,
                                  ss_pli_deferred_at_us := now_us e\<rparr>)
              in st\<lparr>sharer_states := al_put stream_id ss2 (sharer_states st)\<rparr>)
           else send_keyframe_request e stream_id requester
                  (st\<lparr>sharer_states := al_put stream_id (ss1\<lparr>ss_pli_deferred := False\<rparr>) (sharer_states st)\<rparr>))"

text \<open>One pass over the deferred requests: the new table and the requests that are due.\<close>

definition deferred_pass :: "int \<Rightarrow> (u32 \<times> sharer_state) list \<Rightarrow>
    (u32 \<times> sharer_state) list \<times> (u32 \<times> u32) list" where
  "deferred_pass now m =
     fold (\<lambda>(stream_id, ss) (acc, due).
         if \<not> ss_pli_deferred ss then (acc @ [(stream_id, ss)], due)
         else if ss_last_keyframe_us ss > ss_pli_deferred_at_us ss
         then (acc @ [(stream_id, ss\<lparr>ss_pli_deferred := False\<rparr>)], due)
         else let (ok, pli) = coalescer_allow now (ss_pli ss)
              in if \<not> ok then (acc @ [(stream_id, ss)], due)
                 else (acc @ [(stream_id, ss\<lparr>ss_pli := pli, ss_pli_deferred := False\<rparr>)],
                       due @ [(stream_id, ss_pli_deferred_requester ss)])) m ([], [])"

definition send_deferred_keyframe_requests :: "env \<Rightarrow> srv \<Rightarrow> srv" where
  "send_deferred_keyframe_requests e st =
     (let (m, due) = deferred_pass (now_us e) (sharer_states st)
      in fold (\<lambda>(stream_id, requester). send_keyframe_request e stream_id requester) due
           (st\<lparr>sharer_states := m\<rparr>))"

section \<open>Forwarding\<close>

definition KEYFRAME_HEADROOM_TTL_US :: int where "KEYFRAME_HEADROOM_TTL_US = 10000000"

definition viewer_backlog_threshold :: "session \<Rightarrow> (u32 \<times> double) list \<Rightarrow> int \<Rightarrow> int" where
  "viewer_backlog_threshold viewer rates headroom =
     (let rate = foldl (\<lambda>acc stream. case map_of rates stream of
                          Some r \<Rightarrow> fl (acc + r) | None \<Rightarrow> acc) 0 (s_subs viewer)
      in threshold_loss rate (s_min_rtt_us viewer) headroom (s_srtt_us viewer) (s_loss_permille viewer))"

definition note_frame :: "int \<Rightarrow> frame_header \<Rightarrow> nat \<Rightarrow> sharer_state \<Rightarrow> sharer_state" where
  "note_frame now hdr len ss =
     (let ss1 = ss\<lparr>ss_rate := rate_add now len (ss_rate ss), ss_last_frame_seq := frame_seq hdr,
                   ss_have_frame := True\<rparr>
      in if keyframe hdr then
           (let ss2 = ss1\<lparr>ss_last_keyframe_us := now\<rparr>;
                stale = (ss_max_keyframe_at_us ss2 = 0
                         \<or> now - ss_max_keyframe_at_us ss2 > KEYFRAME_HEADROOM_TTL_US)
            in if stale \<or> int len > ss_max_keyframe_bytes ss2
               then ss2\<lparr>ss_max_keyframe_bytes := int len, ss_max_keyframe_at_us := now\<rparr> else ss2)
         else ss1)"

definition stream_rates :: "u32 \<Rightarrow> double \<Rightarrow> (u32 \<times> sharer_state) list \<Rightarrow> (u32 \<times> double) list" where
  "stream_rates sharer fallback m =
     map (\<lambda>(uid, ss). (uid, bytes_per_second (if uid = sharer then fallback else 0) (ss_rate ss))) m"

text \<open>The gate of one viewer: its verdict, and what it adds to the four lists of the loop.\<close>

record gate_verdict =
  gv_targets :: "u32 list"
  gv_abort_all :: "u32 list"
  gv_abort_older :: "u32 list"
  gv_dropped :: nat
  gv_want_key :: bool

definition is_viewer :: "u32 \<Rightarrow> u32 \<Rightarrow> u32 \<Rightarrow> session \<Rightarrow> bool" where
  "is_viewer publisher_sid ch sharer s \<longleftrightarrow>
     s_id s \<noteq> publisher_sid \<and> s_authenticated s \<and> s_channel s = ch \<and> sharer \<in> set (s_subs s)"

definition gate_viewer :: "env \<Rightarrow> u32 \<Rightarrow> u32 \<Rightarrow> u32 \<Rightarrow> (u32 \<times> double) list \<Rightarrow> int \<Rightarrow> bool \<Rightarrow> u32 \<Rightarrow>
    gate_verdict \<times> srv \<Rightarrow> gate_verdict \<times> srv" where
  "gate_viewer e publisher_sid ch sharer rates headroom kf i = (\<lambda>(gv, st).
     let s = objs st i
     in if \<not> is_viewer publisher_sid ch sharer s then (gv, st)
        else
          let threshold = viewer_backlog_threshold s rates headroom;
              g = (case s_gates s sharer of Some g \<Rightarrow> g | None \<Rightarrow> new_gate);
              (ok, needs_key, g1) = gate_admit (s_outstanding s) threshold kf g;
              gv1 = (if ok then gv\<lparr>gv_targets := gv_targets gv @ [i],
                                   gv_abort_older := (if kf then gv_abort_older gv @ [i] else gv_abort_older gv)\<rparr>
                     else gv\<lparr>gv_dropped := gv_dropped gv + 1,
                             gv_abort_all := (if \<not> gate_awaiting g \<and> gate_awaiting g1
                                              then gv_abort_all gv @ [i] else gv_abort_all gv)\<rparr>);
              (req, g2) = (if needs_key then allow_keyframe_request (now_us e) g1 else (False, g1));
              gv2 = (if req then gv1\<lparr>gv_want_key := True\<rparr> else gv1)
          in (gv2, upd i (\<lambda>s. s\<lparr>s_last_threshold := threshold,
                               s_gate_dropped := (if ok then s_gate_dropped s else s_gate_dropped s + 1),
                               s_gates := (s_gates s)(sharer := Some g2)\<rparr>) st))"

definition send_to_viewer :: "env \<Rightarrow> u32 \<Rightarrow> bytes \<Rightarrow> u32 \<Rightarrow> gate_verdict \<times> srv \<Rightarrow> gate_verdict \<times> srv" where
  "send_to_viewer e sharer frame i = (\<lambda>(gv, st).
     let (ok, st1) = send_video_frame_to e i frame st
     in if ok then (gv, st1)
        else (gv\<lparr>gv_want_key := True, gv_dropped := gv_dropped gv + 1\<rparr>,
              upd i (\<lambda>s. s\<lparr>s_gates := (s_gates s)(sharer \<mapsto>
                 (case s_gates s sharer of Some g \<Rightarrow> g | None \<Rightarrow> new_gate)\<lparr>gate_awaiting := True\<rparr>)\<rparr>) st1))"

definition note_drops :: "int \<Rightarrow> u32 \<Rightarrow> nat \<Rightarrow> srv \<Rightarrow> srv" where
  "note_drops now sharer n st =
     (if n = 0 then st
      else let ss = al_get sharer new_sharer_state (sharer_states st);
               ss1 = ss\<lparr>ss_drops_since_log := ss_drops_since_log ss + of_nat n\<rparr>;
               (ok, lg) = coalescer_allow now (ss_drop_log ss1);
               ss2 = ss1\<lparr>ss_drop_log := lg\<rparr>
           in st\<lparr>sharer_states := al_put sharer
                   (if ok then ss2\<lparr>ss_drops_since_log := 0\<rparr> else ss2) (sharer_states st)\<rparr>)"

text \<open>The fan-out of one frame: gate every viewer, abort what became useless, send, count the drops and
  ask for a keyframe.\<close>

definition forward_to_viewers :: "env \<Rightarrow> u32 \<Rightarrow> u32 \<Rightarrow> u32 \<Rightarrow> frame_header \<Rightarrow> (u32 \<times> double) list \<Rightarrow> int \<Rightarrow>
    bytes \<Rightarrow> srv \<Rightarrow> srv" where
  "forward_to_viewers e sid ch sharer hdr rates headroom frame st1 =
     (let gv0 = \<lparr>gv_targets = [], gv_abort_all = [], gv_abort_older = [], gv_dropped = 0,
                 gv_want_key = False\<rparr>;
          (gv, st2) = fold (gate_viewer e sid ch sharer rates headroom (keyframe hdr))
                        (sessions st1) (gv0, st1);
          st3 = fold (\<lambda>i. abort_video_frames i sharer True 0) (gv_abort_all gv) st2;
          st4 = fold (\<lambda>i. abort_video_frames i sharer False (frame_seq hdr)) (gv_abort_older gv) st3;
          (gv5, st5) = fold (send_to_viewer e sharer frame) (gv_targets gv) (gv, st4);
          st6 = note_drops (now_us e) sharer (gv_dropped gv5) st5
      in if gv_want_key gv5 then request_keyframe_from_sharer e sharer 0 st6 else st6)"

definition forward_video_frame :: "env \<Rightarrow> u32 \<Rightarrow> u8 \<Rightarrow> bytes \<Rightarrow> srv \<Rightarrow> srv" where
  "forward_video_frame e sid source d st =
     (case get_session sid st of
        None \<Rightarrow> st
      | Some s \<Rightarrow>
        if \<not> s_authenticated s \<or> s_channel s = 0 then st
        else let sharer = video_stream_id (s_user_id s) source
        in if sharer \<notin> set (channel_streams st (s_channel s)) then st
        else (case header_parse d of
          None \<Rightarrow> st
        | Some hdr \<Rightarrow>
          let len = length d;
              ss = note_frame (now_us e) hdr len (al_get sharer new_sharer_state (sharer_states st));
              st1 = st\<lparr>sharer_states := al_put sharer ss (sharer_states st)\<rparr>;
              headroom = (if keyframe hdr then max (ss_max_keyframe_bytes ss) (int len)
                          else ss_max_keyframe_bytes ss);
              rates = stream_rates sharer (fl (double_of_int (int len) * 30)) (sharer_states st1)
          in forward_to_viewers e sid (s_channel s) sharer hdr rates headroom (le32 sharer @ d) st1))"

definition forward_stream_audio :: "env \<Rightarrow> u32 \<Rightarrow> bytes \<Rightarrow> srv \<Rightarrow> srv" where
  "forward_stream_audio e sid d st =
     (case get_session sid st of
        None \<Rightarrow> st
      | Some s \<Rightarrow>
          if \<not> s_authenticated s \<or> s_channel s = 0
             \<or> s_user_id s \<notin> set (channel_streams st (s_channel s)) then st
          else let fwd = STREAM_AUDIO_PACKET_TYPE # le32 (s_user_id s) @ d;
                   targets = filter (\<lambda>i. is_viewer sid (s_channel s) (s_user_id s) (objs st i)) (sessions st)
               in fold (\<lambda>i. send_datagram e i fwd False True) targets st)"

definition handle_video_control :: "env \<Rightarrow> u32 \<Rightarrow> bytes \<Rightarrow> srv \<Rightarrow> srv" where
  "handle_video_control e sid d st =
     (case get_session sid st of
        None \<Rightarrow> st
      | Some s \<Rightarrow>
        if \<not> s_authenticated s \<or> s_channel s = 0 then st
        else
          let b = (case control_buckets st sid of Some b \<Rightarrow> b | None \<Rightarrow> new_bucket 4 4);
              (ok, b1) = try_take (now_us e) 1 b;
              st1 = st\<lparr>control_buckets := (control_buckets st)(sid \<mapsto> b1)\<rparr>
          in if \<not> ok \<or> length d < 2 then st1
             else if d ! 0 \<noteq> VIDEO_CTL_PLI \<or> length d < 5 then st1
             else
               let target = of_le32 (drop 1 d)
               in if target \<notin> set (channel_streams st1 (s_channel s)) then st1
               else
                 let rates = stream_rates 0 0 (sharer_states st1);
                     headroom = (case map_of (sharer_states st1) target of
                                   Some ss \<Rightarrow> ss_max_keyframe_bytes ss | None \<Rightarrow> 0);
                     throttled = (case s_gates s target of
                                    Some g \<Rightarrow> gate_awaiting g
                                      \<and> s_outstanding s > viewer_backlog_threshold s rates headroom
                                  | None \<Rightarrow> False)
                 in if throttled then st1
                    else let g = (case s_gates s target of Some g \<Rightarrow> g | None \<Rightarrow> new_gate);
                             (req, g1) = allow_keyframe_request (now_us e) g;
                             st2 = upd sid (\<lambda>s. s\<lparr>s_gates := (s_gates s)(target \<mapsto> g1)\<rparr>) st1
                         in if req then request_keyframe_from_sharer e target (s_user_id s) st2 else st2)"

section \<open>Ingress\<close>

definition enqueue_video_frame :: "u32 \<Rightarrow> u8 \<Rightarrow> bytes \<Rightarrow> srv \<Rightarrow> srv" where
  "enqueue_video_frame sid source d st =
     (if length d < VIDEO_FRAME_HEADER_SIZE \<or> length d > VIDEO_FRAME_MAX_PAYLOAD_BYTES
         \<or> \<not> video_source_valid source then st
      else case get_session sid st of
             None \<Rightarrow> st
           | Some s \<Rightarrow>
               let state = s_sources s source; n = int (length d)
               in if \<not> ingress_allowed state then st
                  else if s_pending_bytes s + n > VIDEO_INGRESS_MAX_BUFFERED_BYTES then st
                  else (upd sid (\<lambda>s. s\<lparr>s_pending_bytes := s_pending_bytes s + n\<rparr>) st)
                         \<lparr>video_incoming := video_incoming st @
                            [\<lparr>pf_session = sid, pf_source = source, pf_generation = generation state,
                              pf_kind = Frame d\<rparr>]\<rparr>)"

definition enqueue_video_event :: "u32 \<Rightarrow> u8 \<Rightarrow> pending_kind \<Rightarrow> srv \<Rightarrow> srv" where
  "enqueue_video_event sid source k st =
     (if \<not> video_source_valid source then st
      else case get_session sid st of
             None \<Rightarrow> st
           | Some s \<Rightarrow>
               let state = s_sources s source
               in if \<not> ingress_allowed state then st
                  else st\<lparr>video_incoming := video_incoming st @
                            [\<lparr>pf_session = sid, pf_source = source, pf_generation = generation state,
                              pf_kind = k\<rparr>]\<rparr>)"

text \<open>The two callbacks of the reorder buffer, run on the events in their order.\<close>

definition run_reorder_event :: "env \<Rightarrow> u32 \<Rightarrow> u8 \<Rightarrow> u32 \<Rightarrow> reorder_event \<Rightarrow> srv \<Rightarrow> srv" where
  "run_reorder_event e sid source stream_id ev st =
     (case ev of
        Deliver hdr frame \<Rightarrow> forward_video_frame e sid source frame st
      | Lost seq \<Rightarrow> request_keyframe_from_sharer e stream_id 0 st)"

definition put_reorder :: "u32 \<Rightarrow> u32 \<Rightarrow> u8 \<Rightarrow> reorder \<Rightarrow> srv \<Rightarrow> srv" where
  "put_reorder stream_id sid source r st =
     st\<lparr>video_ingress := al_put stream_id \<lparr>vi_session = sid, vi_source = source, vi_reorder = r\<rparr>
                           (video_ingress st)\<rparr>"

definition process_video_frame :: "env \<Rightarrow> pending_frame \<Rightarrow> srv \<Rightarrow> srv" where
  "process_video_frame e pf st0 =
     (let sid = pf_session pf; source = pf_source pf;
          size = (case pf_kind pf of Frame d \<Rightarrow> int (length d) | _ \<Rightarrow> 0);
          st = upd sid (\<lambda>s. s\<lparr>s_pending_bytes := s_pending_bytes s - size\<rparr>) st0;
          s = objs st sid; state = s_sources s source
      in if \<not> s_alive s \<or> \<not> ingress_allowed state \<or> pf_generation pf \<noteq> generation state then st
         else
           let stream_id = video_stream_id (s_user_id s) source;
               r0 = (case map_of (video_ingress st) stream_id of
                       Some vi \<Rightarrow> vi_reorder vi | None \<Rightarrow> new_reorder default_reorder_cfg);
               r = set_rtt (s_srtt_us s) r0;
               now = now_us e
           in (case pf_kind pf of
                 StreamStarted hdr \<Rightarrow> put_reorder stream_id sid source (on_frame_started hdr now r) st
               | StreamAborted seq have_seq \<Rightarrow>
                   if have_seq then
                     (let (r1, evs) = on_frame_aborted seq now r
                      in fold (run_reorder_event e sid source stream_id) evs
                           (put_reorder stream_id sid source r1 st))
                   else if \<not> keyframe_in_flight r now
                   then request_keyframe_from_sharer e stream_id 0 (put_reorder stream_id sid source r st)
                   else put_reorder stream_id sid source r st
               | Frame d \<Rightarrow>
                   (case header_parse d of
                      None \<Rightarrow> put_reorder stream_id sid source r st
                    | Some hdr \<Rightarrow>
                        (let (r1, evs) = on_frame hdr d now r
                         in fold (run_reorder_event e sid source stream_id) evs
                              (put_reorder stream_id sid source r1 st)))))"

definition poll_ingress :: "env \<Rightarrow> u32 \<Rightarrow> srv \<Rightarrow> srv" where
  "poll_ingress e stream_id st =
     (case map_of (video_ingress st) stream_id of
        None \<Rightarrow> st
      | Some vi \<Rightarrow>
          let s = objs st (vi_session vi)
          in if \<not> s_alive s \<or> \<not> video_ingress_allowed s (vi_source vi)
             then st\<lparr>video_ingress := al_erase stream_id (video_ingress st)\<rparr>
             else
               let (r, evs) = poll (now_us e) (vi_reorder vi);
                   st1 = fold (run_reorder_event e (vi_session vi) (vi_source vi) stream_id) evs
                           (put_reorder stream_id (vi_session vi) (vi_source vi) r st)
               in if should_request_keyframe r (now_us e)
                  then request_keyframe_from_sharer e stream_id 0 st1 else st1)"

definition process_video_frames :: "env \<Rightarrow> srv \<Rightarrow> srv" where
  "process_video_frames e st =
     (let st1 = fold (process_video_frame e) (video_incoming st) (st\<lparr>video_incoming := []\<rparr>);
          st2 = fold (poll_ingress e) (map fst (video_ingress st1)) st1
      in send_deferred_keyframe_requests e st2)"

end
