(* ===== verification/Server_Auth.thy ===== *)
theory Server_Auth
  imports Server_Video
begin

text \<open>
  Lists and broadcasts of \<open>server/src/server.cpp\<close>, \<open>process_disconnect\<close>, and the \<open>AUTH_IDENTITY\<close> case of
  \<open>Server::handle_message\<close>: parsing, freshness, the replay guard, signature and password, and the login
  with the removal of a duplicate session. Log lines are left out. Time stamps are \<open>uint64_t\<close> values
  cast to \<open>int64_t\<close>; the two differences are taken in the integers (the C++ subtraction overflows only for
  a time stamp within a few decades of \<open>-2^63\<close>).
\<close>

section \<open>Broadcasts and lists\<close>

text \<open>\<open>for (auto& s : quic_.get_sessions()) if (\<dots>) quic_.send_to(s->id, \<dots>)\<close>\<close>

definition send_all :: "(session \<Rightarrow> bool) \<Rightarrow> ctype \<Rightarrow> bytes \<Rightarrow> srv \<Rightarrow> srv" where
  "send_all P ty payload st =
     fold (\<lambda>i st. if P (objs st i) then send_to i ty payload st else st) (sessions st) st"

definition members :: "u32 \<Rightarrow> srv \<Rightarrow> session list" where
  "members ch st = filter (\<lambda>s. s_authenticated s \<and> s_channel s = ch) (map (objs st) (sessions st))"

definition flag8 :: "bool \<Rightarrow> u8" where "flag8 b = (if b then 1 else 0)"

definition write_channel :: "srv \<Rightarrow> channel_row \<Rightarrow> bytes \<Rightarrow> bytes" where
  "write_channel st c buf =
     write_u32 (of_nat (length (members (word_of_int (ch_id c)) st)))
       (write_u32 (word_of_int (ch_sort_order c)) (write_u32 (word_of_int (ch_max_users c))
         (write_string (ch_name c) (write_u32 (word_of_int (ch_id c)) buf))))"

definition send_channel_list :: "u32 \<Rightarrow> srv \<Rightarrow> srv" where
  "send_channel_list i st =
     (let cs = get_all_channels (db st)
      in send_to i CHANNEL_LIST (fold (write_channel st) cs (write_u32 (of_nat (length cs)) [])) st)"

definition write_text_channel :: "text_channel_row \<Rightarrow> bytes \<Rightarrow> bytes" where
  "write_text_channel c buf =
     write_u32 (word_of_int (tc_sort_order c)) (write_string (tc_name c) (write_u32 (word_of_int (tc_id c)) buf))"

definition send_text_channel_list :: "u32 \<Rightarrow> srv \<Rightarrow> srv" where
  "send_text_channel_list i st =
     (let cs = get_all_text_channels (db st)
      in send_to i CHAT_CHANNEL_LIST (fold write_text_channel cs (write_u32 (of_nat (length cs)) [])) st)"

definition send_list_to_all :: "(u32 \<Rightarrow> srv \<Rightarrow> srv) \<Rightarrow> srv \<Rightarrow> srv" where
  "send_list_to_all f st = fold (\<lambda>i st. if s_authenticated (objs st i) then f i st else st) (sessions st) st"

definition write_member :: "session \<Rightarrow> bytes \<Rightarrow> bytes" where
  "write_member s buf =
     write_u8 (flag8 (s_deafened s)) (write_u8 (flag8 (s_muted s)) (write_u8 (word_of_int (s_role s))
       (write_string (s_username s) (write_u32 (s_user_id s) buf))))"

definition user_list :: "u32 \<Rightarrow> srv \<Rightarrow> bytes" where
  "user_list ch st =
     fold write_member (members ch st) (write_u32 (of_nat (length (members ch st))) (write_u32 ch []))"

definition admin_result :: "u32 \<Rightarrow> bytes \<Rightarrow> srv \<Rightarrow> srv" where
  "admin_result i message st = send_to i ADMIN_RESULT (write_string message (write_u8 1 [])) st"

section \<open>Departure\<close>

definition left_message :: "u32 \<Rightarrow> u32 \<Rightarrow> bytes" where
  "left_message u ch = write_u32 ch (write_u32 u [])"

definition depart :: "u32 \<Rightarrow> u32 \<Rightarrow> u32 \<Rightarrow> bool \<Rightarrow> srv \<Rightarrow> srv" where
  "depart sid u ch known st =
     (let st1 = stop_all_video_streams ch u st;
          st2 = (if known then clear_viewer_subscriptions sid True st1 else st1)
      in send_all (\<lambda>s. s_id s \<noteq> sid \<and> s_authenticated s) USER_LEFT_CHANNEL (left_message u ch) st2)"

definition process_disconnect :: "u32 \<Rightarrow> u32 \<Rightarrow> u32 \<Rightarrow> srv \<Rightarrow> srv" where
  "process_disconnect sid u ch st =
     (let st1 = (if user_sessions st u = Some sid
                 then st\<lparr>user_sessions := (user_sessions st)(u := None)\<rparr> else st);
          st2 = st1\<lparr>control_buckets := (control_buckets st1)(sid := None)\<rparr>;
          known = sid \<in> set (authed_sessions st2);
          st3 = (if known
                 then upd sid (\<lambda>s. s\<lparr>s_sources := (\<lambda>k. (s_sources s k)\<lparr>ingress_allowed := False\<rparr>)\<rparr>)
                        (st2\<lparr>authed_sessions := filter (\<lambda>i. i \<noteq> sid) (authed_sessions st2)\<rparr>)
                 else st2)
      in if ch = 0 then st3
         else case session_for_user u st3 of
                Some c \<Rightarrow>
                  if s_id c \<noteq> sid \<and> s_channel c = ch
                  then (if known then clear_viewer_subscriptions sid False st3 else st3)
                  else depart sid u ch known st3
              | None \<Rightarrow> depart sid u ch known st3)"

section \<open>Authentication\<close>

definition kAuthWindowSec :: int where "kAuthWindowSec = 30"

definition constant_time_equals :: "bytes \<Rightarrow> bytes \<Rightarrow> bool" where
  "constant_time_equals a b =
     (if length a \<noteq> length b then False
      else foldl (\<lambda>diff i. diff OR ((a ! i) XOR (b ! i))) 0 [0..<length a] = 0)"

definition hex_digit :: "u8 \<Rightarrow> u8" where
  "hex_digit n = str ''0123456789abcdef'' ! unat n"

definition sha256_hex :: "libs \<Rightarrow> bytes \<Rightarrow> bytes" where
  "sha256_hex L d =
     (let hash = lib_sha256 L d
      in concat (map (\<lambda>i. (if i > 0 then str '':'' else [])
                         @ [hex_digit (drop_bit 4 (hash ! i) AND 15), hex_digit (hash ! i AND 15)])
                  [0..<length hash]))"

definition public_key_fingerprint :: "libs \<Rightarrow> bytes \<Rightarrow> bytes" where
  "public_key_fingerprint L pk = sha256_hex L pk"

text \<open>\<open>std::to_string\<close> of an unsigned number.\<close>

fun dec :: "nat \<Rightarrow> bytes" where
  "dec n = (if n < 10 then [48 + of_nat n] else dec (n div 10) @ [48 + of_nat (n mod 10)])"

declare dec.simps [simp del]

record auth_request =
  ar_version :: u16
  ar_pubkey :: bytes
  ar_name :: bytes
  ar_timestamp :: u64
  ar_signature :: bytes
  ar_reader :: reader

definition signed_message :: "bytes \<Rightarrow> bytes \<Rightarrow> u64 \<Rightarrow> bytes" where
  "signed_message pubkey name ts = write_u64 ts (write_string name (write_bytes pubkey []))"

text \<open>The parsed fields, or the refusal to send: message and code.\<close>

definition parse_auth :: "bytes \<Rightarrow> (bytes \<times> u16) + auth_request" where
  "parse_auth payload =
     (let (version, r1) = read_u16 (new_reader payload)
      in if rerr r1 then Inl (str ''Malformed auth message'', BadAuth)
         else if protocol_major version \<noteq> PROTOCOL_VERSION_MAJOR
         then Inl (str ''Incompatible protocol version (server major '' @ dec (unat PROTOCOL_VERSION_MAJOR)
                   @ str '', client major '' @ dec (unat (protocol_major version)) @ str '')'', BadVersion)
         else
           let (pubkey, r2) = read_bytes (replicate 32 0) 32 r1;
               (name, r3) = read_string r2;
               (ts, r4) = read_u64 r3;
               (sig, r5) = read_bytes (replicate 64 0) 64 r4
           in if rerr r5 then Inl (str ''Malformed auth message'', BadAuth)
              else Inr \<lparr>ar_version = version, ar_pubkey = pubkey, ar_name = name, ar_timestamp = ts,
                        ar_signature = sig, ar_reader = r5\<rparr>)"

definition prune_recent :: "u64 \<Rightarrow> (bytes \<times> u64) list \<Rightarrow> (bytes \<times> u64) list" where
  "prune_recent now m = filter (\<lambda>(fp, ts). \<not> sint now - sint ts > kAuthWindowSec) m"

text \<open>The checks, in the code's order, on the pruned replay table: \<open>Inr\<close> is acceptance.\<close>

definition check_auth :: "config \<Rightarrow> libs \<Rightarrow> u64 \<Rightarrow> auth_request \<Rightarrow> (bytes \<times> u64) list \<Rightarrow>
    (bytes \<times> u16) + unit" where
  "check_auth cfg L now a recent =
     (let stale = (case map_of recent (public_key_fingerprint L (ar_pubkey a)) of
                     Some seen \<Rightarrow> ar_timestamp a \<le> seen | None \<Rightarrow> False)
      in if stale then Inl (str ''Stale authentication; please retry'', BadAuth)
         else if \<not> lib_verify L (signed_message (ar_pubkey a) (ar_name a) (ar_timestamp a))
                    (ar_signature a) (ar_pubkey a)
         then Inl (str ''Invalid signature'', BadAuth)
         else let client_password = (if \<not> rerr (ar_reader a) \<and> remaining (ar_reader a) > 0
                                     then fst (read_string (ar_reader a)) else [])
              in if server_password cfg \<noteq> [] \<and> \<not> constant_time_equals client_password (server_password cfg)
                 then Inl (str ''Incorrect server password'', BadPassword) else Inr ())"

text \<open>Look up or create the user; \<open>None\<close> stands for the two internal errors, which it reports.\<close>

definition login_user :: "config \<Rightarrow> bytes \<Rightarrow> bytes \<Rightarrow> bytes \<Rightarrow> u64 \<Rightarrow> database \<Rightarrow>
    (bytes + user_row) \<times> database" where
  "login_user cfg pubkey name fp now d =
     (case get_user_by_pubkey pubkey d of
        None \<Rightarrow>
          (let r = (if fp \<in> set (root_fingerprints cfg) then Owner else User);
               (ok, d1) = create_user pubkey name fp r (sint now) d
           in if \<not> ok then (Inl (str ''Failed to create user''), d1)
              else case get_user_by_pubkey pubkey d1 of
                     None \<Rightarrow> (Inl (str ''Internal error''), d1)
                   | Some u \<Rightarrow> (Inr u, d1))
      | Some u \<Rightarrow>
          (let d1 = (if u_display_name u \<noteq> name
                     then update_display_name (word_of_int (u_id u)) name d else d);
               u1 = u\<lparr>u_display_name := name\<rparr>;
               promote = (fp \<in> set (root_fingerprints cfg) \<and> u_role u1 \<noteq> uint Owner);
               d2 = (if promote then set_user_role (word_of_int (u_id u1)) Owner d1 else d1);
               u2 = (if promote then u1\<lparr>u_role := uint Owner\<rparr> else u1)
           in (Inr u2, d2)))"

definition kick_duplicate :: "u32 \<Rightarrow> bytes \<Rightarrow> u32 \<Rightarrow> srv \<Rightarrow> srv" where
  "kick_duplicate sid pubkey i st =
     (let s = objs st i
      in if i \<noteq> sid \<and> s_authenticated s \<and> s_public_key s = pubkey
         then disconnect i (upd i (\<lambda>s. s\<lparr>s_channel := 0, s_authenticated := False\<rparr>)
                (process_disconnect i (s_user_id s) (s_channel s)
                  (send_error i (str ''Signed in from another location'') Replaced st)))
         else st)"

definition auth_success :: "config \<Rightarrow> env \<Rightarrow> u32 \<Rightarrow> auth_request \<Rightarrow> user_row \<Rightarrow> srv \<Rightarrow> srv" where
  "auth_success cfg e sid a u st =
     (let uid = word_of_int (u_id u);
          st1 = upd sid (\<lambda>s. s\<lparr>s_authenticated := True, s_user_id := uid, s_username := u_display_name u,
                            s_role := u_role u, s_public_key := ar_pubkey a, s_version := ar_version a\<rparr>) st;
          st2 = st1\<lparr>user_sessions := (user_sessions st1)(uid \<mapsto> sid),
                    authed_sessions := (if sid \<in> set (authed_sessions st1) then authed_sessions st1
                                        else authed_sessions st1 @ [sid]),
                    db := update_last_login uid (sint (unix_time e)) (db st1)\<rparr>;
          st3 = upd sid (\<lambda>s. s\<lparr>s_token := random_token e\<rparr>) st2;
          st4 = send_to sid AUTH_RESPONSE (write_u16 PROTOCOL_VERSION (write_string (cfg_server_name cfg)
                  (write_u8 (word_of_int (u_role u)) (write_bytes (random_token e) (write_u32 uid []))))) st3;
          st5 = send_text_channel_list sid (send_channel_list sid st4)
      in fold (\<lambda>c st. if members (word_of_int (ch_id c)) st \<noteq> []
                      then send_to sid CHANNEL_USER_LIST (user_list (word_of_int (ch_id c)) st) st else st)
           (get_all_channels (db st5)) st5)"

definition handle_auth :: "config \<Rightarrow> libs \<Rightarrow> env \<Rightarrow> u32 \<Rightarrow> bytes \<Rightarrow> srv \<Rightarrow> srv" where
  "handle_auth cfg L e sid payload st =
     (if s_authenticated (objs st sid) then st
      else case parse_auth payload of
        Inl (m, code) \<Rightarrow> send_error sid m code st
      | Inr a \<Rightarrow>
        let now = unix_time e; diff = sint now - sint (ar_timestamp a)
        in if diff > kAuthWindowSec \<or> diff < - kAuthWindowSec
           then send_error sid (str ''Auth timestamp out of range'') BadAuth st
           else
             let fp = public_key_fingerprint L (ar_pubkey a);
                 st1 = st\<lparr>recent_auth := prune_recent now (recent_auth st)\<rparr>
             in (case check_auth cfg L now a (recent_auth st1) of
                   Inl (m, code) \<Rightarrow> send_error sid m code st1
                 | Inr _ \<Rightarrow>
                     let st2 = st1\<lparr>recent_auth := al_put fp (ar_timestamp a) (recent_auth st1)\<rparr>;
                         (res, d) = login_user cfg (ar_pubkey a) (ar_name a) fp now (db st2);
                         st3 = st2\<lparr>db := d\<rparr>
                     in (case res of
                           Inl m \<Rightarrow> send_error sid m Generic st3
                         | Inr u \<Rightarrow> auth_success cfg e sid a u
                             (fold (kick_duplicate sid (ar_pubkey a)) (sessions st3) st3))))"

end
