(* ===== verification/Server_Channels.thy ===== *)
theory Server_Channels
  imports Server_Auth
begin

text \<open>
  The cases of \<open>Server::handle_message\<close> (\<open>server/src/server.cpp\<close>) on keepalive, voice channels,
  administration and video streams, one definition per case: it takes the sender's session id and the
  payload, and a \<open>break\<close> returns the state reached so far. \<open>send_list_to_all\<close> and \<open>send_all\<close> are the
  broadcast loops over \<open>quic_.get_sessions()\<close>.
\<close>

section \<open>Keepalive and voice state\<close>

definition handle_keepalive :: "u32 \<Rightarrow> bytes \<Rightarrow> srv \<Rightarrow> srv" where
  "handle_keepalive sid payload st =
     (let s = objs st sid
      in if payload = [] \<or> (payload ! 0) AND KEEPALIVE_WANT_LINK_REPORT = 0
         then send_to sid KEEPALIVE_PONG [] st
         else send_to sid KEEPALIVE_PONG
                (write_u32 (s_streams_aborted s) (write_u32 (s_gate_dropped s)
                  (write_u32 (word_of_int (max 0 (s_last_threshold s)))
                    (write_u32 (word_of_int (max 0 (s_outstanding s)))
                      (write_u16 (ucast (s_loss_permille s)) (write_u32 (s_srtt_us s)
                        (write_u8 KEEPALIVE_LINK_REPORT_VERSION []))))))) st)"

definition voice_state :: "u32 \<Rightarrow> u8 \<Rightarrow> u8 \<Rightarrow> bytes" where
  "voice_state u muted deafened = write_u8 deafened (write_u8 muted (write_u32 u []))"

definition handle_voice_state :: "u32 \<Rightarrow> bytes \<Rightarrow> srv \<Rightarrow> srv" where
  "handle_voice_state sid payload st =
     (let s = objs st sid
      in if \<not> s_authenticated s \<or> s_channel s = 0 then st
         else let (muted, r1) = read_u8 (new_reader payload); (deafened, r2) = read_u8 r1
              in if rerr r2 then st
                 else send_all (\<lambda>t. s_id t \<noteq> sid \<and> s_authenticated t) USER_VOICE_STATE
                        (voice_state (s_user_id s) muted deafened)
                        (upd sid (\<lambda>s. s\<lparr>s_muted := (muted \<noteq> 0), s_deafened := (deafened \<noteq> 0)\<rparr>) st))"

section \<open>Joining and leaving a channel\<close>

definition leave_channel :: "u32 \<Rightarrow> srv \<Rightarrow> srv" where
  "leave_channel sid st =
     (let u = s_user_id (objs st sid); ch = s_channel (objs st sid);
          st1 = clear_viewer_subscriptions sid True (stop_all_video_streams ch u st);
          st2 = upd sid (\<lambda>s. s\<lparr>s_channel := 0\<rparr>) st1
      in send_all (\<lambda>s. s_id s \<noteq> sid \<and> s_authenticated s) USER_LEFT_CHANNEL (left_message u ch) st2)"

definition handle_leave :: "u32 \<Rightarrow> srv \<Rightarrow> srv" where
  "handle_leave sid st =
     (let s = objs st sid
      in if \<not> s_authenticated s \<or> s_channel s = 0 then st else leave_channel sid st)"

text \<open>The effective limit of a channel, and the count of its members compared with it.\<close>

definition channel_limit :: "config \<Rightarrow> channel_row \<Rightarrow> int" where
  "channel_limit cfg c = (if ch_max_users c > 0 then ch_max_users c else max_users_per_channel cfg)"

definition channel_full :: "config \<Rightarrow> channel_row \<Rightarrow> u32 \<Rightarrow> srv \<Rightarrow> bool" where
  "channel_full cfg c ch st \<longleftrightarrow>
     channel_limit cfg c > 0 \<and> int (length (members ch st)) \<ge> channel_limit cfg c"

definition replay_streams :: "u32 \<Rightarrow> u32 \<Rightarrow> srv \<Rightarrow> srv" where
  "replay_streams sid ch st =
     fold (\<lambda>stream_id st.
         case session_for_user (video_stream_owner stream_id) st of
           None \<Rightarrow> st
         | Some publisher \<Rightarrow>
             if \<not> s_authenticated publisher then st
             else announce_video_stream sid stream_id publisher True st)
       (channel_streams st ch) st"

definition joined_message :: "session \<Rightarrow> u32 \<Rightarrow> bytes" where
  "joined_message s ch =
     write_u8 (flag8 (s_deafened s)) (write_u8 (flag8 (s_muted s)) (write_u8 (word_of_int (s_role s))
       (write_u32 ch (write_string (s_username s) (write_u32 (s_user_id s) [])))))"

definition notify_joined :: "u32 \<Rightarrow> u32 \<Rightarrow> srv \<Rightarrow> srv" where
  "notify_joined sid ch st =
     (let s = objs st sid
      in fold (\<lambda>i st.
           let t = objs st i
           in if i = sid \<or> \<not> s_authenticated t then st
              else let st1 = send_to i USER_JOINED_CHANNEL (joined_message s ch) st
                   in if (s_muted s \<or> s_deafened s) \<and> \<not> protocol_supports_join_voice_state (s_version t)
                      then send_to i USER_VOICE_STATE
                             (voice_state (s_user_id s) (flag8 (s_muted s)) (flag8 (s_deafened s))) st1
                      else st1)
         (sessions st) st)"

definition enter_channel :: "u32 \<Rightarrow> u32 \<Rightarrow> (bool \<times> bool) option \<Rightarrow> srv \<Rightarrow> srv" where
  "enter_channel sid ch voice st =
     (let st1 = (case voice of
                   Some (m, d) \<Rightarrow> upd sid (\<lambda>s. s\<lparr>s_muted := m, s_deafened := d\<rparr>) st
                 | None \<Rightarrow> st);
          st2 = upd sid (\<lambda>s. s\<lparr>s_channel := ch\<rparr>) st1;
          st3 = send_to sid CHANNEL_USER_LIST (user_list ch st2) st2
      in notify_joined sid ch (replay_streams sid ch st3))"

definition handle_join :: "config \<Rightarrow> u32 \<Rightarrow> bytes \<Rightarrow> srv \<Rightarrow> srv" where
  "handle_join cfg sid payload st =
     (let s = objs st sid
      in if \<not> s_authenticated s then st
         else let (ch, r1) = read_u32 (new_reader payload)
         in if rerr r1 then st
         else
           let has_voice_state = remaining r1 \<ge> 2;
               (m, r2) = read_u8 r1; (d, r3) = read_u8 r2;
               voice = (if has_voice_state then Some (m \<noteq> 0, d \<noteq> 0) else None)
           in (case get_channel ch (db st) of
                 None \<Rightarrow> send_error sid (str ''Channel not found'') Generic st
               | Some c \<Rightarrow>
                   if \<not> has_permission (the_role s) JoinChannel (get_channel_permission ch (the_role s) (db st))
                   then send_error sid (str ''Permission denied'') Generic st
                   else if channel_full cfg c ch st
                   then send_error sid (str ''Channel is full'') Generic st
                   else enter_channel sid ch voice
                          (if s_channel s \<noteq> 0 \<and> s_channel s \<noteq> ch then leave_channel sid st else st)))"

section \<open>Administration\<close>

definition handle_create_channel :: "u32 \<Rightarrow> bytes \<Rightarrow> srv \<Rightarrow> srv" where
  "handle_create_channel sid payload st =
     (let s = objs st sid
      in if \<not> s_authenticated s then st
         else if \<not> has_permission (the_role s) CreateChannel None
         then send_error sid (str ''Permission denied'') Generic st
         else
           let (name, r1) = read_string (new_reader payload); (mx, r2) = read_u32 r1
           in if rerr r2 \<or> name = [] then st
              else
                let (ok, d) = create_channel name (sint mx) 0 (db st); st1 = st\<lparr>db := d\<rparr>
                in if \<not> ok then send_error sid (str ''Failed to create channel'') Generic st1
                   else admin_result sid (str ''Channel created'') (send_list_to_all send_channel_list st1))"

text \<open>The two loops over the members: the first tears down their video, the second moves them out.\<close>

definition evict_video :: "u32 \<Rightarrow> srv \<Rightarrow> srv" where
  "evict_video ch st =
     fold (\<lambda>i st. if s_authenticated (objs st i) \<and> s_channel (objs st i) = ch
                  then clear_viewer_subscriptions i False
                         (stop_all_video_streams ch (s_user_id (objs st i)) st)
                  else st) (sessions st) st"

definition evict_members :: "u32 \<Rightarrow> srv \<Rightarrow> srv" where
  "evict_members ch st =
     fold (\<lambda>i st. if s_authenticated (objs st i) \<and> s_channel (objs st i) = ch
                  then send_to i USER_LEFT_CHANNEL (left_message (s_user_id (objs st i)) ch)
                         (upd i (\<lambda>s. s\<lparr>s_channel := 0\<rparr>) st)
                  else st) (sessions st) st"

definition handle_delete_channel :: "u32 \<Rightarrow> bytes \<Rightarrow> srv \<Rightarrow> srv" where
  "handle_delete_channel sid payload st =
     (let s = objs st sid
      in if \<not> s_authenticated s then st
         else if \<not> has_permission (the_role s) DeleteChannel None
         then send_error sid (str ''Permission denied'') Generic st
         else
           let (ch, r) = read_u32 (new_reader payload)
           in if rerr r then st
              else let st1 = evict_members ch (evict_video ch st);
                       st2 = st1\<lparr>db := delete_channel ch (db st1)\<rparr>
                   in admin_result sid (str ''Channel deleted'') (send_list_to_all send_channel_list st2))"

definition handle_rename_channel :: "u32 \<Rightarrow> bytes \<Rightarrow> srv \<Rightarrow> srv" where
  "handle_rename_channel sid payload st =
     (let s = objs st sid
      in if \<not> s_authenticated s then st
         else if \<not> has_permission (the_role s) CreateChannel None
         then send_error sid (str ''Permission denied'') Generic st
         else
           let (ch, r1) = read_u32 (new_reader payload); (name, r2) = read_string r1
           in if rerr r2 \<or> name = [] then st
              else
                let (ok, d) = rename_channel ch name (db st); st1 = st\<lparr>db := d\<rparr>
                in if \<not> ok then send_error sid (str ''Failed to rename channel'') Generic st1
                   else admin_result sid (str ''Channel renamed'') (send_list_to_all send_channel_list st1))"

definition set_live_role :: "u32 \<Rightarrow> u8 \<Rightarrow> srv \<Rightarrow> srv" where
  "set_live_role target r st =
     fold (\<lambda>i st. if s_user_id (objs st i) = target then upd i (\<lambda>s. s\<lparr>s_role := uint r\<rparr>) st else st)
       (sessions st) st"

definition handle_set_role :: "u32 \<Rightarrow> bytes \<Rightarrow> srv \<Rightarrow> srv" where
  "handle_set_role sid payload st =
     (let s = objs st sid
      in if \<not> s_authenticated s then st
         else if \<not> has_permission (the_role s) ManageRoles None
         then send_error sid (str ''Permission denied'') Generic st
         else
           let (target, r1) = read_u32 (new_reader payload); (new_role, r2) = read_u8 r1
           in if rerr r2 then st
              else if new_role = Owner
              then send_error sid (str ''Owner role can only be set in server config'') Generic st
              else if uint new_role \<le> s_role s \<and> the_role s \<noteq> Owner
              then send_error sid (str ''Cannot assign a role equal or higher than your own'') Generic st
              else (case get_user_by_id target (db st) of
                      None \<Rightarrow> send_error sid (str ''User not found'') Generic st
                    | Some u \<Rightarrow>
                        if \<not> can_moderate (the_role s) (word_of_int (u_role u))
                        then send_error sid (str ''Cannot modify a user with equal or higher role'') Generic st
                        else
                          let st1 = set_live_role target new_role
                                      (st\<lparr>db := set_user_role target new_role (db st)\<rparr>)
                          in admin_result sid (str ''Role updated'')
                               (send_all s_authenticated USER_ROLE_CHANGED
                                 (write_u8 new_role (write_u32 target [])) st1)))"

text \<open>The loop over the sessions of the target; a refusal leaves the loop (\<open>break\<close>).\<close>

fun kick_loop :: "u32 \<Rightarrow> role \<Rightarrow> u32 \<Rightarrow> u32 list \<Rightarrow> srv \<Rightarrow> srv" where
  "kick_loop sid user_role target [] st = st"
| "kick_loop sid user_role target (i # is) st =
     (let t = objs st i
      in if s_user_id t = target \<and> s_authenticated t then
           (if \<not> can_moderate user_role (the_role t)
            then send_error sid (str ''Cannot kick a user with equal or higher role'') PermissionDenied st
            else kick_loop sid user_role target is
                   (disconnect i (send_error i (str ''You have been kicked from the server'') Kicked st)))
         else kick_loop sid user_role target is st)"

definition handle_kick :: "u32 \<Rightarrow> bytes \<Rightarrow> srv \<Rightarrow> srv" where
  "handle_kick sid payload st =
     (let s = objs st sid
      in if \<not> s_authenticated s then st
         else if \<not> has_permission (the_role s) KickFromServer None
         then send_error sid (str ''Permission denied'') PermissionDenied st
         else
           let (target, r) = read_u32 (new_reader payload)
           in if rerr r then st
              else admin_result sid (str ''User kicked'')
                     (kick_loop sid (the_role s) target (sessions st) st))"

section \<open>Video streams\<close>

text \<open>\<open>[codec][width][height][source]\<close>, the source absent from older clients.\<close>

definition read_share :: "bytes \<Rightarrow> (u8 \<times> u16 \<times> u16 \<times> u8) option" where
  "read_share payload =
     (let (codec_id, r1) = read_u8 (new_reader payload); (w, r2) = read_u16 r1; (h, r3) = read_u16 r2;
          (source, r4) = (if has_remaining 1 r3 then read_u8 r3 else (0, r3))
      in if rerr r4 \<or> \<not> video_source_valid source then None else Some (codec_id, w, h, source))"

definition insert_stream :: "u32 \<Rightarrow> u32 \<Rightarrow> srv \<Rightarrow> srv" where
  "insert_stream ch stream_id st =
     st\<lparr>channel_streams := (channel_streams st)(ch := insort_insert stream_id (channel_streams st ch))\<rparr>"

definition set_source :: "u8 \<Rightarrow> (video_source_state \<Rightarrow> video_source_state) \<Rightarrow> session \<Rightarrow> session" where
  "set_source source f s = s\<lparr>s_sources := (s_sources s)(source := f (s_sources s source))\<rparr>"

definition handle_share_start :: "u32 \<Rightarrow> bytes \<Rightarrow> srv \<Rightarrow> srv" where
  "handle_share_start sid payload st =
     (let s = objs st sid
      in if \<not> s_authenticated s \<or> s_channel s = 0 then st
         else (case read_share payload of
                 None \<Rightarrow> st
               | Some (codec_id, w, h, source) \<Rightarrow>
                   if source \<noteq> Screen \<and> \<not> supports_camera s then st
                   else
                     let ch = s_channel s;
                         stream_id = video_stream_id (s_user_id s) source;
                         st1 = upd sid (set_source source (\<lambda>v. v\<lparr>vs_codec := codec_id, vs_width := w,
                                  vs_height := h, ingress_allowed := True\<rparr>)) (insert_stream ch stream_id st)
                     in fold (\<lambda>i st. if s_authenticated (objs st i) \<and> s_channel (objs st i) = ch
                                     then announce_video_stream i stream_id (objs st sid) False st else st)
                          (sessions st1) st1))"

definition handle_share_update :: "u32 \<Rightarrow> bytes \<Rightarrow> srv \<Rightarrow> srv" where
  "handle_share_update sid payload st =
     (let s = objs st sid
      in if \<not> s_authenticated s \<or> s_channel s = 0 then st
         else (case read_share payload of
                 None \<Rightarrow> st
               | Some (codec_id, w, h, source) \<Rightarrow>
                   if video_stream_id (s_user_id s) source \<notin> set (channel_streams st (s_channel s)) then st
                   else upd sid (set_source source
                          (\<lambda>v. v\<lparr>vs_codec := codec_id, vs_width := w, vs_height := h\<rparr>)) st))"

definition handle_share_stop :: "u32 \<Rightarrow> bytes \<Rightarrow> srv \<Rightarrow> srv" where
  "handle_share_stop sid payload st =
     (let s = objs st sid; source = (if payload = [] then 0 else payload ! 0)
      in if \<not> s_authenticated s \<or> s_channel s = 0 then st
         else if \<not> video_source_valid source then st
         else stop_video_stream (s_channel s) (s_user_id s) source st)"

definition unsubscribe :: "u32 \<Rightarrow> u32 \<Rightarrow> srv \<Rightarrow> srv" where
  "unsubscribe sid target st =
     (let s = objs st sid;
          st1 = upd sid (\<lambda>s. s\<lparr>s_subs := filter (\<lambda>x. x \<noteq> target) (s_subs s),
                              s_gates := (s_gates s)(target := None)\<rparr>) st
      in if target \<in> set (s_subs s) then notify_viewer_change target (s_user_id s) False st1 else st1)"

definition subscribe :: "env \<Rightarrow> u32 \<Rightarrow> u32 \<Rightarrow> bool \<Rightarrow> srv \<Rightarrow> srv" where
  "subscribe e sid target is_additive st =
     (let s = objs st sid;
          dropped = (if is_additive then [] else filter (\<lambda>x. x \<noteq> target) (s_subs s));
          kept = filter (\<lambda>x. x \<notin> set dropped) (s_subs s);
          newly = (target \<notin> set kept);
          gates = (\<lambda>k. if k \<in> set dropped then None else s_gates s k);
          st1 = upd sid (\<lambda>s. s\<lparr>s_subs := (if newly then kept @ [target] else kept),
                   s_gates := (if newly then gates(target \<mapsto>
                       (case gates target of Some g \<Rightarrow> g | None \<Rightarrow> new_gate)\<lparr>gate_awaiting := True\<rparr>)
                     else gates)\<rparr>) st;
          st2 = fold (\<lambda>old. notify_viewer_change old (s_user_id s) False) dropped st1
      in if newly
         then notify_viewer_change target (s_user_id s) True
                (request_keyframe_from_sharer e target (s_user_id s) st2)
         else st2)"

definition handle_share_view :: "env \<Rightarrow> u32 \<Rightarrow> bytes \<Rightarrow> srv \<Rightarrow> srv" where
  "handle_share_view e sid payload st =
     (let s = objs st sid
      in if \<not> s_authenticated s \<or> s_channel s = 0 then st
         else
           let (target, r) = read_u32 (new_reader payload)
           in if rerr r then st
              else
                let is_additive = length payload \<ge> 5;
                    wants = (if is_additive then fst (read_u8 r) \<noteq> 0 else target \<noteq> 0)
                in if \<not> wants then
                     (if target = 0 then clear_viewer_subscriptions sid True st else unsubscribe sid target st)
                   else if target = 0 then st
                   else if target \<notin> set (channel_streams st (s_channel s)) then st
                   else subscribe e sid target is_additive st)"

end
