(* ===== verification/Server_Chat.thy ===== *)
theory Server_Chat
  imports Server_Channels
begin

text \<open>
  The text-channel and chat cases of \<open>Server::handle_message\<close> (\<open>server/src/server.cpp\<close>), and the switch
  itself. Paths of attachments are relative to the storage root, as in the database.
\<close>

section \<open>Text channels\<close>

definition handle_create_text_channel :: "u32 \<Rightarrow> bytes \<Rightarrow> srv \<Rightarrow> srv" where
  "handle_create_text_channel sid payload st =
     (let s = objs st sid
      in if \<not> s_authenticated s then st
         else if \<not> has_permission (the_role s) CreateChannel None
         then send_error sid (str ''Permission denied'') Generic st
         else
           let (name, r) = read_string (new_reader payload)
           in if rerr r \<or> name = [] then st
              else
                let (ok, d) = create_text_channel name 0 (db st); st1 = st\<lparr>db := d\<rparr>
                in if \<not> ok then send_error sid (str ''Failed to create text channel'') Generic st1
                   else admin_result sid (str ''Text channel created'')
                          (send_list_to_all send_text_channel_list st1))"

definition handle_delete_text_channel :: "u32 \<Rightarrow> bytes \<Rightarrow> srv \<Rightarrow> srv" where
  "handle_delete_text_channel sid payload st =
     (let s = objs st sid
      in if \<not> s_authenticated s then st
         else if \<not> has_permission (the_role s) DeleteChannel None
         then send_error sid (str ''Permission denied'') Generic st
         else
           let (ch, r) = read_u32 (new_reader payload)
           in if rerr r then st
              else admin_result sid (str ''Text channel deleted'')
                     (send_list_to_all send_text_channel_list (st\<lparr>db := delete_text_channel ch (db st)\<rparr>)))"

section \<open>Attachment paths\<close>

text \<open>\<open>gmtime\<close> and \<open>strftime("%Y-%m")\<close>: year and month of a day count since 1970-01-01, in the
  proleptic Gregorian calendar with the year starting in March.\<close>

definition civil_year_month :: "nat \<Rightarrow> nat \<times> nat" where
  "civil_year_month days =
     (let z = days + 719468;
          era = z div 146097;
          doe = z mod 146097;
          yoe = (doe - doe div 1460 + doe div 36524 - doe div 146096) div 365;
          doy = doe - (365 * yoe + yoe div 4 - yoe div 100);
          mp = (5 * doy + 2) div 153;
          m = (if mp < 10 then mp + 3 else mp - 9)
      in (yoe + era * 400 + (if m \<le> 2 then 1 else 0), m))"

definition dec2 :: "nat \<Rightarrow> bytes" where
  "dec2 n = (if n < 10 then 48 # dec n else dec n)"

definition month_dir :: "nat \<Rightarrow> bytes" where
  "month_dir t = (let (y, m) = civil_year_month (t div 86400) in dec y @ str ''-'' @ dec2 m)"

definition is_alnum :: "u8 \<Rightarrow> bool" where
  "is_alnum c \<longleftrightarrow> 48 \<le> c \<and> c \<le> 57 \<or> 65 \<le> c \<and> c \<le> 90 \<or> 97 \<le> c \<and> c \<le> 122"

definition to_lower :: "u8 \<Rightarrow> u8" where
  "to_lower c = (if 65 \<le> c \<and> c \<le> 90 then c + 32 else c)"

abbreviation DOT :: u8 where "DOT \<equiv> 46"
abbreviation SLASH :: u8 where "SLASH \<equiv> 47"
abbreviation BACKSLASH :: u8 where "BACKSLASH \<equiv> 92"

text \<open>The suffix from the last dot on, \<open>None\<close> without a dot.\<close>

definition last_dot_suffix :: "bytes \<Rightarrow> bytes option" where
  "last_dot_suffix s =
     (if DOT \<in> set s then Some (DOT # rev (takeWhile (\<lambda>c. c \<noteq> DOT) (rev s))) else None)"

fun ext_loop :: "bytes \<Rightarrow> bytes \<Rightarrow> bytes" where
  "ext_loop ext [] = ext"
| "ext_loop ext (c # cs) =
     (let ext1 = (if is_alnum c \<or> c = DOT then ext @ [to_lower c] else ext)
      in if length ext1 \<ge> 8 then ext1 else ext_loop ext1 cs)"

definition sanitized_ext :: "bytes \<Rightarrow> bytes" where
  "sanitized_ext fname =
     (case last_dot_suffix fname of
        Some suffix \<Rightarrow> if length suffix > 1 then ext_loop [] suffix else []
      | None \<Rightarrow> [])"

definition attachment_path :: "nat \<Rightarrow> u64 \<Rightarrow> nat \<Rightarrow> bytes \<Rightarrow> bytes" where
  "attachment_path t msg_id i fname =
     month_dir t @ str ''/'' @ dec (unat msg_id) @ str ''_'' @ dec i @ sanitized_ext fname"

section \<open>Sending\<close>

record pending_attachment =
  pa_name :: bytes
  pa_size :: u64
  pa_mime :: bytes
  pa_db_id :: u64

text \<open>The loop over the attachments: \<open>i\<close> counts up while \<open>k\<close> remain; a reader error leaves the loop. Where the code
  asks for the time again for an attachment, the model takes the second of the message.\<close>

fun read_attachments :: "nat \<Rightarrow> u64 \<Rightarrow> nat \<Rightarrow> nat \<Rightarrow> reader \<Rightarrow> database \<Rightarrow>
    pending_attachment list \<times> database" where
  "read_attachments t msg_id i 0 r d = ([], d)"
| "read_attachments t msg_id i (Suc k) r d =
     (let (fname, r1) = read_string r; (fsize, r2) = read_u64 r1; (mime, r3) = read_string r2
      in if rerr r3 then ([], d)
         else
           let (att_id, d1) = insert_attachment msg_id fname (sint fsize) mime
                                (attachment_path t msg_id i fname) (int t) d;
               (rest, d2) = read_attachments t msg_id (i + 1) k r3 d1
           in (\<lparr>pa_name = fname, pa_size = fsize, pa_mime = mime, pa_db_id = att_id\<rparr> # rest, d2))"

definition write_attachment :: "pending_attachment \<Rightarrow> bytes \<Rightarrow> bytes" where
  "write_attachment a buf =
     write_u8 0 (write_string (pa_mime a) (write_u64 (pa_size a) (write_string (pa_name a)
       (write_u64 (pa_db_id a) buf))))"

definition write_message :: "u64 \<Rightarrow> u32 \<Rightarrow> u32 \<Rightarrow> bytes \<Rightarrow> u64 \<Rightarrow> bytes \<Rightarrow> u8 \<Rightarrow> u8 \<Rightarrow> bytes \<Rightarrow> bytes" where
  "write_message mid ch sender name t txt pinned cnt buf =
     write_u8 cnt (write_u8 pinned (write_string txt (write_u64 t (write_string name
       (write_u32 sender (write_u32 ch (write_u64 mid buf)))))))"

definition handle_chat_send :: "config \<Rightarrow> env \<Rightarrow> u32 \<Rightarrow> bytes \<Rightarrow> srv \<Rightarrow> srv" where
  "handle_chat_send cfg e sid payload st =
     (let s = objs st sid
      in if \<not> s_authenticated s then st
         else
           let (ch, r1) = read_u32 (new_reader payload); (txt, r2) = read_string r1; (cnt, r3) = read_u8 r2
           in if rerr r3 then st
              else if get_text_channel ch (db st) = None
              then send_error sid (str ''Text channel not found'') Generic st
              else if int (length txt) > max_message_length (chat cfg)
              then send_error sid (str ''Message too long'') Generic st
              else
                let now = unix_time e;
                    (msg_id, d1) = insert_message ch (s_user_id s) (s_username s) txt now (db st)
                in if msg_id = 0 then send_error sid (str ''Failed to store message'') Generic (st\<lparr>db := d1\<rparr>)
                   else
                     let (atts, d2) = read_attachments (unat now) msg_id 0 (unat cnt) r3 d1;
                         msg = fold write_attachment atts
                                 (write_message msg_id ch (s_user_id s) (s_username s) now txt 0
                                   (of_nat (length atts)) [])
                     in send_all s_authenticated CHAT_MESSAGE msg (st\<lparr>db := d2\<rparr>))"

section \<open>History, pins, deletion, search\<close>

definition write_row :: "message_row \<Rightarrow> u8 \<Rightarrow> u8 \<Rightarrow> bytes \<Rightarrow> bytes" where
  "write_row m pinned cnt buf =
     write_message (word_of_int (m_id m)) (word_of_int (m_channel_id m)) (word_of_int (m_sender_id m))
       (m_sender_name m) (word_of_int (m_created_at m)) (m_text m) pinned cnt buf"

definition write_attachment_row :: "attachment_row \<Rightarrow> bytes \<Rightarrow> bytes" where
  "write_attachment_row a buf =
     write_u8 (flag8 (a_uploaded a)) (write_string (a_mime_type a) (write_u64 (word_of_int (a_file_size a))
       (write_string (a_file_name a) (write_u64 (word_of_int (a_id a)) buf))))"

definition write_history_row :: "database \<Rightarrow> message_row \<Rightarrow> bytes \<Rightarrow> bytes" where
  "write_history_row d m buf =
     (let atts = get_attachments_for_message (word_of_int (m_id m)) d
      in fold write_attachment_row atts (write_row m (flag8 (m_pinned m)) (of_nat (length atts)) buf))"

definition history_has_more :: "u32 \<Rightarrow> message_row list \<Rightarrow> database \<Rightarrow> u8" where
  "history_has_more ch ms d =
     (case ms of [] \<Rightarrow> 0 | m # _ \<Rightarrow> if get_messages ch (word_of_int (m_id m)) 1 d = [] then 0 else 1)"

definition handle_history :: "u32 \<Rightarrow> bytes \<Rightarrow> srv \<Rightarrow> srv" where
  "handle_history sid payload st =
     (if \<not> s_authenticated (objs st sid) then st
      else
        let (ch, r1) = read_u32 (new_reader payload); (before, r2) = read_u64 r1; (lim, r3) = read_u16 r2
        in if rerr r3 then st
           else
             let ms = get_messages ch before (min 100 (unat lim)) (db st)
             in send_to sid CHAT_HISTORY_RESP
                  (fold (write_history_row (db st)) ms (write_u16 (of_nat (length ms))
                    (write_u8 (history_has_more ch ms (db st)) (write_u32 ch [])))) st)"

definition handle_pin :: "u32 \<Rightarrow> bytes \<Rightarrow> srv \<Rightarrow> srv" where
  "handle_pin sid payload st =
     (if \<not> s_authenticated (objs st sid) then st
      else let (mid, r) = read_u64 (new_reader payload)
           in if rerr r then st
              else (case get_message mid (db st) of
                      None \<Rightarrow> st
                    | Some m \<Rightarrow> send_all s_authenticated CHAT_MESSAGE (write_row m 1 0 [])
                                  (st\<lparr>db := pin_message mid (db st)\<rparr>)))"

definition handle_unpin :: "u32 \<Rightarrow> bytes \<Rightarrow> srv \<Rightarrow> srv" where
  "handle_unpin sid payload st =
     (if \<not> s_authenticated (objs st sid) then st
      else let (mid, r) = read_u64 (new_reader payload)
           in if rerr r then st
              else (case get_message mid (db st) of
                      None \<Rightarrow> st
                    | Some m \<Rightarrow> send_all s_authenticated CHAT_MESSAGE (write_row m 0 0 [])
                                  (st\<lparr>db := unpin_message mid (db st)\<rparr>)))"

definition handle_chat_delete :: "u32 \<Rightarrow> bytes \<Rightarrow> srv \<Rightarrow> srv" where
  "handle_chat_delete sid payload st =
     (let s = objs st sid
      in if \<not> s_authenticated s then st
         else let (mid, r) = read_u64 (new_reader payload)
              in if rerr r then st
                 else (case get_message mid (db st) of
                         None \<Rightarrow> st
                       | Some m \<Rightarrow>
                           if word_of_int (m_sender_id m) \<noteq> s_user_id s
                              \<and> \<not> has_permission (the_role s) KickFromChannel None
                           then send_error sid (str ''Permission denied'') Generic st
                           else send_all s_authenticated CHAT_MESSAGE_DELETED
                                  (write_u32 (word_of_int (m_channel_id m)) (write_u64 mid []))
                                  (st\<lparr>db := soft_delete_message mid (db st)\<rparr>)))"

definition write_flagged_row :: "message_row \<Rightarrow> bytes \<Rightarrow> bytes" where
  "write_flagged_row m buf = write_row m (flag8 (m_pinned m)) 0 buf"

definition handle_pinned :: "u32 \<Rightarrow> bytes \<Rightarrow> srv \<Rightarrow> srv" where
  "handle_pinned sid payload st =
     (if \<not> s_authenticated (objs st sid) then st
      else let (ch, r) = read_u32 (new_reader payload)
           in if rerr r then st
              else let ms = get_pinned_messages ch (db st)
                   in send_to sid CHAT_PINNED_RESP
                        (fold write_flagged_row ms (write_u16 (of_nat (length ms)) (write_u32 ch []))) st)"

definition handle_search :: "libs \<Rightarrow> u32 \<Rightarrow> bytes \<Rightarrow> srv \<Rightarrow> srv" where
  "handle_search L sid payload st =
     (if \<not> s_authenticated (objs st sid) then st
      else
        let (ch, r1) = read_u32 (new_reader payload); (query, r2) = read_string r1;
            (before, r3) = read_u64 r2; (lim, r4) = read_u16 r3
        in if rerr r4 \<or> query = [] then st
           else
             let ms = search_messages (lib_fts_match L) ch query before (min 50 (unat lim)) (db st)
             in send_to sid CHAT_SEARCH_RESP
                  (fold write_flagged_row ms (write_u16 (of_nat (length ms)) (write_u32 ch []))) st)"

section \<open>The switch\<close>

definition handle_message :: "config \<Rightarrow> libs \<Rightarrow> env \<Rightarrow> u32 \<Rightarrow> ctype \<Rightarrow> bytes \<Rightarrow> srv \<Rightarrow> srv" where
  "handle_message cfg L e sid ty payload st =
     (if get_session sid st = None then st
      else case ty of
        AUTH_IDENTITY \<Rightarrow> handle_auth cfg L e sid payload st
      | KEEPALIVE_PING \<Rightarrow> handle_keepalive sid payload st
      | CHANNEL_JOIN \<Rightarrow> handle_join cfg sid payload st
      | VOICE_STATE_UPDATE \<Rightarrow> handle_voice_state sid payload st
      | CHANNEL_LEAVE \<Rightarrow> handle_leave sid st
      | ADMIN_CREATE_CHANNEL \<Rightarrow> handle_create_channel sid payload st
      | ADMIN_DELETE_CHANNEL \<Rightarrow> handle_delete_channel sid payload st
      | ADMIN_RENAME_CHANNEL \<Rightarrow> handle_rename_channel sid payload st
      | ADMIN_SET_ROLE \<Rightarrow> handle_set_role sid payload st
      | ADMIN_KICK_USER \<Rightarrow> handle_kick sid payload st
      | SCREEN_SHARE_START \<Rightarrow> handle_share_start sid payload st
      | SCREEN_SHARE_UPDATE \<Rightarrow> handle_share_update sid payload st
      | SCREEN_SHARE_STOP \<Rightarrow> handle_share_stop sid payload st
      | SCREEN_SHARE_VIEW \<Rightarrow> handle_share_view e sid payload st
      | ADMIN_CREATE_TEXT_CHANNEL \<Rightarrow> handle_create_text_channel sid payload st
      | ADMIN_DELETE_TEXT_CHANNEL \<Rightarrow> handle_delete_text_channel sid payload st
      | CHAT_SEND \<Rightarrow> handle_chat_send cfg e sid payload st
      | CHAT_HISTORY_REQ \<Rightarrow> handle_history sid payload st
      | CHAT_PIN \<Rightarrow> handle_pin sid payload st
      | CHAT_UNPIN \<Rightarrow> handle_unpin sid payload st
      | CHAT_DELETE \<Rightarrow> handle_chat_delete sid payload st
      | CHAT_PINNED_REQ \<Rightarrow> handle_pinned sid payload st
      | CHAT_SEARCH \<Rightarrow> handle_search L sid payload st
      | _ \<Rightarrow> st)"

end
