(* ===== verification/Quic_Sessions.thy ===== *)
theory Quic_Sessions
  imports Server_State
begin

text \<open>
  The life of a session in \<open>server/src/quic_server.cpp\<close>: \<open>on_new_connection\<close>, the branches of
  \<open>on_connection_event\<close> that change sessions, and the completion callbacks that settle a session's
  accounting. These run on MsQuic's workers under \<open>sessions_mutex_\<close> / \<open>quic_mutex\<close>, so each is one step
  between steps of the main loop.
\<close>

text \<open>\<open>ok\<close> is the status of \<open>ConnectionSetConfiguration\<close>; the id is taken before it is known.\<close>

definition on_new_connection :: "bool \<Rightarrow> srv \<Rightarrow> srv" where
  "on_new_connection ok st =
     (let i = next_session_id st; st1 = st\<lparr>next_session_id := i + 1\<rparr>
      in if \<not> ok then st1
         else st1\<lparr>objs := (objs st1)(i := new_session i), sessions := sessions st1 @ [i]\<rparr>)"

datatype stream_role = ControlStream | VideoStream | FileStream | NoSession

text \<open>A peer-opened bidirectional stream is the control stream, then the video stream, then a file.\<close>

definition on_bidi_stream :: "u32 \<Rightarrow> nat \<Rightarrow> srv \<Rightarrow> stream_role \<times> srv" where
  "on_bidi_stream i stream st =
     (case get_session i st of
        None \<Rightarrow> (NoSession, st)
      | Some s \<Rightarrow>
          if s_control_stream s = None
          then (ControlStream, upd i (\<lambda>s. s\<lparr>s_control_stream := Some stream\<rparr>) st)
          else if s_video_stream s = None
          then (VideoStream, upd i (\<lambda>s. s\<lparr>s_video_stream := Some stream\<rparr>) st)
          else (FileStream, st))"

definition on_uni_stream_allowed :: "u32 \<Rightarrow> srv \<Rightarrow> bool" where
  "on_uni_stream_allowed i st =
     (case get_session i st of
        None \<Rightarrow> False
      | Some s \<Rightarrow> any_video_ingress_allowed s \<and> s_authenticated s)"

definition on_stream_closed :: "u32 \<Rightarrow> nat \<Rightarrow> srv \<Rightarrow> srv" where
  "on_stream_closed i stream st =
     (case get_session i st of
        None \<Rightarrow> st
      | Some s \<Rightarrow>
          if s_control_stream s = Some stream then upd i (\<lambda>s. s\<lparr>s_control_stream := None\<rparr>) st
          else if s_video_stream s = Some stream then upd i (\<lambda>s. s\<lparr>s_video_stream := None\<rparr>) st
          else st)"

definition on_connection_closed :: "u32 \<Rightarrow> srv \<Rightarrow> srv" where
  "on_connection_closed i st =
     (case get_session i st of
        None \<Rightarrow> st
      | Some s \<Rightarrow>
          let st1 = upd i (\<lambda>s. s\<lparr>s_alive := False, s_connection := False, s_control_stream := None,
                                s_video_stream := None\<rparr>) st;
              st2 = (if s_authenticated s
                     then st1\<lparr>disconnects := disconnects st1 @
                            [\<lparr>de_session = i, de_user = s_user_id s, de_channel = s_channel s\<rparr>]\<rparr>
                     else st1)
          in st2\<lparr>sessions := filter (\<lambda>j. j \<noteq> i) (sessions st2)\<rparr>)"

section \<open>Completions\<close>

text \<open>\<open>VideoOutStreamContext::uncharge\<close> and \<open>send_ctx_uncharge\<close>: the context's charge is taken to zero and
  given back to the session; the session outlives its entry in the map.\<close>

definition uncharge :: "u32 \<Rightarrow> int \<Rightarrow> srv \<Rightarrow> int \<times> srv" where
  "uncharge i charged st =
     (0, if charged = 0 then st else upd i (\<lambda>s. s\<lparr>s_outstanding := s_outstanding s - charged\<rparr>) st)"

definition unregister :: "u32 \<Rightarrow> nat \<Rightarrow> srv \<Rightarrow> srv" where
  "unregister i stream st =
     upd i (\<lambda>s. s\<lparr>s_out_streams := filter (\<lambda>v. vo_stream v \<noteq> stream) (s_out_streams s)\<rparr>) st"

text \<open>\<open>DATAGRAM_SEND_STATE_CHANGED\<close>: the first \<open>SENT\<close> or final state takes the datagram off the backlog.\<close>

definition on_datagram_state :: "int \<Rightarrow> u32 \<Rightarrow> int \<Rightarrow> bool \<Rightarrow> bool \<Rightarrow> bool \<Rightarrow> srv \<Rightarrow> bool \<times> srv" where
  "on_datagram_state now i queued_us left_queue sent final_state st =
     (if \<not> left_queue \<and> (sent \<or> final_state)
      then (True, upd i (\<lambda>s. s\<lparr>s_backlog := on_dequeued now (if sent then now - queued_us else -1)
                                              (s_backlog s)\<rparr>) st)
      else (left_queue, st))"

end
