(* ===== verification/Server_Loop.thy ===== *)
theory Server_Loop
  imports Server_Chat Quic_Sessions
begin

text \<open>
  The main loop of \<open>server/src/server.cpp\<close>: \<open>process_control_messages\<close>, \<open>process_data_packets\<close>,
  \<open>process_file_transfers\<close>, \<open>process_disconnects\<close> and one iteration of \<open>run\<close>. What the queues of
  \<open>QuicServer\<close> hand over when they are drained is the argument of each pass.
\<close>

record incoming_message =
  im_session :: u32
  im_type :: ctype
  im_payload :: bytes

record data_packet =
  dp_session :: u32
  dp_type :: u8
  dp_data :: bytes

record file_upload =
  fu_session :: u32
  fu_attachment :: u64
  fu_data :: bytes

record file_download =
  fd_session :: u32
  fd_attachment :: u64
  fd_stream :: nat

definition process_control_messages :: "config \<Rightarrow> libs \<Rightarrow> env \<Rightarrow> incoming_message list \<Rightarrow> srv \<Rightarrow> srv" where
  "process_control_messages cfg L e ms st =
     fold (\<lambda>m. handle_message cfg L e (im_session m) (im_type m) (im_payload m)) ms st"

section \<open>Data packets\<close>

definition hears :: "u32 \<Rightarrow> u32 \<Rightarrow> session \<Rightarrow> bool" where
  "hears sender ch s \<longleftrightarrow> s_id s \<noteq> sender \<and> s_authenticated s \<and> s_channel s = ch \<and> \<not> s_deafened s"

definition forward_voice :: "env \<Rightarrow> data_packet \<Rightarrow> srv \<Rightarrow> srv" where
  "forward_voice e pkt st =
     (case get_session (dp_session pkt) st of
        None \<Rightarrow> st
      | Some s \<Rightarrow>
          if \<not> s_authenticated s \<or> s_channel s = 0 then st
          else if dp_type pkt = VOICE_PACKET_TYPE \<and> (s_muted s \<or> s_deafened s) then st
          else send_to_many e
                 (filter (\<lambda>i. hears (dp_session pkt) (s_channel s) (objs st i)) (sessions st))
                 (dp_type pkt # le32 (s_user_id s) @ dp_data pkt) True st)"

definition process_data_packet :: "env \<Rightarrow> data_packet \<Rightarrow> srv \<Rightarrow> srv" where
  "process_data_packet e pkt st =
     (if dp_type pkt = VOICE_PACKET_TYPE \<or> dp_type pkt = VOICE2_PACKET_TYPE then forward_voice e pkt st
      else if dp_type pkt = VIDEO_FRAME_PACKET_TYPE
      then enqueue_video_frame (dp_session pkt) Screen (dp_data pkt) st
      else if dp_type pkt = STREAM_AUDIO_PACKET_TYPE
      then forward_stream_audio e (dp_session pkt) (dp_data pkt) st
      else if dp_type pkt = VIDEO_CONTROL_TYPE
      then handle_video_control e (dp_session pkt) (dp_data pkt) st
      else st)"

definition process_data_packets :: "env \<Rightarrow> data_packet list \<Rightarrow> srv \<Rightarrow> srv" where
  "process_data_packets e ps st = fold (process_data_packet e) ps st"

section \<open>File transfers\<close>

definition process_upload :: "config \<Rightarrow> env \<Rightarrow> file_upload \<Rightarrow> srv \<Rightarrow> srv" where
  "process_upload cfg e ev st =
     (case get_session (fu_session ev) st of
        None \<Rightarrow> st
      | Some s \<Rightarrow>
        if \<not> s_authenticated s then st
        else (case get_attachment (fu_attachment ev) (db st) of
                None \<Rightarrow> st
              | Some att \<Rightarrow>
                if a_uploaded att then st
                else (case get_message (word_of_int (a_message_id att)) (db st) of
                        None \<Rightarrow> st
                      | Some m \<Rightarrow>
                        if word_of_int (m_sender_id m) \<noteq> s_user_id s then st
                        else if int (length (fu_data ev)) > max_file_size (chat cfg) then st
                        else if \<not> file_open_ok e (a_disk_path att) then st
                        else
                          let st1 = emit (WriteFile (a_disk_path att) (fu_data ev))
                                      (st\<lparr>files := (files st)(a_disk_path att \<mapsto> fu_data ev)\<rparr>);
                              st2 = st1\<lparr>db := mark_attachment_uploaded (fu_attachment ev) (db st1)\<rparr>
                          in send_all s_authenticated CHAT_FILE_READY
                               (write_u64 (fu_attachment ev) (write_u64 (word_of_int (a_message_id att)) []))
                               st2)))"

definition process_download :: "file_download \<Rightarrow> srv \<Rightarrow> srv" where
  "process_download req st =
     (case get_session (fd_session req) st of
        None \<Rightarrow> st
      | Some s \<Rightarrow>
        if \<not> s_authenticated s then st
        else (case get_attachment (fd_attachment req) (db st) of
                None \<Rightarrow> st
              | Some att \<Rightarrow>
                if \<not> a_uploaded att then st
                else (case files st (a_disk_path att) of
                        None \<Rightarrow> st
                      | Some d \<Rightarrow> emit (SendFile (fd_stream req) d) st)))"

definition process_file_transfers :: "config \<Rightarrow> env \<Rightarrow> file_upload list \<Rightarrow> file_download list \<Rightarrow> srv \<Rightarrow> srv" where
  "process_file_transfers cfg e ups downs st = fold process_download downs (fold (process_upload cfg e) ups st)"

section \<open>Disconnects, retention, the iteration\<close>

definition process_disconnects :: "srv \<Rightarrow> srv" where
  "process_disconnects st =
     fold (\<lambda>d. process_disconnect (de_session d) (de_user d) (de_channel d)) (disconnects st)
       (st\<lparr>disconnects := []\<rparr>)"

definition remove_files :: "bytes list \<Rightarrow> srv \<Rightarrow> srv" where
  "remove_files ps st =
     fold (\<lambda>p st. emit (RemoveFile p) (st\<lparr>files := (files st)(p := None)\<rparr>)) ps st"

definition enforce_retention :: "config \<Rightarrow> env \<Rightarrow> srv \<Rightarrow> srv" where
  "enforce_retention cfg e st =
     (let now = sint (unix_time e); c = chat cfg;
          st1 = (if message_retention_days c > 0
                 then st\<lparr>db := snd (purge_old_messages (message_retention_days c) now (db st))\<rparr> else st)
      in if file_retention c = str ''time'' \<and> file_retention_days c > 0
         then (let (ps, d) = purge_old_files (file_retention_days c) now (db st1)
               in remove_files ps (st1\<lparr>db := d\<rparr>))
         else if file_retention c = str ''ring'' \<and> max_total_file_storage c > 0
         then (let (ps, d) = purge_oldest_files (max_total_file_storage c) (db st1)
               in remove_files ps (st1\<lparr>db := d\<rparr>))
         else st1)"

record drained =
  dr_messages :: "incoming_message list"
  dr_packets :: "data_packet list"
  dr_uploads :: "file_upload list"
  dr_downloads :: "file_download list"

text \<open>One iteration of \<open>run\<close>; the first component is \<open>last_retention_check\<close>.\<close>

definition run_iteration :: "config \<Rightarrow> libs \<Rightarrow> env \<Rightarrow> drained \<Rightarrow> int \<times> srv \<Rightarrow> int \<times> srv" where
  "run_iteration cfg L e q = (\<lambda>(last_check, st).
     let st1 = process_control_messages cfg L e (dr_messages q) st;
         st2 = process_data_packets e (dr_packets q) st1;
         st3 = process_video_frames e st2;
         st4 = process_file_transfers cfg e (dr_uploads q) (dr_downloads q) st3;
         st5 = process_disconnects st4
     in if now_us e - last_check > 60000000 then (now_us e, enforce_retention cfg e st5)
        else (last_check, st5))"

end
