(* ===== verification/Server_Frame.thy ===== *)
theory Server_Frame
  imports Server_Loop
begin

text \<open>
  What the media path leaves alone. \<open>core\<close> erases from a server state everything that only serves the
  transport and the video path (effects, backlogs, gates, estimators, reorder buffers, handles); two
  states with the same core have the same users, sessions, channels, subscriptions, rows and files.
  An operation is \<open>quiet\<close> when it keeps the core; emitters are, and so is all of the media path.
\<close>

definition strip :: "session \<Rightarrow> session" where
  "strip s = s\<lparr>s_connection := False, s_control_stream := None, s_video_stream := None,
     s_outstanding := 0, s_gates := Map.empty, s_min_rtt_us := 0, s_srtt_us := 0, s_loss_permille := 0,
     s_last_threshold := 0, s_gate_dropped := 0, s_streams_aborted := 0, s_rtt_sample_us := 0, s_loss_sent := 0, s_loss_lost := 0,
     s_out_streams := [],
     s_backlog := s_backlog (new_session 0), s_sources := s_sources (new_session 0),
     s_pending_bytes := 0, s_alive := False\<rparr>"

definition core :: "srv \<Rightarrow> srv" where
  "core st = st\<lparr>objs := \<lambda>i. strip (objs st i), sharer_states := [], control_buckets := Map.empty,
     video_ingress := [], video_incoming := [], media_drops := 0, next_stream := 0, out := []\<rparr>"

lemma strip_fields [simp]: "s_id (strip s) = s_id s" "s_authenticated (strip s) = s_authenticated s"
  "s_user_id (strip s) = s_user_id s" "s_username (strip s) = s_username s" "s_role (strip s) = s_role s"
  "s_token (strip s) = s_token s" "s_public_key (strip s) = s_public_key s"
  "s_version (strip s) = s_version s" "s_channel (strip s) = s_channel s" "s_muted (strip s) = s_muted s"
  "s_deafened (strip s) = s_deafened s" "s_subs (strip s) = s_subs s"
  by (simp_all add: strip_def)

lemma core_fields [simp]: "objs (core st) i = strip (objs st i)" "sessions (core st) = sessions st"
  "next_session_id (core st) = next_session_id st" "disconnects (core st) = disconnects st"
  "db (core st) = db st" "channel_streams (core st) = channel_streams st"
  "user_sessions (core st) = user_sessions st" "authed_sessions (core st) = authed_sessions st"
  "recent_auth (core st) = recent_auth st" "files (core st) = files st"
  by (simp_all add: core_def)

lemma core_eqD:
  assumes "core st' = core st"
  shows "sessions st' = sessions st" "next_session_id st' = next_session_id st"
    "disconnects st' = disconnects st" "db st' = db st" "channel_streams st' = channel_streams st"
    "user_sessions st' = user_sessions st" "authed_sessions st' = authed_sessions st"
    "recent_auth st' = recent_auth st" "files st' = files st"
    "strip (objs st' i) = strip (objs st i)"
  using assms by (metis core_fields)+

lemma strip_eqD:
  assumes "strip s' = strip s"
  shows "s_id s' = s_id s" "s_authenticated s' = s_authenticated s" "s_user_id s' = s_user_id s"
    "s_username s' = s_username s" "s_role s' = s_role s" "s_token s' = s_token s"
    "s_public_key s' = s_public_key s" "s_version s' = s_version s" "s_channel s' = s_channel s"
    "s_muted s' = s_muted s" "s_deafened s' = s_deafened s" "s_subs s' = s_subs s"
  using assms by (metis strip_fields)+

locale quiet =
  fixes f :: "srv \<Rightarrow> srv"
  assumes same_core: "core (f st) = core st"
begin

lemmas keeps = core_eqD [OF same_core]

lemmas keeps_session = strip_eqD [OF core_eqD(10) [OF same_core]]

lemma iterate: "core ((f ^^ n) st) = core st"
  by (induction n) (simp_all add: same_core)

end

text \<open>Whoever only talks is quiet.\<close>

lemma emitter_quiet: "emitter f \<Longrightarrow> quiet f"
proof
  show "core (f st) = core st" if "emitter f" for st
    using emitter.only_out [OF that, of st] by (auto simp: core_def)
qed

sublocale emitter \<subseteq> quiet f
  by (rule emitter_quiet) unfold_locales

section \<open>The media path is quiet\<close>

named_theorems core_simps

lemma core_emit [core_simps]: "core (emit x st) = core st"
  by (rule quiet.same_core [OF emitter_quiet [OF emitter_emit]])

lemma core_send_to [core_simps]: "core (send_to i ty p st) = core st"
  by (rule quiet.same_core [OF emitter_quiet [OF emitter_send_to]])

lemma core_noise [core_simps]: "core (st\<lparr>sharer_states := a\<rparr>) = core st"
  "core (st\<lparr>control_buckets := b\<rparr>) = core st" "core (st\<lparr>video_ingress := c\<rparr>) = core st"
  "core (st\<lparr>video_incoming := d\<rparr>) = core st" "core (st\<lparr>media_drops := m\<rparr>) = core st"
  "core (st\<lparr>next_stream := n\<rparr>) = core st"
  by (simp_all add: core_def)

lemma core_upd: "(\<And>s. strip (f s) = strip s) \<Longrightarrow> core (upd i f st) = core st"
proof -
  assume "\<And>s. strip (f s) = strip s"
  then have "(\<lambda>j. strip (objs (upd i f st) j)) = (\<lambda>j. strip (objs st j))" by (auto simp: upd_def)
  then show ?thesis by (simp add: core_def) (simp add: upd_def)
qed

lemma upd_id [simp]: "upd i (\<lambda>s. s) st = st"
  by (simp add: upd_def)

lemma core_upd_noise [core_simps]:
  "core (upd i (\<lambda>s. s\<lparr>s_backlog := f1 s\<rparr>) st) = core st"
  "core (upd i (\<lambda>s. s\<lparr>s_streams_aborted := f2 s\<rparr>) st) = core st"
  "core (upd i (\<lambda>s. s\<lparr>s_out_streams := f3 s\<rparr>) st) = core st"
  "core (upd i (\<lambda>s. s\<lparr>s_outstanding := f4 s\<rparr>) st) = core st"
  "core (upd i (\<lambda>s. s\<lparr>s_gates := f5 s\<rparr>) st) = core st"
  "core (upd i (\<lambda>s. s\<lparr>s_pending_bytes := f6 s\<rparr>) st) = core st"
  "core (upd i (\<lambda>s. s\<lparr>s_sources := f7 s\<rparr>) st) = core st"
  "core (upd i (\<lambda>s. s\<lparr>s_alive := f8 s\<rparr>) st) = core st"
  "core (upd i (\<lambda>s. s\<lparr>s_control_stream := f9 s\<rparr>) st) = core st"
  "core (upd i (\<lambda>s. s\<lparr>s_video_stream := f10 s\<rparr>) st) = core st"
  "core (upd i (\<lambda>s. s\<lparr>s_last_threshold := g1 s, s_gates := g3 s\<rparr>) st) = core st"
  "core (upd i (\<lambda>s. s\<lparr>s_last_threshold := g1 s, s_gate_dropped := g2 s, s_gates := g3 s\<rparr>) st) = core st"
  by (simp_all add: core_upd strip_def)

lemma core_fold: "(\<And>x st. core (f x st) = core st) \<Longrightarrow> core (fold f xs st) = core st"
  by (induction xs arbitrary: st) simp_all

lemma core_fold_pair: "(\<And>x p. core (snd (f x p)) = core (snd p)) \<Longrightarrow> core (snd (fold f xs p)) = core (snd p)"
  by (induction xs arbitrary: p) simp_all

text \<open>Walking through the binders of an operation; the first rule keeps track of the bound states.\<close>

lemma core_let_srv: "core a = c \<Longrightarrow> (\<And>x :: srv. core x = c \<Longrightarrow> core (f x) = c) \<Longrightarrow> core (Let a f) = c"
  by (simp add: Let_def)

lemma core_let: "(\<And>x. core (f x) = c) \<Longrightarrow> core (Let a f) = c"
  by (simp add: Let_def)

lemma core_case_prod: "(\<And>x y. core (f x y) = c) \<Longrightarrow> core (case p of (x, y) \<Rightarrow> f x y) = c"
  by (cases p) simp

lemma core_case_option:
  "core a = c \<Longrightarrow> (\<And>x. core (f x) = c) \<Longrightarrow> core (case q of None \<Rightarrow> a | Some x \<Rightarrow> f x) = c"
  by (cases q) simp_all

lemma core_if: "core a = c \<Longrightarrow> core b = c \<Longrightarrow> core (if P then a else b) = c"
  by simp

lemma core_case_pending:
  "(\<And>d. core (f d) = c) \<Longrightarrow> (\<And>h. core (g h) = c) \<Longrightarrow> (\<And>q b. core (k q b) = c) \<Longrightarrow>
     core (case p of Frame d \<Rightarrow> f d | StreamStarted h \<Rightarrow> g h | StreamAborted q b \<Rightarrow> k q b) = c"
  by (cases p) simp_all

lemmas core_intros = core_let_srv core_let core_case_prod core_case_option core_case_pending core_if

lemma core_send_error [core_simps]: "core (send_error i m c st) = core st"
  by (simp add: send_error_def core_simps)

lemma core_disconnect [core_simps]: "core (disconnect i st) = core st"
  by (simp add: disconnect_def core_simps Let_def)

lemma core_send_datagram [core_simps]: "core (send_datagram e i d pr md st) = core st"
  unfolding send_datagram_def by (rule core_intros | simp add: core_simps)+

lemma core_send_to_many [core_simps]: "core (send_to_many e is d pr st) = core st"
  by (simp add: send_to_many_def core_fold core_simps)

lemma core_abort_video_frames [core_simps]: "core (abort_video_frames i x all q st) = core st"
  by (simp add: abort_video_frames_def core_fold core_simps Let_def)

lemma core_send_video_frame_to [core_simps]: "core (snd (send_video_frame_to e i fr st)) = core st"
  by (simp add: send_video_frame_to_def core_simps Let_def split: option.split)

lemma core_announce [core_simps]: "core (announce_video_stream i x p r st) = core st"
  by (simp add: announce_video_stream_def core_simps Let_def)

lemma core_notify_viewer_change [core_simps]: "core (notify_viewer_change x v w st) = core st"
  by (simp add: notify_viewer_change_def core_simps split: option.split)

lemma core_send_keyframe_request [core_simps]: "core (send_keyframe_request e x r st) = core st"
  by (simp add: send_keyframe_request_def core_simps split: option.split)

lemma core_request_keyframe [core_simps]: "core (request_keyframe_from_sharer e x r st) = core st"
  unfolding request_keyframe_from_sharer_def by (rule core_intros | simp add: core_simps)+

lemma core_send_deferred [core_simps]: "core (send_deferred_keyframe_requests e st) = core st"
  by (simp add: send_deferred_keyframe_requests_def core_fold core_simps Let_def split: prod.split)

lemma core_gate_viewer: "core (snd (gate_viewer e p c x rt h kf i gs)) = core (snd gs)"
proof -
  have 1: "core (snd (case p of (x, y) \<Rightarrow> f x y)) = core (snd (f (fst p) (snd p)))" for p and f :: "'a \<Rightarrow> 'b \<Rightarrow> gate_verdict \<times> srv"
    by (simp add: case_prod_beta)
  show ?thesis by (cases gs) (simp add: gate_viewer_def core_simps Let_def 1)
qed

lemma core_send_to_viewer: "core (snd (send_to_viewer e x fr i gs)) = core (snd gs)"
proof (cases gs)
  case (Pair gv st)
  obtain ok st1 where s: "send_video_frame_to e i fr st = (ok, st1)" by fastforce
  then have "core st1 = core st" using core_send_video_frame_to [of e i fr st] by simp
  with Pair s show ?thesis by (simp add: send_to_viewer_def core_simps)
qed

lemma core_note_drops [core_simps]: "core (note_drops now x n st) = core st"
  unfolding note_drops_def by (rule core_intros | simp add: core_simps)+

lemma core_viewer_folds [core_simps]:
  "core (snd (fold (gate_viewer e p c x rt h kf) is gs)) = core (snd gs)"
  "core (snd (fold (send_to_viewer e x fr) is gs)) = core (snd gs)"
  by (simp_all add: core_fold_pair core_gate_viewer core_send_to_viewer)

lemma core_abort_folds [core_simps]: "core (fold (\<lambda>i. abort_video_frames i x all q) is st) = core st"
  by (rule core_fold) (rule core_abort_video_frames)

lemma core_forward_to_viewers [core_simps]:
  "core (forward_to_viewers e i ch x hdr rates h fr st) = core st"
proof -
  define gv0 where "gv0 = \<lparr>gv_targets = [], gv_abort_all = [], gv_abort_older = [], gv_dropped = 0,
                           gv_want_key = False\<rparr>"
  obtain gv st2 where g: "fold (gate_viewer e i ch x rates h (keyframe hdr)) (sessions st) (gv0, st) = (gv, st2)"
    by fastforce
  define st4 where "st4 = fold (\<lambda>i. abort_video_frames i x False (frame_seq hdr)) (gv_abort_older gv)
    (fold (\<lambda>i. abort_video_frames i x True 0) (gv_abort_all gv) st2)"
  obtain gv5 st5 where s: "fold (send_to_viewer e x fr) (gv_targets gv) (gv, st4) = (gv5, st5)" by fastforce
  have "core st2 = core st" using core_viewer_folds(1) [of e i ch x rates h "keyframe hdr" "sessions st" "(gv0, st)"] g
    by simp
  moreover have "core st5 = core st4" using core_viewer_folds(2) [of e x fr "gv_targets gv" "(gv, st4)"] s by simp
  moreover have "core st4 = core st2" by (simp add: st4_def core_abort_folds)
  ultimately have "core st5 = core st" by simp
  then show ?thesis
    unfolding forward_to_viewers_def gv0_def [symmetric]
    by (simp add: g s flip: st4_def) (simp add: Let_def core_simps)
qed

lemma core_forward_video_frame [core_simps]: "core (forward_video_frame e i k d st) = core st"
  by (simp add: forward_video_frame_def Let_def core_simps split: option.split)

lemma core_forward_stream_audio [core_simps]: "core (forward_stream_audio e i d st) = core st"
  by (simp add: forward_stream_audio_def core_fold core_simps Let_def split: option.split)

lemma core_handle_video_control [core_simps]: "core (handle_video_control e i d st) = core st"
  unfolding handle_video_control_def by (rule core_intros | simp add: core_simps)+

lemma core_enqueue [core_simps]: "core (enqueue_video_frame i k d st) = core st"
  "core (enqueue_video_event i k ev st) = core st"
  by (simp_all add: enqueue_video_frame_def enqueue_video_event_def core_simps Let_def split: option.split)

lemma core_run_reorder_event [core_simps]: "core (run_reorder_event e i k x ev st) = core st"
  by (simp add: run_reorder_event_def core_simps split: reorder_event.split)

lemma core_put_reorder [core_simps]: "core (put_reorder x i k r st) = core st"
  by (simp add: put_reorder_def core_simps)

lemma core_process_video_frame [core_simps]: "core (process_video_frame e pf st) = core st"
  unfolding process_video_frame_def
  by (rule core_intros | simp add: core_simps core_fold)+

lemma core_poll_ingress [core_simps]: "core (poll_ingress e x st) = core st"
  unfolding poll_ingress_def by (rule core_intros | simp add: core_simps core_fold)+

lemma core_process_video_frames [core_simps]: "core (process_video_frames e st) = core st"
  by (simp add: process_video_frames_def core_simps core_fold Let_def)

lemma core_process_data_packet [core_simps]: "core (process_data_packet e pkt st) = core st"
  by (simp add: process_data_packet_def forward_voice_def core_simps Let_def split: option.split)

interpretation data_packet: quiet "process_data_packet e pkt" for e pkt
  by unfold_locales (rule core_process_data_packet)

interpretation video_frames: quiet "process_video_frames e" for e
  by unfold_locales (rule core_process_video_frames)

end
