(* ===== verification/Lobby.thy ===== *)
theory Lobby
  imports Protocol
begin

text \<open>
  What the server promises about its members, without wire formats, buffers or effects: which sessions
  are live, who is signed in on them, which channel each is in, what each watches, and which video
  streams run in which channel. \<open>Server_Refine\<close> shows that the handlers of \<open>server.cpp\<close> implement the
  operations below, and \<open>lobby_inv\<close> is what every operation keeps.
\<close>

record member =
  mb_auth :: bool
  mb_user :: u32
  mb_key :: bytes
  mb_chan :: u32
  mb_subs :: "u32 set"

record lobby =
  live :: "u32 set"
  who :: "u32 \<Rightarrow> member"
  running :: "u32 \<Rightarrow> u32 set"
  index :: "u32 \<rightharpoonup> u32"
  known :: "u32 set"
  leaving :: "(u32 \<times> u32 \<times> u32) list"
  next_id :: u32
  accounts :: "(bytes \<times> u32) set"

definition mb_upd :: "u32 \<Rightarrow> (member \<Rightarrow> member) \<Rightarrow> lobby \<Rightarrow> lobby" where
  "mb_upd i f lb = lb\<lparr>who := (who lb)(i := f (who lb i))\<rparr>"

section \<open>Operations\<close>

definition a_stop :: "u32 \<Rightarrow> u32 \<Rightarrow> u8 \<Rightarrow> lobby \<Rightarrow> lobby" where
  "a_stop ch u k lb =
     (let x = video_stream_id u k
      in if x \<notin> running lb ch then lb
         else lb\<lparr>running := (running lb)(ch := running lb ch - {x}),
                 who := (\<lambda>i. if i \<in> live lb then (who lb i)\<lparr>mb_subs := mb_subs (who lb i) - {x}\<rparr>
                             else who lb i)\<rparr>)"

definition a_stop_all :: "u32 \<Rightarrow> u32 \<Rightarrow> lobby \<Rightarrow> lobby" where
  "a_stop_all ch u lb = a_stop ch u Camera (a_stop ch u Screen lb)"

definition a_clear :: "u32 \<Rightarrow> lobby \<Rightarrow> lobby" where
  "a_clear i = mb_upd i (\<lambda>m. m\<lparr>mb_subs := {}\<rparr>)"

definition a_move :: "u32 \<Rightarrow> u32 \<Rightarrow> lobby \<Rightarrow> lobby" where
  "a_move i ch = mb_upd i (\<lambda>m. m\<lparr>mb_chan := ch\<rparr>)"

definition a_leave :: "u32 \<Rightarrow> lobby \<Rightarrow> lobby" where
  "a_leave i lb = a_move i 0 (a_clear i (a_stop_all (mb_chan (who lb i)) (mb_user (who lb i)) lb))"

definition a_join :: "u32 \<Rightarrow> u32 \<Rightarrow> lobby \<Rightarrow> lobby" where
  "a_join i ch lb =
     a_move i ch (if mb_chan (who lb i) \<noteq> 0 \<and> mb_chan (who lb i) \<noteq> ch then a_leave i lb else lb)"

definition a_start :: "u32 \<Rightarrow> u8 \<Rightarrow> lobby \<Rightarrow> lobby" where
  "a_start i k lb =
     (let ch = mb_chan (who lb i)
      in lb\<lparr>running := (running lb)(ch := insert (video_stream_id (mb_user (who lb i)) k) (running lb ch))\<rparr>)"

definition a_watch :: "u32 \<Rightarrow> u32 set \<Rightarrow> lobby \<Rightarrow> lobby" where
  "a_watch i X = mb_upd i (\<lambda>m. m\<lparr>mb_subs := X\<rparr>)"

definition a_current :: "u32 \<Rightarrow> lobby \<Rightarrow> u32 option" where
  "a_current u lb = (case index lb u of Some i \<Rightarrow> if i \<in> live lb then Some i else None | None \<Rightarrow> None)"

text \<open>A session is gone: it leaves the index, and its user leaves the channel unless a newer session of
  the same user is there.\<close>

definition a_forget :: "u32 \<Rightarrow> u32 \<Rightarrow> lobby \<Rightarrow> lobby" where
  "a_forget i u lb = lb\<lparr>index := (if index lb u = Some i then (index lb)(u := None) else index lb),
                        known := known lb - {i}\<rparr>"

definition a_depart :: "u32 \<Rightarrow> u32 \<Rightarrow> u32 \<Rightarrow> lobby \<Rightarrow> lobby" where
  "a_depart i u ch lb =
     (let lb1 = a_forget i u lb; clear = (\<lambda>lb'. if i \<in> known lb then a_clear i lb' else lb')
      in if ch = 0 then lb1
         else case a_current u lb1 of
                Some c \<Rightarrow> if c \<noteq> i \<and> mb_chan (who lb1 c) = ch then clear lb1
                          else clear (a_stop_all ch u lb1)
              | None \<Rightarrow> clear (a_stop_all ch u lb1))"

definition a_kick :: "u32 \<Rightarrow> lobby \<Rightarrow> lobby" where
  "a_kick i lb = mb_upd i (\<lambda>m. m\<lparr>mb_chan := 0, mb_auth := False\<rparr>)
                   (a_depart i (mb_user (who lb i)) (mb_chan (who lb i)) lb)"

definition a_kick_others :: "u32 \<Rightarrow> bytes \<Rightarrow> u32 list \<Rightarrow> lobby \<Rightarrow> lobby" where
  "a_kick_others sid pk is lb =
     fold (\<lambda>i lb. if i \<noteq> sid \<and> mb_auth (who lb i) \<and> mb_key (who lb i) = pk then a_kick i lb else lb) is lb"

definition a_login :: "u32 \<Rightarrow> bytes \<Rightarrow> u32 \<Rightarrow> lobby \<Rightarrow> lobby" where
  "a_login sid pk u lb =
     (mb_upd sid (\<lambda>m. m\<lparr>mb_auth := True, mb_user := u, mb_key := pk\<rparr>) lb)
        \<lparr>index := (index lb)(u \<mapsto> sid), known := insert sid (known lb)\<rparr>"

definition a_close :: "u32 \<Rightarrow> lobby \<Rightarrow> lobby" where
  "a_close i lb =
     (if i \<notin> live lb then lb
      else lb\<lparr>live := live lb - {i},
              leaving := (if mb_auth (who lb i)
                          then leaving lb @ [(i, mb_user (who lb i), mb_chan (who lb i))] else leaving lb)\<rparr>)"

definition fresh_member :: member where
  "fresh_member = \<lparr>mb_auth = False, mb_user = 0, mb_key = replicate 32 0, mb_chan = 0, mb_subs = {}\<rparr>"

definition a_connect :: "lobby \<Rightarrow> lobby" where
  "a_connect lb = lb\<lparr>next_id := next_id lb + 1, live := insert (next_id lb) (live lb),
                     who := (who lb)(next_id lb := fresh_member)\<rparr>"

section \<open>The invariant\<close>

text \<open>A running stream belongs to a user whose current session is in that channel, or who is on the way
  out of it.\<close>

definition owned :: "lobby \<Rightarrow> u32 \<Rightarrow> u32 \<Rightarrow> bool" where
  "owned lb ch x \<longleftrightarrow> (\<exists>u k. video_source_valid k \<and> x = video_stream_id u k
     \<and> ((\<exists>i. index lb u = Some i \<and> mb_chan (who lb i) = ch) \<or> (\<exists>i. (i, u, ch) \<in> set (leaving lb))))"

definition index_ok :: "lobby \<Rightarrow> bool" where
  "index_ok lb \<longleftrightarrow> (\<forall>u i. index lb u = Some i \<longrightarrow> mb_auth (who lb i) \<and> mb_user (who lb i) = u
     \<and> (i \<in> live lb \<or> i \<in> fst ` set (leaving lb)))"

definition live_ok :: "lobby \<Rightarrow> bool" where
  "live_ok lb \<longleftrightarrow> (\<forall>i \<in> live lb. i < next_id lb \<and> (mb_auth (who lb i) \<longrightarrow> i \<in> known lb
     \<and> index lb (mb_user (who lb i)) = Some i \<and> (mb_key (who lb i), mb_user (who lb i)) \<in> accounts lb))"

definition watch_ok :: "lobby \<Rightarrow> bool" where
  "watch_ok lb \<longleftrightarrow> (\<forall>i \<in> live lb. mb_subs (who lb i) \<subseteq> running lb (mb_chan (who lb i)))"

definition leaving_ok :: "lobby \<Rightarrow> bool" where
  "leaving_ok lb \<longleftrightarrow> (\<forall>(i, u, ch) \<in> set (leaving lb).
     i \<notin> live lb \<and> i < next_id lb \<and> u = mb_user (who lb i) \<and> ch = mb_chan (who lb i))"

definition accounts_ok :: "lobby \<Rightarrow> bool" where
  "accounts_ok lb \<longleftrightarrow> (\<forall>(k, u) \<in> accounts lb. \<forall>(k', u') \<in> accounts lb. k = k' \<longleftrightarrow> u = u')"

definition lobby_inv :: "lobby \<Rightarrow> bool" where
  "lobby_inv lb \<longleftrightarrow> index_ok lb \<and> live_ok lb \<and> watch_ok lb \<and> leaving_ok lb \<and> accounts_ok lb
     \<and> (\<forall>i. mb_chan (who lb i) \<noteq> 0 \<longrightarrow> mb_auth (who lb i))
     \<and> running lb 0 = {} \<and> (\<forall>ch. \<forall>x \<in> running lb ch. owned lb ch x)"

lemmas lobby_inv_defs = lobby_inv_def index_ok_def live_ok_def watch_ok_def leaving_ok_def
  accounts_ok_def owned_def

lemma who_mb_upd [simp]: "who (mb_upd i f lb) = (who lb)(i := f (who lb i))"
  and mb_upd_fields [simp]: "live (mb_upd i f lb) = live lb" "running (mb_upd i f lb) = running lb"
    "index (mb_upd i f lb) = index lb" "known (mb_upd i f lb) = known lb"
    "leaving (mb_upd i f lb) = leaving lb" "next_id (mb_upd i f lb) = next_id lb"
    "accounts (mb_upd i f lb) = accounts lb"
  by (simp_all add: mb_upd_def)

lemma a_stop_fields [simp]: "live (a_stop ch u k lb) = live lb" "index (a_stop ch u k lb) = index lb"
  "known (a_stop ch u k lb) = known lb" "leaving (a_stop ch u k lb) = leaving lb"
  "next_id (a_stop ch u k lb) = next_id lb" "accounts (a_stop ch u k lb) = accounts lb"
  "mb_auth (who (a_stop ch u k lb) i) = mb_auth (who lb i)"
  "mb_user (who (a_stop ch u k lb) i) = mb_user (who lb i)"
  "mb_key (who (a_stop ch u k lb) i) = mb_key (who lb i)"
  "mb_chan (who (a_stop ch u k lb) i) = mb_chan (who lb i)"
  by (simp_all add: a_stop_def Let_def)

lemma running_a_stop [simp]:
  "running (a_stop ch u k lb) = (running lb)(ch := running lb ch - {video_stream_id u k})"
  by (auto simp: a_stop_def Let_def fun_eq_iff)

lemma subs_a_stop:
  "mb_subs (who (a_stop ch u k lb) i) =
     (if video_stream_id u k \<in> running lb ch \<and> i \<in> live lb
      then mb_subs (who lb i) - {video_stream_id u k} else mb_subs (who lb i))"
  by (simp add: a_stop_def Let_def)

lemma a_stop_inv: assumes "lobby_inv lb" shows "lobby_inv (a_stop ch u k lb)"
proof -
  have "watch_ok (a_stop ch u k lb)"
    using assms by (auto simp: lobby_inv_def watch_ok_def subs_a_stop)
  moreover have "owned (a_stop ch u k lb) c x = owned lb c x" for c x
    by (simp add: owned_def)
  ultimately show ?thesis
    using assms by (auto simp: lobby_inv_def index_ok_def live_ok_def leaving_ok_def accounts_ok_def)
qed

lemma a_stop_all_inv: "lobby_inv lb \<Longrightarrow> lobby_inv (a_stop_all ch u lb)"
  by (simp add: a_stop_all_def a_stop_inv)

lemma a_stop_all_fields [simp]:
  "live (a_stop_all ch u lb) = live lb" "index (a_stop_all ch u lb) = index lb"
  "known (a_stop_all ch u lb) = known lb" "leaving (a_stop_all ch u lb) = leaving lb"
  "next_id (a_stop_all ch u lb) = next_id lb" "accounts (a_stop_all ch u lb) = accounts lb"
  "mb_auth (who (a_stop_all ch u lb) i) = mb_auth (who lb i)"
  "mb_user (who (a_stop_all ch u lb) i) = mb_user (who lb i)"
  "mb_key (who (a_stop_all ch u lb) i) = mb_key (who lb i)"
  "mb_chan (who (a_stop_all ch u lb) i) = mb_chan (who lb i)"
  "running (a_stop_all ch u lb) =
     (running lb)(ch := running lb ch - {video_stream_id u Screen, video_stream_id u Camera})"
  by (auto simp: a_stop_all_def fun_eq_iff)

section \<open>Every operation keeps the invariant\<close>

lemma lobby_invI:
  assumes "lobby_inv lb" and "live lb' = live lb" and "index lb' = index lb" and "known lb' = known lb"
    and "leaving lb' = leaving lb" and "next_id lb' = next_id lb" and "accounts lb' = accounts lb"
    and "\<And>i. mb_auth (who lb' i) = mb_auth (who lb i) \<and> mb_user (who lb' i) = mb_user (who lb i)
            \<and> mb_key (who lb' i) = mb_key (who lb i)"
    and "watch_ok lb'" and "leaving_ok lb'" and "running lb' 0 = {}"
    and "\<And>i. mb_chan (who lb' i) \<noteq> 0 \<Longrightarrow> mb_auth (who lb i)"
    and "\<And>ch x. x \<in> running lb' ch \<Longrightarrow> owned lb' ch x"
  shows "lobby_inv lb'"
  using assms by (simp add: lobby_inv_def index_ok_def live_ok_def accounts_ok_def)

lemma owned_index: "lobby_inv lb \<Longrightarrow> x \<in> running lb ch \<Longrightarrow> owned lb ch x"
  by (simp add: lobby_inv_def)

lemma owned_moved:
  assumes "owned lb c x" and "index lb' = index lb" and "leaving lb' = leaving lb"
    and "\<And>u k j. video_source_valid k \<Longrightarrow> x = video_stream_id u k \<Longrightarrow> index lb u = Some j \<Longrightarrow>
            mb_chan (who lb j) = c \<Longrightarrow> mb_chan (who lb' j) = c"
  shows "owned lb' c x"
  using assms unfolding owned_def by metis

lemma a_watch_inv:
  assumes "lobby_inv lb" and "X \<subseteq> running lb (mb_chan (who lb i))"
  shows "lobby_inv (a_watch i X lb)"
proof (rule lobby_invI [OF assms(1)])
  show "watch_ok (a_watch i X lb)" "leaving_ok (a_watch i X lb)"
    using assms by (auto simp: lobby_inv_defs a_watch_def)
  show "owned (a_watch i X lb) ch x" if "x \<in> running (a_watch i X lb) ch" for ch x
    by (rule owned_moved [of lb]) (use owned_index [OF assms(1)] that in \<open>auto simp: a_watch_def\<close>)
qed (use assms in \<open>auto simp: lobby_inv_def a_watch_def split: if_splits\<close>)

lemma a_clear_eq: "a_clear i = a_watch i {}"
  by (simp add: a_clear_def a_watch_def)

lemma a_clear_inv: "lobby_inv lb \<Longrightarrow> lobby_inv (a_clear i lb)"
  by (simp add: a_clear_eq a_watch_inv)

text \<open>Moving a live member out of a channel where it publishes nothing.\<close>

lemma a_move_inv:
  assumes inv: "lobby_inv lb" and "i \<in> live lb" and "mb_auth (who lb i)"
    and subs: "mb_subs (who lb i) = {}"
    and none: "\<And>k. video_source_valid k \<Longrightarrow>
                 video_stream_id (mb_user (who lb i)) k \<notin> running lb (mb_chan (who lb i))"
  shows "lobby_inv (a_move i ch lb)"
proof (rule lobby_invI [OF inv])
  show "watch_ok (a_move i ch lb)" using inv subs by (auto simp: lobby_inv_def watch_ok_def a_move_def)
  show "leaving_ok (a_move i ch lb)"
    using inv \<open>i \<in> live lb\<close> by (auto simp: lobby_inv_def leaving_ok_def a_move_def)
  show "owned (a_move i ch lb) c x" if x: "x \<in> running (a_move i ch lb) c" for c x
  proof (rule owned_moved [of lb])
    show "owned lb c x" using owned_index [OF inv] x by (simp add: a_move_def)
  next
    fix u k j
    assume a: "video_source_valid k" "x = video_stream_id u k" "index lb u = Some j" "mb_chan (who lb j) = c"
    then have "mb_user (who lb j) = u" using inv by (simp add: lobby_inv_def index_ok_def)
    then have "j \<noteq> i" using a x none [OF a(1)] by (auto simp: a_move_def)
    then show "mb_chan (who (a_move i ch lb) j) = c" using a by (simp add: a_move_def)
  qed (simp_all add: a_move_def)
qed (use assms in \<open>auto simp: lobby_inv_def a_move_def split: if_splits\<close>)

lemma stopped_all:
  "video_source_valid k \<Longrightarrow> video_stream_id u k \<notin> running (a_stop_all ch u lb) ch"
  by (auto simp: valid_source_cases)

lemma a_leave_inv:
  assumes "lobby_inv lb" and "i \<in> live lb" and "mb_auth (who lb i)"
  shows "lobby_inv (a_leave i lb)"
proof -
  let ?lb = "a_clear i (a_stop_all (mb_chan (who lb i)) (mb_user (who lb i)) lb)"
  have "lobby_inv (a_move i 0 ?lb)"
  proof (rule a_move_inv)
    show "lobby_inv ?lb" using assms(1) by (intro a_clear_inv a_stop_all_inv)
    show "video_stream_id (mb_user (who ?lb i)) k \<notin> running ?lb (mb_chan (who ?lb i))"
      if "video_source_valid k" for k
      using that by (auto simp: a_clear_def valid_source_cases)
  qed (use assms in \<open>simp_all add: a_clear_def\<close>)
  then show ?thesis by (simp add: a_leave_def)
qed

lemma a_move_same: "mb_chan (who lb i) = ch \<Longrightarrow> a_move i ch lb = lb"
  by (auto simp: a_move_def mb_upd_def)

lemma a_join_inv:
  assumes "lobby_inv lb" and "i \<in> live lb" and "mb_auth (who lb i)"
  shows "lobby_inv (a_join i ch lb)"
proof -
  define lb1 where "lb1 = (if mb_chan (who lb i) \<noteq> 0 \<and> mb_chan (who lb i) \<noteq> ch then a_leave i lb else lb)"
  have inv: "lobby_inv lb1" using assms a_leave_inv by (simp add: lb1_def)
  have l: "i \<in> live lb1" "mb_auth (who lb1 i)"
    using assms by (auto simp: lb1_def a_leave_def a_move_def a_clear_def)
  have c: "mb_chan (who lb1 i) = 0 \<or> mb_chan (who lb1 i) = ch"
    by (auto simp: lb1_def a_leave_def a_move_def)
  have "lobby_inv (a_move i ch lb1)"
  proof (cases "mb_chan (who lb1 i) = ch")
    case True
    then show ?thesis using inv by (simp add: a_move_same)
  next
    case False
    then have z: "running lb1 (mb_chan (who lb1 i)) = {}" using c inv by (simp add: lobby_inv_def)
    then have "mb_subs (who lb1 i) = {}" using inv l by (auto simp: lobby_inv_def watch_ok_def)
    with a_move_inv [OF inv l] z show ?thesis by simp
  qed
  then show ?thesis by (simp add: a_join_def lb1_def)
qed

lemma a_start_inv:
  assumes inv: "lobby_inv lb" and "i \<in> live lb" and "mb_auth (who lb i)" and "mb_chan (who lb i) \<noteq> 0"
    and "video_source_valid k"
  shows "lobby_inv (a_start i k lb)"
proof (rule lobby_invI [OF inv])
  show "watch_ok (a_start i k lb)" using inv by (fastforce simp: lobby_inv_def watch_ok_def a_start_def Let_def)
  show "leaving_ok (a_start i k lb)" using inv by (simp add: lobby_inv_def leaving_ok_def a_start_def Let_def)
  have "index lb (mb_user (who lb i)) = Some i" using assms by (simp add: lobby_inv_def live_ok_def)
  then have new: "owned (a_start i k lb) (mb_chan (who lb i)) (video_stream_id (mb_user (who lb i)) k)"
    using assms(5) by (auto simp: owned_def a_start_def Let_def)
  have "owned (a_start i k lb) c x = owned lb c x" for c x by (simp add: owned_def a_start_def Let_def)
  then show "owned (a_start i k lb) c x" if "x \<in> running (a_start i k lb) c" for c x
    using that new owned_index [OF inv] by (auto simp: a_start_def Let_def split: if_splits)
qed (use assms in \<open>auto simp: lobby_inv_def a_start_def Let_def\<close>)

lemma a_close_inv:
  assumes inv: "lobby_inv lb" shows "lobby_inv (a_close i lb)"
proof (cases "i \<in> live lb")
  case True
  have own: "owned (a_close i lb) c x" if "owned lb c x" for c x
    using that True unfolding owned_def a_close_def by auto
  have "index_ok (a_close i lb)"
    using inv True by (auto simp: lobby_inv_def index_ok_def a_close_def)
  moreover have "leaving_ok (a_close i lb)"
    using inv True by (auto simp: lobby_inv_def leaving_ok_def live_ok_def a_close_def)
  ultimately show ?thesis
    using inv True own by (simp add: lobby_inv_def live_ok_def watch_ok_def accounts_ok_def a_close_def)
qed (use inv in \<open>simp add: a_close_def\<close>)

lemma a_connect_inv:
  assumes inv: "lobby_inv lb" and wrap: "next_id lb < next_id lb + 1"
  shows "lobby_inv (a_connect lb)"
proof -
  let ?n = "next_id lb"
  have lt: "i < ?n" if "i \<in> live lb \<or> i \<in> fst ` set (leaving lb)" for i
    using inv that by (auto simp: lobby_inv_def live_ok_def leaving_ok_def)
  have ix: "index lb u = Some i \<Longrightarrow> i < ?n" for u i
    using inv lt by (auto simp: lobby_inv_def index_ok_def)
  have less: "i < ?n + 1" if "i < ?n" for i using that wrap by (rule less_trans)
  have own: "owned (a_connect lb) c x" if "owned lb c x" for c x
  proof -
    have "mb_chan (who (a_connect lb) j) = c" if "index lb u = Some j" "mb_chan (who lb j) = c" for u j
      using that ix [of u j] by (auto simp: a_connect_def)
    moreover have "index (a_connect lb) = index lb" "leaving (a_connect lb) = leaving lb"
      by (simp_all add: a_connect_def)
    ultimately show ?thesis using owned_moved [OF that] by metis
  qed
  have "index_ok (a_connect lb)"
    using inv ix by (auto simp: lobby_inv_def index_ok_def a_connect_def)
  moreover have "live_ok (a_connect lb)"
    using inv lt less wrap by (auto simp: lobby_inv_def live_ok_def a_connect_def fresh_member_def)
  moreover have "watch_ok (a_connect lb)"
    using inv lt by (auto simp: lobby_inv_def watch_ok_def a_connect_def fresh_member_def)
  moreover have "leaving_ok (a_connect lb)"
    using inv less by (auto simp: lobby_inv_def leaving_ok_def a_connect_def)
  moreover have "mb_chan (who (a_connect lb) j) \<noteq> 0 \<longrightarrow> mb_auth (who (a_connect lb) j)" for j
    using inv by (simp add: lobby_inv_def a_connect_def fresh_member_def)
  ultimately show ?thesis
    using inv own by (simp add: lobby_inv_def) (simp add: a_connect_def accounts_ok_def)
qed

subsection \<open>Departures\<close>

text \<open>Everything holds but the ownership of the streams of \<open>u\<close> in \<open>ch\<close>.\<close>

definition almost_inv :: "u32 \<Rightarrow> u32 \<Rightarrow> lobby \<Rightarrow> bool" where
  "almost_inv ch u lb \<longleftrightarrow> index_ok lb \<and> live_ok lb \<and> watch_ok lb \<and> leaving_ok lb \<and> accounts_ok lb
     \<and> (\<forall>i. mb_chan (who lb i) \<noteq> 0 \<longrightarrow> mb_auth (who lb i)) \<and> running lb 0 = {}
     \<and> (\<forall>c. \<forall>x \<in> running lb c. owned lb c x
            \<or> (c = ch \<and> (\<exists>k. video_source_valid k \<and> x = video_stream_id u k)))"

lemma almost_stop: assumes "almost_inv ch u lb" shows "lobby_inv (a_stop_all ch u lb)"
proof -
  have "owned (a_stop_all ch u lb) c x = owned lb c x" for c x by (simp add: owned_def)
  then have "owned (a_stop_all ch u lb) c x" if x: "x \<in> running (a_stop_all ch u lb) c" for c x
    using assms that by (auto simp: almost_inv_def valid_source_cases split: if_splits)
  moreover have "watch_ok (a_stop_all ch u lb)"
    using assms by (auto simp: almost_inv_def watch_ok_def a_stop_all_def subs_a_stop)
  ultimately show ?thesis
    using assms by (auto simp: almost_inv_def lobby_inv_def index_ok_def live_ok_def leaving_ok_def accounts_ok_def)
qed

lemma almost_done:
  assumes "almost_inv ch u lb" and "ch = 0 \<or> (\<exists>i. index lb u = Some i \<and> mb_chan (who lb i) = ch)"
  shows "lobby_inv lb"
proof -
  have "owned lb c x" if x: "x \<in> running lb c" for c x
  proof (cases "c = ch \<and> (\<exists>k. video_source_valid k \<and> x = video_stream_id u k)")
    case True
    then have "c \<noteq> 0" using assms(1) x by (auto simp: almost_inv_def)
    then show ?thesis using assms(2) True unfolding owned_def by blast
  qed (use assms(1) x in \<open>unfold almost_inv_def, blast\<close>)
  then show ?thesis using assms by (simp add: almost_inv_def lobby_inv_def)
qed

lemma a_forget_fields [simp]: "live (a_forget i u lb) = live lb" "who (a_forget i u lb) = who lb"
  "running (a_forget i u lb) = running lb" "leaving (a_forget i u lb) = leaving lb"
  "next_id (a_forget i u lb) = next_id lb" "accounts (a_forget i u lb) = accounts lb"
  "known (a_forget i u lb) = known lb - {i}"
  "index (a_forget i u lb) w = (if w = u \<and> index lb u = Some i then None else index lb w)"
  by (simp_all add: a_forget_def)

lemma forget_leaving:
  assumes inv: "lobby_inv lb" and l: "leaving lb = (i, u, ch) # rest"
  shows "almost_inv ch u (a_forget i u (lb\<lparr>leaving := rest\<rparr>))" (is "almost_inv ch u ?lb")
proof -
  have e: "i \<notin> live lb" "u = mb_user (who lb i)" "ch = mb_chan (who lb i)"
    using inv l by (auto simp: lobby_inv_def leaving_ok_def)
  have io: "index lb w = Some j \<Longrightarrow> mb_user (who lb j) = w \<and> mb_auth (who lb j)
              \<and> (j \<in> live lb \<or> j = i \<or> j \<in> fst ` set rest)" for w j
    using inv l by (auto simp: lobby_inv_def index_ok_def)
  have "index_ok ?lb" unfolding index_ok_def
  proof (intro allI impI)
    fix w j assume "index ?lb w = Some j"
    then have "index lb w = Some j" "\<not> (w = u \<and> index lb u = Some i)" by (auto split: if_splits)
    with io [of w j] e show "mb_auth (who ?lb j) \<and> mb_user (who ?lb j) = w
        \<and> (j \<in> live ?lb \<or> j \<in> fst ` set (leaving ?lb))" by auto
  qed
  moreover have "live_ok ?lb" using inv e(1) by (auto simp: lobby_inv_def live_ok_def)
  moreover have "watch_ok ?lb" "leaving_ok ?lb" "accounts_ok ?lb"
    using inv l by (auto simp: lobby_inv_def watch_ok_def leaving_ok_def accounts_ok_def)
  moreover have "owned ?lb c x \<or> (c = ch \<and> (\<exists>k. video_source_valid k \<and> x = video_stream_id u k))"
    if x: "x \<in> running ?lb c" for c x
  proof -
    obtain w k where k: "video_source_valid k" "x = video_stream_id w k"
      and o: "(\<exists>j. index lb w = Some j \<and> mb_chan (who lb j) = c) \<or> (\<exists>j. (j, w, c) \<in> set (leaving lb))"
      using owned_index [OF inv, of x c] x by (auto simp: owned_def)
    from o consider (ix) j where "index lb w = Some j" "mb_chan (who lb j) = c" "\<not> (w = u \<and> index lb u = Some i)"
      | (rest) j where "(j, w, c) \<in> set rest" | (it) "w = u" "c = ch"
      using e l by (cases "w = u \<and> index lb u = Some i") auto
    then show ?thesis
    proof cases
      case ix
      then have "index ?lb w = Some j" "mb_chan (who ?lb j) = c" by auto
      with k show ?thesis unfolding owned_def by blast
    next
      case rest
      then have "(j, w, c) \<in> set (leaving ?lb)" by simp
      with k show ?thesis unfolding owned_def by blast
    next
      case it
      with k show ?thesis by blast
    qed
  qed
  ultimately show ?thesis using inv by (simp add: almost_inv_def lobby_inv_def)
qed

text \<open>The main loop takes one departure off the queue.\<close>

lemma a_depart_inv:
  assumes inv: "lobby_inv lb" and l: "leaving lb = (i, u, ch) # rest"
  shows "lobby_inv (a_depart i u ch (lb\<lparr>leaving := rest\<rparr>))"
proof -
  define lb1 where "lb1 = a_forget i u (lb\<lparr>leaving := rest\<rparr>)"
  have al: "almost_inv ch u lb1" unfolding lb1_def by (rule forget_leaving [OF assms])
  have cur: "index lb1 u = Some c" if "a_current u lb1 = Some c" for c
    using that by (auto simp: a_current_def split: option.splits if_splits)
  show ?thesis
    unfolding a_depart_def Let_def lb1_def [symmetric]
    using almost_done [OF al] almost_stop [OF al] cur
    by (auto split: option.split intro: a_clear_inv)
qed

subsection \<open>Duplicate sign-ins\<close>

lemma a_stop_mb_upd:
  assumes "\<And>m x. f (m\<lparr>mb_subs := mb_subs m - {x}\<rparr>) = (f m)\<lparr>mb_subs := mb_subs (f m) - {x}\<rparr>"
  shows "a_stop ch u k (mb_upd i f lb) = mb_upd i f (a_stop ch u k lb)"
  using assms by (auto simp: a_stop_def mb_upd_def Let_def fun_eq_iff)

lemma kick_eq:
  assumes inv: "lobby_inv lb" and i: "i \<in> live lb" "mb_auth (who lb i)"
  shows "a_kick i lb = (let ch = mb_chan (who lb i); u = mb_user (who lb i);
           lb2 = mb_upd i (\<lambda>m. m\<lparr>mb_subs := {}, mb_chan := 0, mb_auth := False\<rparr>) (a_forget i u lb)
         in if ch = 0 then lb2 else a_stop_all ch u lb2)"
proof -
  let ?u = "mb_user (who lb i)" and ?lb1 = "a_forget i (mb_user (who lb i)) lb"
  have k: "i \<in> known lb" "index lb ?u = Some i" using assms by (auto simp: lobby_inv_def live_ok_def)
  then have cur: "a_current ?u ?lb1 = None" by (simp add: a_current_def)
  show ?thesis
  proof (cases "mb_chan (who lb i) = 0")
    case True
    have "mb_subs (who lb i) = {}" using assms True by (auto simp: lobby_inv_def watch_ok_def)
    then have "(who lb i)\<lparr>mb_subs := {}, mb_chan := 0, mb_auth := False\<rparr>
                 = (who lb i)\<lparr>mb_chan := 0, mb_auth := False\<rparr>" by simp
    then show ?thesis using True by (simp add: a_kick_def a_depart_def mb_upd_def)
  next
    case False
    have "a_kick i lb = mb_upd i (\<lambda>m. m\<lparr>mb_subs := {}, mb_chan := 0, mb_auth := False\<rparr>)
                          (a_stop_all (mb_chan (who lb i)) ?u ?lb1)"
      using False cur k by (simp add: a_kick_def a_depart_def a_clear_def mb_upd_def Let_def)
    then show ?thesis using False by (simp add: a_stop_all_def a_stop_mb_upd Let_def)
  qed
qed

lemma a_kick_inv:
  assumes inv: "lobby_inv lb" and i: "i \<in> live lb" "mb_auth (who lb i)"
  shows "lobby_inv (a_kick i lb)"
proof -
  let ?u = "mb_user (who lb i)" and ?ch = "mb_chan (who lb i)"
  define lb2 where "lb2 = mb_upd i (\<lambda>m. m\<lparr>mb_subs := {}, mb_chan := 0, mb_auth := False\<rparr>) (a_forget i ?u lb)"
  have ixi: "index lb ?u = Some i" using assms by (simp add: lobby_inv_def live_ok_def)
  have nl: "(i, w, c) \<notin> set (leaving lb)" for w c using inv i by (auto simp: lobby_inv_def leaving_ok_def)
  have ix: "index lb2 w = Some j \<longleftrightarrow> w \<noteq> ?u \<and> index lb w = Some j" for w j by (simp add: lb2_def ixi)
  have ne: "j \<noteq> i" if "w \<noteq> ?u" "index lb w = Some j" for w j
    using that inv by (auto simp: lobby_inv_def index_ok_def)
  have "index_ok lb2"
    unfolding index_ok_def ix using inv ne by (auto simp: lobby_inv_def index_ok_def lb2_def)
  moreover have "live_ok lb2"
  proof -
    have "mb_user (who lb j) \<noteq> ?u" if "j \<in> live lb" "mb_auth (who lb j)" "j \<noteq> i" for j
      using inv that ixi by (auto simp: lobby_inv_def live_ok_def)
    then show ?thesis using inv ixi by (auto simp: lobby_inv_def live_ok_def lb2_def)
  qed
  moreover have "watch_ok lb2" "accounts_ok lb2"
    using inv by (auto simp: lobby_inv_def watch_ok_def accounts_ok_def lb2_def)
  moreover have "leaving_ok lb2" using inv nl by (auto simp: lobby_inv_def leaving_ok_def lb2_def)
  moreover have "owned lb2 c x \<or> (c = ?ch \<and> (\<exists>k. video_source_valid k \<and> x = video_stream_id ?u k))"
    if x: "x \<in> running lb2 c" for c x
  proof -
    obtain w k where k: "video_source_valid k" "x = video_stream_id w k"
      and o: "(\<exists>j. index lb w = Some j \<and> mb_chan (who lb j) = c) \<or> (\<exists>j. (j, w, c) \<in> set (leaving lb))"
      using owned_index [OF inv, of x c] x by (auto simp: owned_def lb2_def)
    show ?thesis
    proof (cases "\<exists>j. (j, w, c) \<in> set (leaving lb)")
      case True
      then obtain j where "(j, w, c) \<in> set (leaving lb2)" by (auto simp: lb2_def)
      with k show ?thesis unfolding owned_def by blast
    next
      case False
      then obtain j where j: "index lb w = Some j" "mb_chan (who lb j) = c" using o by auto
      show ?thesis
      proof (cases "w = ?u")
        case True
        with j ixi k show ?thesis by auto
      next
        case False
        then have "index lb2 w = Some j" "mb_chan (who lb2 j) = c" using j ne ix by (auto simp: lb2_def)
        with k show ?thesis unfolding owned_def by blast
      qed
    qed
  qed
  ultimately have al: "almost_inv ?ch ?u lb2" using inv by (simp add: almost_inv_def lobby_inv_def lb2_def)
  then show ?thesis
    using almost_done [OF al] almost_stop [OF al]
    by (simp add: kick_eq [OF assms] lb2_def [symmetric] Let_def)
qed


lemma a_kick_fields [simp]:
  "live (a_kick i lb) = live lb" "leaving (a_kick i lb) = leaving lb" "next_id (a_kick i lb) = next_id lb"
  "accounts (a_kick i lb) = accounts lb"
  "mb_auth (who (a_kick i lb) j) = (mb_auth (who lb j) \<and> j \<noteq> i)"
  "mb_key (who (a_kick i lb) j) = mb_key (who lb j)"
  by (auto simp: a_kick_def a_depart_def a_clear_def Let_def split: option.split)

lemma a_kick_others_keep:
  "(mb_auth (who (a_kick_others sid pk is lb) j) \<longrightarrow> mb_auth (who lb j))
   \<and> mb_key (who (a_kick_others sid pk is lb) j) = mb_key (who lb j)"
proof (induction "is" arbitrary: lb)
  case Nil
  then show ?case by (simp add: a_kick_others_def)
next
  case (Cons i "is")
  have "a_kick_others sid pk (i # is) lb = a_kick_others sid pk is
      (if i \<noteq> sid \<and> mb_auth (who lb i) \<and> mb_key (who lb i) = pk then a_kick i lb else lb)"
    by (simp add: a_kick_others_def)
  then show ?case using Cons.IH [of "a_kick i lb"] Cons.IH [of lb] by (simp split: if_splits)
qed

lemma a_kick_others_inv:
  assumes "lobby_inv lb" and "set is \<subseteq> live lb"
  shows "lobby_inv (a_kick_others sid pk is lb) \<and> live (a_kick_others sid pk is lb) = live lb
       \<and> accounts (a_kick_others sid pk is lb) = accounts lb
       \<and> mb_auth (who (a_kick_others sid pk is lb) sid) = mb_auth (who lb sid)
       \<and> (\<forall>j. mb_auth (who (a_kick_others sid pk is lb) j) \<longrightarrow>
            mb_key (who (a_kick_others sid pk is lb) j) = pk \<longrightarrow> j = sid \<or> j \<notin> set is)"
  using assms
proof (induction "is" arbitrary: lb)
  case Nil
  then show ?case by (simp add: a_kick_others_def)
next
  case (Cons i "is")
  define lb1 where "lb1 = (if i \<noteq> sid \<and> mb_auth (who lb i) \<and> mb_key (who lb i) = pk then a_kick i lb else lb)"
  have e: "a_kick_others sid pk (i # is) lb = a_kick_others sid pk is lb1"
    by (simp add: a_kick_others_def lb1_def)
  have 1: "lobby_inv lb1" "live lb1 = live lb" "accounts lb1 = accounts lb"
      "mb_auth (who lb1 sid) = mb_auth (who lb sid)"
    using Cons.prems by (auto simp: lb1_def a_kick_inv)
  have g: "\<not> (mb_auth (who lb1 i) \<and> mb_key (who lb1 i) = pk) \<or> i = sid" by (auto simp: lb1_def)
  show ?case using Cons.IH [OF 1(1)] 1 Cons.prems(2) g a_kick_others_keep [of sid pk "is" lb1 i]
    unfolding e by auto
qed

lemma a_login_inv:
  assumes inv: "lobby_inv lb" and sid: "sid \<in> live lb" "\<not> mb_auth (who lb sid)"
    and acc: "(pk, u) \<in> accounts lb"
    and alone: "\<And>j. j \<in> live lb \<Longrightarrow> mb_auth (who lb j) \<Longrightarrow> mb_key (who lb j) = pk \<Longrightarrow> j = sid"
  shows "lobby_inv (a_login sid pk u lb)"
proof -
  let ?lb = "a_login sid pk u lb"
  have nu: "mb_user (who lb j) \<noteq> u" if "j \<in> live lb" "mb_auth (who lb j)" for j
  proof
    assume "mb_user (who lb j) = u"
    then have "(mb_key (who lb j), u) \<in> accounts lb" using inv that by (auto simp: lobby_inv_def live_ok_def)
    then have "mb_key (who lb j) = pk" using inv acc by (fastforce simp: lobby_inv_def accounts_ok_def)
    then show False using alone that sid by auto
  qed
  have ns: "j \<noteq> sid" if "index lb w = Some j" for w j
    using inv that sid by (auto simp: lobby_inv_def index_ok_def)
  have "index_ok ?lb"
    using inv ns sid by (auto simp: lobby_inv_def index_ok_def a_login_def)
  moreover have "live_ok ?lb"
    using inv nu acc by (auto simp: lobby_inv_def live_ok_def a_login_def)
  moreover have "watch_ok ?lb" "accounts_ok ?lb"
    using inv by (auto simp: lobby_inv_def watch_ok_def accounts_ok_def a_login_def)
  moreover have "leaving_ok ?lb" using inv sid by (auto simp: lobby_inv_def leaving_ok_def a_login_def)
  moreover have "owned ?lb c x" if x: "x \<in> running ?lb c" for c x
  proof -
    obtain w k where k: "video_source_valid k" "x = video_stream_id w k"
      and o: "(\<exists>j. index lb w = Some j \<and> mb_chan (who lb j) = c) \<or> (\<exists>j. (j, w, c) \<in> set (leaving lb))"
      using owned_index [OF inv, of x c] x by (auto simp: owned_def a_login_def)
    show ?thesis
    proof (cases "\<exists>j. (j, w, c) \<in> set (leaving lb)")
      case True
      then obtain j where "(j, w, c) \<in> set (leaving ?lb)" by (auto simp: a_login_def)
      with k show ?thesis unfolding owned_def by blast
    next
      case False
      then obtain j where j: "index lb w = Some j" "mb_chan (who lb j) = c" using o by auto
      then have "mb_user (who lb j) = w" "mb_auth (who lb j)" "j \<in> live lb \<or> j \<in> fst ` set (leaving lb)"
        using inv by (auto simp: lobby_inv_def index_ok_def)
      moreover have "(j, w, c) \<in> set (leaving lb)" if "j \<in> fst ` set (leaving lb)"
        using that inv calculation(1) j(2) by (auto simp: lobby_inv_def leaving_ok_def)
      ultimately have "w \<noteq> u" using nu False by blast
      then have "index ?lb w = Some j" "mb_chan (who ?lb j) = c" using j by (auto simp: a_login_def)
      with k show ?thesis unfolding owned_def by blast
    qed
  qed
  ultimately show ?thesis using inv by (auto simp: lobby_inv_def a_login_def)
qed

subsection \<open>Deleting a channel\<close>

definition a_member :: "u32 \<Rightarrow> lobby \<Rightarrow> u32 \<Rightarrow> bool" where
  "a_member ch lb i \<longleftrightarrow> mb_auth (who lb i) \<and> mb_chan (who lb i) = ch"

definition a_evict_video :: "u32 \<Rightarrow> u32 list \<Rightarrow> lobby \<Rightarrow> lobby" where
  "a_evict_video ch is lb =
     fold (\<lambda>i lb. if a_member ch lb i then a_clear i (a_stop_all ch (mb_user (who lb i)) lb) else lb) is lb"

definition a_evict_members :: "u32 \<Rightarrow> u32 list \<Rightarrow> lobby \<Rightarrow> lobby" where
  "a_evict_members ch is lb = fold (\<lambda>i lb. if a_member ch lb i then a_move i 0 lb else lb) is lb"

text \<open>A member without running streams that watches nothing.\<close>

definition silent :: "u32 \<Rightarrow> lobby \<Rightarrow> u32 \<Rightarrow> bool" where
  "silent ch lb i \<longleftrightarrow> mb_subs (who lb i) = {}
     \<and> (\<forall>k. video_source_valid k \<longrightarrow> video_stream_id (mb_user (who lb i)) k \<notin> running lb ch)"

lemma a_evict_video_inv:
  assumes "lobby_inv lb" and "\<forall>i \<in> J. a_member ch lb i \<longrightarrow> silent ch lb i" and "set is \<union> J \<subseteq> live lb"
  shows "lobby_inv (a_evict_video ch is lb) \<and> live (a_evict_video ch is lb) = live lb
       \<and> (\<forall>i \<in> set is \<union> J. a_member ch (a_evict_video ch is lb) i \<longrightarrow> silent ch (a_evict_video ch is lb) i)"
  using assms
proof (induction "is" arbitrary: lb J)
  case Nil
  then show ?case by (simp add: a_evict_video_def)
next
  case (Cons i "is")
  define lb1 where "lb1 = (if a_member ch lb i then a_clear i (a_stop_all ch (mb_user (who lb i)) lb) else lb)"
  have e: "a_evict_video ch (i # is) lb = a_evict_video ch is lb1" by (simp add: a_evict_video_def lb1_def)
  have 1: "lobby_inv lb1" "live lb1 = live lb"
    using Cons.prems by (auto simp: lb1_def a_clear_inv a_stop_all_inv) (simp_all add: a_clear_def)
  have sub: "mb_subs (who (a_stop_all ch u lb) j) = {}" if "mb_subs (who lb j) = {}" for u j
    using that by (simp add: a_stop_all_def subs_a_stop)
  have "a_member ch lb1 j \<longrightarrow> silent ch lb1 j" if "j \<in> insert i J" for j
    using Cons.prems(2) that sub
    by (auto simp: lb1_def a_member_def silent_def a_clear_def valid_source_cases)
  then show ?case using Cons.IH [OF 1(1), of "insert i J"] 1 Cons.prems(3) unfolding e by auto
qed

lemma a_evict_members_inv:
  assumes "lobby_inv lb" and "\<forall>i \<in> set is. a_member ch lb i \<longrightarrow> silent ch lb i" and "set is \<subseteq> live lb"
  shows "lobby_inv (a_evict_members ch is lb)"
  using assms
proof (induction "is" arbitrary: lb)
  case Nil
  then show ?case by (simp add: a_evict_members_def)
next
  case (Cons i "is")
  define lb1 where "lb1 = (if a_member ch lb i then a_move i 0 lb else lb)"
  have e: "a_evict_members ch (i # is) lb = a_evict_members ch is lb1" by (simp add: a_evict_members_def lb1_def)
  have "lobby_inv lb1"
    using Cons.prems a_move_inv [of lb i 0] by (auto simp: lb1_def a_member_def silent_def)
  moreover have "\<forall>j \<in> set is. a_member ch lb1 j \<longrightarrow> silent ch lb1 j" "set is \<subseteq> live lb1"
    using Cons.prems(2,3) by (auto simp: lb1_def a_member_def silent_def a_move_def)
  ultimately show ?case using Cons.IH unfolding e by blast
qed

lemma a_evict_inv:
  assumes "lobby_inv lb" and "set is \<subseteq> live lb"
  shows "lobby_inv (a_evict_members ch is (a_evict_video ch is lb))"
  using a_evict_video_inv [of lb "{}" ch "is"] a_evict_members_inv [of "a_evict_video ch is lb" "is" ch] assms
  by auto

text \<open>New accounts only add pairs; the two directions stay functional.\<close>

lemma accounts_inv:
  assumes "lobby_inv lb" and "accounts lb \<subseteq> A" and "accounts_ok (lb\<lparr>accounts := A\<rparr>)"
  shows "lobby_inv (lb\<lparr>accounts := A\<rparr>)"
proof -
  have "owned (lb\<lparr>accounts := A\<rparr>) c x = owned lb c x" for c x by (simp add: owned_def)
  moreover have "live_ok (lb\<lparr>accounts := A\<rparr>)"
    using assms(1,2) by (fastforce simp: lobby_inv_def live_ok_def)
  ultimately show ?thesis
    using assms by (simp add: lobby_inv_def index_ok_def watch_ok_def leaving_ok_def)
qed


lemma a_skip_id_inv:
  assumes "lobby_inv lb" and "next_id lb < next_id lb + 1"
  shows "lobby_inv (lb\<lparr>next_id := next_id lb + 1\<rparr>)"
proof -
  have "owned (lb\<lparr>next_id := next_id lb + 1\<rparr>) c x = owned lb c x" for c x by (simp add: owned_def)
  moreover have "i < next_id lb + 1" if "i < next_id lb" for i using that assms(2) by (rule less_trans)
  ultimately show ?thesis
    using assms(1) by (auto simp: lobby_inv_def index_ok_def live_ok_def watch_ok_def leaving_ok_def accounts_ok_def)
qed

end
