(* ===== verification/Server_Refine.thy ===== *)
theory Server_Refine
  imports Server_Frame Lobby
begin

text \<open>
  The handlers implement the lobby: \<open>lobby_of\<close> reads the lobby off a server state, and each operation
  of \<open>server.cpp\<close> that changes sessions, channels, streams or subscriptions is shown to perform the
  lobby operation of the same name. \<open>ds\<close> is the part of the disconnect queue still to be processed.
\<close>

definition member_of :: "session \<Rightarrow> member" where
  "member_of s = \<lparr>mb_auth = s_authenticated s, mb_user = s_user_id s, mb_key = s_public_key s,
     mb_chan = s_channel s, mb_subs = set (s_subs s)\<rparr>"

definition lobby_of :: "disconnect_event list \<Rightarrow> srv \<Rightarrow> lobby" where
  "lobby_of ds st = \<lparr>live = set (sessions st), who = (\<lambda>i. member_of (objs st i)),
     running = (\<lambda>c. set (channel_streams st c)), index = user_sessions st,
     known = set (authed_sessions st),
     leaving = map (\<lambda>d. (de_session d, de_user d, de_channel d)) ds, next_id = next_session_id st,
     accounts = (\<lambda>u. (u_public_key u, word_of_int (u_id u))) ` set (users (db st))\<rparr>"

definition sids :: "srv \<Rightarrow> bool" where
  "sids st \<longleftrightarrow> (\<forall>i. s_id (objs st i) = i)"

lemma lobby_of_fields [simp]: "live (lobby_of ds st) = set (sessions st)"
  "who (lobby_of ds st) i = member_of (objs st i)" "running (lobby_of ds st) c = set (channel_streams st c)"
  "index (lobby_of ds st) = user_sessions st" "known (lobby_of ds st) = set (authed_sessions st)"
  "leaving (lobby_of ds st) = map (\<lambda>d. (de_session d, de_user d, de_channel d)) ds"
  "next_id (lobby_of ds st) = next_session_id st"
  "accounts (lobby_of ds st) = (\<lambda>u. (u_public_key u, word_of_int (u_id u))) ` set (users (db st))"
  by (simp_all add: lobby_of_def)

lemma member_of_fields [simp]: "mb_auth (member_of s) = s_authenticated s"
  "mb_user (member_of s) = s_user_id s" "mb_key (member_of s) = s_public_key s"
  "mb_chan (member_of s) = s_channel s" "mb_subs (member_of s) = set (s_subs s)"
  by (simp_all add: member_of_def)

lemma member_of_strip [simp]: "member_of (strip s) = member_of s"
  by (simp add: member_of_def)

lemma lobby_of_core: "lobby_of ds (core st) = lobby_of ds st"
  by (simp add: lobby_of_def)

lemma lobby_cong: "core st' = core st \<Longrightarrow> lobby_of ds st' = lobby_of ds st"
  by (metis lobby_of_core)

lemma sids_core: "sids (core st) = sids st"
  by (simp add: sids_def)

lemma sids_cong: "core st' = core st \<Longrightarrow> sids st' = sids st"
  by (metis sids_core)

text \<open>Updates of one session, as the lobby sees them.\<close>

lemma lobby_upd: "lobby_of ds (upd i f st) = mb_upd i (\<lambda>_. member_of (f (objs st i))) (lobby_of ds st)"
  by (auto simp: lobby_of_def upd_def mb_upd_def)

lemma sids_upd: "sids st \<Longrightarrow> s_id (f (objs st i)) = s_id (objs st i) \<Longrightarrow> sids (upd i f st)"
  by (simp add: sids_def upd_def)

lemma upd_fields [simp]: "sessions (upd i f st) = sessions st" "channel_streams (upd i f st) = channel_streams st"
  "user_sessions (upd i f st) = user_sessions st" "authed_sessions (upd i f st) = authed_sessions st"
  "db (upd i f st) = db st" "disconnects (upd i f st) = disconnects st"
  "next_session_id (upd i f st) = next_session_id st" "recent_auth (upd i f st) = recent_auth st"
  "files (upd i f st) = files st"
  "objs (upd i f st) j = (if j = i then f (objs st i) else objs st j)"
  by (simp_all add: upd_def)

lemma fold_upd:
  assumes "\<And>s. g (g s) = g s"
  shows "fold (\<lambda>i. upd i g) is st = st\<lparr>objs := \<lambda>j. if j \<in> set is then g (objs st j) else objs st j\<rparr>"
proof (induction "is" arbitrary: st)
  case Nil
  then show ?case by simp
next
  case (Cons i "is")
  have "fold (\<lambda>i. upd i g) (i # is) st = (upd i g st)\<lparr>objs := \<lambda>j. if j \<in> set is then g (objs (upd i g st) j)
          else objs (upd i g st) j\<rparr>" using Cons [of "upd i g st"] by simp
  also have "\<dots> = st\<lparr>objs := \<lambda>j. if j \<in> set (i # is) then g (objs st j) else objs st j\<rparr>"
    using assms by (auto simp: upd_def fun_eq_iff)
  finally show ?case .
qed

section \<open>Streams and subscriptions\<close>

definition drop_sub :: "u32 \<Rightarrow> session \<Rightarrow> session" where
  "drop_sub x s = s\<lparr>s_subs := filter (\<lambda>y. y \<noteq> x) (s_subs s), s_gates := (s_gates s)(x := None)\<rparr>"

lemma drop_sub_twice: "drop_sub x (drop_sub x s) = drop_sub x s"
  by (simp add: drop_sub_def)

lemma core_set [simp]: "core (st\<lparr>channel_streams := x\<rparr>) = (core st)\<lparr>channel_streams := x\<rparr>"
  "core (st\<lparr>objs := f\<rparr>) = (core st)\<lparr>objs := \<lambda>i. strip (f i)\<rparr>"
  "core (st\<lparr>user_sessions := us\<rparr>) = (core st)\<lparr>user_sessions := us\<rparr>"
  "core (st\<lparr>authed_sessions := as\<rparr>) = (core st)\<lparr>authed_sessions := as\<rparr>"
  "core (st\<lparr>db := d\<rparr>) = (core st)\<lparr>db := d\<rparr>"
  "core (st\<lparr>recent_auth := ra\<rparr>) = (core st)\<lparr>recent_auth := ra\<rparr>"
  by (simp_all add: core_def)

definition unsub :: "u32 \<Rightarrow> session \<Rightarrow> session" where
  "unsub x s = s\<lparr>s_subs := filter (\<lambda>y. y \<noteq> x) (s_subs s)\<rparr>"

lemma strip_drop_sub [simp]: "strip (drop_sub x s) = unsub x (strip s)"
  by (simp add: strip_def drop_sub_def unsub_def)

lemma core_stop_video_stream:
  "core (stop_video_stream ch u k st) =
     (let x = video_stream_id u k
      in if x \<notin> set (channel_streams st ch) then core st
         else (core st)\<lparr>channel_streams := (channel_streams st)(ch := filter (\<lambda>y. y \<noteq> x) (channel_streams st ch)),
                objs := \<lambda>j. if j \<in> set (sessions st) then unsub x (strip (objs st j)) else strip (objs st j)\<rparr>)"
proof -
  let ?x = "video_stream_id u k"
  define st1 where "st1 = st\<lparr>video_ingress := al_erase ?x (video_ingress st)\<rparr>"
  define st2 where "st2 = st1\<lparr>channel_streams := (channel_streams st1)
                                (ch := filter (\<lambda>y. y \<noteq> ?x) (channel_streams st1 ch))\<rparr>"
  define st3 where "st3 = (case session_for_user u st2 of None \<Rightarrow> st2
    | Some sharer \<Rightarrow> upd (s_id sharer) (\<lambda>s. s\<lparr>s_sources := (s_sources s)
        (k := (s_sources s k)\<lparr>ingress_allowed := False, generation := generation (s_sources s k) + 1\<rparr>)\<rparr>) st2)"
  define st4 where "st4 = fold (\<lambda>i. upd i (\<lambda>s. s\<lparr>s_subs := filter (\<lambda>y. y \<noteq> ?x) (s_subs s),
                                s_gates := (s_gates s)(?x := None)\<rparr>)) (sessions st3) st3"
  have ds: "(\<lambda>s. s\<lparr>s_subs := filter (\<lambda>y. y \<noteq> ?x) (s_subs s), s_gates := (s_gates s)(?x := None)\<rparr>)
             = drop_sub ?x" by (simp add: drop_sub_def fun_eq_iff)
  have c3: "core st3 = core st2" by (simp add: st3_def core_simps split: option.split)
  have c4: "core st4 = (core st3)\<lparr>objs := \<lambda>j. if j \<in> set (sessions st3) then unsub ?x (strip (objs st3 j))
                                               else strip (objs st3 j)\<rparr>"
    by (simp add: st4_def ds fold_upd drop_sub_twice if_distrib [of strip] cong: if_cong)
  also have "\<dots> = (core st2)\<lparr>objs := \<lambda>j. if j \<in> set (sessions st2) then unsub ?x (strip (objs st2 j))
                                               else strip (objs st2 j)\<rparr>"
    using core_eqD [OF c3] c3 by (simp cong: if_cong)
  finally have c: "core st4 = (core st)\<lparr>channel_streams := channel_streams st2,
      objs := \<lambda>j. if j \<in> set (sessions st) then unsub ?x (strip (objs st j)) else strip (objs st j)\<rparr>"
    by (simp add: st2_def st1_def core_simps cong: if_cong)
  show ?thesis
  proof (cases "?x \<in> set (channel_streams st ch)")
    case True
    then have "core (stop_video_stream ch u k st) = core st4"
      unfolding stop_video_stream_def Let_def st1_def [symmetric] st2_def [symmetric]
        st3_def [symmetric] st4_def [symmetric]
      by (simp add: core_fold core_simps) (simp add: st1_def)
    then show ?thesis using True c by (simp add: st2_def st1_def Let_def)
  next
    case False
    then show ?thesis by (simp add: stop_video_stream_def Let_def core_simps)
  qed
qed

lemma lobby_stop_video_stream: "lobby_of ds (stop_video_stream ch u k st) = a_stop ch u k (lobby_of ds st)"
proof -
  have "lobby_of ds (stop_video_stream ch u k st) = lobby_of ds (core (stop_video_stream ch u k st))"
    by (simp add: lobby_of_core)
  also have "\<dots> = a_stop ch u k (lobby_of ds st)"
    by (auto simp: core_stop_video_stream Let_def lobby_of_def a_stop_def unsub_def member_of_def fun_eq_iff)
  finally show ?thesis .
qed


lemma lobby_stop_all: "lobby_of ds (stop_all_video_streams ch u st) = a_stop_all ch u (lobby_of ds st)"
  by (simp add: stop_all_video_streams_def a_stop_all_def lobby_stop_video_stream)

lemma core_clear:
  "core (clear_viewer_subscriptions i n st) = core (upd i (\<lambda>s. s\<lparr>s_subs := [], s_gates := Map.empty\<rparr>) st)"
  by (simp add: clear_viewer_subscriptions_def Let_def core_fold core_simps)

lemma lobby_clear: "lobby_of ds (clear_viewer_subscriptions i n st) = a_clear i (lobby_of ds st)"
  by (simp add: lobby_cong [OF core_clear] lobby_upd a_clear_def mb_upd_def member_of_def)

text \<open>What the building blocks keep beside the lobby.\<close>

lemma sids_stop_video_stream: "sids (stop_video_stream ch u k st) = sids st"
proof -
  have "sids (stop_video_stream ch u k st) = sids (core (stop_video_stream ch u k st))" by (simp add: sids_core)
  also have "\<dots> = sids st" by (auto simp: core_stop_video_stream Let_def sids_def unsub_def)
  finally show ?thesis .
qed

lemma sids_stop_all [simp]: "sids (stop_all_video_streams ch u st) = sids st"
  by (simp add: stop_all_video_streams_def sids_stop_video_stream)

lemma sids_clear [simp]: "sids (clear_viewer_subscriptions i n st) = sids st"
  by (simp add: sids_cong [OF core_clear]) (auto simp: sids_def)

definition rest :: "srv \<Rightarrow> u32 list \<times> u32 \<times> disconnect_event list \<times> database \<times> (u32 \<rightharpoonup> u32)
    \<times> u32 list \<times> (bytes \<times> u64) list \<times> (bytes \<rightharpoonup> bytes)
    \<times> (u32 \<Rightarrow> bool \<times> u32 \<times> bytes \<times> int \<times> bytes \<times> u32 \<times> bool \<times> bool)" where
  "rest st = (sessions st, next_session_id st, disconnects st, db st, user_sessions st,
     authed_sessions st, recent_auth st, files st,
     \<lambda>i. let s = objs st i in (s_authenticated s, s_user_id s, s_username s, s_role s, s_public_key s,
                              s_channel s, s_muted s, s_deafened s))"

lemma rest_core: "rest (core st) = rest st"
  by (simp add: rest_def Let_def)

lemma rest_cong: "core st' = core st \<Longrightarrow> rest st' = rest st"
  by (metis rest_core)

lemma rest_stop_video_stream: "rest (stop_video_stream ch u k st) = rest st"
proof -
  have "rest (stop_video_stream ch u k st) = rest (core (stop_video_stream ch u k st))" by (simp add: rest_core)
  also have "\<dots> = rest st" by (simp add: core_stop_video_stream Let_def rest_def unsub_def fun_eq_iff)
  finally show ?thesis .
qed

lemma rest_stop_all [simp]: "rest (stop_all_video_streams ch u st) = rest st"
  by (simp add: stop_all_video_streams_def rest_stop_video_stream)

lemma rest_clear [simp]: "rest (clear_viewer_subscriptions i n st) = rest st"
  by (simp add: rest_cong [OF core_clear]) (simp add: rest_def fun_eq_iff Let_def)

lemma restD:
  assumes "rest st' = rest st"
  shows "sessions st' = sessions st" "next_session_id st' = next_session_id st"
    "disconnects st' = disconnects st" "db st' = db st" "user_sessions st' = user_sessions st"
    "authed_sessions st' = authed_sessions st" "recent_auth st' = recent_auth st" "files st' = files st"
    "s_authenticated (objs st' i) = s_authenticated (objs st i)" "s_user_id (objs st' i) = s_user_id (objs st i)"
    "s_role (objs st' i) = s_role (objs st i)" "s_public_key (objs st' i) = s_public_key (objs st i)"
    "s_channel (objs st' i) = s_channel (objs st i)" "s_muted (objs st' i) = s_muted (objs st i)"
    "s_deafened (objs st' i) = s_deafened (objs st i)" "s_username (objs st' i) = s_username (objs st i)"
  using assms by (simp_all add: rest_def Let_def fun_eq_iff)

section \<open>Broadcasts\<close>

lemma core_send_all [core_simps]: "core (send_all P ty p st) = core st"
  unfolding send_all_def by (rule core_fold) (simp add: core_simps)

lemma core_send_channel_list [core_simps]: "core (send_channel_list i st) = core st"
  by (simp add: send_channel_list_def core_simps Let_def)

lemma core_send_text_channel_list [core_simps]: "core (send_text_channel_list i st) = core st"
  by (simp add: send_text_channel_list_def core_simps Let_def)

lemma core_send_list_to_all [core_simps]:
  "core (send_list_to_all send_channel_list st) = core st"
  "core (send_list_to_all send_text_channel_list st) = core st"
  unfolding send_list_to_all_def by (rule core_fold, simp add: core_simps)+

lemma core_admin_result [core_simps]: "core (admin_result i m st) = core st"
  by (simp add: admin_result_def core_simps)

lemma core_replay_streams [core_simps]: "core (replay_streams i ch st) = core st"
  unfolding replay_streams_def by (rule core_fold) (simp add: core_simps split: option.split)

lemma core_notify_joined [core_simps]: "core (notify_joined i ch st) = core st"
  unfolding notify_joined_def Let_def by (rule core_fold) (simp add: core_simps)

lemma core_kick_loop [core_simps]: "core (kick_loop i r t is st) = core st"
  by (induction i r t "is" st rule: kick_loop.induct) (simp_all add: Let_def core_simps)

lemma core_set_source [core_simps]: "core (upd i (set_source k f) st) = core st"
  by (rule core_upd) (simp add: set_source_def strip_def)

section \<open>The handlers\<close>

lemma lobby_leave_channel: "lobby_of ds (leave_channel i st) = a_leave i (lobby_of ds st)"
proof -
  let ?s = "objs st i"
  define st1 where "st1 = clear_viewer_subscriptions i True (stop_all_video_streams (s_channel ?s) (s_user_id ?s) st)"
  have "lobby_of ds (leave_channel i st) = lobby_of ds (upd i (\<lambda>s. s\<lparr>s_channel := 0\<rparr>) st1)"
    by (rule lobby_cong) (simp add: leave_channel_def Let_def core_simps st1_def)
  also have "\<dots> = a_move i 0 (lobby_of ds st1)"
    by (simp add: lobby_upd a_move_def mb_upd_def member_of_def)
  also have "\<dots> = a_leave i (lobby_of ds st)"
    by (simp add: st1_def lobby_clear lobby_stop_all a_leave_def)
  finally show ?thesis .
qed

lemma core_enter_channel:
  "core (enter_channel i ch v st) = core (upd i (\<lambda>s. s\<lparr>s_channel := ch\<rparr>)
     (case v of Some (m, d) \<Rightarrow> upd i (\<lambda>s. s\<lparr>s_muted := m, s_deafened := d\<rparr>) st | None \<Rightarrow> st))"
  by (simp add: enter_channel_def Let_def core_simps)

lemma lobby_enter_channel: "lobby_of ds (enter_channel i ch v st) = a_move i ch (lobby_of ds st)"
  by (simp add: lobby_cong [OF core_enter_channel] lobby_upd a_move_def mb_upd_def member_of_def
        split: option.split)

text \<open>A handler that changes nothing the lobby sees, or performs one lobby operation.\<close>

lemma lobby_handle_join:
  "lobby_of ds (handle_join cfg i p st) = lobby_of ds st
   \<or> s_authenticated (objs st i) \<and> (\<exists>ch. lobby_of ds (handle_join cfg i p st) = a_join i ch (lobby_of ds st))"
proof -
  have e: "lobby_of ds (send_error i m c st) = lobby_of ds st" for m c by (rule lobby_cong) (rule core_send_error)
  have j: "lobby_of ds (enter_channel i ch v (if s_channel (objs st i) \<noteq> 0 \<and> s_channel (objs st i) \<noteq> ch
             then leave_channel i st else st)) = a_join i ch (lobby_of ds st)" for ch v
    by (simp add: lobby_enter_channel lobby_leave_channel a_join_def)
  obtain ch r where r: "read_u32 (new_reader p) = (ch, r)" by fastforce
  show ?thesis
    unfolding handle_join_def Let_def r prod.case case_prod_beta
    by (cases "get_channel ch (db st)") (auto simp: e j simp del: member_of_fields)
qed


lemma lobby_handle_leave:
  "lobby_of ds (handle_leave i st) = lobby_of ds st
   \<or> s_authenticated (objs st i) \<and> lobby_of ds (handle_leave i st) = a_leave i (lobby_of ds st)"
  by (simp add: handle_leave_def Let_def lobby_leave_channel)

lemma lobby_insert_stream:
  "lobby_of ds (insert_stream ch x st) =
     (lobby_of ds st)\<lparr>running := (running (lobby_of ds st))(ch := insert x (running (lobby_of ds st) ch))\<rparr>"
  by (auto simp: insert_stream_def lobby_of_def set_insort_insert fun_eq_iff)

lemma core_share_start:
  "core (handle_share_start i p st) = core st
   \<or> (\<exists>k. video_source_valid k \<and> s_authenticated (objs st i) \<and> s_channel (objs st i) \<noteq> 0
        \<and> core (handle_share_start i p st)
          = core (insert_stream (s_channel (objs st i)) (video_stream_id (s_user_id (objs st i)) k) st))"
proof -
  have v: "video_source_valid k" if "read_share p = Some (c, w, h, k)" for c w h k
    using that by (auto simp: read_share_def Let_def split: prod.splits if_splits)
  have f: "core (fold (\<lambda>j st. if P st j then announce_video_stream j x (objs st i) False st else st) is st1) = core st1"
    for P x "is" st1 by (rule core_fold) (simp add: core_simps)
  show ?thesis
    using v by (auto simp: handle_share_start_def Let_def f core_set_source split: option.split)
qed

lemma lobby_share_start:
  "lobby_of ds (handle_share_start i p st) = lobby_of ds st
   \<or> (\<exists>k. video_source_valid k \<and> s_authenticated (objs st i) \<and> s_channel (objs st i) \<noteq> 0
        \<and> lobby_of ds (handle_share_start i p st) = a_start i k (lobby_of ds st))"
  using core_share_start [of i p st]
  by (auto dest!: lobby_cong [where ds = ds] simp: lobby_insert_stream a_start_def Let_def)

lemma core_share_update: "core (handle_share_update i p st) = core st"
  unfolding handle_share_update_def by (simp add: core_set_source Let_def split: option.split)

lemma lobby_share_stop:
  "lobby_of ds (handle_share_stop i p st) = lobby_of ds st
   \<or> (\<exists>ch u k. lobby_of ds (handle_share_stop i p st) = a_stop ch u k (lobby_of ds st))"
  by (auto simp: handle_share_stop_def Let_def lobby_stop_video_stream)

lemma lobby_unsubscribe:
  "lobby_of ds (unsubscribe i t st) = a_watch i (mb_subs (who (lobby_of ds st) i) - {t}) (lobby_of ds st)"
proof -
  have "core (unsubscribe i t st) = core (upd i (\<lambda>s. s\<lparr>s_subs := filter (\<lambda>x. x \<noteq> t) (s_subs s),
          s_gates := (s_gates s)(t := None)\<rparr>) st)" by (simp add: unsubscribe_def Let_def core_simps)
  moreover have "set (filter (\<lambda>x. x \<noteq> t) l) = set l - {t}" for l by auto
  ultimately show ?thesis
    using lobby_cong [of "unsubscribe i t st" _ ds]
    by (simp add: lobby_upd a_watch_def mb_upd_def member_of_def del: set_filter)
qed

lemma lobby_subscribe:
  "\<exists>X \<subseteq> insert t (mb_subs (who (lobby_of ds st) i)). lobby_of ds (subscribe e i t b st) = a_watch i X (lobby_of ds st)"
proof -
  define d where "d = (if b then [] else filter (\<lambda>x. x \<noteq> t) (s_subs (objs st i)))"
  define k where "k = filter (\<lambda>x. x \<notin> set d) (s_subs (objs st i))"
  define g where "g = (\<lambda>x. if x \<in> set d then None else s_gates (objs st i) x)"
  let ?X = "if t \<notin> set k then k @ [t] else k"
  define st1 where "st1 = upd i (\<lambda>s. s\<lparr>s_subs := ?X, s_gates := (if t \<notin> set k then g(t \<mapsto>
      (case if t \<in> set d then None else s_gates (objs st i) t of Some g \<Rightarrow> g | None \<Rightarrow> new_gate)
        \<lparr>gate_awaiting := True\<rparr>) else g)\<rparr>) st"
  have "core (subscribe e i t b st) = core st1"
    unfolding subscribe_def Let_def d_def [symmetric] k_def [symmetric] g_def [symmetric] st1_def [symmetric]
    by (rule core_if) (simp_all add: core_simps core_fold)
  from lobby_cong [OF this, of ds] have "lobby_of ds (subscribe e i t b st) = a_watch i (set ?X) (lobby_of ds st)"
    by (simp add: st1_def lobby_upd a_watch_def mb_upd_def member_of_def)
  moreover have "set ?X \<subseteq> insert t (mb_subs (who (lobby_of ds st) i))" by (auto simp: k_def)
  ultimately show ?thesis by blast
qed

text \<open>What \<open>SCREEN_SHARE_VIEW\<close> leaves watched runs in the sender's channel, or was watched before.\<close>

lemma lobby_share_view:
  "lobby_of ds (handle_share_view e i p st) = lobby_of ds st
   \<or> (\<exists>X \<subseteq> mb_subs (who (lobby_of ds st) i) \<union> running (lobby_of ds st) (s_channel (objs st i)).
        lobby_of ds (handle_share_view e i p st) = a_watch i X (lobby_of ds st))"
proof -
  obtain t r where r: "read_u32 (new_reader p) = (t, r)" by fastforce
  define Q where "Q lb \<longleftrightarrow> lb = lobby_of ds st \<or> (\<exists>X \<subseteq> mb_subs (who (lobby_of ds st) i) \<union>
      running (lobby_of ds st) (s_channel (objs st i)). lb = a_watch i X (lobby_of ds st))" for lb
  have "Q (lobby_of ds st)" by (simp add: Q_def)
  moreover have "Q (lobby_of ds (clear_viewer_subscriptions i True st))"
    using lobby_clear [of ds i True st] by (auto simp: a_clear_eq Q_def)
  moreover have "Q (lobby_of ds (unsubscribe i t st))"
    using lobby_unsubscribe [of ds i t st] unfolding Q_def by blast
  moreover have "Q (lobby_of ds (subscribe e i t b st))"
    if "t \<in> set (channel_streams st (s_channel (objs st i)))" for b
  proof -
    obtain X where X: "X \<subseteq> insert t (mb_subs (who (lobby_of ds st) i))"
        "lobby_of ds (subscribe e i t b st) = a_watch i X (lobby_of ds st)"
      using lobby_subscribe [of t ds st i e b] by blast
    have "X \<subseteq> mb_subs (who (lobby_of ds st) i) \<union> running (lobby_of ds st) (s_channel (objs st i))"
      using X(1) that by auto
    with X(2) show ?thesis unfolding Q_def by blast
  qed
  ultimately have "Q (lobby_of ds (handle_share_view e i p st))"
    unfolding handle_share_view_def Let_def r prod.case by auto
  then show ?thesis by (simp add: Q_def)
qed

end
