(* ===== verification/Server_Invariant.thy ===== *)
theory Server_Invariant
  imports Server_Refine
begin

lemma lobby_fold:
  "(\<And>x st. lobby_of ds (f x st) = g x (lobby_of ds st)) \<Longrightarrow> lobby_of ds (fold f xs st) = fold g xs (lobby_of ds st)"
  by (induction xs arbitrary: st) simp_all

lemma lobby_evict_video:
  "lobby_of ds (evict_video ch st) = a_evict_video ch (sessions st) (lobby_of ds st)"
  unfolding evict_video_def a_evict_video_def
  by (rule lobby_fold) (simp add: a_member_def lobby_clear lobby_stop_all)

lemma lobby_evict_members:
  "lobby_of ds (evict_members ch st) = a_evict_members ch (sessions st) (lobby_of ds st)"
  unfolding evict_members_def a_evict_members_def
proof (rule lobby_fold)
  fix i st
  have "lobby_of ds (send_to i ty p (upd i (\<lambda>s. s\<lparr>s_channel := 0\<rparr>) st)) = a_move i 0 (lobby_of ds st)" for ty p
    by (simp add: lobby_cong [OF core_send_to] lobby_upd a_move_def mb_upd_def member_of_def)
  then show "lobby_of ds (if s_authenticated (objs st i) \<and> s_channel (objs st i) = ch
        then send_to i USER_LEFT_CHANNEL (left_message (s_user_id (objs st i)) ch)
               (upd i (\<lambda>s. s\<lparr>s_channel := 0\<rparr>) st) else st)
      = (if a_member ch (lobby_of ds st) i then a_move i 0 (lobby_of ds st) else lobby_of ds st)"
    by (simp add: a_member_def)
qed

text \<open>A change of rows that leaves accounts alone does not show in the lobby.\<close>

definition same_accounts :: "database \<Rightarrow> database \<Rightarrow> bool" where
  "same_accounts d d' \<longleftrightarrow> user_seq d' = user_seq d
     \<and> map (\<lambda>u. (u_public_key u, u_id u)) (users d') = map (\<lambda>u. (u_public_key u, u_id u)) (users d)"

lemma same_accounts_refl [simp]: "same_accounts d d" by (simp add: same_accounts_def)

lemma same_accounts_trans: "same_accounts a b \<Longrightarrow> same_accounts b c \<Longrightarrow> same_accounts a c"
  by (simp add: same_accounts_def)

lemma accounts_image:
  "(\<lambda>u. (u_public_key u, word_of_int (u_id u) :: u32)) ` set us
     = (\<lambda>(k, i). (k, word_of_int i)) ` set (map (\<lambda>u. (u_public_key u, u_id u)) us)"
  by (simp add: image_image)

lemma lobby_same_accounts:
  "same_accounts (db st) d \<Longrightarrow> lobby_of ds (st\<lparr>db := d\<rparr>) = lobby_of ds st"
  by (simp add: lobby_of_def same_accounts_def accounts_image del: set_map)

lemma same_accounts_update_user:
  "(\<And>u. u_id (f u) = u_id u) \<Longrightarrow> (\<And>u. u_public_key (f u) = u_public_key u) \<Longrightarrow>
     same_accounts d (update_user i f d)"
  by (auto simp: same_accounts_def update_user_def)

lemma same_accounts_ops:
  "same_accounts d (set_user_role i r d)" "same_accounts d (update_last_login i t d)"
  "same_accounts d (update_display_name i n d)" "same_accounts d (snd (create_channel n mx so d))"
  "same_accounts d (delete_channel i d)" "same_accounts d (snd (rename_channel i n d))"
  "same_accounts d (snd (create_text_channel n so d))" "same_accounts d (delete_text_channel i d)"
  "same_accounts d (snd (insert_message c s n txt ts d))"
  "same_accounts d (snd (insert_attachment mid n sz mi p t d))"
  "same_accounts d (pin_message m d)" "same_accounts d (unpin_message m d)"
  "same_accounts d (soft_delete_message m d)" "same_accounts d (mark_attachment_uploaded a d)"
  "same_accounts d (snd (purge_old_messages dy t d))" "same_accounts d (snd (purge_old_files dy t d))"
  "same_accounts d (snd (purge_oldest_files sz d))"
  by (simp_all add: set_user_role_def update_last_login_def update_display_name_def same_accounts_update_user)
     (simp_all add: same_accounts_def create_channel_def delete_channel_def rename_channel_def
       create_text_channel_def delete_text_channel_def insert_message_def insert_attachment_def pin_message_def
       unpin_message_def soft_delete_message_def mark_attachment_uploaded_def purge_old_messages_def
       purge_old_files_def purge_oldest_files_def Let_def)

lemma same_accounts_read_attachments: "same_accounts d (snd (read_attachments t m i k r d))"
proof (induction k arbitrary: i r d)
  case (Suc k)
  show ?case
    using same_accounts_trans [OF same_accounts_ops(10) Suc.IH] by (simp add: Let_def case_prod_beta)
qed simp

section \<open>Departures\<close>

lemma session_for_user_lobby:
  assumes "sids st"
  shows "session_for_user u st = (case a_current u (lobby_of ds st) of None \<Rightarrow> None | Some i \<Rightarrow> Some (objs st i))"
  by (auto simp: session_for_user_def a_current_def get_session_def split: option.split)

lemma lobby_clear_if:
  "lobby_of ds (if b then clear_viewer_subscriptions i n st else st)
     = (if b then a_clear i (lobby_of ds st) else lobby_of ds st)"
  by (simp add: lobby_clear)

lemma lobby_depart:
  "lobby_of ds (depart i u ch b st) = (let lb = a_stop_all ch u (lobby_of ds st) in if b then a_clear i lb else lb)"
  by (simp add: depart_def Let_def lobby_cong [OF core_send_all] lobby_clear lobby_stop_all)

lemma lobby_process_disconnect:
  assumes "sids st"
  shows "lobby_of ds (process_disconnect i u ch st) = a_depart i u ch (lobby_of ds st)"
proof -
  define st1 where "st1 = (if user_sessions st u = Some i
      then st\<lparr>user_sessions := (user_sessions st)(u := None)\<rparr> else st)"
  define st2 where "st2 = st1\<lparr>control_buckets := (control_buckets st1)(i := None)\<rparr>"
  define st3 where "st3 = (if i \<in> set (authed_sessions st2)
      then upd i (\<lambda>s. s\<lparr>s_sources := (\<lambda>k. (s_sources s k)\<lparr>ingress_allowed := False\<rparr>)\<rparr>)
             (st2\<lparr>authed_sessions := filter (\<lambda>j. j \<noteq> i) (authed_sessions st2)\<rparr>) else st2)"
  have k: "i \<in> set (authed_sessions st2) \<longleftrightarrow> i \<in> set (authed_sessions st)" by (simp add: st2_def st1_def)
  have c2: "core st2 = core st1" by (simp add: st2_def core_simps)
  have "lobby_of ds st3 = a_forget i u (lobby_of ds st)"
  proof -
    have "core st3 = (if i \<in> set (authed_sessions st2)
        then (core st2)\<lparr>authed_sessions := filter (\<lambda>j. j \<noteq> i) (authed_sessions st2)\<rparr> else core st2)"
      by (simp add: st3_def core_simps)
    also have "\<dots> = (core st1)\<lparr>authed_sessions := filter (\<lambda>j. j \<noteq> i) (authed_sessions st)\<rparr>"
    proof (cases "i \<in> set (authed_sessions st)")
      case True
      then show ?thesis using k c2 by (simp add: st2_def st1_def)
    next
      case False
      then have "filter (\<lambda>j. j \<noteq> i) (authed_sessions st) = authed_sessions st" by (intro filter_True) auto
      moreover have "authed_sessions (core st1) = authed_sessions st" by (simp add: st1_def)
      moreover have "x = x\<lparr>authed_sessions := authed_sessions x\<rparr>" for x :: srv by simp
      ultimately show ?thesis using False k c2 by metis
    qed
    finally have "lobby_of ds st3 = lobby_of ds ((core st1)\<lparr>authed_sessions := filter (\<lambda>j. j \<noteq> i) (authed_sessions st)\<rparr>)"
      by (metis lobby_of_core)
    also have "\<dots> = a_forget i u (lobby_of ds st)"
      by (auto simp: st1_def lobby_of_def a_forget_def)
    finally show ?thesis .
  qed
  moreover have "sids st3" using assms by (auto simp: st3_def st2_def st1_def sids_def)
  moreover have "s_channel (objs st3 a) = s_channel (objs st a)" for a by (simp add: st3_def st2_def st1_def)
  ultimately show ?thesis
    unfolding process_disconnect_def Let_def st1_def [symmetric] st2_def [symmetric] st3_def [symmetric]
    unfolding k
    by (cases "a_current u (a_forget i u (lobby_of ds st))")
       (auto simp: a_depart_def Let_def session_for_user_lobby [where ds = ds] lobby_depart lobby_clear sids_def)
qed


text \<open>What a departure leaves alone.\<close>

definition frame :: "srv \<Rightarrow> u32 list \<times> u32 \<times> disconnect_event list \<times> database \<times> (bytes \<times> u64) list
    \<times> (u32 \<Rightarrow> u32 \<times> bool \<times> u32 \<times> bytes \<times> int)" where
  "frame st = (sessions st, next_session_id st, disconnects st, db st, recent_auth st,
     \<lambda>i. (s_id (objs st i), s_authenticated (objs st i), s_user_id (objs st i), s_public_key (objs st i),
          s_role (objs st i)))"

lemma frame_core: "frame (core st) = frame st"
  by (simp add: frame_def)

lemma frame_cong: "core st' = core st \<Longrightarrow> frame st' = frame st"
  by (metis frame_core)

lemma frame_stop_video_stream: "frame (stop_video_stream ch u k st) = frame st"
proof -
  have "frame (stop_video_stream ch u k st) = frame (core (stop_video_stream ch u k st))"
    by (simp add: frame_core)
  also have "\<dots> = frame st"
    by (simp add: core_stop_video_stream Let_def frame_def unsub_def fun_eq_iff)
  finally show ?thesis .
qed

lemma frame_stop_all [simp]: "frame (stop_all_video_streams ch u st) = frame st"
  by (simp add: stop_all_video_streams_def frame_stop_video_stream)

lemma frame_clear [simp]: "frame (clear_viewer_subscriptions i n st) = frame st"
  by (simp add: frame_cong [OF core_clear]) (simp add: frame_def fun_eq_iff)

lemma frame_depart [simp]: "frame (depart i u ch b st) = frame st"
  by (simp add: depart_def Let_def frame_cong [OF core_send_all])

lemma frame_process_disconnect [simp]: "frame (process_disconnect i u ch st) = frame st"
proof -
  have 1: "frame (st\<lparr>user_sessions := us\<rparr>) = frame st" "frame (st\<lparr>control_buckets := cb\<rparr>) = frame st"
    "frame (st\<lparr>authed_sessions := as\<rparr>) = frame st"
    "frame (upd j (\<lambda>s. s\<lparr>s_sources := f s\<rparr>) st) = frame st" for us cb as j f st
    by (simp_all add: frame_def fun_eq_iff)
  have 2: "frame (case q of None \<Rightarrow> a | Some c \<Rightarrow> if P c then b else d) = x"
    if "frame a = x" "frame b = x" "frame d = x" for q P a b d x
    using that by (simp split: option.split)
  show ?thesis unfolding process_disconnect_def Let_def by (simp add: 1 2)
qed

lemma frameD:
  assumes "frame st' = frame st"
  shows "sessions st' = sessions st" "next_session_id st' = next_session_id st"
    "disconnects st' = disconnects st" "db st' = db st" "recent_auth st' = recent_auth st"
    "s_id (objs st' i) = s_id (objs st i)" "s_authenticated (objs st' i) = s_authenticated (objs st i)"
    "s_user_id (objs st' i) = s_user_id (objs st i)" "s_public_key (objs st' i) = s_public_key (objs st i)"
    "s_role (objs st' i) = s_role (objs st i)"
  using assms by (simp_all add: frame_def fun_eq_iff)

lemma sids_frame: "frame st' = frame st \<Longrightarrow> sids st' = sids st"
  using frameD(6) [of st' st] by (simp add: sids_def)

section \<open>Signing in\<close>

lemma lobby_kick_duplicate:
  assumes "sids st"
  shows "lobby_of ds (kick_duplicate sid pk i st) =
      (let lb = lobby_of ds st
       in if i \<noteq> sid \<and> mb_auth (who lb i) \<and> mb_key (who lb i) = pk then a_kick i lb else lb)
    \<and> sids (kick_duplicate sid pk i st) \<and> sessions (kick_duplicate sid pk i st) = sessions st
    \<and> db (kick_duplicate sid pk i st) = db st \<and> disconnects (kick_duplicate sid pk i st) = disconnects st"
proof -
  let ?s = "objs st i"
  define st1 where "st1 = send_error i (str ''Signed in from another location'') Replaced st"
  define st2 where "st2 = process_disconnect i (s_user_id ?s) (s_channel ?s) st1"
  define st3 where "st3 = disconnect i (upd i (\<lambda>s. s\<lparr>s_channel := 0, s_authenticated := False\<rparr>) st2)"
  have c1: "core st1 = core st" by (simp add: st1_def core_simps)
  have s1: "sids st1" using assms sids_cong [OF c1] by simp
  have f2: "frame st2 = frame st" using frame_cong [OF c1] by (simp add: st2_def)
  have "lobby_of ds st2 = a_depart i (s_user_id ?s) (s_channel ?s) (lobby_of ds st)"
    by (simp add: st2_def lobby_process_disconnect [OF s1] lobby_cong [OF c1])
  moreover have "lobby_of ds st3 = mb_upd i (\<lambda>m. m\<lparr>mb_chan := 0, mb_auth := False\<rparr>) (lobby_of ds st2)"
    by (simp add: st3_def lobby_cong [OF core_disconnect] lobby_upd mb_upd_def member_of_def)
  ultimately have l: "lobby_of ds st3 = a_kick i (lobby_of ds st)" by (simp add: a_kick_def)
  have s3: "sids st3"
    using assms sids_frame [OF f2] unfolding st3_def sids_cong [OF core_disconnect] by (intro sids_upd) simp_all
  have k: "sessions st3 = sessions st" "db st3 = db st" "disconnects st3 = disconnects st"
    using frameD [OF f2] core_eqD [OF core_disconnect] by (simp_all add: st3_def)
  show ?thesis
    using l s3 k assms
    by (simp add: kick_duplicate_def Let_def st3_def [symmetric] st2_def [symmetric] st1_def [symmetric])
qed

lemma lobby_kick_duplicates:
  "sids st \<Longrightarrow> lobby_of ds (fold (kick_duplicate sid pk) js st) = a_kick_others sid pk js (lobby_of ds st)
     \<and> sids (fold (kick_duplicate sid pk) js st) \<and> sessions (fold (kick_duplicate sid pk) js st) = sessions st
     \<and> db (fold (kick_duplicate sid pk) js st) = db st
     \<and> disconnects (fold (kick_duplicate sid pk) js st) = disconnects st"
proof (induction js arbitrary: st)
  case (Cons i js)
  then show ?case
    using lobby_kick_duplicate [OF Cons.prems, where ds = ds and i = i and sid = sid and pk = pk]
      Cons.IH [of "kick_duplicate sid pk i st"]
    by (simp add: a_kick_others_def Let_def)
qed (simp add: a_kick_others_def)

lemma core_send_user_lists [core_simps]:
  "core (fold (\<lambda>c st. if P c st then send_to sid ty (f c st) st else st) cs st) = core st"
  by (rule core_fold) (simp add: core_simps)

lemma lobby_auth_success:
  "lobby_of ds (auth_success cfg e sid a u st) = a_login sid (ar_pubkey a) (word_of_int (u_id u)) (lobby_of ds st)
   \<and> (sids st \<longrightarrow> sids (auth_success cfg e sid a u st))
   \<and> sessions (auth_success cfg e sid a u st) = sessions st
   \<and> disconnects (auth_success cfg e sid a u st) = disconnects st
   \<and> db (auth_success cfg e sid a u st) = update_last_login (word_of_int (u_id u)) (sint (unix_time e)) (db st)"
proof -
  let ?uid = "word_of_int (u_id u) :: u32"
  define st1 where "st1 = upd sid (\<lambda>s. s\<lparr>s_authenticated := True, s_user_id := ?uid,
      s_username := u_display_name u, s_role := u_role u, s_public_key := ar_pubkey a,
      s_version := ar_version a\<rparr>) st"
  define st2 where "st2 = st1\<lparr>user_sessions := (user_sessions st1)(?uid \<mapsto> sid),
      authed_sessions := (if sid \<in> set (authed_sessions st1) then authed_sessions st1
                          else authed_sessions st1 @ [sid]),
      db := update_last_login ?uid (sint (unix_time e)) (db st1)\<rparr>"
  define st3 where "st3 = upd sid (\<lambda>s. s\<lparr>s_token := random_token e\<rparr>) st2"
  have c: "core (auth_success cfg e sid a u st) = core st3"
    unfolding auth_success_def Let_def st1_def [symmetric] st2_def [symmetric] st3_def [symmetric]
    by (simp add: core_simps)
  have "lobby_of ds st3 = lobby_of ds st2"
    by (auto simp: st3_def lobby_of_def member_of_def fun_eq_iff)
  also have "\<dots> = lobby_of ds (st1\<lparr>user_sessions := (user_sessions st1)(?uid \<mapsto> sid),
      authed_sessions := (if sid \<in> set (authed_sessions st1) then authed_sessions st1
                          else authed_sessions st1 @ [sid])\<rparr>)"
    unfolding st2_def by (rule lobby_same_accounts) (simp add: same_accounts_ops)
  also have "\<dots> = a_login sid (ar_pubkey a) ?uid (lobby_of ds st)"
    by (auto simp: lobby_of_def st1_def a_login_def mb_upd_def member_of_def fun_eq_iff)
  finally show ?thesis
    using core_eqD [OF c] sids_cong [OF c] lobby_cong [OF c]
    by (auto simp: st3_def st2_def st1_def sids_def)
qed


definition accounts_of :: "database \<Rightarrow> (bytes \<times> u32) set" where
  "accounts_of d = (\<lambda>u. (u_public_key u, word_of_int (u_id u))) ` set (users d)"

text \<open>Fewer than \<open>2^31\<close> accounts: user ids fit the \<open>int\<close> the statements bind.\<close>

definition few_users :: "database \<Rightarrow> bool" where
  "few_users d \<longleftrightarrow> user_seq d < 2 ^ 31"

lemma word_of_int_inj32:
  "0 \<le> a \<Longrightarrow> a < 2 ^ 31 \<Longrightarrow> 0 \<le> b \<Longrightarrow> b < 2 ^ 31 \<Longrightarrow> (word_of_int a :: u32) = word_of_int b \<longleftrightarrow> a = b"
  by (auto simp: word_of_int_eq_iff take_bit_int_eq_self)

lemma accounts_ok_db:
  assumes "db_inv d" and "few_users d"
  shows "\<forall>(k, u) \<in> accounts_of d. \<forall>(k', u') \<in> accounts_of d. k = k' \<longleftrightarrow> u = u'"
proof -
  have ids: "1 \<le> u_id r \<and> u_id r < 2 ^ 31" if "r \<in> set (users d)" for r
    using assms that by (force simp: db_inv_def ids_ok_def few_users_def)
  have "u_public_key r = u_public_key r' \<longleftrightarrow> r = r'" "u_id r = u_id r' \<longleftrightarrow> r = r'"
    if "r \<in> set (users d)" "r' \<in> set (users d)" for r r'
    using assms that by (auto simp: db_inv_def ids_ok_def distinct_map dest: inj_onD)
  moreover have "u_id r = u_id r' \<longleftrightarrow> (word_of_int (u_id r) :: u32) = word_of_int (u_id r')"
    if "r \<in> set (users d)" "r' \<in> set (users d)" for r r'
    using ids [OF that(1)] ids [OF that(2)] word_of_int_inj32 [of "u_id r" "u_id r'"] by simp
  ultimately have "u_public_key r = u_public_key r' \<longleftrightarrow> (word_of_int (u_id r) :: u32) = word_of_int (u_id r')"
    if "r \<in> set (users d)" "r' \<in> set (users d)" for r r'
    using that by metis
  then show ?thesis by (auto simp: accounts_of_def)
qed

lemma accounts_of_same: "same_accounts d d' \<Longrightarrow> accounts_of d' = accounts_of d \<and> few_users d' = few_users d"
  by (simp add: accounts_of_def same_accounts_def accounts_image few_users_def del: set_map)

lemma login_user_ok:
  assumes inv: "db_inv d" and few: "user_seq d + 1 < 2 ^ 31"
    and l: "login_user cfg pk name fp now d = (res, d')"
  shows "db_inv d' \<and> few_users d' \<and> accounts_of d \<subseteq> accounts_of d'
       \<and> (\<forall>u. res = Inr u \<longrightarrow> (pk, word_of_int (u_id u)) \<in> accounts_of d')"
proof (cases "get_user_by_pubkey pk d")
  case None
  let ?r = "if fp \<in> set (root_fingerprints cfg) then Owner else User"
  obtain ok d1 where c: "create_user pk name fp ?r (sint now) d = (ok, d1)" by fastforce
  have d': "d' = d1" using l None c by (auto simp: login_user_def Let_def split: option.splits if_splits)
  have "db_inv d1" using create_user_inv [OF inv] c by (metis snd_conv)
  moreover have "few_users d1 \<and> accounts_of d \<subseteq> accounts_of d1"
    using c few inv by (auto simp: create_user_def few_users_def accounts_of_def split: if_splits)
  moreover have "(pk, word_of_int (u_id u)) \<in> accounts_of d1" if "res = Inr u" for u
  proof -
    have "get_user_by_pubkey pk d1 = Some u"
      using l None c that by (auto simp: login_user_def Let_def split: option.splits if_splits)
    then show ?thesis by (auto simp: get_user_by_pubkey_def find_Some_iff accounts_of_def intro!: image_eqI)
  qed
  ultimately show ?thesis using d' by blast
next
  case (Some r)
  let ?d1 = "if u_display_name r \<noteq> name then update_display_name (word_of_int (u_id r)) name d else d"
  have r: "r \<in> set (users d)" "u_public_key r = pk"
    using Some by (auto simp: get_user_by_pubkey_def find_Some_iff)
  have d': "d' = ?d1 \<or> d' = set_user_role (word_of_int (u_id r)) Owner ?d1"
    and u: "\<forall>u. res = Inr u \<longrightarrow> u_id u = u_id r"
    using l Some by (auto simp: login_user_def Let_def split: if_splits)
  have 1: "same_accounts d ?d1" by (simp add: same_accounts_ops)
  have "same_accounts d d'" using d' 1 same_accounts_trans [OF 1 same_accounts_ops(1)] by (elim disjE) simp_all
  moreover have "db_inv d'" using d' inv by (auto intro!: user_ops_inv)
  moreover have "(pk, word_of_int (u_id r)) \<in> accounts_of d" using r by (auto simp: accounts_of_def)
  moreover have "few_users d" using few by (simp add: few_users_def)
  ultimately have k: "db_inv d'" "few_users d'" "accounts_of d' = accounts_of d"
      "(pk, word_of_int (u_id r)) \<in> accounts_of d'"
    using accounts_of_same [of d d'] by simp_all
  have "(pk, word_of_int (u_id v)) \<in> accounts_of d'" if "res = Inr v" for v
    using k(4) u [rule_format, OF that] by simp
  with k show ?thesis by blast
qed

section \<open>The invariant of the server\<close>

definition srv_inv :: "srv \<Rightarrow> bool" where
  "srv_inv st \<longleftrightarrow> sids st \<and> db_inv (db st) \<and> few_users (db st) \<and> lobby_inv (lobby_of (disconnects st) st)"

lemma srv_inv_cong: "core st' = core st \<Longrightarrow> srv_inv st' = srv_inv st"
  using sids_cong [of st' st] lobby_cong [of st' st] core_eqD [of st' st] by (simp add: srv_inv_def)

lemma srv_invI:
  assumes "srv_inv st" and "sids st'" and "db st' = db st" and "disconnects st' = disconnects st"
    and "lobby_inv (lobby_of (disconnects st) st')"
  shows "srv_inv st'"
  using assms by (simp add: srv_inv_def)

lemma srv_inv_db:
  assumes "srv_inv st" and "same_accounts (db st) d" and "db_inv d"
  shows "srv_inv (st\<lparr>db := d\<rparr>)"
  using assms accounts_of_same [OF assms(2)] lobby_same_accounts [OF assms(2)]
  by (simp add: srv_inv_def sids_def)

lemma srv_inv_login:
  assumes inv: "srv_inv st" and few: "user_seq (db st) + 1 < 2 ^ 31"
    and l: "login_user cfg pk name fp now (db st) = (res, d')"
  shows "srv_inv (st\<lparr>db := d'\<rparr>)"
proof -
  let ?ds = "disconnects st"
  have d: "db_inv d'" "few_users d'" "accounts_of (db st) \<subseteq> accounts_of d'"
    using login_user_ok [OF _ few l] inv by (auto simp: srv_inv_def)
  have "lobby_of ?ds (st\<lparr>db := d'\<rparr>) = (lobby_of ?ds st)\<lparr>accounts := accounts_of d'\<rparr>"
    by (simp add: lobby_of_def accounts_of_def)
  moreover have "lobby_inv ((lobby_of ?ds st)\<lparr>accounts := accounts_of d'\<rparr>)"
    using inv d(3) accounts_ok_db [OF d(1,2)]
    by (intro accounts_inv) (auto simp: srv_inv_def accounts_ok_def accounts_of_def)
  ultimately show ?thesis using inv d by (simp add: srv_inv_def sids_def)
qed

lemma srv_inv_sign_in:
  assumes inv: "srv_inv st" and live: "sid \<in> set (sessions st)" and new: "\<not> s_authenticated (objs st sid)"
    and acc: "(ar_pubkey a, word_of_int (u_id u)) \<in> accounts_of (db st)"
  shows "srv_inv (auth_success cfg e sid a u (fold (kick_duplicate sid (ar_pubkey a)) (sessions st) st))"
proof -
  let ?pk = "ar_pubkey a" and ?ds = "disconnects st"
  define st4 where "st4 = fold (kick_duplicate sid ?pk) (sessions st) st"
  have i: "lobby_inv (lobby_of ?ds st)" and s: "sids st" using inv by (simp_all add: srv_inv_def)
  have k: "lobby_of ?ds st4 = a_kick_others sid ?pk (sessions st) (lobby_of ?ds st)" "sids st4"
      "sessions st4 = sessions st" "db st4 = db st" "disconnects st4 = ?ds"
    using lobby_kick_duplicates [OF s, where ds = ?ds and sid = sid and pk = ?pk and js = "sessions st"]
    by (auto simp: st4_def)
  note ko = a_kick_others_inv [OF i, of "sessions st" sid ?pk]
  have "lobby_inv (a_login sid ?pk (word_of_int (u_id u)) (lobby_of ?ds st4))"
  proof (rule a_login_inv)
    show "lobby_inv (lobby_of ?ds st4)" "\<not> mb_auth (who (lobby_of ?ds st4) sid)"
      using ko new unfolding k(1) by auto
    show "sid \<in> live (lobby_of ?ds st4)" using live k(3) by simp
    show "(?pk, word_of_int (u_id u)) \<in> accounts (lobby_of ?ds st4)"
      using acc k(4) by (simp add: accounts_of_def)
    show "j = sid" if "j \<in> live (lobby_of ?ds st4)" "mb_auth (who (lobby_of ?ds st4) j)"
        "mb_key (who (lobby_of ?ds st4) j) = ?pk" for j
      using ko that k(3) unfolding k(1) by auto
  qed
  moreover note lobby_auth_success [of ?ds cfg e sid a u st4]
  moreover have "db_inv (db st)" "few_users (db st)" using inv by (simp_all add: srv_inv_def)
  ultimately show ?thesis
    using k user_ops_inv(1) [of "db st"] accounts_of_same [OF same_accounts_ops(2) [of "db st"]]
    by (simp add: srv_inv_def st4_def [symmetric])
qed

lemma srv_inv_auth:
  assumes inv: "srv_inv st" and live: "sid \<in> set (sessions st)" and few: "user_seq (db st) + 1 < 2 ^ 31"
  shows "srv_inv (handle_auth cfg L e sid p st)"
proof (cases "s_authenticated (objs st sid)")
  case True
  then show ?thesis using inv by (simp add: handle_auth_def)
next
  case False
  have err: "srv_inv (send_error sid m c st') = srv_inv st'" for m c st'
    by (rule srv_inv_cong) (rule core_send_error)
  have ra: "srv_inv (st'\<lparr>recent_auth := x\<rparr>) = srv_inv st'" for st' x
    by (simp add: srv_inv_def sids_def lobby_of_def)
  show ?thesis
  proof (cases "parse_auth p")
    case (Inl m)
    then show ?thesis using inv err False by (cases m) (simp add: handle_auth_def)
  next
    case (Inr a)
    let ?fp = "public_key_fingerprint L (ar_pubkey a)"
    define st1 where "st1 = st\<lparr>recent_auth := prune_recent (unix_time e) (recent_auth st)\<rparr>"
    define st2 where "st2 = st1\<lparr>recent_auth := al_put ?fp (ar_timestamp a) (recent_auth st1)\<rparr>"
    obtain res d' where l: "login_user cfg (ar_pubkey a) (ar_name a) ?fp (unix_time e) (db st2) = (res, d')"
      by fastforce
    have inv2: "srv_inv st1" "srv_inv st2" using inv by (simp_all add: st1_def st2_def ra)
    have f2: "user_seq (db st2) + 1 < 2 ^ 31" using few by (simp add: st2_def st1_def)
    have i3: "srv_inv (st2\<lparr>db := d'\<rparr>)" by (rule srv_inv_login [OF inv2(2) f2 l])
    have "srv_inv (auth_success cfg e sid a u (fold (kick_duplicate sid (ar_pubkey a))
            (sessions (st2\<lparr>db := d'\<rparr>)) (st2\<lparr>db := d'\<rparr>)))" if "res = Inr u" for u
      using srv_inv_sign_in [OF i3, of sid a u] login_user_ok [OF _ f2 l] inv2 live False that
      by (simp add: st2_def st1_def srv_inv_def)
    then show ?thesis
      using Inr False inv i3 inv2(1) err l
      unfolding handle_auth_def Let_def st1_def [symmetric] st2_def [symmetric]
      by (auto simp: st2_def [symmetric] split: sum.split)
  qed
qed


section \<open>Every message keeps the invariant\<close>

lemma srv_inv_frame:
  "srv_inv st \<Longrightarrow> frame st' = frame st \<Longrightarrow> lobby_inv (lobby_of (disconnects st) st') \<Longrightarrow> srv_inv st'"
  using frameD(3,4) [of st' st] sids_frame [of st' st] by (simp add: srv_inv_def)

lemma srv_inv_rows:
  assumes "srv_inv st" and "core st' = core (st\<lparr>db := d\<rparr>)" and "same_accounts (db st) d" and "db_inv d"
  shows "srv_inv st'"
  using srv_inv_db [OF assms(1,3,4)] srv_inv_cong [OF assms(2)] by simp

lemma frame_upd: "s_id (f (objs st i)) = s_id (objs st i) \<Longrightarrow> s_authenticated (f (objs st i)) = s_authenticated (objs st i) \<Longrightarrow>
   s_user_id (f (objs st i)) = s_user_id (objs st i) \<Longrightarrow> s_public_key (f (objs st i)) = s_public_key (objs st i) \<Longrightarrow>
   s_role (f (objs st i)) = s_role (objs st i) \<Longrightarrow> frame (upd i f st) = frame st"
  by (simp add: frame_def fun_eq_iff)

lemma frame_leave_channel [simp]: "frame (leave_channel i st) = frame st"
  by (simp add: leave_channel_def Let_def frame_cong [OF core_send_all] frame_upd)

lemma frame_enter_channel [simp]: "frame (enter_channel i ch v st) = frame st"
  by (simp add: frame_cong [OF core_enter_channel] frame_upd split: option.split)

lemma frame_handle_join: "frame (handle_join cfg i p st) = frame st"
proof -
  have e: "frame (send_error i m c st) = frame st" for m c by (rule frame_cong) (rule core_send_error)
  obtain ch r where r: "read_u32 (new_reader p) = (ch, r)" by fastforce
  show ?thesis
    unfolding handle_join_def Let_def r prod.case case_prod_beta
    by (cases "get_channel ch (db st)") (simp_all add: e)
qed

lemma srv_inv_join:
  assumes inv: "srv_inv st" and "i \<in> set (sessions st)"
  shows "srv_inv (handle_join cfg i p st)"
proof (rule srv_inv_frame [OF inv frame_handle_join])
  have l: "lobby_inv (lobby_of (disconnects st) st)" using inv by (simp add: srv_inv_def)
  then show "lobby_inv (lobby_of (disconnects st) (handle_join cfg i p st))"
    using lobby_handle_join [of "disconnects st" cfg i p st] a_join_inv [OF l, of i] assms(2) by auto
qed

lemma srv_inv_leave:
  assumes inv: "srv_inv st" and "i \<in> set (sessions st)"
  shows "srv_inv (handle_leave i st)"
proof (rule srv_inv_frame [OF inv])
  show "frame (handle_leave i st) = frame st" by (simp add: handle_leave_def Let_def)
  have l: "lobby_inv (lobby_of (disconnects st) st)" using inv by (simp add: srv_inv_def)
  then show "lobby_inv (lobby_of (disconnects st) (handle_leave i st))"
    using lobby_handle_leave [of "disconnects st" i st] a_leave_inv [OF l, of i] assms(2) by auto
qed

lemma srv_inv_share_start:
  assumes inv: "srv_inv st" and "i \<in> set (sessions st)"
  shows "srv_inv (handle_share_start i p st)"
proof (rule srv_inv_frame [OF inv])
  show "frame (handle_share_start i p st) = frame st"
  proof -
    have "frame (insert_stream ch x st) = frame st" for ch x by (simp add: insert_stream_def frame_def)
    then show ?thesis using core_share_start [of i p st] frame_cong by metis
  qed
  have l: "lobby_inv (lobby_of (disconnects st) st)" using inv by (simp add: srv_inv_def)
  then show "lobby_inv (lobby_of (disconnects st) (handle_share_start i p st))"
    using lobby_share_start [of "disconnects st" i p st] a_start_inv [OF l, of i] assms(2) by auto
qed

lemma srv_inv_share_stop:
  assumes inv: "srv_inv st"
  shows "srv_inv (handle_share_stop i p st)"
proof (rule srv_inv_frame [OF inv])
  show "frame (handle_share_stop i p st) = frame st"
    by (simp add: handle_share_stop_def Let_def frame_stop_video_stream)
  show "lobby_inv (lobby_of (disconnects st) (handle_share_stop i p st))"
    using inv lobby_share_stop [of "disconnects st" i p st] a_stop_inv by (auto simp: srv_inv_def)
qed

lemma core_subscribe: "\<exists>X g. core (subscribe e i t b st) = core (upd i (\<lambda>s. s\<lparr>s_subs := X, s_gates := g\<rparr>) st)"
  unfolding subscribe_def Let_def by (intro exI core_if) (simp_all only: core_simps core_fold)

lemma frame_share_view: "frame (handle_share_view e i p st) = frame st"
proof -
  obtain t r where r: "read_u32 (new_reader p) = (t, r)" by fastforce
  have s: "frame (subscribe e i t b st) = frame st" for b
  proof -
    obtain X g where "core (subscribe e i t b st) = core (upd i (\<lambda>s. s\<lparr>s_subs := X, s_gates := g\<rparr>) st)"
      using core_subscribe by blast
    from frame_cong [OF this] show ?thesis by (simp add: frame_upd)
  qed
  have u: "frame (unsubscribe i t st) = frame st"
    by (simp add: unsubscribe_def Let_def frame_cong [OF core_notify_viewer_change] frame_upd)
  show ?thesis unfolding handle_share_view_def Let_def r prod.case by (simp add: s u)
qed

lemma srv_inv_share_view:
  assumes inv: "srv_inv st" and "i \<in> set (sessions st)"
  shows "srv_inv (handle_share_view e i p st)"
proof (rule srv_inv_frame [OF inv frame_share_view])
  have l: "lobby_inv (lobby_of (disconnects st) st)" using inv by (simp add: srv_inv_def)
  then have "mb_subs (who (lobby_of (disconnects st) st) i) \<subseteq> running (lobby_of (disconnects st) st) (s_channel (objs st i))"
    using assms(2) by (simp add: lobby_inv_def watch_ok_def)
  then have "lobby_inv (a_watch i X (lobby_of (disconnects st) st))" if "X \<subseteq> mb_subs (who (lobby_of (disconnects st) st) i) \<union>
      running (lobby_of (disconnects st) st) (s_channel (objs st i))" for X
    using a_watch_inv [OF l, of X i] that by (simp add: Un_absorb1)
  then show "lobby_inv (lobby_of (disconnects st) (handle_share_view e i p st))"
    using lobby_share_view [of "disconnects st" e i p st] l by metis
qed

lemma frame_fold: "(\<And>x st. frame (f x st) = frame st) \<Longrightarrow> frame (fold f xs st) = frame st"
  by (induction xs arbitrary: st) simp_all

lemma frame_evict [simp]: "frame (evict_video ch st) = frame st" "frame (evict_members ch st) = frame st"
  unfolding evict_video_def evict_members_def
  by (rule frame_fold, simp add: frame_upd frame_cong [OF core_send_to])+

lemma srv_inv_evict:
  assumes inv: "srv_inv st"
  shows "srv_inv (evict_members ch (evict_video ch st))"
proof (rule srv_inv_frame [OF inv])
  have "sessions (evict_video ch st) = sessions st" using frameD(1) [OF frame_evict(1)] .
  then show "lobby_inv (lobby_of (disconnects st) (evict_members ch (evict_video ch st)))"
    using inv a_evict_inv [of "lobby_of (disconnects st) st" "sessions st" ch]
    by (simp add: lobby_evict_members lobby_evict_video srv_inv_def)
qed simp


text \<open>Handlers that only change rows other than accounts.\<close>

definition rows_only :: "srv \<Rightarrow> srv \<Rightarrow> bool" where
  "rows_only st st' \<longleftrightarrow> (\<exists>d. core st' = core (st\<lparr>db := d\<rparr>) \<and> same_accounts (db st) d
     \<and> (db_inv (db st) \<longrightarrow> db_inv d))"

lemma srv_inv_rows_only: "srv_inv st \<Longrightarrow> rows_only st st' \<Longrightarrow> srv_inv st'"
  unfolding rows_only_def using srv_inv_rows by (metis srv_inv_def)

lemma rows_quiet: "core st' = core st \<Longrightarrow> rows_only st st'"
  unfolding rows_only_def by (rule exI [of _ "db st"]) simp

lemma rows_db: "same_accounts (db st) d \<Longrightarrow> (db_inv (db st) \<Longrightarrow> db_inv d) \<Longrightarrow> rows_only st (st\<lparr>db := d\<rparr>)"
  unfolding rows_only_def by blast

lemma rows_core: "core a = core b \<Longrightarrow> rows_only st a = rows_only st b"
  by (simp add: rows_only_def)

lemmas rows_simps = rows_core [OF core_send_error] rows_core [OF core_admin_result]
  rows_core [OF core_send_list_to_all(1)] rows_core [OF core_send_list_to_all(2)]
  rows_core [OF core_send_all] rows_core [OF core_send_to] rows_quiet [OF refl]

lemma rows_create_channel: "rows_only st (handle_create_channel i p st)"
  unfolding handle_create_channel_def Let_def case_prod_beta
  by (simp add: rows_simps) (simp add: rows_db same_accounts_ops db_invs)

lemma rows_rename_channel: "rows_only st (handle_rename_channel i p st)"
  unfolding handle_rename_channel_def Let_def case_prod_beta
  by (simp add: rows_simps) (simp add: rows_db same_accounts_ops db_invs)

lemma rows_create_text_channel: "rows_only st (handle_create_text_channel i p st)"
  unfolding handle_create_text_channel_def Let_def case_prod_beta
  by (simp add: rows_simps) (simp add: rows_db same_accounts_ops db_invs)

lemma rows_delete_text_channel: "rows_only st (handle_delete_text_channel i p st)"
  unfolding handle_delete_text_channel_def Let_def case_prod_beta
  by (simp add: rows_simps) (simp add: rows_db same_accounts_ops db_invs)

lemma rows_pins: "rows_only st (handle_pin i p st)" "rows_only st (handle_unpin i p st)"
  "rows_only st (handle_chat_delete i p st)"
  unfolding handle_pin_def handle_unpin_def handle_chat_delete_def Let_def case_prod_beta
  by (simp_all add: rows_simps rows_db same_accounts_ops db_invs split: option.split)

lemma db_inv_read_attachments: "db_inv d \<Longrightarrow> db_inv (snd (read_attachments t m i k r d))"
proof (induction k arbitrary: i r d)
  case (Suc k)
  then show ?case by (simp add: Let_def case_prod_beta insert_attachment_inv)
qed simp

lemma rows_chat_send: "rows_only st (handle_chat_send cfg e i p st)"
proof -
  have r: "rows_only st (st\<lparr>db := snd (read_attachments t m j k r (snd (insert_message c s n tx ts (db st))))\<rparr>)"
    for t m j k r c s n tx ts
    by (intro rows_db same_accounts_trans [OF same_accounts_ops(9) same_accounts_read_attachments]
          db_inv_read_attachments insert_message_inv)
  show ?thesis
    unfolding handle_chat_send_def Let_def case_prod_beta
    by (simp add: rows_simps r) (simp add: rows_db same_accounts_ops db_invs)
qed

lemma core_kick [core_simps]: "core (handle_kick i p st) = core st"
  unfolding handle_kick_def Let_def case_prod_beta by (simp add: core_simps)

lemma core_queries [core_simps]: "core (handle_keepalive i p st) = core st" "core (handle_history i p st) = core st"
  "core (handle_pinned i p st) = core st" "core (handle_search L i p st) = core st"
  unfolding handle_keepalive_def handle_history_def handle_pinned_def handle_search_def Let_def case_prod_beta
  by (simp_all add: core_simps)

text \<open>The two handlers that update sessions without moving anyone.\<close>

lemma srv_inv_upd:
  assumes "srv_inv st" and "member_of (f (objs st i)) = member_of (objs st i)"
    and "s_id (f (objs st i)) = s_id (objs st i)"
  shows "srv_inv (upd i f st)"
proof -
  have "lobby_of ds (upd i f st) = lobby_of ds st" for ds
    using assms(2) by (auto simp: lobby_of_def fun_eq_iff)
  then show ?thesis using assms sids_upd by (simp add: srv_inv_def)
qed

lemma srv_inv_voice_state: "srv_inv st \<Longrightarrow> srv_inv (handle_voice_state i p st)"
  unfolding handle_voice_state_def Let_def case_prod_beta
  by (simp add: srv_inv_cong [OF core_send_all] srv_inv_upd member_of_def)

lemma srv_inv_set_live_role: "srv_inv st \<Longrightarrow> srv_inv (set_live_role t r st)"
proof -
  have "srv_inv st' \<Longrightarrow> srv_inv (fold (\<lambda>i st. if s_user_id (objs st i) = t then upd i (\<lambda>s. s\<lparr>s_role := uint r\<rparr>) st
          else st) js st')" for js st'
    by (induction js arbitrary: st') (auto simp: srv_inv_upd member_of_def)
  then show "srv_inv st \<Longrightarrow> srv_inv (set_live_role t r st)" by (simp add: set_live_role_def)
qed

lemma srv_inv_set_role: "srv_inv st \<Longrightarrow> srv_inv (handle_set_role i p st)"
proof -
  assume inv: "srv_inv st"
  have "srv_inv (st\<lparr>db := set_user_role t r (db st)\<rparr>)" for t r
    using srv_inv_db [OF inv same_accounts_ops(1)] user_ops_inv(3) inv by (simp add: srv_inv_def)
  then show ?thesis
    unfolding handle_set_role_def Let_def case_prod_beta
    by (simp add: srv_inv_cong [OF core_send_error] srv_inv_cong [OF core_admin_result]
        srv_inv_cong [OF core_send_all] srv_inv_set_live_role inv split: option.split)
qed

lemma srv_inv_delete_channel: "srv_inv st \<Longrightarrow> srv_inv (handle_delete_channel i p st)"
proof -
  assume inv: "srv_inv st"
  have "srv_inv (st'\<lparr>db := delete_channel ch (db st')\<rparr>)" if "srv_inv st'" for st' ch
    using srv_inv_db [OF that same_accounts_ops(5)] delete_channel_inv that by (simp add: srv_inv_def)
  then show ?thesis
    unfolding handle_delete_channel_def Let_def case_prod_beta
    by (simp add: srv_inv_cong [OF core_send_error] srv_inv_cong [OF core_admin_result]
        srv_inv_cong [OF core_send_list_to_all(1)] srv_inv_evict inv)
qed

lemma srv_inv_message:
  assumes inv: "srv_inv st" and few: "user_seq (db st) + 1 < 2 ^ 31"
  shows "srv_inv (handle_message cfg L e i ty p st)"
proof (cases "i \<in> set (sessions st)")
  case True
  note quiet = srv_inv_cong [OF core_queries(1)] srv_inv_cong [OF core_queries(2)] srv_inv_cong [OF core_queries(3)]
    srv_inv_cong [OF core_queries(4)] srv_inv_cong [OF core_kick] srv_inv_cong [OF core_share_update]
  note rows = rows_create_channel rows_rename_channel rows_create_text_channel rows_delete_text_channel
    rows_pins rows_chat_send
  have "get_session i st \<noteq> None" using True by (simp add: get_session_def)
  then show ?thesis
    unfolding handle_message_def
    by (cases ty) (simp_all add: inv quiet srv_inv_rows_only [OF inv] rows srv_inv_auth [OF inv True few]
        srv_inv_join [OF inv True] srv_inv_leave [OF inv True] srv_inv_share_start [OF inv True]
        srv_inv_share_stop [OF inv] srv_inv_share_view [OF inv True] srv_inv_voice_state [OF inv]
        srv_inv_set_role [OF inv] srv_inv_delete_channel [OF inv])
next
  case False
  then show ?thesis using inv by (simp add: handle_message_def get_session_def)
qed

end
