(* ===== verification/Framing.thy ===== *)
theory Framing
  imports Protocol Video_Common
begin

text \<open>
  Length-prefixed records on a byte stream. The server (\<open>QuicServer::process_stream_data\<close>,
  \<open>process_video_stream_data\<close> in \<open>server/src/quic_server.cpp\<close>) and the client
  (\<open>client/src/net_client_parsing.h\<close>) run the same loop on a receive buffer, with different limits: take
  the length, give up on an impossible one, wait for the rest of the record, else cut it off. The
  locale \<open>framing\<close> states the loop as the contract both sides share and proves once that the records come
  out the same however the transport cuts the stream into chunks; each of the four loops is an
  interpretation.
\<close>

section \<open>The contract of a record loop\<close>

lemma append_le_split:
  assumes "xs @ ys = us @ vs" and "length xs \<le> length us"
  obtains zs where "us = xs @ zs" and "ys = zs @ vs"
  using assms that [of "drop (length xs) us"] by (auto simp: append_eq_append_conv_if split: if_splits)
    (metis append_take_drop_id)+

lemma of_le32_append: "4 \<le> length b \<Longrightarrow> of_le32 (b @ xs) = of_le32 b"
proof -
  assume "4 \<le> length b"
  then have "(b @ xs) ! i = b ! i" if "i < 4" for i using that by (simp add: nth_append)
  then show ?thesis by (simp add: of_le32_def)
qed

locale framing =
  fixes loop :: "bytes \<Rightarrow> 'm list \<times> bytes"
    and header :: nat
    and ok :: "u32 \<Rightarrow> bool"
    and record_of :: "bytes \<Rightarrow> 'm list"
  assumes header_ge: "4 \<le> header"
    and header_fits: "ok n \<Longrightarrow> header \<le> 4 + unat n"
    and loop_short: "length b < header \<Longrightarrow> loop b = ([], b)"
    and loop_invalid: "header \<le> length b \<Longrightarrow> \<not> ok (of_le32 b) \<Longrightarrow> loop b = ([], [])"
    and loop_wait: "header \<le> length b \<Longrightarrow> ok (of_le32 b) \<Longrightarrow> length b < 4 + unat (of_le32 b) \<Longrightarrow> loop b = ([], b)"
    and loop_take: "header \<le> length b \<Longrightarrow> ok (of_le32 b) \<Longrightarrow> 4 + unat (of_le32 b) \<le> length b \<Longrightarrow>
      loop b = (record_of (take (unat (of_le32 b)) (drop 4 b)) @ fst (loop (drop (4 + unat (of_le32 b)) b)),
                snd (loop (drop (4 + unat (of_le32 b)) b)))"
begin

text \<open>A record body that fits the length field and the limit, and its image on the stream.\<close>

definition fits :: "bytes \<Rightarrow> bool" where
  "fits body \<longleftrightarrow> length body < 2 ^ 32 \<and> ok (of_nat (length body))"

definition image :: "bytes \<Rightarrow> bytes" where
  "image body = le32 (of_nat (length body)) @ body"

text \<open>What the receive buffer holds between two chunks: part of one record.\<close>

definition partial :: "bytes \<Rightarrow> bool" where
  "partial b \<longleftrightarrow> b = [] \<or> (\<exists>body rest. fits body \<and> rest \<noteq> [] \<and> b @ rest = image body)"

fun feed :: "bytes list \<Rightarrow> bytes \<Rightarrow> 'm list \<times> bytes" where
  "feed [] buf = ([], buf)"
| "feed (c # cs) buf = (let (ms, b) = loop (buf @ c); (ms', b') = feed cs b in (ms @ ms', b'))"

lemma partial_Nil [simp]: "partial []"
  by (simp add: partial_def)

lemma fits_unat: "fits body \<Longrightarrow> unat (of_nat (length body) :: u32) = length body"
  by (simp add: fits_def unat_of_nat)

lemma loop_image: "fits body \<Longrightarrow> loop (image body @ xs) = (record_of body @ fst (loop xs), snd (loop xs))"
  using loop_take [of "image body @ xs"] header_fits [of "of_nat (length body)"]
  by (simp add: image_def fits_unat) (simp add: fits_def)

lemma loop_partial: "partial b \<Longrightarrow> loop b = ([], b)"
proof (cases "length b < header")
  case False
  assume p: "partial b"
  have h: "4 \<le> header" by (rule header_ge)
  with False p obtain body rest where br: "fits body" "rest \<noteq> []" "b @ rest = image body"
    by (auto simp: partial_def)
  have "of_le32 b = of_nat (length body)"
    using of_le32_append [of b rest] br(3) False h by (simp add: image_def)
  moreover have "length b < 4 + length body" using arg_cong [OF br(3), of length] br(2) by (cases rest) (simp_all add: image_def)
  ultimately show ?thesis using loop_wait [of b] False br(1) by (simp add: fits_unat) (simp add: fits_def)
qed (rule loop_short)

lemma loop_records:
  "\<forall>b \<in> set bs. fits b \<Longrightarrow> partial p \<Longrightarrow>
     loop (concat (map image bs) @ p) = (concat (map record_of bs), p)"
  by (induction bs) (simp_all add: loop_partial loop_image)

text \<open>Every beginning of a stream of records is a number of whole records and part of the next one.\<close>

lemma prefix_split:
  assumes "\<forall>b \<in> set bs. fits b" and "c @ rest = concat (map image bs)"
  shows "\<exists>bs1 bs2 p. bs = bs1 @ bs2 \<and> c = concat (map image bs1) @ p \<and> partial p
     \<and> p @ rest = concat (map image bs2)"
  using assms
proof (induction bs arbitrary: c)
  case Nil
  then show ?case by (intro exI [of _ "[]"]) (simp add: partial_def)
next
  case (Cons b bs)
  show ?case
  proof (cases "length c < length (image b)")
    case True
    obtain zs where zs: "image b = c @ zs"
      using append_le_split [of c rest "image b" "concat (map image bs)"] Cons.prems(2) True by auto
    with True have "zs \<noteq> []" by auto
    with zs have "partial c" using Cons.prems(1) unfolding partial_def by (metis list.set_intros(1))
    then show ?thesis using Cons.prems(2) by (intro exI [of _ "[]"] exI [of _ "b # bs"] exI [of _ c]) simp
  next
    case False
    then obtain c' where c: "c = image b @ c'"
      using append_le_split [of "image b" "concat (map image bs)" c rest] Cons.prems(2) by auto
    then have "c' @ rest = concat (map image bs)" using Cons.prems(2) by simp
    then obtain bs1 bs2 p where i: "bs = bs1 @ bs2" "c' = concat (map image bs1) @ p" "partial p"
        "p @ rest = concat (map image bs2)"
      using Cons.IH [of c'] Cons.prems(1) by auto
    then show ?thesis using c by (intro exI [of _ "b # bs1"] exI [of _ bs2] exI [of _ p]) simp
  qed
qed

text \<open>The records of a stream come out whole, once each and in order, however the stream is cut.\<close>

theorem feed_chunks:
  assumes "\<forall>b \<in> set bs. fits b" and "buf @ concat cs = concat (map image bs) @ p" and "partial buf" and "partial p"
  shows "feed cs buf = (concat (map record_of bs), p)"
  using assms
proof (induction cs arbitrary: buf bs)
  case Nil
  then have "([], buf) = loop (concat (map image bs) @ p)" using loop_partial [of buf] by simp
  then show ?case using loop_records [of bs p] Nil by simp
next
  case (Cons c cs)
  let ?all = "concat (map image bs) @ p"
  have e: "(buf @ c) @ concat cs = ?all" using Cons.prems(2) by simp
  show ?case
  proof (cases "length (buf @ c) \<le> length (concat (map image bs))")
    case True
    then obtain rest where "concat (map image bs) = (buf @ c) @ rest" and r: "concat cs = rest @ p"
      using append_le_split [OF e] by blast
    then obtain bs1 bs2 q where i: "bs = bs1 @ bs2" "buf @ c = concat (map image bs1) @ q" "partial q"
        "q @ rest = concat (map image bs2)"
      using prefix_split [OF Cons.prems(1), of "buf @ c" rest] by auto
    have "loop (buf @ c) = (concat (map record_of bs1), q)" using loop_records [of bs1 q] i Cons.prems(1) by simp
    moreover have "feed cs q = (concat (map record_of bs2), p)"
      using Cons.IH [of bs2 q] Cons.prems i r by simp
    ultimately show ?thesis using i(1) by simp
  next
    case False
    then obtain q where q: "buf @ c = concat (map image bs) @ q" and r: "p = q @ concat cs"
      using append_le_split [OF e [symmetric]] by auto
    have "partial q"
    proof (cases "p = []")
      case True
      then show ?thesis using r by (simp add: partial_def)
    next
      case False
      then obtain body rest where "fits body" "rest \<noteq> []" "p @ rest = image body"
        using Cons.prems(4) by (auto simp: partial_def)
      then show ?thesis unfolding partial_def using r by (metis append.assoc append_is_Nil_conv)
    qed
    then have "loop (buf @ c) = (concat (map record_of bs), q)" using loop_records [of bs q] q Cons.prems(1) by simp
    moreover have "feed cs q = ([], p)"
      using Cons.IH [of "[]" q] r \<open>partial q\<close> Cons.prems(4) by simp
    ultimately show ?thesis by simp
  qed
qed

end

end
