(* ===== verification/Quic_Streams.thy ===== *)
theory Quic_Streams
  imports Framing Server_Loop
begin

text \<open>
  The receiving half of \<open>server/src/quic_server.cpp\<close>: control and legacy video streams cut into records,
  file streams, one stream per video frame, datagrams, and the path statistics, each callback one
  operation. \<open>transport\<close> holds what only these callbacks touch: the receive buffers, the queues the main
  loop drains, the open frame streams and the bytes they hold for each session
  (\<open>Session::video_in_buffered_bytes\<close>). MsQuic hands over a list of buffers and whether the stream ended.
\<close>

section \<open>Control and legacy video streams\<close>

function parse_control :: "bytes \<Rightarrow> (ctype \<times> bytes) list \<times> bytes" where
  "parse_control buffer =
     (if length buffer < 6 then ([], buffer)
      else
        let msg_len = of_le32 buffer
        in if msg_len < 2 \<or> msg_len > 1024 * 1024 then ([], [])
           else if length buffer < 4 + unat msg_len then ([], buffer)
           else
             let raw_type = of_le16 (drop 4 buffer);
                 payload = take (unat msg_len - 2) (drop 6 buffer);
                 (ms, rest) = parse_control (drop (4 + unat msg_len) buffer)
             in ((ctype_of_code raw_type, payload) # ms, rest))"
  by pat_completeness auto
termination by (relation "measure length") auto

function parse_video :: "bytes \<Rightarrow> (u8 \<times> bytes) list \<times> bytes" where
  "parse_video buffer =
     (if length buffer < 4 then ([], buffer)
      else
        let frame_len = of_le32 buffer
        in if frame_len = 0 \<or> unat frame_len > 1 + VIDEO_FRAME_MAX_PAYLOAD_BYTES then ([], [])
           else if length buffer < 4 + unat frame_len then ([], buffer)
           else
             let (fs, rest) = parse_video (drop (4 + unat frame_len) buffer)
             in ((if frame_len > 1 then [(buffer ! 4, take (unat frame_len - 1) (drop 5 buffer))] else []) @ fs,
                 rest))"
  by pat_completeness auto
termination by (relation "measure length") auto

declare parse_control.simps [simp del] parse_video.simps [simp del]

text \<open>\<open>send_control_on_stream\<close>: the bytes of one control message.\<close>

definition control_frame :: "ctype \<Rightarrow> bytes \<Rightarrow> bytes" where
  "control_frame ty payload = le32 (of_nat (2 + length payload)) @ le16 (code_of_ctype ty) @ payload"

section \<open>State\<close>

record video_in_stream =
  vin_session :: u32
  vin_buf :: bytes
  vin_charged :: int
  vin_dead :: bool
  vin_prefix_len :: nat
  vin_source :: u8
  vin_have_header :: bool
  vin_frame_seq :: u32
  vin_finished :: bool

record file_stream =
  fs_session :: u32
  fs_buffer :: bytes
  fs_header_parsed :: bool
  fs_stream_type :: u8
  fs_attachment :: u64

record transport =
  recv_buffers :: "u32 \<Rightarrow> bytes"
  video_recv_buffers :: "u32 \<Rightarrow> bytes"
  control_incoming :: "incoming_message list"
  data_incoming :: "data_packet list"
  file_uploads :: "file_upload list"
  file_downloads :: "file_download list"
  in_buffered :: "u32 \<Rightarrow> int"
  video_in :: "(nat \<times> video_in_stream) list"

definition new_transport :: transport where
  "new_transport = \<lparr>recv_buffers = (\<lambda>_. []), video_recv_buffers = (\<lambda>_. []), control_incoming = [],
     data_incoming = [], file_uploads = [], file_downloads = [], in_buffered = (\<lambda>_. 0), video_in = []\<rparr>"

definition process_stream_data :: "u32 \<Rightarrow> bytes \<Rightarrow> transport \<Rightarrow> transport" where
  "process_stream_data sid d tr =
     (let (ms, buffer) = parse_control (recv_buffers tr sid @ d)
      in tr\<lparr>recv_buffers := (recv_buffers tr)(sid := buffer),
           control_incoming := control_incoming tr @
             map (\<lambda>(ty, payload). \<lparr>im_session = sid, im_type = ty, im_payload = payload\<rparr>) ms\<rparr>)"

text \<open>The \<open>on_video_frame\<close> callback \<open>Server::start\<close> installs: video frames go to the server loop at once,
  everything else through the queue of data packets.\<close>

definition on_video_frame :: "u32 \<Rightarrow> u8 \<Rightarrow> u8 \<Rightarrow> bytes \<Rightarrow> srv \<times> transport \<Rightarrow> srv \<times> transport" where
  "on_video_frame sid packet_type source d = (\<lambda>(st, tr).
     if packet_type = VIDEO_FRAME_PACKET_TYPE then (enqueue_video_frame sid source d st, tr)
     else (st, tr\<lparr>data_incoming := data_incoming tr @
                   [\<lparr>dp_session = sid, dp_type = packet_type, dp_data = d\<rparr>]\<rparr>))"

definition process_video_stream_data :: "u32 \<Rightarrow> bytes \<Rightarrow> srv \<times> transport \<Rightarrow> srv \<times> transport" where
  "process_video_stream_data sid d = (\<lambda>(st, tr).
     let (frames, buffer) = parse_video (video_recv_buffers tr sid @ d)
     in fold (\<lambda>(ty, body). on_video_frame sid ty Screen body) frames
          (st, tr\<lparr>video_recv_buffers := (video_recv_buffers tr)(sid := buffer)\<rparr>))"

section \<open>Path statistics\<close>

record link_stats =
  ls_min_rtt :: u32
  ls_rtt :: u32
  ls_sent :: u64
  ls_suspected_lost :: u64
  ls_spurious_lost :: u64

definition clamp_rtt :: "u32 \<Rightarrow> u32" where
  "clamp_rtt r = (if r < 1000 then 1000 else if VIDEO_BACKLOG_MAX_RTT_US < r then VIDEO_BACKLOG_MAX_RTT_US else r)"

text \<open>\<open>stats\<close> is what \<open>GetParam\<close> answers, \<open>None\<close> when it fails; 64-bit differences wrap.\<close>

definition sample_min_rtt :: "int \<Rightarrow> link_stats option \<Rightarrow> session \<Rightarrow> session" where
  "sample_min_rtt now stats s =
     (if now - s_rtt_sample_us s < 1000000 then s
      else
        let s1 = s\<lparr>s_rtt_sample_us := now\<rparr>
        in (case stats of
              None \<Rightarrow> s1
            | Some q \<Rightarrow>
                let lost = (if ls_suspected_lost q > ls_spurious_lost q
                            then ls_suspected_lost q - ls_spurious_lost q else 0);
                    d_sent = ls_sent q - s_loss_sent s1;
                    d_lost = (if lost \<ge> s_loss_lost s1 then lost - s_loss_lost s1 else 0);
                    permille = (if d_sent \<ge> 20 then ucast (min 1000 (d_lost * 1000 div d_sent))
                                else s_loss_permille s1)
                in s1\<lparr>s_min_rtt_us := clamp_rtt (ls_min_rtt q), s_srtt_us := clamp_rtt (ls_rtt q),
                     s_loss_permille := permille, s_loss_sent := ls_sent q, s_loss_lost := lost\<rparr>))"

text \<open>\<open>on_stream_event\<close>, case \<open>RECEIVE\<close>, for the control stream, the legacy video stream and any other
  stream with that callback.\<close>

definition on_stream_receive :: "int \<Rightarrow> link_stats option \<Rightarrow> nat \<Rightarrow> u32 \<Rightarrow> bytes list \<Rightarrow> srv \<times> transport \<Rightarrow> srv \<times> transport"
  where
  "on_stream_receive now stats stream sid bufs = (\<lambda>(st, tr).
     let (is_video, st1) = (case get_session sid st of
            None \<Rightarrow> (False, st)
          | Some s \<Rightarrow> (s_video_stream s = Some stream, upd sid (sample_min_rtt now stats) st))
     in fold (\<lambda>b (st, tr). if is_video then process_video_stream_data sid b (st, tr)
                           else (st, process_stream_data sid b tr)) bufs (st1, tr))"

definition on_datagram :: "u32 \<Rightarrow> bytes \<Rightarrow> transport \<Rightarrow> transport" where
  "on_datagram sid d tr =
     (case d of [] \<Rightarrow> tr
      | ty # body \<Rightarrow> tr\<lparr>data_incoming := data_incoming tr @ [\<lparr>dp_session = sid, dp_type = ty, dp_data = body\<rparr>]\<rparr>)"

text \<open>The receive buffers go with the connection.\<close>

definition drop_buffers :: "u32 \<Rightarrow> transport \<Rightarrow> transport" where
  "drop_buffers sid tr = tr\<lparr>recv_buffers := (recv_buffers tr)(sid := []),
     video_recv_buffers := (video_recv_buffers tr)(sid := [])\<rparr>"

section \<open>File streams\<close>

definition new_file_stream :: "u32 \<Rightarrow> file_stream" where
  "new_file_stream sid = \<lparr>fs_session = sid, fs_buffer = [], fs_header_parsed = False, fs_stream_type = 0,
     fs_attachment = 0\<rparr>"

definition on_file_receive :: "bytes list \<Rightarrow> file_stream \<Rightarrow> file_stream" where
  "on_file_receive bufs ctx =
     (let buffer = fs_buffer ctx @ concat bufs
      in if \<not> fs_header_parsed ctx \<and> length buffer \<ge> 9
         then ctx\<lparr>fs_buffer := drop 9 buffer, fs_header_parsed := True, fs_stream_type := buffer ! 0,
                  fs_attachment := of_le64 (drop 1 buffer)\<rparr>
         else ctx\<lparr>fs_buffer := buffer\<rparr>)"

definition on_file_end :: "nat \<Rightarrow> file_stream \<Rightarrow> transport \<Rightarrow> file_stream \<times> transport" where
  "on_file_end stream ctx tr =
     (if \<not> fs_header_parsed ctx then (ctx, tr)
      else if fs_stream_type ctx = STREAM_TYPE_FILE_UPLOAD
      then (ctx\<lparr>fs_buffer := []\<rparr>, tr\<lparr>file_uploads := file_uploads tr @
             [\<lparr>fu_session = fs_session ctx, fu_attachment = fs_attachment ctx, fu_data = fs_buffer ctx\<rparr>]\<rparr>)
      else if fs_stream_type ctx = STREAM_TYPE_FILE_DOWNLOAD
      then (ctx, tr\<lparr>file_downloads := file_downloads tr @
             [\<lparr>fd_session = fs_session ctx, fd_attachment = fs_attachment ctx, fd_stream = stream\<rparr>]\<rparr>)
      else (ctx, tr))"

section \<open>One stream per video frame\<close>

definition new_video_in :: "u32 \<Rightarrow> video_in_stream" where
  "new_video_in sid = \<lparr>vin_session = sid, vin_buf = [], vin_charged = 0, vin_dead = False, vin_prefix_len = 0,
     vin_source = Screen, vin_have_header = False, vin_frame_seq = 0, vin_finished = False\<rparr>"

datatype prefix_result = Refused | NeedMore | Prefix nat u8

definition parse_video_ingress_prefix :: "bytes \<Rightarrow> session \<Rightarrow> prefix_result" where
  "parse_video_ingress_prefix buf s =
     (if buf = [] then NeedMore
      else if buf ! 0 = STREAM_TYPE_VIDEO_FRAME
      then (if video_ingress_allowed s Screen then Prefix 1 Screen else Refused)
      else if buf ! 0 = STREAM_TYPE_VIDEO_SOURCE_FRAME
      then (if length buf < 2 then NeedMore
            else if \<not> video_source_valid (buf ! 1) then Refused
            else if video_ingress_allowed s (buf ! 1) then Prefix 2 (buf ! 1) else Refused)
      else Refused)"

text \<open>\<open>report_lost\<close>, \<open>uncharge\<close> and \<open>abort\<close> of \<open>VideoInStreamContext\<close>; the state is the context, the main
  loop's part (for the callbacks it installed) and the session's budget.\<close>

definition vin_report_lost :: "video_in_stream \<times> srv \<Rightarrow> video_in_stream \<times> srv" where
  "vin_report_lost = (\<lambda>(c, st).
     if vin_finished c \<or> vin_prefix_len c = 0 then (c, st)
     else (c\<lparr>vin_finished := True\<rparr>,
           enqueue_video_event (vin_session c) (vin_source c)
             (StreamAborted (vin_frame_seq c) (vin_have_header c)) st))"

definition vin_uncharge :: "video_in_stream \<times> int \<Rightarrow> video_in_stream \<times> int" where
  "vin_uncharge = (\<lambda>(c, budget). (c\<lparr>vin_charged := 0\<rparr>, budget - vin_charged c))"

definition vin_abort :: "nat \<Rightarrow> video_in_stream \<times> int \<times> srv \<Rightarrow> video_in_stream \<times> int \<times> srv" where
  "vin_abort stream = (\<lambda>(c, budget, st).
     if vin_dead c then (c, budget, st)
     else
       let (c1, st1) = vin_report_lost (c, st);
           (c2, budget2) = vin_uncharge (c1\<lparr>vin_dead := True, vin_buf := []\<rparr>, budget)
       in (c2, budget2, emit (AbortStream (vin_session c) stream) st1))"

text \<open>The header is reported as soon as it is there.\<close>

definition vin_note_header :: "video_in_stream \<times> srv \<Rightarrow> video_in_stream \<times> srv" where
  "vin_note_header = (\<lambda>(c, st).
     if vin_prefix_len c > 0 \<and> \<not> vin_have_header c
        \<and> length (vin_buf c) \<ge> vin_prefix_len c + VIDEO_FRAME_HEADER_SIZE
     then (case header_parse (drop (vin_prefix_len c) (vin_buf c)) of
             Some hdr \<Rightarrow> (c\<lparr>vin_have_header := True, vin_frame_seq := frame_seq hdr\<rparr>,
                          enqueue_video_event (vin_session c) (vin_source c) (StreamStarted hdr) st)
           | None \<Rightarrow> (c, st))
     else (c, st))"

definition vin_finish :: "video_in_stream \<times> int \<times> srv \<Rightarrow> video_in_stream \<times> int \<times> srv" where
  "vin_finish = (\<lambda>(c, budget, st).
     let (c1, st1) = (if vin_prefix_len c > 0 \<and> length (vin_buf c) \<ge> vin_prefix_len c + VIDEO_FRAME_HEADER_SIZE
                      then (c\<lparr>vin_finished := True\<rparr>,
                            enqueue_video_frame (vin_session c) (vin_source c)
                              (drop (vin_prefix_len c) (vin_buf c)) st)
                      else vin_report_lost (c, st));
         (c2, budget2) = vin_uncharge (c1\<lparr>vin_buf := []\<rparr>, budget)
     in (c2, budget2, st1))"

text \<open>The checks on the bytes buffered so far, after the budget was charged.\<close>

definition vin_buffered :: "nat \<Rightarrow> bool \<Rightarrow> video_in_stream \<times> int \<times> srv \<Rightarrow> video_in_stream \<times> int \<times> srv" where
  "vin_buffered stream fin = (\<lambda>(c, budget, st).
     let res = (if vin_prefix_len c = 0 then parse_video_ingress_prefix (vin_buf c) (objs st (vin_session c))
                else Prefix (vin_prefix_len c) (vin_source c))
     in if res = Refused then vin_abort stream (c, budget, st)
        else
          let c1 = (case res of Prefix n src \<Rightarrow> c\<lparr>vin_prefix_len := n, vin_source := src\<rparr> | _ \<Rightarrow> c);
              (c2, st2) = vin_note_header (c1, st)
          in if length (vin_buf c2) > (if vin_prefix_len c2 > 0 then vin_prefix_len c2 else 2)
                                       + VIDEO_FRAME_MAX_PAYLOAD_BYTES
             then vin_abort stream (c2, budget, st2)
             else if fin then vin_finish (c2, budget, st2) else (c2, budget, st2))"

definition vin_receive :: "int \<Rightarrow> link_stats option \<Rightarrow> nat \<Rightarrow> bytes list \<Rightarrow> bool \<Rightarrow>
    video_in_stream \<times> int \<times> srv \<Rightarrow> video_in_stream \<times> int \<times> srv" where
  "vin_receive now stats stream bufs fin = (\<lambda>(c, budget, st).
     if vin_dead c then (c, budget, st)
     else
       let st1 = upd (vin_session c) (sample_min_rtt now stats) st;
           incoming = int (length (concat bufs));
           c1 = c\<lparr>vin_charged := vin_charged c + incoming\<rparr>;
           buffered = budget + incoming
       in if buffered > VIDEO_INGRESS_MAX_BUFFERED_BYTES then vin_abort stream (c1, buffered, st1)
          else vin_buffered stream fin (c1\<lparr>vin_buf := vin_buf c1 @ concat bufs\<rparr>, buffered, st1))"

section \<open>Completions that sample the path\<close>

text \<open>\<open>SEND_COMPLETE\<close> of the legacy video stream and of a frame stream, and the end of a frame stream; \<open>charged\<close>
  is what the send context still has counted.\<close>

definition on_send_complete :: "int \<Rightarrow> link_stats option \<Rightarrow> u32 \<Rightarrow> int \<Rightarrow> srv \<Rightarrow> int \<times> srv" where
  "on_send_complete now stats i charged st = uncharge i charged (upd i (sample_min_rtt now stats) st)"

definition on_video_out_closed :: "u32 \<Rightarrow> nat \<Rightarrow> int \<Rightarrow> bool \<Rightarrow> srv \<Rightarrow> srv" where
  "on_video_out_closed i stream charged registered st =
     (let (_, st1) = uncharge i charged st in if registered then unregister i stream st1 else st1)"

section \<open>Callbacks on the whole server\<close>

text \<open>\<open>PEER_STREAM_STARTED\<close> for a unidirectional stream: refused on arrival unless the session publishes.\<close>

definition on_uni_stream :: "u32 \<Rightarrow> nat \<Rightarrow> srv \<times> transport \<Rightarrow> srv \<times> transport" where
  "on_uni_stream sid stream = (\<lambda>(st, tr).
     if on_uni_stream_allowed sid st then (st, tr\<lparr>video_in := (stream, new_video_in sid) # video_in tr\<rparr>)
     else (emit (AbortStream sid stream) st, tr))"

text \<open>An operation on the context of one open frame stream.\<close>

definition with_video_in :: "nat \<Rightarrow> (video_in_stream \<times> int \<times> srv \<Rightarrow> video_in_stream \<times> int \<times> srv) \<Rightarrow>
    srv \<times> transport \<Rightarrow> srv \<times> transport" where
  "with_video_in stream f = (\<lambda>(st, tr).
     case map_of (video_in tr) stream of
       None \<Rightarrow> (st, tr)
     | Some c \<Rightarrow>
         let (c1, budget, st1) = f (c, in_buffered tr (vin_session c), st)
         in (st1, tr\<lparr>in_buffered := (in_buffered tr)(vin_session c := budget),
                     video_in := map (\<lambda>(h, x). (h, if h = stream then c1 else x)) (video_in tr)\<rparr>))"

definition on_video_in_receive :: "int \<Rightarrow> link_stats option \<Rightarrow> nat \<Rightarrow> bytes list \<Rightarrow> bool \<Rightarrow> srv \<times> transport \<Rightarrow> srv \<times> transport"
  where "on_video_in_receive now stats stream bufs fin = with_video_in stream (vin_receive now stats stream bufs fin)"

definition on_video_in_aborted :: "nat \<Rightarrow> srv \<times> transport \<Rightarrow> srv \<times> transport" where
  "on_video_in_aborted stream = with_video_in stream (vin_abort stream)"

text \<open>\<open>SHUTDOWN_COMPLETE\<close>: the budget is settled and the context freed.\<close>

definition on_video_in_closed :: "nat \<Rightarrow> srv \<times> transport \<Rightarrow> srv \<times> transport" where
  "on_video_in_closed stream = (\<lambda>(st, tr).
     let (st1, tr1) = with_video_in stream (\<lambda>(c, budget, st). case vin_uncharge (c, budget) of (c1, b) \<Rightarrow> (c1, b, st)) (st, tr)
     in (st1, tr1\<lparr>video_in := filter (\<lambda>(h, _). h \<noteq> stream) (video_in tr1)\<rparr>))"

section \<open>Records\<close>

lemma parse_control_unfold:
  "6 \<le> length b \<Longrightarrow> \<not> (of_le32 b < 2 \<or> of_le32 b > 1024 * 1024) \<Longrightarrow> 4 + unat (of_le32 b) \<le> length b \<Longrightarrow>
   parse_control b = ((ctype_of_code (of_le16 (drop 4 b)), take (unat (of_le32 b) - 2) (drop 6 b))
     # fst (parse_control (drop (4 + unat (of_le32 b)) b)), snd (parse_control (drop (4 + unat (of_le32 b)) b)))"
  by (subst parse_control.simps) (simp add: Let_def case_prod_beta)

interpretation control: framing parse_control 6 "\<lambda>n. 2 \<le> n \<and> n \<le> 1048576"
  "\<lambda>body. [(ctype_of_code (of_le16 body), drop 2 body)]"
proof
  fix b :: bytes and n :: u32
  show "2 \<le> n \<and> n \<le> 1048576 \<Longrightarrow> 6 \<le> 4 + unat n" by (auto simp: word_le_nat_alt)
  show "length b < 6 \<Longrightarrow> parse_control b = ([], b)" by (simp add: parse_control.simps)
  show "6 \<le> length b \<Longrightarrow> \<not> (2 \<le> of_le32 b \<and> of_le32 b \<le> 1048576) \<Longrightarrow> parse_control b = ([], [])"
    by (auto simp: parse_control.simps not_le)
  show "6 \<le> length b \<Longrightarrow> 2 \<le> of_le32 b \<and> of_le32 b \<le> 1048576 \<Longrightarrow> length b < 4 + unat (of_le32 b) \<Longrightarrow>
      parse_control b = ([], b)"
    by (subst parse_control.simps) (auto simp: Let_def)
  show "6 \<le> length b \<Longrightarrow> 2 \<le> of_le32 b \<and> of_le32 b \<le> 1048576 \<Longrightarrow> 4 + unat (of_le32 b) \<le> length b \<Longrightarrow>
      parse_control b = ([(ctype_of_code (of_le16 (take (unat (of_le32 b)) (drop 4 b))), drop 2 (take (unat (of_le32 b)) (drop 4 b)))]
        @ fst (parse_control (drop (4 + unat (of_le32 b)) b)), snd (parse_control (drop (4 + unat (of_le32 b)) b)))"
    by (subst parse_control_unfold)
      (auto simp: not_less drop_take of_le16_def word_le_nat_alt)
qed simp

lemma parse_video_unfold:
  "4 \<le> length b \<Longrightarrow> of_le32 b \<noteq> 0 \<Longrightarrow> unat (of_le32 b) \<le> 1 + VIDEO_FRAME_MAX_PAYLOAD_BYTES \<Longrightarrow>
   4 + unat (of_le32 b) \<le> length b \<Longrightarrow>
   parse_video b = ((if of_le32 b > 1 then [(b ! 4, take (unat (of_le32 b) - 1) (drop 5 b))] else [])
     @ fst (parse_video (drop (4 + unat (of_le32 b)) b)), snd (parse_video (drop (4 + unat (of_le32 b)) b)))"
  by (subst parse_video.simps) (simp add: Let_def case_prod_beta)

interpretation video: framing parse_video 4 "\<lambda>n. n \<noteq> 0 \<and> unat n \<le> 1 + VIDEO_FRAME_MAX_PAYLOAD_BYTES"
  "\<lambda>body. if 1 < length body then [(body ! 0, drop 1 body)] else []"
proof
  fix b :: bytes
  show "length b < 4 \<Longrightarrow> parse_video b = ([], b)" by (simp add: parse_video.simps)
  show "4 \<le> length b \<Longrightarrow> \<not> (of_le32 b \<noteq> 0 \<and> unat (of_le32 b) \<le> 1 + VIDEO_FRAME_MAX_PAYLOAD_BYTES) \<Longrightarrow>
      parse_video b = ([], [])"
    by (subst parse_video.simps) (auto simp: Let_def)
  show "4 \<le> length b \<Longrightarrow> of_le32 b \<noteq> 0 \<and> unat (of_le32 b) \<le> 1 + VIDEO_FRAME_MAX_PAYLOAD_BYTES \<Longrightarrow>
      length b < 4 + unat (of_le32 b) \<Longrightarrow> parse_video b = ([], b)"
    by (subst parse_video.simps) (auto simp: Let_def)
  show "4 \<le> length b \<Longrightarrow> of_le32 b \<noteq> 0 \<and> unat (of_le32 b) \<le> 1 + VIDEO_FRAME_MAX_PAYLOAD_BYTES \<Longrightarrow>
      4 + unat (of_le32 b) \<le> length b \<Longrightarrow>
      parse_video b = ((if 1 < length (take (unat (of_le32 b)) (drop 4 b))
         then [(take (unat (of_le32 b)) (drop 4 b) ! 0, drop 1 (take (unat (of_le32 b)) (drop 4 b)))] else [])
        @ fst (parse_video (drop (4 + unat (of_le32 b)) b)), snd (parse_video (drop (4 + unat (of_le32 b)) b)))"
    by (subst parse_video_unfold) (auto simp: drop_take word_less_nat_alt)
qed simp_all

end
