(* ===== verification/Server_Reach.thy ===== *)
theory Server_Reach
  imports Server_Invariant Quic_Streams
begin

text \<open>
  The server as a state machine: the steps of the main loop (\<open>server.cpp\<close>) and of MsQuic's callbacks
  (\<open>quic_server.cpp\<close>) in any interleaving, and what holds in every state they reach. Main-loop steps are
  whole handlers: the sessions' fields that callbacks and handlers share are atomics or guarded by
  \<open>sessions_mutex_\<close>. Two guards bound the run: fewer than \<open>2^32\<close> connections and fewer than \<open>2^31\<close>
  accounts, since \<open>next_session_id_\<close> and user ids are fixed-width and would wrap. \<open>e\<close> is the clock,
  randomness and transport status the step sees.
\<close>

inductive server_step :: "config \<Rightarrow> libs \<Rightarrow> env \<Rightarrow> srv \<Rightarrow> srv \<Rightarrow> bool" for cfg L e where
  Connect: "next_session_id st < next_session_id st + 1 \<Longrightarrow> server_step cfg L e st (on_new_connection ok st)"
| Stream: "server_step cfg L e st (snd (on_bidi_stream i h st))"
| Stream_Closed: "server_step cfg L e st (on_stream_closed i h st)"
| Closed: "server_step cfg L e st (on_connection_closed i st)"
| Sent: "server_step cfg L e st (snd (uncharge i n st))"
| Frame_Closed: "server_step cfg L e st (unregister i h st)"
| Datagram_State: "server_step cfg L e st (snd (on_datagram_state now i q left sent fin st))"
| Sampled: "server_step cfg L e st (upd i (sample_min_rtt now stats) st)"
| Refused: "server_step cfg L e st (emit (AbortStream i h) st)"
| Frame_In: "server_step cfg L e st (enqueue_video_frame i k d st)"
| Event_In: "server_step cfg L e st (enqueue_video_event i k ev st)"
| Message: "user_seq (db st) + 1 < 2 ^ 31 \<Longrightarrow> server_step cfg L e st (handle_message cfg L e i ty p st)"
| Packet: "server_step cfg L e st (process_data_packet e pkt st)"
| Video: "server_step cfg L e st (process_video_frames e st)"
| Upload: "server_step cfg L e st (process_upload cfg e up st)"
| Download: "server_step cfg L e st (process_download down st)"
| Departures: "server_step cfg L e st (process_disconnects st)"
| Retention: "server_step cfg L e st (enforce_retention cfg e st)"

inductive server_reach :: "config \<Rightarrow> libs \<Rightarrow> srv \<Rightarrow> bool" for cfg L where
  Start: "db_inv d \<Longrightarrow> user_seq d < 2 ^ 31 \<Longrightarrow> server_reach cfg L (empty_srv d)"
| Step: "server_reach cfg L st \<Longrightarrow> server_step cfg L e st st' \<Longrightarrow> server_reach cfg L st'"

text \<open>Any number of steps.\<close>

abbreviation steps :: "config \<Rightarrow> libs \<Rightarrow> srv \<Rightarrow> srv \<Rightarrow> bool" where
  "steps cfg L \<equiv> (\<lambda>st st'. \<exists>e. server_step cfg L e st st')\<^sup>*\<^sup>*"

lemma reach_steps: "steps cfg L st st' \<Longrightarrow> server_reach cfg L st \<Longrightarrow> server_reach cfg L st'"
  by (induction rule: rtranclp_induct) (auto intro: server_reach.Step)

inductive_cases server_stepE: "server_step cfg L e st st'"

section \<open>The callbacks\<close>

lemma srv_inv_connect:
  assumes inv: "srv_inv st" and w: "next_session_id st < next_session_id st + 1"
  shows "srv_inv (on_new_connection ok st)"
proof -
  let ?lb = "lobby_of (disconnects st) st"
  have l: "lobby_inv ?lb" using inv by (simp add: srv_inv_def)
  show ?thesis
  proof (cases ok)
    case True
    have "lobby_of (disconnects st) (on_new_connection ok st) = a_connect ?lb"
      using True by (auto simp: on_new_connection_def Let_def lobby_of_def a_connect_def member_of_def
          fresh_member_def new_session_def fun_eq_iff)
    moreover have "lobby_inv (a_connect ?lb)" using a_connect_inv [OF l] w by simp
    ultimately show ?thesis
      using inv True by (simp add: srv_inv_def on_new_connection_def Let_def sids_def) (simp add: new_session_def)
  next
    case False
    have "lobby_of (disconnects st) (on_new_connection ok st) = ?lb\<lparr>next_id := next_id ?lb + 1\<rparr>"
      using False by (simp add: on_new_connection_def Let_def lobby_of_def)
    moreover have "lobby_inv (?lb\<lparr>next_id := next_id ?lb + 1\<rparr>)" using a_skip_id_inv [OF l] w by simp
    ultimately show ?thesis
      using inv False by (simp add: srv_inv_def on_new_connection_def Let_def sids_def)
  qed
qed

lemma lobby_connection_closed:
  "lobby_of (disconnects (on_connection_closed i st)) (on_connection_closed i st)
     = a_close i (lobby_of (disconnects st) st)"
  by (auto simp: on_connection_closed_def get_session_def Let_def lobby_of_def a_close_def member_of_def fun_eq_iff)

lemma srv_inv_closed: "srv_inv st \<Longrightarrow> srv_inv (on_connection_closed i st)"
proof -
  assume inv: "srv_inv st"
  have "sids (on_connection_closed i st)" "db (on_connection_closed i st) = db st"
    using inv by (auto simp: srv_inv_def sids_def on_connection_closed_def get_session_def Let_def)
  then show ?thesis using inv a_close_inv lobby_connection_closed [of i st] by (simp add: srv_inv_def)
qed

lemma core_callbacks:
  "core (snd (on_bidi_stream i h st)) = core st" "core (on_stream_closed i h st) = core st"
  "core (snd (uncharge i n st)) = core st" "core (unregister i h st) = core st"
  "core (snd (on_datagram_state now i q left sent fin st)) = core st"
  by (simp_all add: on_bidi_stream_def on_stream_closed_def uncharge_def unregister_def on_datagram_state_def
      core_simps split: option.split)

lemma strip_sample: "strip (sample_min_rtt now stats s) = strip s"
  by (simp add: sample_min_rtt_def strip_def Let_def split: option.split)

lemma core_sample: "core (upd i (sample_min_rtt now stats) st) = core st"
  by (rule core_upd) (rule strip_sample)

section \<open>The rest of the loop\<close>

lemma srv_inv_disconnects_fold:
  "sids st \<Longrightarrow> lobby_inv (lobby_of ds st) \<Longrightarrow>
     let st' = fold (\<lambda>d. process_disconnect (de_session d) (de_user d) (de_channel d)) ds st
     in lobby_inv (lobby_of [] st') \<and> frame st' = frame st"
proof (induction ds arbitrary: st)
  case (Cons d ds)
  let ?st = "process_disconnect (de_session d) (de_user d) (de_channel d) st"
  let ?rest = "map (\<lambda>d. (de_session d, de_user d, de_channel d)) ds"
  have "lobby_of ds st = (lobby_of (d # ds) st)\<lparr>leaving := ?rest\<rparr>" by (simp add: lobby_of_def)
  then have "lobby_of ds ?st = a_depart (de_session d) (de_user d) (de_channel d) ((lobby_of (d # ds) st)\<lparr>leaving := ?rest\<rparr>)"
    using lobby_process_disconnect [OF Cons.prems(1), of ds] by simp
  then have "lobby_inv (lobby_of ds ?st)" using a_depart_inv [OF Cons.prems(2)] by simp
  then show ?case
    using Cons.IH [of ?st] sids_frame [OF frame_process_disconnect] Cons.prems(1) by (simp add: Let_def)
qed simp

lemma srv_inv_disconnects:
  assumes inv: "srv_inv st" shows "srv_inv (process_disconnects st)"
proof -
  let ?st = "st\<lparr>disconnects := []\<rparr>"
  have "sids ?st" "lobby_inv (lobby_of (disconnects st) ?st)"
    using inv by (simp_all add: srv_inv_def sids_def lobby_of_def)
  from srv_inv_disconnects_fold [OF this]
  have "lobby_inv (lobby_of [] (process_disconnects st))" "frame (process_disconnects st) = frame ?st"
    by (simp_all add: process_disconnects_def Let_def)
  then show ?thesis
    using inv frameD [of "process_disconnects st" ?st] sids_frame [of "process_disconnects st" ?st] \<open>sids ?st\<close>
    by (simp add: srv_inv_def)
qed

lemma srv_inv_files: "srv_inv (st\<lparr>files := f\<rparr>) = srv_inv st"
  by (simp add: srv_inv_def sids_def lobby_of_def)

lemma srv_inv_upload: "srv_inv st \<Longrightarrow> srv_inv (process_upload cfg e up st)"
proof -
  assume inv: "srv_inv st"
  have "srv_inv (st'\<lparr>db := mark_attachment_uploaded a (db st')\<rparr>)" if "srv_inv st'" for st' a
    using srv_inv_db [OF that same_accounts_ops(14)] attachment_ops_inv that by (simp add: srv_inv_def)
  then show ?thesis
    unfolding process_upload_def Let_def
    by (simp add: inv srv_inv_cong [OF core_send_all] srv_inv_cong [OF core_emit] srv_inv_files split: option.split)
qed

lemma core_download: "core (process_download d st) = core st"
  by (simp add: process_download_def core_simps split: option.split)

lemma srv_inv_remove_files: "srv_inv st \<Longrightarrow> srv_inv (remove_files ps st)"
  unfolding remove_files_def
  by (induction ps arbitrary: st) (simp_all add: srv_inv_cong [OF core_emit] srv_inv_files)

lemma srv_inv_retention: "srv_inv st \<Longrightarrow> srv_inv (enforce_retention cfg e st)"
proof -
  assume inv: "srv_inv st"
  have p: "srv_inv (st'\<lparr>db := snd (purge_old_messages n t (db st'))\<rparr>)"
    "srv_inv (st'\<lparr>db := snd (purge_old_files n t (db st'))\<rparr>)"
    "srv_inv (st'\<lparr>db := snd (purge_oldest_files n (db st'))\<rparr>)" if "srv_inv st'" for st' n t
    using srv_inv_db [OF that same_accounts_ops(15)] srv_inv_db [OF that same_accounts_ops(16)]
      srv_inv_db [OF that same_accounts_ops(17)] db_invs that by (auto simp: srv_inv_def)
  define st1 where "st1 = (if message_retention_days (chat cfg) > 0
    then st\<lparr>db := snd (purge_old_messages (message_retention_days (chat cfg)) (sint (unix_time e)) (db st))\<rparr> else st)"
  have "srv_inv st1" using p(1) [OF inv] inv by (simp add: st1_def)
  then show ?thesis
    unfolding enforce_retention_def Let_def st1_def [symmetric] case_prod_beta
    by (simp add: srv_inv_remove_files p)
qed

theorem srv_inv_step: "server_step cfg L e st st' \<Longrightarrow> srv_inv st \<Longrightarrow> srv_inv st'"
  by (cases rule: server_step.cases)
     (auto simp: srv_inv_connect srv_inv_closed srv_inv_message srv_inv_upload srv_inv_disconnects
       srv_inv_retention srv_inv_cong [OF core_callbacks(1)] srv_inv_cong [OF core_callbacks(2)]
       srv_inv_cong [OF core_callbacks(3)] srv_inv_cong [OF core_callbacks(4)] srv_inv_cong [OF core_callbacks(5)]
       srv_inv_cong [OF core_sample] srv_inv_cong [OF core_emit] srv_inv_cong [OF core_enqueue(1)] srv_inv_cong [OF core_enqueue(2)] srv_inv_cong [OF core_process_data_packet]
       srv_inv_cong [OF core_process_video_frames] srv_inv_cong [OF core_download])

lemma srv_inv_empty: "db_inv d \<Longrightarrow> user_seq d < 2 ^ 31 \<Longrightarrow> srv_inv (empty_srv d)"
proof -
  assume d: "db_inv d" "user_seq d < 2 ^ 31"
  have "accounts_ok (lobby_of [] (empty_srv d))"
    using accounts_ok_db [OF d(1)] d(2) by (simp add: accounts_ok_def accounts_of_def empty_srv_def few_users_def)
  then show ?thesis
    using d by (simp add: srv_inv_def sids_def few_users_def lobby_inv_def index_ok_def live_ok_def watch_ok_def
        leaving_ok_def) (simp add: empty_srv_def new_session_def)
qed

lemma reach_inv: "server_reach cfg L st \<Longrightarrow> srv_inv st"
  by (induction rule: server_reach.induct) (auto intro: srv_inv_empty srv_inv_step)


section \<open>A concrete run\<close>

text \<open>A server with a fresh database, one client connected and signed in.\<close>

definition demo_cfg :: config where
  "demo_cfg = \<lparr>cfg_server_name = str ''demo'', cfg_max_clients = 64, server_password = [], root_fingerprints = [],
     max_users_per_channel = 2, chat = \<lparr>max_message_length = 2000, max_file_size = 1000,
     max_total_file_storage = 0, file_retention = [], file_retention_days = 0, message_retention_days = 0\<rparr>\<rparr>"

definition demo_libs :: libs where
  "demo_libs = \<lparr>lib_verify = (\<lambda>_ s _. s \<noteq> []), lib_sha256 = (\<lambda>d. take 2 d), lib_fts_match = (\<lambda>q t. q = t)\<rparr>"

definition demo_env :: env where
  "demo_env = \<lparr>now_us = 5000000, unix_time = 1700000000, random_token = replicate 32 7, dgram_send_ok = (\<lambda>_. True),
     stream_open_ok = (\<lambda>_. True), stream_send_ok = (\<lambda>_. True), file_open_ok = (\<lambda>_. True)\<rparr>"

definition auth_payload :: "u8 \<Rightarrow> bytes" where
  "auth_payload k = write_bytes (replicate 64 1) (write_u64 1700000000 (write_string (str ''ann'')
      (write_bytes (replicate 32 k) (write_u16 PROTOCOL_VERSION []))))"

definition demo_srv :: srv where
  "demo_srv = handle_message demo_cfg demo_libs demo_env 1 AUTH_IDENTITY (auth_payload 9)
     (on_new_connection True (empty_srv create_schema))"

text \<open>The same client joins channel 1 and starts a screen share.\<close>

definition demo_share :: srv where
  "demo_share = handle_message demo_cfg demo_libs demo_env 1 SCREEN_SHARE_START [1, 0, 5, 208, 2]
     (handle_message demo_cfg demo_libs demo_env 1 CHANNEL_JOIN (le32 1) demo_srv)"

lemma demo_reach: "server_reach demo_cfg demo_libs demo_srv"
  unfolding demo_srv_def
  by (rule Step [OF Step [OF Start [OF create_schema_inv] Connect] Message])
     (simp_all add: create_schema_def empty_srv_def on_new_connection_def Let_def)

lemma demo_signed_in: "s_authenticated (objs demo_srv 1) \<and> s_user_id (objs demo_srv 1) = 1 \<and> sessions demo_srv = [1]"
  by code_simp

lemma demo_share_reach: "server_reach demo_cfg demo_libs demo_share"
  unfolding demo_share_def
  by (rule Step [OF Step [OF demo_reach Message] Message]) code_simp+

lemma demo_share_running: "channel_streams demo_share 1 = [1] \<and> s_channel (objs demo_share 1) = 1"
  by code_simp

section \<open>Properties\<close>

lemma accounts_okD:
  "accounts_ok lb \<Longrightarrow> (k, u) \<in> accounts lb \<Longrightarrow> (k', u') \<in> accounts lb \<Longrightarrow> k = k' \<longleftrightarrow> u = u'"
  unfolding accounts_ok_def by fast

text \<open>(C7) Signing in keeps identities apart: in every reachable state two live authenticated sessions never
  belong to the same user or use the same key, the index the forwarding paths use leads from a signed-in
  user to its live session, and only signed-in sessions are in a channel.\<close>

theorem one_session_per_user:
  assumes "server_reach cfg L st"
  shows "(\<forall>i \<in> set (sessions st). \<forall>j \<in> set (sessions st). s_authenticated (objs st i) \<and> s_authenticated (objs st j)
            \<and> (s_user_id (objs st i) = s_user_id (objs st j) \<or> s_public_key (objs st i) = s_public_key (objs st j))
            \<longrightarrow> i = j)
       \<and> (\<forall>i \<in> set (sessions st). s_authenticated (objs st i)
            \<longrightarrow> session_for_user (s_user_id (objs st i)) st = Some (objs st i))
       \<and> (\<forall>i. s_channel (objs st i) \<noteq> 0 \<longrightarrow> s_authenticated (objs st i))"
proof -
  have inv: "srv_inv st" using reach_inv [OF assms] .
  then have l: "lobby_inv (lobby_of (disconnects st) st)" by (simp add: srv_inv_def)
  have live: "i \<in> set (sessions st) \<Longrightarrow> s_authenticated (objs st i) \<Longrightarrow> user_sessions st (s_user_id (objs st i)) = Some i
      \<and> (s_public_key (objs st i), s_user_id (objs st i)) \<in> accounts (lobby_of (disconnects st) st)" for i
    using l by (simp add: lobby_inv_def live_ok_def)
  have key: "s_user_id (objs st i) = s_user_id (objs st j)"
    if "i \<in> set (sessions st)" "s_authenticated (objs st i)" "j \<in> set (sessions st)" "s_authenticated (objs st j)"
      "s_public_key (objs st i) = s_public_key (objs st j)" for i j
    using accounts_okD [of "lobby_of (disconnects st) st"] live [OF that(1,2)] live [OF that(3,4)] l that(5)
    unfolding lobby_inv_def by metis
  have "i = j" if "i \<in> set (sessions st)" "j \<in> set (sessions st)" "s_authenticated (objs st i)" "s_authenticated (objs st j)"
      "s_user_id (objs st i) = s_user_id (objs st j) \<or> s_public_key (objs st i) = s_public_key (objs st j)" for i j
    using live [OF that(1,3)] live [OF that(2,4)] key [OF that(1,3,2,4)] that(5) by auto
  moreover have "session_for_user (s_user_id (objs st i)) st = Some (objs st i)"
    if "i \<in> set (sessions st)" "s_authenticated (objs st i)" for i
    using live [OF that] that by (simp add: session_for_user_def get_session_def)
  ultimately show ?thesis using l by (auto simp: lobby_inv_def)
qed

theorem one_session_per_user_witness: "session_for_user 1 demo_srv = Some (objs demo_srv 1)"
  using one_session_per_user [OF demo_reach] demo_signed_in by auto

text \<open>(C1) A viewer only ever watches what runs where it is: in every reachable state each subscription of a
  live session names a stream published in the channel the session is in, and a session outside every
  channel watches nothing.\<close>

theorem watched_streams_run_here:
  assumes "server_reach cfg L st" and "i \<in> set (sessions st)"
  shows "set (s_subs (objs st i)) \<subseteq> set (channel_streams st (s_channel (objs st i)))
       \<and> (s_channel (objs st i) = 0 \<longrightarrow> s_subs (objs st i) = [])"
proof -
  have "lobby_inv (lobby_of (disconnects st) st)" using reach_inv [OF assms(1)] by (simp add: srv_inv_def)
  then have "set (s_subs (objs st i)) \<subseteq> set (channel_streams st (s_channel (objs st i)))"
    and "channel_streams st 0 = []"
    using assms(2) by (auto simp: lobby_inv_def watch_ok_def)
  then show ?thesis by auto
qed

theorem watched_streams_run_here_witness:
  "set (s_subs (objs demo_srv 1)) \<subseteq> set (channel_streams demo_srv (s_channel (objs demo_srv 1)))"
  using watched_streams_run_here [OF demo_reach, of 1] demo_signed_in by simp

text \<open>(C8) No stream outlives its publisher: in every reachable state a stream listed as running in a channel
  is a screen share or camera of a user whose current session is in that channel, or of a user whose
  departure from it is waiting in the disconnect queue; so after the queue is drained a channel nobody
  is in has no stream.\<close>

theorem no_orphan_streams:
  assumes "server_reach cfg L st" and "x \<in> set (channel_streams st ch)"
  shows "\<exists>u k. video_source_valid k \<and> x = video_stream_id u k
       \<and> ((\<exists>i. user_sessions st u = Some i \<and> s_channel (objs st i) = ch)
          \<or> (\<exists>d \<in> set (disconnects st). de_user d = u \<and> de_channel d = ch))"
proof -
  have "lobby_inv (lobby_of (disconnects st) st)" using reach_inv [OF assms(1)] by (simp add: srv_inv_def)
  then have "owned (lobby_of (disconnects st) st) ch x" using assms(2) by (simp add: lobby_inv_def)
  then show ?thesis unfolding owned_def by (auto simp: image_iff)
qed

theorem no_orphan_streams_witness:
  "\<exists>u k. video_source_valid k \<and> 1 = video_stream_id u k
     \<and> ((\<exists>i. user_sessions demo_share u = Some i \<and> s_channel (objs demo_share i) = 1)
        \<or> (\<exists>d \<in> set (disconnects demo_share). de_user d = u \<and> de_channel d = 1))"
  using no_orphan_streams [OF demo_share_reach, of 1 1] demo_share_running by simp

end
