(* ===== verification/Server_System.thy ===== *)
theory Server_System
  imports Server_Reach
begin

text \<open>
  The whole server: the main loop's state and the transport's, stepped by MsQuic's callbacks and by the
  phases of \<open>Server::run\<close> in any interleaving (a phase drains its queue once, so what arrives during an
  iteration is seen by this phase or by the next one). Every step of the whole is a sequence of steps of
  \<open>Server_Reach\<close> on the main loop's state, so its invariants hold here; on top of them the transport keeps
  its own: the memory unfinished frame streams hold for a session is bounded, whatever a peer sends.
\<close>

record system =
  sys_srv :: srv
  sys_tr :: transport

definition callback :: "(srv \<times> transport \<Rightarrow> srv \<times> transport) \<Rightarrow> system \<Rightarrow> system" where
  "callback f s = (case f (sys_srv s, sys_tr s) of (st, tr) \<Rightarrow> s\<lparr>sys_srv := st, sys_tr := tr\<rparr>)"

definition on_srv :: "(srv \<Rightarrow> srv) \<Rightarrow> srv \<times> transport \<Rightarrow> srv \<times> transport" where
  "on_srv f = (\<lambda>(st, tr). (f st, tr))"

definition on_tr :: "(transport \<Rightarrow> transport) \<Rightarrow> srv \<times> transport \<Rightarrow> srv \<times> transport" where
  "on_tr f = (\<lambda>(st, tr). (st, f tr))"

text \<open>Account ids do not run out while a batch of messages is handled.\<close>

fun ids_left :: "config \<Rightarrow> libs \<Rightarrow> env \<Rightarrow> incoming_message list \<Rightarrow> srv \<Rightarrow> bool" where
  "ids_left cfg L e [] st \<longleftrightarrow> True"
| "ids_left cfg L e (m # ms) st \<longleftrightarrow> user_seq (db st) + 1 < 2 ^ 31
     \<and> ids_left cfg L e ms (handle_message cfg L e (im_session m) (im_type m) (im_payload m) st)"

section \<open>The phases of the loop\<close>

definition messages_phase :: "config \<Rightarrow> libs \<Rightarrow> env \<Rightarrow> srv \<times> transport \<Rightarrow> srv \<times> transport" where
  "messages_phase cfg L e = (\<lambda>(st, tr).
     (process_control_messages cfg L e (control_incoming tr) st, tr\<lparr>control_incoming := []\<rparr>))"

definition packets_phase :: "env \<Rightarrow> srv \<times> transport \<Rightarrow> srv \<times> transport" where
  "packets_phase e = (\<lambda>(st, tr). (process_data_packets e (data_incoming tr) st, tr\<lparr>data_incoming := []\<rparr>))"

definition files_phase :: "config \<Rightarrow> env \<Rightarrow> srv \<times> transport \<Rightarrow> srv \<times> transport" where
  "files_phase cfg e = (\<lambda>(st, tr).
     (process_file_transfers cfg e (file_uploads tr) (file_downloads tr) st, tr\<lparr>file_uploads := [], file_downloads := []\<rparr>))"

inductive system_step :: "config \<Rightarrow> libs \<Rightarrow> system \<Rightarrow> system \<Rightarrow> bool" for cfg L where
  Sys_Connect: "next_session_id (sys_srv s) < next_session_id (sys_srv s) + 1 \<Longrightarrow>
    system_step cfg L s (callback (on_srv (on_new_connection ok)) s)"
| Sys_Bidi: "system_step cfg L s (callback (on_srv (\<lambda>st. snd (on_bidi_stream i h st))) s)"
| Sys_Uni: "h \<notin> fst ` set (video_in (sys_tr s)) \<Longrightarrow> system_step cfg L s (callback (on_uni_stream i h) s)"
| Sys_Data: "system_step cfg L s (callback (on_stream_receive now stats h i bufs) s)"
| Sys_Datagram: "system_step cfg L s (callback (on_tr (on_datagram i d)) s)"
| Sys_Datagram_State: "system_step cfg L s (callback (on_srv (\<lambda>st. snd (on_datagram_state now i q left sent fin st))) s)"
| Sys_Frame_Data: "system_step cfg L s (callback (on_video_in_receive now stats h bufs fin) s)"
| Sys_Frame_Aborted: "system_step cfg L s (callback (on_video_in_aborted h) s)"
| Sys_Frame_Closed: "system_step cfg L s (callback (on_video_in_closed h) s)"
| Sys_File_End: "system_step cfg L s (callback (on_tr (\<lambda>tr. snd (on_file_end h fc tr))) s)"
| Sys_Sent: "system_step cfg L s (callback (on_srv (\<lambda>st. snd (on_send_complete now stats i n st))) s)"
| Sys_Out_Closed: "system_step cfg L s (callback (on_srv (on_video_out_closed i h n reg)) s)"
| Sys_Stream_Closed: "system_step cfg L s (callback (on_srv (on_stream_closed i h)) s)"
| Sys_Closed: "system_step cfg L s (callback (\<lambda>(st, tr). (on_connection_closed i st, drop_buffers i tr)) s)"
| Sys_Messages: "ids_left cfg L e (control_incoming (sys_tr s)) (sys_srv s) \<Longrightarrow>
    system_step cfg L s (callback (messages_phase cfg L e) s)"
| Sys_Packets: "system_step cfg L s (callback (packets_phase e) s)"
| Sys_Video: "system_step cfg L s (callback (on_srv (process_video_frames e)) s)"
| Sys_Files: "system_step cfg L s (callback (files_phase cfg e) s)"
| Sys_Departures: "system_step cfg L s (callback (on_srv process_disconnects) s)"
| Sys_Retention: "system_step cfg L s (callback (on_srv (enforce_retention cfg e)) s)"

inductive system_reach :: "config \<Rightarrow> libs \<Rightarrow> system \<Rightarrow> bool" for cfg L where
  Sys_Start: "db_inv d \<Longrightarrow> user_seq d < 2 ^ 31 \<Longrightarrow>
    system_reach cfg L \<lparr>sys_srv = empty_srv d, sys_tr = new_transport\<rparr>"
| Sys_Step: "system_reach cfg L s \<Longrightarrow> system_step cfg L s s' \<Longrightarrow> system_reach cfg L s'"

section \<open>Every step is steps of the main loop's state\<close>

named_theorems runs "operations that are steps"

lemma steps_fold: "(\<And>x st. steps cfg L st (f x st)) \<Longrightarrow> steps cfg L st (fold f xs st)"
  by (induction xs arbitrary: st) (auto intro: rtranclp_trans)

lemma steps_fold_pair:
  "(\<And>x p. steps cfg L (fst p) (fst (f x p))) \<Longrightarrow> steps cfg L (fst p) (fst (fold f xs p))"
proof (induction xs arbitrary: p)
  case (Cons x xs)
  have "steps cfg L (fst p) (fst (f x p))" by (rule Cons.prems)
  also have "steps cfg L (fst (f x p)) (fst (fold f xs (f x p)))" by (rule Cons.IH [OF Cons.prems])
  finally show ?case by simp
qed simp

lemma steps1: "server_step cfg L e st st' \<Longrightarrow> steps cfg L st st'"
  by (rule r_into_rtranclp) blast

lemmas steps_callbacks [runs] = steps1 [OF server_step.Sampled] steps1 [OF server_step.Refused]
  steps1 [OF server_step.Frame_In] steps1 [OF server_step.Event_In]

lemma steps_trans: "steps cfg L a b \<Longrightarrow> steps cfg L b c \<Longrightarrow> steps cfg L a c"
  by (rule rtranclp_trans)

lemma steps_video_stream: "steps cfg L st (fst (process_video_stream_data i d (st, tr)))"
proof -
  let ?f = "\<lambda>(ty, body). on_video_frame i ty Screen body"
  obtain fs buf where p: "parse_video (video_recv_buffers tr i @ d) = (fs, buf)" by fastforce
  have "steps cfg L (fst p) (fst (?f x p))" for x p
    by (cases x; cases p) (simp add: on_video_frame_def runs)
  from steps_fold_pair [where f = ?f, OF this] show ?thesis
    by (simp add: process_video_stream_data_def p) (metis fst_conv)
qed

lemma steps_stream_receive: "steps cfg L st (fst (on_stream_receive now stats h i bufs (st, tr)))"
proof -
  have f: "steps cfg L (fst p) (fst (fold (\<lambda>b (st, tr). if v then process_video_stream_data i b (st, tr)
      else (st, process_stream_data i b tr)) bufs p))" for v p
    by (rule steps_fold_pair) (auto simp: steps_video_stream split: prod.split)
  show ?thesis
  proof (cases "get_session i st")
    case None
    then show ?thesis using f [of "(st, tr)" False] by (simp add: on_stream_receive_def)
  next
    case (Some s)
    then show ?thesis
      using f [of "(upd i (sample_min_rtt now stats) st, tr)" "s_video_stream s = Some h"]
      by (auto simp: on_stream_receive_def intro: steps_trans runs)
  qed
qed

lemma steps_report_lost [runs]: "steps cfg L st (snd (vin_report_lost (c, st)))"
  by (simp add: vin_report_lost_def runs)

lemma steps_note_header [runs]: "steps cfg L st (snd (vin_note_header (c, st)))"
  by (simp add: vin_note_header_def runs split: option.split)

lemma steps_abort [runs]: "steps cfg L st (snd (snd (vin_abort h (c, b, st))))"
  using steps_report_lost [of cfg L st c]
  by (cases "vin_report_lost (c, st)") (auto simp: vin_abort_def vin_uncharge_def intro: steps_trans runs)

lemma steps_finish [runs]: "steps cfg L st (snd (snd (vin_finish (c, b, st))))"
  using steps_report_lost [of cfg L st c]
  by (cases "vin_report_lost (c, st)") (simp add: vin_finish_def vin_uncharge_def runs Let_def)

lemma steps_buffered [runs]: "steps cfg L st (snd (snd (vin_buffered h fin (c, b, st))))"
proof -
  have "steps cfg L st (snd (snd (case vin_note_header (c1, st) of (c2, st2) \<Rightarrow>
      if P c2 then vin_abort h (c2, b, st2) else if fin then vin_finish (c2, b, st2) else (c2, b, st2))))" for c1 P
    using steps_note_header [of cfg L st c1] by (auto split: prod.split intro: steps_trans runs)
  then show ?thesis by (simp add: vin_buffered_def runs Let_def)
qed

lemma steps_receive [runs]: "steps cfg L st (snd (snd (vin_receive now stats h bufs fin (c, b, st))))"
  by (auto simp: vin_receive_def Let_def intro: steps_trans runs)

lemma steps_with_video_in:
  "(\<And>c b st. steps cfg L st (snd (snd (f (c, b, st))))) \<Longrightarrow> steps cfg L st (fst (with_video_in h f (st, tr)))"
  by (simp add: with_video_in_def split: option.split prod.split) (metis snd_conv)

lemma steps_uncharge [runs]: "steps cfg L st (snd (uncharge i n st))" "steps cfg L st (unregister i h st)"
  by (rule steps1, rule server_step.intros)+

lemma steps_messages: "ids_left cfg L e ms st \<Longrightarrow> steps cfg L st (process_control_messages cfg L e ms st)"
  unfolding process_control_messages_def
proof (induction ms arbitrary: st)
  case (Cons m ms)
  have "steps cfg L st (handle_message cfg L e (im_session m) (im_type m) (im_payload m) st)"
    using Cons.prems by (intro steps1 [where e = e] server_step.Message) simp
  then show ?case using Cons by (auto intro: steps_trans)
qed simp

theorem system_simulates:
  assumes "system_step cfg L s s'" shows "steps cfg L (sys_srv s) (sys_srv s')"
  using assms
proof (cases rule: system_step.cases)
  case (Sys_Out_Closed i h n reg)
  then show ?thesis by (auto simp: callback_def on_srv_def on_video_out_closed_def case_prod_beta intro: steps_trans runs)
next
  case (Sys_Sent now stats i n)
  then show ?thesis by (auto simp: callback_def on_srv_def on_send_complete_def intro: steps_trans runs)
next
  case (Sys_Data now stats h i bufs)
  then show ?thesis using steps_stream_receive by (auto simp: callback_def case_prod_beta)
next
  case (Sys_Frame_Data now stats h bufs fin)
  then show ?thesis using steps_with_video_in [OF steps_receive]
    by (auto simp: callback_def case_prod_beta on_video_in_receive_def)
next
  case (Sys_Frame_Aborted h)
  then show ?thesis using steps_with_video_in [OF steps_abort]
    by (auto simp: callback_def case_prod_beta on_video_in_aborted_def)
next
  case (Sys_Frame_Closed h)
  have "fst (on_video_in_closed h (st, tr)) = st" for st tr
    by (simp add: on_video_in_closed_def with_video_in_def vin_uncharge_def split: option.split)
  with Sys_Frame_Closed show ?thesis by (auto simp: callback_def case_prod_beta)
next
  case (Sys_Messages e)
  then show ?thesis using steps_messages by (auto simp: callback_def messages_phase_def)
next
  case (Sys_Packets e)
  then show ?thesis
    by (auto simp: callback_def packets_phase_def process_data_packets_def steps_fold [OF steps1 [OF server_step.Packet]])
next
  case (Sys_Files e)
  then show ?thesis
    by (auto simp: callback_def files_phase_def process_file_transfers_def
        intro!: steps_trans [OF steps_fold [OF steps1 [OF server_step.Upload]] steps_fold [OF steps1 [OF server_step.Download]]])
qed (auto simp: callback_def on_srv_def on_tr_def on_uni_stream_def runs intro: steps1 server_step.intros)

lemma system_reach_srv: "system_reach cfg L s \<Longrightarrow> server_reach cfg L (sys_srv s)"
  by (induction rule: system_reach.induct) (auto intro: server_reach.Start reach_steps system_simulates)

section \<open>The ingress budget\<close>

text \<open>An operation on a frame stream that keeps the books: what it adds to or takes from the stream's charge
  it adds to or takes from the session's counter, the counter stays within the cap, and the stream holds
  no more bytes than it is charged for.\<close>

definition charged_ok :: "video_in_stream \<Rightarrow> bool" where
  "charged_ok c \<longleftrightarrow> int (length (vin_buf c)) \<le> vin_charged c"

definition held_by :: "transport \<Rightarrow> u32 \<Rightarrow> int" where
  "held_by tr i = sum_list (map (\<lambda>(h, c). if vin_session c = i then vin_charged c else 0) (video_in tr))"

definition ingress_inv :: "transport \<Rightarrow> bool" where
  "ingress_inv tr \<longleftrightarrow> distinct (map fst (video_in tr)) \<and> (\<forall>(h, c) \<in> set (video_in tr). charged_ok c)
     \<and> in_buffered tr = held_by tr \<and> (\<forall>i. held_by tr i \<le> VIDEO_INGRESS_MAX_BUFFERED_BYTES)"

locale budgeted =
  fixes f :: "video_in_stream \<times> int \<times> srv \<Rightarrow> video_in_stream \<times> int \<times> srv"
  assumes books: "charged_ok c \<Longrightarrow> b \<le> VIDEO_INGRESS_MAX_BUFFERED_BYTES \<Longrightarrow> f (c, b, st) = (c', b', st') \<Longrightarrow>
    charged_ok c' \<and> vin_session c' = vin_session c \<and> b' - vin_charged c' = b - vin_charged c
    \<and> b' \<le> VIDEO_INGRESS_MAX_BUFFERED_BYTES"
begin

lemma sum_replace:
  assumes "distinct (map fst xs)" and "map_of xs h = Some c"
  shows "sum_list (map (\<lambda>(k, x). g x) (map (\<lambda>(k, x). (k, if k = h then c' else x)) xs)) + g c
       = sum_list (map (\<lambda>(k, x). g x) xs) + (g c' :: int)"
  using assms
proof (induction xs)
  case (Cons y xs)
  show ?case
  proof (cases "fst y = h")
    case True
    then have "h \<notin> fst ` set xs" using Cons.prems(1) by (cases y) auto
    then have "map (\<lambda>(k, x). (k, if k = h then c' else x)) xs = xs" by (intro map_idI) force
    moreover have "snd y = c" using Cons.prems(2) True by (cases y) simp
    ultimately show ?thesis using True by (cases y) simp
  next
    case False
    then show ?thesis using Cons by (cases y) (auto split: if_splits)
  qed
qed simp

lemma keeps_books: "ingress_inv tr \<Longrightarrow> ingress_inv (snd (with_video_in h f (st, tr)))"
proof (cases "map_of (video_in tr) h")
  case None
  then show "ingress_inv tr \<Longrightarrow> ?thesis" by (simp add: with_video_in_def)
next
  case (Some c)
  assume inv: "ingress_inv tr"
  let ?i = "vin_session c"
  obtain c' b' st' where f: "f (c, in_buffered tr ?i, st) = (c', b', st')" by (cases "f (c, in_buffered tr ?i, st)") auto
  have d: "distinct (map fst (video_in tr))" and ok: "\<forall>(h, c) \<in> set (video_in tr). charged_ok c"
    using inv by (simp_all add: ingress_inv_def)
  have "charged_ok c" using ok map_of_SomeD [OF Some] by auto
  moreover have "in_buffered tr ?i \<le> VIDEO_INGRESS_MAX_BUFFERED_BYTES" using inv by (simp add: ingress_inv_def)
  ultimately have b: "charged_ok c'" "vin_session c' = ?i"
      "b' = in_buffered tr ?i - vin_charged c + vin_charged c'" "b' \<le> VIDEO_INGRESS_MAX_BUFFERED_BYTES"
    using books [OF _ _ f] by simp_all
  let ?vs = "map (\<lambda>(k, x). (k, if k = h then c' else x)) (video_in tr)"
  have w: "snd (with_video_in h f (st, tr)) = tr\<lparr>in_buffered := (in_buffered tr)(?i := b'), video_in := ?vs\<rparr>"
    by (simp add: with_video_in_def Some f)
  have "held_by (tr\<lparr>video_in := ?vs\<rparr>) j = held_by tr j + (if j = ?i then vin_charged c' - vin_charged c else 0)" for j
    using sum_replace [OF d Some, of "\<lambda>x. if vin_session x = j then vin_charged x else 0" c'] b(2)
    by (auto simp: held_by_def split: if_splits)
  then have "(in_buffered tr)(?i := b') = held_by (tr\<lparr>video_in := ?vs\<rparr>)
      \<and> (\<forall>j. held_by (tr\<lparr>video_in := ?vs\<rparr>) j \<le> VIDEO_INGRESS_MAX_BUFFERED_BYTES)"
    using b inv by (auto simp: ingress_inv_def fun_eq_iff)
  moreover have "distinct (map fst ?vs)" using d by (simp add: comp_def case_prod_beta)
  moreover have "\<forall>(h, c) \<in> set ?vs. charged_ok c" using ok b(1) by auto
  moreover have "held_by (tr\<lparr>in_buffered := g, video_in := ?vs\<rparr>) = held_by (tr\<lparr>video_in := ?vs\<rparr>)" for g
    by (simp add: held_by_def fun_eq_iff)
  ultimately show ?thesis by (simp add: w ingress_inv_def del: map_map)
qed

end

lemma abort_books:
  assumes "b - vin_charged c \<le> VIDEO_INGRESS_MAX_BUFFERED_BYTES" and "\<not> vin_dead c"
    and "vin_abort h (c, b, st) = (c', b', st')"
  shows "charged_ok c' \<and> vin_session c' = vin_session c \<and> b' - vin_charged c' = b - vin_charged c
    \<and> b' \<le> VIDEO_INGRESS_MAX_BUFFERED_BYTES"
  using assms by (auto simp: vin_abort_def vin_uncharge_def vin_report_lost_def charged_ok_def split: if_splits)

lemma finish_books:
  assumes "charged_ok c" and "b \<le> VIDEO_INGRESS_MAX_BUFFERED_BYTES" and "vin_finish (c, b, st) = (c', b', st')"
  shows "charged_ok c' \<and> vin_session c' = vin_session c \<and> b' - vin_charged c' = b - vin_charged c
    \<and> b' \<le> VIDEO_INGRESS_MAX_BUFFERED_BYTES"
  using assms by (auto simp: vin_finish_def vin_uncharge_def vin_report_lost_def charged_ok_def Let_def split: if_splits)

lemma note_header_books: "vin_note_header (c, st) = (c', st') \<Longrightarrow>
   vin_buf c' = vin_buf c \<and> vin_charged c' = vin_charged c \<and> vin_session c' = vin_session c \<and> vin_dead c' = vin_dead c"
  by (auto simp: vin_note_header_def split: if_splits option.splits)

lemma buffered_books:
  assumes ok: "charged_ok c" "b \<le> VIDEO_INGRESS_MAX_BUFFERED_BYTES" "\<not> vin_dead c"
    and r: "vin_buffered h fin (c, b, st) = (c', b', st')"
  shows "charged_ok c' \<and> vin_session c' = vin_session c \<and> b' - vin_charged c' = b - vin_charged c
    \<and> b' \<le> VIDEO_INGRESS_MAX_BUFFERED_BYTES"
proof -
  define res where "res = (if vin_prefix_len c = 0 then parse_video_ingress_prefix (vin_buf c) (objs st (vin_session c))
                           else Prefix (vin_prefix_len c) (vin_source c))"
  define c1 where "c1 = (case res of Prefix n src \<Rightarrow> c\<lparr>vin_prefix_len := n, vin_source := src\<rparr> | _ \<Rightarrow> c)"
  obtain c2 st2 where n: "vin_note_header (c1, st) = (c2, st2)" by fastforce
  have "0 \<le> vin_charged c" using ok(1) by (simp add: charged_ok_def)
  moreover have "vin_buf c1 = vin_buf c" "vin_charged c1 = vin_charged c" "vin_session c1 = vin_session c"
      "vin_dead c1 = vin_dead c"
    by (simp_all add: c1_def split: prefix_result.split)
  ultimately have e: "vin_buf c2 = vin_buf c" "vin_charged c2 = vin_charged c" "vin_session c2 = vin_session c"
      "\<not> vin_dead c2" "charged_ok c2" "b - vin_charged c2 \<le> VIDEO_INGRESS_MAX_BUFFERED_BYTES"
      "b - vin_charged c \<le> VIDEO_INGRESS_MAX_BUFFERED_BYTES"
    using note_header_books [OF n] ok by (auto simp: charged_ok_def)
  consider "vin_abort h (c, b, st) = (c', b', st')" | "vin_abort h (c2, b, st2) = (c', b', st')"
    | "vin_finish (c2, b, st2) = (c', b', st')" | "(c2, b, st2) = (c', b', st')"
    using r by (auto simp: vin_buffered_def Let_def n res_def [symmetric] c1_def [symmetric] split: if_splits)
  then show ?thesis
    using abort_books [OF e(7) ok(3)] abort_books [OF e(6,4)] finish_books [OF e(5) ok(2)] e ok by cases force+
qed

interpretation receive: budgeted "vin_receive now stats h bufs fin" for now stats h bufs fin
proof
  fix c b st c' b' st'
  assume a: "charged_ok c" "b \<le> VIDEO_INGRESS_MAX_BUFFERED_BYTES" "vin_receive now stats h bufs fin (c, b, st) = (c', b', st')"
  define k where "k = int (length (concat bufs))"
  define st1 where "st1 = upd (vin_session c) (sample_min_rtt now stats) st"
  let ?c1 = "c\<lparr>vin_charged := vin_charged c + k\<rparr>"
  have "0 \<le> k" "0 \<le> vin_charged c" using a(1) by (simp_all add: k_def charged_ok_def)
  consider "vin_dead c" "(c, b, st) = (c', b', st')"
    | "\<not> vin_dead c" "vin_abort h (?c1, b + k, st1) = (c', b', st')"
    | "\<not> vin_dead c" "b + k \<le> VIDEO_INGRESS_MAX_BUFFERED_BYTES"
      "vin_buffered h fin (?c1\<lparr>vin_buf := vin_buf c @ concat bufs\<rparr>, b + k, st1) = (c', b', st')"
    using a(3) by (auto simp: vin_receive_def Let_def k_def st1_def split: if_splits)
  then show "charged_ok c' \<and> vin_session c' = vin_session c \<and> b' - vin_charged c' = b - vin_charged c
      \<and> b' \<le> VIDEO_INGRESS_MAX_BUFFERED_BYTES"
  proof cases
    case 2
    then show ?thesis using abort_books [of "b + k" ?c1] a(2) \<open>0 \<le> vin_charged c\<close> by simp
  next
    case 3
    then show ?thesis using buffered_books [OF _ 3(2) _ 3(3)] a(1) by (simp add: charged_ok_def k_def)
  qed (use a in auto)
qed

interpretation frame_abort: budgeted "vin_abort h" for h
proof
  fix c b st c' b' st'
  assume a: "charged_ok c" "b \<le> VIDEO_INGRESS_MAX_BUFFERED_BYTES" "vin_abort h (c, b, st) = (c', b', st')"
  then show "charged_ok c' \<and> vin_session c' = vin_session c \<and> b' - vin_charged c' = b - vin_charged c
      \<and> b' \<le> VIDEO_INGRESS_MAX_BUFFERED_BYTES"
    using abort_books [OF _ _ a(3)] by (cases "vin_dead c") (auto simp: vin_abort_def charged_ok_def)
qed

lemma held_by_remove:
  assumes "distinct (map fst xs)" and "map_of xs h = Some c"
  shows "sum_list (map (\<lambda>(k, x). g x) (filter (\<lambda>(k, _). k \<noteq> h) xs)) = sum_list (map (\<lambda>(k, x). g x) xs) - (g c :: int)"
  using assms
proof (induction xs)
  case (Cons y xs)
  show ?case
  proof (cases "fst y = h")
    case True
    then have "h \<notin> fst ` set xs" using Cons.prems(1) by (cases y) auto
    then have "filter (\<lambda>(k, _). k \<noteq> h) xs = xs" by (intro filter_True) force
    moreover have "snd y = c" using Cons.prems(2) True by (cases y) simp
    ultimately show ?thesis using True by (cases y) simp
  next
    case False
    then show ?thesis using Cons by (cases y) (auto split: if_splits)
  qed
qed simp

lemma closed_books: "ingress_inv tr \<Longrightarrow> ingress_inv (snd (on_video_in_closed h (st, tr)))"
proof (cases "map_of (video_in tr) h")
  case None
  assume "ingress_inv tr"
  moreover have "filter (\<lambda>(k, _). k \<noteq> h) (video_in tr) = video_in tr"
    using None by (intro filter_True) (force simp: map_of_eq_None_iff)
  ultimately show ?thesis using None by (simp add: on_video_in_closed_def with_video_in_def)
next
  case (Some c)
  assume inv: "ingress_inv tr"
  let ?vs = "filter (\<lambda>(k, _). k \<noteq> h) (video_in tr)" and ?i = "vin_session c"
  have "filter (\<lambda>(k, _). k \<noteq> h) (map (\<lambda>(k, x). (k, if k = h then c' else x)) xs) = filter (\<lambda>(k, _). k \<noteq> h) xs"
    for xs :: "(nat \<times> video_in_stream) list" and c' by (induction xs) auto
  then have w: "snd (on_video_in_closed h (st, tr)) = tr\<lparr>in_buffered := (in_buffered tr)(?i := in_buffered tr ?i - vin_charged c),
      video_in := ?vs\<rparr>"
    by (simp add: on_video_in_closed_def with_video_in_def vin_uncharge_def Some)
  have d: "distinct (map fst (video_in tr))" and ok: "\<forall>(h, c) \<in> set (video_in tr). charged_ok c"
    using inv by (simp_all add: ingress_inv_def)
  have "0 \<le> vin_charged c" using ok map_of_SomeD [OF Some] by (fastforce simp: charged_ok_def)
  moreover have "held_by (tr\<lparr>video_in := ?vs\<rparr>) j = held_by tr j - (if j = ?i then vin_charged c else 0)" for j
    using held_by_remove [OF d Some, of "\<lambda>x. if vin_session x = j then vin_charged x else 0"] by (auto simp: held_by_def)
  moreover have "held_by tr ?i - vin_charged c \<le> VIDEO_INGRESS_MAX_BUFFERED_BYTES"
  proof -
    have "held_by tr ?i \<le> VIDEO_INGRESS_MAX_BUFFERED_BYTES" using inv by (simp add: ingress_inv_def)
    then show ?thesis using \<open>0 \<le> vin_charged c\<close> by linarith
  qed
  moreover have "held_by (tr\<lparr>in_buffered := g, video_in := ?vs\<rparr>) = held_by (tr\<lparr>video_in := ?vs\<rparr>)" for g
    by (simp add: held_by_def fun_eq_iff)
  ultimately show ?thesis
    using inv d ok by (auto simp: w ingress_inv_def distinct_map_filter fun_eq_iff)
qed

lemma ingress_inv_cong:
  "video_in tr' = video_in tr \<Longrightarrow> in_buffered tr' = in_buffered tr \<Longrightarrow> ingress_inv tr' = ingress_inv tr"
  by (simp add: ingress_inv_def held_by_def fun_eq_iff)

lemma open_books:
  assumes "ingress_inv tr" and "h \<notin> fst ` set (video_in tr)"
  shows "ingress_inv (tr\<lparr>video_in := (h, new_video_in i) # video_in tr\<rparr>)"
proof -
  have "held_by (tr\<lparr>video_in := (h, new_video_in i) # video_in tr\<rparr>) = held_by tr"
    by (simp add: held_by_def new_video_in_def fun_eq_iff)
  then show ?thesis using assms by (simp add: ingress_inv_def) (simp add: charged_ok_def new_video_in_def)
qed

text \<open>The other callbacks leave the frame streams alone.\<close>

definition same_frames :: "transport \<Rightarrow> transport \<Rightarrow> bool" where
  "same_frames tr' tr \<longleftrightarrow> video_in tr' = video_in tr \<and> in_buffered tr' = in_buffered tr"

lemma same_frames_inv: "same_frames tr' tr \<Longrightarrow> ingress_inv tr \<Longrightarrow> ingress_inv tr'"
  using ingress_inv_cong [of tr' tr] by (simp add: same_frames_def)

lemma same_frames_fold:
  "(\<And>x p. same_frames (snd (f x p)) (snd p)) \<Longrightarrow> same_frames (snd (fold f xs p)) (snd p)"
  by (induction xs arbitrary: p) (auto simp: same_frames_def)

lemma same_frames_video: "same_frames (snd (process_video_stream_data i d (st, tr))) tr"
proof -
  let ?f = "\<lambda>(ty, body). on_video_frame i ty Screen body"
  obtain fs buf where p: "parse_video (video_recv_buffers tr i @ d) = (fs, buf)" by fastforce
  have "same_frames (snd (?f x p)) (snd p)" for x p
    by (cases x; cases p) (simp add: on_video_frame_def same_frames_def)
  from same_frames_fold [where f = ?f, OF this] show ?thesis
    unfolding process_video_stream_data_def by (simp add: p same_frames_def)
qed

lemma same_frames_stream: "same_frames (snd (on_stream_receive now stats h i bufs (st, tr))) tr"
proof -
  have "same_frames (snd (case p of (st, tr) \<Rightarrow> if is_v then process_video_stream_data i b (st, tr)
      else (st, process_stream_data i b tr))) (snd p)" for is_v b p
    using same_frames_video by (cases p) (simp add: process_stream_data_def case_prod_beta same_frames_def)
  then have f: "same_frames (snd (fold (\<lambda>b (st, tr). if is_v then process_video_stream_data i b (st, tr)
      else (st, process_stream_data i b tr)) bufs (st', tr))) tr" for is_v st'
    using same_frames_fold [where f = "\<lambda>b (st, tr). if is_v then process_video_stream_data i b (st, tr)
      else (st, process_stream_data i b tr)" and p = "(st', tr)"] by simp
  show ?thesis
  proof (cases "get_session i st")
    case None
    then show ?thesis using f [of False st] by (simp add: on_stream_receive_def)
  next
    case (Some s)
    then show ?thesis using f by (simp add: on_stream_receive_def)
  qed
qed

lemma ingress_step:
  assumes "system_step cfg L s s'" and inv: "ingress_inv (sys_tr s)" shows "ingress_inv (sys_tr s')"
  using assms(1)
proof (cases rule: system_step.cases)
  case (Sys_Frame_Data now stats h bufs fin)
  then show ?thesis using receive.keeps_books [OF inv, where now = now and stats = stats and bufs = bufs and fin = fin]
    by (simp add: callback_def on_video_in_receive_def case_prod_beta)
next
  case (Sys_Frame_Aborted h)
  then show ?thesis using frame_abort.keeps_books [OF inv] by (simp add: callback_def on_video_in_aborted_def case_prod_beta)
next
  case (Sys_Frame_Closed h)
  then show ?thesis using closed_books [OF inv] by (simp add: callback_def case_prod_beta)
next
  case (Sys_Data now stats h i bufs)
  then show ?thesis
    using same_frames_inv [OF same_frames_stream inv] by (simp add: callback_def case_prod_beta)
next
  case (Sys_Uni h i)
  then show ?thesis using open_books [OF inv] inv by (simp add: callback_def on_uni_stream_def)
qed (rule same_frames_inv [OF _ inv], simp add: callback_def on_srv_def on_tr_def on_datagram_def on_file_end_def
      drop_buffers_def messages_phase_def packets_phase_def files_phase_def same_frames_def split: list.split)+

lemma new_transport_books: "ingress_inv new_transport"
proof -
  have "held_by new_transport = (\<lambda>_. 0)" by (simp add: held_by_def new_transport_def fun_eq_iff)
  then show ?thesis by (simp add: ingress_inv_def) (simp add: new_transport_def VIDEO_INGRESS_MAX_BUFFERED_BYTES_def)
qed

lemma reach_ingress: "system_reach cfg L s \<Longrightarrow> ingress_inv (sys_tr s)"
  by (induction rule: system_reach.induct) (simp_all add: new_transport_books ingress_step)

text \<open>(C3) A publisher cannot make the server buffer more than 16 MiB of unfinished frames: in every reachable
  state, whatever the peers send and however the callbacks interleave with the loop, the bytes held by the
  open frame streams of one session are covered by that session's counter, the counter is exactly the sum of
  what those streams are charged (no charge is lost or returned twice), and it never exceeds the cap.\<close>

theorem ingress_memory_bounded:
  assumes "system_reach cfg L s"
  shows "sum_list (map (\<lambda>(h, c). if vin_session c = i then int (length (vin_buf c)) else 0) (video_in (sys_tr s)))
           \<le> in_buffered (sys_tr s) i
       \<and> in_buffered (sys_tr s) i = sum_list (map (\<lambda>(h, c). if vin_session c = i then vin_charged c else 0) (video_in (sys_tr s)))
       \<and> in_buffered (sys_tr s) i \<le> VIDEO_INGRESS_MAX_BUFFERED_BYTES"
proof -
  have inv: "ingress_inv (sys_tr s)" by (rule reach_ingress [OF assms])
  have "sum_list (map (\<lambda>(h, c). if vin_session c = i then int (length (vin_buf c)) else 0) (video_in (sys_tr s)))
      \<le> held_by (sys_tr s) i"
    unfolding held_by_def using inv
    by (intro sum_list_mono) (auto simp: ingress_inv_def charged_ok_def)
  then show ?thesis using inv by (simp add: ingress_inv_def) (simp add: held_by_def)
qed

theorem ingress_memory_bounded_witness:
  "in_buffered (sys_tr \<lparr>sys_srv = empty_srv create_schema, sys_tr = new_transport\<rparr>) 1 \<le> VIDEO_INGRESS_MAX_BUFFERED_BYTES"
proof -
  have "system_reach demo_cfg demo_libs \<lparr>sys_srv = empty_srv create_schema, sys_tr = new_transport\<rparr>"
    by (rule Sys_Start [OF create_schema_inv]) (simp add: create_schema_def)
  from ingress_memory_bounded [OF this, of 1] show ?thesis by simp
qed

end
