(* ===== verification/Net_Client.thy ===== *)
theory Net_Client
  imports Framing Datagram_Backlog
begin

text \<open>
  The client's transport, \<open>client/src/net_client_msquic.cpp\<close> and \<open>client/src/net_client_parsing.h\<close>: the
  connection state, the two long-lived streams, datagrams, one stream per video frame in each direction
  and file transfers. What is handed to MsQuic is a \<open>net_effect\<close>, what is handed up to the application
  (the \<open>std::function\<close> members of \<open>NetClient\<close>, assumed assigned) an \<open>upcall\<close>, each appended in order.
  Status codes of MsQuic are Boolean arguments. Stream handles are numbers MsQuic chooses.
\<close>

datatype net_effect =
  StreamSend nat bytes
| FrameSend nat bytes
| FileSend nat bytes
| DatagramOut bytes bool
| ShutdownStream nat
| ShutdownConnection
| CloseConnection

datatype upcall =
  DataReceived bytes
| StreamFrame u32 bytes
| StreamHeader u32 frame_header
| FrameGone u32 u32 bool
| BytesCompleted u8 nat
| FileDownloaded u64 bytes
| Disconnected

record net =
  nc_connection :: bool
  nc_control_stream :: "nat option"
  nc_video_stream :: "nat option"
  nc_connected :: bool
  nc_connecting :: bool
  nc_connect_failed :: bool
  nc_recv_buffer :: bytes
  nc_video_recv_buffer :: bytes
  nc_backlog :: backlog
  nc_incoming :: "(ctype \<times> bytes) list"
  nc_out :: "net_effect list"
  nc_up :: "upcall list"

definition new_net :: net where
  "new_net = \<lparr>nc_connection = False, nc_control_stream = None, nc_video_stream = None, nc_connected = False,
     nc_connecting = False, nc_connect_failed = False, nc_recv_buffer = [], nc_video_recv_buffer = [],
     nc_backlog = new_backlog \<lparr>max_queued = 32, max_delay_us = 200000, holdoff_us = 100000\<rparr>,
     nc_incoming = [], nc_out = [], nc_up = []\<rparr>"

definition nc_emit :: "net_effect \<Rightarrow> net \<Rightarrow> net" where
  "nc_emit x n = n\<lparr>nc_out := nc_out n @ [x]\<rparr>"

definition nc_call :: "upcall \<Rightarrow> net \<Rightarrow> net" where
  "nc_call x n = n\<lparr>nc_up := nc_up n @ [x]\<rparr>"

section \<open>Parsing\<close>

function parse_messages :: "bytes \<Rightarrow> (ctype \<times> bytes) list \<times> bytes" where
  "parse_messages buf =
     (if length buf < 6 then ([], buf)
      else
        let msg_len = of_le32 buf
        in if msg_len < 2 \<or> msg_len > 1024 * 1024 then ([], [])
           else if length buf < 4 + unat msg_len then ([], buf)
           else
             let raw_type = of_le16 (drop 4 buf);
                 payload = take (unat msg_len - 2) (drop 6 buf);
                 (ms, rest) = parse_messages (drop (4 + unat msg_len) buf)
             in ((ctype_of_code raw_type, payload) # ms, rest))"
  by pat_completeness auto
termination by (relation "measure length") auto

function parse_packets :: "bytes \<Rightarrow> bytes list \<times> bytes" where
  "parse_packets buf =
     (if length buf < 4 then ([], buf)
      else
        let frame_len = of_le32 buf
        in if frame_len = 0 \<or> frame_len > 4 * 1024 * 1024 then ([], [])
           else if length buf < 4 + unat frame_len then ([], buf)
           else
             let (ps, rest) = parse_packets (drop (4 + unat frame_len) buf)
             in (take (unat frame_len) (drop 4 buf) # ps, rest))"
  by pat_completeness auto
termination by (relation "measure length") auto

declare parse_messages.simps [simp del] parse_packets.simps [simp del]

definition client_stream_data :: "bytes \<Rightarrow> net \<Rightarrow> net" where
  "client_stream_data d n =
     (let (ms, buf) = parse_messages (nc_recv_buffer n @ d)
      in n\<lparr>nc_recv_buffer := buf, nc_incoming := nc_incoming n @ ms\<rparr>)"

definition client_video_stream_data :: "bytes \<Rightarrow> net \<Rightarrow> net" where
  "client_video_stream_data d n =
     (let (ps, buf) = parse_packets (nc_video_recv_buffer n @ d)
      in n\<lparr>nc_video_recv_buffer := buf, nc_up := nc_up n @ map DataReceived ps\<rparr>)"

section \<open>Connecting and disconnecting\<close>

definition cleanup_handles :: "net \<Rightarrow> net" where
  "cleanup_handles n =
     (let n1 = n\<lparr>nc_connection := False, nc_control_stream := None, nc_video_stream := None\<rparr>
      in if nc_connection n then nc_emit CloseConnection n1 else n1)"

text \<open>\<open>api\<close>: MsQuic is initialised; \<open>opened\<close>: every call up to \<open>ConnectionOpen\<close> succeeded; \<open>started\<close>: so did
  \<open>ConnectionStart\<close>.\<close>

definition nc_connect :: "bool \<Rightarrow> bool \<Rightarrow> bool \<Rightarrow> net \<Rightarrow> bool \<times> net" where
  "nc_connect api opened started n =
     (if nc_connected n then (False, n)
      else if \<not> api then (False, n)
      else
        let n1 = (cleanup_handles n)\<lparr>nc_recv_buffer := [], nc_video_recv_buffer := [],
                                      nc_backlog := backlog_reset (nc_backlog n)\<rparr>
        in if \<not> opened then (False, cleanup_handles n1)
           else
             let n2 = n1\<lparr>nc_connection := True, nc_connecting := True, nc_connect_failed := False\<rparr>
             in if started then (True, n2) else (False, cleanup_handles (n2\<lparr>nc_connecting := False\<rparr>)))"

definition nc_disconnect :: "net \<Rightarrow> net" where
  "nc_disconnect n =
     (if \<not> nc_connected n \<and> \<not> nc_connecting n \<and> \<not> nc_connection n then n
      else
        let n1 = n\<lparr>nc_connected := False, nc_connecting := False, nc_connect_failed := False\<rparr>;
            n2 = (if nc_connection n1 then nc_emit ShutdownConnection n1 else n1)
        in (cleanup_handles n2)\<lparr>nc_recv_buffer := [], nc_video_recv_buffer := []\<rparr>)"

definition is_connecting :: "net \<Rightarrow> bool" where
  "is_connecting n \<longleftrightarrow> nc_connecting n \<and> \<not> nc_connected n \<and> \<not> nc_connect_failed n"

section \<open>Sending\<close>

definition send_message :: "ctype \<Rightarrow> bytes \<Rightarrow> bool \<Rightarrow> net \<Rightarrow> bool \<times> net" where
  "send_message ty payload ok n =
     (case nc_control_stream n of
        Some cs \<Rightarrow>
          if nc_connected n \<and> ok
          then (True, nc_emit (StreamSend cs (le32 (of_nat (2 + length payload)) @ le16 (code_of_ctype ty) @ payload)) n)
          else (False, n)
      | None \<Rightarrow> (False, n))"

definition send_data :: "int \<Rightarrow> bytes \<Rightarrow> bool \<Rightarrow> bool \<Rightarrow> net \<Rightarrow> bool \<times> net" where
  "send_data now d priority ok n =
     (if \<not> nc_connected n \<or> \<not> nc_connection n then (False, n)
      else
        let (adm, b) = admit now (nc_backlog n)
        in if \<not> adm then (False, n\<lparr>nc_backlog := b\<rparr>)
           else if ok then (True, nc_emit (DatagramOut d priority) (n\<lparr>nc_backlog := on_queued now b\<rparr>))
           else (False, n\<lparr>nc_backlog := on_send_failed (on_queued now b)\<rparr>))"

definition send_stream1 :: "bytes \<Rightarrow> bytes \<Rightarrow> bool \<Rightarrow> net \<Rightarrow> bool \<times> net" where
  "send_stream1 header payload ok n =
     (case nc_video_stream n of
        Some vs \<Rightarrow>
          if nc_connected n \<and> ok
          then (True, nc_emit (StreamSend vs (le32 (of_nat (length header + length payload)) @ header @ payload)) n)
          else (False, n)
      | None \<Rightarrow> (False, n))"

definition send_video_parts :: "bytes \<Rightarrow> bytes \<Rightarrow> bool \<Rightarrow> net \<Rightarrow> bool \<times> net" where
  "send_video_parts header payload ok n =
     (if length header + length payload > VIDEO_FRAME_MAX_PAYLOAD_BYTES then (False, n)
      else send_stream1 header payload ok n)"

definition send_video :: "bytes \<Rightarrow> bool \<Rightarrow> net \<Rightarrow> bool \<times> net" where
  "send_video d ok n = send_stream1 [] d ok n"

definition frame_stream_prefix_bytes :: "u8 \<Rightarrow> nat" where
  "frame_stream_prefix_bytes source = (if source = Screen then 1 else 2)"

definition frame_stream_bytes :: "u8 \<Rightarrow> bytes \<Rightarrow> bytes \<Rightarrow> bytes" where
  "frame_stream_bytes source header payload =
     (if source = Screen then [STREAM_TYPE_VIDEO_FRAME] else [STREAM_TYPE_VIDEO_SOURCE_FRAME, source])
       @ header @ payload"

text \<open>\<open>stream\<close> is the handle \<open>StreamOpen\<close> returns, \<open>None\<close> when it fails.\<close>

definition send_video_frame_stream :: "bytes \<Rightarrow> bytes \<Rightarrow> u8 \<Rightarrow> nat option \<Rightarrow> bool \<Rightarrow> net \<Rightarrow> bool \<times> net" where
  "send_video_frame_stream header payload source stream ok n =
     (if \<not> nc_connected n \<or> \<not> nc_connection n then (False, n)
      else if \<not> video_source_valid source then (False, n)
      else if length header + length payload > VIDEO_FRAME_MAX_PAYLOAD_BYTES then (False, n)
      else (case stream of
              None \<Rightarrow> (False, n)
            | Some h \<Rightarrow>
                if ok then (True, nc_emit (FrameSend h (frame_stream_bytes source header payload)) n)
                else (False, nc_emit (ShutdownStream h) n)))"

section \<open>Connection events\<close>

text \<open>\<open>CONNECTED\<close>: the handles of the two streams, \<open>None\<close> where opening or starting failed.\<close>

definition on_connected :: "nat option \<Rightarrow> nat option \<Rightarrow> net \<Rightarrow> net" where
  "on_connected control video n =
     (let n1 = n\<lparr>nc_connecting := False\<rparr>;
          n2 = (case control of Some h \<Rightarrow> n1\<lparr>nc_control_stream := Some h\<rparr> | None \<Rightarrow> n1)
      in if nc_control_stream n2 = None then n2
         else
           let n3 = (case video of Some h \<Rightarrow> n2\<lparr>nc_video_stream := Some h\<rparr> | None \<Rightarrow> n2)
           in n3\<lparr>nc_connected := True\<rparr>)"

definition client_datagram :: "bytes \<Rightarrow> net \<Rightarrow> net" where
  "client_datagram d n = (if d = [] then n else nc_call (DataReceived d) n)"

definition client_datagram_state :: "int \<Rightarrow> int \<Rightarrow> bool \<Rightarrow> bool \<Rightarrow> bool \<Rightarrow> net \<Rightarrow> bool \<times> net" where
  "client_datagram_state now queued_us left_queue sent final_state n =
     (if \<not> left_queue \<and> (sent \<or> final_state)
      then (True, n\<lparr>nc_backlog := on_dequeued now (if sent then now - queued_us else -1) (nc_backlog n)\<rparr>)
      else (left_queue, n))"

definition on_shutdown_initiated :: "net \<Rightarrow> net" where
  "on_shutdown_initiated n =
     n\<lparr>nc_connect_failed := nc_connect_failed n \<or> nc_connecting n, nc_connecting := False, nc_connected := False\<rparr>"

definition on_shutdown_complete :: "net \<Rightarrow> net" where
  "on_shutdown_complete n =
     nc_call Disconnected ((on_shutdown_initiated n)\<lparr>nc_control_stream := None, nc_video_stream := None\<rparr>)"

text \<open>\<open>RECEIVE\<close> on a long-lived stream, and its end.\<close>

definition client_stream_receive :: "nat \<Rightarrow> bytes list \<Rightarrow> net \<Rightarrow> net" where
  "client_stream_receive stream bufs n =
     fold (\<lambda>b n. if nc_video_stream n = Some stream then client_video_stream_data b n else client_stream_data b n)
       bufs n"

definition client_stream_closed :: "nat \<Rightarrow> net \<Rightarrow> net" where
  "client_stream_closed stream n =
     (if nc_control_stream n = Some stream then n\<lparr>nc_control_stream := None\<rparr>
      else if nc_video_stream n = Some stream then n\<lparr>nc_video_stream := None\<rparr> else n)"

datatype send_kind = ControlSend | VideoStream1 | Stream1Ctl

definition client_send_complete :: "send_kind \<Rightarrow> nat \<Rightarrow> net \<Rightarrow> net" where
  "client_send_complete k len n = (if k = VideoStream1 then nc_call (BytesCompleted Screen len) n else n)"

definition frame_send_complete :: "u8 \<Rightarrow> nat \<Rightarrow> net \<Rightarrow> net" where
  "frame_send_complete source len n = nc_call (BytesCompleted source len) n"

section \<open>Frame streams from the server\<close>

record client_video_in =
  cv_buf :: bytes
  cv_have_sender :: bool
  cv_have_header :: bool
  cv_dead :: bool
  cv_delivered :: bool
  cv_sender :: u32
  cv_frame_seq :: u32

definition new_client_video_in :: client_video_in where
  "new_client_video_in = \<lparr>cv_buf = [], cv_have_sender = False, cv_have_header = False, cv_dead = False,
     cv_delivered = False, cv_sender = 0, cv_frame_seq = 0\<rparr>"

definition VIDEO_IN_PREFIX :: nat where "VIDEO_IN_PREFIX = 1 + 4"

definition video_in_reject :: "nat \<Rightarrow> client_video_in \<times> net \<Rightarrow> client_video_in \<times> net" where
  "video_in_reject stream = (\<lambda>(c, n).
     let n1 = (if cv_delivered c then n else nc_call (FrameGone (cv_sender c) (cv_frame_seq c) (cv_have_header c)) n)
     in (c\<lparr>cv_delivered := True, cv_dead := True, cv_buf := []\<rparr>, nc_emit (ShutdownStream stream) n1))"

definition video_in_complete :: "client_video_in \<times> net \<Rightarrow> client_video_in \<times> net" where
  "video_in_complete = (\<lambda>(c, n).
     if cv_dead c \<or> cv_delivered c then (c, n)
     else if \<not> cv_have_header c \<or> length (cv_buf c) < VIDEO_IN_PREFIX + VIDEO_FRAME_HEADER_SIZE
     then (c\<lparr>cv_delivered := True, cv_buf := []\<rparr>,
           nc_call (FrameGone (cv_sender c) (cv_frame_seq c) (cv_have_header c)) n)
     else (c\<lparr>cv_delivered := True, cv_buf := []\<rparr>,
           nc_call (StreamFrame (cv_sender c) (drop VIDEO_IN_PREFIX (cv_buf c))) n))"

definition cv_note_sender :: "client_video_in \<Rightarrow> client_video_in" where
  "cv_note_sender c =
     (if \<not> cv_have_sender c \<and> length (cv_buf c) \<ge> VIDEO_IN_PREFIX
      then c\<lparr>cv_sender := of_le32 (drop 1 (cv_buf c)), cv_have_sender := True\<rparr> else c)"

definition cv_note_header :: "client_video_in \<times> net \<Rightarrow> client_video_in \<times> net" where
  "cv_note_header = (\<lambda>(c, n).
     if \<not> cv_have_header c \<and> length (cv_buf c) \<ge> VIDEO_IN_PREFIX + VIDEO_FRAME_HEADER_SIZE
     then (case header_parse (drop VIDEO_IN_PREFIX (cv_buf c)) of
             Some hdr \<Rightarrow> (c\<lparr>cv_frame_seq := frame_seq hdr, cv_have_header := True\<rparr>,
                          nc_call (StreamHeader (cv_sender c) hdr) n)
           | None \<Rightarrow> (c, n))
     else (c, n))"

definition client_video_receive :: "nat \<Rightarrow> bytes list \<Rightarrow> bool \<Rightarrow> client_video_in \<times> net \<Rightarrow> client_video_in \<times> net" where
  "client_video_receive stream bufs fin = (\<lambda>(c, n).
     if cv_dead c then (c, n)
     else
       let c1 = c\<lparr>cv_buf := cv_buf c @ concat bufs\<rparr>
       in if cv_buf c1 \<noteq> [] \<and> cv_buf c1 ! 0 \<noteq> STREAM_TYPE_VIDEO_FRAME then video_in_reject stream (c1, n)
          else if length (cv_buf c1) > VIDEO_IN_PREFIX + VIDEO_FRAME_MAX_PAYLOAD_BYTES
          then video_in_reject stream (c1, n)
          else
            let (c2, n2) = cv_note_header (cv_note_sender c1, n)
            in if fin then video_in_complete (c2, n2) else (c2, n2))"

definition client_video_aborted :: "client_video_in \<times> net \<Rightarrow> client_video_in \<times> net" where
  "client_video_aborted = (\<lambda>(c, n).
     let n1 = (if \<not> cv_delivered c \<and> cv_have_sender c
               then nc_call (FrameGone (cv_sender c) (cv_frame_seq c) (cv_have_header c)) n else n)
     in (c\<lparr>cv_delivered := True, cv_dead := True, cv_buf := []\<rparr>, n1))"

section \<open>File transfers\<close>

definition file_request :: "u8 \<Rightarrow> u64 \<Rightarrow> bytes \<Rightarrow> nat option \<Rightarrow> bool \<Rightarrow> bool \<Rightarrow> net \<Rightarrow> bool \<times> net" where
  "file_request kind attachment_id d stream started sent n =
     (if \<not> nc_connected n \<or> \<not> nc_connection n then (False, n)
      else (case stream of
              None \<Rightarrow> (False, n)
            | Some h \<Rightarrow>
                if \<not> started then (False, n)
                else if sent then (True, nc_emit (FileSend h (kind # le64 attachment_id @ d)) n)
                else (False, nc_emit (ShutdownStream h) n)))"

definition upload_file :: "u64 \<Rightarrow> bytes \<Rightarrow> nat option \<Rightarrow> bool \<Rightarrow> bool \<Rightarrow> net \<Rightarrow> bool \<times> net" where
  "upload_file attachment_id d = file_request STREAM_TYPE_FILE_UPLOAD attachment_id d"

definition download_file :: "u64 \<Rightarrow> nat option \<Rightarrow> bool \<Rightarrow> bool \<Rightarrow> net \<Rightarrow> bool \<times> net" where
  "download_file attachment_id = file_request STREAM_TYPE_FILE_DOWNLOAD attachment_id []"

text \<open>The callback of a download: bytes are collected and handed up when the server ended the stream.\<close>

definition download_receive :: "bytes list \<Rightarrow> bytes \<Rightarrow> bytes" where
  "download_receive bufs recv_data = recv_data @ concat bufs"

definition download_end :: "u64 \<Rightarrow> bool \<Rightarrow> bytes \<Rightarrow> net \<Rightarrow> net" where
  "download_end attachment_id is_upload recv_data n =
     (if is_upload then n else nc_call (FileDownloaded attachment_id recv_data) n)"

end
