(* ===== verification/End_To_End.thy ===== *)
theory End_To_End
  imports Server_System Net_Client
begin

text \<open>
  What one side sends is what the other side gets: control messages, whole video frames and files across
  the QUIC streams of \<open>client/src/net_client_msquic.cpp\<close> and \<open>server/src/quic_server.cpp\<close>, for every way
  the transport may cut a stream into receive events.
\<close>

section \<open>Control messages\<close>

text \<open>The bytes MsQuic was given for one stream, in order.\<close>

definition sent_on :: "nat \<Rightarrow> net_effect list \<Rightarrow> bytes" where
  "sent_on h es = concat (map (\<lambda>e. case e of StreamSend k b \<Rightarrow> if k = h then b else [] | _ \<Rightarrow> []) es)"

definition control_sent_to :: "u32 \<Rightarrow> effect list \<Rightarrow> bytes" where
  "control_sent_to i es = concat (map (\<lambda>e. case e of Control k ty p \<Rightarrow> if k = i then control_frame ty p else [] | _ \<Rightarrow> []) es)"

definition sendable :: "ctype \<times> bytes \<Rightarrow> bool" where
  "sendable m \<longleftrightarrow> fst m \<in> fst ` set ctype_codes \<and> 2 + length (snd m) \<le> 1024 * 1024"

definition control_body :: "ctype \<times> bytes \<Rightarrow> bytes" where
  "control_body m = le16 (code_of_ctype (fst m)) @ snd m"

interpretation client_control: framing parse_messages 6 "\<lambda>n. 2 \<le> n \<and> n \<le> 1048576"
  "\<lambda>body. [(ctype_of_code (of_le16 body), drop 2 body)]"
proof
  have "parse_messages b = parse_control b" for b
    by (induction b rule: parse_control.induct)
       (subst parse_messages.simps, subst parse_control.simps, simp add: Let_def)
  then have e: "parse_messages = parse_control" ..
  fix b :: bytes and n :: u32
  show "(4 :: nat) \<le> 6" by simp
  show "2 \<le> n \<and> n \<le> 1048576 \<Longrightarrow> 6 \<le> 4 + unat n" by (rule control.header_fits)
  show "length b < 6 \<Longrightarrow> parse_messages b = ([], b)" unfolding e by (rule control.loop_short)
  show "6 \<le> length b \<Longrightarrow> \<not> (2 \<le> of_le32 b \<and> of_le32 b \<le> 1048576) \<Longrightarrow> parse_messages b = ([], [])"
    unfolding e by (rule control.loop_invalid)
  show "6 \<le> length b \<Longrightarrow> 2 \<le> of_le32 b \<and> of_le32 b \<le> 1048576 \<Longrightarrow> length b < 4 + unat (of_le32 b) \<Longrightarrow>
      parse_messages b = ([], b)"
    unfolding e by (rule control.loop_wait)
  show "6 \<le> length b \<Longrightarrow> 2 \<le> of_le32 b \<and> of_le32 b \<le> 1048576 \<Longrightarrow> 4 + unat (of_le32 b) \<le> length b \<Longrightarrow>
      parse_messages b = ([(ctype_of_code (of_le16 (take (unat (of_le32 b)) (drop 4 b))), drop 2 (take (unat (of_le32 b)) (drop 4 b)))]
        @ fst (parse_messages (drop (4 + unat (of_le32 b)) b)), snd (parse_messages (drop (4 + unat (of_le32 b)) b)))"
    unfolding e by (rule control.loop_take)
qed

lemma sendable_fits: "sendable m \<Longrightarrow> control.fits (control_body m)"
proof -
  assume "sendable m"
  then have l: "length (control_body m) \<le> 1048576" "2 \<le> length (control_body m)"
    by (auto simp: sendable_def control_body_def)
  then have "unat (of_nat (length (control_body m)) :: u32) = length (control_body m)" by (simp add: unat_of_nat)
  then have "2 \<le> (of_nat (length (control_body m)) :: u32) \<and> (of_nat (length (control_body m)) :: u32) \<le> 1048576"
    using l by (simp add: word_le_nat_alt)
  then show ?thesis using l unfolding control.fits_def by simp
qed

lemma control_image: "control.image (control_body m) = (case m of (ty, p) \<Rightarrow> control_frame ty p)"
  by (simp add: control.image_def control_frame_def control_body_def split: prod.split)

lemma control_record: "sendable m \<Longrightarrow> (ctype_of_code (of_le16 (control_body m)), drop 2 (control_body m)) = m"
  using ctype_of_code_of_ctype by (cases m) (fastforce simp: sendable_def control_body_def)

text \<open>Chunks through the server's and the client's receive functions.\<close>

lemma fold_stream_data:
  "control.feed cs (recv_buffers tr i) = (ms, b) \<Longrightarrow>
   recv_buffers (fold (process_stream_data i) cs tr) i = b \<and>
   control_incoming (fold (process_stream_data i) cs tr) = control_incoming tr @
     map (\<lambda>(ty, p). \<lparr>im_session = i, im_type = ty, im_payload = p\<rparr>) ms"
proof (induction cs arbitrary: tr ms)
  case (Cons c cs)
  obtain ms1 b1 where p: "parse_control (recv_buffers tr i @ c) = (ms1, b1)" by fastforce
  obtain ms2 b2 where f: "control.feed cs b1 = (ms2, b2)" by fastforce
  have "ms = ms1 @ ms2" "b2 = b" using Cons.prems p f by simp_all
  moreover have "recv_buffers (process_stream_data i c tr) i = b1" "control_incoming (process_stream_data i c tr)
      = control_incoming tr @ map (\<lambda>(ty, p). \<lparr>im_session = i, im_type = ty, im_payload = p\<rparr>) ms1"
    using p by (simp_all add: process_stream_data_def)
  ultimately show ?case using Cons.IH [of "process_stream_data i c tr" ms2] f by simp
qed simp

lemma fold_client_data:
  "client_control.feed cs (nc_recv_buffer n) = (ms, b) \<Longrightarrow>
   nc_recv_buffer (fold client_stream_data cs n) = b \<and>
   nc_incoming (fold client_stream_data cs n) = nc_incoming n @ ms"
proof (induction cs arbitrary: n ms)
  case (Cons c cs)
  obtain ms1 b1 where p: "parse_messages (nc_recv_buffer n @ c) = (ms1, b1)" by fastforce
  obtain ms2 b2 where f: "client_control.feed cs b1 = (ms2, b2)" by fastforce
  have "ms = ms1 @ ms2" "b2 = b" using Cons.prems p f by simp_all
  moreover have "nc_recv_buffer (client_stream_data c n) = b1" "nc_incoming (client_stream_data c n) = nc_incoming n @ ms1"
    using p by (simp_all add: client_stream_data_def)
  ultimately show ?case using Cons.IH [of "client_stream_data c n" ms2] f by simp
qed simp

lemma records_map: "\<forall>m \<in> set ms. sendable m \<Longrightarrow>
   concat (map (\<lambda>body. [(ctype_of_code (of_le16 body), drop 2 body)]) (map control_body ms)) = ms"
  by (induction ms) (simp_all add: control_record)

lemma sent_messages:
  assumes "nc_connected n" "nc_control_stream n = Some h"
  shows "sent_on h (nc_out (fold (\<lambda>(ty, p) n. snd (send_message ty p True n)) ms n))
       = sent_on h (nc_out n) @ concat (map (\<lambda>(ty, p). control_frame ty p) ms)"
  using assms
proof (induction ms arbitrary: n)
  case (Cons m ms)
  obtain ty p where m: "m = (ty, p)" by fastforce
  let ?n = "snd (send_message ty p True n)"
  have "nc_connected ?n" "nc_control_stream ?n = Some h" "sent_on h (nc_out ?n) = sent_on h (nc_out n) @ control_frame ty p"
    using Cons.prems by (simp_all add: send_message_def nc_emit_def sent_on_def control_frame_def)
  then show ?case using Cons.IH [of ?n] by (simp add: m)
qed simp

text \<open>(C19) Control messages arrive: whatever messages a client sends on its control stream (each of a type the
  protocol names and within the 1 MiB limit), and however the stream is cut into chunks, the server's
  queue receives exactly these messages, each once and in order, and nothing stays in the buffer; and the
  client reads what the server sent it in the same way.\<close>

theorem control_messages_arrive:
  assumes "nc_connected n" "nc_control_stream n = Some h" "sent_on h (nc_out n) = []"
    and "\<forall>m \<in> set ms. sendable m"
    and "concat cs = sent_on h (nc_out (fold (\<lambda>(ty, p) n. snd (send_message ty p True n)) ms n))"
    and "concat ds = control_sent_to i (map (\<lambda>(ty, p). Control i ty p) ms)"
  shows "control_incoming (fold (process_stream_data i) cs new_transport)
           = map (\<lambda>(ty, p). \<lparr>im_session = i, im_type = ty, im_payload = p\<rparr>) ms
       \<and> recv_buffers (fold (process_stream_data i) cs new_transport) i = []
       \<and> nc_incoming (fold client_stream_data ds new_net) = ms
       \<and> nc_recv_buffer (fold client_stream_data ds new_net) = []"
proof -
  have fits: "\<forall>b \<in> set (map control_body ms). control.fits b" using assms(4) sendable_fits by auto
  have c: "concat cs = concat (map control.image (map control_body ms))"
    using sent_messages [OF assms(1,2), of ms] assms(3,5) by (simp add: comp_def control_image)
  have "control_sent_to i (map (\<lambda>(ty, p). Control i ty p) ms) = concat (map (\<lambda>(ty, p). control_frame ty p) ms)"
    by (simp add: control_sent_to_def comp_def case_prod_unfold)
  then have d: "concat ds = concat (map control.image (map control_body ms))"
    using assms(6) by (simp add: comp_def control_image)
  have "control.feed cs [] = (ms, [])"
    using control.feed_chunks [OF fits, of "[]" cs "[]"] c records_map [OF assms(4)] by simp
  moreover have "client_control.feed ds [] = (ms, [])"
    using client_control.feed_chunks [OF fits, of "[]" ds "[]"] d records_map [OF assms(4)]
    by simp
  ultimately show ?thesis
    using fold_stream_data [of cs new_transport i ms "[]"] fold_client_data [of ds new_net ms "[]"]
    by (simp add: new_transport_def new_net_def)
qed

theorem control_messages_arrive_witness:
  "nc_incoming (fold client_stream_data [take 7 (control_frame KEEPALIVE_PONG []
      @ control_frame CHAT_MESSAGE [1, 2]), drop 7 (control_frame KEEPALIVE_PONG [] @ control_frame CHAT_MESSAGE [1, 2])] new_net)
   = [(KEEPALIVE_PONG, []), (CHAT_MESSAGE, [1, 2])]"
proof -
  let ?ms = "[(KEEPALIVE_PONG, []), (CHAT_MESSAGE, [1, 2 :: u8])]"
  let ?n = "new_net\<lparr>nc_connected := True, nc_control_stream := Some 4\<rparr>"
  let ?bs = "control_frame KEEPALIVE_PONG [] @ control_frame CHAT_MESSAGE [1, 2]"
  have "sent_on 4 (nc_out ?n) = []" by (simp add: sent_on_def new_net_def)
  moreover have "\<forall>m \<in> set ?ms. sendable m" by (simp add: sendable_def ctype_codes_def)
  moreover have "concat [take 7 ?bs, drop 7 ?bs] = control_sent_to 1 (map (\<lambda>(ty, p). Control 1 ty p) ?ms)"
    by (simp add: control_sent_to_def del: take_append drop_append)
  ultimately show ?thesis
    using control_messages_arrive [of ?n 4 ?ms "[sent_on 4 (nc_out (fold (\<lambda>(ty, p) n. snd (send_message ty p True n)) ?ms ?n))]"
        "[take 7 ?bs, drop 7 ?bs]" 1] by simp
qed

end
