(* ===== verification/Frame_Streams.thy ===== *)
theory Frame_Streams
  imports End_To_End
begin

text \<open>
  One video frame per QUIC stream, from the publisher to the server's reorder queue and from the server to
  a viewer: for every way MsQuic may cut the stream into receive events the frame arrives whole and exactly
  once, and its sequence number is announced as soon as the header is there.
\<close>

lemma header_written: "length (header_write h) = VIDEO_FRAME_HEADER_SIZE" "header_parse (header_write h @ xs) = Some h"
  by (simp_all add: header_write_def header_parse_def VIDEO_FRAME_HEADER_SIZE_def nth_append)

section \<open>Publisher to server\<close>

definition frame_prefix :: "u8 \<Rightarrow> bytes" where
  "frame_prefix source = (if source = Screen then [STREAM_TYPE_VIDEO_FRAME] else [STREAM_TYPE_VIDEO_SOURCE_FRAME, source])"

lemma frame_stream_bytes_alt: "frame_stream_bytes source hb d = frame_prefix source @ hb @ d"
  by (simp add: frame_stream_bytes_def frame_prefix_def)

text \<open>The receive events of one stream.\<close>

type_synonym receive_event = "int \<times> link_stats option \<times> bytes list"

definition vin_events :: "nat \<Rightarrow> receive_event list \<Rightarrow> video_in_stream \<times> int \<times> srv \<Rightarrow> video_in_stream \<times> int \<times> srv" where
  "vin_events h evs = fold (\<lambda>(now, stats, bufs). vin_receive now stats h bufs False) evs"

definition event_bytes :: "receive_event list \<Rightarrow> bytes" where
  "event_bytes evs = concat (map (\<lambda>(now, stats, bufs). concat bufs) evs)"

lemma append_prefix_ge: "x @ r = p @ q \<Longrightarrow> length p \<le> length x \<Longrightarrow> \<exists>y. x = p @ y \<and> y @ r = q"
  using append_le_split [of p q x r] by metis

lemma nth_prefix: "x @ r = p \<Longrightarrow> n < length x \<Longrightarrow> x ! n = p ! n"
  by (metis nth_append)

lemma prefix_parse:
  assumes "x @ r = frame_prefix source @ d" "video_source_valid source" "video_ingress_allowed s source"
  shows "parse_video_ingress_prefix x s = (if length x < length (frame_prefix source) then NeedMore
     else Prefix (length (frame_prefix source)) source)"
proof -
  have n: "n < length x \<Longrightarrow> x ! n = (frame_prefix source @ d) ! n" for n using nth_prefix [OF assms(1)] .
  show ?thesis
  proof (cases "source = Screen")
    case True
    then show ?thesis using n [of 0] assms(3) by (cases x) (auto simp: parse_video_ingress_prefix_def frame_prefix_def)
  next
    case False
    have "STREAM_TYPE_VIDEO_SOURCE_FRAME \<noteq> STREAM_TYPE_VIDEO_FRAME"
      by (simp add: STREAM_TYPE_VIDEO_SOURCE_FRAME_def STREAM_TYPE_VIDEO_FRAME_def)
    then show ?thesis using False n [of 0] n [of 1] assms(2,3)
      by (cases "x = []") (auto simp: parse_video_ingress_prefix_def frame_prefix_def)
  qed
qed

text \<open>The state of the stream after the first \<open>p\<close> bytes of a frame, from a given server state.\<close>

definition started :: "u32 \<Rightarrow> u8 \<Rightarrow> frame_header \<Rightarrow> srv \<Rightarrow> pending_frame" where
  "started i source hdr st = \<lparr>pf_session = i, pf_source = source, pf_generation = generation (s_sources (objs st i) source),
     pf_kind = StreamStarted hdr\<rparr>"

definition completed :: "u32 \<Rightarrow> u8 \<Rightarrow> bytes \<Rightarrow> srv \<Rightarrow> pending_frame" where
  "completed i source d st = \<lparr>pf_session = i, pf_source = source, pf_generation = generation (s_sources (objs st i) source),
     pf_kind = Frame d\<rparr>"

definition same_publisher :: "u32 \<Rightarrow> srv \<Rightarrow> srv \<Rightarrow> bool" where
  "same_publisher i st' st \<longleftrightarrow> sessions st' = sessions st \<and> s_sources (objs st' i) = s_sources (objs st i)
     \<and> s_pending_bytes (objs st' i) = s_pending_bytes (objs st i)"

definition received :: "u32 \<Rightarrow> u8 \<Rightarrow> frame_header \<Rightarrow> int \<Rightarrow> srv \<Rightarrow> bytes \<Rightarrow> video_in_stream \<times> int \<times> srv \<Rightarrow> bool" where
  "received i source hdr b0 st p = (\<lambda>(c, b, st').
     vin_session c = i \<and> vin_buf c = p \<and> vin_charged c = int (length p) \<and> \<not> vin_dead c \<and> \<not> vin_finished c
     \<and> b = b0 + int (length p) \<and> same_publisher i st' st
     \<and> (if length p < length (frame_prefix source) then vin_prefix_len c = 0
        else vin_prefix_len c = length (frame_prefix source) \<and> vin_source c = source)
     \<and> (vin_have_header c \<longleftrightarrow> length (frame_prefix source) + VIDEO_FRAME_HEADER_SIZE \<le> length p)
     \<and> video_incoming st' = video_incoming st @ (if vin_have_header c then [started i source hdr st] else []))"

lemma sample_keeps: "s_sources (sample_min_rtt now stats s) = s_sources s"
  "s_pending_bytes (sample_min_rtt now stats s) = s_pending_bytes s"
  by (simp_all add: sample_min_rtt_def Let_def split: option.split)

lemma same_publisher_sample: "same_publisher i st' st \<Longrightarrow> same_publisher i (upd j (sample_min_rtt now stats) st') st"
  by (auto simp: same_publisher_def upd_def sample_keeps)

lemma prefix_nonempty [simp]: "frame_prefix source \<noteq> []"
  by (simp add: frame_prefix_def)

lemma prefix_le: "length (frame_prefix source) \<le> 2"
  by (simp add: frame_prefix_def)

lemma note_header_received:
  assumes st: "i \<in> set (sessions st)" "ingress_allowed (s_sources (objs st i) source)" "video_source_valid source"
    and p: "p @ r = frame_prefix source @ header_write hdr @ payload"
    and c: "vin_session c = i" "vin_buf c = p" "vin_prefix_len c = (if length p < length (frame_prefix source) then 0
         else length (frame_prefix source))"
      "length (frame_prefix source) \<le> length p \<Longrightarrow> vin_source c = source"
      "vin_have_header c \<Longrightarrow> length (frame_prefix source) + VIDEO_FRAME_HEADER_SIZE \<le> length p"
    and s: "same_publisher i st' st"
      "video_incoming st' = video_incoming st @ (if vin_have_header c then [started i source hdr st] else [])"
    and n: "vin_note_header (c, st') = (c2, st2)"
  shows "vin_session c2 = vin_session c" "vin_buf c2 = p" "vin_charged c2 = vin_charged c" "vin_dead c2 = vin_dead c"
    "vin_finished c2 = vin_finished c" "vin_prefix_len c2 = vin_prefix_len c" "vin_source c2 = vin_source c"
    "vin_have_header c2 \<longleftrightarrow> length (frame_prefix source) + VIDEO_FRAME_HEADER_SIZE \<le> length p"
    "same_publisher i st2 st"
    "video_incoming st2 = video_incoming st @ (if vin_have_header c2 then [started i source hdr st] else [])"
proof -
  let ?k = "length (frame_prefix source)"
  let ?todo = "\<not> vin_have_header c \<and> ?k + VIDEO_FRAME_HEADER_SIZE \<le> length p"
  have "header_parse (drop ?k p) = Some hdr" if "?k + VIDEO_FRAME_HEADER_SIZE \<le> length p"
  proof -
    have "length (frame_prefix source @ header_write hdr) \<le> length p" using that by (simp add: header_written)
    then obtain y where "p = (frame_prefix source @ header_write hdr) @ y"
      using append_prefix_ge [of p r "frame_prefix source @ header_write hdr" payload] p by auto
    then show ?thesis by (simp add: header_written)
  qed
  moreover have "enqueue_video_event i source (StreamStarted hdr) st' =
      st'\<lparr>video_incoming := video_incoming st' @ [started i source hdr st]\<rparr>"
    using st s(1) by (simp add: enqueue_video_event_def get_session_def same_publisher_def started_def Let_def)
  ultimately have e: "vin_note_header (c, st') = (if ?todo
      then (c\<lparr>vin_have_header := True, vin_frame_seq := frame_seq hdr\<rparr>,
            st'\<lparr>video_incoming := video_incoming st' @ [started i source hdr st]\<rparr>)
      else (c, st'))"
    using c by (auto simp: vin_note_header_def)
  show "vin_session c2 = vin_session c" "vin_buf c2 = p" "vin_charged c2 = vin_charged c" "vin_dead c2 = vin_dead c"
    "vin_finished c2 = vin_finished c" "vin_prefix_len c2 = vin_prefix_len c" "vin_source c2 = vin_source c"
    "vin_have_header c2 \<longleftrightarrow> ?k + VIDEO_FRAME_HEADER_SIZE \<le> length p"
    "same_publisher i st2 st"
    "video_incoming st2 = video_incoming st @ (if vin_have_header c2 then [started i source hdr st] else [])"
    using n c s unfolding e by (auto simp: same_publisher_def split: if_splits)
qed

lemma receive_step:
  assumes st: "i \<in> set (sessions st)" "ingress_allowed (s_sources (objs st i) source)" "video_source_valid source"
    and fit: "length (header_write hdr @ payload) \<le> VIDEO_FRAME_MAX_PAYLOAD_BYTES"
      "b0 + int (length (frame_prefix source @ header_write hdr @ payload)) \<le> VIDEO_INGRESS_MAX_BUFFERED_BYTES"
    and p: "(p @ concat bufs) @ r = frame_prefix source @ header_write hdr @ payload"
    and rec: "received i source hdr b0 st p (c, b, st')"
  obtains c2 st2 where "received i source hdr b0 st (p @ concat bufs) (c2, b0 + int (length (p @ concat bufs)), st2)"
    and "vin_receive now stats h bufs fin (c, b, st') = (if fin then vin_finish (c2, b0 + int (length (p @ concat bufs)), st2)
           else (c2, b0 + int (length (p @ concat bufs)), st2))"
proof -
  let ?k = "length (frame_prefix source)" and ?x = "p @ concat bufs"
  let ?b = "b0 + int (length ?x)"
  define st1 where "st1 = upd i (sample_min_rtt now stats) st'"
  define c1 where "c1 = c\<lparr>vin_charged := int (length ?x), vin_buf := ?x\<rparr>"
  have len: "length ?x \<le> ?k + length (header_write hdr @ payload)" using arg_cong [OF p, of length] by simp
  have r0: "vin_session c = i" "vin_buf c = p" "vin_charged c = int (length p)" "\<not> vin_dead c" "\<not> vin_finished c"
      "b = b0 + int (length p)" "same_publisher i st' st"
    using rec by (auto simp: received_def)
  have s1: "same_publisher i st1 st" "video_incoming st1 = video_incoming st'"
    using same_publisher_sample [OF r0(7)] by (simp_all add: st1_def upd_def)
  then have allowed: "video_ingress_allowed (objs st1 i) source"
    using st(2) by (simp add: same_publisher_def video_ingress_allowed_def)
  define res where "res = (if vin_prefix_len c1 = 0 then parse_video_ingress_prefix ?x (objs st1 i)
                           else Prefix (vin_prefix_len c1) (vin_source c1))"
  have res: "res = (if length ?x < ?k then NeedMore else Prefix ?k source)"
    using rec prefix_parse [OF p st(3) allowed]
    by (auto simp: res_def c1_def received_def split: if_splits)
  define c1' where "c1' = (case res of Prefix n src \<Rightarrow> c1\<lparr>vin_prefix_len := n, vin_source := src\<rparr> | _ \<Rightarrow> c1)"
  obtain c2 st2 where n: "vin_note_header (c1', st1) = (c2, st2)" by fastforce
  have c1': "vin_session c1' = i" "vin_buf c1' = ?x" "vin_prefix_len c1' = (if length ?x < ?k then 0 else ?k)"
      "?k \<le> length ?x \<Longrightarrow> vin_source c1' = source" "vin_have_header c1' = vin_have_header c"
      "vin_charged c1' = int (length ?x)" "\<not> vin_dead c1'" "\<not> vin_finished c1'"
    using rec by (auto simp: c1'_def res c1_def received_def split: if_splits)
  have "vin_have_header c1' \<Longrightarrow> ?k + VIDEO_FRAME_HEADER_SIZE \<le> length ?x"
    and v: "video_incoming st1 = video_incoming st @ (if vin_have_header c1' then [started i source hdr st] else [])"
    using rec by (auto simp: received_def c1'(5) s1(2))
  note nh = note_header_received [OF st p c1'(1-4) this(1) s1(1) v n]
  have "received i source hdr b0 st ?x (c2, ?b, st2)"
    using nh c1' by (auto simp: received_def)
  moreover have "vin_receive now stats h bufs fin (c, b, st') = vin_buffered h fin (c1, ?b, st1)"
    using r0 fit(2) len by (simp add: vin_receive_def Let_def st1_def c1_def add.assoc)
  moreover have "vin_buffered h fin (c1, ?b, st1) = (if fin then vin_finish (c2, ?b, st2) else (c2, ?b, st2))"
  proof -
    have alt: "(if vin_prefix_len c1 = 0 then parse_video_ingress_prefix (vin_buf c1) (objs st1 (vin_session c1))
        else Prefix (vin_prefix_len c1) (vin_source c1)) = res"
      using r0 by (simp add: res_def c1_def)
    have "res \<noteq> Refused" by (simp add: res)
    moreover have "\<not> length (vin_buf c2) > (if vin_prefix_len c2 > 0 then vin_prefix_len c2 else 2) + VIDEO_FRAME_MAX_PAYLOAD_BYTES"
      using nh c1' len fit(1) prefix_le [of source] by auto
    ultimately show ?thesis
      unfolding vin_buffered_def prod.case alt Let_def c1'_def [symmetric] n by (simp only: if_False)
  qed
  ultimately show thesis using that by simp
qed

lemma new_video_in_received: "received i source hdr b0 st [] (new_video_in i, b0, st)"
  by (simp add: received_def new_video_in_def same_publisher_def)

lemma received_events:
  assumes st: "i \<in> set (sessions st)" "ingress_allowed (s_sources (objs st i) source)" "video_source_valid source"
    and fit: "length (header_write hdr @ payload) \<le> VIDEO_FRAME_MAX_PAYLOAD_BYTES"
      "b0 + int (length (frame_prefix source @ header_write hdr @ payload)) \<le> VIDEO_INGRESS_MAX_BUFFERED_BYTES"
  shows "(p @ event_bytes evs) @ r = frame_prefix source @ header_write hdr @ payload \<Longrightarrow>
     received i source hdr b0 st p s \<Longrightarrow> received i source hdr b0 st (p @ event_bytes evs) (vin_events h evs s)"
proof (induction evs arbitrary: p s)
  case (Cons ev evs)
  obtain now stats bufs where ev: "ev = (now, stats, bufs)" by (cases ev)
  obtain c b st' where s: "s = (c, b, st')" by (cases s)
  have "(p @ concat bufs) @ (event_bytes evs @ r) = frame_prefix source @ header_write hdr @ payload"
    using Cons.prems(1) by (simp add: event_bytes_def ev)
  from receive_step [OF st fit this Cons.prems(2) [unfolded s], of now stats h False]
  have "received i source hdr b0 st (p @ concat bufs) (vin_receive now stats h bufs False s)"
    by (metis (full_types) s)
  from Cons.IH [OF _ this] show ?case using Cons.prems(1) by (simp add: event_bytes_def vin_events_def ev)
qed (simp add: event_bytes_def vin_events_def)

text \<open>(C17) A published frame reaches the server whole and once: when a client that publishes a source sends a
  frame on its own stream, then however the stream is cut into receive events the server queues the start
  of that frame and, with the last byte, exactly the bytes the encoder produced, both under the source's
  current generation; the bytes the stream held are given back to the session's budget and nothing is
  kept.\<close>

theorem published_frame_arrives:
  assumes "i \<in> set (sessions st)" "ingress_allowed (s_sources (objs st i) source)" "video_source_valid source"
    and "nc_out (snd (send_video_frame_stream (header_write hdr) payload source (Some k) True n))
           = nc_out n @ [FrameSend k bs]" "nc_connected n" "nc_connection n"
      "length (header_write hdr @ payload) \<le> VIDEO_FRAME_MAX_PAYLOAD_BYTES"
    and "event_bytes evs @ concat bufs = bs"
    and "b0 + int (length bs) \<le> VIDEO_INGRESS_MAX_BUFFERED_BYTES"
      "s_pending_bytes (objs st i) + int (length (header_write hdr @ payload)) \<le> VIDEO_INGRESS_MAX_BUFFERED_BYTES"
    and "vin_receive now stats h bufs True (vin_events h evs (new_video_in i, b0, st)) = (c, b, st')"
  shows "video_incoming st' = video_incoming st @ [started i source hdr st, completed i source (header_write hdr @ payload) st]
       \<and> b = b0 \<and> vin_buf c = [] \<and> vin_charged c = 0 \<and> \<not> vin_dead c"
proof -
  let ?d = "header_write hdr @ payload"
  have bs: "bs = frame_prefix source @ ?d"
    using assms(3-7) by (simp add: send_video_frame_stream_def nc_emit_def frame_stream_bytes_alt)
  have fit: "b0 + int (length (frame_prefix source @ ?d)) \<le> VIDEO_INGRESS_MAX_BUFFERED_BYTES" using assms(9) by (simp add: bs)
  have all: "(event_bytes evs @ concat bufs) @ [] = frame_prefix source @ ?d" using assms(8) bs by simp
  obtain c1 b1 st1 where v: "vin_events h evs (new_video_in i, b0, st) = (c1, b1, st1)" by (cases "vin_events h evs (new_video_in i, b0, st)")
  have "received i source hdr b0 st (event_bytes evs) (c1, b1, st1)"
    using received_events [OF assms(1-3,7) fit, of "[]" evs "concat bufs" "(new_video_in i, b0, st)" h] all new_video_in_received v
    by simp
  from receive_step [OF assms(1-3,7) fit all this, of now stats h True] obtain c2 st2 where
    r: "received i source hdr b0 st (event_bytes evs @ concat bufs) (c2, b0 + int (length (event_bytes evs @ concat bufs)), st2)"
    and f: "vin_receive now stats h bufs True (c1, b1, st1) = vin_finish (c2, b0 + int (length (event_bytes evs @ concat bufs)), st2)"
    by auto
  have x: "event_bytes evs @ concat bufs = frame_prefix source @ ?d" using all by simp
  have st2: "same_publisher i st2 st" "video_incoming st2 = video_incoming st @ [started i source hdr st]"
    and c2: "vin_session c2 = i" "vin_buf c2 = frame_prefix source @ ?d" "vin_charged c2 = int (length (frame_prefix source @ ?d))"
      "vin_prefix_len c2 = length (frame_prefix source)" "vin_source c2 = source" "\<not> vin_dead c2"
    using r unfolding x by (auto simp: received_def header_written)
  have e: "video_incoming (enqueue_video_frame i source ?d st2) = video_incoming st2 @ [completed i source ?d st]"
    using st2(1) assms(1-3,7,10)
    by (simp add: enqueue_video_frame_def get_session_def same_publisher_def completed_def Let_def header_written)
  have "vin_finish (c2, b0 + int (length (frame_prefix source @ ?d)), st2)
      = (c2\<lparr>vin_finished := True, vin_buf := [], vin_charged := 0\<rparr>, b0, enqueue_video_frame i source ?d st2)"
    using c2 by (simp add: vin_finish_def vin_uncharge_def header_written)
  then show ?thesis using assms(11) f v e st2(2) c2(6) unfolding x by auto
qed

definition demo_header :: frame_header where
  "demo_header = \<lparr>frame_seq = 7, timestamp = 1, flags = 1, width = 640, height = 480, codec = 1\<rparr>"

definition demo_frame :: bytes where
  "demo_frame = STREAM_TYPE_VIDEO_FRAME # header_write demo_header @ [1, 2, 3]"

lemma demo_share_publishes: "sessions demo_share = [1] \<and> ingress_allowed (s_sources (objs demo_share 1) Screen)
   \<and> s_pending_bytes (objs demo_share 1) = 0"
  by code_simp

theorem published_frame_arrives_witness:
  "video_incoming (snd (snd (vin_receive 0 None 9 [drop 5 demo_frame] True
     (vin_events 9 [(0, None, [take 5 demo_frame])] (new_video_in 1, 0, demo_share)))))
   = video_incoming demo_share @ [started 1 Screen demo_header demo_share,
       completed 1 Screen (header_write demo_header @ [1, 2, 3]) demo_share]"
proof -
  let ?n = "new_net\<lparr>nc_connected := True, nc_connection := True\<rparr>"
  obtain c b st' where r: "vin_receive 0 None 9 [drop 5 demo_frame] True
      (vin_events 9 [(0, None, [take 5 demo_frame])] (new_video_in 1, 0, demo_share)) = (c, b, st')"
    by (cases "vin_receive 0 None 9 [drop 5 demo_frame] True
      (vin_events 9 [(0, None, [take 5 demo_frame])] (new_video_in 1, 0, demo_share))")
  have l: "length (header_write demo_header) = 14" "length demo_frame = 18"
    by (simp_all add: header_written VIDEO_FRAME_HEADER_SIZE_def demo_frame_def)
  have "video_source_valid Screen" by (simp add: valid_source_cases)
  moreover have "nc_out (snd (send_video_frame_stream (header_write demo_header) [1, 2, 3] Screen (Some 4) True ?n))
      = nc_out ?n @ [FrameSend 4 demo_frame]"
    using l by (simp add: send_video_frame_stream_def nc_emit_def frame_stream_bytes_def demo_frame_def
        VIDEO_FRAME_MAX_PAYLOAD_BYTES_def VIDEO_FRAME_MAX_BYTES_def valid_source_cases)
  moreover have "event_bytes [(0, None, [take 5 demo_frame])] @ concat [drop 5 demo_frame] = demo_frame"
    by (simp add: event_bytes_def)
  ultimately show ?thesis
    using published_frame_arrives [of 1 demo_share Screen demo_header "[1, 2, 3]" 4 ?n demo_frame
        "[(0, None, [take 5 demo_frame])]" "[drop 5 demo_frame]" 0 0 None 9 c b st'] demo_share_publishes r l
    by (simp add: VIDEO_INGRESS_MAX_BUFFERED_BYTES_def VIDEO_FRAME_MAX_PAYLOAD_BYTES_def VIDEO_FRAME_MAX_BYTES_def)
qed

section \<open>Server to viewer\<close>

datatype viewer_event = Received "bytes list" bool | Ended | Aborted

text \<open>\<open>RECEIVE\<close>, \<open>PEER_SEND_SHUTDOWN\<close> and \<open>PEER_SEND_ABORTED\<close> on a server-opened stream.\<close>

definition viewer_step :: "nat \<Rightarrow> viewer_event \<Rightarrow> client_video_in \<times> net \<Rightarrow> client_video_in \<times> net" where
  "viewer_step h ev = (case ev of Received bufs fin \<Rightarrow> client_video_receive h bufs fin
     | Ended \<Rightarrow> video_in_complete | Aborted \<Rightarrow> client_video_aborted)"

fun settles :: "upcall \<Rightarrow> bool" where
  "settles (StreamFrame x d) = True"
| "settles (FrameGone x q b) = True"
| "settles _ = False"

lemma note_header_up: "\<exists>es. nc_up (snd (cv_note_header (c, n))) = nc_up n @ es \<and> filter settles es = []"
  "cv_delivered (fst (cv_note_header (c, n))) = cv_delivered c" "cv_dead (fst (cv_note_header (c, n))) = cv_dead c"
  by (auto simp: cv_note_header_def nc_call_def split: option.split)

lemma note_sender_flags: "cv_delivered (cv_note_sender c) = cv_delivered c" "cv_dead (cv_note_sender c) = cv_dead c"
  by (simp_all add: cv_note_sender_def)

text \<open>A frame stream is settled once: a step that settles it finds it unsettled and leaves it settled.\<close>

definition settled_once :: "(client_video_in \<times> net \<Rightarrow> client_video_in \<times> net) \<Rightarrow> bool" where
  "settled_once f \<longleftrightarrow> (\<forall>c n. \<exists>es. nc_up (snd (f (c, n))) = nc_up n @ es \<and>
     (if cv_delivered c then filter settles es = [] \<and> cv_delivered (fst (f (c, n)))
      else length (filter settles es) \<le> (if cv_delivered (fst (f (c, n))) then 1 else 0)))"

lemma settled_once_ops: "settled_once video_in_complete" "settled_once (video_in_reject h)" "settled_once client_video_aborted"
  by (auto simp: settled_once_def video_in_complete_def video_in_reject_def client_video_aborted_def nc_call_def nc_emit_def)

lemma settled_once_comp:
  assumes "settled_once f" "settled_once g" shows "settled_once (\<lambda>p. g (f p))"
  unfolding settled_once_def
proof (intro allI)
  fix c n
  obtain c1 n1 where p: "f (c, n) = (c1, n1)" by fastforce
  obtain es where f: "nc_up n1 = nc_up n @ es" "if cv_delivered c then filter settles es = [] \<and> cv_delivered c1
      else length (filter settles es) \<le> (if cv_delivered c1 then 1 else 0)"
    using assms(1) p unfolding settled_once_def by (metis fst_conv snd_conv)
  obtain es' where g: "nc_up (snd (g (c1, n1))) = nc_up n1 @ es'" "if cv_delivered c1 then filter settles es' = [] \<and> cv_delivered (fst (g (c1, n1)))
      else length (filter settles es') \<le> (if cv_delivered (fst (g (c1, n1))) then 1 else 0)"
    using assms(2) unfolding settled_once_def by blast
  show "\<exists>es. nc_up (snd (g (f (c, n)))) = nc_up n @ es \<and> (if cv_delivered c then filter settles es = [] \<and> cv_delivered (fst (g (f (c, n))))
      else length (filter settles es) \<le> (if cv_delivered (fst (g (f (c, n)))) then 1 else 0))"
    using f g p by (intro exI [of _ "es @ es'"]) (auto split: if_splits)
qed

lemma settled_once_note: "settled_once (\<lambda>(c, n). cv_note_header (cv_note_sender c, n))"
  unfolding settled_once_def
proof (intro allI)
  fix c n
  obtain es where "nc_up (snd (cv_note_header (cv_note_sender c, n))) = nc_up n @ es" "filter settles es = []"
    using note_header_up(1) by blast
  then show "\<exists>es. nc_up (snd (case (c, n) of (c, n) \<Rightarrow> cv_note_header (cv_note_sender c, n))) = nc_up n @ es \<and>
      (if cv_delivered c then filter settles es = [] \<and> cv_delivered (fst (case (c, n) of (c, n) \<Rightarrow> cv_note_header (cv_note_sender c, n)))
       else length (filter settles es) \<le> (if cv_delivered (fst (case (c, n) of (c, n) \<Rightarrow> cv_note_header (cv_note_sender c, n))) then 1 else 0))"
    by (intro exI [of _ es]) (simp add: note_header_up note_sender_flags)
qed

lemma settled_onceD: "settled_once f \<Longrightarrow> \<exists>es. nc_up (snd (f (c, n))) = nc_up n @ es \<and>
     (if cv_delivered c then filter settles es = [] \<and> cv_delivered (fst (f (c, n)))
      else length (filter settles es) \<le> (if cv_delivered (fst (f (c, n))) then 1 else 0))"
  unfolding settled_once_def by blast

lemma settled_once_buf: "settled_once f \<Longrightarrow> settled_once (\<lambda>(c, n). f (c\<lparr>cv_buf := cv_buf c @ x\<rparr>, n))"
proof -
  assume f: "settled_once f"
  have "\<exists>es. nc_up (snd (f (c\<lparr>cv_buf := cv_buf c @ x\<rparr>, n))) = nc_up n @ es \<and>
     (if cv_delivered c then filter settles es = [] \<and> cv_delivered (fst (f (c\<lparr>cv_buf := cv_buf c @ x\<rparr>, n)))
      else length (filter settles es) \<le> (if cv_delivered (fst (f (c\<lparr>cv_buf := cv_buf c @ x\<rparr>, n))) then 1 else 0))" for c n
    using settled_onceD [OF f, of "c\<lparr>cv_buf := cv_buf c @ x\<rparr>" n] by simp
  then show ?thesis unfolding settled_once_def prod.case by blast
qed

lemma settled_once_pick: "(\<And>p. \<exists>g. settled_once g \<and> f p = g p) \<Longrightarrow> settled_once f"
  unfolding settled_once_def by metis

lemma settled_once_id: "settled_once (\<lambda>p. p)"
  by (simp add: settled_once_def)

lemma settled_once_receive: "settled_once (client_video_receive h bufs fin)"
proof (rule settled_once_pick)
  fix p :: "client_video_in \<times> net"
  obtain c n where p: "p = (c, n)" by fastforce
  let ?note = "\<lambda>(c, n). cv_note_header (cv_note_sender c, n)"
  let ?f = "\<lambda>p. if fin then video_in_complete (?note p) else ?note p"
  have f: "settled_once ?f"
    using settled_once_note settled_once_comp [OF settled_once_note settled_once_ops(1)] by (cases fin) simp_all
  have "client_video_receive h bufs fin p = p
      \<or> client_video_receive h bufs fin p = (\<lambda>(c, n). video_in_reject h (c\<lparr>cv_buf := cv_buf c @ concat bufs\<rparr>, n)) p
      \<or> client_video_receive h bufs fin p = (\<lambda>(c, n). ?f (c\<lparr>cv_buf := cv_buf c @ concat bufs\<rparr>, n)) p"
    by (simp add: p client_video_receive_def Let_def case_prod_beta)
  then show "\<exists>g. settled_once g \<and> client_video_receive h bufs fin p = g p"
    using settled_once_id settled_once_buf [OF settled_once_ops(2)] settled_once_buf [OF f] by blast
qed

lemma settled_once_step: "settled_once (viewer_step h ev)"
  by (simp add: viewer_step_def settled_once_receive settled_once_ops split: viewer_event.split)

lemma settled_once_fold: "settled_once (fold (viewer_step h) evs)"
proof (induction evs)
  case Nil
  then show ?case using settled_once_id by (simp add: id_def)
next
  case (Cons ev evs)
  then show ?case using settled_once_comp [OF settled_once_step [of h ev] Cons.IH] by (simp add: comp_def)
qed

definition viewed :: "u32 \<Rightarrow> frame_header \<Rightarrow> net \<Rightarrow> bytes \<Rightarrow> client_video_in \<times> net \<Rightarrow> bool" where
  "viewed x hdr n p = (\<lambda>(c, n').
     cv_buf c = p \<and> \<not> cv_dead c \<and> \<not> cv_delivered c
     \<and> (cv_have_sender c \<longleftrightarrow> VIDEO_IN_PREFIX \<le> length p) \<and> (cv_have_sender c \<longrightarrow> cv_sender c = x)
     \<and> (cv_have_header c \<longleftrightarrow> VIDEO_IN_PREFIX + VIDEO_FRAME_HEADER_SIZE \<le> length p)
     \<and> nc_up n' = nc_up n @ (if cv_have_header c then [StreamHeader x hdr] else []))"

lemma viewer_receive_step:
  assumes p: "(p @ concat bufs) @ r = STREAM_TYPE_VIDEO_FRAME # le32 x @ header_write hdr @ payload"
    and fit: "length (header_write hdr @ payload) \<le> VIDEO_FRAME_MAX_PAYLOAD_BYTES" and v: "viewed x hdr n p (c, n')"
  obtains c2 n2 where "viewed x hdr n (p @ concat bufs) (c2, n2)"
    and "client_video_receive h bufs fin (c, n') = (if fin then video_in_complete (c2, n2) else (c2, n2))"
proof -
  let ?x = "p @ concat bufs"
  define c1 where "c1 = c\<lparr>cv_buf := ?x\<rparr>"
  obtain c2 n2 where n: "cv_note_header (cv_note_sender c1, n') = (c2, n2)" by fastforce
  have start: "?x \<noteq> [] \<Longrightarrow> ?x ! 0 = STREAM_TYPE_VIDEO_FRAME" using nth_prefix [OF p, of 0] by simp
  have len: "length ?x \<le> VIDEO_IN_PREFIX + VIDEO_FRAME_MAX_PAYLOAD_BYTES"
    using arg_cong [OF p, of length] fit by (simp add: VIDEO_IN_PREFIX_def)
  have sender: "of_le32 (drop 1 ?x) = x" if g: "VIDEO_IN_PREFIX \<le> length ?x"
  proof -
    obtain y where "?x = (STREAM_TYPE_VIDEO_FRAME # le32 x) @ y"
      using append_prefix_ge [of ?x r "STREAM_TYPE_VIDEO_FRAME # le32 x"] p g by (auto simp: VIDEO_IN_PREFIX_def)
    then show ?thesis by simp
  qed
  have hparse: "header_parse (drop VIDEO_IN_PREFIX ?x) = Some hdr" if g: "VIDEO_IN_PREFIX + VIDEO_FRAME_HEADER_SIZE \<le> length ?x"
  proof -
    obtain y where "?x = ((STREAM_TYPE_VIDEO_FRAME # le32 x) @ header_write hdr) @ y"
      using append_prefix_ge [of ?x r "(STREAM_TYPE_VIDEO_FRAME # le32 x) @ header_write hdr" payload] p g
      by (auto simp: VIDEO_IN_PREFIX_def header_written)
    then show ?thesis by (simp add: VIDEO_IN_PREFIX_def header_written)
  qed
  have "viewed x hdr n ?x (c2, n2)"
    using v n sender hparse
    by (auto simp: viewed_def c1_def cv_note_sender_def cv_note_header_def nc_call_def split: if_splits)
  moreover have "client_video_receive h bufs fin (c, n') = (if fin then video_in_complete (c2, n2) else (c2, n2))"
  proof -
    have "cv_buf c = p" "\<not> cv_dead c" using v by (auto simp: viewed_def)
    moreover have "\<not> (?x \<noteq> [] \<and> ?x ! 0 \<noteq> STREAM_TYPE_VIDEO_FRAME)" using start by blast
    ultimately show ?thesis using len n by (auto simp: client_video_receive_def Let_def c1_def)
  qed
  ultimately show thesis using that by blast
qed

lemma viewed_events:
  assumes fit: "length (header_write hdr @ payload) \<le> VIDEO_FRAME_MAX_PAYLOAD_BYTES"
  shows "(p @ concat (concat bss)) @ r = STREAM_TYPE_VIDEO_FRAME # le32 x @ header_write hdr @ payload \<Longrightarrow>
     viewed x hdr n p s \<Longrightarrow> viewed x hdr n (p @ concat (concat bss)) (fold (\<lambda>bufs. client_video_receive h bufs False) bss s)"
proof (induction bss arbitrary: p s)
  case (Cons bufs bss)
  obtain c n' where s: "s = (c, n')" by fastforce
  have "(p @ concat bufs) @ (concat (concat bss) @ r) = STREAM_TYPE_VIDEO_FRAME # le32 x @ header_write hdr @ payload"
    using Cons.prems(1) by simp
  from viewer_receive_step [OF this fit Cons.prems(2) [unfolded s], of h False]
  have "viewed x hdr n (p @ concat bufs) (client_video_receive h bufs False s)" by (metis (full_types) s)
  from Cons.IH [OF _ this] show ?case using Cons.prems(1) by simp
qed simp

text \<open>(C18) A forwarded frame reaches the viewer whole and once: the stream the server opened for a frame of
  stream \<open>x\<close>, however it is cut into receive events, makes the client announce the header and then hand up
  exactly the publisher's bytes, attributed to \<open>x\<close>; and whatever events follow, no second frame and no
  loss report for that stream comes after it.\<close>

theorem forwarded_frame_arrives:
  assumes "supports_frame_streams (objs st i)" "length (header_write hdr @ payload) \<le> VIDEO_FRAME_MAX_PAYLOAD_BYTES"
    and "send_video_frame_to e i (le32 x @ header_write hdr @ payload) st = (True, st')"
      "out st' = out st @ [FrameStream i k bs]"
    and "concat (concat bss) @ concat bufs = bs"
    and "client_video_receive h bufs True (fold (\<lambda>bufs. client_video_receive h bufs False) bss (new_client_video_in, n)) = (c, n')"
  shows "nc_up n' = nc_up n @ [StreamHeader x hdr, StreamFrame x (header_write hdr @ payload)]
       \<and> (\<exists>es. nc_up (snd (fold (viewer_step h) evs (c, n'))) = nc_up n' @ es \<and> filter settles es = [])"
proof -
  let ?d = "header_write hdr @ payload"
  have bs: "bs = STREAM_TYPE_VIDEO_FRAME # le32 x @ ?d"
    using assms(1,3,4)
    by (auto simp: send_video_frame_to_def Let_def emit_def upd_def split: if_splits option.splits)
  have all: "(concat (concat bss) @ concat bufs) @ [] = STREAM_TYPE_VIDEO_FRAME # le32 x @ ?d" using assms(5) bs by simp
  have new: "viewed x hdr n [] (new_client_video_in, n)"
    by (simp add: viewed_def new_client_video_in_def VIDEO_IN_PREFIX_def)
  obtain c1 n1 where f: "fold (\<lambda>bufs. client_video_receive h bufs False) bss (new_client_video_in, n) = (c1, n1)" by fastforce
  have "viewed x hdr n (concat (concat bss)) (c1, n1)"
    using viewed_events [OF assms(2) _ new, of bss "concat bufs" h] all f by simp
  from viewer_receive_step [OF all assms(2) this, of h True] obtain c2 n2 where
    v: "viewed x hdr n (concat (concat bss) @ concat bufs) (c2, n2)"
    and r: "client_video_receive h bufs True (c1, n1) = video_in_complete (c2, n2)" by auto
  have len: "length (STREAM_TYPE_VIDEO_FRAME # le32 x @ ?d) = VIDEO_IN_PREFIX + VIDEO_FRAME_HEADER_SIZE + length payload"
    by (simp add: header_written VIDEO_IN_PREFIX_def)
  have "video_in_complete (c2, n2) = (c2\<lparr>cv_delivered := True, cv_buf := []\<rparr>, nc_call (StreamFrame x ?d) n2)
      \<and> nc_up n2 = nc_up n @ [StreamHeader x hdr]"
  proof -
    have b: "concat (concat bss) @ concat bufs = STREAM_TYPE_VIDEO_FRAME # le32 x @ ?d" using all by simp
    show ?thesis using v len unfolding b by (auto simp: viewed_def video_in_complete_def VIDEO_IN_PREFIX_def)
  qed
  then have "nc_up n' = nc_up n @ [StreamHeader x hdr, StreamFrame x ?d]" "cv_delivered c"
    using assms(6) f r by (auto simp: nc_call_def)
  then show ?thesis using settled_onceD [OF settled_once_fold [of h evs], of c n'] by auto
qed

definition demo_forward :: bytes where
  "demo_forward = le32 1 @ header_write demo_header @ [1, 2, 3]"

lemma demo_share_link: "s_alive (objs demo_share 1) \<and> s_connection (objs demo_share 1) \<and> supports_frame_streams (objs demo_share 1)"
  by code_simp

lemma demo_send:
  "fst (send_video_frame_to demo_env 1 demo_forward demo_share)"
  "out (snd (send_video_frame_to demo_env 1 demo_forward demo_share))
     = out demo_share @ [FrameStream 1 (next_stream demo_share) (STREAM_TYPE_VIDEO_FRAME # demo_forward)]"
proof -
  have "length demo_forward = 21" by (simp add: demo_forward_def header_written VIDEO_FRAME_HEADER_SIZE_def)
  then show "fst (send_video_frame_to demo_env 1 demo_forward demo_share)"
    "out (snd (send_video_frame_to demo_env 1 demo_forward demo_share))
     = out demo_share @ [FrameStream 1 (next_stream demo_share) (STREAM_TYPE_VIDEO_FRAME # demo_forward)]"
    using demo_share_link
    by (simp_all add: send_video_frame_to_def demo_env_def VIDEO_FRAME_MAX_BYTES_def VIDEO_FRAME_HEADER_SIZE_def emit_def upd_def
        Let_def split: option.split)
qed

theorem forwarded_frame_arrives_witness:
  "nc_up (snd (client_video_receive 9 [drop 3 (STREAM_TYPE_VIDEO_FRAME # demo_forward)] True
     (client_video_receive 9 [take 3 (STREAM_TYPE_VIDEO_FRAME # demo_forward)] False (new_client_video_in, new_net))))
   = nc_up new_net @ [StreamHeader 1 demo_header, StreamFrame 1 (header_write demo_header @ [1, 2, 3])]"
proof -
  let ?bs = "STREAM_TYPE_VIDEO_FRAME # demo_forward"
  let ?r = "client_video_receive 9 [drop 3 ?bs] True (fold (\<lambda>bufs. client_video_receive 9 bufs False) [[take 3 ?bs]] (new_client_video_in, new_net))"
  have s: "send_video_frame_to demo_env 1 (le32 1 @ header_write demo_header @ [1, 2, 3]) demo_share
      = (True, snd (send_video_frame_to demo_env 1 demo_forward demo_share))"
    using demo_send(1) by (cases "send_video_frame_to demo_env 1 demo_forward demo_share") (simp add: demo_forward_def)
  have "length (header_write demo_header @ [1, 2, 3]) \<le> VIDEO_FRAME_MAX_PAYLOAD_BYTES"
    by (simp add: header_written VIDEO_FRAME_HEADER_SIZE_def VIDEO_FRAME_MAX_PAYLOAD_BYTES_def VIDEO_FRAME_MAX_BYTES_def)
  from forwarded_frame_arrives [OF conjunct2 [OF conjunct2 [OF demo_share_link]] this s demo_send(2), of "[[take 3 ?bs]]" "[drop 3 ?bs]" 9 new_net "fst ?r" "snd ?r"]
  show ?thesis by simp
qed

end
