(* ===== verification/Reorder_Complete.thy ===== *)
theory Reorder_Complete
  imports Frame_Reorder
begin

text \<open>
  The reorder buffer loses nothing it could save: when the deltas following the last delivered frame
  all complete, in whatever order, with polls, round-trip updates and stream starts in between, they
  are all delivered, once each and in sequence. \<open>f i\<close> is the \<open>i\<close>-th frame behind the last delivered
  one; the state after any part of the arrivals is described by \<open>caught_up\<close>.
\<close>

fun delivered :: "reorder_event list \<Rightarrow> (frame_header \<times> bytes) list" where
  "delivered [] = []"
| "delivered (Deliver h fr # es) = (h, fr) # delivered es"
| "delivered (Lost s # es) = delivered es"

fun arrivals :: "reorder_op list \<Rightarrow> (frame_header \<times> bytes) list" where
  "arrivals [] = []"
| "arrivals (Arrived h fr now # ops) = (h, fr) # arrivals ops"
| "arrivals (op # ops) = arrivals ops"

fun is_abort :: "reorder_op \<Rightarrow> bool" where
  "is_abort (Aborted s now) = True"
| "is_abort op = False"

text \<open>\<open>n\<close> consecutive deltas behind sequence number \<open>L\<close>.\<close>

definition burst :: "(nat \<Rightarrow> frame_header \<times> bytes) \<Rightarrow> u32 \<Rightarrow> nat \<Rightarrow> bool" where
  "burst f L n \<longleftrightarrow> n < 2147483648 \<and>
     (\<forall>i \<in> {1..n}. frame_seq (fst (f i)) = L + of_nat i \<and> \<not> keyframe (fst (f i)))"

definition entry :: "(nat \<Rightarrow> frame_header \<times> bytes) \<Rightarrow> nat \<Rightarrow> (nat \<Rightarrow> int) \<Rightarrow> nat \<Rightarrow> int \<times> held_frame" where
  "entry f m ts i = (int i - int m, \<lparr>h_hdr = fst (f i), h_frame = snd (f i), h_arrived = ts i\<rparr>)"

lemma entry_sel [simp]:
  "fst (entry f m ts i) = int i - int m" "h_hdr (snd (entry f m ts i)) = fst (f i)"
  "h_frame (snd (entry f m ts i)) = snd (f i)" "h_arrived (snd (entry f m ts i)) = ts i"
  by (simp_all add: entry_def)

lemma distance_offset:
  assumes "i < 2147483648" and "m < 2147483648"
  shows "video_seq_distance (L + of_nat i) (L + of_nat m) = int i - int m"
  unfolding video_seq_distance_def using assms by (intro sint_eqI32) simp_all

lemma delivered_append [simp]: "delivered (a @ b) = delivered a @ delivered b"
  by (induction a rule: delivered.induct) auto

lemma delivered_map [simp]: "delivered (map (\<lambda>i. Deliver (fst (f i)) (snd (f i))) xs) = map f xs"
  by (induction xs) auto

lemma offset_inj:
  "burst f L n \<Longrightarrow> i \<le> n \<Longrightarrow> m \<le> n \<Longrightarrow> (L + of_nat i = L + of_nat m) \<longleftrightarrow> i = m"
  using distance_offset [of i m L] by (auto simp: burst_def)

section \<open>Draining a burst\<close>

lemma drain_loop_pop:
  "held b = (k, h) # m \<Longrightarrow> h_seq h = last_delivered b + 1 \<Longrightarrow>
   drain_loop (forget_inflight_through (h_seq h) (b\<lparr>held := m, held_bytes := held_bytes b - h_size h,
     last_delivered := h_seq h\<rparr>)) = (b', es) \<Longrightarrow>
   drain_loop b = (b', Deliver (h_hdr h) (h_frame h) # es)"
  by (subst drain_loop.simps) (simp add: deliver_one_def)

lemma drain_loop_burst:
  assumes bu: "burst f L n"
  shows "sorted_wrt (<) js \<Longrightarrow> \<forall>i \<in> set js. m < i \<and> i \<le> n \<Longrightarrow> m \<le> n \<Longrightarrow>
    held b = map (entry f m0 ts) js \<Longrightarrow> last_delivered b = L + of_nat m \<Longrightarrow>
    \<exists>m' b'. drain_loop b = (b', map (\<lambda>i. Deliver (fst (f i)) (snd (f i))) [Suc m..<Suc m']) \<and>
      m \<le> m' \<and> m' \<le> n \<and> {m<..m'} \<subseteq> set js \<and> Suc m' \<notin> set js \<and>
      held b' = map (entry f m0 ts) (filter (\<lambda>i. m' < i) js) \<and> last_delivered b' = L + of_nat m' \<and>
      have_last b' = have_last b \<and> aborted b' = aborted b \<and> rb_cfg b' = rb_cfg b"
proof (induction js arbitrary: m b)
  case Nil
  then show ?case by (intro exI [of _ m] exI [of _ b]) (simp add: drain_loop.simps)
next
  case (Cons j js)
  have seqj: "frame_seq (fst (f j)) = L + of_nat j" using bu Cons.prems(2) by (auto simp: burst_def)
  have mn: "Suc m \<le> n" using Cons.prems(2) by auto
  show ?case
  proof (cases "j = Suc m")
    case True
    let ?h = "snd (entry f m0 ts j)"
    let ?b1 = "forget_inflight_through (L + of_nat j) (b\<lparr>held := map (entry f m0 ts) js,
                 held_bytes := held_bytes b - h_size ?h, last_delivered := L + of_nat j\<rparr>)"
    have "\<forall>i \<in> set js. Suc m < i \<and> i \<le> n" using Cons.prems(1,2) True by auto
    from Cons.IH [OF _ this mn, of ?b1] Cons.prems(1) True
    obtain m' b' where IH: "drain_loop ?b1 = (b', map (\<lambda>i. Deliver (fst (f i)) (snd (f i))) [Suc (Suc m)..<Suc m'])"
      "Suc m \<le> m'" "m' \<le> n" "{Suc m<..m'} \<subseteq> set js" "Suc m' \<notin> set js"
      "held b' = map (entry f m0 ts) (filter (\<lambda>i. m' < i) js)" "last_delivered b' = L + of_nat m'"
      "have_last b' = have_last b" "aborted b' = aborted b" "rb_cfg b' = rb_cfg b"
      by auto
    have "[Suc m..<Suc m'] = Suc m # [Suc (Suc m)..<Suc m']" using IH(2) by (intro upt_conv_Cons) simp
    moreover have "drain_loop b = (b', Deliver (h_hdr ?h) (h_frame ?h)
        # map (\<lambda>i. Deliver (fst (f i)) (snd (f i))) [Suc (Suc m)..<Suc m'])"
      using Cons.prems(4,5) IH(1) seqj True
      by (intro drain_loop_pop [where k = "fst (entry f m0 ts j)" and m = "map (entry f m0 ts) js"])
         (simp_all add: ac_simps prod_eq_iff del: upt_Suc)
    ultimately have "drain_loop b = (b', map (\<lambda>i. Deliver (fst (f i)) (snd (f i))) [Suc m..<Suc m'])"
      using True by (simp del: upt_Suc)
    moreover have "{m<..m'} \<subseteq> insert (Suc m) (set js)"
      using IH(4) by (auto simp: subset_iff) (metis Suc_lessI)
    ultimately show ?thesis using IH True
      by (intro exI [of _ m'] exI [of _ b']) auto
  next
    case False
    have "L + of_nat j \<noteq> L + of_nat (Suc m)" using offset_inj [OF bu, of j "Suc m"] Cons.prems(2) mn False by auto
    then have "drain_loop b = (b, [])"
      using Cons.prems(4,5) seqj by (subst drain_loop.simps) (simp add: entry_def ac_simps)
    moreover have "Suc m < j" "\<forall>i \<in> set js. j < i" using False Cons.prems(1,2) by auto
    ultimately show ?thesis using Cons.prems
      by (intro exI [of _ m] exI [of _ b]) (auto intro!: arg_cong2 [where f = map] filter_True [symmetric])
  qed
qed


lemma drain_burst:
  assumes bu: "burst f L n" and js: "sorted_wrt (<) js" "\<forall>i \<in> set js. m < i \<and> i \<le> n" "m0 \<le> m" "m \<le> n"
    and b: "held b = map (entry f m0 ts) js" "last_delivered b = L + of_nat m" "aborted b = []"
  shows "\<exists>m' b'. drain now b = (b', map (\<lambda>i. Deliver (fst (f i)) (snd (f i))) [Suc m..<Suc m']) \<and>
      m \<le> m' \<and> m' \<le> n \<and> {m<..m'} \<subseteq> set js \<and> Suc m' \<notin> set js \<and>
      held b' = map (entry f m' ts) (filter (\<lambda>i. m' < i) js) \<and> last_delivered b' = L + of_nat m' \<and>
      have_last b' = have_last b \<and> aborted b' = [] \<and> rb_cfg b' = rb_cfg b"
proof -
  obtain m' b' where d: "drain_loop b = (b', map (\<lambda>i. Deliver (fst (f i)) (snd (f i))) [Suc m..<Suc m'])"
    "m \<le> m'" "m' \<le> n" "{m<..m'} \<subseteq> set js" "Suc m' \<notin> set js"
    "held b' = map (entry f m0 ts) (filter (\<lambda>i. m' < i) js)" "last_delivered b' = L + of_nat m'"
    "have_last b' = have_last b" "aborted b' = []" "rb_cfg b' = rb_cfg b"
    using drain_loop_burst [OF bu js(1,2) js(4) b(1,2)] b(3) by auto
  have "om_wf (held b')"
    using js(1) sorted_wrt_filter [OF js(1)]
    by (simp add: d(6) om_wf_def om_keys_def comp_def sorted_wrt_map)
  moreover have "\<forall>(k, h) \<in> set (held b'). video_seq_distance (h_seq h) (L + of_nat m') = k - (int m' - int m0)"
  proof -
    have "video_seq_distance (frame_seq (fst (f i))) (L + of_nat m') = int i - int m'"
      if "i \<in> set js" "m' < i" for i
    proof -
      have "i \<in> {1..n}" using js(2) that by auto
      then show ?thesis using distance_offset [of i m' L] bu d(3) by (simp add: burst_def)
    qed
    then show ?thesis by (auto simp: d(6) entry_def)
  qed
  ultimately have "rekey_held (last_delivered b') (held b') = map (\<lambda>(k, h). (k - (int m' - int m0), h)) (held b')"
    unfolding d(7) by (rule rekey_shift)
  also have "\<dots> = map (entry f m' ts) (filter (\<lambda>i. m' < i) js)"
    by (simp add: d(6) entry_def)
  finally have "held (tidied b') = map (entry f m' ts) (filter (\<lambda>i. m' < i) js)"
    by (simp add: tidied_def Let_def)
  moreover have "chain_check now (tidied b') = (tidied b', [])"
    using d(9) by (simp add: chain_check_def next_is_aborted_def tidied_def Let_def)
  ultimately show ?thesis
    using d by (intro exI [of _ m'] exI [of _ "tidied b'"])
      (simp add: drain_alt [OF d(1)] tidied_def Let_def)
qed

section \<open>The state after part of the arrivals\<close>

definition caught_up :: "(nat \<Rightarrow> frame_header \<times> bytes) \<Rightarrow> u32 \<Rightarrow> nat \<Rightarrow> nat set \<Rightarrow> reorder \<Rightarrow>
    (frame_header \<times> bytes) list \<Rightarrow> bool" where
  "caught_up f L n A b out \<longleftrightarrow>
     (\<exists>m js ts. m \<le> n \<and> reorder_inv b \<and> have_last b \<and> aborted b = [] \<and> last_delivered b = L + of_nat m \<and>
        out = map f [1..<Suc m] \<and> sorted_wrt (<) js \<and> set js = {i \<in> A. m < i} \<and>
        {1..m} \<subseteq> A \<and> Suc m \<notin> A \<and> held b = map (entry f m ts) js)"

lemma caught_up_next:
  assumes bu: "burst f L n" and A: "A \<subseteq> {1..n}" "j \<in> {1..n}"
    and m: "m \<le> n" "reorder_inv b" "have_last b" "aborted b = []" "last_delivered b = L + of_nat m"
    and js: "sorted_wrt (<) js" "set js = {i \<in> A. m < i}" "{1..m} \<subseteq> A" "Suc m \<notin> A" "held b = map (entry f m ts) js"
    and j: "j = Suc m"
  shows "caught_up f L n (insert j A) (fst (on_frame (fst (f j)) (snd (f j)) now b))
    (map f [1..<Suc m] @ delivered (snd (on_frame (fst (f j)) (snd (f j)) now b)))"
proof -
  have seq: "frame_seq (fst (f j)) = last_delivered b + 1" "frame_seq (fst (f j)) = L + of_nat j"
    using bu A(2) j m(5) by (auto simp: burst_def)
  have on: "on_frame (fst (f j)) (snd (f j)) now b = resume_at (fst (f j)) (snd (f j)) now b"
    using m(3) seq(1) by (simp add: on_frame_def newer_succ)
  let ?b1 = "forget_inflight_through (L + of_nat j) (b\<lparr>awaiting_keyframe := False, loss_reported := False,
    last_delivered := L + of_nat j\<rparr>)"
  have jn: "j \<le> n" using A(2) by simp
  have "\<forall>i \<in> set js. j < i \<and> i \<le> n" using js(2,4) A(1) j by (auto intro: Suc_lessI)
  from drain_burst [OF bu js(1) this _ jn, of m ?b1 ts now] js(5) j m(4)
  obtain m' b' where d: "drain now ?b1 = (b', map (\<lambda>i. Deliver (fst (f i)) (snd (f i))) [Suc j..<Suc m'])"
    "j \<le> m'" "m' \<le> n" "{j<..m'} \<subseteq> set js" "Suc m' \<notin> set js"
    "held b' = map (entry f m' ts) (filter (\<lambda>i. m' < i) js)" "last_delivered b' = L + of_nat m'"
    "have_last b'" "aborted b' = []"
    using m(3) by auto
  have r: "resume_at (fst (f j)) (snd (f j)) now b
      = (b', map (\<lambda>i. Deliver (fst (f i)) (snd (f i))) (j # [Suc j..<Suc m']))"
    using d(1) seq(2) by (simp add: resume_at_def deliver_one_def del: upt_Suc)
  have inv: "reorder_inv b'" using on_frame_ok [OF m(2), of "fst (f j)" "snd (f j)" now] on r by simp
  have "j # [Suc j..<Suc m'] = [j..<Suc m']" using d(2) by (simp add: upt_conv_Cons del: upt_Suc)
  moreover have "[1..<Suc m] @ [j..<Suc m'] = [1..<Suc m']"
    using upt_add_eq_append [of 1 j "Suc m' - j"] j d(2) by (simp del: upt_Suc)
  ultimately have out: "map f [1..<Suc m] @ delivered (snd (resume_at (fst (f j)) (snd (f j)) now b))
      = map f [1..<Suc m']"
    by (simp only: r snd_conv delivered_map) (simp only: map_append [symmetric])
  have "{1..m'} \<subseteq> insert j A" "Suc m' \<notin> insert j A"
    "set (filter (\<lambda>i. m' < i) js) = {i \<in> insert j A. m' < i}"
    using js(2,3) d(2,4,5) j by (auto simp: subset_iff) (metis Suc_lessI not_less)
  then show ?thesis
    unfolding caught_up_def on out
    using d inv js(1) by (intro exI [of _ m'] exI [of _ "filter (\<lambda>i. m' < i) js"] exI [of _ ts])
      (simp add: r sorted_wrt_filter del: upt_Suc)
qed


lemma emplace_entry:
  "sorted_wrt (<) js \<Longrightarrow> j \<notin> set js \<Longrightarrow>
   om_emplace (int j - int m) (snd (entry f m ts j)) (map (entry f m ts) js) = map (entry f m ts) (insort j js)"
proof (induction js)
  case Nil
  then show ?case by (simp add: prod_eq_iff)
next
  case (Cons i js)
  then show ?case by (auto simp: entry_def)
qed

lemma sorted_insort: "sorted_wrt (<) js \<Longrightarrow> j \<notin> set js \<Longrightarrow> sorted_wrt (<) (insort (j::nat) js)"
  by (induction js) (auto simp: set_insort_key)

lemma burst_sizes:
  assumes "sorted_wrt (<) js" "set js \<subseteq> {1..n::nat}"
  shows "length js \<le> n" "sum_list (map g js) \<le> (\<Sum>i = 1..n. g i :: nat)"
proof -
  have d: "distinct js" using assms(1) by (simp add: strict_sorted_iff)
  show "length js \<le> n" using card_mono [OF _ assms(2)] d by (simp add: distinct_card)
  have "sum_list (map g js) = sum g (set js)" by (rule sum_list_distinct_conv_sum_set [OF d])
  also have "\<dots> \<le> (\<Sum>i = 1..n. g i)" using assms(2) by (intro sum_mono2) auto
  finally show "sum_list (map g js) \<le> (\<Sum>i = 1..n. g i)" .
qed

lemma caught_up_hold:
  assumes bu: "burst f L n" and A: "A \<subseteq> {1..n}" "j \<in> {1..n}" "j \<notin> A"
    and lim: "n \<le> max_held_frames (rb_cfg b)" "(\<Sum>i = 1..n. length (snd (f i))) \<le> max_bytes (rb_cfg b)"
    and m: "m \<le> n" "reorder_inv b" "have_last b" "aborted b = []" "last_delivered b = L + of_nat m"
    and js: "sorted_wrt (<) js" "set js = {i \<in> A. m < i}" "{1..m} \<subseteq> A" "Suc m \<notin> A" "held b = map (entry f m ts) js"
    and j: "Suc m < j"
  shows "caught_up f L n (insert j A) (fst (on_frame (fst (f j)) (snd (f j)) now b))
    (map f [1..<Suc m] @ delivered (snd (on_frame (fst (f j)) (snd (f j)) now b)))"
proof -
  have seq: "frame_seq (fst (f j)) = L + of_nat j" and nk: "\<not> keyframe (fst (f j))"
    using bu A(2) by (auto simp: burst_def)
  have key: "key_for b (frame_seq (fst (f j))) = int j - int m"
    using distance_offset [of j m L] bu A(2) m(1) by (simp add: key_for_def seq m(5) burst_def)
  have nj: "j \<notin> set js" using js(2) A(3) by simp
  let ?ts = "ts(j := now)" and ?js = "insort j js"
  have "held b = map (entry f m ?ts) js" using nj js(5) by (auto simp: entry_def)
  then have em: "om_emplace (int j - int m) \<lparr>h_hdr = fst (f j), h_frame = snd (f j), h_arrived = now\<rparr> (held b)
      = map (entry f m ?ts) ?js"
    using emplace_entry [OF js(1) nj, of m f ?ts] by (simp add: entry_def [of f m ?ts j])
  have bounds: "length ?js \<le> n" "sum_list (map (\<lambda>i. length (snd (f i))) ?js) \<le> max_bytes (rb_cfg b)"
  proof -
    have "set ?js \<subseteq> {1..n}" using js(2) A(1,2) by (auto simp: set_insort_key)
    note s = burst_sizes [OF sorted_insort [OF js(1) nj] this]
    show "length ?js \<le> n" by (rule s(1))
    show "sum_list (map (\<lambda>i. length (snd (f i))) ?js) \<le> max_bytes (rb_cfg b)"
      by (rule le_trans [OF s(2) lim(2)])
  qed
  have bytes: "held_bytes b = sum_list (map (\<lambda>i. length (snd (f i))) js)"
    using m(2) by (simp add: reorder_inv_def reorder_core_def js(5) held_total_def comp_def)
  have cont: "\<not> om_contains (int j - int m) (held b)"
    using m(2) nj by (auto simp: reorder_inv_def reorder_core_def om_contains_iff js(5))
  have sj: "sum_list (map (\<lambda>i. length (snd (f i))) ?js)
      = sum_list (map (\<lambda>i. length (snd (f i))) js) + length (snd (f j))"
    by (induction js) auto
  have "video_seq_newer (frame_seq (fst (f j))) (last_delivered b)"
    using key j by (simp add: newer_distance key_for_def)
  moreover have "frame_seq (fst (f j)) \<noteq> last_delivered b + 1"
    using key j distance_eq_1 [of "frame_seq (fst (f j))" "last_delivered b"] by (auto simp: key_for_def)
  ultimately have on: "on_frame (fst (f j)) (snd (f j)) now b = hold_delta (fst (f j)) (snd (f j)) now b"
    using m(3) nk by (simp add: on_frame_def)
  define b1 where "b1 = (if held b = [] then b\<lparr>gap_since_us := now\<rparr> else b)"
  have b1: "held b1 = held b" "held_bytes b1 = held_bytes b" "rb_cfg b1 = rb_cfg b" "aborted b1 = []"
    "last_delivered b1 = last_delivered b" "have_last b1"
    using m(3,4) by (simp_all add: b1_def)
  let ?b2 = "b1\<lparr>held_bytes := held_bytes b1 + length (snd (f j)), held := map (entry f m ?ts) ?js\<rparr>"
  have "hold_delta (fst (f j)) (snd (f j)) now b = (?b2, [])"
    unfolding hold_delta_def key b1_def [symmetric] Let_def
    using cont bounds lim(1) bytes sj b1 em by (simp add: next_is_aborted_def)
  with on have r: "on_frame (fst (f j)) (snd (f j)) now b = (?b2, [])" by simp
  have inv: "reorder_inv ?b2" using on_frame_ok [OF m(2), of "fst (f j)" "snd (f j)" now] by (simp add: r)
  have set: "set ?js = {i \<in> insert j A. m < i}" "{1..m} \<subseteq> insert j A" "Suc m \<notin> insert j A"
    using js(2-4) j by (auto simp: set_insort_key)
  have "m \<le> n \<and> reorder_inv ?b2 \<and> have_last ?b2 \<and> aborted ?b2 = [] \<and> last_delivered ?b2 = L + of_nat m \<and>
     map f [1..<Suc m] @ delivered [] = map f [1..<Suc m] \<and> sorted_wrt (<) ?js \<and>
     set ?js = {i \<in> insert j A. m < i} \<and> {1..m} \<subseteq> insert j A \<and> Suc m \<notin> insert j A \<and>
     held ?b2 = map (entry f m ?ts) ?js"
    using m(1,5) b1 inv set sorted_insort [OF js(1) nj] by simp
  then show ?thesis unfolding caught_up_def r fst_conv snd_conv by blast
qed

text \<open>Polls, stream starts and round-trip updates change nothing that matters here.\<close>

lemma delivered_report_loss [simp]: "delivered (snd (report_loss b)) = []"
  by (simp add: report_loss_def)

lemma delivered_require_keyframe [simp]: "delivered (snd (require_keyframe now b)) = []"
  by (simp add: require_keyframe_def Let_def)

lemma quiet_step:
  assumes "have_last b" and "\<not> is_abort op" and "arrivals [op] = []"
  shows "held (fst (reorder_step op b)) = held b \<and> have_last (fst (reorder_step op b)) \<and>
    aborted (fst (reorder_step op b)) = aborted b \<and>
    last_delivered (fst (reorder_step op b)) = last_delivered b \<and> delivered (snd (reorder_step op b)) = []"
  using assms
  by (cases op) (auto simp: on_frame_started_def poll_def set_rtt_def Let_def)

lemma caught_up_quiet:
  assumes "caught_up f L n A b out" and "\<not> is_abort op" and "arrivals [op] = []"
  shows "caught_up f L n A (fst (reorder_step op b)) (out @ delivered (snd (reorder_step op b)))"
  using assms quiet_step [OF _ assms(2,3)] reorder_step_ok [of b op]
  unfolding caught_up_def by fastforce


text \<open>No operation touches the configuration.\<close>

lemma drain_loop_cfg [simp]: "rb_cfg (fst (drain_loop b)) = rb_cfg b"
proof (induction b rule: drain_loop.induct)
  case (1 b)
  show ?case
  proof (cases "held b")
    case (Cons e m)
    then show ?thesis
      using 1 [OF Cons] by (subst drain_loop.simps) (auto simp: deliver_one_def split: prod.split)
  qed (simp add: drain_loop.simps)
qed

lemma bound_loop_cfg [simp]: "rb_cfg (bound_loop b) = rb_cfg b"
proof (induction b rule: bound_loop.induct)
  case (1 b)
  then show ?case by (subst bound_loop.simps) simp
qed

lemma drain_cfg [simp]: "rb_cfg (fst (drain now b)) = rb_cfg b"
proof -
  obtain b1 e1 where l: "drain_loop b = (b1, e1)" by (cases "drain_loop b")
  obtain b3 e3 where r: "chain_check now (tidied b1) = (b3, e3)" by (cases "chain_check now (tidied b1)")
  show ?thesis
    using drain_loop_cfg [of b] chain_check_fields(3) [of now "tidied b1"]
    by (simp add: drain_alt [OF l r] l r)
qed

lemma resume_at_cfg [simp]: "rb_cfg (fst (resume_at hdr frame now b)) = rb_cfg b"
  by (simp add: resume_at_def deliver_one_def Let_def case_prod_unfold)

lemma report_loss_cfg [simp]: "rb_cfg (fst (report_loss b)) = rb_cfg b"
  by (simp add: report_loss_def)

lemma forget_or_remember_cfg [simp]: "rb_cfg (forget_or_remember s b) = rb_cfg b"
  by (simp add: forget_or_remember_def split: option.split)

lemma on_frame_cfg [simp]: "rb_cfg (fst (on_frame hdr frame now b)) = rb_cfg b"
  by (simp add: on_frame_def hold_startup_def first_keyframe_def skip_to_keyframe_def hold_delta_def
      bound_held_def Let_def case_prod_unfold)

lemma reorder_step_cfg [simp]: "rb_cfg (fst (reorder_step op b)) = rb_cfg b"
proof (cases op)
  case (Aborted s now)
  then show ?thesis by (simp add: on_frame_aborted_alt Let_def case_prod_unfold)
qed (simp_all add: on_frame_started_def poll_def set_rtt_def Let_def)


section \<open>The theorem\<close>

lemma caught_up_arrival:
  assumes "burst f L n" "A \<subseteq> {1..n}" "j \<in> {1..n}" "j \<notin> A" "caught_up f L n A b out"
    and "n \<le> max_held_frames (rb_cfg b)" "(\<Sum>i = 1..n. length (snd (f i))) \<le> max_bytes (rb_cfg b)"
  shows "caught_up f L n (insert j A) (fst (on_frame (fst (f j)) (snd (f j)) now b))
    (out @ delivered (snd (on_frame (fst (f j)) (snd (f j)) now b)))"
proof -
  obtain m js ts where c: "m \<le> n" "reorder_inv b" "have_last b" "aborted b = []" "last_delivered b = L + of_nat m"
    "out = map f [1..<Suc m]" "sorted_wrt (<) js" "set js = {i \<in> A. m < i}" "{1..m} \<subseteq> A" "Suc m \<notin> A"
    "held b = map (entry f m ts) js"
    using assms(5) unfolding caught_up_def by blast
  have "m < j" using assms(3,4) c(9) by (meson atLeastAtMost_iff not_less subsetD)
  then consider "j = Suc m" | "Suc m < j" by linarith
  then show ?thesis
    using caught_up_next [OF assms(1-3) c(1-5,7-11)] caught_up_hold [OF assms(1-4,6,7) c(1-5,7-11)]
    unfolding c(6) by cases blast+
qed

lemma caught_up_run:
  assumes bu: "burst f L n"
  shows "caught_up f L n A b out \<Longrightarrow> A \<subseteq> {1..n} \<Longrightarrow> n \<le> max_held_frames (rb_cfg b) \<Longrightarrow>
    (\<Sum>i = 1..n. length (snd (f i))) \<le> max_bytes (rb_cfg b) \<Longrightarrow> \<forall>op \<in> set ops. \<not> is_abort op \<Longrightarrow>
    arrivals ops = map f xs \<Longrightarrow> distinct xs \<Longrightarrow> set xs \<subseteq> {1..n} - A \<Longrightarrow>
    caught_up f L n (A \<union> set xs) (fst (reorder_run ops b)) (out @ delivered (snd (reorder_run ops b)))"
proof (induction ops arbitrary: A b out xs)
  case Nil
  then show ?case by simp
next
  case (Cons op ops)
  let ?b1 = "fst (reorder_step op b)" and ?out = "out @ delivered (snd (reorder_step op b))"
  have run: "fst (reorder_run (op # ops) b) = fst (reorder_run ops ?b1)"
    "delivered (snd (reorder_run (op # ops) b))
      = delivered (snd (reorder_step op b)) @ delivered (snd (reorder_run ops ?b1))"
    by (simp_all add: case_prod_unfold Let_def)
  show ?case
  proof (cases "arrivals [op] = []")
    case True
    then have "arrivals (op # ops) = arrivals ops" by (cases op) simp_all
    with Cons.IH [OF caught_up_quiet [OF Cons.prems(1) _ True]] Cons.prems show ?thesis
      by (simp add: run del: reorder_run.simps)
  next
    case False
    then obtain h fr now where op: "op = Arrived h fr now" by (cases op) simp_all
    then obtain j ys where xs: "xs = j # ys" "f j = (h, fr)" "arrivals ops = map f ys"
      using Cons.prems(6) by (cases xs) auto
    have "caught_up f L n (insert j A) ?b1 ?out"
      using caught_up_arrival [OF bu Cons.prems(2) _ _ Cons.prems(1,3,4), of j now] Cons.prems(8) xs
      by (simp add: op)
    from Cons.IH [OF this, of ys] Cons.prems xs show ?thesis
      by (auto simp: run simp del: reorder_run.simps)
  qed
qed

text \<open>(C26) Nothing that arrives is lost: if the buffer holds nothing and the next \<open>n\<close> deltas all
  complete, in any order and with any polls, stream starts and round-trip updates in between, and
  they fit its frame and byte limits, then exactly these frames are delivered, each once and in
  sequence, even if a timer reported the chain broken meanwhile; and nothing is left held.\<close>

theorem reorder_complete:
  assumes "reorder_inv b" "have_last b" "held b = []" "aborted b = []"
    and "burst f (last_delivered b) n" "n \<le> max_held_frames (rb_cfg b)"
    and "(\<Sum>i = 1..n. length (snd (f i))) \<le> max_bytes (rb_cfg b)"
    and "\<forall>op \<in> set ops. \<not> is_abort op"
    and "arrivals ops = map f xs" "distinct xs" "set xs = {1..n}"
  shows "delivered (snd (reorder_run ops b)) = map f [1..<Suc n] \<and> held (fst (reorder_run ops b)) = []"
proof -
  have "caught_up f (last_delivered b) n {} b []"
    unfolding caught_up_def using assms(1-4) by (intro exI [of _ 0] exI [of _ "[]"]) simp
  from caught_up_run [OF assms(5) this _ assms(6-10)] assms(11)
  have "caught_up f (last_delivered b) n {1..n} (fst (reorder_run ops b)) (delivered (snd (reorder_run ops b)))"
    by simp
  then obtain m js ts where c: "m \<le> n" "delivered (snd (reorder_run ops b)) = map f [1..<Suc m]"
    "set js = {i \<in> {1..n}. m < i}" "Suc m \<notin> {1..n}" "held (fst (reorder_run ops b)) = map (entry f m ts) js"
    unfolding caught_up_def by blast
  from c(1,4) have "m = n" by auto
  with c(3) have "set js = {}" by auto
  with c(2,5) \<open>m = n\<close> show ?thesis by simp
qed


text \<open>A wrap-around instance: the keyframe is the last sequence number, the two deltas behind it are 0
  and 1 and arrive swapped, with a poll in between that already reports the chain broken.\<close>

definition demo_hdr :: "u32 \<Rightarrow> u8 \<Rightarrow> frame_header" where
  "demo_hdr s fl = \<lparr>frame_seq = s, timestamp = 0, flags = fl, width = 640, height = 480, codec = 1\<rparr>"

definition demo_frames :: "nat \<Rightarrow> frame_header \<times> bytes" where
  "demo_frames i = (demo_hdr (of_nat i - 1) 0, [of_nat i])"

definition demo_buffer :: reorder where
  "demo_buffer = fst (on_frame (demo_hdr (- 1) 1) [42] 5 (new_reorder default_reorder_cfg))"

lemma demo_buffer_eval:
  "have_last demo_buffer" "held demo_buffer = []" "aborted demo_buffer = []"
  "last_delivered demo_buffer = - 1" "rb_cfg demo_buffer = default_reorder_cfg"
  by (simp_all add: demo_buffer_def on_frame_def demo_hdr_def new_reorder_def default_reorder_cfg_def
      keyframe_def VIDEO_FLAG_KEYFRAME_def first_keyframe_def resume_at_def deliver_one_def
      forget_inflight_through_def drain_def drain_loop.simps rekey_held_def earliest_arrival_def
      next_is_aborted_def)

lemma demo_burst: "burst demo_frames (last_delivered demo_buffer) 2"
  unfolding demo_buffer_eval(4)
  by (simp add: burst_def demo_frames_def demo_hdr_def keyframe_def VIDEO_FLAG_KEYFRAME_def)

theorem reorder_complete_witness:
  "delivered (snd (reorder_run [Arrived (demo_hdr 1 0) [2] 10, Polled 900000, Arrived (demo_hdr 0 0) [1] 950000]
     demo_buffer)) = [(demo_hdr 0 0, [1]), (demo_hdr 1 0, [2])]"
proof -
  let ?ops = "[Arrived (demo_hdr 1 0) [2] 10, Polled 900000, Arrived (demo_hdr 0 0) [1] 950000]"
  have "reorder_inv demo_buffer" unfolding demo_buffer_def by (simp add: on_frame_ok new_reorder_inv)
  moreover have "(\<Sum>i = 1..2. length (snd (demo_frames i))) \<le> max_bytes (rb_cfg demo_buffer)"
    by (simp add: demo_buffer_eval default_reorder_cfg_def demo_frames_def)
  moreover have "2 \<le> max_held_frames (rb_cfg demo_buffer)"
    by (simp add: demo_buffer_eval default_reorder_cfg_def)
  moreover have "arrivals ?ops = map demo_frames [2, 1]" "set [2, 1::nat] = {1..2}"
    by (auto simp: demo_frames_def)
  ultimately have "delivered (snd (reorder_run ?ops demo_buffer)) = map demo_frames [1..<Suc 2]"
    using reorder_complete [of demo_buffer demo_frames 2 ?ops "[2, 1]"] demo_burst demo_buffer_eval(1-3) by simp
  moreover have "[1..<Suc 2] = [1, 2]" by (simp add: upt_rec)
  ultimately show ?thesis by (simp only:) (simp add: demo_frames_def)
qed

theorem keyframe_delivered_at_once_witness:
  "\<exists>es. snd (on_frame (demo_hdr 7 1) [9] 0 (new_reorder default_reorder_cfg)) = Deliver (demo_hdr 7 1) [9] # es"
  by (rule keyframe_delivered_at_once)
     (simp_all add: demo_hdr_def keyframe_def VIDEO_FLAG_KEYFRAME_def new_reorder_def Let_def)

end
