(* ===== verification/Server_Query.thy ===== *)
theory Server_Query
  imports Serialization Protocol
begin

text \<open>
  \<open>common/include/parties/server_query.h\<close>, \<open>common/src/server_query.cpp\<close> and the server's answer in
  \<open>QuicServer::on_unconnected_query\<close>: the one-datagram server browser query. The socket code of
  \<open>query_server\<close> is left out; its use of the two pure halves (build a request, parse the reply
  against the token sent) is what the round trip composes.
\<close>

definition SERVER_QUERY_MAGIC :: bytes where "SERVER_QUERY_MAGIC = 0xC0 # str ''PARTYQ1''"
definition SERVER_QUERY_REPLY_MARKER :: bytes where "SERVER_QUERY_REPLY_MARKER = str ''PQR1''"
definition SERVER_QUERY_TOKEN_OFFSET :: nat where "SERVER_QUERY_TOKEN_OFFSET = 8"
definition SERVER_QUERY_MIN_REQUEST :: nat where "SERVER_QUERY_MIN_REQUEST = 12"
definition SERVER_QUERY_REQUEST_SIZE :: nat where "SERVER_QUERY_REQUEST_SIZE = 256"
definition SERVER_QUERY_MAX_NAME :: nat where "SERVER_QUERY_MAX_NAME = 200"
definition SERVER_QUERY_FLAG_PASSWORD_LOCKED :: u8 where "SERVER_QUERY_FLAG_PASSWORD_LOCKED = 1"

record server_query_info =
  protocol_version :: u16
  server_name :: bytes
  current_users :: u16
  max_users :: u16
  password_locked :: bool

definition build_server_query_request :: "u32 \<Rightarrow> bytes" where
  "build_server_query_request token =
     SERVER_QUERY_MAGIC @ le32 token
       @ replicate (SERVER_QUERY_REQUEST_SIZE - SERVER_QUERY_MIN_REQUEST) 0"

definition is_server_query_request :: "bytes \<Rightarrow> bool" where
  "is_server_query_request d \<longleftrightarrow>
     length d \<ge> length SERVER_QUERY_MAGIC \<and> take (length SERVER_QUERY_MAGIC) d = SERVER_QUERY_MAGIC"

definition server_query_request_token :: "bytes \<Rightarrow> u32" where
  "server_query_request_token d =
     (if length d < SERVER_QUERY_MIN_REQUEST then 0 else of_le32 (drop SERVER_QUERY_TOKEN_OFFSET d))"

definition build_server_query_reply :: "u32 \<Rightarrow> server_query_info \<Rightarrow> bytes" where
  "build_server_query_reply token info =
     write_string (take SERVER_QUERY_MAX_NAME (server_name info))
       (write_u8 (if password_locked info then SERVER_QUERY_FLAG_PASSWORD_LOCKED else 0)
         (write_u16 (max_users info) (write_u16 (current_users info)
           (write_u16 (protocol_version info) (write_u32 token
             (write_bytes SERVER_QUERY_REPLY_MARKER []))))))"

definition parse_server_query_reply :: "bytes \<Rightarrow> u32 \<Rightarrow> server_query_info option" where
  "parse_server_query_reply d expected =
     (if length d < length SERVER_QUERY_REPLY_MARKER
         \<or> take (length SERVER_QUERY_REPLY_MARKER) d \<noteq> SERVER_QUERY_REPLY_MARKER then None
      else
        let (_, r0) = read_bytes (replicate 4 0) (length SERVER_QUERY_REPLY_MARKER) (new_reader d);
            (token, r1) = read_u32 r0
        in if token \<noteq> expected then None
           else
             let (v, r2) = read_u16 r1; (cur, r3) = read_u16 r2; (mx, r4) = read_u16 r3;
                 (fl, r5) = read_u8 r4; (name, r6) = read_string r5
             in if rerr r6 then None
                else Some \<lparr>protocol_version = v, server_name = name, current_users = cur,
                           max_users = mx,
                           password_locked = (fl AND SERVER_QUERY_FLAG_PASSWORD_LOCKED \<noteq> 0)\<rparr>)"

text \<open>The server's answer. \<open>auths\<close> are the \<open>authenticated\<close> flags of its sessions; the counter is a
  \<open>uint16_t\<close>; \<open>cap\<close> is the reply capacity MsQuic grants. No reply is the empty list.\<close>

definition on_unconnected_query :: "bytes \<Rightarrow> u16 \<Rightarrow> bool \<Rightarrow> bool list \<Rightarrow> bytes \<Rightarrow> nat \<Rightarrow> bytes" where
  "on_unconnected_query name mx locked auths payload cap =
     (if \<not> is_server_query_request payload then []
      else let info = \<lparr>protocol_version = PROTOCOL_VERSION, server_name = name,
                       current_users = of_nat (length (filter id auths)), max_users = mx,
                       password_locked = locked\<rparr>;
               reply = build_server_query_reply (server_query_request_token payload) info
           in if length reply > cap then [] else reply)"

lemma length_magic [simp]: "length SERVER_QUERY_MAGIC = 8" "length SERVER_QUERY_REPLY_MARKER = 4"
  by (simp_all add: SERVER_QUERY_MAGIC_def SERVER_QUERY_REPLY_MARKER_def)

lemma request_props:
  "length (build_server_query_request t) = SERVER_QUERY_REQUEST_SIZE"
  "is_server_query_request (build_server_query_request t)"
  "server_query_request_token (build_server_query_request t) = t"
  by (simp_all add: build_server_query_request_def is_server_query_request_def
      server_query_request_token_def SERVER_QUERY_REQUEST_SIZE_def SERVER_QUERY_MIN_REQUEST_def
      SERVER_QUERY_TOKEN_OFFSET_def)

lemma reply_layout:
  "build_server_query_reply t info = SERVER_QUERY_REPLY_MARKER @ le32 t @ le16 (protocol_version info)
     @ le16 (current_users info) @ le16 (max_users info)
     @ [if password_locked info then SERVER_QUERY_FLAG_PASSWORD_LOCKED else 0]
     @ le16 (of_nat (length (take SERVER_QUERY_MAX_NAME (server_name info))))
     @ take SERVER_QUERY_MAX_NAME (server_name info)"
  by (simp add: build_server_query_reply_def writer_defs)

lemma reply_length: "length (build_server_query_reply t info) \<le> 17 + SERVER_QUERY_MAX_NAME"
  by (simp add: reply_layout)

text \<open>Reading a reply field by field.\<close>

lemma parse_layout:
  assumes "length name < 65536"
  shows "parse_server_query_reply (SERVER_QUERY_REPLY_MARKER @ le32 t @ le16 v @ le16 cur @ le16 mx
           @ [f] @ le16 (of_nat (length name)) @ name) e =
    (if t \<noteq> e then None
     else Some \<lparr>protocol_version = v, server_name = name, current_users = cur, max_users = mx,
                password_locked = (f AND SERVER_QUERY_FLAG_PASSWORD_LOCKED \<noteq> 0)\<rparr>)"
proof -
  let ?d = "SERVER_QUERY_REPLY_MARKER @ le32 t @ le16 v @ le16 cur @ le16 mx @ [f]
    @ le16 (of_nat (length name)) @ name"
  define rd where "rd p = \<lparr>rdata = ?d, rpos = p, rerr = False\<rparr>" for p
  have upd: "(rd p)\<lparr>rpos := q\<rparr> = rd q" "rpos (rd p) = p" "\<not> rerr (rd p)" for p q by (simp_all add: rd_def)
  have rest: "rrest (rd p) = drop p ?d" for p by (simp add: rd_def rrest_def)
  have "read_bytes (replicate 4 0) 4 (new_reader ?d) = (SERVER_QUERY_REPLY_MARKER, rd 4)"
    by (simp add: read_bytes_def has_remaining_def new_reader_def rd_def)
  moreover have "read_u32 (rd 4) = (t, rd 8)"
    using c32.read_enc [of "rd 4" t] by (simp add: rest upd)
  moreover have "read_u16 (rd 8) = (v, rd 10)"
    using c16.read_enc [of "rd 8" v] by (simp add: rest upd)
  moreover have "read_u16 (rd 10) = (cur, rd 12)"
    using c16.read_enc [of "rd 10" cur] by (simp add: rest upd)
  moreover have "read_u16 (rd 12) = (mx, rd 14)"
    using c16.read_enc [of "rd 12" mx] by (simp add: rest upd)
  moreover have "read_u8 (rd 14) = (f, rd 15)"
    using c8.read_enc [of "rd 14" f] by (simp add: rest upd)
  moreover have "read_string (rd 15) = (name, rd (17 + length name))"
    using read_string_enc [of "rd 15" "of_nat (length name)" name "[]"] assms
    by (simp add: rest upd unat_of_nat_u16)
  ultimately show ?thesis by (simp add: parse_server_query_reply_def upd)
qed

text \<open>The server browser round trip: the reply to any request a client builds reaches it whole
  (its capacity is the request's own length), is accepted under the token sent and no other, and
  carries the server's version, limits, password flag, user count and the first 200 bytes of its
  name.\<close>

theorem query_roundtrip:
  "parse_server_query_reply
     (on_unconnected_query name mx locked auths (build_server_query_request t)
        (length (build_server_query_request t))) e
   = (if t \<noteq> e then None
      else Some \<lparr>protocol_version = PROTOCOL_VERSION, server_name = take 200 name,
                 current_users = of_nat (length (filter id auths)), max_users = mx,
                 password_locked = locked\<rparr>)"
proof -
  let ?info = "\<lparr>protocol_version = PROTOCOL_VERSION, server_name = name,
     current_users = of_nat (length (filter id auths)), max_users = mx, password_locked = locked\<rparr>"
  have "length (build_server_query_reply t ?info) \<le> length (build_server_query_request t)"
    using reply_length [of t ?info] by (simp add: request_props SERVER_QUERY_MAX_NAME_def SERVER_QUERY_REQUEST_SIZE_def)
  then have "on_unconnected_query name mx locked auths (build_server_query_request t)
      (length (build_server_query_request t)) = build_server_query_reply t ?info"
    by (simp add: on_unconnected_query_def request_props Let_def)
  moreover have "length (take SERVER_QUERY_MAX_NAME name) < 65536" by (simp add: SERVER_QUERY_MAX_NAME_def)
  ultimately show ?thesis
    by (simp only: reply_layout server_query_info.select_convs parse_layout)
       (simp add: SERVER_QUERY_MAX_NAME_def SERVER_QUERY_FLAG_PASSWORD_LOCKED_def)
qed

text \<open>No amplification: whatever datagram arrives and whatever the server's name, the answer never
  exceeds the capacity granted (the request's length), and a datagram that is not a query gets no
  answer.\<close>

theorem query_never_amplifies:
  "length (on_unconnected_query name mx locked auths payload cap) \<le> cap \<and>
   (take 8 payload \<noteq> SERVER_QUERY_MAGIC \<longrightarrow> on_unconnected_query name mx locked auths payload cap = [])"
  by (simp add: on_unconnected_query_def is_server_query_request_def Let_def)

theorem query_never_amplifies_witness:
  "take 8 [1, 2, 3] \<noteq> SERVER_QUERY_MAGIC \<and>
   on_unconnected_query (str ''home'') 64 False [True] [1, 2, 3] 3 = []"
  using query_never_amplifies [of "str ''home''" 64 False "[True]" "[1, 2, 3]" 3]
  by (simp add: SERVER_QUERY_MAGIC_def)

end
