(* ===== verification/Server_Seats.thy ===== *)
theory Server_Seats
  imports Server_Reach
begin

text \<open>
  Sessions and their channels: sessions are listed once, everybody in a voice channel is in an existing
  one, and no channel holds more members than its limit. \<open>seats\<close> is what these depend on; most steps
  of the server leave it alone.
\<close>

section \<open>What leaves the seats alone\<close>

definition seats :: "srv \<Rightarrow> u32 list \<times> (u32 \<Rightarrow> bool \<times> u32) \<times> channel_row list" where
  "seats st = (sessions st, \<lambda>i. (s_authenticated (objs st i), s_channel (objs st i)), channels (db st))"

lemma seatsD:
  assumes "seats st' = seats st"
  shows "sessions st' = sessions st" "channels (db st') = channels (db st)"
    "s_authenticated (objs st' i) = s_authenticated (objs st i)" "s_channel (objs st' i) = s_channel (objs st i)"
  using assms by (simp_all add: seats_def fun_eq_iff)

lemma seats_core: "seats (core st) = seats st"
  by (simp add: seats_def)

lemma seats_cong: "core st' = core st \<Longrightarrow> seats st' = seats st"
  by (metis seats_core)

lemma seats_rest: "rest st' = rest st \<Longrightarrow> seats st' = seats st"
  using restD [of st' st] by (simp add: seats_def)

lemma seats_db: "channels d = channels (db st) \<Longrightarrow> seats (st\<lparr>db := d\<rparr>) = seats st"
  by (simp add: seats_def)

lemma seats_upd:
  "(\<And>s. s_authenticated (f s) = s_authenticated s) \<Longrightarrow> (\<And>s. s_channel (f s) = s_channel s) \<Longrightarrow> seats (upd i f st) = seats st"
  by (simp add: seats_def fun_eq_iff)

lemma seats_other [simp]: "seats (st\<lparr>user_sessions := a\<rparr>) = seats st" "seats (st\<lparr>control_buckets := b\<rparr>) = seats st"
  "seats (st\<lparr>authed_sessions := c\<rparr>) = seats st" "seats (st\<lparr>recent_auth := r\<rparr>) = seats st"
  "seats (st\<lparr>disconnects := ds\<rparr>) = seats st" "seats (st\<lparr>files := f\<rparr>) = seats st"
  by (simp_all add: seats_def)

lemma seats_fold: "(\<And>x st. seats (f x st) = seats st) \<Longrightarrow> seats (fold f xs st) = seats st"
  by (induction xs arbitrary: st) simp_all

lemmas seats_talk = seats_cong [OF core_send_error] seats_cong [OF core_admin_result]
  seats_cong [OF core_send_list_to_all(1)] seats_cong [OF core_send_list_to_all(2)]
  seats_cong [OF core_send_all] seats_cong [OF core_send_to] seats_cong [OF core_emit]
  seats_rest [OF rest_stop_all] seats_rest [OF rest_clear]

lemma channels_ops:
  "channels (set_user_role i r d) = channels d" "channels (update_last_login i t d) = channels d"
  "channels (update_display_name i n d) = channels d" "channels (snd (create_user k n fp r t d)) = channels d"
  "channels (snd (create_text_channel n so d)) = channels d" "channels (delete_text_channel i d) = channels d"
  "channels (snd (insert_message c s n tx ts d)) = channels d"
  "channels (snd (insert_attachment mid n sz mi p t d)) = channels d" "channels (pin_message m d) = channels d"
  "channels (unpin_message m d) = channels d" "channels (soft_delete_message m d) = channels d"
  "channels (mark_attachment_uploaded a d) = channels d" "channels (snd (purge_old_messages dy t d)) = channels d"
  "channels (snd (purge_old_files dy t d)) = channels d" "channels (snd (purge_oldest_files sz d)) = channels d"
  by (simp_all add: set_user_role_def update_last_login_def update_display_name_def update_user_def create_user_def
      create_text_channel_def delete_text_channel_def insert_message_def insert_attachment_def pin_message_def
      unpin_message_def soft_delete_message_def mark_attachment_uploaded_def purge_old_messages_def
      purge_old_files_def purge_oldest_files_def Let_def)

lemma channels_read_attachments: "channels (snd (read_attachments t m i k r d)) = channels d"
  by (induction k arbitrary: i r d) (simp_all add: Let_def case_prod_beta channels_ops)

lemma channels_login: "channels (snd (login_user cfg pk n fp t d)) = channels d"
proof (cases "get_user_by_pubkey pk d")
  case None
  then show ?thesis
    by (simp add: login_user_def case_prod_beta Let_def channels_ops split: option.split)
qed (simp add: login_user_def Let_def channels_ops)

lemmas seats_rows = seats_talk seats_db channels_ops channels_read_attachments

lemma seats_handlers:
  "seats (handle_create_text_channel i p st) = seats st" "seats (handle_delete_text_channel i p st) = seats st"
  "seats (handle_chat_send cfg e i p st) = seats st" "seats (handle_pin i p st) = seats st"
  "seats (handle_unpin i p st) = seats st" "seats (handle_chat_delete i p st) = seats st"
  "seats (handle_voice_state i p st) = seats st" "seats (handle_set_role i p st) = seats st"
  "seats (handle_share_start i p st) = seats st" "seats (handle_share_stop i p st) = seats st"
  "seats (handle_share_view e i p st) = seats st"
proof -
  show "seats (handle_create_text_channel i p st) = seats st" "seats (handle_delete_text_channel i p st) = seats st"
    "seats (handle_chat_send cfg e i p st) = seats st" "seats (handle_pin i p st) = seats st"
    "seats (handle_unpin i p st) = seats st" "seats (handle_chat_delete i p st) = seats st"
    unfolding handle_create_text_channel_def handle_delete_text_channel_def handle_chat_send_def handle_pin_def
      handle_unpin_def handle_chat_delete_def Let_def case_prod_beta
    by (simp_all add: seats_rows split: option.split)
  show "seats (handle_voice_state i p st) = seats st"
    unfolding handle_voice_state_def Let_def case_prod_beta by (simp add: seats_talk seats_upd)
  have "seats (set_live_role t r st') = seats st'" for t r st'
    unfolding set_live_role_def by (rule seats_fold) (simp add: seats_upd)
  then show "seats (handle_set_role i p st) = seats st"
    unfolding handle_set_role_def Let_def case_prod_beta by (simp add: seats_rows split: option.split)
  have "seats (insert_stream ch x st) = seats st" for ch x by (simp add: insert_stream_def seats_def)
  then show "seats (handle_share_start i p st) = seats st"
    using core_share_start [of i p st] seats_cong by metis
  show "seats (handle_share_stop i p st) = seats st"
    by (simp add: handle_share_stop_def Let_def seats_rest [OF rest_stop_video_stream])
  obtain t r where r: "read_u32 (new_reader p) = (t, r)" by fastforce
  have s: "seats (subscribe e i t b st) = seats st" for b
  proof -
    obtain X g where "core (subscribe e i t b st) = core (upd i (\<lambda>s. s\<lparr>s_subs := X, s_gates := g\<rparr>) st)"
      using core_subscribe by blast
    from seats_cong [OF this] show ?thesis by (simp add: seats_upd)
  qed
  have "seats (unsubscribe i t st) = seats st"
    by (simp add: unsubscribe_def Let_def seats_cong [OF core_notify_viewer_change] seats_upd)
  then show "seats (handle_share_view e i p st) = seats st"
    unfolding handle_share_view_def Let_def r prod.case by (simp add: s seats_talk)
qed

lemma seats_process_disconnect [simp]: "seats (process_disconnect i u ch st) = seats st"
proof -
  have 1: "seats (case q of None \<Rightarrow> a | Some c \<Rightarrow> if P c then b else d) = x"
    if "seats a = x" "seats b = x" "seats d = x" for q P a b d x
    using that by (simp split: option.split)
  have "seats (depart i u ch b st) = seats st" for b st by (simp add: depart_def Let_def seats_talk)
  then show ?thesis unfolding process_disconnect_def Let_def by (simp add: 1 seats_talk seats_upd)
qed

lemma seats_loop:
  "seats (process_disconnects st) = seats st" "seats (process_upload cfg e up st) = seats st"
  "seats (enforce_retention cfg e st) = seats st"
proof -
  show "seats (process_disconnects st) = seats st"
    unfolding process_disconnects_def by (rule trans [OF seats_fold]) simp_all
  show "seats (process_upload cfg e up st) = seats st"
    unfolding process_upload_def Let_def by (simp add: seats_rows split: option.split)
  have "seats (remove_files ps st') = seats st'" for ps st'
    unfolding remove_files_def by (rule seats_fold) (simp add: seats_talk)
  then show "seats (enforce_retention cfg e st) = seats st"
    unfolding enforce_retention_def Let_def case_prod_beta by (simp add: seats_rows)
qed


text \<open>The steps that do change the seats.\<close>

lemma seats_step:
  assumes "server_step cfg L e st st'"
  obtains (same) "seats st' = seats st"
  | (fresh) ok where "st' = on_new_connection ok st"
  | (closed) i where "st' = on_connection_closed i st"
  | (auth) i p where "i \<in> set (sessions st)" and "st' = handle_auth cfg L e i p st"
  | (join) i p where "i \<in> set (sessions st)" and "st' = handle_join cfg i p st"
  | (leave) i where "st' = handle_leave i st"
  | (rows) i p where "st' = handle_create_channel i p st \<or> st' = handle_rename_channel i p st"
  | (gone) i p where "st' = handle_delete_channel i p st"
  using assms
proof (cases rule: server_step.cases)
  case (Message i ty p)
  show ?thesis
  proof (cases "i \<in> set (sessions st)")
    case True
    then have g: "get_session i st = Some (objs st i)" by (simp add: get_session_def)
    note quiet = seats_cong [OF core_queries(1)] seats_cong [OF core_queries(2)] seats_cong [OF core_queries(3)]
      seats_cong [OF core_queries(4)] seats_cong [OF core_kick] seats_cong [OF core_share_update]
    show ?thesis
      using Message auth [OF True, of p] join [OF True, of p] leave [of i] rows [of i p] gone [of i p] same
      by (cases ty) (simp_all add: handle_message_def g seats_handlers quiet)
  qed (use Message same in \<open>simp add: handle_message_def get_session_def\<close>)
qed (auto intro: same fresh closed simp: seats_loop
       seats_cong [OF core_callbacks(1)] seats_cong [OF core_callbacks(2)] seats_cong [OF core_callbacks(3)]
       seats_cong [OF core_callbacks(4)] seats_cong [OF core_callbacks(5)] seats_cong [OF core_sample]
       seats_cong [OF core_emit] seats_cong [OF core_enqueue(1)] seats_cong [OF core_enqueue(2)]
       seats_cong [OF core_process_data_packet] seats_cong [OF core_process_video_frames]
       seats_cong [OF core_download])

section \<open>Who sits where\<close>

definition seat :: "srv \<Rightarrow> u32 \<Rightarrow> u32" where
  "seat st i = (if s_authenticated (objs st i) then s_channel (objs st i) else 0)"

lemma seats_seat: "seats st' = seats st \<Longrightarrow> seat st' = seat st"
  by (simp add: seats_def seat_def fun_eq_iff)

lemma members_seat: "ch \<noteq> 0 \<Longrightarrow> length (members ch st) = length (filter (\<lambda>i. seat st i = ch) (sessions st))"
  by (simp add: members_def seat_def filter_map comp_def)
     (rule arg_cong [where f = length], rule filter_cong, auto)

text \<open>An operation that at most takes people out of channels.\<close>

definition vacates :: "srv \<Rightarrow> srv \<Rightarrow> bool" where
  "vacates st st' \<longleftrightarrow> (\<forall>i. seat st' i = seat st i \<or> seat st' i = 0)"

lemma vacates_refl [simp]: "vacates st st" by (simp add: vacates_def)

lemma vacates_seats: "seats st' = seats st \<Longrightarrow> vacates st st'"
  using seats_seat [of st' st] by (simp add: vacates_def)

lemma vacates_trans: "vacates a b \<Longrightarrow> vacates b c \<Longrightarrow> vacates a c"
  unfolding vacates_def by metis

lemma vacates_fold: "(\<And>x st. vacates st (f x st)) \<Longrightarrow> vacates st (fold f xs st)"
proof (induction xs arbitrary: st)
  case (Cons x xs)
  then show ?case using vacates_trans [of st "f x st"] by simp
qed simp

lemma vacates_members:
  assumes "vacates st st'" and "sessions st' = filter P (sessions st)" and "ch \<noteq> 0"
  shows "length (members ch st') \<le> length (members ch st)"
proof -
  have "filter (\<lambda>i. seat st' i = ch) (sessions st') = filter (\<lambda>i. P i \<and> seat st' i = ch) (sessions st)"
    using assms(2) by simp
  also have "length \<dots> \<le> length (filter (\<lambda>i. seat st i = ch) (sessions st))"
    using assms(1,3) unfolding vacates_def
    by (subst (1 2) length_filter_conv_card) (intro card_mono, auto, metis)
  finally show ?thesis using assms(3) by (simp add: members_seat)
qed

lemma seat_upd: "seat (upd i f st) j = (if j = i then (if s_authenticated (f (objs st i)) then s_channel (f (objs st i)) else 0)
    else seat st j)"
  by (simp add: seat_def)

lemma leave_channel_seats:
  "sessions (leave_channel i st) = sessions st \<and> channels (db (leave_channel i st)) = channels (db st)
   \<and> seat (leave_channel i st) = (seat st)(i := 0)"
proof -
  define st1 where "st1 = clear_viewer_subscriptions i True (stop_all_video_streams (s_channel (objs st i)) (s_user_id (objs st i)) st)"
  have s: "seats st1 = seats st" by (simp add: st1_def seats_talk)
  have k: "seats (leave_channel i st) = seats (upd i (\<lambda>s. s\<lparr>s_channel := 0\<rparr>) st1)"
    by (simp add: leave_channel_def Let_def st1_def seats_talk)
  have "seat (leave_channel i st) j = (if j = i then 0 else seat st j)" for j
    unfolding seats_seat [OF k] seat_upd seats_seat [OF s] by simp
  then show ?thesis using seatsD(1,2) [OF k] seatsD(1,2) [OF s] by (auto simp: fun_eq_iff)
qed

lemma handle_leave_seats:
  "sessions (handle_leave i st) = sessions st \<and> channels (db (handle_leave i st)) = channels (db st)
   \<and> vacates st (handle_leave i st)"
  using leave_channel_seats [of i st] by (auto simp: handle_leave_def Let_def vacates_def)

lemma evict_seats:
  "sessions (evict_members ch (evict_video ch st)) = sessions st \<and> db (evict_members ch (evict_video ch st)) = db st
   \<and> vacates st (evict_members ch (evict_video ch st))
   \<and> (ch \<noteq> 0 \<longrightarrow> (\<forall>i \<in> set (sessions st). seat (evict_members ch (evict_video ch st)) i \<noteq> ch))"
proof -
  let ?v = "evict_video ch st"
  define f where "f = (\<lambda>i st. if s_authenticated (objs st i) \<and> s_channel (objs st i) = ch
                  then send_to i USER_LEFT_CHANNEL (left_message (s_user_id (objs st i)) ch)
                         (upd i (\<lambda>s. s\<lparr>s_channel := 0\<rparr>) st) else st)"
  have m: "evict_members ch s = fold f (sessions s) s" for s unfolding evict_members_def f_def ..
  have v: "seats ?v = seats st"
    unfolding evict_video_def by (rule seats_fold) (simp add: seats_talk)
  have f: "seat (f i s) j = (if j = i \<and> seat s i = ch then 0 else seat s j)" if "ch \<noteq> 0" for i j s
    using that by (auto simp: seat_def f_def)
  have z: "vacates s (f i s)" for i s by (auto simp: vacates_def seat_def f_def)
  have "seat (fold f js s) i \<noteq> ch" if "ch \<noteq> 0" "i \<in> set js \<or> seat s i \<noteq> ch" for js s i
    using that(2)
  proof (induction js arbitrary: s)
    case (Cons k js)
    have "i \<in> set js \<or> seat (f k s) i \<noteq> ch"
      unfolding f [where i = k and s = s and j = i, OF that(1)] using Cons.prems that(1) by auto
    from Cons.IH [OF this] show ?case by simp
  qed (use that in simp)
  then have g: "ch \<noteq> 0 \<longrightarrow> (\<forall>i \<in> set (sessions st). seat (evict_members ch ?v) i \<noteq> ch)"
    using seatsD(1) [OF v] by (simp add: m)
  have "vacates ?v (evict_members ch ?v)" unfolding m by (rule vacates_fold) (rule z)
  moreover have "vacates st ?v" by (rule vacates_seats [OF v])
  ultimately have "vacates st (evict_members ch ?v)" using vacates_trans by blast
  moreover have "frame (evict_members ch ?v) = frame st" by simp
  ultimately show ?thesis using g frameD(1,4) by blast
qed

lemma delete_channel_seats:
  assumes "st' = handle_delete_channel i p st"
  obtains (refused) "seats st' = seats st"
  | (deleted) ch where "sessions st' = sessions st" and "channels (db st') = filter (\<lambda>c. ch_id c \<noteq> sint ch) (channels (db st))"
      and "vacates st st'" and "ch \<noteq> 0 \<longrightarrow> (\<forall>j \<in> set (sessions st). seat st' j \<noteq> ch)"
proof -
  obtain ch r where r: "read_u32 (new_reader p) = (ch, r)" by fastforce
  define st1 where "st1 = evict_members ch (evict_video ch st)"
  have "seats st' = seats st \<or> seats st' = seats (st1\<lparr>db := delete_channel ch (db st1)\<rparr>)"
    unfolding assms handle_delete_channel_def Let_def r prod.case st1_def by (simp add: seats_talk)
  then show ?thesis
  proof
    assume s: "seats st' = seats (st1\<lparr>db := delete_channel ch (db st1)\<rparr>)"
    have e: "sessions st1 = sessions st" "db st1 = db st" "vacates st st1"
      "ch \<noteq> 0 \<longrightarrow> (\<forall>j \<in> set (sessions st). seat st1 j \<noteq> ch)"
      using evict_seats [of ch st] by (simp_all add: st1_def)
    have "seat st' = seat st1" using seats_seat [OF s] by (simp add: seat_def fun_eq_iff)
    then show ?thesis
      using deleted [of ch] seatsD(1,2) [OF s] e by (simp add: delete_channel_def vacates_def)
  qed (rule refused)
qed

text \<open>What a successful sign-in leaves, apart from the messages it sends.\<close>

definition signed_in :: "env \<Rightarrow> u32 \<Rightarrow> auth_request \<Rightarrow> user_row \<Rightarrow> srv \<Rightarrow> srv" where
  "signed_in e sid a u st =
     upd sid (\<lambda>s. s\<lparr>s_token := random_token e\<rparr>)
       ((upd sid (\<lambda>s. s\<lparr>s_authenticated := True, s_user_id := word_of_int (u_id u), s_username := u_display_name u,
            s_role := u_role u, s_public_key := ar_pubkey a, s_version := ar_version a\<rparr>) st)
          \<lparr>user_sessions := (user_sessions st)(word_of_int (u_id u) \<mapsto> sid),
           authed_sessions := (if sid \<in> set (authed_sessions st) then authed_sessions st else authed_sessions st @ [sid]),
           db := update_last_login (word_of_int (u_id u)) (sint (unix_time e)) (db st)\<rparr>)"

lemma core_auth_success: "core (auth_success cfg e sid a u st) = core (signed_in e sid a u st)"
  unfolding auth_success_def signed_in_def Let_def by (simp add: core_simps)

lemma auth_seats:
  assumes "srv_inv st" and "sid \<in> set (sessions st)"
  shows "sessions (handle_auth cfg L e sid p st) = sessions st
    \<and> channels (db (handle_auth cfg L e sid p st)) = channels (db st)
    \<and> vacates st (handle_auth cfg L e sid p st)"
proof (cases "s_authenticated (objs st sid)")
  case True
  then show ?thesis by (simp add: handle_auth_def)
next
  case False
  define Q where "Q st' \<longleftrightarrow> sessions st' = sessions st \<and> channels (db st') = channels (db st) \<and> vacates st st'
    \<and> s_channel (objs st' sid) = 0" for st'
  have c0: "s_channel (objs st sid) = 0" using assms(1) False by (auto simp: srv_inv_def lobby_inv_def)
  have same: "Q st'" if "seats st' = seats s" "Q s" for s st'
    using that seatsD(1,2) [OF that(1)] seatsD(4) [OF that(1), of sid] seats_seat [OF that(1)] by (simp add: Q_def vacates_def)
  have Q0: "Q (st\<lparr>recent_auth := r, db := d\<rparr>)" if "channels d = channels (db st)" for r d
    using that c0 by (simp add: Q_def vacates_def seat_def)
  have kick: "Q (kick_duplicate sid pk j s)" if q: "Q s" for pk j s
  proof -
    define s1 where "s1 = process_disconnect j (s_user_id (objs s j)) (s_channel (objs s j))
        (send_error j (str ''Signed in from another location'') Replaced s)"
    have a: "seats s1 = seats s" by (simp add: s1_def seats_talk)
    have "Q (upd j (\<lambda>s. s\<lparr>s_channel := 0, s_authenticated := False\<rparr>) s1)"
      using same [OF a q] by (auto simp: Q_def vacates_def seat_upd)
    then have "Q (disconnect j (upd j (\<lambda>s. s\<lparr>s_channel := 0, s_authenticated := False\<rparr>) s1))"
      by (rule same [OF seats_cong [OF core_disconnect]])
    then show ?thesis using q by (simp add: kick_duplicate_def Let_def s1_def)
  qed
  have "Q (fold (kick_duplicate sid pk) js s)" if "Q s" for pk js s
    using that by (induction js arbitrary: s) (auto intro: kick)
  moreover have "Q (auth_success cfg e sid a u s)" if q: "Q s" for a u s
  proof -
    have "seat (signed_in e sid a u s) j = (if j = sid then 0 else seat s j)" for j
      using q by (simp add: seat_def signed_in_def Q_def)
    then have "Q (signed_in e sid a u s)"
      using q by (simp add: Q_def vacates_def) (simp add: signed_in_def channels_ops)
    then show ?thesis by (rule same [OF seats_cong [OF core_auth_success]])
  qed
  ultimately have win: "Q (auth_success cfg e sid a u (fold (kick_duplicate sid pk) js (st\<lparr>recent_auth := r, db := d\<rparr>)))"
    if "channels d = channels (db st)" for a u pk js r d using Q0 [OF that] by blast
  have err: "Q (send_error sid m c s)" if "Q s" for m c s by (rule same [OF seats_cong [OF core_send_error] that])
  have Q1: "Q st" "Q (st\<lparr>recent_auth := r\<rparr>)" for r using c0 by (simp_all add: Q_def vacates_def seat_def)
  have "Q (handle_auth cfg L e sid p st)"
    using False channels_login [of cfg] win Q0 Q1
    unfolding handle_auth_def Let_def case_prod_beta
    by (auto intro!: err split: sum.split prod.split)
  then show ?thesis by (simp add: Q_def)
qed


lemma join_seats:
  assumes "st' = handle_join cfg i p st"
  obtains (refused) "seats st' = seats st"
  | (joined) ch c where "get_channel ch (db st) = Some c" and "\<not> channel_full cfg c ch st"
      and "sessions st' = sessions st" and "channels (db st') = channels (db st)" and "seat st' = (seat st)(i := ch)"
proof -
  obtain ch r where r: "read_u32 (new_reader p) = (ch, r)" by fastforce
  define st1 where "st1 = (if s_channel (objs st i) \<noteq> 0 \<and> s_channel (objs st i) \<noteq> ch then leave_channel i st else st)"
  define joins where "joins \<longleftrightarrow> (\<exists>c v. get_channel ch (db st) = Some c \<and> \<not> channel_full cfg c ch st
      \<and> s_authenticated (objs st i) \<and> st' = enter_channel i ch v st1)"
  have "seats st' = seats st \<or> joins"
    unfolding assms handle_join_def Let_def r prod.case case_prod_beta joins_def
    by (cases "get_channel ch (db st)") (auto simp: seats_talk st1_def)
  then show ?thesis
  proof
    assume joins
    then obtain c v where j: "get_channel ch (db st) = Some c" "\<not> channel_full cfg c ch st"
      "s_authenticated (objs st i)" "st' = enter_channel i ch v st1" by (auto simp: joins_def)
    have 1: "sessions st1 = sessions st" "channels (db st1) = channels (db st)" "\<forall>k. k \<noteq> i \<longrightarrow> seat st1 k = seat st k"
      using leave_channel_seats [of i st] by (auto simp: st1_def)
    have a: "s_authenticated (objs st1 i)" using j(3) frameD(7) [OF frame_leave_channel] by (simp add: st1_def)
    define st2 where "st2 = (case v of Some (m, d) \<Rightarrow> upd i (\<lambda>s. s\<lparr>s_muted := m, s_deafened := d\<rparr>) st1 | None \<Rightarrow> st1)"
    have 2: "seats st2 = seats st1" by (auto simp: st2_def seats_upd split: option.split)
    have k: "seats st' = seats (upd i (\<lambda>s. s\<lparr>s_channel := ch\<rparr>) st2)"
      unfolding j(4) st2_def by (rule seats_cong [OF core_enter_channel])
    have "s_authenticated (objs st2 i)" using a seatsD(3) [OF 2] by blast
    then have "seat st' k = (if k = i then ch else seat st k)" for k
      unfolding seats_seat [OF k] seat_upd seats_seat [OF 2] using 1(3) by simp
    then show ?thesis
      using joined [OF j(1,2)] seatsD(1,2) [OF k] seatsD(1,2) [OF 2] 1(1,2) by (auto simp: fun_eq_iff)
  qed (rule refused)
qed

lemma connect_seats:
  "sessions (on_new_connection ok st) \<in> {sessions st, sessions st @ [next_session_id st]}"
  "db (on_new_connection ok st) = db st"
  "seat (on_new_connection ok st) j = seat st j \<or> seat (on_new_connection ok st) j = 0"
  "sessions (on_new_connection ok st) = sessions st \<or> seat (on_new_connection ok st) (next_session_id st) = 0"
  by (auto simp: on_new_connection_def Let_def seat_def new_session_def)

lemma closed_seats:
  "\<exists>P. sessions (on_connection_closed i st) = filter P (sessions st)"
  "db (on_connection_closed i st) = db st" "seat (on_connection_closed i st) = seat st"
proof -
  show "\<exists>P. sessions (on_connection_closed i st) = filter P (sessions st)"
    by (cases "get_session i st")
       (auto simp: on_connection_closed_def Let_def intro: exI [of _ "\<lambda>_. True"])
  show "db (on_connection_closed i st) = db st" "seat (on_connection_closed i st) = seat st"
    by (auto simp: on_connection_closed_def get_session_def Let_def seat_def fun_eq_iff)
qed

lemma rows_seats:
  assumes "st' = handle_create_channel i p st \<or> st' = handle_rename_channel i p st"
  obtains (refused) "seats st' = seats st"
  | (created) c where "sessions st' = sessions st" and "seat st' = seat st" and "channels (db st') = channels (db st) @ [c]"
  | (renamed) f where "sessions st' = sessions st" and "seat st' = seat st" and "channels (db st') = map f (channels (db st))"
      and "\<forall>c. ch_id (f c) = ch_id c \<and> ch_max_users (f c) = ch_max_users c"
proof -
  have "seats st' = seats st \<or> (\<exists>n mx. seats st' = seats (st\<lparr>db := snd (create_channel n mx 0 (db st))\<rparr>))
     \<or> (\<exists>c n. seats st' = seats (st\<lparr>db := snd (rename_channel c n (db st))\<rparr>))"
    using assms unfolding handle_create_channel_def handle_rename_channel_def Let_def case_prod_beta
    by (elim disjE) (auto simp: seats_talk)
  then consider "seats st' = seats st"
    | n mx where "seats st' = seats (st\<lparr>db := snd (create_channel n mx 0 (db st))\<rparr>)"
    | c n where "seats st' = seats (st\<lparr>db := snd (rename_channel c n (db st))\<rparr>)" by blast
  then show ?thesis
  proof cases
    case (2 n mx)
    have "seat st' = seat st" using seats_seat [OF 2] by (simp add: seat_def fun_eq_iff)
    then show ?thesis
      using seatsD(1,2) [OF 2] 2 refused created
      by (cases "\<exists>c \<in> set (channels (db st)). ch_name c = cstr n") (simp_all add: create_channel_def)
  next
    case (3 c n)
    have "seat st' = seat st" using seats_seat [OF 3] by (simp add: seat_def fun_eq_iff)
    then show ?thesis
      using seatsD(1,2) [OF 3] 3 refused
        renamed [of "\<lambda>x. if ch_id x = sint c then x\<lparr>ch_name := cstr n\<rparr> else x"]
      by (simp add: rename_channel_def split: if_splits)
  qed (rule refused)
qed

section \<open>Sessions are listed once\<close>

lemma distinct_step:
  assumes "server_step cfg L e st st'" and inv: "srv_inv st" and d: "distinct (sessions st)"
  shows "distinct (sessions st')"
  using assms(1)
proof (cases rule: seats_step)
  case same
  then show ?thesis using d seatsD(1) [OF same] by simp
next
  case (fresh ok)
  have "next_session_id st \<notin> set (sessions st)" using inv by (auto simp: srv_inv_def lobby_inv_def live_ok_def)
  then show ?thesis using fresh d connect_seats(1) [of ok st] by auto
next
  case (closed i)
  then show ?thesis using d closed_seats(1) [of i st] by auto
next
  case (auth i p)
  then show ?thesis using d auth_seats [OF inv auth(1)] by simp
next
  case (join i p)
  from join(2) show ?thesis by (cases rule: join_seats) (use d in \<open>auto dest: seatsD(1)\<close>)
next
  case (leave i)
  then show ?thesis using d handle_leave_seats by simp
next
  case (rows i p)
  then show ?thesis by (cases rule: rows_seats) (use d in \<open>auto dest: seatsD(1)\<close>)
next
  case (gone i p)
  then show ?thesis by (cases rule: delete_channel_seats) (use d in \<open>auto dest: seatsD(1)\<close>)
qed

lemma reach_distinct: "server_reach cfg L st \<Longrightarrow> distinct (sessions st)"
proof (induction rule: server_reach.induct)
  case (Start d)
  then show ?case by (simp add: empty_srv_def)
next
  case (Step st e st')
  then show ?case using distinct_step reach_inv by blast
qed


section \<open>Channels hold no more than they may\<close>

definition within_limit :: "config \<Rightarrow> srv \<Rightarrow> u32 \<Rightarrow> bool" where
  "within_limit cfg st ch \<longleftrightarrow>
     (case get_channel ch (db st) of
        None \<Rightarrow> members ch st = []
      | Some c \<Rightarrow> channel_limit cfg c > 0 \<longrightarrow> int (length (members ch st)) \<le> channel_limit cfg c)"

lemma within_limit_less:
  assumes "within_limit cfg st ch" and "length (members ch st') \<le> length (members ch st)"
    and "get_channel ch (db st') = get_channel ch (db st) \<or> get_channel ch (db st') = None \<and> members ch st' = []
       \<or> get_channel ch (db st) = None \<or> (\<exists>c c'. get_channel ch (db st) = Some c \<and> get_channel ch (db st') = Some c'
          \<and> ch_max_users c' = ch_max_users c)"
  shows "within_limit cfg st' ch"
  using assms by (auto simp: within_limit_def channel_limit_def split: option.splits if_splits)

lemma seats_members: "seats st' = seats st \<Longrightarrow> ch \<noteq> 0 \<Longrightarrow> length (members ch st') = length (members ch st)"
  using seats_seat [of st' st] seatsD(1) [of st' st] by (simp add: members_seat)

lemma get_channel_cong: "channels d' = channels d \<Longrightarrow> get_channel ch d' = get_channel ch d"
  by (simp add: get_channel_def)

lemma join_members:
  assumes "distinct (sessions st)" and "sessions st' = sessions st" and "seat st' = (seat st)(i := ch')" and "ch \<noteq> 0"
  shows "length (members ch st') \<le> length (members ch st) + (if ch = ch' then 1 else 0)"
proof -
  have c: "length (filter P (sessions st)) = card {i \<in> set (sessions st). P i}" for P
    using assms(1) distinct_card [of "filter P (sessions st)"] by simp
  have "{k \<in> set (sessions st). seat st' k = ch}
      \<subseteq> {k \<in> set (sessions st). seat st k = ch} \<union> (if ch = ch' then {i} else {})"
    using assms(3) by auto
  then have "card {k \<in> set (sessions st). seat st' k = ch}
      \<le> card ({k \<in> set (sessions st). seat st k = ch} \<union> (if ch = ch' then {i} else {}))"
    by (intro card_mono) auto
  also have "\<dots> \<le> card {k \<in> set (sessions st). seat st k = ch} + card (if ch = ch' then {i} else {})"
    by (rule card_Un_le)
  finally show ?thesis using assms(2,4) by (simp add: members_seat c split: if_splits)
qed

lemma sint_inj32: "sint (a :: u32) = sint b \<longleftrightarrow> a = b"
  by (metis signed_word_eqI)

lemma find_map_keep:
  "(\<And>x. P (f x) = P x) \<Longrightarrow> find P (map f xs) = map_option f (find P xs)"
  by (induction xs) auto

lemma find_append: "find P (xs @ ys) = (case find P xs of None \<Rightarrow> find P ys | Some x \<Rightarrow> Some x)"
  by (induction xs) auto

lemma find_filter_other: "find (\<lambda>c. ch_id c = a) (filter (\<lambda>c. ch_id c \<noteq> b) cs) = (if a = b then None else find (\<lambda>c. ch_id c = a) cs)"
  by (induction cs) auto

lemma limit_step:
  assumes reach: "server_reach cfg L st" and step: "server_step cfg L e st st'" and "ch \<noteq> 0"
    and ok: "within_limit cfg st ch"
  shows "within_limit cfg st' ch"
proof -
  have inv: "srv_inv st" and d: "distinct (sessions st)" using reach_inv [OF reach] reach_distinct [OF reach] by simp_all
  have same: ?thesis if "seats st' = seats st"
    using within_limit_less [OF ok] seats_members [OF that \<open>ch \<noteq> 0\<close>] get_channel_cong [OF seatsD(2) [OF that]] by simp
  have vac: ?thesis if "vacates st st'" "sessions st' = filter P (sessions st)" "channels (db st') = channels (db st)" for P
    using within_limit_less [OF ok] vacates_members [OF that(1,2) \<open>ch \<noteq> 0\<close>] get_channel_cong [OF that(3)] by simp
  have all: "filter (\<lambda>_. True) xs = xs" for xs :: "u32 list" by simp
  from step show ?thesis
  proof (cases rule: seats_step)
    case (fresh ok')
    have "length (members ch st') \<le> length (members ch st)"
    proof (cases "sessions st' = sessions st")
      case True
      then show ?thesis
        using fresh connect_seats(3) [of ok' st] \<open>ch \<noteq> 0\<close> by (intro vacates_members [where P = "\<lambda>_. True"]) (auto simp: vacates_def)
    next
      case False
      then have "sessions st' = sessions st @ [next_session_id st]" "seat st' (next_session_id st) = 0"
        using fresh connect_seats(1,4) [of ok' st] by auto
      then have "length (members ch st') = length (filter (\<lambda>i. seat st' i = ch) (sessions st))"
        using \<open>ch \<noteq> 0\<close> by (simp add: members_seat)
      also have "\<dots> \<le> length (members ch st)"
        using fresh connect_seats(3) [of ok' st] \<open>ch \<noteq> 0\<close>
        by (simp add: members_seat) (subst (1 2) length_filter_conv_card, intro card_mono, auto, metis)
      finally show ?thesis .
    qed
    then show ?thesis using within_limit_less [OF ok] fresh connect_seats(2) by simp
  next
    case (closed i)
    obtain P where "sessions st' = filter P (sessions st)" using closed closed_seats(1) by blast
    then show ?thesis using closed closed_seats(2,3) [of i st] by (intro vac) (simp_all add: vacates_def)
  next
    case (auth i p)
    then show ?thesis using auth_seats [OF inv auth(1)] by (intro vac [where P = "\<lambda>_. True"]) simp_all
  next
    case (leave i)
    then show ?thesis using handle_leave_seats [of i st] by (intro vac [where P = "\<lambda>_. True"]) simp_all
  next
    case (join i p)
    from join(2) show ?thesis
    proof (cases rule: join_seats)
      case (joined ch' c)
      have m: "length (members ch st') \<le> length (members ch st) + (if ch = ch' then 1 else 0)"
        by (rule join_members [OF d joined(3,5) \<open>ch \<noteq> 0\<close>])
      have g: "get_channel ch (db st') = get_channel ch (db st)" by (rule get_channel_cong [OF joined(4)])
      show ?thesis
      proof (cases "ch = ch'")
        case True
        then show ?thesis using m g joined(1,2) by (auto simp: within_limit_def channel_full_def)
      next
        case False
        then show ?thesis using within_limit_less [OF ok] m g by simp
      qed
    qed (rule same)
  next
    case (rows i p)
    then show ?thesis
    proof (cases rule: rows_seats)
      case (created c)
      have "length (members ch st') = length (members ch st)" using created(1,2) \<open>ch \<noteq> 0\<close> by (simp add: members_seat)
      then show ?thesis
        using within_limit_less [OF ok] created(3) by (cases "get_channel ch (db st)") (auto simp: get_channel_def find_append)
    next
      case (renamed f)
      have "length (members ch st') = length (members ch st)" using renamed(1,2) \<open>ch \<noteq> 0\<close> by (simp add: members_seat)
      moreover have "get_channel ch (db st') = map_option f (get_channel ch (db st))"
        using renamed(3,4) by (simp add: get_channel_def find_map_keep)
      ultimately show ?thesis
        using within_limit_less [OF ok] renamed(4) by (cases "get_channel ch (db st)") auto
    qed (rule same)
  next
    case (gone i p)
    then show ?thesis
    proof (cases rule: delete_channel_seats)
      case (deleted ch')
      have m: "length (members ch st') \<le> length (members ch st)"
        using deleted(1,3) \<open>ch \<noteq> 0\<close> by (intro vacates_members [where P = "\<lambda>_. True"]) simp_all
      have g: "get_channel ch (db st') = (if ch = ch' then None else get_channel ch (db st))"
        using deleted(2) by (simp add: get_channel_def find_filter_other sint_inj32)
      have "members ch st' = []" if "ch = ch'"
      proof -
        have "length (members ch st') = 0"
          using deleted(1,4) that \<open>ch \<noteq> 0\<close> by (simp add: members_seat)
        then show ?thesis by simp
      qed
      then show ?thesis using within_limit_less [OF ok m] g by simp
    qed (rule same)
  qed (rule same)
qed

text \<open>(C30) Voice channels respect their limits: in every reachable state everybody in a channel is in one that
  exists, and a channel with a limit (its own, or else the configured default) holds at most that many
  members, whatever joins, sign-ins, renames, deletions and disconnects happened.\<close>

theorem channels_within_limits:
  assumes "server_reach cfg L st" and "ch \<noteq> 0"
  shows "case get_channel ch (db st) of
           None \<Rightarrow> members ch st = []
         | Some c \<Rightarrow> channel_limit cfg c \<le> 0 \<or> int (length (members ch st)) \<le> channel_limit cfg c"
proof -
  have "server_reach cfg L st \<and> within_limit cfg st ch"
    using assms(1)
  proof (induction rule: server_reach.induct)
    case (Start d)
    have "members ch (empty_srv d) = []" by (simp add: members_def empty_srv_def)
    then show ?case using server_reach.Start [OF Start] by (simp add: within_limit_def split: option.split)
  next
    case (Step st e st')
    then show ?case using limit_step [OF _ Step.hyps(2) assms(2)] server_reach.Step by blast
  qed
  then show ?thesis by (auto simp: within_limit_def split: option.splits)
qed

theorem channels_within_limits_witness:
  "channel_limit demo_cfg \<lparr>ch_id = 1, ch_name = str ''General'', ch_max_users = 0, ch_sort_order = 0\<rparr> = 2
   \<and> int (length (members 1 demo_share)) \<le> 2"
proof -
  have "get_channel 1 (db demo_share) = Some \<lparr>ch_id = 1, ch_name = str ''General'', ch_max_users = 0, ch_sort_order = 0\<rparr>"
    by code_simp
  then show ?thesis
    using channels_within_limits [OF demo_share_reach, of 1] by (simp add: channel_limit_def demo_cfg_def)
qed

end
