(* ===== verification/Server_Security.thy ===== *)
theory Server_Security
  imports Server_Seats
begin

text \<open>
  Who may do what on the server (\<open>server/src/server.cpp\<close>): how a session becomes signed in, that no signed
  sign-in works twice, how roles change and who can be an owner, and that a session which has not
  signed in is inert. The proofs first show which steps leave identities and accounts (\<open>badges\<close>) alone,
  so that only \<open>AUTH_IDENTITY\<close> and \<open>ADMIN_SET_ROLE\<close> need to be looked at.
\<close>

section \<open>What leaves identities and accounts alone\<close>

definition badges :: "srv \<Rightarrow> (bytes \<times> u64) list \<times> user_row list \<times> (u32 \<Rightarrow> bool \<times> u32 \<times> bytes \<times> int)" where
  "badges st = (recent_auth st, users (db st),
     \<lambda>i. (s_authenticated (objs st i), s_user_id (objs st i), s_public_key (objs st i), s_role (objs st i)))"

lemma badgesD:
  assumes "badges st' = badges st"
  shows "recent_auth st' = recent_auth st" "users (db st') = users (db st)"
    "s_authenticated (objs st' i) = s_authenticated (objs st i)" "s_user_id (objs st' i) = s_user_id (objs st i)"
    "s_public_key (objs st' i) = s_public_key (objs st i)" "s_role (objs st' i) = s_role (objs st i)"
  using assms by (simp_all add: badges_def fun_eq_iff)

lemma badges_core: "badges (core st) = badges st"
  by (simp add: badges_def)

lemma badges_cong: "core st' = core st \<Longrightarrow> badges st' = badges st"
  by (metis badges_core)

lemma badges_frame: "frame st' = frame st \<Longrightarrow> badges st' = badges st"
  using frameD [of st' st] by (simp add: badges_def)

lemma badges_db: "users d = users (db st) \<Longrightarrow> badges (st\<lparr>db := d\<rparr>) = badges st"
  by (simp add: badges_def)

lemmas badges_talk = badges_cong [OF core_send_error] badges_cong [OF core_admin_result]
  badges_cong [OF core_send_list_to_all(1)] badges_cong [OF core_send_list_to_all(2)]
  badges_cong [OF core_send_all] badges_cong [OF core_send_to] badges_cong [OF core_emit]

lemma users_ops:
  "users (snd (create_channel n mx so d)) = users d" "users (delete_channel i d) = users d"
  "users (snd (rename_channel i n d)) = users d" "users (snd (create_text_channel n so d)) = users d"
  "users (delete_text_channel i d) = users d" "users (snd (insert_message c s n tx ts d)) = users d"
  "users (snd (insert_attachment mid n sz mi p t d)) = users d" "users (pin_message m d) = users d"
  "users (unpin_message m d) = users d" "users (soft_delete_message m d) = users d"
  "users (mark_attachment_uploaded a d) = users d" "users (snd (purge_old_messages dy t d)) = users d"
  "users (snd (purge_old_files dy t d)) = users d" "users (snd (purge_oldest_files sz d)) = users d"
  by (simp_all add: create_channel_def delete_channel_def rename_channel_def create_text_channel_def
      delete_text_channel_def insert_message_def insert_attachment_def pin_message_def unpin_message_def
      soft_delete_message_def mark_attachment_uploaded_def purge_old_messages_def purge_old_files_def
      purge_oldest_files_def Let_def)

lemma users_read_attachments: "users (snd (read_attachments t m i k r d)) = users d"
  by (induction k arbitrary: i r d) (simp_all add: Let_def case_prod_beta users_ops)

lemmas badges_rows = badges_talk badges_db users_ops users_read_attachments

lemma badges_admin:
  "badges (handle_create_channel i p st) = badges st" "badges (handle_rename_channel i p st) = badges st"
  "badges (handle_create_text_channel i p st) = badges st" "badges (handle_delete_text_channel i p st) = badges st"
  unfolding handle_create_channel_def handle_rename_channel_def handle_create_text_channel_def
    handle_delete_text_channel_def Let_def case_prod_beta
  by (simp_all add: badges_rows)

lemma badges_chat:
  "badges (handle_chat_send cfg e i p st) = badges st" "badges (handle_pin i p st) = badges st"
  "badges (handle_unpin i p st) = badges st" "badges (handle_chat_delete i p st) = badges st"
  unfolding handle_chat_send_def handle_pin_def handle_unpin_def handle_chat_delete_def Let_def case_prod_beta
  by (simp_all add: badges_rows split: option.split)

lemma badges_delete_channel: "badges (handle_delete_channel i p st) = badges st"
proof -
  have e: "badges (evict_members ch (evict_video ch st)) = badges st" for ch
    by (rule badges_frame) simp
  show ?thesis
    unfolding handle_delete_channel_def Let_def case_prod_beta by (simp add: badges_rows e)
qed

lemma badges_voice_state: "badges (handle_voice_state i p st) = badges st"
proof -
  have "badges (upd i (\<lambda>s. s\<lparr>s_muted := m, s_deafened := d\<rparr>) st) = badges st" for m d
    by (rule badges_frame) (simp add: frame_upd)
  then show ?thesis unfolding handle_voice_state_def Let_def case_prod_beta by (simp add: badges_talk)
qed

lemma badges_share:
  "badges (handle_share_start i p st) = badges st" "badges (handle_share_stop i p st) = badges st"
  "badges (handle_share_view e i p st) = badges st" "badges (handle_share_update i p st) = badges st"
  "badges (handle_join cfg i p st) = badges st" "badges (handle_leave i st) = badges st"
proof -
  have "frame (insert_stream ch x st) = frame st" for ch x by (simp add: insert_stream_def frame_def)
  then show "badges (handle_share_start i p st) = badges st"
    using core_share_start [of i p st] frame_cong badges_frame by metis
  show "badges (handle_share_stop i p st) = badges st"
    by (rule badges_frame) (simp add: handle_share_stop_def Let_def frame_stop_video_stream)
  show "badges (handle_share_view e i p st) = badges st" by (rule badges_frame) (rule frame_share_view)
  show "badges (handle_share_update i p st) = badges st" by (rule badges_cong) (rule core_share_update)
  show "badges (handle_join cfg i p st) = badges st" by (rule badges_frame) (rule frame_handle_join)
  show "badges (handle_leave i st) = badges st" by (rule badges_frame) (simp add: handle_leave_def Let_def)
qed

lemmas badges_handlers = badges_admin badges_chat badges_delete_channel badges_voice_state badges_share
  badges_cong [OF core_queries(1)] badges_cong [OF core_queries(2)] badges_cong [OF core_queries(3)]
  badges_cong [OF core_queries(4)] badges_cong [OF core_kick]

lemma badges_message:
  "ty \<noteq> AUTH_IDENTITY \<Longrightarrow> ty \<noteq> ADMIN_SET_ROLE \<Longrightarrow> badges (handle_message cfg L e i ty p st) = badges st"
  unfolding handle_message_def by (cases ty) (simp_all add: badges_handlers)


lemma upload_users: "badges (process_upload cfg e up st) = badges st"
proof -
  have "badges (st\<lparr>files := f\<rparr>) = badges st" for st f by (simp add: badges_def)
  then show ?thesis
    unfolding process_upload_def Let_def by (simp add: badges_rows split: option.split)
qed

lemma badges_remove_files: "badges (remove_files ps st) = badges st"
  unfolding remove_files_def
  by (induction ps arbitrary: st) (simp_all add: badges_talk, simp add: badges_def)

lemma badges_retention: "badges (enforce_retention cfg e st) = badges st"
  unfolding enforce_retention_def Let_def case_prod_beta
  by (simp add: badges_remove_files badges_rows)

lemma badges_disconnects: "badges (process_disconnects st) = badges st"
proof -
  have "frame (process_disconnects st) = frame (st\<lparr>disconnects := []\<rparr>)"
    unfolding process_disconnects_def by (rule frame_fold) simp
  from badges_frame [OF this] show ?thesis by (simp add: badges_def)
qed

lemma badges_closed: "badges (on_connection_closed i st) = badges st"
  by (auto simp: on_connection_closed_def badges_def get_session_def Let_def fun_eq_iff)

lemma badges_connect:
  "recent_auth (on_new_connection ok st) = recent_auth st" "db (on_new_connection ok st) = db st"
  "objs (on_new_connection ok st) j = objs st j \<or> objs (on_new_connection ok st) j = new_session j"
  by (simp_all add: on_new_connection_def Let_def)

text \<open>Every step keeps identities and accounts, opens a fresh session, or is one of two messages.\<close>

lemma badges_step:
  assumes "server_step cfg L e st st'"
  obtains (same) "badges st' = badges st"
  | (fresh) ok where "st' = on_new_connection ok st"
  | (auth) i p where "i \<in> set (sessions st)" and "st' = handle_auth cfg L e i p st"
      and "user_seq (db st) + 1 < 2 ^ 31"
  | (set_role) i p where "i \<in> set (sessions st)" and "st' = handle_set_role i p st"
  using assms
proof (cases rule: server_step.cases)
  case (Message i ty p)
  show ?thesis
  proof (cases "i \<in> set (sessions st)")
    case True
    then have "get_session i st = Some (objs st i)" by (simp add: get_session_def)
    then have "ty = AUTH_IDENTITY \<Longrightarrow> st' = handle_auth cfg L e i p st"
        "ty = ADMIN_SET_ROLE \<Longrightarrow> st' = handle_set_role i p st"
      using Message by (simp_all add: handle_message_def)
    then show ?thesis using Message True auth [of i p] set_role [of i p] same badges_message by metis
  qed (use Message same in \<open>simp add: handle_message_def get_session_def\<close>)
qed (auto intro: same fresh simp: badges_closed badges_disconnects badges_retention upload_users
       badges_cong [OF core_callbacks(1)] badges_cong [OF core_callbacks(2)] badges_cong [OF core_callbacks(3)]
       badges_cong [OF core_callbacks(4)] badges_cong [OF core_callbacks(5)] badges_cong [OF core_sample]
       badges_cong [OF core_emit] badges_cong [OF core_enqueue(1)] badges_cong [OF core_enqueue(2)]
       badges_cong [OF core_process_data_packet] badges_cong [OF core_process_video_frames]
       badges_cong [OF core_download])

section \<open>Signing in\<close>

text \<open>Removing the other sessions of a key signs them out and changes nothing else about identities.\<close>

lemma kick_duplicate_badges:
  "recent_auth (kick_duplicate sid pk i st) = recent_auth st \<and> db (kick_duplicate sid pk i st) = db st
   \<and> s_user_id (objs (kick_duplicate sid pk i st) j) = s_user_id (objs st j)
   \<and> s_public_key (objs (kick_duplicate sid pk i st) j) = s_public_key (objs st j)
   \<and> s_role (objs (kick_duplicate sid pk i st) j) = s_role (objs st j)
   \<and> s_authenticated (objs (kick_duplicate sid pk i st) j)
       = (s_authenticated (objs st j) \<and> \<not> (j = i \<and> i \<noteq> sid \<and> s_public_key (objs st i) = pk))"
proof -
  define st1 where "st1 = send_error i (str ''Signed in from another location'') Replaced st"
  define st2 where "st2 = process_disconnect i (s_user_id (objs st i)) (s_channel (objs st i)) st1"
  define st3 where "st3 = upd i (\<lambda>s. s\<lparr>s_channel := 0, s_authenticated := False\<rparr>) st2"
  have "frame st2 = frame st" using frame_cong [of st1 st] by (simp add: st2_def st1_def core_simps)
  note f = frameD [OF this]
  have c: "core (disconnect i st3) = core st3" by (simp add: core_simps)
  note d = core_eqD [OF c] and s = strip_eqD [OF core_eqD(10) [OF c]]
  show ?thesis
    unfolding kick_duplicate_def Let_def st1_def [symmetric] st2_def [symmetric] st3_def [symmetric]
    using f d s by (auto simp: st3_def)
qed

lemma kick_duplicates_badges:
  "recent_auth (fold (kick_duplicate sid pk) js st) = recent_auth st \<and> db (fold (kick_duplicate sid pk) js st) = db st
   \<and> s_user_id (objs (fold (kick_duplicate sid pk) js st) j) = s_user_id (objs st j)
   \<and> s_public_key (objs (fold (kick_duplicate sid pk) js st) j) = s_public_key (objs st j)
   \<and> s_role (objs (fold (kick_duplicate sid pk) js st) j) = s_role (objs st j)
   \<and> (s_authenticated (objs (fold (kick_duplicate sid pk) js st) j) \<longrightarrow> s_authenticated (objs st j))"
proof (induction js arbitrary: st)
  case (Cons i js)
  show ?case using Cons.IH [of "kick_duplicate sid pk i st"] kick_duplicate_badges [of sid pk i st j] by simp
qed simp

lemma auth_success_badges:
  "recent_auth (auth_success cfg e sid a u st) = recent_auth st"
  "db (auth_success cfg e sid a u st) = update_last_login (word_of_int (u_id u)) (sint (unix_time e)) (db st)"
  "s_authenticated (objs (auth_success cfg e sid a u st) j) = (j = sid \<or> s_authenticated (objs st j))"
  "s_user_id (objs (auth_success cfg e sid a u st) j) = (if j = sid then word_of_int (u_id u) else s_user_id (objs st j))"
  "s_public_key (objs (auth_success cfg e sid a u st) j) = (if j = sid then ar_pubkey a else s_public_key (objs st j))"
  "s_role (objs (auth_success cfg e sid a u st) j) = (if j = sid then u_role u else s_role (objs st j))"
proof -
  note c = core_auth_success [of cfg e sid a u st]
  note d = core_eqD [OF c] and s = strip_eqD [OF core_eqD(10) [OF c]]
  show "recent_auth (auth_success cfg e sid a u st) = recent_auth st"
    "db (auth_success cfg e sid a u st) = update_last_login (word_of_int (u_id u)) (sint (unix_time e)) (db st)"
    "s_authenticated (objs (auth_success cfg e sid a u st) j) = (j = sid \<or> s_authenticated (objs st j))"
    "s_user_id (objs (auth_success cfg e sid a u st) j) = (if j = sid then word_of_int (u_id u) else s_user_id (objs st j))"
    "s_public_key (objs (auth_success cfg e sid a u st) j) = (if j = sid then ar_pubkey a else s_public_key (objs st j))"
    "s_role (objs (auth_success cfg e sid a u st) j) = (if j = sid then u_role u else s_role (objs st j))"
    using d s by (simp_all add: signed_in_def)
qed


text \<open>The comparison of passwords takes the same time for every input of a length, and is equality.\<close>

lemma foldl_or_zero: "foldl (\<lambda>d i. d OR f i) acc is = (0 :: u8) \<longleftrightarrow> acc = 0 \<and> (\<forall>i \<in> set is. f i = 0)"
  by (induction "is" arbitrary: acc) (auto simp: or_eq_0_iff)

lemma constant_time_equals_eq: "constant_time_equals a b \<longleftrightarrow> a = b"
proof (cases "length a = length b")
  case True
  have x: "x XOR y = 0 \<longleftrightarrow> x = y" for x y :: u8 by (metis bit.xor_self xor.assoc xor.left_neutral)
  have "constant_time_equals a b \<longleftrightarrow> (\<forall>i < length a. a ! i = b ! i)"
    using True by (simp add: constant_time_equals_def foldl_or_zero x Ball_def)
  then show ?thesis using True by (simp add: list_eq_iff_nth_eq)
qed (auto simp: constant_time_equals_def)

definition offered_password :: "auth_request \<Rightarrow> bytes" where
  "offered_password a = (if \<not> rerr (ar_reader a) \<and> remaining (ar_reader a) > 0
                         then fst (read_string (ar_reader a)) else [])"

text \<open>What a sign-in has to show.\<close>

definition auth_ok :: "config \<Rightarrow> libs \<Rightarrow> u64 \<Rightarrow> auth_request \<Rightarrow> (bytes \<times> u64) list \<Rightarrow> bool" where
  "auth_ok cfg L now a recent \<longleftrightarrow>
     protocol_major (ar_version a) = PROTOCOL_VERSION_MAJOR
     \<and> \<bar>sint now - sint (ar_timestamp a)\<bar> \<le> 30
     \<and> (\<forall>seen. map_of (prune_recent now recent) (public_key_fingerprint L (ar_pubkey a)) = Some seen
          \<longrightarrow> seen < ar_timestamp a)
     \<and> lib_verify L (signed_message (ar_pubkey a) (ar_name a) (ar_timestamp a)) (ar_signature a) (ar_pubkey a)
     \<and> (server_password cfg \<noteq> [] \<longrightarrow> offered_password a = server_password cfg)"

lemma parse_auth_version: "parse_auth p = Inr a \<Longrightarrow> protocol_major (ar_version a) = PROTOCOL_VERSION_MAJOR"
  by (auto simp: parse_auth_def Let_def split: prod.splits if_splits)

lemma check_auth_ok:
  "check_auth cfg L now a (prune_recent now recent) = Inr r \<longleftrightarrow>
     (\<forall>seen. map_of (prune_recent now recent) (public_key_fingerprint L (ar_pubkey a)) = Some seen
        \<longrightarrow> seen < ar_timestamp a)
     \<and> lib_verify L (signed_message (ar_pubkey a) (ar_name a) (ar_timestamp a)) (ar_signature a) (ar_pubkey a)
     \<and> (server_password cfg \<noteq> [] \<longrightarrow> offered_password a = server_password cfg)"
  by (auto simp: check_auth_def Let_def constant_time_equals_eq offered_password_def split: option.split)

lemma handle_auth_cases:
  assumes "st' = handle_auth cfg L e sid p st"
  obtains (refused) "badges (st'\<lparr>recent_auth := recent_auth st\<rparr>) = badges st"
      and "recent_auth st' \<in> {recent_auth st, prune_recent (unix_time e) (recent_auth st)}"
  | (failed) a m d where "\<not> s_authenticated (objs st sid)" and "parse_auth p = Inr a"
      and "auth_ok cfg L (unix_time e) a (recent_auth st)"
      and "recent_auth st' = al_put (public_key_fingerprint L (ar_pubkey a)) (ar_timestamp a)
             (prune_recent (unix_time e) (recent_auth st))"
      and "login_user cfg (ar_pubkey a) (ar_name a) (public_key_fingerprint L (ar_pubkey a)) (unix_time e) (db st)
             = (Inl m, d)"
      and "badges (st'\<lparr>recent_auth := recent_auth st, db := db st\<rparr>) = badges st" and "db st' = d"
  | (accepted) a u d where "\<not> s_authenticated (objs st sid)" and "parse_auth p = Inr a"
      and "auth_ok cfg L (unix_time e) a (recent_auth st)"
      and "recent_auth st' = al_put (public_key_fingerprint L (ar_pubkey a)) (ar_timestamp a)
             (prune_recent (unix_time e) (recent_auth st))"
      and "login_user cfg (ar_pubkey a) (ar_name a) (public_key_fingerprint L (ar_pubkey a)) (unix_time e) (db st)
             = (Inr u, d)"
      and "db st' = update_last_login (word_of_int (u_id u)) (sint (unix_time e)) d"
      and "st' = auth_success cfg e sid a u (fold (kick_duplicate sid (ar_pubkey a)) (sessions st)
             (st\<lparr>recent_auth := recent_auth st', db := d\<rparr>))"
proof (cases "s_authenticated (objs st sid)")
  case True
  then show ?thesis using refused assms by (simp add: handle_auth_def)
next
  case False
  have err: "badges ((send_error sid m c s)\<lparr>recent_auth := r\<rparr>) = badges (s\<lparr>recent_auth := r\<rparr>)"
    "badges ((send_error sid m c s)\<lparr>recent_auth := r, db := d\<rparr>) = badges (s\<lparr>recent_auth := r, db := d\<rparr>)"
    "recent_auth (send_error sid m c s) = recent_auth s" "db (send_error sid m c s) = db s" for m c s r d
    using badgesD [OF badges_cong [OF core_send_error [of sid m c s]]]
      core_eqD [OF core_send_error [of sid m c s]] by (simp_all add: badges_def fun_eq_iff)
  show ?thesis
  proof (cases "parse_auth p")
    case (Inl m)
    then show ?thesis using refused False assms err by (cases m) (simp add: handle_auth_def)
  next
    case (Inr a)
    let ?now = "unix_time e" and ?fp = "public_key_fingerprint L (ar_pubkey a)"
    let ?w = "\<bar>sint ?now - sint (ar_timestamp a)\<bar> \<le> 30"
    define rec1 where "rec1 = prune_recent ?now (recent_auth st)"
    define rec2 where "rec2 = al_put ?fp (ar_timestamp a) rec1"
    obtain res d where l: "login_user cfg (ar_pubkey a) (ar_name a) ?fp ?now (db st) = (res, d)" by fastforce
    have h: "st' = (if \<not> ?w then send_error sid (str ''Auth timestamp out of range'') BadAuth st
        else (case check_auth cfg L ?now a rec1 of
                Inl (m, code) \<Rightarrow> send_error sid m code (st\<lparr>recent_auth := rec1\<rparr>)
              | Inr _ \<Rightarrow> (case res of
                    Inl m \<Rightarrow> send_error sid m Generic (st\<lparr>recent_auth := rec2, db := d\<rparr>)
                  | Inr u \<Rightarrow> auth_success cfg e sid a u (fold (kick_duplicate sid (ar_pubkey a)) (sessions st)
                      (st\<lparr>recent_auth := rec2, db := d\<rparr>)))))"
      using assms False Inr l
      by (auto simp: handle_auth_def Let_def rec2_def rec1_def kAuthWindowSec_def split: sum.split)
    show ?thesis
    proof (cases "?w \<and> (\<exists>r. check_auth cfg L ?now a rec1 = Inr r)")
      case True
      then obtain r where c: "check_auth cfg L ?now a rec1 = Inr r" by blast
      have ok: "auth_ok cfg L ?now a (recent_auth st)"
        using c True parse_auth_version [OF Inr] unfolding rec1_def check_auth_ok by (simp add: auth_ok_def)
      show ?thesis
      proof (cases res)
        case (Inl m)
        then have "st' = send_error sid m Generic (st\<lparr>recent_auth := rec2, db := d\<rparr>)" using h c True by simp
        then show ?thesis using failed [OF False \<open>parse_auth p = Inr a\<close> ok] l Inl err by (simp add: rec2_def rec1_def)
      next
        case (Inr u)
        let ?k = "fold (kick_duplicate sid (ar_pubkey a)) (sessions st) (st\<lparr>recent_auth := rec2, db := d\<rparr>)"
        have s: "st' = auth_success cfg e sid a u ?k" using h c True Inr by simp
        have k: "recent_auth st' = rec2" "db st' = update_last_login (word_of_int (u_id u)) (sint ?now) d"
          using s auth_success_badges(1,2) kick_duplicates_badges
            [of sid "ar_pubkey a" "sessions st" "st\<lparr>recent_auth := rec2, db := d\<rparr>"] by simp_all
        show ?thesis
          using accepted [OF False \<open>parse_auth p = Inr a\<close> ok] l Inr k s by (simp add: rec2_def rec1_def)
      qed
    next
      case F: False
      have b: "badges (st\<lparr>recent_auth := r\<rparr>\<lparr>recent_auth := recent_auth st\<rparr>) = badges st" for r by simp
      have "st' = send_error sid (str ''Auth timestamp out of range'') BadAuth st
        \<or> (\<exists>m code. st' = send_error sid m code (st\<lparr>recent_auth := rec1\<rparr>))"
        using h F by (auto split: sum.splits)
      then show ?thesis using refused err by (auto simp: rec1_def)
    qed
  qed
qed


section \<open>Accounts\<close>

text \<open>The key, id and role of every account.\<close>

definition cards :: "database \<Rightarrow> (bytes \<times> int \<times> int) set" where
  "cards d = (\<lambda>u. (u_public_key u, u_id u, u_role u)) ` set (users d)"

lemma cards_update:
  "cards (update_user i f d) = (\<lambda>u. let v = (if u_id u = sint i then f u else u)
     in (u_public_key v, u_id v, u_role v)) ` set (users d)"
proof -
  have "users (update_user i f d) = map (\<lambda>u. if u_id u = sint i then f u else u) (users d)"
    by (simp add: update_user_def)
  then show ?thesis by (simp only: cards_def set_map image_image Let_def)
qed

lemma cards_keep:
  "(\<And>u. u_id (f u) = u_id u) \<Longrightarrow> (\<And>u. u_public_key (f u) = u_public_key u) \<Longrightarrow> (\<And>u. u_role (f u) = u_role u) \<Longrightarrow>
     cards (update_user i f d) = cards d"
  unfolding cards_update unfolding cards_def by (rule image_cong) (auto simp: Let_def)

lemma cards_login [simp]: "cards (update_last_login i t d) = cards d" "cards (update_display_name i n d) = cards d"
  by (simp_all add: update_last_login_def update_display_name_def cards_keep)

lemma cards_set_role:
  "cards (set_user_role i r d) = (\<lambda>(k, u, q). (k, u, if u = sint i then uint r else q)) ` cards d"
  unfolding set_user_role_def cards_update unfolding cards_def image_image
  by (rule image_cong) (auto simp: Let_def)

lemma sint_of_id: "0 \<le> n \<Longrightarrow> n < 2 ^ 31 \<Longrightarrow> sint (word_of_int n :: u32) = n"
  by (simp add: signed_take_bit_int_eq_self_iff sint_sbintrunc')

lemma cards_ids:
  assumes "db_inv d" "(k, u, q) \<in> cards d" "(k', u', q') \<in> cards d"
  shows "k = k' \<longleftrightarrow> u = u'" "u = u' \<longrightarrow> q = q'" "1 \<le> u \<and> u \<le> user_seq d"
  using assms by (auto simp: cards_def db_inv_def ids_ok_def distinct_map dest: inj_onD)

text \<open>A login creates at most the account of its key, and raises at most that account, to owner, when the
  key is configured.\<close>

lemma login_cards:
  assumes inv: "db_inv d" and few: "user_seq d + 1 < 2 ^ 31"
    and l: "login_user cfg pk name fp now d = (res, d')"
  shows "(\<forall>k u q. (k, u, q) \<in> cards d' \<longrightarrow> (k, u, q) \<in> cards d
            \<or> k = pk \<and> (q = uint User \<and> (\<forall>v q. (k, v, q) \<notin> cards d) \<or> q = uint Owner \<and> fp \<in> set (root_fingerprints cfg)))
       \<and> (\<forall>r. res = Inr r \<longrightarrow> (pk, u_id r, u_role r) \<in> cards d')"
proof (cases "get_user_by_pubkey pk d")
  case None
  let ?r = "if fp \<in> set (root_fingerprints cfg) then Owner else User"
  obtain ok d1 where c: "create_user pk name fp ?r (sint now) d = (ok, d1)" by fastforce
  have no: "\<forall>u \<in> set (users d). u_public_key u \<noteq> pk"
    using None by (auto simp: get_user_by_pubkey_def find_None_iff)
  have d': "d' = d1" and res: "\<forall>u. res = Inr u \<longrightarrow> get_user_by_pubkey pk d1 = Some u"
    using l None c by (auto simp: login_user_def Let_def split: option.splits if_splits)
  have "cards d1 = insert (pk, user_seq d + 1, uint ?r) (cards d)"
    using c no by (auto simp: create_user_def cards_def split: if_splits)
  moreover have "(pk, v, q) \<notin> cards d" for v q using no by (auto simp: cards_def)
  moreover have "(pk, u_id u, u_role u) \<in> cards d1" if "res = Inr u" for u
    using res that by (force simp: get_user_by_pubkey_def find_Some_iff cards_def)
  ultimately show ?thesis using d' by auto
next
  case (Some r)
  let ?d1 = "if u_display_name r \<noteq> name then update_display_name (word_of_int (u_id r)) name d else d"
  let ?up = "fp \<in> set (root_fingerprints cfg) \<and> u_role r \<noteq> uint Owner"
  have r: "r \<in> set (users d)" "u_public_key r = pk" using Some by (auto simp: get_user_by_pubkey_def find_Some_iff)
  then have m: "(pk, u_id r, u_role r) \<in> cards d" by (auto simp: cards_def)
  then have i: "sint (word_of_int (u_id r) :: u32) = u_id r"
    using cards_ids(3) [OF inv m m] few by (intro sint_of_id) simp_all
  have d': "d' = (if ?up then set_user_role (word_of_int (u_id r)) Owner ?d1 else ?d1)"
    and res: "res = Inr (if ?up then r\<lparr>u_display_name := name, u_role := uint Owner\<rparr> else r\<lparr>u_display_name := name\<rparr>)"
    using l Some by (auto simp: login_user_def Let_def split: if_splits)
  have c1: "cards ?d1 = cards d" by simp
  show ?thesis
  proof (cases ?up)
    case True
    then have c: "cards d' = (\<lambda>(k, u, q). (k, u, if u = u_id r then uint Owner else q)) ` cards d"
      using d' c1 by (simp add: cards_set_role i)
    have "k = pk \<and> q = uint Owner \<or> (k, u, q) \<in> cards d" if "(k, u, q) \<in> cards d'" for k u q
    proof -
      obtain q0 where "(k, u, q0) \<in> cards d" "q = (if u = u_id r then uint Owner else q0)"
        using \<open>(k, u, q) \<in> cards d'\<close> unfolding c by auto
      then show ?thesis using cards_ids(1) [OF inv m] by (auto split: if_splits)
    qed
    moreover have "(pk, u_id r, uint Owner) \<in> cards d'" unfolding c using m by force
    ultimately show ?thesis using True res by auto
  next
    case False
    then have "cards d' = cards d" "res = Inr (r\<lparr>u_display_name := name\<rparr>)"
      using d' res c1 by (simp_all only: if_False)
    then show ?thesis using m by simp
  qed
qed

section \<open>Setting a role\<close>

lemma set_live_role_badges:
  "recent_auth (set_live_role t r st) = recent_auth st" "db (set_live_role t r st) = db st"
  "s_authenticated (objs (set_live_role t r st) j) = s_authenticated (objs st j)"
  "s_user_id (objs (set_live_role t r st) j) = s_user_id (objs st j)"
  "s_public_key (objs (set_live_role t r st) j) = s_public_key (objs st j)"
  "s_role (objs (set_live_role t r st) j)
     = (if j \<in> set (sessions st) \<and> s_user_id (objs st j) = t then uint r else s_role (objs st j))"
proof -
  let ?f = "\<lambda>i st. if s_user_id (objs st i) = t then upd i (\<lambda>s. s\<lparr>s_role := uint r\<rparr>) st else st"
  have "recent_auth (fold ?f js st') = recent_auth st' \<and> db (fold ?f js st') = db st'
    \<and> s_authenticated (objs (fold ?f js st') j) = s_authenticated (objs st' j)
    \<and> s_user_id (objs (fold ?f js st') j) = s_user_id (objs st' j)
    \<and> s_public_key (objs (fold ?f js st') j) = s_public_key (objs st' j)
    \<and> s_role (objs (fold ?f js st') j)
        = (if j \<in> set js \<and> s_user_id (objs st' j) = t then uint r else s_role (objs st' j))" for js st'
    by (induction js arbitrary: st') auto
  then show "recent_auth (set_live_role t r st) = recent_auth st" "db (set_live_role t r st) = db st"
    "s_authenticated (objs (set_live_role t r st) j) = s_authenticated (objs st j)"
    "s_user_id (objs (set_live_role t r st) j) = s_user_id (objs st j)"
    "s_public_key (objs (set_live_role t r st) j) = s_public_key (objs st j)"
    "s_role (objs (set_live_role t r st) j)
       = (if j \<in> set (sessions st) \<and> s_user_id (objs st j) = t then uint r else s_role (objs st j))"
    by (simp_all add: set_live_role_def)
qed

text \<open>What \<open>ADMIN_SET_ROLE\<close> does when it does anything.\<close>

lemma set_role_cases:
  obtains (refused) "badges (handle_set_role i p st) = badges st"
  | (changed) t r u where "s_authenticated (objs st i)" and "has_permission (the_role (objs st i)) ManageRoles None"
      and "r \<noteq> Owner" and "s_role (objs st i) < uint r \<or> the_role (objs st i) = Owner"
      and "get_user_by_id t (db st) = Some u" and "can_moderate (the_role (objs st i)) (word_of_int (u_role u))"
      and "badges (handle_set_role i p st) = badges (set_live_role t r (st\<lparr>db := set_user_role t r (db st)\<rparr>))"
proof -
  obtain t r1 where t: "read_u32 (new_reader p) = (t, r1)" by fastforce
  obtain r r2 where r: "read_u8 r1 = (r, r2)" by fastforce
  show ?thesis
  proof (cases "get_user_by_id t (db st)")
    case None
    then show ?thesis
      by (intro refused) (simp add: handle_set_role_def Let_def t r badges_talk)
  next
    case (Some u)
    show ?thesis
    proof (cases "s_authenticated (objs st i) \<and> has_permission (the_role (objs st i)) ManageRoles None \<and> \<not> rerr r2
        \<and> r \<noteq> Owner \<and> \<not> (uint r \<le> s_role (objs st i) \<and> the_role (objs st i) \<noteq> Owner)
        \<and> can_moderate (the_role (objs st i)) (word_of_int (u_role u))")
      case True
      then show ?thesis
        by (intro changed [OF _ _ _ _ Some, of r]) (auto simp: handle_set_role_def Let_def t r Some badges_talk)
    next
      case False
      then show ?thesis
        by (intro refused) (auto simp: handle_set_role_def Let_def t r Some badges_talk)
    qed
  qed
qed

lemma set_role_badges:
  "recent_auth (handle_set_role i p st) = recent_auth st"
  "s_authenticated (objs (handle_set_role i p st) j) = s_authenticated (objs st j)"
  "s_user_id (objs (handle_set_role i p st) j) = s_user_id (objs st j)"
  "s_public_key (objs (handle_set_role i p st) j) = s_public_key (objs st j)"
proof -
  have b: "recent_auth st' = recent_auth st \<and> s_authenticated (objs st' j) = s_authenticated (objs st j)
      \<and> s_user_id (objs st' j) = s_user_id (objs st j) \<and> s_public_key (objs st' j) = s_public_key (objs st j)"
    if "badges st' = badges st \<or> badges st' = badges (set_live_role t r (st\<lparr>db := d\<rparr>))" for st' t r d
    using that by (elim disjE; simp add: badges_def fun_eq_iff set_live_role_badges)
  have "recent_auth (handle_set_role i p st) = recent_auth st
      \<and> s_authenticated (objs (handle_set_role i p st) j) = s_authenticated (objs st j)
      \<and> s_user_id (objs (handle_set_role i p st) j) = s_user_id (objs st j)
      \<and> s_public_key (objs (handle_set_role i p st) j) = s_public_key (objs st j)"
    by (cases rule: set_role_cases [of i p st]; rule b; blast)
  then show "recent_auth (handle_set_role i p st) = recent_auth st"
    "s_authenticated (objs (handle_set_role i p st) j) = s_authenticated (objs st j)"
    "s_user_id (objs (handle_set_role i p st) j) = s_user_id (objs st j)"
    "s_public_key (objs (handle_set_role i p st) j) = s_public_key (objs st j)" by blast+
qed

section \<open>Properties of signing in\<close>

text \<open>(C2) A session becomes signed in only by proving who it is: in every step from a reachable state after which
  a session is signed in that was not before, the session itself sent an \<open>AUTH_IDENTITY\<close> whose major
  version is the server's, whose time stamp is within 30 seconds of the server's clock and newer than
  the last accepted one remembered for the key, whose signature verifies over key, name and time
  stamp, and whose password is the server's when one is configured; the session then carries that key
  and the id and role of the account stored for it.\<close>

theorem sign_in_needs_proof:
  assumes "server_reach cfg L st" and "server_step cfg L e st st'"
    and "s_authenticated (objs st' i)" and "\<not> s_authenticated (objs st i)"
  shows "\<exists>p a. i \<in> set (sessions st) \<and> st' = handle_auth cfg L e i p st \<and> parse_auth p = Inr a
     \<and> protocol_major (ar_version a) = PROTOCOL_VERSION_MAJOR
     \<and> \<bar>sint (unix_time e) - sint (ar_timestamp a)\<bar> \<le> 30
     \<and> (\<forall>seen. map_of (prune_recent (unix_time e) (recent_auth st)) (public_key_fingerprint L (ar_pubkey a)) = Some seen
          \<longrightarrow> seen < ar_timestamp a)
     \<and> lib_verify L (signed_message (ar_pubkey a) (ar_name a) (ar_timestamp a)) (ar_signature a) (ar_pubkey a)
     \<and> (server_password cfg \<noteq> [] \<longrightarrow> offered_password a = server_password cfg)
     \<and> s_public_key (objs st' i) = ar_pubkey a
     \<and> (\<exists>u \<in> set (users (db st')). u_public_key u = ar_pubkey a
          \<and> word_of_int (u_id u) = s_user_id (objs st' i) \<and> u_role u = s_role (objs st' i))"
  using assms(2)
proof (cases rule: badges_step)
  case same
  then show ?thesis using assms(3,4) badgesD(3) by blast
next
  case (fresh ok)
  then show ?thesis using assms(3,4) badges_connect(3) [of ok st i] by (auto simp: new_session_def)
next
  case (set_role j p)
  then show ?thesis using assms(3,4) by (simp add: set_role_badges(2))
next
  case (auth j p)
  have inv: "db_inv (db st)" using reach_inv [OF assms(1)] by (simp add: srv_inv_def)
  from auth(2) show ?thesis
  proof (cases rule: handle_auth_cases)
    case refused
    then show ?thesis using assms(3,4) badgesD(3) [OF refused(1)] by simp
  next
    case (failed a m d)
    then show ?thesis using assms(3,4) badgesD(3) [OF failed(6)] by simp
  next
    case (accepted a u d)
    let ?k = "fold (kick_duplicate j (ar_pubkey a)) (sessions st) (st\<lparr>recent_auth := recent_auth st', db := d\<rparr>)"
    have k: "s_authenticated (objs ?k i) \<Longrightarrow> s_authenticated (objs st i)"
      using kick_duplicates_badges [of j "ar_pubkey a" "sessions st" "st\<lparr>recent_auth := recent_auth st', db := d\<rparr>" i] by simp
    have s: "objs st' i = objs (auth_success cfg e j a u ?k) i" using accepted(7) by simp
    have "i = j" using k assms(3,4) auth_success_badges(3) [of cfg e j a u ?k i] s by auto
    moreover have "s_public_key (objs st' i) = ar_pubkey a" "s_user_id (objs st' i) = word_of_int (u_id u)"
        "s_role (objs st' i) = u_role u"
      unfolding s using \<open>i = j\<close> by (simp_all add: auth_success_badges)
    moreover have "(ar_pubkey a, u_id u, u_role u) \<in> cards (db st')"
      using login_cards [OF inv auth(3) accepted(5)] accepted(6) by simp
    then have "\<exists>v \<in> set (users (db st')). u_public_key v = ar_pubkey a
        \<and> word_of_int (u_id v) = s_user_id (objs st' i) \<and> u_role v = s_role (objs st' i)"
      using calculation by (force simp: cards_def)
    ultimately show ?thesis using auth(1,2) accepted(2,3) unfolding auth_ok_def by blast
  qed
qed


lemma demo_step: "server_step demo_cfg demo_libs demo_env (on_new_connection True (empty_srv create_schema)) demo_srv"
  unfolding demo_srv_def by (rule Message) (simp add: create_schema_def empty_srv_def on_new_connection_def Let_def)

lemma demo_connected: "server_reach demo_cfg demo_libs (on_new_connection True (empty_srv create_schema))"
  by (rule Step [OF Start [OF create_schema_inv] Connect])
     (simp_all add: create_schema_def empty_srv_def)

lemma demo_connected_fresh: "\<not> s_authenticated (objs (on_new_connection True (empty_srv create_schema)) 1)"
  by (simp add: on_new_connection_def empty_srv_def new_session_def)

theorem sign_in_needs_proof_witness:
  "\<exists>a :: auth_request. lib_verify demo_libs (signed_message (ar_pubkey a) (ar_name a) (ar_timestamp a)) (ar_signature a) (ar_pubkey a)
     \<and> s_public_key (objs demo_srv 1) = ar_pubkey a"
proof -
  have "s_authenticated (objs demo_srv 1)" using demo_signed_in by simp
  from sign_in_needs_proof [OF demo_connected demo_step this demo_connected_fresh] show ?thesis
    by (elim exE conjE) (rule exI, rule conjI, assumption+)
qed

section \<open>No sign-in works twice\<close>

text \<open>Steps under a clock that does not run backwards.\<close>

inductive later :: "config \<Rightarrow> libs \<Rightarrow> int \<Rightarrow> srv \<Rightarrow> int \<Rightarrow> srv \<Rightarrow> bool" for cfg L t st where
  Now: "later cfg L t st t st"
| Later: "later cfg L t st t' st' \<Longrightarrow> t' \<le> sint (unix_time e) \<Longrightarrow> server_step cfg L e st' st'' \<Longrightarrow>
    later cfg L t st (sint (unix_time e)) st''"

definition signs_in :: "config \<Rightarrow> libs \<Rightarrow> env \<Rightarrow> u32 \<Rightarrow> auth_request \<Rightarrow> srv \<Rightarrow> srv \<Rightarrow> bool" where
  "signs_in cfg L e i a st st' \<longleftrightarrow> \<not> s_authenticated (objs st i) \<and> s_authenticated (objs st' i)
     \<and> (\<exists>p. parse_auth p = Inr a \<and> st' = handle_auth cfg L e i p st)"

text \<open>A time stamp of a key is used up: a newer one is remembered, or its window has closed.\<close>

definition spent :: "bytes \<Rightarrow> u64 \<Rightarrow> int \<Rightarrow> srv \<Rightarrow> bool" where
  "spent fp ts now st \<longleftrightarrow> 0 \<le> sint ts \<and> 30 \<le> now \<and>
     (now - sint ts > 30 \<or> (\<exists>seen. map_of (recent_auth st) fp = Some seen \<and> 0 \<le> sint seen \<and> sint ts \<le> sint seen))"

lemma mod_if_sub: "m \<le> x \<Longrightarrow> x < 2 * m \<Longrightarrow> x mod m = x - (m :: int)"
  using mod_pos_pos_trivial [of "x - m" m] by simp

lemma sint_less_iff: "0 \<le> sint (a :: u64) \<Longrightarrow> 0 \<le> sint b \<Longrightarrow> a < b \<longleftrightarrow> sint a < sint b"
proof -
  have "sint w = uint w" if "0 \<le> sint w" for w :: u64
  proof -
    have "sint w = (uint w + 2 ^ 63) mod 2 ^ 64 - 2 ^ 63" using int_word_sint [of "uint w", where 'a = 64] by simp
    moreover have "uint w < 2 ^ 64" "0 \<le> uint w" using uint_lt2p [of w] by simp_all
    ultimately show ?thesis using that by (cases "uint w < 2 ^ 63") (simp_all add: mod_pos_pos_trivial mod_if_sub)
  qed
  then show "0 \<le> sint a \<Longrightarrow> 0 \<le> sint b \<Longrightarrow> a < b \<longleftrightarrow> sint a < sint b" by (simp add: word_less_def)
qed

lemma map_of_filter_first:
  "map_of m k = Some v \<Longrightarrow> P (k, v) \<Longrightarrow> map_of (filter P m) k = Some v"
  by (induction m) (auto split: if_splits)

lemma map_of_al_put: "map_of (al_put k v m) k' = (if k' = k then Some v else map_of m k')"
proof (cases "k \<in> fst ` set m")
  case True
  have "map_of (map (\<lambda>e. if fst e = k then (k, v) else e) m) k'
      = (if k' = k \<and> k \<in> fst ` set m then Some v else map_of m k')"
    by (induction m) force+
  then show ?thesis using True by (simp add: al_put_def)
next
  case False
  then have "map_of m k = None" by (simp add: map_of_eq_None_iff)
  then show ?thesis using False by (auto simp: al_put_def map_add_def split: option.split)
qed

lemma spent_prune:
  assumes "spent fp ts now st" and "now \<le> sint now'"
  shows "spent fp ts (sint now') (st\<lparr>recent_auth := prune_recent now' (recent_auth st)\<rparr>)"
proof (cases "sint now' - sint ts > 30")
  case True
  then show ?thesis using assms by (simp add: spent_def)
next
  case False
  then obtain seen where "map_of (recent_auth st) fp = Some seen" "0 \<le> sint seen" "sint ts \<le> sint seen"
    using assms by (auto simp: spent_def)
  moreover have "map_of (prune_recent now' (recent_auth st)) fp = Some seen"
    unfolding prune_recent_def using calculation False
    by (intro map_of_filter_first) (simp_all add: kAuthWindowSec_def)
  ultimately show ?thesis using assms by (simp add: spent_def)
qed

lemma spent_time: "spent fp ts now st \<Longrightarrow> now \<le> now' \<Longrightarrow> spent fp ts now' st"
  by (auto simp: spent_def)

lemma spent_cong: "recent_auth st' = recent_auth st \<Longrightarrow> spent fp ts now st' = spent fp ts now st"
  by (simp add: spent_def)

lemma auth_ok_window:
  "auth_ok cfg L now a r \<Longrightarrow> 30 \<le> sint now \<Longrightarrow> 0 \<le> sint (ar_timestamp a) \<and> \<bar>sint now - sint (ar_timestamp a)\<bar> \<le> 30"
  unfolding auth_ok_def by arith

text \<open>An accepted sign-in of a key is newer than every spent time stamp of the key, and spends its own.\<close>

lemma spent_newer:
  assumes "spent fp ts now st" and "now \<le> sint now'" and "auth_ok cfg L now' a (recent_auth st)"
    and "fp = public_key_fingerprint L (ar_pubkey a)"
  shows "ts < ar_timestamp a"
proof -
  have w: "30 \<le> sint now'" "0 \<le> sint ts" using assms(1,2) by (simp_all add: spent_def)
  have p: "0 \<le> sint (ar_timestamp a)" "\<bar>sint now' - sint (ar_timestamp a)\<bar> \<le> 30"
    using auth_ok_window [OF assms(3) w(1)] by simp_all
  from spent_prune [OF assms(1,2)] have "sint now' - sint ts > 30 \<or>
      (\<exists>seen. map_of (prune_recent now' (recent_auth st)) fp = Some seen \<and> 0 \<le> sint seen \<and> sint ts \<le> sint seen)"
    by (simp add: spent_def)
  then have "sint ts < sint (ar_timestamp a)"
  proof
    assume "\<exists>seen. map_of (prune_recent now' (recent_auth st)) fp = Some seen \<and> 0 \<le> sint seen \<and> sint ts \<le> sint seen"
    then obtain seen where "seen < ar_timestamp a" "0 \<le> sint seen" "sint ts \<le> sint seen"
      using assms(3,4) by (auto simp: auth_ok_def)
    then show ?thesis using sint_less_iff p(1) by fastforce
  qed (use p(2) in arith)
  then show ?thesis using sint_less_iff w(2) p(1) by blast
qed

lemma spends:
  assumes "auth_ok cfg L now a r" and "30 \<le> sint now"
    and "recent_auth st = al_put (public_key_fingerprint L (ar_pubkey a)) (ar_timestamp a) m"
  shows "spent (public_key_fingerprint L (ar_pubkey a)) (ar_timestamp a) (sint now) st"
  using assms(3) auth_ok_window [OF assms(1,2)] assms(2) by (simp add: spent_def map_of_al_put)

lemma spent_put:
  assumes "spent fp ts now st" and "now \<le> sint now'" and "auth_ok cfg L now' a (recent_auth st)"
    and "recent_auth st' = al_put (public_key_fingerprint L (ar_pubkey a)) (ar_timestamp a)
           (prune_recent now' (recent_auth st))"
  shows "spent fp ts (sint now') st'"
proof (cases "fp = public_key_fingerprint L (ar_pubkey a)")
  case True
  have w: "0 \<le> sint ts" "30 \<le> sint now'" using assms(1,2) by (simp_all add: spent_def)
  moreover have "0 \<le> sint (ar_timestamp a)" using auth_ok_window [OF assms(3) w(2)] by simp
  ultimately have "0 \<le> sint ts" "30 \<le> sint now'" "0 \<le> sint (ar_timestamp a)" by blast+
  then show ?thesis
    using spent_newer [OF assms(1-3) True] sint_less_iff [of ts "ar_timestamp a"] True assms(4)
    by (auto simp: spent_def map_of_al_put)
next
  case False
  then show ?thesis
    using spent_prune [OF assms(1,2)] assms(4) by (simp add: spent_def map_of_al_put)
qed

lemma spent_step:
  assumes "server_step cfg L e st st'" and "spent fp ts now st" and "now \<le> sint (unix_time e)"
  shows "spent fp ts (sint (unix_time e)) st'"
  using assms(1)
proof (cases rule: badges_step)
  case (auth i p)
  from auth(2) show ?thesis
  proof (cases rule: handle_auth_cases)
    case refused
    then show ?thesis
      using spent_prune [OF assms(2,3)] spent_time [OF assms(2,3)] by (auto simp: spent_def)
  qed (rule spent_put [OF assms(2,3)]; assumption)+
next
  case same
  show ?thesis unfolding spent_cong [OF badgesD(1) [OF same]] by (rule spent_time [OF assms(2,3)])
next
  case (fresh ok)
  then show ?thesis using spent_time [OF assms(2,3)] spent_cong [OF badges_connect(1)] by simp
next
  case (set_role i p)
  then show ?thesis using spent_time [OF assms(2,3)] spent_cong [OF set_role_badges(1)] by simp
qed

lemma spent_later:
  "later cfg L t st t' st' \<Longrightarrow> spent fp ts t st \<Longrightarrow> spent fp ts t' st'"
  by (induction rule: later.induct) (auto intro: spent_step)

lemma signs_in_ok:
  assumes "signs_in cfg L e i a st st'"
  shows "auth_ok cfg L (unix_time e) a (recent_auth st)
    \<and> recent_auth st' = al_put (public_key_fingerprint L (ar_pubkey a)) (ar_timestamp a)
          (prune_recent (unix_time e) (recent_auth st))"
proof -
  obtain p where p: "parse_auth p = Inr a" "st' = handle_auth cfg L e i p st"
    and n: "\<not> s_authenticated (objs st i)" "s_authenticated (objs st' i)"
    using assms by (auto simp: signs_in_def)
  from p(2) show ?thesis
  proof (cases rule: handle_auth_cases)
    case refused
    then show ?thesis using badgesD(3) [OF refused(1)] n by simp
  qed (use p(1) in auto)
qed

text \<open>(C5) A captured sign-in cannot be replayed: whatever steps the server takes in between, as long as its
  clock does not run backwards, every later sign-in accepted for the same key carries a strictly
  newer time stamp, so no signed message is accepted twice. The clock is past the first 30 seconds of
  1970.\<close>

theorem no_replay:
  assumes "signs_in cfg L e i a st st1" and "30 \<le> sint (unix_time e)"
    and "later cfg L (sint (unix_time e)) st1 t st2" and "t \<le> sint (unix_time e')"
    and "signs_in cfg L e' j a' st2 st3"
    and "public_key_fingerprint L (ar_pubkey a') = public_key_fingerprint L (ar_pubkey a)"
  shows "ar_timestamp a < ar_timestamp a'"
proof -
  have "spent (public_key_fingerprint L (ar_pubkey a)) (ar_timestamp a) t st2"
    using spent_later [OF assms(3)] spends assms(2) signs_in_ok [OF assms(1)] by blast
  then show ?thesis using spent_newer assms(4,6) signs_in_ok [OF assms(5)] by metis
qed


text \<open>Two connections of one client, the second one signing in a second later.\<close>

definition auth_payload_at :: "u64 \<Rightarrow> u8 \<Rightarrow> bytes" where
  "auth_payload_at t k = write_bytes (replicate 64 1) (write_u64 t (write_string (str ''ann'')
      (write_bytes (replicate 32 k) (write_u16 PROTOCOL_VERSION []))))"

definition demo_pair :: srv where
  "demo_pair = on_new_connection True (on_new_connection True (empty_srv create_schema))"

definition demo_first :: srv where
  "demo_first = handle_auth demo_cfg demo_libs demo_env 1 (auth_payload_at 1700000000 9) demo_pair"

lemma demo_first_in:
  "signs_in demo_cfg demo_libs demo_env 1 (projr (parse_auth (auth_payload_at 1700000000 9))) demo_pair demo_first"
proof -
  have "parse_auth (auth_payload_at 1700000000 9) = Inr (projr (parse_auth (auth_payload_at 1700000000 9)))"
    by code_simp
  moreover have "\<not> s_authenticated (objs demo_pair 1)" "s_authenticated (objs demo_first 1)" by code_simp+
  ultimately show ?thesis unfolding signs_in_def demo_first_def by blast
qed

lemma demo_second_in:
  "signs_in demo_cfg demo_libs demo_env 2 (projr (parse_auth (auth_payload_at 1700000001 9))) demo_first
     (handle_auth demo_cfg demo_libs demo_env 2 (auth_payload_at 1700000001 9) demo_first)"
proof -
  have "parse_auth (auth_payload_at 1700000001 9) = Inr (projr (parse_auth (auth_payload_at 1700000001 9)))"
    by code_simp
  moreover have "\<not> s_authenticated (objs demo_first 2)"
    "s_authenticated (objs (handle_auth demo_cfg demo_libs demo_env 2 (auth_payload_at 1700000001 9) demo_first) 2)"
    by code_simp+
  ultimately show ?thesis unfolding signs_in_def by blast
qed

theorem no_replay_witness:
  "ar_timestamp (projr (parse_auth (auth_payload_at 1700000000 9)))
     < ar_timestamp (projr (parse_auth (auth_payload_at 1700000001 9)))"
  by (rule no_replay [OF demo_first_in _ Now _ demo_second_in]) code_simp+

section \<open>Roles\<close>

lemma cards_badges: "badges st' = badges st \<Longrightarrow> cards (db st') = cards (db st)"
  by (simp add: cards_def badges_def)

lemma get_user_card: "get_user_by_id t d = Some u \<Longrightarrow> (u_public_key u, sint t, u_role u) \<in> cards d"
  by (force simp: get_user_by_id_def find_Some_iff cards_def)

text \<open>How the role stored for an account can change in one step.\<close>

lemma card_step:
  assumes inv: "db_inv (db st)" and step: "server_step cfg L e st st'" and new: "(k, u, q) \<in> cards (db st')"
  obtains (kept) "(k, u, q) \<in> cards (db st)"
  | (created) "q = uint User" and "\<forall>v q. (k, v, q) \<notin> cards (db st)"
  | (root) i p where "i \<in> set (sessions st)" and "st' = handle_auth cfg L e i p st" and "q = uint Owner"
      and "public_key_fingerprint L k \<in> set (root_fingerprints cfg)"
  | (set_role) i p q0 r where "i \<in> set (sessions st)" and "st' = handle_set_role i p st" and "s_authenticated (objs st i)"
      and "has_permission (the_role (objs st i)) ManageRoles None" and "(k, u, q0) \<in> cards (db st)"
      and "can_moderate (the_role (objs st i)) (word_of_int q0)" and "q = uint (r :: role)" and "r \<noteq> Owner"
      and "s_role (objs st i) < q \<or> the_role (objs st i) = Owner"
  using step
proof (cases rule: badges_step)
  case same
  then show ?thesis using new kept cards_badges [OF same] by simp
next
  case (fresh ok)
  then show ?thesis using new kept badges_connect(2) by simp
next
  case (auth i p)
  have l: ?thesis if "login_user cfg (ar_pubkey a) n (public_key_fingerprint L (ar_pubkey a)) t (db st) = (res, d)"
      "(k, u, q) \<in> cards d" for a n t res d
    using login_cards [OF inv auth(3) that(1)] that(2) kept created root auth(1,2) by metis
  from auth(2) show ?thesis
  proof (cases rule: handle_auth_cases)
    case refused
    then show ?thesis using new kept cards_badges [OF refused(1)] by simp
  next
    case (failed a m d)
    then show ?thesis using l new by simp
  next
    case (accepted a r d)
    then show ?thesis using l new by simp
  qed
next
  case c: (set_role i p)
  show ?thesis
  proof (cases rule: set_role_cases [of i p st])
    case refused
    then show ?thesis using new kept cards_badges [OF refused] c(2) by simp
  next
    case (changed t r x)
    have "cards (db st') = cards (set_user_role t r (db st))"
      using cards_badges [OF changed(7)] c(2) by (simp add: set_live_role_badges)
    then obtain q0 where q0: "(k, u, q0) \<in> cards (db st)" "q = (if u = sint t then uint r else q0)"
      using new by (auto simp: cards_set_role)
    show ?thesis
    proof (cases "u = sint t")
      case True
      then have "q0 = u_role x" using cards_ids(2) [OF inv q0(1) get_user_card [OF changed(5)]] by simp
      then show ?thesis
        using set_role [OF c(1,2) changed(1,2) q0(1) _ _ changed(3)] changed(4,6) q0(2) True by simp
    qed (use q0 kept in simp)
  qed
qed

text \<open>(C6) Nobody's role changes without the right to change it: when a step from a reachable state changes the
  role stored for an account, either the account's key is configured as a root key and it signed in
  and became owner, or a signed-in session with the right to manage roles asked for it, one that
  outranks the account's old role, and the new role is not owner and ranks below its own unless it is
  an owner.\<close>

theorem roles_change_by_right:
  assumes "server_reach cfg L st" and "server_step cfg L e st st'"
    and "(k, u, q) \<in> cards (db st)" and "(k, u, q') \<in> cards (db st')" and "q' \<noteq> q"
  shows "(q' = uint Owner \<and> public_key_fingerprint L k \<in> set (root_fingerprints cfg)
            \<and> (\<exists>i p. st' = handle_auth cfg L e i p st))
       \<or> (\<exists>i p. i \<in> set (sessions st) \<and> st' = handle_set_role i p st \<and> s_authenticated (objs st i)
            \<and> has_permission (the_role (objs st i)) ManageRoles None
            \<and> can_moderate (the_role (objs st i)) (word_of_int q)
            \<and> q' \<noteq> uint Owner \<and> (s_role (objs st i) < q' \<or> the_role (objs st i) = Owner))"
proof -
  have inv: "db_inv (db st)" using reach_inv [OF assms(1)] by (simp add: srv_inv_def)
  from inv assms(2,4) show ?thesis
  proof (cases rule: card_step)
    case kept
    then show ?thesis using cards_ids(2) [OF inv assms(3) kept] assms(5) by simp
  next
    case created
    then show ?thesis using assms(3) by blast
  next
    case (root i p)
    then show ?thesis by blast
  next
    case (set_role i p q0 r)
    have "q0 = q" using cards_ids(2) [OF inv assms(3) set_role(5)] by simp
    moreover have "q' \<noteq> uint Owner" using set_role(7,8) by (simp add: uint_0_iff)
    ultimately show ?thesis using set_role(1-4,6,9) by blast
  qed
qed


text \<open>A server whose configuration names the key of its first client: that client is the owner and makes the
  second one a moderator.\<close>

definition demo_root_cfg :: config where
  "demo_root_cfg = demo_cfg\<lparr>root_fingerprints := [public_key_fingerprint demo_libs (replicate 32 9)]\<rparr>"

definition demo_team :: srv where
  "demo_team = handle_message demo_root_cfg demo_libs demo_env 2 AUTH_IDENTITY (auth_payload_at 1700000000 8)
     (handle_message demo_root_cfg demo_libs demo_env 1 AUTH_IDENTITY (auth_payload_at 1700000000 9) demo_pair)"

definition demo_promoted :: srv where
  "demo_promoted = handle_message demo_root_cfg demo_libs demo_env 1 ADMIN_SET_ROLE (le32 2 @ [2]) demo_team"

lemma demo_team_steps: "steps demo_root_cfg demo_libs (empty_srv create_schema) demo_team"
proof -
  let ?s = "\<lambda>a b. \<exists>e. server_step demo_root_cfg demo_libs e a b"
  let ?a = "on_new_connection True (empty_srv create_schema)"
  have "?s (empty_srv create_schema) ?a" by (rule exI, rule Connect) (simp add: empty_srv_def)
  moreover have "?s ?a demo_pair"
    unfolding demo_pair_def by (rule exI, rule Connect) (simp add: empty_srv_def on_new_connection_def Let_def)
  moreover have "?s demo_pair (handle_message demo_root_cfg demo_libs demo_env 1 AUTH_IDENTITY (auth_payload_at 1700000000 9) demo_pair)"
    by (rule exI, rule Message) code_simp
  moreover have "?s (handle_message demo_root_cfg demo_libs demo_env 1 AUTH_IDENTITY (auth_payload_at 1700000000 9) demo_pair) demo_team"
    unfolding demo_team_def by (rule exI, rule Message) code_simp
  ultimately show ?thesis
    by (rule converse_rtranclp_into_rtranclp [OF _ converse_rtranclp_into_rtranclp [OF _
          converse_rtranclp_into_rtranclp [OF _ r_into_rtranclp]]])
qed

lemma demo_team_reach: "server_reach demo_root_cfg demo_libs demo_team"
  by (rule reach_steps [OF demo_team_steps]) (rule Start [OF create_schema_inv], simp add: create_schema_def)

lemma demo_promoted_step: "server_step demo_root_cfg demo_libs demo_env demo_team demo_promoted"
  unfolding demo_promoted_def by (rule Message) code_simp

lemma demo_cards: "(replicate 32 8, 2, 3) \<in> cards (db demo_team)" "(replicate 32 8, 2, 2) \<in> cards (db demo_promoted)"
  by code_simp+

theorem roles_change_by_right_witness:
  "\<exists>i. s_authenticated (objs demo_team i) \<and> can_moderate (the_role (objs demo_team i)) 3"
  using roles_change_by_right [OF demo_team_reach demo_promoted_step demo_cards] by auto

section \<open>Owners\<close>

definition owners_ok :: "config \<Rightarrow> libs \<Rightarrow> srv \<Rightarrow> bool" where
  "owners_ok cfg L st \<longleftrightarrow>
     (\<forall>(k, u, q) \<in> cards (db st). word_of_int q = Owner \<longrightarrow> public_key_fingerprint L k \<in> set (root_fingerprints cfg))
   \<and> (\<forall>i. s_authenticated (objs st i) \<and> the_role (objs st i) = Owner
        \<longrightarrow> public_key_fingerprint L (s_public_key (objs st i)) \<in> set (root_fingerprints cfg))"

lemma owners_cards_step:
  assumes inv: "db_inv (db st)" and step: "server_step cfg L e st st'" and ok: "owners_ok cfg L st"
    and new: "(k, u, q) \<in> cards (db st')" and own: "word_of_int q = Owner"
  shows "public_key_fingerprint L k \<in> set (root_fingerprints cfg)"
  using inv step new
proof (cases rule: card_step)
  case kept
  then show ?thesis using ok own by (auto simp: owners_ok_def)
qed (use own in auto)

lemma owners_ok_step:
  assumes reach: "server_reach cfg L st" and step: "server_step cfg L e st st'" and ok: "owners_ok cfg L st"
  shows "owners_ok cfg L st'"
proof -
  have inv: "db_inv (db st)" using reach_inv [OF reach] by (simp add: srv_inv_def)
  note c = owners_cards_step [OF inv step ok]
  have "public_key_fingerprint L (s_public_key (objs st' i)) \<in> set (root_fingerprints cfg)"
    if a: "s_authenticated (objs st' i)" and o: "the_role (objs st' i) = Owner" for i
  proof (cases "s_authenticated (objs st i)")
    case False
    then obtain v where v: "v \<in> set (users (db st'))" "u_public_key v = s_public_key (objs st' i)"
        "u_role v = s_role (objs st' i)"
      using sign_in_needs_proof [OF reach step a] by metis
    have "(u_public_key v, u_id v, u_role v) \<in> cards (db st')" using v(1) by (auto simp: cards_def)
    from c [OF this] show ?thesis using v(2,3) o by simp
  next
    case True
    have old: ?thesis if "s_public_key (objs st' i) = s_public_key (objs st i)" "s_role (objs st' i) = s_role (objs st i)"
      using ok True that o by (simp add: owners_ok_def)
    from step show ?thesis
    proof (cases rule: badges_step)
      case same
      show ?thesis by (rule old) (rule badgesD [OF same])+
    next
      case (fresh ok)
      then show ?thesis using old a badges_connect(3) [of ok st i] by (auto simp: new_session_def)
    next
      case (set_role j p)
      show ?thesis
      proof (cases rule: set_role_cases [of j p st])
        case refused
        show ?thesis using badgesD(3-6) [OF refused, of i] set_role(2) old by simp
      next
        case (changed t r u)
        show ?thesis
          using badgesD(3-6) [OF changed(7), of i] set_role(2) old o changed(3)
          by (simp add: set_live_role_badges split: if_splits)
      qed
    next
      case (auth j p)
      from auth(2) show ?thesis
      proof (cases rule: handle_auth_cases)
        case refused
        show ?thesis using badgesD(3-6) [OF refused(1), of i] old by simp
      next
        case (failed x m d)
        show ?thesis using badgesD(3-6) [OF failed(6), of i] old by simp
      next
        case (accepted x u d)
        then have "i \<noteq> j" using True by auto
        define k where "k = fold (kick_duplicate j (ar_pubkey x)) (sessions st) (st\<lparr>recent_auth := recent_auth st', db := d\<rparr>)"
        have "s_public_key (objs k i) = s_public_key (objs st i)" "s_role (objs k i) = s_role (objs st i)"
          using kick_duplicates_badges [of j "ar_pubkey x" "sessions st" "st\<lparr>recent_auth := recent_auth st', db := d\<rparr>" i]
          by (simp_all add: k_def)
        moreover have "objs st' i = objs (auth_success cfg e j x u k) i"
          unfolding k_def by (rule arg_cong [OF accepted(7)])
        ultimately show ?thesis
          using auth_success_badges(5,6) [of cfg e j x u k i] \<open>i \<noteq> j\<close> by (intro old) simp_all
      qed
    qed
  qed
  then show ?thesis using c by (auto simp: owners_ok_def)
qed

text \<open>(C34) Only the configuration makes owners: a server started on a fresh database never has an owner account, or a
  signed-in session with the owner role, whose key's fingerprint is not listed in its configuration,
  whatever messages it gets.\<close>

theorem owners_are_configured:
  assumes "steps cfg L (empty_srv create_schema) st"
  shows "(\<forall>u \<in> set (users (db st)). word_of_int (u_role u) = Owner
            \<longrightarrow> public_key_fingerprint L (u_public_key u) \<in> set (root_fingerprints cfg))
       \<and> (\<forall>i. s_authenticated (objs st i) \<and> the_role (objs st i) = Owner
            \<longrightarrow> public_key_fingerprint L (s_public_key (objs st i)) \<in> set (root_fingerprints cfg))"
proof -
  have s: "server_reach cfg L (empty_srv create_schema)" by (rule Start [OF create_schema_inv]) (simp add: create_schema_def)
  have "server_reach cfg L st \<and> owners_ok cfg L st"
    using assms
  proof (induction rule: rtranclp_induct)
    case base
    have "cards (db (empty_srv create_schema)) = {}" by (simp add: cards_def empty_srv_def create_schema_def)
    then show ?case using s by (simp add: owners_ok_def empty_srv_def new_session_def)
  next
    case (step y z)
    then show ?case using owners_ok_step server_reach.Step by blast
  qed
  then show ?thesis by (force simp: owners_ok_def cards_def)
qed

lemma demo_team_owner: "s_authenticated (objs demo_team 1)" "the_role (objs demo_team 1) = Owner"
  by code_simp+

theorem owners_are_configured_witness:
  "public_key_fingerprint demo_libs (s_public_key (objs demo_team 1)) \<in> set (root_fingerprints demo_root_cfg)"
  using owners_are_configured [OF demo_team_steps] demo_team_owner by blast

end
