(* ===== verification/Server_Access.thy ===== *)
theory Server_Access
  imports Server_Security
begin

text \<open>
  What the message and packet handlers of \<open>server/src/server.cpp\<close> let through: a session that has not signed
  in is inert, voice goes exactly to the listeners of the speaker's channel, video frames only to
  subscribed viewers, files are written under names the server chose, and messages are removed only
  by their author or a moderator.
\<close>

section \<open>Sessions that have not signed in\<close>

lemma handlers_need_auth:
  assumes "\<not> s_authenticated (objs st i)"
  shows "handle_join cfg i p st = st" "handle_voice_state i p st = st" "handle_leave i st = st"
    "handle_create_channel i p st = st" "handle_delete_channel i p st = st" "handle_rename_channel i p st = st"
    "handle_set_role i p st = st" "handle_kick i p st = st" "handle_share_start i p st = st"
    "handle_share_update i p st = st" "handle_share_stop i p st = st" "handle_share_view e i p st = st"
    "handle_create_text_channel i p st = st" "handle_delete_text_channel i p st = st"
    "handle_chat_send cfg e i p st = st" "handle_history i p st = st" "handle_pin i p st = st"
    "handle_unpin i p st = st" "handle_chat_delete i p st = st" "handle_pinned i p st = st" "handle_search L i p st = st"
  using assms
  by (simp_all add: handle_join_def handle_voice_state_def handle_leave_def handle_create_channel_def
      handle_delete_channel_def handle_rename_channel_def handle_set_role_def handle_kick_def
      handle_share_start_def handle_share_update_def handle_share_stop_def handle_share_view_def
      handle_create_text_channel_def handle_delete_text_channel_def handle_chat_send_def handle_history_def
      handle_pin_def handle_unpin_def handle_chat_delete_def handle_pinned_def handle_search_def Let_def)

text \<open>(C35) A session that has not signed in can do nothing but sign in and keep its connection alive: every other
  control message, every voice, stream-audio or video-control packet, and every upload and download of
  such a session leaves the server exactly as it was, and sends nothing to anybody.\<close>

theorem unauthenticated_is_inert:
  assumes "\<not> s_authenticated (objs st i)"
  shows "(ty \<noteq> AUTH_IDENTITY \<and> ty \<noteq> KEEPALIVE_PING \<longrightarrow> handle_message cfg L e i ty p st = st)
       \<and> (dp_session pkt = i \<and> dp_type pkt \<noteq> VIDEO_FRAME_PACKET_TYPE \<longrightarrow> process_data_packet e pkt st = st)
       \<and> (fu_session up = i \<longrightarrow> process_upload cfg e up st = st)
       \<and> (fd_session down = i \<longrightarrow> process_download down st = st)"
proof -
  have "get_session i st = None \<or> get_session i st = Some (objs st i)" by (simp add: get_session_def)
  then have "process_data_packet e pkt st = st" if "dp_session pkt = i" "dp_type pkt \<noteq> VIDEO_FRAME_PACKET_TYPE"
    using that assms
    by (auto simp: process_data_packet_def forward_voice_def forward_stream_audio_def handle_video_control_def)
  moreover have "process_upload cfg e up st = st" if "fu_session up = i"
    using that assms \<open>get_session i st = None \<or> _\<close> by (auto simp: process_upload_def)
  moreover have "process_download down st = st" if "fd_session down = i"
    using that assms \<open>get_session i st = None \<or> _\<close> by (auto simp: process_download_def)
  moreover have "handle_message cfg L e i ty p st = st" if "ty \<noteq> AUTH_IDENTITY" "ty \<noteq> KEEPALIVE_PING"
    using that by (cases ty) (simp_all add: handle_message_def handlers_need_auth [OF assms])
  ultimately show ?thesis by blast
qed

theorem unauthenticated_is_inert_witness:
  "handle_message demo_cfg demo_libs demo_env 1 CHANNEL_JOIN (le32 1) (on_new_connection True (empty_srv create_schema))
     = on_new_connection True (empty_srv create_schema)"
proof -
  have "\<not> s_authenticated (objs (on_new_connection True (empty_srv create_schema)) 1)"
    by (simp add: on_new_connection_def empty_srv_def new_session_def)
  from unauthenticated_is_inert [OF this, of CHANNEL_JOIN] show ?thesis by simp
qed

section \<open>Voice\<close>

text \<open>Whether a media datagram for a session is handed to MsQuic.\<close>

definition takes :: "env \<Rightarrow> srv \<Rightarrow> u32 \<Rightarrow> bool" where
  "takes e st j \<longleftrightarrow> j \<in> set (sessions st) \<and> fst (admit (now_us e) (s_backlog (objs st j)))
     \<and> s_alive (objs st j) \<and> s_connection (objs st j) \<and> dgram_send_ok e j"

lemma send_datagram_media:
  "out (send_datagram e j d pr True st) = out st @ (if takes e st j then [Datagram j d pr] else [])"
  "sessions (send_datagram e j d pr True st) = sessions st"
  "k \<noteq> j \<Longrightarrow> objs (send_datagram e j d pr True st) k = objs st k"
  by (auto simp: send_datagram_def get_session_def takes_def Let_def emit_def upd_def split: prod.split)

lemma send_to_many_out:
  "distinct js \<Longrightarrow> out (send_to_many e js d pr st) = out st @ map (\<lambda>j. Datagram j d pr) (filter (takes e st) js)"
  unfolding send_to_many_def
proof (induction js arbitrary: st)
  case (Cons j js)
  have "filter (takes e (send_datagram e j d pr True st)) js = filter (takes e st) js"
  proof (rule filter_cong)
    fix k assume "k \<in> set js"
    then have "k \<noteq> j" using Cons.prems by auto
    then show "takes e (send_datagram e j d pr True st) k = takes e st k"
      by (simp add: takes_def send_datagram_media(2,3))
  qed simp
  then show ?case
    using Cons.IH [of "send_datagram e j d pr True st"] Cons.prems by (simp add: send_datagram_media(1))
qed simp

text \<open>Voice reaches exactly the right people: a voice packet of a session that is in a channel and not muted (or
  any packet of the second voice type, which carries its own mute state) is handed, once each and
  tagged with the speaker's user id, to the sessions that are signed in, in the same channel, not
  deafened and not the speaker, whose datagram queue admits it; every other voice packet is dropped,
  and nobody else receives anything.\<close>

theorem voice_reaches_listeners:
  assumes "server_reach cfg L st" and "get_session (dp_session pkt) st = Some s"
    and "dp_type pkt = VOICE_PACKET_TYPE \<or> dp_type pkt = VOICE2_PACKET_TYPE"
  shows "out (process_data_packet e pkt st) = out st @
     (if s_authenticated s \<and> s_channel s \<noteq> 0 \<and> \<not> (dp_type pkt = VOICE_PACKET_TYPE \<and> (s_muted s \<or> s_deafened s))
      then map (\<lambda>j. Datagram j (dp_type pkt # le32 (s_user_id s) @ dp_data pkt) True)
             (filter (\<lambda>j. j \<noteq> dp_session pkt \<and> s_authenticated (objs st j) \<and> s_channel (objs st j) = s_channel s
                          \<and> \<not> s_deafened (objs st j) \<and> takes e st j) (sessions st))
      else [])"
proof -
  have ids: "s_id (objs st j) = j" for j using reach_inv [OF assms(1)] by (simp add: srv_inv_def sids_def)
  have "filter (takes e st) (filter (\<lambda>j. hears i ch (objs st j)) (sessions st))
      = filter (\<lambda>j. j \<noteq> i \<and> s_authenticated (objs st j) \<and> s_channel (objs st j) = ch \<and> \<not> s_deafened (objs st j)
          \<and> takes e st j) (sessions st)" for i ch
    unfolding filter_filter by (rule filter_cong) (auto simp: hears_def ids)
  then show ?thesis
    using assms(2,3) reach_distinct [OF assms(1)]
    by (auto simp: process_data_packet_def forward_voice_def send_to_many_out)
qed

text \<open>The two clients of the team in one channel.\<close>

definition demo_room :: srv where
  "demo_room = handle_message demo_root_cfg demo_libs demo_env 2 CHANNEL_JOIN (le32 1)
     (handle_message demo_root_cfg demo_libs demo_env 1 CHANNEL_JOIN (le32 1) demo_team)"

lemma demo_room_reach: "server_reach demo_root_cfg demo_libs demo_room"
proof -
  have few: "user_seq (db demo_team) + 1 < 2 ^ 31" by code_simp
  have "db (handle_message demo_root_cfg demo_libs demo_env 1 CHANNEL_JOIN (le32 1) demo_team) = db demo_team"
    by (simp add: handle_message_def frameD(4) [OF frame_handle_join])
  with few have "user_seq (db (handle_message demo_root_cfg demo_libs demo_env 1 CHANNEL_JOIN (le32 1) demo_team)) + 1 < 2 ^ 31"
    by simp
  then show ?thesis
    unfolding demo_room_def by (rule Step [OF Step [OF demo_team_reach Message [OF few]] Message])
qed

text \<open>Who is there, in one evaluation.\<close>

definition roll :: "env \<Rightarrow> srv \<Rightarrow> (u32 \<times> bool \<times> u32 \<times> u32 \<times> bool \<times> bool \<times> bool) list" where
  "roll e st = map (\<lambda>j. (j, s_authenticated (objs st j), s_channel (objs st j), s_user_id (objs st j),
     s_muted (objs st j), s_deafened (objs st j), takes e st j)) (sessions st)"

lemma demo_room_roll:
  "roll demo_env demo_room = [(1, True, 1, 1, False, False, True), (2, True, 1, 2, False, False, True)]"
  by code_simp

lemma demo_room_facts:
  "sessions demo_room = [1, 2]" "s_authenticated (objs demo_room 1)" "s_channel (objs demo_room 1) = 1"
  "s_user_id (objs demo_room 1) = 1" "\<not> s_muted (objs demo_room 1)" "\<not> s_deafened (objs demo_room 1)"
  "s_authenticated (objs demo_room 2)" "s_channel (objs demo_room 2) = 1" "\<not> s_deafened (objs demo_room 2)"
  "takes demo_env demo_room 2"
proof -
  have "map fst (roll demo_env demo_room) = sessions demo_room" by (simp add: roll_def comp_def)
  then show s: "sessions demo_room = [1, 2]" by (simp add: demo_room_roll)
  show "s_authenticated (objs demo_room 1)" "s_channel (objs demo_room 1) = 1"
    "s_user_id (objs demo_room 1) = 1" "\<not> s_muted (objs demo_room 1)" "\<not> s_deafened (objs demo_room 1)"
    "s_authenticated (objs demo_room 2)" "s_channel (objs demo_room 2) = 1" "\<not> s_deafened (objs demo_room 2)"
    "takes demo_env demo_room 2"
    using demo_room_roll by (simp_all add: roll_def s)
qed

theorem voice_reaches_listeners_witness:
  "out (process_data_packet demo_env \<lparr>dp_session = 1, dp_type = VOICE_PACKET_TYPE, dp_data = [7, 7]\<rparr> demo_room)
     = out demo_room @ [Datagram 2 (VOICE_PACKET_TYPE # le32 1 @ [7, 7]) True]"
  using voice_reaches_listeners [OF demo_room_reach, of "\<lparr>dp_session = 1, dp_type = VOICE_PACKET_TYPE, dp_data = [7, 7]\<rparr>"
      "objs demo_room 1" demo_env]
  by (simp add: demo_room_facts get_session_def)

end
