(* ===== verification/Server_Forward.thy ===== *)
theory Server_Forward
  imports Server_Access
begin

text \<open>
  Where a video frame goes: everything \<open>forward_video_frame\<close> (\<open>server/src/server.cpp\<close>) hands to the transport,
  by the effects it appends. \<open>speaks Q\<close> says that an operation appends only effects satisfying \<open>Q\<close>; the
  fan-out is a composition of such operations.
\<close>

section \<open>Effects of an operation\<close>

definition speaks :: "(effect \<Rightarrow> bool) \<Rightarrow> srv \<Rightarrow> srv \<Rightarrow> bool" where
  "speaks Q st st' \<longleftrightarrow> (\<exists>es. out st' = out st @ es \<and> list_all Q es)"

lemma speaks_refl: "out st' = out st \<Longrightarrow> speaks Q st st'"
  by (simp add: speaks_def)

lemma speaks_trans: "speaks Q a b \<Longrightarrow> speaks Q b c \<Longrightarrow> speaks Q a c"
  by (fastforce simp: speaks_def)

lemma speaks_emit: "out st' = out st \<Longrightarrow> Q x \<Longrightarrow> speaks Q st (emit x st')"
  by (auto simp: speaks_def emit_def)

lemma speaks_emit_eq: "out st' = out st \<Longrightarrow> speaks Q st (emit x st') = Q x"
  by (simp add: speaks_def emit_def)

lemma speaks_out: "out st2 = out st1 \<Longrightarrow> speaks Q st1 st \<Longrightarrow> speaks Q st2 st"
  by (simp add: speaks_def)

lemma speaks_fold:
  "(\<And>x st. x \<in> set xs \<Longrightarrow> speaks Q st (f x st)) \<Longrightarrow> speaks Q st (fold f xs st)"
proof (induction xs arbitrary: st)
  case (Cons x xs)
  then have "speaks Q st (f x st)" "speaks Q (f x st) (fold f xs (f x st))" by simp_all
  then show ?case using speaks_trans by fastforce
qed (simp add: speaks_refl)

lemma out_upd [simp]: "out (upd i f st) = out st"
  by (simp add: upd_def)

lemma speaks_datagram:
  "(Q (Datagram j d pr)) \<Longrightarrow> speaks Q st (send_datagram e j d pr md st)"
  unfolding send_datagram_def
  by (simp add: Let_def speaks_emit_eq speaks_refl split: option.split prod.split)

text \<open>What may leave while a frame \<open>d\<close> of stream \<open>x\<close> is forwarded: the frame, to viewers; aborts of frames that
  became useless; and a keyframe request.\<close>

definition frame_effect :: "(u32 \<Rightarrow> bool) \<Rightarrow> u32 \<Rightarrow> bytes \<Rightarrow> effect \<Rightarrow> bool" where
  "frame_effect V x d ef \<longleftrightarrow>
     (case ef of
        FrameStream j h b \<Rightarrow> V j \<and> b = STREAM_TYPE_VIDEO_FRAME # le32 x @ d
      | LegacyVideo j b \<Rightarrow> V j \<and> b = le32 (of_nat (5 + length d)) @ VIDEO_FRAME_PACKET_TYPE # le32 x @ d
      | AbortSend j h \<Rightarrow> V j
      | AbortStream j h \<Rightarrow> V j
      | Datagram j b pr \<Rightarrow> b = [VIDEO_CONTROL_TYPE, VIDEO_CTL_PLI] @ le32 0 @ le32 x
      | _ \<Rightarrow> False)"

lemma speaks_request:
  "speaks (frame_effect V x d) st (request_keyframe_from_sharer e x 0 st)"
proof -
  have "speaks (frame_effect V x d) st' (send_keyframe_request e x 0 st')" for st'
    unfolding send_keyframe_request_def
    by (auto split: option.split intro!: speaks_refl speaks_datagram) (simp add: frame_effect_def)
  then have "speaks (frame_effect V x d) st (send_keyframe_request e x 0 (st\<lparr>sharer_states := m\<rparr>))" for m
    by (rule speaks_out [rotated]) simp
  then show ?thesis
    unfolding request_keyframe_from_sharer_def Let_def case_prod_beta by (simp add: speaks_refl)
qed

lemma speaks_abort: "V i \<Longrightarrow> speaks (frame_effect V x d) st (abort_video_frames i y all q st)"
proof -
  assume "V i"
  then have "speaks (frame_effect V x d) st (fold (\<lambda>v. emit (AbortSend i (vo_stream v))) vs st)" for vs
    by (intro speaks_fold speaks_emit) (simp_all add: frame_effect_def)
  then show ?thesis unfolding abort_video_frames_def Let_def by (simp add: speaks_def)
qed

lemma speaks_send_frame:
  assumes "V i" shows "speaks (frame_effect V x d) st (snd (send_video_frame_to e i (le32 x @ d) st))"
proof -
  have "frame_effect V x d (FrameStream i h (STREAM_TYPE_VIDEO_FRAME # le32 x @ d))"
    "frame_effect V x d (LegacyVideo i (le32 (of_nat (1 + length (le32 x @ d))) @ VIDEO_FRAME_PACKET_TYPE # le32 x @ d))"
    "frame_effect V x d (AbortStream i h)" for h
    using assms by (simp_all add: frame_effect_def)
  then show ?thesis
    unfolding send_video_frame_to_def Let_def
    by (simp add: speaks_emit_eq speaks_refl split: option.split)
qed

lemma speaks_send_to_viewer:
  assumes "V i" shows "speaks (frame_effect V x d) (snd g) (snd (send_to_viewer e x (le32 x @ d) i g))"
  using speaks_send_frame [where V = V and i = i and x = x and d = d and st = "snd g" and e = e] assms
  by (cases g) (auto simp: send_to_viewer_def case_prod_beta Let_def speaks_def)

lemma speaks_send_to_viewers:
  "list_all V js \<Longrightarrow> speaks (frame_effect V x d) (snd g) (snd (fold (send_to_viewer e x (le32 x @ d)) js g))"
proof (induction js arbitrary: g)
  case (Cons j js)
  have "speaks (frame_effect V x d) (snd g) (snd (send_to_viewer e x (le32 x @ d) j g))"
    using Cons.prems by (intro speaks_send_to_viewer) simp
  moreover have "speaks (frame_effect V x d) (snd (send_to_viewer e x (le32 x @ d) j g))
      (snd (fold (send_to_viewer e x (le32 x @ d)) js (send_to_viewer e x (le32 x @ d) j g)))"
    using Cons by simp
  ultimately show ?case using speaks_trans by fastforce
qed (simp add: speaks_refl)

section \<open>The gates pick viewers only\<close>

definition verdict_ok :: "(u32 \<Rightarrow> bool) \<Rightarrow> gate_verdict \<Rightarrow> bool" where
  "verdict_ok V gv \<longleftrightarrow> list_all V (gv_targets gv) \<and> list_all V (gv_abort_all gv) \<and> list_all V (gv_abort_older gv)"

lemma gate_viewer_ok:
  assumes "verdict_ok V (fst g)" and "is_viewer p ch x (objs (snd g) i) \<Longrightarrow> V i"
  shows "verdict_ok V (fst (gate_viewer e p ch x rt h kf i g)) \<and> out (snd (gate_viewer e p ch x rt h kf i g)) = out (snd g)"
proof (cases "is_viewer p ch x (objs (snd g) i)")
  case True
  then have "V i" by (rule assms(2))
  then show ?thesis
    using assms(1) by (cases g) (auto simp: gate_viewer_def verdict_ok_def Let_def split: prod.split)
next
  case False
  then show ?thesis using assms(1) by (cases g) (simp add: gate_viewer_def)
qed

lemma is_viewer_core:
  "core st' = core st \<Longrightarrow> is_viewer p ch x (objs st' i) = is_viewer p ch x (objs st i)"
  using strip_eqD [OF core_eqD(10) [of st' st i]] by (simp add: is_viewer_def)

lemma gate_viewers_ok:
  assumes "\<And>i. i \<in> set js \<Longrightarrow> is_viewer p ch x (objs st i) \<Longrightarrow> V i"
  shows "core (snd g) = core st \<Longrightarrow> verdict_ok V (fst g) \<Longrightarrow>
     verdict_ok V (fst (fold (gate_viewer e p ch x rt h kf) js g))
     \<and> out (snd (fold (gate_viewer e p ch x rt h kf) js g)) = out (snd g)"
  using assms
proof (induction js arbitrary: g)
  case (Cons j js)
  let ?g = "gate_viewer e p ch x rt h kf j g"
  have "verdict_ok V (fst ?g) \<and> out (snd ?g) = out (snd g)"
    using Cons.prems is_viewer_core [OF Cons.prems(1)] by (intro gate_viewer_ok) auto
  moreover have "core (snd ?g) = core st" using core_gate_viewer Cons.prems(1) by metis
  ultimately show ?case using Cons.IH [of ?g] Cons.prems by simp
qed simp

section \<open>A frame goes to viewers only\<close>

lemma out_note_drops [simp]: "out (note_drops now x n st) = out st"
  by (simp add: note_drops_def Let_def case_prod_beta)

lemma speaks_forward:
  assumes V: "\<And>j. j \<in> set (sessions st) \<Longrightarrow> is_viewer i ch x (objs st j) \<Longrightarrow> V j"
  shows "speaks (frame_effect V x d) st (forward_to_viewers e i ch x hdr rates headroom (le32 x @ d) st)"
proof -
  define gv0 where "gv0 = \<lparr>gv_targets = [], gv_abort_all = [], gv_abort_older = [], gv_dropped = 0, gv_want_key = False\<rparr>"
  obtain gv st2 where g: "fold (gate_viewer e i ch x rates headroom (keyframe hdr)) (sessions st) (gv0, st) = (gv, st2)" by fastforce
  have "verdict_ok V gv \<and> out st2 = out st"
    using gate_viewers_ok [where js = "sessions st" and st = st and g = "(gv0, st)" and V = V and p = i and ch = ch and x = x
        and e = e and rt = rates and h = headroom and kf = "keyframe hdr"] V g
    by (simp add: verdict_ok_def gv0_def)
  then have v: "list_all V (gv_targets gv)" "list_all V (gv_abort_all gv)" "list_all V (gv_abort_older gv)"
    and o: "out st2 = out st" by (simp_all add: verdict_ok_def)
  define st3 where "st3 = fold (\<lambda>i. abort_video_frames i x True 0) (gv_abort_all gv) st2"
  define st4 where "st4 = fold (\<lambda>i. abort_video_frames i x False (frame_seq hdr)) (gv_abort_older gv) st3"
  obtain gv5 st5 where s: "fold (send_to_viewer e x (le32 x @ d)) (gv_targets gv) (gv, st4) = (gv5, st5)" by fastforce
  define st6 where "st6 = note_drops (now_us e) x (gv_dropped gv5) st5"
  let ?Q = "frame_effect V x d"
  have "speaks ?Q st st2" using o by (rule speaks_refl)
  also have 3: "speaks ?Q st2 st3" unfolding st3_def using v(2) by (intro speaks_fold speaks_abort) (simp add: list_all_iff)
  finally (speaks_trans) have "speaks ?Q st st3" .
  also have "speaks ?Q st3 st4" unfolding st4_def using v(3) by (intro speaks_fold speaks_abort) (simp add: list_all_iff)
  finally (speaks_trans) have "speaks ?Q st st4" .
  also have "speaks ?Q st4 st5" using speaks_send_to_viewers [OF v(1), of x d "(gv, st4)" e] s by simp
  finally (speaks_trans) have "speaks ?Q st st5" .
  also have "speaks ?Q st5 st6" unfolding st6_def by (rule speaks_refl) simp
  finally (speaks_trans) have "speaks ?Q st st6" .
  moreover have "speaks ?Q st (request_keyframe_from_sharer e x 0 st6)"
    by (rule speaks_trans [OF \<open>speaks ?Q st st6\<close> speaks_request])
  ultimately show ?thesis
    unfolding forward_to_viewers_def Let_def gv0_def [symmetric] g prod.case st3_def [symmetric] st4_def [symmetric] s
      st6_def [symmetric] by simp
qed

text \<open>(C14) A video frame only ever reaches its audience: whatever forwarding a frame hands to the transport is the
  frame itself, whole and tagged with its stream, for a live signed-in session in the publisher's
  channel that watches the stream and is not the publisher; an abort of older frames of such a session;
  or a keyframe request.\<close>

theorem frames_reach_viewers_only:
  assumes "get_session i st = Some s"
  shows "\<exists>es. out (forward_video_frame e i k d st) = out st @ es
    \<and> (\<forall>ef \<in> set es. case ef of
          FrameStream j h b \<Rightarrow> j \<in> set (sessions st) \<and> is_viewer i (s_channel s) (video_stream_id (s_user_id s) k) (objs st j)
            \<and> b = STREAM_TYPE_VIDEO_FRAME # le32 (video_stream_id (s_user_id s) k) @ d
        | LegacyVideo j b \<Rightarrow> j \<in> set (sessions st) \<and> is_viewer i (s_channel s) (video_stream_id (s_user_id s) k) (objs st j)
            \<and> b = le32 (of_nat (5 + length d)) @ VIDEO_FRAME_PACKET_TYPE # le32 (video_stream_id (s_user_id s) k) @ d
        | AbortSend j h \<Rightarrow> j \<in> set (sessions st) \<and> is_viewer i (s_channel s) (video_stream_id (s_user_id s) k) (objs st j)
        | AbortStream j h \<Rightarrow> j \<in> set (sessions st) \<and> is_viewer i (s_channel s) (video_stream_id (s_user_id s) k) (objs st j)
        | Datagram j b pr \<Rightarrow> b = [VIDEO_CONTROL_TYPE, VIDEO_CTL_PLI] @ le32 0 @ le32 (video_stream_id (s_user_id s) k)
        | _ \<Rightarrow> False)"
proof -
  let ?x = "video_stream_id (s_user_id s) k"
  let ?V = "\<lambda>j. j \<in> set (sessions st) \<and> is_viewer i (s_channel s) ?x (objs st j)"
  have "speaks (frame_effect ?V ?x d) st (forward_to_viewers e i (s_channel s) ?x hdr rates h (le32 ?x @ d) (st\<lparr>sharer_states := m\<rparr>))"
    for hdr rates h m
    using speaks_forward [of "st\<lparr>sharer_states := m\<rparr>" i "s_channel s" ?x ?V d e hdr rates h] by (simp add: speaks_def)
  then have "speaks (frame_effect ?V ?x d) st (forward_video_frame e i k d st)"
    unfolding forward_video_frame_def by (simp add: assms Let_def speaks_refl split: option.split)
  then show ?thesis unfolding speaks_def list_all_iff frame_effect_def conj_assoc .
qed

text \<open>In the room the first client shares its screen and the second one watches.\<close>

definition demo_watch :: srv where
  "demo_watch = handle_share_view demo_env 2 (le32 1) (handle_share_start 1 [1, 0, 5, 208, 2] demo_room)"

lemma demo_watch_sessions: "sessions demo_watch = [1, 2]"
  using demo_room_facts(1) seatsD(1) [OF seats_handlers(11)] seatsD(1) [OF seats_handlers(9)] by (simp add: demo_watch_def)

theorem frames_reach_viewers_only_witness:
  "\<exists>es. out (forward_video_frame demo_env 1 Screen [1, 2, 3] demo_watch) = out demo_watch @ es
     \<and> list_all (\<lambda>ef. case ef of FrameStream j h b \<Rightarrow> j \<in> {1, 2} | Control j ty b \<Rightarrow> False | _ \<Rightarrow> True) es"
proof -
  have "get_session 1 demo_watch = Some (objs demo_watch 1)" by (simp add: get_session_def demo_watch_sessions)
  from frames_reach_viewers_only [OF this, of demo_env Screen "[1, 2, 3]"]
  obtain es where "out (forward_video_frame demo_env 1 Screen [1, 2, 3] demo_watch) = out demo_watch @ es"
    and "\<forall>ef \<in> set es. case ef of FrameStream j h b \<Rightarrow> j \<in> {1, 2} | Control j ty b \<Rightarrow> False | _ \<Rightarrow> True"
    by (fastforce simp: demo_watch_sessions split: effect.splits)
  then show ?thesis by (auto simp: list_all_iff)
qed

end
