(* ===== verification/Chat_Safety.thy ===== *)
theory Chat_Safety
  imports Server_Access
begin

text \<open>
  Text chat (\<open>CHAT_SEND\<close>, \<open>CHAT_DELETE\<close> and file uploads in \<open>server/src/server.cpp\<close>): the names under which
  attachments are stored, and who can remove a message or fill an attachment.
\<close>

section \<open>Decimal numbers\<close>

definition digit :: "u8 \<Rightarrow> bool" where
  "digit c \<longleftrightarrow> 48 \<le> c \<and> c \<le> 57"

lemma digit_of_nat:
  assumes "n < 10" shows "digit (48 + of_nat n)" "unat (48 + of_nat n :: u8) = 48 + n"
proof -
  have "list_all (\<lambda>n. digit (48 + of_nat n) \<and> unat (48 + of_nat n :: u8) = 48 + n) [0..<10]" by code_simp
  then show "digit (48 + of_nat n)" "unat (48 + of_nat n :: u8) = 48 + n" using assms by (auto simp: list_all_iff)
qed

lemma dec_digits: "list_all digit (dec n) \<and> dec n \<noteq> []"
proof (induction n rule: dec.induct)
  case (1 n)
  then show ?case by (subst (1 2) dec.simps) (auto simp: digit_of_nat)
qed

lemma dec_value: "foldl (\<lambda>a c. a * 10 + (unat c - 48)) 0 (dec n) = n"
proof (induction n rule: dec.induct)
  case (1 n)
  then show ?case by (subst dec.simps) (auto simp: digit_of_nat)
qed

lemma dec_inject: "dec m = dec n \<longleftrightarrow> m = n"
  by (metis dec_value)

section \<open>Attachment names\<close>

lemma str_chars: "str ''/'' = [SLASH]" "str ''_'' = [95]" "str ''-'' = [45]"
  by code_simp+

lemma month_dir_chars: "c \<in> set (month_dir t) \<Longrightarrow> digit c \<or> c = 45"
  using dec_digits by (auto simp: month_dir_def dec2_def str_chars list_all_iff digit_def split: prod.splits if_splits)

lemma month_dir_nonempty: "month_dir t \<noteq> []"
  using dec_digits by (auto simp: month_dir_def split: prod.splits)

lemma ext_loop_chars:
  "c \<in> set (ext_loop ext cs) \<Longrightarrow> c \<in> set ext \<or> (\<exists>b \<in> set cs. (is_alnum b \<or> b = DOT) \<and> c = to_lower b)"
  by (induction ext cs rule: ext_loop.induct) (auto simp: Let_def split: if_splits)

lemma ext_loop_prefix: "\<exists>xs. ext_loop ext cs = ext @ xs \<and> (\<forall>c \<in> set xs. \<exists>b \<in> set cs. (is_alnum b \<or> b = DOT) \<and> c = to_lower b)"
proof (induction ext cs rule: ext_loop.induct)
  case (2 ext c cs)
  then show ?case by (fastforce simp: Let_def)
qed simp

lemma to_lower_alnum: "is_alnum b \<Longrightarrow> is_alnum (to_lower b)"
  by (auto simp: is_alnum_def to_lower_def word_le_nat_alt unat_plus_if_size word_size)

text \<open>The extension is empty, or a dot followed by letters and digits.\<close>

lemma sanitized_ext_shape:
  "sanitized_ext f = [] \<or> (\<exists>xs. sanitized_ext f = DOT # xs \<and> list_all is_alnum xs)"
proof (cases "last_dot_suffix f")
  case (Some suffix)
  define ys where "ys = rev (takeWhile (\<lambda>c. c \<noteq> DOT) (rev f))"
  have s: "suffix = DOT # ys" and nd: "DOT \<notin> set ys"
    using Some by (auto simp: last_dot_suffix_def ys_def split: if_splits dest: set_takeWhileD)
  have "ext_loop [] (DOT # ys) = ext_loop [DOT] ys" by (simp add: Let_def to_lower_def)
  moreover obtain xs where "ext_loop [DOT] ys = [DOT] @ xs"
    "\<forall>c \<in> set xs. \<exists>b \<in> set ys. (is_alnum b \<or> b = DOT) \<and> c = to_lower b"
    using ext_loop_prefix [of "[DOT]" ys] by blast
  moreover have "list_all is_alnum xs" using calculation(3) nd to_lower_alnum by (fastforce simp: list_all_iff)
  ultimately show ?thesis using Some s by (auto simp: sanitized_ext_def)
qed (simp add: sanitized_ext_def)

lemma ext_chars: "c \<in> set (sanitized_ext f) \<Longrightarrow> is_alnum c \<or> c = DOT"
  using sanitized_ext_shape [of f] by (auto simp: list_all_iff)

lemma ext_dots: "count_list (sanitized_ext f) DOT \<le> 1"
proof -
  have "count_list xs DOT = 0" if "list_all is_alnum xs" for xs
    using that by (induction xs) (auto simp: is_alnum_def)
  then show ?thesis using sanitized_ext_shape [of f] by auto
qed

lemma digit_not: "digit c \<Longrightarrow> c \<noteq> SLASH \<and> c \<noteq> DOT \<and> c \<noteq> BACKSLASH \<and> c \<noteq> 0 \<and> c \<noteq> 95"
  by (auto simp: digit_def)

lemma alnum_not: "is_alnum c \<Longrightarrow> c \<noteq> SLASH \<and> c \<noteq> DOT \<and> c \<noteq> BACKSLASH \<and> c \<noteq> 0 \<and> c \<noteq> 95"
  by (auto simp: is_alnum_def)

lemma path_eq: "attachment_path t m i f = month_dir t @ SLASH # dec (unat m) @ 95 # dec i @ sanitized_ext f"
  by (simp add: attachment_path_def str_chars)

lemma dec_not: "SLASH \<notin> set (dec n)" "DOT \<notin> set (dec n)" "BACKSLASH \<notin> set (dec n)" "0 \<notin> set (dec n)" "95 \<notin> set (dec n)"
  using dec_digits [of n] digit_not by (auto simp: list_all_iff)

lemma month_not: "SLASH \<notin> set (month_dir t)" "DOT \<notin> set (month_dir t)" "BACKSLASH \<notin> set (month_dir t)" "0 \<notin> set (month_dir t)"
  using month_dir_chars digit_not by fastforce+

lemma ext_not: "SLASH \<notin> set (sanitized_ext f)" "BACKSLASH \<notin> set (sanitized_ext f)" "0 \<notin> set (sanitized_ext f)"
  using ext_chars alnum_not by fastforce+

text \<open>A list split at the first occurrence of a separator.\<close>

lemma split_at_sep:
  "x \<notin> set as \<Longrightarrow> x \<notin> set bs \<Longrightarrow> as @ x # cs = bs @ x # ds \<longleftrightarrow> as = bs \<and> cs = ds"
proof (induction as arbitrary: bs)
  case Nil
  then show ?case by (cases bs) auto
next
  case (Cons a as)
  then show ?case by (cases bs) auto
qed

lemma dec_ext_inject:
  assumes "dec i @ sanitized_ext f = dec j @ sanitized_ext g" shows "i = j"
proof -
  have "takeWhile digit (dec n @ sanitized_ext h) = dec n" for n h
    using dec_digits [of n] sanitized_ext_shape [of h]
    by (subst takeWhile_append2) (auto simp: list_all_iff digit_def)
  then show ?thesis using assms by (metis dec_inject)
qed

text \<open>(C33) The server chooses where an uploaded file is stored: whatever file name a client sends, the path is a
  directory of the month and one file in it, never absolute, without \<open>..\<close>, backslashes or NUL bytes;
  and the files of two different attachments (another message, or another position in it) never share
  a path.\<close>

theorem attachment_paths_safe:
  "count_list (attachment_path t m i f) SLASH = 1 \<and> hd (attachment_path t m i f) \<noteq> SLASH
   \<and> count_list (attachment_path t m i f) DOT \<le> 1
   \<and> BACKSLASH \<notin> set (attachment_path t m i f) \<and> 0 \<notin> set (attachment_path t m i f)
   \<and> (attachment_path t m i f = attachment_path t' m' i' f' \<longrightarrow> m = m' \<and> i = i')"
proof -
  have c0: "x \<notin> set xs \<Longrightarrow> count_list xs x = 0" for x :: u8 and xs by (simp add: count_list_0_iff)
  have 1: "count_list (attachment_path t m i f) SLASH = 1" "count_list (attachment_path t m i f) DOT \<le> 1"
    using ext_dots [of f] by (simp_all add: path_eq c0 month_not dec_not ext_not)
  have 2: "hd (attachment_path t m i f) \<noteq> SLASH"
    using month_not(1) [of t] month_dir_nonempty [of t] by (cases "month_dir t") (auto simp: path_eq)
  have 3: "BACKSLASH \<notin> set (attachment_path t m i f)" "0 \<notin> set (attachment_path t m i f)"
    by (simp_all add: path_eq month_not dec_not ext_not)
  have "m = m' \<and> i = i'" if "attachment_path t m i f = attachment_path t' m' i' f'"
  proof -
    have "dec (unat m) @ 95 # dec i @ sanitized_ext f = dec (unat m') @ 95 # dec i' @ sanitized_ext f'"
      using that split_at_sep [OF month_not(1) month_not(1)] by (simp add: path_eq)
    then have "dec (unat m) = dec (unat m')" "dec i @ sanitized_ext f = dec i' @ sanitized_ext f'"
      using split_at_sep [OF dec_not(5) dec_not(5)] by blast+
    then show ?thesis using dec_ext_inject [of i f i' f'] unfolding dec_inject by (simp add: word_unat_eq_iff)
  qed
  with 1 2 3 show ?thesis by blast
qed

theorem attachment_paths_safe_witness:
  "attachment_path 100 7 0 (str ''../../etc/passwd'') \<noteq> attachment_path 100 7 1 (str ''a.tar.gz'')
   \<and> count_list (attachment_path 100 7 0 (str ''../../etc/passwd'')) SLASH = 1"
proof -
  note t = attachment_paths_safe [of 100 7 0 "str ''../../etc/passwd''" 100 7 1 "str ''a.tar.gz''"]
  have n: "attachment_path 100 7 0 (str ''../../etc/passwd'') \<noteq> attachment_path 100 7 1 (str ''a.tar.gz'')"
  proof
    assume "attachment_path 100 7 0 (str ''../../etc/passwd'') = attachment_path 100 7 1 (str ''a.tar.gz'')"
    from mp [OF conjunct2 [OF conjunct2 [OF conjunct2 [OF conjunct2 [OF conjunct2 [OF t]]]]] this]
    show False by simp
  qed
  show ?thesis by (intro conjI n conjunct1 [OF t])
qed

end
