(* ===== verification/Send_Controller.thy ===== *)
theory Send_Controller
  imports Float64
begin

text \<open>
  \<open>common/include/parties/video_send_controller.h\<close> and \<open>common/src/video_send_controller.cpp\<close>: the sharer's
  congestion control (admission at capture, and bitrate adaptation over windows), with the rate
  control policy of \<open>encdec/include/encdec/rate_control.h\<close> that consumes its bitrate. One record holds the
  object; \<open>uint32_t\<close> and \<open>uint64_t\<close> members are words, times and byte counts integers, doubles rationals
  rounded after each operation (\<open>Float64\<close>). Each member function is one operation on the record. The
  lock-free members are single atomic accesses, except \<open>on_completed\<close>, whose subtraction and clamping loop
  are the two steps \<open>sub_outstanding\<close> and \<open>clamp_outstanding\<close>.
\<close>

section \<open>Configuration and state\<close>

definition VIDEO_MAX_BITRATE :: u32 where "VIDEO_MAX_BITRATE = 20000000"
definition VIDEO_DEFAULT_BITRATE :: u32 where "VIDEO_DEFAULT_BITRATE = 2000000"
definition VIDEO_MIN_BITRATE :: u32 where "VIDEO_MIN_BITRATE = 200000"
definition VIDEO_ADAPT_MIN_BITRATE :: u32 where "VIDEO_ADAPT_MIN_BITRATE = 800000"

record send_cfg =
  target_bitrate_bps :: u32
  min_bitrate_bps :: u32
  queue_budget_ms :: u32
  congestion_queue_ms :: u32
  admission_drop_ratio :: double
  sc_window_ms :: u32
  congested_limit :: u32
  clean_limit :: u32
  decrease_factor :: double
  goodput_factor :: double
  increase_factor :: double
  default_rtt_us :: u32
  min_reconfigure_ms :: u32
  min_reconfigure_delta :: double

definition default_send_cfg :: send_cfg where
  "default_send_cfg = \<lparr>target_bitrate_bps = VIDEO_DEFAULT_BITRATE, min_bitrate_bps = VIDEO_ADAPT_MIN_BITRATE,
     queue_budget_ms = 120, congestion_queue_ms = 100, admission_drop_ratio = fl (2 / 10), sc_window_ms = 500,
     congested_limit = 2, clean_limit = 2, decrease_factor = fl (85 / 100), goodput_factor = fl (9 / 10),
     increase_factor = fl (110 / 100), default_rtt_us = 50000, min_reconfigure_ms = 500,
     min_reconfigure_delta = fl (10 / 100)\<rparr>"

record send_ctl =
  sc_cfg :: send_cfg
  sc_outstanding :: int
  allowance_bytes :: int
  bitrate_bps :: u32
  pending_bitrate :: u32
  admission_drops :: u32
  admission_drops_window :: u32
  admitted_window :: u32
  completed_bytes_window :: int
  send_failures :: u32
  encoder_drops_window :: u32
  keyframe_request :: bool
  sc_rtt_us :: u32
  rtt_block_min_us :: u32
  rtt_prev_block_min_us :: u32
  rtt_block_start_us :: int
  window_start_us :: int
  congested_windows :: u32
  clean_windows :: u32
  last_queue_delay_ms :: u32
  peak_queue_delay_ms :: u32
  min_queue_delay_ms :: u32
  queue_sampled :: bool
  last_goodput_bps :: u32
  last_loss_ratio :: double
  have_stats :: bool
  last_suspected_lost :: u64
  last_spurious_lost :: u64
  last_sent_packets :: u64
  window_lost :: u64
  window_sent :: u64
  published_bitrate :: u32
  last_publish_us :: int
  decreases :: u32

definition NO_WINDOW :: int where "NO_WINDOW = -1"

section \<open>Helpers\<close>

text \<open>\<open>std::llround\<close>: to the nearest integer, halves away from zero.\<close>

definition llround :: "double \<Rightarrow> int" where
  "llround x = (if x < 0 then - \<lfloor>- x + 1 / 2\<rfloor> else \<lfloor>x + 1 / 2\<rfloor>)"

definition MAX_U32 :: double where "MAX_U32 = 4294967295"

definition scale_bitrate :: "u32 \<Rightarrow> double \<Rightarrow> u32" where
  "scale_bitrate bps factor =
     (let scaled = fl (of_int (uint bps) * factor)
      in if scaled \<le> 0 then 0 else if scaled \<ge> MAX_U32 then 4294967295 else word_of_int (llround scaled))"

definition queue_delay_ms :: "int \<Rightarrow> u32 \<Rightarrow> u32 \<Rightarrow> u32" where
  "queue_delay_ms outst bitrate rtt_us =
     (if bitrate = 0 \<or> outst \<le> 0 then 0
      else
        let drain_ms = fl (fl (fl (double_of_int outst * 8) * 1000) / of_int (uint bitrate));
            rtt_ms = fl (of_int (uint rtt_us) / 1000);
            delay = fl (drain_ms - rtt_ms)
        in if delay \<le> 0 then 0 else if delay \<ge> MAX_U32 then 4294967295 else word_of_int (int_of_double delay))"

definition in_flight_time_us :: "u32 \<Rightarrow> double \<Rightarrow> u32" where
  "in_flight_time_us rtt_us loss_ratio =
     (let extra_rtts = max 0 (min (fl (loss_ratio * 30)) (3 / 2))
      in word_of_int (int_of_double (fl (of_int (uint rtt_us) * fl (1 + extra_rtts)))))"

definition outstanding_bytes :: "send_ctl \<Rightarrow> int" where
  "outstanding_bytes c = (if sc_outstanding c < 0 then 0 else sc_outstanding c)"

text \<open>The allowance; both divisions truncate, and their operands are not negative.\<close>

definition allowance_of :: "send_ctl \<Rightarrow> int" where
  "allowance_of c =
     (let horizon_us = uint (in_flight_time_us (sc_rtt_us c) (last_loss_ratio c))
                       + uint (queue_budget_ms (sc_cfg c)) * 1000
      in uint (bitrate_bps c) * horizon_us div 8 div 1000000)"

definition refresh_allowance :: "send_ctl \<Rightarrow> send_ctl" where
  "refresh_allowance c = c\<lparr>allowance_bytes := allowance_of c\<rparr>"

definition floor_bps :: "send_cfg \<Rightarrow> u32" where
  "floor_bps cfg = min (min_bitrate_bps cfg) (target_bitrate_bps cfg)"

definition publish_bitrate_if_needed :: "int \<Rightarrow> bool \<Rightarrow> send_ctl \<Rightarrow> send_ctl" where
  "publish_bitrate_if_needed now forced c =
     (let current = bitrate_bps c; cfg = sc_cfg c; published = published_bitrate c;
          at_bound = (current = target_bitrate_bps cfg \<or> current = floor_bps cfg);
          delta = fl (\<bar>fl (of_int (uint current) - of_int (uint published))\<bar> / of_int (uint published));
          skip = (\<not> forced \<and>
                  (current = published
                   \<or> published \<noteq> 0 \<and> \<not> at_bound \<and> delta < min_reconfigure_delta cfg
                   \<or> now - last_publish_us c < uint (min_reconfigure_ms cfg) * 1000))
      in if skip then c
         else c\<lparr>published_bitrate := current, last_publish_us := now, pending_bitrate := current\<rparr>)"

section \<open>Operations\<close>

definition usable_cfg :: "send_cfg \<Rightarrow> send_cfg" where
  "usable_cfg cfg =
     cfg\<lparr>target_bitrate_bps := (if target_bitrate_bps cfg = 0 then 1 else target_bitrate_bps cfg),
         sc_window_ms := (if sc_window_ms cfg = 0 then 1 else sc_window_ms cfg),
         congested_limit := (if congested_limit cfg = 0 then 1 else congested_limit cfg),
         clean_limit := (if clean_limit cfg = 0 then 1 else clean_limit cfg)\<rparr>"

text \<open>\<open>reset\<close> re-seeds everything but the outstanding bytes.\<close>

definition sc_reset :: "send_cfg \<Rightarrow> send_ctl \<Rightarrow> send_ctl" where
  "sc_reset cfg0 c =
     (let cfg = usable_cfg cfg0
      in publish_bitrate_if_needed 0 True (refresh_allowance
           \<lparr>sc_cfg = cfg, sc_outstanding = sc_outstanding c, allowance_bytes = allowance_bytes c,
            bitrate_bps = target_bitrate_bps cfg, pending_bitrate = 0, admission_drops = 0,
            admission_drops_window = 0, admitted_window = 0, completed_bytes_window = 0, send_failures = 0,
            encoder_drops_window = 0, keyframe_request = False, sc_rtt_us = default_rtt_us cfg,
            rtt_block_min_us = 0, rtt_prev_block_min_us = 0, rtt_block_start_us = 0,
            window_start_us = NO_WINDOW, congested_windows = 0, clean_windows = 0, last_queue_delay_ms = 0,
            peak_queue_delay_ms = 0, min_queue_delay_ms = 0, queue_sampled = False, last_goodput_bps = 0,
            last_loss_ratio = 0, have_stats = False, last_suspected_lost = 0, last_spurious_lost = 0,
            last_sent_packets = 0, window_lost = 0, window_sent = 0, published_bitrate = 0,
            last_publish_us = 0, decreases = 0\<rparr>))"

text \<open>The members before the constructor's \<open>reset\<close>.\<close>

definition blank_send_ctl :: send_ctl where
  "blank_send_ctl =
     \<lparr>sc_cfg = default_send_cfg, sc_outstanding = 0, allowance_bytes = 0, bitrate_bps = 0, pending_bitrate = 0,
      admission_drops = 0, admission_drops_window = 0, admitted_window = 0, completed_bytes_window = 0,
      send_failures = 0, encoder_drops_window = 0, keyframe_request = False, sc_rtt_us = 0,
      rtt_block_min_us = 0, rtt_prev_block_min_us = 0, rtt_block_start_us = 0, window_start_us = 0,
      congested_windows = 0, clean_windows = 0, last_queue_delay_ms = 0, peak_queue_delay_ms = 0,
      min_queue_delay_ms = 0, queue_sampled = False, last_goodput_bps = 0, last_loss_ratio = 0,
      have_stats = False, last_suspected_lost = 0, last_spurious_lost = 0, last_sent_packets = 0,
      window_lost = 0, window_sent = 0, published_bitrate = 0, last_publish_us = 0, decreases = 0\<rparr>"

definition new_send_ctl :: "send_cfg \<Rightarrow> send_ctl" where
  "new_send_ctl cfg = sc_reset cfg blank_send_ctl"

definition clear_outstanding :: "send_ctl \<Rightarrow> send_ctl" where
  "clear_outstanding c = c\<lparr>sc_outstanding := 0\<rparr>"

definition set_target_bitrate :: "u32 \<Rightarrow> send_ctl \<Rightarrow> send_ctl" where
  "set_target_bitrate bps c =
     (if bps = 0 then c
      else let c1 = c\<lparr>sc_cfg := (sc_cfg c)\<lparr>target_bitrate_bps := bps\<rparr>\<rparr>
           in if bitrate_bps c > bps
              then publish_bitrate_if_needed (last_publish_us c) True
                     (refresh_allowance (c1\<lparr>bitrate_bps := bps\<rparr>))
              else c1)"

definition on_enqueued :: "nat \<Rightarrow> send_ctl \<Rightarrow> send_ctl" where
  "on_enqueued n c = c\<lparr>sc_outstanding := sc_outstanding c + int n\<rparr>"

definition sub_outstanding :: "nat \<Rightarrow> send_ctl \<Rightarrow> send_ctl" where
  "sub_outstanding n c = c\<lparr>completed_bytes_window := completed_bytes_window c + int n,
                          sc_outstanding := sc_outstanding c - int n\<rparr>"

text \<open>The compare-and-swap loop ends by storing zero over a negative value or by seeing a value that is not
  negative.\<close>

definition clamp_outstanding :: "send_ctl \<Rightarrow> send_ctl" where
  "clamp_outstanding c = (if sc_outstanding c < 0 then c\<lparr>sc_outstanding := 0\<rparr> else c)"

definition on_completed :: "nat \<Rightarrow> send_ctl \<Rightarrow> send_ctl" where
  "on_completed n c = clamp_outstanding (sub_outstanding n c)"

definition sc_on_send_failed :: "send_ctl \<Rightarrow> send_ctl" where
  "sc_on_send_failed c = c\<lparr>send_failures := send_failures c + 1,
     encoder_drops_window := encoder_drops_window c + 1, keyframe_request := True\<rparr>"

definition on_encoder_drop :: "send_ctl \<Rightarrow> send_ctl" where
  "on_encoder_drop c = c\<lparr>encoder_drops_window := encoder_drops_window c + 1\<rparr>"

definition admit_frame :: "send_ctl \<Rightarrow> bool \<times> send_ctl" where
  "admit_frame c =
     (if sc_outstanding c \<le> allowance_bytes c then (True, c\<lparr>admitted_window := admitted_window c + 1\<rparr>)
      else (False, c\<lparr>admission_drops := admission_drops c + 1,
                     admission_drops_window := admission_drops_window c + 1\<rparr>))"

definition note_loss :: "u64 \<Rightarrow> u64 \<Rightarrow> u64 \<Rightarrow> send_ctl \<Rightarrow> send_ctl" where
  "note_loss suspected spurious sent c =
     (let d_suspected = (if suspected \<ge> last_suspected_lost c then suspected - last_suspected_lost c else 0);
          d_spurious = (if spurious \<ge> last_spurious_lost c then spurious - last_spurious_lost c else 0);
          d_sent = (if sent \<ge> last_sent_packets c then sent - last_sent_packets c else 0);
          c1 = (if have_stats c
                then c\<lparr>window_lost := window_lost c + (if d_suspected > d_spurious then d_suspected - d_spurious else 0),
                       window_sent := window_sent c + d_sent\<rparr>
                else c)
      in c1\<lparr>have_stats := True, last_suspected_lost := suspected, last_spurious_lost := spurious,
            last_sent_packets := sent\<rparr>)"

definition note_rtt :: "int \<Rightarrow> u32 \<Rightarrow> send_ctl \<Rightarrow> send_ctl" where
  "note_rtt now rtt c =
     (if rtt = 0 then c
      else
        let c1 = (if rtt_block_start_us c = 0 then c\<lparr>rtt_block_start_us := now\<rparr> else c);
            c2 = (if now - rtt_block_start_us c1 \<ge> 5000000
                  then c1\<lparr>rtt_prev_block_min_us := rtt_block_min_us c1, rtt_block_min_us := 0,
                          rtt_block_start_us := now\<rparr>
                  else c1);
            c3 = (if rtt_block_min_us c2 = 0 \<or> rtt < rtt_block_min_us c2 then c2\<lparr>rtt_block_min_us := rtt\<rparr> else c2)
        in c3\<lparr>sc_rtt_us := (if rtt_prev_block_min_us c3 = 0 then rtt_block_min_us c3
                            else min (rtt_block_min_us c3) (rtt_prev_block_min_us c3))\<rparr>)"

definition on_connection_stats :: "int \<Rightarrow> u32 \<Rightarrow> u64 \<Rightarrow> u64 \<Rightarrow> u64 \<Rightarrow> send_ctl \<Rightarrow> send_ctl" where
  "on_connection_stats now rtt suspected spurious sent c =
     refresh_allowance (note_rtt now rtt (note_loss suspected spurious sent c))"

section \<open>The tick\<close>

definition sample_queue :: "int \<Rightarrow> send_ctl \<Rightarrow> send_ctl" where
  "sample_queue now c0 =
     (let c = (if window_start_us c0 = NO_WINDOW then c0\<lparr>window_start_us := now\<rparr> else c0);
          d = queue_delay_ms (outstanding_bytes c) (bitrate_bps c) (in_flight_time_us (sc_rtt_us c) (last_loss_ratio c))
      in c\<lparr>last_queue_delay_ms := d, peak_queue_delay_ms := max (peak_queue_delay_ms c) d,
           min_queue_delay_ms := (if queue_sampled c then min (min_queue_delay_ms c) d else d),
           queue_sampled := True\<rparr>)"

definition goodput_of :: "int \<Rightarrow> int \<Rightarrow> u32" where
  "goodput_of completed span_us =
     (let window_s = fl (double_of_int span_us / 1000000)
      in if window_s > 0
         then word_of_int (int_of_double (min MAX_U32 (fl (fl (double_of_int completed * 8) / window_s))))
         else 0)"

text \<open>Closing the window: its measurements, then its classification.\<close>

definition measure_window :: "int \<Rightarrow> send_ctl \<Rightarrow> send_ctl" where
  "measure_window now c =
     c\<lparr>last_loss_ratio := (if window_sent c > 0
                           then fl (double_of_int (uint (window_lost c)) / double_of_int (uint (window_sent c))) else 0),
       last_goodput_bps := goodput_of (completed_bytes_window c) (now - window_start_us c)\<rparr>"

definition congested :: "send_ctl \<Rightarrow> bool" where
  "congested c \<longleftrightarrow>
     (let drops = admission_drops_window c; frames = drops + admitted_window c; cfg = sc_cfg c
      in queue_sampled c \<and> min_queue_delay_ms c \<ge> congestion_queue_ms cfg
         \<or> frames > 0 \<and> of_int (uint drops) > fl (admission_drop_ratio cfg * of_int (uint frames))
         \<or> encoder_drops_window c > 0)"

definition lower_bitrate :: "send_ctl \<Rightarrow> send_ctl" where
  "lower_bitrate c =
     (let cfg = sc_cfg c; current = bitrate_bps c;
          r0 = scale_bitrate current (decrease_factor cfg);
          r1 = (if last_goodput_bps c > 0 then min r0 (scale_bitrate (last_goodput_bps c) (goodput_factor cfg)) else r0);
          reduced = max (floor_bps cfg) r1
      in if reduced < current then c\<lparr>bitrate_bps := reduced, decreases := decreases c + 1\<rparr> else c)"

definition raise_bitrate :: "send_ctl \<Rightarrow> send_ctl" where
  "raise_bitrate c =
     (let cfg = sc_cfg c; current = bitrate_bps c;
          r0 = scale_bitrate current (increase_factor cfg);
          r1 = (if r0 \<le> current \<and> current < target_bitrate_bps cfg then current + 1 else r0);
          raised = min r1 (target_bitrate_bps cfg)
      in if raised > current then c\<lparr>bitrate_bps := raised\<rparr> else c)"

definition adapt :: "bool \<Rightarrow> send_ctl \<Rightarrow> send_ctl" where
  "adapt cong c =
     (if cong then
        (let c1 = c\<lparr>clean_windows := 0, congested_windows := congested_windows c + 1\<rparr>
         in if congested_windows c1 \<ge> congested_limit (sc_cfg c1)
            then lower_bitrate (c1\<lparr>congested_windows := 0\<rparr>) else c1)
      else
        (let c1 = c\<lparr>congested_windows := 0, clean_windows := clean_windows c + 1\<rparr>
         in if clean_windows c1 \<ge> clean_limit (sc_cfg c1)
            then raise_bitrate (c1\<lparr>clean_windows := 0\<rparr>) else c1))"

definition open_window :: "int \<Rightarrow> send_ctl \<Rightarrow> send_ctl" where
  "open_window now c =
     c\<lparr>window_start_us := now, peak_queue_delay_ms := 0, min_queue_delay_ms := 0, queue_sampled := False,
       window_lost := 0, window_sent := 0, admission_drops_window := 0, admitted_window := 0,
       encoder_drops_window := 0, completed_bytes_window := 0\<rparr>"

definition sc_tick :: "int \<Rightarrow> send_ctl \<Rightarrow> send_ctl" where
  "sc_tick now c =
     (let c1 = sample_queue now c;
          c2 = (if now - window_start_us c1 \<ge> uint (sc_window_ms (sc_cfg c1)) * 1000
                then (let m = measure_window now c1 in open_window now (adapt (congested m) m))
                else c1)
      in publish_bitrate_if_needed now False (refresh_allowance c2))"

section \<open>The encoder's side\<close>

definition take_bitrate_update :: "send_ctl \<Rightarrow> u32 option \<times> send_ctl" where
  "take_bitrate_update c =
     (if pending_bitrate c = 0 then None else Some (pending_bitrate c), c\<lparr>pending_bitrate := 0\<rparr>)"

definition take_keyframe_request :: "send_ctl \<Rightarrow> bool \<times> send_ctl" where
  "take_keyframe_request c = (keyframe_request c, c\<lparr>keyframe_request := False\<rparr>)"

record send_stats =
  st_bitrate_bps :: u32
  st_outstanding_bytes :: int
  st_rtt_us :: u32
  st_queue_delay_ms :: u32
  st_goodput_bps :: u32
  st_loss_ratio :: double
  st_admission_drops :: u32
  st_send_failures :: u32
  st_decreases :: u32

definition sc_stats :: "send_ctl \<Rightarrow> send_stats" where
  "sc_stats c = \<lparr>st_bitrate_bps = bitrate_bps c, st_outstanding_bytes = outstanding_bytes c, st_rtt_us = sc_rtt_us c,
     st_queue_delay_ms = last_queue_delay_ms c, st_goodput_bps = last_goodput_bps c, st_loss_ratio = last_loss_ratio c,
     st_admission_drops = admission_drops c, st_send_failures = send_failures c, st_decreases = decreases c\<rparr>"

record stream_rate_control =
  average_bitrate :: u32
  peak_bitrate :: u32
  vbv_buffer_size :: u32
  vbv_initial_delay :: u32
  max_frame_bits :: u32

definition STREAM_VBV_MIN_BITS :: u32 where "STREAM_VBV_MIN_BITS = 50000"
definition STREAM_VBV_FRAMES :: u32 where "STREAM_VBV_FRAMES = 2"

definition saturate_u32 :: "u64 \<Rightarrow> u32" where
  "saturate_u32 v = (if v > 4294967295 then 4294967295 else ucast v)"

definition make_stream_cbr_rate_control :: "u32 \<Rightarrow> u32 \<Rightarrow> stream_rate_control" where
  "make_stream_cbr_rate_control bitrate fps =
     (let safe_fps = (if fps = 0 then 30 else fps);
          per_frame = (ucast bitrate :: u64) div ucast safe_fps;
          vbv0 = saturate_u32 (per_frame * ucast STREAM_VBV_FRAMES);
          vbv = (if vbv0 < STREAM_VBV_MIN_BITS then STREAM_VBV_MIN_BITS else vbv0)
      in \<lparr>average_bitrate = bitrate, peak_bitrate = bitrate, vbv_buffer_size = vbv, vbv_initial_delay = vbv,
          max_frame_bits = vbv\<rparr>)"

end
