(* ===== verification/Send_Control_Proofs.thy ===== *)
theory Send_Control_Proofs
  imports Send_Controller
begin

text \<open>
  What the send controller promises: the adapted bitrate stays between its bounds, the outstanding bytes are
  exactly those of unfinished sends, admission bounds the queue, and a clean link brings the bitrate
  back to the user's target.
\<close>

section \<open>What the operations leave alone\<close>

text \<open>The parts of a controller the invariant is about.\<close>

definition face :: "send_ctl \<Rightarrow> send_cfg \<times> u32 \<times> int" where
  "face c = (sc_cfg c, bitrate_bps c, sc_outstanding c)"

lemma face_refresh [simp]: "face (refresh_allowance c) = face c"
  by (simp add: face_def refresh_allowance_def)

lemma face_publish [simp]: "face (publish_bitrate_if_needed now f c) = face c"
  by (simp add: face_def publish_bitrate_if_needed_def Let_def)

lemma face_loss [simp]: "face (note_loss a b d c) = face c"
  by (simp add: face_def note_loss_def Let_def)

lemma face_rtt [simp]: "face (note_rtt now r c) = face c"
  by (simp add: face_def note_rtt_def Let_def)

lemma face_sample [simp]: "face (sample_queue now c) = face c"
  by (simp add: face_def sample_queue_def Let_def)

lemma face_measure [simp]: "face (measure_window now c) = face c"
  by (simp add: face_def measure_window_def)

lemma face_open [simp]: "face (open_window now c) = face c"
  by (simp add: face_def open_window_def)

lemma faceD: "face c' = face c \<Longrightarrow> sc_cfg c' = sc_cfg c \<and> bitrate_bps c' = bitrate_bps c \<and> sc_outstanding c' = sc_outstanding c"
  by (simp add: face_def)

lemma lower_bitrate_face:
  "sc_cfg (lower_bitrate c) = sc_cfg c" "sc_outstanding (lower_bitrate c) = sc_outstanding c"
  "bitrate_bps (lower_bitrate c) \<le> bitrate_bps c"
  "bitrate_bps (lower_bitrate c) = bitrate_bps c \<or> floor_bps (sc_cfg c) \<le> bitrate_bps (lower_bitrate c)"
  by (auto simp: lower_bitrate_def Let_def)

lemma raise_bitrate_face:
  "sc_cfg (raise_bitrate c) = sc_cfg c" "sc_outstanding (raise_bitrate c) = sc_outstanding c"
  "bitrate_bps c \<le> bitrate_bps (raise_bitrate c)"
  "bitrate_bps (raise_bitrate c) = bitrate_bps c \<or> bitrate_bps (raise_bitrate c) \<le> target_bitrate_bps (sc_cfg c)"
  by (auto simp: raise_bitrate_def Let_def)

lemma adapt_face:
  "sc_cfg (adapt b c) = sc_cfg c" "sc_outstanding (adapt b c) = sc_outstanding c"
  "bitrate_bps (adapt b c) = bitrate_bps c
   \<or> bitrate_bps (adapt b c) \<le> bitrate_bps c \<and> floor_bps (sc_cfg c) \<le> bitrate_bps (adapt b c)
   \<or> bitrate_bps c \<le> bitrate_bps (adapt b c) \<and> bitrate_bps (adapt b c) \<le> target_bitrate_bps (sc_cfg c)"
proof -
  show "sc_cfg (adapt b c) = sc_cfg c" "sc_outstanding (adapt b c) = sc_outstanding c"
    by (simp_all add: adapt_def Let_def lower_bitrate_face raise_bitrate_face)
  have low: "bitrate_bps (lower_bitrate x) = bitrate_bps c
      \<or> bitrate_bps (lower_bitrate x) \<le> bitrate_bps c \<and> floor_bps (sc_cfg c) \<le> bitrate_bps (lower_bitrate x)"
    if "face x = face c" for x
    using lower_bitrate_face(3,4) [of x] faceD [OF that] by auto
  have up: "bitrate_bps (raise_bitrate x) = bitrate_bps c
      \<or> bitrate_bps c \<le> bitrate_bps (raise_bitrate x) \<and> bitrate_bps (raise_bitrate x) \<le> target_bitrate_bps (sc_cfg c)"
    if "face x = face c" for x
    using raise_bitrate_face(3,4) [of x] faceD [OF that] by auto
  show "bitrate_bps (adapt b c) = bitrate_bps c
   \<or> bitrate_bps (adapt b c) \<le> bitrate_bps c \<and> floor_bps (sc_cfg c) \<le> bitrate_bps (adapt b c)
   \<or> bitrate_bps c \<le> bitrate_bps (adapt b c) \<and> bitrate_bps (adapt b c) \<le> target_bitrate_bps (sc_cfg c)"
    using low [of "c\<lparr>clean_windows := 0, congested_windows := 0\<rparr>"] up [of "c\<lparr>congested_windows := 0, clean_windows := 0\<rparr>"]
    by (cases b) (auto simp: adapt_def Let_def face_def)
qed

section \<open>The allowance is current\<close>

text \<open>Every operation that changes what the allowance depends on recomputes it.\<close>

definition fresh_allowance :: "send_ctl \<Rightarrow> bool" where
  "fresh_allowance c \<longleftrightarrow> allowance_bytes c = allowance_of c"

lemma fresh_refresh [simp]: "fresh_allowance (refresh_allowance c)"
  by (simp add: fresh_allowance_def refresh_allowance_def allowance_of_def)

lemma fresh_publish [simp]: "fresh_allowance (publish_bitrate_if_needed now f c) = fresh_allowance c"
  by (simp add: fresh_allowance_def publish_bitrate_if_needed_def allowance_of_def Let_def)

lemma fresh_tick: "fresh_allowance (sc_tick now c)"
  by (simp add: sc_tick_def Let_def)

section \<open>Runs\<close>

text \<open>A controller with the sends whose completion has not been reported yet. A send is charged before it is
  handed to the transport (\<open>AppCore::send_video_frame\<close>); its completion subtracts the charge and then, as a
  separate step, clamps the counter. Targets stay between \<open>lo\<close> and \<open>hi\<close>, as \<open>AppCore\<close> clamps them.\<close>

record sender =
  ctl :: send_ctl
  in_flight :: "nat list"

inductive send_step :: "u32 \<Rightarrow> u32 \<Rightarrow> sender \<Rightarrow> sender \<Rightarrow> bool" for lo hi where
  Send: "send_step lo hi s \<lparr>ctl = on_enqueued n (ctl s), in_flight = in_flight s @ [n]\<rparr>"
| Complete: "in_flight s = xs @ n # ys \<Longrightarrow>
    send_step lo hi s \<lparr>ctl = sub_outstanding n (ctl s), in_flight = xs @ ys\<rparr>"
| Clamp: "send_step lo hi s (s\<lparr>ctl := clamp_outstanding (ctl s)\<rparr>)"
| Send_Failed: "send_step lo hi s (s\<lparr>ctl := sc_on_send_failed (ctl s)\<rparr>)"
| Encoder_Drop: "send_step lo hi s (s\<lparr>ctl := on_encoder_drop (ctl s)\<rparr>)"
| Admit: "send_step lo hi s (s\<lparr>ctl := snd (admit_frame (ctl s))\<rparr>)"
| Stats: "send_step lo hi s (s\<lparr>ctl := on_connection_stats now rtt a b d (ctl s)\<rparr>)"
| Tick: "send_step lo hi s (s\<lparr>ctl := sc_tick now (ctl s)\<rparr>)"
| Target: "lo \<le> bps \<Longrightarrow> bps \<le> hi \<Longrightarrow> send_step lo hi s (s\<lparr>ctl := set_target_bitrate bps (ctl s)\<rparr>)"
| Reset: "lo \<le> target_bitrate_bps cfg \<Longrightarrow> target_bitrate_bps cfg \<le> hi \<Longrightarrow>
    send_step lo hi s (s\<lparr>ctl := sc_reset cfg (ctl s)\<rparr>)"
| Disconnect: "in_flight s = [] \<Longrightarrow> send_step lo hi s (s\<lparr>ctl := clear_outstanding (ctl s)\<rparr>)"
| Take_Bitrate: "send_step lo hi s (s\<lparr>ctl := snd (take_bitrate_update (ctl s))\<rparr>)"
| Take_Keyframe: "send_step lo hi s (s\<lparr>ctl := snd (take_keyframe_request (ctl s))\<rparr>)"

inductive send_reach :: "u32 \<Rightarrow> u32 \<Rightarrow> sender \<Rightarrow> bool" for lo hi where
  Begin: "lo \<le> target_bitrate_bps cfg \<Longrightarrow> target_bitrate_bps cfg \<le> hi \<Longrightarrow>
    send_reach lo hi \<lparr>ctl = new_send_ctl cfg, in_flight = []\<rparr>"
| Next: "send_reach lo hi s \<Longrightarrow> send_step lo hi s s' \<Longrightarrow> send_reach lo hi s'"

inductive_cases send_stepE: "send_step lo hi s s'"

definition rate_ok :: "u32 \<Rightarrow> u32 \<Rightarrow> send_ctl \<Rightarrow> bool" where
  "rate_ok lo hi c \<longleftrightarrow> (lo \<le> bitrate_bps c \<or> min_bitrate_bps (sc_cfg c) \<le> bitrate_bps c)
     \<and> bitrate_bps c \<le> target_bitrate_bps (sc_cfg c)
     \<and> lo \<le> target_bitrate_bps (sc_cfg c) \<and> target_bitrate_bps (sc_cfg c) \<le> hi"

definition sender_inv :: "u32 \<Rightarrow> u32 \<Rightarrow> sender \<Rightarrow> bool" where
  "sender_inv lo hi s \<longleftrightarrow> rate_ok lo hi (ctl s) \<and> fresh_allowance (ctl s)
     \<and> sc_outstanding (ctl s) = int (sum_list (in_flight s))"

lemma rate_ok_face: "face c' = face c \<Longrightarrow> rate_ok lo hi c' = rate_ok lo hi c"
  using faceD [of c' c] by (simp add: rate_ok_def)

lemma rate_ok_adapt: "rate_ok lo hi c \<Longrightarrow> rate_ok lo hi (adapt b c)"
  using adapt_face [of b c] unfolding rate_ok_def floor_bps_def min_le_iff_disj
  by (elim conjE disjE) (auto intro: order_trans)

lemma tick_face: "sc_outstanding (sc_tick now c) = sc_outstanding c" "rate_ok lo hi c \<Longrightarrow> rate_ok lo hi (sc_tick now c)"
proof -
  define c1 where "c1 = sample_queue now c"
  define c2 where "c2 = (if now - window_start_us c1 \<ge> uint (sc_window_ms (sc_cfg c1)) * 1000
      then (let m = measure_window now c1 in open_window now (adapt (congested m) m)) else c1)"
  have t: "face (sc_tick now c) = face c2" by (simp add: sc_tick_def Let_def c1_def c2_def)
  have 1: "face c1 = face c" by (simp add: c1_def)
  let ?m = "measure_window now c1"
  have m: "face ?m = face c" using 1 by simp
  have "sc_outstanding c2 = sc_outstanding c \<and> (rate_ok lo hi c \<longrightarrow> rate_ok lo hi c2)"
  proof (cases "now - window_start_us c1 \<ge> uint (sc_window_ms (sc_cfg c1)) * 1000")
    case True
    then have "c2 = open_window now (adapt (congested ?m) ?m)" by (simp add: c2_def Let_def)
    then have f: "face c2 = face (adapt (congested ?m) ?m)" by simp
    then show ?thesis
      using faceD [OF f] adapt_face(2) [of "congested ?m" ?m] faceD [OF m] rate_ok_face [OF f] rate_ok_face [OF m]
        rate_ok_adapt [of lo hi ?m] by simp
  next
    case False
    then have "c2 = c1" by (simp add: c2_def)
    then show ?thesis using faceD [OF 1] rate_ok_face [OF 1] by simp
  qed
  then show "sc_outstanding (sc_tick now c) = sc_outstanding c" "rate_ok lo hi c \<Longrightarrow> rate_ok lo hi (sc_tick now c)"
    using faceD [OF t] rate_ok_face [OF t] by simp_all
qed

lemma reset_ok:
  assumes "0 < lo" "lo \<le> target_bitrate_bps cfg" "target_bitrate_bps cfg \<le> hi"
  shows "rate_ok lo hi (sc_reset cfg c)" "fresh_allowance (sc_reset cfg c)" "sc_outstanding (sc_reset cfg c) = sc_outstanding c"
proof -
  have t: "target_bitrate_bps (usable_cfg cfg) = target_bitrate_bps cfg"
    using assms by (auto simp: usable_cfg_def)
  define x where "x = sc_reset cfg c"
  have "sc_cfg x = usable_cfg cfg" "bitrate_bps x = target_bitrate_bps (usable_cfg cfg)" "sc_outstanding x = sc_outstanding c"
    by (simp_all add: x_def sc_reset_def Let_def publish_bitrate_if_needed_def refresh_allowance_def)
  then show "rate_ok lo hi (sc_reset cfg c)" "sc_outstanding (sc_reset cfg c) = sc_outstanding c"
    using assms t by (simp_all add: rate_ok_def x_def)
  show "fresh_allowance (sc_reset cfg c)" by (simp add: sc_reset_def Let_def)
qed

lemma set_target_ok:
  assumes "0 < lo" "lo \<le> bps" "bps \<le> hi" "rate_ok lo hi c" "fresh_allowance c"
  shows "rate_ok lo hi (set_target_bitrate bps c)" "fresh_allowance (set_target_bitrate bps c)"
    "sc_outstanding (set_target_bitrate bps c) = sc_outstanding c"
proof -
  let ?c1 = "c\<lparr>sc_cfg := (sc_cfg c)\<lparr>target_bitrate_bps := bps\<rparr>\<rparr>"
  have nz: "bps \<noteq> 0" using assms(1,2) by auto
  have "face (set_target_bitrate bps c)
      = face (if bitrate_bps c > bps then ?c1\<lparr>bitrate_bps := bps\<rparr> else ?c1)"
    using nz by (simp add: set_target_bitrate_def Let_def)
  from faceD [OF this] assms show "rate_ok lo hi (set_target_bitrate bps c)"
    "sc_outstanding (set_target_bitrate bps c) = sc_outstanding c"
    by (auto simp: rate_ok_def split: if_splits)
  show "fresh_allowance (set_target_bitrate bps c)"
    using assms(5) nz by (simp add: set_target_bitrate_def Let_def) (simp add: fresh_allowance_def allowance_of_def)
qed

lemmas quiet_ops = on_enqueued_def sub_outstanding_def clamp_outstanding_def sc_on_send_failed_def on_encoder_drop_def
  admit_frame_def clear_outstanding_def take_bitrate_update_def take_keyframe_request_def

lemma send_step_inv:
  assumes "send_step lo hi s s'" and "0 < lo" and "sender_inv lo hi s"
  shows "sender_inv lo hi s'"
  using assms(1)
proof (cases rule: send_step.cases)
  case Stats
  then obtain now rtt a b d where s': "s' = s\<lparr>ctl := on_connection_stats now rtt a b d (ctl s)\<rparr>" by blast
  let ?c = "on_connection_stats now rtt a b d (ctl s)"
  have "face ?c = face (ctl s)" by (simp add: on_connection_stats_def)
  moreover have "fresh_allowance ?c" by (simp add: on_connection_stats_def)
  ultimately show ?thesis
    using s' assms(3) rate_ok_face [of ?c "ctl s"] faceD [of ?c "ctl s"] by (simp add: sender_inv_def)
next
  case (Tick now)
  then show ?thesis using assms(3) tick_face(1) [of now "ctl s"] tick_face(2) [of lo hi "ctl s" now] by (simp add: sender_inv_def fresh_tick)
next
  case (Target bps)
  then show ?thesis using assms(2,3) set_target_ok [of lo bps hi "ctl s"] by (simp add: sender_inv_def)
next
  case (Reset cfg)
  then show ?thesis using assms(2,3) reset_ok [of lo cfg hi "ctl s"] by (simp add: sender_inv_def)
qed (use assms(3) in \<open>auto simp: sender_inv_def quiet_ops rate_ok_def fresh_allowance_def allowance_of_def\<close>)

lemma send_reach_inv: "send_reach lo hi s \<Longrightarrow> 0 < lo \<Longrightarrow> sender_inv lo hi s"
proof (induction rule: send_reach.induct)
  case (Begin cfg)
  then show ?case
    using reset_ok [of lo cfg hi blank_send_ctl] by (simp add: sender_inv_def new_send_ctl_def blank_send_ctl_def)
qed (rule send_step_inv)

lemma div_admission: "n \<le> m div 8 div 1000000 \<longleftrightarrow> n * 8000000 \<le> (m :: int)"
  by linarith

text \<open>(C28) The sharer never asks for more than the user allowed and never queues more than it said: after any
  interleaving of sends, completions, captures, ticks, statistics, target changes and resets, the
  adapted bitrate lies between the lower bound (the smaller of the configured floor and the least
  target) and the current target; the outstanding count is exactly the bytes of the unfinished sends,
  so the clamp against negative counts never acts; and a captured frame is encoded exactly when
  those bytes take no longer to send than the normal in-flight time plus the queue budget.\<close>

theorem sender_within_bounds:
  assumes "send_reach lo hi s" and "0 < lo"
  shows "min lo (min_bitrate_bps (sc_cfg (ctl s))) \<le> bitrate_bps (ctl s)
       \<and> bitrate_bps (ctl s) \<le> target_bitrate_bps (sc_cfg (ctl s)) \<and> target_bitrate_bps (sc_cfg (ctl s)) \<le> hi
       \<and> sc_outstanding (ctl s) = int (sum_list (in_flight s)) \<and> clamp_outstanding (ctl s) = ctl s
       \<and> (fst (admit_frame (ctl s)) \<longleftrightarrow>
            int (sum_list (in_flight s)) * 8000000 \<le> uint (bitrate_bps (ctl s))
              * (uint (in_flight_time_us (sc_rtt_us (ctl s)) (last_loss_ratio (ctl s)))
                 + uint (queue_budget_ms (sc_cfg (ctl s))) * 1000))"
proof -
  have inv: "rate_ok lo hi (ctl s)" "fresh_allowance (ctl s)" "sc_outstanding (ctl s) = int (sum_list (in_flight s))"
    using send_reach_inv [OF assms] by (simp_all add: sender_inv_def)
  have "fst (admit_frame (ctl s)) \<longleftrightarrow> int (sum_list (in_flight s)) \<le> allowance_of (ctl s)"
    using inv(2,3) by (simp add: admit_frame_def fresh_allowance_def)
  then show ?thesis
    using inv(1,3) by (auto simp: rate_ok_def clamp_outstanding_def allowance_of_def Let_def div_admission min_def)
qed


section \<open>Recovery on a clean link\<close>

text \<open>What may happen between two window ends without touching the adaptation: sends, completions, captures,
  failures, statistics, the encoder collecting its orders, and ticks inside the window.\<close>

inductive calm :: "send_ctl \<Rightarrow> send_ctl \<Rightarrow> bool" where
  "calm c (on_enqueued n c)"
| "calm c (on_completed n c)"
| "calm c (sc_on_send_failed c)"
| "calm c (on_encoder_drop c)"
| "calm c (snd (admit_frame c))"
| "calm c (on_connection_stats now rtt a b d c)"
| "calm c (snd (take_bitrate_update c))"
| "calm c (snd (take_keyframe_request c))"
| "c1 = sample_queue now c \<Longrightarrow> now - window_start_us c1 < uint (sc_window_ms (sc_cfg c1)) * 1000 \<Longrightarrow>
     calm c (sc_tick now c)"

text \<open>A round: any number of those, then a tick at \<open>now\<close> that closes an uncongested window.\<close>

inductive clean_round :: "int \<Rightarrow> send_ctl \<Rightarrow> send_ctl \<Rightarrow> bool" for now where
  "calm\<^sup>*\<^sup>* c c0 \<Longrightarrow> c1 = sample_queue now c0 \<Longrightarrow>
   uint (sc_window_ms (sc_cfg c1)) * 1000 \<le> now - window_start_us c1 \<Longrightarrow>
   \<not> congested (measure_window now c1) \<Longrightarrow> clean_round now c (sc_tick now c0)"

text \<open>What pacing depends on.\<close>

definition pace :: "send_ctl \<Rightarrow> send_cfg \<times> u32 \<times> u32" where
  "pace c = (sc_cfg c, bitrate_bps c, clean_windows c)"

lemma pace_helpers [simp]:
  "pace (refresh_allowance c) = pace c" "pace (publish_bitrate_if_needed now f c) = pace c"
  "pace (note_loss a b d c) = pace c" "pace (note_rtt now r c) = pace c" "pace (sample_queue now c) = pace c"
  "pace (measure_window now c) = pace c" "pace (open_window now c) = pace c"
  by (simp_all add: pace_def refresh_allowance_def publish_bitrate_if_needed_def note_loss_def note_rtt_def
      sample_queue_def measure_window_def open_window_def Let_def)

lemma paceD: "pace c' = pace c \<Longrightarrow> sc_cfg c' = sc_cfg c \<and> bitrate_bps c' = bitrate_bps c \<and> clean_windows c' = clean_windows c"
  by (simp add: pace_def)

lemma calm_pace: "calm c c' \<Longrightarrow> pace c' = pace c"
proof (induction rule: calm.induct)
  case (9 c1 now c)
  then show ?case by (simp add: sc_tick_def Let_def)
qed (simp_all add: on_connection_stats_def, simp_all add: pace_def quiet_ops on_completed_def)

lemma calms_pace: "calm\<^sup>*\<^sup>* c c' \<Longrightarrow> pace c' = pace c"
  by (induction rule: rtranclp_induct) (auto dest: calm_pace)

section \<open>Growth\<close>

definition grow :: "int \<Rightarrow> int \<Rightarrow> int" where
  "grow q b = b + max 1 (b div q)"

lemma grow_mono: "0 < q \<Longrightarrow> a \<le> b \<Longrightarrow> grow q a \<le> grow q b"
  using zdiv_mono1 [of a b q] by (simp add: grow_def)

lemma grow_gt: "b < grow q b"
  by (simp add: grow_def)

lemma grow_pow_mono: "0 < q \<Longrightarrow> a \<le> b \<Longrightarrow> (grow q ^^ k) a \<le> (grow q ^^ k) b"
  by (induction k) (auto intro: grow_mono)

lemma llround_ge: "of_int n \<le> x \<Longrightarrow> 0 \<le> n \<Longrightarrow> n \<le> llround x"
  by (auto simp: llround_def le_floor_iff)

lemma scale_ge:
  assumes f: "1 + 1 / of_int q \<le> f" and q: "0 < q"
  shows "min 4294967295 (uint b + uint b div q) \<le> uint (scale_bitrate b f)"
proof -
  let ?g = "uint b + uint b div q"
  define n where "n = min 4294967295 ?g"
  let ?s = "fl (of_int (uint b) * f)"
  have nn: "0 \<le> n" "n \<le> 4294967295" using q by (simp_all add: n_def pos_imp_zdiv_nonneg_iff)
  have "of_int (uint b div q) \<le> (of_int (uint b) / of_int q :: rat)"
    using q by (metis floor_divide_of_int_eq of_int_floor_le)
  then have "(of_int ?g :: rat) \<le> of_int (uint b) * (1 + 1 / of_int q)"
    by (simp add: distrib_left)
  also have "\<dots> \<le> of_int (uint b) * f"
    using f of_int_0_le_iff [of "uint b"] by (intro mult_left_mono) (simp_all del: of_int_0_le_iff)
  finally have "(of_int n :: rat) \<le> of_int (uint b) * f"
    by (rule order_trans [rotated]) (simp only: of_int_le_iff n_def min.cobounded2)
  then have "fl (of_int n) \<le> ?s" by (rule fl_mono)
  then have ge: "of_int n \<le> ?s" using nn by (simp add: fl_int)
  have "n \<le> uint (scale_bitrate b f)"
  proof (cases "?s \<le> 0 \<or> ?s \<ge> MAX_U32")
    case True
    have "n \<le> 0" if "?s \<le> 0" using order_trans [OF ge that] by simp
    then show ?thesis using True nn by (auto simp: scale_bitrate_def Let_def)
  next
    case False
    then have "llround ?s < 2 ^ 32"
      by (simp add: llround_def MAX_U32_def floor_less_iff)
    moreover have "n \<le> llround ?s" by (rule llround_ge [OF ge nn(1)])
    ultimately show ?thesis
      using False nn by (simp add: scale_bitrate_def Let_def uint_word_of_int_eq take_bit_int_eq_self)
  qed
  then show ?thesis by (simp only: n_def)
qed

lemma if_less_max: "(if b < m then m else b) = max b (m :: 'a :: linorder)"
  by (simp add: max_def) auto

lemma word_succ_gt: "(b :: u32) < t \<Longrightarrow> b < b + 1"
  by unat_arith

lemma uint_max: "uint (max a (b :: u32)) = max (uint a) (uint b)"
  by (simp add: max_def word_le_def)

lemma uint_min: "uint (min a (b :: u32)) = min (uint a) (uint b)"
  by (simp add: min_def word_le_def)

lemma raise_grows:
  assumes f: "1 + 1 / of_int q \<le> increase_factor (sc_cfg c)" and q: "0 < q"
    and t: "bitrate_bps c \<le> target_bitrate_bps (sc_cfg c)"
  shows "min (uint (target_bitrate_bps (sc_cfg c))) (grow q (uint (bitrate_bps c))) \<le> uint (bitrate_bps (raise_bitrate c))"
proof -
  let ?b = "bitrate_bps c" and ?t = "target_bitrate_bps (sc_cfg c)"
  let ?r0 = "scale_bitrate ?b (increase_factor (sc_cfg c))"
  define r1 where "r1 = (if ?r0 \<le> ?b \<and> ?b < ?t then ?b + 1 else ?r0)"
  have "bitrate_bps (raise_bitrate c) = (if ?b < min r1 ?t then min r1 ?t else ?b)"
    by (simp add: raise_bitrate_def Let_def r1_def)
  then have new: "uint (bitrate_bps (raise_bitrate c)) = max (uint ?b) (min (uint r1) (uint ?t))"
    by (simp only: if_less_max uint_max uint_min)
  have top: "uint ?t \<le> 4294967295" using uint_bounded [of ?t] by simp
  show ?thesis
  proof (cases "?b = ?t")
    case True
    then show ?thesis unfolding new by (simp add: grow_def)
  next
    case False
    then have lt: "?b < ?t" using t by simp
    then have gt: "?b < r1" "?r0 \<le> r1" using word_succ_gt [OF lt] by (auto simp: r1_def)
    then have "uint ?b + 1 \<le> uint r1" "uint ?r0 \<le> uint r1" by (simp_all add: word_less_def word_le_def)
    then show ?thesis
      using scale_ge [OF f q, of ?b] top unfolding new grow_def by linarith
  qed
qed

lemma clean_round_grows:
  assumes "clean_round now c c'" and f: "1 + 1 / of_int q \<le> increase_factor (sc_cfg c)" and q: "0 < q"
    and t: "bitrate_bps c \<le> target_bitrate_bps (sc_cfg c)"
    and w: "clean_windows c < clean_limit (sc_cfg c)"
  shows "sc_cfg c' = sc_cfg c" "bitrate_bps c' \<le> target_bitrate_bps (sc_cfg c)" "bitrate_bps c \<le> bitrate_bps c'"
    "clean_windows c' < clean_limit (sc_cfg c)"
    "clean_windows c + 1 < clean_limit (sc_cfg c) \<Longrightarrow> clean_windows c' = clean_windows c + 1"
    "\<not> clean_windows c + 1 < clean_limit (sc_cfg c) \<Longrightarrow> clean_windows c' = 0 \<and>
       min (uint (target_bitrate_bps (sc_cfg c))) (grow q (uint (bitrate_bps c))) \<le> uint (bitrate_bps c')"
proof -
  obtain c0 where c0: "calm\<^sup>*\<^sup>* c c0" and c': "c' = sc_tick now c0"
    and win: "uint (sc_window_ms (sc_cfg (sample_queue now c0))) * 1000 \<le> now - window_start_us (sample_queue now c0)"
    and ok: "\<not> congested (measure_window now (sample_queue now c0))"
    using assms(1) by (auto elim: clean_round.cases)
  define m where "m = measure_window now (sample_queue now c0)"
  have m: "sc_cfg m = sc_cfg c" "bitrate_bps m = bitrate_bps c" "clean_windows m = clean_windows c"
    using paceD [of m c] calms_pace [OF c0] by (simp_all add: m_def)
  have p: "pace c' = pace (adapt False m)"
    using win ok by (simp add: c' sc_tick_def Let_def m_def)
  let ?x = "m\<lparr>congested_windows := 0, clean_windows := 0\<rparr>"
  have no: "adapt False m = (if clean_windows c + 1 < clean_limit (sc_cfg c)
       then m\<lparr>congested_windows := 0, clean_windows := clean_windows c + 1\<rparr> else raise_bitrate ?x)"
    using m by (simp add: adapt_def Let_def not_less)
  have r: "clean_windows (raise_bitrate ?x) = 0" by (simp add: raise_bitrate_def Let_def)
  note rf = raise_bitrate_face [of ?x] raise_grows [of q ?x]
  show "sc_cfg c' = sc_cfg c" "bitrate_bps c' \<le> target_bitrate_bps (sc_cfg c)" "bitrate_bps c \<le> bitrate_bps c'"
    "clean_windows c + 1 < clean_limit (sc_cfg c) \<Longrightarrow> clean_windows c' = clean_windows c + 1"
    "\<not> clean_windows c + 1 < clean_limit (sc_cfg c) \<Longrightarrow> clean_windows c' = 0 \<and>
       min (uint (target_bitrate_bps (sc_cfg c))) (grow q (uint (bitrate_bps c))) \<le> uint (bitrate_bps c')"
    using paceD [OF p] no m r rf f q t by (auto split: if_splits)
  show "clean_windows c' < clean_limit (sc_cfg c)"
    using paceD [OF p] no m r w by (auto split: if_splits intro: le_less_trans [OF word_zero_le])
qed


inductive clean_run :: "int list \<Rightarrow> send_ctl \<Rightarrow> send_ctl \<Rightarrow> bool" where
  Start: "clean_run [] c c"
| Round: "clean_run ts c c' \<Longrightarrow> clean_round now c' c'' \<Longrightarrow> clean_run (ts @ [now]) c c''"

lemma clean_run_grows:
  assumes "clean_run ts c c'" and "1 + 1 / of_int q \<le> increase_factor (sc_cfg c)" and q: "0 < q"
    and "bitrate_bps c \<le> target_bitrate_bps (sc_cfg c)" and "clean_windows c < clean_limit (sc_cfg c)"
  shows "sc_cfg c' = sc_cfg c \<and> bitrate_bps c' \<le> target_bitrate_bps (sc_cfg c)
    \<and> unat (clean_windows c') = (unat (clean_windows c) + length ts) mod unat (clean_limit (sc_cfg c))
    \<and> clean_windows c' < clean_limit (sc_cfg c)
    \<and> min (uint (target_bitrate_bps (sc_cfg c)))
          ((grow q ^^ ((unat (clean_windows c) + length ts) div unat (clean_limit (sc_cfg c)))) (uint (bitrate_bps c)))
        \<le> uint (bitrate_bps c')"
  using assms
proof (induction rule: clean_run.induct)
  case (Start c)
  then show ?case by (simp add: word_less_nat_alt)
next
  case (Round ts c c' now c'')
  let ?t = "target_bitrate_bps (sc_cfg c)" and ?L = "unat (clean_limit (sc_cfg c))"
  let ?n = "unat (clean_windows c) + length ts"
  let ?g = "(grow q ^^ (?n div ?L)) (uint (bitrate_bps c))"
  from Round have ih: "sc_cfg c' = sc_cfg c" "bitrate_bps c' \<le> ?t" "unat (clean_windows c') = ?n mod ?L"
    "clean_windows c' < clean_limit (sc_cfg c)" "min (uint ?t) ?g \<le> uint (bitrate_bps c')" by blast+
  have rd: "sc_cfg c'' = sc_cfg c" "bitrate_bps c'' \<le> ?t" "bitrate_bps c' \<le> bitrate_bps c''"
    "clean_windows c'' < clean_limit (sc_cfg c)"
    "clean_windows c' + 1 < clean_limit (sc_cfg c) \<Longrightarrow> clean_windows c'' = clean_windows c' + 1"
    "\<not> clean_windows c' + 1 < clean_limit (sc_cfg c) \<Longrightarrow> clean_windows c'' = 0 \<and>
       min (uint ?t) (grow q (uint (bitrate_bps c'))) \<le> uint (bitrate_bps c'')"
    using clean_round_grows [OF Round.hyps(2), of q] Round.prems ih by simp_all
  have w: "unat (clean_windows c' + 1) = ?n mod ?L + 1" "?n mod ?L < ?L"
    using ih(3,4) unsigned_less [where 'a = nat and w = "clean_limit (sc_cfg c)"] by (auto simp: word_less_nat_alt unat_word_ariths)
  show ?case
  proof (cases "clean_windows c' + 1 < clean_limit (sc_cfg c)")
    case True
    then have lt: "?n mod ?L + 1 < ?L" using w by (simp add: word_less_nat_alt)
    then have "Suc ?n mod ?L = Suc (?n mod ?L)" "Suc ?n div ?L = ?n div ?L"
      by (simp_all add: mod_Suc div_Suc)
    then show ?thesis using rd True w ih(5) by (simp add: word_le_def)
  next
    case False
    then have "Suc (?n mod ?L) = ?L" using w by (simp add: word_less_nat_alt)
    then have m: "Suc ?n mod ?L = 0" "Suc ?n div ?L = Suc (?n div ?L)"
      by (simp_all add: mod_Suc div_Suc)
    have "min (uint ?t) (grow q ?g) \<le> uint (bitrate_bps c'')"
    proof (cases "uint ?t \<le> ?g")
      case True
      then show ?thesis using ih(5) rd(3) by (simp add: word_le_def)
    next
      case nt: False
      then have "?g \<le> uint (bitrate_bps c')" using ih(5) by simp
      then show ?thesis using rd(6) [OF False] grow_mono [OF q, of ?g "uint (bitrate_bps c')"] by linarith
    qed
    then show ?thesis using rd False m by simp
  qed
qed

lemma clean_run_ends: "clean_run ts c c' \<Longrightarrow> ts \<noteq> [] \<Longrightarrow> \<exists>c0. c' = sc_tick (last ts) c0"
  by (induction rule: clean_run.induct) (auto elim: clean_round.cases)

lemma grow_pow_le: "m \<le> n \<Longrightarrow> (grow q ^^ m) b \<le> (grow q ^^ n) b"
  by (rule lift_Suc_mono_le [of "\<lambda>n. (grow q ^^ n) b"]) (simp_all add: less_imp_le grow_gt)

text \<open>Publishing at the end of a tick.\<close>

lemma tick_publishes:
  assumes "bitrate_bps (sc_tick now c) = target_bitrate_bps (sc_cfg (sc_tick now c))"
  shows "published_bitrate (sc_tick now c) = bitrate_bps (sc_tick now c)
       \<or> now - last_publish_us (sc_tick now c) < uint (min_reconfigure_ms (sc_cfg (sc_tick now c))) * 1000"
proof -
  obtain x where x: "sc_tick now c = publish_bitrate_if_needed now False x"
    by (auto simp: sc_tick_def Let_def)
  then have "pace (sc_tick now c) = pace x" by simp
  from paceD [OF this] show ?thesis
    using assms unfolding x by (auto simp: publish_bitrate_if_needed_def Let_def split: if_splits)
qed


section \<open>The pacing counters\<close>

definition pace_ok :: "send_ctl \<Rightarrow> bool" where
  "pace_ok c \<longleftrightarrow> clean_windows c < clean_limit (sc_cfg c)"

lemma pace_ok_pace: "pace c' = pace c \<Longrightarrow> pace_ok c' = pace_ok c"
  using paceD [of c' c] by (simp add: pace_ok_def)

lemma adapt_pace_ok: "pace_ok c \<Longrightarrow> pace_ok (adapt b c)"
  by (cases b) (auto simp: pace_ok_def adapt_def Let_def lower_bitrate_def raise_bitrate_def not_le
      intro: le_less_trans [OF word_zero_le])

lemma tick_pace_ok: "pace_ok c \<Longrightarrow> pace_ok (sc_tick now c)"
proof -
  assume ok: "pace_ok c"
  let ?m = "measure_window now (sample_queue now c)"
  have m: "pace_ok ?m" using ok pace_ok_pace [of ?m c] by simp
  have "pace (sc_tick now c) = pace (adapt (congested ?m) ?m) \<or> pace (sc_tick now c) = pace c"
    by (simp add: sc_tick_def Let_def)
  then show ?thesis
    using ok adapt_pace_ok [OF m, of "congested ?m"] pace_ok_pace [of "sc_tick now c" "adapt (congested ?m) ?m"]
      pace_ok_pace [of "sc_tick now c" c] by blast
qed

lemma reset_pace_ok: "pace_ok (sc_reset cfg c)"
proof -
  have "clean_windows (sc_reset cfg c) = 0 \<and> sc_cfg (sc_reset cfg c) = usable_cfg cfg"
    by (simp add: sc_reset_def publish_bitrate_if_needed_def refresh_allowance_def Let_def)
  then show ?thesis by (simp add: pace_ok_def usable_cfg_def word_gt_0)
qed

lemma set_target_pace_ok: "pace_ok c \<Longrightarrow> pace_ok (set_target_bitrate bps c)"
  by (simp add: set_target_bitrate_def publish_bitrate_if_needed_def refresh_allowance_def pace_ok_def Let_def)

lemma send_reach_pace: "send_reach lo hi s \<Longrightarrow> pace_ok (ctl s)"
proof (induction rule: send_reach.induct)
  case (Begin cfg)
  then show ?case by (simp add: new_send_ctl_def reset_pace_ok)
next
  case (Next s s')
  from Next.hyps(2) show ?case
  proof (cases rule: send_step.cases)
    case Stats
    then have "pace (ctl s') = pace (ctl s)" by (auto simp: on_connection_stats_def)
    then show ?thesis using Next.IH pace_ok_pace by blast
  qed (use Next.IH in \<open>simp_all add: tick_pace_ok reset_pace_ok set_target_pace_ok\<close>,
       use Next.IH in \<open>simp_all add: pace_ok_def quiet_ops\<close>)
qed

text \<open>(C29) Quality comes back: on a link whose windows stay uncongested, whatever is sent, completed, captured or
  reported in between, the bitrate climbs by at least one part in \<open>q\<close> per \<open>clean_limit\<close> windows when the
  increase factor is at least \<open>1 + 1/q\<close>; once that growth covers the distance the bitrate is exactly
  the user's target, and the encoder has been told so unless its last reconfiguration is more recent
  than \<open>min_reconfigure_ms\<close>.\<close>

theorem clean_link_recovers:
  assumes "send_reach lo hi s" and "0 < lo" and "clean_run ts (ctl s) c'" and "ts \<noteq> []"
    and "1 + 1 / of_int q \<le> increase_factor (sc_cfg (ctl s))" and "0 < q"
    and "k * unat (clean_limit (sc_cfg (ctl s))) \<le> length ts"
    and "uint (target_bitrate_bps (sc_cfg (ctl s))) \<le> (grow q ^^ k) (uint (bitrate_bps (ctl s)))"
  shows "bitrate_bps c' = target_bitrate_bps (sc_cfg (ctl s)) \<and> sc_cfg c' = sc_cfg (ctl s)
       \<and> (published_bitrate c' = bitrate_bps c'
          \<or> last ts - last_publish_us c' < uint (min_reconfigure_ms (sc_cfg c')) * 1000)"
proof -
  let ?c = "ctl s" and ?L = "unat (clean_limit (sc_cfg (ctl s)))"
  have t: "bitrate_bps ?c \<le> target_bitrate_bps (sc_cfg ?c)"
    using send_reach_inv [OF assms(1,2)] by (simp add: sender_inv_def rate_ok_def)
  have w: "clean_windows ?c < clean_limit (sc_cfg ?c)"
    using send_reach_pace [OF assms(1)] by (simp add: pace_ok_def)
  note g = clean_run_grows [OF assms(3,5,6) t w]
  have "k \<le> (unat (clean_windows ?c) + length ts) div ?L"
    using w assms(7) by (simp add: less_eq_div_iff_mult_less_eq word_less_nat_alt)
  then have "uint (target_bitrate_bps (sc_cfg ?c)) \<le> uint (bitrate_bps c')"
    using g assms(8) grow_pow_le [of k "(unat (clean_windows ?c) + length ts) div ?L" q "uint (bitrate_bps ?c)"] by linarith
  then have at: "bitrate_bps c' = target_bitrate_bps (sc_cfg ?c)" and cfg: "sc_cfg c' = sc_cfg ?c"
    using g by (simp_all add: word_le_def word_uint_eqI)
  obtain c0 where "c' = sc_tick (last ts) c0"
    using clean_run_ends [OF assms(3,4)] by blast
  then show ?thesis using at cfg tick_publishes [of "last ts" c0] by simp
qed


section \<open>Witnesses\<close>

definition demo_cfg :: send_cfg where
  "demo_cfg = default_send_cfg\<lparr>target_bitrate_bps := 1044013, clean_limit := 1, congested_limit := 1\<rparr>"

definition demo_sender :: sender where
  "demo_sender = \<lparr>ctl = new_send_ctl demo_cfg, in_flight = []\<rparr>"

lemma demo_cfg_fits: "VIDEO_MIN_BITRATE \<le> target_bitrate_bps demo_cfg" "target_bitrate_bps demo_cfg \<le> VIDEO_MAX_BITRATE"
  by (simp_all add: demo_cfg_def VIDEO_MIN_BITRATE_def VIDEO_MAX_BITRATE_def)

lemma demo_sender_reach: "send_reach VIDEO_MIN_BITRATE VIDEO_MAX_BITRATE demo_sender"
  unfolding demo_sender_def using demo_cfg_fits by (rule send_reach.Begin)

lemma demo_queued_reach: "send_reach VIDEO_MIN_BITRATE VIDEO_MAX_BITRATE
    \<lparr>ctl = on_enqueued 50000 (ctl demo_sender), in_flight = [50000]\<rparr>"
  using send_reach.Next [OF demo_sender_reach send_step.Send [of _ _ demo_sender 50000]] by (simp add: demo_sender_def)

definition allowance_view :: "send_ctl \<Rightarrow> int \<times> u32 \<times> u32" where
  "allowance_view c = (allowance_bytes c, bitrate_bps c, target_bitrate_bps (sc_cfg c))"

lemma demo_allowance: "allowance_view (ctl demo_sender) = (22185, 1044013, 1044013)"
  by code_simp

text \<open>50 kB waiting at about 1 Mbit/s is more than the round trip and the queue budget: the next capture is
  skipped.\<close>

lemma sender_within_bounds_witness:
  "\<exists>s. send_reach VIDEO_MIN_BITRATE VIDEO_MAX_BITRATE s \<and> in_flight s = [50000] \<and> sc_outstanding (ctl s) = 50000
     \<and> \<not> fst (admit_frame (ctl s)) \<and> bitrate_bps (ctl s) \<le> target_bitrate_bps (sc_cfg (ctl s))"
proof (intro exI conjI)
  let ?s = "\<lparr>ctl = on_enqueued 50000 (ctl demo_sender), in_flight = [50000]\<rparr>"
  have lo: "0 < VIDEO_MIN_BITRATE" by (simp add: VIDEO_MIN_BITRATE_def)
  note b = sender_within_bounds [OF demo_queued_reach lo]
  show "send_reach VIDEO_MIN_BITRATE VIDEO_MAX_BITRATE ?s" by (rule demo_queued_reach)
  show "in_flight ?s = [50000]" by simp
  show o: "sc_outstanding (ctl ?s) = 50000" using b by simp
  show "\<not> fst (admit_frame (ctl ?s))"
    using o demo_allowance by (simp add: admit_frame_def on_enqueued_def allowance_view_def)
  show "bitrate_bps (ctl ?s) \<le> target_bitrate_bps (sc_cfg (ctl ?s))" using b by blast
qed

definition raised_sender :: sender where
  "raised_sender = demo_sender\<lparr>ctl := set_target_bitrate 1100000 (ctl demo_sender)\<rparr>"

lemma raised_sender_reach: "send_reach VIDEO_MIN_BITRATE VIDEO_MAX_BITRATE raised_sender"
  unfolding raised_sender_def
  by (rule send_reach.Next [OF demo_sender_reach send_step.Target]) (simp_all add: VIDEO_MIN_BITRATE_def VIDEO_MAX_BITRATE_def)

definition round_view :: "int \<Rightarrow> send_ctl \<Rightarrow> bool" where
  "round_view now c \<longleftrightarrow> (let c1 = sample_queue now c
     in uint (sc_window_ms (sc_cfg c1)) * 1000 \<le> now - window_start_us c1 \<and> \<not> congested (measure_window now c1))"

lemma clean_roundI: "calm\<^sup>*\<^sup>* c c0 \<Longrightarrow> round_view now c0 \<Longrightarrow> clean_round now c (sc_tick now c0)"
  by (auto simp: round_view_def Let_def intro!: clean_round.intros)

definition inside :: "int \<Rightarrow> send_ctl \<Rightarrow> bool" where
  "inside now c \<longleftrightarrow> (let c1 = sample_queue now c in now - window_start_us c1 < uint (sc_window_ms (sc_cfg c1)) * 1000)"

lemma demo_round: "clean_run [600000] (ctl raised_sender) (sc_tick 600000 (sc_tick 1000 (ctl raised_sender)))"
proof -
  have "inside 1000 (ctl raised_sender)" by code_simp
  then have "calm (ctl raised_sender) (sc_tick 1000 (ctl raised_sender))"
    unfolding inside_def Let_def by (rule calm.intros(9) [OF refl])
  moreover have "round_view 600000 (sc_tick 1000 (ctl raised_sender))" by code_simp
  ultimately have "clean_round 600000 (ctl raised_sender) (sc_tick 600000 (sc_tick 1000 (ctl raised_sender)))"
    by (intro clean_roundI r_into_rtranclp)
  from clean_run.Round [OF clean_run.Start this] show ?thesis by (simp only: append_Nil)
qed

definition cfg_view :: "send_ctl \<Rightarrow> rat \<times> nat \<times> int \<times> int" where
  "cfg_view c = (increase_factor (sc_cfg c), unat (clean_limit (sc_cfg c)), uint (target_bitrate_bps (sc_cfg c)),
     uint (bitrate_bps c))"

lemma raised_view: "cfg_view (ctl raised_sender) = (fl (110 / 100), 1, 1100000, 1044013)"
  by code_simp

lemma fl_eleven_tenths: "1 + 1 / of_int 10 \<le> fl (110 / 100)"
  by code_simp

lemma clean_link_recovers_witness:
  "\<exists>c'. clean_run [600000] (ctl raised_sender) c' \<and> bitrate_bps c' = target_bitrate_bps (sc_cfg (ctl raised_sender))
     \<and> sc_cfg c' = sc_cfg (ctl raised_sender)"
  using clean_link_recovers [OF raised_sender_reach _ demo_round, of 10 1] raised_view fl_eleven_tenths demo_round
  by (intro exI [of _ "sc_tick 600000 (sc_tick 1000 (ctl raised_sender))"])
    (simp add: cfg_view_def grow_def VIDEO_MIN_BITRATE_def)

section \<open>A ceiling that the encoder does not learn\<close>

text \<open>The encoder runs at the last published bitrate. When the adapted bitrate has already fallen below the new
  ceiling without having been announced (the change was below the reconfiguration delta), \<open>set_target_bitrate\<close>
  publishes nothing: here the user raises the ceiling, a clean window raises the bitrate by less than
  the delta and a congested one lowers it again, then the user lowers the ceiling to 1,000,000; the
  encoder has no order pending and still runs at 1,044,013.\<close>

definition stranded :: send_ctl where
  "stranded =
     (let c1 = set_target_bitrate 2000000 (snd (take_bitrate_update (new_send_ctl demo_cfg)));
          c2 = sc_tick 600000 (sc_tick 1000 c1);
          c3 = sc_tick 1200000 (on_encoder_drop c2)
      in set_target_bitrate 1000000 c3)"

definition stranded_view :: "send_ctl \<Rightarrow> u32 option \<times> u32 \<times> u32 \<times> u32" where
  "stranded_view c = (fst (take_bitrate_update c), published_bitrate c, bitrate_bps c, target_bitrate_bps (sc_cfg c))"


lemma ceiling_not_published: "stranded_view stranded = (None, 1044013, 976152, 1000000)"
  by code_simp


section \<open>The encoder's reservoir\<close>

text \<open>The 64-bit arithmetic of the rate control computes two frame intervals at the bitrate, at least the floor
  and at most the largest 32-bit number.\<close>

lemma vbv_exact:
  assumes "fps \<noteq> 0"
  shows "uint (vbv_buffer_size (make_stream_cbr_rate_control bitrate fps))
    = max 50000 (min 4294967295 (2 * (uint bitrate div uint fps)))"
proof -
  have u: "uint (ucast x :: u64) = uint x" for x :: u32
    using uint_bounded [of x] by (simp add: unsigned_ucast_eq take_bit_int_eq_self)
  define per where "per = (ucast bitrate :: u64) div ucast fps"
  have per: "uint per = uint bitrate div uint fps" by (simp add: per_def uint_div u)
  have "uint bitrate div uint fps \<le> uint bitrate"
    using zdiv_mono2 [of "uint bitrate" 1 "uint fps"] assms by (simp add: int_one_le_iff_zero_less order_less_le uint_0_iff)
  then have b: "uint bitrate div uint fps < 2 ^ 32" using uint_bounded [of bitrate] by simp
  have nn: "0 \<le> uint bitrate div uint fps" using per by (metis uint_ge_0)
  have two: "uint (per * 2) = 2 * (uint bitrate div uint fps)"
    using per b nn by (simp add: uint_word_ariths)
  have sat: "uint (saturate_u32 v) = min 4294967295 (uint v)" for v
    by (auto simp: saturate_u32_def word_less_def unsigned_ucast_eq take_bit_int_eq_self min_def)
  have "vbv_buffer_size (make_stream_cbr_rate_control bitrate fps)
      = (if saturate_u32 (per * 2) < 50000 then 50000 else saturate_u32 (per * 2))"
    using assms by (simp add: make_stream_cbr_rate_control_def Let_def per_def STREAM_VBV_MIN_BITS_def STREAM_VBV_FRAMES_def)
  then show ?thesis using sat [of "per * 2"] two by (auto simp: word_less_def max_def min_def)
qed

end
