(* ===== verification/Video_Playout.thy ===== *)
theory Video_Playout
  imports Float64 Video_Common "HOL-Library.Signed_Division" "HOL-Library.Multiset"
begin

text \<open>
  \<open>common/include/parties/video_playout.h\<close> and \<open>common/src/video_playout.cpp\<close>: the jitter clock of one
  received stream. A clock is one record; \<open>playout_time\<close> returns the updated clock and the time at
  which to present the frame. The \<open>deque\<close> of samples is a list, oldest first.

  The lemmas show that a frame is never presented before it arrived nor later than the configured
  limit, that the percentile read from the sorted excesses is inside the array, and that the delay
  in force covers that percentile of the window's frames or stands at its cap.
\<close>

record playout_cfg =
  max_delay_ms :: u32
  window_ms :: u32
  percentile :: double
  decay_ms_per_s :: u32

definition default_playout_cfg :: playout_cfg where
  "default_playout_cfg = \<lparr>max_delay_ms = 300, window_ms = 3000, percentile = fl (95 / 100), decay_ms_per_s = 100\<rparr>"

record playout =
  po_cfg :: playout_cfg
  have_ts :: bool
  last_ts :: u32
  last_ext_ms :: int
  delay_us :: int
  last_update_us :: int
  po_samples :: "(int \<times> int) list"

definition new_playout :: "playout_cfg \<Rightarrow> playout" where
  "new_playout c = \<lparr>po_cfg = c, have_ts = False, last_ts = 0, last_ext_ms = 0, delay_us = 0, last_update_us = 0,
     po_samples = []\<rparr>"

definition playout_reset :: "playout \<Rightarrow> playout" where
  "playout_reset p = p\<lparr>have_ts := False, last_ts := 0, last_ext_ms := 0, delay_us := 0, last_update_us := 0,
     po_samples := []\<rparr>"

text \<open>The 32-bit millisecond clock, unwrapped: the difference of two stamps as a signed 32-bit number.\<close>

definition unwrap_capture :: "u32 \<Rightarrow> playout \<Rightarrow> playout" where
  "unwrap_capture ts p =
     (if have_ts p then p\<lparr>last_ext_ms := last_ext_ms p + sint (ts - last_ts p), last_ts := ts\<rparr>
      else p\<lparr>have_ts := True, last_ext_ms := uint ts, last_ts := ts\<rparr>)"

definition max_delay_us :: "playout_cfg \<Rightarrow> int" where
  "max_delay_us c = uint (max_delay_ms c) * 1000"

definition recent_samples :: "int \<Rightarrow> int \<Rightarrow> (int \<times> int) list \<Rightarrow> (int \<times> int) list" where
  "recent_samples window now ss = dropWhile (\<lambda>(t, _). now - t > window) ss"

definition base_transit :: "int \<Rightarrow> (int \<times> int) list \<Rightarrow> int" where
  "base_transit transit ss = foldl (\<lambda>b (_, t). min b t) transit ss"

definition excesses :: "int \<Rightarrow> (int \<times> int) list \<Rightarrow> int list" where
  "excesses base ss = map (\<lambda>(_, t). t - base) ss"

definition percentile_index :: "double \<Rightarrow> nat \<Rightarrow> nat" where
  "percentile_index pct n = nat (int_of_double (fl (pct * double_of_int (int n - 1))))"

text \<open>\<open>std::nth_element\<close> puts at position \<open>k\<close> the element a full sort would put there.\<close>

definition nth_smallest :: "nat \<Rightarrow> int list \<Rightarrow> int" where
  "nth_smallest k xs = sort xs ! k"

text \<open>Up at once, down slowly; the division truncates.\<close>

definition follow_delay :: "int \<Rightarrow> int \<Rightarrow> playout \<Rightarrow> int" where
  "follow_delay target now p =
     (if target \<ge> delay_us p then target
      else if last_update_us p \<noteq> 0
      then max target (delay_us p - ((now - last_update_us p) * uint (decay_ms_per_s (po_cfg p))) sdiv 1000)
      else delay_us p)"

definition clamp_time :: "int \<Rightarrow> int \<Rightarrow> int \<Rightarrow> int" where
  "clamp_time v lo hi = (if v < lo then lo else if hi < v then hi else v)"

definition playout_time :: "frame_header \<Rightarrow> int \<Rightarrow> playout \<Rightarrow> playout \<times> int" where
  "playout_time hdr arrival p =
     (if flags hdr AND VIDEO_FLAG_CAPTURE_TIME = 0 then (p, arrival)
      else
        let p1 = unwrap_capture (timestamp hdr) p;
            capture = last_ext_ms p1 * 1000;
            transit = arrival - capture;
            ss = recent_samples (uint (window_ms (po_cfg p)) * 1000) arrival (po_samples p @ [(arrival, transit)]);
            base = base_transit transit ss;
            ex = excesses base ss;
            k = percentile_index (percentile (po_cfg p)) (length ex);
            max_delay = max_delay_us (po_cfg p);
            target = min (nth_smallest k ex) max_delay;
            d = follow_delay target arrival p;
            p2 = p1\<lparr>po_samples := ss, delay_us := d, last_update_us := arrival\<rparr>
        in (p2, clamp_time (capture + base + d) arrival (arrival + max_delay)))"

section \<open>The window\<close>

lemma recent_keeps_new: "0 \<le> w \<Longrightarrow> \<exists>ys. recent_samples w now (ss @ [(now, t)]) = ys @ [(now, t)]"
  by (induction ss) (auto simp: recent_samples_def)

lemma base_transit_Cons [simp]: "base_transit x ((a, t) # ss) = base_transit (min x t) ss"
  by (simp add: base_transit_def)

lemma base_transit_Nil [simp]: "base_transit x [] = x"
  by (simp add: base_transit_def)

lemma base_le_start: "base_transit x ss \<le> x"
  by (induction ss arbitrary: x) (auto, metis min.boundedE)

lemma base_le: "(a, t) \<in> set ss \<Longrightarrow> base_transit x ss \<le> t"
proof (induction ss arbitrary: x)
  case (Cons s ss)
  then show ?case using base_le_start [of "min x t" ss] by (cases s) auto
qed simp

lemma base_attained: "base_transit x ss \<in> insert x (snd ` set ss)"
proof (induction ss arbitrary: x)
  case (Cons s ss)
  then show ?case using Cons [of "min x (snd s)"] by (cases s) (auto simp: min_def split: if_splits)
qed simp

lemma base_is_Min: "x \<in> snd ` set ss \<Longrightarrow> base_transit x ss = Min (snd ` set ss)"
  using base_attained [of x ss] base_le [of _ _ ss x] by (intro sym [OF Min_eqI]) auto

lemma excesses_nonneg: "e \<in> set (excesses (base_transit x ss) ss) \<Longrightarrow> 0 \<le> e"
  using base_le by (fastforce simp: excesses_def)

lemma percentile_in_range:
  assumes "0 \<le> pct" "pct \<le> 1" "0 < n" "n < 2 ^ 53"
  shows "percentile_index pct n < n"
proof -
  let ?d = "double_of_int (int n - 1)"
  have d: "?d = of_int (int n - 1)" unfolding double_of_int_def using assms(3,4) by (intro fl_int) simp
  have "pct * ?d \<le> 1 * ?d" using assms(2,3) d by (intro mult_right_mono) simp_all
  then have "fl (pct * ?d) \<le> fl ?d" by (intro fl_mono) simp
  also have "\<dots> = of_int (int n - 1)" using d by (simp add: double_of_int_def)
  finally have "int_of_double (fl (pct * ?d)) \<le> int_of_double (of_int (int n - 1))" by (rule int_of_double_mono)
  also have "\<dots> = int n - 1" using assms(3) by (simp add: int_of_double_def)
  finally show ?thesis using assms(3) by (simp add: percentile_index_def nat_less_iff)
qed

lemma nth_smallest_in: "k < length xs \<Longrightarrow> nth_smallest k xs \<in> set xs"
  by (metis length_sort nth_mem nth_smallest_def set_sort)

text \<open>At least \<open>k + 1\<close> elements are no greater than the one at position \<open>k\<close> of the sorted list.\<close>

lemma nth_smallest_covers:
  assumes "k < length xs"
  shows "k < length (filter (\<lambda>x. x \<le> nth_smallest k xs) xs)"
proof -
  let ?s = "sort xs"
  have "take (Suc k) ?s = filter (\<lambda>x. x \<le> ?s ! k) (take (Suc k) ?s)"
    using assms by (intro sym [OF filter_True]) (auto simp: in_set_conv_nth intro!: sorted_nth_mono)
  then have "Suc k \<le> length (filter (\<lambda>x. x \<le> ?s ! k) (take (Suc k) ?s))"
    using assms by (metis Suc_leI length_sort length_take min.absorb2 order_refl)
  also have "\<dots> \<le> length (filter (\<lambda>x. x \<le> ?s ! k) ?s)"
    by (metis append_take_drop_id filter_append le_add1 length_append)
  also have "\<dots> = length (filter (\<lambda>x. x \<le> ?s ! k) xs)"
    by (metis mset_filter mset_sort size_mset)
  finally show ?thesis by (simp add: nth_smallest_def)
qed

section \<open>A fed clock\<close>

lemma length_filter_mono: "(\<And>x. P x \<Longrightarrow> Q x) \<Longrightarrow> length (filter P xs) \<le> length (filter Q xs)"
  by (induction xs) auto

definition clock_ok :: "playout_cfg \<Rightarrow> int \<Rightarrow> nat \<Rightarrow> playout \<Rightarrow> bool" where
  "clock_ok c now n p \<longleftrightarrow> po_cfg p = c \<and> 0 \<le> delay_us p \<and> delay_us p \<le> max_delay_us c
     \<and> (last_update_us p = 0 \<or> last_update_us p \<le> now) \<and> length (po_samples p) \<le> n"

lemma follow_delay_bounds:
  assumes "0 \<le> t" "t \<le> m" "0 \<le> delay_us p" "delay_us p \<le> m" "last_update_us p = 0 \<or> last_update_us p \<le> now"
  shows "t \<le> follow_delay t now p" "follow_delay t now p \<le> m"
proof -
  have "0 \<le> ((now - last_update_us p) * uint (decay_ms_per_s (po_cfg p))) sdiv 1000" if "last_update_us p \<le> now"
    using that by (auto simp: signed_divide_int_def sgn_if pos_imp_zdiv_nonneg_iff zero_le_mult_iff)
  then show "t \<le> follow_delay t now p" "follow_delay t now p \<le> m"
    using assms by (auto simp: follow_delay_def)
qed

lemma unwrap_fields [simp]:
  "po_cfg (unwrap_capture ts p) = po_cfg p" "po_samples (unwrap_capture ts p) = po_samples p"
  "delay_us (unwrap_capture ts p) = delay_us p" "last_update_us (unwrap_capture ts p) = last_update_us p"
  by (simp_all add: unwrap_capture_def)

text \<open>One frame with a capture time.\<close>

lemma playout_time_stamped:
  assumes c: "0 \<le> percentile c" "percentile c \<le> 1" and n: "Suc n < 2 ^ 53" and p: "clock_ok c now n p"
    and now: "now \<le> arrival" and fl: "flags hdr AND VIDEO_FLAG_CAPTURE_TIME \<noteq> 0"
    and r: "playout_time hdr arrival p = (p', t)"
  shows "clock_ok c arrival (Suc n) p'"
    "arrival \<le> t \<and> t \<le> arrival + max_delay_us c"
    "delay_us p' = max_delay_us c \<or>
      percentile_index (percentile c) (length (po_samples p'))
        < length (filter (\<lambda>(_, x). x - Min (snd ` set (po_samples p')) \<le> delay_us p') (po_samples p'))"
proof -
  define transit where "transit = arrival - last_ext_ms (unwrap_capture (timestamp hdr) p) * 1000"
  define ss where "ss = recent_samples (uint (window_ms c) * 1000) arrival (po_samples p @ [(arrival, transit)])"
  define ex where "ex = excesses (base_transit transit ss) ss"
  define k where "k = percentile_index (percentile c) (length ex)"
  define target where "target = min (nth_smallest k ex) (max_delay_us c)"
  have cfg: "po_cfg p = c" using p by (simp add: clock_ok_def)
  have p': "po_cfg p' = c" "po_samples p' = ss" "delay_us p' = follow_delay target arrival p" "last_update_us p' = arrival"
    and t: "t = clamp_time (arrival - transit + base_transit transit ss + follow_delay target arrival p)
              arrival (arrival + max_delay_us c)"
    using r fl cfg unfolding transit_def ss_def ex_def k_def target_def
    by (auto simp: playout_time_def Let_def)
  obtain ys where ys: "ss = ys @ [(arrival, transit)]"
    using recent_keeps_new [of "uint (window_ms c) * 1000" arrival "po_samples p" transit] by (auto simp: ss_def)
  have len: "length ss \<le> Suc n"
    using p length_dropWhile_le [of "\<lambda>(t, _). arrival - t > uint (window_ms c) * 1000" "po_samples p @ [(arrival, transit)]"]
    by (simp add: ss_def recent_samples_def clock_ok_def)
  have k: "k < length ex"
    unfolding k_def using c n len ys by (intro percentile_in_range) (auto simp: ex_def excesses_def)
  have m: "0 \<le> max_delay_us c" by (simp add: max_delay_us_def)
  have tg: "0 \<le> target" "target \<le> max_delay_us c"
    using excesses_nonneg nth_smallest_in [OF k] m by (auto simp: target_def ex_def)
  have d: "target \<le> delay_us p'" "delay_us p' \<le> max_delay_us c"
    using follow_delay_bounds [OF tg, of p arrival] p now by (auto simp: p' clock_ok_def)
  show "clock_ok c arrival (Suc n) p'" using p' len tg d by (simp add: clock_ok_def)
  show "arrival \<le> t \<and> t \<le> arrival + max_delay_us c" using m by (simp add: t clamp_time_def)
  show "delay_us p' = max_delay_us c \<or>
      percentile_index (percentile c) (length (po_samples p'))
        < length (filter (\<lambda>(_, x). x - Min (snd ` set (po_samples p')) \<le> delay_us p') (po_samples p'))"
  proof (cases "nth_smallest k ex \<le> max_delay_us c")
    case True
    have base: "base_transit transit ss = Min (snd ` set ss)" using ys by (intro base_is_Min) force
    have "k < length (filter (\<lambda>x. x \<le> nth_smallest k ex) ex)" by (rule nth_smallest_covers [OF k])
    also have "\<dots> \<le> length (filter (\<lambda>x. x \<le> delay_us p') ex)"
      using True d by (intro length_filter_mono) (auto simp: target_def)
    also have "\<dots> = length (filter (\<lambda>(_, x). x - Min (snd ` set ss) \<le> delay_us p') ss)"
      by (simp add: ex_def excesses_def base filter_map comp_def case_prod_unfold)
    finally show ?thesis using p' by (simp add: k_def ex_def excesses_def)
  next
    case False
    then show ?thesis using d by (simp add: target_def)
  qed
qed

fun feed :: "(frame_header \<times> int) list \<Rightarrow> playout \<Rightarrow> playout" where
  "feed [] p = p"
| "feed ((h, t) # fs) p = feed fs (fst (playout_time h t p))"

lemma feed_snoc [simp]: "feed (fs @ [(h, t)]) p = fst (playout_time h t (feed fs p))"
  by (induction fs p rule: feed.induct) auto

lemma clock_ok_later: "clock_ok c now n p \<Longrightarrow> now \<le> now' \<Longrightarrow> n \<le> m \<Longrightarrow> clock_ok c now' m p"
  by (auto simp: clock_ok_def)

lemma playout_time_plain: "flags hdr AND VIDEO_FLAG_CAPTURE_TIME = 0 \<Longrightarrow> playout_time hdr a p = (p, a)"
  by (simp add: playout_time_def)

lemma playout_time_ok:
  assumes "0 \<le> percentile c" "percentile c \<le> 1" "Suc n < 2 ^ 53" "clock_ok c now n p" "now \<le> arrival"
  shows "clock_ok c arrival (Suc n) (fst (playout_time hdr arrival p))"
proof (cases "flags hdr AND VIDEO_FLAG_CAPTURE_TIME = 0")
  case True
  then show ?thesis using clock_ok_later [OF assms(4,5)] by (simp add: playout_time_plain)
next
  case False
  show ?thesis by (rule playout_time_stamped(1) [OF assms False prod.collapse [symmetric]])
qed

lemma feed_ok:
  assumes "0 \<le> percentile c" "percentile c \<le> 1" "length fs < 2 ^ 53" "sorted (map snd fs @ [now])"
  shows "clock_ok c now (length fs) (feed fs (new_playout c))"
  using assms(3,4)
proof (induction fs arbitrary: now rule: rev_induct)
  case Nil
  then show ?case by (simp add: clock_ok_def new_playout_def max_delay_us_def)
next
  case (snoc f fs)
  obtain h t where f: "f = (h, t)" by (cases f)
  have "clock_ok c t (length fs) (feed fs (new_playout c))" using snoc f by (simp add: sorted_append)
  then have "clock_ok c t (Suc (length fs)) (feed (fs @ [f]) (new_playout c))"
    using snoc.prems(1) f playout_time_ok [OF assms(1,2), of "length fs" t _ t h] by simp
  then show ?case using snoc.prems f by (auto simp: sorted_append intro: clock_ok_later)
qed

text \<open>(C39) A viewer's jitter clock, fed any frames with any capture stamps in order of arrival: a frame is
  presented no earlier than it arrived and at most \<open>max_delay_ms\<close> later, on arrival when it carries no
  capture time; the delay in force stays between zero and that limit; and after a stamped frame the
  delay either stands at the limit or covers the configured percentile: more than \<open>percentile_index\<close>
  of the window's frames have a transit within the delay of the fastest one.\<close>

theorem playout_covers_jitter:
  assumes "0 \<le> percentile c" and "percentile c \<le> 1" and "length fs + 1 < 2 ^ 53"
    and "sorted (map snd fs @ [arrival])" and "playout_time hdr arrival (feed fs (new_playout c)) = (p', t)"
  shows "arrival \<le> t \<and> t \<le> arrival + max_delay_us c \<and> 0 \<le> delay_us p' \<and> delay_us p' \<le> max_delay_us c
    \<and> (if flags hdr AND VIDEO_FLAG_CAPTURE_TIME = 0 then t = arrival
       else delay_us p' = max_delay_us c \<or>
         percentile_index (percentile c) (length (po_samples p'))
           < length (filter (\<lambda>(_, x). x - Min (snd ` set (po_samples p')) \<le> delay_us p') (po_samples p')))"
proof -
  have ok: "clock_ok c arrival (length fs) (feed fs (new_playout c))"
    using assms(1-4) by (intro feed_ok) simp_all
  show ?thesis
  proof (cases "flags hdr AND VIDEO_FLAG_CAPTURE_TIME = 0")
    case True
    then show ?thesis using ok assms(5) by (simp add: playout_time_plain clock_ok_def max_delay_us_def)
  next
    case False
    show ?thesis
      using playout_time_stamped [OF assms(1,2) _ ok order_refl False assms(5)] assms(3) False
      by (simp add: clock_ok_def)
  qed
qed

text \<open>Three frames, one of them 40 ms late: the clock delays the stream by 40 ms.\<close>

definition stamped :: "u32 \<Rightarrow> u32 \<Rightarrow> frame_header" where
  "stamped n ts = \<lparr>frame_seq = n, timestamp = ts, flags = VIDEO_FLAG_CAPTURE_TIME, width = 640, height = 480, codec = 1\<rparr>"

definition jitter_feed :: "(frame_header \<times> int) list" where
  "jitter_feed = [(stamped 0 0, 1000000), (stamped 1 30, 1070000)]"

definition jitter_view :: "playout \<times> int \<Rightarrow> int \<times> int \<times> nat" where
  "jitter_view r = (snd r, delay_us (fst r), length (po_samples (fst r)))"

definition demo_playout_cfg :: playout_cfg where
  "demo_playout_cfg = \<lparr>max_delay_ms = 300, window_ms = 3000, percentile = 1, decay_ms_per_s = 0\<rparr>"

lemma jitter_view: "jitter_view (playout_time (stamped 2 60) 1070000 (feed jitter_feed (new_playout demo_playout_cfg)))
    = (1100000, 40000, 3)"
  by code_simp

lemma playout_covers_jitter_witness:
  "\<exists>p' t. playout_time (stamped 2 60) 1070000 (feed jitter_feed (new_playout demo_playout_cfg)) = (p', t)
     \<and> t = 1100000 \<and> delay_us p' = 40000 \<and> t \<le> 1070000 + max_delay_us demo_playout_cfg"
proof -
  obtain p' t where r: "playout_time (stamped 2 60) 1070000 (feed jitter_feed (new_playout demo_playout_cfg)) = (p', t)"
    by fastforce
  have "t \<le> 1070000 + max_delay_us demo_playout_cfg"
    using playout_covers_jitter [OF _ _ _ _ r] by (simp add: demo_playout_cfg_def jitter_feed_def)
  then show ?thesis using r jitter_view by (simp add: jitter_view_def)
qed

end
