(* ===== verification/Receive_Router.thy ===== *)
theory Receive_Router
  imports Frame_Reorder Video_Playout "HOL-Library.AList"
begin

text \<open>
  \<open>common/include/parties/video_receive_router.h\<close> and \<open>common/src/video_receive_router.cpp\<close>: the viewer's
  side of the frame streams. One record holds the router: a reorder buffer, a jitter clock and
  counters per watched stream, the pacing of keyframe requests, and the playout queues. Each member
  function is one operation. What the callbacks \<open>deliver_\<close> and \<open>send_request_\<close> (both always set by the
  client) are called with is appended to \<open>rr_out\<close>, with the time of the call.

  A reorder operation returns the calls it makes in order; the callbacks built by \<open>deliver_fn\<close> and
  \<open>lost_fn\<close> touch everything but the buffer, so they run over that list (\<open>emit_event\<close>). The playout
  thread is two steps, as the queue's lock is released in between: \<open>playout_collect\<close> moves the due
  frames aside, \<open>playout_flush\<close> hands them out.
\<close>

section \<open>State\<close>

record router_cfg =
  rc_reorder :: reorder_cfg
  base_backoff_ms :: u32
  max_backoff_ms :: u32
  rc_playout :: bool
  rc_clock :: playout_cfg

definition default_router_cfg :: router_cfg where
  "default_router_cfg = \<lparr>rc_reorder = default_reorder_cfg, base_backoff_ms = 500, max_backoff_ms = 4000,
     rc_playout = True, rc_clock = default_playout_cfg\<rparr>"

record router_stats =
  frames_delivered :: u64
  keyframes_delivered :: u64
  requests_sent :: u64
  requests_paced :: u64
  playout_delay_us :: int

definition no_stats :: router_stats where
  "no_stats = \<lparr>frames_delivered = 0, keyframes_delivered = 0, requests_sent = 0, requests_paced = 0, playout_delay_us = 0\<rparr>"

record pacing =
  next_us :: int
  backoff_us :: int

record stream_state =
  ss_buffer :: reorder
  ss_clock :: playout
  ss_stats :: router_stats

record queued_frame =
  pf_at :: int
  pf_hdr :: frame_header
  pf_frame :: bytes

datatype router_out = Handed u32 frame_header bytes | Requested u32

record router =
  rr_cfg :: router_cfg
  rr_streams :: "(u32 \<times> stream_state) list"
  rr_rtt :: u32
  rr_pacing :: "u32 \<rightharpoonup> pacing"
  rr_pacing_stats :: "u32 \<rightharpoonup> router_stats"
  rr_pending :: "(u32 \<times> queued_frame list) list"
  rr_due :: "(u32 \<times> queued_frame) list"
  rr_out :: "(int \<times> router_out) list"

definition MAX_PENDING_FRAMES :: nat where "MAX_PENDING_FRAMES = 64"

definition new_router :: "router_cfg \<Rightarrow> router" where
  "new_router c =
     (let c1 = (if base_backoff_ms c = 0 then c\<lparr>base_backoff_ms := 1\<rparr> else c);
          c2 = (if max_backoff_ms c1 < base_backoff_ms c1 then c1\<lparr>max_backoff_ms := base_backoff_ms c1\<rparr> else c1)
      in \<lparr>rr_cfg = c2, rr_streams = [], rr_rtt = 0, rr_pacing = Map.empty, rr_pacing_stats = Map.empty,
          rr_pending = [], rr_due = [], rr_out = []\<rparr>)"

definition base_us :: "router_cfg \<Rightarrow> int" where
  "base_us c = uint (base_backoff_ms c) * 1000"

definition cap_us :: "router_cfg \<Rightarrow> int" where
  "cap_us c = uint (max_backoff_ms c) * 1000"

section \<open>Watching\<close>

definition router_open :: "u32 \<Rightarrow> int \<Rightarrow> router \<Rightarrow> router" where
  "router_open s now r =
     (let st = \<lparr>ss_buffer = set_rtt (rr_rtt r) (new_reorder (rc_reorder (rr_cfg r))),
                ss_clock = new_playout (rc_clock (rr_cfg r)), ss_stats = no_stats\<rparr>;
          r1 = r\<lparr>rr_streams := AList.update s st (rr_streams r), rr_pacing := (rr_pacing r)(s := None),
                 rr_pacing_stats := (rr_pacing_stats r)(s := None)\<rparr>
      in if now \<noteq> 0
         then r1\<lparr>rr_pacing := (rr_pacing r1)(s \<mapsto> \<lparr>next_us = now + base_us (rr_cfg r), backoff_us = base_us (rr_cfg r)\<rparr>)\<rparr>
         else r1)"

definition router_close :: "u32 \<Rightarrow> router \<Rightarrow> router" where
  "router_close s r = r\<lparr>rr_streams := AList.delete s (rr_streams r), rr_pending := AList.delete s (rr_pending r),
     rr_pacing := (rr_pacing r)(s := None), rr_pacing_stats := (rr_pacing_stats r)(s := None)\<rparr>"

definition close_all :: "router \<Rightarrow> router" where
  "close_all r = r\<lparr>rr_streams := [], rr_pending := [], rr_pacing := Map.empty, rr_pacing_stats := Map.empty\<rparr>"

definition is_open :: "u32 \<Rightarrow> router \<Rightarrow> bool" where
  "is_open s r \<longleftrightarrow> map_of (rr_streams r) s \<noteq> None"

definition router_set_rtt :: "u32 \<Rightarrow> router \<Rightarrow> router" where
  "router_set_rtt rtt r = r\<lparr>rr_rtt := rtt,
     rr_streams := map (\<lambda>(s, st). (s, st\<lparr>ss_buffer := set_rtt rtt (ss_buffer st)\<rparr>)) (rr_streams r)\<rparr>"

section \<open>Keyframe requests\<close>

definition request_keyframe :: "u32 \<Rightarrow> int \<Rightarrow> router \<Rightarrow> router" where
  "request_keyframe s now r =
     (let p0 = (case rr_pacing r s of None \<Rightarrow> \<lparr>next_us = 0, backoff_us = 0\<rparr> | Some p \<Rightarrow> p);
          st = (case rr_pacing_stats r s of None \<Rightarrow> no_stats | Some x \<Rightarrow> x);
          p = (if backoff_us p0 = 0 then p0\<lparr>backoff_us := base_us (rr_cfg r)\<rparr> else p0)
      in if now < next_us p
         then r\<lparr>rr_pacing := (rr_pacing r)(s \<mapsto> p),
                rr_pacing_stats := (rr_pacing_stats r)(s \<mapsto> st\<lparr>requests_paced := requests_paced st + 1\<rparr>)\<rparr>
         else r\<lparr>rr_pacing := (rr_pacing r)(s \<mapsto> \<lparr>next_us = now + backoff_us p, backoff_us = min (backoff_us p * 2) (cap_us (rr_cfg r))\<rparr>),
                rr_pacing_stats := (rr_pacing_stats r)(s \<mapsto> st\<lparr>requests_sent := requests_sent st + 1\<rparr>),
                rr_out := rr_out r @ [(now, Requested s)]\<rparr>)"

definition keyframe_arrived :: "u32 \<Rightarrow> router \<Rightarrow> router" where
  "keyframe_arrived s r =
     (case rr_pacing r s of None \<Rightarrow> r
      | Some p \<Rightarrow> r\<lparr>rr_pacing := (rr_pacing r)(s \<mapsto> \<lparr>next_us = 0, backoff_us = base_us (rr_cfg r)\<rparr>)\<rparr>)"

section \<open>Delivery\<close>

definition push_pending :: "u32 \<Rightarrow> queued_frame \<Rightarrow> (u32 \<times> queued_frame list) list \<Rightarrow> (u32 \<times> queued_frame list) list" where
  "push_pending s p m = AList.update s ((case map_of m s of None \<Rightarrow> [] | Some q \<Rightarrow> q) @ [p]) m"

definition count_delivery :: "frame_header \<Rightarrow> router_stats \<Rightarrow> router_stats" where
  "count_delivery hdr x = x\<lparr>frames_delivered := frames_delivered x + 1,
     keyframes_delivered := (if keyframe hdr then keyframes_delivered x + 1 else keyframes_delivered x)\<rparr>"

definition deliver_fn :: "u32 \<Rightarrow> int \<Rightarrow> frame_header \<Rightarrow> bytes \<Rightarrow> router \<Rightarrow> router" where
  "deliver_fn s now hdr frame r =
     (case map_of (rr_streams r) s of None \<Rightarrow> r
      | Some st \<Rightarrow>
          let st1 = st\<lparr>ss_stats := count_delivery hdr (ss_stats st)\<rparr>;
              r1 = r\<lparr>rr_streams := AList.update s st1 (rr_streams r)\<rparr>;
              r2 = (if keyframe hdr then keyframe_arrived s r1 else r1)
          in if \<not> rc_playout (rr_cfg r2) then r2\<lparr>rr_out := rr_out r2 @ [(now, Handed s hdr frame)]\<rparr>
             else let (clk, t) = playout_time hdr now (ss_clock st1);
                      st2 = st1\<lparr>ss_clock := clk, ss_stats := (ss_stats st1)\<lparr>playout_delay_us := delay_us clk\<rparr>\<rparr>
                  in r2\<lparr>rr_streams := AList.update s st2 (rr_streams r2),
                        rr_pending := push_pending s \<lparr>pf_at = t, pf_hdr = hdr, pf_frame = frame\<rparr> (rr_pending r2)\<rparr>)"

fun emit_event :: "u32 \<Rightarrow> int \<Rightarrow> router \<Rightarrow> reorder_event \<Rightarrow> router" where
  "emit_event s now r (Deliver hdr frame) = deliver_fn s now hdr frame r"
| "emit_event s now r (Lost seq) = request_keyframe s now r"

text \<open>A reorder operation on the buffer of an open stream, with its callbacks.\<close>

definition on_buffer :: "u32 \<Rightarrow> int \<Rightarrow> (reorder \<Rightarrow> reorder \<times> reorder_event list) \<Rightarrow> router \<Rightarrow> router" where
  "on_buffer s now f r =
     (case map_of (rr_streams r) s of None \<Rightarrow> r
      | Some st \<Rightarrow> let (b, es) = f (ss_buffer st)
                  in foldl (emit_event s now) (r\<lparr>rr_streams := AList.update s (st\<lparr>ss_buffer := b\<rparr>) (rr_streams r)\<rparr>) es)"

definition router_on_frame_started :: "u32 \<Rightarrow> frame_header \<Rightarrow> int \<Rightarrow> router \<Rightarrow> router" where
  "router_on_frame_started s hdr now r = on_buffer s now (\<lambda>b. (on_frame_started hdr now b, [])) r"

definition router_on_frame :: "u32 \<Rightarrow> bytes \<Rightarrow> int \<Rightarrow> router \<Rightarrow> router" where
  "router_on_frame s frame now r =
     (case header_parse frame of None \<Rightarrow> r | Some hdr \<Rightarrow> on_buffer s now (on_frame hdr frame now) r)"

definition router_on_frame_aborted :: "u32 \<Rightarrow> u32 \<Rightarrow> bool \<Rightarrow> int \<Rightarrow> router \<Rightarrow> router" where
  "router_on_frame_aborted s seq have_seq now r =
     (case map_of (rr_streams r) s of None \<Rightarrow> r
      | Some st \<Rightarrow>
          if have_seq then on_buffer s now (on_frame_aborted seq now) r
          else if keyframe_in_flight (ss_buffer st) now then r
          else request_keyframe s now r)"

section \<open>The tick\<close>

definition candidate :: "int \<Rightarrow> router \<Rightarrow> u32 \<Rightarrow> u32 \<times> bool \<times> bool" where
  "candidate now r s =
     (case map_of (rr_streams r) s of None \<Rightarrow> (s, False, True)
      | Some st \<Rightarrow> (s, should_request_keyframe (ss_buffer st) now, keyframe_in_flight (ss_buffer st) now))"

fun poll_streams :: "int \<Rightarrow> u32 list \<Rightarrow> router \<Rightarrow> router \<times> (u32 \<times> bool \<times> bool) list" where
  "poll_streams now [] r = (r, [])"
| "poll_streams now (s # ss) r =
     (let r1 = on_buffer s now (poll now) r; c = candidate now r1 s; (r2, cs) = poll_streams now ss r1
      in (r2, c # cs))"

fun ask_candidates :: "(u32 \<Rightarrow> bool) \<Rightarrow> int \<Rightarrow> (u32 \<times> bool \<times> bool) list \<Rightarrow> router \<Rightarrow> router" where
  "ask_candidates decoder_needs now [] r = r"
| "ask_candidates decoder_needs now ((s, wants, key_arriving) # cs) r =
     ask_candidates decoder_needs now cs
       (if wants \<or> \<not> key_arriving \<and> decoder_needs s then request_keyframe s now r else r)"

definition router_tick :: "(u32 \<Rightarrow> bool) \<Rightarrow> int \<Rightarrow> router \<Rightarrow> router" where
  "router_tick decoder_needs now r =
     (let (r1, cs) = poll_streams now (map fst (rr_streams r)) r in ask_candidates decoder_needs now cs r1)"

definition router_should_request_keyframe :: "u32 \<Rightarrow> int \<Rightarrow> router \<Rightarrow> bool" where
  "router_should_request_keyframe s now r =
     (case map_of (rr_streams r) s of None \<Rightarrow> False | Some st \<Rightarrow> should_request_keyframe (ss_buffer st) now)"

definition router_stats_of :: "u32 \<Rightarrow> router \<Rightarrow> router_stats" where
  "router_stats_of s r =
     (let x = (case map_of (rr_streams r) s of None \<Rightarrow> no_stats | Some st \<Rightarrow> ss_stats st)
      in case rr_pacing_stats r s of None \<Rightarrow> x
         | Some y \<Rightarrow> x\<lparr>requests_sent := requests_sent y, requests_paced := requests_paced y\<rparr>)"

section \<open>The playout thread\<close>

fun take_due :: "int \<Rightarrow> queued_frame list \<Rightarrow> queued_frame list \<times> queued_frame list" where
  "take_due now [] = ([], [])"
| "take_due now (p # q) =
     (if pf_at p \<le> now \<or> length (p # q) > MAX_PENDING_FRAMES
      then let (d, rest) = take_due now q in (p # d, rest)
      else ([], p # q))"

definition playout_collect :: "int \<Rightarrow> router \<Rightarrow> router" where
  "playout_collect now r = r\<lparr>rr_due := rr_due r @ concat (map (\<lambda>(s, q). map (Pair s) (fst (take_due now q))) (rr_pending r)),
     rr_pending := map (\<lambda>(s, q). (s, snd (take_due now q))) (rr_pending r)\<rparr>"

definition playout_flush :: "int \<Rightarrow> router \<Rightarrow> router" where
  "playout_flush now r = r\<lparr>rr_out := rr_out r @ map (\<lambda>(s, p). (now, Handed s (pf_hdr p) (pf_frame p))) (rr_due r), rr_due := []\<rparr>"

text \<open>How long the thread sleeps: forever when nothing is queued, else until the earliest front.\<close>

definition playout_wait :: "int \<Rightarrow> router \<Rightarrow> int option" where
  "playout_wait now r =
     (case concat (map (\<lambda>(s, q). case q of [] \<Rightarrow> [] | p # _ \<Rightarrow> [pf_at p]) (rr_pending r)) of
        [] \<Rightarrow> None | t # ts \<Rightarrow> Some (foldl min t ts - now))"

end
