(* ===== verification/Router_Refine.thy ===== *)
theory Router_Refine
  imports Receive_Router
begin

text \<open>
  The router against its parts. For every stream, whatever else the router does: the buffer of an
  open stream goes through exactly the operations addressed to it; what its decoder has been handed,
  followed by what is due and what is queued, is exactly what that buffer delivered; and the
  keyframe requests on the wire follow the backoff. The proofs go through one abstraction per
  stream (\<open>view\<close>) that every router operation refines.
\<close>

section \<open>Operations as data\<close>

datatype router_op =
  R_Open u32 int
| R_Close u32
| R_Close_All
| R_Rtt u32
| R_Started u32 frame_header int
| R_Frame u32 bytes int
| R_Aborted u32 u32 bool int
| R_Request u32 int
| R_Tick "u32 \<Rightarrow> bool" int
| R_Collect int
| R_Flush int

fun router_do :: "router_op \<Rightarrow> router \<Rightarrow> router" where
  "router_do (R_Open s now) r = router_open s now r"
| "router_do (R_Close s) r = router_close s r"
| "router_do R_Close_All r = close_all r"
| "router_do (R_Rtt rtt) r = router_set_rtt rtt r"
| "router_do (R_Started s hdr now) r = router_on_frame_started s hdr now r"
| "router_do (R_Frame s frame now) r = router_on_frame s frame now r"
| "router_do (R_Aborted s seq have_seq now) r = router_on_frame_aborted s seq have_seq now r"
| "router_do (R_Request s now) r = request_keyframe s now r"
| "router_do (R_Tick needs now) r = router_tick needs now r"
| "router_do (R_Collect now) r = playout_collect now r"
| "router_do (R_Flush now) r = playout_flush now r"

definition router_run :: "router_op list \<Rightarrow> router \<Rightarrow> router" where
  "router_run ops r = foldl (\<lambda>r op. router_do op r) r ops"

lemma router_run_simps [simp]:
  "router_run [] r = r" "router_run (op # ops) r = router_run ops (router_do op r)"
  by (simp_all add: router_run_def)

text \<open>What of an operation reaches the buffer of stream \<open>s\<close>.\<close>

fun project :: "u32 \<Rightarrow> router_op \<Rightarrow> reorder_op list" where
  "project s (R_Rtt rtt) = [Rtt rtt]"
| "project s (R_Started s' hdr now) = (if s' = s then [Started hdr now] else [])"
| "project s (R_Frame s' frame now) =
     (if s' = s then (case header_parse frame of None \<Rightarrow> [] | Some hdr \<Rightarrow> [Arrived hdr frame now]) else [])"
| "project s (R_Aborted s' seq have_seq now) = (if s' = s \<and> have_seq then [Aborted seq now] else [])"
| "project s (R_Tick needs now) = [Polled now]"
| "project s op = []"

fun keeps :: "u32 \<Rightarrow> router_op \<Rightarrow> bool" where
  "keeps s (R_Open s' now) \<longleftrightarrow> s' \<noteq> s"
| "keeps s (R_Close s') \<longleftrightarrow> s' \<noteq> s"
| "keeps s R_Close_All \<longleftrightarrow> False"
| "keeps s op \<longleftrightarrow> True"

section \<open>What one stream sees\<close>

type_synonym frames = "(frame_header \<times> bytes) list"

fun handed :: "u32 \<Rightarrow> router_out \<Rightarrow> frames" where
  "handed s (Handed s' hdr frame) = (if s' = s then [(hdr, frame)] else [])"
| "handed s (Requested s') = []"

definition out_of :: "u32 \<Rightarrow> router \<Rightarrow> frames" where
  "out_of s r = concat (map (\<lambda>(t, x). handed s x) (rr_out r))"

definition frame_of :: "queued_frame \<Rightarrow> frame_header \<times> bytes" where
  "frame_of p = (pf_hdr p, pf_frame p)"

definition due_of :: "u32 \<Rightarrow> router \<Rightarrow> frames" where
  "due_of s r = map (frame_of \<circ> snd) (filter (\<lambda>(s', _). s' = s) (rr_due r))"

definition pending_of :: "u32 \<Rightarrow> router \<Rightarrow> frames" where
  "pending_of s r = (case map_of (rr_pending r) s of None \<Rightarrow> [] | Some q \<Rightarrow> map frame_of q)"

definition track :: "u32 \<Rightarrow> router \<Rightarrow> frames" where
  "track s r = out_of s r @ due_of s r @ pending_of s r"

fun pace_in :: "int \<Rightarrow> pacing option \<Rightarrow> int \<times> int" where
  "pace_in b None = (0, b)"
| "pace_in b (Some p) = (next_us p, if backoff_us p = 0 then b else backoff_us p)"

definition pace_of :: "u32 \<Rightarrow> router \<Rightarrow> int \<times> int" where
  "pace_of s r = pace_in (base_us (rr_cfg r)) (rr_pacing r s)"

definition requests_of :: "u32 \<Rightarrow> router \<Rightarrow> int list" where
  "requests_of s r = map fst (filter (\<lambda>(t, x). x = Requested s) (rr_out r))"

record stream_view =
  v_track :: frames
  v_pace :: "int \<times> int"
  v_requests :: "int list"

definition view :: "u32 \<Rightarrow> router \<Rightarrow> stream_view" where
  "view s r = \<lparr>v_track = track s r, v_pace = pace_of s r, v_requests = requests_of s r\<rparr>"

definition buffer_of :: "u32 \<Rightarrow> router \<Rightarrow> reorder option" where
  "buffer_of s r = map_option ss_buffer (map_of (rr_streams r) s)"

section \<open>The abstract stream\<close>

definition view_request :: "router_cfg \<Rightarrow> int \<Rightarrow> stream_view \<Rightarrow> stream_view" where
  "view_request c now v =
     (let (nx, bo) = v_pace v
      in if now < nx then v
         else v\<lparr>v_pace := (now + bo, min (bo * 2) (cap_us c)), v_requests := v_requests v @ [now]\<rparr>)"

fun view_emit :: "router_cfg \<Rightarrow> int \<Rightarrow> stream_view \<Rightarrow> reorder_event \<Rightarrow> stream_view" where
  "view_emit c now v (Deliver hdr frame) =
     v\<lparr>v_track := v_track v @ [(hdr, frame)], v_pace := (if keyframe hdr then (0, base_us c) else v_pace v)\<rparr>"
| "view_emit c now v (Lost seq) = view_request c now v"

text \<open>The router's own consistency: one entry per stream, backoffs positive, and nothing queued when frames
  are delivered inline.\<close>

definition router_ok :: "router \<Rightarrow> bool" where
  "router_ok r \<longleftrightarrow> distinct (map fst (rr_streams r)) \<and> distinct (map fst (rr_pending r))
     \<and> 0 < base_us (rr_cfg r) \<and> base_us (rr_cfg r) \<le> cap_us (rr_cfg r)
     \<and> (\<not> rc_playout (rr_cfg r) \<longrightarrow> rr_due r = [] \<and> rr_pending r = [])
     \<and> (\<forall>s p. rr_pacing r s = Some p \<longrightarrow> 0 < backoff_us p)"

lemma uint_pos_iff: "0 < uint (x :: u32) \<longleftrightarrow> x \<noteq> 0"
  by (auto simp: order_less_le uint_0_iff)

lemma new_router_ok: "router_ok (new_router c)"
  by (auto simp: router_ok_def new_router_def base_us_def cap_us_def Let_def word_le_def not_less uint_pos_iff)

lemma pending_push: "map_of (push_pending s p m) s' = (if s' = s then Some ((case map_of m s of None \<Rightarrow> [] | Some q \<Rightarrow> q) @ [p]) else map_of m s')"
  by (simp add: push_pending_def update_conv')

lemma request_view:
  assumes "router_ok r"
  shows "view s (request_keyframe s' now r) = (if s = s' then view_request (rr_cfg r) now (view s r) else view s r)"
    and "router_ok (request_keyframe s' now r)" and "rr_cfg (request_keyframe s' now r) = rr_cfg r"
    and "rr_streams (request_keyframe s' now r) = rr_streams r"
    and "rr_rtt (request_keyframe s' now r) = rr_rtt r"
  using assms
  by (cases "rr_pacing r s'"; auto simp: request_keyframe_def Let_def view_def view_request_def track_def out_of_def
      due_of_def pending_of_def pace_of_def requests_of_def router_ok_def)+

lemma arrived_view:
  assumes "router_ok r"
  shows "view s (keyframe_arrived s' r) = (if s = s' then (view s r)\<lparr>v_pace := (0, base_us (rr_cfg r))\<rparr> else view s r)"
    and "router_ok (keyframe_arrived s' r)" and "rr_cfg (keyframe_arrived s' r) = rr_cfg r"
    and "rr_streams (keyframe_arrived s' r) = rr_streams r" and "rr_rtt (keyframe_arrived s' r) = rr_rtt r"
  using assms
  by (cases "rr_pacing r s'"; auto simp: keyframe_arrived_def view_def track_def out_of_def due_of_def pending_of_def
      pace_of_def requests_of_def router_ok_def)+

lemma distinct_push: "distinct (map fst m) \<Longrightarrow> distinct (map fst (push_pending s p m))"
  by (simp add: push_pending_def distinct_update)

lemma update_stream_view:
  "view s (r\<lparr>rr_streams := m\<rparr>) = view s r"
  "router_ok r \<Longrightarrow> distinct (map fst m) \<Longrightarrow> router_ok (r\<lparr>rr_streams := m\<rparr>)"
  by (simp_all add: view_def track_def out_of_def due_of_def pending_of_def pace_of_def requests_of_def router_ok_def)

lemma router_okD: "router_ok r \<Longrightarrow> distinct (map fst (rr_streams r))"
  by (simp add: router_ok_def)

text \<open>Appending a frame at the end of the stream's queue, or to the output when there is no queue.\<close>

lemma push_view:
  assumes "router_ok r" "rc_playout (rr_cfg r)"
  shows "view s (r\<lparr>rr_pending := push_pending s' p (rr_pending r)\<rparr>)
      = (if s = s' then (view s r)\<lparr>v_track := v_track (view s r) @ [frame_of p]\<rparr> else view s r)"
    and "router_ok (r\<lparr>rr_pending := push_pending s' p (rr_pending r)\<rparr>)"
  using assms
  by (cases "map_of (rr_pending r) s'"; simp add: view_def track_def out_of_def due_of_def pending_of_def pace_of_def
      requests_of_def router_ok_def pending_push distinct_push)+

lemma hand_view:
  assumes "router_ok r" "\<not> rc_playout (rr_cfg r)"
  shows "view s (r\<lparr>rr_out := rr_out r @ [(now, Handed s' hdr frame)]\<rparr>)
      = (if s = s' then (view s r)\<lparr>v_track := v_track (view s r) @ [(hdr, frame)]\<rparr> else view s r)"
    and "router_ok (r\<lparr>rr_out := rr_out r @ [(now, Handed s' hdr frame)]\<rparr>)"
  using assms
  by (simp_all add: view_def track_def out_of_def due_of_def pending_of_def pace_of_def requests_of_def router_ok_def)

definition same_frame :: "router \<Rightarrow> router \<Rightarrow> bool" where
  "same_frame r r' \<longleftrightarrow> router_ok r' \<and> rr_cfg r' = rr_cfg r \<and> rr_rtt r' = rr_rtt r
     \<and> (\<forall>s. buffer_of s r' = buffer_of s r) \<and> map fst (rr_streams r') = map fst (rr_streams r)"

lemma update_keys: "map_of m s = Some v \<Longrightarrow> map fst (AList.update s w m) = map fst m"
  by (induction m) (auto split: if_splits)

lemma deliver_view:
  assumes ok: "router_ok r" and st: "map_of (rr_streams r) s' = Some st"
  shows "same_frame r (deliver_fn s' now hdr frame r)"
    and "view s (deliver_fn s' now hdr frame r)
       = (if s = s' then view_emit (rr_cfg r) now (view s r) (Deliver hdr frame) else view s r)"
proof -
  let ?st1 = "st\<lparr>ss_stats := count_delivery hdr (ss_stats st)\<rparr>"
  let ?r1 = "r\<lparr>rr_streams := AList.update s' ?st1 (rr_streams r)\<rparr>"
  define r2 where "r2 = (if keyframe hdr then keyframe_arrived s' ?r1 else ?r1)"
  have ok1: "router_ok ?r1" using ok by (intro update_stream_view(2)) (simp_all add: router_ok_def distinct_update)
  note arr = arrived_view [OF ok1, where s' = s']
  have r2: "router_ok r2" "rr_cfg r2 = rr_cfg r" "rr_rtt r2 = rr_rtt r" "rr_streams r2 = rr_streams ?r1"
    using arr ok1 by (simp_all add: r2_def)
  have v2: "view s r2 = (if s = s' \<and> keyframe hdr then (view s r)\<lparr>v_pace := (0, base_us (rr_cfg r))\<rparr> else view s r)"
    using arr by (simp add: r2_def update_stream_view)
  obtain clk t where pt: "playout_time hdr now (ss_clock ?st1) = (clk, t)" by fastforce
  let ?st2 = "?st1\<lparr>ss_clock := clk, ss_stats := (ss_stats ?st1)\<lparr>playout_delay_us := delay_us clk\<rparr>\<rparr>"
  let ?p = "\<lparr>pf_at = t, pf_hdr = hdr, pf_frame = frame\<rparr>"
  have eq: "deliver_fn s' now hdr frame r =
    (if rc_playout (rr_cfg r2)
     then (let r3 = r2\<lparr>rr_pending := push_pending s' ?p (rr_pending r2)\<rparr>
           in r3\<lparr>rr_streams := AList.update s' ?st2 (rr_streams r2)\<rparr>)
     else r2\<lparr>rr_out := rr_out r2 @ [(now, Handed s' hdr frame)]\<rparr>)"
    using st pt by (simp add: deliver_fn_def Let_def r2_def [symmetric])
  have keys: "map fst (AList.update s' x (rr_streams r)) = map fst (rr_streams r)" for x by (rule update_keys [OF st])
  have d: "distinct (map fst (AList.update s' x (AList.update s' y (rr_streams r))))" for x y
    using ok by (intro distinct_update) (simp add: keys router_ok_def)
  show "same_frame r (deliver_fn s' now hdr frame r)"
    unfolding eq using r2 push_view(2) [OF r2(1)] hand_view(2) [OF r2(1)] d st
    by (auto simp: same_frame_def Let_def buffer_of_def update_conv' update_keys keys intro!: update_stream_view(2))
  show "view s (deliver_fn s' now hdr frame r)
      = (if s = s' then view_emit (rr_cfg r) now (view s r) (Deliver hdr frame) else view s r)"
    unfolding eq using r2 push_view(1) [OF r2(1), of s s' ?p] hand_view(1) [OF r2(1), of s] v2
    by (cases "rc_playout (rr_cfg r)"; cases "s = s'"; cases "keyframe hdr") (simp_all add: Let_def update_stream_view frame_of_def)
qed


lemma same_frame_refl: "router_ok r \<Longrightarrow> same_frame r r"
  by (simp add: same_frame_def)

lemma same_frame_trans: "same_frame a b \<Longrightarrow> same_frame b c \<Longrightarrow> same_frame a c"
  by (simp add: same_frame_def)

lemma request_same: "router_ok r \<Longrightarrow> same_frame r (request_keyframe s now r)"
  using request_view [of r] by (simp add: same_frame_def buffer_of_def)

lemma emit_view:
  assumes "router_ok r" and "buffer_of s' r \<noteq> None"
  shows "same_frame r (emit_event s' now r e)"
    and "view s (emit_event s' now r e) = (if s = s' then view_emit (rr_cfg r) now (view s r) e else view s r)"
  using assms deliver_view [OF assms(1)] request_view(1) [OF assms(1)] request_same [OF assms(1)]
  by (cases e; auto simp: buffer_of_def)+

lemma emits_view:
  assumes "router_ok r" and "buffer_of s' r \<noteq> None"
  shows "same_frame r (foldl (emit_event s' now) r es)
    \<and> view s (foldl (emit_event s' now) r es)
      = (if s = s' then foldl (view_emit (rr_cfg r) now) (view s r) es else view s r)"
  using assms
proof (induction es arbitrary: r)
  case Nil
  then show ?case by (simp add: same_frame_refl)
next
  case (Cons e es)
  let ?r = "emit_event s' now r e"
  have e: "same_frame r ?r" "view s ?r = (if s = s' then view_emit (rr_cfg r) now (view s r) e else view s r)"
    using emit_view [OF Cons.prems] by blast+
  then have "router_ok ?r" "buffer_of s' ?r \<noteq> None" "rr_cfg ?r = rr_cfg r"
    using Cons.prems by (simp_all add: same_frame_def)
  from Cons.IH [OF this(1,2)] this(3) e show ?case by (auto intro: same_frame_trans)
qed

text \<open>A reorder operation through the router is that operation on the stream's buffer, with its calls made.\<close>

lemma on_buffer_view:
  assumes ok: "router_ok r" and b: "buffer_of s' r = Some b" and f: "f b = (b', es)" and r'_def: "r' = on_buffer s' now f r"
  shows "router_ok r'" "rr_cfg r' = rr_cfg r" "rr_rtt r' = rr_rtt r" "map fst (rr_streams r') = map fst (rr_streams r)"
    "buffer_of s r' = (if s = s' then Some b' else buffer_of s r)"
    "view s r' = (if s = s' then foldl (view_emit (rr_cfg r) now) (view s r) es else view s r)"
proof -
  obtain st where st: "map_of (rr_streams r) s' = Some st" "ss_buffer st = b"
    using b by (auto simp: buffer_of_def)
  let ?r = "r\<lparr>rr_streams := AList.update s' (st\<lparr>ss_buffer := b'\<rparr>) (rr_streams r)\<rparr>"
  have r': "r' = foldl (emit_event s' now) ?r es" using st f by (simp add: r'_def on_buffer_def)
  have ok1: "router_ok ?r" using ok by (intro update_stream_view(2)) (simp_all add: router_ok_def distinct_update)
  have open1: "buffer_of s' ?r \<noteq> None" by (simp add: buffer_of_def update_conv')
  note e = emits_view [OF ok1 open1, of now es, folded r']
  show "router_ok r'" "rr_cfg r' = rr_cfg r" "rr_rtt r' = rr_rtt r" "map fst (rr_streams r') = map fst (rr_streams r)"
    "buffer_of s r' = (if s = s' then Some b' else buffer_of s r)"
    using e update_keys [OF st(1)] by (auto simp: same_frame_def) (auto simp: buffer_of_def update_conv')
  show "view s r' = (if s = s' then foldl (view_emit (rr_cfg r) now) (view s r) es else view s r)"
    using e [of s] by (simp add: update_stream_view)
qed

lemma on_buffer_closed: "buffer_of s r = None \<Longrightarrow> on_buffer s now f r = r"
  by (simp add: on_buffer_def buffer_of_def)

section \<open>Each operation on one stream\<close>

definition frames_of :: "reorder_event list \<Rightarrow> frames" where
  "frames_of es = concat (map (\<lambda>e. case e of Deliver h f \<Rightarrow> [(h, f)] | Lost s \<Rightarrow> []) es)"

lemma frames_of_simps [simp]:
  "frames_of [] = []" "frames_of (Deliver h f # es) = (h, f) # frames_of es" "frames_of (Lost n # es) = frames_of es"
  "frames_of (es @ es') = frames_of es @ frames_of es'"
  by (simp_all add: frames_of_def)

text \<open>Requests at the times \<open>ts\<close>, from next allowed time \<open>nx\<close> and backoff \<open>bo\<close>: each waits for the one before it,
  and the wait doubles up to the cap.\<close>

fun paced :: "int \<Rightarrow> int \<times> int \<Rightarrow> int list \<Rightarrow> int \<times> int \<Rightarrow> bool" where
  "paced cap (nx, bo) [] p' \<longleftrightarrow> p' = (nx, bo)"
| "paced cap (nx, bo) (t # ts) p' \<longleftrightarrow> nx \<le> t \<and> paced cap (t + bo, min (bo * 2) cap) ts p'"

lemma paced_append: "paced cap p ts p' \<Longrightarrow> paced cap p' ts' p'' \<Longrightarrow> paced cap p (ts @ ts') p''"
  by (induction cap p ts p' rule: paced.induct) auto

definition moves :: "router_cfg \<Rightarrow> reorder_event list \<Rightarrow> stream_view \<Rightarrow> stream_view \<Rightarrow> bool" where
  "moves c es v v' \<longleftrightarrow> v_track v' = v_track v @ frames_of es \<and>
     (list_all (\<lambda>(h, f). \<not> keyframe h) (frames_of es) \<longrightarrow>
       (\<exists>ts. v_requests v' = v_requests v @ ts \<and> paced (cap_us c) (v_pace v) ts (v_pace v')))"

lemma moves_refl [simp]: "moves c [] v v"
  by (cases "v_pace v") (auto simp: moves_def intro!: exI [of _ "[]"])

lemma moves_trans:
  assumes a: "moves c es v v'" and b: "moves c es' v' v''"
  shows "moves c (es @ es') v v''"
proof -
  have "\<exists>ts. v_requests v'' = v_requests v @ ts \<and> paced (cap_us c) (v_pace v) ts (v_pace v'')"
    if k: "list_all (\<lambda>(h, f). \<not> keyframe h) (frames_of (es @ es'))"
  proof -
    from a k obtain ts where "v_requests v' = v_requests v @ ts" "paced (cap_us c) (v_pace v) ts (v_pace v')"
      by (auto simp: moves_def)
    moreover from b k obtain ts' where "v_requests v'' = v_requests v' @ ts'" "paced (cap_us c) (v_pace v') ts' (v_pace v'')"
      by (auto simp: moves_def)
    ultimately show ?thesis using paced_append by (intro exI [of _ "ts @ ts'"]) auto
  qed
  then show ?thesis using a b by (simp add: moves_def)
qed

lemma request_moves: "moves c [] v (view_request c now v)"
proof (cases "v_pace v")
  case (Pair nx bo)
  then show ?thesis
    by (auto simp: moves_def view_request_def intro!: exI [of _ "if now < nx then [] else [now]"])
qed

lemma emit_moves: "moves c [e] v (view_emit c now v e)"
proof (cases e)
  case (Deliver h f)
  then show ?thesis by (cases "v_pace v") (auto simp: moves_def intro!: exI [of _ "[]"])
next
  case (Lost n)
  then show ?thesis using request_moves [of c v now] by (simp add: moves_def)
qed

lemma emits_moves: "moves c es v (foldl (view_emit c now) v es)"
proof (induction es arbitrary: v)
  case (Cons e es)
  then show ?case using moves_trans [OF emit_moves Cons] by fastforce
qed simp

text \<open>The contract of an operation for stream \<open>s\<close> whose buffer is \<open>b\<close>.\<close>

definition serves :: "u32 \<Rightarrow> reorder \<Rightarrow> router \<Rightarrow> reorder \<times> reorder_event list \<Rightarrow> router \<Rightarrow> bool" where
  "serves s b r res r' \<longleftrightarrow> router_ok r' \<and> rr_cfg r' = rr_cfg r \<and> buffer_of s r' = Some (fst res)
     \<and> moves (rr_cfg r) (snd res) (view s r) (view s r')"

lemma serves_same:
  "router_ok r' \<Longrightarrow> rr_cfg r' = rr_cfg r \<Longrightarrow> buffer_of s r' = Some b' \<Longrightarrow> view s r' = view s r \<Longrightarrow> serves s b r (b', []) r'"
  by (simp add: serves_def)

lemma serves_trans:
  "serves s b r (b', es) r' \<Longrightarrow> serves s b' r' (b'', es') r'' \<Longrightarrow> serves s b r (b'', es @ es') r''"
  by (auto simp: serves_def intro: moves_trans)

lemma on_buffer_serves:
  assumes "router_ok r" and "buffer_of s r = Some b"
  shows "serves s b r (if s' = s then f b else (b, [])) (on_buffer s' now f r)"
proof (cases "buffer_of s' r")
  case None
  then show ?thesis using assms by (auto simp: on_buffer_closed serves_def)
next
  case (Some b0)
  obtain b' es where f: "f b0 = (b', es)" by fastforce
  define r' where "r' = on_buffer s' now f r"
  note v = on_buffer_view [where f = f, OF assms(1) Some f r'_def]
  show ?thesis
  proof (cases "s' = s")
    case True
    then show ?thesis using v(1,2) v(5) [of s] v(6) [of s] Some assms f r'_def by (simp add: serves_def emits_moves)
  next
    case False
    then show ?thesis using v(1,2) v(5) [of s] v(6) [of s] assms r'_def by (simp add: serves_def)
  qed
qed

lemma request_serves:
  assumes "router_ok r" and "buffer_of s r = Some b"
  shows "serves s b r (b, []) (request_keyframe s' now r)"
proof (cases "s = s'")
  case True
  then show ?thesis
    using request_view(1) [OF assms(1), of s s' now] request_view(2-) [OF assms(1), of s' now] assms request_moves
    by (simp add: serves_def buffer_of_def)
next
  case False
  then show ?thesis
    using request_view(1) [OF assms(1), of s s' now] request_view(2-) [OF assms(1), of s' now] assms
    by (simp add: serves_def buffer_of_def)
qed

lemma ask_serves:
  "router_ok r \<Longrightarrow> buffer_of s r = Some b \<Longrightarrow> serves s b r (b, []) (ask_candidates needs now cs r)"
proof (induction needs now cs r rule: ask_candidates.induct)
  case (1 needs now r)
  then show ?case by (simp add: serves_def)
next
  case (2 needs now s' w k cs r)
  let ?r = "if w \<or> \<not> k \<and> needs s' then request_keyframe s' now r else r"
  have a: "serves s b r (b, []) ?r" using 2(2,3) request_serves by (simp add: serves_def)
  then have "router_ok ?r" "buffer_of s ?r = Some b" by (simp_all add: serves_def)
  from serves_trans [OF a 2(1) [OF this]] show ?case by simp
qed

lemma poll_serves:
  "router_ok r \<Longrightarrow> buffer_of s r = Some b \<Longrightarrow> distinct ss \<Longrightarrow>
   serves s b r (if s \<in> set ss then poll now b else (b, [])) (fst (poll_streams now ss r))"
proof (induction ss arbitrary: r b)
  case Nil
  then show ?case by (simp add: serves_def)
next
  case (Cons s' ss)
  let ?r = "on_buffer s' now (poll now) r"
  have a: "serves s b r (if s' = s then poll now b else (b, [])) ?r" by (rule on_buffer_serves [OF Cons.prems(1,2)])
  obtain b1 e1 where res: "(if s' = s then poll now b else (b, [])) = (b1, e1)" by fastforce
  have 1: "serves s b r (b1, e1) ?r" using a res by simp
  then have "router_ok ?r" "buffer_of s ?r = Some b1" by (simp_all add: serves_def)
  note t = Cons.IH [OF this]
  obtain b2 e2 where res2: "(if s \<in> set ss then poll now b1 else (b1, [])) = (b2, e2)" by fastforce
  have "serves s b r (b2, e1 @ e2) (fst (poll_streams now ss ?r))"
    using serves_trans [OF 1] t Cons.prems(3) res2 by simp
  then show ?case using Cons.prems(3) res res2 by (cases "s' = s") (auto simp: Let_def case_prod_unfold)
qed


section \<open>Consistency of the router\<close>

definition stays_ok :: "router \<Rightarrow> router \<Rightarrow> bool" where
  "stays_ok r r' \<longleftrightarrow> router_ok r' \<and> rr_cfg r' = rr_cfg r"

lemma on_buffer_ok: "router_ok r \<Longrightarrow> stays_ok r (on_buffer s now f r)"
proof (cases "buffer_of s r")
  case (Some b)
  assume "router_ok r"
  then show ?thesis using on_buffer_serves [OF _ Some, of s f now] by (simp add: serves_def stays_ok_def)
qed (simp add: on_buffer_closed stays_ok_def)

lemma request_ok: "router_ok r \<Longrightarrow> stays_ok r (request_keyframe s now r)"
  using request_same [of r s now] by (simp add: same_frame_def stays_ok_def)

lemma ask_ok: "router_ok r \<Longrightarrow> stays_ok r (ask_candidates needs now cs r)"
  by (induction needs now cs r rule: ask_candidates.induct) (use request_ok in \<open>auto simp: stays_ok_def\<close>)

lemma poll_streams_ok: "router_ok r \<Longrightarrow> stays_ok r (fst (poll_streams now ss r))"
  by (induction ss arbitrary: r) (use on_buffer_ok in \<open>auto simp: Let_def case_prod_unfold stays_ok_def\<close>)

lemma open_ok: "router_ok r \<Longrightarrow> stays_ok r (router_open s now r)"
  by (auto simp: stays_ok_def router_open_def router_ok_def Let_def distinct_update)

lemma close_ok: "router_ok r \<Longrightarrow> stays_ok r (router_close s r)" "router_ok r \<Longrightarrow> stays_ok r (close_all r)"
  by (auto simp: stays_ok_def router_close_def close_all_def router_ok_def distinct_delete)

lemma map_fst_map: "map (fst \<circ> (\<lambda>(s, q). (s, f q))) m = map fst m"
  by (simp add: comp_def case_prod_unfold)

lemma map_of_map_values: "map_of (map (\<lambda>(s, q). (s, f q)) m) s = map_option f (map_of m s)"
  by (induction m) auto

lemma router_do_ok: "router_ok r \<Longrightarrow> stays_ok r (router_do op r)"
proof (cases op)
  case (R_Rtt rtt)
  moreover assume "router_ok r"
  ultimately show ?thesis
    by (simp add: router_set_rtt_def stays_ok_def router_ok_def map_fst_map)
next
  case (R_Frame s frame now)
  moreover assume "router_ok r"
  ultimately show ?thesis using on_buffer_ok by (auto simp: router_on_frame_def stays_ok_def split: option.split)
next
  case (R_Aborted s seq h now)
  moreover assume "router_ok r"
  ultimately show ?thesis using on_buffer_ok request_ok
    by (auto simp: router_on_frame_aborted_def stays_ok_def split: option.split)
next
  case (R_Tick needs now)
  moreover assume ok: "router_ok r"
  ultimately show ?thesis
    using poll_streams_ok [OF ok, of now "map fst (rr_streams r)"] ask_ok
    by (auto simp: router_tick_def stays_ok_def case_prod_unfold Let_def)
next
  case (R_Collect now)
  moreover assume "router_ok r"
  ultimately show ?thesis
    by (auto simp: playout_collect_def stays_ok_def router_ok_def map_fst_map)
next
  case (R_Flush now)
  moreover assume "router_ok r"
  ultimately show ?thesis by (simp add: playout_flush_def stays_ok_def router_ok_def)
qed (simp_all add: router_on_frame_started_def on_buffer_ok request_ok open_ok close_ok)

lemma router_run_ok: "router_ok r \<Longrightarrow> stays_ok r (router_run ops r)"
proof (induction ops arbitrary: r)
  case (Cons op ops)
  then show ?case using router_do_ok [OF Cons.prems, of op] by (auto simp: stays_ok_def)
qed (simp add: stays_ok_def)

section \<open>The refinement\<close>

lemma take_due_split: "fst (take_due now q) @ snd (take_due now q) = q"
  by (induction now q rule: take_due.induct) (auto simp: Let_def case_prod_unfold)

lemma collect_due:
  "distinct (map fst m) \<Longrightarrow>
   map (frame_of \<circ> snd) (filter (\<lambda>(s', _). s' = s) (concat (map (\<lambda>(s, q). map (Pair s) (fst (take_due now q))) m)))
     = (case map_of m s of None \<Rightarrow> [] | Some q \<Rightarrow> map frame_of (fst (take_due now q)))"
proof (induction m)
  case (Cons e m)
  obtain s' q where e: "e = (s', q)" by (cases e)
  have "s \<notin> fst ` set m \<Longrightarrow> map_of m s = None" by (simp add: map_of_eq_None_iff)
  then show ?case using Cons e by (cases "s' = s") (simp_all add: comp_def)
qed simp

lemma collect_view: "router_ok r \<Longrightarrow> view s (playout_collect now r) = view s r"
proof -
  assume "router_ok r"
  then have d: "distinct (map fst (rr_pending r))" by (simp add: router_ok_def)
  have p: "map_of (map (\<lambda>(s, q). (s, snd (take_due now q))) (rr_pending r)) s
      = map_option (\<lambda>q. snd (take_due now q)) (map_of (rr_pending r) s)" by (rule map_of_map_values)
  have "map frame_of (fst (take_due now q)) @ map frame_of (snd (take_due now q)) = map frame_of q" for q
    by (metis map_append take_due_split)
  then show ?thesis
    using collect_due [OF d, of s now] p
    by (cases "map_of (rr_pending r) s")
      (simp_all add: view_def track_def out_of_def due_of_def pending_of_def pace_of_def requests_of_def playout_collect_def)
qed

lemma handed_due: "concat (map (\<lambda>(t, x). handed s x) (map (\<lambda>(s, p). (now, Handed s (pf_hdr p) (pf_frame p))) d))
    = map (frame_of \<circ> snd) (filter (\<lambda>(s', _). s' = s) d)"
  by (induction d) (auto simp: frame_of_def)

lemma flush_view: "view s (playout_flush now r) = view s r"
proof -
  have "filter (\<lambda>(t, x). x = Requested s) (map (\<lambda>(s, p). (now, Handed s (pf_hdr p) (pf_frame p))) (rr_due r)) = []"
    by (auto simp: filter_empty_conv)
  then show ?thesis
    using handed_due [of s now "rr_due r"]
    by (simp add: view_def track_def out_of_def due_of_def pending_of_def pace_of_def requests_of_def playout_flush_def)
qed


lemma other_view:
  "s' \<noteq> s \<Longrightarrow> view s (router_open s' now r) = view s r \<and> buffer_of s (router_open s' now r) = buffer_of s r"
  "s' \<noteq> s \<Longrightarrow> view s (router_close s' r) = view s r \<and> buffer_of s (router_close s' r) = buffer_of s r"
  by (auto simp: router_open_def router_close_def Let_def view_def track_def out_of_def due_of_def pending_of_def
      pace_of_def requests_of_def buffer_of_def update_conv' delete_conv')

lemma rtt_view:
  "view s (router_set_rtt rtt r) = view s r" "buffer_of s (router_set_rtt rtt r) = map_option (set_rtt rtt) (buffer_of s r)"
  by (simp_all add: router_set_rtt_def view_def track_def out_of_def due_of_def pending_of_def
      pace_of_def requests_of_def buffer_of_def map_of_map_values option.map_comp comp_def)

text \<open>Every operation, for a stream it keeps open: the buffer runs the projection, the view its calls.\<close>

lemma router_do_serves:
  assumes ok: "router_ok r" and b: "buffer_of s r = Some b" and k: "keeps s op"
  shows "serves s b r (reorder_run (project s op) b) (router_do op r)"
proof (cases op)
  case (R_Tick needs now)
  let ?ss = "map fst (rr_streams r)"
  obtain r1 cs where ps: "poll_streams now ?ss r = (r1, cs)" by fastforce
  obtain b1 e1 where p: "poll now b = (b1, e1)" by fastforce
  have "s \<in> set ?ss" using b by (auto simp: buffer_of_def dest: map_of_SomeD intro: image_eqI [rotated])
  then have 1: "serves s b r (b1, e1) r1"
    using poll_serves [OF ok b, of ?ss now] ok p ps by (simp add: router_ok_def)
  then have "router_ok r1" "buffer_of s r1 = Some b1" by (simp_all add: serves_def)
  from serves_trans [OF 1 ask_serves [OF this]] show ?thesis using R_Tick ps p by (simp add: router_tick_def)
next
  case (R_Aborted s' seq h now)
  then show ?thesis
    using ok b on_buffer_serves [OF ok b, of s' "on_frame_aborted seq now" now] request_serves [OF ok b, of s' now]
    by (auto simp: router_on_frame_aborted_def buffer_of_def serves_def split: option.split prod.split)
next
  case (R_Frame s' frame now)
  then show ?thesis
    using ok b on_buffer_serves [OF ok b, of s' "on_frame _ frame now" now]
    by (auto simp: router_on_frame_def serves_def split: option.split prod.split)
next
  case (R_Started s' hdr now)
  then show ?thesis
    using on_buffer_serves [OF ok b, of s' "\<lambda>b. (on_frame_started hdr now b, [])" now]
    by (auto simp: router_on_frame_started_def)
qed (use router_do_ok [OF ok, of op] b k collect_view [OF ok] flush_view [of s] other_view [of _ s] rtt_view [of s]
      request_serves [OF ok b] in
    \<open>auto simp: stays_ok_def serves_def playout_collect_def [abs_def] playout_flush_def [abs_def] buffer_of_def\<close>)

lemma reorder_run_append:
  "reorder_run (xs @ ys) b = (let (b1, e1) = reorder_run xs b; (b2, e2) = reorder_run ys b1 in (b2, e1 @ e2))"
  by (induction xs arbitrary: b) (auto simp: Let_def case_prod_unfold)

lemma router_run_serves:
  assumes "router_ok r" and "buffer_of s r = Some b" and "list_all (keeps s) ops"
  shows "serves s b r (reorder_run (concat (map (project s) ops)) b) (router_run ops r)"
  using assms
proof (induction ops arbitrary: r b)
  case Nil
  then show ?case by (simp add: serves_def)
next
  case (Cons op ops)
  obtain b1 e1 where p: "reorder_run (project s op) b = (b1, e1)" by fastforce
  have 1: "serves s b r (b1, e1) (router_do op r)" using router_do_serves [of r s b op] Cons.prems p by simp
  then have "router_ok (router_do op r)" "buffer_of s (router_do op r) = Some b1" by (simp_all add: serves_def)
  from Cons.IH [OF this] Cons.prems have
    2: "serves s b1 (router_do op r) (reorder_run (concat (map (project s) ops)) b1) (router_run ops (router_do op r))" by simp
  obtain b2 e2 where q: "reorder_run (concat (map (project s) ops)) b1 = (b2, e2)" by fastforce
  show ?case using serves_trans [OF 1 2 [unfolded q]] p q by (simp add: reorder_run_append)
qed

lemma open_view:
  assumes "router_ok r"
  shows "buffer_of s (router_open s now r) = Some (set_rtt (rr_rtt r) (new_reorder (rc_reorder (rr_cfg r))))"
    "view s (router_open s now r)
      = (view s r)\<lparr>v_pace := (if now = 0 then 0 else now + base_us (rr_cfg r), base_us (rr_cfg r))\<rparr>"
  using assms
  by (auto simp: router_open_def Let_def view_def track_def out_of_def due_of_def pending_of_def pace_of_def
      requests_of_def buffer_of_def update_conv' router_ok_def)

lemma reach_ok:
  "router_ok (router_run ops (new_router c))" "rc_reorder (rr_cfg (router_run ops (new_router c))) = rc_reorder c"
  "base_us (rr_cfg (router_run ops (new_router c))) = base_us (rr_cfg (new_router c))"
  "cap_us (rr_cfg (router_run ops (new_router c))) = cap_us (rr_cfg (new_router c))"
  using router_run_ok [where r = "new_router c" and ops = ops, OF new_router_ok] by (simp_all add: stays_ok_def new_router_def Let_def)

text \<open>A watch: the stream is opened in any reachable state and stays open through \<open>ops\<close>.\<close>

lemma watch_serves:
  assumes "list_all (keeps s) ops" and r_def: "r = router_run hist (new_router c)"
  shows "serves s (set_rtt (rr_rtt r) (new_reorder (rc_reorder c))) (router_open s now r)
    (reorder_run (concat (map (project s) ops)) (set_rtt (rr_rtt r) (new_reorder (rc_reorder c))))
    (router_run ops (router_open s now r))"
proof -
  have ok: "router_ok r" unfolding r_def by (rule reach_ok)
  have "router_ok (router_open s now r)" using open_ok [OF ok] by (simp add: stays_ok_def)
  moreover have "buffer_of s (router_open s now r) = Some (set_rtt (rr_rtt r) (new_reorder (rc_reorder c)))"
    using open_view(1) [OF ok] by (simp add: r_def reach_ok)
  ultimately show ?thesis using assms(1) by (intro router_run_serves)
qed

text \<open>(C15) The router is its reorder buffers, kept apart: after any history, from the moment a stream is opened
  and as long as it is not closed or reopened, and whatever happens to other streams meanwhile, the
  stream's buffer is in exactly the state of a fresh buffer that went through the operations
  addressed to that stream (frames that parse, named aborts, ticks, round-trip updates); and the
  frames the decoder has been handed, then those due, then those queued for playout are exactly
  what had been handed, due and queued before, followed by that buffer's deliveries, in order,
  none lost, repeated or swapped.\<close>

theorem router_refines_buffers:
  assumes "list_all (keeps s) ops"
  shows "\<exists>b es. reorder_run (concat (map (project s) ops))
           (set_rtt (rr_rtt (router_run hist (new_router c))) (new_reorder (rc_reorder c))) = (b, es)
       \<and> buffer_of s (router_run ops (router_open s now (router_run hist (new_router c)))) = Some b
       \<and> track s (router_run ops (router_open s now (router_run hist (new_router c))))
           = track s (router_run hist (new_router c)) @ frames_of es"
proof -
  let ?r = "router_run hist (new_router c)"
  obtain b es where p: "reorder_run (concat (map (project s) ops)) (set_rtt (rr_rtt ?r) (new_reorder (rc_reorder c))) = (b, es)"
    by fastforce
  have "v_track (view s (router_open s now ?r)) = track s ?r"
    using open_view(2) [OF reach_ok(1), of s now hist c] by (simp add: view_def)
  then show ?thesis
    using watch_serves [OF assms refl, of hist c now] p by (auto simp: serves_def moves_def view_def)
qed

fun decodable :: "u32 option \<Rightarrow> frames \<Rightarrow> bool" where
  "decodable prev [] \<longleftrightarrow> True"
| "decodable prev ((h, f) # fs) \<longleftrightarrow>
     (case prev of None \<Rightarrow> keyframe h | Some l \<Rightarrow> video_seq_newer (frame_seq h) l \<and> (keyframe h \<or> frame_seq h = l + 1))
     \<and> decodable (Some (frame_seq h)) fs"

lemma dec_run_decodable: "dec_run (prev, reported) es = Some d \<Longrightarrow> decodable prev (frames_of es)"
proof (induction es arbitrary: prev reported)
  case (Cons e es)
  then show ?case by (cases e) (auto split: if_splits option.splits)
qed simp

lemma decodable_prefix: "decodable prev (xs @ ys) \<Longrightarrow> decodable prev xs"
  by (induction prev xs rule: decodable.induct) auto

lemma fresh_buffer_decodable:
  assumes "reorder_run ops (set_rtt rtt (new_reorder c)) = (b, es)"
  shows "decodable None (frames_of es)"
proof -
  have "reorder_run (Rtt rtt # ops) (new_reorder c) = (b, es)" using assms by simp
  then show ?thesis
    using reorder_run_ok [OF new_reorder_inv [of c], of "Rtt rtt # ops"]
    by (auto simp: op_ok_def dec_abs_def new_reorder_def Let_def simp del: reorder_run.simps intro: dec_run_decodable)
qed

section \<open>The output only grows\<close>

definition grows :: "router \<Rightarrow> router \<Rightarrow> bool" where
  "grows r r' \<longleftrightarrow> (\<exists>x. rr_out r' = rr_out r @ x)"

lemma grows_refl [simp]: "grows r r"
  by (simp add: grows_def)

lemma grows_trans: "grows a b \<Longrightarrow> grows b c \<Longrightarrow> grows a c"
  by (auto simp: grows_def)

lemma grows_fields [simp]:
  "grows (r\<lparr>rr_streams := m\<rparr>) r' = grows r r'" "rr_out r' = rr_out r \<Longrightarrow> grows r r'"
  by (simp_all add: grows_def)

lemma request_grows: "grows r (request_keyframe s now r)"
  by (auto simp: grows_def request_keyframe_def Let_def)

lemma deliver_grows: "grows r (deliver_fn s now hdr frame r)"
  by (auto simp: grows_def deliver_fn_def keyframe_arrived_def Let_def split: option.split prod.split)

lemma emits_grow: "grows r (foldl (emit_event s now) r es)"
proof (induction es arbitrary: r)
  case (Cons e es)
  have "grows r (emit_event s now r e)" by (cases e) (simp_all add: deliver_grows request_grows)
  then show ?case using Cons [of "emit_event s now r e"] by (auto intro: grows_trans)
qed simp

lemma on_buffer_grows: "grows r (on_buffer s now f r)"
  using emits_grow [of "r\<lparr>rr_streams := _\<rparr>" s now] by (auto simp: on_buffer_def split: option.split prod.split)

lemma ask_grows: "grows r (ask_candidates needs now cs r)"
  by (induction needs now cs r rule: ask_candidates.induct) (auto intro: grows_trans [OF request_grows])

lemma poll_grows: "grows r (fst (poll_streams now ss r))"
  by (induction ss arbitrary: r) (auto simp: Let_def case_prod_unfold intro: grows_trans [OF on_buffer_grows])

lemma router_do_grows: "grows r (router_do op r)"
proof (cases op)
  case (R_Tick needs now)
  then show ?thesis
    using grows_trans [OF poll_grows ask_grows] by (simp add: router_tick_def case_prod_unfold Let_def)
next
  case (R_Flush now)
  then show ?thesis by (simp add: playout_flush_def grows_def)
qed (auto simp: router_open_def router_close_def close_all_def router_set_rtt_def playout_collect_def Let_def
      router_on_frame_started_def router_on_frame_def router_on_frame_aborted_def on_buffer_grows request_grows
      split: option.split)

lemma router_run_grows: "grows r (router_run ops r)"
  by (induction ops arbitrary: r) (auto intro: grows_trans [OF router_do_grows])

lemma grows_out: "grows r r' \<Longrightarrow> \<exists>x. out_of s r' = out_of s r @ x"
  by (auto simp: grows_def out_of_def)

text \<open>(C16) What a viewer's decoder is handed can be decoded: in the same situation, with nothing of an earlier
  watch left in the playout queue, the frames handed out since the stream was opened start with a
  keyframe, and each later one is a newer keyframe or the direct successor of the one before it, at
  every moment and whatever was lost, reordered, aborted or delayed on the way.\<close>

theorem viewer_gets_decodable:
  assumes "list_all (keeps s) ops"
    and "due_of s (router_run hist (new_router c)) = []" and "pending_of s (router_run hist (new_router c)) = []"
  shows "\<exists>fs. out_of s (router_run ops (router_open s now (router_run hist (new_router c))))
             = out_of s (router_run hist (new_router c)) @ fs \<and> decodable None fs"
proof -
  let ?r = "router_run hist (new_router c)"
  obtain b es where p: "reorder_run (concat (map (project s) ops)) (set_rtt (rr_rtt ?r) (new_reorder (rc_reorder c))) = (b, es)"
    by fastforce
  have "v_track (view s (router_open s now ?r)) = track s ?r"
    using open_view(2) [OF reach_ok(1), of s now hist c] by (simp add: view_def)
  then have t: "track s (router_run ops (router_open s now ?r)) = out_of s ?r @ frames_of es"
    using watch_serves [OF assms(1) refl, of hist c now] p assms(2,3) by (auto simp: serves_def moves_def view_def track_def)
  have "grows ?r (router_run ops (router_open s now ?r))"
    using router_run_grows [where r = "router_open s now ?r" and ops = ops] by (simp add: grows_def router_open_def Let_def split: if_splits)
  from grows_out [OF this, of s] obtain x where
    x: "out_of s (router_run ops (router_open s now ?r)) = out_of s ?r @ x" by blast
  then have "frames_of es = x @ due_of s (router_run ops (router_open s now ?r)) @ pending_of s (router_run ops (router_open s now ?r))"
    using t by (simp add: track_def)
  then have "decodable None x" using fresh_buffer_decodable [OF p] decodable_prefix by metis
  then show ?thesis using x by blast
qed

section \<open>Keyframe requests\<close>

lemma paced_gaps:
  assumes "paced cap (nx, bo) ts p'" and "0 < bo" and "bo \<le> cap"
  shows "(ts \<noteq> [] \<longrightarrow> nx \<le> ts ! 0) \<and> (\<forall>i. Suc i < length ts \<longrightarrow> ts ! i + min (bo * 2 ^ i) cap \<le> ts ! Suc i)"
  using assms
proof (induction ts arbitrary: nx bo)
  case (Cons t ts)
  let ?bo = "min (bo * 2) cap"
  from Cons.prems have p: "nx \<le> t" "paced cap (t + bo, ?bo) ts p'" by simp_all
  note ih = Cons.IH [OF p(2)]
  have "(t # ts) ! i + min (bo * 2 ^ i) cap \<le> (t # ts) ! Suc i" if i: "Suc i < length (t # ts)" for i
  proof (cases i)
    case 0
    then show ?thesis using ih i Cons.prems(2,3) by auto
  next
    case (Suc j)
    have "min (bo * 2 ^ Suc j) cap \<le> min (?bo * 2 ^ j) cap"
    proof (cases "bo * 2 \<le> cap")
      case False
      have "cap * 1 \<le> cap * 2 ^ j" using Cons.prems(2,3) by (intro mult_left_mono) simp_all
      then show ?thesis using False by simp
    qed (simp add: mult_ac)
    then show ?thesis using ih i Suc Cons.prems(2,3) by fastforce
  qed
  then show ?case using p(1) by simp
qed simp

text \<open>A viewer cannot flood the sharer: from the moment a stream is opened, as long as it is not closed
  or reopened and no keyframe of it has been delivered, whatever asks for a keyframe (gaps, aborted
  streams, ticks, the decoder) at whatever times, the requests sent for it are at least the backoff
  apart, which starts at the configured base and doubles with every request up to the cap; opened
  with a time, the first one also waits one base backoff.\<close>

theorem viewer_requests_back_off:
  assumes "list_all (keeps s) ops"
    and "list_all (\<lambda>(h, f). \<not> keyframe h) (frames_of (snd (reorder_run (concat (map (project s) ops))
           (set_rtt (rr_rtt (router_run hist (new_router c))) (new_reorder (rc_reorder c))))))"
  shows "\<exists>ts. requests_of s (router_run ops (router_open s now (router_run hist (new_router c))))
             = requests_of s (router_run hist (new_router c)) @ ts
       \<and> (ts \<noteq> [] \<and> now \<noteq> 0 \<longrightarrow> now + base_us (rr_cfg (new_router c)) \<le> ts ! 0)
       \<and> (\<forall>i. Suc i < length ts \<longrightarrow>
            ts ! i + min (base_us (rr_cfg (new_router c)) * 2 ^ i) (cap_us (rr_cfg (new_router c))) \<le> ts ! Suc i)"
proof -
  let ?r = "router_run hist (new_router c)"
  let ?nx = "if now = 0 then 0 else now + base_us (rr_cfg (new_router c))"
  have cfg: "rr_cfg (router_open s now ?r) = rr_cfg ?r"
    using open_ok [OF reach_ok(1)] by (simp add: stays_ok_def)
  have "v_pace (view s (router_open s now ?r)) = (?nx, base_us (rr_cfg (new_router c)))"
    "v_requests (view s (router_open s now ?r)) = requests_of s ?r"
    using open_view(2) [OF reach_ok(1), of s now hist c] reach_ok(3) [of hist c] by (simp_all add: view_def)
  with watch_serves [OF assms(1) refl, of hist c now] assms(2) cfg reach_ok(4) [of hist c]
  have "\<exists>ts. requests_of s (router_run ops (router_open s now ?r)) = requests_of s ?r @ ts
      \<and> paced (cap_us (rr_cfg (new_router c))) (?nx, base_us (rr_cfg (new_router c))) ts
          (pace_of s (router_run ops (router_open s now ?r)))"
    by (simp add: serves_def moves_def view_def)
  then obtain ts where "requests_of s (router_run ops (router_open s now ?r)) = requests_of s ?r @ ts"
    "paced (cap_us (rr_cfg (new_router c))) (?nx, base_us (rr_cfg (new_router c))) ts
       (pace_of s (router_run ops (router_open s now ?r)))" by blast
  then show ?thesis
    using paced_gaps new_router_ok [of c] by (intro exI [of _ ts]) (fastforce simp: router_ok_def)
qed


section \<open>Witnesses\<close>

text \<open>A keyframe and two deltas that overtake each other, played out; and three requests of which the backoff
  lets two through.\<close>

definition demo_router_cfg :: router_cfg where
  "demo_router_cfg = \<lparr>rc_reorder = \<lparr>min_hold_ms = 150, max_hold_ms = 1500, rtt_hold_factor = 3, hold_extra_ms = 100,
     max_held_frames = 4, max_bytes = 64\<rparr>, base_backoff_ms = 500, max_backoff_ms = 4000, rc_playout = True,
     rc_clock = demo_playout_cfg\<rparr>"

definition demo_frame :: "u32 \<Rightarrow> bool \<Rightarrow> bytes" where
  "demo_frame n key = header_write \<lparr>frame_seq = n, timestamp = 0, flags = (if key then VIDEO_FLAG_KEYFRAME else 0),
     width = 640, height = 480, codec = 1\<rparr> @ [0xAA]"

definition demo_ops :: "router_op list" where
  "demo_ops = [R_Frame 7 (demo_frame 0 True) 1000, R_Frame 7 (demo_frame 2 False) 2000,
     R_Frame 9 (demo_frame 0 True) 2500, R_Frame 7 (demo_frame 1 False) 3000, R_Collect 3000, R_Flush 3000]"

definition fresh_router :: router where
  "fresh_router = router_run [] (new_router demo_router_cfg)"

definition demo_seqs :: "router_op list \<Rightarrow> u32 list \<times> u32 list" where
  "demo_seqs ops = (let r = router_run ops (router_open 7 0 fresh_router)
     in (map (frame_seq \<circ> fst) (out_of 7 r), map (frame_seq \<circ> fst) (track 7 r)))"

lemma demo_seqs: "demo_seqs demo_ops = ([0, 1, 2], [0, 1, 2])"
  by code_simp

lemma demo_keeps: "list_all (keeps 7) demo_ops"
  by (simp add: demo_ops_def)

lemma fresh_router_empty: "due_of 7 fresh_router = []" "pending_of 7 fresh_router = []" "out_of 7 fresh_router = []"
  "requests_of 7 fresh_router = []" "track 7 fresh_router = []"
  by code_simp+

lemma router_refines_buffers_witness:
  "\<exists>b es. buffer_of 7 (router_run demo_ops (router_open 7 0 (router_run [] (new_router demo_router_cfg)))) = Some b
     \<and> track 7 (router_run demo_ops (router_open 7 0 (router_run [] (new_router demo_router_cfg)))) = frames_of es
     \<and> map (frame_seq \<circ> fst) (frames_of es) = [0, 1, 2]"
  using router_refines_buffers [OF demo_keeps, of "[]" demo_router_cfg 0] demo_seqs fresh_router_empty(5)
  by (auto simp: demo_seqs_def fresh_router_def Let_def)

lemma viewer_gets_decodable_witness:
  "\<exists>fs. out_of 7 (router_run demo_ops (router_open 7 0 (router_run [] (new_router demo_router_cfg)))) = fs
     \<and> decodable None fs \<and> map (frame_seq \<circ> fst) fs = [0, 1, 2]"
  using viewer_gets_decodable [OF demo_keeps, of "[]" demo_router_cfg 0] demo_seqs fresh_router_empty
  by (auto simp: demo_seqs_def fresh_router_def Let_def)

definition ask_ops :: "router_op list" where
  "ask_ops = [R_Request 7 600000, R_Request 7 700000, R_Request 7 2000000]"

definition asked :: "int list" where
  "asked = requests_of 7 (router_run ask_ops (router_open 7 1 fresh_router))"

lemma asked: "asked = [600000, 2000000]"
  by code_simp

lemma ask_quiet: "list_all (\<lambda>(h, f). \<not> keyframe h) (frames_of (snd (reorder_run (concat (map (project 7) ask_ops)) b)))"
  by (simp add: ask_ops_def)

lemma ask_keeps: "list_all (keeps 7) ask_ops"
  by (simp add: ask_ops_def)

lemma viewer_requests_back_off_witness:
  "\<exists>ts. requests_of 7 (router_run ask_ops (router_open 7 1 (router_run [] (new_router demo_router_cfg)))) = ts
     \<and> ts = [600000, 2000000] \<and> ts ! 0 + min (base_us (rr_cfg (new_router demo_router_cfg))) (cap_us (rr_cfg (new_router demo_router_cfg))) \<le> ts ! 1"
proof -
  from viewer_requests_back_off [OF ask_keeps ask_quiet, where hist = "[]" and c = demo_router_cfg and now = 1] obtain ts where
    ts: "requests_of 7 (router_run ask_ops (router_open 7 1 (router_run [] (new_router demo_router_cfg)))) = ts"
    "\<And>i. Suc i < length ts \<Longrightarrow> ts ! i + min (base_us (rr_cfg (new_router demo_router_cfg)) * 2 ^ i)
        (cap_us (rr_cfg (new_router demo_router_cfg))) \<le> ts ! Suc i"
    using fresh_router_empty(4) unfolding fresh_router_def by auto
  moreover have "ts = [600000, 2000000]" using asked ts(1) by (simp add: asked_def fresh_router_def)
  ultimately show ?thesis using ts(2) [of 0] by auto
qed

end
