(* ===== verification/Client_State.thy ===== *)
theory Client_State
  imports Router_Refine Send_Controller Net_Client
begin

text \<open>
  The state of the client application: \<open>DocumentRouter\<close> (\<open>client/include/client/document_router.h\<close>), the lobby
  model (\<open>lobby_model.h\<close>, \<open>lobby_model.cpp\<close>) and the members of \<open>AppCore\<close> (\<open>app_core.h\<close>) that its
  channel, watch, camera and sender operations use, as one record. Ids are 32-bit words; the sources
  store some of them as \<open>int\<close> with the same bits and only compare them. Counts shown in the user
  interface are integers. What the client asks of its surroundings (the transport, the platform
  bridge, the audio engine) is appended to \<open>c_out\<close> in order. Change notifications of the user
  interface have no state of their own and are left out, as is \<open>WatchedStream::element_id\<close>, which is a
  function of the stream id.
\<close>

section \<open>Pages\<close>

datatype doc_route = Room | Chat | SettingsPage | SharePicker | Streams

datatype settings_section = AudioVoice | ScreenShareSection | Hotkeys | AccountKeys | CameraSection

text \<open>The history as a stack, newest first.\<close>

record doc_router =
  dr_current :: doc_route
  dr_section :: settings_section
  dr_history :: "doc_route list"

definition new_doc_router :: doc_router where
  "new_doc_router = \<lparr>dr_current = Room, dr_section = AudioVoice, dr_history = []\<rparr>"

definition dr_go :: "doc_route \<Rightarrow> doc_router \<Rightarrow> doc_router" where
  "dr_go p d = d\<lparr>dr_history := [], dr_current := p\<rparr>"

definition dr_push :: "doc_route \<Rightarrow> doc_router \<Rightarrow> doc_router" where
  "dr_push p d = (if dr_current d = p then d else d\<lparr>dr_history := dr_current d # dr_history d, dr_current := p\<rparr>)"

definition open_settings :: "settings_section \<Rightarrow> doc_router \<Rightarrow> doc_router" where
  "open_settings x d = dr_push SettingsPage (d\<lparr>dr_section := x\<rparr>)"

definition select_settings :: "settings_section \<Rightarrow> doc_router \<Rightarrow> doc_router" where
  "select_settings x d =
     (let d1 = d\<lparr>dr_section := x\<rparr> in if dr_current d1 \<noteq> SettingsPage then dr_push SettingsPage d1 else d1)"

definition open_share_picker :: "doc_router \<Rightarrow> doc_router" where
  "open_share_picker d = dr_push SharePicker d"

definition dr_back :: "doc_route \<Rightarrow> doc_router \<Rightarrow> doc_router" where
  "dr_back fallback d =
     (case dr_history d of [] \<Rightarrow> d\<lparr>dr_current := fallback\<rparr> | p # ps \<Rightarrow> d\<lparr>dr_current := p, dr_history := ps\<rparr>)"

definition leave_streams :: "doc_router \<Rightarrow> doc_router" where
  "leave_streams d =
     (let d1 = d\<lparr>dr_history := map (\<lambda>p. if p = Streams then Room else p) (dr_history d)\<rparr>
      in if dr_current d1 = Streams then dr_go Room d1 else d1)"

definition dr_reset :: "doc_router \<Rightarrow> doc_router" where
  "dr_reset d = d\<lparr>dr_history := [], dr_section := AudioVoice, dr_current := Room\<rparr>"

section \<open>The lobby\<close>

record chan_user =
  cu_name :: bytes
  cu_id :: u32
  cu_role :: u8
  cu_muted :: bool
  cu_deafened :: bool
  cu_speaking :: bool
  cu_music :: bool
  cu_streaming :: bool
  cu_camera_on :: bool
  cu_color :: nat

record chan_info =
  ci_id :: u32
  ci_name :: bytes
  ci_count :: int
  ci_max :: int
  ci_users :: "chan_user list"

record active_sharer =
  sh_id :: u32
  sh_user :: u32
  sh_name :: bytes
  sh_watching :: bool
  sh_camera :: bool

record watched_stream =
  ws_id :: u32
  ws_user :: u32
  ws_name :: bytes
  ws_camera :: bool
  ws_mirror :: bool

text \<open>What the platform's bridge offers: more than one stream at a time (\<open>start_video_stream\<close> and \<open>stop_video_stream\<close>,
  which are provided together), a camera (\<open>start_camera\<close> with its companions), and keyframes on request.\<close>

record platform =
  pf_multi :: bool
  pf_camera :: bool
  pf_request :: bool

datatype sound = Snd_Join | Snd_Leave | Snd_UserJoined | Snd_UserLeft | Snd_StreamStarted | Snd_ViewerJoined
  | Snd_Connected | Snd_Disconnected | Snd_Mute | Snd_Unmute | Snd_Deafen | Snd_Undeafen

datatype client_out =
  Sent ctype bytes
| SentVideo bytes
| StartVideoStream u32
| StopVideoStream u32
| ClearVideoElement
| StopScreenShare
| StopAudioShare
| StartCamera
| StopCamera
| RestartCamera
| RequestCameraKeyframe
| RequestKeyframe
| PlaySound sound
| AudioStart
| AudioStop
| MixersClear
| MixersRemove u32
| ApplyPrefs u32
| Decoded u32 bytes
| SentData bytes
| MixerPush u32 u16 bytes
| AuxPush u32 u16 bytes
| StreamAudioPush bytes
| NetDisconnect
| NetConnect
| SaveServer bytes bytes bytes
| AudioMuted bool
| AudioDeafened bool
| TrustFingerprint bytes
| DropTicket
| SaveName bytes

record client =
  c_pf :: platform
  c_auth :: bool
  c_user :: u32
  c_role :: u8
  c_version :: u16
  c_channel :: u32
  c_awaiting_join :: bool
  c_pending_channel :: u32
  c_router :: doc_router
  c_channels :: "chan_info list"
  c_model_channel :: u32
  c_channel_name :: bytes
  c_muted :: bool
  c_deafened :: bool
  c_sharing :: bool
  c_audio_sharing :: bool
  c_someone :: bool
  c_sharers :: "active_sharer list"
  c_watched_model :: "watched_stream list"
  c_watching_count :: int
  c_viewing_id :: u32
  c_fullscreen :: bool
  c_my_role :: u8
  c_can_channels :: bool
  c_can_kick :: bool
  c_can_roles :: bool
  c_watched :: "u32 list"
  c_viewing :: u32
  c_audio_sharer :: u32
  c_awaiting_key :: bool
  c_rx :: Receive_Router.router
  c_rx_sampled :: int
  c_cam_supported :: bool
  c_cam_on :: bool
  c_cam_starting :: bool
  c_cam_preview :: bool
  c_cam_restart :: bool
  c_cam_stops :: int
  c_cam_quality :: int
  c_cam_devices :: "bytes list"
  c_cam_selected :: nat
  c_cam_error :: bytes
  c_screen_sender :: send_ctl
  c_camera_sender :: send_ctl
  c_screen_seq :: u32
  c_camera_seq :: u32
  c_key_last :: int
  c_cam_key_last :: int
  c_has_identity :: bool
  c_public_key :: bytes
  c_global_name :: bytes
  c_username :: bytes
  c_password :: bytes
  c_server_id :: int
  c_connected_id :: int
  c_awaiting_conn :: bool
  c_tofu_pending :: bool
  c_tofu_fp :: bytes
  c_show_login :: bool
  c_login_error :: bytes
  c_server_name :: bytes
  c_admin_message :: bytes
  c_intentional :: bool
  c_reconnecting :: bool
  c_attempts :: nat
  c_flaps :: nat
  c_rejoin_channel :: u32
  c_rejoin_pending :: bool
  c_next_attempt :: int
  c_auth_time :: int
  c_ping_pending :: bool
  c_ping_sent :: int
  c_ping_last :: int
  c_ping_ms :: int
  c_voice_seq :: u16
  c_voice2_seq :: u16
  c_out :: "client_out list"

definition say :: "client_out \<Rightarrow> client \<Rightarrow> client" where
  "say x c = c\<lparr>c_out := c_out c @ [x]\<rparr>"

definition map_users :: "(chan_user \<Rightarrow> chan_user) \<Rightarrow> chan_info list \<Rightarrow> chan_info list" where
  "map_users f chs = map (\<lambda>ch. ch\<lparr>ci_users := map f (ci_users ch)\<rparr>) chs"

text \<open>The first element that satisfies \<open>P\<close>, updated: the sources' loops with a \<open>break\<close>.\<close>

fun update_first :: "('a \<Rightarrow> bool) \<Rightarrow> ('a \<Rightarrow> 'a) \<Rightarrow> 'a list \<Rightarrow> 'a list" where
  "update_first P f [] = []"
| "update_first P f (x # xs) = (if P x then f x # xs else x # update_first P f xs)"

definition on_channel :: "u32 \<Rightarrow> (chan_info \<Rightarrow> chan_info) \<Rightarrow> chan_info list \<Rightarrow> chan_info list" where
  "on_channel ch f chs = update_first (\<lambda>c. ci_id c = ch) f chs"

definition drop_member :: "u32 \<Rightarrow> chan_info \<Rightarrow> chan_info" where
  "drop_member u ch =
     (let us = filter (\<lambda>x. cu_id x \<noteq> u) (ci_users ch) in ch\<lparr>ci_users := us, ci_count := int (length us)\<rparr>)"

definition name_hash :: "bytes \<Rightarrow> u32" where
  "name_hash s = foldl (\<lambda>h b. h * 31 + ucast b) 0 s"

definition avatar_color :: "bytes \<Rightarrow> nat" where
  "avatar_color s = unat (name_hash s) mod 12"

definition show_voice_channel :: "u32 \<Rightarrow> client \<Rightarrow> client" where
  "show_voice_channel ch c =
     (let resume = (ch = c_model_channel c \<and> c_watching_count c > 0)
      in c\<lparr>c_router := dr_go (if resume then Streams else Room) (c_router c)\<rparr>)"

text \<open>The member of the joined channel a stream belongs to: the loops run over every channel with that id and
  every user with that id, and return at the first.\<close>

definition find_member :: "u32 \<Rightarrow> u32 \<Rightarrow> chan_info list \<Rightarrow> chan_user option" where
  "find_member ch u chs = List.find (\<lambda>x. cu_id x = u) (concat (map ci_users (filter (\<lambda>c. ci_id c = ch) chs)))"

fun mark_first :: "u32 \<Rightarrow> u32 \<Rightarrow> (chan_user \<Rightarrow> chan_user) \<Rightarrow> chan_info list \<Rightarrow> chan_info list" where
  "mark_first ch u f [] = []"
| "mark_first ch u f (c # cs) =
     (if ci_id c = ch \<and> (\<exists>x \<in> set (ci_users c). cu_id x = u)
      then c\<lparr>ci_users := update_first (\<lambda>x. cu_id x = u) f (ci_users c)\<rparr> # cs
      else c # mark_first ch u f cs)"

definition mark_stream :: "bool \<Rightarrow> bool \<Rightarrow> chan_user \<Rightarrow> chan_user" where
  "mark_stream camera v x = (if camera then x\<lparr>cu_camera_on := v\<rparr> else x\<lparr>cu_streaming := v\<rparr>)"

definition is_camera :: "u32 \<Rightarrow> bool" where
  "is_camera s \<longleftrightarrow> video_stream_source s = Camera"

definition add_channel_sharer :: "u32 \<Rightarrow> client \<Rightarrow> bool \<times> client" where
  "add_channel_sharer s c =
     (let u = video_stream_owner s; cam = is_camera s
      in if c_model_channel c = 0 \<or> \<not> video_stream_valid s then (False, c)
         else case find_member (c_model_channel c) u (c_channels c) of
           None \<Rightarrow> (False, c)
         | Some x \<Rightarrow>
             let sh = (if \<exists>y \<in> set (c_sharers c). sh_id y = s
                       then update_first (\<lambda>y. sh_id y = s) (\<lambda>y. y\<lparr>sh_name := cu_name x\<rparr>) (c_sharers c)
                       else c_sharers c @ [\<lparr>sh_id = s, sh_user = u, sh_name = cu_name x, sh_watching = False, sh_camera = cam\<rparr>])
             in (True, c\<lparr>c_sharers := sh,
                         c_channels := mark_first (c_model_channel c) u (mark_stream cam True) (c_channels c),
                         c_someone := True\<rparr>))"

definition remove_channel_sharer :: "u32 \<Rightarrow> client \<Rightarrow> client" where
  "remove_channel_sharer s c =
     (let sh = filter (\<lambda>y. sh_id y \<noteq> s) (c_sharers c); u = video_stream_owner s
      in c\<lparr>c_sharers := sh, c_someone := (sh \<noteq> []),
           c_channels := map_users (\<lambda>x. if cu_id x = u then mark_stream (is_camera s) False x else x) (c_channels c)\<rparr>)"

definition clear_channel_sharers :: "client \<Rightarrow> client" where
  "clear_channel_sharers c =
     c\<lparr>c_sharers := [], c_someone := False,
       c_channels := map_users (\<lambda>x. x\<lparr>cu_streaming := False, cu_camera_on := False\<rparr>) (c_channels c)\<rparr>"

end
