(* ===== verification/Client_Watch.thy ===== *)
theory Client_Watch
  imports Client_State
begin

text \<open>
  Watching streams: the screen share helpers of \<open>client/src/app_core.cpp\<close>. \<open>c_watched\<close> is the set \<open>watched_\<close>
  in its iteration order, \<open>c_rx\<close> the receive router, whose calls back into the client (a frame for the
  decoder, a keyframe request for the wire) are made by \<open>rx_do\<close> right after the operation.
\<close>

section \<open>The receive router\<close>

definition send_pli_packet :: "u32 \<Rightarrow> client \<Rightarrow> client" where
  "send_pli_packet target c =
     (if target = 0 \<or> video_stream_owner target = c_user c then c
      else say (SentVideo ([VIDEO_CONTROL_TYPE, VIDEO_CTL_PLI] @ le32 target)) c)"

fun rx_out :: "router_out \<Rightarrow> client \<Rightarrow> client" where
  "rx_out (Handed s hdr frame) c = say (Decoded s frame) c"
| "rx_out (Requested s) c = send_pli_packet s c"

definition rx_do :: "router_op \<Rightarrow> client \<Rightarrow> client" where
  "rx_do op c =
     (let r = router_do op (c_rx c)
      in fold (\<lambda>(t, x). rx_out x) (drop (length (rr_out (c_rx c))) (rr_out r)) (c\<lparr>c_rx := r\<rparr>))"

definition open_video_rx :: "int \<Rightarrow> u32 \<Rightarrow> client \<Rightarrow> client" where
  "open_video_rx now s c = rx_do (R_Open s now) c"

definition route_video_stream_frame :: "int \<Rightarrow> u32 \<Rightarrow> bytes \<Rightarrow> client \<Rightarrow> client" where
  "route_video_stream_frame now s frame c =
     (if video_stream_owner s = c_user c then c else rx_do (R_Frame s frame now) c)"

definition route_video_stream_aborted :: "int \<Rightarrow> u32 \<Rightarrow> u32 \<Rightarrow> bool \<Rightarrow> client \<Rightarrow> client" where
  "route_video_stream_aborted now s seq have_seq c =
     (if video_stream_owner s = c_user c then c else rx_do (R_Aborted s seq have_seq now) c)"

definition on_video_stream_header :: "int \<Rightarrow> u32 \<Rightarrow> frame_header \<Rightarrow> client \<Rightarrow> client" where
  "on_video_stream_header now s hdr c = rx_do (R_Started s hdr now) c"

section \<open>Keyframe requests for our own encoders\<close>

definition on_keyframe_request :: "int \<Rightarrow> video_source \<Rightarrow> client \<Rightarrow> client" where
  "on_keyframe_request now source c =
     (let cam = (source = Camera)
      in if \<not> (if cam then pf_camera (c_pf c) else pf_request (c_pf c)) then c
         else if now - (if cam then c_cam_key_last c else c_key_last c) < VIDEO_KEYFRAME_REQUEST_COOLDOWN_MS * 1000 then c
         else say (if cam then RequestCameraKeyframe else RequestKeyframe)
                (if cam then c\<lparr>c_cam_key_last := now\<rparr> else c\<lparr>c_key_last := now\<rparr>))"

definition send_pli :: "int \<Rightarrow> u32 \<Rightarrow> client \<Rightarrow> client" where
  "send_pli now target c =
     (if target = 0 then c
      else if video_stream_owner target = c_user c then on_keyframe_request now (video_stream_source target) c
      else rx_do (R_Request target now) c)"

section \<open>The watched set\<close>

definition is_watching :: "u32 \<Rightarrow> client \<Rightarrow> bool" where
  "is_watching s c \<longleftrightarrow> s \<in> set (c_watched c)"

definition is_sharer :: "u32 \<Rightarrow> client \<Rightarrow> bool" where
  "is_sharer s c \<longleftrightarrow> (\<exists>y \<in> set (c_sharers c). sh_id y = s)"

definition watched_cell :: "client \<Rightarrow> active_sharer \<Rightarrow> watched_stream" where
  "watched_cell c y = \<lparr>ws_id = sh_id y, ws_user = sh_user y, ws_name = sh_name y, ws_camera = sh_camera y,
     ws_mirror = (sh_camera y \<and> sh_user y = c_user c)\<rparr>"

definition rebuild_watched_model :: "client \<Rightarrow> client" where
  "rebuild_watched_model c =
     (let sh = map (\<lambda>y. y\<lparr>sh_watching := is_watching (sh_id y) c\<rparr>) (c_sharers c);
          wv = map (watched_cell c) (filter sh_watching sh);
          d = c_router c
      in c\<lparr>c_sharers := sh, c_watched_model := wv, c_watching_count := int (length wv),
           c_router := (if wv = [] then leave_streams d
                        else if dr_current d \<noteq> SettingsPage \<and> dr_current d \<noteq> SharePicker then dr_go Streams d
                        else d)\<rparr>)"

definition screen_focus :: "u32 \<Rightarrow> u32" where
  "screen_focus s = (if video_stream_source s = Screen then s else 0)"

definition stop_streams :: "u32 list \<Rightarrow> client \<Rightarrow> client" where
  "stop_streams ss c = (if pf_multi (c_pf c) then fold (\<lambda>s. say (StopVideoStream s)) ss c else c)"

definition stop_watching :: "client \<Rightarrow> client" where
  "stop_watching c =
     (let c1 = rx_do R_Close_All (stop_streams (c_watched c) (c\<lparr>c_watched := []\<rparr>));
          c2 = say (Sent SCREEN_SHARE_VIEW (le32 0)) c1;
          c3 = c2\<lparr>c_viewing := 0, c_audio_sharer := 0, c_awaiting_key := False, c_viewing_id := 0, c_fullscreen := False\<rparr>
      in rebuild_watched_model (say ClearVideoElement c3))"

text \<open>\<open>watch_sharer\<close> past its checks, on a single-decoder platform.\<close>

definition watch_single :: "int \<Rightarrow> u32 \<Rightarrow> client \<Rightarrow> client" where
  "watch_single now s c =
     (if is_watching s c then show_voice_channel (c_channel c) c
      else
        let c1 = (if c_viewing c \<noteq> 0 \<and> c_viewing c \<noteq> s \<and> pf_multi (c_pf c) then say (StopVideoStream (c_viewing c)) c else c);
            c2 = c1\<lparr>c_watched := [s], c_viewing := s, c_audio_sharer := screen_focus s, c_awaiting_key := True\<rparr>;
            c3 = open_video_rx now s (rx_do R_Close_All c2);
            c4 = (if pf_multi (c_pf c) then say (StartVideoStream s) c3 else c3);
            c5 = say (Sent SCREEN_SHARE_VIEW (le32 s)) c4
        in rebuild_watched_model (c5\<lparr>c_viewing_id := s\<rparr>))"

text \<open>\<open>add_watch\<close> past its checks, on a multi-stream platform.\<close>

definition watch_more :: "int \<Rightarrow> u32 \<Rightarrow> client \<Rightarrow> client" where
  "watch_more now s c =
     (if is_watching s c then show_voice_channel (c_channel c) c
      else
        let c1 = open_video_rx now s (c\<lparr>c_watched := c_watched c @ [s]\<rparr>);
            c2 = say (Sent SCREEN_SHARE_VIEW (write_u8 1 (write_u32 s []))) c1;
            c3 = (if pf_multi (c_pf c) then say (StartVideoStream s) c2 else c2);
            c4 = c3\<lparr>c_viewing := s, c_audio_sharer := (if video_stream_source s = Screen then s else c_audio_sharer c3),
                    c_viewing_id := s\<rparr>
        in rebuild_watched_model c4)"

definition watch_sharer :: "int \<Rightarrow> u32 \<Rightarrow> client \<Rightarrow> client" where
  "watch_sharer now s c =
     (if s = 0 then stop_watching c
      else if \<not> is_sharer s c then c
      else if pf_multi (c_pf c) then watch_more now s c
      else watch_single now s c)"

definition add_watch :: "int \<Rightarrow> u32 \<Rightarrow> client \<Rightarrow> client" where
  "add_watch now s c =
     (if s = 0 then c
      else if \<not> is_sharer s c then c
      else if \<not> pf_multi (c_pf c) then watch_single now s c
      else watch_more now s c)"

definition watch_user :: "int \<Rightarrow> u32 \<Rightarrow> client \<Rightarrow> client" where
  "watch_user now u c =
     (let screen = video_stream_id u Screen; camera = video_stream_id u Camera;
          has_screen = is_sharer screen c; has_camera = is_sharer camera c
      in if \<not> pf_multi (c_pf c)
         then (if has_screen \<or> has_camera then watch_sharer now (if has_screen then screen else camera) c else c)
         else (let c1 = (if has_camera then add_watch now camera c else c)
               in if has_screen then add_watch now screen c1 else c1))"

definition refocus_stream_audio :: "client \<Rightarrow> client" where
  "refocus_stream_audio c =
     c\<lparr>c_audio_sharer := (case List.find (\<lambda>s. video_stream_source s = Screen) (c_watched c) of None \<Rightarrow> 0 | Some s \<Rightarrow> s)\<rparr>"

definition remove_watch :: "u32 \<Rightarrow> client \<Rightarrow> client" where
  "remove_watch s c =
     (if \<not> is_watching s c then c
      else
        let c1 = c\<lparr>c_watched := filter (\<lambda>x. x \<noteq> s) (c_watched c)\<rparr>;
            c2 = say (Sent SCREEN_SHARE_VIEW (write_u8 0 (write_u32 s []))) c1;
            c3 = rx_do (R_Close s) (if pf_multi (c_pf c) then say (StopVideoStream s) c2 else c2);
            c4 = (case c_watched c3 of
                    [] \<Rightarrow> say ClearVideoElement (c3\<lparr>c_viewing := 0, c_viewing_id := 0, c_fullscreen := False\<rparr>)
                  | p # _ \<Rightarrow> c3\<lparr>c_viewing := p, c_viewing_id := p\<rparr>);
            c5 = (if c_audio_sharer c4 = s then refocus_stream_audio c4 else c4)
        in rebuild_watched_model c5)"

definition toggle_watch :: "int \<Rightarrow> u32 \<Rightarrow> client \<Rightarrow> client" where
  "toggle_watch now s c = (if is_watching s c then remove_watch s c else add_watch now s c)"

definition set_single_watched :: "int \<Rightarrow> u32 \<Rightarrow> client \<Rightarrow> client" where
  "set_single_watched now s c =
     (let c1 = rx_do R_Close_All (c\<lparr>c_watched := (if s \<noteq> 0 then [s] else [])\<rparr>);
          c2 = (if s \<noteq> 0 then open_video_rx now s c1 else c1);
          c3 = c2\<lparr>c_viewing := s, c_audio_sharer := screen_focus s, c_viewing_id := s\<rparr>
      in rebuild_watched_model (if s = 0 then c3\<lparr>c_fullscreen := False\<rparr> else c3))"

definition clear_all_sharers :: "client \<Rightarrow> client" where
  "clear_all_sharers c =
     (let c1 = rx_do R_Close_All (stop_streams (c_watched c) (c\<lparr>c_watched := []\<rparr>));
          c2 = clear_channel_sharers (c1\<lparr>c_viewing := 0, c_audio_sharer := 0, c_awaiting_key := False\<rparr>)
      in c2\<lparr>c_watched_model := [], c_watching_count := 0, c_someone := False, c_viewing_id := 0, c_fullscreen := False,
            c_router := leave_streams (c_router c2)\<rparr>)"

end
