(* ===== verification/Client_Media.thy ===== *)
theory Client_Media
  imports Client_Watch
begin

text \<open>
  Publishing: the video senders and the camera of \<open>client/src/app_core.cpp\<close>. \<open>send_video_frame\<close> runs on the
  client and its transport (\<open>Net_Client\<close>); the outcome of MsQuic calls, of the bridge's \<open>start_camera\<close> and of a
  control send are arguments.
\<close>

section \<open>Senders\<close>

definition sender_for :: "video_source \<Rightarrow> client \<Rightarrow> send_ctl" where
  "sender_for source c = (if source = Camera then c_camera_sender c else c_screen_sender c)"

definition set_sender :: "video_source \<Rightarrow> send_ctl \<Rightarrow> client \<Rightarrow> client" where
  "set_sender source x c = (if source = Camera then c\<lparr>c_camera_sender := x\<rparr> else c\<lparr>c_screen_sender := x\<rparr>)"

definition clamp_bitrate :: "u32 \<Rightarrow> u32" where
  "clamp_bitrate bps = (if bps < VIDEO_MIN_BITRATE then VIDEO_MIN_BITRATE
                        else if VIDEO_MAX_BITRATE < bps then VIDEO_MAX_BITRATE else bps)"

definition sender_cfg :: "video_source \<Rightarrow> u32 \<Rightarrow> send_cfg" where
  "sender_cfg source bps =
     (let cfg = default_send_cfg\<lparr>target_bitrate_bps := clamp_bitrate bps\<rparr>;
          cfg1 = (if source = Camera then cfg\<lparr>min_bitrate_bps := 250000\<rparr> else cfg)
      in cfg1\<lparr>min_bitrate_bps := min (min_bitrate_bps cfg1) (target_bitrate_bps cfg1)\<rparr>)"

definition reset_video_sender :: "video_source \<Rightarrow> u32 \<Rightarrow> client \<Rightarrow> client" where
  "reset_video_sender source bps c =
     (let c1 = (if source = Camera then c\<lparr>c_camera_seq := 0\<rparr> else c\<lparr>c_screen_seq := 0\<rparr>)
      in set_sender source (sc_reset (sender_cfg source bps) (sender_for source c1)) c1)"

definition set_video_target_bitrate :: "u32 \<Rightarrow> client \<Rightarrow> client" where
  "set_video_target_bitrate bps c = set_sender Screen (set_target_bitrate (clamp_bitrate bps) (sender_for Screen c)) c"

definition video_admit_frame :: "video_source \<Rightarrow> client \<Rightarrow> bool \<times> client" where
  "video_admit_frame source c = (let (ok, x) = admit_frame (sender_for source c) in (ok, set_sender source x c))"

definition take_video_bitrate_update :: "video_source \<Rightarrow> client \<Rightarrow> u32 option \<times> client" where
  "take_video_bitrate_update source c =
     (let (v, x) = take_bitrate_update (sender_for source c) in (v, set_sender source x c))"

definition take_video_keyframe_request :: "video_source \<Rightarrow> client \<Rightarrow> bool \<times> client" where
  "take_video_keyframe_request source c =
     (let (v, x) = take_keyframe_request (sender_for source c) in (v, set_sender source x c))"

definition on_video_bytes_completed :: "video_source \<Rightarrow> nat \<Rightarrow> client \<Rightarrow> client" where
  "on_video_bytes_completed source n c = set_sender source (on_completed n (sender_for source c)) c"

definition frame_header_for :: "int \<Rightarrow> u32 \<Rightarrow> bool \<Rightarrow> u16 \<Rightarrow> u16 \<Rightarrow> u8 \<Rightarrow> frame_header" where
  "frame_header_for now seq key w h cdc =
     \<lparr>frame_seq = seq, timestamp = word_of_int (now div 1000),
      flags = (if key then VIDEO_FLAG_KEYFRAME else 0) OR VIDEO_FLAG_CAPTURE_TIME, width = w, height = h, codec = cdc\<rparr>"

definition next_seq :: "video_source \<Rightarrow> client \<Rightarrow> u32 \<times> client" where
  "next_seq source c =
     (if source = Camera then (c_camera_seq c, c\<lparr>c_camera_seq := c_camera_seq c + 1\<rparr>)
      else (c_screen_seq c, c\<lparr>c_screen_seq := c_screen_seq c + 1\<rparr>))"

definition undo_charge :: "video_source \<Rightarrow> nat \<Rightarrow> client \<Rightarrow> client" where
  "undo_charge source n c = set_sender source (sc_on_send_failed (on_completed n (sender_for source c))) c"

text \<open>The result is the sequence number and whether the frame was queued.\<close>

definition send_video_frame :: "video_source \<Rightarrow> bytes \<Rightarrow> bool \<Rightarrow> u16 \<Rightarrow> u16 \<Rightarrow> u8 \<Rightarrow> int \<Rightarrow> nat option \<Rightarrow> bool
    \<Rightarrow> client \<times> net \<Rightarrow> (u32 \<times> bool) \<times> client \<times> net" where
  "send_video_frame source encoded key w h cdc now stream ok cn =
     (let (c, n) = cn; (seq, c1) = next_seq source c
      in if \<not> c_auth c \<or> \<not> nc_connected n then ((seq, False), c1, n)
         else
           let hdr = header_write (frame_header_for now seq key w h cdc)
           in if protocol_supports_frame_streams (c_version c)
              then
                let accounted = frame_stream_prefix_bytes source + VIDEO_FRAME_HEADER_SIZE + length encoded;
                    c2 = set_sender source (on_enqueued accounted (sender_for source c1)) c1;
                    (sent, n1) = send_video_frame_stream hdr encoded source stream ok n
                in ((seq, sent), if sent then c2 else undo_charge source accounted c2, n1)
              else if source \<noteq> Camera
              then
                let pkt = VIDEO_FRAME_PACKET_TYPE # hdr;
                    accounted = 4 + (1 + VIDEO_FRAME_HEADER_SIZE) + length encoded;
                    c2 = set_sender source (on_enqueued accounted (sender_for source c1)) c1;
                    (sent, n1) = send_video_parts pkt encoded ok n
                in ((seq, sent), if sent then c2 else undo_charge source accounted c2, n1)
              else ((seq, False), c1, n))"

definition send_video_stream_update :: "video_source \<Rightarrow> u8 \<Rightarrow> u16 \<Rightarrow> u16 \<Rightarrow> client \<Rightarrow> client" where
  "send_video_stream_update source cdc w h c =
     say (Sent SCREEN_SHARE_UPDATE (write_u8 source (write_u16 h (write_u16 w (write_u8 cdc []))))) c"

record conn_stats =
  cs_valid :: bool
  cs_rtt :: u32
  cs_suspected :: u64
  cs_spurious :: u64
  cs_sent :: u64

definition feed_video_sender_stats :: "int \<Rightarrow> conn_stats \<Rightarrow> client \<Rightarrow> client" where
  "feed_video_sender_stats now st c =
     (let screen = c_sharing c \<or> outstanding_bytes (c_screen_sender c) > 0;
          camera = c_cam_on c \<or> outstanding_bytes (c_camera_sender c) > 0;
          feed = on_connection_stats now (cs_rtt st) (cs_suspected st) (cs_spurious st) (cs_sent st)
      in if \<not> c_auth c \<or> \<not> screen \<and> \<not> camera \<or> \<not> cs_valid st then c
         else let c1 = (if screen then c\<lparr>c_screen_sender := feed (c_screen_sender c)\<rparr> else c)
              in if camera then c1\<lparr>c_camera_sender := feed (c_camera_sender c1)\<rparr> else c1)"

definition tick_senders :: "int \<Rightarrow> client \<Rightarrow> client" where
  "tick_senders now c = c\<lparr>c_screen_sender := sc_tick now (c_screen_sender c), c_camera_sender := sc_tick now (c_camera_sender c)\<rparr>"

section \<open>The camera\<close>

record camera_preset =
  cp_width :: u16
  cp_height :: u16
  cp_fps :: u32
  cp_bitrate :: u32

definition camera_preset_of :: "int \<Rightarrow> camera_preset" where
  "camera_preset_of quality =
     (let q = (if quality < 0 then 0 else if 2 < quality then 2 else quality)
      in if q = 0 then \<lparr>cp_width = 854, cp_height = 480, cp_fps = 30, cp_bitrate = 700000\<rparr>
         else if q = 2 then \<lparr>cp_width = 1920, cp_height = 1080, cp_fps = 30, cp_bitrate = 3000000\<rparr>
         else \<lparr>cp_width = 1280, cp_height = 720, cp_fps = 30, cp_bitrate = 1500000\<rparr>)"

definition camera_supported :: "client \<Rightarrow> bool" where
  "camera_supported c \<longleftrightarrow> pf_camera (c_pf c) \<and> c_auth c \<and> protocol_supports_camera (c_version c)"

definition sync_camera_supported :: "client \<Rightarrow> client" where
  "sync_camera_supported c = c\<lparr>c_cam_supported := camera_supported c\<rparr>"

text \<open>\<open>names\<close> is what the bridge lists, \<open>saved\<close> the stored preference; the last device of that name is selected.\<close>

definition refresh_camera_devices :: "bytes list \<Rightarrow> bytes \<Rightarrow> client \<Rightarrow> client" where
  "refresh_camera_devices names saved c =
     (if \<not> pf_camera (c_pf c) then c
      else c\<lparr>c_cam_devices := names,
             c_cam_selected := (if names = [] then 0
               else foldl (\<lambda>k i. if names ! i = saved then i else k) 0 [0..<length names])\<rparr>)"

definition own_camera :: "client \<Rightarrow> u32" where
  "own_camera c = video_stream_id (c_user c) Camera"

text \<open>The end of the camera: forget the preview and, for an announced stream, tell the server; \<open>sent\<close> is what that
  send returns.\<close>

definition end_camera :: "bool \<Rightarrow> bool \<Rightarrow> client \<Rightarrow> client" where
  "end_camera tell sent c =
     (let c1 = (if is_watching (own_camera c) c then remove_watch (own_camera c) c else c)
      in if tell \<and> c_auth c1 \<and> c_channel c1 \<noteq> 0
         then let c2 = say (Sent SCREEN_SHARE_STOP [Camera]) c1
              in if sent then c2\<lparr>c_cam_stops := c_cam_stops c2 + 1\<rparr> else c2
         else c1)"

definition camera_failed :: "bytes \<Rightarrow> bool \<Rightarrow> client \<Rightarrow> client" where
  "camera_failed reason sent c =
     (let announced = (c_cam_on c \<and> \<not> c_cam_starting c);
          c1 = c\<lparr>c_cam_starting := False, c_cam_preview := False, c_cam_restart := False, c_cam_error := reason,
                 c_cam_on := False\<rparr>;
          c2 = (if pf_camera (c_pf c) then say StopCamera c1 else c1)
      in end_camera announced sent c2)"

definition stop_camera :: "bool \<Rightarrow> bool \<Rightarrow> client \<Rightarrow> client" where
  "stop_camera tell_server sent c =
     (let running = (c_cam_on c \<or> c_cam_starting c);
          announced = (c_cam_on c \<and> \<not> c_cam_starting c);
          c1 = c\<lparr>c_cam_starting := False, c_cam_preview := False, c_cam_restart := False\<rparr>
      in if \<not> running then c1
         else let c2 = c1\<lparr>c_cam_on := False\<rparr>;
                  c3 = (if pf_camera (c_pf c) then say StopCamera c2 else c2)
              in end_camera (tell_server \<and> announced) sent c3)"

definition restart_camera :: "client \<Rightarrow> client" where
  "restart_camera c =
     (if \<not> c_cam_on c \<or> \<not> pf_camera (c_pf c) then c
      else if c_cam_starting c then c\<lparr>c_cam_restart := True\<rparr>
      else say RestartCamera (c\<lparr>c_camera_sender :=
             set_target_bitrate (clamp_bitrate (cp_bitrate (camera_preset_of (c_cam_quality c)))) (c_camera_sender c)\<rparr>))"

definition start_camera :: "bytes list \<Rightarrow> bytes \<Rightarrow> bool \<Rightarrow> client \<Rightarrow> client" where
  "start_camera names saved started c =
     (if c_cam_on c \<or> c_cam_starting c then c
      else if \<not> camera_supported c \<or> c_channel c = 0 then c
      else
        let c1 = (if c_cam_devices c = [] then refresh_camera_devices names saved c else c)
        in if c_cam_devices c1 = [] then c1
           else
             let c2 = reset_video_sender Camera (cp_bitrate (camera_preset_of (c_cam_quality c1))) c1;
                 c3 = say StartCamera (c2\<lparr>c_cam_starting := True, c_cam_on := True\<rparr>)
             in if started then c3 else camera_failed (str ''could not start the capture'') False c3)"

definition camera_started :: "bool \<Rightarrow> client \<Rightarrow> client" where
  "camera_started sent c =
     (if \<not> c_cam_starting c then c
      else
        let c1 = c\<lparr>c_cam_starting := False\<rparr>
        in if \<not> c_auth c1 \<or> c_channel c1 = 0 then stop_camera True sent c1
           else
             let c2 = say (Sent SCREEN_SHARE_START (write_u8 Camera (write_u16 0 (write_u16 0 (write_u8 0 []))))) c1;
                 c3 = c2\<lparr>c_cam_preview := True, c_cam_error := [], c_cam_restart := False\<rparr>
             in if c_cam_restart c2 then restart_camera c3 else c3)"

end
