(* ===== verification/Client_Session.thy ===== *)
theory Client_Session
  imports Client_Media
begin

text \<open>
  The client's session with a server: joining and leaving channels, the handlers of server messages,
  signing in, losing the connection and reconnecting (\<open>client/src/app_core.cpp\<close>). Times are
  microseconds of the steady clock. What the settings store, the clock and MsQuic answer are
  arguments. The chat model, status texts and device lists of the user interface are not part of
  this state.
\<close>

section \<open>Channels\<close>

definition voice_flag :: "bool \<Rightarrow> u8" where
  "voice_flag b = (if b then 1 else 0)"

definition join_channel :: "u32 \<Rightarrow> client \<Rightarrow> client" where
  "join_channel ch c =
     (if \<not> c_auth c then c
      else
        let c1 = show_voice_channel ch c
        in if ch = c_channel c then c1
           else say (Sent CHANNEL_JOIN (write_u8 (voice_flag (c_deafened c)) (write_u8 (voice_flag (c_muted c)) (write_u32 ch []))))
                  (c1\<lparr>c_awaiting_join := True, c_pending_channel := ch\<rparr>))"

definition stop_shares :: "client \<Rightarrow> client" where
  "stop_shares c =
     (let c1 = (if c_sharing c then say StopScreenShare c else c)
      in if c_audio_sharing c then say StopAudioShare c1 else c1)"

definition Client_leave_channel :: "bool \<Rightarrow> bool \<Rightarrow> client \<Rightarrow> client" where
  "Client_leave_channel tell_server sent c =
     (if \<not> c_auth c \<or> c_channel c = 0 then c
      else
        let c1 = (if dr_current (c_router c) = SharePicker then c\<lparr>c_router := dr_back Room (c_router c)\<rparr> else c);
            c2 = stop_camera tell_server sent (stop_shares c1);
            c3 = (if c_viewing c2 \<noteq> 0 then stop_watching c2 else c2);
            c4 = (clear_all_sharers c3)\<lparr>c_sharing := False, c_audio_sharing := False\<rparr>;
            c5 = (if tell_server then say (Sent CHANNEL_LEAVE []) c4 else c4);
            c6 = c5\<lparr>c_channels := on_channel (c_channel c5) (drop_member (c_user c5)) (c_channels c5), c_channel := 0\<rparr>;
            c7 = say MixersClear (say AudioStop (say (PlaySound Snd_Leave) c6))
        in c7\<lparr>c_model_channel := 0, c_channel_name := [], c_router := dr_go Room (c_router c7)\<rparr>)"

definition send_voice_state :: "client \<Rightarrow> client" where
  "send_voice_state c =
     (if \<not> c_auth c \<or> c_channel c = 0 then c
      else say (Sent VOICE_STATE_UPDATE [voice_flag (c_muted c), voice_flag (c_deafened c)]) c)"

section \<open>Reconnecting\<close>

definition reconnect_backoff_ms :: "nat \<Rightarrow> int" where
  "reconnect_backoff_ms attempts = min 15000 (500 * 2 ^ (min attempts 5))"

definition cancel_reconnect :: "client \<Rightarrow> client" where
  "cancel_reconnect c = c\<lparr>c_reconnecting := False, c_rejoin_pending := False, c_attempts := 0, c_rejoin_channel := 0\<rparr>"

definition schedule_attempt :: "int \<Rightarrow> client \<Rightarrow> client" where
  "schedule_attempt now c =
     (let c1 = c\<lparr>c_attempts := c_attempts c + 1\<rparr>
      in c1\<lparr>c_next_attempt := now + reconnect_backoff_ms (c_attempts c1) * 1000\<rparr>)"

definition disconnect_intentionally :: "client \<Rightarrow> client" where
  "disconnect_intentionally c = say NetDisconnect (cancel_reconnect (c\<lparr>c_intentional := True\<rparr>))"

definition is_space :: "u8 \<Rightarrow> bool" where
  "is_space b \<longleftrightarrow> b = 32 \<or> 9 \<le> b \<and> b \<le> 13"

definition trim_display_name :: "bytes \<Rightarrow> bytes" where
  "trim_display_name s = rev (dropWhile is_space (rev (dropWhile is_space s)))"

text \<open>\<open>saved\<close>: the stored name and password of the server we were on, if it is still stored; \<open>ok\<close>: what
  \<open>connect\<close> returns.\<close>

definition attempt_reconnect :: "int \<Rightarrow> (bytes \<times> bytes) option \<Rightarrow> bool \<Rightarrow> client \<Rightarrow> client" where
  "attempt_reconnect now saved ok c =
     (case saved of
        None \<Rightarrow> cancel_reconnect c
      | Some (name, password) \<Rightarrow>
          let nm = trim_display_name name;
              c1 = say NetConnect (c\<lparr>c_username := (if nm = [] then c_global_name c else nm), c_password := password\<rparr>)
          in if \<not> ok then schedule_attempt now c1
             else c1\<lparr>c_awaiting_conn := True, c_rejoin_pending := (c_rejoin_channel c \<noteq> 0)\<rparr>)"

section \<open>Signing in\<close>

text \<open>What is signed: key, name and time.\<close>

definition client_signed_message :: "bytes \<Rightarrow> bytes \<Rightarrow> u64 \<Rightarrow> bytes" where
  "client_signed_message key name now = write_u64 now (write_string name (write_bytes key []))"

definition auth_message :: "bytes \<Rightarrow> bytes \<Rightarrow> u64 \<Rightarrow> bytes \<Rightarrow> bytes \<Rightarrow> bytes" where
  "auth_message key name now sig password =
     write_string password (write_bytes sig (write_u64 now (write_string name (write_bytes key (write_u16 PROTOCOL_VERSION [])))))"

text \<open>\<open>sign\<close> is \<open>ed25519_sign\<close> with our secret key, \<open>None\<close> when it fails.\<close>

definition send_auth_identity :: "u64 \<Rightarrow> (bytes \<Rightarrow> bytes option) \<Rightarrow> client \<Rightarrow> client" where
  "send_auth_identity now sign c =
     (if \<not> c_has_identity c then c
      else case sign (client_signed_message (c_public_key c) (c_username c) now) of
        None \<Rightarrow> c\<lparr>c_login_error := str ''Failed to sign auth message'', c_show_login := True\<rparr>
      | Some sig \<Rightarrow> say (Sent AUTH_IDENTITY (auth_message (c_public_key c) (c_username c) now sig (c_password c))) c)"

datatype tofu = Tofu_Unknown | Tofu_Trusted | Tofu_Mismatch

text \<open>\<open>fp\<close> is the server certificate's fingerprint, empty on a resumed session.\<close>

definition finish_connect :: "bytes \<Rightarrow> tofu \<Rightarrow> u64 \<Rightarrow> (bytes \<Rightarrow> bytes option) \<Rightarrow> client \<Rightarrow> client" where
  "finish_connect fp verdict now sign c =
     (if fp \<noteq> [] \<and> verdict = Tofu_Mismatch then c\<lparr>c_tofu_fp := fp, c_tofu_pending := True, c_show_login := False\<rparr>
      else send_auth_identity now sign (if fp \<noteq> [] \<and> verdict = Tofu_Unknown then say (TrustFingerprint fp) c else c))"

definition poll_connecting :: "int \<Rightarrow> bool \<Rightarrow> bool \<Rightarrow> bytes \<Rightarrow> tofu \<Rightarrow> u64 \<Rightarrow> (bytes \<Rightarrow> bytes option) \<Rightarrow> client \<Rightarrow> client" where
  "poll_connecting now_us failed up fp verdict now sign c =
     (if failed then
        let c1 = say NetDisconnect (c\<lparr>c_awaiting_conn := False\<rparr>)
        in if c_reconnecting c1 then schedule_attempt now_us c1
           else c1\<lparr>c_login_error := str ''Failed to connect to server'', c_show_login := True\<rparr>
      else if up then finish_connect fp verdict now sign (c\<lparr>c_awaiting_conn := False\<rparr>)
      else c)"

definition set_rights :: "u8 \<Rightarrow> client \<Rightarrow> client" where
  "set_rights r c = c\<lparr>c_my_role := r, c_can_channels := (r \<le> 2), c_can_kick := (r \<le> 2), c_can_roles := (r \<le> 1)\<rparr>"

definition on_auth_response :: "int \<Rightarrow> bytes \<Rightarrow> client \<Rightarrow> client" where
  "on_auth_response now d c =
     (let (uid, r1) = read_u32 (new_reader d); (tok, r2) = read_bytes (replicate 32 0) 32 r1; (rl, r3) = read_u8 r2;
          (name, r4) = read_string r3;
          (ver, r5) = (if remaining r4 \<ge> 2 then read_u16 r4 else (PROTOCOL_VERSION_ASSUMED_LEGACY, r4));
          c1 = c\<lparr>c_user := uid, c_role := rl, c_version := ver\<rparr>
      in if rerr r5 then c1
         else
           let c2 = say (SaveServer name (c_username c) (c_password c)) (c1\<lparr>c_auth := True, c_auth_time := now\<rparr>);
               c3 = sync_camera_supported (c2\<lparr>c_password := []\<rparr>);
               c4 = set_rights rl (say (PlaySound Snd_Connected) (c3\<lparr>c_server_name := name\<rparr>));
               c5 = c4\<lparr>c_connected_id := c_server_id c4, c_show_login := False, c_login_error := []\<rparr>
           in if c_rejoin_pending c5
              then let ch = c_rejoin_channel c5; c6 = cancel_reconnect (c5\<lparr>c_rejoin_pending := False\<rparr>)
                   in if ch \<noteq> 0 then join_channel ch c6 else c6
              else cancel_reconnect c5)"

section \<open>The lobby's messages\<close>

text \<open>The loops stop at the first row that does not parse.\<close>

fun read_channel_rows :: "nat \<Rightarrow> reader \<Rightarrow> (u32 \<times> bytes \<times> u32 \<times> u32) list" where
  "read_channel_rows 0 r = []"
| "read_channel_rows (Suc n) r =
     (let (i, r1) = read_u32 r; (name, r2) = read_string r1; (mx, r3) = read_u32 r2; (ord, r4) = read_u32 r3;
          (cnt, r5) = read_u32 r4
      in if rerr r5 then [] else (i, name, mx, cnt) # read_channel_rows n r5)"

text \<open>The old members move to the first new row with their channel's id.\<close>

fun keep_users :: "u32 \<Rightarrow> (u32 \<times> bytes \<times> u32 \<times> u32) list \<Rightarrow> (u32 \<rightharpoonup> chan_user list) \<Rightarrow> chan_info list" where
  "keep_users current [] old = []"
| "keep_users current ((i, name, mx, cnt) # rows) old =
     (case old i of
        None \<Rightarrow> \<lparr>ci_id = i, ci_name = name, ci_count = sint cnt, ci_max = sint mx, ci_users = []\<rparr> # keep_users current rows old
      | Some us \<Rightarrow> \<lparr>ci_id = i, ci_name = name, ci_count = (if i = current then int (length us) else sint cnt), ci_max = sint mx,
                    ci_users = us\<rparr> # keep_users current rows (old(i \<mapsto> [])))"

definition on_channel_list :: "bytes \<Rightarrow> client \<Rightarrow> client" where
  "on_channel_list d c =
     (let (n, r) = read_u32 (new_reader d)
      in if rerr r then c
         else c\<lparr>c_channels := keep_users (c_channel c) (read_channel_rows (unat n) r)
                  (foldl (\<lambda>m ch. m(ci_id ch \<mapsto> ci_users ch)) Map.empty (c_channels c))\<rparr>)"

fun read_user_rows :: "nat \<Rightarrow> reader \<Rightarrow> (u32 \<times> bytes \<times> u8 \<times> u8 \<times> u8) list" where
  "read_user_rows 0 r = []"
| "read_user_rows (Suc n) r =
     (let (u, r1) = read_u32 r; (name, r2) = read_string r1; (rl, r3) = read_u8 r2; (m, r4) = read_u8 r3; (dd, r5) = read_u8 r4
      in if rerr r5 then [] else (u, name, rl, m, dd) # read_user_rows n r5)"

definition new_member :: "u32 \<Rightarrow> bytes \<Rightarrow> u8 \<Rightarrow> bool \<Rightarrow> bool \<Rightarrow> bool \<Rightarrow> chan_user" where
  "new_member u name rl m dd streaming = \<lparr>cu_name = name, cu_id = u, cu_role = rl, cu_muted = m, cu_deafened = dd,
     cu_speaking = False, cu_music = False, cu_streaming = streaming, cu_camera_on = False, cu_color = avatar_color name\<rparr>"

text \<open>Our own join is acknowledged: leave the old channel's streams, take our seat.\<close>

definition own_voice :: "client \<Rightarrow> chan_user \<Rightarrow> chan_user" where
  "own_voice c x = (if cu_id x \<noteq> c_user c then x else x\<lparr>cu_muted := c_muted c, cu_deafened := c_deafened c\<rparr>)"

definition switch_cleanup :: "bool \<Rightarrow> client \<Rightarrow> client" where
  "switch_cleanup sent c =
     clear_all_sharers ((stop_camera True sent (stop_shares c))\<lparr>c_sharing := False, c_audio_sharing := False\<rparr>)"

definition take_seat :: "u32 \<Rightarrow> client \<Rightarrow> client" where
  "take_seat ch c =
     (let c1 = (if c_channel c \<noteq> 0 \<and> c_channel c \<noteq> ch
                then c\<lparr>c_channels := on_channel (c_channel c) (drop_member (c_user c)) (c_channels c)\<rparr> else c);
          c2 = c1\<lparr>c_channel := ch, c_model_channel := ch\<rparr>;
          c3 = (case List.find (\<lambda>x. ci_id x = ch) (c_channels c2) of
                  None \<Rightarrow> c2
                | Some info \<Rightarrow>
                    let others = filter (\<lambda>u. u \<noteq> c_user c2) (map cu_id (ci_users info))
                    in fold (\<lambda>u. say (ApplyPrefs u)) others
                         (c2\<lparr>c_channel_name := ci_name info,
                             c_channels := on_channel ch (\<lambda>x. x\<lparr>ci_users := map (own_voice c2) (ci_users x)\<rparr>) (c_channels c2)\<rparr>));
          c4 = (if \<not> protocol_supports_join_voice_state (c_version c3) \<and> (c_muted c3 \<or> c_deafened c3)
                then send_voice_state c3 else c3)
      in say (PlaySound Snd_Join) (say AudioStart c4))"

definition on_channel_user_list :: "bool \<Rightarrow> bytes \<Rightarrow> client \<Rightarrow> client" where
  "on_channel_user_list sent d c =
     (let (ch, r1) = read_u32 (new_reader d); (n, r2) = read_u32 r1
      in if rerr r2 then c
         else
           let us = map (\<lambda>(u, name, rl, m, dd). new_member u name rl (m \<noteq> 0) (dd \<noteq> 0) (ch = c_channel c \<and> is_sharer u c))
                      (read_user_rows (unat n) r2);
               c1 = c\<lparr>c_channels := on_channel ch (\<lambda>x. x\<lparr>ci_users := us, ci_count := int (length us)\<rparr>) (c_channels c)\<rparr>
           in if c_awaiting_join c1 \<and> c_pending_channel c1 = ch
              then let c2 = c1\<lparr>c_awaiting_join := False\<rparr>;
                       c3 = (if c_channel c2 \<noteq> ch then switch_cleanup sent c2 else c2)
                   in take_seat ch c3
              else c1)"

definition opt_u8 :: "u8 \<Rightarrow> reader \<Rightarrow> u8 \<times> reader" where
  "opt_u8 dflt r = (if has_remaining 1 r then read_u8 r else (dflt, r))"

definition opt_u16 :: "u16 \<Rightarrow> reader \<Rightarrow> u16 \<times> reader" where
  "opt_u16 dflt r = (if has_remaining 2 r then read_u16 r else (dflt, r))"

definition admit_member :: "chan_user \<Rightarrow> chan_info \<Rightarrow> chan_info" where
  "admit_member x ch =
     (let us = filter (\<lambda>y. cu_id y \<noteq> cu_id x) (ci_users ch) @ [x] in ch\<lparr>ci_users := us, ci_count := int (length us)\<rparr>)"

definition on_user_joined :: "bytes \<Rightarrow> client \<Rightarrow> client" where
  "on_user_joined d c =
     (let (u, r1) = read_u32 (new_reader d); (name, r2) = read_string r1; (ch, r3) = read_u32 r2; (rl, r4) = opt_u8 3 r3;
          (m, r5) = opt_u8 0 r4; (dd, r6) = opt_u8 0 r5
      in if rerr r6 then c
         else
           let c1 = c\<lparr>c_channels := on_channel ch (admit_member (new_member u name rl (m \<noteq> 0) (dd \<noteq> 0) False)) (c_channels c)\<rparr>
           in if ch = c_channel c1 then say (ApplyPrefs u) (say (PlaySound Snd_UserJoined) c1) else c1)"

definition forget_stream :: "u32 \<Rightarrow> client \<Rightarrow> client" where
  "forget_stream s c = (let c1 = remove_channel_sharer s c in if is_watching s c1 then remove_watch s c1 else c1)"

definition on_user_left :: "bytes \<Rightarrow> client \<Rightarrow> client" where
  "on_user_left d c =
     (let (u, r1) = read_u32 (new_reader d); (ch, r2) = read_u32 r1
      in if rerr r2 then c
         else if u = c_user c \<and> ch = c_channel c \<and> c_channel c \<noteq> 0 then Client_leave_channel False False c
         else
           let c1 = (if ch = c_channel c
                     then rebuild_watched_model (forget_stream (video_stream_id u Camera) (forget_stream (video_stream_id u Screen) c))
                     else c);
               c2 = say (MixersRemove u) c1;
               c3 = c2\<lparr>c_channels := on_channel ch (drop_member u) (c_channels c2)\<rparr>
           in if ch = c_channel c3 then say (PlaySound Snd_UserLeft) c3 else c3)"

definition on_user_voice_state :: "bytes \<Rightarrow> client \<Rightarrow> client" where
  "on_user_voice_state d c =
     (let (u, r1) = read_u32 (new_reader d); (m, r2) = read_u8 r1; (dd, r3) = read_u8 r2
      in if rerr r3 then c
         else c\<lparr>c_channels := map_users (\<lambda>x. if cu_id x = u then x\<lparr>cu_muted := (m \<noteq> 0), cu_deafened := (dd \<noteq> 0)\<rparr> else x)
                  (c_channels c)\<rparr>)"

definition on_user_role_changed :: "bytes \<Rightarrow> client \<Rightarrow> client" where
  "on_user_role_changed d c =
     (let (u, r1) = read_u32 (new_reader d); (rl, r2) = read_u8 r1
      in if rerr r2 then c
         else
           let c1 = (if u = c_user c then set_rights rl (c\<lparr>c_role := rl\<rparr>) else c)
           in c1\<lparr>c_channels := map_users (\<lambda>x. if cu_id x = u then x\<lparr>cu_role := rl\<rparr> else x) (c_channels c1)\<rparr>)"

section \<open>The streams' messages\<close>

definition on_screen_share_started :: "int \<Rightarrow> bytes \<Rightarrow> client \<Rightarrow> client" where
  "on_screen_share_started now d c =
     (let (s, r1) = read_u32 (new_reader d)
      in if rerr r1 then c
         else
           let (cdc, r2) = opt_u8 0 r1; (w, r3) = opt_u16 0 r2; (h, r4) = opt_u16 0 r3; (replay, r5) = opt_u8 0 r4;
               (known, c1) = add_channel_sharer s c
           in if \<not> known then c1
              else
                let c2 = (if replay = 0 \<and> is_open s (c_rx c1) then open_video_rx now s c1 else c1);
                    own = (video_stream_owner s = c_user c2); cam = is_camera s;
                    c3 = (if \<not> own \<and> \<not> cam \<and> replay = 0 then say (PlaySound Snd_StreamStarted) c2 else c2)
                in if own \<and> cam \<and> c_cam_preview c3 \<and> c_cam_stops c3 = 0
                   then let c4 = add_watch now s (c3\<lparr>c_cam_preview := False\<rparr>)
                        in if pf_camera (c_pf c4) then say RequestCameraKeyframe c4 else c4
                   else rebuild_watched_model c3)"

definition on_screen_share_stopped :: "bytes \<Rightarrow> client \<Rightarrow> client" where
  "on_screen_share_stopped d c =
     (if length d < 4 then c
      else
        let s = of_le32 d; c1 = remove_channel_sharer s c;
            c2 = (if is_watching s c1 then remove_watch s c1 else rebuild_watched_model c1)
        in if s \<noteq> own_camera c2 then c2
           else if c_cam_stops c2 > 0 then c2\<lparr>c_cam_stops := c_cam_stops c2 - 1\<rparr>
           else if c_cam_on c2 \<and> \<not> c_cam_starting c2
           then let c3 = c2\<lparr>c_cam_preview := False, c_cam_on := False\<rparr>
                in if pf_camera (c_pf c3) then say StopCamera c3 else c3
           else c2)"

definition on_screen_share_denied :: "client \<Rightarrow> client" where
  "on_screen_share_denied c = say StopScreenShare (c\<lparr>c_sharing := False\<rparr>)"

definition on_screen_share_viewer :: "bytes \<Rightarrow> client \<Rightarrow> client" where
  "on_screen_share_viewer d c =
     (let (u, r1) = read_u32 (new_reader d); (w, r2) = read_u8 r1
      in if rerr r2 then c
         else if w \<noteq> 0 \<and> u \<noteq> c_user c then say (PlaySound Snd_ViewerJoined) c else c)"

definition on_admin_result :: "bytes \<Rightarrow> client \<Rightarrow> client" where
  "on_admin_result d c =
     (let (ok, r1) = read_u8 (new_reader d); (msg, r2) = read_string r1
      in if msg \<noteq> [] then c\<lparr>c_admin_message := msg\<rparr> else c)"

definition on_server_error :: "bytes \<Rightarrow> client \<Rightarrow> client" where
  "on_server_error d c =
     (let (code, r1) = read_u16 (new_reader d); (msg, r2) = read_string r1
      in if rerr r2 then c
         else
           let c1 = (if c_auth c \<and> (code = Kicked \<or> code = Replaced)
                     then say (PlaySound Snd_Disconnected) (c\<lparr>c_intentional := True\<rparr>) else c)
           in if c_show_login c1 \<or> \<not> c_auth c1 \<and> c_server_id c1 \<noteq> 0
              then c1\<lparr>c_show_login := True, c_login_error := msg\<rparr> else c1)"


section \<open>Connecting and losing the connection\<close>

text \<open>\<open>name\<close> and \<open>password\<close> are the login form's; \<open>state\<close> tells whether the transport is already connected or
  connecting, \<open>ok\<close> what \<open>connect\<close> returns.\<close>

datatype link_state = Link_Down | Link_Connecting | Link_Up

definition do_connect :: "bytes \<Rightarrow> bytes \<Rightarrow> link_state \<Rightarrow> bool \<Rightarrow> bytes \<Rightarrow> tofu \<Rightarrow> u64 \<Rightarrow> (bytes \<Rightarrow> bytes option) \<Rightarrow> client \<Rightarrow> client" where
  "do_connect name password state ok fp verdict now sign c =
     (if \<not> c_has_identity c then c\<lparr>c_login_error := str ''No identity '' @ [226, 128, 148] @ str '' generate seed phrase first''\<rparr>
      else
        let c1 = cancel_reconnect c; nm = trim_display_name name;
            c2 = c1\<lparr>c_username := (if nm = [] then c_global_name c1 else nm)\<rparr>
        in if c_username c2 = [] then c2\<lparr>c_login_error := str ''Choose a display name first''\<rparr>
           else
             let c3 = c2\<lparr>c_password := password, c_login_error := []\<rparr>
             in case state of
                  Link_Up \<Rightarrow> finish_connect fp verdict now sign c3
                | Link_Connecting \<Rightarrow> c3
                | Link_Down \<Rightarrow>
                    let c4 = say NetConnect c3
                    in if \<not> ok then c4\<lparr>c_login_error := str ''Failed to connect to server'', c_show_login := True\<rparr>
                       else c4\<lparr>c_awaiting_conn := True\<rparr>)"

definition drop_session :: "client \<Rightarrow> client" where
  "drop_session c0 =
     (let c = stop_camera False False c0;
          c1 = c\<lparr>c_auth := False, c_channel := 0, c_password := [], c_viewing := 0, c_awaiting_key := False,
                 c_screen_seq := 0, c_awaiting_conn := False, c_awaiting_join := False, c_pending_channel := 0,
                 c_voice_seq := 0, c_ping_pending := False, c_tofu_pending := False,
                 c_version := PROTOCOL_VERSION_ASSUMED_LEGACY, c_cam_stops := 0, c_camera_seq := 0\<rparr>;
          fresh = (\<lambda>x. clear_outstanding (sc_reset (sc_cfg x) x));
          c2 = c1\<lparr>c_screen_sender := fresh (c_screen_sender c1), c_camera_sender := fresh (c_camera_sender c1)\<rparr>;
          c3 = (rx_do R_Close_All c2)\<lparr>c_rx_sampled := 0, c_key_last := 0, c_cam_key_last := 0\<rparr>;
          c4 = clear_all_sharers (say MixersClear (say AudioStop c3));
          c5 = (say (PlaySound Snd_Disconnected) c4)\<lparr>c_ping_ms := 0, c_model_channel := 0, c_channel_name := [], c_channels := []\<rparr>;
          c6 = (stop_shares c5)\<lparr>c_sharing := False, c_audio_sharing := False\<rparr>;
          c7 = sync_camera_supported c6;
          c8 = c7\<lparr>c_router := dr_reset (c_router c7), c_my_role := 3, c_can_channels := False, c_can_kick := False,
                  c_can_roles := False, c_admin_message := []\<rparr>
      in c8\<lparr>c_connected_id := 0, c_show_login := False, c_login_error := []\<rparr>)"

text \<open>Whether to come back: never after an intentional end; after a session that had been signed in, at once and
  unless it keeps dropping within five seconds; after a failed attempt, with the backoff.\<close>

definition decide_reconnect :: "int \<Rightarrow> bool \<Rightarrow> u32 \<Rightarrow> client \<Rightarrow> client" where
  "decide_reconnect now was_auth prev_channel c =
     (if c_intentional c then (cancel_reconnect c)\<lparr>c_intentional := False\<rparr>
      else if was_auth \<and> c_server_id c \<noteq> 0 then
        let short = (now - c_auth_time c < 5000000);
            c1 = c\<lparr>c_flaps := (if short then c_flaps c + 1 else 0)\<rparr>
        in if short \<and> c_flaps c1 \<ge> 4
           then (cancel_reconnect c1)\<lparr>c_flaps := 0, c_login_error := str ''Disconnected (are you signed in elsewhere?)'',
                  c_intentional := False\<rparr>
           else c1\<lparr>c_reconnecting := True, c_attempts := 0, c_rejoin_channel := prev_channel, c_rejoin_pending := False,
                   c_next_attempt := now + 500000\<rparr>
      else if c_reconnecting c then schedule_attempt now c
      else c)"

definition on_disconnect_cleanup :: "int \<Rightarrow> client \<Rightarrow> client" where
  "on_disconnect_cleanup now c = decide_reconnect now (c_auth c) (c_channel c) (drop_session c)"

section \<open>Datagrams\<close>

text \<open>\<open>muted\<close> is the audio engine's flag.\<close>

definition on_encoded_frame :: "bool \<Rightarrow> bytes \<Rightarrow> client \<Rightarrow> client" where
  "on_encoded_frame muted d c =
     (if \<not> c_auth c \<or> c_channel c = 0 \<or> muted then c
      else say (SentData (VOICE_PACKET_TYPE # le16 (c_voice_seq c) @ d)) (c\<lparr>c_voice_seq := c_voice_seq c + 1\<rparr>))"

definition on_secondary_encoded_frame :: "bytes \<Rightarrow> client \<Rightarrow> client" where
  "on_secondary_encoded_frame d c =
     (if \<not> c_auth c \<or> c_channel c = 0 then c
      else say (SentData (VOICE2_PACKET_TYPE # le16 (c_voice2_seq c) @ d)) (c\<lparr>c_voice2_seq := c_voice2_seq c + 1\<rparr>))"

definition on_data_received :: "int \<Rightarrow> bytes \<Rightarrow> client \<Rightarrow> client" where
  "on_data_received now d c =
     (if length d < 1 then c
      else
        let type = d ! 0; sender = of_le32 (drop 1 d)
        in if type = VOICE_PACKET_TYPE \<or> type = VOICE2_PACKET_TYPE then
             (if length d < 8 \<or> sender = c_user c then c
              else say ((if type = VOICE_PACKET_TYPE then MixerPush else AuxPush) sender (of_le16 (drop 5 d)) (drop 7 d)) c)
           else if type = VIDEO_FRAME_PACKET_TYPE then
             (if length d < 19 \<or> video_stream_owner sender = c_user c then c else say (Decoded sender (drop 5 d)) c)
           else if type = STREAM_AUDIO_PACKET_TYPE then
             (if length d < 6 \<or> sender = c_user c then c
              else if sender = c_audio_sharer c then say (StreamAudioPush (drop 5 d)) c else c)
           else if type = VIDEO_CONTROL_TYPE then
             (if length d \<ge> 2 \<and> d ! 1 = VIDEO_CTL_PLI then
                let s = of_le32 (drop 6 d)
                in on_keyframe_request now (if length d \<ge> 10 \<and> video_stream_valid s then video_stream_source s else Screen) c
              else c)
           else c)"

section \<open>Dispatch and tick\<close>

record client_env =
  ce_now :: int
  ce_sent :: bool
  ce_awaiting :: "u32 \<Rightarrow> bool"

fun handle_server_message :: "client_env \<Rightarrow> ctype \<times> bytes \<Rightarrow> client \<Rightarrow> client" where
  "handle_server_message e (ty, d) c =
     (case ty of
        AUTH_RESPONSE \<Rightarrow> on_auth_response (ce_now e) d c
      | CHANNEL_LIST \<Rightarrow> on_channel_list d c
      | CHANNEL_USER_LIST \<Rightarrow> on_channel_user_list (ce_sent e) d c
      | USER_JOINED_CHANNEL \<Rightarrow> on_user_joined d c
      | USER_LEFT_CHANNEL \<Rightarrow> on_user_left d c
      | USER_VOICE_STATE \<Rightarrow> on_user_voice_state d c
      | USER_ROLE_CHANGED \<Rightarrow> on_user_role_changed d c
      | SCREEN_SHARE_STARTED \<Rightarrow> on_screen_share_started (ce_now e) d c
      | SCREEN_SHARE_STOPPED \<Rightarrow> on_screen_share_stopped d c
      | SCREEN_SHARE_DENIED \<Rightarrow> on_screen_share_denied c
      | SCREEN_SHARE_VIEWER \<Rightarrow> on_screen_share_viewer d c
      | ADMIN_RESULT \<Rightarrow> on_admin_result d c
      | SERVER_ERROR \<Rightarrow> on_server_error d c
      | KEEPALIVE_PONG \<Rightarrow>
          (if c_ping_pending c then c\<lparr>c_ping_pending := False, c_ping_ms := (ce_now e - c_ping_sent c) div 1000\<rparr> else c)
      | _ \<Rightarrow> c)"

definition process_server_messages :: "client_env \<Rightarrow> (ctype \<times> bytes) list \<Rightarrow> client \<Rightarrow> client" where
  "process_server_messages e ms c = fold (handle_server_message e) ms c"

text \<open>The keepalive of the tick, with the overlay closed.\<close>

definition tick_ping :: "int \<Rightarrow> client \<Rightarrow> client" where
  "tick_ping now c =
     (if \<not> c_auth c then c
      else if c_ping_pending c
      then let waiting = (now - c_ping_sent c) div 1000
           in if waiting \<ge> c_ping_ms c + 500 then c\<lparr>c_ping_ms := waiting\<rparr> else c
      else if (now - c_ping_last c) div 1000 \<ge> 2000
      then say (Sent KEEPALIVE_PING []) (c\<lparr>c_ping_sent := now, c_ping_pending := True, c_ping_last := now\<rparr>)
      else c)"

definition tick_video :: "client_env \<Rightarrow> conn_stats \<Rightarrow> client \<Rightarrow> client" where
  "tick_video e st c =
     (let now = ce_now e;
          c1 = tick_senders now (feed_video_sender_stats now st c);
          c2 = (if c_auth c1 \<and> now - c_rx_sampled c1 \<ge> 1000000
                then let c3 = c1\<lparr>c_rx_sampled := now\<rparr> in if cs_valid st then rx_do (R_Rtt (cs_rtt st)) c3 else c3
                else c1)
      in rx_do (R_Tick (if pf_multi (c_pf c2) then ce_awaiting e else (\<lambda>s. c_awaiting_key c2 \<and> c_viewing c2 = s)) now) c2)"

end
