(* ===== verification/Client_Actions.thy ===== *)
theory Client_Actions
  imports Client_Session
begin

text \<open>
  What the user does and what the main loop does: the callbacks \<open>setup_model_callbacks\<close> and
  \<open>setup_server_model_callbacks\<close> install, as far as they change the session (muting, administration, choosing a
  server, trusting its certificate, the identity), and \<open>AppCore::tick\<close>. Answers of the settings store and of
  the key derivation are arguments. Audio device and preference callbacks, and pop-ups without a
  state of their own, are left out.
\<close>

section \<open>Voice and administration\<close>

definition own_members :: "(chan_user \<Rightarrow> chan_user) \<Rightarrow> client \<Rightarrow> client" where
  "own_members f c = c\<lparr>c_channels := map_users (\<lambda>x. if cu_id x = c_user c then f x else x) (c_channels c)\<rparr>"

definition toggle_mute :: "client \<Rightarrow> client" where
  "toggle_mute c =
     (let muted = (\<not> c_muted c);
          c1 = say (AudioMuted (muted \<or> c_deafened c)) (c\<lparr>c_muted := muted\<rparr>);
          c2 = own_members (\<lambda>x. x\<lparr>cu_muted := muted\<rparr>) c1
      in send_voice_state (say (PlaySound (if muted then Snd_Mute else Snd_Unmute)) c2))"

definition toggle_deafen :: "client \<Rightarrow> client" where
  "toggle_deafen c =
     (let deafened = (\<not> c_deafened c);
          c1 = (say (AudioDeafened deafened) c)\<lparr>c_deafened := deafened\<rparr>;
          c2 = say (AudioMuted (if deafened then True else c_muted c1)) c1;
          c3 = own_members (\<lambda>x. x\<lparr>cu_deafened := deafened\<rparr>) c2
      in send_voice_state (say (PlaySound (if deafened then Snd_Deafen else Snd_Undeafen)) c3))"

definition toggle_camera :: "bytes list \<Rightarrow> bytes \<Rightarrow> bool \<Rightarrow> bool \<Rightarrow> client \<Rightarrow> client" where
  "toggle_camera names saved started sent c =
     (if c_cam_on c then stop_camera True sent c else start_camera names saved started c)"

definition ask_create_channel :: "bytes \<Rightarrow> client \<Rightarrow> client" where
  "ask_create_channel name c =
     (if \<not> c_auth c then c else if name = [] then c
      else say (Sent ADMIN_CREATE_CHANNEL (write_u32 0 (write_string name []))) c)"

definition Client_delete_channel :: "u32 \<Rightarrow> client \<Rightarrow> client" where
  "Client_delete_channel ch c = (if \<not> c_auth c then c else say (Sent ADMIN_DELETE_CHANNEL (write_u32 ch [])) c)"

definition Client_rename_channel :: "u32 \<Rightarrow> bytes \<Rightarrow> client \<Rightarrow> client" where
  "Client_rename_channel ch name c =
     (if \<not> c_auth c then c else if name = [] then c
      else say (Sent ADMIN_RENAME_CHANNEL (write_string name (write_u32 ch []))) c)"

definition ask_set_role :: "u32 \<Rightarrow> u8 \<Rightarrow> client \<Rightarrow> client" where
  "ask_set_role u r c = (if \<not> c_auth c then c else say (Sent ADMIN_SET_ROLE (write_u8 r (write_u32 u []))) c)"

definition ask_kick :: "u32 \<Rightarrow> client \<Rightarrow> client" where
  "ask_kick u c = (if \<not> c_auth c then c else say (Sent ADMIN_KICK_USER (write_u32 u [])) c)"

section \<open>Servers and identity\<close>

record saved_server =
  sv_id :: int
  sv_username :: bytes
  sv_password :: bytes

text \<open>\<open>rows\<close> are the entries of the server list: id, online, locked.\<close>

definition connect_server :: "int \<Rightarrow> (int \<times> bool \<times> bool) list \<Rightarrow> saved_server list \<Rightarrow> link_state \<Rightarrow> bool \<Rightarrow> bytes \<Rightarrow> tofu
    \<Rightarrow> u64 \<Rightarrow> (bytes \<Rightarrow> bytes option) \<Rightarrow> client \<Rightarrow> client" where
  "connect_server i rows saved state ok fp verdict now sign c =
     (if c_auth c \<and> i = c_connected_id c then c
      else if c_show_login c then c
      else if \<not> c_has_identity c then c
      else
        let passwordless = (case List.find (\<lambda>(j, _). j = i) rows of Some (_, online, locked) \<Rightarrow> online \<and> \<not> locked | None \<Rightarrow> False)
        in case List.find (\<lambda>s. sv_id s = i) saved of
             None \<Rightarrow> c
           | Some s \<Rightarrow>
               let c1 = c\<lparr>c_server_id := i, c_login_error := [], c_show_login := \<not> passwordless\<rparr>
               in if passwordless then do_connect (trim_display_name (sv_username s)) [] state ok fp verdict now sign c1 else c1)"

definition cancel_login :: "client \<Rightarrow> client" where
  "cancel_login c = (disconnect_intentionally (c\<lparr>c_show_login := False\<rparr>))\<lparr>c_awaiting_conn := False\<rparr>"

definition tofu_accept :: "u64 \<Rightarrow> (bytes \<Rightarrow> bytes option) \<Rightarrow> client \<Rightarrow> client" where
  "tofu_accept now sign c =
     (if \<not> c_tofu_pending c then c
      else send_auth_identity now sign
             ((say DropTicket (say (TrustFingerprint (c_tofu_fp c)) c))\<lparr>c_tofu_pending := False, c_show_login := True\<rparr>))"

definition tofu_reject :: "client \<Rightarrow> client" where
  "tofu_reject c = disconnect_intentionally (c\<lparr>c_tofu_pending := False, c_show_login := False\<rparr>)"

text \<open>\<open>derived\<close> is the public key derived from the phrase or the private key, \<open>stored\<close> whether it could be saved.\<close>

definition save_identity :: "bytes option \<Rightarrow> bool \<Rightarrow> client \<Rightarrow> client" where
  "save_identity derived stored c =
     (case derived of None \<Rightarrow> c
      | Some key \<Rightarrow> if \<not> stored then c else c\<lparr>c_public_key := key, c_has_identity := True\<rparr>)"

definition restore_identity :: "bool \<Rightarrow> bytes option \<Rightarrow> bool \<Rightarrow> client \<Rightarrow> client" where
  "restore_identity valid derived stored c =
     (if \<not> valid then c\<lparr>c_login_error := str ''Invalid seed phrase''\<rparr>
      else case derived of None \<Rightarrow> c\<lparr>c_login_error := str ''Failed to derive keypair''\<rparr>
      | Some key \<Rightarrow> if \<not> stored then c\<lparr>c_login_error := str ''Failed to save identity''\<rparr>
                   else c\<lparr>c_public_key := key, c_has_identity := True, c_login_error := []\<rparr>)"

definition import_key :: "bool \<Rightarrow> bytes option \<Rightarrow> bool \<Rightarrow> client \<Rightarrow> client" where
  "import_key valid derived stored c =
     (if \<not> valid then c\<lparr>c_login_error := str ''Invalid private key. Must be 64 hex characters.''\<rparr>
      else case derived of None \<Rightarrow> c\<lparr>c_login_error := str ''Failed to derive public key''\<rparr>
      | Some key \<Rightarrow> if \<not> stored then c\<lparr>c_login_error := str ''Failed to save identity''\<rparr>
                   else c\<lparr>c_public_key := key, c_has_identity := True, c_login_error := []\<rparr>)"

text \<open>The errors of this form are shown in the form only.\<close>

definition save_global_name :: "bytes \<Rightarrow> bool \<Rightarrow> client \<Rightarrow> client" where
  "save_global_name input stored c =
     (let name = trim_display_name input
      in if name = [] then c
         else if length name > 64 then c
         else let c1 = say (SaveName name) c in if \<not> stored then c1 else c1\<lparr>c_global_name := name\<rparr>)"

section \<open>The main loop\<close>

text \<open>What a tick meets: a dropped connection and the messages queued before it, what the transport says of an
  attempt, the certificate and its verdict, the stored credentials, and the messages queued now.\<close>

record tick_in =
  ti_dropped :: bool
  ti_before :: "(ctype \<times> bytes) list"
  ti_failed :: bool
  ti_up :: bool
  ti_fp :: bytes
  ti_verdict :: tofu
  ti_time :: u64
  ti_sign :: "bytes \<Rightarrow> bytes option"
  ti_saved :: "(bytes \<times> bytes) option"
  ti_ok :: bool
  ti_messages :: "(ctype \<times> bytes) list"
  ti_stats :: conn_stats

definition tick_drop :: "client_env \<Rightarrow> tick_in \<Rightarrow> client \<Rightarrow> client" where
  "tick_drop e ti c =
     (if ti_dropped ti then on_disconnect_cleanup (ce_now e) (process_server_messages e (ti_before ti) c) else c)"

definition tick_connect :: "client_env \<Rightarrow> tick_in \<Rightarrow> client \<Rightarrow> client" where
  "tick_connect e ti c =
     (let c1 = (if c_awaiting_conn c
                then poll_connecting (ce_now e) (ti_failed ti) (ti_up ti) (ti_fp ti) (ti_verdict ti) (ti_time ti) (ti_sign ti) c
                else c)
      in if c_reconnecting c1 \<and> \<not> c_awaiting_conn c1 \<and> \<not> c_auth c1 \<and> ce_now e \<ge> c_next_attempt c1
         then attempt_reconnect (ce_now e) (ti_saved ti) (ti_ok ti) c1 else c1)"

definition client_tick :: "client_env \<Rightarrow> tick_in \<Rightarrow> client \<Rightarrow> client" where
  "client_tick e ti c =
     tick_ping (ce_now e) (tick_video e (ti_stats ti)
       (process_server_messages e (ti_messages ti) (tick_connect e ti (tick_drop e ti c))))"

end
