(* ===== verification/Client_Invariant.thy ===== *)
theory Client_Invariant
  imports Client_Actions
begin

text \<open>
  The client's view of streams is consistent in every reachable state: what is watched, what the
  receive router has open, what the grid shows, which stream has focus and audio, and which page is
  shown agree. Each operation is shown to keep the invariant (collection \<open>watch_intros\<close>); operations that
  leave the watch state alone are handled by \<open>gaze\<close>, the part of the state the invariant reads.
\<close>

named_theorems watch_intros "operations that keep the watch state consistent"

section \<open>The router's open streams\<close>

abbreviation open_streams :: "Receive_Router.router \<Rightarrow> u32 list" where
  "open_streams r \<equiv> map fst (rr_streams r)"

lemma is_open_keys: "is_open s r \<longleftrightarrow> s \<in> set (open_streams r)"
  by (simp add: is_open_def map_of_eq_None_iff)

lemma on_buffer_keys: "router_ok r \<Longrightarrow> open_streams (on_buffer s now f r) = open_streams r"
proof (cases "buffer_of s r")
  case (Some b)
  assume ok: "router_ok r"
  obtain b' es where f: "f b = (b', es)" by fastforce
  show ?thesis by (rule on_buffer_view(4) [where f = f, OF ok Some f refl])
qed (simp add: on_buffer_closed)

lemma poll_keys: "router_ok r \<Longrightarrow> open_streams (fst (poll_streams now ss r)) = open_streams r"
proof (induction ss arbitrary: r)
  case (Cons s ss)
  have "router_ok (on_buffer s now (poll now) r)" using on_buffer_ok [OF Cons.prems] by (simp add: stays_ok_def)
  from Cons.IH [OF this] on_buffer_keys [OF Cons.prems] show ?case by (simp add: Let_def case_prod_unfold)
qed simp

lemma request_streams [simp]: "rr_streams (Receive_Router.request_keyframe s now r) = rr_streams r"
  by (simp add: Receive_Router.request_keyframe_def Let_def)

lemma ask_keys: "rr_streams (ask_candidates needs now cs r) = rr_streams r"
  by (induction needs now cs r rule: ask_candidates.induct) auto

definition opened :: "Receive_Router.router \<Rightarrow> u32 set" where
  "opened r = set (open_streams r)"

lemma router_opened [simp]:
  assumes "router_ok r"
  shows "opened (router_do (R_Open s now) r) = insert s (opened r)"
    "opened (router_do (R_Close s) r) = opened r - {s}"
    "opened (router_do R_Close_All r) = {}"
    "opened (router_do (R_Rtt rtt) r) = opened r"
    "opened (router_do (R_Started s hdr now) r) = opened r"
    "opened (router_do (R_Frame s frame now) r) = opened r"
    "opened (router_do (R_Aborted s q h now) r) = opened r"
    "opened (router_do (R_Request s now) r) = opened r"
    "opened (router_do (R_Tick needs now) r) = opened r"
    "opened (router_do (R_Collect now) r) = opened r"
    "opened (router_do (R_Flush now) r) = opened r"
proof -
  show "opened (router_do (R_Tick needs now) r) = opened r"
    using poll_keys [OF assms, of now "open_streams r"]
    by (simp add: opened_def router_tick_def case_prod_unfold Let_def ask_keys del: set_map)
  show "opened (router_do (R_Close s) r) = opened r - {s}"
    using AList.delete_keys [of s "rr_streams r"] by (auto simp: opened_def router_close_def simp flip: set_map)
  show "opened (router_do (R_Open s now) r) = insert s (opened r)"
    by (simp add: opened_def router_open_def Let_def dom_update)
qed (use assms in \<open>auto simp: opened_def close_all_def router_set_rtt_def map_fst_map
      router_on_frame_started_def router_on_frame_def router_on_frame_aborted_def on_buffer_keys playout_collect_def
      playout_flush_def simp del: set_map split: option.split\<close>)

declare router_do.simps [simp del]

lemma router_stays [simp]: "router_ok r \<Longrightarrow> router_ok (router_do op r)"
  using router_do_ok [of r op] by (simp add: stays_ok_def)

section \<open>What an operation changes\<close>

fun rx_sent :: "u32 \<Rightarrow> router_out \<Rightarrow> client_out list" where
  "rx_sent u (Handed s hdr frame) = [Decoded s frame]"
| "rx_sent u (Requested s) =
     (if s = 0 \<or> video_stream_owner s = u then [] else [SentVideo ([VIDEO_CONTROL_TYPE, VIDEO_CTL_PLI] @ le32 s)])"

lemma rx_out_eq: "rx_out x c = c\<lparr>c_out := c_out c @ rx_sent (c_user c) x\<rparr>"
  by (cases x) (simp_all add: say_def send_pli_packet_def)

lemma rx_outs_eq: "fold (\<lambda>(t, x). rx_out x) xs c = c\<lparr>c_out := c_out c @ concat (map (\<lambda>(t, x). rx_sent (c_user c) x) xs)\<rparr>"
  by (induction xs arbitrary: c) (auto simp: rx_out_eq)

text \<open>The router's calls back into the client only emit.\<close>

definition rx_emits :: "router_op \<Rightarrow> client \<Rightarrow> client_out list" where
  "rx_emits op c = concat (map (\<lambda>(t, x). rx_sent (c_user c) x)
     (drop (length (rr_out (c_rx c))) (rr_out (router_do op (c_rx c)))))"

lemma rx_do_eq: "rx_do op c = c\<lparr>c_rx := router_do op (c_rx c), c_out := c_out c @ rx_emits op c\<rparr>"
  by (simp add: rx_do_def Let_def rx_outs_eq rx_emits_def)

lemma says_eq: "fold (\<lambda>s. say (f s)) ss c = c\<lparr>c_out := c_out c @ map f ss\<rparr>"
  by (induction ss arbitrary: c) (auto simp: say_def)

lemma stop_streams_eq:
  "stop_streams ss c = c\<lparr>c_out := c_out c @ (if pf_multi (c_pf c) then map StopVideoStream ss else [])\<rparr>"
  by (simp add: stop_streams_def says_eq)

text \<open>The part of the state the invariant reads.\<close>

definition gaze :: "client \<Rightarrow> _" where
  "gaze c = ((c_pf c, c_rx c, c_watched c, c_viewing c, c_viewing_id c, c_audio_sharer c),
             (c_sharers c, c_someone c), (c_watched_model c, c_watching_count c, c_router c))"

section \<open>The invariant\<close>

abbreviation sharer_ids :: "client \<Rightarrow> u32 list" where
  "sharer_ids c \<equiv> map sh_id (c_sharers c)"

text \<open>What is watched, received, focused and heard agree.\<close>

definition watch_ok :: "client \<Rightarrow> bool" where
  "watch_ok c \<longleftrightarrow>
     router_ok (c_rx c) \<and> distinct (c_watched c) \<and> 0 \<notin> set (c_watched c) \<and>
     opened (c_rx c) = set (c_watched c) \<and>
     (if c_watched c = [] then c_viewing c = 0 else c_viewing c \<in> set (c_watched c)) \<and>
     c_viewing_id c = c_viewing c \<and>
     (c_audio_sharer c = 0 \<or> c_audio_sharer c \<in> set (c_watched c) \<and> video_stream_source (c_audio_sharer c) = Screen) \<and>
     (pf_multi (c_pf c) \<or> length (c_watched c) \<le> 1)"

text \<open>The channel's list of streams.\<close>

definition list_ok :: "client \<Rightarrow> bool" where
  "list_ok c \<longleftrightarrow> distinct (sharer_ids c) \<and> (c_someone c \<longleftrightarrow> c_sharers c \<noteq> [])"

text \<open>What the user interface shows.\<close>

definition shown_ok :: "client \<Rightarrow> bool" where
  "shown_ok c \<longleftrightarrow>
     set (c_watched c) \<subseteq> set (sharer_ids c) \<and>
     map ws_id (c_watched_model c) = filter (\<lambda>s. s \<in> set (c_watched c)) (sharer_ids c) \<and>
     c_watching_count c = int (length (c_watched_model c)) \<and>
     (c_watched c = [] \<longrightarrow> dr_current (c_router c) \<noteq> Streams \<and> Streams \<notin> set (dr_history (c_router c)))"

definition client_ok :: "client \<Rightarrow> bool" where
  "client_ok c \<longleftrightarrow> watch_ok c \<and> list_ok c \<and> shown_ok c"

lemmas client_ok_defs = client_ok_def watch_ok_def list_ok_def shown_ok_def

text \<open>Operations that leave that part alone keep the invariant.\<close>

lemma gaze_ok: "gaze c' = gaze c \<Longrightarrow> client_ok c' \<longleftrightarrow> client_ok c"
  by (simp add: gaze_def client_ok_defs)

section \<open>Pages\<close>

lemma leave_streams_gone [simp]:
  "dr_current (leave_streams d) \<noteq> Streams" "Streams \<notin> set (dr_history (leave_streams d))"
  by (auto simp: leave_streams_def dr_go_def Let_def)

lemma dr_go_simps [simp]: "dr_current (dr_go p d) = p" "dr_history (dr_go p d) = []"
  by (simp_all add: dr_go_def)

definition no_streams :: "doc_router \<Rightarrow> bool" where
  "no_streams d \<longleftrightarrow> dr_current d \<noteq> Streams \<and> Streams \<notin> set (dr_history d)"

lemma no_streams_ops [simp]:
  "no_streams (dr_go p d) \<longleftrightarrow> p \<noteq> Streams" "no_streams (leave_streams d)" "no_streams (dr_reset d)"
  "no_streams d \<Longrightarrow> p \<noteq> Streams \<Longrightarrow> no_streams (dr_push p d)" "no_streams d \<Longrightarrow> no_streams (dr_back Room d)"
  "no_streams d \<Longrightarrow> no_streams (open_settings x d)" "no_streams d \<Longrightarrow> no_streams (select_settings x d)"
  "no_streams d \<Longrightarrow> no_streams (open_share_picker d)"
  by (auto simp: no_streams_def dr_reset_def dr_push_def dr_back_def open_settings_def select_settings_def
      open_share_picker_def Let_def split: list.split)

lemma shown_ok_alt:
  "shown_ok c \<longleftrightarrow> set (c_watched c) \<subseteq> set (sharer_ids c) \<and>
     map ws_id (c_watched_model c) = filter (\<lambda>s. s \<in> set (c_watched c)) (sharer_ids c) \<and>
     c_watching_count c = int (length (c_watched_model c)) \<and> (c_watched c = [] \<longrightarrow> no_streams (c_router c))"
  by (simp add: shown_ok_def no_streams_def)

section \<open>Watching\<close>

lemma rebuilt_ids: "map ws_id (map (watched_cell c) (filter sh_watching (map (\<lambda>y. y\<lparr>sh_watching := P (sh_id y)\<rparr>) ys)))
    = filter P (map sh_id ys)"
  by (induction ys) (auto simp: watched_cell_def)

lemma rebuild_fields [simp]:
  "c_rx (rebuild_watched_model c) = c_rx c" "c_watched (rebuild_watched_model c) = c_watched c"
  "c_viewing (rebuild_watched_model c) = c_viewing c" "c_viewing_id (rebuild_watched_model c) = c_viewing_id c"
  "c_audio_sharer (rebuild_watched_model c) = c_audio_sharer c" "c_pf (rebuild_watched_model c) = c_pf c"
  "c_someone (rebuild_watched_model c) = c_someone c" "c_sharers (rebuild_watched_model c) = [] \<longleftrightarrow> c_sharers c = []"
  "sharer_ids (rebuild_watched_model c) = sharer_ids c" "c_user (rebuild_watched_model c) = c_user c"
  "c_channel (rebuild_watched_model c) = c_channel c" "c_auth (rebuild_watched_model c) = c_auth c"
  by (simp_all add: rebuild_watched_model_def Let_def comp_def)

lemma rebuild_watch: "watch_ok (rebuild_watched_model c) \<longleftrightarrow> watch_ok c"
  by (simp add: watch_ok_def)

lemma rebuild_list: "list_ok (rebuild_watched_model c) \<longleftrightarrow> list_ok c"
  by (simp add: list_ok_def)

text \<open>The grid is right after it was rebuilt, whatever it was before.\<close>

lemma rebuild_shown:
  assumes "set (c_watched c) \<subseteq> set (sharer_ids c)"
  shows "shown_ok (rebuild_watched_model c)"
proof -
  let ?c = "rebuild_watched_model c"
  have ids: "map ws_id (c_watched_model ?c) = filter (\<lambda>s. s \<in> set (c_watched c)) (sharer_ids c)"
    using rebuilt_ids [of c "\<lambda>s. s \<in> set (c_watched c)" "c_sharers c"]
    by (simp add: rebuild_watched_model_def Let_def is_watching_def del: map_map)
  have "c_watched c = [] \<Longrightarrow> c_watched_model ?c = []" using ids by (cases "c_watched_model ?c") auto
  then have "c_watched c = [] \<Longrightarrow> no_streams (c_router ?c)"
    by (simp add: rebuild_watched_model_def Let_def)
  then show ?thesis using ids assms
    by (simp add: shown_ok_alt) (simp add: rebuild_watched_model_def Let_def)
qed

lemma rebuild_ok: "watch_ok c \<Longrightarrow> list_ok c \<Longrightarrow> set (c_watched c) \<subseteq> set (sharer_ids c) \<Longrightarrow> client_ok (rebuild_watched_model c)"
  by (simp add: client_ok_def rebuild_watch rebuild_list rebuild_shown)


lemma is_sharer_iff: "is_sharer s c \<longleftrightarrow> s \<in> sh_id ` set (c_sharers c)"
  by (auto simp: is_sharer_def)

lemmas watching_defs = rx_do_eq open_video_rx_def stop_streams_eq say_def show_voice_channel_def is_watching_def

lemma show_voice_ok [watch_intros]: "client_ok c \<Longrightarrow> client_ok (show_voice_channel ch c)"
  by (auto simp: client_ok_def watch_ok_def list_ok_def shown_ok_alt show_voice_channel_def Let_def)

lemma rx_do_ok [watch_intros]:
  "client_ok c \<Longrightarrow> opened (router_do op (c_rx c)) = opened (c_rx c) \<Longrightarrow> client_ok (rx_do op c)"
  by (simp add: rx_do_eq client_ok_def watch_ok_def list_ok_def shown_ok_alt)

lemma reopen_ok: "client_ok c \<Longrightarrow> is_open s (c_rx c) \<Longrightarrow> client_ok (open_video_rx now s c)"
  unfolding open_video_rx_def is_open_keys opened_def [symmetric]
  by (rule rx_do_ok) (auto simp: client_ok_def watch_ok_def)

lemma stop_watching_ok [watch_intros]: "client_ok c \<Longrightarrow> client_ok (stop_watching c)"
  unfolding stop_watching_def Let_def
  by (rule rebuild_ok) (simp_all add: watching_defs client_ok_def watch_ok_def list_ok_def)

lemma watch_single_ok [watch_intros]:
  assumes "client_ok c" "s \<noteq> 0" "is_sharer s c"
  shows "client_ok (watch_single now s c)"
proof (cases "is_watching s c")
  case False
  show ?thesis unfolding watch_single_def if_not_P [OF False] Let_def
    by (rule rebuild_ok) (use assms False in \<open>simp_all add: watching_defs client_ok_def watch_ok_def list_ok_def
      is_sharer_iff screen_focus_def\<close>)
qed (use assms in \<open>simp add: watch_single_def show_voice_ok\<close>)

lemma watch_more_ok [watch_intros]:
  assumes "client_ok c" "s \<noteq> 0" "is_sharer s c" "pf_multi (c_pf c)"
  shows "client_ok (watch_more now s c)"
proof (cases "is_watching s c")
  case False
  show ?thesis unfolding watch_more_def if_not_P [OF False] Let_def
    by (rule rebuild_ok) (use assms False in \<open>auto simp: watching_defs client_ok_def watch_ok_def list_ok_def
      is_sharer_iff shown_ok_alt\<close>)
qed (use assms in \<open>simp add: watch_more_def show_voice_ok\<close>)

lemma find_Some: "List.find P xs = Some x \<Longrightarrow> x \<in> set xs \<and> P x"
  by (auto simp: find_Some_iff)

lemma refocus_watched:
  "case List.find (\<lambda>s. video_stream_source s = Screen) ws of None \<Rightarrow> True
   | Some s \<Rightarrow> s \<in> set ws \<and> video_stream_source s = Screen"
  by (auto dest!: find_Some split: option.split)

lemma remove_watch_ok:
  assumes ok: "watch_ok c" "list_ok c" and sub: "set (c_watched c) - {s} \<subseteq> set (sharer_ids c)" and w: "is_watching s c"
  shows "client_ok (remove_watch s c)"
proof -
  let ?ws = "filter (\<lambda>x. x \<noteq> s) (c_watched c)"
  define c3 where "c3 = rx_do (R_Close s) ((\<lambda>c2. if pf_multi (c_pf c) then say (StopVideoStream s) c2 else c2)
     (say (Sent SCREEN_SHARE_VIEW (write_u8 0 (write_u32 s []))) (c\<lparr>c_watched := ?ws\<rparr>)))"
  define c4 where "c4 = (case c_watched c3 of
                    [] \<Rightarrow> say ClearVideoElement (c3\<lparr>c_viewing := 0, c_viewing_id := 0, c_fullscreen := False\<rparr>)
                  | p # _ \<Rightarrow> c3\<lparr>c_viewing := p, c_viewing_id := p\<rparr>)"
  define c5 where "c5 = (if c_audio_sharer c4 = s then refocus_stream_audio c4 else c4)"
  have f3: "c_watched c3 = ?ws" "c_rx c3 = router_do (R_Close s) (c_rx c)" "c_pf c3 = c_pf c" "c_sharers c3 = c_sharers c"
    "c_someone c3 = c_someone c" "c_audio_sharer c3 = c_audio_sharer c"
    by (simp_all add: c3_def watching_defs)
  have f4: "c_watched c4 = ?ws" "c_rx c4 = c_rx c3" "c_pf c4 = c_pf c" "c_sharers c4 = c_sharers c"
    "c_someone c4 = c_someone c" "c_audio_sharer c4 = c_audio_sharer c" "c_viewing_id c4 = c_viewing c4"
    "if ?ws = [] then c_viewing c4 = 0 else c_viewing c4 \<in> set ?ws"
    by (auto simp: c4_def f3 say_def filter_eq_Cons_iff split: list.split)
  have f5: "c_watched c5 = ?ws" "c_rx c5 = c_rx c3" "c_pf c5 = c_pf c" "c_sharers c5 = c_sharers c"
    "c_someone c5 = c_someone c" "c_viewing_id c5 = c_viewing c5"
    "if ?ws = [] then c_viewing c5 = 0 else c_viewing c5 \<in> set ?ws"
    using f4 by (auto simp: c5_def refocus_stream_audio_def)
  have audio: "c_audio_sharer c5 = 0 \<or> c_audio_sharer c5 \<in> set ?ws \<and> video_stream_source (c_audio_sharer c5) = Screen"
    using ok(1) f4 refocus_watched [of ?ws]
    by (auto simp: c5_def refocus_stream_audio_def watch_ok_def split: option.splits)
  have "length ?ws \<le> 1" if "\<not> pf_multi (c_pf c)"
    using that ok(1) le_trans [OF length_filter_le [of "\<lambda>x. x \<noteq> s" "c_watched c"]] by (auto simp: watch_ok_def)
  moreover have "router_ok (c_rx c)" "distinct (c_watched c)" "0 \<notin> set (c_watched c)" "opened (c_rx c) = set (c_watched c)"
    using ok(1) by (simp_all add: watch_ok_def)
  moreover from this have "opened (c_rx c5) = set ?ws" by (auto simp: f5 f3)
  ultimately have "watch_ok c5" using audio f5(7) unfolding watch_ok_def f5(1,3,6)
    by (intro conjI) (simp_all add: f5(2) f3(2), blast)
  moreover have "list_ok c5" using ok(2) by (simp add: list_ok_def f5)
  ultimately have "client_ok (rebuild_watched_model c5)" by (rule rebuild_ok) (use sub in \<open>auto simp: f5\<close>)
  also have "rebuild_watched_model c5 = remove_watch s c"
    unfolding c5_def c4_def c3_def remove_watch_def Let_def using w by (simp only: not_True_eq_False if_False)
  finally show ?thesis .
qed


lemma remove_watched_ok [watch_intros]: "client_ok c \<Longrightarrow> client_ok (remove_watch s c)"
proof (cases "is_watching s c")
  case True
  then show "client_ok c \<Longrightarrow> ?thesis" by (intro remove_watch_ok) (auto simp: client_ok_def shown_ok_def)
qed (simp add: remove_watch_def)

lemma add_watch_ok [watch_intros]: "client_ok c \<Longrightarrow> client_ok (add_watch now s c)"
  by (simp add: add_watch_def watch_single_ok watch_more_ok)

lemma watch_sharer_ok [watch_intros]: "client_ok c \<Longrightarrow> client_ok (watch_sharer now s c)"
  by (simp add: watch_sharer_def watch_single_ok watch_more_ok stop_watching_ok)

lemma toggle_watch_ok [watch_intros]: "client_ok c \<Longrightarrow> client_ok (toggle_watch now s c)"
  by (simp add: toggle_watch_def add_watch_ok remove_watched_ok)

lemma watch_user_ok [watch_intros]: "client_ok c \<Longrightarrow> client_ok (watch_user now u c)"
  by (simp add: watch_user_def Let_def add_watch_ok watch_sharer_ok)

lemma set_single_watched_ok [watch_intros]:
  assumes "client_ok c" "s = 0 \<or> is_sharer s c"
  shows "client_ok (set_single_watched now s c)"
  unfolding set_single_watched_def Let_def
  by (rule rebuild_ok) (use assms in \<open>auto simp: watching_defs client_ok_def watch_ok_def list_ok_def is_sharer_iff screen_focus_def\<close>)

lemma clear_all_sharers_ok: "router_ok (c_rx c) \<Longrightarrow> client_ok (clear_all_sharers c)"
  by (simp add: clear_all_sharers_def Let_def watching_defs clear_channel_sharers_def client_ok_def watch_ok_def list_ok_def
      shown_ok_alt)

lemma client_ok_router: "client_ok c \<Longrightarrow> router_ok (c_rx c)"
  by (simp add: client_ok_def watch_ok_def)

section \<open>Streams that come and go\<close>

lemma update_first_Nil [simp]: "update_first P f ys = [] \<longleftrightarrow> ys = []"
  by (cases ys) auto

lemma rename_ids [simp]: "map sh_id (update_first P (sh_name_update f) ys) = map sh_id ys"
  by (induction ys) auto

lemma rename_id_set [simp]: "sh_id ` set (update_first P (sh_name_update f) ys) = sh_id ` set ys"
  by (induction ys) auto

lemma remove_sharer_list: "list_ok c \<Longrightarrow> list_ok (remove_channel_sharer s c)"
  by (auto simp: list_ok_def remove_channel_sharer_def Let_def intro: distinct_map_filter)

lemma remove_sharer_watch: "watch_ok (remove_channel_sharer s c) \<longleftrightarrow> watch_ok c"
  by (simp add: watch_ok_def remove_channel_sharer_def Let_def)

lemma remove_sharer_ids: "sharer_ids (remove_channel_sharer s c) = filter (\<lambda>x. x \<noteq> s) (sharer_ids c)"
  by (simp add: remove_channel_sharer_def Let_def filter_map comp_def)

lemma remove_sharer_fields [simp]:
  "c_watched (remove_channel_sharer s c) = c_watched c" "is_watching t (remove_channel_sharer s c) \<longleftrightarrow> is_watching t c"
  "c_watched_model (remove_channel_sharer s c) = c_watched_model c" "c_user (remove_channel_sharer s c) = c_user c"
  "c_watching_count (remove_channel_sharer s c) = c_watching_count c" "c_router (remove_channel_sharer s c) = c_router c"
  by (simp_all add: remove_channel_sharer_def Let_def is_watching_def)

lemma remove_unwatched_ok: "client_ok c \<Longrightarrow> \<not> is_watching s c \<Longrightarrow> client_ok (remove_channel_sharer s c)"
  by (auto simp: client_ok_def remove_sharer_list remove_sharer_watch shown_ok_alt remove_sharer_ids is_watching_def
      intro: filter_cong)

lemma forget_stream_ok [watch_intros]: "client_ok c \<Longrightarrow> client_ok (forget_stream s c)"
proof (cases "is_watching s c")
  case True
  assume "client_ok c"
  then have "client_ok (remove_watch s (remove_channel_sharer s c))"
    by (intro remove_watch_ok) (use True in \<open>auto simp: remove_sharer_list remove_sharer_watch remove_sharer_ids client_ok_def
      shown_ok_def simp del: set_map\<close>)
  then show ?thesis using True by (simp add: forget_stream_def Let_def)
qed (simp add: forget_stream_def Let_def remove_unwatched_ok)

definition named_sharers :: "u32 \<Rightarrow> bytes \<Rightarrow> client \<Rightarrow> active_sharer list" where
  "named_sharers s nm c =
     (if is_sharer s c then update_first (\<lambda>y. sh_id y = s) (\<lambda>y. y\<lparr>sh_name := nm\<rparr>) (c_sharers c)
      else c_sharers c @ [\<lparr>sh_id = s, sh_user = video_stream_owner s, sh_name = nm, sh_watching = False, sh_camera = is_camera s\<rparr>])"

lemma named_sharer_ids: "map sh_id (named_sharers s nm c) = sharer_ids c @ (if is_sharer s c then [] else [s])"
  by (simp add: named_sharers_def)

lemma add_sharer_eq:
  "add_channel_sharer s c =
     (case find_member (c_model_channel c) (video_stream_owner s) (c_channels c) of
        Some x \<Rightarrow> if c_model_channel c = 0 \<or> \<not> video_stream_valid s then (False, c)
          else (True, c\<lparr>c_sharers := named_sharers s (cu_name x) c,
             c_channels := mark_first (c_model_channel c) (video_stream_owner s) (mark_stream (is_camera s) True) (c_channels c),
             c_someone := True\<rparr>)
      | None \<Rightarrow> (False, c))"
  by (simp add: add_channel_sharer_def Let_def named_sharers_def is_sharer_def split: option.split)

lemma add_sharer_ok [watch_intros]:
  assumes "client_ok c"
  shows "client_ok (snd (add_channel_sharer s c))"
proof (cases "fst (add_channel_sharer s c)")
  case True
  then obtain nm chs where c': "snd (add_channel_sharer s c) =
      c\<lparr>c_sharers := named_sharers s nm c, c_channels := chs, c_someone := True\<rparr>"
    by (auto simp: add_sharer_eq split: option.splits if_splits)
  note ids = named_sharer_ids [of s nm c]
  have new: "\<not> is_sharer s c \<Longrightarrow> s \<notin> set (c_watched c)"
    using assms by (auto simp: client_ok_def shown_ok_def is_sharer_iff)
  have "distinct (map sh_id (named_sharers s nm c))" "named_sharers s nm c \<noteq> []"
    using assms ids by (auto simp: client_ok_def list_ok_def is_sharer_def)
  moreover have "filter (\<lambda>s. s \<in> set (c_watched c)) (map sh_id (named_sharers s nm c)) = filter (\<lambda>s. s \<in> set (c_watched c)) (sharer_ids c)"
    using new by (simp add: ids)
  moreover have "set (c_watched c) \<subseteq> set (map sh_id (named_sharers s nm c))"
    using assms unfolding ids by (auto simp: client_ok_def shown_ok_def)
  ultimately show ?thesis using assms by (simp add: c' client_ok_def watch_ok_def list_ok_def shown_ok_alt)
qed (use assms in \<open>auto simp: add_sharer_eq split: option.splits if_splits\<close>)

section \<open>Operations outside the watch state\<close>

text \<open>The other fields do not matter.\<close>

lemma client_ok_other [simp]:
  "client_ok (c_auth_update f1 c) \<longleftrightarrow> client_ok c"
  "client_ok (c_user_update f2 c) \<longleftrightarrow> client_ok c"
  "client_ok (c_role_update f3 c) \<longleftrightarrow> client_ok c"
  "client_ok (c_version_update f4 c) \<longleftrightarrow> client_ok c"
  "client_ok (c_channel_update f5 c) \<longleftrightarrow> client_ok c"
  "client_ok (c_awaiting_join_update f6 c) \<longleftrightarrow> client_ok c"
  "client_ok (c_pending_channel_update f7 c) \<longleftrightarrow> client_ok c"
  "client_ok (c_channels_update f8 c) \<longleftrightarrow> client_ok c"
  "client_ok (c_model_channel_update f9 c) \<longleftrightarrow> client_ok c"
  "client_ok (c_channel_name_update f10 c) \<longleftrightarrow> client_ok c"
  "client_ok (c_muted_update f11 c) \<longleftrightarrow> client_ok c"
  "client_ok (c_deafened_update f12 c) \<longleftrightarrow> client_ok c"
  "client_ok (c_sharing_update f13 c) \<longleftrightarrow> client_ok c"
  "client_ok (c_audio_sharing_update f14 c) \<longleftrightarrow> client_ok c"
  "client_ok (c_fullscreen_update f15 c) \<longleftrightarrow> client_ok c"
  "client_ok (c_my_role_update f16 c) \<longleftrightarrow> client_ok c"
  "client_ok (c_can_channels_update f17 c) \<longleftrightarrow> client_ok c"
  "client_ok (c_can_kick_update f18 c) \<longleftrightarrow> client_ok c"
  "client_ok (c_can_roles_update f19 c) \<longleftrightarrow> client_ok c"
  "client_ok (c_awaiting_key_update f20 c) \<longleftrightarrow> client_ok c"
  "client_ok (c_rx_sampled_update f21 c) \<longleftrightarrow> client_ok c"
  "client_ok (c_cam_supported_update f22 c) \<longleftrightarrow> client_ok c"
  "client_ok (c_cam_on_update f23 c) \<longleftrightarrow> client_ok c"
  "client_ok (c_cam_starting_update f24 c) \<longleftrightarrow> client_ok c"
  "client_ok (c_cam_preview_update f25 c) \<longleftrightarrow> client_ok c"
  "client_ok (c_cam_restart_update f26 c) \<longleftrightarrow> client_ok c"
  "client_ok (c_cam_stops_update f27 c) \<longleftrightarrow> client_ok c"
  "client_ok (c_cam_quality_update f28 c) \<longleftrightarrow> client_ok c"
  "client_ok (c_cam_devices_update f29 c) \<longleftrightarrow> client_ok c"
  "client_ok (c_cam_selected_update f30 c) \<longleftrightarrow> client_ok c"
  "client_ok (c_cam_error_update f31 c) \<longleftrightarrow> client_ok c"
  "client_ok (c_screen_sender_update f32 c) \<longleftrightarrow> client_ok c"
  "client_ok (c_camera_sender_update f33 c) \<longleftrightarrow> client_ok c"
  "client_ok (c_screen_seq_update f34 c) \<longleftrightarrow> client_ok c"
  "client_ok (c_camera_seq_update f35 c) \<longleftrightarrow> client_ok c"
  "client_ok (c_key_last_update f36 c) \<longleftrightarrow> client_ok c"
  "client_ok (c_cam_key_last_update f37 c) \<longleftrightarrow> client_ok c"
  "client_ok (c_has_identity_update f38 c) \<longleftrightarrow> client_ok c"
  "client_ok (c_public_key_update f39 c) \<longleftrightarrow> client_ok c"
  "client_ok (c_global_name_update f40 c) \<longleftrightarrow> client_ok c"
  "client_ok (c_username_update f41 c) \<longleftrightarrow> client_ok c"
  "client_ok (c_password_update f42 c) \<longleftrightarrow> client_ok c"
  "client_ok (c_server_id_update f43 c) \<longleftrightarrow> client_ok c"
  "client_ok (c_connected_id_update f44 c) \<longleftrightarrow> client_ok c"
  "client_ok (c_awaiting_conn_update f45 c) \<longleftrightarrow> client_ok c"
  "client_ok (c_tofu_fp_update f99 c) \<longleftrightarrow> client_ok c" "client_ok (c_tofu_pending_update f46 c) \<longleftrightarrow> client_ok c"
  "client_ok (c_show_login_update f47 c) \<longleftrightarrow> client_ok c"
  "client_ok (c_login_error_update f48 c) \<longleftrightarrow> client_ok c"
  "client_ok (c_server_name_update f49 c) \<longleftrightarrow> client_ok c"
  "client_ok (c_admin_message_update f50 c) \<longleftrightarrow> client_ok c"
  "client_ok (c_intentional_update f51 c) \<longleftrightarrow> client_ok c"
  "client_ok (c_reconnecting_update f52 c) \<longleftrightarrow> client_ok c"
  "client_ok (c_attempts_update f53 c) \<longleftrightarrow> client_ok c"
  "client_ok (c_flaps_update f54 c) \<longleftrightarrow> client_ok c"
  "client_ok (c_rejoin_channel_update f55 c) \<longleftrightarrow> client_ok c"
  "client_ok (c_rejoin_pending_update f56 c) \<longleftrightarrow> client_ok c"
  "client_ok (c_next_attempt_update f57 c) \<longleftrightarrow> client_ok c"
  "client_ok (c_auth_time_update f58 c) \<longleftrightarrow> client_ok c"
  "client_ok (c_ping_pending_update f59 c) \<longleftrightarrow> client_ok c"
  "client_ok (c_ping_sent_update f60 c) \<longleftrightarrow> client_ok c"
  "client_ok (c_ping_last_update f61 c) \<longleftrightarrow> client_ok c"
  "client_ok (c_ping_ms_update f62 c) \<longleftrightarrow> client_ok c"
  "client_ok (c_voice_seq_update f63 c) \<longleftrightarrow> client_ok c"
  "client_ok (c_voice2_seq_update f64 c) \<longleftrightarrow> client_ok c"
  "client_ok (c_out_update f65 c) \<longleftrightarrow> client_ok c"
  by (rule gaze_ok, simp add: gaze_def)+

lemma say_ok [simp]: "client_ok (say x c) \<longleftrightarrow> client_ok c"
  by (simp add: say_def)

lemma says_ok [simp]: "client_ok (fold (\<lambda>s. say (f s)) ss c) \<longleftrightarrow> client_ok c"
  by (simp add: says_eq)

lemma router_page_ok:
  "client_ok c \<Longrightarrow> no_streams d \<or> c_watched c \<noteq> [] \<Longrightarrow> client_ok (c\<lparr>c_router := d\<rparr>)"
  by (auto simp: client_ok_def watch_ok_def list_ok_def shown_ok_alt)

lemma nav_ok [watch_intros]:
  assumes "client_ok c" "\<And>d. no_streams d \<Longrightarrow> no_streams (f d)"
  shows "client_ok (c\<lparr>c_router := f (c_router c)\<rparr>)"
  using assms by (intro router_page_ok) (auto simp: client_ok_def shown_ok_alt)

lemma set_sender_ok [simp]: "client_ok (set_sender source x c) \<longleftrightarrow> client_ok c"
  by (simp add: set_sender_def)

lemma reset_video_sender_ok [simp]: "client_ok (reset_video_sender source bps c) \<longleftrightarrow> client_ok c"
  by (simp add: reset_video_sender_def Let_def)

lemma end_camera_ok [watch_intros]: "client_ok c \<Longrightarrow> client_ok (end_camera tell sent c)"
  by (simp add: end_camera_def Let_def remove_watched_ok)

lemma camera_failed_ok [watch_intros]: "client_ok c \<Longrightarrow> client_ok (camera_failed reason sent c)"
  by (simp add: camera_failed_def Let_def end_camera_ok)

lemma stop_camera_ok [watch_intros]: "client_ok c \<Longrightarrow> client_ok (stop_camera tell sent c)"
  by (simp add: stop_camera_def Let_def end_camera_ok)

lemma restart_camera_ok [watch_intros]: "client_ok c \<Longrightarrow> client_ok (restart_camera c)"
  by (simp add: restart_camera_def)

lemma start_camera_ok [watch_intros]: "client_ok c \<Longrightarrow> client_ok (start_camera names saved started c)"
  by (simp add: start_camera_def Let_def refresh_camera_devices_def camera_failed_ok)

lemma camera_started_ok [watch_intros]: "client_ok c \<Longrightarrow> client_ok (camera_started sent c)"
  by (simp add: camera_started_def Let_def stop_camera_ok restart_camera_ok)


section \<open>Sessions and messages\<close>

lemma stop_shares_ok [simp]: "client_ok (stop_shares c) \<longleftrightarrow> client_ok c"
  by (simp add: stop_shares_def Let_def)

lemma join_channel_ok [watch_intros]: "client_ok c \<Longrightarrow> client_ok (join_channel ch c)"
  by (simp add: join_channel_def Let_def show_voice_ok)

lemma send_voice_state_ok [simp]: "client_ok (send_voice_state c) \<longleftrightarrow> client_ok c"
  by (simp add: send_voice_state_def)

lemma clear_sharers_ok [watch_intros]: "client_ok c \<Longrightarrow> client_ok (clear_all_sharers c)"
  by (rule clear_all_sharers_ok) (rule client_ok_router)

lemma dr_go_ok: "client_ok c \<Longrightarrow> p \<noteq> Streams \<Longrightarrow> client_ok (c\<lparr>c_router := dr_go p d\<rparr>)"
  by (rule router_page_ok) auto

definition leave_room :: "bool \<Rightarrow> client \<Rightarrow> client" where
  "leave_room tell c4 =
     (let c5 = (if tell then say (Sent CHANNEL_LEAVE []) c4 else c4);
          c6 = c5\<lparr>c_channels := on_channel (c_channel c5) (drop_member (c_user c5)) (c_channels c5), c_channel := 0\<rparr>;
          c7 = say MixersClear (say AudioStop (say (PlaySound Snd_Leave) c6))
      in c7\<lparr>c_model_channel := 0, c_channel_name := [], c_router := dr_go Room (c_router c7)\<rparr>)"

lemma leave_room_ok: "client_ok c \<Longrightarrow> client_ok (leave_room tell c)"
  by (simp add: leave_room_def Let_def dr_go_ok)

definition leave_media :: "bool \<Rightarrow> bool \<Rightarrow> client \<Rightarrow> client" where
  "leave_media tell sent c =
     (let c1 = (if dr_current (c_router c) = SharePicker then c\<lparr>c_router := dr_back Room (c_router c)\<rparr> else c);
          c2 = stop_camera tell sent (stop_shares c1)
      in if c_viewing c2 \<noteq> 0 then stop_watching c2 else c2)"

lemma leave_media_ok: "client_ok c \<Longrightarrow> client_ok (leave_media tell sent c)"
  using nav_ok [of c "dr_back Room"] by (simp add: leave_media_def Let_def stop_watching_ok stop_camera_ok)

lemma Client_leave_channel_ok [watch_intros]:
  assumes "client_ok c"
  shows "client_ok (Client_leave_channel tell sent c)"
proof -
  have "Client_leave_channel tell sent c = (if \<not> c_auth c \<or> c_channel c = 0 then c
      else leave_room tell ((clear_all_sharers (leave_media tell sent c))\<lparr>c_sharing := False, c_audio_sharing := False\<rparr>))"
    unfolding Client_leave_channel_def leave_room_def leave_media_def Let_def ..
  then show ?thesis using assms by (simp add: leave_room_ok clear_sharers_ok leave_media_ok)
qed

lemma reconnect_ok [simp]:
  "client_ok (cancel_reconnect c) \<longleftrightarrow> client_ok c" "client_ok (schedule_attempt now c) \<longleftrightarrow> client_ok c"
  "client_ok (disconnect_intentionally c) \<longleftrightarrow> client_ok c" "client_ok (set_rights r c) \<longleftrightarrow> client_ok c"
  "client_ok (sync_camera_supported c) \<longleftrightarrow> client_ok c" "client_ok (send_auth_identity t sign c) \<longleftrightarrow> client_ok c"
  by (simp_all add: cancel_reconnect_def schedule_attempt_def disconnect_intentionally_def set_rights_def Let_def
      sync_camera_supported_def send_auth_identity_def split: option.split)

lemma connecting_ok [simp]:
  "client_ok (attempt_reconnect now saved ok c) \<longleftrightarrow> client_ok c"
  "client_ok (finish_connect fp verdict t sign c) \<longleftrightarrow> client_ok c"
  "client_ok (poll_connecting now failed up fp verdict t sign c) \<longleftrightarrow> client_ok c"
  "client_ok (do_connect name password state ok fp verdict t sign c) \<longleftrightarrow> client_ok c"
  "client_ok (decide_reconnect now was ch c) \<longleftrightarrow> client_ok c"
  by (simp_all add: attempt_reconnect_def finish_connect_def poll_connecting_def do_connect_def decide_reconnect_def Let_def
      case_prod_unfold split: option.split link_state.split)

lemma on_auth_response_ok [watch_intros]: "client_ok c \<Longrightarrow> client_ok (on_auth_response now d c)"
  by (simp add: on_auth_response_def Let_def case_prod_unfold join_channel_ok)

lemma switch_cleanup_ok: "client_ok c \<Longrightarrow> client_ok (switch_cleanup sent c)"
  by (simp add: switch_cleanup_def clear_sharers_ok stop_camera_ok)

lemma take_seat_ok [simp]: "client_ok (take_seat ch c) \<longleftrightarrow> client_ok c"
  by (simp add: take_seat_def Let_def split: option.split)

lemma on_channel_user_list_ok [watch_intros]: "client_ok c \<Longrightarrow> client_ok (on_channel_user_list sent d c)"
  by (simp add: on_channel_user_list_def Let_def case_prod_unfold switch_cleanup_ok)

lemma rebuild_again_ok [watch_intros]: "client_ok c \<Longrightarrow> client_ok (rebuild_watched_model c)"
  by (rule rebuild_ok) (simp_all add: client_ok_def shown_ok_def)

lemma on_user_left_ok [watch_intros]: "client_ok c \<Longrightarrow> client_ok (on_user_left d c)"
  by (simp add: on_user_left_def Let_def case_prod_unfold Client_leave_channel_ok rebuild_again_ok forget_stream_ok)

lemma lobby_messages_ok [watch_intros]:
  "client_ok c \<Longrightarrow> client_ok (on_channel_list d c)" "client_ok c \<Longrightarrow> client_ok (on_user_joined d c)"
  "client_ok c \<Longrightarrow> client_ok (on_user_voice_state d c)" "client_ok c \<Longrightarrow> client_ok (on_user_role_changed d c)"
  "client_ok c \<Longrightarrow> client_ok (on_screen_share_denied c)" "client_ok c \<Longrightarrow> client_ok (on_screen_share_viewer d c)"
  "client_ok c \<Longrightarrow> client_ok (on_admin_result d c)" "client_ok c \<Longrightarrow> client_ok (on_server_error d c)"
  by (simp_all add: on_channel_list_def on_user_joined_def on_user_voice_state_def on_user_role_changed_def
      on_screen_share_denied_def on_screen_share_viewer_def on_admin_result_def on_server_error_def Let_def case_prod_unfold)

definition own_stopped :: "u32 \<Rightarrow> client \<Rightarrow> client" where
  "own_stopped s c2 =
     (if s \<noteq> own_camera c2 then c2
      else if c_cam_stops c2 > 0 then c2\<lparr>c_cam_stops := c_cam_stops c2 - 1\<rparr>
      else if c_cam_on c2 \<and> \<not> c_cam_starting c2
      then let c3 = c2\<lparr>c_cam_preview := False, c_cam_on := False\<rparr>
           in if pf_camera (c_pf c3) then say StopCamera c3 else c3
      else c2)"

lemma own_stopped_ok [simp]: "client_ok (own_stopped s c) \<longleftrightarrow> client_ok c"
  by (simp add: own_stopped_def Let_def)

lemma on_screen_share_stopped_ok [watch_intros]:
  assumes c: "client_ok c"
  shows "client_ok (on_screen_share_stopped d c)"
proof -
  let ?s = "of_le32 d" and ?c1 = "remove_channel_sharer (of_le32 d) c"
  let ?c2 = "if is_watching ?s ?c1 then remove_watch ?s ?c1 else rebuild_watched_model ?c1"
  have "client_ok ?c2" using forget_stream_ok [OF c, of ?s] remove_unwatched_ok [OF c, of ?s]
    by (auto simp: forget_stream_def Let_def rebuild_again_ok)
  moreover have "on_screen_share_stopped d c = (if length d < 4 then c else own_stopped ?s ?c2)"
    unfolding on_screen_share_stopped_def own_stopped_def Let_def ..
  ultimately show ?thesis using c by (simp only: own_stopped_ok split: if_split) simp
qed

definition announced :: "int \<Rightarrow> u8 \<Rightarrow> u32 \<Rightarrow> client \<Rightarrow> client" where
  "announced now replay s c1 =
     (let c2 = (if replay = 0 \<and> is_open s (c_rx c1) then open_video_rx now s c1 else c1);
          own = (video_stream_owner s = c_user c2); cam = is_camera s;
          c3 = (if \<not> own \<and> \<not> cam \<and> replay = 0 then say (PlaySound Snd_StreamStarted) c2 else c2)
      in if own \<and> cam \<and> c_cam_preview c3 \<and> c_cam_stops c3 = 0
         then let c4 = add_watch now s (c3\<lparr>c_cam_preview := False\<rparr>)
              in if pf_camera (c_pf c4) then say RequestCameraKeyframe c4 else c4
         else rebuild_watched_model c3)"

lemma announced_ok: "client_ok c \<Longrightarrow> client_ok (announced now replay s c)"
  using reopen_ok [of c s now]
  by (simp add: announced_def Let_def add_watch_ok rebuild_again_ok)

lemma on_screen_share_started_ok [watch_intros]:
  assumes "client_ok c"
  shows "client_ok (on_screen_share_started now d c)"
proof -
  obtain s r1 where s: "read_u32 (new_reader d) = (s, r1)" by fastforce
  have "\<exists>replay. on_screen_share_started now d c = (if rerr r1 then c
      else case add_channel_sharer s c of (known, c1) \<Rightarrow> if \<not> known then c1 else announced now replay s c1)"
    unfolding on_screen_share_started_def announced_def s Let_def case_prod_unfold by (simp only: fst_conv snd_conv) blast
  then show ?thesis using add_sharer_ok [OF assms, of s] assms by (auto simp: case_prod_unfold announced_ok)
qed

definition drop_media :: "client \<Rightarrow> client" where
  "drop_media c =
     (let c1 = c\<lparr>c_auth := False, c_channel := 0, c_password := [], c_viewing := 0, c_awaiting_key := False,
                 c_screen_seq := 0, c_awaiting_conn := False, c_awaiting_join := False, c_pending_channel := 0,
                 c_voice_seq := 0, c_ping_pending := False, c_tofu_pending := False,
                 c_version := PROTOCOL_VERSION_ASSUMED_LEGACY, c_cam_stops := 0, c_camera_seq := 0\<rparr>;
          fresh = (\<lambda>x. clear_outstanding (sc_reset (sc_cfg x) x));
          c2 = c1\<lparr>c_screen_sender := fresh (c_screen_sender c1), c_camera_sender := fresh (c_camera_sender c1)\<rparr>
      in (rx_do R_Close_All c2)\<lparr>c_rx_sampled := 0, c_key_last := 0, c_cam_key_last := 0\<rparr>)"

definition drop_model :: "client \<Rightarrow> client" where
  "drop_model c4 =
     (let c5 = (say (PlaySound Snd_Disconnected) c4)\<lparr>c_ping_ms := 0, c_model_channel := 0, c_channel_name := [], c_channels := []\<rparr>;
          c6 = (stop_shares c5)\<lparr>c_sharing := False, c_audio_sharing := False\<rparr>;
          c7 = sync_camera_supported c6;
          c8 = c7\<lparr>c_router := dr_reset (c_router c7), c_my_role := 3, c_can_channels := False, c_can_kick := False,
                  c_can_roles := False, c_admin_message := []\<rparr>
      in c8\<lparr>c_connected_id := 0, c_show_login := False, c_login_error := []\<rparr>)"

lemma drop_session_eq:
  "drop_session c = drop_model (clear_all_sharers (say MixersClear (say AudioStop (drop_media (stop_camera False False c)))))"
  unfolding drop_session_def drop_media_def drop_model_def Let_def ..

lemma drop_model_ok: "client_ok c \<Longrightarrow> client_ok (drop_model c)"
  by (simp add: drop_model_def Let_def router_page_ok)

lemma drop_session_ok [watch_intros]:
  assumes "client_ok c"
  shows "client_ok (drop_session c)"
proof -
  have "router_ok (c_rx (drop_media (stop_camera False False c)))"
    using client_ok_router [OF stop_camera_ok [OF assms]] by (simp add: drop_media_def Let_def rx_do_eq)
  then have "router_ok (c_rx (say MixersClear (say AudioStop (drop_media (stop_camera False False c)))))" by (simp add: say_def)
  then show ?thesis unfolding drop_session_eq by (intro drop_model_ok clear_all_sharers_ok)
qed

lemma on_disconnect_cleanup_ok [watch_intros]: "client_ok c \<Longrightarrow> client_ok (on_disconnect_cleanup now c)"
  by (simp add: on_disconnect_cleanup_def drop_session_ok)

lemma on_keyframe_request_ok [simp]: "client_ok (on_keyframe_request now source c) \<longleftrightarrow> client_ok c"
  by (simp add: on_keyframe_request_def Let_def)

lemma rx_ops_ok [watch_intros]:
  assumes "client_ok c"
  shows "client_ok (route_video_stream_frame now s frame c)" "client_ok (route_video_stream_aborted now s seq hs c)"
    "client_ok (on_video_stream_header now s hdr c)" "client_ok (send_pli now target c)"
  using assms by (simp_all add: route_video_stream_frame_def route_video_stream_aborted_def on_video_stream_header_def
      send_pli_def rx_do_ok client_ok_router)

lemma datagram_ok [watch_intros]:
  "client_ok c \<Longrightarrow> client_ok (on_encoded_frame muted d c)" "client_ok c \<Longrightarrow> client_ok (on_secondary_encoded_frame d c)"
  "client_ok c \<Longrightarrow> client_ok (on_data_received now d c)"
  by (simp_all add: on_encoded_frame_def on_secondary_encoded_frame_def on_data_received_def Let_def)

lemma handle_server_message_ok [watch_intros]:
  assumes "client_ok c"
  shows "client_ok (handle_server_message e m c)"
proof -
  obtain ty d where "m = (ty, d)" by fastforce
  then show ?thesis using assms by (cases ty) (simp_all add: watch_intros)
qed

lemma process_server_messages_ok [watch_intros]: "client_ok c \<Longrightarrow> client_ok (process_server_messages e ms c)"
  unfolding process_server_messages_def by (induction ms arbitrary: c) (simp_all add: handle_server_message_ok)

lemma tick_ok [watch_intros]: "client_ok c \<Longrightarrow> client_ok (tick_ping now c)" "client_ok c \<Longrightarrow> client_ok (tick_video e st c)"
  by (simp_all add: tick_ping_def tick_video_def tick_senders_def feed_video_sender_stats_def Let_def rx_do_ok client_ok_router)

end
