(* ===== verification/Client_Reach.thy ===== *)
theory Client_Reach
  imports Client_Invariant
begin

text \<open>
  The states a client reaches: a fresh \<open>AppCore\<close> (the initialisers of \<open>app_core.h\<close> and \<open>lobby_model.h\<close>), and one step
  for each entry point: messages, datagrams and streams from the server, the loss of the connection,
  the clock, the user's actions and the platform's callbacks. The watch state of all of them is
  consistent.
\<close>

definition blank_client :: "platform \<Rightarrow> Receive_Router.router \<Rightarrow> send_ctl \<Rightarrow> send_ctl \<Rightarrow> client" where
  "blank_client pf rx screen camera = \<lparr>c_pf = pf, c_auth = False, c_user = 0, c_role = 3, c_version = PROTOCOL_VERSION_ASSUMED_LEGACY,
     c_channel = 0, c_awaiting_join = False, c_pending_channel = 0, c_router = new_doc_router, c_channels = [],
     c_model_channel = 0, c_channel_name = [], c_muted = False, c_deafened = False, c_sharing = False,
     c_audio_sharing = False, c_someone = False, c_sharers = [], c_watched_model = [], c_watching_count = 0,
     c_viewing_id = 0, c_fullscreen = False, c_my_role = 3, c_can_channels = False, c_can_kick = False,
     c_can_roles = False, c_watched = [], c_viewing = 0, c_audio_sharer = 0, c_awaiting_key = False,
     c_rx = rx, c_rx_sampled = 0, c_cam_supported = False, c_cam_on = False,
     c_cam_starting = False, c_cam_preview = False, c_cam_restart = False, c_cam_stops = 0, c_cam_quality = 1,
     c_cam_devices = [], c_cam_selected = 0, c_cam_error = [], c_screen_sender = screen,
     c_camera_sender = camera, c_screen_seq = 0, c_camera_seq = 0, c_key_last = 0,
     c_cam_key_last = 0, c_has_identity = False, c_public_key = replicate 32 0, c_global_name = [], c_username = [],
     c_password = [], c_server_id = 0, c_connected_id = 0, c_awaiting_conn = False, c_tofu_pending = False, c_tofu_fp = [],
     c_show_login = False, c_login_error = [], c_server_name = [], c_admin_message = [], c_intentional = False,
     c_reconnecting = False, c_attempts = 0, c_flaps = 0, c_rejoin_channel = 0, c_rejoin_pending = False,
     c_next_attempt = 0, c_auth_time = 0, c_ping_pending = False, c_ping_sent = 0, c_ping_last = 0, c_ping_ms = 0,
     c_voice_seq = 0, c_voice2_seq = 0, c_out = []\<rparr>"

definition new_client :: "platform \<Rightarrow> client" where
  "new_client pf = blank_client pf (new_router default_router_cfg) (new_send_ctl default_send_cfg) (new_send_ctl default_send_cfg)"

text \<open>The pages a user opens: settings, the share picker, the chat, and back.\<close>

datatype page_move = Open_Settings settings_section | Select_Settings settings_section | Open_Picker | Open_Chat | Go_Back

fun page_do :: "page_move \<Rightarrow> doc_router \<Rightarrow> doc_router" where
  "page_do (Open_Settings x) d = open_settings x d"
| "page_do (Select_Settings x) d = select_settings x d"
| "page_do Open_Picker d = open_share_picker d"
| "page_do Open_Chat d = dr_go Chat d"
| "page_do Go_Back d = dr_back Room d"

inductive quiet_step :: "client \<Rightarrow> client \<Rightarrow> bool" where
  messages: "quiet_step c (process_server_messages e ms c)"
| datagram: "quiet_step c (on_data_received now d c)"
| stream_header: "quiet_step c (on_video_stream_header now s hdr c)"
| stream_frame: "quiet_step c (route_video_stream_frame now s frame c)"
| stream_aborted: "quiet_step c (route_video_stream_aborted now s seq hs c)"
| playout: "quiet_step c (rx_do (R_Collect now) c)"
| playout_flush: "quiet_step c (rx_do (R_Flush now) c)"
| connecting: "quiet_step c (poll_connecting now failed up fp verdict t sign c)"
| reconnect: "quiet_step c (attempt_reconnect now saved ok c)"
| ping: "quiet_step c (tick_ping now c)"
| video_tick: "quiet_step c (tick_video e st c)"
| connect: "quiet_step c (do_connect name password state ok fp verdict t sign c)"
| leave_server: "quiet_step c (disconnect_intentionally c)"
| join: "quiet_step c (join_channel ch c)"
| leave: "quiet_step c (Client_leave_channel tell sent c)"
| look: "quiet_step c (show_voice_channel ch c)"
| page: "quiet_step c (c\<lparr>c_router := page_do m (c_router c)\<rparr>)"
| watch: "quiet_step c (watch_sharer now s c)"
| watch_add: "quiet_step c (add_watch now s c)"
| watch_member: "quiet_step c (watch_user now u c)"
| watch_toggle: "quiet_step c (toggle_watch now s c)"
| watch_remove: "quiet_step c (remove_watch s c)"
| watch_end: "quiet_step c (stop_watching c)"
| watch_one: "s = 0 \<or> is_sharer s c \<Longrightarrow> quiet_step c (set_single_watched now s c)"
| keyframe: "quiet_step c (send_pli now target c)"
| camera_on: "quiet_step c (start_camera names saved started c)"
| camera_up: "quiet_step c (camera_started sent c)"
| camera_down: "quiet_step c (camera_failed reason sent c)"
| camera_off: "quiet_step c (stop_camera tell sent c)"
| camera_again: "quiet_step c (restart_camera c)"
| sender_reset: "quiet_step c (reset_video_sender source bps c)"
| sender_target: "quiet_step c (set_video_target_bitrate bps c)"
| sender_admit: "quiet_step c (snd (video_admit_frame source c))"
| sender_bitrate: "quiet_step c (snd (take_video_bitrate_update source c))"
| sender_keyframe: "quiet_step c (snd (take_video_keyframe_request source c))"
| sender_done: "quiet_step c (on_video_bytes_completed source k c)"
| publish: "quiet_step c (fst (snd (send_video_frame source encoded key w h cdc now stream ok (c, n))))"
| stream_update: "quiet_step c (send_video_stream_update source cdc w h c)"
| voice: "quiet_step c (on_encoded_frame muted d c)"
| voice_aux: "quiet_step c (on_secondary_encoded_frame d c)"
| voice_state: "quiet_step c (send_voice_state c)"
| mute: "quiet_step c (toggle_mute c)"
| deafen: "quiet_step c (toggle_deafen c)"
| camera_toggle: "quiet_step c (toggle_camera names saved started sent c)"
| admin_create: "quiet_step c (ask_create_channel name c)"
| admin_delete: "quiet_step c (Client_delete_channel ch c)"
| admin_rename: "quiet_step c (Client_rename_channel ch name c)"
| admin_role: "quiet_step c (ask_set_role u r c)"
| admin_kick: "quiet_step c (ask_kick u c)"
| choose_server: "quiet_step c (connect_server i rows servers state ok fp verdict t sign c)"
| login_cancel: "quiet_step c (cancel_login c)"
| certificate_accept: "quiet_step c (tofu_accept t sign c)"
| certificate_reject: "quiet_step c (tofu_reject c)"
| identity_save: "quiet_step c (save_identity derived stored c)"
| identity_restore: "quiet_step c (restore_identity valid derived stored c)"
| identity_import: "quiet_step c (import_key valid derived stored c)"
| name_save: "quiet_step c (save_global_name input stored c)"

text \<open>The main loop, which also notices a lost connection.\<close>

inductive client_step :: "client \<Rightarrow> client \<Rightarrow> bool" where
  quiet: "quiet_step c c' \<Longrightarrow> client_step c c'"
| disconnected: "client_step c (on_disconnect_cleanup now c)"
| tick: "client_step c (client_tick e ti c)"

inductive client_reach :: "platform \<Rightarrow> client \<Rightarrow> bool" for pf where
  start: "client_reach pf (new_client pf)"
| step: "client_reach pf c \<Longrightarrow> client_step c c' \<Longrightarrow> client_reach pf c'"

lemma new_client_ok: "client_ok (new_client pf)"
  by (simp add: client_ok_def watch_ok_def list_ok_def shown_ok_def new_client_def blank_client_def new_router_ok new_doc_router_def
      opened_def) (simp add: new_router_def Let_def)

lemma page_do_keeps: "no_streams d \<Longrightarrow> no_streams (page_do m d)"
  by (cases m) simp_all

lemma send_video_frame_ok [watch_intros]:
  "client_ok c \<Longrightarrow> client_ok (fst (snd (send_video_frame source encoded key w h cdc now stream ok (c, n))))"
  by (simp add: send_video_frame_def next_seq_def undo_charge_def Let_def case_prod_unfold)

lemma sender_steps_ok [watch_intros]:
  assumes "client_ok c"
  shows "client_ok (set_video_target_bitrate bps c)" "client_ok (snd (video_admit_frame source c))"
    "client_ok (snd (take_video_bitrate_update source c))" "client_ok (snd (take_video_keyframe_request source c))"
    "client_ok (on_video_bytes_completed source k c)" "client_ok (send_video_stream_update source cdc w h c)"
  using assms by (simp_all add: set_video_target_bitrate_def video_admit_frame_def take_video_bitrate_update_def
      take_video_keyframe_request_def on_video_bytes_completed_def send_video_stream_update_def case_prod_unfold Let_def)

lemma actions_ok [watch_intros]:
  assumes "client_ok c"
  shows "client_ok (toggle_mute c)" "client_ok (toggle_deafen c)" "client_ok (toggle_camera names saved started sent c)"
    "client_ok (ask_create_channel name c)" "client_ok (Client_delete_channel ch c)" "client_ok (Client_rename_channel ch name c)"
    "client_ok (ask_set_role u r c)" "client_ok (ask_kick u c)" "client_ok (cancel_login c)" "client_ok (tofu_accept t sign c)"
    "client_ok (tofu_reject c)" "client_ok (save_identity derived stored c)" "client_ok (restore_identity valid derived stored c)"
    "client_ok (import_key valid derived stored c)" "client_ok (save_global_name input stored c)"
    "client_ok (connect_server i rows servers state ok fp verdict t sign c)"
  using assms
  by (simp_all add: toggle_mute_def toggle_deafen_def own_members_def toggle_camera_def ask_create_channel_def Client_delete_channel_def
      Client_rename_channel_def ask_set_role_def ask_kick_def cancel_login_def tofu_accept_def tofu_reject_def save_identity_def
      restore_identity_def import_key_def save_global_name_def connect_server_def Let_def stop_camera_ok start_camera_ok
      split: option.split)

lemma client_tick_ok [watch_intros]: "client_ok c \<Longrightarrow> client_ok (client_tick e ti c)"
  by (simp add: client_tick_def tick_drop_def tick_connect_def Let_def tick_ok process_server_messages_ok on_disconnect_cleanup_ok)

lemma playout_ok [watch_intros]: "client_ok c \<Longrightarrow> client_ok (rx_do (R_Collect now) c)" "client_ok c \<Longrightarrow> client_ok (rx_do (R_Flush now) c)"
  by (simp_all add: rx_do_ok client_ok_router)

lemma quiet_step_ok: "quiet_step c c' \<Longrightarrow> client_ok c \<Longrightarrow> client_ok c'"
  by (induction rule: quiet_step.induct)
    (simp_all add: watch_intros client_ok_router page_do_keeps)

lemma client_step_ok: "client_step c c' \<Longrightarrow> client_ok c \<Longrightarrow> client_ok c'"
  by (induction rule: client_step.induct) (simp_all add: quiet_step_ok watch_intros)

lemma client_reach_ok: "client_reach pf c \<Longrightarrow> client_ok c"
  by (induction rule: client_reach.induct) (simp_all add: new_client_ok client_step_ok)


section \<open>What the user watches\<close>

text \<open>(C9) In every state a client reaches, the streams the receive router has open are exactly the watched ones,
  each once and each offered by the channel; the grid shows exactly the watched streams in the order of the
  channel's list, and its count is right; the focused stream is a watched one and none has focus exactly when
  none is watched; stream audio is taken from no stream or from a watched screen; a platform with one decoder
  watches at most one stream; and with nothing watched neither the current page nor a page the user can go back
  to is the stream page.\<close>

theorem watch_state_consistent:
  assumes "client_reach pf c"
  shows "set (map fst (rr_streams (c_rx c))) = set (c_watched c) \<and> distinct (c_watched c) \<and>
    set (c_watched c) \<subseteq> set (map sh_id (c_sharers c)) \<and> distinct (map sh_id (c_sharers c)) \<and>
    map ws_id (c_watched_model c) = filter (\<lambda>s. s \<in> set (c_watched c)) (map sh_id (c_sharers c)) \<and>
    c_watching_count c = int (length (c_watched c)) \<and>
    (if c_watched c = [] then c_viewing c = 0 else c_viewing c \<in> set (c_watched c)) \<and> c_viewing_id c = c_viewing c \<and>
    c_audio_sharer c \<in> {0} \<union> {s \<in> set (c_watched c). video_stream_source s = Screen} \<and>
    (if pf_multi (c_pf c) then True else length (c_watched c) \<le> 1) \<and>
    (if c_watched c = [] then Streams \<notin> set (dr_current (c_router c) # dr_history (c_router c)) else True)"
proof -
  have ok: "client_ok c" by (rule client_reach_ok [OF assms])
  have "length (c_watched_model c) = length (filter (\<lambda>s. s \<in> set (c_watched c)) (sharer_ids c))"
    using ok by (metis client_ok_def length_map shown_ok_def)
  also have "\<dots> = card (set (filter (\<lambda>s. s \<in> set (c_watched c)) (sharer_ids c)))"
    using ok by (intro distinct_card [symmetric]) (simp add: client_ok_def list_ok_def)
  also have "set (filter (\<lambda>s. s \<in> set (c_watched c)) (sharer_ids c)) = set (c_watched c)"
    using ok by (auto simp: client_ok_def shown_ok_def)
  also have "card (set (c_watched c)) = length (c_watched c)"
    using ok by (simp add: client_ok_def watch_ok_def distinct_card)
  finally show ?thesis using ok by (auto simp: client_ok_def watch_ok_def list_ok_def shown_ok_def opened_def)
qed

definition client_demo_env :: client_env where
  "client_demo_env = \<lparr>ce_now = 1000000, ce_sent = True, ce_awaiting = (\<lambda>s. False)\<rparr>"

text \<open>A client signs in as user 7, joins channel 1 with user 9, and watches the screen of user 9.\<close>

definition demo_lobby :: "client \<Rightarrow> client" where
  "demo_lobby c = process_server_messages client_demo_env
     [(AUTH_RESPONSE, le32 7 @ replicate 32 0 @ [3] @ le16 1 @ [65] @ le16 9),
      (CHANNEL_LIST, le32 1 @ le32 1 @ le16 1 @ [66] @ le32 0 @ le32 0 @ le32 0)] c"

definition demo_watching :: "client \<Rightarrow> client" where
  "demo_watching c = add_watch 1000000 9 (process_server_messages client_demo_env
     [(CHANNEL_USER_LIST, le32 1 @ le32 2 @ le32 7 @ le16 1 @ [67] @ [3, 0, 0] @ le32 9 @ le16 1 @ [68] @ [3, 0, 0]),
      (SCREEN_SHARE_STARTED, le32 9 @ [1] @ le16 640 @ le16 360 @ [0])] (join_channel 1 (demo_lobby c)))"


abbreviation demo_pf :: platform where
  "demo_pf \<equiv> \<lparr>pf_multi = True, pf_camera = True, pf_request = True\<rparr>"

abbreviation demo_rx :: "router_cfg \<Rightarrow> Receive_Router.router" where
  "demo_rx cfg \<equiv> \<lparr>rr_cfg = cfg, rr_streams = [], rr_rtt = 0, rr_pacing = Map.empty, rr_pacing_stats = Map.empty,
     rr_pending = [], rr_due = [], rr_out = []\<rparr>"

lemma new_client_blank: "\<exists>cfg sa sb. new_client demo_pf = blank_client demo_pf (demo_rx cfg) sa sb"
  unfolding new_client_def new_router_def Let_def by blast

lemma demo_watched: "c_watched (demo_watching (blank_client demo_pf (demo_rx cfg) sa sb)) = [9]"
  by code_simp

lemma demo_reached: "client_reach demo_pf (demo_watching (new_client demo_pf))"
  unfolding demo_watching_def demo_lobby_def
  by (rule client_reach.step [OF _ client_step.quiet [OF quiet_step.watch_add]],
      rule client_reach.step [OF _ client_step.quiet [OF quiet_step.messages]],
      rule client_reach.step [OF _ client_step.quiet [OF quiet_step.join]],
      rule client_reach.step [OF _ client_step.quiet [OF quiet_step.messages]], rule client_reach.start)

theorem watch_state_consistent_witness:
  "client_reach demo_pf (demo_watching (new_client demo_pf)) \<and>
   c_watching_count (demo_watching (new_client demo_pf)) = 1 \<and> c_viewing (demo_watching (new_client demo_pf)) = 9 \<and>
   set (map fst (rr_streams (c_rx (demo_watching (new_client demo_pf))))) = {9}"
proof -
  have "c_watched (demo_watching (new_client demo_pf)) = [9]" using new_client_blank demo_watched by auto
  then show ?thesis using demo_reached watch_state_consistent [OF demo_reached] by simp
qed

end
