(* ===== verification/Client_Server.thy ===== *)
theory Client_Server
  imports Server_Access Client_Reach
begin

text \<open>
  Client and server together: what one side writes (\<open>client/src/app_core.cpp\<close>, \<open>server/src/server.cpp\<close>) the other
  side reads. Signing in, the roster of a channel, and voice are followed from the client that
  starts them through the server to the client that receives them.
\<close>

section \<open>Reading what was written\<close>

text \<open>A reader in good order with \<open>xs\<close> still to read.\<close>

definition ahead :: "reader \<Rightarrow> bytes \<Rightarrow> bool" where
  "ahead r xs \<longleftrightarrow> rrest r = xs \<and> \<not> rerr r \<and> reader_ok r"

lemma ahead_new [intro]: "ahead (new_reader d) d"
  by (simp add: ahead_def rrest_def new_reader_def reader_ok_def)

lemma ahead_ok [simp]: "ahead r xs \<Longrightarrow> \<not> rerr r"
  by (simp add: ahead_def)

lemma ahead_remaining: "ahead r xs \<Longrightarrow> remaining r = length xs"
  by (auto simp: ahead_def simp flip: length_rrest)

lemma ahead_field:
  assumes "ahead r (enc_field f @ xs)" "field_fits f"
  shows "\<exists>r'. read_field (kind_of f) r = (f, r') \<and> ahead r' xs"
proof -
  have f: "read_field (kind_of f) r = (f, r\<lparr>rpos := rpos r + length (enc_field f)\<rparr>)"
    using assms by (intro read_field_enc) (auto simp: ahead_def)
  have "reader_step r (snd (read_field (kind_of f) r))" by (rule read_field_step)
  then have "ahead (r\<lparr>rpos := rpos r + length (enc_field f)\<rparr>) xs"
    using assms by (simp add: f ahead_def reader_step_def rrest_advance)
  then show ?thesis using f by blast
qed

lemma ahead_u8: "ahead r (v # xs) \<Longrightarrow> \<exists>r'. read_u8 r = (v, r') \<and> ahead r' xs"
  using ahead_field [of r "U8 v" xs] by (auto simp: map_prod_def split: prod.splits)

lemma ahead_u16: "ahead r (le16 v @ xs) \<Longrightarrow> \<exists>r'. read_u16 r = (v, r') \<and> ahead r' xs"
  using ahead_field [of r "U16 v" xs] by (auto simp: map_prod_def split: prod.splits)

lemma ahead_u32: "ahead r (le32 v @ xs) \<Longrightarrow> \<exists>r'. read_u32 r = (v, r') \<and> ahead r' xs"
  using ahead_field [of r "U32 v" xs] by (auto simp: map_prod_def split: prod.splits)

lemma ahead_u64: "ahead r (le64 v @ xs) \<Longrightarrow> \<exists>r'. read_u64 r = (v, r') \<and> ahead r' xs"
  using ahead_field [of r "U64 v" xs] by (auto simp: map_prod_def split: prod.splits)

lemma ahead_string: "ahead r (enc_string v @ xs) \<Longrightarrow> string_fits v \<Longrightarrow> \<exists>r'. read_string r = (v, r') \<and> ahead r' xs"
  using ahead_field [of r "Str v" xs] by (auto simp: map_prod_def split: prod.splits)

lemma ahead_raw:
  assumes "ahead r (v @ xs)" "length d = length v"
  shows "\<exists>r'. read_bytes d (length v) r = (v, r') \<and> ahead r' xs"
proof -
  have "has_remaining (length v) r" using assms by (intro rrest_has_ok) (auto simp: ahead_def)
  then show ?thesis using ahead_field [of r "Raw v" xs] assms by (auto simp: read_bytes_def)
qed

section \<open>Signing in\<close>

lemma auth_message_enc: "auth_message key name now sig password =
    le16 PROTOCOL_VERSION @ key @ enc_string name @ le64 now @ sig @ enc_string password"
  by (simp add: auth_message_def writer_defs enc_string_def)

lemma signed_alike: "signed_message = client_signed_message"
  by (intro ext) (simp add: signed_message_def client_signed_message_def)

text \<open>The server parses what the client sends, down to the password.\<close>

lemma auth_message_parsed:
  assumes "length key = 32" "length sig = 64" "string_fits name" "string_fits password"
  shows "\<exists>r. parse_auth (auth_message key name now sig password) = Inr \<lparr>ar_version = PROTOCOL_VERSION, ar_pubkey = key,
      ar_name = name, ar_timestamp = now, ar_signature = sig, ar_reader = r\<rparr> \<and> ahead r (enc_string password)"
proof -
  let ?d = "auth_message key name now sig password"
  have "ahead (new_reader ?d) (le16 PROTOCOL_VERSION @ key @ enc_string name @ le64 now @ sig @ enc_string password)"
    using ahead_new [of ?d] by (simp add: auth_message_enc)
  then obtain r1 where 1: "read_u16 (new_reader ?d) = (PROTOCOL_VERSION, r1)"
    "ahead r1 (key @ enc_string name @ le64 now @ sig @ enc_string password)" using ahead_u16 by blast
  then obtain r2 where 2: "read_bytes (replicate 32 0) 32 r1 = (key, r2)"
    "ahead r2 (enc_string name @ le64 now @ sig @ enc_string password)" using ahead_raw [OF 1(2), of "replicate 32 0"] assms(1) by auto
  then obtain r3 where 3: "read_string r2 = (name, r3)" "ahead r3 (le64 now @ sig @ enc_string password)"
    using ahead_string assms(3) by blast
  then obtain r4 where 4: "read_u64 r3 = (now, r4)" "ahead r4 (sig @ enc_string password)" using ahead_u64 by blast
  then obtain r5 where 5: "read_bytes (replicate 64 0) 64 r4 = (sig, r5)" "ahead r5 (enc_string password)"
    using ahead_raw [OF 4(2), of "replicate 64 0"] assms(2) by auto
  have v: "protocol_major PROTOCOL_VERSION = PROTOCOL_VERSION_MAJOR" by code_simp
  have "parse_auth ?d = Inr \<lparr>ar_version = PROTOCOL_VERSION, ar_pubkey = key, ar_name = name, ar_timestamp = now,
      ar_signature = sig, ar_reader = r5\<rparr>"
    using 1 2 3 4 5 v by (simp add: parse_auth_def Let_def)
  then show ?thesis using 5(2) by blast
qed

lemma offered_password_sent:
  assumes "ahead (ar_reader a) (enc_string password)" "string_fits password"
  shows "offered_password a = password"
proof -
  obtain r where "read_string (ar_reader a) = (password, r)" using ahead_string [of "ar_reader a" password "[]"] assms by auto
  then show ?thesis using assms(1) by (simp add: offered_password_def ahead_remaining enc_string_def)
qed


text \<open>The answer, and what the client makes of it.\<close>

definition auth_answer :: "config \<Rightarrow> env \<Rightarrow> user_row \<Rightarrow> bytes" where
  "auth_answer cfg e u = write_u16 PROTOCOL_VERSION (write_string (cfg_server_name cfg)
     (write_u8 (word_of_int (u_role u)) (write_bytes (random_token e) (write_u32 (word_of_int (u_id u)) []))))"

lemma auth_answer_enc: "auth_answer cfg e u = le32 (word_of_int (u_id u)) @ random_token e @
    word_of_int (u_role u) # enc_string (cfg_server_name cfg) @ le16 PROTOCOL_VERSION"
  by (simp add: auth_answer_def writer_defs enc_string_def)

lemma join_fields [simp]:
  "c_auth (join_channel ch c) = c_auth c" "c_user (join_channel ch c) = c_user c" "c_role (join_channel ch c) = c_role c"
  "c_version (join_channel ch c) = c_version c" "c_server_name (join_channel ch c) = c_server_name c"
  by (simp_all add: join_channel_def show_voice_channel_def say_def Let_def)

lemma auth_answer_taken:
  assumes "length (random_token e) = 32" "string_fits (cfg_server_name cfg)"
  shows "c_auth (on_auth_response now (auth_answer cfg e u) c) \<and>
    c_user (on_auth_response now (auth_answer cfg e u) c) = word_of_int (u_id u) \<and>
    c_role (on_auth_response now (auth_answer cfg e u) c) = word_of_int (u_role u) \<and>
    c_version (on_auth_response now (auth_answer cfg e u) c) = PROTOCOL_VERSION \<and>
    c_server_name (on_auth_response now (auth_answer cfg e u) c) = cfg_server_name cfg"
proof -
  let ?d = "auth_answer cfg e u"
  obtain r1 where 1: "read_u32 (new_reader ?d) = (word_of_int (u_id u), r1)"
    "ahead r1 (random_token e @ word_of_int (u_role u) # enc_string (cfg_server_name cfg) @ le16 PROTOCOL_VERSION)"
    using ahead_u32 ahead_new [of ?d] unfolding auth_answer_enc by blast
  obtain r2 where 2: "read_bytes (replicate 32 0) 32 r1 = (random_token e, r2)"
    "ahead r2 (word_of_int (u_role u) # enc_string (cfg_server_name cfg) @ le16 PROTOCOL_VERSION)"
    using ahead_raw [OF 1(2), of "replicate 32 0"] assms(1) by auto
  then obtain r3 where 3: "read_u8 r2 = (word_of_int (u_role u), r3)"
    "ahead r3 (enc_string (cfg_server_name cfg) @ le16 PROTOCOL_VERSION)" using ahead_u8 by blast
  then obtain r4 where 4: "read_string r3 = (cfg_server_name cfg, r4)" "ahead r4 (le16 PROTOCOL_VERSION)"
    using ahead_string assms(2) by blast
  then obtain r5 where 5: "read_u16 r4 = (PROTOCOL_VERSION, r5)" "ahead r5 []" using ahead_u16 [of r4 _ "[]"] by auto
  have "remaining r4 \<ge> 2" using ahead_remaining [OF 4(2)] by simp
  then show ?thesis using 1(1) 2(1) 3(1) 4(1) 5
    by (simp add: on_auth_response_def Let_def cancel_reconnect_def set_rights_def say_def sync_camera_supported_def)
qed


section \<open>A session's link survives the departure of others\<close>

named_theorems link_simps "operations that keep a session's link"

definition link :: "u32 \<Rightarrow> srv \<Rightarrow> u32 list \<times> bool \<times> nat option" where
  "link k st = (sessions st, s_alive (objs st k), s_control_stream (objs st k))"

lemma link_upd [link_simps]:
  "(\<And>s. s_alive (f s) = s_alive s) \<Longrightarrow> (\<And>s. s_control_stream (f s) = s_control_stream s) \<Longrightarrow> link k (upd i f st) = link k st"
  by (simp add: link_def upd_def)

lemma link_fold: "(\<And>x st. link k (f x st) = link k st) \<Longrightarrow> link k (fold f xs st) = link k st"
  by (induction xs arbitrary: st) auto

lemma link_other [link_simps]:
  "link k (Server_State.emit x st) = link k st" "link k (st\<lparr>video_ingress := vi\<rparr>) = link k st"
  "link k (st\<lparr>channel_streams := cs\<rparr>) = link k st" "link k (st\<lparr>sharer_states := ss\<rparr>) = link k st"
  "link k (st\<lparr>user_sessions := us\<rparr>) = link k st" "link k (st\<lparr>authed_sessions := au\<rparr>) = link k st"
  "link k (st\<lparr>control_buckets := cb\<rparr>) = link k st" "link k (st\<lparr>recent_auth := ra\<rparr>) = link k st"
  "link k (st\<lparr>db := d\<rparr>) = link k st"
  by (simp_all add: link_def Server_State.emit_def)

lemma link_send [link_simps]: "link k (send_to i ty p st) = link k st" "link k (send_error i m c st) = link k st"
  by (simp_all add: send_to_def send_error_def link_simps)

lemma link_send_all [link_simps]: "link k (send_all P ty p st) = link k st"
  unfolding send_all_def by (rule link_fold) (simp add: link_simps)

lemma link_notify [link_simps]: "link k (notify_viewer_change s v w st) = link k st"
  by (simp add: notify_viewer_change_def link_simps Let_def split: option.split)

lemma link_clear_subscriptions [link_simps]: "link k (clear_viewer_subscriptions i n st) = link k st"
  by (simp add: clear_viewer_subscriptions_def Let_def link_simps link_fold)

lemma link_stop_stream [link_simps]: "link k (stop_video_stream ch u src st) = link k st"
  by (simp add: stop_video_stream_def Let_def link_simps link_fold split: option.split)

lemma link_depart [link_simps]: "link k (depart sid u ch kn st) = link k st"
  by (simp add: depart_def stop_all_video_streams_def Let_def link_simps)

lemma link_process_disconnect [link_simps]: "link k (process_disconnect sid u ch st) = link k st"
  by (simp add: process_disconnect_def Let_def link_simps split: option.split)

lemma link_disconnect: "k \<noteq> i \<Longrightarrow> link k (disconnect i st) = link k st"
  by (simp add: disconnect_def Let_def link_def upd_def Server_State.emit_def)

lemma link_kick: "link k (kick_duplicate k pk i st) = link k st"
  by (auto simp: kick_duplicate_def Let_def link_disconnect link_simps)

lemma link_kicks: "link k (fold (kick_duplicate k pk) js st) = link k st"
  by (rule link_fold) (rule link_kick)


section \<open>Signing in, from end to end\<close>

lemma out_send_to: "set (out st) \<subseteq> set (out (send_to i ty p st))"
  by (auto simp: send_to_def Server_State.emit_def)

lemma out_fold:
  assumes "\<And>x st. set (out st) \<subseteq> set (out (f x st))"
  shows "set (out st) \<subseteq> set (out (fold f xs st))"
proof (induction xs arbitrary: st)
  case (Cons x xs)
  show ?case using order_trans [OF assms Cons.IH] by simp
qed simp

text \<open>A successful sign-in answers the session whose control stream is up.\<close>

lemma auth_success_answers:
  assumes "sid \<in> set (sessions st)" "s_alive (objs st sid)" "s_control_stream (objs st sid) \<noteq> None"
  shows "Control sid AUTH_RESPONSE (auth_answer cfg e u) \<in> set (out (auth_success cfg e sid a u st))"
proof -
  define st3 where "st3 = signed_in e sid a u st"
  let ?f = "\<lambda>c st. if members (word_of_int (ch_id c)) st \<noteq> []
              then send_to sid CHANNEL_USER_LIST (user_list (word_of_int (ch_id c)) st) st else st"
  let ?st5 = "send_text_channel_list sid (send_channel_list sid (send_to sid AUTH_RESPONSE (auth_answer cfg e u) st3))"
  have "link sid st3 = link sid st" unfolding st3_def signed_in_def by (simp add: link_simps)
  then have mem: "Control sid AUTH_RESPONSE (auth_answer cfg e u) \<in> set (out (send_to sid AUTH_RESPONSE (auth_answer cfg e u) st3))"
    using assms by (simp add: link_def send_to_def Server_State.emit_def)
  have "Control sid AUTH_RESPONSE (auth_answer cfg e u) \<in> set (out ?st5)"
    unfolding send_text_channel_list_def send_channel_list_def Let_def
    by (rule subsetD [OF out_send_to], rule subsetD [OF out_send_to], rule mem)
  moreover have "set (out ?st5) \<subseteq> set (out (fold ?f (get_all_channels (db ?st5)) ?st5))"
    by (rule out_fold) (simp add: out_send_to)
  moreover have "auth_success cfg e sid a u st = fold ?f (get_all_channels (db ?st5)) ?st5"
    unfolding auth_success_def st3_def signed_in_def auth_answer_def Let_def by (simp add: upd_def)
  ultimately show ?thesis by auto
qed

text \<open>What the server does with a request it finds in order.\<close>

lemma handle_auth_accepts:
  assumes "\<not> s_authenticated (objs st sid)" "parse_auth p = Inr a" "\<bar>sint (unix_time e) - sint (ar_timestamp a)\<bar> \<le> 30"
    "check_auth cfg L (unix_time e) a (prune_recent (unix_time e) (recent_auth st)) = Inr ()"
    "login_user cfg (ar_pubkey a) (ar_name a) (public_key_fingerprint L (ar_pubkey a)) (unix_time e) (db st) = (Inr u, d)"
  shows "\<exists>r. handle_auth cfg L e sid p st = auth_success cfg e sid a u
     (fold (kick_duplicate sid (ar_pubkey a)) (sessions st) (st\<lparr>recent_auth := r, db := d\<rparr>))"
  using assms by (auto simp: handle_auth_def Let_def kAuthWindowSec_def)

lemma cstr_id: "0 \<notin> set name \<Longrightarrow> cstr name = name"
  by (auto simp: cstr_def takeWhile_eq_all_conv)

lemma login_name:
  assumes "login_user cfg pk name fp now d = (Inr u, d')" "0 \<notin> set name"
  shows "u_display_name u = name"
proof (cases "get_user_by_pubkey pk d")
  case None
  then have no: "List.find (\<lambda>u. u_public_key u = pk) (users d) = None" by (simp add: get_user_by_pubkey_def)
  have "List.find P (xs @ [y]) = (if P y then Some y else None)" if "List.find P xs = None" for P and xs :: "user_row list" and y
    using that by (induction xs) (auto split: if_splits)
  from this [OF no] show ?thesis
    using assms None cstr_id [OF assms(2)]
    by (auto simp: login_user_def Let_def create_user_def get_user_by_pubkey_def find_None_iff split: option.splits if_splits)
qed (use assms in \<open>auto simp: login_user_def Let_def split: if_splits\<close>)


text \<open>(C11) A sign-in in good order succeeds on both sides. A client with an identity sends one message; a server whose
  session is not signed in, whose clock is within 30 seconds of the client's, which has seen no newer
  sign-in of this key, has no password or the client's, and can load or create the account, marks the
  session as that account under the client's name and answers; and the answer makes the client signed
  in with the same user id, role and protocol version, whatever else is signed in with the key. Ed25519
  enters as: the signature is 64 bytes and verifies under the client's key.\<close>

theorem sign_in_completes:
  assumes "c_has_identity c" "length (c_public_key c) = 32" "string_fits (c_username c)" "string_fits (c_password c)"
    and "0 \<notin> set (c_username c)"
    and signature: "sign (client_signed_message (c_public_key c) (c_username c) t) = Some sig" "length sig = 64"
      "lib_verify L (client_signed_message (c_public_key c) (c_username c) t) sig (c_public_key c)"
    and session: "sid \<in> set (sessions st)" "s_alive (objs st sid)" "s_control_stream (objs st sid) \<noteq> None"
      "\<not> s_authenticated (objs st sid)"
    and clock: "\<bar>sint (unix_time e) - sint t\<bar> \<le> 30"
    and fresh: "list_all (\<lambda>(fp, seen). fp = public_key_fingerprint L (c_public_key c) \<longrightarrow> seen < t) (recent_auth st)"
    and password: "server_password cfg = [] \<or> server_password cfg = c_password c"
    and account: "login_user cfg (c_public_key c) (c_username c) (public_key_fingerprint L (c_public_key c)) (unix_time e) (db st)
        = (Inr u, d)"
    and "length (random_token e) = 32" "string_fits (cfg_server_name cfg)"
  shows "\<exists>p answer. c_out (send_auth_identity t sign c) = c_out c @ [Sent AUTH_IDENTITY p]
     \<and> (let st' = handle_auth cfg L e sid p st; c' = on_auth_response now answer (send_auth_identity t sign c)
        in s_authenticated (objs st' sid) \<and> s_username (objs st' sid) = c_username c
           \<and> s_public_key (objs st' sid) = c_public_key c \<and> s_version (objs st' sid) = PROTOCOL_VERSION
           \<and> Control sid AUTH_RESPONSE answer \<in> set (out st')
           \<and> c_auth c' \<and> c_user c' = s_user_id (objs st' sid) \<and> c_role c' = word_of_int (s_role (objs st' sid))
           \<and> c_version c' = PROTOCOL_VERSION \<and> c_server_name c' = cfg_server_name cfg)"
proof -
  define p where "p = auth_message (c_public_key c) (c_username c) t sig (c_password c)"
  obtain r where parsed: "parse_auth p = Inr \<lparr>ar_version = PROTOCOL_VERSION, ar_pubkey = c_public_key c,
      ar_name = c_username c, ar_timestamp = t, ar_signature = sig, ar_reader = r\<rparr>" and r: "ahead r (enc_string (c_password c))"
    using auth_message_parsed [of "c_public_key c" sig "c_username c" "c_password c" t] assms unfolding p_def by blast
  define a where "a = \<lparr>ar_version = PROTOCOL_VERSION, ar_pubkey = c_public_key c, ar_name = c_username c,
      ar_timestamp = t, ar_signature = sig, ar_reader = r\<rparr>"
  have "map_of (prune_recent (unix_time e) (recent_auth st)) (public_key_fingerprint L (c_public_key c)) = Some seen \<Longrightarrow> seen < t"
    for seen using fresh by (auto simp: prune_recent_def list_all_iff dest!: map_of_SomeD)
  moreover have "offered_password a = c_password c" using r assms(4) by (intro offered_password_sent) (simp_all add: a_def)
  ultimately have checked: "check_auth cfg L (unix_time e) a (prune_recent (unix_time e) (recent_auth st)) = Inr ()"
    unfolding check_auth_ok using signature(3) password by (auto simp: a_def signed_alike)
  obtain ra where st': "handle_auth cfg L e sid p st = auth_success cfg e sid a u
      (fold (kick_duplicate sid (c_public_key c)) (sessions st) (st\<lparr>recent_auth := ra, db := d\<rparr>))"
    using handle_auth_accepts [OF session(4) parsed [folded a_def] _ checked, of u d] clock account by (auto simp: a_def)
  let ?k = "fold (kick_duplicate sid (c_public_key c)) (sessions st) (st\<lparr>recent_auth := ra, db := d\<rparr>)"
  have "link sid ?k = link sid st" by (simp add: link_kicks link_simps)
  then have live: "sid \<in> set (sessions ?k)" "s_alive (objs ?k sid)" "s_control_stream (objs ?k sid) \<noteq> None"
    using session by (simp_all add: link_def)
  have "s_username (objs (auth_success cfg e sid a u ?k) sid) = u_display_name u"
    "s_version (objs (auth_success cfg e sid a u ?k) sid) = ar_version a"
    using strip_eqD(4,8) [OF core_eqD(10) [OF core_auth_success [of cfg e sid a u ?k], of sid]]
    by (simp_all add: signed_in_def upd_def)
  moreover note login_name [OF account assms(5)] auth_success_badges(3-6) [of cfg e sid a u ?k sid] auth_success_answers [OF live]
  moreover have "c_out (send_auth_identity t sign c) = c_out c @ [Sent AUTH_IDENTITY p]"
    using assms(1) signature(1) by (simp add: send_auth_identity_def say_def p_def)
  moreover have "ar_pubkey a = c_public_key c" "ar_version a = PROTOCOL_VERSION" by (simp_all add: a_def)
  moreover note auth_answer_taken [of e cfg now u "send_auth_identity t sign c", OF assms(17,18)]
  ultimately show ?thesis
    by (intro exI [where x = p] exI [where x = "auth_answer cfg e u"]) (simp add: st' Let_def)
qed


definition demo_caller :: client where
  "demo_caller = (new_client demo_pf)\<lparr>c_has_identity := True, c_public_key := replicate 32 9, c_username := str ''ann''\<rparr>"

definition demo_link :: srv where
  "demo_link = snd (on_bidi_stream 1 0 (on_new_connection True (empty_srv create_schema)))"

lemma demo_caller_fields:
  "c_has_identity demo_caller" "c_public_key demo_caller = replicate 32 9" "c_username demo_caller = str ''ann''"
  "c_password demo_caller = []"
  by (simp_all add: demo_caller_def new_client_def blank_client_def)

lemma demo_link_ready:
  "1 \<in> set (sessions demo_link) \<and> s_alive (objs demo_link 1) \<and> s_control_stream (objs demo_link 1) \<noteq> None
   \<and> \<not> s_authenticated (objs demo_link 1) \<and> recent_auth demo_link = []" by code_simp

lemma demo_account:
  "\<exists>u d. login_user demo_cfg (replicate 32 9) (str ''ann'') (public_key_fingerprint demo_libs (replicate 32 9))
      (unix_time Server_Reach.demo_env) (db demo_link) = (Inr u, d)"
proof -
  have "\<not> isl (fst (login_user demo_cfg (replicate 32 9) (str ''ann'') (public_key_fingerprint demo_libs (replicate 32 9))
      (unix_time Server_Reach.demo_env) (db demo_link)))" by code_simp
  then show ?thesis by (metis isl_def prod.collapse sum.exhaust)
qed

theorem sign_in_completes_witness:
  "\<exists>p answer. c_out (send_auth_identity 1700000000 (\<lambda>_. Some (replicate 64 1)) demo_caller) = c_out demo_caller @ [Sent AUTH_IDENTITY p]
     \<and> s_authenticated (objs (handle_auth demo_cfg demo_libs Server_Reach.demo_env 1 p demo_link) 1)
     \<and> c_auth (on_auth_response 7 answer (send_auth_identity 1700000000 (\<lambda>_. Some (replicate 64 1)) demo_caller))
     \<and> c_user (on_auth_response 7 answer (send_auth_identity 1700000000 (\<lambda>_. Some (replicate 64 1)) demo_caller))
         = s_user_id (objs (handle_auth demo_cfg demo_libs Server_Reach.demo_env 1 p demo_link) 1)"
proof -
  obtain u d where acc: "login_user demo_cfg (replicate 32 9) (str ''ann'') (public_key_fingerprint demo_libs (replicate 32 9))
      (unix_time Server_Reach.demo_env) (db demo_link) = (Inr u, d)" using demo_account by blast
  have small: "string_fits (str ''ann'')" "0 \<notin> set (str ''ann'')" "string_fits (cfg_server_name demo_cfg)"
    by (simp_all add: string_fits_def str_def demo_cfg_def)
  have "\<exists>p answer. c_out (send_auth_identity 1700000000 (\<lambda>_. Some (replicate 64 1)) demo_caller) = c_out demo_caller @ [Sent AUTH_IDENTITY p]
     \<and> (let st' = handle_auth demo_cfg demo_libs Server_Reach.demo_env 1 p demo_link;
            c' = on_auth_response 7 answer (send_auth_identity 1700000000 (\<lambda>_. Some (replicate 64 1)) demo_caller)
        in s_authenticated (objs st' 1) \<and> s_username (objs st' 1) = c_username demo_caller
           \<and> s_public_key (objs st' 1) = c_public_key demo_caller \<and> s_version (objs st' 1) = PROTOCOL_VERSION
           \<and> Control 1 AUTH_RESPONSE answer \<in> set (out st')
           \<and> c_auth c' \<and> c_user c' = s_user_id (objs st' 1) \<and> c_role c' = word_of_int (s_role (objs st' 1))
           \<and> c_version c' = PROTOCOL_VERSION \<and> c_server_name c' = cfg_server_name demo_cfg)"
    by (rule sign_in_completes [where L = demo_libs and e = Server_Reach.demo_env and cfg = demo_cfg and u = u and d = d
          and sig = "replicate 64 1"])
      (use acc demo_link_ready small in \<open>simp_all add: demo_caller_fields string_fits_def demo_libs_def
         Server_Reach.demo_env_def demo_cfg_def\<close>)
  then show ?thesis by (auto simp: Let_def)
qed

end
