(* ===== verification/Client_Room.thy ===== *)
theory Client_Room
  imports Client_Server
begin

text \<open>
  A channel as its members see it: the roster the server writes (\<open>send_channel_user_list\<close> and the lists after a
  sign-in) is the roster the client shows, and a spoken packet is played by exactly the listeners.
\<close>

section \<open>The roster\<close>

definition enc_member :: "session \<Rightarrow> bytes" where
  "enc_member s = le32 (s_user_id s) @ enc_string (s_username s) @
     [word_of_int (s_role s), flag8 (s_muted s), flag8 (s_deafened s)]"

lemma user_list_enc: "user_list ch st = le32 ch @ le32 (of_nat (length (members ch st))) @ concat (map enc_member (members ch st))"
proof -
  have "fold write_member ms buf = buf @ concat (map enc_member ms)" for ms buf
    by (induction ms arbitrary: buf) (simp_all add: write_member_def enc_member_def writer_defs enc_string_def)
  then show ?thesis by (simp add: user_list_def writer_defs)
qed

definition member_row :: "session \<Rightarrow> u32 \<times> bytes \<times> u8 \<times> u8 \<times> u8" where
  "member_row s = (s_user_id s, s_username s, word_of_int (s_role s), flag8 (s_muted s), flag8 (s_deafened s))"

lemma rows_read:
  assumes "list_all (\<lambda>s. string_fits (s_username s)) ms" "ahead r (concat (map enc_member ms))"
  shows "read_user_rows (length ms) r = map member_row ms"
  using assms
proof (induction ms arbitrary: r)
  case (Cons s ms)
  let ?rest = "concat (map enc_member ms)"
  have "ahead r (le32 (s_user_id s) @ enc_string (s_username s) @
      word_of_int (s_role s) # flag8 (s_muted s) # flag8 (s_deafened s) # ?rest)"
    using Cons.prems by (simp add: enc_member_def [of s])
  then obtain r1 where 1: "read_u32 r = (s_user_id s, r1)" "ahead r1 (enc_string (s_username s) @
      word_of_int (s_role s) # flag8 (s_muted s) # flag8 (s_deafened s) # ?rest)" using ahead_u32 by blast
  then obtain r2 where 2: "read_string r1 = (s_username s, r2)"
    "ahead r2 (word_of_int (s_role s) # flag8 (s_muted s) # flag8 (s_deafened s) # ?rest)"
    using ahead_string [OF 1(2)] Cons.prems(1) by auto
  then obtain r3 where 3: "read_u8 r2 = (word_of_int (s_role s), r3)" "ahead r3 (flag8 (s_muted s) # flag8 (s_deafened s) # ?rest)"
    using ahead_u8 by blast
  then obtain r4 where 4: "read_u8 r3 = (flag8 (s_muted s), r4)" "ahead r4 (flag8 (s_deafened s) # ?rest)" using ahead_u8 by blast
  then obtain r5 where 5: "read_u8 r4 = (flag8 (s_deafened s), r5)" "ahead r5 ?rest" using ahead_u8 by blast
  then show ?case using 1(1) 2(1) 3(1) 4(1) 5 Cons by (simp add: member_row_def)
qed simp

text \<open>The members a client shows for a channel.\<close>

definition shown_members :: "u32 \<Rightarrow> client \<Rightarrow> (u32 \<times> bytes \<times> u8) list option" where
  "shown_members ch c = map_option (\<lambda>x. map (\<lambda>y. (cu_id y, cu_name y, cu_role y)) (ci_users x))
     (List.find (\<lambda>x. ci_id x = ch) (c_channels c))"

lemma find_on_channel:
  assumes "\<And>x. ci_id (f x) = ci_id x"
  shows "List.find (\<lambda>x. ci_id x = ch) (on_channel d f chs) =
    (if ch = d then map_option f (List.find (\<lambda>x. ci_id x = ch) chs) else List.find (\<lambda>x. ci_id x = ch) chs)"
  unfolding on_channel_def by (induction chs) (auto simp: assms)

lemma shown_on_channel:
  "(\<And>x. ci_id (f x) = ci_id x) \<Longrightarrow> (\<And>x. d = ch \<Longrightarrow> map (\<lambda>y. (cu_id y, cu_name y, cu_role y)) (ci_users (f x)) =
      map (\<lambda>y. (cu_id y, cu_name y, cu_role y)) (ci_users x))
   \<Longrightarrow> shown_members ch (c\<lparr>c_channels := on_channel d f (c_channels c)\<rparr>) = shown_members ch c"
  by (auto simp: shown_members_def find_on_channel option.map_comp comp_def)

lemma shown_cong: "c_channels c' = c_channels c \<Longrightarrow> shown_members ch c' = shown_members ch c"
  by (simp add: shown_members_def)

lemma shown_map_users:
  assumes "\<And>y. (cu_id (f y), cu_name (f y), cu_role (f y)) = (cu_id y, cu_name y, cu_role y)"
  shows "shown_members ch (c\<lparr>c_channels := map_users f (c_channels c)\<rparr>) = shown_members ch c"
proof -
  have "List.find (\<lambda>x. ci_id x = ch) (map_users f chs) =
      map_option (\<lambda>x. x\<lparr>ci_users := map f (ci_users x)\<rparr>) (List.find (\<lambda>x. ci_id x = ch) chs)" for chs
    by (induction chs) (auto simp: map_users_def)
  then show ?thesis using assms by (simp add: shown_members_def option.map_comp comp_def)
qed

lemma channels_rebuild [simp]: "c_channels (rebuild_watched_model c) = c_channels c"
  by (simp add: rebuild_watched_model_def Let_def)

lemma channels_watch [simp]: "c_channels (remove_watch s c) = c_channels c" "c_user (remove_watch s c) = c_user c"
  by (simp_all add: remove_watch_def Let_def watching_defs refocus_stream_audio_def split: list.split)

lemma channels_camera [simp]: "c_channels (stop_camera tell sent c) = c_channels c" "c_user (stop_camera tell sent c) = c_user c"
  by (simp_all add: stop_camera_def end_camera_def Let_def say_def)

lemma channels_shares [simp]: "c_channels (stop_shares c) = c_channels c" "c_user (stop_shares c) = c_user c"
  by (simp_all add: stop_shares_def Let_def say_def)

lemma shown_clear: "shown_members ch (clear_all_sharers c) = shown_members ch c"
proof -
  have "shown_members ch (clear_all_sharers c) =
      shown_members ch (c\<lparr>c_channels := map_users (\<lambda>x. x\<lparr>cu_streaming := False, cu_camera_on := False\<rparr>) (c_channels c)\<rparr>)"
    by (rule shown_cong) (simp add: clear_all_sharers_def clear_channel_sharers_def Let_def watching_defs)
  then show ?thesis by (simp add: shown_map_users)
qed

lemma shown_switch: "shown_members ch (switch_cleanup sent c) = shown_members ch c"
  unfolding switch_cleanup_def shown_clear by (rule shown_cong) simp

lemma shown_seat: "shown_members ch (take_seat ch c) = shown_members ch c"
proof -
  let ?c1 = "if c_channel c \<noteq> 0 \<and> c_channel c \<noteq> ch
    then c\<lparr>c_channels := on_channel (c_channel c) (drop_member (c_user c)) (c_channels c)\<rparr> else c"
  have 1: "shown_members ch ?c1 = shown_members ch c"
    using shown_on_channel [of "drop_member (c_user c)" "c_channel c" ch c] by (auto simp: drop_member_def Let_def)
  have 2: "shown_members ch (?c1\<lparr>c_channels := on_channel ch (\<lambda>x. x\<lparr>ci_users := map (own_voice k) (ci_users x)\<rparr>) (c_channels ?c1)\<rparr>)
      = shown_members ch ?c1" for k
    by (rule shown_on_channel) (simp_all add: own_voice_def)
  have 3: "c_channels (take_seat ch c) = c_channels ?c1 \<or>
      (\<exists>k. c_channels (take_seat ch c) = on_channel ch (\<lambda>x. x\<lparr>ci_users := map (own_voice k) (ci_users x)\<rparr>) (c_channels ?c1))"
    unfolding take_seat_def Let_def by (auto simp: says_eq say_def send_voice_state_def split: option.split)
  show ?thesis
  proof (cases "c_channels (take_seat ch c) = c_channels ?c1")
    case False
    then obtain k where "c_channels (take_seat ch c) = on_channel ch (\<lambda>x. x\<lparr>ci_users := map (own_voice k) (ci_users x)\<rparr>) (c_channels ?c1)"
      using 3 by blast
    then have "shown_members ch (take_seat ch c) = shown_members ch (?c1\<lparr>c_channels :=
        on_channel ch (\<lambda>x. x\<lparr>ci_users := map (own_voice k) (ci_users x)\<rparr>) (c_channels ?c1)\<rparr>)" by (intro shown_cong) simp
    then show ?thesis using 1 2 by simp
  qed (use 1 shown_cong in metis)
qed

text \<open>(C32) The roster arrives: when the server sends the members of a channel, the client, whatever it was doing (looking
  at the channel, joining it, or switching to it from another), shows for that channel exactly those
  members, with their names and roles and in the server's order.\<close>

theorem roster_arrives:
  assumes "ch \<in> set (map ci_id (c_channels c))" "list_all (\<lambda>s. string_fits (s_username s)) (members ch st)"
    and "length (members ch st) < 2 ^ 32"
  shows "shown_members ch (on_channel_user_list sent (user_list ch st) c)
     = Some (map (\<lambda>s. (s_user_id s, s_username s, word_of_int (s_role s))) (members ch st))"
proof -
  let ?ms = "members ch st" and ?d = "user_list ch st"
  obtain r1 where 1: "read_u32 (new_reader ?d) = (ch, r1)" "ahead r1 (le32 (of_nat (length ?ms)) @ concat (map enc_member ?ms))"
    using ahead_u32 ahead_new [of ?d] unfolding user_list_enc by blast
  then obtain r2 where 2: "read_u32 r1 = (of_nat (length ?ms), r2)" "ahead r2 (concat (map enc_member ?ms))" using ahead_u32 by blast
  define us where "us = map (\<lambda>(u, name, rl, m, dd). new_member u name rl (m \<noteq> 0) (dd \<noteq> 0) (ch = c_channel c \<and> is_sharer u c))
      (map member_row ?ms)"
  define c1 where "c1 = c\<lparr>c_channels := on_channel ch (\<lambda>x. x\<lparr>ci_users := us, ci_count := int (length us)\<rparr>) (c_channels c)\<rparr>"
  have n: "unat (of_nat (length ?ms) :: u32) = length ?ms" using assms(3) by (simp add: unat_of_nat take_bit_nat_eq_self_iff)
  have eq: "on_channel_user_list sent ?d c = (if c_awaiting_join c1 \<and> c_pending_channel c1 = ch
      then take_seat ch (if c_channel c1 \<noteq> ch then switch_cleanup sent (c1\<lparr>c_awaiting_join := False\<rparr>) else c1\<lparr>c_awaiting_join := False\<rparr>)
      else c1)"
    using 1(1) 2 n rows_read [OF assms(2) 2(2)] by (simp add: on_channel_user_list_def us_def c1_def Let_def)
  have "shown_members ch (c1\<lparr>c_awaiting_join := False\<rparr>) = shown_members ch c1" by (rule shown_cong) simp
  then have "shown_members ch (on_channel_user_list sent ?d c) = shown_members ch c1"
    unfolding eq by (simp add: shown_seat shown_switch)
  moreover have "shown_members ch c1 = Some (map (\<lambda>y. (cu_id y, cu_name y, cu_role y)) us)"
  proof (cases "List.find (\<lambda>x. ci_id x = ch) (c_channels c)")
    case None
    then show ?thesis using assms(1) by (auto simp: find_None_iff)
  next
    case (Some x)
    then show ?thesis by (simp add: c1_def shown_members_def find_on_channel)
  qed
  ultimately show ?thesis by (simp add: us_def member_row_def new_member_def)
qed


definition demo_guest :: client where
  "demo_guest = (new_client demo_pf)\<lparr>c_channels := [\<lparr>ci_id = 1, ci_name = [], ci_count = 0, ci_max = 0, ci_users = []\<rparr>]\<rparr>"

lemma demo_room_members: "map (\<lambda>s. (s_user_id s, s_username s)) (members 1 demo_room) = [(1, str ''ann''), (2, str ''ann'')]"
  by code_simp

theorem roster_arrives_witness:
  "map_option (map (\<lambda>(u, name, rl). (u, name))) (shown_members 1 (on_channel_user_list True (user_list 1 demo_room) demo_guest))
     = Some [(1, str ''ann''), (2, str ''ann'')]"
proof -
  have "list_all (\<lambda>(u, name). string_fits name) (map (\<lambda>s. (s_user_id s, s_username s)) (members 1 demo_room))"
    unfolding demo_room_members by (simp add: string_fits_def)
  then have "list_all (\<lambda>s. string_fits (s_username s)) (members 1 demo_room)" by (simp add: list_all_iff)
  moreover have "length (members 1 demo_room) = 2" using arg_cong [OF demo_room_members, of length] by simp
  ultimately have "shown_members 1 (on_channel_user_list True (user_list 1 demo_room) demo_guest)
      = Some (map (\<lambda>s. (s_user_id s, s_username s, word_of_int (s_role s))) (members 1 demo_room))"
    by (intro roster_arrives) (simp_all add: demo_guest_def)
  then show ?thesis using demo_room_members by (simp add: comp_def)
qed

section \<open>Voice\<close>

lemma of_le16_rest: "of_le16 (le16 v) = v"
  using of_le16_le16 [of v "[]"] by simp

lemma voice_played:
  assumes "u \<noteq> c_user c" "opus \<noteq> []"
  shows "c_out (on_data_received now (VOICE_PACKET_TYPE # le32 u @ le16 seq @ opus) c) = c_out c @ [MixerPush u seq opus]"
proof -
  have "drop 5 (VOICE_PACKET_TYPE # le32 u @ le16 seq @ opus) = le16 seq @ opus"
    "drop 7 (VOICE_PACKET_TYPE # le32 u @ le16 seq @ opus) = opus"
    "drop 1 (VOICE_PACKET_TYPE # le32 u @ le16 seq @ opus) = le32 u @ le16 seq @ opus"
    by (simp_all add: drop_Cons')
  moreover have "length opus \<ge> 1" using assms(2) by (cases opus) auto
  ultimately show ?thesis using assms by (simp add: on_data_received_def Let_def say_def)
qed

text \<open>(C10) A spoken packet is heard by exactly the listeners, in their mixers: a client in a channel that is not muted
  sends one datagram; the server, in any state it reaches, puts it into its queue and hands it to each
  session that is signed in, in the speaker's channel, not deafened, not the speaker and whose datagram
  queue admits it, and to nobody else; and each receiving client of another user plays the same Opus data
  under the speaker's user id and the sequence number the speaker gave it.\<close>

theorem voice_end_to_end:
  assumes "server_reach cfg L st" "get_session i st = Some s" "s_authenticated s" "s_channel s \<noteq> 0"
    and "\<not> s_muted s" "\<not> s_deafened s" and "c_auth a" "c_channel a \<noteq> 0" and "opus \<noteq> []"
  shows "\<exists>sent d. c_out (on_encoded_frame False opus a) = c_out a @ [SentData sent]
     \<and> data_incoming (on_datagram i sent tr) = data_incoming tr @ [\<lparr>dp_session = i, dp_type = hd sent, dp_data = tl sent\<rparr>]
     \<and> out (process_data_packet e \<lparr>dp_session = i, dp_type = hd sent, dp_data = tl sent\<rparr> st) = out st @
         map (\<lambda>j. Datagram j d True) (filter (\<lambda>j. j \<noteq> i \<and> s_authenticated (objs st j) \<and> s_channel (objs st j) = s_channel s
           \<and> \<not> s_deafened (objs st j) \<and> takes e st j) (sessions st))
     \<and> (\<forall>b. c_user b \<noteq> s_user_id s \<longrightarrow> c_out (on_data_received now d b) = c_out b @ [MixerPush (s_user_id s) (c_voice_seq a) opus])"
proof -
  define sent where "sent = VOICE_PACKET_TYPE # le16 (c_voice_seq a) @ opus"
  let ?pkt = "\<lparr>dp_session = i, dp_type = hd sent, dp_data = tl sent\<rparr>"
  have "c_out (on_encoded_frame False opus a) = c_out a @ [SentData sent]"
    using assms(7,8) by (simp add: on_encoded_frame_def say_def sent_def)
  moreover have "data_incoming (on_datagram i sent tr) = data_incoming tr @ [?pkt]" by (simp add: on_datagram_def sent_def)
  moreover note voice_reaches_listeners [OF assms(1), of ?pkt s e]
  moreover have "VOICE_PACKET_TYPE # le32 (s_user_id s) @ tl sent
      = VOICE_PACKET_TYPE # le32 (s_user_id s) @ le16 (c_voice_seq a) @ opus" by (simp add: sent_def)
  ultimately show ?thesis using assms(2-6,9) voice_played [where seq = "c_voice_seq a" and u = "s_user_id s" and opus = opus]
    by (intro exI [where x = sent] exI [where x = "VOICE_PACKET_TYPE # le32 (s_user_id s) @ tl sent"])
      (auto simp: sent_def)
qed

definition demo_speaker :: client where
  "demo_speaker = (new_client demo_pf)\<lparr>c_auth := True, c_channel := 1, c_voice_seq := 40\<rparr>"

theorem voice_end_to_end_witness:
  "\<exists>sent d. c_out (on_encoded_frame False [7, 7] demo_speaker) = c_out demo_speaker @ [SentData sent]
     \<and> out (process_data_packet Server_Reach.demo_env \<lparr>dp_session = 1, dp_type = hd sent, dp_data = tl sent\<rparr> demo_room) = out demo_room @ [Datagram 2 d True]
     \<and> c_out (on_data_received 0 d (demo_speaker\<lparr>c_user := 2\<rparr>)) = c_out demo_speaker @ [MixerPush 1 40 [7, 7]]"
proof -
  have a: "c_auth demo_speaker" "c_channel demo_speaker \<noteq> 0" "c_voice_seq demo_speaker = 40"
    by (simp_all add: demo_speaker_def)
  have g: "get_session 1 demo_room = Some (objs demo_room 1)" by (simp add: get_session_def demo_room_facts)
  from voice_end_to_end [OF demo_room_reach g demo_room_facts(2), of demo_speaker "[7, 7]" new_transport Server_Reach.demo_env 0]
  obtain sent d where
    "c_out (on_encoded_frame False [7, 7] demo_speaker) = c_out demo_speaker @ [SentData sent]"
    "out (process_data_packet Server_Reach.demo_env \<lparr>dp_session = 1, dp_type = hd sent, dp_data = tl sent\<rparr> demo_room) = out demo_room @
       map (\<lambda>j. Datagram j d True) (filter (\<lambda>j. j \<noteq> 1 \<and> s_authenticated (objs demo_room j) \<and> s_channel (objs demo_room j) = s_channel (objs demo_room 1)
           \<and> \<not> s_deafened (objs demo_room j) \<and> takes Server_Reach.demo_env demo_room j) (sessions demo_room))"
    "\<forall>b. c_user b \<noteq> s_user_id (objs demo_room 1) \<longrightarrow>
       c_out (on_data_received 0 d b) = c_out b @ [MixerPush (s_user_id (objs demo_room 1)) (c_voice_seq demo_speaker) [7, 7]]"
    using a demo_room_facts by auto
  then show ?thesis using demo_room_facts a by (auto intro!: exI [where x = sent] exI [where x = d])
qed

end
