(* ===== verification/Client_Reconnect.thy ===== *)
theory Client_Reconnect
  imports Client_Server
begin

text \<open>
  Coming back after a lost connection: a client whose sessions keep dropping right after sign-in stops
  reconnecting, and one that was removed or replaced does not come back. The counter of short
  sessions is touched by nothing but the end of a session (collection \<open>flap_simps\<close>).
\<close>

named_theorems flap_simps "operations that leave the counter of short sessions alone"

lemma flaps_rx [flap_simps]: "c_flaps (rx_do op c) = c_flaps c"
  by (simp add: rx_do_eq)

lemma flaps_say [flap_simps]: "c_flaps (say x c) = c_flaps c" "c_flaps (fold (\<lambda>s. say (f s)) ss c) = c_flaps c"
  by (simp_all add: say_def says_eq)

lemma flaps_watch [flap_simps]:
  "c_flaps (rebuild_watched_model c) = c_flaps c" "c_flaps (show_voice_channel ch c) = c_flaps c"
  "c_flaps (stop_streams ss c) = c_flaps c" "c_flaps (open_video_rx now s c) = c_flaps c"
  by (simp_all add: rebuild_watched_model_def show_voice_channel_def stop_streams_eq open_video_rx_def flap_simps Let_def)

lemma flaps_watch_ops [flap_simps]:
  "c_flaps (stop_watching c) = c_flaps c" "c_flaps (watch_single now s c) = c_flaps c" "c_flaps (watch_more now s c) = c_flaps c"
  "c_flaps (remove_watch s c) = c_flaps c" "c_flaps (set_single_watched now s c) = c_flaps c" "c_flaps (clear_all_sharers c) = c_flaps c"
  by (simp_all add: stop_watching_def watch_single_def watch_more_def remove_watch_def set_single_watched_def clear_all_sharers_def
      clear_channel_sharers_def refocus_stream_audio_def Let_def flap_simps split: list.split)

lemma flaps_watch_actions [flap_simps]:
  "c_flaps (add_watch now s c) = c_flaps c" "c_flaps (watch_sharer now s c) = c_flaps c" "c_flaps (toggle_watch now s c) = c_flaps c"
  "c_flaps (watch_user now u c) = c_flaps c" "c_flaps (forget_stream s c) = c_flaps c" "c_flaps (snd (add_channel_sharer s c)) = c_flaps c"
  by (simp_all add: add_watch_def watch_sharer_def toggle_watch_def watch_user_def forget_stream_def remove_channel_sharer_def
      add_channel_sharer_def Let_def flap_simps split: option.split)

lemma flaps_media [flap_simps]:
  "c_flaps (set_sender source x c) = c_flaps c" "c_flaps (reset_video_sender source bps c) = c_flaps c"
  "c_flaps (end_camera tell sent c) = c_flaps c"
  by (simp_all add: set_sender_def reset_video_sender_def end_camera_def Let_def flap_simps)

lemma flaps_camera [flap_simps]:
  "c_flaps (stop_camera tell sent c) = c_flaps c" "c_flaps (camera_failed reason sent c) = c_flaps c"
  "c_flaps (restart_camera c) = c_flaps c"
  by (simp_all add: stop_camera_def camera_failed_def restart_camera_def Let_def flap_simps)

lemma flaps_camera_ops [flap_simps]:
  "c_flaps (start_camera names saved started c) = c_flaps c" "c_flaps (camera_started sent c) = c_flaps c"
  by (simp_all add: start_camera_def camera_started_def refresh_camera_devices_def Let_def flap_simps)

lemma flaps_session [flap_simps]:
  "c_flaps (cancel_reconnect c) = c_flaps c" "c_flaps (schedule_attempt now c) = c_flaps c" "c_flaps (set_rights r c) = c_flaps c"
  "c_flaps (sync_camera_supported c) = c_flaps c" "c_flaps (send_auth_identity t sign c) = c_flaps c"
  "c_flaps (stop_shares c) = c_flaps c" "c_flaps (send_voice_state c) = c_flaps c" "c_flaps (join_channel ch c) = c_flaps c"
  by (simp_all add: cancel_reconnect_def schedule_attempt_def set_rights_def sync_camera_supported_def send_auth_identity_def
      stop_shares_def send_voice_state_def join_channel_def Let_def flap_simps split: option.split)

lemma flaps_connecting [flap_simps]:
  "c_flaps (disconnect_intentionally c) = c_flaps c" "c_flaps (attempt_reconnect now saved ok c) = c_flaps c"
  "c_flaps (finish_connect fp verdict t sign c) = c_flaps c" "c_flaps (poll_connecting now failed up fp verdict t sign c) = c_flaps c"
  by (simp_all add: disconnect_intentionally_def attempt_reconnect_def finish_connect_def poll_connecting_def Let_def
      case_prod_unfold flap_simps split: option.split)

lemma flaps_connect [flap_simps]:
  "c_flaps (do_connect name password state ok fp verdict t sign c) = c_flaps c"
  "c_flaps (Client_leave_channel tell sent c) = c_flaps c" "c_flaps (on_auth_response now d c) = c_flaps c"
  "c_flaps (switch_cleanup sent c) = c_flaps c" "c_flaps (take_seat ch c) = c_flaps c" "c_flaps (drop_session c) = c_flaps c"
  by (simp_all add: do_connect_def Client_leave_channel_def on_auth_response_def switch_cleanup_def take_seat_def drop_session_def
      Let_def case_prod_unfold flap_simps split: option.split link_state.split)

lemma flaps_messages [flap_simps]:
  "c_flaps (on_channel_list d c) = c_flaps c" "c_flaps (on_channel_user_list sent d c) = c_flaps c"
  "c_flaps (on_user_joined d c) = c_flaps c" "c_flaps (on_user_left d c) = c_flaps c" "c_flaps (on_user_voice_state d c) = c_flaps c"
  "c_flaps (on_user_role_changed d c) = c_flaps c" "c_flaps (on_screen_share_started now d c) = c_flaps c"
  "c_flaps (on_screen_share_stopped d c) = c_flaps c" "c_flaps (on_screen_share_denied c) = c_flaps c"
  "c_flaps (on_screen_share_viewer d c) = c_flaps c" "c_flaps (on_admin_result d c) = c_flaps c" "c_flaps (on_server_error d c) = c_flaps c"
  by (simp_all add: on_channel_list_def on_channel_user_list_def on_user_joined_def on_user_left_def on_user_voice_state_def
      on_user_role_changed_def on_screen_share_started_def on_screen_share_stopped_def on_screen_share_denied_def
      on_screen_share_viewer_def on_admin_result_def on_server_error_def remove_channel_sharer_def Let_def case_prod_unfold flap_simps)

lemma flaps_message [flap_simps]: "c_flaps (handle_server_message e m c) = c_flaps c"
proof -
  obtain ty d where "m = (ty, d)" by fastforce
  then show ?thesis by (cases ty) (simp_all add: flap_simps)
qed

lemma flaps_process [flap_simps]: "c_flaps (process_server_messages e ms c) = c_flaps c"
  unfolding process_server_messages_def by (induction ms arbitrary: c) (simp_all add: flap_simps)

lemma flaps_media_ops [flap_simps]:
  "c_flaps (on_keyframe_request now source c) = c_flaps c" "c_flaps (on_data_received now d c) = c_flaps c"
  "c_flaps (tick_ping now c) = c_flaps c" "c_flaps (tick_video e st c) = c_flaps c"
  "c_flaps (fst (snd (Client_Media.send_video_frame source encoded key w h cdc now stream ok (c, n)))) = c_flaps c"
  by (simp_all add: on_keyframe_request_def on_data_received_def tick_ping_def tick_video_def tick_senders_def
      feed_video_sender_stats_def Client_Media.send_video_frame_def next_seq_def undo_charge_def Let_def case_prod_unfold flap_simps)

lemma quiet_flaps: "quiet_step c c' \<Longrightarrow> c_flaps c' = c_flaps c"
  by (induction rule: quiet_step.induct)
    (simp_all add: flap_simps on_video_stream_header_def route_video_stream_frame_def route_video_stream_aborted_def send_pli_def
      set_video_target_bitrate_def video_admit_frame_def take_video_bitrate_update_def take_video_keyframe_request_def
      on_video_bytes_completed_def send_video_stream_update_def on_encoded_frame_def on_secondary_encoded_frame_def
      toggle_mute_def toggle_deafen_def own_members_def toggle_camera_def ask_create_channel_def Client_delete_channel_def
      Client_rename_channel_def ask_set_role_def ask_kick_def cancel_login_def tofu_accept_def tofu_reject_def save_identity_def
      restore_identity_def import_key_def save_global_name_def connect_server_def Let_def case_prod_unfold split: option.split)


section \<open>What a session's fate depends on\<close>

text \<open>Whether the client is signed in, meant to go, or is coming back, and to which server: watching, publishing and
  the roster leave it alone.\<close>

definition fate :: "client \<Rightarrow> _" where
  "fate c = (c_auth c, c_intentional c, c_reconnecting c, c_server_id c, c_auth_time c)"

named_theorems fate_fields "operations that leave the fate of the session alone, field by field"

lemma fate_rx: "fate (rx_do op c) = fate c"
  by (simp add: fate_def rx_do_eq)

lemmas fate_rx_fields [fate_fields] = fate_rx [unfolded fate_def prod.inject]

lemma fate_say: "fate (say x c) = fate c" "fate (fold (\<lambda>s. say (f s)) ss c) = fate c"
  by (simp_all add: fate_def say_def says_eq)

lemmas fate_say_fields [fate_fields] = fate_say [unfolded fate_def prod.inject]

lemma fate_watch:
  "fate (rebuild_watched_model c) = fate c" "fate (show_voice_channel ch c) = fate c"
  "fate (stop_streams ss c) = fate c" "fate (open_video_rx now s c) = fate c"
  by (simp_all add: rebuild_watched_model_def show_voice_channel_def stop_streams_eq open_video_rx_def fate_fields fate_def Let_def)

lemmas fate_watch_fields [fate_fields] = fate_watch [unfolded fate_def prod.inject]

lemma fate_watch_ops:
  "fate (stop_watching c) = fate c" "fate (watch_single now s c) = fate c" "fate (watch_more now s c) = fate c"
  "fate (remove_watch s c) = fate c" "fate (set_single_watched now s c) = fate c" "fate (clear_all_sharers c) = fate c"
  by (simp_all add: stop_watching_def watch_single_def watch_more_def remove_watch_def set_single_watched_def clear_all_sharers_def
      clear_channel_sharers_def refocus_stream_audio_def Let_def fate_fields fate_def split: list.split)

lemmas fate_watch_ops_fields [fate_fields] = fate_watch_ops [unfolded fate_def prod.inject]

lemma fate_watch_actions:
  "fate (add_watch now s c) = fate c" "fate (watch_sharer now s c) = fate c" "fate (toggle_watch now s c) = fate c"
  "fate (watch_user now u c) = fate c" "fate (forget_stream s c) = fate c" "fate (snd (add_channel_sharer s c)) = fate c"
  by (simp_all add: add_watch_def watch_sharer_def toggle_watch_def watch_user_def forget_stream_def remove_channel_sharer_def
      add_channel_sharer_def Let_def fate_fields fate_def split: option.split)

lemmas fate_watch_actions_fields [fate_fields] = fate_watch_actions [unfolded fate_def prod.inject]

lemma fate_media:
  "fate (set_sender source x c) = fate c" "fate (reset_video_sender source bps c) = fate c"
  "fate (end_camera tell sent c) = fate c"
  by (simp_all add: set_sender_def reset_video_sender_def end_camera_def Let_def fate_fields fate_def)

lemmas fate_media_fields [fate_fields] = fate_media [unfolded fate_def prod.inject]

lemma fate_camera:
  "fate (stop_camera tell sent c) = fate c" "fate (camera_failed reason sent c) = fate c"
  "fate (restart_camera c) = fate c"
  by (simp_all add: stop_camera_def camera_failed_def restart_camera_def Let_def fate_fields fate_def)

lemmas fate_camera_fields [fate_fields] = fate_camera [unfolded fate_def prod.inject]

lemma fate_session:
  "fate (stop_shares c) = fate c" "fate (send_voice_state c) = fate c" "fate (set_rights r c) = fate c"
  "fate (sync_camera_supported c) = fate c" "fate (join_channel ch c) = fate c"
  by (simp_all add: stop_shares_def send_voice_state_def set_rights_def sync_camera_supported_def join_channel_def Let_def
      fate_fields fate_def)

lemmas fate_session_fields [fate_fields] = fate_session [unfolded fate_def prod.inject]

lemma fate_rooms:
  "fate (Client_leave_channel tell sent c) = fate c" "fate (switch_cleanup sent c) = fate c" "fate (take_seat ch c) = fate c"
  by (simp_all add: Client_leave_channel_def switch_cleanup_def take_seat_def Let_def fate_fields fate_def split: option.split)

lemmas fate_rooms_fields [fate_fields] = fate_rooms [unfolded fate_def prod.inject]

lemma fate_messages:
  "fate (on_channel_list d c) = fate c" "fate (on_channel_user_list sent d c) = fate c"
  "fate (on_user_joined d c) = fate c" "fate (on_user_left d c) = fate c" "fate (on_user_voice_state d c) = fate c"
  "fate (on_user_role_changed d c) = fate c" "fate (on_screen_share_started now d c) = fate c"
  "fate (on_screen_share_stopped d c) = fate c" "fate (on_screen_share_denied c) = fate c"
  "fate (on_screen_share_viewer d c) = fate c" "fate (on_admin_result d c) = fate c"
  by (simp_all add: on_channel_list_def on_channel_user_list_def on_user_joined_def on_user_left_def on_user_voice_state_def
      on_user_role_changed_def on_screen_share_started_def on_screen_share_stopped_def on_screen_share_denied_def
      on_screen_share_viewer_def on_admin_result_def remove_channel_sharer_def Let_def case_prod_unfold fate_fields fate_def)

lemmas fate_messages_fields [fate_fields] = fate_messages [unfolded fate_def prod.inject]

section \<open>Sessions that keep dropping\<close>

text \<open>What may happen between two sessions: anything but the end of a signed-in session. Attempts that fail before
  sign-in are among it.\<close>

inductive between :: "client \<Rightarrow> client \<Rightarrow> bool" where
  other: "quiet_step c c' \<Longrightarrow> between c c'"
| failed: "\<not> c_auth c \<Longrightarrow> between c (on_disconnect_cleanup now c)"

text \<open>A session that ends within five seconds of its sign-in and after which the client reconnects by itself.\<close>

inductive flap :: "client \<Rightarrow> client \<Rightarrow> bool" where
  flapI: "between\<^sup>*\<^sup>* c c1 \<Longrightarrow> c_auth c1 \<Longrightarrow> c_server_id c1 \<noteq> 0 \<Longrightarrow> now - c_auth_time c1 < 5000000 \<Longrightarrow>
    c_reconnecting (on_disconnect_cleanup now c1) \<Longrightarrow> flap c (on_disconnect_cleanup now c1)"

inductive_cases flapE: "flap c c'"

lemma kept_through_drop [simp]:
  "c_server_id (drop_session c) = c_server_id c" "c_auth_time (drop_session c) = c_auth_time c"
  "c_intentional (drop_session c) = c_intentional c" "c_reconnecting (drop_session c) = c_reconnecting c"
  "\<not> c_auth (drop_session c)"
  by (simp_all add: drop_session_def Let_def fate_fields)

lemma failed_flaps: "\<not> c_auth c \<Longrightarrow> c_flaps (on_disconnect_cleanup now c) = c_flaps c"
  by (simp add: on_disconnect_cleanup_def decide_reconnect_def flap_simps)

lemma between_flaps: "between\<^sup>*\<^sup>* c c' \<Longrightarrow> c_flaps c' = c_flaps c"
  by (induction rule: rtranclp_induct) (auto elim!: between.cases simp: quiet_flaps failed_flaps)

lemma flap_counts: "flap c c' \<Longrightarrow> c_flaps c' = c_flaps c + 1 \<and> c_flaps c' \<le> 3"
  by (erule flapE) (auto simp: on_disconnect_cleanup_def decide_reconnect_def flap_simps cancel_reconnect_def Let_def
      dest!: between_flaps split: if_splits)


lemma flaps_count: "(flap ^^ n) c c' \<Longrightarrow> c_flaps c' = c_flaps c + n \<and> (n = 0 \<or> c_flaps c' \<le> 3)"
proof (induction n arbitrary: c')
  case (Suc n)
  then obtain b where "(flap ^^ n) c b" "flap b c'" by auto
  then show ?case using Suc.IH [of b] flap_counts [of b c'] by auto
qed simp

text \<open>(C31) Reconnecting ends: a client whose sessions keep ending within five seconds of their sign-in reconnects by
  itself at most three times in a row, whatever else happens in between (user actions, messages,
  attempts that fail before sign-in); after the next such session it stays where it is.\<close>

theorem reconnect_gives_up:
  assumes "(flap ^^ n) c c'"
  shows "n \<le> 3"
  using flaps_count [OF assms] by auto

lemma auth_keeps: "c_intentional (on_auth_response now d c) = c_intentional c" "c_server_id (on_auth_response now d c) = c_server_id c"
  by (simp_all add: on_auth_response_def Let_def case_prod_unfold fate_fields cancel_reconnect_def)

lemma auth_time: "\<not> c_auth c \<Longrightarrow> c_auth (on_auth_response now d c) \<Longrightarrow> c_auth_time (on_auth_response now d c) = now"
  by (auto simp: on_auth_response_def Let_def case_prod_unfold fate_fields cancel_reconnect_def split: if_splits)

text \<open>The bound is met: below it a client signs in again, drops again and comes back.\<close>

lemma flap_again:
  assumes "c_server_id c \<noteq> 0" "\<not> c_intentional c" "\<not> c_auth c" "c_flaps c < 3"
  shows "\<exists>c'. flap c c' \<and> c_server_id c' \<noteq> 0 \<and> \<not> c_intentional c' \<and> \<not> c_auth c' \<and> c_flaps c' = c_flaps c + 1"
proof -
  let ?u = "\<lparr>u_id = 7, u_public_key = [], u_display_name = [], u_fingerprint = [], u_role = 3, u_created_at = 0, u_last_login = None\<rparr>"
  let ?d = "auth_answer demo_cfg Server_Reach.demo_env ?u"
  define c1 where "c1 = on_auth_response (ce_now client_demo_env) ?d c"
  have "quiet_step c (process_server_messages client_demo_env [(AUTH_RESPONSE, ?d)] c)" by (rule quiet_step.messages)
  then have step: "between\<^sup>*\<^sup>* c c1" by (simp add: process_server_messages_def c1_def between.other r_into_rtranclp)
  have "c_auth c1" unfolding c1_def
    using auth_answer_taken [of Server_Reach.demo_env demo_cfg] by (simp add: Server_Reach.demo_env_def demo_cfg_def string_fits_def)
  moreover from this have "c_auth_time c1 = ce_now client_demo_env" using auth_time assms(3) by (simp add: c1_def)
  moreover have "c_server_id c1 \<noteq> 0" "\<not> c_intentional c1" using assms by (simp_all add: c1_def auth_keeps)
  moreover have "c_flaps c1 = c_flaps c" by (rule between_flaps [OF step])
  ultimately have on: "c_auth c1" "c_server_id c1 \<noteq> 0" "\<not> c_intentional c1" "ce_now client_demo_env - c_auth_time c1 < 5000000"
    "c_flaps c1 = c_flaps c" by simp_all
  let ?c = "on_disconnect_cleanup (ce_now client_demo_env) c1"
  have "c_reconnecting ?c" "c_server_id ?c \<noteq> 0" "\<not> c_intentional ?c" "\<not> c_auth ?c" "c_flaps ?c = c_flaps c + 1"
    using on assms(4) by (simp_all add: on_disconnect_cleanup_def decide_reconnect_def Let_def flap_simps)
  then show ?thesis using flapI [OF step on(1,2,4)] by blast
qed

theorem reconnect_gives_up_witness:
  "\<exists>c'. (flap ^^ 3) ((new_client demo_pf)\<lparr>c_server_id := 1\<rparr>) c' \<and> (3::nat) \<le> 3"
proof -
  let ?c = "(new_client demo_pf)\<lparr>c_server_id := 1\<rparr>"
  have c: "c_server_id ?c \<noteq> 0" "\<not> c_intentional ?c" "\<not> c_auth ?c" "c_flaps ?c = 0"
    by (simp_all add: new_client_def blank_client_def)
  obtain d where d: "flap ?c d" "c_server_id d \<noteq> 0" "\<not> c_intentional d" "\<not> c_auth d" "c_flaps d = 1"
    using flap_again [OF c(1-3)] c(4) by auto
  obtain f where f: "flap d f" "c_server_id f \<noteq> 0" "\<not> c_intentional f" "\<not> c_auth f" "c_flaps f = 2"
    using flap_again [OF d(2-4)] d(5) by auto
  obtain g where "flap f g" using flap_again [OF f(2-4)] f(5) by auto
  then have "(flap ^^ 3) ?c g" using d(1) f(1) by (auto simp: numeral_3_eq_3 relcompp.simps)
  then show ?thesis using reconnect_gives_up by blast
qed

section \<open>Who was removed stays out\<close>

lemma error_marks:
  assumes "read_u16 (new_reader d) = (code, r1)" "read_string r1 = (msg, r2)" "\<not> rerr r2" "code = Kicked \<or> code = Replaced" "c_auth c"
  shows "c_intentional (on_server_error d c)"
  using assms by (auto simp: on_server_error_def Let_def say_def)

lemma message_fate:
  "c_auth c \<Longrightarrow> c_auth (handle_server_message e m c)"
  "c_intentional c \<Longrightarrow> c_intentional (handle_server_message e m c)"
  "\<not> c_reconnecting c \<Longrightarrow> \<not> c_reconnecting (handle_server_message e m c)"
proof -
  obtain ty d where m: "m = (ty, d)" by fastforce
  show "c_auth c \<Longrightarrow> c_auth (handle_server_message e m c)" "c_intentional c \<Longrightarrow> c_intentional (handle_server_message e m c)"
    "\<not> c_reconnecting c \<Longrightarrow> \<not> c_reconnecting (handle_server_message e m c)"
    unfolding m by (cases ty; simp add: fate_fields on_auth_response_def on_server_error_def cancel_reconnect_def Let_def case_prod_unfold)+
qed

lemma messages_fate:
  "c_auth c \<Longrightarrow> c_auth (process_server_messages e ms c)" "c_intentional c \<Longrightarrow> c_intentional (process_server_messages e ms c)"
  "\<not> c_reconnecting c \<Longrightarrow> \<not> c_reconnecting (process_server_messages e ms c)"
  unfolding process_server_messages_def by (induction ms arbitrary: c) (simp_all add: message_fate)

lemma removal_marks:
  assumes "(SERVER_ERROR, d) \<in> set ms" "read_u16 (new_reader d) = (code, r1)" "read_string r1 = (msg, r2)" "\<not> rerr r2"
    "code = Kicked \<or> code = Replaced" "c_auth c"
  shows "c_intentional (process_server_messages e ms c)"
proof -
  obtain xs ys where ms: "ms = xs @ (SERVER_ERROR, d) # ys" using assms(1) by (auto simp: in_set_conv_decomp)
  let ?c = "process_server_messages e xs c"
  have "c_intentional (on_server_error d ?c)" by (rule error_marks [OF assms(2-5) messages_fate(1) [OF assms(6)]])
  then show ?thesis using messages_fate(2) [of "on_server_error d ?c" e ys] by (simp add: ms process_server_messages_def)
qed


lemma drop_intended: "c_intentional c \<Longrightarrow> \<not> c_reconnecting (on_disconnect_cleanup now c)"
  by (simp add: on_disconnect_cleanup_def decide_reconnect_def cancel_reconnect_def)

lemma connect_stays:
  "\<not> c_reconnecting c \<Longrightarrow> \<not> c_reconnecting (tick_connect e ti c)"
  by (simp add: tick_connect_def poll_connecting_def finish_connect_def send_auth_identity_def say_def Let_def split: option.split)

lemma tick_stays: "c_reconnecting (tick_ping now c) = c_reconnecting c" "c_reconnecting (tick_video e st c) = c_reconnecting c"
  by (simp_all add: tick_ping_def tick_video_def tick_senders_def feed_video_sender_stats_def Let_def fate_fields)

text \<open>(C36) A client the server removes does not come back by itself: when a connection is lost and the messages that
  arrived before the loss tell a signed-in client that it was kicked or replaced by another sign-in, the
  tick that notices the loss ends with no reconnect under way, although it acts on the loss first and
  the messages were still in the queue.\<close>

theorem removed_client_stays_out:
  assumes "c_auth c" "ti_dropped ti" "(SERVER_ERROR, d) \<in> set (ti_before ti)"
    and "read_u16 (new_reader d) = (code, ra)" "read_string ra = (msg, rb)" "\<not> rerr rb" "code = Kicked \<or> code = Replaced"
  shows "\<not> c_reconnecting (client_tick e ti c)"
proof -
  have "c_intentional (process_server_messages e (ti_before ti) c)" by (rule removal_marks [OF assms(3-7,1)])
  then have "\<not> c_reconnecting (tick_drop e ti c)" using assms(2) by (simp add: tick_drop_def drop_intended)
  then show ?thesis by (simp add: client_tick_def tick_stays messages_fate connect_stays)
qed

definition demo_drop :: tick_in where
  "demo_drop = \<lparr>ti_dropped = True, ti_before = [(KEEPALIVE_PONG, []), (SERVER_ERROR, le16 Replaced @ le16 0)], ti_failed = False, ti_up = False,
     ti_fp = [], ti_verdict = Tofu_Trusted, ti_time = 0, ti_sign = (\<lambda>_. None), ti_saved = None, ti_ok = False, ti_messages = [],
     ti_stats = \<lparr>cs_valid = False, cs_rtt = 0, cs_suspected = 0, cs_spurious = 0, cs_sent = 0\<rparr>\<rparr>"

theorem removed_client_stays_out_witness:
  "\<not> c_reconnecting (client_tick client_demo_env demo_drop ((new_client demo_pf)\<lparr>c_auth := True, c_server_id := 1\<rparr>))"
proof -
  let ?d = "le16 Replaced @ le16 0"
  have "fst (read_u16 (new_reader ?d)) = Replaced \<and> \<not> rerr (snd (read_string (snd (read_u16 (new_reader ?d)))))" by code_simp
  then obtain ra msg rb where "read_u16 (new_reader ?d) = (Replaced, ra)" "read_string ra = (msg, rb)" "\<not> rerr rb"
    by (metis prod.collapse)
  then show ?thesis by (intro removed_client_stays_out [where d = ?d and code = Replaced and ra = ra and msg = msg and rb = rb]) (simp_all add: demo_drop_def)
qed

end
