(* ===== verification/Voice_Mixer.thy ===== *)
theory Voice_Mixer
  imports Prelude "HOL-Library.AList"
begin

text \<open>
  The receiving end of voice: \<open>VoiceMixer\<close> (\<open>client/src/voice_mixer.cpp\<close>). Every speaker has a jitter
  buffer of at most ten packets ordered by 16-bit sequence numbers and a playout clock; each 20 ms
  slot makes at most one call of the Opus decoder. \<open>mix_output\<close> serves an audio callback of any size
  from those slots.

  libopus is a parameter: the result of a decode call and the samples it writes are a function of the
  calls the decoder has seen, which the model keeps in \<open>us_decoder\<close>. The arithmetic of \<open>float\<close> is the
  parameter \<open>floats\<close>; no theorem uses a law of it.
\<close>

section \<open>Parameters\<close>

datatype opus_call = Opus_Packet bytes bool | Opus_Conceal

type_synonym 'f opus = "opus_call list \<Rightarrow> int \<times> 'f list"

record 'f floats =
  f_lit :: "int \<Rightarrow> nat \<Rightarrow> 'f"
  f_add :: "'f \<Rightarrow> 'f \<Rightarrow> 'f"
  f_sub :: "'f \<Rightarrow> 'f \<Rightarrow> 'f"
  f_mul :: "'f \<Rightarrow> 'f \<Rightarrow> 'f"
  f_div :: "'f \<Rightarrow> 'f \<Rightarrow> 'f"
  f_less :: "'f \<Rightarrow> 'f \<Rightarrow> bool"
  f_le :: "'f \<Rightarrow> 'f \<Rightarrow> bool"
  f_sqrt :: "'f \<Rightarrow> 'f"
  f_pow :: "'f \<Rightarrow> 'f \<Rightarrow> 'f"
  f_finite :: "'f \<Rightarrow> bool"

text \<open>A literal is its decimal digits and the number of them behind the point: \<open>0.05f\<close> is \<open>f_lit F 5 2\<close>.\<close>

definition f_zero :: "'f floats \<Rightarrow> 'f" where
  "f_zero F = f_lit F 0 0"

definition f_one :: "'f floats \<Rightarrow> 'f" where
  "f_one F = f_lit F 1 0"

text \<open>\<open>std::clamp\<close>.\<close>

definition f_clamp :: "'f floats \<Rightarrow> 'f \<Rightarrow> 'f \<Rightarrow> 'f \<Rightarrow> 'f" where
  "f_clamp F x lo hi = (if f_less F x lo then lo else if f_less F hi x then hi else x)"

definition db_to_gain :: "'f floats \<Rightarrow> 'f \<Rightarrow> 'f" where
  "db_to_gain F x = f_pow F (f_lit F 10 0) (f_div F x (f_lit F 20 0))"

definition volume_position_to_gain :: "'f floats \<Rightarrow> 'f \<Rightarrow> 'f" where
  "volume_position_to_gain F p =
     (let pos = f_clamp F p (f_zero F) (f_lit F 2 0)
      in if f_le F pos (f_zero F) then f_zero F
         else f_pow F (f_lit F 10 0)
                (f_div F (if f_le F (f_one F) pos then f_mul F (f_sub F pos (f_one F)) (f_lit F 6 0)
                          else f_mul F (f_sub F (f_one F) pos) (f_lit F (- 40) 0)) (f_lit F 20 0)))"

section \<open>State\<close>

definition OPUS_FRAME_SIZE :: nat where
  "OPUS_FRAME_SIZE = 960"

definition MAX_JITTER_PACKETS :: nat where
  "MAX_JITTER_PACKETS = 10"

definition JITTER_PRE_BUFFER :: nat where
  "JITTER_PRE_BUFFER = 4"

definition PLC_MAX_FRAMES :: int where
  "PLC_MAX_FRAMES = 10"

definition RESYNC_GAP :: int where
  "RESYNC_GAP = 32"

record jitter_packet =
  jp_seq :: u16
  jp_data :: bytes

record decode_stats =
  ds_normal :: u64
  ds_fec :: u64
  ds_plc :: u64
  ds_resync :: u64

record 'f user_stream =
  us_decoder :: "opus_call list"
  us_queue :: "jitter_packet list"
  us_volume :: 'f
  us_empty :: int
  us_initialized :: bool
  us_primed :: bool
  us_next :: u16
  us_has_seq :: bool
  us_pcm :: "'f list"
  us_pos :: nat
  us_level :: 'f
  us_active_until :: int
  us_compress :: bool
  us_target :: 'f
  us_gain :: 'f

record 'f mixer =
  mx_streams :: "(u32 \<times> 'f user_stream) list"
  mx_stats :: decode_stats
  mx_makeup :: bool
  mx_master :: 'f

definition new_mixer :: "'f floats \<Rightarrow> bool \<Rightarrow> 'f mixer" where
  "new_mixer F makeup = \<lparr>mx_streams = [], mx_stats = \<lparr>ds_normal = 0, ds_fec = 0, ds_plc = 0, ds_resync = 0\<rparr>,
     mx_makeup = makeup, mx_master = f_one F\<rparr>"

text \<open>A new stream has no PCM left, so that the first read decodes.\<close>

definition new_stream :: "'f floats \<Rightarrow> 'f user_stream" where
  "new_stream F = \<lparr>us_decoder = [], us_queue = [], us_volume = f_one F, us_empty = 0, us_initialized = True,
     us_primed = False, us_next = 0, us_has_seq = False, us_pcm = replicate OPUS_FRAME_SIZE (f_zero F),
     us_pos = OPUS_FRAME_SIZE, us_level = f_zero F, us_active_until = 0, us_compress = False,
     us_target = f_lit F 8 1, us_gain = f_one F\<rparr>"

text \<open>Positive when \<open>b\<close> is ahead of \<open>a\<close>.\<close>

definition seq_diff :: "u16 \<Rightarrow> u16 \<Rightarrow> int" where
  "seq_diff a b = sint (b - a)"

section \<open>Arrival of a packet\<close>

text \<open>The search from the back for the index to insert at; \<open>None\<close> is a duplicate.\<close>

fun find_slot :: "u16 \<Rightarrow> jitter_packet list \<Rightarrow> nat \<Rightarrow> nat \<Rightarrow> nat option" where
  "find_slot seq q 0 idx = Some idx"
| "find_slot seq q (Suc i) idx =
     (let d = seq_diff (jp_seq (q ! i)) seq
      in if d = 0 then None else if d > 0 then Some (Suc i) else find_slot seq q i i)"

definition evict_front :: "'f user_stream \<times> decode_stats \<Rightarrow> 'f user_stream \<times> decode_stats" where
  "evict_front = (\<lambda>(s, n).
     if length (us_queue s) > MAX_JITTER_PACKETS
     then let s1 = s\<lparr>us_queue := tl (us_queue s)\<rparr>; front = jp_seq (hd (us_queue s1))
          in if us_primed s1 \<and> seq_diff (us_next s1) front > 0
             then (s1\<lparr>us_next := front, us_empty := 0\<rparr>, n\<lparr>ds_resync := ds_resync n + 1\<rparr>)
             else (s1, n)
     else (s, n))"

definition stream_push :: "u16 \<Rightarrow> bytes \<Rightarrow> 'f user_stream \<times> decode_stats \<Rightarrow> 'f user_stream \<times> decode_stats" where
  "stream_push seq d = (\<lambda>(s, n).
     let s1 = (if \<not> us_has_seq s then s\<lparr>us_next := seq, us_has_seq := True\<rparr> else s)
     in if seq_diff (us_next s1) seq < 0 then (s1, n)
        else case find_slot seq (us_queue s1) (length (us_queue s1)) (length (us_queue s1)) of
               None \<Rightarrow> (s1, n)
             | Some i \<Rightarrow>
                 evict_front (s1\<lparr>us_queue := take i (us_queue s1) @ \<lparr>jp_seq = seq, jp_data = d\<rparr> # drop i (us_queue s1)\<rparr>, n))"

text \<open>The flag tells that \<open>on_stream_created\<close> is called.\<close>

definition push_packet :: "'f floats \<Rightarrow> u32 \<Rightarrow> u16 \<Rightarrow> bytes \<Rightarrow> 'f mixer \<Rightarrow> 'f mixer \<times> bool" where
  "push_packet F u seq d m =
     (let is_new = (map_of (mx_streams m) u = None);
          s = (case map_of (mx_streams m) u of None \<Rightarrow> new_stream F | Some s \<Rightarrow> s);
          (s1, n1) = stream_push seq d (s, mx_stats m)
      in (m\<lparr>mx_streams := AList.update u s1 (mx_streams m), mx_stats := n1\<rparr>, is_new))"

section \<open>One slot\<close>

text \<open>One decoder call. The result is the number of samples; what libopus writes lands in a frame of
  zeros.\<close>

definition opus_frame :: "'f floats \<Rightarrow> 'f list \<Rightarrow> 'f list" where
  "opus_frame F xs = take OPUS_FRAME_SIZE (xs @ replicate OPUS_FRAME_SIZE (f_zero F))"

definition us_decode :: "'f opus \<Rightarrow> opus_call \<Rightarrow> 'f user_stream \<Rightarrow> (int \<times> 'f list) \<times> 'f user_stream" where
  "us_decode opus c s = (opus (us_decoder s @ [c]), s\<lparr>us_decoder := us_decoder s @ [c]\<rparr>)"

type_synonym 'f slot = "(bool \<times> 'f list) \<times> 'f user_stream \<times> decode_stats"

definition conceal_slot :: "'f opus \<Rightarrow> 'f user_stream \<times> decode_stats \<Rightarrow> 'f slot" where
  "conceal_slot opus = (\<lambda>(s, n).
     let ((d, pcm), s1) = us_decode opus Opus_Conceal s
     in ((d > 0, pcm), s1\<lparr>us_next := us_next s1 + 1\<rparr>, n\<lparr>ds_plc := ds_plc n + 1\<rparr>))"

definition play_front :: "'f opus \<Rightarrow> 'f user_stream \<times> decode_stats \<Rightarrow> 'f slot" where
  "play_front opus = (\<lambda>(s, n).
     let p = hd (us_queue s);
         ((d, pcm), s1) = us_decode opus (Opus_Packet (jp_data p) False) s
     in ((d > 0, pcm), s1\<lparr>us_next := jp_seq p + 1, us_queue := tl (us_queue s1), us_empty := 0\<rparr>,
         n\<lparr>ds_normal := ds_normal n + 1\<rparr>))"

definition recover_slot :: "'f opus \<Rightarrow> 'f user_stream \<times> decode_stats \<Rightarrow> 'f slot" where
  "recover_slot opus = (\<lambda>(s, n).
     let ((d, pcm), s1) = us_decode opus (Opus_Packet (jp_data (hd (us_queue s))) True) s
     in ((d > 0, pcm), s1\<lparr>us_next := us_next s1 + 1, us_empty := 0\<rparr>, n\<lparr>ds_fec := ds_fec n + 1\<rparr>))"

text \<open>Steps 4 to 7: a packet at or ahead of the owed slot is buffered.\<close>

definition serve_front :: "'f opus \<Rightarrow> 'f user_stream \<times> decode_stats \<Rightarrow> 'f slot" where
  "serve_front opus = (\<lambda>(s, n).
     let front = jp_seq (hd (us_queue s)); gap = seq_diff (us_next s) front
     in if gap \<ge> RESYNC_GAP then play_front opus (s\<lparr>us_next := front\<rparr>, n\<lparr>ds_resync := ds_resync n + 1\<rparr>)
        else if gap = 0 then play_front opus (s, n)
        else if gap = 1 then recover_slot opus (s, n)
        else let s1 = s\<lparr>us_empty := us_empty s + 1\<rparr>
             in if us_empty s1 > PLC_MAX_FRAMES
                then play_front opus (s1\<lparr>us_next := front, us_empty := 0\<rparr>, n\<lparr>ds_resync := ds_resync n + 1\<rparr>)
                else conceal_slot opus (s1, n))"

text \<open>Steps 2 and 3: underrun, and packets left over from before the clock.\<close>

definition primed_slot :: "'f opus \<Rightarrow> 'f user_stream \<times> decode_stats \<Rightarrow> 'f slot" where
  "primed_slot opus = (\<lambda>(s, n).
     if us_queue s = []
     then let s1 = s\<lparr>us_empty := us_empty s + 1\<rparr>
          in if us_empty s1 \<le> PLC_MAX_FRAMES then conceal_slot opus (s1, n)
             else ((False, []), s1\<lparr>us_primed := False, us_has_seq := False\<rparr>, n)
     else let s1 = s\<lparr>us_queue := dropWhile (\<lambda>p. seq_diff (us_next s) (jp_seq p) < 0) (us_queue s)\<rparr>
          in if us_queue s1 = [] then conceal_slot opus (s1\<lparr>us_empty := us_empty s1 + 1\<rparr>, n)
             else serve_front opus (s1, n))"

definition decode_frame :: "'f opus \<Rightarrow> 'f user_stream \<times> decode_stats \<Rightarrow> 'f slot" where
  "decode_frame opus = (\<lambda>(s, n).
     if \<not> us_initialized s then ((False, []), s, n)
     else if \<not> us_primed s
     then if length (us_queue s) < JITTER_PRE_BUFFER then ((False, []), s, n)
          else primed_slot opus (s\<lparr>us_primed := True, us_next := jp_seq (hd (us_queue s))\<rparr>, n)
     else primed_slot opus (s, n))"

section \<open>The audio callback\<close>

text \<open>\<open>AudioActivity::observe_level\<close>; times in nanoseconds. A callback reads the clock once in the model; the code reads it for
  each frame it decodes. Only the activity of the speaker depends on it, not the sound.\<close>

definition observe_level :: "'f floats \<Rightarrow> int \<Rightarrow> 'f \<Rightarrow> int \<Rightarrow> int" where
  "observe_level F now rms active_until =
     (if f_finite F rms \<and> f_less F (f_lit F 1 3) rms then now + 500000000 else active_until)"

definition activity_active :: "int \<Rightarrow> int \<Rightarrow> bool" where
  "activity_active now active_until \<longleftrightarrow> active_until \<noteq> 0 \<and> now < active_until"

definition rms_level :: "'f floats \<Rightarrow> 'f list \<Rightarrow> 'f" where
  "rms_level F xs = f_sqrt F (f_div F (foldl (\<lambda>sum x. f_add F sum (f_mul F x x)) (f_zero F) xs)
     (f_lit F (int OPUS_FRAME_SIZE) 0))"

text \<open>The next frame of PCM; a slot that yields nothing is silence.\<close>

definition refill_pcm :: "'f floats \<Rightarrow> 'f opus \<Rightarrow> int \<Rightarrow> 'f user_stream \<times> decode_stats \<Rightarrow> 'f user_stream \<times> decode_stats" where
  "refill_pcm F opus now = (\<lambda>(s, n).
     let ((ok, xs), s1, n1) = decode_frame opus (s, n); pcm = opus_frame F xs; level = rms_level F pcm
     in ((if ok then s1\<lparr>us_pcm := pcm, us_level := level, us_active_until := observe_level F now level (us_active_until s1), us_pos := 0\<rparr>
          else s1\<lparr>us_pcm := replicate OPUS_FRAME_SIZE (f_zero F), us_level := f_zero F, us_pos := 0\<rparr>), n1))"

definition compress_step :: "'f floats \<Rightarrow> 'f user_stream \<Rightarrow> 'f user_stream" where
  "compress_step F s =
     (if us_compress s \<and> f_less F (f_lit F 1 3) (us_level s)
      then let target = f_mul F (f_mul F (us_target s) (us_target s)) (us_target s);
               desired = f_clamp F (f_div F target (us_level s)) (f_lit F 1 1) (f_lit F 10 0)
           in s\<lparr>us_gain := f_add F (us_gain s) (f_mul F (f_lit F 5 2) (f_sub F desired (us_gain s)))\<rparr>
      else s)"

definition stream_volume :: "'f floats \<Rightarrow> 'f user_stream \<Rightarrow> 'f" where
  "stream_volume F s = f_mul F (volume_position_to_gain F (us_volume s)) (if us_compress s then us_gain s else f_one F)"

lemma refill_pos: "us_pos (fst (refill_pcm F opus now sn)) = 0"
  by (simp add: refill_pcm_def case_prod_unfold Let_def)

text \<open>What one stream adds to the next \<open>k\<close> output samples.\<close>

function mix_user :: "'f floats \<Rightarrow> 'f opus \<Rightarrow> int \<Rightarrow> nat \<Rightarrow> 'f user_stream \<times> decode_stats \<Rightarrow> 'f list \<times> 'f user_stream \<times> decode_stats" where
  "mix_user F opus now k sn =
     (if k = 0 then ([], sn)
      else let (s, n) = (if us_pos (fst sn) \<ge> OPUS_FRAME_SIZE then refill_pcm F opus now sn else sn);
               chunk = min k (OPUS_FRAME_SIZE - us_pos s);
               s1 = compress_step F s;
               vol = stream_volume F s1;
               xs = map (\<lambda>x. f_mul F x vol) (take chunk (drop (us_pos s1) (us_pcm s1)));
               (ys, sn1) = mix_user F opus now (k - chunk) (s1\<lparr>us_pos := us_pos s1 + chunk\<rparr>, n)
           in (xs @ ys, sn1))"
  by pat_completeness auto

termination
  by (relation "measure (\<lambda>(F, opus, now, k, sn). k)")
    (auto simp: OPUS_FRAME_SIZE_def dest: arg_cong [where f = "us_pos \<circ> fst"] simp: refill_pos split: if_splits)

declare mix_user.simps [simp del]

text \<open>Every stream is added to the output in turn; then makeup gain, master volume and clipping.\<close>

fun mix_streams :: "'f floats \<Rightarrow> 'f opus \<Rightarrow> int \<Rightarrow> nat \<Rightarrow> (u32 \<times> 'f user_stream) list \<Rightarrow> decode_stats \<Rightarrow> 'f list
    \<Rightarrow> 'f list \<times> (u32 \<times> 'f user_stream) list \<times> decode_stats" where
  "mix_streams F opus now k [] n out = (out, [], n)"
| "mix_streams F opus now k ((u, s) # us) n out =
     (let (xs, s1, n1) = mix_user F opus now k (s, n);
          (out1, us1, n2) = mix_streams F opus now k us n1 (map2 (f_add F) out xs)
      in (out1, (u, s1) # us1, n2))"

definition clip_sample :: "'f floats \<Rightarrow> 'f \<Rightarrow> 'f \<Rightarrow> 'f" where
  "clip_sample F master x =
     (let s = f_mul F x master
      in if f_less F (f_one F) s then f_one F else if f_less F s (f_lit F (- 1) 0) then f_lit F (- 1) 0 else s)"

definition mix_output :: "'f floats \<Rightarrow> 'f opus \<Rightarrow> int \<Rightarrow> nat \<Rightarrow> 'f mixer \<Rightarrow> 'f list \<times> 'f mixer" where
  "mix_output F opus now k m =
     (if mx_streams m = [] then (replicate k (f_zero F), m)
      else let (out, us, n) = mix_streams F opus now k (mx_streams m) (mx_stats m) (replicate k (f_zero F));
               makeup = (if mx_makeup m then db_to_gain F (f_lit F 6 0) else f_one F);
               master = f_mul F makeup (volume_position_to_gain F (mx_master m))
           in (map (clip_sample F master) out, m\<lparr>mx_streams := us, mx_stats := n\<rparr>))"

section \<open>The controls\<close>

definition mixer_upd :: "u32 \<Rightarrow> ('f user_stream \<Rightarrow> 'f user_stream) \<Rightarrow> 'f mixer \<Rightarrow> 'f mixer" where
  "mixer_upd u f m = (case map_of (mx_streams m) u of None \<Rightarrow> m | Some s \<Rightarrow> m\<lparr>mx_streams := AList.update u (f s) (mx_streams m)\<rparr>)"

definition remove_user :: "u32 \<Rightarrow> 'f mixer \<Rightarrow> 'f mixer" where
  "remove_user u m = m\<lparr>mx_streams := AList.delete u (mx_streams m)\<rparr>"

definition mixer_clear :: "'f mixer \<Rightarrow> 'f mixer" where
  "mixer_clear m = m\<lparr>mx_streams := []\<rparr>"

definition set_user_volume :: "'f floats \<Rightarrow> u32 \<Rightarrow> 'f \<Rightarrow> 'f mixer \<Rightarrow> 'f mixer" where
  "set_user_volume F u v = mixer_upd u (\<lambda>s. s\<lparr>us_volume := f_clamp F v (f_zero F) (f_lit F 2 0)\<rparr>)"

definition get_user_volume :: "'f floats \<Rightarrow> u32 \<Rightarrow> 'f mixer \<Rightarrow> 'f" where
  "get_user_volume F u m = (case map_of (mx_streams m) u of None \<Rightarrow> f_one F | Some s \<Rightarrow> us_volume s)"

definition set_master_volume :: "'f floats \<Rightarrow> 'f \<Rightarrow> 'f mixer \<Rightarrow> 'f mixer" where
  "set_master_volume F v m = m\<lparr>mx_master := f_clamp F v (f_zero F) (f_lit F 2 0)\<rparr>"

definition set_user_compression :: "'f floats \<Rightarrow> u32 \<Rightarrow> bool \<Rightarrow> 'f \<Rightarrow> 'f mixer \<Rightarrow> 'f mixer" where
  "set_user_compression F u on target = mixer_upd u (\<lambda>s. s\<lparr>us_compress := on,
     us_target := f_clamp F target (f_zero F) (f_one F), us_gain := (if \<not> on then f_one F else us_gain s)\<rparr>)"

definition get_user_compression :: "u32 \<Rightarrow> 'f mixer \<Rightarrow> bool" where
  "get_user_compression u m = (case map_of (mx_streams m) u of None \<Rightarrow> False | Some s \<Rightarrow> us_compress s)"

definition get_user_compression_target :: "'f floats \<Rightarrow> u32 \<Rightarrow> 'f mixer \<Rightarrow> 'f" where
  "get_user_compression_target F u m = (case map_of (mx_streams m) u of None \<Rightarrow> f_lit F 8 1 | Some s \<Rightarrow> us_target s)"

definition get_user_levels :: "'f mixer \<Rightarrow> (u32 \<times> 'f) list" where
  "get_user_levels m = map (\<lambda>(u, s). (u, us_level s)) (mx_streams m)"

definition get_active_users :: "int \<Rightarrow> 'f mixer \<Rightarrow> u32 list" where
  "get_active_users now m = map fst (filter (\<lambda>(u, s). activity_active now (us_active_until s)) (mx_streams m))"

end
