(* ===== verification/Voice_Proofs.thy ===== *)
theory Voice_Proofs
  imports Voice_Mixer
begin

text \<open>
  What the jitter buffer promises. A sender numbers its packets 0, 1, 2, .. and sends the number
  modulo \<open>2 ^ 16\<close>; the proofs follow the absolute numbers. The invariant \<open>holds\<close> says that the queue
  is a strictly ascending window ahead of the playout clock. The slot lemmas read off which decoder
  call each slot makes, from the buffered numbers alone.
\<close>

section \<open>Absolute numbers\<close>

definition packet :: "(nat \<Rightarrow> bytes) \<Rightarrow> nat \<Rightarrow> jitter_packet" where
  "packet msg n = \<lparr>jp_seq = of_nat n, jp_data = msg n\<rparr>"

lemma packet_sel [simp]: "jp_seq (packet msg n) = of_nat n" "jp_data (packet msg n) = msg n"
  by (simp_all add: packet_def)

lemma seq_diff_near:
  assumes "\<bar>int b - int a\<bar> < 2 ^ 15"
  shows "seq_diff (of_nat a) (of_nat b) = int b - int a"
proof -
  have "(of_nat b - of_nat a :: u16) = word_of_int (int b - int a)" by simp
  then show ?thesis
    using assms unfolding seq_diff_def by (simp only: signed_of_int) (simp add: signed_take_bit_int_eq_self)
qed

section \<open>Insertion\<close>

definition insert_num :: "nat \<Rightarrow> nat list \<Rightarrow> nat list" where
  "insert_num n ns = takeWhile (\<lambda>x. x < n) ns @ n # dropWhile (\<lambda>x. x < n) ns"

lemma cut_at:
  assumes "\<forall>x \<in> set as. x < n" "\<forall>x \<in> set bs. n < (x::nat)"
  shows "length (takeWhile (\<lambda>x. x < n) (as @ bs)) = length as" "n \<notin> set (as @ bs)"
proof -
  have "takeWhile (\<lambda>x. x < n) bs = []" using assms(2) by (cases bs) auto
  then show "length (takeWhile (\<lambda>x. x < n) (as @ bs)) = length as" using assms(1) by (simp add: takeWhile_append2)
qed (use assms in fastforce)

lemma find_slot_packets:
  assumes "sorted_wrt (<) ns" "\<forall>x \<in> set ns. \<bar>int n - int x\<bar> < 2 ^ 15" "i \<le> length ns" "\<forall>x \<in> set (drop i ns). n < x"
  shows "find_slot (of_nat n) (map (packet msg) ns) i i
    = (if n \<in> set ns then None else Some (length (takeWhile (\<lambda>x. x < n) ns)))"
  using assms(3-4)
proof (induction i)
  case 0
  then show ?case using cut_at [of "[]" n ns] by simp
next
  case (Suc i)
  have d: "seq_diff (of_nat (ns ! i)) (of_nat n) = int n - int (ns ! i)"
    using assms(2) Suc.prems(1) by (intro seq_diff_near) simp
  consider "ns ! i = n" | "ns ! i < n" | "n < ns ! i" by linarith
  then show ?case
  proof cases
    case 1
    then show ?thesis using d Suc.prems(1) by (auto simp: Let_def)
  next
    case 2
    have "\<forall>x \<in> set (take (Suc i) ns). x < n"
    proof
      fix x assume "x \<in> set (take (Suc i) ns)"
      then obtain j where "j \<le> i" "x = ns ! j" by (auto simp: in_set_conv_nth less_Suc_eq_le)
      then show "x < n" using 2 assms(1) Suc.prems(1) 
        by (cases "j = i") (auto simp: sorted_wrt_iff_nth_less intro: less_trans [of _ "ns ! i"])
    qed
    from cut_at [OF this Suc.prems(2)] show ?thesis using d 2 Suc.prems(1) by simp
  next
    case 3
    have "drop i ns = ns ! i # drop (Suc i) ns" using Suc.prems(1) by (simp add: Cons_nth_drop_Suc)
    then show ?thesis using d 3 Suc by simp
  qed
qed

lemma insert_num_props:
  assumes "sorted_wrt (<) ns" "n \<notin> set ns"
  shows "sorted_wrt (<) (insert_num n ns)" "set (insert_num n ns) = insert n (set ns)" "length (insert_num n ns) = Suc (length ns)"
proof -
  let ?a = "takeWhile (\<lambda>x. x < n) ns" and ?b = "dropWhile (\<lambda>x. x < n) ns"
  have s: "sorted_wrt (<) (?a @ ?b)" using assms(1) by simp
  have e: "set ?a \<union> set ?b = set ns" by (metis set_append takeWhile_dropWhile_id)
  have "\<forall>x \<in> set ?a. x < n" by (auto dest: set_takeWhileD)
  moreover have "\<forall>x \<in> set ?b. n < x"
  proof (cases ?b)
    case (Cons y ys)
    then have "\<not> y < n" by (metis hd_dropWhile list.distinct(1) list.sel(1))
    moreover have "y \<noteq> n" using Cons assms(2) by (metis list.set_intros(1) set_dropWhileD)
    ultimately show ?thesis using s Cons by (auto simp: sorted_wrt_append)
  qed (simp only: list.set ball_empty)
  ultimately show "sorted_wrt (<) (insert_num n ns)" using s unfolding insert_num_def
    by (auto simp: sorted_wrt_append intro: less_trans [of _ n])
  show "set (insert_num n ns) = insert n (set ns)" using e unfolding insert_num_def by auto
  show "length (insert_num n ns) = Suc (length ns)"
    unfolding insert_num_def by (metis add_Suc_right length_Cons length_append takeWhile_dropWhile_id)
qed

lemma insert_packets:
  "take (length (takeWhile (\<lambda>x. x < n) ns)) (map (packet msg) ns) @ packet msg n # drop (length (takeWhile (\<lambda>x. x < n) ns)) (map (packet msg) ns)
    = map (packet msg) (insert_num n ns)"
  unfolding insert_num_def by (simp add: take_map drop_map takeWhile_eq_take [symmetric] dropWhile_eq_drop [symmetric])

section \<open>The reference jitter buffer\<close>

text \<open>The contract, on absolute numbers: at most ten buffered numbers, a clock, and a log of what each
  slot did. \<open>Rest\<close> is the end of a talk spurt; the next packet starts a new clock.\<close>

datatype play = Play nat | Recover nat | Conceal | Rest

record jbuf =
  jb_on :: bool
  jb_primed :: bool
  jb_clock :: nat
  jb_nums :: "nat list"
  jb_empty :: int
  jb_log :: "play list"

definition new_jbuf :: jbuf where
  "new_jbuf = \<lparr>jb_on = False, jb_primed = False, jb_clock = 0, jb_nums = [], jb_empty = 0, jb_log = []\<rparr>"

definition jb_evict :: "jbuf \<Rightarrow> jbuf" where
  "jb_evict b = (if length (jb_nums b) \<le> MAX_JITTER_PACKETS then b
     else let ns = tl (jb_nums b)
          in if jb_primed b then b\<lparr>jb_nums := ns, jb_clock := hd ns, jb_empty := 0\<rparr> else b\<lparr>jb_nums := ns\<rparr>)"

definition jb_arrive :: "nat \<Rightarrow> jbuf \<Rightarrow> jbuf" where
  "jb_arrive n b =
     (let c = (if jb_on b then b else b\<lparr>jb_on := True, jb_clock := n\<rparr>)
      in if n < jb_clock c \<or> n \<in> set (jb_nums c) then c
         else jb_evict (c\<lparr>jb_nums := insert_num n (jb_nums c)\<rparr>))"

definition jb_note :: "play \<Rightarrow> nat \<Rightarrow> int \<Rightarrow> jbuf \<Rightarrow> jbuf" where
  "jb_note p k e b = b\<lparr>jb_log := jb_log b @ [p], jb_clock := k, jb_empty := e\<rparr>"

definition jb_serve :: "jbuf \<Rightarrow> jbuf" where
  "jb_serve b =
     (let k = jb_clock b; e = jb_empty b + 1
      in case jb_nums b of
           [] \<Rightarrow> if e \<le> PLC_MAX_FRAMES then jb_note Conceal (k + 1) e b
                  else jb_note Rest k e (b\<lparr>jb_primed := False, jb_on := False\<rparr>)
         | n # ns \<Rightarrow>
             if n = k \<or> k + 32 \<le> n then jb_note (Play n) (n + 1) 0 (b\<lparr>jb_nums := ns\<rparr>)
             else if n = k + 1 then jb_note (Recover n) (k + 1) 0 b
             else if e > PLC_MAX_FRAMES then jb_note (Play n) (n + 1) 0 (b\<lparr>jb_nums := ns\<rparr>)
             else jb_note Conceal (k + 1) e b)"

definition jb_slot :: "jbuf \<Rightarrow> jbuf" where
  "jb_slot b =
     (if jb_primed b then jb_serve b
      else if length (jb_nums b) < JITTER_PRE_BUFFER then b
      else jb_serve (b\<lparr>jb_primed := True, jb_clock := hd (jb_nums b)\<rparr>))"

section \<open>Runs\<close>

datatype voice_event = Arrive nat | Slot

fun voice_run :: "'f opus \<Rightarrow> (nat \<Rightarrow> bytes) \<Rightarrow> voice_event list \<Rightarrow> 'f user_stream \<times> decode_stats \<Rightarrow> 'f user_stream \<times> decode_stats" where
  "voice_run opus msg [] sn = sn"
| "voice_run opus msg (Arrive n # evs) sn = voice_run opus msg evs (stream_push (of_nat n) (msg n) sn)"
| "voice_run opus msg (Slot # evs) sn = voice_run opus msg evs (snd (decode_frame opus sn))"

fun jb_run :: "voice_event list \<Rightarrow> jbuf \<Rightarrow> jbuf" where
  "jb_run [] b = b"
| "jb_run (Arrive n # evs) b = jb_run evs (jb_arrive n b)"
| "jb_run (Slot # evs) b = jb_run evs (jb_slot b)"

text \<open>Arrivals stay within half the number space of the clock, eleven minutes of speech.\<close>

fun near :: "voice_event list \<Rightarrow> jbuf \<Rightarrow> bool" where
  "near [] b \<longleftrightarrow> True"
| "near (Arrive n # evs) b \<longleftrightarrow> (jb_on b \<longrightarrow> \<bar>int n - int (jb_clock b)\<bar> < 2 ^ 15) \<and> near evs (jb_arrive n b)"
| "near (Slot # evs) b \<longleftrightarrow> near evs (jb_slot b)"

fun calls_of :: "(nat \<Rightarrow> bytes) \<Rightarrow> play \<Rightarrow> opus_call list" where
  "calls_of msg (Play n) = [Opus_Packet (msg n) False]"
| "calls_of msg (Recover n) = [Opus_Packet (msg n) True]"
| "calls_of msg Conceal = [Opus_Conceal]"
| "calls_of msg Rest = []"

section \<open>Refinement\<close>

definition window :: "jbuf \<Rightarrow> bool" where
  "window b \<longleftrightarrow> sorted_wrt (<) (jb_nums b) \<and> (\<forall>n \<in> set (jb_nums b). jb_clock b \<le> n \<and> n < jb_clock b + 2 ^ 15)
     \<and> (jb_primed b \<longrightarrow> jb_on b) \<and> (\<not> jb_on b \<longrightarrow> jb_nums b = [])"

definition implements :: "(nat \<Rightarrow> bytes) \<Rightarrow> jbuf \<Rightarrow> 'f user_stream \<Rightarrow> bool" where
  "implements msg b s \<longleftrightarrow> us_initialized s \<and> us_has_seq s = jb_on b \<and> us_primed s = jb_primed b
     \<and> (jb_on b \<longrightarrow> us_next s = of_nat (jb_clock b)) \<and> us_queue s = map (packet msg) (jb_nums b)
     \<and> us_empty s = jb_empty b \<and> us_decoder s = concat (map (calls_of msg) (jb_log b)) \<and> window b"

definition bounded :: "jbuf \<Rightarrow> bool" where
  "bounded b \<longleftrightarrow> length (jb_nums b) \<le> MAX_JITTER_PACKETS"

lemma window_head:
  "window b \<Longrightarrow> jb_nums b = n # ns \<Longrightarrow> seq_diff (of_nat (jb_clock b)) (of_nat n) = int n - int (jb_clock b)"
  by (intro seq_diff_near) (auto simp: window_def)

lemma evict_refines:
  assumes "implements msg b s" "jb_on b"
  shows "implements msg (jb_evict b) (fst (evict_front (s, st)))"
proof (cases "length (jb_nums b) \<le> MAX_JITTER_PACKETS")
  case False
  then obtain n m ns where ns: "jb_nums b = n # m # ns"
    by (metis MAX_JITTER_PACKETS_def length_Cons list.size(3) list.exhaust nat_le_linear not_less_eq_eq one_le_numeral zero_le One_nat_def)
  have "seq_diff (of_nat (jb_clock b)) (of_nat m) = int m - int (jb_clock b)" "n < m" "jb_clock b \<le> n"
    using assms(1) ns by (auto simp: implements_def window_def intro!: seq_diff_near)
  then show ?thesis
    using assms False ns by (auto simp: jb_evict_def evict_front_def implements_def window_def Let_def) 
qed (use assms in \<open>simp add: jb_evict_def evict_front_def implements_def\<close>)

lemma evict_bounded: "length (jb_nums b) \<le> Suc MAX_JITTER_PACKETS \<Longrightarrow> bounded (jb_evict b)"
  by (auto simp: jb_evict_def bounded_def Let_def)

lemma arrive_bounded: "bounded b \<Longrightarrow> window b \<Longrightarrow> bounded (jb_arrive n b)"
  by (auto simp: jb_arrive_def Let_def window_def bounded_def insert_num_props intro!: evict_bounded [unfolded bounded_def])

lemma push_refines:
  assumes "implements msg b s" "jb_on b \<Longrightarrow> \<bar>int n - int (jb_clock b)\<bar> < 2 ^ 15"
  shows "implements msg (jb_arrive n b) (fst (stream_push (of_nat n) (msg n) (s, st)))"
proof -
  define c where "c = (if jb_on b then b else b\<lparr>jb_on := True, jb_clock := n\<rparr>)"
  define t where "t = (if \<not> us_has_seq s then s\<lparr>us_next := of_nat n, us_has_seq := True\<rparr> else s)"
  have c: "implements msg c t" "jb_on c" "\<bar>int n - int (jb_clock c)\<bar> < 2 ^ 15"
    using assms by (auto simp: implements_def window_def c_def t_def)
  have d: "seq_diff (us_next t) (of_nat n) = int n - int (jb_clock c)"
    using c by (simp add: implements_def seq_diff_near)
  have arr: "jb_arrive n b = (if n < jb_clock c \<or> n \<in> set (jb_nums c) then c else jb_evict (c\<lparr>jb_nums := insert_num n (jb_nums c)\<rparr>))"
    by (simp add: jb_arrive_def c_def)
  show ?thesis
  proof (cases "n < jb_clock c")
    case True
    then have "fst (stream_push (of_nat n) (msg n) (s, st)) = t"
      using d by (auto simp: stream_push_def t_def Let_def)
    then show ?thesis using arr True c(1) by simp
  next
    case False
    have near: "\<forall>x \<in> set (jb_nums c). \<bar>int n - int x\<bar> < 2 ^ 15" and s: "sorted_wrt (<) (jb_nums c)"
      using c False by (auto simp: implements_def window_def)
    have slot: "find_slot (of_nat n) (us_queue t) (length (us_queue t)) (length (us_queue t))
      = (if n \<in> set (jb_nums c) then None else Some (length (takeWhile (\<lambda>x. x < n) (jb_nums c))))"
      using find_slot_packets [OF s near order_refl, of msg] c(1) by (simp add: implements_def)
    show ?thesis
    proof (cases "n \<in> set (jb_nums c)")
      case True
      then have "fst (stream_push (of_nat n) (msg n) (s, st)) = t"
        using d slot by (auto simp: stream_push_def t_def Let_def)
      then show ?thesis using arr True c(1) by simp
    next
      case new: False
      let ?t = "t\<lparr>us_queue := map (packet msg) (insert_num n (jb_nums c))\<rparr>"
      have "fst (stream_push (of_nat n) (msg n) (s, st)) = fst (evict_front (?t, st))"
        using d slot new False c(1) insert_packets [of n "jb_nums c" msg]
        by (auto simp: stream_push_def t_def [symmetric] Let_def implements_def packet_def)
      moreover have "implements msg (c\<lparr>jb_nums := insert_num n (jb_nums c)\<rparr>) ?t"
        using c False new insert_num_props [OF s new] by (auto simp: implements_def window_def)
      ultimately show ?thesis
        using evict_refines [of msg "c\<lparr>jb_nums := insert_num n (jb_nums c)\<rparr>" ?t st] c(2) arr False new by simp
    qed
  qed
qed

lemma slot_states [simp]:
  "fst (snd (conceal_slot opus (s, st))) = s\<lparr>us_decoder := us_decoder s @ [Opus_Conceal], us_next := us_next s + 1\<rparr>"
  "fst (snd (recover_slot opus (s, st))) = s\<lparr>us_decoder := us_decoder s @ [Opus_Packet (jp_data (hd (us_queue s))) True],
     us_next := us_next s + 1, us_empty := 0\<rparr>"
  "fst (snd (play_front opus (s, st))) = s\<lparr>us_decoder := us_decoder s @ [Opus_Packet (jp_data (hd (us_queue s))) False],
     us_next := jp_seq (hd (us_queue s)) + 1, us_queue := tl (us_queue s), us_empty := 0\<rparr>"
  by (simp_all add: conceal_slot_def recover_slot_def play_front_def us_decode_def case_prod_unfold Let_def)

lemma serve_refines:
  assumes "implements msg b s" "jb_primed b"
  shows "implements msg (jb_serve b) (fst (snd (primed_slot opus (s, st))))"
proof (cases "jb_nums b")
  case Nil
  then show ?thesis
    using assms by (auto simp: implements_def window_def jb_serve_def primed_slot_def jb_note_def Let_def)
next
  case (Cons n ns)
  have w: "window b" and on: "jb_on b" and q: "us_queue s = packet msg n # map (packet msg) ns" and nxt: "us_next s = of_nat (jb_clock b)"
    using assms Cons by (auto simp: implements_def window_def)
  have d: "seq_diff (us_next s) (of_nat n) = int n - int (jb_clock b)" using window_head [OF w Cons] nxt by simp
  have k: "jb_clock b \<le> n" using w Cons by (simp add: window_def)
  have same: "s\<lparr>us_queue := packet msg n # map (packet msg) ns\<rparr> = s" using q by (cases s) simp
  have slot: "primed_slot opus (s, st) = serve_front opus (s, st)"
    using q d k by (simp add: primed_slot_def same)
  show ?thesis
    using assms Cons w d k q unfolding slot
    by (auto simp: implements_def window_def jb_serve_def serve_front_def
        jb_note_def RESYNC_GAP_def Let_def of_nat_Suc)
qed

lemma slot_refines:
  assumes "implements msg b s"
  shows "implements msg (jb_slot b) (fst (snd (decode_frame opus (s, st))))"
proof -
  have i: "us_initialized s" "us_primed s = jb_primed b" "length (us_queue s) = length (jb_nums b)"
    using assms by (simp_all add: implements_def)
  show ?thesis
  proof (cases "jb_primed b \<or> length (jb_nums b) < JITTER_PRE_BUFFER")
    case True
    then show ?thesis using i assms serve_refines [OF assms, of opus st]
      by (auto simp: decode_frame_def jb_slot_def)
  next
    case False
    then obtain n ns where ns: "jb_nums b = n # ns" by (cases "jb_nums b") (auto simp: JITTER_PRE_BUFFER_def)
    have "implements msg (b\<lparr>jb_primed := True, jb_clock := n\<rparr>) (s\<lparr>us_primed := True, us_next := of_nat n\<rparr>)"
      using assms ns by (auto simp: implements_def window_def)
    from serve_refines [OF this, of opus st] show ?thesis
      using False i ns assms by (auto simp: decode_frame_def jb_slot_def implements_def)
  qed
qed

lemma serve_bounded: "bounded b \<Longrightarrow> bounded (jb_serve b)"
  by (auto simp: bounded_def jb_serve_def jb_note_def Let_def split: list.split)

lemma slot_bounded: "bounded b \<Longrightarrow> bounded (jb_slot b)"
  using serve_bounded [of b] serve_bounded [of "b\<lparr>jb_primed := True, jb_clock := hd (jb_nums b)\<rparr>"]
  by (simp add: jb_slot_def bounded_def)

lemma new_implements: "implements msg new_jbuf (new_stream F)"
  by (simp add: implements_def window_def new_jbuf_def new_stream_def)

lemma run_refines:
  assumes "implements msg b (fst sn)" "bounded b" "near evs b"
  shows "implements msg (jb_run evs b) (fst (voice_run opus msg evs sn)) \<and> bounded (jb_run evs b)"
  using assms
proof (induction evs arbitrary: b sn)
  case (Cons ev evs)
  have w: "window b" using Cons.prems(1) by (simp add: implements_def)
  show ?case
  proof (cases ev)
    case (Arrive n)
    then have "implements msg (jb_arrive n b) (fst (stream_push (of_nat n) (msg n) (fst sn, snd sn)))" using Cons.prems by (intro push_refines) simp_all
    then show ?thesis using Cons.IH [of "jb_arrive n b" "stream_push (of_nat n) (msg n) sn"] Cons.prems arrive_bounded [OF _ w] Arrive by simp
  next
    case Slot
    then show ?thesis
      using Cons.IH [of "jb_slot b" "snd (decode_frame opus sn)"] Cons.prems slot_refines [OF Cons.prems(1), of opus "snd sn"] slot_bounded by simp
  qed
qed simp

text \<open>(C20) The jitter buffer is the reference one: fed any packets in any order, with duplicates and losses, each
  arriving within half the number space of the clock, and asked for slots at any time, the stream
  makes exactly the decoder calls the reference buffer on unbounded numbers logs, holds exactly its
  packets in order under 16-bit numbers, and never more than ten of them.\<close>

theorem voice_refines_reference:
  assumes "near evs new_jbuf"
  shows "let b = jb_run evs new_jbuf; s = fst (voice_run opus msg evs (new_stream F, st))
    in us_decoder s = concat (map (calls_of msg) (jb_log b)) \<and> us_queue s = map (packet msg) (jb_nums b)
     \<and> us_primed s = jb_primed b \<and> us_has_seq s = jb_on b \<and> (if jb_on b then us_next s = of_nat (jb_clock b) else True)
     \<and> length (us_queue s) \<le> MAX_JITTER_PACKETS"
  using run_refines [OF _ _ assms, of msg "(new_stream F, st)" opus] new_implements [of msg F]
  by (auto simp: Let_def implements_def bounded_def new_jbuf_def)

section \<open>Order\<close>

text \<open>The number of the slot that an entry of the log filled with sound.\<close>

fun owed :: "play \<Rightarrow> nat list" where
  "owed (Play n) = [n]"
| "owed (Recover n) = [n - 1]"
| "owed Conceal = []"
| "owed Rest = []"

abbreviation "owed_by ps \<equiv> concat (map owed ps)"

definition in_order :: "play list \<Rightarrow> bool" where
  "in_order log \<longleftrightarrow> (\<forall>xs ys zs. log = xs @ ys @ zs \<and> Rest \<notin> set ys \<longrightarrow> sorted_wrt (<) (owed_by ys))"

definition spent_before :: "nat \<Rightarrow> play list \<Rightarrow> bool" where
  "spent_before k log \<longleftrightarrow> (\<forall>xs ys. log = xs @ ys \<and> Rest \<notin> set ys \<longrightarrow> (\<forall>n \<in> set (owed_by ys). n < k))"

lemma order_snoc:
  assumes "in_order log" "spent_before k log" "\<forall>n \<in> set (owed p). k \<le> n"
  shows "in_order (log @ [p])"
  unfolding in_order_def
proof (intro allI impI)
  fix xs ys zs
  assume a: "log @ [p] = xs @ ys @ zs \<and> Rest \<notin> set ys"
  show "sorted_wrt (<) (owed_by ys)"
  proof (cases zs rule: rev_cases)
    case (snoc us u)
    then have "log = xs @ ys @ us" using a by (metis append.assoc butlast_snoc)
    then show ?thesis using assms(1) a unfolding in_order_def by blast
  next
    case Nil
    show ?thesis
    proof (cases ys rule: rev_cases)
      case (snoc us u)
      then have "log = xs @ us" "u = p" "Rest \<notin> set us" using a Nil by auto
      then have "\<forall>n \<in> set (owed_by us). n < k" "sorted_wrt (<) (owed_by us)"
        using assms(1,2) unfolding spent_before_def in_order_def by (blast, metis append_Nil2)
      moreover have "sorted_wrt (<) (owed p)" by (cases p) simp_all
      ultimately show ?thesis using assms(3) snoc \<open>u = p\<close> by (fastforce simp: sorted_wrt_append)
    qed simp
  qed
qed

lemma spent_snoc:
  assumes "spent_before k log" "\<forall>n \<in> set (owed p). n < k'" "k \<le> k'"
  shows "spent_before k' (log @ [p])"
  unfolding spent_before_def
proof (intro allI impI)
  fix xs ys
  assume a: "log @ [p] = xs @ ys \<and> Rest \<notin> set ys"
  show "\<forall>n \<in> set (owed_by ys). n < k'"
  proof (cases ys rule: rev_cases)
    case (snoc us u)
    then have "log = xs @ us" "u = p" "Rest \<notin> set us" using a by auto
    then have "\<forall>n \<in> set (owed_by us). n < k" using assms(1) unfolding spent_before_def by blast
    then show ?thesis using assms(2,3) snoc \<open>u = p\<close> by fastforce
  qed simp
qed

lemma spent_mono: "spent_before k log \<Longrightarrow> k \<le> k' \<Longrightarrow> spent_before k' log"
  unfolding spent_before_def by (blast intro: less_le_trans)

lemma spent_rest: "log = [] \<or> last log = Rest \<Longrightarrow> spent_before k log"
  unfolding spent_before_def by (metis Nil_is_append_conv UN_E empty_iff last_appendR last_in_set list.set(1) list.simps(8) concat.simps(1))

text \<open>Only received packets are played.\<close>

definition heard :: "nat set \<Rightarrow> play list \<Rightarrow> bool" where
  "heard A log \<longleftrightarrow> (\<forall>n. Play n \<in> set log \<or> Recover n \<in> set log \<longrightarrow> n \<in> A)"

definition orderly :: "nat set \<Rightarrow> jbuf \<Rightarrow> bool" where
  "orderly A b \<longleftrightarrow> window b \<and> in_order (jb_log b) \<and> heard A (jb_log b) \<and> set (jb_nums b) \<subseteq> A
     \<and> (if jb_primed b then spent_before (jb_clock b) (jb_log b) else jb_log b = [] \<or> last (jb_log b) = Rest)"

lemma heard_mono: "heard A log \<Longrightarrow> heard (insert n A) log"
  by (auto simp: heard_def)

lemma evict_keeps [simp]: "jb_log (jb_evict b) = jb_log b" "jb_primed (jb_evict b) = jb_primed b" "jb_on (jb_evict b) = jb_on b"
  by (simp_all add: jb_evict_def Let_def)

lemma evict_nums: "set (jb_nums (jb_evict b)) \<subseteq> set (jb_nums b)"
  by (auto simp: jb_evict_def Let_def dest: list.set_sel(2) [rotated])

lemma evict_clock: "window b \<Longrightarrow> jb_clock b \<le> jb_clock (jb_evict b) \<and> window (jb_evict b)"
proof (cases "length (jb_nums b) \<le> MAX_JITTER_PACKETS")
  case False
  moreover assume "window b"
  moreover obtain n m ns where "jb_nums b = n # m # ns"
    using False by (metis MAX_JITTER_PACKETS_def length_Cons list.size(3) list.exhaust nat_le_linear not_less_eq_eq one_le_numeral zero_le One_nat_def)
  ultimately show ?thesis by (auto simp: jb_evict_def window_def Let_def)
qed (simp add: jb_evict_def)

lemma arrive_orderly:
  assumes "orderly A b" "jb_on b \<Longrightarrow> \<bar>int n - int (jb_clock b)\<bar> < 2 ^ 15"
  shows "orderly (insert n A) (jb_arrive n b)"
proof -
  define c where "c = (if jb_on b then b else b\<lparr>jb_on := True, jb_clock := n\<rparr>)"
  have c: "orderly (insert n A) c" "jb_on c" "\<bar>int n - int (jb_clock c)\<bar> < 2 ^ 15" "window c"
    using assms by (auto simp: c_def orderly_def window_def intro: heard_mono split: if_splits)
  show ?thesis
  proof (cases "n < jb_clock c \<or> n \<in> set (jb_nums c)")
    case True
    then show ?thesis using c by (auto simp: jb_arrive_def c_def [symmetric] Let_def)
  next
    case False
    let ?c = "c\<lparr>jb_nums := insert_num n (jb_nums c)\<rparr>"
    have s: "sorted_wrt (<) (jb_nums c)" using c(4) by (simp add: window_def)
    have "window ?c" using c False insert_num_props [OF s] by (auto simp: window_def)
    moreover have "set (jb_nums ?c) \<subseteq> insert n A" using c(1) False insert_num_props [OF s] by (auto simp: orderly_def)
    ultimately show ?thesis
      using c(1) False evict_clock [of ?c] evict_nums [of ?c]
      by (auto simp: jb_arrive_def c_def [symmetric] Let_def orderly_def intro: spent_mono)
  qed
qed

lemma note_orderly:
  assumes "orderly A b" "jb_primed b" "\<forall>m \<in> set (owed p). jb_clock b \<le> m \<and> m < k" "jb_clock b \<le> k" "heard A [p]"
    and "set ns \<subseteq> set (jb_nums b)" "sorted_wrt (<) ns" "\<forall>m \<in> set ns. k \<le> m"
  shows "orderly A (jb_note p k e (b\<lparr>jb_nums := ns\<rparr>))"
  using assms order_snoc [of "jb_log b" "jb_clock b" p] spent_snoc [of "jb_clock b" "jb_log b" p k]
  by (fastforce simp: orderly_def jb_note_def window_def heard_def)

lemma serve_orderly:
  assumes "orderly A b" "jb_primed b"
  shows "orderly A (jb_serve b)"
proof (cases "jb_nums b")
  case Nil
  have "orderly A (jb_note Conceal (jb_clock b + 1) (jb_empty b + 1) (b\<lparr>jb_nums := []\<rparr>))"
    using assms by (intro note_orderly) (auto simp: heard_def)
  moreover have "b\<lparr>jb_nums := []\<rparr> = b" using Nil by (cases b) simp
  moreover have "in_order (jb_log b @ [Rest])" using assms order_snoc [of "jb_log b" "jb_clock b" Rest] by (simp add: orderly_def)
  ultimately show ?thesis
    using assms Nil by (auto simp: jb_serve_def Let_def orderly_def jb_note_def window_def heard_def)
next
  case (Cons n ns)
  have w: "sorted_wrt (<) (n # ns)" "jb_clock b \<le> n" "n \<in> A" using assms(1) Cons by (auto simp: orderly_def window_def)
  have keep: "b\<lparr>jb_nums := n # ns\<rparr> = b" using Cons by (cases b) simp
  have play: "orderly A (jb_note (Play n) (n + 1) 0 (b\<lparr>jb_nums := ns\<rparr>))"
    using assms w Cons by (intro note_orderly) (auto simp: heard_def)
  have "orderly A (jb_note (Recover n) (jb_clock b + 1) 0 (b\<lparr>jb_nums := n # ns\<rparr>))" if "n = jb_clock b + 1"
    using assms w Cons that by (intro note_orderly) (auto simp: heard_def)
  moreover have "orderly A (jb_note Conceal (jb_clock b + 1) (jb_empty b + 1) (b\<lparr>jb_nums := n # ns\<rparr>))" if "n \<noteq> jb_clock b"
    using assms w Cons that by (intro note_orderly) (auto simp: heard_def)
  ultimately show ?thesis using play Cons unfolding keep by (auto simp: jb_serve_def Let_def)
qed

lemma slot_orderly: "orderly A b \<Longrightarrow> orderly A (jb_slot b)"
proof -
  assume a: "orderly A b"
  have "orderly A (b\<lparr>jb_primed := True, jb_clock := hd (jb_nums b)\<rparr>)" if "\<not> jb_primed b" "\<not> length (jb_nums b) < JITTER_PRE_BUFFER"
    using a that by (cases "jb_nums b") (auto simp: orderly_def window_def JITTER_PRE_BUFFER_def spent_rest)
  then show ?thesis using a serve_orderly by (auto simp: jb_slot_def)
qed

lemma run_orderly:
  "orderly A b \<Longrightarrow> near evs b \<Longrightarrow> orderly (A \<union> {n. Arrive n \<in> set evs}) (jb_run evs b)"
proof (induction evs arbitrary: A b)
  case (Cons ev evs)
  show ?case
  proof (cases ev)
    case (Arrive n)
    then have "orderly (insert n A \<union> {n. Arrive n \<in> set evs}) (jb_run evs (jb_arrive n b))"
      using Cons.prems by (intro Cons.IH arrive_orderly) simp_all
    moreover have "insert n A \<union> {n. Arrive n \<in> set evs} = A \<union> {n. Arrive n \<in> set (ev # evs)}" using Arrive by auto
    ultimately show ?thesis using Arrive by simp
  qed (use Cons slot_orderly in auto)
qed simp

lemma new_orderly: "orderly {} new_jbuf"
  by (simp add: orderly_def new_jbuf_def window_def in_order_def heard_def)

section \<open>Slots\<close>

text \<open>What each slot of a run did, read off the stream before and after it: the decoder calls it made, and whether it
  ended the talk spurt (\<open>primed\<close> went off; the next packets start a new playout position).\<close>

fun voice_slots :: "'f opus \<Rightarrow> (nat \<Rightarrow> bytes) \<Rightarrow> voice_event list \<Rightarrow> 'f user_stream \<times> decode_stats \<Rightarrow> (opus_call list \<times> bool) list" where
  "voice_slots opus msg [] sn = []"
| "voice_slots opus msg (Arrive n # evs) sn = voice_slots opus msg evs (stream_push (of_nat n) (msg n) sn)"
| "voice_slots opus msg (Slot # evs) sn =
     (let sn1 = snd (decode_frame opus sn)
      in (drop (length (us_decoder (fst sn))) (us_decoder (fst sn1)), us_primed (fst sn) \<and> \<not> us_primed (fst sn1))
         # voice_slots opus msg evs sn1)"

text \<open>The same of the reference buffer: what each slot logged, at most one entry.\<close>

definition slot_plays :: "jbuf \<Rightarrow> play list" where
  "slot_plays b = drop (length (jb_log b)) (jb_log (jb_slot b))"

fun jb_slots :: "voice_event list \<Rightarrow> jbuf \<Rightarrow> play list list" where
  "jb_slots [] b = []"
| "jb_slots (Arrive n # evs) b = jb_slots evs (jb_arrive n b)"
| "jb_slots (Slot # evs) b = slot_plays b # jb_slots evs (jb_slot b)"

definition slot_did :: "(nat \<Rightarrow> bytes) \<Rightarrow> play list \<Rightarrow> opus_call list \<times> bool \<Rightarrow> bool" where
  "slot_did msg ps slot \<longleftrightarrow> slot = (concat (map (calls_of msg) ps), ps = [Rest]) \<and> length ps \<le> 1"

lemma serve_logged:
  "\<exists>p. jb_log (jb_serve b) = jb_log b @ [p] \<and> (if p = Rest then jb_nums b = [] \<and> \<not> jb_primed (jb_serve b)
     else jb_primed (jb_serve b) = jb_primed b)"
  by (auto simp: jb_serve_def jb_note_def Let_def split: list.split)

lemma slot_logged:
  "jb_log (jb_slot b) = jb_log b @ slot_plays b \<and> length (slot_plays b) \<le> 1
   \<and> (slot_plays b = [Rest]) = (jb_primed b \<and> \<not> jb_primed (jb_slot b))"
proof -
  have first: "jb_nums b \<noteq> []" if "\<not> length (jb_nums b) < JITTER_PRE_BUFFER" using that by (auto simp: JITTER_PRE_BUFFER_def)
  show ?thesis using serve_logged [of b] serve_logged [of "b\<lparr>jb_primed := True, jb_clock := hd (jb_nums b)\<rparr>"] first
    by (fastforce simp: jb_slot_def slot_plays_def split: if_splits)
qed

lemma slot_matches:
  assumes "implements msg b s"
  shows "slot_did msg (slot_plays b) (drop (length (us_decoder s)) (us_decoder (fst (snd (decode_frame opus (s, st))))),
     us_primed s \<and> \<not> us_primed (fst (snd (decode_frame opus (s, st)))))"
  using assms slot_refines [OF assms, of opus st] slot_logged [of b] by (simp add: slot_did_def implements_def)

lemma slots_match:
  assumes "implements msg b (fst sn)" "near evs b"
  shows "list_all2 (slot_did msg) (jb_slots evs b) (voice_slots opus msg evs sn)
    \<and> us_decoder (fst (voice_run opus msg evs sn)) = us_decoder (fst sn) @ concat (map fst (voice_slots opus msg evs sn))"
  using assms
proof (induction evs arbitrary: b sn)
  case (Cons ev evs)
  show ?case
  proof (cases ev)
    case (Arrive n)
    have i: "implements msg (jb_arrive n b) (fst (stream_push (of_nat n) (msg n) sn))"
      using push_refines [of msg b "fst sn" n "snd sn"] Cons.prems Arrive by simp
    moreover have "us_decoder (fst (stream_push (of_nat n) (msg n) sn)) = us_decoder (fst sn)"
      using i Cons.prems(1) by (simp add: implements_def jb_arrive_def Let_def)
    ultimately show ?thesis using Cons.IH Cons.prems(2) Arrive by simp
  next
    case Slot
    have i: "implements msg (jb_slot b) (fst (snd (decode_frame opus sn)))"
      using slot_refines [OF Cons.prems(1), of opus "snd sn"] by simp
    have m: "slot_did msg (slot_plays b) (drop (length (us_decoder (fst sn))) (us_decoder (fst (snd (decode_frame opus sn)))),
       us_primed (fst sn) \<and> \<not> us_primed (fst (snd (decode_frame opus sn))))"
      using slot_matches [OF Cons.prems(1), of opus "snd sn"] by simp
    moreover have "us_decoder (fst (snd (decode_frame opus sn))) = us_decoder (fst sn)
        @ drop (length (us_decoder (fst sn))) (us_decoder (fst (snd (decode_frame opus sn))))"
      using i Cons.prems(1) slot_logged [of b] by (simp add: implements_def)
    ultimately show ?thesis using Cons.IH [OF i] Cons.prems(2) Slot by (simp add: Let_def)
  qed
qed simp

lemma slots_log: "jb_log (jb_run evs b) = jb_log b @ concat (jb_slots evs b)"
proof (induction evs b rule: jb_slots.induct)
  case (2 n evs b)
  then show ?case by (simp add: jb_arrive_def Let_def)
next
  case (3 evs b)
  then show ?case using slot_logged [of b] by simp
qed simp

text \<open>Between two slots with no end of a spurt from the first on, the log is in order.\<close>

lemma owed_between:
  assumes "in_order (concat log)" "i < j" "j < length log" "\<forall>k. i \<le> k \<and> k < j \<longrightarrow> Rest \<notin> set (log ! k)" "\<forall>ps \<in> set log. length ps \<le> 1"
    and "a \<in> set (owed_by (log ! i))" "b \<in> set (owed_by (log ! j))"
  shows "a < b"
proof -
  define mid where "mid = take (j - i) (drop i log)"
  have cut: "log = take i log @ mid @ log ! j # drop (Suc j) log"
    using assms(2,3) unfolding mid_def by (metis add_diff_inverse_nat append.assoc id_take_nth_drop less_imp_le_nat not_less take_add)
  have m: "mid ! 0 = log ! i" "0 < length mid" using assms(2,3) by (auto simp: mid_def)
  then have hd: "mid = log ! i # tl mid" by (cases mid) auto
  have "length (log ! j) \<le> 1" using assms(3,5) by simp
  then have "Rest \<notin> set (log ! j)" using assms(7) by (cases "log ! j") auto
  moreover have "Rest \<notin> set ps" if "ps \<in> set mid" for ps
  proof -
    obtain k where "k < length mid" "ps = mid ! k" using \<open>ps \<in> set mid\<close> by (metis in_set_conv_nth)
    then show ?thesis using assms(2-4) by (auto simp: mid_def)
  qed
  ultimately have "Rest \<notin> set (concat mid @ log ! j)" by auto
  moreover have "concat log = concat (take i log) @ (concat mid @ log ! j) @ concat (drop (Suc j) log)"
    by (subst cut) simp
  ultimately have "sorted_wrt (<) (owed_by (concat mid @ log ! j))" using assms(1) unfolding in_order_def by blast
  then have "\<forall>x \<in> set (owed_by (concat mid)). \<forall>y \<in> set (owed_by (log ! j)). x < y" by (simp add: sorted_wrt_append)
  moreover have "a \<in> set (owed_by (concat mid))" using assms(6) by (subst hd) simp
  ultimately show ?thesis using assms(7) by blast
qed

text \<open>(C21) Voice is played in order. Whatever the network does to the packets of a speaker, the calls of the decoder
  are those of the slots one after the other; each slot makes the one call its entry \<open>log ! i\<close> of the
  reference buffer says (a packet, the error correction data in a successor, a concealment), or none; and
  when slot \<open>i\<close> comes before slot \<open>j\<close> and the stream ended no talk spurt from \<open>i\<close> on, the sound of slot \<open>i\<close>
  belongs to a smaller packet number than the sound of slot \<open>j\<close>. So within a spurt nothing is decoded twice
  or out of order, across the wrap-around of the 16-bit numbers, and every decoded packet is one that arrived.\<close>

theorem voice_played_in_order:
  assumes "near evs new_jbuf"
  shows "let slots = voice_slots opus msg evs (new_stream F, st); log = jb_slots evs new_jbuf
    in us_decoder (fst (voice_run opus msg evs (new_stream F, st))) = concat (map fst slots)
     \<and> list_all2 (\<lambda>ps (calls, ended). calls = concat (map (calls_of msg) ps) \<and> ended = (ps = [Rest]) \<and> length ps \<le> 1) log slots
     \<and> (\<forall>i j a b. i < j \<and> j < length slots \<and> (\<forall>k. i \<le> k \<and> k < j \<longrightarrow> \<not> snd (slots ! k))
          \<and> a \<in> set (owed_by (log ! i)) \<and> b \<in> set (owed_by (log ! j)) \<longrightarrow> a < b)
     \<and> (\<forall>n. Play n \<in> set (concat log) \<or> Recover n \<in> set (concat log) \<longrightarrow> Arrive n \<in> set evs)"
proof -
  define slots where "slots = voice_slots opus msg evs (new_stream F, st)"
  define log where "log = jb_slots evs new_jbuf"
  have all: "concat log = jb_log (jb_run evs new_jbuf)" using slots_log [of evs new_jbuf] by (simp add: log_def new_jbuf_def)
  have "orderly ({} \<union> {n. Arrive n \<in> set evs}) (jb_run evs new_jbuf)" by (rule run_orderly [OF new_orderly assms])
  then have order: "in_order (concat log)" "heard {n. Arrive n \<in> set evs} (concat log)" by (simp_all add: orderly_def all)
  have slots: "list_all2 (slot_did msg) log slots" "us_decoder (fst (voice_run opus msg evs (new_stream F, st))) = concat (map fst slots)"
    using slots_match [OF _ assms, of msg "(new_stream F, st)" opus] new_implements [of msg F]
    by (simp_all add: slots_def log_def) (simp add: new_stream_def)
  then have did: "length log = length slots" "\<And>k. k < length slots \<Longrightarrow> slot_did msg (log ! k) (slots ! k)"
    by (auto simp: list_all2_conv_all_nth)
  then have one: "\<forall>ps \<in> set log. length ps \<le> 1" by (auto simp: in_set_conv_nth slot_did_def)
  have "a < b" if ij: "i < j" "j < length slots" "\<forall>k. i \<le> k \<and> k < j \<longrightarrow> \<not> snd (slots ! k)"
    "a \<in> set (owed_by (log ! i))" "b \<in> set (owed_by (log ! j))" for i j a b
  proof -
    have "Rest \<notin> set (log ! k)" if "i \<le> k" "k < j" for k
      using did(2) [of k] that ij(2,3) by (cases "log ! k") (auto simp: slot_did_def)
    then show ?thesis using owed_between [OF order(1) ij(1)] ij did(1) one by auto
  qed
  moreover have "slot_did msg = (\<lambda>ps (calls, ended). calls = concat (map (calls_of msg) ps) \<and> ended = (ps = [Rest]) \<and> length ps \<le> 1)"
    by (auto simp: slot_did_def fun_eq_iff)
  ultimately show ?thesis using slots order(2) unfolding slots_def [symmetric] log_def [symmetric] Let_def heard_def
    by (intro conjI) (simp_all, blast)
qed

section \<open>Steady state\<close>

lemma insert_last: "sorted_wrt (<) ns \<Longrightarrow> \<forall>x \<in> set ns. x < n \<Longrightarrow> insert_num n ns = ns @ [n]"
  unfolding insert_num_def by (metis append_Nil2 dropWhile_eq_Nil_conv takeWhile_eq_all_conv)

lemma near_append: "near (xs @ ys) b \<longleftrightarrow> near xs b \<and> near ys (jb_run xs b)"
  by (induction xs b rule: near.induct) auto

lemma run_append: "jb_run (xs @ ys) b = jb_run ys (jb_run xs b)"
  by (induction xs b rule: near.induct) auto

lemma voice_append: "voice_run opus msg (xs @ ys) sn = voice_run opus msg ys (voice_run opus msg xs sn)"
  by (induction opus msg xs sn rule: voice_run.induct) auto

text \<open>One packet per slot; \<open>steady k m b\<close>: the \<open>m\<close> packets from the owed one on are there.\<close>

fun rounds :: "nat \<Rightarrow> nat \<Rightarrow> voice_event list" where
  "rounds n 0 = []"
| "rounds n (Suc r) = Arrive n # Slot # rounds (Suc n) r"

definition steady :: "nat \<Rightarrow> nat \<Rightarrow> jbuf \<Rightarrow> bool" where
  "steady k m b \<longleftrightarrow> jb_on b \<and> jb_primed b \<and> jb_clock b = k \<and> jb_nums b = [k..<k + m]"

lemma steady_step:
  assumes "steady k m b" "1 \<le> m" "m \<le> 9"
  shows "steady (k + 1) m (jb_slot (jb_arrive (k + m) b)) \<and> jb_log (jb_slot (jb_arrive (k + m) b)) = jb_log b @ [Play k]"
proof -
  have "insert_num (k + m) [k..<k + m] = [k..<k + m + 1]" by (subst insert_last) auto
  moreover have "[k..<k + m + 1] = k # [k + 1..<k + 1 + m]" by (simp add: upt_rec)
  ultimately have "jb_arrive (k + m) b = b\<lparr>jb_nums := k # [k + 1..<k + 1 + m]\<rparr>"
    using assms by (simp add: jb_arrive_def steady_def jb_evict_def MAX_JITTER_PACKETS_def)
  then show ?thesis using assms by (simp add: jb_slot_def jb_serve_def jb_note_def steady_def Let_def)
qed

lemma full_step:
  assumes "steady k 10 b"
  shows "steady (k + 2) 9 (jb_slot (jb_arrive (k + 10) b)) \<and> jb_log (jb_slot (jb_arrive (k + 10) b)) = jb_log b @ [Play (k + 1)]"
proof -
  have "insert_num (k + 10) [k..<k + 10] = [k..<k + 10] @ [k + 10]" by (rule insert_last) auto
  moreover have "[k..<k + 10] @ [k + 10] = k # (k + 1) # [k + 2..<k + 2 + 9]" by (simp add: upt_rec)
  ultimately have "jb_arrive (k + 10) b = b\<lparr>jb_nums := (k + 1) # [k + 2..<k + 2 + 9], jb_clock := k + 1, jb_empty := 0\<rparr>"
    using assms by (simp add: jb_arrive_def steady_def jb_evict_def MAX_JITTER_PACKETS_def Let_def)
  then show ?thesis using assms by (simp add: jb_slot_def jb_serve_def jb_note_def steady_def Let_def)
qed

lemma steady_rounds:
  "steady k m b \<Longrightarrow> 1 \<le> m \<Longrightarrow> m \<le> 9 \<Longrightarrow>
    jb_log (jb_run (rounds (k + m) r) b) = jb_log b @ map Play [k..<k + r] \<and> near (rounds (k + m) r) b"
proof (induction r arbitrary: k b)
  case (Suc r)
  note step = steady_step [OF Suc.prems]
  have "near (rounds (k + m) (Suc r)) b" using Suc.IH [OF conjunct1 [OF step] Suc.prems(2,3)] Suc.prems by (simp add: steady_def)
  then show ?case using Suc.IH [OF conjunct1 [OF step] Suc.prems(2,3)] step by (simp add: upt_conv_Cons)
qed simp

lemma full_rounds:
  assumes "steady k 10 b"
  shows "jb_log (jb_run (rounds (k + 10) r) b) = jb_log b @ map Play [k + 1..<k + 1 + r] \<and> near (rounds (k + 10) r) b"
proof (cases r)
  case (Suc q)
  then show ?thesis
    using full_step [OF assms] steady_rounds [of "k + 2" 9 "jb_slot (jb_arrive (k + 10) b)" q] assms
    by (simp add: steady_def upt_conv_Cons)
qed simp

text \<open>(C23) Continuous speech is never concealed: whatever happened before, once a stream plays and holds the packets
  that are due, one packet per slot keeps every slot filled with the next packet, from the owed one
  on; a stream that is full drops that one first and then plays every following packet, so an overrun
  costs one packet and cannot trap the stream in concealment.\<close>

theorem continuous_voice_plays:
  assumes "near evs new_jbuf" "1 \<le> m" "m \<le> MAX_JITTER_PACKETS"
    and "jb_primed (jb_run evs new_jbuf)" "jb_clock (jb_run evs new_jbuf) = k" "jb_nums (jb_run evs new_jbuf) = [k..<k + m]"
  shows "us_decoder (fst (voice_run opus msg (evs @ rounds (k + m) r) (new_stream F, st)))
    = us_decoder (fst (voice_run opus msg evs (new_stream F, st)))
      @ map (\<lambda>n. Opus_Packet (msg n) False) (if m < MAX_JITTER_PACKETS then [k..<k + r] else [k + 1..<k + 1 + r])"
proof -
  let ?b = "jb_run evs new_jbuf" and ?s = "voice_run opus msg evs (new_stream F, st)"
  have ref: "implements msg ?b (fst ?s)" "bounded ?b"
    using run_refines [OF _ _ assms(1), of msg "(new_stream F, st)" opus] new_implements [of msg F] by (simp_all add: bounded_def new_jbuf_def)
  then have b: "steady k m ?b" using assms(4-6) by (simp add: steady_def implements_def window_def)
  define ns where "ns = (if m < MAX_JITTER_PACKETS then [k..<k + r] else [k + 1..<k + 1 + r])"
  have run: "jb_log (jb_run (rounds (k + m) r) ?b) = jb_log ?b @ map Play ns" "near (rounds (k + m) r) ?b"
  proof -
    have "m \<le> 9 \<or> m = 10" using assms(3) by (auto simp: MAX_JITTER_PACKETS_def)
    then show "jb_log (jb_run (rounds (k + m) r) ?b) = jb_log ?b @ map Play ns" "near (rounds (k + m) r) ?b"
      using steady_rounds [OF b assms(2)] full_rounds [of k ?b r] b by (auto simp: ns_def MAX_JITTER_PACKETS_def)
  qed
  have "concat (map (calls_of msg) (map Play ns)) = map (\<lambda>n. Opus_Packet (msg n) False) ns" by (induction ns) simp_all
  then show ?thesis
    using run_refines [OF ref run(2), of opus] ref(1) run(1) unfolding ns_def [symmetric] by (simp add: implements_def run_append voice_append)
qed

text \<open>A talk that wraps around, with a packet lost (65537), one late and one twice.\<close>

definition demo_talk :: "voice_event list" where
  "demo_talk = [Arrive 65534, Arrive 65536, Arrive 65535, Slot, Arrive 65536, Arrive 65538, Slot, Slot, Slot, Slot, Slot, Slot]"

lemma demo_talk_near: "near demo_talk new_jbuf"
  by (simp add: demo_talk_def new_jbuf_def jb_arrive_def insert_num_def jb_evict_def jb_slot_def jb_serve_def jb_note_def
      MAX_JITTER_PACKETS_def JITTER_PRE_BUFFER_def PLC_MAX_FRAMES_def Let_def)

lemma demo_talk_run: "jb_log (jb_run demo_talk new_jbuf) = [Play 65534, Play 65535, Play 65536, Recover 65538, Play 65538, Conceal]"
  by (simp add: demo_talk_def new_jbuf_def jb_arrive_def insert_num_def jb_evict_def jb_slot_def jb_serve_def jb_note_def
      MAX_JITTER_PACKETS_def JITTER_PRE_BUFFER_def PLC_MAX_FRAMES_def Let_def)

definition demo_steps :: "nat \<Rightarrow> bytes" where
  "demo_steps n = [of_nat n]"

text \<open>Integers for samples and a decoder that counts its calls.\<close>

definition demo_floats :: "int floats" where
  "demo_floats = \<lparr>f_lit = (\<lambda>n _. n), f_add = (+), f_sub = (-), f_mul = (*), f_div = (\<lambda>a b. a div b), f_less = (<), f_le = (\<le>),
     f_sqrt = id, f_pow = (\<lambda>_ _. 1), f_finite = (\<lambda>_. True)\<rparr>"

definition demo_opus :: "int opus" where
  "demo_opus calls = (960, replicate 960 (int (length calls)))"

definition demo_stats :: decode_stats where
  "demo_stats = \<lparr>ds_normal = 0, ds_fec = 0, ds_plc = 0, ds_resync = 0\<rparr>"

theorem voice_refines_reference_witness:
  "us_decoder (fst (voice_run demo_opus demo_steps demo_talk (new_stream demo_floats, demo_stats)))
    = [Opus_Packet [254] False, Opus_Packet [255] False, Opus_Packet [0] False, Opus_Packet [2] True, Opus_Packet [2] False, Opus_Conceal]"
  using voice_refines_reference [OF demo_talk_near, of demo_opus demo_steps demo_floats demo_stats] demo_talk_run
  by (simp add: Let_def demo_steps_def)

text \<open>The talk goes on: silence ends the spurt and the speaker starts again, out of order.\<close>

definition demo_pause :: "voice_event list" where
  "demo_pause = demo_talk @ [Slot, Slot, Slot, Slot, Slot, Slot, Slot, Slot, Slot, Slot]
     @ [Arrive 65600, Arrive 65603, Arrive 65602, Arrive 65601, Slot, Slot]"

lemma demo_pause_near: "near demo_pause new_jbuf"
  by (simp add: demo_pause_def demo_talk_def new_jbuf_def jb_arrive_def insert_num_def jb_evict_def jb_slot_def jb_serve_def jb_note_def
      MAX_JITTER_PACKETS_def JITTER_PRE_BUFFER_def PLC_MAX_FRAMES_def Let_def)

lemma demo_pause_slots:
  "jb_slots demo_pause new_jbuf = [[], [Play 65534], [Play 65535], [Play 65536], [Recover 65538], [Play 65538], [Conceal], [Conceal],
     [Conceal], [Conceal], [Conceal], [Conceal], [Conceal], [Conceal], [Conceal], [Conceal], [Rest], [Play 65600], [Play 65601]]"
  by (simp add: demo_pause_def demo_talk_def new_jbuf_def jb_arrive_def insert_num_def jb_evict_def jb_slot_def jb_serve_def jb_note_def
      slot_plays_def MAX_JITTER_PACKETS_def JITTER_PRE_BUFFER_def PLC_MAX_FRAMES_def Let_def)

text \<open>What the slots did, and the order of the first spurt: the packet numbered 65535 came after the one numbered 65536.\<close>

theorem voice_played_in_order_witness:
  "let slots = voice_slots demo_opus demo_steps demo_pause (new_stream demo_floats, demo_stats)
   in slots = map (\<lambda>ps. (concat (map (calls_of demo_steps) ps), ps = [Rest])) (jb_slots demo_pause new_jbuf)
      \<and> map fst (take 6 slots) = [[], [Opus_Packet [254] False], [Opus_Packet [255] False], [Opus_Packet [0] False],
          [Opus_Packet [2] True], [Opus_Packet [2] False]]
      \<and> map snd slots =
        [False, False, False, False, False, False, False, False, False, False, False, False, False, False, False, False, True, False, False]
      \<and> (\<forall>a \<in> set (owed_by (jb_slots demo_pause new_jbuf ! 2)). \<forall>b \<in> set (owed_by (jb_slots demo_pause new_jbuf ! 3)). a < b)"
proof -
  define slots where "slots = voice_slots demo_opus demo_steps demo_pause (new_stream demo_floats, demo_stats)"
  note t = voice_played_in_order [OF demo_pause_near, of demo_opus demo_steps demo_floats demo_stats, folded slots_def, unfolded Let_def]
  have "list_all2 (\<lambda>ps slot. slot = (concat (map (calls_of demo_steps) ps), ps = [Rest])) (jb_slots demo_pause new_jbuf) slots"
    by (rule list_all2_mono [OF t [THEN conjunct2, THEN conjunct1]]) auto
  then have slots: "slots = map (\<lambda>ps. (concat (map (calls_of demo_steps) ps), ps = [Rest])) (jb_slots demo_pause new_jbuf)"
    by (auto simp: list_all2_conv_all_nth intro!: nth_equalityI)
  moreover have "map snd slots =
        [False, False, False, False, False, False, False, False, False, False, False, False, False, False, False, False, True, False, False]"
    unfolding slots demo_pause_slots by simp
  moreover have "map fst (take 6 slots) = [[], [Opus_Packet [254] False], [Opus_Packet [255] False], [Opus_Packet [0] False],
      [Opus_Packet [2] True], [Opus_Packet [2] False]]"
    unfolding slots demo_pause_slots by (simp add: demo_steps_def)
  moreover have "2 < (3::nat) \<and> 3 < length slots \<and> (\<forall>k. 2 \<le> k \<and> k < 3 \<longrightarrow> \<not> snd (slots ! k))"
    unfolding slots demo_pause_slots by (auto simp: less_Suc_eq_le numeral_3_eq_3)
  then have "\<forall>a \<in> set (owed_by (jb_slots demo_pause new_jbuf ! 2)). \<forall>b \<in> set (owed_by (jb_slots demo_pause new_jbuf ! 3)). a < b"
    using t [THEN conjunct2, THEN conjunct2, THEN conjunct1] by blast
  ultimately show ?thesis unfolding slots_def [symmetric] Let_def by blast
qed

definition demo_start :: "voice_event list" where
  "demo_start = [Arrive 0, Arrive 1, Arrive 2, Arrive 3, Slot]"

theorem continuous_voice_plays_witness:
  "us_decoder (fst (voice_run demo_opus demo_steps (demo_start @ rounds 4 5) (new_stream demo_floats, demo_stats)))
    = us_decoder (fst (voice_run demo_opus demo_steps demo_start (new_stream demo_floats, demo_stats)))
      @ map (\<lambda>n. Opus_Packet (demo_steps n) False) [1..<6]"
  using continuous_voice_plays [of demo_start 3 1 demo_opus demo_steps 5 demo_floats demo_stats]
  by (simp add: demo_start_def new_jbuf_def jb_arrive_def insert_num_def jb_evict_def jb_slot_def jb_serve_def jb_note_def
      MAX_JITTER_PACKETS_def JITTER_PRE_BUFFER_def PLC_MAX_FRAMES_def Let_def upt_rec)

end
