(* ===== verification/Voice_Mixing.thy ===== *)
theory Voice_Mixing
  imports Voice_Proofs
begin

text \<open>
  The audio callback: a device may ask for any number of samples at a time. The mix of a whole
  session does not depend on how the device cuts it into callbacks, because every stream keeps its
  own cursor into the decoded frame. (The compressor is the exception: it adjusts its gain once per
  piece copied, so the theorem is about streams that do not use it.)
\<close>

section \<open>The state of a mixer\<close>

definition framed :: "'f user_stream \<Rightarrow> bool" where
  "framed s \<longleftrightarrow> length (us_pcm s) = OPUS_FRAME_SIZE \<and> us_pos s \<le> OPUS_FRAME_SIZE"

inductive mixer_reach :: "'f floats \<Rightarrow> 'f opus \<Rightarrow> 'f mixer \<Rightarrow> bool" for F opus where
  New: "mixer_reach F opus (new_mixer F makeup)"
| Push: "mixer_reach F opus m \<Longrightarrow> mixer_reach F opus (fst (push_packet F u seq d m))"
| Mix: "mixer_reach F opus m \<Longrightarrow> mixer_reach F opus (snd (mix_output F opus now k m))"
| Remove: "mixer_reach F opus m \<Longrightarrow> mixer_reach F opus (remove_user u m)"
| Clear: "mixer_reach F opus m \<Longrightarrow> mixer_reach F opus (mixer_clear m)"
| Volume: "mixer_reach F opus m \<Longrightarrow> mixer_reach F opus (set_user_volume F u v m)"
| Master: "mixer_reach F opus m \<Longrightarrow> mixer_reach F opus (set_master_volume F v m)"
| Compression: "mixer_reach F opus m \<Longrightarrow> mixer_reach F opus (set_user_compression F u on target m)"

definition framed_mixer :: "'f mixer \<Rightarrow> bool" where
  "framed_mixer m \<longleftrightarrow> (\<forall>(u, s) \<in> set (mx_streams m). framed s)"

lemma slot_pcm [simp]:
  "us_pcm (fst (snd (conceal_slot opus sn))) = us_pcm (fst sn)" "us_pos (fst (snd (conceal_slot opus sn))) = us_pos (fst sn)"
  "us_pcm (fst (snd (play_front opus sn))) = us_pcm (fst sn)" "us_pos (fst (snd (play_front opus sn))) = us_pos (fst sn)"
  "us_pcm (fst (snd (recover_slot opus sn))) = us_pcm (fst sn)" "us_pos (fst (snd (recover_slot opus sn))) = us_pos (fst sn)"
  by (simp_all add: conceal_slot_def play_front_def recover_slot_def us_decode_def case_prod_unfold Let_def)

lemma refill_framed: "framed (fst (refill_pcm F opus now sn))"
  by (auto simp: refill_pcm_def framed_def opus_frame_def case_prod_unfold Let_def)

lemma compress_keeps [simp]:
  "us_pcm (compress_step F s) = us_pcm s" "us_pos (compress_step F s) = us_pos s"
  by (simp_all add: compress_step_def Let_def)

definition ready :: "'f floats \<Rightarrow> 'f opus \<Rightarrow> int \<Rightarrow> 'f user_stream \<times> decode_stats \<Rightarrow> 'f user_stream \<times> decode_stats" where
  "ready F opus now sn = (if us_pos (fst sn) \<ge> OPUS_FRAME_SIZE then refill_pcm F opus now sn else sn)"

definition piece :: "'f floats \<Rightarrow> nat \<Rightarrow> 'f user_stream \<Rightarrow> 'f list" where
  "piece F c s = map (\<lambda>x. f_mul F x (stream_volume F (compress_step F s))) (take c (drop (us_pos s) (us_pcm s)))"

definition advance :: "'f floats \<Rightarrow> nat \<Rightarrow> 'f user_stream \<Rightarrow> 'f user_stream" where
  "advance F c s = (compress_step F s)\<lparr>us_pos := us_pos s + c\<rparr>"

lemma mix_user_0 [simp]: "mix_user F opus now 0 sn = ([], sn)"
  by (simp add: mix_user.simps)

lemma mix_user_step:
  assumes "k \<noteq> 0" "ready F opus now sn = (s, n)" "c = min k (OPUS_FRAME_SIZE - us_pos s)"
  shows "fst (mix_user F opus now k sn) = piece F c s @ fst (mix_user F opus now (k - c) (advance F c s, n))"
    "snd (mix_user F opus now k sn) = snd (mix_user F opus now (k - c) (advance F c s, n))"
  using assms by (simp_all add: mix_user.simps [of F opus now k sn] ready_def piece_def advance_def case_prod_unfold Let_def)

lemma ready_pos: "ready F opus now sn = (s, n) \<Longrightarrow> us_pos s < OPUS_FRAME_SIZE"
  using refill_pos [of F opus now sn] by (auto simp: ready_def OPUS_FRAME_SIZE_def split: if_splits)

lemma mix_induct [case_names none step]:
  assumes "\<And>sn. P 0 sn"
    and "\<And>k sn s n c. k \<noteq> 0 \<Longrightarrow> ready F opus now sn = (s, n) \<Longrightarrow> c = min k (OPUS_FRAME_SIZE - us_pos s) \<Longrightarrow> 0 < c \<Longrightarrow>
           P (k - c) (advance F c s, n) \<Longrightarrow> P k sn"
  shows "P k sn"
proof (induction k arbitrary: sn rule: less_induct)
  case (less k)
  show ?case
  proof (cases "k = 0")
    case False
    obtain s n where sn: "ready F opus now sn = (s, n)" by fastforce
    show ?thesis by (rule assms(2) [OF False sn refl]) (use False ready_pos [OF sn] in \<open>auto intro!: less\<close>)
  qed (simp add: assms(1))
qed

lemma ready_framed: "framed (fst sn) \<Longrightarrow> ready F opus now sn = (s, n) \<Longrightarrow> framed s"
  using refill_framed [of F opus now sn] by (auto simp: ready_def split: if_splits)

lemma mix_user_framed:
  "framed (fst sn) \<Longrightarrow> framed (fst (snd (mix_user F opus now k sn))) \<and> length (fst (mix_user F opus now k sn)) = k"
proof (induction k sn rule: mix_induct [where F = F and opus = opus and now = now])
  case (step k sn s n c)
  have s: "framed s" by (rule ready_framed [OF step.prems step.hyps(2)])
  then have "framed (advance F c s)" using step.hyps(3) by (auto simp: framed_def advance_def)
  then show ?case using step.IH step.hyps s by (auto simp: mix_user_step [OF step.hyps(1-3)] piece_def framed_def)
qed simp

section \<open>What the output does not depend on\<close>

text \<open>The counters and the activity deadline are written but never read by the mix.\<close>

abbreviation stamped :: "int \<Rightarrow> 'f user_stream \<Rightarrow> 'f user_stream" where
  "stamped x s \<equiv> s\<lparr>us_active_until := x\<rparr>"

lemma us_decode_stamped: "us_decode opus c (stamped x s) = (fst (us_decode opus c s), stamped x (snd (us_decode opus c s)))"
  by (simp add: us_decode_def)

definition slot_alike :: "int \<Rightarrow> 'f slot \<Rightarrow> 'f slot \<Rightarrow> bool" where
  "slot_alike x a b \<longleftrightarrow> fst b = fst a \<and> fst (snd b) = stamped x (fst (snd a))"

lemma slots_alike:
  "slot_alike x (conceal_slot opus (s, n)) (conceal_slot opus (stamped x s, n'))"
  "slot_alike x (play_front opus (s, n)) (play_front opus (stamped x s, n'))"
  "slot_alike x (recover_slot opus (s, n)) (recover_slot opus (stamped x s, n'))"
  by (simp_all add: slot_alike_def conceal_slot_def play_front_def recover_slot_def us_decode_def case_prod_unfold Let_def)

lemma stamp_swap:
  "stamped x s\<lparr>us_next := a\<rparr> = stamped x (s\<lparr>us_next := a\<rparr>)" "stamped x s\<lparr>us_queue := q\<rparr> = stamped x (s\<lparr>us_queue := q\<rparr>)"
  "stamped x s\<lparr>us_empty := e\<rparr> = stamped x (s\<lparr>us_empty := e\<rparr>)" "stamped x s\<lparr>us_primed := b\<rparr> = stamped x (s\<lparr>us_primed := b\<rparr>)"
  "stamped x s\<lparr>us_has_seq := b\<rparr> = stamped x (s\<lparr>us_has_seq := b\<rparr>)"
  by simp_all

lemma serve_alike: "slot_alike x (serve_front opus (s, n)) (serve_front opus (stamped x s, n'))"
  by (simp add: serve_front_def Let_def stamp_swap slots_alike del: user_stream.update_convs)

lemma primed_alike: "slot_alike x (primed_slot opus (s, n)) (primed_slot opus (stamped x s, n'))"
  by (simp add: primed_slot_def Let_def stamp_swap slots_alike serve_alike del: user_stream.update_convs)
    (simp add: slot_alike_def)

lemma decode_alike: "slot_alike x (decode_frame opus (s, n)) (decode_frame opus (stamped x s, n'))"
  by (simp add: decode_frame_def Let_def stamp_swap primed_alike del: user_stream.update_convs)
    (simp add: slot_alike_def)

lemma refill_alike: "\<exists>y. fst (refill_pcm F opus now' (stamped x s, n')) = stamped y (fst (refill_pcm F opus now (s, n)))"
  using decode_alike [of x opus s n n']
  by (cases "fst (snd (decode_frame opus (s, n)))") (auto simp: refill_pcm_def slot_alike_def case_prod_unfold Let_def)

lemma compress_alike: "compress_step F (stamped x s) = stamped x (compress_step F s)"
  by (simp add: compress_step_def Let_def)

lemma volume_alike [simp]: "stream_volume F (stamped x s) = stream_volume F s"
  by (simp add: stream_volume_def)

lemma ready_alike:
  assumes "ready F opus now sn = (s, n)"
  shows "\<exists>y m. ready F opus now' (stamped x (fst sn), n') = (stamped y s, m)"
proof (cases "us_pos (fst sn) \<ge> OPUS_FRAME_SIZE")
  case True
  then have "s = fst (refill_pcm F opus now (fst sn, snd sn))" using assms by (simp add: ready_def)
  then show ?thesis using True refill_alike [of F opus now' x "fst sn" n' now "snd sn"]
    by (auto simp: ready_def) (metis prod.collapse)
qed (use assms in \<open>auto simp: ready_def\<close>)

lemma piece_alike: "piece F c (stamped y s) = piece F c s"
  by (simp add: piece_def compress_alike)

lemma advance_alike: "advance F c (stamped y s) = stamped y (advance F c s)"
  by (simp add: advance_def compress_alike)

lemma mix_user_alike:
  "\<exists>y. fst (mix_user F opus now' k (stamped x (fst sn), n')) = fst (mix_user F opus now k sn)
     \<and> fst (snd (mix_user F opus now' k (stamped x (fst sn), n'))) = stamped y (fst (snd (mix_user F opus now k sn)))"
proof (induction k sn arbitrary: x n' rule: mix_induct [where F = F and opus = opus and now = now])
  case (step k sn s n c)
  obtain y m where r: "ready F opus now' (stamped x (fst sn), n') = (stamped y s, m)"
    using ready_alike [OF step.hyps(2)] by blast
  have c: "c = min k (OPUS_FRAME_SIZE - us_pos (stamped y s))" using step.hyps(3) by simp
  show ?case using step.IH [of y m]
    by (simp add: mix_user_step [OF step.hyps(1-3)] mix_user_step [OF step.hyps(1) r c] piece_alike advance_alike)
qed auto

section \<open>Cutting a request in two\<close>

lemma slot_compress [simp]:
  "us_compress (fst (snd (conceal_slot opus sn))) = us_compress (fst sn)"
  "us_compress (fst (snd (play_front opus sn))) = us_compress (fst sn)"
  "us_compress (fst (snd (recover_slot opus sn))) = us_compress (fst sn)"
  by (simp_all add: conceal_slot_def play_front_def recover_slot_def us_decode_def case_prod_unfold Let_def)

lemma serve_compress [simp]: "us_compress (fst (snd (serve_front opus sn))) = us_compress (fst sn)"
  by (simp add: serve_front_def case_prod_unfold Let_def)

lemma primed_compress [simp]: "us_compress (fst (snd (primed_slot opus sn))) = us_compress (fst sn)"
  by (simp add: primed_slot_def case_prod_unfold Let_def)

lemma decode_compress [simp]: "us_compress (fst (snd (decode_frame opus sn))) = us_compress (fst sn)"
  by (simp add: decode_frame_def case_prod_unfold)

lemma ready_compress: "ready F opus now sn = (s, n) \<Longrightarrow> us_compress s = us_compress (fst sn)"
  by (auto simp: ready_def refill_pcm_def case_prod_unfold Let_def split: if_splits)

lemma advance_compress [simp]: "us_compress (advance F c s) = us_compress s"
  by (simp add: advance_def compress_step_def Let_def)

lemma advance_plain: "\<not> us_compress s \<Longrightarrow> advance F c s = s\<lparr>us_pos := us_pos s + c\<rparr>"
  by (simp add: advance_def compress_step_def)

lemma piece_plain: "\<not> us_compress s \<Longrightarrow>
    piece F c s = map (\<lambda>x. f_mul F x (stream_volume F s)) (take c (drop (us_pos s) (us_pcm s)))"
  by (simp add: piece_def compress_step_def)

lemma piece_split:
  "\<not> us_compress s \<Longrightarrow> piece F (a + b) s = piece F a s @ piece F b (advance F a s)"
  "\<not> us_compress s \<Longrightarrow> advance F (a + b) s = advance F b (advance F a s)"
  by (simp_all add: piece_plain advance_plain take_add stream_volume_def add.commute add.left_commute)

lemma mix_user_split:
  assumes "\<not> us_compress (fst sn)"
  shows "fst (mix_user F opus now (j + k) sn) = fst (mix_user F opus now j sn) @ fst (mix_user F opus now k (snd (mix_user F opus now j sn)))
    \<and> snd (mix_user F opus now (j + k) sn) = snd (mix_user F opus now k (snd (mix_user F opus now j sn)))"
  using assms
proof (induction j sn rule: mix_induct [where F = F and opus = opus and now = now])
  case (step j sn s n c)
  have plain: "\<not> us_compress s" using ready_compress [OF step.hyps(2)] step.prems by simp
  note one = mix_user_step [OF step.hyps(1-3)]
  show ?case
  proof (cases "OPUS_FRAME_SIZE - us_pos s \<le> j")
    case True
    then have "c = min (j + k) (OPUS_FRAME_SIZE - us_pos s)" "j + k \<noteq> 0" "j + k - c = j - c + k" using step.hyps by auto
    from mix_user_step [OF this(2) step.hyps(2) this(1)] this(3) show ?thesis using step.IH plain one by simp
  next
    case short: False
    then have c: "c = j" using step.hyps(3) by simp
    show ?thesis
    proof (cases "k = 0")
      case False
      define d where "d = min k (OPUS_FRAME_SIZE - us_pos (advance F j s))"
      have "ready F opus now (advance F j s, n) = (advance F j s, n)"
        using short plain by (auto simp: ready_def advance_plain)
      note two = mix_user_step [OF False this d_def]
      have "j + d = min (j + k) (OPUS_FRAME_SIZE - us_pos s)" "j + k \<noteq> 0" "j + k - (j + d) = k - d"
        using short plain False by (auto simp: d_def advance_plain)
      from mix_user_step [OF this(2) step.hyps(2) this(1)] this(3) show ?thesis
        using one two plain by (simp add: c piece_split)
    qed simp
  qed
qed simp

section \<open>The whole mix\<close>

lemma map2_append: "length as = length bs \<Longrightarrow> map2 f (as @ cs) (bs @ ds) = map2 f as bs @ map2 f cs ds"
  by simp

definition alike :: "(u32 \<times> 'f user_stream) list \<Rightarrow> (u32 \<times> 'f user_stream) list \<Rightarrow> bool" where
  "alike xs ys \<longleftrightarrow> list_all2 (\<lambda>(u, s) (v, t). v = u \<and> (\<exists>y. t = stamped y s)) xs ys"

lemma mix_streams_Cons:
  "fst (mix_streams F opus now k ((u, s) # us) n out)
    = fst (mix_streams F opus now k us (snd (snd (mix_user F opus now k (s, n)))) (map2 (f_add F) out (fst (mix_user F opus now k (s, n)))))"
  "fst (snd (mix_streams F opus now k ((u, s) # us) n out)) = (u, fst (snd (mix_user F opus now k (s, n))))
    # fst (snd (mix_streams F opus now k us (snd (snd (mix_user F opus now k (s, n)))) (map2 (f_add F) out (fst (mix_user F opus now k (s, n))))))"
  by (simp_all add: case_prod_unfold Let_def)

declare mix_streams.simps(2) [simp del]

lemma alike_Cons: "alike ((u, s) # us) vs \<longleftrightarrow> (\<exists>x ws. vs = (u, stamped x s) # ws \<and> alike us ws)"
  by (auto simp: alike_def list_all2_Cons1)

lemma mix_streams_alike:
  "alike us vs \<Longrightarrow> fst (mix_streams F opus now' k vs n' out) = fst (mix_streams F opus now k us n out)
     \<and> alike (fst (snd (mix_streams F opus now k us n out))) (fst (snd (mix_streams F opus now' k vs n' out)))"
proof (induction us arbitrary: vs n n' out)
  case Nil
  then show ?case by (simp add: alike_def)
next
  case (Cons a us)
  obtain u s where a: "a = (u, s)" by fastforce
  with Cons.prems obtain x ws where vs: "vs = (u, stamped x s) # ws" "alike us ws" by (auto simp: alike_Cons)
  obtain y where y: "fst (mix_user F opus now' k (stamped x s, n')) = fst (mix_user F opus now k (s, n))"
    "fst (snd (mix_user F opus now' k (stamped x s, n'))) = stamped y (fst (snd (mix_user F opus now k (s, n))))"
    using mix_user_alike [of F opus now' k x "(s, n)" n' now] by auto
  show ?case using Cons.IH [OF vs(2)] y unfolding a vs(1) by (auto simp: mix_streams_Cons alike_Cons)
qed

lemma mix_streams_keep:
  assumes "\<forall>(u, s) \<in> set us. framed s"
  shows "(\<forall>(u, s) \<in> set (fst (snd (mix_streams F opus now k us n out))). framed s)
    \<and> map fst (fst (snd (mix_streams F opus now k us n out))) = map fst us"
  using assms
proof (induction us arbitrary: n out)
  case (Cons a us)
  then show ?case using mix_user_framed [of "(snd a, n)" F opus now k]
    by (cases a) (fastforce simp: mix_streams_Cons)
qed simp

text \<open>What two requests put together give; the counters may differ.\<close>

lemma mix_streams_split:
  assumes "\<forall>(u, s) \<in> set us. framed s \<and> \<not> us_compress s" "length o1 = j" "length o2 = k"
  shows "fst (mix_streams F opus now (j + k) us n (o1 @ o2))
    = fst (mix_streams F opus now j us n' o1) @ fst (mix_streams F opus now' k (fst (snd (mix_streams F opus now j us n' o1))) n'' o2)"
  using assms
proof (induction us arbitrary: n n' n'' o1 o2)
  case (Cons a us)
  obtain u s where a: "a = (u, s)" by fastforce
  have s: "framed s" "\<not> us_compress s" using Cons.prems a by auto
  let ?one = "mix_user F opus now j (s, n)" and ?one' = "mix_user F opus now j (s, n')"
  let ?two = "mix_user F opus now k (snd ?one)" and ?two' = "mix_user F opus now' k (fst (snd ?one'), n'')"
  have whole: "fst (mix_user F opus now (j + k) (s, n)) = fst ?one @ fst ?two"
    using mix_user_split [of "(s, n)" F opus now j k] s by simp
  obtain y where y: "fst ?one' = fst ?one" "fst (snd ?one') = stamped y (fst (snd ?one))"
    using mix_user_alike [of F opus now j "us_active_until s" "(s, n)" n' now] by auto
  have two: "fst ?two' = fst ?two"
    using mix_user_alike [of F opus now' k y "snd ?one" n'' now] y by auto
  have len: "length (fst ?one) = j" "length (fst ?two) = k"
    using mix_user_framed s(1) by (metis fst_conv)+
  have "map2 (f_add F) (o1 @ o2) (fst ?one @ fst ?two) = map2 (f_add F) o1 (fst ?one) @ map2 (f_add F) o2 (fst ?two)"
    using Cons.prems(2) len by simp
  then show ?case
    using Cons.IH [of "map2 (f_add F) o1 (fst ?one)" "map2 (f_add F) o2 (fst ?two)" "snd (snd (mix_user F opus now (j + k) (s, n)))"
        "snd (snd ?one')" "snd (snd ?two')"] Cons.prems len
    unfolding a by (simp add: mix_streams_Cons whole y(1) two)
qed simp

section \<open>Every mixer\<close>

lemma push_framed: "framed s \<Longrightarrow> framed (fst (stream_push seq d (s, n)))"
  by (auto simp: stream_push_def evict_front_def framed_def Let_def split: option.split)

lemma update_sub: "set (AList.update u s xs) \<subseteq> insert (u, s) (set xs)"
  by (induction xs) auto

lemma delete_sub: "set (AList.delete u xs) \<subseteq> set xs"
  by (auto simp: AList.delete_eq)

lemma upd_framed: "(\<And>s. framed s \<Longrightarrow> framed (f s)) \<Longrightarrow> framed_mixer m \<Longrightarrow> framed_mixer (mixer_upd u f m)"
  by (auto simp: framed_mixer_def mixer_upd_def dest!: map_of_SomeD split: option.split dest!: update_sub [THEN subsetD])

lemma reach_framed: "mixer_reach F opus m \<Longrightarrow> framed_mixer m"
proof (induction rule: mixer_reach.induct)
  case (Push m u seq d)
  have "framed (case map_of (mx_streams m) u of None \<Rightarrow> new_stream F | Some s \<Rightarrow> s)"
    using Push.IH by (auto simp: framed_mixer_def framed_def new_stream_def dest!: map_of_SomeD split: option.split)
  then show ?case using Push.IH push_framed
    by (auto simp: framed_mixer_def push_packet_def case_prod_unfold Let_def dest!: update_sub [THEN subsetD])
next
  case (Mix m now k)
  then show ?case using mix_streams_keep [of "mx_streams m"]
    by (auto simp: framed_mixer_def mix_output_def case_prod_unfold Let_def)
next
  case (Volume m u v)
  then show ?case unfolding set_user_volume_def by (intro upd_framed) (simp_all add: framed_def)
next
  case (Compression m u on target)
  then show ?case unfolding set_user_compression_def by (intro upd_framed) (simp_all add: framed_def)
qed (auto simp: framed_mixer_def new_mixer_def remove_user_def mixer_clear_def set_master_volume_def dest!: delete_sub [THEN subsetD])

text \<open>(C24) How an audio device cuts its requests does not matter: in every state the mixer reaches, as long as no
  speaker is compressed, asking for \<open>j\<close> samples and then for \<open>k\<close> plays exactly what asking for \<open>j + k\<close>
  at once would have played, whatever the time of the calls; no sample is skipped or repeated at the
  seam of two callbacks or of two decoded frames.\<close>

theorem callbacks_concatenate:
  assumes "mixer_reach F opus m" "\<forall>(u, s) \<in> set (mx_streams m). \<not> us_compress s"
  shows "fst (mix_output F opus now (j + k) m)
    = fst (mix_output F opus now j m) @ fst (mix_output F opus now' k (snd (mix_output F opus now j m)))"
proof -
  have f: "\<forall>(u, s) \<in> set (mx_streams m). framed s \<and> \<not> us_compress s"
    using reach_framed [OF assms(1)] assms(2) by (auto simp: framed_mixer_def)
  let ?one = "mix_streams F opus now j (mx_streams m) (mx_stats m) (replicate j (f_zero F))"
  have "map fst (fst (snd ?one)) = map fst (mx_streams m)" using mix_streams_keep f by fastforce
  then have "fst (snd ?one) = [] \<longleftrightarrow> mx_streams m = []" by (metis map_is_Nil_conv)
  then show ?thesis
    using mix_streams_split [OF f, of "replicate j (f_zero F)" j "replicate k (f_zero F)" k F opus now "mx_stats m" "mx_stats m"
        now' "snd (snd ?one)"]
    by (simp add: mix_output_def case_prod_unfold Let_def replicate_add)
qed

text \<open>A mixer with one speaker.\<close>

definition demo_mixer :: "int mixer" where
  "demo_mixer = fst (push_packet demo_floats 7 65535 [1, 2] (new_mixer demo_floats False))"

lemma demo_mixer_streams: "\<exists>s. mx_streams demo_mixer = [(7, s)] \<and> \<not> us_compress s"
  by (auto simp: demo_mixer_def push_packet_def new_mixer_def new_stream_def stream_push_def evict_front_def case_prod_unfold Let_def
      split: option.split)

theorem callbacks_concatenate_witness:
  "fst (mix_output demo_floats demo_opus 0 (480 + 700) demo_mixer)
    = fst (mix_output demo_floats demo_opus 0 480 demo_mixer)
      @ fst (mix_output demo_floats demo_opus 10000000 700 (snd (mix_output demo_floats demo_opus 0 480 demo_mixer)))"
proof (rule callbacks_concatenate)
  show "mixer_reach demo_floats demo_opus demo_mixer" unfolding demo_mixer_def by (intro mixer_reach.intros)
  show "\<forall>(u, s) \<in> set (mx_streams demo_mixer). \<not> us_compress s" using demo_mixer_streams by auto
qed

end
