(* ===== verification/Video_Decode.thy ===== *)
theory Video_Decode
  imports Video_Common Protocol
begin

text \<open>
  From a received frame to the decoder of the Windows client: the sequence gate
  (\<open>client/include/client/video_decode_gate.h\<close>), the backlog rules and the tracker that keeps a slow
  decoder from asking for keyframes all the time (\<open>video_decode_backlog.h\<close>), and the two threads that
  meet at a watched stream's queue (\<open>App::enqueue_decode_work\<close> on the receiving side, \<open>App::decode_loop\<close>
  on the stream's own thread, \<open>client/src/windows/app.cpp\<close>).

  The two threads interleave at the granularity of the queue mutex: a step is one frame received, or
  the decode thread taking the queue, judging the batch it took, or decoding one frame of it. The
  video decoder is outside: whether it is created, decodes, delivers and loses its context is an
  input of the step. Keyframe requests (\<open>AppCore::send_pli\<close>) and decoder calls are logged in order.
\<close>

section \<open>The sequence gate\<close>

datatype decode_decision = Accept | DropUntilKeyframe | Discontinuity

record decode_gate =
  dg_last :: u32
  dg_have :: bool
  dg_awaiting :: bool

definition new_decode_gate :: decode_gate where
  "new_decode_gate = \<lparr>dg_last = 0, dg_have = False, dg_awaiting = True\<rparr>"

definition gate_require_keyframe :: "decode_gate \<Rightarrow> decode_gate" where
  "gate_require_keyframe g = g\<lparr>dg_awaiting := True, dg_have := False\<rparr>"

definition gate_on_frame :: "u32 \<Rightarrow> bool \<Rightarrow> decode_gate \<Rightarrow> decode_decision \<times> decode_gate" where
  "gate_on_frame n key g =
     (if dg_awaiting g
      then if \<not> key then (DropUntilKeyframe, g)
           else (Accept, g\<lparr>dg_awaiting := False, dg_have := True, dg_last := n\<rparr>)
      else if key then (Accept, g\<lparr>dg_have := True, dg_last := n\<rparr>)
      else if \<not> dg_have g \<or> n \<noteq> dg_last g + 1 then (Discontinuity, gate_require_keyframe g)
      else (Accept, g\<lparr>dg_last := n\<rparr>))"

section \<open>Backlog rules\<close>

definition kVideoDecodeBacklogWarningFrames :: nat where
  "kVideoDecodeBacklogWarningFrames = 10"

definition kVideoDecodeBacklogHardLimitFrames :: nat where
  "kVideoDecodeBacklogHardLimitFrames = 60"

definition kVideoDecodeBacklogMaxAgeUs :: int where
  "kVideoDecodeBacklogMaxAgeUs = 500000"

definition kVideoDecodeStaleFlushPliLimit :: u32 where
  "kVideoDecodeStaleFlushPliLimit = 2"

definition kVideoDecodeStaleFlushSlowPliUs :: int where
  "kVideoDecodeStaleFlushSlowPliUs = 5000000"

definition kVideoDecodeStaleFlushRecoveryUs :: int where
  "kVideoDecodeStaleFlushRecoveryUs = 4000000"

text \<open>The loop of \<open>trim_to_latest_keyframe\<close>: frames still to look at, retained ones, and the result.\<close>

fun trim_loop :: "('w \<Rightarrow> bool) \<Rightarrow> 'w list \<Rightarrow> 'w list \<Rightarrow> bool \<Rightarrow> nat \<Rightarrow> 'w list \<times> bool \<times> nat" where
  "trim_loop is_key [] retained found dropped = (retained, found, dropped)"
| "trim_loop is_key (w # ws) retained found dropped =
     (if is_key w then trim_loop is_key ws [w] True (dropped + length retained)
      else trim_loop is_key ws (retained @ [w]) found dropped)"

definition trim_to_latest_keyframe :: "('w \<Rightarrow> bool) \<Rightarrow> 'w list \<Rightarrow> 'w list \<times> bool \<times> nat" where
  "trim_to_latest_keyframe is_key frames = trim_loop is_key frames [] False 0"

definition should_resync_decode_backlog :: "nat \<Rightarrow> bool \<Rightarrow> bool \<Rightarrow> bool" where
  "should_resync_decode_backlog retained found ready \<longleftrightarrow>
     ready \<and> \<not> found \<and> retained > kVideoDecodeBacklogHardLimitFrames"

definition should_resync_stale_decode_backlog :: "int \<Rightarrow> int \<Rightarrow> bool \<Rightarrow> bool \<Rightarrow> bool" where
  "should_resync_stale_decode_backlog oldest now found ready \<longleftrightarrow>
     ready \<and> \<not> found \<and> now - oldest \<ge> kVideoDecodeBacklogMaxAgeUs"

section \<open>The tracker of flushes\<close>

record flush_tracker =
  ft_row :: u32
  ft_resumed :: bool
  ft_resumed_us :: int
  ft_requested_us :: int

definition new_tracker :: flush_tracker where
  "new_tracker = \<lparr>ft_row = 0, ft_resumed = False, ft_resumed_us = 0, ft_requested_us = 0\<rparr>"

definition should_request_keyframe_after_stale_flush :: "u32 \<Rightarrow> bool" where
  "should_request_keyframe_after_stale_flush n \<longleftrightarrow> n \<le> kVideoDecodeStaleFlushPliLimit"

definition ft_suppressed :: "flush_tracker \<Rightarrow> bool" where
  "ft_suppressed t \<longleftrightarrow> \<not> should_request_keyframe_after_stale_flush (ft_row t)"

definition on_stale_flush :: "int \<Rightarrow> flush_tracker \<Rightarrow> bool \<times> flush_tracker" where
  "on_stale_flush now t =
     (let t1 = t\<lparr>ft_row := ft_row t + 1, ft_resumed := False\<rparr>;
          request = should_request_keyframe_after_stale_flush (ft_row t1)
      in (request, if request then t1\<lparr>ft_requested_us := now\<rparr> else t1))"

definition take_slow_request :: "int \<Rightarrow> flush_tracker \<Rightarrow> bool \<times> flush_tracker" where
  "take_slow_request now t =
     (if now - ft_requested_us t < kVideoDecodeStaleFlushSlowPliUs then (False, t)
      else (True, t\<lparr>ft_requested_us := now\<rparr>))"

definition on_frame_decoded :: "int \<Rightarrow> bool \<Rightarrow> flush_tracker \<Rightarrow> flush_tracker" where
  "on_frame_decoded now recovery t =
     (if ft_row t = 0 then t
      else if recovery \<or> \<not> ft_resumed t then t\<lparr>ft_resumed := True, ft_resumed_us := now\<rparr>
      else if now - ft_resumed_us t \<ge> kVideoDecodeStaleFlushRecoveryUs then t\<lparr>ft_row := 0, ft_resumed := False\<rparr>
      else t)"

section \<open>A watched stream\<close>

record decode_work =
  dw_data :: bytes
  dw_timestamp :: int
  dw_codec :: u8
  dw_width :: u16
  dw_height :: u16
  dw_keyframe :: bool
  dw_arrival_us :: int
  dw_recovery :: bool

text \<open>What happens to the decoder: one is created where there was none, one is shut down and replaced by a new one, or
  one is shut down; a frame is given to it. Each keyframe request is an event as well.\<close>

datatype decode_event =
  NewDecoder u8 u16 u16 bool
| ReplaceDecoder u8 u16 u16 bool
| DropDecoder
| Decode decode_work bool bool
| SendPli u32

text \<open>Where the decode thread is: waiting for the queue, holding a batch it has not judged, or decoding it.\<close>

datatype decode_phase = Waiting | Judging | Decoding

record vstream =
  vs_id :: u32
  vs_running :: bool
  vs_gate :: decode_gate
  vs_flushes :: flush_tracker
  vs_self :: bool
  vs_warm :: bool
  vs_hardware_off :: bool
  vs_decoder :: "(u8 \<times> u16 \<times> u16) option"
  vs_queue :: "decode_work list"
  vs_batch :: "decode_work list"
  vs_phase :: decode_phase
  vs_log :: "decode_event list"

definition vs_say :: "decode_event \<Rightarrow> vstream \<Rightarrow> vstream" where
  "vs_say ev s = s\<lparr>vs_log := vs_log s @ [ev]\<rparr>"

definition start_video_stream :: "u32 \<Rightarrow> u32 \<Rightarrow> vstream" where
  "start_video_stream sharer own = \<lparr>vs_id = sharer, vs_running = True, vs_gate = new_decode_gate, vs_flushes = new_tracker,
     vs_self = (video_stream_owner sharer = own), vs_warm = False, vs_hardware_off = False, vs_decoder = None, vs_queue = [], vs_batch = [],
     vs_phase = Waiting, vs_log = []\<rparr>"

definition stop_stream_thread :: "vstream \<Rightarrow> vstream" where
  "stop_stream_thread s = s\<lparr>vs_running := False\<rparr>"

definition enqueue_decode_work :: "int \<Rightarrow> bytes \<Rightarrow> int \<Rightarrow> u8 \<Rightarrow> u16 \<Rightarrow> u16 \<Rightarrow> bool \<Rightarrow> vstream \<Rightarrow> vstream" where
  "enqueue_decode_work now encoded ts cdc w h key s =
     (if \<not> vs_running s then s
      else let recovery = (key \<and> dg_awaiting (vs_gate s));
               (decision, g) = gate_on_frame (word_of_int ts) key (vs_gate s);
               s1 = s\<lparr>vs_gate := g\<rparr>
           in case decision of
                Discontinuity \<Rightarrow> vs_say (SendPli (vs_id s)) (s1\<lparr>vs_queue := []\<rparr>)
              | Accept \<Rightarrow> s1\<lparr>vs_queue := vs_queue s @ [\<lparr>dw_data = encoded, dw_timestamp = ts, dw_codec = cdc,
                  dw_width = w, dw_height = h, dw_keyframe = key, dw_arrival_us = now, dw_recovery = recovery\<rparr>]\<rparr>
              | DropUntilKeyframe \<Rightarrow> s1)"

text \<open>\<open>on_video_frame_received\<close> reads the header fields by hand.\<close>

definition on_video_frame_received :: "int \<Rightarrow> bytes \<Rightarrow> vstream \<Rightarrow> vstream" where
  "on_video_frame_received now d s =
     (if length d < 14 then s
      else let key = (d ! 8 AND VIDEO_FLAG_KEYFRAME \<noteq> 0); w = of_le16 (drop 9 d); h = of_le16 (drop 11 d); cdc = d ! 13
           in if drop 14 d = [] then s
              else enqueue_decode_work now (drop 14 d) (uint (of_le32 d)) cdc w h key s)"

text \<open>\<open>bridge.stream_awaiting_keyframe\<close>.\<close>

definition stream_awaiting_keyframe :: "int \<Rightarrow> vstream \<Rightarrow> bool \<times> vstream" where
  "stream_awaiting_keyframe now s =
     (if vs_self s then (False, s)
      else if \<not> dg_awaiting (vs_gate s) then (False, s)
      else if \<not> ft_suppressed (vs_flushes s) then (True, s)
      else let (ok, t) = take_slow_request now (vs_flushes s) in (ok, s\<lparr>vs_flushes := t\<rparr>))"

section \<open>The decode thread\<close>

text \<open>A rotation of the whole queue, which restores its order.\<close>

fun queue_contains_loop :: "nat \<Rightarrow> bool \<Rightarrow> decode_work list \<Rightarrow> bool \<times> decode_work list" where
  "queue_contains_loop (Suc n) found (w # ws) = queue_contains_loop n (found \<or> dw_keyframe w) (ws @ [w])"
| "queue_contains_loop _ found ws = (found, ws)"

definition queue_contains_keyframe :: "decode_work list \<Rightarrow> bool \<times> decode_work list" where
  "queue_contains_keyframe ws = queue_contains_loop (length ws) False ws"

definition take_batch :: "vstream \<Rightarrow> vstream" where
  "take_batch s =
     (if vs_phase s = Waiting \<and> vs_running s \<and> vs_queue s \<noteq> []
      then s\<lparr>vs_batch := vs_queue s, vs_queue := [], vs_phase := Judging\<rparr> else s)"

definition resync_warm_decoder_at_keyframe :: "int \<Rightarrow> vstream \<Rightarrow> vstream" where
  "resync_warm_decoder_at_keyframe now s =
     (let (request, t) = on_stale_flush now (vs_flushes s);
          s1 = s\<lparr>vs_gate := gate_require_keyframe (vs_gate s), vs_queue := [], vs_flushes := t, vs_batch := [], vs_phase := Waiting\<rparr>
      in if ft_row t = kVideoDecodeStaleFlushPliLimit + 1 then s1
         else if \<not> request then s1
         else vs_say (SendPli (vs_id s)) s1)"

text \<open>Clearing the batch and leaving the inner loop are part of it.\<close>

definition recover_at_keyframe :: "bool \<Rightarrow> vstream \<Rightarrow> vstream" where
  "recover_at_keyframe disable_hardware s =
     (let s1 = s\<lparr>vs_gate := gate_require_keyframe (vs_gate s), vs_queue := [], vs_batch := [], vs_phase := Waiting,
                 vs_hardware_off := (disable_hardware \<or> vs_hardware_off s)\<rparr>;
          s2 = (if vs_decoder s1 \<noteq> None then vs_say DropDecoder (s1\<lparr>vs_decoder := None\<rparr>) else s1)
      in vs_say (SendPli (vs_id s)) (s2\<lparr>vs_warm := False\<rparr>))"

text \<open>The rules on the batch: what is left of it, or a flush.\<close>

definition judge_batch :: "int \<Rightarrow> vstream \<Rightarrow> vstream" where
  "judge_batch now s =
     (if vs_phase s \<noteq> Judging then s
      else
        let over = (length (vs_batch s) > kVideoDecodeBacklogWarningFrames);
            (batch, found, _) = (if over then trim_to_latest_keyframe dw_keyframe (vs_batch s) else (vs_batch s, False, 0))
        in if over \<and> should_resync_decode_backlog (length batch) found (vs_warm s)
           then resync_warm_decoder_at_keyframe now s
           else if batch \<noteq> [] \<and> vs_warm s \<and> now - dw_arrival_us (hd batch) \<ge> kVideoDecodeBacklogMaxAgeUs
           then let (has_key, batch1) = (if over then (found, batch) else queue_contains_keyframe batch)
                in if should_resync_stale_decode_backlog (dw_arrival_us (hd batch)) now has_key (vs_warm s)
                   then resync_warm_decoder_at_keyframe now s
                   else s\<lparr>vs_batch := batch1, vs_phase := Decoding\<rparr>
           else s\<lparr>vs_batch := batch, vs_phase := Decoding\<rparr>)"

text \<open>What the decoder library does for one frame.\<close>

record decoder_in =
  di_lost_before :: bool
  di_init_ok :: bool
  di_decoded :: bool
  di_delivered :: bool
  di_lost_after :: bool
  di_now :: int

definition ensure_decoder :: "decoder_in \<Rightarrow> decode_work \<Rightarrow> vstream \<Rightarrow> vstream" where
  "ensure_decoder di w s =
     (if vs_decoder s = Some (dw_codec w, dw_width w, dw_height w) then s
      else vs_say ((if vs_decoder s = None then NewDecoder else ReplaceDecoder) (dw_codec w) (dw_width w) (dw_height w) (vs_hardware_off s))
             (s\<lparr>vs_decoder := Some (dw_codec w, dw_width w, dw_height w), vs_warm := False\<rparr>))"

definition decode_work_item :: "decoder_in \<Rightarrow> decode_work \<Rightarrow> vstream \<Rightarrow> vstream" where
  "decode_work_item di w s =
     (let s1 = vs_say (Decode w (di_decoded di) (length (vs_batch s) > 1)) s;
          s2 = (if di_delivered di then s1\<lparr>vs_warm := True\<rparr> else s1)
      in if \<not> di_decoded di
         then if \<not> vs_running s2 then s2\<lparr>vs_batch := [], vs_phase := Waiting\<rparr>
              else recover_at_keyframe (di_lost_after di) s2
         else let s3 = (if ft_row (vs_flushes s2) \<noteq> 0
                        then s2\<lparr>vs_flushes := on_frame_decoded (di_now di) (dw_recovery w) (vs_flushes s2)\<rparr> else s2)
              in s3\<lparr>vs_batch := tl (vs_batch s3)\<rparr>)"

definition decode_next :: "decoder_in \<Rightarrow> vstream \<Rightarrow> vstream" where
  "decode_next di s =
     (if vs_phase s \<noteq> Decoding then s
      else case vs_batch s of
             [] \<Rightarrow> s\<lparr>vs_phase := Waiting\<rparr>
           | w # _ \<Rightarrow>
               if vs_decoder s \<noteq> None \<and> di_lost_before di then recover_at_keyframe True s
               else let s1 = ensure_decoder di w s
                    in if vs_decoder s \<noteq> Some (dw_codec w, dw_width w, dw_height w) \<and> \<not> di_init_ok di
                       then recover_at_keyframe False s1
                       else decode_work_item di w s1)"

end
