(* ===== verification/Decode_Proofs.thy ===== *)
theory Decode_Proofs
  imports Video_Decode
begin

text \<open>
  What the decode pipeline promises, over every interleaving of the receiving side and the decode
  thread: the decoder is only ever given frames whose reference chain it holds, and a decoder too slow
  for its stream asks for keyframes at a bounded rate.
\<close>

section \<open>Trimming\<close>

lemma trim_loop_spec:
  assumes "trim_loop is_key ws retained found dropped = (res, f, d)"
    and "\<forall>w \<in> set (tl retained). \<not> is_key w" "found \<longrightarrow> retained \<noteq> [] \<and> is_key (hd retained)" "\<not> found \<longrightarrow> (\<forall>w \<in> set retained. \<not> is_key w)"
  shows "\<exists>pre. retained @ ws = pre @ res \<and> d = dropped + length pre \<and> (\<forall>w \<in> set (tl res). \<not> is_key w)
    \<and> (if f then res \<noteq> [] \<and> is_key (hd res) else pre = [] \<and> (\<forall>w \<in> set res. \<not> is_key w))"
  using assms
proof (induction is_key ws retained found dropped rule: trim_loop.induct)
  case (2 is_key w ws retained found dropped)
  show ?case
  proof (cases "is_key w")
    case True
    then obtain pre where "[w] @ ws = pre @ res" "d = dropped + length retained + length pre" "\<forall>w \<in> set (tl res). \<not> is_key w"
      "if f then res \<noteq> [] \<and> is_key (hd res) else pre = [] \<and> (\<forall>w \<in> set res. \<not> is_key w)"
      using 2 by auto
    moreover from this True have f by (cases f) (auto simp: Cons_eq_append_conv)
    ultimately show ?thesis by (intro exI [of _ "retained @ pre"]) auto
  next
    case False
    then have "\<exists>pre. (retained @ [w]) @ ws = pre @ res \<and> d = dropped + length pre \<and> (\<forall>w \<in> set (tl res). \<not> is_key w)
      \<and> (if f then res \<noteq> [] \<and> is_key (hd res) else pre = [] \<and> (\<forall>w \<in> set res. \<not> is_key w))"
      using 2 by (intro "2.IH"(2)) (auto simp: tl_append split: list.splits)
    then show ?thesis by simp
  qed
qed (auto split: if_splits)

text \<open>What trimming keeps: everything from the last keyframe on, or everything.\<close>

lemma trim_spec:
  assumes "trim_to_latest_keyframe is_key ws = (res, f, d)"
  shows "\<exists>pre. ws = pre @ res \<and> d = length pre \<and> (\<forall>w \<in> set (tl res). \<not> is_key w)
    \<and> (if f then res \<noteq> [] \<and> is_key (hd res) else pre = [] \<and> (\<forall>w \<in> set res. \<not> is_key w))"
  using trim_loop_spec [OF assms [unfolded trim_to_latest_keyframe_def]] by simp

lemma contains_loop: "queue_contains_loop (length xs) found (xs @ ys) = (found \<or> (\<exists>w \<in> set xs. dw_keyframe w), ys @ xs)"
  by (induction xs arbitrary: found ys) auto

lemma contains_spec: "queue_contains_keyframe ws = (\<exists>w \<in> set ws. dw_keyframe w, ws)"
  using contains_loop [of ws False "[]"] by (simp add: queue_contains_keyframe_def)

section \<open>Reference chains\<close>

definition seq_of :: "decode_work \<Rightarrow> u32" where
  "seq_of w = word_of_int (dw_timestamp w)"

text \<open>\<open>r\<close> is the frame a decoder decoded last, if its reference chain is intact.\<close>

fun follows :: "u32 option \<Rightarrow> decode_work list \<Rightarrow> bool" where
  "follows r [] \<longleftrightarrow> True"
| "follows r (w # ws) \<longleftrightarrow> (if dw_keyframe w then True else r \<noteq> None \<and> seq_of w = the r + 1) \<and> follows (Some (seq_of w)) ws"

fun reached :: "u32 option \<Rightarrow> decode_work list \<Rightarrow> u32 option" where
  "reached r [] = r"
| "reached r (w # ws) = reached (Some (seq_of w)) ws"

lemma follows_append: "follows r (xs @ ys) \<longleftrightarrow> follows r xs \<and> follows (reached r xs) ys"
  by (induction xs arbitrary: r) auto

lemma reached_append: "reached r (xs @ ys) = reached (reached r xs) ys"
  by (induction xs arbitrary: r) auto

lemma follows_key: "ws \<noteq> [] \<Longrightarrow> dw_keyframe (hd ws) \<Longrightarrow> follows r ws = follows r' ws"
  by (cases ws) auto

lemma reached_any: "ws \<noteq> [] \<Longrightarrow> reached r ws = reached r' ws"
  by (cases ws) auto

text \<open>What the log says of the decoder there is now: \<open>Holds v\<close>, it decoded \<open>v\<close> last and has failed on nothing since;
  \<open>Swapped v\<close>, it is new and has decoded nothing, and the one shut down for it held \<open>v\<close>; \<open>Broken\<close>, any other.
  A call that fails, dropping the decoder and creating one anew all lose the frames it would refer to.\<close>

datatype chain = Broken | Holds decode_work | Swapped decode_work

definition shape :: "decode_work \<Rightarrow> u8 \<times> u16 \<times> u16" where
  "shape w = (dw_codec w, dw_width w, dw_height w)"

fun chain_after :: "decode_event \<Rightarrow> chain \<Rightarrow> chain" where
  "chain_after (Decode w ok quiet) c = (if ok then Holds w else Broken)"
| "chain_after DropDecoder c = Broken"
| "chain_after (NewDecoder cdc w h off) c = Broken"
| "chain_after (ReplaceDecoder cdc w h off) c = (case c of Holds v \<Rightarrow> Swapped v | _ \<Rightarrow> Broken)"
| "chain_after (SendPli s) c = c"

definition chain_of :: "decode_event list \<Rightarrow> chain" where
  "chain_of es = fold chain_after es Broken"

text \<open>What a delta frame meets: the decoder that decoded its predecessor, or, when its codec or size is another one, a
  new decoder in place of that.\<close>

definition expected :: "decode_work \<Rightarrow> chain \<Rightarrow> bool" where
  "expected w c \<longleftrightarrow> dw_keyframe w \<or> (\<exists>v. seq_of w = seq_of v + 1 \<and> c = (if shape w = shape v then Holds v else Swapped v))"

fun fed :: "chain \<Rightarrow> decode_event list \<Rightarrow> bool" where
  "fed c [] \<longleftrightarrow> True"
| "fed c (e # es) \<longleftrightarrow> (case e of Decode w ok quiet \<Rightarrow> expected w c | _ \<Rightarrow> True) \<and> fed (chain_after e c) es"

fun last_of :: "chain \<Rightarrow> u32 option" where
  "last_of Broken = None"
| "last_of (Holds v) = Some (seq_of v)"
| "last_of (Swapped v) = Some (seq_of v)"

abbreviation intact :: "decode_event list \<Rightarrow> u32 option" where
  "intact es \<equiv> last_of (chain_of es)"

lemma fed_append: "fed c (xs @ ys) \<longleftrightarrow> fed c xs \<and> fed (fold chain_after xs c) ys"
  by (induction xs arbitrary: c) simp_all

lemma chain_snoc [simp]: "chain_of (es @ [e]) = chain_after e (chain_of es)" "chain_of [] = Broken"
  by (simp_all add: chain_of_def)

lemma fed_snoc [simp]:
  "fed Broken (es @ [e]) \<longleftrightarrow> fed Broken es \<and> (case e of Decode w ok quiet \<Rightarrow> expected w (chain_of es) | _ \<Rightarrow> True)"
  by (cases e) (simp_all add: fed_append chain_of_def)

text \<open>The decoder there is fits the last frame it decoded.\<close>

definition fits :: "vstream \<Rightarrow> bool" where
  "fits s \<longleftrightarrow> chain_of (vs_log s) = Broken \<or> (\<exists>v. chain_of (vs_log s) = Holds v \<and> vs_decoder s = Some (shape v))"

section \<open>The two threads\<close>

inductive vs_step :: "vstream \<Rightarrow> vstream \<Rightarrow> bool" where
  receive: "vs_step s (on_video_frame_received now d s)"
| own_frame: "vs_step s (enqueue_decode_work now encoded ts cdc w h key s)"
| poll: "vs_step s (snd (stream_awaiting_keyframe now s))"
| take_queue: "vs_step s (take_batch s)"
| judge: "vs_step s (judge_batch now s)"
| decode: "vs_step s (decode_next di s)"
| stop: "vs_step s (stop_stream_thread s)"

inductive vs_reach :: "vstream \<Rightarrow> bool" where
  Start: "vs_reach (start_video_stream sharer own)"
| Step: "vs_reach s \<Longrightarrow> vs_step s s' \<Longrightarrow> vs_reach s'"

definition chain_ok :: "vstream \<Rightarrow> bool" where
  "chain_ok s \<longleftrightarrow> fed Broken (vs_log s) \<and> fits s \<and> follows (intact (vs_log s)) (vs_batch s)
     \<and> (vs_phase s = Waiting \<longrightarrow> vs_batch s = [])
     \<and> (vs_running s \<longrightarrow> follows (intact (vs_log s)) (vs_batch s @ vs_queue s)
          \<and> (dg_awaiting (vs_gate s) \<or> dg_have (vs_gate s)
               \<and> reached (intact (vs_log s)) (vs_batch s @ vs_queue s) = Some (dg_last (vs_gate s))))"

lemma say_sel [simp]:
  "vs_log (vs_say ev s) = vs_log s @ [ev]" "vs_batch (vs_say ev s) = vs_batch s" "vs_queue (vs_say ev s) = vs_queue s"
  "vs_gate (vs_say ev s) = vs_gate s" "vs_running (vs_say ev s) = vs_running s" "vs_phase (vs_say ev s) = vs_phase s"
  "vs_decoder (vs_say ev s) = vs_decoder s" "vs_flushes (vs_say ev s) = vs_flushes s"
  by (simp_all add: vs_say_def)

lemma fits_same: "fits s \<Longrightarrow> chain_of (vs_log t) = chain_of (vs_log s) \<Longrightarrow> vs_decoder t = vs_decoder s \<Longrightarrow> fits t"
  by (simp add: fits_def)

lemma resync_chain: "fed Broken (vs_log s) \<Longrightarrow> fits s \<Longrightarrow> chain_ok (resync_warm_decoder_at_keyframe now s)"
  by (auto simp: resync_warm_decoder_at_keyframe_def chain_ok_def gate_require_keyframe_def Let_def elim!: fits_same split: prod.split)

lemma recover_chain:
  assumes "fed Broken (vs_log s)" "vs_decoder s = None \<longrightarrow> chain_of (vs_log s) = Broken"
  shows "chain_ok (recover_at_keyframe hw s)"
  using assms
  by (cases "vs_decoder s") (auto simp: recover_at_keyframe_def chain_ok_def fits_def gate_require_keyframe_def Let_def)

lemma fits_none: "fits s \<Longrightarrow> vs_decoder s = None \<Longrightarrow> chain_of (vs_log s) = Broken"
  by (auto simp: fits_def)

lemma enqueue_chain: "chain_ok s \<Longrightarrow> chain_ok (enqueue_decode_work now encoded ts cdc w h key s)"
  by (auto simp: enqueue_decode_work_def chain_ok_def gate_on_frame_def gate_require_keyframe_def
      follows_append reached_append seq_of_def Let_def elim!: fits_same)

lemma trimmed:
  assumes "(if over then trim_to_latest_keyframe dw_keyframe ws else (ws, False, 0)) = (batch, found, d)"
  shows "\<exists>pre. ws = pre @ batch \<and> (if pre = [] then True else batch \<noteq> [] \<and> dw_keyframe (hd batch))"
proof (cases over)
  case True
  then show ?thesis using trim_spec [of dw_keyframe ws batch found d] assms by (cases found) auto
qed (use assms in auto)

lemma drop_front:
  assumes "follows r (pre @ batch @ q)" "if pre = [] then True else batch \<noteq> [] \<and> dw_keyframe (hd batch)"
  shows "follows r (batch @ q)" "reached r (batch @ q) = reached r (pre @ batch @ q)"
proof (atomize(full), cases "pre = []")
  case False
  then have "follows r (batch @ q) = follows (reached r pre) (batch @ q)" "reached (reached r pre) (batch @ q) = reached r (batch @ q)"
    using assms(2) follows_key [of "batch @ q"] reached_any [of "batch @ q"] by auto
  then show "follows r (batch @ q) \<and> reached r (batch @ q) = reached r (pre @ batch @ q)"
    using assms(1) by (simp add: follows_append reached_append)
qed (use assms in simp)

lemma judged_chain:
  assumes "chain_ok s" "vs_batch s = pre @ batch" "if pre = [] then True else batch \<noteq> [] \<and> dw_keyframe (hd batch)"
  shows "chain_ok (s\<lparr>vs_batch := batch, vs_phase := Decoding\<rparr>)"
  using assms drop_front [of "intact (vs_log s)" pre batch "[]"] drop_front [of "intact (vs_log s)" pre batch "vs_queue s"]
  by (simp add: chain_ok_def fits_def)

lemma judge_chain:
  assumes "chain_ok s"
  shows "chain_ok (judge_batch now s)"
proof -
  define over where "over = (length (vs_batch s) > kVideoDecodeBacklogWarningFrames)"
  obtain batch found d where b: "(if over then trim_to_latest_keyframe dw_keyframe (vs_batch s) else (vs_batch s, False, 0)) = (batch, found, d)"
    by (metis prod_cases3)
  obtain pre where pre: "vs_batch s = pre @ batch" "if pre = [] then True else batch \<noteq> [] \<and> dw_keyframe (hd batch)"
    using trimmed [OF b] by blast
  have flush: "chain_ok (resync_warm_decoder_at_keyframe now s)" using assms resync_chain by (simp add: chain_ok_def)
  obtain hk where two: "(if over then (found, batch) else queue_contains_keyframe batch) = (hk, batch)" by (metis contains_spec)
  show ?thesis
    unfolding judge_batch_def Let_def over_def [symmetric] b prod.case two
    using assms flush judged_chain [OF assms pre] by (simp only: if_split simp_thms)
qed

text \<open>The decoder a frame meets.\<close>

lemma ensure_fields [simp]:
  "vs_batch (ensure_decoder di w s) = vs_batch s" "vs_queue (ensure_decoder di w s) = vs_queue s"
  "vs_gate (ensure_decoder di w s) = vs_gate s" "vs_running (ensure_decoder di w s) = vs_running s"
  "vs_phase (ensure_decoder di w s) = vs_phase s" "vs_decoder (ensure_decoder di w s) = Some (shape w)"
  by (simp_all add: ensure_decoder_def shape_def)

lemma ensure_chain:
  assumes "chain_ok s" "vs_batch s = w # ws"
  shows "fed Broken (vs_log (ensure_decoder di w s)) \<and> expected w (chain_of (vs_log (ensure_decoder di w s)))"
proof -
  have s: "fed Broken (vs_log s)" "fits s" "if dw_keyframe w then True else intact (vs_log s) \<noteq> None \<and> seq_of w = the (intact (vs_log s)) + 1"
    using assms by (simp_all add: chain_ok_def)
  have log: "vs_log (ensure_decoder di w s) = vs_log s @ (if vs_decoder s = Some (shape w) then []
      else [(if vs_decoder s = None then NewDecoder else ReplaceDecoder) (dw_codec w) (dw_width w) (dw_height w) (vs_hardware_off s)])"
    by (simp add: ensure_decoder_def shape_def)
  show ?thesis
  proof (cases "chain_of (vs_log s)")
    case (Holds v)
    then have "dw_keyframe w \<or> seq_of w = seq_of v + 1" "vs_decoder s = Some (shape v)" using s by (auto simp: fits_def split: if_splits)
    then show ?thesis using s(1) Holds by (cases "shape w = shape v") (auto simp: log expected_def)
  qed (use s in \<open>auto simp: log fits_def expected_def split: if_splits\<close>)
qed

lemma chain_cong:
  assumes "chain_ok s" "vs_log t = vs_log s" "vs_batch t = vs_batch s" "vs_queue t = vs_queue s" "vs_phase t = vs_phase s"
    "vs_running t = vs_running s" "vs_gate t = vs_gate s" "vs_decoder t = vs_decoder s"
  shows "chain_ok t"
  using assms by (simp add: chain_ok_def fits_def)

lemma item_chain:
  assumes ok: "chain_ok r" "vs_batch r = w # ws" "vs_phase r = Decoding" and s: "s = ensure_decoder di w r"
  shows "chain_ok (decode_work_item di w s)"
proof -
  define t where "t = vs_say (Decode w (di_decoded di) (length (vs_batch s) > 1)) s"
  define u where "u = (if di_delivered di then t\<lparr>vs_warm := True\<rparr> else t)"
  have u: "vs_log u = vs_log s @ [Decode w (di_decoded di) (length (vs_batch s) > 1)]" "vs_batch u = w # ws" "vs_queue u = vs_queue r"
    "vs_phase u = Decoding" "vs_running u = vs_running r" "vs_gate u = vs_gate r" "vs_decoder u = Some (shape w)"
    using ok(2,3) by (simp_all add: u_def t_def s)
  have fed: "fed Broken (vs_log u)" "chain_of (vs_log u) = (if di_decoded di then Holds w else Broken)"
    using ensure_chain [OF ok(1,2), of di] by (simp_all add: u(1) s)
  then have fail: "chain_ok (recover_at_keyframe (di_lost_after di) u)"
    "\<not> vs_running u \<Longrightarrow> \<not> di_decoded di \<Longrightarrow> chain_ok (u\<lparr>vs_batch := [], vs_phase := Waiting\<rparr>)"
    using u(7) by (simp add: recover_chain, simp add: chain_ok_def fits_def)
  have fine: "chain_ok (u\<lparr>vs_batch := ws\<rparr>)" if "di_decoded di"
    using ok fed that by (simp add: chain_ok_def fits_def u(3-7))
  have "decode_work_item di w s =
    (if \<not> di_decoded di then if \<not> vs_running u then u\<lparr>vs_batch := [], vs_phase := Waiting\<rparr> else recover_at_keyframe (di_lost_after di) u
     else let v = (if ft_row (vs_flushes u) \<noteq> 0 then u\<lparr>vs_flushes := on_frame_decoded (di_now di) (dw_recovery w) (vs_flushes u)\<rparr> else u)
          in v\<lparr>vs_batch := tl (vs_batch v)\<rparr>)"
    by (simp only: decode_work_item_def t_def [symmetric] u_def [symmetric] Let_def)
  then show ?thesis using fail chain_cong [OF fine] u(2) by (simp add: Let_def)
qed

lemma decode_chain: "chain_ok s \<Longrightarrow> chain_ok (decode_next di s)"
proof (cases "vs_phase s = Decoding")
  case True
  assume ok: "chain_ok s"
  show ?thesis
  proof (cases "vs_batch s")
    case (Cons w ws)
    have "fed Broken (vs_log s)" "fits s" "fed Broken (vs_log (ensure_decoder di w s))"
      using ok ensure_chain [OF ok Cons, of di] by (simp_all add: chain_ok_def)
    then have "chain_ok (recover_at_keyframe True s)" "chain_ok (recover_at_keyframe False (ensure_decoder di w s))"
      using fits_none by (auto intro!: recover_chain)
    then show ?thesis
      using True Cons item_chain [OF ok Cons True refl] by (simp add: decode_next_def Let_def)
  qed (use ok True in \<open>auto simp: decode_next_def chain_ok_def fits_def\<close>)
qed (simp add: decode_next_def)

lemma step_chain: "vs_step s s' \<Longrightarrow> chain_ok s \<Longrightarrow> chain_ok s'"
proof (induction rule: vs_step.induct)
  case (receive s now d)
  then show ?case by (simp add: on_video_frame_received_def enqueue_chain Let_def)
next
  case (poll s now)
  then show ?case by (auto simp: stream_awaiting_keyframe_def chain_ok_def fits_def split: prod.split)
next
  case (take_queue s)
  then show ?case by (auto simp: take_batch_def chain_ok_def fits_def)
next
  case (stop s)
  then show ?case by (auto simp: stop_stream_thread_def chain_ok_def fits_def)
qed (simp_all add: enqueue_chain judge_chain decode_chain)

lemma reach_chain: "vs_reach s \<Longrightarrow> chain_ok s"
proof (induction rule: vs_reach.induct)
  case Start
  then show ?case by (simp add: start_video_stream_def chain_ok_def fits_def new_decode_gate_def)
qed (rule step_chain)

text \<open>(C22) The decoder is given deltas in unbroken chains, except where the stream changes its codec or size without a
  keyframe. In every interleaving of frames arriving, the decode thread taking and judging batches, flushes,
  resets, failures and stopping: a delta frame handed to the decoder is the direct successor of a frame \<open>v\<close>; when
  it has the codec and size of \<open>v\<close>, then \<open>v\<close> is the frame this very decoder decoded last, with no failed call,
  no reset and no new decoder in between; when it has not, then \<open>v\<close> was the last frame of the decoder that was
  shut down for it, and the delta is the first input of the new one, which does not hold its reference.\<close>

theorem decoder_chain_unbroken:
  assumes "vs_reach s" "vs_log s = before @ Decode w ok quiet # later" "\<not> dw_keyframe w"
  shows "\<exists>v. seq_of w = seq_of v + 1
    \<and> chain_of before = (if (dw_codec w, dw_width w, dw_height w) = (dw_codec v, dw_width v, dw_height v) then Holds v else Swapped v)"
proof -
  have "fed Broken (before @ [Decode w ok quiet] @ later)" using reach_chain [OF assms(1)] assms(2) by (simp add: chain_ok_def)
  then have "expected w (chain_of before)" by (simp add: fed_append chain_of_def)
  then show ?thesis using assms(3) by (simp add: expected_def shape_def)
qed

text \<open>A keyframe and two deltas are decoded, the second one twice as wide; then a frame is missing.\<close>

definition demo_decoder :: decoder_in where
  "demo_decoder = \<lparr>di_lost_before = False, di_init_ok = True, di_decoded = True, di_delivered = True, di_lost_after = False, di_now = 20000\<rparr>"

definition demo_work :: "int \<Rightarrow> u16 \<Rightarrow> bool \<Rightarrow> decode_work" where
  "demo_work ts w key = \<lparr>dw_data = [1], dw_timestamp = ts, dw_codec = 1, dw_width = w, dw_height = 64, dw_keyframe = key,
     dw_arrival_us = 0, dw_recovery = key\<rparr>"

definition demo_vs :: vstream where
  "demo_vs = enqueue_decode_work 60000 [1] 9 1 128 64 False (decode_next demo_decoder (decode_next demo_decoder (decode_next demo_decoder
     (judge_batch 10000 (take_batch (enqueue_decode_work 0 [1] 7 1 128 64 False
     (enqueue_decode_work 0 [1] 6 1 64 64 False (enqueue_decode_work 0 [1] 5 1 64 64 True (start_video_stream 7 1)))))))))"

lemma demo_vs_log: "vs_log demo_vs = [NewDecoder 1 64 64 False, Decode (demo_work 5 64 True) True True,
   Decode (demo_work 6 64 False) True True, ReplaceDecoder 1 128 64 False, Decode (demo_work 7 128 False) True False, SendPli 7]"
  by code_simp

lemma demo_vs_reach: "vs_reach demo_vs"
  unfolding demo_vs_def by (intro vs_reach.Start vs_reach.Step [OF _ vs_step.own_frame]
      vs_reach.Step [OF _ vs_step.decode] vs_reach.Step [OF _ vs_step.judge] vs_reach.Step [OF _ vs_step.take_queue])

theorem decoder_chain_unbroken_witness:
  "(\<exists>v. dw_width v = 64 \<and> chain_of (take 2 (vs_log demo_vs)) = Holds v)
   \<and> (\<exists>v. seq_of v = 6 \<and> dw_width v \<noteq> 128 \<and> chain_of (take 4 (vs_log demo_vs)) = Swapped v)"
proof -
  have "\<exists>v. seq_of (demo_work 6 64 False) = seq_of v + 1 \<and> chain_of (take 2 (vs_log demo_vs))
      = (if (1, 64, 64) = (dw_codec v, dw_width v, dw_height v) then Holds v else Swapped v)"
    using decoder_chain_unbroken [OF demo_vs_reach, of "take 2 (vs_log demo_vs)" "demo_work 6 64 False" True True "drop 3 (vs_log demo_vs)"]
    by (simp add: demo_vs_log demo_work_def)
  moreover have "\<exists>v. seq_of (demo_work 7 128 False) = seq_of v + 1 \<and> chain_of (take 4 (vs_log demo_vs))
      = (if (1, 128, 64) = (dw_codec v, dw_width v, dw_height v) then Holds v else Swapped v)"
    using decoder_chain_unbroken [OF demo_vs_reach, of "take 4 (vs_log demo_vs)" "demo_work 7 128 False" True False "drop 5 (vs_log demo_vs)"]
    by (simp add: demo_vs_log demo_work_def)
  ultimately show ?thesis by (auto simp: demo_vs_log chain_of_def seq_of_def demo_work_def split: if_splits)
qed

section \<open>How often a slow decoder asks\<close>

text \<open>The uses of the tracker: a flush, the retry of the main thread (which asks at its own pace unless
  suppressed), and a decoded frame. A run collects the times of the requests that flushes were granted
  and of the slow ones.\<close>

datatype tracker_use = Flush | Retry | Decoded bool

fun track_use :: "int \<Rightarrow> tracker_use \<Rightarrow> flush_tracker \<times> int list \<times> int list \<Rightarrow> flush_tracker \<times> int list \<times> int list" where
  "track_use now Flush (t, fl, sl) = (let (ok, t1) = on_stale_flush now t in (t1, if ok then fl @ [now] else fl, sl))"
| "track_use now Retry (t, fl, sl) =
     (if ft_suppressed t then let (ok, t1) = take_slow_request now t in (t1, fl, if ok then sl @ [now] else sl) else (t, fl, sl))"
| "track_use now (Decoded recovery) (t, fl, sl) = (on_frame_decoded now recovery t, fl, sl)"

definition track_run :: "(int \<times> tracker_use) list \<Rightarrow> flush_tracker \<times> int list \<times> int list" where
  "track_run uses = foldl (\<lambda>x (now, u). track_use now u x) (new_tracker, [], []) uses"

definition apart :: "nat \<Rightarrow> int \<Rightarrow> int list \<Rightarrow> bool" where
  "apart k d ts \<longleftrightarrow> (\<forall>i. i + k < length ts \<longrightarrow> ts ! i + d \<le> ts ! (i + k))"

lemma apart_snoc:
  assumes "apart k d ts" "0 < k" "k \<le> length ts \<Longrightarrow> ts ! (length ts - k) + d \<le> x"
  shows "apart k d (ts @ [x])"
  unfolding apart_def
proof (intro allI impI)
  fix i
  assume i: "i + k < length (ts @ [x])"
  show "(ts @ [x]) ! i + d \<le> (ts @ [x]) ! (i + k)"
  proof (cases "i + k < length ts")
    case True
    then show ?thesis using assms(1) by (simp add: apart_def nth_append)
  next
    case False
    then have "i + k = length ts" "i < length ts" using i assms(2) by auto
    then show ?thesis using assms(3) by (simp add: nth_append) (metis add_diff_cancel_right' le_add2)
  qed
qed

text \<open>The requests of the present run of flushes are the last ones, and all earlier ones are long past.\<close>

definition this_run :: "nat \<Rightarrow> int \<Rightarrow> bool \<Rightarrow> int \<Rightarrow> int list \<Rightarrow> bool" where
  "this_run n now resumed rus fl \<longleftrightarrow> (\<exists>old cur. fl = old @ cur \<and> length cur = min n 2
     \<and> (\<forall>x \<in> set old. (\<forall>y \<in> set cur. x + 4000000 \<le> y) \<and> x + 4000000 \<le> now)
     \<and> (\<forall>x \<in> set cur. x \<le> now \<and> (resumed \<longrightarrow> x \<le> rus)))"

lemma this_run_start: "this_run 0 now resumed rus []"
  by (simp add: this_run_def)

lemma this_run_later: "this_run n now resumed rus fl \<Longrightarrow> now \<le> now' \<Longrightarrow> this_run n now' resumed rus fl"
  unfolding this_run_def by (elim exE, intro exI) auto

lemma this_run_grant:
  assumes "this_run n now resumed rus fl" "n \<le> 1"
  shows "this_run (Suc n) now False rus' (fl @ [now])" "2 \<le> length fl \<Longrightarrow> fl ! (length fl - 2) + 4000000 \<le> now"
proof -
  obtain old cur where a: "fl = old @ cur" "length cur = n" "\<forall>x \<in> set old. (\<forall>y \<in> set cur. x + 4000000 \<le> y) \<and> x + 4000000 \<le> now"
    "\<forall>x \<in> set cur. x \<le> now" using assms unfolding this_run_def by (auto simp: min_def split: if_splits)
  then show "this_run (Suc n) now False rus' (fl @ [now])"
    unfolding this_run_def using assms(2) by (intro exI [of _ old] exI [of _ "cur @ [now]"]) auto
  assume "2 \<le> length fl"
  then have "fl ! (length fl - 2) \<in> set old" using a(1,2) assms(2) by (auto simp: nth_append)
  then show "fl ! (length fl - 2) + 4000000 \<le> now" using a(3) by blast
qed

lemma this_run_more: "this_run n now resumed rus fl \<Longrightarrow> 2 \<le> n \<Longrightarrow> this_run (Suc n) now False rus' fl"
  unfolding this_run_def by (elim exE, intro exI) auto

lemma this_run_resume: "this_run n now resumed rus fl \<Longrightarrow> this_run n now True now fl"
  unfolding this_run_def by (elim exE, intro exI) auto

lemma this_run_reset: "this_run n now True rus fl \<Longrightarrow> rus + 4000000 \<le> now \<Longrightarrow> this_run 0 now False rus' fl"
proof -
  assume "this_run n now True rus fl" "rus + 4000000 \<le> now"
  then have "\<forall>x \<in> set fl. x + 4000000 \<le> now" unfolding this_run_def by force
  then show ?thesis unfolding this_run_def by (intro exI [of _ fl] exI [of _ "[]"]) simp
qed

text \<open>\<open>m\<close> bounds the flushes so far.\<close>

definition paced :: "nat \<Rightarrow> int \<Rightarrow> flush_tracker \<times> int list \<times> int list \<Rightarrow> bool" where
  "paced m now = (\<lambda>(t, fl, sl). unat (ft_row t) \<le> m
     \<and> apart 2 4000000 fl \<and> apart 1 5000000 sl
     \<and> (sl = [] \<or> last sl \<le> ft_requested_us t) \<and> (fl = [] \<and> sl = [] \<or> ft_requested_us t \<le> now)
     \<and> this_run (unat (ft_row t)) now (ft_resumed t) (ft_resumed_us t) fl)"

lemma paced_later: "paced m now x \<Longrightarrow> now \<le> now' \<Longrightarrow> m \<le> m' \<Longrightarrow> paced m' now' x"
  unfolding paced_def by (auto intro: this_run_later)

lemma word_le_2: "(x :: u32) \<le> 2 \<longleftrightarrow> unat x \<le> 2"
  by (simp add: word_le_nat_alt)

lemma flush_paced:
  assumes "paced m now (t, fl, sl)" "m < 2 ^ 32 - 1"
  shows "paced (Suc m) now (track_use now Flush (t, fl, sl))"
proof -
  let ?n = "unat (ft_row t)"
  have p: "?n \<le> m" "apart 2 4000000 fl" "apart 1 5000000 sl" "sl = [] \<or> last sl \<le> ft_requested_us t"
    "fl = [] \<and> sl = [] \<or> ft_requested_us t \<le> now" "this_run ?n now (ft_resumed t) (ft_resumed_us t) fl"
    using assms(1) by (simp_all add: paced_def)
  have row: "unat (ft_row t + 1) = Suc ?n" using p(1) assms(2) by (subst unat_add_lem [THEN iffD1]) simp_all
  have ask: "should_request_keyframe_after_stale_flush (ft_row t + 1) \<longleftrightarrow> ?n \<le> 1"
    using row by (simp add: should_request_keyframe_after_stale_flush_def kVideoDecodeStaleFlushPliLimit_def word_le_2)
  show ?thesis
  proof (cases "?n \<le> 1")
    case True
    have "apart 2 4000000 (fl @ [now])" using p(2) this_run_grant(2) [OF p(6) True] by (intro apart_snoc) simp_all
    then show ?thesis using p True this_run_grant(1) [OF p(6) True]
      by (auto simp: paced_def on_stale_flush_def ask row Let_def)
  next
    case False
    then show ?thesis using p this_run_more [OF p(6)] by (auto simp: paced_def on_stale_flush_def ask row Let_def)
  qed
qed

lemma retry_paced: "paced m now (t, fl, sl) \<Longrightarrow> paced m now (track_use now Retry (t, fl, sl))"
proof -
  assume p: "paced m now (t, fl, sl)"
  show ?thesis
  proof (cases "ft_suppressed t \<and> fst (take_slow_request now t)")
    case True
    then have t: "track_use now Retry (t, fl, sl) = (t\<lparr>ft_requested_us := now\<rparr>, fl, sl @ [now])" "ft_requested_us t + 5000000 \<le> now"
      by (auto simp: take_slow_request_def kVideoDecodeStaleFlushSlowPliUs_def split: if_splits)
    have "sl ! (length sl - 1) + 5000000 \<le> now" if "1 \<le> length sl"
    proof -
      have "sl \<noteq> []" using that by auto
      then show ?thesis using p t(2) last_conv_nth [of sl] by (simp add: paced_def)
    qed
    then have "apart 1 5000000 (sl @ [now])" using p by (intro apart_snoc) (simp_all add: paced_def)
    then show ?thesis using p unfolding t paced_def by auto
  next
    case False
    then have "track_use now Retry (t, fl, sl) = (t, fl, sl)" by (auto simp: take_slow_request_def split: prod.split)
    then show ?thesis using p by simp
  qed
qed

lemma decoded_paced: "paced m now (t, fl, sl) \<Longrightarrow> paced m now (track_use now (Decoded recovery) (t, fl, sl))"
  by (auto simp: paced_def on_frame_decoded_def kVideoDecodeStaleFlushRecoveryUs_def intro: this_run_resume this_run_reset)

lemma track_snoc: "track_run (uses @ [(now, u)]) = track_use now u (track_run uses)"
  by (simp add: track_run_def)

lemma use_paced: "paced m now x \<Longrightarrow> m < 2 ^ 32 - 1 \<Longrightarrow> paced (Suc m) now (track_use now u x)"
proof -
  assume p: "paced m now x" "m < 2 ^ 32 - 1"
  obtain t fl sl where x: "x = (t, fl, sl)" by (rule prod_cases3)
  show ?thesis
  proof (cases u)
    case Flush
    then show ?thesis using flush_paced p unfolding x by blast
  next
    case Retry
    then show ?thesis using retry_paced paced_later [OF _ order_refl, of m now _ "Suc m"] p unfolding x by (metis le_SucI order_refl)
  next
    case (Decoded recovery)
    then show ?thesis using decoded_paced paced_later [OF _ order_refl, of m now _ "Suc m"] p unfolding x by (metis le_SucI order_refl)
  qed
qed

lemma start_paced: "paced 0 now (new_tracker, [], [])"
  by (simp add: paced_def new_tracker_def apart_def this_run_start)

lemma run_paced:
  "sorted (map fst uses) \<Longrightarrow> length uses < 2 ^ 32 \<Longrightarrow> \<forall>(t, u) \<in> set uses. t \<le> now \<Longrightarrow> paced (length uses) now (track_run uses)"
proof (induction uses arbitrary: now rule: rev_induct)
  case Nil
  show ?case using start_paced by (simp add: track_run_def)
next
  case (snoc v uses)
  obtain t u where v: "v = (t, u)" by fastforce
  have l: "length uses < 2 ^ 32 - 1" using snoc.prems(2) by simp
  have "paced (length uses) t (track_run uses)"
    using snoc.prems(1) l by (intro snoc.IH) (auto simp: sorted_append v)
  from use_paced [OF this l, of u] have "paced (Suc (length uses)) t (track_run (uses @ [v]))" unfolding v track_snoc .
  moreover have "t \<le> now" using snoc.prems(3) v by simp
  ultimately have "paced (Suc (length uses)) now (track_run (uses @ [v]))" by (rule paced_later) simp
  then show ?case by (simp only: length_append_singleton)
qed

text \<open>(C25) A decoder that cannot keep up does not flood the sharer: over any history of flushes, retries and decoded
  frames, two keyframe requests made by flushes are followed by a third only four seconds after the
  first, and while requests are suppressed the slow ones are five seconds apart.\<close>

theorem slow_decoder_asks_rarely:
  assumes "sorted (map fst uses)" "length uses < 2 ^ 32" "track_run uses = (t, fl, sl)"
  shows "(\<forall>i. i + 2 < length fl \<longrightarrow> fl ! i + 4000000 \<le> fl ! (i + 2)) \<and> (\<forall>i. i + 1 < length sl \<longrightarrow> sl ! i + 5000000 \<le> sl ! (i + 1))"
proof (cases "uses = []")
  case True
  then show ?thesis using assms(3) by (simp add: track_run_def)
next
  case False
  have "t \<le> Max (set (map fst uses))" if "(t, u) \<in> set uses" for t u using that by (auto intro!: Max_ge rev_image_eqI)
  then have "paced (length uses) (Max (set (map fst uses))) (track_run uses)" using assms by (intro run_paced) auto
  then show ?thesis unfolding assms(3) paced_def apart_def by simp
qed

text \<open>Two flushes are granted, the third is not; a retry is, five seconds on; then the decoder recovers.\<close>

definition demo_uses :: "(int \<times> tracker_use) list" where
  "demo_uses = [(0, Flush), (1000000, Flush), (2000000, Flush), (2500000, Retry), (6000000, Retry), (7000000, Decoded True),
     (11500000, Decoded False), (12000000, Flush)]"

lemma demo_uses_run: "snd (track_run demo_uses) = ([0, 1000000, 12000000], [6000000])"
  by (simp add: track_run_def demo_uses_def new_tracker_def on_stale_flush_def should_request_keyframe_after_stale_flush_def
      kVideoDecodeStaleFlushPliLimit_def ft_suppressed_def take_slow_request_def kVideoDecodeStaleFlushSlowPliUs_def
      on_frame_decoded_def kVideoDecodeStaleFlushRecoveryUs_def Let_def)

theorem slow_decoder_asks_rarely_witness:
  "(0::int) + 4000000 \<le> 12000000 \<and> snd (track_run demo_uses) = ([0, 1000000, 12000000], [6000000])"
proof -
  have "sorted (map fst demo_uses)" "length demo_uses < 2 ^ 32" by (simp_all add: demo_uses_def)
  moreover have "track_run demo_uses = (fst (track_run demo_uses), [0, 1000000, 12000000], [6000000])"
    using demo_uses_run by (metis prod.collapse)
  ultimately have "\<forall>i. i + 2 < length [0, 1000000, 12000000 :: int] \<longrightarrow> [0, 1000000, 12000000] ! i + 4000000 \<le> [0, 1000000, 12000000 :: int] ! (i + 2)"
    by (rule slow_decoder_asks_rarely [THEN conjunct1])
  from spec [OF this, of 0] have "(0::int) + 4000000 \<le> 12000000" by (simp only: list.size nth_Cons_0 nth_Cons_Suc numeral_2_eq_2 add_0)
  then show ?thesis using demo_uses_run by simp
qed

end
