(* ===== verification/Client_Chat.thy ===== *)
theory Client_Chat
  imports Client_Server
begin

text \<open>
  The text chat of the client: the view models of \<open>client/include/client/chat_model.h\<close> and the chat part of
  \<open>client/src/app_core.cpp\<close> (\<open>setup_chat_model_callbacks\<close>, the chat protocol handlers, and the places that reset
  the chat). One record holds the bound state of \<open>ChatModel\<close> and the members of \<open>AppCore\<close> that chat
  uses. Message, attachment and channel ids are words; the sources store some of them as signed
  integers with the same bits and only compare them.

  Local time and number formatting belong to the C library and are a parameter: \<open>localtime\<close>, \<open>strftime\<close>,
  \<open>std::format\<close> with one decimal, and the current time. Files and dialogs are inputs of the operations
  that use them. Change notifications of the user interface have no state of their own.
\<close>

section \<open>Strings\<close>

text \<open>\<open>std::string::find\<close> and \<open>substr\<close>.\<close>

fun begins_with :: "bytes \<Rightarrow> bytes \<Rightarrow> bool" where
  "begins_with [] t = True"
| "begins_with (p # ps) [] = False"
| "begins_with (p # ps) (x # xs) \<longleftrightarrow> p = x \<and> begins_with ps xs"

fun first_match :: "bytes \<Rightarrow> bytes \<Rightarrow> nat option" where
  "first_match p [] = (if p = [] then Some 0 else None)"
| "first_match p (x # xs) = (if begins_with p (x # xs) then Some 0 else map_option Suc (first_match p xs))"

definition find_from :: "bytes \<Rightarrow> bytes \<Rightarrow> nat \<Rightarrow> nat option" where
  "find_from p t pos = map_option ((+) pos) (first_match p (drop pos t))"

definition substr :: "bytes \<Rightarrow> nat \<Rightarrow> nat \<Rightarrow> bytes" where
  "substr t pos n = take n (drop pos t)"

definition to_upper :: "u8 \<Rightarrow> u8" where
  "to_upper c = (if 97 \<le> c \<and> c \<le> 122 then c - 32 else c)"

definition name_color_index :: "bytes \<Rightarrow> nat" where
  "name_color_index name = unat (name_hash name) mod 12"

definition make_initials :: "bytes \<Rightarrow> bytes" where
  "make_initials name =
     (if name = [] then str ''?''
      else to_upper (name ! 0) #
        (case find_from (str '' '') name 0 of
           Some sp \<Rightarrow> if sp + 1 < length name then [to_upper (name ! (sp + 1))]
                      else if length name > 1 then [to_upper (name ! 1)] else []
         | None \<Rightarrow> if length name > 1 then [to_upper (name ! 1)] else []))"

definition file_extension_upper :: "bytes \<Rightarrow> bytes" where
  "file_extension_upper f =
     (case last_dot_suffix f of
        None \<Rightarrow> []
      | Some suffix \<Rightarrow> if length suffix \<le> 1 then [] else map to_upper (drop 1 suffix))"

section \<open>Links in a message\<close>

record text_segment =
  seg_text :: bytes
  seg_url :: bool

definition http_prefix :: bytes where "http_prefix = str ''http://''"
definition https_prefix :: bytes where "https_prefix = str ''https://''"

text \<open>\<open>std::min\<close> of two \<open>find\<close> results, with \<open>npos\<close> above every position.\<close>

definition min_pos :: "nat option \<Rightarrow> nat option \<Rightarrow> nat option" where
  "min_pos a b = (case (a, b) of (None, _) \<Rightarrow> b | (_, None) \<Rightarrow> a | (Some i, Some j) \<Rightarrow> Some (min i j))"

definition url_start :: "bytes \<Rightarrow> nat \<Rightarrow> nat option" where
  "url_start t pos = min_pos (find_from http_prefix t pos) (find_from https_prefix t pos)"

definition is_blank :: "u8 \<Rightarrow> bool" where
  "is_blank c \<longleftrightarrow> c = 32 \<or> c = 10 \<or> c = 13 \<or> c = 9"

definition is_trailing :: "u8 \<Rightarrow> bool" where
  "is_trailing c \<longleftrightarrow> c = 46 \<or> c = 44 \<or> c = 41 \<or> c = 59"

definition word_end :: "bytes \<Rightarrow> nat \<Rightarrow> nat" where
  "word_end t s = s + length (takeWhile (\<lambda>c. \<not> is_blank c) (drop s t))"

fun strip_end :: "bytes \<Rightarrow> nat \<Rightarrow> nat \<Rightarrow> nat" where
  "strip_end t s 0 = 0"
| "strip_end t s (Suc e) = (if Suc e > s \<and> is_trailing (t ! e) then strip_end t s e else Suc e)"

definition url_end :: "bytes \<Rightarrow> nat \<Rightarrow> nat" where
  "url_end t s = strip_end t s (word_end t s)"

text \<open>A link is at least as long as its scheme, so the loop moves on.\<close>

lemma begins_with_iff: "begins_with p t \<longleftrightarrow> (\<exists>xs. t = p @ xs)"
  by (induction p t rule: begins_with.induct) auto

lemma first_match_Some: "first_match p t = Some i \<Longrightarrow> begins_with p (drop i t) \<and> i \<le> length t"
  by (induction t arbitrary: i) (auto split: if_splits)

lemma url_start_found:
  "url_start t pos = Some s \<Longrightarrow> pos \<le> s \<and> (begins_with http_prefix (drop s t) \<or> begins_with https_prefix (drop s t))"
  by (auto simp: url_start_def min_pos_def find_from_def min_def add.commute dest!: first_match_Some
      split: option.splits if_splits)

lemma strip_end_ge: "s \<le> k \<Longrightarrow> 0 < k \<Longrightarrow> \<not> is_trailing (t ! (k - 1)) \<Longrightarrow> k \<le> e \<Longrightarrow> k \<le> strip_end t s e"
proof (induction e)
  case (Suc e)
  show ?case
  proof (cases "k \<le> e")
    case False
    then have "k = Suc e" using Suc.prems by simp
    then show ?thesis using Suc.prems by simp
  qed (use Suc in auto)
qed simp

lemma scheme_within:
  assumes "drop s t = n @ xs" "n = http_prefix \<or> n = https_prefix"
  shows "s + length n \<le> url_end t s"
proof -
  have plain: "\<forall>c \<in> set n. \<not> is_blank c" "7 \<le> length n" "last n = 47"
    using assms(2) by (auto simp: http_prefix_def https_prefix_def str_def is_blank_def)
  then have "takeWhile (\<lambda>c. \<not> is_blank c) (drop s t) = n @ takeWhile (\<lambda>c. \<not> is_blank c) xs"
    using assms(1) by (simp add: takeWhile_append)
  then have w: "s + length n \<le> word_end t s" by (simp add: word_end_def)
  have "s \<le> length t" using assms(1) plain(2) by (cases "s \<le> length t") auto
  then have "t ! (s + (length n - 1)) = (n @ xs) ! (length n - 1)" using assms(1) by (metis nth_drop)
  also have "\<dots> = 47" using plain last_conv_nth [of n] by (cases "n = []") (auto simp: nth_append)
  finally have "\<not> is_trailing (t ! (s + length n - 1))" using plain(2) by (simp add: is_trailing_def)
  then show ?thesis unfolding url_end_def using plain(2) w by (intro strip_end_ge) auto
qed

lemma scheme_end:
  assumes "begins_with http_prefix (drop s t) \<or> begins_with https_prefix (drop s t)"
  shows "s + 7 \<le> url_end t s"
proof -
  obtain n xs where n: "drop s t = n @ xs" "n = http_prefix \<or> n = https_prefix"
    using assms by (auto simp: begins_with_iff)
  then have "7 \<le> length n" by (auto simp: http_prefix_def https_prefix_def str_def)
  then show ?thesis using scheme_within [OF n] by simp
qed

lemma url_progress: "url_start t pos = Some s \<Longrightarrow> pos < url_end t s"
  using url_start_found [of t pos s] scheme_end [of s t] by auto

function split_from :: "bytes \<Rightarrow> nat \<Rightarrow> text_segment list" where
  "split_from t pos =
     (if pos \<ge> length t then []
      else case url_start t pos of
        None \<Rightarrow> [\<lparr>seg_text = drop pos t, seg_url = False\<rparr>]
      | Some s \<Rightarrow>
          (if s > pos then [\<lparr>seg_text = substr t pos (s - pos), seg_url = False\<rparr>] else [])
          @ \<lparr>seg_text = substr t s (url_end t s - s), seg_url = True\<rparr> # split_from t (url_end t s))"
  by pat_completeness auto
termination
  by (relation "measure (\<lambda>(t, pos). length t - pos)") (auto dest: url_progress)

declare split_from.simps [simp del]

definition split_text_with_urls :: "bytes \<Rightarrow> text_segment list" where
  "split_text_with_urls t =
     (case split_from t 0 of [] \<Rightarrow> [\<lparr>seg_text = t, seg_url = False\<rparr>] | segs \<Rightarrow> segs)"


section \<open>State\<close>

record chat_attachment =
  ca_id :: u64
  ca_name :: bytes
  ca_size_str :: bytes
  ca_ext :: bytes
  ca_uploaded :: bool

record chat_message =
  cm_id :: u64
  cm_sender :: u32
  cm_name :: bytes
  cm_initials :: bytes
  cm_own :: bool
  cm_text :: bytes
  cm_has_url :: bool
  cm_segments :: "text_segment list"
  cm_time_str :: bytes
  cm_date_label :: bytes
  cm_raw_time :: u64
  cm_pinned :: bool
  cm_color :: nat
  cm_attachments :: "chat_attachment list"

record text_channel_view =
  tv_id :: u32
  tv_name :: bytes
  tv_unread :: bool

record pending_file =
  pfl_name :: bytes
  pfl_size_str :: bytes
  pfl_path :: bytes

record pending_upload =
  pu_path :: bytes
  pu_data :: bytes

datatype chat_out =
  ChatSent ctype bytes
| UploadFile u64 bytes
| DownloadFile u64
| MessageMenu u64
| OpenUrl bytes
| SaveFile bytes bytes

text \<open>\<open>ct_user\<close>, \<open>ct_auth\<close> and \<open>ct_router\<close> are \<open>AppCore::user_id_\<close>, \<open>authenticated_\<close> and the document router.\<close>

record chat_ui =
  ct_user :: u32
  ct_auth :: bool
  ct_router :: doc_router
  ct_mobile_content :: bool
  ct_channels :: "text_channel_view list"
  ct_active :: u32
  ct_active_name :: bytes
  ct_messages :: "chat_message list"
  ct_more :: bool
  ct_compose :: bytes
  ct_show_search :: bool
  ct_query :: bytes
  ct_results :: "chat_message list"
  ct_show_pinned :: bool
  ct_pinned :: "chat_message list"
  ct_files :: "pending_file list"
  ct_can_manage :: bool
  ct_show_create :: bool
  ct_new_name :: bytes
  ct_uploads :: "pending_upload list"
  ct_downloads :: "(u64 \<times> bytes) list"
  ct_out :: "chat_out list"

definition new_chat :: "u32 \<Rightarrow> chat_ui" where
  "new_chat u = \<lparr>ct_user = u, ct_auth = True, ct_router = new_doc_router, ct_mobile_content = False, ct_channels = [],
     ct_active = 0, ct_active_name = [], ct_messages = [], ct_more = False, ct_compose = [], ct_show_search = False,
     ct_query = [], ct_results = [], ct_show_pinned = False, ct_pinned = [], ct_files = [], ct_can_manage = False,
     ct_show_create = False, ct_new_name = [], ct_uploads = [], ct_downloads = [], ct_out = []\<rparr>"

definition chat_do :: "chat_out \<Rightarrow> chat_ui \<Rightarrow> chat_ui" where
  "chat_do x c = c\<lparr>ct_out := ct_out c @ [x]\<rparr>"

section \<open>Time and sizes\<close>

text \<open>The fields of \<open>struct tm\<close> the code reads itself; \<open>strftime\<close> takes the whole value.\<close>

record calendar =
  tm_year :: int
  tm_yday :: int
  tm_rest :: "int list"

record chat_lib =
  lib_localtime :: "u64 \<Rightarrow> calendar option"
  lib_strftime :: "bytes \<Rightarrow> calendar \<Rightarrow> bytes"
  lib_one_decimal :: "u64 \<Rightarrow> u64 \<Rightarrow> bytes"
  lib_now :: u64

definition format_timestamp :: "chat_lib \<Rightarrow> u64 \<Rightarrow> bytes" where
  "format_timestamp CL t =
     (case lib_localtime CL t of
        None \<Rightarrow> []
      | Some tm \<Rightarrow>
          (case lib_strftime CL (str ''%I:%M %p'') tm of
             [] \<Rightarrow> []
           | b # bs \<Rightarrow> if b = 48 then bs else b # bs))"

definition day_of_timestamp :: "chat_lib \<Rightarrow> u64 \<Rightarrow> int" where
  "day_of_timestamp CL t = (case lib_localtime CL t of None \<Rightarrow> -1 | Some tm \<Rightarrow> tm_year tm * 400 + tm_yday tm)"

definition format_date_label :: "chat_lib \<Rightarrow> u64 \<Rightarrow> bytes" where
  "format_date_label CL t =
     (let today = day_of_timestamp CL (lib_now CL); msg_day = day_of_timestamp CL t
      in if msg_day = today then str ''Today''
         else if msg_day = today - 1 then str ''Yesterday''
         else case lib_localtime CL t of None \<Rightarrow> [] | Some tm \<Rightarrow> lib_strftime CL (str ''%B %d, %Y'') tm)"

fun label_days :: "chat_lib \<Rightarrow> int \<Rightarrow> chat_message list \<Rightarrow> chat_message list" where
  "label_days CL prev [] = []"
| "label_days CL prev (m # ms) =
     (let d = day_of_timestamp CL (cm_raw_time m)
      in if d \<noteq> prev then m\<lparr>cm_date_label := format_date_label CL (cm_raw_time m)\<rparr> # label_days CL d ms
         else m\<lparr>cm_date_label := []\<rparr> # label_days CL prev ms)"

definition assign_date_labels :: "chat_lib \<Rightarrow> chat_message list \<Rightarrow> chat_message list" where
  "assign_date_labels CL ms = label_days CL (-1) ms"

text \<open>\<open>lib_one_decimal n k\<close> is \<open>std::format("{:.1f}", n / k)\<close>.\<close>

definition size_string :: "chat_lib \<Rightarrow> u64 \<Rightarrow> bytes" where
  "size_string CL n =
     (if n < 1024 then dec (unat n) @ str '' B''
      else if n < 1024 * 1024 then lib_one_decimal CL n 1024 @ str '' KB''
      else lib_one_decimal CL n (1024 * 1024) @ str '' MB'')"

section \<open>Reading a message\<close>

text \<open>The loop pushes the entry it was reading when the reader ran dry, and stops after it.\<close>

fun parse_attachments :: "chat_lib \<Rightarrow> nat \<Rightarrow> reader \<Rightarrow> chat_attachment list \<times> reader" where
  "parse_attachments CL 0 r = ([], r)"
| "parse_attachments CL (Suc k) r =
     (if rerr r then ([], r)
      else
        let (aid, r1) = read_u64 r; (name, r2) = read_string r1; (fsize, r3) = read_u64 r2;
            (mime, r4) = read_string r3; (up, r5) = read_u8 r4;
            (rest, r6) = parse_attachments CL k r5
        in (\<lparr>ca_id = aid, ca_name = name, ca_size_str = size_string CL fsize, ca_ext = file_extension_upper name,
             ca_uploaded = (up \<noteq> 0)\<rparr> # rest, r6))"

definition parse_chat_message :: "chat_lib \<Rightarrow> u32 \<Rightarrow> reader \<Rightarrow> chat_message \<times> reader" where
  "parse_chat_message CL me r =
     (let (mid, r1) = read_u64 r; (ch, r2) = read_u32 r1; (sender, r3) = read_u32 r2; (name, r4) = read_string r3;
          (t, r5) = read_u64 r4; (txt, r6) = read_string r5; (pinned, r7) = read_u8 r6; (cnt, r8) = read_u8 r7;
          (atts, r9) = parse_attachments CL (unat cnt) r8; segs = split_text_with_urls txt
      in (\<lparr>cm_id = mid, cm_sender = sender, cm_name = name, cm_initials = make_initials name, cm_own = (sender = me),
           cm_text = txt, cm_has_url = list_ex seg_url segs, cm_segments = segs, cm_time_str = format_timestamp CL t,
           cm_date_label = [], cm_raw_time = t, cm_pinned = (pinned \<noteq> 0), cm_color = name_color_index name,
           cm_attachments = atts\<rparr>, r9))"

fun parse_chat_messages :: "chat_lib \<Rightarrow> u32 \<Rightarrow> nat \<Rightarrow> reader \<Rightarrow> chat_message list" where
  "parse_chat_messages CL me 0 r = []"
| "parse_chat_messages CL me (Suc k) r =
     (if rerr r then [] else let (m, r1) = parse_chat_message CL me r in m # parse_chat_messages CL me k r1)"


section \<open>What the user does\<close>

definition history_request :: "u32 \<Rightarrow> u64 \<Rightarrow> bytes" where
  "history_request ch before = write_u16 30 (write_u64 before (write_u32 ch []))"

definition on_select_channel :: "u32 \<Rightarrow> chat_ui \<Rightarrow> chat_ui" where
  "on_select_channel ch c =
     (let c1 = c\<lparr>ct_active := ch\<rparr>;
          c2 = (case List.find (\<lambda>t. tv_id t = ch) (ct_channels c1) of
                  None \<Rightarrow> c1
                | Some t \<Rightarrow> c1\<lparr>ct_active_name := tv_name t,
                               ct_channels := update_first (\<lambda>t. tv_id t = ch) (\<lambda>t. t\<lparr>tv_unread := False\<rparr>) (ct_channels c1)\<rparr>);
          c3 = c2\<lparr>ct_messages := [], ct_more := False, ct_show_search := False, ct_show_pinned := False,
                  ct_router := dr_go Chat (ct_router c2), ct_mobile_content := True\<rparr>
      in chat_do (ChatSent CHAT_HISTORY_REQ (history_request ch 0)) c3)"

text \<open>\<open>read_file\<close> gives the content of a file, \<open>None\<close> when it does not open: such a file is left out.\<close>

definition read_uploads :: "(bytes \<Rightarrow> bytes option) \<Rightarrow> pending_file list \<Rightarrow> pending_upload list" where
  "read_uploads read_file fs =
     concat (map (\<lambda>f. case read_file (pfl_path f) of None \<Rightarrow> [] | Some d \<Rightarrow> [\<lparr>pu_path = pfl_name f, pu_data = d\<rparr>]) fs)"

definition write_upload :: "pending_upload \<Rightarrow> bytes \<Rightarrow> bytes" where
  "write_upload pu buf =
     write_string (str ''application/octet-stream'') (write_u64 (of_nat (length (pu_data pu))) (write_string (pu_path pu) buf))"

definition chat_send_payload :: "u32 \<Rightarrow> bytes \<Rightarrow> pending_upload list \<Rightarrow> bytes" where
  "chat_send_payload ch txt ups =
     fold write_upload ups (write_u8 (of_nat (length ups)) (write_string txt (write_u32 ch [])))"

definition on_send_message :: "(bytes \<Rightarrow> bytes option) \<Rightarrow> chat_ui \<Rightarrow> chat_ui" where
  "on_send_message read_file c =
     (if ct_active c = 0 then c
      else if ct_compose c = [] \<and> ct_files c = [] then c
      else
        let ups = read_uploads read_file (ct_files c);
            c1 = chat_do (ChatSent CHAT_SEND (chat_send_payload (ct_active c) (ct_compose c) ups)) (c\<lparr>ct_uploads := ups\<rparr>)
        in c1\<lparr>ct_compose := [], ct_files := []\<rparr>)"

definition on_load_more_history :: "chat_ui \<Rightarrow> chat_ui" where
  "on_load_more_history c =
     (case ct_messages c of
        [] \<Rightarrow> c
      | m # _ \<Rightarrow> if \<not> ct_more c then c
                 else chat_do (ChatSent CHAT_HISTORY_REQ (history_request (ct_active c) (cm_id m))) c)"

definition on_pin_message :: "u64 \<Rightarrow> chat_ui \<Rightarrow> chat_ui" where
  "on_pin_message mid c = chat_do (ChatSent CHAT_PIN (write_u64 mid [])) c"

definition on_unpin_message :: "u64 \<Rightarrow> chat_ui \<Rightarrow> chat_ui" where
  "on_unpin_message mid c = chat_do (ChatSent CHAT_UNPIN (write_u64 mid [])) c"

definition on_delete_message :: "u64 \<Rightarrow> chat_ui \<Rightarrow> chat_ui" where
  "on_delete_message mid c = chat_do (ChatSent CHAT_DELETE (write_u64 mid [])) c"

definition on_message_context_menu :: "bool \<Rightarrow> u64 \<Rightarrow> chat_ui \<Rightarrow> chat_ui" where
  "on_message_context_menu offered mid c = (if offered then chat_do (MessageMenu mid) c else c)"

definition on_do_search :: "chat_ui \<Rightarrow> chat_ui" where
  "on_do_search c =
     (if ct_query c = [] \<or> ct_active c = 0 then c
      else chat_do (ChatSent CHAT_SEARCH
             (write_u16 30 (write_u64 0 (write_string (ct_query c) (write_u32 (ct_active c) []))))) c)"

definition on_request_pinned :: "chat_ui \<Rightarrow> chat_ui" where
  "on_request_pinned c =
     (if ct_active c = 0 then c else chat_do (ChatSent CHAT_PINNED_REQ (write_u32 (ct_active c) [])) c)"

definition on_create_text_channel :: "chat_ui \<Rightarrow> chat_ui" where
  "on_create_text_channel c =
     (if \<not> ct_auth c \<or> ct_new_name c = [] then c
      else (chat_do (ChatSent ADMIN_CREATE_TEXT_CHANNEL (write_string (ct_new_name c) [])) c)\<lparr>ct_show_create := False\<rparr>)"

definition on_open_url :: "bytes \<Rightarrow> chat_ui \<Rightarrow> chat_ui" where
  "on_open_url url c =
     (if find_from http_prefix url 0 \<noteq> Some 0 \<and> find_from https_prefix url 0 \<noteq> Some 0 then c
      else chat_do (OpenUrl (cstr url)) c)"

definition on_download_file :: "u64 \<Rightarrow> chat_ui \<Rightarrow> chat_ui" where
  "on_download_file aid c = chat_do (DownloadFile aid) c"

definition on_file_downloaded :: "u64 \<Rightarrow> bytes \<Rightarrow> chat_ui \<Rightarrow> chat_ui" where
  "on_file_downloaded aid d c = c\<lparr>ct_downloads := ct_downloads c @ [(aid, d)]\<rparr>"

text \<open>The open dialog: \<open>None\<close> when it is cancelled, else the buffer it filled and the offset of the file name. With
  several files the buffer holds the directory and the names, each ended by a zero, and a second zero
  ends the list. \<open>file_size\<close> is \<open>std::filesystem::file_size\<close>.\<close>

definition BUF :: nat where "BUF = 4096"

fun buffer_names :: "nat \<Rightarrow> bytes \<Rightarrow> bytes list" where
  "buffer_names 0 b = []"
| "buffer_names (Suc n) b =
     (case b of [] \<Rightarrow> [] | x # _ \<Rightarrow> if x = 0 then [] else cstr b # buffer_names n (drop (length (cstr b) + 1) b))"

definition path_name :: "bytes \<Rightarrow> bytes" where
  "path_name p = rev (takeWhile (\<lambda>c. c \<noteq> SLASH \<and> c \<noteq> BACKSLASH) (rev p))"

definition path_join :: "bytes \<Rightarrow> bytes \<Rightarrow> bytes" where
  "path_join d p = (if path_name d = [] then d @ p else d @ BACKSLASH # p)"

definition pending_file_of :: "chat_lib \<Rightarrow> (bytes \<Rightarrow> u64) \<Rightarrow> bytes \<Rightarrow> pending_file" where
  "pending_file_of CL file_size p = \<lparr>pfl_name = path_name p, pfl_size_str = size_string CL (file_size p), pfl_path = p\<rparr>"

definition on_attach_file :: "chat_lib \<Rightarrow> (bytes \<Rightarrow> u64) \<Rightarrow> (bytes \<times> nat) option \<Rightarrow> chat_ui \<Rightarrow> chat_ui" where
  "on_attach_file CL file_size dialog c =
     (case dialog of
        None \<Rightarrow> c
      | Some (buf, off) \<Rightarrow>
          c\<lparr>ct_files := ct_files c @ map (pending_file_of CL file_size)
             (if off > 0 \<and> buf ! (off - 1) = 0
              then map (path_join (cstr buf)) (buffer_names BUF (drop (length (cstr buf) + 1) buf))
              else [cstr buf])\<rparr>)"

text \<open>The events of \<open>ChatModel::build\<close> that change the model themselves.\<close>

definition toggle_search :: "chat_ui \<Rightarrow> chat_ui" where
  "toggle_search c =
     (if ct_show_search c then c\<lparr>ct_show_search := False, ct_query := [], ct_results := []\<rparr>
      else c\<lparr>ct_show_search := True\<rparr>)"

definition toggle_pinned :: "chat_ui \<Rightarrow> chat_ui" where
  "toggle_pinned c =
     (let c1 = c\<lparr>ct_show_pinned := \<not> ct_show_pinned c\<rparr> in if ct_show_pinned c1 then on_request_pinned c1 else c1)"

definition open_url :: "bytes \<Rightarrow> chat_ui \<Rightarrow> chat_ui" where
  "open_url url c =
     (if find_from http_prefix url 0 = Some 0 \<or> find_from https_prefix url 0 = Some 0 then on_open_url url c else c)"

fun remove_file :: "bytes \<Rightarrow> pending_file list \<Rightarrow> pending_file list" where
  "remove_file p [] = []"
| "remove_file p (f # fs) = (if pfl_path f = p then fs else f # remove_file p fs)"

definition remove_pending_file :: "bytes \<Rightarrow> chat_ui \<Rightarrow> chat_ui" where
  "remove_pending_file p c = c\<lparr>ct_files := remove_file p (ct_files c)\<rparr>"

definition show_create_text_channel_form :: "chat_ui \<Rightarrow> chat_ui" where
  "show_create_text_channel_form c = c\<lparr>ct_show_create := True, ct_new_name := []\<rparr>"

definition cancel_create_text_channel :: "chat_ui \<Rightarrow> chat_ui" where
  "cancel_create_text_channel c = c\<lparr>ct_show_create := False\<rparr>"


section \<open>What the server says\<close>

fun read_text_channels :: "nat \<Rightarrow> reader \<Rightarrow> text_channel_view list" where
  "read_text_channels 0 r = []"
| "read_text_channels (Suc k) r =
     (if rerr r then []
      else let (i, r1) = read_u32 r; (name, r2) = read_string r1; (so, r3) = read_u32 r2
           in \<lparr>tv_id = i, tv_name = name, tv_unread = False\<rparr> # read_text_channels k r3)"

definition on_chat_channel_list :: "bytes \<Rightarrow> chat_ui \<Rightarrow> chat_ui" where
  "on_chat_channel_list d c =
     (let (cnt, r) = read_u32 (new_reader d)
      in if rerr r then c else c\<lparr>ct_channels := read_text_channels (unat cnt) r\<rparr>)"

text \<open>A message of one's own, while files wait to be uploaded, tells the ids of its attachments.\<close>

definition upload_pending :: "chat_message \<Rightarrow> chat_ui \<Rightarrow> chat_ui" where
  "upload_pending m c =
     (if cm_sender m = ct_user c \<and> ct_uploads c \<noteq> []
      then (fold (\<lambda>(a, pu). chat_do (UploadFile (ca_id a) (pu_data pu))) (zip (cm_attachments m) (ct_uploads c)) c)
             \<lparr>ct_uploads := []\<rparr>
      else c)"

definition MAX_SHOWN :: nat where "MAX_SHOWN = 30"

definition put_message :: "chat_message \<Rightarrow> chat_message list \<Rightarrow> chat_message list" where
  "put_message m ms =
     (if list_ex (\<lambda>x. cm_id x = cm_id m) ms then update_first (\<lambda>x. cm_id x = cm_id m) (\<lambda>_. m) ms else ms @ [m])"

definition show_message :: "chat_lib \<Rightarrow> chat_message \<Rightarrow> chat_ui \<Rightarrow> chat_ui" where
  "show_message CL m c =
     (let ms = put_message m (ct_messages c)
      in if length ms > MAX_SHOWN
         then c\<lparr>ct_messages := assign_date_labels CL (drop (length ms - MAX_SHOWN) ms), ct_more := True\<rparr>
         else c\<lparr>ct_messages := assign_date_labels CL ms\<rparr>)"

definition mark_unread :: "u32 \<Rightarrow> chat_ui \<Rightarrow> chat_ui" where
  "mark_unread ch c =
     c\<lparr>ct_channels := update_first (\<lambda>t. tv_id t = ch) (\<lambda>t. t\<lparr>tv_unread := True\<rparr>) (ct_channels c)\<rparr>"

definition on_chat_message :: "chat_lib \<Rightarrow> bytes \<Rightarrow> chat_ui \<Rightarrow> chat_ui" where
  "on_chat_message CL d c =
     (let (m, r) = parse_chat_message CL (ct_user c) (new_reader d)
      in if rerr r then c
         else
           let ch = fst (read_u32 (snd (read_u64 (new_reader d)))); c1 = upload_pending m c
           in if ch = ct_active c1 then show_message CL m c1 else mark_unread ch c1)"

definition on_chat_history_resp :: "chat_lib \<Rightarrow> bytes \<Rightarrow> chat_ui \<Rightarrow> chat_ui" where
  "on_chat_history_resp CL d c =
     (let (ch, r1) = read_u32 (new_reader d); (more, r2) = read_u8 r1; (cnt, r3) = read_u16 r2
      in if rerr r3 then c
         else if ch \<noteq> ct_active c then c
         else let batch = parse_chat_messages CL (ct_user c) (unat cnt) r3
              in c\<lparr>ct_messages := assign_date_labels CL (batch @ ct_messages c), ct_more := (more \<noteq> 0)\<rparr>)"

definition on_chat_message_deleted :: "chat_lib \<Rightarrow> bytes \<Rightarrow> chat_ui \<Rightarrow> chat_ui" where
  "on_chat_message_deleted CL d c =
     (let (mid, r1) = read_u64 (new_reader d); (ch, r2) = read_u32 r1
      in if rerr r2 then c
         else if ch = ct_active c
         then c\<lparr>ct_messages := assign_date_labels CL (filter (\<lambda>m. cm_id m \<noteq> mid) (ct_messages c))\<rparr>
         else c)"

definition on_chat_search_resp :: "chat_lib \<Rightarrow> bytes \<Rightarrow> chat_ui \<Rightarrow> chat_ui" where
  "on_chat_search_resp CL d c =
     (let (ch, r1) = read_u32 (new_reader d); (cnt, r2) = read_u16 r1
      in if rerr r2 then c else c\<lparr>ct_results := parse_chat_messages CL (ct_user c) (unat cnt) r2\<rparr>)"

definition on_chat_pinned_resp :: "chat_lib \<Rightarrow> bytes \<Rightarrow> chat_ui \<Rightarrow> chat_ui" where
  "on_chat_pinned_resp CL d c =
     (let (ch, r1) = read_u32 (new_reader d); (cnt, r2) = read_u16 r1
      in if rerr r2 then c else c\<lparr>ct_pinned := parse_chat_messages CL (ct_user c) (unat cnt) r2\<rparr>)"

definition on_chat_file_ready :: "bytes \<Rightarrow> chat_ui \<Rightarrow> chat_ui" where
  "on_chat_file_ready d c =
     (let (mid, r1) = read_u64 (new_reader d); (aid, r2) = read_u64 r1
      in if rerr r2 then c
         else c\<lparr>ct_messages := update_first (\<lambda>m. cm_id m = mid)
                (\<lambda>m. m\<lparr>cm_attachments := update_first (\<lambda>a. ca_id a = aid) (\<lambda>a. a\<lparr>ca_uploaded := True\<rparr>) (cm_attachments m)\<rparr>)
                (ct_messages c)\<rparr>)"

text \<open>The chat cases of \<open>AppCore::handle_server_message\<close>.\<close>

definition handle_chat_message :: "chat_lib \<Rightarrow> ctype \<Rightarrow> bytes \<Rightarrow> chat_ui \<Rightarrow> chat_ui" where
  "handle_chat_message CL ty d c =
     (case ty of
        CHAT_CHANNEL_LIST \<Rightarrow> on_chat_channel_list d c
      | CHAT_MESSAGE \<Rightarrow> on_chat_message CL d c
      | CHAT_HISTORY_RESP \<Rightarrow> on_chat_history_resp CL d c
      | CHAT_MESSAGE_DELETED \<Rightarrow> on_chat_message_deleted CL d c
      | CHAT_SEARCH_RESP \<Rightarrow> on_chat_search_resp CL d c
      | CHAT_PINNED_RESP \<Rightarrow> on_chat_pinned_resp CL d c
      | CHAT_FILE_READY \<Rightarrow> on_chat_file_ready d c
      | _ \<Rightarrow> c)"

section \<open>Tick, joining a voice channel, and disconnecting\<close>

text \<open>The save dialog is given the suggested name, cut to fit its buffer, and answers with a path or nothing. Within a
  message the first attachment with the id gives the name; of several messages the last one does.\<close>

definition MAX_PATH :: nat where "MAX_PATH = 260"

definition download_name :: "u64 \<Rightarrow> chat_message list \<Rightarrow> bytes" where
  "download_name aid ms =
     fold (\<lambda>m name. case List.find (\<lambda>a. ca_id a = aid) (cm_attachments m) of None \<Rightarrow> name | Some a \<Rightarrow> ca_name a)
       ms (str ''download'')"

definition save_download :: "(bytes \<Rightarrow> bytes option) \<Rightarrow> u64 \<times> bytes \<Rightarrow> chat_ui \<Rightarrow> chat_ui" where
  "save_download dialog dl c =
     (case dialog (take (MAX_PATH - 1) (cstr (download_name (fst dl) (ct_messages c)))) of
        None \<Rightarrow> c
      | Some path \<Rightarrow> chat_do (SaveFile path (snd dl)) c)"

definition tick_downloads :: "(bytes \<Rightarrow> bytes option) \<Rightarrow> chat_ui \<Rightarrow> chat_ui" where
  "tick_downloads dialog c = fold (save_download dialog) (ct_downloads c) (c\<lparr>ct_downloads := []\<rparr>)"

text \<open>The right to manage text channels follows the role, on signing in and on a change of role.\<close>

definition chat_rights :: "u8 \<Rightarrow> chat_ui \<Rightarrow> chat_ui" where
  "chat_rights r c = c\<lparr>ct_can_manage := (r \<le> Moderator)\<rparr>"

definition leave_text_channel :: "chat_ui \<Rightarrow> chat_ui" where
  "leave_text_channel c = (if \<not> ct_auth c then c else c\<lparr>ct_active := 0, ct_active_name := []\<rparr>)"

text \<open>The part of \<open>on_disconnect_cleanup\<close> that concerns the chat; \<open>authenticated_\<close> was cleared at its start.\<close>

definition chat_cleanup :: "chat_ui \<Rightarrow> chat_ui" where
  "chat_cleanup c = c\<lparr>ct_auth := False, ct_router := dr_reset (ct_router c), ct_can_manage := False, ct_uploads := [], ct_downloads := [],
     ct_channels := [], ct_messages := [], ct_active := 0, ct_active_name := [], ct_more := False, ct_show_search := False, ct_show_pinned := False,
     ct_compose := []\<rparr>"

end
