(* ===== verification/Chat_View.thy ===== *)
theory Chat_View
  imports Client_Chat
begin

text \<open>
  What the client makes of a chat message: how a text is cut into links and plain text, and that parsing
  a message the server wrote gives the fields it wrote (\<open>client/src/app_core.cpp\<close>, \<open>server/src/server.cpp\<close>).
\<close>

section \<open>Links\<close>

lemma first_match_least: "first_match p t = Some i \<Longrightarrow> j < i \<Longrightarrow> \<not> begins_with p (drop j t)"
proof (induction t arbitrary: i j)
  case (Cons x t)
  then show ?case by (cases j) (auto split: if_splits)
qed (simp split: if_splits)

lemma first_match_None: "p \<noteq> [] \<Longrightarrow> first_match p t = None \<longleftrightarrow> (\<forall>j. \<not> begins_with p (drop j t))"
proof (induction t)
  case (Cons x t)
  have "(\<forall>j. \<not> begins_with p (drop j (x # t))) \<longleftrightarrow> \<not> begins_with p (x # t) \<and> (\<forall>j. \<not> begins_with p (drop j t))"
    by (metis drop0 drop_Suc_Cons not0_implies_Suc)
  then show ?case using Cons by auto
qed (cases p; simp)

lemma begins_with_take: "begins_with p (take n t) \<Longrightarrow> begins_with p t"
  by (metis append_assoc append_take_drop_id begins_with_iff)

lemma no_match_take:
  assumes "first_match p t = Some i" "p \<noteq> []" "n \<le> i"
  shows "first_match p (take n t) = None"
proof -
  have "\<not> begins_with p (drop j (take n t))" for j
  proof (cases "j < i")
    case True
    then have "\<not> begins_with p (drop j t)" by (rule first_match_least [OF assms(1)])
    then show ?thesis using begins_with_take unfolding drop_take by blast
  next
    case False
    then show ?thesis using assms(2,3) by (cases p) auto
  qed
  then show ?thesis by (simp add: first_match_None assms(2))
qed

lemma no_match_take_None: "p \<noteq> [] \<Longrightarrow> first_match p t = None \<Longrightarrow> first_match p (take n t) = None"
  unfolding drop_take first_match_None using begins_with_take by blast

definition no_link :: "bytes \<Rightarrow> bool" where
  "no_link t \<longleftrightarrow> first_match http_prefix t = None \<and> first_match https_prefix t = None"

definition is_link :: "bytes \<Rightarrow> bool" where
  "is_link t \<longleftrightarrow> (begins_with http_prefix t \<or> begins_with https_prefix t)
     \<and> list_all (\<lambda>c. \<not> is_blank c) t \<and> \<not> is_trailing (last t)"

definition segment_ok :: "text_segment \<Rightarrow> bool" where
  "segment_ok s \<longleftrightarrow> seg_text s \<noteq> [] \<and> (if seg_url s then is_link (seg_text s) else no_link (seg_text s))"

lemma segment_ok_make: "segment_ok \<lparr>seg_text = x, seg_url = u\<rparr> \<longleftrightarrow> x \<noteq> [] \<and> (if u then is_link x else no_link x)"
  by (simp add: segment_ok_def)

lemma scheme_nonempty: "http_prefix \<noteq> []" "https_prefix \<noteq> []"
  by (simp_all add: http_prefix_def https_prefix_def str_def)

lemma no_link_before: "url_start t pos = Some s \<Longrightarrow> no_link (substr t pos (s - pos))"
  using scheme_nonempty
  by (auto simp: url_start_def min_pos_def find_from_def no_link_def substr_def intro: no_match_take no_match_take_None
      split: option.splits)

lemma no_link_rest: "url_start t pos = None \<Longrightarrow> no_link (drop pos t)"
  by (auto simp: url_start_def min_pos_def find_from_def no_link_def split: option.splits)

lemma strip_end_le: "strip_end t s e \<le> e"
  by (induction e) (auto simp: le_SucI)

lemma strip_end_last: "strip_end t s e > s \<Longrightarrow> \<not> is_trailing (t ! (strip_end t s e - 1))"
  by (induction e) auto

lemma url_end_le: "url_start t pos = Some s \<Longrightarrow> url_end t s \<le> length t"
proof -
  assume "url_start t pos = Some s"
  then have "begins_with http_prefix (drop s t) \<or> begins_with https_prefix (drop s t)" using url_start_found by blast
  then have "drop s t \<noteq> []" using scheme_nonempty by (auto simp: begins_with_iff)
  moreover have "length (takeWhile (\<lambda>c. \<not> is_blank c) (drop s t)) \<le> length t - s"
    using length_takeWhile_le [of _ "drop s t"] by simp
  ultimately show ?thesis using strip_end_le [of t s "word_end t s"] by (simp add: url_end_def word_end_def)
qed

lemma found_link: 
  assumes "url_start t pos = Some s"
  shows "is_link (substr t s (url_end t s - s)) \<and> substr t s (url_end t s - s) \<noteq> []"
proof -
  let ?e = "url_end t s" let ?u = "substr t s (url_end t s - s)"
  have scheme: "begins_with http_prefix (drop s t) \<or> begins_with https_prefix (drop s t)" using url_start_found assms by blast
  have e: "s + 7 \<le> ?e" "?e \<le> length t" using scheme_end [OF scheme] url_end_le [OF assms] by auto
  then have len: "length ?u = ?e - s" by (simp add: substr_def)
  then have ne: "?u \<noteq> []" using e by (metis add_le_imp_le_diff add.commute list.size(3) not_numeral_le_zero)
  have "?u ! (length ?u - 1) = t ! (?e - 1)" using e by (simp add: substr_def)
  then have trail: "\<not> is_trailing (last ?u)"
    using strip_end_last [of s t "word_end t s"] e ne by (simp add: last_conv_nth url_end_def)
  have "?e - s \<le> length (takeWhile (\<lambda>c. \<not> is_blank c) (drop s t))"
    using strip_end_le [of t s "word_end t s"] by (simp add: url_end_def word_end_def)
  then have "?u = take (?e - s) (takeWhile (\<lambda>c. \<not> is_blank c) (drop s t))"
    unfolding substr_def by (metis append_take_drop_id min.absorb1 take_append take_take takeWhile_dropWhile_id
        diff_is_0_eq take0 append_Nil2)
  then have blank: "list_all (\<lambda>c. \<not> is_blank c) ?u"
    by (metis in_set_takeD list_all_iff set_takeWhileD)
  have "begins_with http_prefix ?u \<or> begins_with https_prefix ?u"
  proof -
    obtain n xs where n: "drop s t = n @ xs" "n = http_prefix \<or> n = https_prefix" using scheme by (auto simp: begins_with_iff)
    then have "begins_with n ?u" using scheme_within [OF n] by (simp add: begins_with_iff substr_def)
    then show ?thesis using n(2) by auto
  qed
  then show ?thesis using trail blank ne by (simp add: is_link_def)
qed


lemma split_from_ok: "concat (map seg_text (split_from t pos)) = drop pos t \<and> list_all segment_ok (split_from t pos)"
proof (induction t pos rule: split_from.induct)
  case (1 t pos)
  show ?case
  proof (cases "length t \<le> pos")
    case False
    show ?thesis
    proof (cases "url_start t pos")
      case None
      then show ?thesis using False no_link_rest by (simp add: split_from.simps [of t pos] segment_ok_def)
    next
      case (Some s)
      let ?e = "url_end t s"
      have order: "pos \<le> s" "s + 7 \<le> ?e" using url_start_found [OF Some] scheme_end by auto
      have "substr t s (?e - s) @ drop ?e t = drop s t"
        using order(2) by (simp add: substr_def) (metis append_take_drop_id drop_drop le_add_diff_inverse2 le_add1 le_trans)
      moreover have "substr t pos (s - pos) @ drop s t = drop pos t"
        using order(1) by (simp add: substr_def) (metis append_take_drop_id drop_drop le_add_diff_inverse2)
      moreover have "s > pos \<Longrightarrow> substr t pos (s - pos) \<noteq> []" using False by (simp add: substr_def)
      moreover define rest where "rest = split_from t ?e"
      moreover have "split_from t pos =
          (if s > pos then [\<lparr>seg_text = substr t pos (s - pos), seg_url = False\<rparr>] else [])
          @ \<lparr>seg_text = substr t s (?e - s), seg_url = True\<rparr> # rest"
        using False Some by (simp add: split_from.simps [of t pos] rest_def)
      moreover have "concat (map seg_text rest) = drop ?e t" "list_all segment_ok rest"
        using 1 [OF False Some] by (simp_all add: rest_def)
      ultimately show ?thesis
        using found_link [OF Some] no_link_before [OF Some] order(1) by (auto simp: segment_ok_make le_less)
    qed
  qed (simp add: split_from.simps)
qed

text \<open>(C40) Cutting a message into links loses and invents nothing: for every text the pieces put together are the
  text; no piece of a non-empty text is empty; each link starts with http:// or https://, holds no blank
  and ends in none of the stripped characters; and no piece shown as plain text contains the start of a link.\<close>

theorem message_cut_into_links:
  "concat (map seg_text (split_text_with_urls t)) = t
   \<and> (if t = [] then split_text_with_urls t = [\<lparr>seg_text = [], seg_url = False\<rparr>]
      else list_all segment_ok (split_text_with_urls t))"
proof (cases "t = []")
  case True
  then show ?thesis by (simp add: split_text_with_urls_def split_from.simps)
next
  case False
  then have "split_from t 0 \<noteq> []" using split_from_ok [of t 0] by auto
  then show ?thesis using split_from_ok [of t 0] False
    by (cases "split_from t 0") (simp_all add: split_text_with_urls_def)
qed


section \<open>Parsing what the server writes\<close>

text \<open>An attachment on the wire: id, name, size, type, uploaded.\<close>

type_synonym wire_attachment = "u64 \<times> bytes \<times> u64 \<times> bytes \<times> u8"

definition att_bytes :: "wire_attachment \<Rightarrow> bytes" where
  "att_bytes w = (case w of (i, name, sz, mime, up) \<Rightarrow> le64 i @ enc_string name @ le64 sz @ enc_string mime @ [up])"

definition att_fits :: "wire_attachment \<Rightarrow> bool" where
  "att_fits w = (case w of (i, name, sz, mime, up) \<Rightarrow> string_fits name \<and> string_fits mime)"

definition att_view :: "chat_lib \<Rightarrow> wire_attachment \<Rightarrow> chat_attachment" where
  "att_view CL w = (case w of (i, name, sz, mime, up) \<Rightarrow>
     \<lparr>ca_id = i, ca_name = name, ca_size_str = size_string CL sz, ca_ext = file_extension_upper name, ca_uploaded = (up \<noteq> 0)\<rparr>)"

lemma att_bytes_make: "att_bytes (i, name, sz, mime, up) = le64 i @ enc_string name @ le64 sz @ enc_string mime @ [up]"
  by (simp add: att_bytes_def)

lemma parse_attachments_bytes:
  "ahead r (concat (map att_bytes ws) @ xs) \<Longrightarrow> list_all att_fits ws \<Longrightarrow>
   \<exists>r'. parse_attachments CL (length ws) r = (map (att_view CL) ws, r') \<and> ahead r' xs"
proof (induction ws arbitrary: r)
  case (Cons w ws)
  obtain i name sz mime up where w: "w = (i, name, sz, mime, up)" by (cases w)
  have fits: "string_fits name" "string_fits mime" using Cons.prems(2) by (auto simp: w att_fits_def)
  let ?rest = "concat (map att_bytes ws) @ xs"
  have "ahead r (le64 i @ enc_string name @ le64 sz @ enc_string mime @ up # ?rest)"
    using Cons.prems(1) by (simp add: w att_bytes_make)
  then obtain r1 where 1: "read_u64 r = (i, r1)" "ahead r1 (enc_string name @ le64 sz @ enc_string mime @ up # ?rest)"
    using ahead_u64 by blast
  then obtain r2 where 2: "read_string r1 = (name, r2)" "ahead r2 (le64 sz @ enc_string mime @ up # ?rest)"
    using ahead_string fits by blast
  then obtain r3 where 3: "read_u64 r2 = (sz, r3)" "ahead r3 (enc_string mime @ up # ?rest)" using ahead_u64 by blast
  then obtain r4 where 4: "read_string r3 = (mime, r4)" "ahead r4 (up # ?rest)" using ahead_string fits by blast
  then obtain r5 where 5: "read_u8 r4 = (up, r5)" "ahead r5 ?rest" using ahead_u8 by blast
  obtain r6 where 6: "parse_attachments CL (length ws) r5 = (map (att_view CL) ws, r6)" "ahead r6 xs"
    using Cons.IH [OF 5(2)] Cons.prems(2) by auto
  show ?case using 1 2 3 4 5 6 Cons.prems(1) by (simp add: w att_view_def)
qed simp

text \<open>A message on the wire, without the count of attachments that precedes them.\<close>

record wire_message =
  wm_id :: u64
  wm_channel :: u32
  wm_sender :: u32
  wm_name :: bytes
  wm_time :: u64
  wm_text :: bytes
  wm_pinned :: u8
  wm_attachments :: "wire_attachment list"

definition msg_bytes :: "wire_message \<Rightarrow> bytes" where
  "msg_bytes w = le64 (wm_id w) @ le32 (wm_channel w) @ le32 (wm_sender w) @ enc_string (wm_name w) @ le64 (wm_time w)
     @ enc_string (wm_text w) @ [wm_pinned w, of_nat (length (wm_attachments w))] @ concat (map att_bytes (wm_attachments w))"

definition msg_fits :: "wire_message \<Rightarrow> bool" where
  "msg_fits w \<longleftrightarrow> string_fits (wm_name w) \<and> string_fits (wm_text w) \<and> length (wm_attachments w) < 256
     \<and> list_all att_fits (wm_attachments w)"

definition msg_view :: "chat_lib \<Rightarrow> u32 \<Rightarrow> wire_message \<Rightarrow> chat_message" where
  "msg_view CL me w =
     \<lparr>cm_id = wm_id w, cm_sender = wm_sender w, cm_name = wm_name w, cm_initials = make_initials (wm_name w),
      cm_own = (wm_sender w = me), cm_text = wm_text w, cm_has_url = list_ex seg_url (split_text_with_urls (wm_text w)),
      cm_segments = split_text_with_urls (wm_text w), cm_time_str = format_timestamp CL (wm_time w), cm_date_label = [],
      cm_raw_time = wm_time w, cm_pinned = (wm_pinned w \<noteq> 0), cm_color = name_color_index (wm_name w),
      cm_attachments = map (att_view CL) (wm_attachments w)\<rparr>"

lemma parse_message_bytes:
  assumes "ahead r (msg_bytes w @ xs)" "msg_fits w"
  shows "\<exists>r'. parse_chat_message CL me r = (msg_view CL me w, r') \<and> ahead r' xs"
proof -
  let ?a = "concat (map att_bytes (wm_attachments w)) @ xs"
  let ?n = "of_nat (length (wm_attachments w)) :: u8"
  have fits: "string_fits (wm_name w)" "string_fits (wm_text w)" "length (wm_attachments w) < 256"
    "list_all att_fits (wm_attachments w)" using assms(2) by (auto simp: msg_fits_def)
  have "ahead r (le64 (wm_id w) @ le32 (wm_channel w) @ le32 (wm_sender w) @ enc_string (wm_name w) @ le64 (wm_time w)
     @ enc_string (wm_text w) @ wm_pinned w # ?n # ?a)" using assms(1) by (simp add: msg_bytes_def)
  then obtain r1 where 1: "read_u64 r = (wm_id w, r1)" "ahead r1 (le32 (wm_channel w) @ le32 (wm_sender w) @ enc_string (wm_name w)
     @ le64 (wm_time w) @ enc_string (wm_text w) @ wm_pinned w # ?n # ?a)" using ahead_u64 by blast
  then obtain r2 where 2: "read_u32 r1 = (wm_channel w, r2)" "ahead r2 (le32 (wm_sender w) @ enc_string (wm_name w)
     @ le64 (wm_time w) @ enc_string (wm_text w) @ wm_pinned w # ?n # ?a)" using ahead_u32 by blast
  then obtain r3 where 3: "read_u32 r2 = (wm_sender w, r3)" "ahead r3 (enc_string (wm_name w)
     @ le64 (wm_time w) @ enc_string (wm_text w) @ wm_pinned w # ?n # ?a)" using ahead_u32 by blast
  then obtain r4 where 4: "read_string r3 = (wm_name w, r4)" "ahead r4 (le64 (wm_time w) @ enc_string (wm_text w)
     @ wm_pinned w # ?n # ?a)" using ahead_string fits by blast
  then obtain r5 where 5: "read_u64 r4 = (wm_time w, r5)" "ahead r5 (enc_string (wm_text w) @ wm_pinned w # ?n # ?a)"
    using ahead_u64 by blast
  then obtain r6 where 6: "read_string r5 = (wm_text w, r6)" "ahead r6 (wm_pinned w # ?n # ?a)" using ahead_string fits by blast
  then obtain r7 where 7: "read_u8 r6 = (wm_pinned w, r7)" "ahead r7 (?n # ?a)" using ahead_u8 by blast
  then obtain r8 where 8: "read_u8 r7 = (?n, r8)" "ahead r8 ?a" using ahead_u8 by blast
  obtain r9 where 9: "parse_attachments CL (length (wm_attachments w)) r8 = (map (att_view CL) (wm_attachments w), r9)" "ahead r9 xs"
    using parse_attachments_bytes [OF 8(2) fits(4)] by blast
  have "unat ?n = length (wm_attachments w)" using fits(3) by (simp add: unat_of_nat take_bit_nat_eq_self)
  then have "parse_chat_message CL me r = (msg_view CL me w, r9)"
    using 1(1) 2(1) 3(1) 4(1) 5(1) 6(1) 7(1) 8(1) 9(1) by (simp add: parse_chat_message_def msg_view_def Let_def)
  then show ?thesis using 9(2) by blast
qed

lemma parse_chat_messages_bytes:
  "ahead r (concat (map msg_bytes ws) @ xs) \<Longrightarrow> list_all msg_fits ws \<Longrightarrow>
   parse_chat_messages CL me (length ws) r = map (msg_view CL me) ws"
proof (induction ws arbitrary: r)
  case (Cons w ws)
  then have "ahead r (msg_bytes w @ concat (map msg_bytes ws) @ xs)" "msg_fits w" by simp_all
  then obtain r1 where "parse_chat_message CL me r = (msg_view CL me w, r1)" "ahead r1 (concat (map msg_bytes ws) @ xs)"
    using parse_message_bytes by blast
  then show ?case using Cons by simp
qed simp

section \<open>Writing\<close>

definition row_attachment :: "attachment_row \<Rightarrow> wire_attachment" where
  "row_attachment a = (word_of_int (a_id a), a_file_name a, word_of_int (a_file_size a), a_mime_type a, flag8 (a_uploaded a))"

definition sent_attachment :: "pending_attachment \<Rightarrow> wire_attachment" where
  "sent_attachment a = (pa_db_id a, pa_name a, pa_size a, pa_mime a, 0)"

lemma fold_att_rows: "fold write_attachment_row as buf = buf @ concat (map (att_bytes \<circ> row_attachment) as)"
  by (induction as arbitrary: buf)
    (simp_all add: write_attachment_row_def row_attachment_def att_bytes_make writer_defs enc_string_def)

lemma fold_att_sent: "fold write_attachment ps buf = buf @ concat (map (att_bytes \<circ> sent_attachment) ps)"
  by (induction ps arbitrary: buf)
    (simp_all add: write_attachment_def sent_attachment_def att_bytes_make writer_defs enc_string_def)

definition row_message :: "database \<Rightarrow> message_row \<Rightarrow> wire_message" where
  "row_message d m =
     \<lparr>wm_id = word_of_int (m_id m), wm_channel = word_of_int (m_channel_id m), wm_sender = word_of_int (m_sender_id m),
      wm_name = m_sender_name m, wm_time = word_of_int (m_created_at m), wm_text = m_text m, wm_pinned = flag8 (m_pinned m),
      wm_attachments = map row_attachment (get_attachments_for_message (word_of_int (m_id m)) d)\<rparr>"

lemma write_history_row_bytes: "write_history_row d m buf = buf @ msg_bytes (row_message d m)"
  by (simp add: write_history_row_def fold_att_rows write_row_def write_message_def writer_defs msg_bytes_def
      row_message_def enc_string_def Let_def)

lemma write_history_bytes: "fold (write_history_row d) ms buf = buf @ concat (map (msg_bytes \<circ> row_message d) ms)"
  by (induction ms arbitrary: buf) (simp_all add: write_history_row_bytes)

end
