(* ===== verification/Chat_Rows.thy ===== *)
theory Chat_Rows
  imports Chat_View
begin

text \<open>
  The chat handlers of the server seen through the messages of a channel (\<open>visible\<close>) and their wire
  form (\<open>row_message\<close>): a stored message comes last and reads back as it was announced, a deleted one
  is gone, and a page of the history is a run of the visible messages (\<open>server/src/server.cpp\<close>,
  \<open>server/src/database.cpp\<close>).
\<close>

section \<open>Tables a chat works on\<close>

definition rows_fit :: "database \<Rightarrow> bool" where
  "rows_fit d \<longleftrightarrow> (\<forall>m \<in> set (messages d). msg_fits (row_message d m)
     \<and> sint (word_of_int (m_channel_id m) :: u32) = m_channel_id m)"

definition chat_db :: "database \<Rightarrow> bool" where
  "chat_db d \<longleftrightarrow> db_inv d \<and> small_ids d \<and> rows_fit d"

lemma visible_rows: "m \<in> set (visible c d) \<longleftrightarrow> m \<in> set (messages d) \<and> m_channel_id m = sint c \<and> \<not> m_deleted m"
  by (auto simp: visible_def)

lemma visible_fits: "chat_db d \<Longrightarrow> list_all (\<lambda>m. msg_fits (row_message d m)) (visible c d)"
  by (auto simp: list_all_iff visible_rows chat_db_def rows_fit_def)

lemma row_id_inject:
  assumes "chat_db d" "m \<in> set (messages d)"
  shows "(word_of_int (m_id m) :: u64) = i \<longleftrightarrow> m_id m = sint i"
  using sint_message_id [of d m] assms by (auto simp: chat_db_def)

lemma row_channel_inject:
  assumes "chat_db d" "m \<in> set (messages d)"
  shows "(word_of_int (m_channel_id m) :: u32) = c \<longleftrightarrow> m_channel_id m = sint c"
  using assms by (auto simp: chat_db_def rows_fit_def)

section \<open>Deleting\<close>

lemma filter_deleted:
  "filter (\<lambda>m. P m \<and> \<not> m_deleted m) (map (\<lambda>m. if m_id m = i then m\<lparr>m_deleted := True\<rparr> else m) ms)
   = filter (\<lambda>m. m_id m \<noteq> i) (filter (\<lambda>m. P m \<and> \<not> m_deleted m) ms)"
  by (induction ms) auto

lemma visible_delete: "visible c (soft_delete_message i d) = filter (\<lambda>m. m_id m \<noteq> sint i) (visible c d)"
  by (simp add: visible_def soft_delete_message_def filter_deleted filter_sort)

lemma row_message_delete: "row_message (soft_delete_message i d) m = row_message d m"
  by (simp add: row_message_def get_attachments_for_message_def soft_delete_message_def)

lemma chat_db_delete: "chat_db d \<Longrightarrow> chat_db (soft_delete_message i d)"
proof -
  assume d: "chat_db d"
  have "rows_fit (soft_delete_message i d)"
    unfolding rows_fit_def row_message_delete
    using d by (auto simp: chat_db_def rows_fit_def soft_delete_message_def row_message_def)
  moreover have "small_ids (soft_delete_message i d)" using d by (simp add: chat_db_def small_ids_def soft_delete_message_def)
  ultimately show ?thesis using d message_flags_inv(1) by (simp add: chat_db_def)
qed

section \<open>Storing\<close>

lemma insort_end: "f y \<le> f x \<Longrightarrow> insort_key f y (zs @ [x]) = insort_key f y zs @ [x]"
  by (induction zs) auto

lemma sort_end: "\<forall>y \<in> set ys. f y \<le> f x \<Longrightarrow> sort_key f (ys @ [x]) = sort_key f ys @ [x]"
  by (induction ys) (simp_all add: insort_end)

text \<open>What a client sends for a file, and the row the server makes of it.\<close>

definition upload_fits :: "pending_upload \<Rightarrow> bool" where
  "upload_fits pu \<longleftrightarrow> string_fits (pu_path pu) \<and> 0 \<notin> set (pu_path pu)"

definition octet_stream :: bytes where "octet_stream = str ''application/octet-stream''"

definition upload_bytes :: "pending_upload \<Rightarrow> bytes" where
  "upload_bytes pu = enc_string (pu_path pu) @ le64 (of_nat (length (pu_data pu))) @ enc_string octet_stream"

lemma fold_upload_bytes: "fold write_upload ups buf = buf @ concat (map upload_bytes ups)"
  by (induction ups arbitrary: buf) (simp_all add: write_upload_def upload_bytes_def octet_stream_def writer_defs enc_string_def)

lemma octet_stream_plain: "string_fits octet_stream" "cstr octet_stream = octet_stream"
  by (simp_all add: octet_stream_def string_fits_def str_def cstr_def)

fun stored_rows :: "nat \<Rightarrow> u64 \<Rightarrow> nat \<Rightarrow> int \<Rightarrow> pending_upload list \<Rightarrow> attachment_row list" where
  "stored_rows t mid i seq [] = []"
| "stored_rows t mid i seq (pu # ups) =
     \<lparr>a_id = seq + 1, a_message_id = sint mid, a_file_name = pu_path pu, a_file_size = sint (of_nat (length (pu_data pu)) :: u64),
      a_mime_type = octet_stream, a_disk_path = cstr (attachment_path t mid i (pu_path pu)), a_uploaded = False,
      a_created_at = int t\<rparr> # stored_rows t mid (i + 1) (seq + 1) ups"

definition announcement :: "attachment_row \<Rightarrow> pending_attachment" where
  "announcement a = \<lparr>pa_name = a_file_name a, pa_size = word_of_int (a_file_size a), pa_mime = a_mime_type a,
     pa_db_id = word_of_int (a_id a)\<rparr>"

lemma stored_rows_shape:
  "length (stored_rows t mid i seq ups) = length ups"
  "map a_file_name (stored_rows t mid i seq ups) = map pu_path ups"
  "\<forall>a \<in> set (stored_rows t mid i seq ups). a_message_id a = sint mid \<and> seq < a_id a \<and> \<not> a_uploaded a \<and> a_mime_type a = octet_stream"
  by (induction ups arbitrary: i seq) (auto, force+)

lemma stored_rows_sorted: "sort_key a_id (stored_rows t mid i seq ups) = stored_rows t mid i seq ups"
proof -
  have "sorted (map a_id (stored_rows t mid i seq ups))"
  proof (induction ups arbitrary: i seq)
    case (Cons pu ups)
    have "\<forall>a \<in> set (stored_rows t mid (i + 1) (seq + 1) ups). seq + 1 < a_id a" using stored_rows_shape(3) by blast
    then show ?case using Cons by (auto simp: less_imp_le)
  qed simp
  then show ?thesis by (rule sort_key_id_if_sorted)
qed

lemma announced_row: "a \<in> set (stored_rows t mid i seq ups) \<Longrightarrow> sent_attachment (announcement a) = row_attachment a"
  using stored_rows_shape(3) by (simp add: sent_attachment_def announcement_def row_attachment_def flag8_def)

lemma read_attachments_uploads:
  "ahead r (concat (map upload_bytes ups)) \<Longrightarrow> list_all upload_fits ups \<Longrightarrow> \<exists>m \<in> set (messages d). m_id m = sint mid \<Longrightarrow>
   read_attachments t mid i (length ups) r d =
     (map announcement (stored_rows t mid i (attachment_seq d) ups),
      d\<lparr>attachment_seq := attachment_seq d + int (length ups),
        attachments := attachments d @ stored_rows t mid i (attachment_seq d) ups\<rparr>)"
proof (induction ups arbitrary: i r d)
  case (Cons pu ups)
  have fits: "string_fits (pu_path pu)" "cstr (pu_path pu) = pu_path pu"
    using Cons.prems(2) by (auto simp: upload_fits_def cstr_id)
  let ?sz = "of_nat (length (pu_data pu)) :: u64" let ?rest = "concat (map upload_bytes ups)"
  have "ahead r (enc_string (pu_path pu) @ le64 ?sz @ enc_string octet_stream @ ?rest)"
    using Cons.prems(1) by (simp add: upload_bytes_def [of pu])
  then obtain r1 where 1: "read_string r = (pu_path pu, r1)" "ahead r1 (le64 ?sz @ enc_string octet_stream @ ?rest)"
    using ahead_string fits by blast
  then obtain r2 where 2: "read_u64 r1 = (?sz, r2)" "ahead r2 (enc_string octet_stream @ ?rest)" using ahead_u64 by blast
  then obtain r3 where 3: "read_string r2 = (octet_stream, r3)" "ahead r3 ?rest" using ahead_string octet_stream_plain by blast
  define a where "a = hd (stored_rows t mid i (attachment_seq d) (pu # ups))"
  define d1 where "d1 = d\<lparr>attachment_seq := attachment_seq d + 1, attachments := attachments d @ [a]\<rparr>"
  have ins: "insert_attachment mid (pu_path pu) (sint ?sz) octet_stream (attachment_path t mid i (pu_path pu)) (int t) d
      = (word_of_int (attachment_seq d + 1), d1)"
    using Cons.prems(3) fits octet_stream_plain by (simp add: insert_attachment_def a_def d1_def)
  have IH: "read_attachments t mid (i + 1) (length ups) r3 d1 =
     (map announcement (stored_rows t mid (i + 1) (attachment_seq d1) ups),
      d1\<lparr>attachment_seq := attachment_seq d1 + int (length ups),
        attachments := attachments d1 @ stored_rows t mid (i + 1) (attachment_seq d1) ups\<rparr>)"
    using Cons.IH [OF 3(2), of d1 "i + 1"] Cons.prems by (simp add: d1_def)
  show ?case using 1(1) 2(1) 3 ins IH by (simp add: a_def d1_def announcement_def Let_def)
qed simp


definition next_message :: "database \<Rightarrow> int" where "next_message d = message_seq d + 1"

text \<open>The row of a stored message and the tables after storing it with its attachments.\<close>

definition new_row :: "database \<Rightarrow> u32 \<Rightarrow> u32 \<Rightarrow> bytes \<Rightarrow> bytes \<Rightarrow> u64 \<Rightarrow> message_row" where
  "new_row d ch sender name txt t = \<lparr>m_id = next_message d, m_channel_id = sint ch, m_sender_id = sint sender,
     m_sender_name = name, m_text = txt, m_pinned = False, m_created_at = sint t, m_deleted = False\<rparr>"

definition new_attachments :: "database \<Rightarrow> u64 \<Rightarrow> pending_upload list \<Rightarrow> attachment_row list" where
  "new_attachments d t ups = stored_rows (unat t) (word_of_int (next_message d)) 0 (attachment_seq d) ups"

definition stored :: "database \<Rightarrow> message_row \<Rightarrow> attachment_row list \<Rightarrow> database" where
  "stored d m as = d\<lparr>message_seq := next_message d, messages := messages d @ [m],
     attachment_seq := attachment_seq d + int (length as), attachments := attachments d @ as\<rparr>"

definition new_message :: "database \<Rightarrow> u32 \<Rightarrow> u32 \<Rightarrow> bytes \<Rightarrow> bytes \<Rightarrow> u64 \<Rightarrow> pending_upload list \<Rightarrow> wire_message" where
  "new_message d ch sender name txt t ups =
     \<lparr>wm_id = word_of_int (next_message d), wm_channel = ch, wm_sender = sender, wm_name = name, wm_time = t,
      wm_text = txt, wm_pinned = 0, wm_attachments = map row_attachment (new_attachments d t ups)\<rparr>"

lemma sint_small: "0 \<le> k \<Longrightarrow> k < 2 ^ 63 \<Longrightarrow> sint (word_of_int k :: u64) = k"
  by (simp add: signed_of_int signed_take_bit_int_eq_self)

lemma new_id: "chat_db d \<Longrightarrow> next_message d < 2 ^ 63 \<Longrightarrow> sint (word_of_int (next_message d) :: u64) = next_message d"
  by (rule sint_small) (simp_all add: chat_db_def db_inv_def ids_ok_def next_message_def)

lemma chat_db_seq: "chat_db d \<Longrightarrow> m \<in> set (messages d) \<Longrightarrow> m_id m < next_message d"
  by (force simp: chat_db_def db_inv_def ids_ok_def next_message_def)

lemma attachments_known: "chat_db d \<Longrightarrow> a \<in> set (attachments d) \<Longrightarrow> a_message_id a < next_message d"
proof -
  assume "chat_db d" "a \<in> set (attachments d)"
  then obtain m where "m \<in> set (messages d)" "a_message_id a = m_id m" by (auto simp: chat_db_def db_inv_def)
  then show ?thesis using chat_db_seq \<open>chat_db d\<close> by simp
qed


lemma visible_stored:
  assumes "chat_db d"
  shows "visible c (stored d (new_row d ch s name txt t) as)
    = visible c d @ (if c = ch then [new_row d ch s name txt t] else [])"
proof -
  let ?m = "new_row d ch s name txt t"
  show ?thesis
  proof (cases "c = ch")
    case True
    have "\<forall>y \<in> set (filter (\<lambda>m. m_channel_id m = sint ch \<and> \<not> m_deleted m) (messages d)). m_id y \<le> m_id ?m"
      using chat_db_seq [OF assms] by (auto simp: new_row_def less_imp_le)
    then show ?thesis using True by (simp add: visible_def stored_def sort_end) (simp add: new_row_def)
  next
    case False
    then have "sint ch \<noteq> sint c" using signed_word_eqI [of ch c] by auto
    then show ?thesis using False by (simp add: visible_def stored_def) (simp add: new_row_def)
  qed
qed

lemma row_message_old:
  assumes "chat_db d" "next_message d < 2 ^ 63" "x \<in> set (messages d)"
  shows "row_message (stored d m (new_attachments d t ups)) x = row_message d x"
proof -
  have "m_id x \<noteq> next_message d" using chat_db_seq [OF assms(1,3)] by simp
  moreover have "sint (word_of_int (m_id x) :: u64) = m_id x" using sint_message_id [of d x] assms(1,3) by (simp add: chat_db_def)
  moreover have "\<forall>a \<in> set (new_attachments d t ups). a_message_id a = next_message d"
    using stored_rows_shape(3) new_id [OF assms(1,2)] by (simp add: new_attachments_def)
  ultimately have "filter (\<lambda>a. a_message_id a = m_id x) (new_attachments d t ups) = []" by (simp add: filter_empty_conv)
  then show ?thesis using \<open>sint (word_of_int (m_id x) :: u64) = m_id x\<close>
    by (simp add: row_message_def get_attachments_for_message_def stored_def)
qed

lemma attachments_new:
  assumes "chat_db d" "next_message d < 2 ^ 63"
  shows "get_attachments_for_message (word_of_int (next_message d)) (stored d m (new_attachments d t ups)) = new_attachments d t ups"
proof -
  note seq = new_id [OF assms(1,2)]
  have "\<forall>a \<in> set (new_attachments d t ups). a_message_id a = next_message d"
    using stored_rows_shape(3) seq by (simp add: new_attachments_def)
  then have "filter (\<lambda>a. a_message_id a = next_message d) (new_attachments d t ups) = new_attachments d t ups"
    by simp
  moreover have "filter (\<lambda>a. a_message_id a = next_message d) (attachments d) = []"
    using attachments_known [OF assms(1)] by (force simp: filter_empty_conv)
  moreover have "sort_key a_id (new_attachments d t ups) = new_attachments d t ups"
    by (simp add: new_attachments_def stored_rows_sorted)
  ultimately show ?thesis by (simp add: get_attachments_for_message_def stored_def seq)
qed

lemma row_message_new:
  assumes "chat_db d" "next_message d < 2 ^ 63"
  shows "row_message (stored d (new_row d ch s name txt t) (new_attachments d t ups)) (new_row d ch s name txt t)
    = new_message d ch s name txt t ups"
  using attachments_new [OF assms, of "new_row d ch s name txt t"]
  by (simp add: row_message_def new_row_def new_message_def flag8_def)

definition send_fits :: "bytes \<Rightarrow> bytes \<Rightarrow> pending_upload list \<Rightarrow> bool" where
  "send_fits name txt ups \<longleftrightarrow> string_fits name \<and> 0 \<notin> set name \<and> string_fits txt \<and> 0 \<notin> set txt
     \<and> list_all upload_fits ups \<and> length ups < 256"

lemma new_message_fits: "send_fits name txt ups \<Longrightarrow> msg_fits (new_message d ch s name txt t ups)"
proof -
  assume fits: "send_fits name txt ups"
  have "string_fits (a_file_name a)" if "a \<in> set (new_attachments d t ups)" for a
  proof -
    have "a_file_name a \<in> set (map pu_path ups)"
      using that stored_rows_shape(2) unfolding new_attachments_def by (metis imageI list.set_map)
    then show ?thesis using fits by (auto simp: send_fits_def upload_fits_def list_all_iff)
  qed
  moreover have "\<forall>a \<in> set (new_attachments d t ups). a_mime_type a = octet_stream"
    using stored_rows_shape(3) by (simp add: new_attachments_def)
  moreover have "length (new_attachments d t ups) = length ups" by (simp add: new_attachments_def stored_rows_shape(1))
  ultimately show ?thesis using fits octet_stream_plain
    by (auto simp: send_fits_def msg_fits_def new_message_def list_all_iff att_fits_def row_attachment_def)
qed


text \<open>A message in good order is stored and announced to everyone, or answered with an error.\<close>

definition sent_db :: "database \<Rightarrow> u32 \<Rightarrow> session \<Rightarrow> bytes \<Rightarrow> u64 \<Rightarrow> pending_upload list \<Rightarrow> database" where
  "sent_db d ch s txt t ups =
     stored d (new_row d ch (s_user_id s) (s_username s) txt t) (new_attachments d t ups)"

lemma chat_db_sent:
  assumes "chat_db d" "next_message d < 2 ^ 63" "send_fits (s_username s) txt ups" "db_inv (sent_db d ch s txt t ups)"
  shows "chat_db (sent_db d ch s txt t ups)"
proof -
  let ?m = "new_row d ch (s_user_id s) (s_username s) txt t"
  have "msg_fits (row_message (sent_db d ch s txt t ups) x) \<and> sint (word_of_int (m_channel_id x) :: u32) = m_channel_id x"
    if "x \<in> set (messages (sent_db d ch s txt t ups))" for x
  proof (cases "x = ?m")
    case True
    then show ?thesis using row_message_new [OF assms(1,2)] new_message_fits [OF assms(3)]
      by (simp add: sent_db_def) (simp add: new_row_def)
  next
    case False
    then have x: "x \<in> set (messages d)" using that by (simp add: sent_db_def stored_def)
    then show ?thesis using row_message_old [OF assms(1,2) x] assms(1) by (simp add: sent_db_def chat_db_def rows_fit_def)
  qed
  moreover have "small_ids (sent_db d ch s txt t ups)" using assms(2) by (simp add: small_ids_def sent_db_def stored_def)
  ultimately show ?thesis using assms(4) by (simp add: chat_db_def rows_fit_def)
qed

lemma write_announcement:
  "fold write_attachment as (write_message i ch u name t txt 0 (of_nat (length as)) [])
   = msg_bytes \<lparr>wm_id = i, wm_channel = ch, wm_sender = u, wm_name = name, wm_time = t, wm_text = txt, wm_pinned = 0,
       wm_attachments = map sent_attachment as\<rparr>"
  by (simp add: fold_att_sent write_message_def writer_defs msg_bytes_def enc_string_def)

lemma sent_rows: "map sent_attachment (map announcement (stored_rows t mid i seq ups)) = map row_attachment (stored_rows t mid i seq ups)"
  using announced_row by simp

definition refused :: "config \<Rightarrow> database \<Rightarrow> u32 \<Rightarrow> session \<Rightarrow> bytes \<Rightarrow> u64 \<Rightarrow> bool" where
  "refused cfg d ch s txt t \<longleftrightarrow> get_text_channel ch d = None \<or> int (length txt) > max_message_length (chat cfg)
     \<or> fst (insert_message ch (s_user_id s) (s_username s) txt t d) = 0"

lemma handle_chat_send_cases:
  assumes "chat_db (db st)" "next_message (db st) < 2 ^ 63" "s_authenticated (objs st i)"
    and fits: "send_fits (s_username (objs st i)) txt ups"
  shows "if refused cfg (db st) ch (objs st i) txt (unix_time e)
    then \<exists>m c. handle_chat_send cfg e i (chat_send_payload ch txt ups) st = send_error i m c st
    else db_inv (sent_db (db st) ch (objs st i) txt (unix_time e) ups)
      \<and> handle_chat_send cfg e i (chat_send_payload ch txt ups) st
        = send_all s_authenticated CHAT_MESSAGE
            (msg_bytes (new_message (db st) ch (s_user_id (objs st i)) (s_username (objs st i)) txt (unix_time e) ups))
            (st\<lparr>db := sent_db (db st) ch (objs st i) txt (unix_time e) ups\<rparr>)"
proof -
  let ?p = "chat_send_payload ch txt ups" let ?s = "objs st i" let ?d = "db st" let ?t = "unix_time e"
  have f: "string_fits txt" "cstr txt = txt" "cstr (s_username ?s) = s_username ?s" "list_all upload_fits ups" "length ups < 256"
    using fits by (simp_all add: send_fits_def cstr_id)
  have p: "?p = le32 ch @ enc_string txt @ of_nat (length ups) # concat (map upload_bytes ups)"
    by (simp add: chat_send_payload_def fold_upload_bytes writer_defs enc_string_def)
  obtain r1 where 1: "read_u32 (new_reader ?p) = (ch, r1)" "ahead r1 (enc_string txt @ of_nat (length ups) # concat (map upload_bytes ups))"
    using ahead_u32 ahead_new [of ?p] unfolding p by blast
  then obtain r2 where 2: "read_string r1 = (txt, r2)" "ahead r2 (of_nat (length ups) # concat (map upload_bytes ups))"
    using ahead_string f(1) by blast
  then obtain r3 where 3: "read_u8 r2 = (of_nat (length ups), r3)" "ahead r3 (concat (map upload_bytes ups))" using ahead_u8 by blast
  have cnt: "unat (of_nat (length ups) :: u8) = length ups" using f(5) by (simp add: unat_of_nat take_bit_nat_eq_self)
  note here = assms(3) 1(1) 2(1) 3(1) ahead_ok [OF 3(2)] cnt
  show ?thesis
  proof (cases "refused cfg ?d ch ?s txt ?t")
    case ref: True
    note True = ref [unfolded refused_def]
    have "snd (insert_message ch (s_user_id ?s) (s_username ?s) txt ?t ?d) = ?d"
      if "fst (insert_message ch (s_user_id ?s) (s_username ?s) txt ?t ?d) = 0"
      using that new_id [OF assms(1,2)] assms(1) unfolding insert_message_def next_message_def [symmetric]
      by (auto simp: next_message_def chat_db_def db_inv_def ids_ok_def split: if_splits)
    then have "\<exists>m c. handle_chat_send cfg e i ?p st = send_error i m c st"
      using here True by (auto simp: handle_chat_send_def Let_def split: prod.splits) (rule exI, rule exI, rule refl)
    then show ?thesis using ref by (simp only: if_True)
  next
    case ref: False
    note False = ref [unfolded refused_def]
    obtain tc where tc: "get_text_channel ch ?d = Some tc" using False by auto
    define d1 where "d1 = snd (insert_message ch (s_user_id ?s) (s_username ?s) txt ?t ?d)"
    let ?m = "new_row ?d ch (s_user_id ?s) (s_username ?s) txt ?t" let ?id = "word_of_int (next_message ?d) :: u64"
    have ins: "insert_message ch (s_user_id ?s) (s_username ?s) txt ?t ?d = (?id, ?d\<lparr>message_seq := next_message ?d,
        messages := messages ?d @ [?m]\<rparr>)"
      using False f(2,3) by (auto simp: insert_message_def next_message_def [symmetric] new_row_def split: if_splits)
    then have d1: "d1 = ?d\<lparr>message_seq := next_message ?d, messages := messages ?d @ [?m]\<rparr>" by (simp add: d1_def)
    have "\<exists>m \<in> set (messages d1). m_id m = sint ?id" using new_id [OF assms(1,2)] by (simp add: d1 new_row_def)
    from read_attachments_uploads [OF 3(2) f(4) this, of "unat ?t" 0]
    have att: "read_attachments (unat ?t) ?id 0 (length ups) r3 d1 = (map announcement (new_attachments ?d ?t ups), sent_db ?d ch ?s txt ?t ups)"
      by (simp add: new_attachments_def sent_db_def stored_def d1 stored_rows_shape(1))
    have "db_inv d1" unfolding d1_def using assms(1) insert_message_inv by (simp add: chat_db_def)
    then have "db_inv (sent_db ?d ch ?s txt ?t ups)"
      using db_inv_read_attachments [of d1 "unat ?t" ?id 0 "length ups" r3] att by simp
    moreover have "handle_chat_send cfg e i ?p st = send_all s_authenticated CHAT_MESSAGE
        (fold write_attachment (map announcement (new_attachments ?d ?t ups)) (write_message ?id ch (s_user_id ?s) (s_username ?s) ?t txt 0
           (of_nat (length (map announcement (new_attachments ?d ?t ups)))) [])) (st\<lparr>db := sent_db ?d ch ?s txt ?t ups\<rparr>)"
      using here False tc ins att d1 by (simp add: handle_chat_send_def Let_def)
    ultimately show ?thesis using ref unfolding write_announcement
      by (simp only: new_message_def new_attachments_def sent_rows simp_thms if_False)
  qed
qed

end
