(* ===== verification/Chat_Sync.thy ===== *)
theory Chat_Sync
  imports Chat_Rows
begin

text \<open>
  Chat from end to end: one client of \<open>client/src/app_core.cpp\<close> in conversation with the server of
  \<open>server/src/server.cpp\<close>. The client shows a run of the channel's messages that ends with the newest one:
  opening a channel, paging back, sending, deleting and asking keep it so.
\<close>

section \<open>Date labels\<close>

definition unlabel :: "chat_message \<Rightarrow> chat_message" where
  "unlabel m = m\<lparr>cm_date_label := []\<rparr>"

lemma unlabel_simps [simp]:
  "unlabel (m\<lparr>cm_date_label := l\<rparr>) = unlabel m" "cm_id (unlabel m) = cm_id m" "cm_raw_time (unlabel m) = cm_raw_time m"
  "unlabel (unlabel m) = unlabel m" "unlabel (msg_view CL me w) = msg_view CL me w"
  by (simp_all add: unlabel_def msg_view_def)

lemma label_days_blind: "map unlabel xs = map unlabel ys \<Longrightarrow> label_days CL p xs = label_days CL p ys"
proof (induction xs arbitrary: p ys)
  case (Cons x xs)
  then obtain y zs where ys: "ys = y # zs" "unlabel x = unlabel y" "map unlabel xs = map unlabel zs" by (cases ys) auto
  have "cm_raw_time x = cm_raw_time y" using ys(2) by (metis unlabel_simps(3))
  moreover have "x\<lparr>cm_date_label := l\<rparr> = y\<lparr>cm_date_label := l\<rparr>" for l
    using arg_cong [OF ys(2), of "\<lambda>m. m\<lparr>cm_date_label := l\<rparr>"] by (simp add: unlabel_def)
  ultimately show ?case using Cons.IH [OF ys(3)] by (simp add: ys(1) Let_def)
qed simp

lemma unlabel_labels: "map unlabel (label_days CL p xs) = map unlabel xs"
  by (induction CL p xs rule: label_days.induct) (simp_all add: Let_def)

lemmas labels_blind = label_days_blind [of _ _ _ "-1", folded assign_date_labels_def]

lemma unlabel_assign: "map unlabel (assign_date_labels CL xs) = map unlabel xs"
  by (simp add: assign_date_labels_def unlabel_labels)

lemma labels_ids: "map cm_id (assign_date_labels CL xs) = map cm_id xs"
proof -
  have "map (cm_id \<circ> unlabel) (assign_date_labels CL xs) = map (cm_id \<circ> unlabel) xs"
    using arg_cong [OF unlabel_assign, of "map cm_id"] by simp
  then show ?thesis by (simp add: comp_def)
qed

lemma labels_append: "assign_date_labels CL (ys @ assign_date_labels CL xs) = assign_date_labels CL (ys @ xs)"
  "assign_date_labels CL (assign_date_labels CL xs @ ys) = assign_date_labels CL (xs @ ys)"
  by (rule labels_blind, simp add: unlabel_assign)+

lemma labels_drop: "assign_date_labels CL (drop n (assign_date_labels CL xs @ ys)) = assign_date_labels CL (drop n (xs @ ys))"
  by (rule labels_blind) (metis (no_types) drop_map map_append unlabel_assign)

lemma labels_filter:
  assumes "\<And>m. P (unlabel m) = P m"
  shows "assign_date_labels CL (filter P (assign_date_labels CL xs)) = assign_date_labels CL (filter P xs)"
proof (rule labels_blind)
  have "map unlabel (filter P ys) = filter P (map unlabel ys)" for ys using assms by (simp add: filter_map comp_def)
  then show "map unlabel (filter P (assign_date_labels CL xs)) = map unlabel (filter P xs)" by (simp only: unlabel_assign)
qed

section \<open>What the client takes from the server\<close>

lemma history_request_enc: "history_request ch before = le32 ch @ le64 before @ le16 30"
  by (simp add: history_request_def writer_defs)

definition page_bytes :: "database \<Rightarrow> u32 \<Rightarrow> message_row list \<Rightarrow> bytes" where
  "page_bytes d ch ms = le32 ch @ history_has_more ch ms d # le16 (of_nat (length ms)) @ concat (map (msg_bytes \<circ> row_message d) ms)"

lemma handle_history_page:
  assumes "s_authenticated (objs st i)"
  shows "handle_history i (history_request ch before) st
    = send_to i CHAT_HISTORY_RESP (page_bytes (db st) ch (get_messages ch before 30 (db st))) st"
proof -
  obtain r1 where 1: "read_u32 (new_reader (history_request ch before)) = (ch, r1)" "ahead r1 (le64 before @ le16 30)"
    using ahead_u32 ahead_new unfolding history_request_enc by blast
  then obtain r2 where 2: "read_u64 r1 = (before, r2)" "ahead r2 (le16 30)" using ahead_u64 by blast
  then obtain r3 where 3: "read_u16 r2 = (30, r3)" "ahead r3 []" using ahead_u16 [of r2 30 "[]"] by auto
  show ?thesis using assms 1(1) 2(1) 3
    by (simp add: handle_history_def Let_def page_bytes_def write_history_bytes writer_defs)
qed

lemma history_taken:
  assumes "ct_active c = ch" "list_all (\<lambda>m. msg_fits (row_message d m)) ms" "length ms < 65536"
  shows "on_chat_history_resp CL (page_bytes d ch ms) c
    = c\<lparr>ct_messages := assign_date_labels CL (map (msg_view CL (ct_user c) \<circ> row_message d) ms @ ct_messages c),
        ct_more := (history_has_more ch ms d \<noteq> 0)\<rparr>"
proof -
  let ?ws = "map (row_message d) ms" let ?n = "of_nat (length ms) :: u16" let ?h = "history_has_more ch ms d"
  have b: "page_bytes d ch ms = le32 ch @ ?h # le16 ?n @ concat (map msg_bytes ?ws)" by (simp add: page_bytes_def)
  obtain r1 where 1: "read_u32 (new_reader (page_bytes d ch ms)) = (ch, r1)" "ahead r1 (?h # le16 ?n @ concat (map msg_bytes ?ws))"
    using ahead_u32 ahead_new unfolding b by blast
  then obtain r2 where 2: "read_u8 r1 = (?h, r2)" "ahead r2 (le16 ?n @ concat (map msg_bytes ?ws))" using ahead_u8 by blast
  then obtain r3 where 3: "read_u16 r2 = (?n, r3)" "ahead r3 (concat (map msg_bytes ?ws))" using ahead_u16 by blast
  have "unat ?n = length ms" using assms(3) by (simp add: unat_of_nat take_bit_nat_eq_self)
  moreover have "parse_chat_messages CL (ct_user c) (length ?ws) r3 = map (msg_view CL (ct_user c)) ?ws"
    using 3(2) assms(2) by (intro parse_chat_messages_bytes [of _ _ "[]"]) (simp_all add: list_all_iff)
  ultimately show ?thesis using assms(1) 1(1) 2(1) 3 by (simp add: on_chat_history_resp_def Let_def)
qed

lemma message_taken:
  assumes "msg_fits w"
  shows "on_chat_message CL (msg_bytes w) c =
    (let m = msg_view CL (ct_user c) w; c1 = upload_pending m c
     in if wm_channel w = ct_active c1 then show_message CL m c1 else mark_unread (wm_channel w) c1)"
proof -
  have "ahead (new_reader (msg_bytes w)) (msg_bytes w @ [])" using ahead_new by simp
  then obtain r where r: "parse_chat_message CL (ct_user c) (new_reader (msg_bytes w)) = (msg_view CL (ct_user c) w, r)" "ahead r []"
    using parse_message_bytes assms by blast
  obtain r1 ys where 1: "read_u64 (new_reader (msg_bytes w)) = (wm_id w, r1)" "ahead r1 (le32 (wm_channel w) @ ys)"
    using ahead_u64 ahead_new [of "msg_bytes w"] unfolding msg_bytes_def by blast
  then obtain r2 where "read_u32 r1 = (wm_channel w, r2)" using ahead_u32 by blast
  then show ?thesis using r 1(1) by (simp add: on_chat_message_def Let_def)
qed

lemma handle_delete_cases:
  "handle_chat_delete i (write_u64 mid []) st \<in> {st, send_error i (str ''Permission denied'') Generic st}
   \<or> (\<exists>x \<in> set (messages (db st)). m_id x = sint mid \<and>
        handle_chat_delete i (write_u64 mid []) st = send_all s_authenticated CHAT_MESSAGE_DELETED
          (le64 mid @ le32 (word_of_int (m_channel_id x))) (st\<lparr>db := soft_delete_message mid (db st)\<rparr>))"
proof -
  obtain r where r: "read_u64 (new_reader (write_u64 mid [])) = (mid, r)" "ahead r []"
    using ahead_u64 [of "new_reader (write_u64 mid [])" mid "[]"] ahead_new by (auto simp: writer_defs)
  show ?thesis
  proof (cases "get_message mid (db st)")
    case None
    then show ?thesis using r by (simp add: handle_chat_delete_def Let_def)
  next
    case (Some x)
    then have "x \<in> set (messages (db st)) \<and> m_id x = sint mid"
      by (auto simp: get_message_def find_Some_iff)
    then show ?thesis using r Some by (auto simp: handle_chat_delete_def Let_def writer_defs)
  qed
qed

lemma deletion_taken:
  "on_chat_message_deleted CL (le64 mid @ le32 ch) c =
    (if ch = ct_active c then c\<lparr>ct_messages := assign_date_labels CL (filter (\<lambda>m. cm_id m \<noteq> mid) (ct_messages c))\<rparr> else c)"
proof -
  obtain r1 where 1: "read_u64 (new_reader (le64 mid @ le32 ch)) = (mid, r1)" "ahead r1 (le32 ch)"
    using ahead_u64 ahead_new by blast
  then obtain r2 where "read_u32 r1 = (ch, r2)" "ahead r2 []" using ahead_u32 [of r1 ch "[]"] by auto
  then show ?thesis using 1(1) by (simp add: on_chat_message_deleted_def Let_def)
qed


section \<open>The conversation\<close>

text \<open>The client does something; the server handles what it sent; the client takes the answers. What was sent
  before has been handled.\<close>

definition server_takes :: "config \<Rightarrow> libs \<Rightarrow> env \<Rightarrow> u32 \<Rightarrow> chat_out list \<Rightarrow> srv \<Rightarrow> srv" where
  "server_takes cfg L e i xs st = fold (\<lambda>x st. case x of ChatSent ty p \<Rightarrow> handle_message cfg L e i ty p st | _ \<Rightarrow> st) xs st"

definition deliver :: "chat_lib \<Rightarrow> u32 \<Rightarrow> effect list \<Rightarrow> chat_ui \<Rightarrow> chat_ui" where
  "deliver CL sid xs c =
     fold (\<lambda>x c. case x of Control i ty d \<Rightarrow> if i = sid then handle_chat_message CL ty d c else c | _ \<Rightarrow> c) xs c"

definition exchange :: "config \<Rightarrow> libs \<Rightarrow> env \<Rightarrow> chat_lib \<Rightarrow> u32 \<Rightarrow> (chat_ui \<Rightarrow> chat_ui) \<Rightarrow> chat_ui \<times> srv \<Rightarrow> chat_ui \<times> srv" where
  "exchange cfg L e CL sid act w =
     (let c = act ((fst w)\<lparr>ct_out := []\<rparr>); st = server_takes cfg L e sid (ct_out c) ((snd w)\<lparr>out := []\<rparr>)
      in (deliver CL sid (out st) (c\<lparr>ct_out := []\<rparr>), st))"

text \<open>Another session sends a message.\<close>

definition overhear :: "config \<Rightarrow> libs \<Rightarrow> env \<Rightarrow> chat_lib \<Rightarrow> u32 \<Rightarrow> u32 \<Rightarrow> ctype \<Rightarrow> bytes \<Rightarrow> chat_ui \<times> srv \<Rightarrow> chat_ui \<times> srv" where
  "overhear cfg L e CL sid i ty p w =
     (let st = handle_message cfg L e i ty p ((snd w)\<lparr>out := []\<rparr>) in (deliver CL sid (out st) (fst w), st))"

definition tuned_in :: "u32 \<Rightarrow> srv \<Rightarrow> bool" where
  "tuned_in sid st \<longleftrightarrow> sid \<in> set (sessions st) \<and> distinct (sessions st) \<and> s_alive (objs st sid)
     \<and> s_control_stream (objs st sid) \<noteq> None \<and> s_authenticated (objs st sid)"

definition shown :: "chat_lib \<Rightarrow> database \<Rightarrow> u32 \<Rightarrow> u32 \<Rightarrow> nat \<Rightarrow> chat_message list" where
  "shown CL d me ch k = assign_date_labels CL (map (msg_view CL me \<circ> row_message d) (drop k (visible ch d)))"

definition in_sync :: "chat_lib \<Rightarrow> database \<Rightarrow> chat_ui \<Rightarrow> bool" where
  "in_sync CL d c \<longleftrightarrow> (\<exists>k \<le> length (visible (ct_active c) d).
     ct_messages c = shown CL d (ct_user c) (ct_active c) k \<and> (0 < k \<longrightarrow> ct_more c))"

definition chat_ok :: "chat_lib \<Rightarrow> u32 \<Rightarrow> chat_ui \<times> srv \<Rightarrow> bool" where
  "chat_ok CL sid w \<longleftrightarrow> chat_db (db (snd w)) \<and> tuned_in sid (snd w) \<and> in_sync CL (db (snd w)) (fst w)"

lemma deliver_one_effect [simp]:
  "deliver CL sid [Control sid ty d] c = handle_chat_message CL ty d c" "deliver CL sid [] c = c"
  by (simp_all add: deliver_def)

lemma deliver_broadcast:
  "distinct is \<Longrightarrow> deliver CL sid (map (\<lambda>i. Control i ty p) is) c = (if sid \<in> set is then handle_chat_message CL ty p c else c)"
proof (induction "is" arbitrary: c)
  case (Cons i "is")
  then show ?case by (auto simp: deliver_def)
qed simp

lemma send_to_tuned [simp]: "tuned_in sid st \<Longrightarrow> out (send_to sid ty p st) = out st @ [Control sid ty p]"
  by (simp add: send_to_def tuned_in_def Server_State.emit_def)

lemma send_all_fold:
  "fold (\<lambda>i st. if P (objs st i) then send_to i ty p st else st) is st = st\<lparr>out := out st @ map (\<lambda>i. Control i ty p)
     (filter (\<lambda>i. P (objs st i) \<and> i \<in> set (sessions st) \<and> s_alive (objs st i) \<and> s_control_stream (objs st i) \<noteq> None) is)\<rparr>"
  by (induction "is" arbitrary: st) (simp_all add: send_to_def Server_State.emit_def)

lemma send_all_out: "send_all P ty p st = st\<lparr>out := out st @ map (\<lambda>i. Control i ty p)
   (filter (\<lambda>i. P (objs st i) \<and> s_alive (objs st i) \<and> s_control_stream (objs st i) \<noteq> None) (sessions st))\<rparr>"
proof -
  have "filter (\<lambda>i. P (objs st i) \<and> i \<in> set (sessions st) \<and> s_alive (objs st i) \<and> s_control_stream (objs st i) \<noteq> None) (sessions st)
    = filter (\<lambda>i. P (objs st i) \<and> s_alive (objs st i) \<and> s_control_stream (objs st i) \<noteq> None) (sessions st)"
    by (rule filter_cong) auto
  then show ?thesis by (simp add: send_all_def send_all_fold)
qed

lemma broadcast_heard:
  assumes "tuned_in sid st" "out st = []"
  shows "deliver CL sid (out (send_all s_authenticated ty p st)) c = handle_chat_message CL ty p c"
  using assms by (simp add: send_all_out tuned_in_def deliver_broadcast)

lemma tuned_in_same: "sessions st' = sessions st \<Longrightarrow> objs st' = objs st \<Longrightarrow> tuned_in sid st' = tuned_in sid st"
  by (simp add: tuned_in_def)

text \<open>An error message is none of chat's business.\<close>

lemma error_ignored:
  assumes "out st = []"
  shows "deliver CL sid (out (send_error i m code st)) c = c"
  using assms by (simp add: send_error_def send_to_def Server_State.emit_def deliver_def handle_chat_message_def)


section \<open>Pages of the history\<close>

lemma page_newest: "get_messages ch 0 n d = drop (length (visible ch d) - n) (visible ch d)"
  by (simp add: get_messages_visible Let_def)

lemma page_before:
  assumes "chat_db d" "k < length (visible ch d)"
  shows "get_messages ch (word_of_int (m_id (visible ch d ! k))) n d = drop (k - n) (take k (visible ch d))"
proof -
  let ?vs = "visible ch d" let ?m = "?vs ! k"
  have m: "?m \<in> set (messages d)" using assms(2) nth_mem visible_rows by blast
  have id: "sint (word_of_int (m_id ?m) :: u64) = m_id ?m" "(word_of_int (m_id ?m) :: u64) \<noteq> 0"
    using sint_message_id [OF _ _ m] assms(1) by (simp_all add: chat_db_def)
  have "?vs = take k ?vs @ ?m # drop (Suc k) ?vs" using assms(2) by (simp add: id_take_nth_drop)
  moreover have "sorted_wrt (\<lambda>a b. m_id a < m_id b) ?vs" using assms(1) by (intro visible_sorted) (simp add: chat_db_def)
  ultimately have "filter (\<lambda>x. m_id x < m_id ?m) ?vs = take k ?vs" using filter_below [of m_id "take k ?vs" ?m "drop (Suc k) ?vs"] by metis
  then show ?thesis using assms(2) id by (simp add: get_messages_visible Let_def)
qed

lemma more_iff:
  assumes "chat_db d" "k \<le> length (visible ch d)" "0 < n"
  shows "history_has_more ch (drop (k - n) (take k (visible ch d))) d \<noteq> 0 \<longleftrightarrow> 0 < k - n"
proof (cases "k = 0")
  case False
  let ?vs = "visible ch d" let ?j = "k - n"
  have j: "?j < k" using False assms(3) by simp
  have "drop ?j (take k ?vs) = ?vs ! ?j # drop (Suc ?j) (take k ?vs)"
    using j assms(2) Cons_nth_drop_Suc [of ?j "take k ?vs"] by simp
  moreover have "get_messages ch (word_of_int (m_id (?vs ! ?j))) 1 d = drop (?j - 1) (take ?j ?vs)"
    using j assms(1,2) by (intro page_before) auto
  ultimately show ?thesis using j assms(2) by (auto simp: history_has_more_def)
qed (simp add: history_has_more_def)

lemma shown_page:
  assumes "k \<le> length (visible ch d)"
  shows "assign_date_labels CL (map (msg_view CL me \<circ> row_message d) (drop (k - n) (take k (visible ch d))) @ shown CL d me ch k)
    = shown CL d me ch (k - n)"
proof -
  have "drop (k - n) (visible ch d) = drop (k - n) (take k (visible ch d)) @ drop k (visible ch d)"
    by (metis append_take_drop_id diff_is_0_eq diff_le_self drop0 drop_append length_take assms min.absorb2)
  then show ?thesis unfolding shown_def by (simp add: labels_append flip: map_append)
qed

text \<open>A page is taken: \<open>k\<close> is where the shown run starts.\<close>

lemma page_taken:
  assumes d: "chat_db d" and c: "ct_active c = ch" "ct_messages c = shown CL d (ct_user c) ch k" and k: "k \<le> length (visible ch d)"
    and page: "get_messages ch before 30 d = drop (k - 30) (take k (visible ch d))"
  shows "on_chat_history_resp CL (page_bytes d ch (get_messages ch before 30 d)) c
    = c\<lparr>ct_messages := shown CL d (ct_user c) ch (k - 30), ct_more := (30 < k)\<rparr>"
proof -
  let ?ms = "drop (k - 30) (take k (visible ch d))"
  have "list_all (\<lambda>m. msg_fits (row_message d m)) ?ms" using visible_fits [OF d, of ch]
    by (auto simp: list_all_iff dest: in_set_dropD in_set_takeD)
  moreover have "length ?ms < 65536" by simp
  moreover have "(history_has_more ch ?ms d \<noteq> 0) = (30 < k)" using more_iff [OF d k, of 30] by auto
  ultimately show ?thesis using history_taken [OF c(1), of d ?ms CL] shown_page [OF k, of CL "ct_user c" 30] c(2) by (simp add: page)
qed

lemma ask_history:
  assumes "tuned_in sid st"
  shows "server_takes cfg L e sid [ChatSent CHAT_HISTORY_REQ (history_request ch before)] (st\<lparr>out := []\<rparr>)
    = st\<lparr>out := [Control sid CHAT_HISTORY_RESP (page_bytes (db st) ch (get_messages ch before 30 (db st)))]\<rparr>"
proof -
  have "s_authenticated (objs st sid)" "get_session sid st \<noteq> None" "tuned_in sid (st\<lparr>out := []\<rparr>)"
    using assms by (simp_all add: tuned_in_def get_session_def)
  then show ?thesis
    using assms by (simp add: server_takes_def handle_message_def get_session_def handle_history_page send_to_def tuned_in_def
        Server_State.emit_def)
qed

definition same_server :: "srv \<Rightarrow> srv \<Rightarrow> bool" where
  "same_server st st' \<longleftrightarrow> db st' = db st \<and> sessions st' = sessions st \<and> objs st' = objs st"

lemma same_server_out [simp]: "same_server st (st\<lparr>out := xs\<rparr>)" "same_server st st"
  by (simp_all add: same_server_def)

lemma select_exchange:
  assumes live: "chat_db (db (snd w))" "tuned_in sid (snd w)"
  shows "exchange cfg L e CL sid (on_select_channel ch) w = (c', st') \<Longrightarrow>
    let n = length (visible ch (db (snd w))) in
    same_server (snd w) st' \<and> ct_active c' = ch \<and> ct_user c' = ct_user (fst w)
    \<and> ct_messages c' = shown CL (db (snd w)) (ct_user c') ch (n - 30) \<and> ct_more c' = (30 < n)"
proof -
  assume x: "exchange cfg L e CL sid (on_select_channel ch) w = (c', st')"
  let ?c1 = "on_select_channel ch ((fst w)\<lparr>ct_out := []\<rparr>)" let ?d = "db (snd w)" let ?n = "length (visible ch ?d)"
  have c1: "ct_out ?c1 = [ChatSent CHAT_HISTORY_REQ (history_request ch 0)]" "ct_active ?c1 = ch" "ct_messages ?c1 = []"
    "ct_user ?c1 = ct_user (fst w)"
    by (simp_all add: on_select_channel_def chat_do_def Let_def split: option.splits)
  note st = ask_history [OF live(2), of cfg L e ch 0]
  have c': "c' = on_chat_history_resp CL (page_bytes ?d ch (get_messages ch 0 30 ?d)) (?c1\<lparr>ct_out := []\<rparr>)"
    "st' = (snd w)\<lparr>out := [Control sid CHAT_HISTORY_RESP (page_bytes ?d ch (get_messages ch 0 30 ?d))]\<rparr>"
    using x by (auto simp: exchange_def Let_def c1(1) st handle_chat_message_def)
  have "ct_messages (?c1\<lparr>ct_out := []\<rparr>) = shown CL ?d (ct_user (fst w)) ch ?n"
    using c1(3) by (simp add: shown_def assign_date_labels_def)
  then have "c' = ?c1\<lparr>ct_out := [], ct_messages := shown CL ?d (ct_user (fst w)) ch (?n - 30), ct_more := (30 < ?n)\<rparr>"
    unfolding c'(1) using page_taken [of ?d "?c1\<lparr>ct_out := []\<rparr>" ch CL ?n 0] c1(2,4) live(1) by (simp add: page_newest)
  then show ?thesis using c'(2) c1(2,4) by (simp add: Let_def)
qed


lemma shown_head:
  assumes "k < length (visible ch d)"
  shows "\<exists>m ms. shown CL d me ch k = m # ms \<and> cm_id m = word_of_int (m_id (visible ch d ! k))"
proof -
  have "map cm_id (shown CL d me ch k) = map (\<lambda>m. word_of_int (m_id m)) (drop k (visible ch d))"
    by (simp add: shown_def labels_ids msg_view_def row_message_def)
  also have "\<dots> = word_of_int (m_id (visible ch d ! k)) # map (\<lambda>m. word_of_int (m_id m)) (drop (Suc k) (visible ch d))"
    using Cons_nth_drop_Suc [OF assms] by (metis list.simps(9))
  finally show ?thesis by auto
qed

lemma shown_empty: "k \<le> length (visible ch d) \<Longrightarrow> shown CL d me ch k = [] \<longleftrightarrow> k = length (visible ch d)"
  using shown_head [of k ch d CL me] by (auto simp: le_less shown_def assign_date_labels_def)

lemma load_exchange:
  assumes ok: "chat_ok CL sid w" and k: "k \<le> length (visible (ct_active (fst w)) (db (snd w)))"
    and run: "ct_messages (fst w) = shown CL (db (snd w)) (ct_user (fst w)) (ct_active (fst w)) k"
    and x: "exchange cfg L e CL sid on_load_more_history w = (c', st')"
  shows "same_server (snd w) st' \<and> ct_active c' = ct_active (fst w) \<and> ct_user c' = ct_user (fst w) \<and>
    (if ct_more (fst w) \<and> k < length (visible (ct_active (fst w)) (db (snd w)))
     then ct_messages c' = shown CL (db (snd w)) (ct_user (fst w)) (ct_active (fst w)) (k - 30) \<and> ct_more c' = (30 < k)
     else ct_messages c' = ct_messages (fst w) \<and> ct_more c' = ct_more (fst w))"
proof -
  let ?c = "(fst w)\<lparr>ct_out := []\<rparr>" let ?d = "db (snd w)" let ?ch = "ct_active (fst w)" let ?me = "ct_user (fst w)"
  have live: "tuned_in sid (snd w)" "chat_db ?d" using ok by (simp_all add: chat_ok_def)
  show ?thesis
  proof (cases "ct_more (fst w) \<and> k < length (visible ?ch ?d)")
    case True
    let ?b = "word_of_int (m_id (visible ?ch ?d ! k)) :: u64"
    obtain m ms where m: "ct_messages (fst w) = m # ms" "cm_id m = ?b" using shown_head True run by metis
    have c1: "on_load_more_history ?c = ?c\<lparr>ct_out := [ChatSent CHAT_HISTORY_REQ (history_request ?ch ?b)]\<rparr>"
      using m True by (simp add: on_load_more_history_def chat_do_def)
    have c': "c' = on_chat_history_resp CL (page_bytes ?d ?ch (get_messages ?ch ?b 30 ?d)) ?c"
      "st' = (snd w)\<lparr>out := [Control sid CHAT_HISTORY_RESP (page_bytes ?d ?ch (get_messages ?ch ?b 30 ?d))]\<rparr>"
      using x by (auto simp: exchange_def Let_def c1 ask_history [OF live(1)] handle_chat_message_def)
    show ?thesis using c' True run
        page_taken [of ?d ?c ?ch CL k ?b, OF live(2)] page_before [OF live(2), of k ?ch 30] k by simp
  next
    case False
    have "on_load_more_history ?c = ?c"
    proof (cases "ct_messages (fst w)")
      case (Cons m ms)
      then have "k < length (visible ?ch ?d)" using run k shown_empty [OF k, of CL ?me] by (simp add: le_less)
      then show ?thesis using False Cons by (simp add: on_load_more_history_def)
    qed (simp add: on_load_more_history_def)
    then show ?thesis using x False by (auto simp: exchange_def Let_def server_takes_def)
  qed
qed

section \<open>The client's view stays a run of the channel\<close>

text \<open>A deletion is heard.\<close>

lemma filter_drop: "filter P (drop k xs) = drop (length (filter P (take k xs))) (filter P xs)"
proof -
  have "filter P xs = filter P (take k xs) @ filter P (drop k xs)" by (metis append_take_drop_id filter_append)
  then show ?thesis by simp
qed

lemma deleted_heard:
  assumes d: "chat_db d" and x: "x \<in> set (messages d)" "m_id x = sint mid" and s: "in_sync CL d c"
  shows "in_sync CL (soft_delete_message mid d)
    (handle_chat_message CL CHAT_MESSAGE_DELETED (le64 mid @ le32 (word_of_int (m_channel_id x))) c)"
proof -
  let ?ch = "ct_active c" let ?d' = "soft_delete_message mid d" let ?vs = "visible ?ch d"
  obtain k where k: "k \<le> length ?vs" "ct_messages c = shown CL d (ct_user c) ?ch k" "0 < k \<longrightarrow> ct_more c"
    using s by (auto simp: in_sync_def)
  let ?P = "\<lambda>m. m_id m \<noteq> sint mid" let ?j = "length (filter ?P (take k ?vs))"
  have vs: "visible ?ch ?d' = filter ?P ?vs" by (rule visible_delete)
  have j: "?j \<le> length (filter ?P ?vs)" "?j \<le> k"
    by (metis append_take_drop_id filter_append le_add1 length_append)
       (metis length_filter_le length_take min.absorb2 k(1))
  let ?view = "\<lambda>m. msg_view CL (ct_user c) (row_message d m)"
  have "cm_id (?view m) \<noteq> mid \<longleftrightarrow> ?P m" if "m \<in> set (drop k ?vs)" for m
  proof -
    have "m \<in> set (messages d)" using that visible_rows in_set_dropD by metis
    then show ?thesis using row_id_inject [OF d] by (simp add: msg_view_def row_message_def)
  qed
  then have f: "filter (\<lambda>m. cm_id m \<noteq> mid) (map ?view (drop k ?vs)) = map ?view (filter ?P (drop k ?vs))"
    by (simp add: filter_map comp_def cong: filter_cong)
  have "assign_date_labels CL (filter (\<lambda>m. cm_id m \<noteq> mid) (ct_messages c)) = shown CL ?d' (ct_user c) ?ch ?j"
    unfolding k(2) shown_def vs by (simp add: labels_filter f row_message_delete comp_def flip: filter_drop)
  moreover have "?P m" if "word_of_int (m_channel_id x) \<noteq> ?ch" "m \<in> set ?vs" for m
  proof
    assume "m_id m = sint mid"
    moreover have m: "m \<in> set (messages d)" "m_channel_id m = sint ?ch" using that(2) by (auto simp: visible_rows)
    moreover have "distinct (map m_id (messages d))" using d by (auto simp: chat_db_def db_inv_def ids_ok_def)
    ultimately have "m = x" using x by (metis distinct_map inj_onD)
    then show False using that(1) m row_channel_inject [OF d x(1)] by simp
  qed
  then have other: "filter ?P ?vs = ?vs" if "word_of_int (m_channel_id x) \<noteq> ?ch" using that by simp
  ultimately have heard: "assign_date_labels CL (filter (\<lambda>m. cm_id m \<noteq> mid) (ct_messages c)) = shown CL ?d' (ct_user c) ?ch ?j"
    by simp
  show ?thesis
  proof (cases "word_of_int (m_channel_id x) = ?ch")
    case True
    then show ?thesis using k(3) j heard
      by (auto simp: handle_chat_message_def deletion_taken in_sync_def vs intro!: exI [of _ ?j])
  next
    case False
    then show ?thesis using k other
      by (auto simp: handle_chat_message_def deletion_taken in_sync_def vs shown_def row_message_delete comp_def)
  qed
qed


text \<open>A message is heard.\<close>

lemma fold_uploads:
  "fold (\<lambda>(a, pu). chat_do (UploadFile (ca_id a) (pu_data pu))) xs c
   = c\<lparr>ct_out := ct_out c @ map (\<lambda>(a, pu). UploadFile (ca_id a) (pu_data pu)) xs\<rparr>"
  by (induction xs arbitrary: c) (auto simp: chat_do_def)

lemma upload_fields [simp]:
  "ct_messages (upload_pending m c) = ct_messages c" "ct_active (upload_pending m c) = ct_active c"
  "ct_user (upload_pending m c) = ct_user c" "ct_more (upload_pending m c) = ct_more c"
  by (simp_all add: upload_pending_def fold_uploads)

lemma shown_sent:
  assumes "chat_db d" "next_message d < 2 ^ 63"
  shows "shown CL (sent_db d ch s txt t ups) me c k =
    assign_date_labels CL (map (msg_view CL me) (drop k (map (row_message d) (visible c d)
      @ (if c = ch then [new_message d ch (s_user_id s) (s_username s) txt t ups] else []))))"
proof -
  let ?d' = "sent_db d ch s txt t ups"
  have "map (row_message ?d') (visible c d) = map (row_message d) (visible c d)"
    using row_message_old [OF assms] by (simp add: sent_db_def visible_rows)
  moreover have "row_message ?d' (new_row d ch (s_user_id s) (s_username s) txt t) = new_message d ch (s_user_id s) (s_username s) txt t ups"
    using row_message_new [OF assms] by (simp add: sent_db_def)
  moreover have "visible c ?d' = visible c d @ (if c = ch then [new_row d ch (s_user_id s) (s_username s) txt t] else [])"
    using visible_stored [OF assms(1)] by (simp add: sent_db_def)
  ultimately have "map (row_message ?d') (visible c ?d') = map (row_message d) (visible c d)
      @ (if c = ch then [new_message d ch (s_user_id s) (s_username s) txt t ups] else [])" by simp
  moreover have "map (msg_view CL me \<circ> row_message ?d') (drop k (visible c ?d'))
      = map (msg_view CL me) (drop k (map (row_message ?d') (visible c ?d')))" by (simp add: drop_map)
  ultimately show ?thesis by (simp only: shown_def)
qed

lemma fresh_message:
  assumes d: "chat_db d" "next_message d < 2 ^ 63" and s: "in_sync CL d c"
  shows "put_message (msg_view CL me (new_message d ch u name txt t ups)) (ct_messages c)
    = ct_messages c @ [msg_view CL me (new_message d ch u name txt t ups)]"
proof -
  let ?m = "msg_view CL me (new_message d ch u name txt t ups)"
  obtain k where k: "ct_messages c = shown CL d (ct_user c) (ct_active c) k" using s by (auto simp: in_sync_def)
  have "cm_id x \<noteq> cm_id ?m" if "x \<in> set (ct_messages c)" for x
  proof -
    have "cm_id x \<in> set (map cm_id (ct_messages c))" using that by simp
    then obtain y where y: "y \<in> set (visible (ct_active c) d)" "cm_id x = word_of_int (m_id y)"
      by (auto simp: k shown_def labels_ids msg_view_def row_message_def dest: in_set_dropD)
    then have "y \<in> set (messages d)" by (simp add: visible_rows)
    then have "sint (word_of_int (m_id y) :: u64) = m_id y" "m_id y < next_message d"
      using sint_message_id [of d y] d(1) chat_db_seq by (simp_all add: chat_db_def)
    then show ?thesis using y(2) new_id [OF d] by (auto simp: msg_view_def new_message_def)
  qed
  then show ?thesis by (auto simp: put_message_def list_ex_iff)
qed

lemma message_heard:
  assumes d: "chat_db d" "next_message d < 2 ^ 63" and fits: "send_fits (s_username s) txt ups" and s: "in_sync CL d c"
  shows "in_sync CL (sent_db d ch s txt t ups)
    (handle_chat_message CL CHAT_MESSAGE (msg_bytes (new_message d ch (s_user_id s) (s_username s) txt t ups)) c)"
proof -
  let ?a = "ct_active c" let ?w = "new_message d ch (s_user_id s) (s_username s) txt t ups" let ?d' = "sent_db d ch s txt t ups"
  let ?vs = "visible ?a d" let ?ws = "map (row_message d) ?vs" let ?m = "msg_view CL (ct_user c) ?w"
  obtain k where k: "k \<le> length ?vs" "ct_messages c = shown CL d (ct_user c) ?a k" "0 < k \<longrightarrow> ct_more c"
    using s by (auto simp: in_sync_def)
  have ms: "ct_messages c = assign_date_labels CL (map (msg_view CL (ct_user c)) (drop k ?ws))"
    using k(2) by (simp add: shown_def drop_map)
  have vs: "visible ?a ?d' = ?vs @ (if ?a = ch then [new_row d ch (s_user_id s) (s_username s) txt t] else [])"
    using visible_stored [OF d(1)] by (simp add: sent_db_def)
  have heard: "handle_chat_message CL CHAT_MESSAGE (msg_bytes ?w) c =
      (if ch = ?a then show_message CL ?m (upload_pending ?m c) else mark_unread ch (upload_pending ?m c))"
    using message_taken [OF new_message_fits [OF fits], of CL d ch "s_user_id s" t c]
    by (simp add: handle_chat_message_def Let_def new_message_def)
  show ?thesis
  proof (cases "ch = ?a")
    case False
    then show ?thesis using k ms vs shown_sent [OF d, of CL ch s "txt" t ups "ct_user c" ?a k]
      by (auto simp: heard in_sync_def mark_unread_def drop_map)
  next
    case True
    have put: "put_message ?m (ct_messages c) = ct_messages c @ [?m]" by (rule fresh_message [OF d s])
    define n where "n = length (ct_messages c @ [?m]) - MAX_SHOWN"
    have "length (ct_messages c) = length (drop k ?ws)" unfolding ms using arg_cong [OF labels_ids, of length] by (metis length_map)
    then have n: "k + n \<le> length (visible ?a ?d')" using True k(1) vs by (simp add: MAX_SHOWN_def n_def)
    have "assign_date_labels CL (drop n (ct_messages c @ [?m]))
        = assign_date_labels CL (drop n (map (msg_view CL (ct_user c)) (drop k ?ws) @ [?m]))"
      unfolding ms by (rule labels_drop)
    also have "map (msg_view CL (ct_user c)) (drop k ?ws) @ [?m] = map (msg_view CL (ct_user c)) (drop k (?ws @ [?w]))"
      using k(1) by simp
    also have "drop n \<dots> = map (msg_view CL (ct_user c)) (drop (k + n) (?ws @ [?w]))" by (simp only: drop_map drop_drop add.commute)
    also have "assign_date_labels CL \<dots> = shown CL ?d' (ct_user c) ?a (k + n)"
      using True shown_sent [OF d, of CL ch s "txt" t ups "ct_user c" ?a "k + n"] by simp
    finally have run: "assign_date_labels CL (drop n (ct_messages c @ [?m])) = shown CL ?d' (ct_user c) ?a (k + n)" .
    have res: "handle_chat_message CL CHAT_MESSAGE (msg_bytes ?w) c = show_message CL ?m (upload_pending ?m c)"
      unfolding heard using True by (rule if_P)
    show ?thesis
    proof (cases "length (ct_messages c @ [?m]) > MAX_SHOWN")
      case more: True
      then have "show_message CL ?m (upload_pending ?m c) = (upload_pending ?m c)
          \<lparr>ct_messages := assign_date_labels CL (drop n (ct_messages c @ [?m])), ct_more := True\<rparr>"
        by (simp only: show_message_def put n_def Let_def upload_fields if_True)
      then show ?thesis unfolding res in_sync_def using n run by (intro exI [of _ "k + n"]) simp
    next
      case few: False
      then have "n = 0" by (simp add: n_def)
      moreover have "show_message CL ?m (upload_pending ?m c) = (upload_pending ?m c)
          \<lparr>ct_messages := assign_date_labels CL (ct_messages c @ [?m])\<rparr>"
        using few by (simp only: show_message_def put Let_def upload_fields if_False)
      ultimately show ?thesis unfolding res in_sync_def using n run k(3) by (intro exI [of _ k]) simp
    qed
  qed
qed


section \<open>Exchanges keep the view\<close>

lemma in_sync_cong:
  "ct_messages c' = ct_messages c \<Longrightarrow> ct_active c' = ct_active c \<Longrightarrow> ct_user c' = ct_user c \<Longrightarrow> ct_more c' = ct_more c \<Longrightarrow>
   in_sync CL d c' = in_sync CL d c"
  by (simp add: in_sync_def)

text \<open>The server handles a message of any session and the client hears of it.\<close>

lemma chat_send_step:
  assumes ok: "chat_ok CL sid (c, st)" and i: "s_authenticated (objs st i)" and n: "next_message (db st) < 2 ^ 63"
    and fits: "send_fits (s_username (objs st i)) txt ups"
  shows "let st' = handle_chat_send cfg e i (chat_send_payload ch txt ups) (st\<lparr>out := []\<rparr>)
         in chat_ok CL sid (deliver CL sid (out st') c, st')"
proof -
  let ?st = "st\<lparr>out := []\<rparr>" let ?st' = "handle_chat_send cfg e i (chat_send_payload ch txt ups) ?st"
  have base: "chat_db (db st)" "tuned_in sid st" "in_sync CL (db st) c" using ok by (simp_all add: chat_ok_def)
  consider m code where "?st' = send_error i m code ?st"
    | "db_inv (sent_db (db st) ch (objs st i) txt (unix_time e) ups)"
      "?st' = send_all s_authenticated CHAT_MESSAGE
            (msg_bytes (new_message (db st) ch (s_user_id (objs st i)) (s_username (objs st i)) txt (unix_time e) ups))
            (?st\<lparr>db := sent_db (db st) ch (objs st i) txt (unix_time e) ups\<rparr>)"
    using handle_chat_send_cases [of ?st i "txt" ups cfg ch e] base(1) i n fits by (auto split: if_splits)
  then show ?thesis
  proof cases
    case 1
    have "db ?st' = db st" "sessions ?st' = sessions st" "objs ?st' = objs st"
      by (simp_all add: 1 send_error_def)
    then show ?thesis using base tuned_in_same [of ?st' st sid] error_ignored [of ?st CL sid i m code c]
      by (simp add: chat_ok_def 1 Let_def)
  next
    case 2
    let ?d' = "sent_db (db st) ch (objs st i) txt (unix_time e) ups"
    have "tuned_in sid (?st\<lparr>db := ?d'\<rparr>)" "out (?st\<lparr>db := ?d'\<rparr>) = []" using base(2) by (simp_all add: tuned_in_def)
    note heard = broadcast_heard [OF this]
    have "tuned_in sid ?st'" "db ?st' = ?d'" using base(2) by (simp_all add: 2(2) send_all_out tuned_in_def)
    then show ?thesis using message_heard [OF base(1) n fits base(3)] chat_db_sent [OF base(1) n fits 2(1)]
      by (simp add: chat_ok_def Let_def) (simp add: 2(2) heard)
  qed
qed

lemma chat_delete_step:
  assumes ok: "chat_ok CL sid (c, st)"
  shows "let st' = handle_chat_delete i (write_u64 mid []) (st\<lparr>out := []\<rparr>) in chat_ok CL sid (deliver CL sid (out st') c, st')"
proof -
  let ?st = "st\<lparr>out := []\<rparr>" let ?st' = "handle_chat_delete i (write_u64 mid []) ?st"
  have base: "chat_db (db st)" "tuned_in sid st" "in_sync CL (db st) c" using ok by (simp_all add: chat_ok_def)
  consider "?st' = ?st" | m code where "?st' = send_error i m code ?st"
    | x where "x \<in> set (messages (db st))" "m_id x = sint mid"
      "?st' = send_all s_authenticated CHAT_MESSAGE_DELETED (le64 mid @ le32 (word_of_int (m_channel_id x)))
         (?st\<lparr>db := soft_delete_message mid (db st)\<rparr>)"
    using handle_delete_cases [of i mid ?st] by auto
  then show ?thesis
  proof cases
    case 1
    then show ?thesis using base tuned_in_same [of ?st st sid] by (simp add: chat_ok_def Let_def)
  next
    case 2
    have "db ?st' = db st" "sessions ?st' = sessions st" "objs ?st' = objs st"
      by (simp_all add: 2 send_error_def)
    then show ?thesis using base tuned_in_same [of ?st' st sid] error_ignored [of ?st CL sid i m code c]
      by (simp add: chat_ok_def 2 Let_def)
  next
    case 3
    let ?d' = "soft_delete_message mid (db st)"
    have "tuned_in sid (?st\<lparr>db := ?d'\<rparr>)" "out (?st\<lparr>db := ?d'\<rparr>) = []" using base(2) by (simp_all add: tuned_in_def)
    note heard = broadcast_heard [OF this]
    have "tuned_in sid ?st'" "db ?st' = ?d'" using base(2) by (simp_all add: 3(3) send_all_out tuned_in_def)
    then show ?thesis using deleted_heard [OF base(1) 3(1,2) base(3)] chat_db_delete [OF base(1)]
      by (simp add: chat_ok_def Let_def) (simp add: 3(3) heard)
  qed
qed

text \<open>Questions change nothing on the server, and their answers only what they ask for.\<close>

lemma search_answer: "handle_search L i p st = st \<or> (\<exists>b. handle_search L i p st = send_to i CHAT_SEARCH_RESP b st)"
  by (auto simp: handle_search_def Let_def split: prod.splits)

lemma pinned_answer: "handle_pinned i p st = st \<or> (\<exists>b. handle_pinned i p st = send_to i CHAT_PINNED_RESP b st)"
  by (auto simp: handle_pinned_def Let_def split: prod.splits)

lemma history_answer: "handle_history i p st = st \<or> (\<exists>b. handle_history i p st = send_to i CHAT_HISTORY_RESP b st)"
  by (auto simp: handle_history_def Let_def split: prod.splits)

lemma answer_fields [simp]:
  "ct_messages (on_chat_search_resp CL b c) = ct_messages c" "ct_active (on_chat_search_resp CL b c) = ct_active c"
  "ct_user (on_chat_search_resp CL b c) = ct_user c" "ct_more (on_chat_search_resp CL b c) = ct_more c"
  "ct_messages (on_chat_pinned_resp CL b c) = ct_messages c" "ct_active (on_chat_pinned_resp CL b c) = ct_active c"
  "ct_user (on_chat_pinned_resp CL b c) = ct_user c" "ct_more (on_chat_pinned_resp CL b c) = ct_more c"
  by (simp_all add: on_chat_search_resp_def on_chat_pinned_resp_def Let_def split: prod.splits)

lemma answer_step:
  assumes ok: "chat_ok CL sid (c, st)" and st': "st' = st\<lparr>out := []\<rparr> \<or> st' = send_to i ty b (st\<lparr>out := []\<rparr>)"
    and ty: "i \<noteq> sid \<or> ty \<in> {CHAT_SEARCH_RESP, CHAT_PINNED_RESP}"
  shows "chat_ok CL sid (deliver CL sid (out st') c, st')"
proof -
  have same: "db st' = db st" "sessions st' = sessions st" "objs st' = objs st" using st' by auto
  have "out st' \<in> {[], [Control i ty b]}" using st' by (auto simp: send_to_def Server_State.emit_def split: if_splits)
  then have "in_sync CL (db st) (deliver CL sid (out st') c) = in_sync CL (db st) c"
    using ty by (intro in_sync_cong) (auto simp: deliver_def handle_chat_message_def split: if_splits)
  then show ?thesis using ok same tuned_in_same [of st' st sid] by (simp add: chat_ok_def)
qed


text \<open>An exchange in which the client says one thing, and one in which it says nothing.\<close>

lemma exchange_one:
  assumes "ct_out (act (c\<lparr>ct_out := []\<rparr>)) = [ChatSent ty p]" "tuned_in sid st"
  shows "exchange cfg L e CL sid act (c, st) = (let st' = handle_message cfg L e sid ty p (st\<lparr>out := []\<rparr>)
     in (deliver CL sid (out st') ((act (c\<lparr>ct_out := []\<rparr>))\<lparr>ct_out := []\<rparr>), st'))"
  using assms by (simp add: exchange_def server_takes_def Let_def)

lemma exchange_none: "act (c\<lparr>ct_out := []\<rparr>) = c\<lparr>ct_out := []\<rparr> \<Longrightarrow>
   exchange cfg L e CL sid act (c, st) = (c\<lparr>ct_out := []\<rparr>, st\<lparr>out := []\<rparr>)"
  by (simp add: exchange_def server_takes_def Let_def)

lemma chat_ok_quiet: "chat_ok CL sid (c, st) \<Longrightarrow> chat_ok CL sid (c\<lparr>ct_out := xs\<rparr>, st\<lparr>out := ys\<rparr>)"
  by (simp add: chat_ok_def in_sync_def tuned_in_def)

text \<open>Opening a channel starts anew, whatever the client showed before.\<close>

lemma select_step:
  assumes "chat_db (db (snd w))" "tuned_in sid (snd w)"
  shows "chat_ok CL sid (exchange cfg L e CL sid (on_select_channel ch) w)"
proof -
  obtain c' st' where x: "exchange cfg L e CL sid (on_select_channel ch) w = (c', st')" by fastforce
  have st: "db st' = db (snd w)" "sessions st' = sessions (snd w)" "objs st' = objs (snd w)"
    and c': "ct_active c' = ch" "ct_messages c' = shown CL (db (snd w)) (ct_user c') ch (length (visible ch (db (snd w))) - 30)"
    "ct_more c' = (30 < length (visible ch (db (snd w))))"
    using select_exchange [OF assms x] by (simp_all add: Let_def same_server_def)
  then have "in_sync CL (db st') c'"
    unfolding in_sync_def by (intro exI [of _ "length (visible ch (db (snd w))) - 30"]) auto
  then show ?thesis using assms st tuned_in_same [of st' "snd w" sid] by (simp add: x chat_ok_def)
qed


lemma load_step:
  assumes "chat_ok CL sid w" shows "chat_ok CL sid (exchange cfg L e CL sid on_load_more_history w)"
proof -
  obtain c' st' where x: "exchange cfg L e CL sid on_load_more_history w = (c', st')" by fastforce
  obtain k where k: "k \<le> length (visible (ct_active (fst w)) (db (snd w)))"
    "ct_messages (fst w) = shown CL (db (snd w)) (ct_user (fst w)) (ct_active (fst w)) k" "0 < k \<longrightarrow> ct_more (fst w)"
    using assms by (auto simp: chat_ok_def in_sync_def)
  note l = load_exchange [OF assms k(1,2) x]
  have "in_sync CL (db st') c'"
  proof (cases "ct_more (fst w) \<and> k < length (visible (ct_active (fst w)) (db (snd w)))")
    case True
    then show ?thesis using l k(1) by (auto simp: same_server_def in_sync_def intro!: exI [of _ "k - 30"])
  next
    case False
    then show ?thesis using l k by (auto simp: same_server_def in_sync_def intro!: exI [of _ k])
  qed
  then show ?thesis using assms l tuned_in_same [of st' "snd w" sid] by (simp add: x chat_ok_def same_server_def)
qed

lemma tuned_session: "tuned_in sid st \<Longrightarrow> get_session sid (st\<lparr>out := []\<rparr>) \<noteq> None" "tuned_in sid st \<Longrightarrow> s_authenticated (objs st sid)"
  by (simp_all add: get_session_def tuned_in_def)

lemma chat_ok_ui:
  assumes "chat_ok CL sid (c, st)" "ct_messages c' = ct_messages c" "ct_active c' = ct_active c" "ct_user c' = ct_user c"
    "ct_more c' = ct_more c"
  shows "chat_ok CL sid (c', st)"
  using assms in_sync_cong [OF assms(2-5)] by (simp add: chat_ok_def)

lemma own_send_step:
  assumes ok: "chat_ok CL sid (c, st)" and n: "next_message (db st) < 2 ^ 63"
    and fits: "send_fits (s_username (objs st sid)) (ct_compose c) (read_uploads read_file (ct_files c))"
  shows "chat_ok CL sid (exchange cfg L e CL sid (on_send_message read_file) (c, st))"
proof (cases "ct_active c = 0 \<or> ct_compose c = [] \<and> ct_files c = []")
  case True
  then have "on_send_message read_file (c\<lparr>ct_out := []\<rparr>) = c\<lparr>ct_out := []\<rparr>" by (auto simp: on_send_message_def)
  from exchange_none [where act = "on_send_message read_file", OF this] show ?thesis using chat_ok_quiet [OF ok] by simp
next
  case False
  let ?c1 = "on_send_message read_file (c\<lparr>ct_out := []\<rparr>)" let ?p = "chat_send_payload (ct_active c) (ct_compose c) (read_uploads read_file (ct_files c))"
  have tuned: "tuned_in sid st" using ok by (simp add: chat_ok_def)
  have out: "ct_out ?c1 = [ChatSent CHAT_SEND ?p]" using False by (auto simp: on_send_message_def chat_do_def Let_def)
  have "chat_ok CL sid (?c1\<lparr>ct_out := []\<rparr>, st)"
    using False by (intro chat_ok_ui [OF ok]) (auto simp: on_send_message_def chat_do_def Let_def)
  from chat_send_step [OF this tuned_session(2) [OF tuned] n fits, of cfg e "ct_active c"]
  show ?thesis using tuned_session(1) [OF tuned]
    by (auto simp: exchange_one [where act = "on_send_message read_file", OF out tuned] handle_message_def Let_def)
qed

lemma own_delete_step:
  assumes ok: "chat_ok CL sid (c, st)"
  shows "chat_ok CL sid (exchange cfg L e CL sid (on_delete_message mid) (c, st))"
proof -
  let ?c1 = "on_delete_message mid (c\<lparr>ct_out := []\<rparr>)"
  have tuned: "tuned_in sid st" using ok by (simp add: chat_ok_def)
  have out: "ct_out ?c1 = [ChatSent CHAT_DELETE (write_u64 mid [])]" by (simp add: on_delete_message_def chat_do_def)
  have "chat_ok CL sid (?c1\<lparr>ct_out := []\<rparr>, st)" by (intro chat_ok_ui [OF ok]) (simp_all add: on_delete_message_def chat_do_def)
  from chat_delete_step [OF this, of sid mid] show ?thesis using tuned_session(1) [OF tuned]
    by (auto simp: exchange_one [where act = "on_delete_message mid", OF out tuned] handle_message_def Let_def)
qed

lemma own_question_step:
  assumes ok: "chat_ok CL sid (c, st)"
  shows "chat_ok CL sid (exchange cfg L e CL sid on_do_search (c, st))"
    "chat_ok CL sid (exchange cfg L e CL sid on_request_pinned (c, st))"
proof -
  have tuned: "tuned_in sid st" using ok by (simp add: chat_ok_def)
  show "chat_ok CL sid (exchange cfg L e CL sid on_do_search (c, st))"
  proof (cases "ct_query c = [] \<or> ct_active c = 0")
    case True
    then have "on_do_search (c\<lparr>ct_out := []\<rparr>) = c\<lparr>ct_out := []\<rparr>" by (auto simp: on_do_search_def)
    from exchange_none [where act = on_do_search, OF this] show ?thesis using chat_ok_quiet [OF ok] by simp
  next
    case False
    let ?c1 = "on_do_search (c\<lparr>ct_out := []\<rparr>)"
    obtain p where out: "ct_out ?c1 = [ChatSent CHAT_SEARCH p]" using False by (auto simp: on_do_search_def chat_do_def)
    have "chat_ok CL sid (?c1\<lparr>ct_out := []\<rparr>, st)" by (intro chat_ok_ui [OF ok]) (simp_all add: on_do_search_def chat_do_def)
    then show ?thesis using tuned_session(1) [OF tuned] search_answer [of L sid p "st\<lparr>out := []\<rparr>"]
      by (auto simp: exchange_one [where act = on_do_search, OF out tuned] handle_message_def Let_def intro!: answer_step)
  qed
  show "chat_ok CL sid (exchange cfg L e CL sid on_request_pinned (c, st))"
  proof (cases "ct_active c = 0")
    case True
    then have "on_request_pinned (c\<lparr>ct_out := []\<rparr>) = c\<lparr>ct_out := []\<rparr>" by (auto simp: on_request_pinned_def)
    from exchange_none [where act = on_request_pinned, OF this] show ?thesis using chat_ok_quiet [OF ok] by simp
  next
    case False
    let ?c1 = "on_request_pinned (c\<lparr>ct_out := []\<rparr>)"
    obtain p where out: "ct_out ?c1 = [ChatSent CHAT_PINNED_REQ p]" using False by (auto simp: on_request_pinned_def chat_do_def)
    have "chat_ok CL sid (?c1\<lparr>ct_out := []\<rparr>, st)" by (intro chat_ok_ui [OF ok]) (simp_all add: on_request_pinned_def chat_do_def)
    then show ?thesis using tuned_session(1) [OF tuned] pinned_answer [of sid p "st\<lparr>out := []\<rparr>"]
      by (auto simp: exchange_one [where act = on_request_pinned, OF out tuned] handle_message_def Let_def intro!: answer_step)
  qed
qed

lemma other_question_step:
  assumes ok: "chat_ok CL sid (c, st)" and i: "i \<in> set (sessions st)" "i \<noteq> sid" and ty: "ty \<in> {CHAT_HISTORY_REQ, CHAT_SEARCH, CHAT_PINNED_REQ}"
  shows "chat_ok CL sid (overhear cfg L e CL sid i ty p (c, st))"
proof -
  let ?st = "st\<lparr>out := []\<rparr>" let ?st' = "handle_message cfg L e i ty p ?st"
  have "?st' \<in> {handle_history i p ?st, handle_search L i p ?st, handle_pinned i p ?st}"
    using ty i(1) by (auto simp: handle_message_def get_session_def)
  then have "\<exists>rty b. ?st' = ?st \<or> ?st' = send_to i rty b ?st"
    using history_answer [of i p ?st] search_answer [of L i p ?st] pinned_answer [of i p ?st] by (elim insertE emptyE) metis+
  then show ?thesis using answer_step [OF ok, of ?st'] i(2) by (auto simp: overhear_def Let_def)
qed

end
