(* ===== verification/Chat_Updates.thy ===== *)
theory Chat_Updates
  imports Chat_Sync
begin

text \<open>
  Changes to messages that are there: pinning and unpinning, a file that has arrived, and text channels that come and
  go (\<open>server/src/server.cpp\<close>), as a client hears of them (\<open>client/src/app_core.cpp\<close>); and the steps of a whole
  conversation.
\<close>

section \<open>Updating in place\<close>

lemma update_first_map:
  "distinct (map f xs) \<Longrightarrow> update_first (\<lambda>x. f x = k) g xs = map (\<lambda>x. if f x = k then g x else x) xs"
proof (induction xs)
  case (Cons x xs)
  have "map (\<lambda>x. if f x = k then g x else x) xs = xs" if "f x = k"
    using that Cons.prems by (intro map_idI) (metis distinct.simps(2) image_eqI image_set list.simps(9))
  then show ?case using Cons by auto
qed simp

lemma insort_map: "(\<And>x. f (g x) = f x) \<Longrightarrow> insort_key f (g x) (map g xs) = map g (insort_key f x xs)"
  by (induction xs) auto

lemma sort_map: "(\<And>x. f (g x) = f x) \<Longrightarrow> sort_key f (map g xs) = map g (sort_key f xs)"
  by (induction xs) (simp_all add: insort_map)

lemma filter_map_same: "(\<And>x. P (g x) = P x) \<Longrightarrow> filter P (map g xs) = map g (filter P xs)"
  by (induction xs) auto

text \<open>A change of a shown message that leaves its time and is blind to its date label.\<close>

definition plain_change :: "(chat_message \<Rightarrow> chat_message) \<Rightarrow> bool" where
  "plain_change f \<longleftrightarrow> (\<forall>m. cm_raw_time (f m) = cm_raw_time m) \<and> (\<forall>m l. f (m\<lparr>cm_date_label := l\<rparr>) = (f m)\<lparr>cm_date_label := l\<rparr>)"

lemma labels_map: "plain_change f \<Longrightarrow> assign_date_labels CL (map f xs) = map f (assign_date_labels CL xs)"
proof -
  assume f: "plain_change f"
  have "label_days CL p (map f xs) = map f (label_days CL p xs)" for p
    using f by (induction xs arbitrary: p) (simp_all add: plain_change_def Let_def)
  then show ?thesis by (simp add: assign_date_labels_def)
qed

lemma shown_change:
  assumes "plain_change f" "visible ch d' = map g (visible ch d)"
    and "\<And>m. m \<in> set (visible ch d) \<Longrightarrow> msg_view CL me (row_message d' (g m)) = f (msg_view CL me (row_message d m))"
  shows "shown CL d' me ch k = map f (shown CL d me ch k)"
proof -
  have "map (msg_view CL me \<circ> row_message d') (drop k (visible ch d')) = map f (map (msg_view CL me \<circ> row_message d) (drop k (visible ch d)))"
    using assms(3) by (auto simp: assms(2) drop_map dest: in_set_dropD)
  then show ?thesis by (simp only: shown_def labels_map [OF assms(1)])
qed

lemma shown_ids:
  assumes "chat_db d"
  shows "map cm_id (shown CL d me ch k) = map (\<lambda>m. word_of_int (m_id m)) (drop k (visible ch d))"
    "distinct (map cm_id (shown CL d me ch k))"
proof -
  show ids: "map cm_id (shown CL d me ch k) = map (\<lambda>m. word_of_int (m_id m)) (drop k (visible ch d))"
    by (simp add: shown_def labels_ids msg_view_def row_message_def)
  have "sorted_wrt (\<lambda>a b. m_id a < m_id b) (visible ch d)" using assms by (intro visible_sorted) (simp add: chat_db_def)
  then have "sorted_wrt (\<lambda>a b. m_id a < m_id b) (drop k (visible ch d))" by (metis append_take_drop_id sorted_wrt_append)
  then have "sorted_wrt (<) (map m_id (drop k (visible ch d)))" by (simp add: sorted_wrt_map)
  then have "distinct (map m_id (drop k (visible ch d)))" by (simp add: strict_sorted_iff)
  moreover have "inj_on (\<lambda>m. word_of_int (m_id m) :: u64) (set (drop k (visible ch d)))"
  proof (rule inj_onI)
    fix a b
    assume ab: "a \<in> set (drop k (visible ch d))" "b \<in> set (drop k (visible ch d))" "(word_of_int (m_id a) :: u64) = word_of_int (m_id b)"
    then have "a \<in> set (messages d)" "b \<in> set (messages d)" by (auto simp: visible_rows dest: in_set_dropD)
    then have "m_id a = m_id b" using row_id_inject [OF assms] sint_message_id [of d b] ab(3) assms by (metis chat_db_def)
    then show "a = b" using ab(1,2) \<open>distinct (map m_id (drop k (visible ch d)))\<close> by (auto simp: distinct_map dest: inj_onD)
  qed
  ultimately show "distinct (map cm_id (shown CL d me ch k))" unfolding ids by (simp add: distinct_map)
qed

section \<open>Pins\<close>

definition pinned :: "bool \<Rightarrow> u64 \<Rightarrow> message_row \<Rightarrow> message_row" where
  "pinned b mid m = (if m_id m = sint mid then m\<lparr>m_pinned := b\<rparr> else m)"

lemma pinned_sel [simp]:
  "m_id (pinned b mid m) = m_id m" "m_channel_id (pinned b mid m) = m_channel_id m" "m_deleted (pinned b mid m) = m_deleted m"
  by (simp_all add: pinned_def)

definition pin_db :: "bool \<Rightarrow> u64 \<Rightarrow> database \<Rightarrow> database" where
  "pin_db b mid d = (if b then pin_message mid d else unpin_message mid d)"

lemma visible_pin: "visible ch (pin_db b mid d) = map (pinned b mid) (visible ch d)"
proof (cases b)
  case True
  have "filter (\<lambda>m. m_channel_id m = sint ch \<and> \<not> m_deleted m)
        (map (\<lambda>m. if m_id m = sint mid \<and> \<not> m_deleted m then m\<lparr>m_pinned := True\<rparr> else m) ms)
      = map (pinned True mid) (filter (\<lambda>m. m_channel_id m = sint ch \<and> \<not> m_deleted m) ms)" for ms
    by (induction ms) (auto simp: pinned_def)
  then show ?thesis using True sort_map [of m_id "pinned True mid"] by (simp add: visible_def pin_db_def pin_message_def)
next
  case False
  then have "messages (pin_db b mid d) = map (pinned b mid) (messages d)" by (simp add: pin_db_def unpin_message_def pinned_def)
  then show ?thesis using sort_map [of m_id "pinned b mid"] filter_map_same [of "\<lambda>m. m_channel_id m = sint ch \<and> \<not> m_deleted m" "pinned b mid"]
    by (simp add: visible_def)
qed

lemma row_message_pin:
  "row_message (pin_db b mid d) (pinned b mid m) = (if m_id m = sint mid then (row_message d m)\<lparr>wm_pinned := flag8 b\<rparr> else row_message d m)"
  by (simp add: row_message_def get_attachments_for_message_def pin_db_def pin_message_def unpin_message_def pinned_def)

lemma chat_db_pin: "chat_db d \<Longrightarrow> chat_db (pin_db b mid d)"
proof -
  assume d: "chat_db d"
  have "msg_fits (row_message (pin_db b mid d) x) \<and> sint (word_of_int (m_channel_id x) :: u32) = m_channel_id x"
    if x: "x \<in> set (messages (pin_db b mid d))" for x
  proof -
    obtain m where m: "m \<in> set (messages d)" "x = m \<or> x = pinned b mid m"
      using x by (fastforce simp: pin_db_def pin_message_def unpin_message_def pinned_def split: if_splits)
    then have "msg_fits (row_message d m)" "sint (word_of_int (m_channel_id m) :: u32) = m_channel_id m"
      using d by (auto simp: chat_db_def rows_fit_def)
    moreover have "row_message (pin_db b mid d) m = row_message d m"
      by (simp add: row_message_def get_attachments_for_message_def pin_db_def pin_message_def unpin_message_def)
    ultimately show ?thesis using m(2) by (auto simp: row_message_pin msg_fits_def)
  qed
  moreover have "db_inv (pin_db b mid d)" using d message_flags_inv(2,3) by (simp add: pin_db_def chat_db_def)
  moreover have "small_ids (pin_db b mid d)" using d
    by (simp add: chat_db_def small_ids_def pin_db_def pin_message_def unpin_message_def)
  ultimately show ?thesis by (simp add: chat_db_def rows_fit_def)
qed

text \<open>What the server broadcasts for a pin: the row without its files.\<close>

definition pin_news :: "bool \<Rightarrow> database \<Rightarrow> message_row \<Rightarrow> wire_message" where
  "pin_news b d m = (row_message d m)\<lparr>wm_pinned := flag8 b, wm_attachments := []\<rparr>"

lemma write_row_pin: "write_row m (flag8 b) 0 [] = msg_bytes (pin_news b d m)"
  by (simp add: write_row_def write_message_def writer_defs msg_bytes_def pin_news_def row_message_def enc_string_def)

lemma handle_pin_cases:
  fixes b :: bool
  defines "handle \<equiv> (if b then handle_pin else handle_unpin)"
  shows "handle i (write_u64 mid []) st = st \<or> (\<exists>m. get_message mid (db st) = Some m \<and> handle i (write_u64 mid []) st
    = send_all s_authenticated CHAT_MESSAGE (msg_bytes (pin_news b (db st) m)) (st\<lparr>db := pin_db b mid (db st)\<rparr>))"
proof -
  obtain r where r: "read_u64 (new_reader (write_u64 mid [])) = (mid, r)" "ahead r []"
    using ahead_u64 [of "new_reader (write_u64 mid [])" mid "[]"] ahead_new by (auto simp: writer_defs)
  show ?thesis using r write_row_pin [of _ b "db st"]
    by (auto simp: handle_def handle_pin_def handle_unpin_def pin_db_def flag8_def Let_def split: option.splits)
qed

text \<open>A pin is heard.\<close>

definition pin_view :: "bool \<Rightarrow> u64 \<Rightarrow> chat_message \<Rightarrow> chat_message" where
  "pin_view b mid x = (if cm_id x = mid then x\<lparr>cm_pinned := b\<rparr> else x)"

lemma pin_view_plain: "plain_change (pin_view b mid)"
  by (simp add: plain_change_def pin_view_def)

lemma shown_pin:
  assumes "chat_db d"
  shows "shown CL (pin_db b mid d) me ch k = map (pin_view b mid) (shown CL d me ch k)"
proof (rule shown_change [OF pin_view_plain visible_pin])
  fix m assume "m \<in> set (visible ch d)"
  then have "(word_of_int (m_id m) :: u64) = mid \<longleftrightarrow> m_id m = sint mid" using row_id_inject [OF assms] by (simp add: visible_rows)
  then show "msg_view CL me (row_message (pin_db b mid d) (pinned b mid m)) = pin_view b mid (msg_view CL me (row_message d m))"
    unfolding row_message_pin by (simp add: msg_view_def pin_view_def flag8_def) (simp add: row_message_def)
qed

lemma shown_length: "length (shown CL d me ch k) = length (visible ch d) - k"
  using arg_cong [OF labels_ids, of length] by (simp add: shown_def)

lemma shown_drop: "assign_date_labels CL (drop n (shown CL d me ch k)) = shown CL d me ch (k + n)"
  using labels_drop [of CL n "map (msg_view CL me \<circ> row_message d) (drop k (visible ch d))" "[]"]
  by (simp add: shown_def drop_map add.commute)

lemma shown_row:
  assumes "chat_db d" "x \<in> set (shown CL d me ch k)" "cm_id x = mid" "get_message mid d = Some m"
  shows "unlabel x = msg_view CL me (row_message d m) \<and> m \<in> set (visible ch d)"
proof -
  have "unlabel x \<in> set (map unlabel (shown CL d me ch k))" using assms(2) by simp
  then obtain y where y: "y \<in> set (visible ch d)" "unlabel x = msg_view CL me (row_message d y)"
    by (auto simp: shown_def unlabel_assign dest: in_set_dropD)
  have m: "m \<in> set (messages d)" "m_id m = sint mid" using assms(4) by (auto simp: get_message_def find_Some_iff)
  have "cm_id (unlabel x) = mid" using assms(3) by simp
  then have "m_id y = sint mid" using y row_id_inject [OF assms(1)] by (auto simp: msg_view_def row_message_def visible_rows)
  moreover have "distinct (map m_id (messages d))" using assms(1) by (auto simp: chat_db_def db_inv_def ids_ok_def)
  ultimately have "y = m" using m y(1) by (metis distinct_map inj_onD visible_rows)
  then show ?thesis using y by simp
qed

text \<open>The condition for a pin to leave the view whole: in the open channel the message is displayed and has no files.\<close>

definition pin_seen :: "u64 \<Rightarrow> database \<Rightarrow> chat_ui \<Rightarrow> bool" where
  "pin_seen mid d c \<longleftrightarrow> (case get_message mid d of None \<Rightarrow> True | Some m \<Rightarrow> word_of_int (m_channel_id m) = ct_active c \<longrightarrow>
     get_attachments_for_message mid d = [] \<and> mid \<in> cm_id ` set (ct_messages c))"

lemma shown_pinned:
  assumes d: "chat_db d" and m: "get_message mid d = Some m" and bare: "get_attachments_for_message mid d = []"
    and seen: "mid \<in> cm_id ` set (shown CL d me ch k)"
  shows "map unlabel (put_message (msg_view CL me (pin_news b d m)) (shown CL d me ch k)) = map unlabel (shown CL (pin_db b mid d) me ch k)"
proof -
  let ?n = "msg_view CL me (pin_news b d m)" and ?xs = "shown CL d me ch k"
  have "m \<in> set (messages d)" "m_id m = sint mid" using m by (auto simp: get_message_def find_Some_iff)
  then have id: "(word_of_int (m_id m) :: u64) = mid" using row_id_inject [OF d] by simp
  then have n: "cm_id ?n = mid" "unlabel ?n = ?n" by (simp_all add: msg_view_def pin_news_def row_message_def unlabel_def)
  have row: "?n = (msg_view CL me (row_message d m))\<lparr>cm_pinned := b\<rparr>"
    using bare id by (simp add: msg_view_def pin_news_def row_message_def flag8_def)
  have "put_message ?n ?xs = map (\<lambda>x. if cm_id x = mid then ?n else x) ?xs"
    using seen update_first_map [OF shown_ids(2) [OF d]] by (auto simp: put_message_def n list_ex_iff)
  moreover have "unlabel (if cm_id x = mid then ?n else x) = unlabel (pin_view b mid x)" if "x \<in> set ?xs" for x
  proof (cases "cm_id x = mid")
    case True
    have "unlabel (pin_view b mid x) = (unlabel x)\<lparr>cm_pinned := b\<rparr>" using True by (simp add: pin_view_def unlabel_def)
    then show ?thesis using True shown_row [OF d that True m] n(2) row by simp
  qed (simp add: pin_view_def)
  ultimately show ?thesis unfolding shown_pin [OF d] by simp
qed

lemma pin_heard:
  assumes d: "chat_db d" and m: "get_message mid d = Some m" and s: "in_sync CL d c" and seen: "pin_seen mid d c"
  shows "in_sync CL (pin_db b mid d) (handle_chat_message CL CHAT_MESSAGE (msg_bytes (pin_news b d m)) c)"
proof -
  let ?ch = "ct_active c" and ?me = "ct_user c" and ?d' = "pin_db b mid d" and ?n = "msg_view CL (ct_user c) (pin_news b d m)"
  obtain k where k: "k \<le> length (visible ?ch d)" "ct_messages c = shown CL d ?me ?ch k" "0 < k \<longrightarrow> ct_more c"
    using s by (auto simp: in_sync_def)
  have "m \<in> set (messages d)" using m by (auto simp: get_message_def find_Some_iff)
  then have fits: "msg_fits (pin_news b d m)" using d by (auto simp: chat_db_def rows_fit_def pin_news_def msg_fits_def)
  have ch: "wm_channel (pin_news b d m) = word_of_int (m_channel_id m)" by (simp add: pin_news_def row_message_def)
  have len: "length (visible ?ch ?d') = length (visible ?ch d)" by (simp add: visible_pin)
  show ?thesis
  proof (cases "word_of_int (m_channel_id m) = ?ch")
    case False
    have "pin_view b mid x = x" if "x \<in> set (shown CL d ?me ?ch k)" for x
    proof -
      have "cm_id x \<noteq> mid" using shown_row [OF d that _ m] False row_channel_inject [OF d \<open>m \<in> set (messages d)\<close>, of ?ch]
        by (auto simp: visible_rows)
      then show ?thesis by (simp add: pin_view_def)
    qed
    then have "shown CL ?d' ?me ?ch k = shown CL d ?me ?ch k" unfolding shown_pin [OF d] by (simp add: map_idI)
    then have "in_sync CL ?d' c" using k len by (auto simp: in_sync_def)
    moreover have "handle_chat_message CL CHAT_MESSAGE (msg_bytes (pin_news b d m)) c = mark_unread (word_of_int (m_channel_id m)) (upload_pending ?n c)"
      using message_taken [OF fits, of CL c] False ch by (simp add: handle_chat_message_def Let_def)
    ultimately show ?thesis by (simp add: in_sync_def mark_unread_def)
  next
    case True
    define ms where "ms = put_message ?n (ct_messages c)"
    define n where "n = length ms - MAX_SHOWN"
    have "map unlabel ms = map unlabel (shown CL ?d' ?me ?ch k)"
      using shown_pinned [OF d m] seen True m unfolding ms_def k(2) by (simp add: pin_seen_def k(2))
    then have "map unlabel (drop n ms) = map unlabel (drop n (shown CL ?d' ?me ?ch k))" "length ms = length (shown CL ?d' ?me ?ch k)"
      by (simp add: drop_map [symmetric], metis length_map)
    then have run: "assign_date_labels CL (drop n ms) = shown CL ?d' ?me ?ch (k + n)" "k + n \<le> length (visible ?ch ?d')"
      using labels_blind [of "drop n ms" "drop n (shown CL ?d' ?me ?ch k)" CL] k(1) len
      by (simp add: shown_drop, simp add: n_def shown_length)
    have "show_message CL ?n (upload_pending ?n c) = (upload_pending ?n c)\<lparr>ct_messages := assign_date_labels CL (drop n ms),
        ct_more := (ct_more c \<or> length ms > MAX_SHOWN)\<rparr>"
      by (simp add: show_message_def ms_def [symmetric] n_def Let_def)
    moreover have "handle_chat_message CL CHAT_MESSAGE (msg_bytes (pin_news b d m)) c = show_message CL ?n (upload_pending ?n c)"
      using message_taken [OF fits, of CL c] True ch by (simp add: handle_chat_message_def Let_def)
    ultimately show ?thesis using run k(3) by (auto simp: in_sync_def n_def intro!: exI [of _ "k + n"])
  qed
qed

text \<open>What the condition leaves out, as the code does it. In the open channel, a message with files loses them, and one
  that is not displayed is shown as the newest.\<close>

lemma pin_shown:
  assumes d: "chat_db d" and m: "get_message mid d = Some m" and ch: "word_of_int (m_channel_id m) = ct_active c"
  shows "\<exists>n. ct_messages (handle_chat_message CL CHAT_MESSAGE (msg_bytes (pin_news b d m)) c)
      = assign_date_labels CL (drop n (put_message (msg_view CL (ct_user c) (pin_news b d m)) (ct_messages c)))
    \<and> n \<le> length (ct_messages c)" "cm_id (msg_view CL me (pin_news b d m)) = mid"
proof -
  let ?n = "msg_view CL (ct_user c) (pin_news b d m)"
  have row: "m \<in> set (messages d)" "m_id m = sint mid" using m by (auto simp: get_message_def find_Some_iff)
  then show "cm_id (msg_view CL me (pin_news b d m)) = mid" using row_id_inject [OF d]
    by (simp add: msg_view_def pin_news_def row_message_def)
  have "msg_fits (pin_news b d m)" using row d by (auto simp: chat_db_def rows_fit_def pin_news_def msg_fits_def)
  from message_taken [OF this, of CL c] have "handle_chat_message CL CHAT_MESSAGE (msg_bytes (pin_news b d m)) c = show_message CL ?n (upload_pending ?n c)"
    using ch by (simp add: handle_chat_message_def pin_news_def row_message_def Let_def)
  moreover have "length (update_first P f xs) = length xs" for P f and xs :: "chat_message list" by (induction xs) auto
  then have "length (put_message ?n (ct_messages c)) \<le> Suc (length (ct_messages c))" by (simp add: put_message_def)
  ultimately show "\<exists>n. ct_messages (handle_chat_message CL CHAT_MESSAGE (msg_bytes (pin_news b d m)) c)
      = assign_date_labels CL (drop n (put_message ?n (ct_messages c))) \<and> n \<le> length (ct_messages c)"
    by (intro exI [of _ "length (put_message ?n (ct_messages c)) - 30"]) (auto simp: show_message_def MAX_SHOWN_def Let_def)
qed

lemma pin_loses_files:
  assumes "chat_db d" "get_message mid d = Some m" "word_of_int (m_channel_id m) = ct_active c" "distinct (map cm_id (ct_messages c))"
    and x: "x \<in> set (ct_messages (handle_chat_message CL CHAT_MESSAGE (msg_bytes (pin_news b d m)) c))" "cm_id x = mid"
  shows "cm_attachments x = []"
proof -
  let ?n = "msg_view CL (ct_user c) (pin_news b d m)"
  have n: "cm_id ?n = mid" "cm_attachments ?n = []" using pin_shown(2) [OF assms(1-3)] by (simp_all add: msg_view_def pin_news_def)
  obtain k where "ct_messages (handle_chat_message CL CHAT_MESSAGE (msg_bytes (pin_news b d m)) c)
      = assign_date_labels CL (drop k (put_message ?n (ct_messages c)))" using pin_shown(1) [OF assms(1-3)] by blast
  then have "unlabel x \<in> set (map unlabel (drop k (put_message ?n (ct_messages c))))"
    using x(1) by (metis image_eqI list.set_map unlabel_assign)
  then obtain y where y: "y \<in> set (put_message ?n (ct_messages c))" "unlabel x = unlabel y" by (auto dest: in_set_dropD)
  moreover have "y = ?n" if "cm_id y = mid"
    using that y(1) update_first_map [OF assms(4), of mid "\<lambda>_. ?n"] by (auto simp: put_message_def n list_ex_iff split: if_splits)
  ultimately have "unlabel x = unlabel ?n" using x(2) by (metis unlabel_simps(2))
  from arg_cong [OF this, of cm_attachments] show ?thesis using n(2) by (simp add: unlabel_def)
qed

lemma unseen_pin_comes_last:
  assumes "chat_db d" "get_message mid d = Some m" "word_of_int (m_channel_id m) = ct_active c" "mid \<notin> cm_id ` set (ct_messages c)"
  shows "cm_id (last (ct_messages (handle_chat_message CL CHAT_MESSAGE (msg_bytes (pin_news b d m)) c))) = mid"
proof -
  let ?n = "msg_view CL (ct_user c) (pin_news b d m)"
  obtain k where k: "ct_messages (handle_chat_message CL CHAT_MESSAGE (msg_bytes (pin_news b d m)) c)
      = assign_date_labels CL (drop k (put_message ?n (ct_messages c)))" "k \<le> length (ct_messages c)"
    using pin_shown(1) [OF assms(1-3)] by blast
  have "put_message ?n (ct_messages c) = ct_messages c @ [?n]"
    using assms(4) pin_shown(2) [OF assms(1-3)] by (auto simp: put_message_def list_ex_iff)
  then have ids: "map cm_id (ct_messages (handle_chat_message CL CHAT_MESSAGE (msg_bytes (pin_news b d m)) c))
      = map cm_id (drop k (ct_messages c)) @ [mid]"
    using k pin_shown(2) [OF assms(1-3)] by (simp add: labels_ids)
  then show ?thesis by (metis last_map last_snoc map_is_Nil_conv snoc_eq_iff_butlast)
qed

section \<open>Files\<close>

definition arrived :: "u64 \<Rightarrow> attachment_row \<Rightarrow> attachment_row" where
  "arrived aid a = (if a_id a = sint aid then a\<lparr>a_uploaded := True\<rparr> else a)"

lemma arrived_sel [simp]: "a_id (arrived aid a) = a_id a" "a_message_id (arrived aid a) = a_message_id a"
  by (simp_all add: arrived_def)

lemma attachments_arrived:
  "get_attachments_for_message i (mark_attachment_uploaded aid d) = map (arrived aid) (get_attachments_for_message i d)"
proof -
  have "attachments (mark_attachment_uploaded aid d) = map (arrived aid) (attachments d)"
    by (simp add: mark_attachment_uploaded_def arrived_def)
  then show ?thesis
    using sort_map [of a_id "arrived aid"] filter_map_same [of "\<lambda>a. a_message_id a = sint i" "arrived aid"]
    by (simp add: get_attachments_for_message_def)
qed

lemma row_attachment_arrived:
  "row_attachment (arrived aid a) = (if a_id a = sint aid then (case row_attachment a of (i, n, sz, t, u) \<Rightarrow> (i, n, sz, t, 1)) else row_attachment a)"
  by (simp add: row_attachment_def arrived_def flag8_def)

lemma chat_db_arrived: "chat_db d \<Longrightarrow> chat_db (mark_attachment_uploaded aid d)"
proof -
  assume d: "chat_db d"
  have "att_fits (row_attachment (arrived aid a)) = att_fits (row_attachment a)" for a
    by (simp add: row_attachment_def arrived_def att_fits_def)
  then have "msg_fits (row_message (mark_attachment_uploaded aid d) m) = msg_fits (row_message d m)" for m
    by (simp add: row_message_def msg_fits_def attachments_arrived list_all_iff)
  moreover have "messages (mark_attachment_uploaded aid d) = messages d" by (simp add: mark_attachment_uploaded_def)
  moreover have "message_seq (mark_attachment_uploaded aid d) = message_seq d" by (simp add: mark_attachment_uploaded_def)
  ultimately show ?thesis using d attachment_ops_inv(1) by (simp add: chat_db_def rows_fit_def small_ids_def)
qed

text \<open>The client marks the attachment of the message.\<close>

definition file_view :: "u64 \<Rightarrow> u64 \<Rightarrow> chat_message \<Rightarrow> chat_message" where
  "file_view mid aid x = (if cm_id x = mid
     then x\<lparr>cm_attachments := update_first (\<lambda>a. ca_id a = aid) (\<lambda>a. a\<lparr>ca_uploaded := True\<rparr>) (cm_attachments x)\<rparr> else x)"

lemma file_view_plain: "plain_change (file_view mid aid)"
  by (simp add: plain_change_def file_view_def)

lemma ready_taken:
  assumes "distinct (map cm_id (ct_messages c))"
  shows "handle_chat_message CL CHAT_FILE_READY (le64 mid @ le64 aid) c = c\<lparr>ct_messages := map (file_view mid aid) (ct_messages c)\<rparr>"
proof -
  obtain r1 where 1: "read_u64 (new_reader (le64 mid @ le64 aid)) = (mid, r1)" "ahead r1 (le64 aid)" using ahead_u64 ahead_new by blast
  then obtain r2 where "read_u64 r1 = (aid, r2)" "ahead r2 []" using ahead_u64 [of r1 aid "[]"] by auto
  then show ?thesis using 1(1) update_first_map [OF assms]
    by (simp add: handle_chat_message_def on_chat_file_ready_def file_view_def Let_def)
qed

lemma attachment_ids:
  assumes "chat_db d" "attachment_seq d < 2 ^ 63" "a \<in> set (get_attachments_for_message i d)"
  shows "(word_of_int (a_id a) :: u64) = aid \<longleftrightarrow> a_id a = sint aid"
proof -
  have "a \<in> set (attachments d)" using assms(3) by (simp add: get_attachments_for_message_def)
  then have "1 \<le> a_id a" "a_id a \<le> attachment_seq d" using assms(1) by (auto simp: chat_db_def db_inv_def ids_ok_def)
  then have "sint (word_of_int (a_id a) :: u64) = a_id a" using assms(2) by (intro sint_small) auto
  then show ?thesis by auto
qed

lemma attachments_distinct:
  assumes "chat_db d" "attachment_seq d < 2 ^ 63"
  shows "distinct (map (\<lambda>a. word_of_int (a_id a) :: u64) (get_attachments_for_message i d))"
proof -
  let ?as = "get_attachments_for_message i d"
  have "distinct (map a_id (attachments d))" using assms(1) by (auto simp: chat_db_def db_inv_def ids_ok_def)
  then have "distinct (map a_id ?as)" by (auto simp: get_attachments_for_message_def distinct_map intro: inj_on_subset)
  moreover have "inj_on (\<lambda>a. word_of_int (a_id a) :: u64) (set ?as)"
  proof (rule inj_onI)
    fix a b assume "a \<in> set ?as" "b \<in> set ?as" "(word_of_int (a_id a) :: u64) = word_of_int (a_id b)"
    moreover from this have "a_id a = a_id b" using attachment_ids [OF assms] by metis
    ultimately show "a = b" using \<open>distinct (map a_id ?as)\<close> by (auto simp: distinct_map dest: inj_onD)
  qed
  ultimately show ?thesis by (simp add: distinct_map)
qed

lemma shown_arrived:
  assumes d: "chat_db d" "attachment_seq d < 2 ^ 63" and att: "get_attachment aid d = Some att"
  shows "shown CL (mark_attachment_uploaded aid d) me ch k = map (file_view (word_of_int (a_message_id att)) aid) (shown CL d me ch k)"
proof (rule shown_change [OF file_view_plain, of _ _ "\<lambda>m. m"])
  let ?d' = "mark_attachment_uploaded aid d" and ?mid = "word_of_int (a_message_id att) :: u64"
  show "visible ch ?d' = map (\<lambda>m. m) (visible ch d)" by (simp add: visible_def mark_attachment_uploaded_def)
  fix m assume "m \<in> set (visible ch d)"
  then have m: "m \<in> set (messages d)" by (simp add: visible_rows)
  have a: "att \<in> set (attachments d)" "a_id att = sint aid" using att by (auto simp: get_attachment_def find_Some_iff)
  then obtain y where "y \<in> set (messages d)" "a_message_id att = m_id y" using d(1) by (auto simp: chat_db_def db_inv_def)
  then have "sint ?mid = a_message_id att" using sint_message_id [of d y] d(1) by (simp add: chat_db_def)
  then have id: "(word_of_int (m_id m) :: u64) = ?mid \<longleftrightarrow> m_id m = a_message_id att" using row_id_inject [OF d(1) m] by simp
  let ?as = "get_attachments_for_message (word_of_int (m_id m)) d"
  let ?f = "\<lambda>a. if ca_id a = aid then a\<lparr>ca_uploaded := True\<rparr> else a"
  show "msg_view CL me (row_message ?d' m) = file_view ?mid aid (msg_view CL me (row_message d m))"
  proof (cases "m_id m = a_message_id att")
    case True
    have "map ca_id (map (att_view CL \<circ> row_attachment) ?as) = map (\<lambda>a. word_of_int (a_id a)) ?as"
      by (simp add: att_view_def row_attachment_def)
    then have "distinct (map ca_id (map (att_view CL \<circ> row_attachment) ?as))" using attachments_distinct [OF d] by (simp only:)
    note update_first_map [OF this, of aid "\<lambda>a. a\<lparr>ca_uploaded := True\<rparr>"]
    moreover have "att_view CL (row_attachment (arrived aid a)) = ?f (att_view CL (row_attachment a))" if "a \<in> set ?as" for a
      using attachment_ids [OF d that, of aid] by (simp add: arrived_def row_attachment_def att_view_def flag8_def)
    ultimately have "map (att_view CL \<circ> row_attachment) (map (arrived aid) ?as)
        = update_first (\<lambda>a. ca_id a = aid) (\<lambda>a. a\<lparr>ca_uploaded := True\<rparr>) (map (att_view CL \<circ> row_attachment) ?as)" by simp
    then show ?thesis using True id by (simp add: msg_view_def row_message_def file_view_def attachments_arrived comp_def)
  next
    case False
    have "arrived aid x = x" if x: "x \<in> set ?as" for x
    proof -
      have "x \<in> set (attachments d)" "a_message_id x = m_id m"
        using x sint_message_id [of d m] d(1) m by (auto simp: get_attachments_for_message_def chat_db_def)
      moreover have "distinct (map a_id (attachments d))" using d(1) by (auto simp: chat_db_def db_inv_def ids_ok_def)
      ultimately have "a_id x \<noteq> sint aid" using False a by (metis distinct_map inj_onD)
      then show ?thesis by (simp add: arrived_def)
    qed
    then have "map (arrived aid) ?as = ?as" by (rule map_idI)
    then show ?thesis using False id by (simp add: msg_view_def row_message_def file_view_def attachments_arrived)
  qed
qed

lemma ready_heard:
  assumes d: "chat_db d" "attachment_seq d < 2 ^ 63" and att: "get_attachment aid d = Some att" and s: "in_sync CL d c"
  shows "in_sync CL (mark_attachment_uploaded aid d) (handle_chat_message CL CHAT_FILE_READY (le64 (word_of_int (a_message_id att)) @ le64 aid) c)"
proof -
  obtain k where k: "k \<le> length (visible (ct_active c) d)" "ct_messages c = shown CL d (ct_user c) (ct_active c) k" "0 < k \<longrightarrow> ct_more c"
    using s by (auto simp: in_sync_def)
  have "visible (ct_active c) (mark_attachment_uploaded aid d) = visible (ct_active c) d"
    by (simp add: visible_def mark_attachment_uploaded_def)
  moreover have "distinct (map cm_id (ct_messages c))" unfolding k(2) by (rule shown_ids(2) [OF d(1)])
  ultimately show ?thesis using k shown_arrived [OF d att] by (auto simp: ready_taken in_sync_def)
qed

lemma deliver_append: "deliver CL sid (xs @ ys) c = deliver CL sid ys (deliver CL sid xs c)"
  by (simp add: deliver_def)

lemma broadcast_after:
  assumes "tuned_in sid st"
  shows "deliver CL sid (out (send_all s_authenticated ty p st)) c = handle_chat_message CL ty p (deliver CL sid (out st) c)"
  using assms by (simp add: send_all_out tuned_in_def deliver_append deliver_broadcast)

lemma process_upload_cases:
  "process_upload cfg e ev st = st \<or> (\<exists>att path fs. get_attachment (fu_attachment ev) (db st) = Some att \<and> process_upload cfg e ev st
    = send_all s_authenticated CHAT_FILE_READY (le64 (word_of_int (a_message_id att)) @ le64 (fu_attachment ev))
        (st\<lparr>files := fs, out := out st @ [WriteFile path (fu_data ev)], db := mark_attachment_uploaded (fu_attachment ev) (db st)\<rparr>))"
  by (auto simp: process_upload_def Server_State.emit_def writer_defs Let_def split: option.splits)

lemma upload_step:
  assumes ok: "chat_ok CL sid (c, st)" and n: "attachment_seq (db st) < 2 ^ 63"
  shows "let st' = process_upload cfg e ev (st\<lparr>out := []\<rparr>) in chat_ok CL sid (deliver CL sid (out st') c, st')"
proof -
  let ?st = "st\<lparr>out := []\<rparr>" and ?aid = "fu_attachment ev"
  have base: "chat_db (db st)" "tuned_in sid st" "in_sync CL (db st) c" using ok by (simp_all add: chat_ok_def)
  consider "process_upload cfg e ev ?st = ?st" | att path fs where "get_attachment ?aid (db st) = Some att"
    "process_upload cfg e ev ?st = send_all s_authenticated CHAT_FILE_READY (le64 (word_of_int (a_message_id att)) @ le64 ?aid)
        (?st\<lparr>files := fs, out := [WriteFile path (fu_data ev)], db := mark_attachment_uploaded ?aid (db st)\<rparr>)"
    using process_upload_cases [of cfg e ev ?st] by auto
  then show ?thesis
  proof cases
    case 1
    then show ?thesis using base tuned_in_same [of ?st st sid] by (simp add: chat_ok_def Let_def)
  next
    case 2
    let ?st1 = "?st\<lparr>files := fs, out := [WriteFile path (fu_data ev)], db := mark_attachment_uploaded ?aid (db st)\<rparr>"
    have "tuned_in sid ?st1" using base(2) by (simp add: tuned_in_def)
    note heard = broadcast_after [OF this]
    have "deliver CL sid (out ?st1) c = c" by (simp add: deliver_def)
    then show ?thesis using ready_heard [OF base(1) n 2(1) base(3)] chat_db_arrived [OF base(1)] heard base(2)
      unfolding 2(2) by (simp add: chat_ok_def Let_def) (simp add: send_all_out tuned_in_def)
  qed
qed

section \<open>Text channels\<close>

text \<open>Messages of the server that leave what is shown.\<close>

definition quiet :: "effect \<Rightarrow> bool" where
  "quiet x \<longleftrightarrow> (case x of Control i ty p \<Rightarrow> ty \<notin> {CHAT_MESSAGE, CHAT_HISTORY_RESP, CHAT_MESSAGE_DELETED, CHAT_FILE_READY} | _ \<Rightarrow> True)"

definition same_view :: "chat_ui \<Rightarrow> chat_ui \<Rightarrow> bool" where
  "same_view c c' \<longleftrightarrow> ct_messages c' = ct_messages c \<and> ct_active c' = ct_active c \<and> ct_user c' = ct_user c \<and> ct_more c' = ct_more c"

lemma same_view_refl [simp]: "same_view c c"
  by (simp add: same_view_def)

lemma same_view_trans [trans]: "same_view c c' \<Longrightarrow> same_view c' c'' \<Longrightarrow> same_view c c''"
  by (simp add: same_view_def)

lemma quiet_taken: "quiet (Control i ty p) \<Longrightarrow> same_view c (handle_chat_message CL ty p c)"
  by (auto simp: quiet_def same_view_def handle_chat_message_def on_chat_channel_list_def split: ctype.split prod.split)

lemma quiet_delivered: "list_all quiet xs \<Longrightarrow> same_view c (deliver CL sid xs c)"
proof (induction xs arbitrary: c)
  case (Cons x xs)
  define c1 where "c1 = (case x of Control i ty d \<Rightarrow> if i = sid then handle_chat_message CL ty d c else c | _ \<Rightarrow> c)"
  have "same_view c c1" using Cons.prems quiet_taken by (cases x) (auto simp: c1_def)
  moreover have "same_view c1 (deliver CL sid xs c1)" using Cons by simp
  moreover have "deliver CL sid (x # xs) c = deliver CL sid xs c1" by (simp add: deliver_def c1_def)
  ultimately show ?case using same_view_trans [of c c1] by simp
qed (simp add: deliver_def)

text \<open>The server only says something.\<close>

definition talks :: "srv \<Rightarrow> srv \<Rightarrow> bool" where
  "talks st st' \<longleftrightarrow> same_server st st' \<and> (\<exists>xs. out st' = out st @ xs \<and> list_all quiet xs)"

lemma talks_refl [simp]: "talks st st"
  by (simp add: talks_def)

lemma talks_trans: "talks st st' \<Longrightarrow> talks st' st'' \<Longrightarrow> talks st st''"
  by (fastforce simp: talks_def same_server_def)

lemma talks_send: "quiet (Control i ty p) \<Longrightarrow> talks st (send_to i ty p st)"
  by (simp add: talks_def same_server_def send_to_def Server_State.emit_def)

lemma talks_fold: "(\<And>i st. talks st (f i st)) \<Longrightarrow> talks st (fold f xs st)"
  by (induction xs arbitrary: st) (auto intro: talks_trans)

lemma talks_channels: "talks st (send_error i m code st)" "talks st (admin_result i m (send_list_to_all send_text_channel_list st))"
  unfolding send_error_def admin_result_def send_list_to_all_def
  by (auto simp: quiet_def send_text_channel_list_def Let_def intro!: talks_send talks_fold talks_trans [OF talks_fold talks_send])

lemma create_channel_cases:
  "talks st (handle_create_text_channel i p st)
   \<or> (\<exists>name. talks (st\<lparr>db := snd (create_text_channel name 0 (db st))\<rparr>) (handle_create_text_channel i p st))"
proof -
  obtain name r where r: "read_string (new_reader p) = (name, r)" by fastforce
  obtain ok d where d: "create_text_channel name 0 (db st) = (ok, d)" by fastforce
  have "talks st (handle_create_text_channel i p st) \<or> talks (st\<lparr>db := d\<rparr>) (handle_create_text_channel i p st)"
    using r d by (simp add: handle_create_text_channel_def talks_channels Let_def)
  then show ?thesis using d by (metis snd_conv)
qed

lemma delete_channel_cases:
  "talks st (handle_delete_text_channel i (write_u32 ch []) st)
   \<or> talks (st\<lparr>db := delete_text_channel ch (db st)\<rparr>) (handle_delete_text_channel i (write_u32 ch []) st)"
proof -
  obtain r where "read_u32 (new_reader (write_u32 ch [])) = (ch, r)" "ahead r []"
    using ahead_u32 [of "new_reader (write_u32 ch [])" ch "[]"] ahead_new by (auto simp: writer_defs)
  then show ?thesis by (simp add: handle_delete_text_channel_def talks_channels Let_def)
qed

lemma in_sync_view: "same_view c c' \<Longrightarrow> in_sync CL d c' = in_sync CL d c"
  by (simp add: same_view_def in_sync_def)

lemma row_message_cong: "attachments d' = attachments d \<Longrightarrow> row_message d' m = row_message d m"
  by (simp add: row_message_def get_attachments_for_message_def)

lemma same_rows:
  assumes "messages d' = messages d" "attachments d' = attachments d"
  shows "in_sync CL d' c = in_sync CL d c" "chat_db d \<Longrightarrow> db_inv d' \<Longrightarrow> message_seq d' = message_seq d \<Longrightarrow> chat_db d'"
proof -
  have "visible ch d' = visible ch d" for ch using assms(1) by (simp add: visible_def)
  moreover have rows: "row_message d' = row_message d" by (rule ext) (rule row_message_cong [OF assms(2)])
  ultimately show "in_sync CL d' c = in_sync CL d c" by (simp add: in_sync_def shown_def)
  show "chat_db d'" if "chat_db d" "db_inv d'" "message_seq d' = message_seq d"
    using that assms by (simp add: chat_db_def rows_fit_def small_ids_def rows)
qed

lemma deleted_channel_rows:
  assumes "db_inv d" "small_ids d" "m \<in> set (messages d)" "m_channel_id m \<noteq> sint ch"
  shows "row_message (delete_text_channel ch d) m = row_message d m"
proof -
  have id: "sint (word_of_int (m_id m) :: u64) = m_id m" using sint_message_id [OF assms(1-3)] by simp
  have "distinct (map m_id (messages d))" using assms(1) by (auto simp: db_inv_def ids_ok_def)
  then have "m_id x \<noteq> m_id m" if "x \<in> set (messages d)" "m_channel_id x = sint ch" for x
    using that assms(3,4) by (metis distinct_map inj_onD)
  then have "filter (\<lambda>a. a_message_id a = m_id m) (attachments (delete_text_channel ch d)) = filter (\<lambda>a. a_message_id a = m_id m) (attachments d)"
    by (auto simp: delete_text_channel_def Let_def intro!: filter_cong)
  then show ?thesis by (simp add: row_message_def get_attachments_for_message_def id)
qed

lemma chat_db_delete_channel: "chat_db d \<Longrightarrow> chat_db (delete_text_channel ch d)"
proof -
  assume d: "chat_db d"
  have "msg_fits (row_message (delete_text_channel ch d) m) \<and> sint (word_of_int (m_channel_id m) :: u32) = m_channel_id m"
    if "m \<in> set (messages (delete_text_channel ch d))" for m
  proof -
    have m: "m \<in> set (messages d)" "m_channel_id m \<noteq> sint ch" using that by (auto simp: delete_text_channel_def Let_def)
    then show ?thesis using d deleted_channel_rows [of d m ch] by (auto simp: chat_db_def rows_fit_def)
  qed
  moreover have "small_ids (delete_text_channel ch d)" using d by (simp add: chat_db_def small_ids_def delete_text_channel_def Let_def)
  ultimately show ?thesis using d delete_text_channel_inv by (simp add: chat_db_def rows_fit_def)
qed

lemma in_sync_delete_channel:
  assumes d: "chat_db d" and ch: "ch \<noteq> ct_active c"
  shows "in_sync CL (delete_text_channel ch d) c = in_sync CL d c"
proof -
  let ?d' = "delete_text_channel ch d" and ?a = "ct_active c"
  have ne: "sint ?a \<noteq> sint ch" using ch signed_word_eqI by blast
  then have vis: "visible ?a ?d' = visible ?a d"
    by (auto simp: visible_def delete_text_channel_def Let_def intro!: arg_cong [of _ _ "sort_key m_id"] filter_cong)
  have "row_message ?d' m = row_message d m" if "m \<in> set (visible ?a d)" for m
    using that ne d by (intro deleted_channel_rows) (auto simp: visible_rows chat_db_def)
  then have "shown CL ?d' (ct_user c) ?a k = shown CL d (ct_user c) ?a k" for k
    using in_set_dropD by (fastforce simp: shown_def vis intro!: arg_cong [of _ _ "assign_date_labels CL"])
  then show ?thesis by (simp add: in_sync_def vis)
qed

text \<open>The server talks on changed tables.\<close>

lemma talk_step:
  assumes ok: "chat_ok CL sid (c, st)" and t: "talks (st\<lparr>out := [], db := d\<rparr>) st'" and d: "chat_db d" "in_sync CL d c"
  shows "chat_ok CL sid (deliver CL sid (out st') c, st')"
proof -
  have st': "db st' = d" "sessions st' = sessions st" "objs st' = objs st" "list_all quiet (out st')"
    using t by (auto simp: talks_def same_server_def)
  then have "in_sync CL d (deliver CL sid (out st') c)" using in_sync_view [OF quiet_delivered] d(2) by blast
  then show ?thesis using ok st' d(1) tuned_in_same [of st' st sid] by (simp add: chat_ok_def)
qed

text \<open>When the open channel itself is deleted, the client keeps showing its messages, and none is left on the server.\<close>

lemma deleted_channel_stays_shown:
  "same_view c (handle_chat_message CL CHAT_CHANNEL_LIST p c)" "visible ch (delete_text_channel ch d) = []"
  by (rule quiet_taken) (simp_all add: quiet_def visible_def delete_text_channel_def Let_def)

section \<open>The steps of a conversation\<close>

text \<open>What the user does in the window alone: nothing of it is told to the server.\<close>

inductive chat_use :: "chat_lib \<Rightarrow> (chat_ui \<Rightarrow> chat_ui) \<Rightarrow> bool" for CL where
  search_bar: "chat_use CL toggle_search"
| channel_form: "chat_use CL show_create_text_channel_form"
| channel_form_off: "chat_use CL cancel_create_text_channel"
| attach: "chat_use CL (on_attach_file CL file_size dialog)"
| detach: "chat_use CL (remove_pending_file p)"
| download: "chat_use CL (on_download_file aid)"
| downloaded: "chat_use CL (on_file_downloaded aid d)"
| save: "chat_use CL (tick_downloads dlg)"
| menu: "chat_use CL (on_message_context_menu offered mid)"
| link: "chat_use CL (open_url url)"
| rights: "chat_use CL (chat_rights r)"

definition tells :: "chat_ui \<Rightarrow> bool" where
  "tells c \<longleftrightarrow> (\<exists>ty p. ChatSent ty p \<in> set (ct_out c))"

lemma save_view: "same_view c (fold (save_download dlg) dls c) \<and> tells (fold (save_download dlg) dls c) = tells c"
proof (induction dls arbitrary: c)
  case (Cons dl dls)
  have "same_view c (save_download dlg dl c) \<and> tells (save_download dlg dl c) = tells c"
    by (auto simp: save_download_def chat_do_def same_view_def tells_def split: option.split)
  then show ?case using Cons.IH [of "save_download dlg dl c"] same_view_trans by (simp only: fold_simps(2)) blast
qed simp

lemma use_view: "chat_use CL act \<Longrightarrow> same_view c (act c) \<and> tells (act c) = tells c"
proof (induction rule: chat_use.induct)
  case (save dlg)
  then show ?case using save_view [of "c\<lparr>ct_downloads := []\<rparr>" dlg "ct_downloads c"]
    by (simp add: tick_downloads_def same_view_def tells_def)
qed (auto simp: toggle_search_def show_create_text_channel_form_def cancel_create_text_channel_def on_attach_file_def remove_pending_file_def
    on_download_file_def on_file_downloaded_def on_message_context_menu_def open_url_def on_open_url_def chat_rights_def chat_do_def
    same_view_def tells_def split: option.split)

lemma nothing_taken: "(\<And>ty p. ChatSent ty p \<notin> set xs) \<Longrightarrow> server_takes cfg L e sid xs st = st"
  by (induction xs) (auto simp: server_takes_def split: chat_out.split)

lemma nothing_told: "\<not> tells c \<Longrightarrow> server_takes cfg L e sid (ct_out c) st = st"
  by (rule nothing_taken) (auto simp: tells_def)

lemma use_step:
  assumes ok: "chat_ok CL sid (c, st)" and use: "chat_use CL act"
  shows "chat_ok CL sid (exchange cfg L e CL sid act (c, st))"
proof -
  let ?c = "act (c\<lparr>ct_out := []\<rparr>)"
  have c: "same_view (c\<lparr>ct_out := []\<rparr>) ?c" "\<not> tells ?c" using use_view [OF use, of "c\<lparr>ct_out := []\<rparr>"] by (simp_all add: tells_def)
  have "chat_ok CL sid (?c\<lparr>ct_out := []\<rparr>, st\<lparr>out := []\<rparr>)"
    using c(1) by (intro chat_ok_quiet chat_ok_ui [OF ok]) (simp_all add: same_view_def)
  then show ?thesis using nothing_told [OF c(2)] by (simp add: exchange_def Let_def)
qed

text \<open>Pins, by the user or by another session.\<close>

lemma pin_step:
  assumes ok: "chat_ok CL sid (c, st)" and seen: "pin_seen mid (db st) c"
  shows "let st' = (if b then handle_pin else handle_unpin) i (write_u64 mid []) (st\<lparr>out := []\<rparr>)
    in chat_ok CL sid (deliver CL sid (out st') c, st')"
proof -
  let ?st = "st\<lparr>out := []\<rparr>" let ?st' = "(if b then handle_pin else handle_unpin) i (write_u64 mid []) ?st"
  have base: "chat_db (db st)" "tuned_in sid st" "in_sync CL (db st) c" using ok by (simp_all add: chat_ok_def)
  consider "?st' = ?st" | m where "get_message mid (db st) = Some m"
    "?st' = send_all s_authenticated CHAT_MESSAGE (msg_bytes (pin_news b (db st) m)) (?st\<lparr>db := pin_db b mid (db st)\<rparr>)"
    using handle_pin_cases [of b i mid ?st] by auto
  then show ?thesis
  proof cases
    case 1
    then show ?thesis using base tuned_in_same [of ?st st sid] by (simp add: chat_ok_def Let_def)
  next
    case 2
    have "tuned_in sid (?st\<lparr>db := pin_db b mid (db st)\<rparr>)" "out (?st\<lparr>db := pin_db b mid (db st)\<rparr>) = []"
      using base(2) by (simp_all add: tuned_in_def)
    note heard = broadcast_heard [OF this]
    show ?thesis using pin_heard [OF base(1) 2(1) base(3) seen, of b] chat_db_pin [OF base(1), of b mid] base(2)
      unfolding 2(2) Let_def by (simp add: chat_ok_def heard) (simp add: send_all_out tuned_in_def)
  qed
qed

lemma own_pin_step:
  assumes ok: "chat_ok CL sid (c, st)" and seen: "pin_seen mid (db st) c"
  shows "chat_ok CL sid (exchange cfg L e CL sid ((if b then on_pin_message else on_unpin_message) mid) (c, st))"
proof -
  let ?act = "(if b then on_pin_message else on_unpin_message) mid" and ?ty = "if b then CHAT_PIN else CHAT_UNPIN"
  have tuned: "tuned_in sid st" using ok by (simp add: chat_ok_def)
  have act: "?act (c\<lparr>ct_out := []\<rparr>) = c\<lparr>ct_out := [ChatSent ?ty (write_u64 mid [])]\<rparr>"
    by (simp add: on_pin_message_def on_unpin_message_def chat_do_def)
  have out: "ct_out (?act (c\<lparr>ct_out := []\<rparr>)) = [ChatSent ?ty (write_u64 mid [])]" unfolding act by simp
  have "chat_ok CL sid (c\<lparr>ct_out := []\<rparr>, st)" by (intro chat_ok_ui [OF ok]) simp_all
  moreover have "pin_seen mid (db st) (c\<lparr>ct_out := []\<rparr>)" using seen by (simp add: pin_seen_def split: option.splits)
  ultimately show ?thesis using pin_step [of CL sid "c\<lparr>ct_out := []\<rparr>" st mid b sid] tuned_session(1) [OF tuned]
    unfolding exchange_one [where act = ?act, OF out tuned] unfolding act by (auto simp: handle_message_def Let_def)
qed

text \<open>Text channels are made and deleted.\<close>

lemma create_channel_step:
  assumes ok: "chat_ok CL sid (c, st)"
  shows "let st' = handle_create_text_channel i p (st\<lparr>out := []\<rparr>) in chat_ok CL sid (deliver CL sid (out st') c, st')"
proof -
  let ?st' = "handle_create_text_channel i p (st\<lparr>out := []\<rparr>)"
  have base: "chat_db (db st)" "in_sync CL (db st) c" using ok by (simp_all add: chat_ok_def)
  consider "talks (st\<lparr>out := [], db := db st\<rparr>) ?st'" | name where "talks (st\<lparr>out := [], db := snd (create_text_channel name 0 (db st))\<rparr>) ?st'"
    using create_channel_cases [of "st\<lparr>out := []\<rparr>" i p] by auto
  then show ?thesis
  proof cases
    case 1
    then show ?thesis using talk_step [OF ok _ base] by (simp add: Let_def)
  next
    case 2
    let ?d = "snd (create_text_channel name 0 (db st))"
    have d: "messages ?d = messages (db st)" "attachments ?d = attachments (db st)" "message_seq ?d = message_seq (db st)" "db_inv ?d"
      using base(1) create_text_channel_inv by (auto simp: create_text_channel_def chat_db_def)
    then show ?thesis using talk_step [OF ok 2] same_rows [OF d(1,2)] base by (simp add: Let_def)
  qed
qed

lemma delete_channel_step:
  assumes ok: "chat_ok CL sid (c, st)" and ch: "ch \<noteq> ct_active c"
  shows "let st' = handle_delete_text_channel i (write_u32 ch []) (st\<lparr>out := []\<rparr>) in chat_ok CL sid (deliver CL sid (out st') c, st')"
proof -
  let ?st' = "handle_delete_text_channel i (write_u32 ch []) (st\<lparr>out := []\<rparr>)"
  have base: "chat_db (db st)" "in_sync CL (db st) c" using ok by (simp_all add: chat_ok_def)
  consider "talks (st\<lparr>out := [], db := db st\<rparr>) ?st'" | "talks (st\<lparr>out := [], db := delete_text_channel ch (db st)\<rparr>) ?st'"
    using delete_channel_cases [of "st\<lparr>out := []\<rparr>" i ch] by auto
  then show ?thesis
    using talk_step [OF ok _ base] talk_step [OF ok _ chat_db_delete_channel [OF base(1)]] in_sync_delete_channel [OF base(1) ch] base(2)
    by cases (auto simp: Let_def)
qed

text \<open>The server stores a file that a session has uploaded.\<close>

definition file_arrives :: "config \<Rightarrow> env \<Rightarrow> chat_lib \<Rightarrow> u32 \<Rightarrow> file_upload \<Rightarrow> chat_ui \<times> srv \<Rightarrow> chat_ui \<times> srv" where
  "file_arrives cfg e CL sid ev w = (let st = process_upload cfg e ev ((snd w)\<lparr>out := []\<rparr>) in (deliver CL sid (out st) (fst w), st))"

text \<open>What can happen while a text channel is open. The user opens another one, pages back, types and attaches, sends,
  deletes, pins, searches, asks for pinned messages, makes a text channel, and uses the window; other sessions
  send, delete, pin, ask and upload; text channels are made and deleted; and the server does whatever leaves
  the messages, the files and this session. Pins are steps where the code keeps the view whole (\<open>pin_seen\<close>), and
  the deletion of a text channel is one when another channel is open.\<close>

inductive chat_step :: "config \<Rightarrow> libs \<Rightarrow> chat_lib \<Rightarrow> u32 \<Rightarrow> chat_ui \<times> srv \<Rightarrow> chat_ui \<times> srv \<Rightarrow> bool"
  for cfg L CL sid where
  selects: "chat_step cfg L CL sid w (exchange cfg L e CL sid (on_select_channel ch) w)"
| pages: "chat_step cfg L CL sid w (exchange cfg L e CL sid on_load_more_history w)"
| types: "chat_step cfg L CL sid (c, st) (c\<lparr>ct_compose := txt, ct_files := fs, ct_query := q, ct_new_name := nm\<rparr>, st)"
| uses: "chat_use CL act \<Longrightarrow> chat_step cfg L CL sid w (exchange cfg L e CL sid act w)"
| sends: "next_message (db (snd w)) < 2 ^ 63 \<Longrightarrow>
    send_fits (s_username (objs (snd w) sid)) (ct_compose (fst w)) (read_uploads read_file (ct_files (fst w))) \<Longrightarrow>
    chat_step cfg L CL sid w (exchange cfg L e CL sid (on_send_message read_file) w)"
| deletes: "chat_step cfg L CL sid w (exchange cfg L e CL sid (on_delete_message mid) w)"
| pins: "pin_seen mid (db (snd w)) (fst w) \<Longrightarrow>
    chat_step cfg L CL sid w (exchange cfg L e CL sid ((if b then on_pin_message else on_unpin_message) mid) w)"
| searches: "chat_step cfg L CL sid w (exchange cfg L e CL sid on_do_search w)"
| asks_pinned: "chat_step cfg L CL sid w (exchange cfg L e CL sid on_request_pinned w)"
| shows_pinned: "chat_step cfg L CL sid w (exchange cfg L e CL sid toggle_pinned w)"
| makes_channel: "chat_step cfg L CL sid w (exchange cfg L e CL sid on_create_text_channel w)"
| other_sends: "i \<in> set (sessions (snd w)) \<Longrightarrow> s_authenticated (objs (snd w) i) \<Longrightarrow> next_message (db (snd w)) < 2 ^ 63 \<Longrightarrow>
    send_fits (s_username (objs (snd w) i)) txt ups \<Longrightarrow>
    chat_step cfg L CL sid w (overhear cfg L e CL sid i CHAT_SEND (chat_send_payload ch txt ups) w)"
| other_deletes: "i \<in> set (sessions (snd w)) \<Longrightarrow> chat_step cfg L CL sid w (overhear cfg L e CL sid i CHAT_DELETE (write_u64 mid []) w)"
| other_pins: "i \<in> set (sessions (snd w)) \<Longrightarrow> pin_seen mid (db (snd w)) (fst w) \<Longrightarrow>
    chat_step cfg L CL sid w (overhear cfg L e CL sid i (if b then CHAT_PIN else CHAT_UNPIN) (write_u64 mid []) w)"
| other_asks: "i \<in> set (sessions (snd w)) \<Longrightarrow> i \<noteq> sid \<Longrightarrow> ty \<in> {CHAT_HISTORY_REQ, CHAT_SEARCH, CHAT_PINNED_REQ} \<Longrightarrow>
    chat_step cfg L CL sid w (overhear cfg L e CL sid i ty p w)"
| uploads: "attachment_seq (db (snd w)) < 2 ^ 63 \<Longrightarrow> chat_step cfg L CL sid w (file_arrives cfg e CL sid ev w)"
| channel_made: "i \<in> set (sessions (snd w)) \<Longrightarrow> chat_step cfg L CL sid w (overhear cfg L e CL sid i ADMIN_CREATE_TEXT_CHANNEL p w)"
| channel_deleted: "i \<in> set (sessions (snd w)) \<Longrightarrow> ch \<noteq> ct_active (fst w) \<Longrightarrow>
    chat_step cfg L CL sid w (overhear cfg L e CL sid i ADMIN_DELETE_TEXT_CHANNEL (write_u32 ch []) w)"
| elsewhere: "messages (db st') = messages (db st) \<Longrightarrow> attachments (db st') = attachments (db st) \<Longrightarrow>
    message_seq (db st') = message_seq (db st) \<Longrightarrow> db_inv (db st') \<Longrightarrow> tuned_in sid st' \<Longrightarrow> chat_step cfg L CL sid (c, st) (c, st')"

lemma own_channel_step:
  assumes ok: "chat_ok CL sid (c, st)"
  shows "chat_ok CL sid (exchange cfg L e CL sid on_create_text_channel (c, st))"
proof (cases "\<not> ct_auth c \<or> ct_new_name c = []")
  case True
  then have "on_create_text_channel (c\<lparr>ct_out := []\<rparr>) = c\<lparr>ct_out := []\<rparr>" by (auto simp: on_create_text_channel_def)
  from exchange_none [where act = on_create_text_channel, OF this] show ?thesis using chat_ok_quiet [OF ok] by simp
next
  case False
  let ?c1 = "on_create_text_channel (c\<lparr>ct_out := []\<rparr>)"
  have tuned: "tuned_in sid st" using ok by (simp add: chat_ok_def)
  have out: "ct_out ?c1 = [ChatSent ADMIN_CREATE_TEXT_CHANNEL (write_string (ct_new_name c) [])]"
    using False by (simp add: on_create_text_channel_def chat_do_def)
  have "chat_ok CL sid (?c1\<lparr>ct_out := []\<rparr>, st)"
    using False by (intro chat_ok_ui [OF ok]) (simp_all add: on_create_text_channel_def chat_do_def)
  from create_channel_step [OF this, of sid] show ?thesis using tuned_session(1) [OF tuned]
    by (auto simp: exchange_one [where act = on_create_text_channel, OF out tuned] handle_message_def Let_def)
qed

lemma toggle_pinned_step:
  assumes ok: "chat_ok CL sid (c, st)"
  shows "chat_ok CL sid (exchange cfg L e CL sid toggle_pinned (c, st))"
proof -
  let ?c = "c\<lparr>ct_show_pinned := \<not> ct_show_pinned c\<rparr>"
  have c: "chat_ok CL sid (?c, st)" by (intro chat_ok_ui [OF ok]) simp_all
  show ?thesis
  proof (cases "ct_show_pinned c")
    case True
    then have "exchange cfg L e CL sid toggle_pinned (c, st) = (?c\<lparr>ct_out := []\<rparr>, st\<lparr>out := []\<rparr>)"
      by (simp add: exchange_def server_takes_def toggle_pinned_def Let_def)
    then show ?thesis using chat_ok_quiet [OF c] by simp
  next
    case False
    then have "exchange cfg L e CL sid toggle_pinned (c, st) = exchange cfg L e CL sid on_request_pinned (?c, st)"
      by (simp add: exchange_def toggle_pinned_def on_request_pinned_def chat_do_def Let_def)
    then show ?thesis using own_question_step(2) [OF c] by simp
  qed
qed

lemma chat_step_ok: "chat_step cfg L CL sid w w' \<Longrightarrow> chat_ok CL sid w \<Longrightarrow> chat_ok CL sid w'"
proof (induction rule: chat_step.induct)
  case (selects w e ch)
  then show ?case by (intro select_step) (simp_all add: chat_ok_def)
next
  case (types c st "txt" fs q nm)
  then show ?case by (auto intro: chat_ok_ui)
next
  case (uses act w e)
  then show ?case using use_step [of CL sid "fst w" "snd w"] by simp
next
  case (other_sends i w "txt" ups e ch)
  then show ?case using chat_send_step [of CL sid "fst w" "snd w" i "txt" ups cfg e ch]
    by (auto simp: overhear_def handle_message_def get_session_def Let_def)
next
  case (other_deletes i w e mid)
  then show ?case using chat_delete_step [of CL sid "fst w" "snd w" i mid]
    by (auto simp: overhear_def handle_message_def get_session_def Let_def)
next
  case (pins mid w e b)
  then show ?case using own_pin_step [of CL sid "fst w" "snd w" mid cfg L e b] by simp
next
  case (other_pins i w mid e b)
  then show ?case using pin_step [of CL sid "fst w" "snd w" mid b i]
    by (auto simp: overhear_def handle_message_def get_session_def Let_def)
next
  case (uploads w e ev)
  then show ?case using upload_step [of CL sid "fst w" "snd w" cfg e ev] by (simp add: file_arrives_def Let_def)
next
  case (channel_made i w e p)
  then show ?case using create_channel_step [of CL sid "fst w" "snd w" i p]
    by (auto simp: overhear_def handle_message_def get_session_def Let_def)
next
  case (channel_deleted i w ch e)
  then show ?case using delete_channel_step [of CL sid "fst w" "snd w" ch i]
    by (auto simp: overhear_def handle_message_def get_session_def Let_def)
next
  case (elsewhere st' st c)
  then show ?case using same_rows [of "db st'" "db st"] by (simp add: chat_ok_def)
next
  case (sends w read_file e)
  then show ?case using own_send_step [of CL sid "fst w" "snd w"] by simp
next
  case (deletes w e mid)
  then show ?case using own_delete_step [of CL sid "fst w" "snd w"] by simp
next
  case (searches w e)
  then show ?case using own_question_step(1) [of CL sid "fst w" "snd w"] by simp
next
  case (asks_pinned w e)
  then show ?case using own_question_step(2) [of CL sid "fst w" "snd w"] by simp
next
  case (shows_pinned w e)
  then show ?case using toggle_pinned_step [of CL sid "fst w" "snd w"] by simp
next
  case (makes_channel w e)
  then show ?case using own_channel_step [of CL sid "fst w" "snd w"] by simp
next
  case (other_asks i w ty e p)
  then show ?case using other_question_step [of CL sid "fst w" "snd w" i ty] by simp
next
  case (pages w e)
  then show ?case by (rule load_step)
qed

end
