(* ===== verification/Chat_End_To_End.thy ===== *)
theory Chat_End_To_End
  imports Chat_Updates
begin

text \<open>
  What a user of the chat can rely on, over every conversation (\<open>Chat_Updates.chat_step\<close>): what is shown is a run of
  the channel, paging back shows all of it, and a message sent arrives with its files.
\<close>

section \<open>The view is a run of the channel\<close>

lemma chat_reach_ok: "(chat_step cfg L CL sid)\<^sup>*\<^sup>* w w' \<Longrightarrow> chat_ok CL sid w \<Longrightarrow> chat_ok CL sid w'"
  by (induction rule: rtranclp_induct) (auto intro: chat_step_ok)

text \<open>(C12) The chat a client shows is the channel. From the moment a text channel is opened, whatever the client showed
  before, along every run of the steps of \<open>Chat_Updates.chat_step\<close>, each exchange answered before the next
  (the user opens channels, pages back, writes, attaches, sends with or without files, deletes, pins and
  unpins, searches, asks for pinned messages, makes text channels; others send, delete, pin, unpin, ask and
  upload files; text channels are made and deleted; anything happens on the server that is not chat): the
  messages shown are the undeleted messages the server stores for the open channel, from some point on to the
  newest, none missing, repeated or out of order, each with the sender, text, links, time, pin and files
  stored for it, under day labels; and when older ones exist, paging back is offered. Three things are no
  steps of a run, because the code does not keep the view then: pinning or unpinning a message of the open
  channel that has files (\<open>pin_loses_files\<close>) or is not displayed (\<open>unseen_pin_comes_last\<close>), deleting the text
  channel that is open (\<open>deleted_channel_stays_shown\<close>), and the server's purge of old messages and files, which
  it tells nobody. A run ends when the user leaves the text channel or the session ends.\<close>

theorem chat_shows_the_channel:
  assumes "chat_db (db st)" "tuned_in sid st"
    and "(chat_step cfg L CL sid)\<^sup>*\<^sup>* (exchange cfg L e CL sid (on_select_channel ch) (c0, st)) (c, st')"
  shows "\<exists>k \<le> length (visible (ct_active c) (db st')).
     ct_messages c = assign_date_labels CL (map (\<lambda>m. msg_view CL (ct_user c) (row_message (db st') m)) (drop k (visible (ct_active c) (db st'))))
     \<and> (0 < k \<longrightarrow> ct_more c)"
proof -
  have "in_sync CL (db st') c" using chat_reach_ok [OF assms(3) select_step] assms(1,2) by (simp add: chat_ok_def)
  then show ?thesis by (simp add: in_sync_def shown_def comp_def)
qed

section \<open>Paging back\<close>

definition run_from :: "chat_lib \<Rightarrow> u32 \<Rightarrow> chat_ui \<times> srv \<Rightarrow> nat \<Rightarrow> bool" where
  "run_from CL sid w k \<longleftrightarrow> chat_ok CL sid w \<and> k < length (visible (ct_active (fst w)) (db (snd w)))
     \<and> ct_messages (fst w) = shown CL (db (snd w)) (ct_user (fst w)) (ct_active (fst w)) k"

definition same_chat :: "chat_ui \<times> srv \<Rightarrow> chat_ui \<times> srv \<Rightarrow> bool" where
  "same_chat w w' \<longleftrightarrow> db (snd w') = db (snd w) \<and> ct_active (fst w') = ct_active (fst w) \<and> ct_user (fst w') = ct_user (fst w)"

lemma same_chat_trans: "same_chat w w' \<Longrightarrow> same_chat w' w'' \<Longrightarrow> same_chat w w''"
  by (simp add: same_chat_def)

lemma load_once:
  assumes run: "run_from CL sid w k"
  shows "let w' = exchange cfg L e CL sid on_load_more_history w
     in run_from CL sid w' (k - 30) \<and> same_chat w w' \<and> ct_more (fst w') = (30 < k)"
proof -
  let ?w = "exchange cfg L e CL sid on_load_more_history w"
  have ok: "chat_ok CL sid w" and k: "k < length (visible (ct_active (fst w)) (db (snd w)))"
    and m: "ct_messages (fst w) = shown CL (db (snd w)) (ct_user (fst w)) (ct_active (fst w)) k"
    using run by (simp_all add: run_from_def)
  obtain j where j: "j \<le> length (visible (ct_active (fst w)) (db (snd w)))"
    "ct_messages (fst w) = shown CL (db (snd w)) (ct_user (fst w)) (ct_active (fst w)) j" "0 < j \<longrightarrow> ct_more (fst w)"
    using ok by (auto simp: chat_ok_def in_sync_def)
  have "length (shown CL d me ch i) = length (visible ch d) - i" for d me ch i
    by (simp add: shown_def) (metis labels_ids length_drop length_map)
  then have "j = k" using j(1,2) m k by (metis diff_diff_cancel less_imp_le)
  then have more: "\<not> ct_more (fst w) \<Longrightarrow> k = 0" using j(3) by auto
  obtain c' st' where x: "?w = (c', st')" by fastforce
  note l = load_exchange [OF ok less_imp_le [OF k] m x]
  then have same: "same_chat w ?w" by (simp add: same_chat_def x same_server_def)
  have "ct_messages c' = shown CL (db (snd w)) (ct_user (fst w)) (ct_active (fst w)) (k - 30) \<and> ct_more c' = (30 < k)"
    using l m more k by (cases "ct_more (fst w)") auto
  then show ?thesis using load_step [OF ok, of cfg L e] same k by (simp add: run_from_def same_chat_def x Let_def)
qed

lemma load_runs:
  "run_from CL sid w k \<Longrightarrow> let w' = (exchange cfg L e CL sid on_load_more_history ^^ Suc n) w
     in run_from CL sid w' (k - 30 * Suc n) \<and> same_chat w w' \<and> ct_more (fst w') = (30 * Suc n < k)"
proof (induction n arbitrary: w k)
  case 0
  then show ?case using load_once [of CL sid w k cfg L e] by simp
next
  case (Suc n)
  let ?f = "exchange cfg L e CL sid on_load_more_history"
  have "run_from CL sid (?f w) (k - 30)" "same_chat w (?f w)" using load_once [OF Suc.prems, of cfg L e] by (simp_all add: Let_def)
  moreover have "(?f ^^ Suc (Suc n)) w = (?f ^^ Suc n) (?f w)" by (simp add: funpow_swap1)
  moreover have "run_from CL sid ((?f ^^ Suc n) (?f w)) (k - 30 - 30 * Suc n) \<and> same_chat (?f w) ((?f ^^ Suc n) (?f w))
      \<and> ct_more (fst ((?f ^^ Suc n) (?f w))) = (30 * Suc n < k - 30)"
    using Suc.IH [OF calculation(1)] unfolding Let_def .
  moreover have "k - 30 - 30 * Suc n = k - 30 * Suc (Suc n)" "(30 * Suc n < k - 30) = (30 * Suc (Suc n) < k)" by auto
  ultimately show ?case using same_chat_trans [of w "?f w"] by (simp only: Let_def simp_thms)
qed

text \<open>(C27) The whole history of a channel can be read. From every state a conversation reaches after a channel was opened
  (\<open>Chat_Updates.chat_step\<close>: all of it but pins of messages with files or not displayed, the deletion of the open
  channel and purges, after which the view is not that of the channel) and in which some message of the open
  channel is shown, asking for older messages as often as there are pages of 30 shows all undeleted
  messages of the channel, in order, and then nothing more is offered. The server's tables are not changed by it.\<close>

theorem paging_shows_everything:
  assumes "chat_db (db st)" "tuned_in sid st"
    and "(chat_step cfg L CL sid)\<^sup>*\<^sup>* (exchange cfg L e0 CL sid (on_select_channel ch) (c0, st)) (c, st')"
    and "ct_messages c \<noteq> []" and "length (visible (ct_active c) (db st')) \<le> 30 * n"
  shows "let (c'', st'') = (exchange cfg L e CL sid on_load_more_history ^^ n) (c, st')
     in ct_messages c'' = assign_date_labels CL (map (\<lambda>m. msg_view CL (ct_user c) (row_message (db st') m)) (visible (ct_active c) (db st')))
        \<and> \<not> ct_more c'' \<and> ct_active c'' = ct_active c \<and> db st'' = db st'"
proof -
  let ?w = "(c, st')" let ?f = "exchange cfg L e CL sid on_load_more_history" let ?vs = "visible (ct_active c) (db st')"
  have ok: "chat_ok CL sid ?w" using chat_reach_ok [OF assms(3) select_step] assms(1,2) by simp
  then obtain k where k: "k \<le> length ?vs" "ct_messages c = shown CL (db st') (ct_user c) (ct_active c) k"
    by (auto simp: chat_ok_def in_sync_def)
  then have "k < length ?vs" using assms(4) shown_empty [OF k(1), of CL "ct_user c"] by (simp add: le_less)
  then have run: "run_from CL sid ?w k" using ok k(2) by (simp add: run_from_def)
  obtain i where n: "n = Suc i" using assms(5) \<open>k < length ?vs\<close> by (cases n) auto
  obtain c'' st'' where x: "(?f ^^ n) ?w = (c'', st'')" by fastforce
  have "k - 30 * Suc i = 0" "\<not> 30 * Suc i < k" using assms(5) k(1) by (simp_all add: n)
  then have "run_from CL sid (c'', st'') 0 \<and> same_chat ?w (c'', st'') \<and> \<not> ct_more c''"
    using load_runs [where cfg = cfg and L = L and e = e and n = i, OF run]
    unfolding Let_def x [unfolded n] fst_conv by (simp only: simp_thms)
  then have "ct_messages c'' = shown CL (db st') (ct_user c) (ct_active c) 0 \<and> \<not> ct_more c'' \<and> ct_active c'' = ct_active c
      \<and> db st'' = db st'" by (simp add: run_from_def same_chat_def)
  then show ?thesis unfolding x by (simp add: shown_def comp_def)
qed


section \<open>Sending\<close>

lemma last_shown:
  assumes d: "chat_db d" "next_message d < 2 ^ 63" and fits: "send_fits (s_username s) txt ups" and s: "in_sync CL d c"
    and ch: "ct_active c = ch"
  shows "unlabel (last (ct_messages (handle_chat_message CL CHAT_MESSAGE
      (msg_bytes (new_message d ch (s_user_id s) (s_username s) txt t ups)) c)))
    = msg_view CL (ct_user c) (new_message d ch (s_user_id s) (s_username s) txt t ups)"
proof -
  let ?w = "new_message d ch (s_user_id s) (s_username s) txt t ups" let ?m = "msg_view CL (ct_user c) ?w"
  have "wm_channel ?w = ct_active (upload_pending ?m c)" by (simp add: ch new_message_def)
  then have "handle_chat_message CL CHAT_MESSAGE (msg_bytes ?w) c = show_message CL ?m (upload_pending ?m c)"
    using message_taken [OF new_message_fits [OF fits], of CL d ch "s_user_id s" t c] by (simp add: handle_chat_message_def Let_def)
  moreover have "put_message ?m (ct_messages c) = ct_messages c @ [?m]" by (rule fresh_message [OF d s])
  ultimately obtain n where n: "ct_messages (handle_chat_message CL CHAT_MESSAGE (msg_bytes ?w) c)
      = assign_date_labels CL (drop n (ct_messages c @ [?m]))" "n \<le> length (ct_messages c)"
    by (auto simp: show_message_def Let_def MAX_SHOWN_def intro: that [of 0] split: if_splits)
  have "last (map unlabel (assign_date_labels CL xs)) = unlabel (last xs)" if "xs \<noteq> []" for xs
    using that by (simp add: unlabel_assign last_map)
  moreover have "assign_date_labels CL xs \<noteq> []" if "xs \<noteq> []" for xs
    using that by (metis labels_ids list.map_disc_iff)
  ultimately show ?thesis using n by (simp add: last_map)
qed

lemma uploads_started:
  assumes "msg_fits w" "wm_sender w = ct_user c" "ct_out c = []"
  shows "ct_out (handle_chat_message CL CHAT_MESSAGE (msg_bytes w) c)
      = map (\<lambda>(a, pu). UploadFile (fst a) (pu_data pu)) (zip (wm_attachments w) (ct_uploads c))
    \<and> ct_uploads (handle_chat_message CL CHAT_MESSAGE (msg_bytes w) c) = []"
proof -
  let ?m = "msg_view CL (ct_user c) w" let ?c1 = "upload_pending ?m c"
  have "zip (cm_attachments ?m) (ct_uploads c) = map (\<lambda>(a, pu). (att_view CL a, pu)) (zip (wm_attachments w) (ct_uploads c))"
    by (simp add: msg_view_def zip_map1)
  moreover have "ca_id (att_view CL a) = fst a" for a by (cases a) (simp add: att_view_def)
  ultimately have "ct_out ?c1 = map (\<lambda>(a, pu). UploadFile (fst a) (pu_data pu)) (zip (wm_attachments w) (ct_uploads c))
      \<and> ct_uploads ?c1 = []"
    using assms(2,3) by (auto simp: upload_pending_def fold_uploads comp_def case_prod_beta msg_view_def)
  moreover have "ct_out (show_message CL m c') = ct_out c'" "ct_uploads (show_message CL m c') = ct_uploads c'"
    "ct_out (mark_unread h c') = ct_out c'" "ct_uploads (mark_unread h c') = ct_uploads c'" for m c' h
    by (simp_all add: show_message_def mark_unread_def Let_def)
  ultimately show ?thesis using message_taken [OF assms(1), of CL c] by (simp add: handle_chat_message_def Let_def)
qed

lemma not_refused:
  assumes "chat_db d" "next_message d < 2 ^ 63" "\<exists>u \<in> set (users d). u_id u = sint (s_user_id s)"
    and "get_text_channel ch d \<noteq> None" "int (length txt) \<le> max_message_length (chat cfg)"
  shows "\<not> refused cfg d ch s txt t"
proof -
  have "\<exists>c \<in> set (text_channels d). tc_id c = sint ch" using assms(4) by (auto simp: get_text_channel_def find_None_iff)
  moreover have "(word_of_int (next_message d) :: u64) \<noteq> 0"
    using new_id [OF assms(1,2)] assms(1) by (auto simp: chat_db_def db_inv_def ids_ok_def next_message_def)
  ultimately show ?thesis using assms(3-5) by (auto simp: refused_def insert_message_def next_message_def)
qed

text \<open>What a client with the channel open sees last.\<close>

lemma last_seen:
  assumes "chat_db d" "next_message d < 2 ^ 63" "send_fits (s_username s) txt ups" "in_sync CL d c" "ct_active c = ch"
  shows "let m = last (ct_messages (handle_chat_message CL CHAT_MESSAGE
      (msg_bytes (new_message d ch (s_user_id s) (s_username s) txt t ups)) c))
    in cm_text m = txt \<and> cm_name m = s_username s \<and> cm_own m = (s_user_id s = ct_user c)"
proof -
  have fields: "cm_text (unlabel x) = cm_text x" "cm_own (unlabel x) = cm_own x" "cm_name (unlabel x) = cm_name x" for x
    by (simp_all add: unlabel_def)
  note l = last_shown [OF assms, of t]
  show ?thesis using arg_cong [OF l, of cm_text] arg_cong [OF l, of cm_own] arg_cong [OF l, of cm_name]
    unfolding fields by (simp add: Let_def) (simp add: msg_view_def new_message_def)
qed

text \<open>What the sender uploads when the message comes back.\<close>

lemma new_message_uploads:
  assumes "send_fits name txt ups" "u = ct_user c" "ct_out c = []" "ct_uploads c = ups"
  shows "let c' = handle_chat_message CL CHAT_MESSAGE (msg_bytes (new_message d ch u name txt t ups)) c
    in ct_out c' = map (\<lambda>(f, pu). UploadFile (word_of_int (a_id f)) (pu_data pu)) (zip (new_attachments d t ups) ups)
       \<and> ct_uploads c' = []"
proof -
  let ?w = "new_message d ch u name txt t ups"
  have "wm_attachments ?w = map row_attachment (new_attachments d t ups)" "wm_sender ?w = ct_user c"
    using assms(2) by (simp_all add: new_message_def)
  then show ?thesis using uploads_started [OF new_message_fits [OF assms(1)], of d ch u t c CL] assms(3,4)
    by (simp add: zip_map1 comp_def case_prod_beta row_attachment_def Let_def)
qed

lemma compose_kept: "ct_compose (handle_chat_message CL CHAT_MESSAGE d c) = ct_compose c"
  by (simp add: handle_chat_message_def on_chat_message_def upload_pending_def fold_uploads show_message_def mark_unread_def Let_def
      split: prod.split)

text \<open>(C13) A message sent arrives, with its files. A user who is signed in sends a text with the files that can be read,
  in a channel that exists, within the length the server allows: the server stores it as the newest message
  of the channel under the sender's name; it is the last one the sender sees, marked as their own, and the
  last one every signed-in client sees that has the channel open, with that text and name; and the sender
  then uploads each file, in order, under the id the server gave the attachment of that name.\<close>

theorem sent_message_arrives:
  assumes views: "chat_ok CL i (a, st)" "chat_ok CL j (b, st)" "ct_active b = ct_active a"
    and sender: "ct_user a = s_user_id (objs st i)" "\<exists>u \<in> set (users (db st)). u_id u = sint (s_user_id (objs st i))"
    and composed: "ct_active a \<noteq> 0" "ct_compose a \<noteq> [] \<or> ct_files a \<noteq> []"
    and channel: "get_text_channel (ct_active a) (db st) \<noteq> None" "int (length (ct_compose a)) \<le> max_message_length (chat cfg)"
    and bounds: "next_message (db st) < 2 ^ 63" "send_fits (s_username (objs st i)) (ct_compose a) (read_uploads read_file (ct_files a))"
  shows "let (a', st') = exchange cfg L e CL i (on_send_message read_file) (a, st); b' = deliver CL j (out st') b;
             m = last (visible (ct_active a) (db st')); ups = read_uploads read_file (ct_files a);
             files = get_attachments_for_message (word_of_int (m_id m)) (db st')
     in visible (ct_active a) (db st') = visible (ct_active a) (db st) @ [m]
        \<and> m_text m = ct_compose a \<and> m_sender_name m = s_username (objs st i)
        \<and> cm_text (last (ct_messages a')) = ct_compose a \<and> cm_own (last (ct_messages a'))
        \<and> cm_text (last (ct_messages b')) = ct_compose a \<and> cm_name (last (ct_messages b')) = s_username (objs st i)
        \<and> map a_file_name files = map pu_path ups
        \<and> ct_out a' = map (\<lambda>(f, pu). UploadFile (word_of_int (a_id f)) (pu_data pu)) (zip files ups)
        \<and> ct_uploads a' = [] \<and> ct_compose a' = []"
proof -
  let ?s = "objs st i" let ?d = "db st" let ?t = "unix_time e" let ?ch = "ct_active a" let ?ups = "read_uploads read_file (ct_files a)"
  let ?txt = "ct_compose a" let ?d' = "sent_db ?d ?ch ?s ?txt ?t ?ups" let ?m = "new_row ?d ?ch (s_user_id ?s) (s_username ?s) ?txt ?t"
  let ?w = "new_message ?d ?ch (s_user_id ?s) (s_username ?s) ?txt ?t ?ups" let ?st = "st\<lparr>out := []\<rparr>"
  let ?c1 = "on_send_message read_file (a\<lparr>ct_out := []\<rparr>)"
  have base: "chat_db ?d" "tuned_in i st" "in_sync CL ?d a" "tuned_in j st" "in_sync CL ?d b"
    using views by (simp_all add: chat_ok_def)
  have "\<not> refused cfg ?d ?ch ?s ?txt ?t" by (rule not_refused [OF base(1) bounds(1) sender(2) channel])
  then have sent: "handle_chat_send cfg e i (chat_send_payload ?ch ?txt ?ups) ?st
      = send_all s_authenticated CHAT_MESSAGE (msg_bytes ?w) (?st\<lparr>db := ?d'\<rparr>)"
    using handle_chat_send_cases [of ?st i ?txt ?ups cfg ?ch e] base(1) bounds tuned_session(2) [OF base(2)] by simp
  have out: "ct_out ?c1 = [ChatSent CHAT_SEND (chat_send_payload ?ch ?txt ?ups)]"
    using composed by (auto simp: on_send_message_def chat_do_def Let_def)
  have c1: "ct_messages ?c1 = ct_messages a" "ct_active ?c1 = ?ch" "ct_user ?c1 = ct_user a" "ct_more ?c1 = ct_more a"
    "ct_uploads ?c1 = ?ups" "ct_compose ?c1 = []"
    using composed by (auto simp: on_send_message_def chat_do_def Let_def)
  define st' where "st' = send_all s_authenticated CHAT_MESSAGE (msg_bytes ?w) (?st\<lparr>db := ?d'\<rparr>)"
  define a' where "a' = handle_chat_message CL CHAT_MESSAGE (msg_bytes ?w) (?c1\<lparr>ct_out := []\<rparr>)"
  define b' where "b' = handle_chat_message CL CHAT_MESSAGE (msg_bytes ?w) b"
  have "tuned_in i (?st\<lparr>db := ?d'\<rparr>)" "tuned_in j (?st\<lparr>db := ?d'\<rparr>)" using base(2,4) by (simp_all add: tuned_in_def)
  then have heard: "deliver CL i (out st') (?c1\<lparr>ct_out := []\<rparr>) = a'" "deliver CL j (out st') b = b'"
    using broadcast_heard unfolding st'_def a'_def b'_def by simp_all
  have x: "exchange cfg L e CL i (on_send_message read_file) (a, st) = (a', st')"
    using exchange_one [where act = "on_send_message read_file", OF out base(2)] tuned_session(1) [OF base(2)] heard(1) sent
    by (simp add: handle_message_def st'_def Let_def)
  have db: "db st' = ?d'" by (simp add: st'_def send_all_out)
  have vis: "visible ?ch ?d' = visible ?ch ?d @ [?m]" using visible_stored [OF base(1)] by (simp add: sent_db_def)
  let ?fs = "new_attachments ?d ?t ?ups"
  have files: "get_attachments_for_message (word_of_int (m_id ?m)) ?d' = ?fs"
    using attachments_new [OF base(1) bounds(1)] by (simp add: sent_db_def new_row_def)
  have "in_sync CL ?d (?c1\<lparr>ct_out := []\<rparr>)" using base(3) in_sync_cong [of "?c1\<lparr>ct_out := []\<rparr>" a CL ?d] c1 by simp
  from last_seen [OF base(1) bounds this, of ?ch ?t] last_seen [OF base(1) bounds base(5) views(3), of ?t]
  have seen: "cm_text (last (ct_messages a')) = ?txt" "cm_own (last (ct_messages a'))" "cm_text (last (ct_messages b')) = ?txt"
    "cm_name (last (ct_messages b')) = s_username ?s"
    using sender(1) by (simp_all add: a'_def b'_def c1 Let_def)
  have up: "ct_out a' = map (\<lambda>(f, pu). UploadFile (word_of_int (a_id f)) (pu_data pu)) (zip ?fs ?ups)" "ct_uploads a' = []"
    using new_message_uploads [OF bounds(2), of "s_user_id ?s" "?c1\<lparr>ct_out := []\<rparr>" CL ?d ?ch ?t] sender(1) c1(3,5)
    by (simp_all add: a'_def Let_def)
  have "ct_compose a' = []" using c1(6) by (simp add: a'_def compose_kept)
  moreover have "map a_file_name ?fs = map pu_path ?ups" unfolding new_attachments_def by (rule stored_rows_shape(2))
  moreover have "m_text ?m = ?txt" "m_sender_name ?m = s_username ?s" by (simp_all add: new_row_def)
  ultimately show ?thesis unfolding x Let_def prod.case
    using seen up by (simp add: db vis files heard(2))
qed


section \<open>A conversation\<close>

definition demo_clock :: chat_lib where
  "demo_clock = \<lparr>lib_localtime = (\<lambda>_. None), lib_strftime = (\<lambda>_ _. []), lib_one_decimal = (\<lambda>_ _. []), lib_now = 0\<rparr>"

definition demo_members :: database where
  "demo_members = snd (create_user [2] (str ''ben'') [98] 3 5 (snd (create_user [1] (str ''ann'') [97] 3 5 create_schema)))"

definition demo_member :: "u32 \<Rightarrow> session" where
  "demo_member i = (new_session i)\<lparr>s_alive := True, s_control_stream := Some 0, s_authenticated := True, s_user_id := i,
     s_username := (if i = 1 then str ''ann'' else str ''ben'')\<rparr>"

definition demo_lounge :: srv where
  "demo_lounge = (empty_srv demo_members)\<lparr>objs := demo_member, sessions := [1, 2]\<rparr>"

definition demo_opened :: "chat_ui \<times> srv" where
  "demo_opened = exchange demo_cfg demo_libs Server_Reach.demo_env demo_clock 1 (on_select_channel 1) (new_chat 1, demo_lounge)"

definition demo_dialogue :: "chat_ui \<times> srv" where
  "demo_dialogue = overhear demo_cfg demo_libs Server_Reach.demo_env demo_clock 1 2 CHAT_SEND (chat_send_payload 1 (str ''hi'') []) demo_opened"

lemma demo_members_facts:
  "db_inv demo_members" "messages demo_members = []" "message_seq demo_members = 0"
  by (unfold demo_members_def, intro db_invs create_schema_inv) (simp_all add: create_user_def create_schema_def)

lemma demo_lounge_facts: "chat_db (db demo_lounge)" "tuned_in 1 demo_lounge" "tuned_in 2 demo_lounge"
  using demo_members_facts
  by (simp_all add: chat_db_def small_ids_def rows_fit_def demo_lounge_def empty_srv_def tuned_in_def demo_member_def)

lemma demo_opened_server: "db (snd demo_opened) = demo_members" "sessions (snd demo_opened) = [1, 2]" "objs (snd demo_opened) = demo_member"
proof -
  have "chat_db (db (snd (new_chat 1, demo_lounge)))" "tuned_in 1 (snd (new_chat 1, demo_lounge))" using demo_lounge_facts by simp_all
  from select_exchange [OF this, of demo_cfg demo_libs Server_Reach.demo_env demo_clock 1 "fst demo_opened" "snd demo_opened"]
  have "same_server demo_lounge (snd demo_opened)" by (simp add: demo_opened_def Let_def)
  then show "db (snd demo_opened) = demo_members" "sessions (snd demo_opened) = [1, 2]" "objs (snd demo_opened) = demo_member"
    by (simp_all add: same_server_def demo_lounge_def empty_srv_def)
qed

lemma demo_dialogue_steps: "(chat_step demo_cfg demo_libs demo_clock 1)\<^sup>*\<^sup>* demo_opened demo_dialogue"
proof -
  have "chat_step demo_cfg demo_libs demo_clock 1 demo_opened demo_dialogue"
    unfolding demo_dialogue_def
    by (rule chat_step.other_sends) (simp_all add: demo_opened_server demo_members_facts next_message_def demo_member_def
        send_fits_def string_fits_def str_def)
  then show ?thesis by simp
qed

lemma demo_opened_client: "ct_messages (fst demo_opened) = []" "ct_active (fst demo_opened) = 1" "ct_user (fst demo_opened) = 1"
proof -
  have "chat_db (db (snd (new_chat 1, demo_lounge)))" "tuned_in 1 (snd (new_chat 1, demo_lounge))" using demo_lounge_facts by simp_all
  from select_exchange [OF this, of demo_cfg demo_libs Server_Reach.demo_env demo_clock 1 "fst demo_opened" "snd demo_opened"]
  show "ct_messages (fst demo_opened) = []" "ct_active (fst demo_opened) = 1" "ct_user (fst demo_opened) = 1"
    by (simp_all add: demo_opened_def Let_def shown_def visible_def demo_lounge_def empty_srv_def demo_members_facts new_chat_def
        assign_date_labels_def)
qed

lemma demo_not_refused: "\<not> refused demo_cfg demo_members 1 (demo_member i) (str ''hi'') t" if "i = 1 \<or> i = 2"
  using that by (auto simp: refused_def demo_cfg_def demo_members_def demo_member_def create_user_def create_schema_def
      get_text_channel_def insert_message_def)

definition demo_sent :: database where
  "demo_sent = sent_db demo_members 1 (demo_member 2) (str ''hi'') (unix_time Server_Reach.demo_env) []"

definition demo_hi :: wire_message where
  "demo_hi = new_message demo_members 1 2 (str ''ben'') (str ''hi'') (unix_time Server_Reach.demo_env) []"

lemma demo_fits: "send_fits (str ''ben'') (str ''hi'') []"
  by (simp add: send_fits_def string_fits_def str_def)

lemma demo_dialogue_server:
  "snd demo_dialogue = send_all s_authenticated CHAT_MESSAGE (msg_bytes demo_hi) ((snd demo_opened)\<lparr>out := [], db := demo_sent\<rparr>)"
  "fst demo_dialogue = deliver demo_clock 1 (out (snd demo_dialogue)) (fst demo_opened)"
proof -
  let ?st = "(snd demo_opened)\<lparr>out := []\<rparr>"
  have two: "s_user_id (demo_member 2) = 2" "s_username (demo_member 2) = str ''ben''" "s_authenticated (demo_member 2)"
    by (simp_all add: demo_member_def)
  have "chat_db demo_members" using demo_lounge_facts(1) by (simp add: demo_lounge_def empty_srv_def)
  then have "handle_chat_send demo_cfg Server_Reach.demo_env 2 (chat_send_payload 1 (str ''hi'') []) ?st
      = send_all s_authenticated CHAT_MESSAGE (msg_bytes demo_hi) (?st\<lparr>db := demo_sent\<rparr>)"
    using handle_chat_send_cases [of ?st 2 "str ''hi''" "[]" demo_cfg 1 Server_Reach.demo_env] demo_fits
    by (simp add: demo_opened_server two demo_not_refused demo_members_facts next_message_def demo_hi_def demo_sent_def)
  then show "snd demo_dialogue = send_all s_authenticated CHAT_MESSAGE (msg_bytes demo_hi) ((snd demo_opened)\<lparr>out := [], db := demo_sent\<rparr>)"
    "fst demo_dialogue = deliver demo_clock 1 (out (snd demo_dialogue)) (fst demo_opened)"
    by (simp_all add: demo_dialogue_def overhear_def handle_message_def get_session_def demo_opened_server Let_def)
qed

lemma demo_dialogue_fields:
  "map cm_text (ct_messages (fst demo_dialogue)) = [str ''hi'']" "map cm_id (ct_messages (fst demo_dialogue)) = [1]"
  "ct_active (fst demo_dialogue) = 1" "ct_user (fst demo_dialogue) = 1"
  "length (visible 1 (db (snd demo_dialogue))) = 1" "tuned_in 1 (snd demo_dialogue)" "db (snd demo_dialogue) = demo_sent"
proof -
  let ?st = "(snd demo_opened)\<lparr>out := [], db := demo_sent\<rparr>" let ?c = "fst demo_opened"
  have cdb: "chat_db demo_members" using demo_lounge_facts(1) by (simp add: demo_lounge_def empty_srv_def)
  show tuned: "tuned_in 1 (snd demo_dialogue)" by (simp add: demo_dialogue_server(1) send_all_out tuned_in_def demo_opened_server demo_member_def)
  then have "fst demo_dialogue = handle_chat_message demo_clock CHAT_MESSAGE (msg_bytes demo_hi) ?c"
    unfolding demo_dialogue_server by (subst broadcast_heard) (simp_all add: send_all_out tuned_in_def)
  also have "\<dots> = show_message demo_clock (msg_view demo_clock 1 demo_hi) (upload_pending (msg_view demo_clock 1 demo_hi) ?c)"
    using message_taken [OF new_message_fits [OF demo_fits], of demo_clock demo_members 1 2 "unix_time Server_Reach.demo_env" ?c]
    by (simp add: handle_chat_message_def Let_def demo_opened_client new_message_def demo_hi_def)
  finally show "map cm_text (ct_messages (fst demo_dialogue)) = [str ''hi'']" "map cm_id (ct_messages (fst demo_dialogue)) = [1]"
    "ct_active (fst demo_dialogue) = 1" "ct_user (fst demo_dialogue) = 1"
    by (simp_all add: show_message_def put_message_def demo_opened_client MAX_SHOWN_def assign_date_labels_def Let_def
        msg_view_def new_message_def demo_hi_def next_message_def demo_members_facts)
  show db: "db (snd demo_dialogue) = demo_sent" by (simp add: demo_dialogue_server(1) send_all_out)
  have "visible 1 demo_members = []" by (simp add: visible_def demo_members_facts)
  then show "length (visible 1 (db (snd demo_dialogue))) = 1"
    unfolding db using visible_stored [OF cdb] by (simp add: demo_sent_def sent_db_def)
qed

text \<open>The user pins the message.\<close>

definition demo_pinned :: "chat_ui \<times> srv" where
  "demo_pinned = exchange demo_cfg demo_libs Server_Reach.demo_env demo_clock 1 (on_pin_message 1) demo_dialogue"

definition demo_row :: message_row where
  "demo_row = new_row demo_members 1 2 (str ''ben'') (str ''hi'') (unix_time Server_Reach.demo_env)"

lemma demo_sent_row: "get_message 1 demo_sent = Some demo_row" "get_attachments_for_message 1 demo_sent = []"
proof -
  have "attachments demo_members = []" by (simp add: demo_members_def create_user_def create_schema_def)
  then show "get_message 1 demo_sent = Some demo_row" "get_attachments_for_message 1 demo_sent = []"
    by (simp_all add: demo_sent_def sent_db_def stored_def get_message_def demo_row_def new_row_def new_attachments_def next_message_def
        demo_members_facts get_attachments_for_message_def demo_member_def)
qed

lemma demo_pin_seen: "pin_seen 1 (db (snd demo_dialogue)) (fst demo_dialogue)"
proof -
  have "1 \<in> set (map cm_id (ct_messages (fst demo_dialogue)))" unfolding demo_dialogue_fields by simp
  then have "1 \<in> cm_id ` set (ct_messages (fst demo_dialogue))" unfolding set_map .
  then show ?thesis by (simp add: pin_seen_def demo_dialogue_fields demo_sent_row)
qed

lemma demo_pinned_steps: "(chat_step demo_cfg demo_libs demo_clock 1)\<^sup>*\<^sup>* demo_opened demo_pinned"
proof -
  have "chat_step demo_cfg demo_libs demo_clock 1 demo_dialogue demo_pinned"
    using chat_step.pins [OF demo_pin_seen, of demo_cfg demo_libs demo_clock 1 Server_Reach.demo_env True] by (simp add: demo_pinned_def)
  then show ?thesis using demo_dialogue_steps by simp
qed

lemma demo_pinned_fields:
  "map cm_pinned (ct_messages (fst demo_pinned)) = [True]" "ct_active (fst demo_pinned) = 1" "length (visible 1 (db (snd demo_pinned))) = 1"
proof -
  let ?c = "(fst demo_dialogue)\<lparr>ct_out := []\<rparr>" and ?st = "(snd demo_dialogue)\<lparr>out := []\<rparr>" and ?n = "msg_view demo_clock 1 (pin_news True demo_sent demo_row)"
  let ?st' = "send_all s_authenticated CHAT_MESSAGE (msg_bytes (pin_news True demo_sent demo_row)) (?st\<lparr>db := pin_db True 1 demo_sent\<rparr>)"
  note d = demo_dialogue_fields
  have auth: "s_authenticated (objs (snd demo_dialogue) 1)" using d(6) by (simp add: tuned_in_def)
  obtain r where r: "read_u64 (new_reader (write_u64 1 [])) = (1, r)" "ahead r []"
    using ahead_u64 [of "new_reader (write_u64 1 [])" 1 "[]"] ahead_new by (auto simp: writer_defs)
  have "handle_pin 1 (write_u64 1 []) ?st = ?st'"
    using r auth write_row_pin [of demo_row True demo_sent] by (simp add: handle_pin_def d(7) demo_sent_row pin_db_def flag8_def)
  then have x: "demo_pinned = (deliver demo_clock 1 (out ?st') ?c, ?st')"
    using exchange_one [where act = "on_pin_message 1" and c = "fst demo_dialogue" and st = "snd demo_dialogue" and sid = 1] d(6) tuned_session(1)
    by (simp add: demo_pinned_def on_pin_message_def chat_do_def handle_message_def Let_def)
  have "tuned_in 1 (?st\<lparr>db := pin_db True 1 demo_sent\<rparr>)" using d(6) by (simp add: tuned_in_def)
  then have heard: "fst demo_pinned = handle_chat_message demo_clock CHAT_MESSAGE (msg_bytes (pin_news True demo_sent demo_row)) ?c"
    unfolding x fst_conv by (rule broadcast_heard) simp
  have "msg_fits (pin_news True demo_sent demo_row)"
    by (simp add: pin_news_def row_message_def msg_fits_def demo_row_def new_row_def string_fits_def str_def)
  note t = message_taken [OF this, of demo_clock ?c]
  obtain m where m: "ct_messages (fst demo_dialogue) = [m]" "cm_id m = 1" using d(2) by (auto simp: map_eq_Cons_conv)
  have n: "cm_id ?n = 1" "cm_pinned ?n" "wm_channel (pin_news True demo_sent demo_row) = 1"
    by (simp_all add: msg_view_def pin_news_def row_message_def demo_row_def new_row_def next_message_def demo_members_facts flag8_def)
  show "map cm_pinned (ct_messages (fst demo_pinned)) = [True]" "ct_active (fst demo_pinned) = 1"
    unfolding heard using t m n d(3,4)
    by (simp_all add: handle_chat_message_def show_message_def put_message_def MAX_SHOWN_def assign_date_labels_def Let_def)
  show "length (visible 1 (db (snd demo_pinned))) = 1" using d(5) by (simp add: x send_all_out visible_pin d(7))
qed

text \<open>The message is shown, pinned, as the server stores it.\<close>

theorem chat_shows_the_channel_witness:
  "ct_messages (fst demo_pinned) = assign_date_labels demo_clock (map (\<lambda>m. msg_view demo_clock (ct_user (fst demo_pinned))
     (row_message (db (snd demo_pinned)) m)) (visible 1 (db (snd demo_pinned))))
   \<and> map cm_pinned (ct_messages (fst demo_pinned)) = [True]"
proof -
  have "(chat_step demo_cfg demo_libs demo_clock 1)\<^sup>*\<^sup>* (exchange demo_cfg demo_libs Server_Reach.demo_env demo_clock 1
      (on_select_channel 1) (new_chat 1, demo_lounge)) (fst demo_pinned, snd demo_pinned)"
    using demo_pinned_steps by (simp add: demo_opened_def)
  from chat_shows_the_channel [OF demo_lounge_facts(1,2) this] obtain k where k: "k \<le> 1"
    "ct_messages (fst demo_pinned) = assign_date_labels demo_clock (map (\<lambda>m. msg_view demo_clock (ct_user (fst demo_pinned))
     (row_message (db (snd demo_pinned)) m)) (drop k (visible 1 (db (snd demo_pinned)))))"
    unfolding demo_pinned_fields(2,3) by blast
  have "k = 0"
  proof (rule ccontr)
    assume "k \<noteq> 0"
    then have "ct_messages (fst demo_pinned) = []" using k demo_pinned_fields(3) by (simp add: assign_date_labels_def)
    then show False using demo_pinned_fields(1) by simp
  qed
  then show ?thesis using k(2) demo_pinned_fields(1) by simp
qed

theorem paging_shows_everything_witness:
  "let (c, st) = (exchange demo_cfg demo_libs Server_Reach.demo_env demo_clock 1 on_load_more_history ^^ 1) demo_dialogue
   in length (ct_messages c) = 1 \<and> \<not> ct_more c \<and> db st = db (snd demo_dialogue)"
proof -
  have "(chat_step demo_cfg demo_libs demo_clock 1)\<^sup>*\<^sup>* (exchange demo_cfg demo_libs Server_Reach.demo_env demo_clock 1
      (on_select_channel 1) (new_chat 1, demo_lounge)) (fst demo_dialogue, snd demo_dialogue)"
    using demo_dialogue_steps by (simp add: demo_opened_def)
  moreover have "ct_messages (fst demo_dialogue) \<noteq> []" using demo_dialogue_fields(1) by auto
  moreover have "length (visible (ct_active (fst demo_dialogue)) (db (snd demo_dialogue))) \<le> 30 * 1" by (simp add: demo_dialogue_fields(3,5))
  ultimately have "let (c, st) = (exchange demo_cfg demo_libs Server_Reach.demo_env demo_clock 1 on_load_more_history ^^ 1)
        (fst demo_dialogue, snd demo_dialogue)
     in ct_messages c = assign_date_labels demo_clock (map (\<lambda>m. msg_view demo_clock (ct_user (fst demo_dialogue))
          (row_message (db (snd demo_dialogue)) m)) (visible (ct_active (fst demo_dialogue)) (db (snd demo_dialogue))))
        \<and> \<not> ct_more c \<and> ct_active c = ct_active (fst demo_dialogue) \<and> db st = db (snd demo_dialogue)"
    by (rule paging_shows_everything [OF demo_lounge_facts(1,2)])
  moreover have "length (assign_date_labels CL xs) = length xs" for CL xs by (metis labels_ids length_map)
  ultimately show ?thesis by (auto simp: demo_dialogue_fields(3-5) Let_def split: prod.splits)
qed

definition demo_writer :: chat_ui where
  "demo_writer = (new_chat 1)\<lparr>ct_active := 1, ct_compose := str ''see'',
     ct_files := [\<lparr>pfl_name = str ''a.txt'', pfl_size_str = [], pfl_path = str ''/tmp/a.txt''\<rparr>]\<rparr>"

lemma demo_chats_ok: "chat_ok demo_clock 1 (demo_writer, demo_lounge)" "chat_ok demo_clock 2 ((new_chat 2)\<lparr>ct_active := 1\<rparr>, demo_lounge)"
  using demo_lounge_facts demo_members_facts
  by (simp_all add: chat_ok_def in_sync_def demo_writer_def new_chat_def shown_def visible_def assign_date_labels_def demo_lounge_def
      empty_srv_def)

theorem sent_message_arrives_witness:
  "let (a, st) = exchange demo_cfg demo_libs Server_Reach.demo_env demo_clock 1 (on_send_message (\<lambda>_. Some [7])) (demo_writer, demo_lounge);
       b = deliver demo_clock 2 (out st) ((new_chat 2)\<lparr>ct_active := 1\<rparr>)
   in cm_text (last (ct_messages a)) = str ''see'' \<and> cm_text (last (ct_messages b)) = str ''see''
      \<and> cm_name (last (ct_messages b)) = str ''ann'' \<and> length (visible 1 (db st)) = 1"
proof -
  have w: "ct_active demo_writer = 1" "ct_compose demo_writer = str ''see''" "ct_user demo_writer = 1"
    "read_uploads (\<lambda>_. Some [7]) (ct_files demo_writer) = [\<lparr>pu_path = str ''a.txt'', pu_data = [7]\<rparr>]"
    by (simp_all add: demo_writer_def new_chat_def read_uploads_def)
  have s: "objs demo_lounge 1 = demo_member 1" "s_username (demo_member 1) = str ''ann''" "s_user_id (demo_member 1) = 1"
    "db demo_lounge = demo_members"
    by (simp_all add: demo_lounge_def empty_srv_def demo_member_def)
  have d: "\<exists>u \<in> set (users demo_members). u_id u = 1" "get_text_channel 1 demo_members \<noteq> None"
    "int (length (str ''see'')) \<le> max_message_length (chat demo_cfg)" "visible 1 demo_members = []"
    by (simp_all add: demo_members_def create_user_def create_schema_def get_text_channel_def demo_cfg_def visible_def)
  have fits: "send_fits (str ''ann'') (str ''see'') [\<lparr>pu_path = str ''a.txt'', pu_data = [7]\<rparr>]"
    by (simp add: send_fits_def string_fits_def upload_fits_def str_def)
  note l = sent_message_arrives [OF demo_chats_ok, where cfg = demo_cfg and L = demo_libs and e = Server_Reach.demo_env
      and read_file = "\<lambda>_. Some [7]", unfolded w s]
  have "str ''see'' \<noteq> []" by (simp add: str_def)
  moreover have "length xs = 1" if "xs = [last xs]" for xs :: "message_row list" using that by (metis length_Cons list.size(3) One_nat_def)
  ultimately show ?thesis using l d fits
    by (simp add: new_chat_def demo_members_facts next_message_def Let_def split: prod.splits)
qed

end
