(* ===== verification/Spec2Isabelle.thy ===== *)
theory Spec2Isabelle
  imports Frame_Streams Reorder_Complete Server_Query Server_Forward Chat_Safety Send_Control_Proofs Client_Room
    Client_Reconnect Voice_Mixing Decode_Proofs Chat_End_To_End
begin

text \<open>
  Verification of Parties, a self-hosted voice chat and screen sharing system.

  \<^bold>\<open>The program.\<close> Clients keep one QUIC connection to a server. On it run a control stream
  (length-prefixed messages), a legacy video stream, one unidirectional stream per video frame, file
  streams, and datagrams for voice, screen-share audio and keyframe requests. The server
  (\<open>server/src\<close>) is a single main loop over the queues its transport fills, with a SQLite store; it
  never decodes media, it forwards it. The client (\<open>client/src\<close>) is a core (\<open>AppCore\<close>) that reacts to the
  user, to the server's messages and to a tick, around a voice mixer, one decode thread per watched
  stream and the platform's capture and display. \<open>common/\<close> holds what both sides share: the wire format,
  the protocol constants, permissions, and the algorithms of the video path.

  \<^bold>\<open>Shared.\<close>
    \<^item> \<open>Prelude\<close>: shared types (\<open>u8 .. u64\<close>, \<open>bytes\<close>), lemma collections and list and word lemmas.
    \<^item> \<open>Serialization\<close>: \<open>BinaryWriter\<close> and \<open>BinaryReader\<close> (\<open>common/src/serialization.cpp\<close>); a reader is the
      buffer, a position and the sticky error flag. Every field written is read back.
    \<^item> \<open>Protocol\<close>: message types, versions, stream ids (\<open>common/include/parties/protocol.h\<close>).
    \<^item> \<open>Permissions\<close>: roles and rights (\<open>permissions.h\<close>, \<open>permissions.cpp\<close>).
    \<^item> \<open>Video_Common\<close>: the 14-byte frame header and sequence comparison (\<open>video_common.h\<close>).
    \<^item> \<open>Ordered_Map\<close>, \<open>Frame_Reorder\<close>, \<open>Reorder_Complete\<close>: \<open>VideoFrameReorderBuffer\<close>
      (\<open>common/src/video_frame_reorder.cpp\<close>); \<open>Ordered_Map\<close> is the interface of \<open>std::map\<close>. What comes out can
      be decoded, and everything comes out when everything arrives in time.
    \<^item> \<open>Float64\<close>, \<open>Video_Backlog\<close>, \<open>Datagram_Backlog\<close>: \<open>video_backlog.h\<close> and \<open>datagram_backlog.h\<close>, doubles as
      rationals rounded to 53 bits.
    \<^item> \<open>Video_Playout\<close>: the playout clock (\<open>video_playout.cpp\<close>) and how long it can hold a frame back.
    \<^item> \<open>Receive_Router\<close>, \<open>Router_Refine\<close>: \<open>video_receive_router.cpp\<close>, refined to one reorder buffer per stream.
    \<^item> \<open>Send_Controller\<close>, \<open>Send_Control_Proofs\<close>: \<open>video_send_controller.cpp\<close> and \<open>rate_control.h\<close>: the bitrate
      stays within its limits and comes back on a clean link.

  \<^bold>\<open>Transport.\<close>
    \<^item> \<open>Framing\<close>: cutting a byte stream into messages, whatever the chunks.
    \<^item> \<open>Quic_Sessions\<close>, \<open>Quic_Streams\<close>: \<open>server/src/quic_server.cpp\<close>: sessions created and retired by the
      connection callbacks, the streams of a session, their buffers and their budget.
    \<^item> \<open>Net_Client\<close>: \<open>client/src/net_client_msquic.cpp\<close>.
    \<^item> \<open>Server_System\<close>, \<open>End_To_End\<close>, \<open>Frame_Streams\<close>: the server with its streams as one system: the memory of
      incoming video is bounded by a budget per session, control messages and published frames arrive as sent.
    \<^item> \<open>Server_Query\<close>: the connectionless query (\<open>server_query.cpp\<close>, \<open>QuicServer::on_unconnected_query\<close>).

  \<^bold>\<open>Server.\<close>
    \<^item> \<open>Database\<close>: \<open>server/src/database.cpp\<close>, each member as the meaning of its SQL on lists of rows. Its
      invariant: unique ids and columns, valid references.
    \<^item> \<open>Server_State\<close>: \<open>session.h\<close>, the members of \<open>Server\<close> and \<open>QuicServer\<close>, the transport calls.
    \<^item> \<open>Server_Video\<close>, \<open>Server_Auth\<close>, \<open>Server_Channels\<close>, \<open>Server_Chat\<close>, \<open>Server_Loop\<close>: \<open>server/src/server.cpp\<close>, one
      definition per member function and per case of \<open>handle_message\<close>.
    \<^item> \<open>Lobby\<close>, \<open>Server_Frame\<close>, \<open>Server_Refine\<close>, \<open>Server_Invariant\<close>, \<open>Server_Reach\<close>: an abstract lobby (who is
      signed in, where, publishing and watching what), the refinement of every handler to an operation
      of it, the invariant of the server state, and the states a server reaches.
    \<^item> \<open>Server_Seats\<close>, \<open>Server_Security\<close>, \<open>Server_Access\<close>, \<open>Server_Forward\<close>, \<open>Chat_Safety\<close>: limits of channels; sign-in
      needs a fresh signature, roles change only by right; who is not signed in has no effect; frames go
      only to those who watch them; names of stored files stay inside the store.

  \<^bold>\<open>Client.\<close>
    \<^item> \<open>Client_State\<close>, \<open>Client_Watch\<close>, \<open>Client_Media\<close>, \<open>Client_Session\<close>, \<open>Client_Actions\<close>: \<open>client/src/app_core.cpp\<close>,
      \<open>lobby_model.cpp\<close> and \<open>document_router.h\<close>: watching streams, publishing, the session with its messages, what
      the user does and the tick.
    \<^item> \<open>Client_Invariant\<close>, \<open>Client_Reach\<close>: the invariant of the watched streams, over every state a client reaches.
    \<^item> \<open>Client_Server\<close>, \<open>Client_Room\<close>: client and server together: signing in, the roster of a channel, voice.
    \<^item> \<open>Client_Reconnect\<close>: when the client reconnects, and that it stops.
    \<^item> \<open>Client_Chat\<close>, \<open>Chat_View\<close>, \<open>Chat_Rows\<close>, \<open>Chat_Sync\<close>, \<open>Chat_Updates\<close>, \<open>Chat_End_To_End\<close>: text chat (\<open>chat_model.h\<close>
      and the chat part of \<open>app_core.cpp\<close>), what parsing makes of the server's rows, the exchanges of a client
      with a server that others write to as well, pins, files and text channels that change under it, the steps
      of a conversation: what is shown is a run of the channel, paging back shows all of it, a message sent
      arrives with its files. What the steps leave out is listed below.
    \<^item> \<open>Voice_Mixer\<close>, \<open>Voice_Proofs\<close>, \<open>Voice_Mixing\<close>: \<open>client/src/voice_mixer.cpp\<close>: the jitter buffer refines a
      reference on unbounded packet numbers, plays in order and does not starve; cutting the audio callback
      differently changes nothing without compression.
    \<^item> \<open>Video_Decode\<close>, \<open>Decode_Proofs\<close>: \<open>video_decode_gate.h\<close>, \<open>video_decode_backlog.h\<close> and the decode thread of
      \<open>client/src/windows/app.cpp\<close>: each delta given to the decoder succeeds the frame it decoded last, unless
      the codec or size changed and a new decoder took its place, and keyframes are asked for rarely.

  \<^bold>\<open>Conventions.\<close> Byte and microsecond counters of type \<open>int64_t\<close> are integers, \<open>size_t\<close> is \<open>nat\<close>, wire and
  sequence numbers are words. A \<open>shared_ptr<Session>\<close> is a session id. Effects on the world are values
  appended to \<open>out\<close> (server) or \<open>c_out\<close>, \<open>ct_out\<close> (client); the clock, randomness and the status codes of MsQuic
  are inputs of each step; Ed25519, SHA-256, SQLite's full-text match, libopus, float arithmetic of
  samples, local time and number formatting are parameters.

  \<^bold>\<open>Bounds.\<close> Loops are structural recursions or have a termination proof; no fuel is used in the
  model (the pages of \<open>Database.history\<close> are counted, and the theorem says how many are enough). Where
  numbers wrap, the theorems say how far they hold: fewer than 2^32 connections and 2^31 accounts, ids of
  messages below 2^63, a clock at 30 seconds or later for the replay window, voice packets within half the
  number space of the playout position, fewer than 2^32 uses of the flush tracker. The chat theorems take each
  request as answered before the next step; what overlapping requests can do is not covered by them. A
  conversation (\<open>Chat_Updates.chat_step\<close>) starts when a text channel is opened and lasts until the user leaves it
  or the session ends. It has no step for what the code itself does not show to the client as it is stored:
  a pin or unpin of a message of the open channel that has files, which vanish from the view, or that is not
  displayed, which is then shown as the newest (lemmas \<open>pin_loses_files\<close>, \<open>unseen_pin_comes_last\<close>); the deletion of the
  text channel that is open, whose messages stay on the screen (\<open>deleted_channel_stays_shown\<close>); and the purge of
  old messages and files, which is not announced. The theorem on the video decoder says where a stream that
  changes its codec or size without a keyframe meets a decoder that does not hold its reference.

  \<^bold>\<open>Not modelled.\<close> Third-party and vendored code (renderers, fonts, encoders, decoders, MsQuic, SQLite), the
  platform front ends and capture, audio devices and echo cancellation, the data bindings of the user
  interface, settings, updates, logging and configuration parsing, the diagnostics overlay, text selection
  in the chat, and the designer tool: they call libraries and the operating system and keep no state the
  protocol depends on. Of the client core, audio device and preference callbacks, the speaking indicator and server
  list polling are left out.
\<close>

end
